(* ===== verification/PW_Prelude.thy ===== *)
theory PW_Prelude
  imports Main "HOL-Library.Word"
begin

text \<open>
  Shared vocabulary of the development: the machine-integer types of the C sources, results
  with a status code, the loop shapes the sources use (a scan that stops at the first hit, a
  loop that threads a state and may return early, a nested loop over pairs), big- and
  little-endian byte assembly, and the generic facts about them that the components use.
\<close>

unbundle bit_operations_syntax

section \<open>Types\<close>

type_synonym u8 = "8 word"
type_synonym u16 = "16 word"
type_synonym u32 = "32 word"
type_synonym u64 = "64 word"
type_synonym u128 = "128 word"
type_synonym bytes = "8 word list"

section \<open>Named collections\<close>

named_theorems res_simps \<open>results with an error status: binding and inversion\<close>
named_theorems scan_simps \<open>first-hit scans and early-return loops\<close>

section \<open>Results\<close>

text \<open>
  A C function that returns a status and fills an output is a value of a sum: the left side is
  the status of an early return, the right side the output of the successful path.
\<close>

definition rbind :: "'e + 'a \<Rightarrow> ('a \<Rightarrow> 'e + 'b) \<Rightarrow> 'e + 'b" where
  "rbind m f = (case m of Inl e \<Rightarrow> Inl e | Inr a \<Rightarrow> f a)"

text \<open>\<open>fail_if c e\<close> is \<open>if (c) return e;\<close>.\<close>

definition fail_if :: "bool \<Rightarrow> 'e \<Rightarrow> 'e + unit" where
  "fail_if c e = (if c then Inl e else Inr ())"

text \<open>\<open>or_fail x e\<close> returns \<open>e\<close> when a helper reports failure (a false return, a NULL).\<close>

definition or_fail :: "'a option \<Rightarrow> 'e \<Rightarrow> 'e + 'a" where
  "or_fail x e = (case x of None \<Rightarrow> Inl e | Some a \<Rightarrow> Inr a)"

text \<open>A loop that threads a state and returns at the first failing iteration.\<close>

fun fold_res :: "('s \<Rightarrow> 'a \<Rightarrow> 'e + 's) \<Rightarrow> 's \<Rightarrow> 'a list \<Rightarrow> 'e + 's" where
  "fold_res f s [] = Inr s"
| "fold_res f s (x # xs) = rbind (f s x) (\<lambda>s'. fold_res f s' xs)"

text \<open>A loop that fills an array element by element and returns at the first failure.\<close>

fun map_res :: "('a \<Rightarrow> 'e + 'b) \<Rightarrow> 'a list \<Rightarrow> 'e + 'b list" where
  "map_res f [] = Inr []"
| "map_res f (x # xs) = rbind (f x) (\<lambda>y. rbind (map_res f xs) (\<lambda>ys. Inr (y # ys)))"

section \<open>Scans\<close>

text \<open>The first \<open>Some\<close> of a scan: a loop that returns at its first hit.\<close>

fun first_some :: "('a \<Rightarrow> 'b option) \<Rightarrow> 'a list \<Rightarrow> 'b option" where
  "first_some f [] = None"
| "first_some f (x # xs) = (case f x of None \<Rightarrow> first_some f xs | Some b \<Rightarrow> Some b)"

text \<open>The nested loop \<open>for i ... for j = i + 1 ...\<close> that returns at its first hit.\<close>

fun first_pair :: "('a \<Rightarrow> 'a \<Rightarrow> 'b option) \<Rightarrow> 'a list \<Rightarrow> 'b option" where
  "first_pair f [] = None"
| "first_pair f (x # xs) =
     (case first_some (f x) xs of None \<Rightarrow> first_pair f xs | Some b \<Rightarrow> Some b)"

text \<open>The index of the first element that satisfies a test.\<close>

fun find_idx :: "('a \<Rightarrow> bool) \<Rightarrow> 'a list \<Rightarrow> nat option" where
  "find_idx P [] = None"
| "find_idx P (x # xs) = (if P x then Some 0 else map_option Suc (find_idx P xs))"

section \<open>Bytes and words\<close>

text \<open>The C idiom \<open>(b0 << 24) | (b1 << 16) | (b2 << 8) | b3\<close>.\<close>

definition be32 :: "u8 \<Rightarrow> u8 \<Rightarrow> u8 \<Rightarrow> u8 \<Rightarrow> u32" where
  "be32 b0 b1 b2 b3 =
     push_bit 24 (ucast b0) OR push_bit 16 (ucast b1) OR push_bit 8 (ucast b2) OR ucast b3"

definition be16 :: "u8 \<Rightarrow> u8 \<Rightarrow> u16" where
  "be16 b0 b1 = push_bit 8 (ucast b0) OR ucast b1"

definition le32 :: "u8 \<Rightarrow> u8 \<Rightarrow> u8 \<Rightarrow> u8 \<Rightarrow> u32" where
  "le32 b0 b1 b2 b3 = be32 b3 b2 b1 b0"

text \<open>Word \<open>w\<close> (four bytes, most significant first) of a byte array.\<close>

definition be_word :: "bytes \<Rightarrow> nat \<Rightarrow> u32" where
  "be_word bs w = be32 (bs ! (4 * w)) (bs ! (4 * w + 1)) (bs ! (4 * w + 2)) (bs ! (4 * w + 3))"

text \<open>The little-endian byte images of integers, as a packed struct lays them out.\<close>

definition le16_bytes :: "u16 \<Rightarrow> bytes" where
  "le16_bytes v = [ucast v, ucast (drop_bit 8 v)]"

definition le32_bytes :: "u32 \<Rightarrow> bytes" where
  "le32_bytes v = [ucast v, ucast (drop_bit 8 v), ucast (drop_bit 16 v), ucast (drop_bit 24 v)]"

definition le64_bytes :: "u64 \<Rightarrow> bytes" where
  "le64_bytes v = le32_bytes (ucast v) @ le32_bytes (ucast (drop_bit 32 v))"

section \<open>Decimal numerals\<close>

text \<open>What \<open>printf("%u")\<close> writes.\<close>

fun dec_string :: "nat \<Rightarrow> string" where
  "dec_string n =
     (if n < 10 then [char_of (48 + n)] else dec_string (n div 10) @ [char_of (48 + n mod 10)])"

declare dec_string.simps [simp del]

section \<open>Facts about results\<close>

lemma rbind_Inl [simp, res_simps]: "rbind (Inl e) f = Inl e"
  by (simp add: rbind_def)

lemma rbind_Inr [simp, res_simps]: "rbind (Inr a) f = f a"
  by (simp add: rbind_def)

lemma rbind_eq_Inr [res_simps]: "rbind m f = Inr b \<longleftrightarrow> (\<exists>a. m = Inr a \<and> f a = Inr b)"
  by (cases m) auto

lemma rbind_eq_Inl [res_simps]:
  "rbind m f = Inl e \<longleftrightarrow> m = Inl e \<or> (\<exists>a. m = Inr a \<and> f a = Inl e)"
  by (cases m) auto

lemma rbind_assoc: "rbind (rbind m f) g = rbind m (\<lambda>a. rbind (f a) g)"
  by (cases m) auto

lemma fail_if_eq_Inr [simp, res_simps]: "fail_if c e = Inr u \<longleftrightarrow> \<not> c"
  by (simp add: fail_if_def)

lemma fail_if_eq_Inl [simp, res_simps]: "fail_if c e = Inl e' \<longleftrightarrow> c \<and> e = e'"
  by (auto simp: fail_if_def)

lemma fail_if_simps [simp]: "fail_if True e = Inl e" "fail_if False e = Inr ()"
  by (simp_all add: fail_if_def)

lemma or_fail_eq_Inr [simp, res_simps]: "or_fail x e = Inr a \<longleftrightarrow> x = Some a"
  by (cases x) (auto simp: or_fail_def)

lemma or_fail_eq_Inl [simp, res_simps]: "or_fail x e = Inl e' \<longleftrightarrow> x = None \<and> e = e'"
  by (cases x) (auto simp: or_fail_def)

lemma or_fail_simps [simp]: "or_fail None e = Inl e" "or_fail (Some a) e = Inr a"
  by (simp_all add: or_fail_def)

lemma fold_res_append:
  "fold_res f s (xs @ ys) = rbind (fold_res f s xs) (\<lambda>s'. fold_res f s' ys)"
  by (induction xs arbitrary: s) (simp_all add: rbind_assoc)

text \<open>An invariant of one iteration is an invariant of the loop.\<close>

lemma fold_res_inv:
  assumes "fold_res f s xs = Inr t" and "I s"
    and "\<And>s x s'. x \<in> set xs \<Longrightarrow> I s \<Longrightarrow> f s x = Inr s' \<Longrightarrow> I s'"
  shows "I t"
  using assms
proof (induction xs arbitrary: s)
  case Nil
  then show ?case by simp
next
  case (Cons x xs)
  from Cons.prems(1) obtain s' where s': "f s x = Inr s'" "fold_res f s' xs = Inr t"
    by (auto simp: rbind_eq_Inr)
  have "I s'" using Cons.prems(2,3) s'(1) by (meson list.set_intros(1))
  with s'(2) show ?case
  proof (rule Cons.IH)
    show "I t'" if "y \<in> set xs" "I t" "f t y = Inr t'" for t y t'
      by (rule Cons.prems(3) [of y t]) (use that in simp_all)
  qed
qed

text \<open>The errors of a loop are errors of an iteration from a state that satisfies the invariant.\<close>

lemma fold_res_err:
  assumes "fold_res f s xs = Inl e" and "I s"
    and "\<And>s x s'. x \<in> set xs \<Longrightarrow> I s \<Longrightarrow> f s x = Inr s' \<Longrightarrow> I s'"
    and "\<And>s x. x \<in> set xs \<Longrightarrow> I s \<Longrightarrow> f s x = Inl e \<Longrightarrow> Q"
  shows Q
  using assms
proof (induction xs arbitrary: s)
  case Nil
  then show ?case by simp
next
  case (Cons x xs)
  show ?case
  proof (cases "f s x")
    case (Inl e')
    with Cons.prems show ?thesis by (auto intro: Cons.prems(4) [of x s])
  next
    case (Inr s')
    with Cons.prems(1) have "fold_res f s' xs = Inl e" by simp
    moreover have "I s'" using Cons.prems(2,3) Inr by (meson list.set_intros(1))
    ultimately show ?thesis
    proof (rule Cons.IH)
      show "I t'" if "y \<in> set xs" "I t" "f t y = Inr t'" for t y t'
        by (rule Cons.prems(3) [of y t]) (use that in simp_all)
      show Q if "y \<in> set xs" "I t" "f t y = Inl e" for t y
        by (rule Cons.prems(4) [of y t]) (use that in simp_all)
    qed
  qed
qed

lemma map_res_eq_Inr:
  "map_res f xs = Inr ys \<longleftrightarrow> list_all2 (\<lambda>x y. f x = Inr y) xs ys"
proof (induction xs arbitrary: ys)
  case Nil
  then show ?case by auto
next
  case (Cons x xs)
  then show ?case by (cases ys) (auto simp: rbind_eq_Inr)
qed

lemma map_res_length: "map_res f xs = Inr ys \<Longrightarrow> length ys = length xs"
  by (simp add: map_res_eq_Inr list_all2_lengthD)

lemma map_res_set: "map_res f xs = Inr ys \<Longrightarrow> y \<in> set ys \<Longrightarrow> \<exists>x\<in>set xs. f x = Inr y"
  by (fastforce simp: map_res_eq_Inr list_all2_conv_all_nth in_set_conv_nth)

section \<open>Facts about scans\<close>

lemma first_some_None [scan_simps]: "first_some f xs = None \<longleftrightarrow> (\<forall>x\<in>set xs. f x = None)"
  by (induction xs) (auto split: option.splits)

text \<open>A second check runs only when the first one passed.\<close>

lemma then_check_None [scan_simps]:
  "(case x of None \<Rightarrow> y | Some e \<Rightarrow> Some e) = None \<longleftrightarrow> x = None \<and> y = None"
  by (cases x) auto

lemma first_some_SomeD: "first_some f xs = Some b \<Longrightarrow> \<exists>x\<in>set xs. f x = Some b"
  by (induction xs) (auto split: option.splits)

lemma first_some_append:
  "first_some f (xs @ ys) = (case first_some f xs of None \<Rightarrow> first_some f ys | Some b \<Rightarrow> Some b)"
  by (induction xs) (auto split: option.splits)

lemma first_some_cong:
  "(\<And>x. x \<in> set xs \<Longrightarrow> f x = g x) \<Longrightarrow> first_some f xs = first_some g xs"
  by (induction xs) (auto split: option.splits)

lemma first_pair_None:
  "first_pair f xs = None \<longleftrightarrow> (\<forall>i j. i < j \<longrightarrow> j < length xs \<longrightarrow> f (xs ! i) (xs ! j) = None)"
proof (induction xs)
  case Nil
  then show ?case by simp
next
  case (Cons x xs)
  have "first_pair f (x # xs) = None \<longleftrightarrow>
      (\<forall>y\<in>set xs. f x y = None) \<and>
      (\<forall>i j. i < j \<longrightarrow> j < length xs \<longrightarrow> f (xs ! i) (xs ! j) = None)"
  proof (cases "first_some (f x) xs")
    case None
    then show ?thesis by (simp add: Cons.IH first_some_None [of "f x", symmetric])
  next
    case (Some b)
    from first_some_SomeD [OF this] have "\<not> (\<forall>y\<in>set xs. f x y = None)" by force
    with Some show ?thesis by simp
  qed
  also have "\<dots> \<longleftrightarrow>
      (\<forall>i j. i < j \<longrightarrow> j < length (x # xs) \<longrightarrow> f ((x # xs) ! i) ((x # xs) ! j) = None)"
    (is "?L \<longleftrightarrow> ?R")
  proof
    assume L: ?L
    show ?R
    proof (intro allI impI)
      fix i j :: nat
      assume ij: "i < j" "j < length (x # xs)"
      then obtain j' where j': "j = Suc j'" by (cases j) auto
      show "f ((x # xs) ! i) ((x # xs) ! j) = None"
        using L ij j' by (cases i) auto
    qed
  next
    assume R: ?R
    have "f x y = None" if y: "y \<in> set xs" for y
    proof -
      from y obtain j where "j < length xs" "y = xs ! j" by (auto simp: in_set_conv_nth)
      with R [rule_format, of 0 "Suc j"] show ?thesis by simp
    qed
    moreover have "f (xs ! i) (xs ! j) = None" if "i < j" "j < length xs" for i j
      using R [rule_format, of "Suc i" "Suc j"] that by simp
    ultimately show ?L by blast
  qed
  finally show ?case .
qed

lemma distinct_map_iff_pairs:
  "distinct (map k xs) \<longleftrightarrow> (\<forall>i j. i < j \<longrightarrow> j < length xs \<longrightarrow> k (xs ! i) \<noteq> k (xs ! j))"
proof
  assume d: "distinct (map k xs)"
  show "\<forall>i j. i < j \<longrightarrow> j < length xs \<longrightarrow> k (xs ! i) \<noteq> k (xs ! j)"
    using d by (fastforce simp: distinct_conv_nth)
next
  assume R: "\<forall>i j. i < j \<longrightarrow> j < length xs \<longrightarrow> k (xs ! i) \<noteq> k (xs ! j)"
  show "distinct (map k xs)"
    unfolding distinct_conv_nth
  proof (intro allI impI)
    fix i j
    assume "i < length (map k xs)" "j < length (map k xs)" "i \<noteq> j"
    then show "map k xs ! i \<noteq> map k xs ! j"
      using R [rule_format, of i j] R [rule_format, of j i] by (cases "i < j") auto
  qed
qed

lemma find_idx_None [scan_simps]: "find_idx P xs = None \<longleftrightarrow> (\<forall>x\<in>set xs. \<not> P x)"
  by (induction xs) auto

lemma find_idx_Some:
  "find_idx P xs = Some i \<Longrightarrow> i < length xs \<and> P (xs ! i) \<and> (\<forall>j < i. \<not> P (xs ! j))"
proof (induction xs arbitrary: i)
  case Nil
  then show ?case by simp
next
  case (Cons x xs)
  show ?case
  proof (cases "P x")
    case True
    with Cons.prems show ?thesis by simp
  next
    case False
    with Cons.prems obtain i' where i': "find_idx P xs = Some i'" "i = Suc i'" by auto
    from Cons.IH [OF i'(1)] False i'(2) show ?thesis
      by (auto simp: less_Suc_eq_0_disj)
  qed
qed

lemma find_SomeD: "find P xs = Some x \<Longrightarrow> x \<in> set xs \<and> P x"
  by (auto simp: find_Some_iff)

lemma find_unique:
  assumes "x \<in> set xs" and "P x" and "\<And>y. y \<in> set xs \<Longrightarrow> P y \<Longrightarrow> y = x"
  shows "find P xs = Some x"
proof (cases "find P xs")
  case None
  with assms(1,2) show ?thesis by (simp add: find_None_iff)
next
  case (Some y)
  from find_SomeD [OF Some] have "y = x" using assms(3) by blast
  with Some show ?thesis by simp
qed

section \<open>Facts about words\<close>

lemma bit_be32:
  "bit (be32 a b c d) n \<longleftrightarrow>
     (if n < 8 then bit d n else if n < 16 then bit c (n - 8)
      else if n < 24 then bit b (n - 16) else n < 32 \<and> bit a (n - 24))"
  by (auto simp: be32_def bit_simps dest: bit_imp_le_length)

lemma be32_inj: "be32 a b c d = be32 a' b' c' d' \<Longrightarrow> a = a' \<and> b = b' \<and> c = c' \<and> d = d'"
proof -
  assume eq: "be32 a b c d = be32 a' b' c' d'"
  have B: "bit (be32 a b c d) n = bit (be32 a' b' c' d') n" for n using eq by simp
  have "bit a n = bit a' n" "bit b n = bit b' n" "bit c n = bit c' n" "bit d n = bit d' n"
    if "n < 8" for n
    using B [of "n + 24"] B [of "n + 16"] B [of "n + 8"] B [of n] that by (auto simp: bit_be32)
  then show ?thesis
    by (intro conjI; intro bit_word_eqI; simp)
qed

lemma le_bytes_length [simp]:
  "length (le16_bytes v) = 2" "length (le32_bytes w) = 4" "length (le64_bytes x) = 8"
  by (simp_all add: le16_bytes_def le32_bytes_def le64_bytes_def)

lemma le32_le32_bytes:
  "le32 (ucast v) (ucast (drop_bit 8 v)) (ucast (drop_bit 16 v)) (ucast (drop_bit 24 v)) = v"
  by (rule bit_word_eqI) (auto simp: le32_def bit_be32 bit_simps)

lemma be32_be32_bytes:
  "be32 (ucast (drop_bit 24 v)) (ucast (drop_bit 16 v)) (ucast (drop_bit 8 v)) (ucast v) = v"
  using le32_le32_bytes [of v] by (simp add: le32_def)

lemma le32_bytes_le32 [simp]: "le32_bytes (le32 a b c d) = [a, b, c, d]"
proof -
  have "ucast (le32 a b c d) = a" "ucast (drop_bit 8 (le32 a b c d)) = b"
    "ucast (drop_bit 16 (le32 a b c d)) = c" "ucast (drop_bit 24 (le32 a b c d)) = d"
    by (rule bit_word_eqI; simp add: le32_def bit_be32 bit_simps)+
  then show ?thesis by (simp add: le32_bytes_def)
qed

lemma le32_bytes_inj [simp]: "le32_bytes v = le32_bytes w \<longleftrightarrow> v = w"
  by (metis (no_types, lifting) le32_bytes_def le32_le32_bytes list.inject)

lemma le16_bytes_inj [simp]: "le16_bytes v = le16_bytes w \<longleftrightarrow> v = w"
proof
  assume "le16_bytes v = le16_bytes w"
  then have lo: "ucast v = (ucast w :: u8)"
    and hi: "ucast (drop_bit 8 v) = (ucast (drop_bit 8 w) :: u8)"
    by (simp_all add: le16_bytes_def)
  show "v = w"
  proof (rule bit_word_eqI)
    fix n
    assume n: "n < LENGTH(16)"
    have "bit (ucast v :: u8) n = bit (ucast w :: u8) n" using lo by simp
    moreover have "bit (ucast (drop_bit 8 v) :: u8) (n - 8) = bit (ucast (drop_bit 8 w) :: u8) (n - 8)"
      using hi by simp
    ultimately show "bit v n = bit w n"
      using n by (cases "n < 8") (auto simp: bit_simps)
  qed
qed simp

lemma le64_bytes_inj [simp]: "le64_bytes v = le64_bytes w \<longleftrightarrow> v = w"
proof
  assume "le64_bytes v = le64_bytes w"
  then have lo: "ucast v = (ucast w :: u32)"
    and hi: "ucast (drop_bit 32 v) = (ucast (drop_bit 32 w) :: u32)"
    by (simp_all add: le64_bytes_def)
  show "v = w"
  proof (rule bit_word_eqI)
    fix n
    assume n: "n < LENGTH(64)"
    have "bit (ucast v :: u32) n = bit (ucast w :: u32) n" using lo by simp
    moreover have "bit (ucast (drop_bit 32 v) :: u32) (n - 32) =
        bit (ucast (drop_bit 32 w) :: u32) (n - 32)"
      using hi by simp
    ultimately show "bit v n = bit w n"
      using n by (cases "n < 32") (auto simp: bit_simps)
  qed
qed simp

lemma and_le_mono1: "unat (x AND y) \<le> unat (y :: 'a::len word)"
  by (metis word_and_le1 word_le_nat_alt)

lemma masked_update:
  "((b AND NOT m) OR (r AND m)) AND k = b AND k" if "k AND m = 0"
  for b m r k :: "'a::len word"
proof (rule bit_word_eqI)
  fix n
  assume n: "n < LENGTH('a)"
  have "\<not> (bit k n \<and> bit m n)"
    using that n by (metis bit_and_iff bit_0_eq bot_apply bot_bool_def)
  then show "bit (((b AND NOT m) OR (r AND m)) AND k) n = bit (b AND k) n"
    using n by (auto simp: bit_simps)
qed

section \<open>Facts about decimal numerals\<close>

lemma dec_string_nonempty: "dec_string n \<noteq> []"
  by (subst dec_string.simps) simp

lemma dec_string_length: "n < 10 ^ Suc k \<Longrightarrow> length (dec_string n) \<le> Suc k"
proof (induction k arbitrary: n)
  case 0
  then show ?case by (subst dec_string.simps) simp
next
  case (Suc k)
  show ?case
  proof (cases "n < 10")
    case True
    then show ?thesis by (subst dec_string.simps) simp
  next
    case False
    have "n div 10 < 10 ^ Suc k" using Suc.prems by (simp add: less_mult_imp_div_less mult.commute)
    then have "length (dec_string (n div 10)) \<le> Suc k" by (rule Suc.IH)
    with False show ?thesis by (subst dec_string.simps) simp
  qed
qed

lemma dec_string_length_ge: "10 ^ k \<le> n \<Longrightarrow> Suc k \<le> length (dec_string n)"
proof (induction k arbitrary: n)
  case 0
  show ?case using dec_string_nonempty [of n] by (cases "dec_string n") auto
next
  case (Suc k)
  from Suc.prems have big: "\<not> n < 10"
    by (metis One_nat_def le_add1 le_trans linorder_not_less one_le_power power_Suc
        mult_le_mono2 nat_mult_1_right numeral_One one_le_numeral)
  have "10 ^ k \<le> n div 10" using Suc.prems by (simp add: less_eq_div_iff_mult_less_eq mult.commute)
  then have "Suc k \<le> length (dec_string (n div 10))" by (rule Suc.IH)
  with big show ?case by (subst dec_string.simps) simp
qed

end
