(* ===== verification/PW_Types.thy ===== *)
theory PW_Types
  imports PW_Prelude
begin

text \<open>
  Status codes and the id system: \<^verbatim>\<open>types.h\<close>, \<^verbatim>\<open>types.c\<close>, \<^verbatim>\<open>ids.h\<close> and \<^verbatim>\<open>ids.c\<close> of
  libpacketwyrm. A C string is a \<^typ>\<open>string\<close> without its terminating NUL.
\<close>

section \<open>Limits and status codes\<close>

definition PW_NAME_MAX :: nat where "PW_NAME_MAX = 32"
definition PW_PCI_BDF_MAX :: nat where "PW_PCI_BDF_MAX = 16"
definition PW_MAX_CARDS :: nat where "PW_MAX_CARDS = 16"
definition PW_PORTS_PER_CARD :: nat where "PW_PORTS_PER_CARD = 2"
definition PW_TAP_IFNAME_MAX :: nat where "PW_TAP_IFNAME_MAX = 16"

datatype pw_status =
    PW_OK
  | PW_E_INVAL | PW_E_PARSE | PW_E_DUP_CARD_ID | PW_E_DUP_GLOBAL_PORT | PW_E_DUP_LOGICAL_IF
  | PW_E_DUP_FLOW_ID | PW_E_UNKNOWN_CARD | PW_E_UNKNOWN_GLOBAL_PORT | PW_E_UNKNOWN_LOGICAL_IF
  | PW_E_CROSS_CARD_LATENCY | PW_E_MISSING_FIELD | PW_E_OUT_OF_RANGE
  | PW_E_NO_CARD | PW_E_NO_RESOURCES | PW_E_BACKEND | PW_E_IO | PW_E_OVERFLOW | PW_E_DEGRADED
  | PW_E_NOT_IMPLEMENTED

text \<open>The values of the C enumeration.\<close>

fun status_code :: "pw_status \<Rightarrow> int" where
  "status_code PW_OK = 0"
| "status_code PW_E_INVAL = -1"
| "status_code PW_E_PARSE = -2"
| "status_code PW_E_DUP_CARD_ID = -3"
| "status_code PW_E_DUP_GLOBAL_PORT = -4"
| "status_code PW_E_DUP_LOGICAL_IF = -5"
| "status_code PW_E_DUP_FLOW_ID = -6"
| "status_code PW_E_UNKNOWN_CARD = -7"
| "status_code PW_E_UNKNOWN_GLOBAL_PORT = -8"
| "status_code PW_E_UNKNOWN_LOGICAL_IF = -9"
| "status_code PW_E_CROSS_CARD_LATENCY = -10"
| "status_code PW_E_MISSING_FIELD = -11"
| "status_code PW_E_OUT_OF_RANGE = -12"
| "status_code PW_E_NO_CARD = -20"
| "status_code PW_E_NO_RESOURCES = -21"
| "status_code PW_E_BACKEND = -22"
| "status_code PW_E_IO = -23"
| "status_code PW_E_OVERFLOW = -24"
| "status_code PW_E_DEGRADED = -25"
| "status_code PW_E_NOT_IMPLEMENTED = -99"

fun pw_strerror :: "pw_status \<Rightarrow> string" where
  "pw_strerror PW_OK = ''ok''"
| "pw_strerror PW_E_INVAL = ''invalid argument''"
| "pw_strerror PW_E_PARSE = ''parse error''"
| "pw_strerror PW_E_DUP_CARD_ID = ''duplicate card_id''"
| "pw_strerror PW_E_DUP_GLOBAL_PORT = ''duplicate global_port_id''"
| "pw_strerror PW_E_DUP_LOGICAL_IF = ''duplicate logical_if_id''"
| "pw_strerror PW_E_DUP_FLOW_ID = ''duplicate global_flow_id''"
| "pw_strerror PW_E_UNKNOWN_CARD = ''unknown card''"
| "pw_strerror PW_E_UNKNOWN_GLOBAL_PORT = ''unknown global_port_id''"
| "pw_strerror PW_E_UNKNOWN_LOGICAL_IF = ''unknown logical_if_id''"
| "pw_strerror PW_E_CROSS_CARD_LATENCY = ''cross-card flow does not support latency/jitter''"
| "pw_strerror PW_E_MISSING_FIELD = ''required field missing''"
| "pw_strerror PW_E_OUT_OF_RANGE = ''value out of range''"
| "pw_strerror PW_E_NO_CARD = ''no card with that PCI BDF''"
| "pw_strerror PW_E_NO_RESOURCES = ''out of resources (memory or table slot)''"
| "pw_strerror PW_E_BACKEND = ''backend error''"
| "pw_strerror PW_E_IO = ''I/O error''"
| "pw_strerror PW_E_OVERFLOW = ''value overflow''"
| "pw_strerror PW_E_DEGRADED = ''card is degraded''"
| "pw_strerror PW_E_NOT_IMPLEMENTED = ''not implemented''"

section \<open>Ids\<close>

record pwfpga_port_ref =
  ref_card_id :: u16
  ref_local_port_id :: u8
  ref_global_port_id :: u16

text \<open>
  \<open>pw_tap_name\<close> formats \<^verbatim>\<open>tap-pw-p<gport>-v<vlan>\<close> into a buffer of \<open>buflen\<close> bytes. A name
  that does not fit with its NUL is an error. The C function returns the length; the model
  returns the name it wrote.
\<close>

definition tap_name_text :: "u16 \<Rightarrow> u16 \<Rightarrow> string" where
  "tap_name_text gp vlan =
     ''tap-pw-p'' @ dec_string (unat gp) @ ''-v'' @ dec_string (unat vlan)"

definition pw_tap_name :: "nat \<Rightarrow> u16 \<Rightarrow> u16 \<Rightarrow> pw_status + string" where
  "pw_tap_name buflen gp vlan =
     (if buflen = 0 then Inl PW_E_INVAL
      else let s = tap_name_text gp vlan
           in if length s \<ge> buflen then Inl PW_E_OUT_OF_RANGE else Inr s)"

section \<open>Lemmas\<close>

lemmas pw_limits = PW_NAME_MAX_def PW_PCI_BDF_MAX_def PW_MAX_CARDS_def PW_PORTS_PER_CARD_def
  PW_TAP_IFNAME_MAX_def

lemma status_code_inj: "status_code a = status_code b \<Longrightarrow> a = b"
  by (cases a; cases b; simp)

lemma u16_dec_length: "length (dec_string (unat (x :: u16))) \<le> 5"
proof -
  have "unat x < 2 ^ 16" using unsigned_less [where ?w = x and ?'a = nat] by simp
  then have "unat x < 10 ^ Suc 4" by simp
  from dec_string_length [OF this] show ?thesis by simp
qed

text \<open>Every TAP name fits a \<open>PW_NAME_MAX\<close> buffer.\<close>

lemma tap_name_fits_name_max: "length (tap_name_text gp vlan) < PW_NAME_MAX"
  using u16_dec_length [of gp] u16_dec_length [of vlan]
  by (simp add: tap_name_text_def PW_NAME_MAX_def)

lemma pw_tap_name_name_max: "pw_tap_name PW_NAME_MAX gp vlan = Inr (tap_name_text gp vlan)"
  using tap_name_fits_name_max [of gp vlan]
  by (simp add: pw_tap_name_def Let_def PW_NAME_MAX_def)


section \<open>Properties\<close>

lemma dec_digit: "c \<in> set (dec_string n) \<Longrightarrow> of_char c \<in> {48..<58 :: nat}"
proof (induction n rule: dec_string.induct)
  case (1 n)
  show ?case
  proof (cases "n < 10")
    case True
    with "1.prems" show ?thesis by (simp add: dec_string.simps [of n])
  next
    case False
    with "1.prems" have "c \<in> set (dec_string (n div 10)) \<or> c = char_of (48 + n mod 10)"
      by (auto simp: dec_string.simps [of n])
    then show ?thesis using "1.IH" False by auto
  qed
qed

lemma dec_string_inj: "dec_string m = dec_string n \<Longrightarrow> m = n"
proof (induction m arbitrary: n rule: dec_string.induct)
  case (1 m)
  have ch: "char_of (48 + a) = (char_of (48 + b) :: char) \<longleftrightarrow> a = b" if "a < 10" "b < 10" for a b :: nat
  proof
    assume "char_of (48 + a) = (char_of (48 + b) :: char)"
    then have "of_char (char_of (48 + a) :: char) = (of_char (char_of (48 + b) :: char) :: nat)" by (rule arg_cong)
    with that show "a = b" by simp
  qed simp
  note ne = dec_string_nonempty [of "m div 10"] dec_string_nonempty [of "n div 10"]
  show ?case
  proof (cases "m < 10")
    case True
    then show ?thesis
      using "1.prems" ne by (cases "n < 10") (auto simp: dec_string.simps [of m] dec_string.simps [of n] ch)
  next
    case False
    have n: "\<not> n < 10"
    proof
      assume "n < 10"
      then have "length (dec_string n) = 1" by (simp add: dec_string.simps [of n])
      moreover have "length (dec_string m) > 1" using False ne(1) by (simp add: dec_string.simps [of m])
      ultimately show False using "1.prems" by simp
    qed
    have dm: "dec_string m = dec_string (m div 10) @ [char_of (48 + m mod 10)]" using False by (subst dec_string.simps) simp
    have dn: "dec_string n = dec_string (n div 10) @ [char_of (48 + n mod 10)]" using n by (subst dec_string.simps) simp
    have "dec_string (m div 10) @ [char_of (48 + m mod 10)] = dec_string (n div 10) @ [char_of (48 + n mod 10)]"
      using "1.prems" unfolding dm dn .
    then have e: "dec_string (m div 10) = dec_string (n div 10)"
      "char_of (48 + m mod 10) = (char_of (48 + n mod 10) :: char)" unfolding append1_eq_conv by blast+
    have "m mod 10 = n mod 10" using iffD1 [OF ch e(2)] by simp
    with "1.IH" [OF False e(1)] show ?thesis by (metis div_mult_mod_eq)
  qed
qed

text \<open>
  Default TAP names identify the interface: the name that \<open>pw_tap_name\<close> writes determines port and VLAN,
  and it fits every buffer of \<open>PW_NAME_MAX\<close> bytes; a shorter buffer is refused rather than truncated.
\<close>

lemma tap_name_unique:
  shows "pw_tap_name PW_NAME_MAX gp vlan = Inr (tap_name_text gp vlan) \<and>
    (tap_name_text gp vlan = tap_name_text gp' vlan' \<longleftrightarrow> gp = gp' \<and> vlan = vlan') \<and>
    (pw_tap_name n gp vlan = Inr (tap_name_text gp vlan) \<longleftrightarrow> length (tap_name_text gp vlan) < n)"
proof -
  have no_dash: "CHR ''-'' \<notin> set (dec_string n)" for n
    using dec_digit [of "CHR ''-''" n] by auto
  have "gp = gp' \<and> vlan = vlan'" if eq: "tap_name_text gp vlan = tap_name_text gp' vlan'"
  proof -
    from eq have e: "dec_string (unat gp) @ CHR ''-'' # CHR ''v'' # dec_string (unat vlan) =
        dec_string (unat gp') @ CHR ''-'' # CHR ''v'' # dec_string (unat vlan')" by (simp add: tap_name_text_def)
    have "takeWhile (\<lambda>c. c \<noteq> CHR ''-'') (dec_string m @ CHR ''-'' # r) = dec_string m" for m r
      using no_dash by (subst takeWhile_append2) auto
    then have a: "dec_string (unat gp) = dec_string (unat gp')" using arg_cong [OF e, of "takeWhile (\<lambda>c. c \<noteq> CHR ''-'')"] by simp
    with e have "dec_string (unat vlan) = dec_string (unat vlan')" by simp
    with a show ?thesis using dec_string_inj [of "unat gp" "unat gp'"] dec_string_inj [of "unat vlan" "unat vlan'"]
      by (simp add: unsigned_word_eqI)
  qed
  then show ?thesis
    using pw_tap_name_name_max [of gp vlan] by (auto simp: pw_tap_name_def Let_def)
qed

end
