(* ===== verification/PW_Config.thy ===== *)
theory PW_Config
  imports PW_Types
begin

text \<open>
  The in-memory configuration model of \<^verbatim>\<open>config.h\<close> and the look-ups of \<^verbatim>\<open>config.c\<close>. A struct is
  a record whose fields carry a short prefix naming the struct; a pointer with a count is a
  list; an optional pointer argument that the code tests against NULL is an \<open>option\<close>; a
  fixed byte array is a byte list. Enumerations stored in byte-sized fields stay bytes.
\<close>

section \<open>The configuration records\<close>

record pw_system =
  sys_name :: string
  sys_mode :: string
  sys_default_speed :: string
  sys_stats_poll_interval_ms :: u32
  sys_control_socket :: string
  sys_secret :: string

record pw_card_port =
  cport_local_port :: u8
  cport_global_port :: u16
  cport_name :: string

record pw_card =
  card_id :: u16
  card_name :: string
  card_pci :: string
  card_ports :: "pw_card_port list"

record pw_punt_flags =
  punt_arp :: bool
  punt_ipv6_nd :: bool
  punt_lldp :: bool
  punt_icmp :: bool
  punt_bgp :: bool
  punt_ospf :: bool
  punt_is_is :: bool

record pw_logical_if =
  lif_id :: u32
  lif_name :: string
  lif_global_port :: u16
  lif_vlan :: u16
  lif_mac :: bytes
  lif_mtu :: u16
  lif_netns :: string
  lif_punt :: pw_punt_flags

record pw_flow_l2 =
  l2_src_mac :: bytes
  l2_dst_mac :: bytes
  l2_vlan_set :: bool
  l2_vlan :: u16
  l2_pcp :: u8
  l2_ethertype :: u16

record pw_flow_ipv4 =
  v4_present :: bool
  v4_src :: u32
  v4_dst :: u32
  v4_ttl :: u8
  v4_dscp :: u8

record pw_flow_ipv6 =
  v6_present :: bool
  v6_src :: bytes
  v6_dst :: bytes
  v6_hop_limit :: u8
  v6_dscp :: u8

definition PW_ENCAP_NONE :: u8 where "PW_ENCAP_NONE = 0"
definition PW_ENCAP_IPIP :: u8 where "PW_ENCAP_IPIP = 1"
definition PW_ENCAP_GRE :: u8 where "PW_ENCAP_GRE = 2"
definition PW_ENCAP_ETHERIP :: u8 where "PW_ENCAP_ETHERIP = 3"

record pw_flow_encap =
  enc_present :: bool
  enc_type :: u8
  enc_outer_ipv4 :: pw_flow_ipv4
  enc_outer_ipv6 :: pw_flow_ipv6
  enc_inner_mac_set :: bool
  enc_inner_src_mac :: bytes
  enc_inner_dst_mac :: bytes

definition PW_RX_INNER :: u8 where "PW_RX_INNER = 0"
definition PW_RX_TUNNELED :: u8 where "PW_RX_TUNNELED = 1"

record pw_flow_udp =
  udp_src_port :: u16
  udp_dst_port :: u16
  udp_l4_proto :: u8
  udp_tcp_flags :: u8

definition PW_FRAME_TEMPLATE_TEST :: u8 where "PW_FRAME_TEMPLATE_TEST = 0"
definition PW_FRAME_TEMPLATE_L4RAW :: u8 where "PW_FRAME_TEMPLATE_L4RAW = 1"
definition PW_FRAME_TEMPLATE_L3RAW :: u8 where "PW_FRAME_TEMPLATE_L3RAW = 2"
definition PW_FRAME_TEMPLATE_L2RAW :: u8 where "PW_FRAME_TEMPLATE_L2RAW = 3"

record pw_flow_traffic =
  tr_frame_template :: u8
  tr_frame_len_fixed_set :: bool
  tr_frame_len_fixed :: u16
  tr_frame_len_min :: u16
  tr_frame_len_max :: u16
  tr_frame_len_step :: u16
  tr_rate_bps :: u64
  tr_rate_pps :: u64
  tr_burst_size :: u32
  tr_burst_gap_ticks :: u32
  tr_payload_mode :: u8
  tr_payload_seed :: u32
  tr_insert_sequence :: bool
  tr_insert_timestamp :: bool

record pw_flow_meas =
  meas_loss :: bool
  meas_latency :: bool
  meas_jitter :: bool

record pw_field_mod =
  fm_mode :: u8
  fm_mask :: u64

record pw_flow_modifiers =
  mod_src_ipv4 :: pw_field_mod
  mod_dst_ipv4 :: pw_field_mod
  mod_udp_src :: pw_field_mod
  mod_udp_dst :: pw_field_mod
  mod_src_mac :: pw_field_mod
  mod_dst_mac :: pw_field_mod
  mod_vlan :: pw_field_mod
  mod_src_ipv6_mask :: bytes
  mod_dst_ipv6_mask :: bytes

record pw_flow =
  flow_id :: u32
  flow_name :: string
  flow_tx_global_port :: u16
  flow_rx_global_port :: u16
  flow_logical_if_id :: u32
  flow_l2 :: pw_flow_l2
  flow_ipv4 :: pw_flow_ipv4
  flow_ipv6 :: pw_flow_ipv6
  flow_udp :: pw_flow_udp
  flow_traffic :: pw_flow_traffic
  flow_meas :: pw_flow_meas
  flow_mod :: pw_flow_modifiers
  flow_background :: bool
  flow_encap :: pw_flow_encap
  flow_rx_expect :: u8
  flow_match_udp_dst_mask :: u16
  flow_match_ipv4_dst_mask :: u32
  flow_match_ipv6_dst_set :: bool
  flow_match_ipv6_dst_mask :: bytes
  flow_match_ipv6_src_set :: bool
  flow_match_ipv6_src_mask :: bytes
  flow_classify_header :: bool

record pw_forward_rule =
  fwd_name :: string
  fwd_ingress_port :: u16
  fwd_egress_port :: u16
  fwd_priority :: u8
  fwd_ethertype :: u16
  fwd_ip_proto :: u8
  fwd_udp_dst :: u16
  fwd_vlan :: u16
  fwd_ipv6_dst_set :: bool
  fwd_ipv6_dst :: bytes
  fwd_ipv6_dst_mask :: bytes
  fwd_ipv6_src_set :: bool
  fwd_ipv6_src :: bytes
  fwd_ipv6_src_mask :: bytes

record pw_config =
  cfg_system :: pw_system
  cfg_cards :: "pw_card list"
  cfg_logical_if :: "pw_logical_if list"
  cfg_flows :: "pw_flow list"
  cfg_forwards :: "pw_forward_rule list"

section \<open>Zero-initialised structs\<close>

text \<open>What \<open>calloc\<close> and \<open>= {0}\<close> give the parser to fill.\<close>

definition zero_bytes :: "nat \<Rightarrow> bytes" where
  "zero_bytes n = replicate n 0"

definition zero_system :: pw_system where
  "zero_system = \<lparr>sys_name = [], sys_mode = [], sys_default_speed = [],
     sys_stats_poll_interval_ms = 0, sys_control_socket = [], sys_secret = []\<rparr>"

definition zero_punt :: pw_punt_flags where
  "zero_punt = \<lparr>punt_arp = False, punt_ipv6_nd = False, punt_lldp = False, punt_icmp = False,
     punt_bgp = False, punt_ospf = False, punt_is_is = False\<rparr>"

definition zero_l2 :: pw_flow_l2 where
  "zero_l2 = \<lparr>l2_src_mac = zero_bytes 6, l2_dst_mac = zero_bytes 6, l2_vlan_set = False,
     l2_vlan = 0, l2_pcp = 0, l2_ethertype = 0\<rparr>"

definition zero_ipv4 :: pw_flow_ipv4 where
  "zero_ipv4 = \<lparr>v4_present = False, v4_src = 0, v4_dst = 0, v4_ttl = 0, v4_dscp = 0\<rparr>"

definition zero_ipv6 :: pw_flow_ipv6 where
  "zero_ipv6 = \<lparr>v6_present = False, v6_src = zero_bytes 16, v6_dst = zero_bytes 16,
     v6_hop_limit = 0, v6_dscp = 0\<rparr>"

definition zero_encap :: pw_flow_encap where
  "zero_encap = \<lparr>enc_present = False, enc_type = 0, enc_outer_ipv4 = zero_ipv4,
     enc_outer_ipv6 = zero_ipv6, enc_inner_mac_set = False, enc_inner_src_mac = zero_bytes 6,
     enc_inner_dst_mac = zero_bytes 6\<rparr>"

definition zero_udp :: pw_flow_udp where
  "zero_udp = \<lparr>udp_src_port = 0, udp_dst_port = 0, udp_l4_proto = 0, udp_tcp_flags = 0\<rparr>"

definition zero_traffic :: pw_flow_traffic where
  "zero_traffic = \<lparr>tr_frame_template = 0, tr_frame_len_fixed_set = False,
     tr_frame_len_fixed = 0, tr_frame_len_min = 0, tr_frame_len_max = 0, tr_frame_len_step = 0,
     tr_rate_bps = 0, tr_rate_pps = 0, tr_burst_size = 0, tr_burst_gap_ticks = 0,
     tr_payload_mode = 0, tr_payload_seed = 0, tr_insert_sequence = False,
     tr_insert_timestamp = False\<rparr>"

definition zero_meas :: pw_flow_meas where
  "zero_meas = \<lparr>meas_loss = False, meas_latency = False, meas_jitter = False\<rparr>"

definition zero_field_mod :: pw_field_mod where
  "zero_field_mod = \<lparr>fm_mode = 0, fm_mask = 0\<rparr>"

definition zero_modifiers :: pw_flow_modifiers where
  "zero_modifiers = \<lparr>mod_src_ipv4 = zero_field_mod, mod_dst_ipv4 = zero_field_mod,
     mod_udp_src = zero_field_mod, mod_udp_dst = zero_field_mod, mod_src_mac = zero_field_mod,
     mod_dst_mac = zero_field_mod, mod_vlan = zero_field_mod, mod_src_ipv6_mask = zero_bytes 16,
     mod_dst_ipv6_mask = zero_bytes 16\<rparr>"

definition zero_flow :: pw_flow where
  "zero_flow = \<lparr>flow_id = 0, flow_name = [], flow_tx_global_port = 0, flow_rx_global_port = 0,
     flow_logical_if_id = 0, flow_l2 = zero_l2, flow_ipv4 = zero_ipv4, flow_ipv6 = zero_ipv6,
     flow_udp = zero_udp, flow_traffic = zero_traffic, flow_meas = zero_meas,
     flow_mod = zero_modifiers, flow_background = False, flow_encap = zero_encap,
     flow_rx_expect = 0, flow_match_udp_dst_mask = 0, flow_match_ipv4_dst_mask = 0,
     flow_match_ipv6_dst_set = False, flow_match_ipv6_dst_mask = zero_bytes 16,
     flow_match_ipv6_src_set = False, flow_match_ipv6_src_mask = zero_bytes 16,
     flow_classify_header = False\<rparr>"

definition zero_forward :: pw_forward_rule where
  "zero_forward = \<lparr>fwd_name = [], fwd_ingress_port = 0, fwd_egress_port = 0, fwd_priority = 0,
     fwd_ethertype = 0, fwd_ip_proto = 0, fwd_udp_dst = 0, fwd_vlan = 0,
     fwd_ipv6_dst_set = False, fwd_ipv6_dst = zero_bytes 16, fwd_ipv6_dst_mask = zero_bytes 16,
     fwd_ipv6_src_set = False, fwd_ipv6_src = zero_bytes 16, fwd_ipv6_src_mask = zero_bytes 16\<rparr>"

definition pw_config_new :: pw_config where
  "pw_config_new = \<lparr>cfg_system = zero_system, cfg_cards = [], cfg_logical_if = [],
     cfg_flows = [], cfg_forwards = []\<rparr>"

section \<open>Look-ups\<close>

definition pw_config_card_by_id :: "pw_config option \<Rightarrow> u16 \<Rightarrow> pw_card option" where
  "pw_config_card_by_id c cid =
     (case c of None \<Rightarrow> None | Some cfg \<Rightarrow> find (\<lambda>cd. card_id cd = cid) (cfg_cards cfg))"

definition pw_config_logical_if_by_id :: "pw_config option \<Rightarrow> u32 \<Rightarrow> pw_logical_if option" where
  "pw_config_logical_if_by_id c lid =
     (case c of None \<Rightarrow> None | Some cfg \<Rightarrow> find (\<lambda>l. lif_id l = lid) (cfg_logical_if cfg))"

definition pw_config_flow_by_id :: "pw_config option \<Rightarrow> u32 \<Rightarrow> pw_flow option" where
  "pw_config_flow_by_id c fid =
     (case c of None \<Rightarrow> None | Some cfg \<Rightarrow> find (\<lambda>f. flow_id f = fid) (cfg_flows cfg))"

text \<open>The nested loop of \<open>pw_config_resolve_port\<close>: cards in order, ports of a card in order.\<close>

definition card_port_hit :: "u16 \<Rightarrow> pw_card \<Rightarrow> pwfpga_port_ref option" where
  "card_port_hit gp c =
     map_option (\<lambda>p. \<lparr>ref_card_id = card_id c, ref_local_port_id = cport_local_port p,
                      ref_global_port_id = gp\<rparr>)
       (find (\<lambda>p. cport_global_port p = gp) (card_ports c))"

definition resolve_port :: "pw_card list \<Rightarrow> u16 \<Rightarrow> pwfpga_port_ref option" where
  "resolve_port cards gp = first_some (card_port_hit gp) cards"

definition pw_config_resolve_port :: "pw_config option \<Rightarrow> u16 \<Rightarrow> pw_status + pwfpga_port_ref" where
  "pw_config_resolve_port c gp =
     (case c of None \<Rightarrow> Inl PW_E_INVAL
      | Some cfg \<Rightarrow> or_fail (resolve_port (cfg_cards cfg) gp) PW_E_UNKNOWN_GLOBAL_PORT)"

text \<open>
  \<open>pw_config_clone_env\<close> copies system, cards and logical interfaces and leaves flows and
  forwards empty (the allocations succeed).
\<close>

definition pw_config_clone_env :: "pw_config option \<Rightarrow> pw_config option" where
  "pw_config_clone_env src =
     map_option (\<lambda>s. pw_config_new\<lparr>cfg_system := cfg_system s, cfg_cards := cfg_cards s,
                                   cfg_logical_if := cfg_logical_if s\<rparr>) src"

section \<open>Lemmas\<close>

lemmas pw_enums = PW_ENCAP_NONE_def PW_ENCAP_IPIP_def PW_ENCAP_GRE_def PW_ENCAP_ETHERIP_def
  PW_RX_INNER_def PW_RX_TUNNELED_def PW_FRAME_TEMPLATE_TEST_def PW_FRAME_TEMPLATE_L4RAW_def
  PW_FRAME_TEMPLATE_L3RAW_def PW_FRAME_TEMPLATE_L2RAW_def

text \<open>All ports of a configuration, with the card each belongs to.\<close>

definition all_ports :: "pw_card list \<Rightarrow> (pw_card \<times> pw_card_port) list" where
  "all_ports cards = concat (map (\<lambda>c. map (Pair c) (card_ports c)) cards)"

lemma all_ports_set: "set (all_ports cards) = {(c, p). c \<in> set cards \<and> p \<in> set (card_ports c)}"
  by (auto simp: all_ports_def)

lemma all_ports_Cons: "all_ports (c # cs) = map (Pair c) (card_ports c) @ all_ports cs"
  by (simp add: all_ports_def)

lemma card_port_hit_SomeD:
  "card_port_hit gp c = Some r \<Longrightarrow>
     \<exists>p\<in>set (card_ports c). cport_global_port p = gp \<and>
       r = \<lparr>ref_card_id = card_id c, ref_local_port_id = cport_local_port p, ref_global_port_id = gp\<rparr>"
  by (auto simp: card_port_hit_def dest: find_SomeD)

lemma resolve_port_SomeD:
  "resolve_port cards gp = Some r \<Longrightarrow>
     \<exists>c p. (c, p) \<in> set (all_ports cards) \<and> cport_global_port p = gp \<and>
       r = \<lparr>ref_card_id = card_id c, ref_local_port_id = cport_local_port p, ref_global_port_id = gp\<rparr>"
  unfolding resolve_port_def all_ports_set
  by (drule first_some_SomeD) (force dest: card_port_hit_SomeD)

lemma resolve_port_None:
  "resolve_port cards gp = None \<longleftrightarrow> (\<forall>(c, p)\<in>set (all_ports cards). cport_global_port p \<noteq> gp)"
  by (auto simp: resolve_port_def first_some_None card_port_hit_def find_None_iff all_ports_set)

text \<open>With globally distinct port ids a declared port resolves to exactly its card and slot.\<close>

lemma resolve_port_unique:
  assumes dist: "distinct (map (cport_global_port \<circ> snd) (all_ports cards))"
    and mem: "(c, p) \<in> set (all_ports cards)"
  shows "resolve_port cards (cport_global_port p) =
    Some \<lparr>ref_card_id = card_id c, ref_local_port_id = cport_local_port p,
          ref_global_port_id = cport_global_port p\<rparr>"
proof -
  obtain r where r: "resolve_port cards (cport_global_port p) = Some r"
    using mem resolve_port_None [of cards "cport_global_port p"] by fastforce
  from resolve_port_SomeD [OF this] obtain c' p' where
    m': "(c', p') \<in> set (all_ports cards)" and eq: "cport_global_port p' = cport_global_port p"
    and r': "r = \<lparr>ref_card_id = card_id c', ref_local_port_id = cport_local_port p',
                  ref_global_port_id = cport_global_port p\<rparr>"
    by auto
  have "(c', p') = (c, p)"
    using dist mem m' eq unfolding distinct_map inj_on_def by force
  with r r' show ?thesis by simp
qed

lemma resolve_port_card_known:
  "resolve_port cards gp = Some r \<Longrightarrow> ref_card_id r \<in> card_id ` set cards"
  by (auto dest!: resolve_port_SomeD simp: all_ports_set)

lemma clone_env_keeps_resolution:
  "pw_config_clone_env (Some s) = Some c \<Longrightarrow>
     pw_config_resolve_port (Some c) gp = pw_config_resolve_port (Some s) gp"
  by (auto simp: pw_config_clone_env_def pw_config_resolve_port_def)

end
