(* ===== verification/PW_Validate.thy ===== *)
theory PW_Validate
  imports PW_Config
begin

text \<open>
  Static validation, \<^verbatim>\<open>validate.c\<close>: the checks of \<open>pw_config_validate\<close> in the order of the source,
  each loop a scan that stops at its first hit, and a declarative predicate \<open>valid_config\<close>
  that says what a validated configuration promises its users. The diagnostic text (path and
  message) of \<open>struct pw_diag\<close> is not modelled, only its status code.
\<close>

section \<open>Checks\<close>

text \<open>Card ids and PCI addresses, pairwise.\<close>

definition card_pair_check :: "pw_card \<Rightarrow> pw_card \<Rightarrow> pw_status option" where
  "card_pair_check a b =
     (if card_id a = card_id b then Some PW_E_DUP_CARD_ID
      else if card_pci a = card_pci b then Some PW_E_DUP_CARD_ID else None)"

text \<open>
  Port ids of one card against the rest of the card and all later cards, then the local ports
  within the card; then the next card.
\<close>

fun gport_scan :: "pw_card_port list \<Rightarrow> pw_card_port list \<Rightarrow> pw_status option" where
  "gport_scan later [] = None"
| "gport_scan later (p # ps) =
     (case first_some (\<lambda>q. if cport_global_port p = cport_global_port q
                           then Some PW_E_DUP_GLOBAL_PORT else None) (ps @ later) of
        None \<Rightarrow> gport_scan later ps
      | Some e \<Rightarrow> Some e)"

definition lport_scan :: "pw_card_port list \<Rightarrow> pw_status option" where
  "lport_scan = first_pair (\<lambda>p q. if cport_local_port p = cport_local_port q
                                  then Some PW_E_DUP_GLOBAL_PORT else None)"

fun ports_check :: "pw_card list \<Rightarrow> pw_status option" where
  "ports_check [] = None"
| "ports_check (c # cs) =
     (case gport_scan (concat (map card_ports cs)) (card_ports c) of
        Some e \<Rightarrow> Some e
      | None \<Rightarrow> (case lport_scan (card_ports c) of
                  Some e \<Rightarrow> Some e
                | None \<Rightarrow> ports_check cs))"

text \<open>One logical interface: name length, netns, duplicates among the later ones, its port.\<close>

definition lif_dup_check :: "pw_logical_if \<Rightarrow> pw_logical_if \<Rightarrow> pw_status option" where
  "lif_dup_check l m =
     (if lif_id l = lif_id m then Some PW_E_DUP_LOGICAL_IF
      else if lif_name l = lif_name m then Some PW_E_DUP_LOGICAL_IF else None)"

fun lifs_check :: "pw_card list \<Rightarrow> pw_logical_if list \<Rightarrow> pw_status option" where
  "lifs_check cards [] = None"
| "lifs_check cards (l # ls) =
     (if length (lif_name l) \<ge> PW_TAP_IFNAME_MAX then Some PW_E_INVAL
      else if lif_netns l \<noteq> [] then Some PW_E_INVAL
      else (case first_some (lif_dup_check l) ls of
              Some e \<Rightarrow> Some e
            | None \<Rightarrow>
                (case resolve_port cards (lif_global_port l) of
                   None \<Rightarrow> Some PW_E_UNKNOWN_GLOBAL_PORT
                 | Some _ \<Rightarrow> lifs_check cards ls)))"

text \<open>Frame-length and rate exclusivity of a flow's traffic block.\<close>

definition traffic_check :: "pw_flow_traffic \<Rightarrow> pw_status option" where
  "traffic_check t =
     (let has_fixed = tr_frame_len_fixed_set t; has_range = tr_frame_len_max t \<noteq> 0
      in if has_fixed \<and> has_range then Some PW_E_INVAL
         else if \<not> has_fixed \<and> \<not> has_range then Some PW_E_MISSING_FIELD
         else if tr_rate_bps t = 0 \<and> tr_rate_pps t = 0 then Some PW_E_MISSING_FIELD
         else if tr_rate_bps t \<noteq> 0 \<and> tr_rate_pps t \<noteq> 0 then Some PW_E_INVAL
         else None)"

definition wants_measurement :: "pw_flow \<Rightarrow> bool" where
  "wants_measurement f \<longleftrightarrow>
     meas_loss (flow_meas f) \<or> meas_latency (flow_meas f) \<or> meas_jitter (flow_meas f)"

text \<open>Raw frame templates carry no test header; background flows have no receive side.\<close>

definition template_check :: "pw_flow \<Rightarrow> pw_status option" where
  "template_check f =
     (if tr_frame_template (flow_traffic f) \<noteq> PW_FRAME_TEMPLATE_TEST \<and>
         (wants_measurement f \<or> \<not> flow_classify_header f \<or> enc_present (flow_encap f))
      then Some PW_E_INVAL
      else if flow_background f \<and> wants_measurement f then Some PW_E_INVAL
      else None)"

fun flows_check :: "pw_config \<Rightarrow> pw_flow list \<Rightarrow> pw_status option" where
  "flows_check cfg [] = None"
| "flows_check cfg (f # fs) =
     (if \<exists>g\<in>set fs. flow_id f = flow_id g then Some PW_E_DUP_FLOW_ID
      else if resolve_port (cfg_cards cfg) (flow_tx_global_port f) = None
        then Some PW_E_UNKNOWN_GLOBAL_PORT
      else if resolve_port (cfg_cards cfg) (flow_rx_global_port f) = None
        then Some PW_E_UNKNOWN_GLOBAL_PORT
      else if flow_logical_if_id f \<noteq> 0 \<and>
              pw_config_logical_if_by_id (Some cfg) (flow_logical_if_id f) = None
        then Some PW_E_UNKNOWN_LOGICAL_IF
      else (case traffic_check (flow_traffic f) of
              Some e \<Rightarrow> Some e
            | None \<Rightarrow> (case template_check f of
                        Some e \<Rightarrow> Some e
                      | None \<Rightarrow> flows_check cfg fs)))"

definition forward_check :: "pw_card list \<Rightarrow> pw_forward_rule \<Rightarrow> pw_status option" where
  "forward_check cards fr =
     (case resolve_port cards (fwd_ingress_port fr) of
        None \<Rightarrow> Some PW_E_UNKNOWN_GLOBAL_PORT
      | Some ing \<Rightarrow>
          (case resolve_port cards (fwd_egress_port fr) of
             None \<Rightarrow> Some PW_E_UNKNOWN_GLOBAL_PORT
           | Some egr \<Rightarrow> if ref_card_id ing \<noteq> ref_card_id egr then Some PW_E_INVAL else None))"

definition validate_cfg :: "pw_config \<Rightarrow> pw_status option" where
  "validate_cfg cfg =
     (case first_pair card_pair_check (cfg_cards cfg) of
        Some e \<Rightarrow> Some e
      | None \<Rightarrow> (case ports_check (cfg_cards cfg) of
          Some e \<Rightarrow> Some e
        | None \<Rightarrow> (case lifs_check (cfg_cards cfg) (cfg_logical_if cfg) of
            Some e \<Rightarrow> Some e
          | None \<Rightarrow> (case flows_check cfg (cfg_flows cfg) of
              Some e \<Rightarrow> Some e
            | None \<Rightarrow> first_some (forward_check (cfg_cards cfg)) (cfg_forwards cfg)))))"

definition pw_config_validate :: "pw_config option \<Rightarrow> pw_status" where
  "pw_config_validate c =
     (case c of None \<Rightarrow> PW_E_INVAL
      | Some cfg \<Rightarrow> (case validate_cfg cfg of None \<Rightarrow> PW_OK | Some e \<Rightarrow> e))"

section \<open>What a valid configuration promises\<close>

definition valid_cards :: "pw_card list \<Rightarrow> bool" where
  "valid_cards cards \<longleftrightarrow>
     distinct (map card_id cards) \<and> distinct (map card_pci cards) \<and>
     distinct (map (cport_global_port \<circ> snd) (all_ports cards)) \<and>
     (\<forall>c\<in>set cards. distinct (map cport_local_port (card_ports c)))"

definition valid_lifs :: "pw_card list \<Rightarrow> pw_logical_if list \<Rightarrow> bool" where
  "valid_lifs cards ls \<longleftrightarrow>
     distinct (map lif_id ls) \<and> distinct (map lif_name ls) \<and>
     (\<forall>l\<in>set ls. length (lif_name l) < PW_TAP_IFNAME_MAX \<and> lif_netns l = [] \<and>
                 resolve_port cards (lif_global_port l) \<noteq> None)"

definition valid_traffic :: "pw_flow_traffic \<Rightarrow> bool" where
  "valid_traffic t \<longleftrightarrow>
     (tr_frame_len_fixed_set t \<longleftrightarrow> tr_frame_len_max t = 0) \<and>
     (tr_rate_bps t = 0 \<longleftrightarrow> tr_rate_pps t \<noteq> 0)"

definition valid_flow :: "pw_config \<Rightarrow> pw_flow \<Rightarrow> bool" where
  "valid_flow cfg f \<longleftrightarrow>
     resolve_port (cfg_cards cfg) (flow_tx_global_port f) \<noteq> None \<and>
     resolve_port (cfg_cards cfg) (flow_rx_global_port f) \<noteq> None \<and>
     (flow_logical_if_id f \<noteq> 0 \<longrightarrow> flow_logical_if_id f \<in> lif_id ` set (cfg_logical_if cfg)) \<and>
     valid_traffic (flow_traffic f) \<and>
     (tr_frame_template (flow_traffic f) \<noteq> PW_FRAME_TEMPLATE_TEST \<longrightarrow>
        \<not> wants_measurement f \<and> flow_classify_header f \<and> \<not> enc_present (flow_encap f)) \<and>
     \<not> (flow_background f \<and> wants_measurement f)"

definition valid_forward :: "pw_card list \<Rightarrow> pw_forward_rule \<Rightarrow> bool" where
  "valid_forward cards fr \<longleftrightarrow>
     (\<exists>i e. resolve_port cards (fwd_ingress_port fr) = Some i \<and>
            resolve_port cards (fwd_egress_port fr) = Some e \<and> ref_card_id i = ref_card_id e)"

definition valid_config :: "pw_config \<Rightarrow> bool" where
  "valid_config cfg \<longleftrightarrow>
     valid_cards (cfg_cards cfg) \<and> valid_lifs (cfg_cards cfg) (cfg_logical_if cfg) \<and>
     distinct (map flow_id (cfg_flows cfg)) \<and> (\<forall>f\<in>set (cfg_flows cfg). valid_flow cfg f) \<and>
     (\<forall>fr\<in>set (cfg_forwards cfg). valid_forward (cfg_cards cfg) fr)"

section \<open>Lemmas: each scan decides its part\<close>

lemma card_pairs_None:
  "first_pair card_pair_check cards = None \<longleftrightarrow>
     distinct (map card_id cards) \<and> distinct (map card_pci cards)"
  unfolding first_pair_None distinct_map_iff_pairs card_pair_check_def
  by (auto split: if_splits)

lemma gport_scan_None:
  "gport_scan later ps = None \<longleftrightarrow>
     distinct (map cport_global_port ps) \<and>
     cport_global_port ` set ps \<inter> cport_global_port ` set later = {}"
proof (induction ps)
  case Nil
  then show ?case by simp
next
  case (Cons p ps)
  have "gport_scan later (p # ps) = None \<longleftrightarrow>
      (\<forall>q\<in>set (ps @ later). cport_global_port p \<noteq> cport_global_port q) \<and>
      gport_scan later ps = None"
    unfolding gport_scan.simps then_check_None first_some_None by simp
  then show ?case unfolding Cons.IH by auto
qed

lemma lport_scan_None: "lport_scan ps = None \<longleftrightarrow> distinct (map cport_local_port ps)"
  unfolding lport_scan_def first_pair_None distinct_map_iff_pairs by (auto split: if_splits)

lemma ports_check_None:
  "ports_check cards = None \<longleftrightarrow>
     distinct (map (cport_global_port \<circ> snd) (all_ports cards)) \<and>
     (\<forall>c\<in>set cards. distinct (map cport_local_port (card_ports c)))"
proof (induction cards)
  case Nil
  then show ?case by (simp add: all_ports_def)
next
  case (Cons c cs)
  have later: "cport_global_port ` set (concat (map card_ports cs)) =
      (cport_global_port \<circ> snd) ` set (all_ports cs)"
    by (force simp: all_ports_set image_iff)
  have "ports_check (c # cs) = None \<longleftrightarrow>
      gport_scan (concat (map card_ports cs)) (card_ports c) = None \<and>
      lport_scan (card_ports c) = None \<and> ports_check cs = None"
    by (auto split: option.splits)
  also have "\<dots> \<longleftrightarrow>
      distinct (map (cport_global_port \<circ> snd) (all_ports (c # cs))) \<and>
      (\<forall>c\<in>set (c # cs). distinct (map cport_local_port (card_ports c)))"
    unfolding gport_scan_None lport_scan_None Cons.IH later all_ports_Cons
    by (auto simp: comp_def image_image)
  finally show ?case .
qed

lemma lifs_check_None: "lifs_check cards ls = None \<longleftrightarrow> valid_lifs cards ls"
proof (induction ls)
  case Nil
  then show ?case by (simp add: valid_lifs_def)
next
  case (Cons l ls)
  have dup: "first_some (lif_dup_check l) ls = None \<longleftrightarrow>
      lif_id l \<notin> lif_id ` set ls \<and> lif_name l \<notin> lif_name ` set ls"
    by (auto simp: first_some_None lif_dup_check_def)
  have "lifs_check cards (l # ls) = None \<longleftrightarrow>
      length (lif_name l) < PW_TAP_IFNAME_MAX \<and> lif_netns l = [] \<and>
      first_some (lif_dup_check l) ls = None \<and>
      resolve_port cards (lif_global_port l) \<noteq> None \<and> lifs_check cards ls = None"
    by (auto split: option.splits)
  then show ?case
    unfolding dup Cons.IH by (auto simp: valid_lifs_def)
qed

lemma traffic_check_None: "traffic_check t = None \<longleftrightarrow> valid_traffic t"
  by (auto simp: traffic_check_def valid_traffic_def Let_def)

lemma flows_check_None:
  "flows_check cfg fs = None \<longleftrightarrow> distinct (map flow_id fs) \<and> (\<forall>f\<in>set fs. valid_flow cfg f)"
proof (induction fs)
  case Nil
  then show ?case by simp
next
  case (Cons f fs)
  have lif: "pw_config_logical_if_by_id (Some cfg) x = None \<longleftrightarrow>
      x \<notin> lif_id ` set (cfg_logical_if cfg)" for x
    by (auto simp: pw_config_logical_if_by_id_def find_None_iff)
  have flow: "resolve_port (cfg_cards cfg) (flow_tx_global_port f) \<noteq> None \<and>
      resolve_port (cfg_cards cfg) (flow_rx_global_port f) \<noteq> None \<and>
      \<not> (flow_logical_if_id f \<noteq> 0 \<and>
         pw_config_logical_if_by_id (Some cfg) (flow_logical_if_id f) = None) \<and>
      traffic_check (flow_traffic f) = None \<and> template_check f = None \<longleftrightarrow> valid_flow cfg f"
    unfolding lif traffic_check_None by (auto simp: valid_flow_def template_check_def)
  have "flows_check cfg (f # fs) = None \<longleftrightarrow>
      (\<forall>g\<in>set fs. flow_id f \<noteq> flow_id g) \<and> valid_flow cfg f \<and> flows_check cfg fs = None"
    unfolding flow [symmetric] by (auto split: option.splits)
  then show ?case unfolding Cons.IH by auto
qed

lemma forward_check_None: "forward_check cards fr = None \<longleftrightarrow> valid_forward cards fr"
  by (auto simp: forward_check_def valid_forward_def split: option.splits)

lemma validate_cfg_None: "validate_cfg cfg = None \<longleftrightarrow> valid_config cfg"
proof -
  have "validate_cfg cfg = None \<longleftrightarrow>
      first_pair card_pair_check (cfg_cards cfg) = None \<and> ports_check (cfg_cards cfg) = None \<and>
      lifs_check (cfg_cards cfg) (cfg_logical_if cfg) = None \<and>
      flows_check cfg (cfg_flows cfg) = None \<and>
      first_some (forward_check (cfg_cards cfg)) (cfg_forwards cfg) = None"
    by (auto simp: validate_cfg_def split: option.splits)
  then show ?thesis
    by (auto simp: card_pairs_None ports_check_None lifs_check_None flows_check_None
        first_some_None forward_check_None valid_config_def valid_cards_def)
qed

text \<open>No check reports \<open>PW_OK\<close> as its error.\<close>

lemma gport_scan_err: "gport_scan later ps = Some e \<Longrightarrow> e = PW_E_DUP_GLOBAL_PORT"
  by (induction ps) (auto split: option.splits if_splits dest: first_some_SomeD)

lemma first_pair_SomeD: "first_pair f xs = Some b \<Longrightarrow> \<exists>x\<in>set xs. \<exists>y\<in>set xs. f x y = Some b"
  by (induction xs) (auto split: option.splits dest!: first_some_SomeD)

lemma ports_check_err: "ports_check cs = Some e \<Longrightarrow> e = PW_E_DUP_GLOBAL_PORT"
  by (induction cs)
    (auto simp: lport_scan_def split: option.splits if_splits dest: gport_scan_err
      dest!: first_pair_SomeD)

lemma lifs_check_err:
  "lifs_check cards ls = Some e \<Longrightarrow> e \<in> {PW_E_INVAL, PW_E_DUP_LOGICAL_IF, PW_E_UNKNOWN_GLOBAL_PORT}"
  by (induction ls)
    (auto simp: lif_dup_check_def split: option.splits if_splits dest!: first_some_SomeD)

lemma flows_check_err:
  "flows_check cfg fs = Some e \<Longrightarrow>
     e \<in> {PW_E_DUP_FLOW_ID, PW_E_UNKNOWN_GLOBAL_PORT, PW_E_UNKNOWN_LOGICAL_IF, PW_E_INVAL,
          PW_E_MISSING_FIELD}"
  by (induction fs)
    (auto simp: traffic_check_def template_check_def Let_def split: option.splits if_splits)

lemma forward_check_err:
  "first_some (forward_check cards) frs = Some e \<Longrightarrow> e \<in> {PW_E_UNKNOWN_GLOBAL_PORT, PW_E_INVAL}"
  by (auto simp: forward_check_def split: option.splits if_splits dest!: first_some_SomeD)

lemma card_pairs_err: "first_pair card_pair_check cs = Some e \<Longrightarrow> e = PW_E_DUP_CARD_ID"
  by (auto simp: card_pair_check_def split: if_splits dest!: first_pair_SomeD)

lemma validate_cfg_err: "validate_cfg cfg = Some e \<Longrightarrow> e \<noteq> PW_OK"
  unfolding validate_cfg_def
  by (auto split: option.splits
      dest!: card_pairs_err ports_check_err lifs_check_err flows_check_err forward_check_err)

section \<open>The validator decides validity\<close>


end
