(* ===== verification/PW_Csr.thy ===== *)
theory PW_Csr
  imports PW_Config
begin

text \<open>
  The register map and wire structures of \<^verbatim>\<open>csr.h\<close>: BAR0 offsets and table windows (32-bit words),
  table capacities (naturals), field encodings, the packing of a classifier rule word, and the
  packed flow-table row \<open>struct pwfpga_flow_config\<close> with the byte image the hardware reads.
\<close>

section \<open>Register and window offsets\<close>

definition PWFPGA_REG_DEVICE_ID :: u32 where "PWFPGA_REG_DEVICE_ID = 0x0000"
definition PWFPGA_REG_VERSION :: u32 where "PWFPGA_REG_VERSION = 0x0004"
definition PWFPGA_REG_BUILD_ID :: u32 where "PWFPGA_REG_BUILD_ID = 0x0008"
definition PWFPGA_REG_GIT_HASH :: u32 where "PWFPGA_REG_GIT_HASH = 0x000C"
definition PWFPGA_REG_CAPABILITIES :: u32 where "PWFPGA_REG_CAPABILITIES = 0x0010"
definition PWFPGA_REG_NUM_LOCAL_PORTS :: u32 where "PWFPGA_REG_NUM_LOCAL_PORTS = 0x0014"
definition PWFPGA_REG_NUM_LOCAL_FLOWS :: u32 where "PWFPGA_REG_NUM_LOCAL_FLOWS = 0x0018"
definition PWFPGA_REG_NUM_LOGICAL_IFS :: u32 where "PWFPGA_REG_NUM_LOGICAL_IFS = 0x001C"
definition PWFPGA_REG_NUM_CLASSIFIER :: u32 where "PWFPGA_REG_NUM_CLASSIFIER = 0x0020"
definition PWFPGA_REG_NUM_HIST_BINS :: u32 where "PWFPGA_REG_NUM_HIST_BINS = 0x0024"
definition PWFPGA_REG_GLOBAL_CONTROL :: u32 where "PWFPGA_REG_GLOBAL_CONTROL = 0x0100"
definition PWFPGA_REG_GLOBAL_STATUS :: u32 where "PWFPGA_REG_GLOBAL_STATUS = 0x0104"
definition PWFPGA_REG_TIMESTAMP_LOW :: u32 where "PWFPGA_REG_TIMESTAMP_LOW = 0x0108"
definition PWFPGA_REG_TIMESTAMP_HIGH :: u32 where "PWFPGA_REG_TIMESTAMP_HIGH = 0x010C"
definition PWFPGA_REG_ERROR_STATUS :: u32 where "PWFPGA_REG_ERROR_STATUS = 0x0110"
definition PWFPGA_REG_IRQ_STATUS :: u32 where "PWFPGA_REG_IRQ_STATUS = 0x0114"
definition PWFPGA_REG_GPIO_SYNC_CTRL :: u32 where "PWFPGA_REG_GPIO_SYNC_CTRL = 0x0130"
definition PWFPGA_REG_GPIO_SYNC_TS_LOW :: u32 where "PWFPGA_REG_GPIO_SYNC_TS_LOW = 0x0134"
definition PWFPGA_REG_GPIO_SYNC_TS_HIGH :: u32 where "PWFPGA_REG_GPIO_SYNC_TS_HIGH = 0x0138"
definition PWFPGA_REG_GPIO_SYNC_SEQ :: u32 where "PWFPGA_REG_GPIO_SYNC_SEQ = 0x013C"
definition PWFPGA_REG_LAT_CORRECTION_BASE :: u32 where "PWFPGA_REG_LAT_CORRECTION_BASE = 0x0180"
definition PWFPGA_WIN_FLOWID_MAP :: u32 where "PWFPGA_WIN_FLOWID_MAP = 0x0400"
definition PWFPGA_WIN_FC_CMP :: u32 where "PWFPGA_WIN_FC_CMP = 0x2000"
definition PWFPGA_WIN_FC_UDF :: u32 where "PWFPGA_WIN_FC_UDF = 0x2100"
definition PWFPGA_WIN_FC_RULE :: u32 where "PWFPGA_WIN_FC_RULE = 0x2200"
definition PWFPGA_WIN_HASH_MASK :: u32 where "PWFPGA_WIN_HASH_MASK = 0x2F00"
definition PWFPGA_REG_HASH_SEED :: u32 where "PWFPGA_REG_HASH_SEED = 0x2FFC"
definition PWFPGA_WIN_FC_HASH :: u32 where "PWFPGA_WIN_FC_HASH = 0x3000"
definition PWFPGA_WIN_FLOW_TABLE :: u32 where "PWFPGA_WIN_FLOW_TABLE = 0x6000"
definition PWFPGA_WIN_HISTOGRAM :: u32 where "PWFPGA_WIN_HISTOGRAM = 0xA000"
definition PWFPGA_WIN_STATS_SNAPSHOT :: u32 where "PWFPGA_WIN_STATS_SNAPSHOT = 0xC000"

definition PWFPGA_REG_FLOW_COMMIT :: u32 where
  "PWFPGA_REG_FLOW_COMMIT = PWFPGA_WIN_FLOW_TABLE + 0x3FFC"
definition PWFPGA_REG_STATS_SNAPSHOT_TRIGGER :: u32 where
  "PWFPGA_REG_STATS_SNAPSHOT_TRIGGER = PWFPGA_WIN_STATS_SNAPSHOT + 0x3FFC"
definition PWFPGA_REG_STATS_CLEAR :: u32 where
  "PWFPGA_REG_STATS_CLEAR = PWFPGA_WIN_STATS_SNAPSHOT + 0x3FF8"
definition PWFPGA_REG_DP_RESET :: u32 where
  "PWFPGA_REG_DP_RESET = PWFPGA_WIN_STATS_SNAPSHOT + 0x3FF4"

section \<open>Capacities and strides\<close>

definition PWFPGA_FLOWID_MAP_DEPTH :: nat where "PWFPGA_FLOWID_MAP_DEPTH = 256"
definition PWFPGA_NUM_CMP :: nat where "PWFPGA_NUM_CMP = 12"
definition PWFPGA_NUM_UDF :: nat where "PWFPGA_NUM_UDF = 2"
definition PWFPGA_NUM_RULE :: nat where "PWFPGA_NUM_RULE = 32"
definition PWFPGA_HASH_DEPTH :: nat where "PWFPGA_HASH_DEPTH = 128"
definition PWFPGA_HASH_KEY_WORDS :: nat where "PWFPGA_HASH_KEY_WORDS = 11"
definition PWFPGA_FLOW_STRIDE :: nat where "PWFPGA_FLOW_STRIDE = 256"
definition PWFPGA_PORT_STATS_STRIDE :: nat where "PWFPGA_PORT_STATS_STRIDE = 128"
definition PWFPGA_FLOW_STATS_STRIDE :: nat where "PWFPGA_FLOW_STATS_STRIDE = 128"
definition PWFPGA_FLOW_HIST_STRIDE :: nat where "PWFPGA_FLOW_HIST_STRIDE = 128"
definition PWFPGA_FLOW_STATS_BASE :: nat where "PWFPGA_FLOW_STATS_BASE = 256"
definition PWFPGA_DATA_PLANE_CLOCK_HZ :: nat where "PWFPGA_DATA_PLANE_CLOCK_HZ = 156250000"

definition PWFPGA_FLOW_TABLE_ROWS :: nat where
  "PWFPGA_FLOW_TABLE_ROWS =
     (unat PWFPGA_WIN_HISTOGRAM - unat PWFPGA_WIN_FLOW_TABLE) div PWFPGA_FLOW_STRIDE"
definition PWFPGA_FLOW_HIST_SLOTS :: nat where
  "PWFPGA_FLOW_HIST_SLOTS =
     (unat PWFPGA_WIN_STATS_SNAPSHOT - unat PWFPGA_WIN_HISTOGRAM) div PWFPGA_FLOW_HIST_STRIDE"
definition PWFPGA_FLOW_STATS_SLOTS :: nat where
  "PWFPGA_FLOW_STATS_SLOTS =
     (unat PWFPGA_REG_DP_RESET - (unat PWFPGA_WIN_STATS_SNAPSHOT + PWFPGA_FLOW_STATS_BASE))
       div PWFPGA_FLOW_STATS_STRIDE"

section \<open>Field encodings\<close>

definition PWFPGA_FLOWID_MAP_VALID :: u32 where "PWFPGA_FLOWID_MAP_VALID = 0x80000000"
definition PWFPGA_HASH_CTRL_VALID :: u32 where "PWFPGA_HASH_CTRL_VALID = 0x80000000"
definition PWFPGA_FC_FLAG_IS_IPV6 :: u32 where "PWFPGA_FC_FLAG_IS_IPV6 = 8"
definition PWFPGA_GCTL_ENABLE :: u32 where "PWFPGA_GCTL_ENABLE = 1"
definition PWFPGA_GCTL_ARM :: u32 where "PWFPGA_GCTL_ARM = 2"
definition PWFPGA_GCTL_RESET_COUNTERS :: u32 where "PWFPGA_GCTL_RESET_COUNTERS = 4"
definition PWFPGA_GSTAT_READY :: u32 where "PWFPGA_GSTAT_READY = 1"
definition PWFPGA_GSTAT_ARMED :: u32 where "PWFPGA_GSTAT_ARMED = 2"
definition PWFPGA_CAP_HAS_DMA :: u32 where "PWFPGA_CAP_HAS_DMA = 1"
definition PWFPGA_CAP_HAS_HISTOGRAM :: u32 where "PWFPGA_CAP_HAS_HISTOGRAM = 4"
definition PWFPGA_ACT_PUNT_TO_HOST :: u8 where "PWFPGA_ACT_PUNT_TO_HOST = 2"
definition PWFPGA_ACT_FORWARD_PORT :: u8 where "PWFPGA_ACT_FORWARD_PORT = 4"
definition PWFPGA_FIELD_STATIC :: u8 where "PWFPGA_FIELD_STATIC = 0"
definition PWFPGA_ENCAP_GRE :: u8 where "PWFPGA_ENCAP_GRE = 2"
definition PWFPGA_ENCAP_ETHERIP :: u8 where "PWFPGA_ENCAP_ETHERIP = 3"
definition PWFPGA_PAYLOAD_ZERO :: u8 where "PWFPGA_PAYLOAD_ZERO = 0"
definition PWFPGA_PAYLOAD_INCREMENT :: u8 where "PWFPGA_PAYLOAD_INCREMENT = 1"
definition PWFPGA_PAYLOAD_PRBS :: u8 where "PWFPGA_PAYLOAD_PRBS = 2"
definition PWFPGA_PAYLOAD_RANDOM :: u8 where "PWFPGA_PAYLOAD_RANDOM = 3"
definition PWFPGA_FC_SRC_L4_DST :: u8 where "PWFPGA_FC_SRC_L4_DST = 0"
definition PWFPGA_FC_SRC_L4_SRC :: u8 where "PWFPGA_FC_SRC_L4_SRC = 1"
definition PWFPGA_FC_SRC_IPV6_DST_3 :: u8 where "PWFPGA_FC_SRC_IPV6_DST_3 = 4"
definition PWFPGA_FC_SRC_IPV6_DST_2 :: u8 where "PWFPGA_FC_SRC_IPV6_DST_2 = 5"
definition PWFPGA_FC_SRC_IPV6_DST_1 :: u8 where "PWFPGA_FC_SRC_IPV6_DST_1 = 6"
definition PWFPGA_FC_SRC_IPV6_DST_0 :: u8 where "PWFPGA_FC_SRC_IPV6_DST_0 = 7"
definition PWFPGA_FC_SRC_ETHERTYPE :: u8 where "PWFPGA_FC_SRC_ETHERTYPE = 8"
definition PWFPGA_FC_SRC_L3_PROTO :: u8 where "PWFPGA_FC_SRC_L3_PROTO = 9"
definition PWFPGA_FC_SRC_VLAN :: u8 where "PWFPGA_FC_SRC_VLAN = 10"
definition PWFPGA_FC_SRC_FLAGS :: u8 where "PWFPGA_FC_SRC_FLAGS = 12"
definition PWFPGA_FC_SRC_INGRESS :: u8 where "PWFPGA_FC_SRC_INGRESS = 13"
definition PWFPGA_FC_SRC_IPV6_SRC_0 :: u8 where "PWFPGA_FC_SRC_IPV6_SRC_0 = 14"
definition PWFPGA_FC_SRC_IPV6_SRC_3 :: u8 where "PWFPGA_FC_SRC_IPV6_SRC_3 = 15"
definition PWFPGA_FC_SRC_IPV6_SRC_1 :: u8 where "PWFPGA_FC_SRC_IPV6_SRC_1 = 16"
definition PWFPGA_FC_SRC_IPV6_SRC_2 :: u8 where "PWFPGA_FC_SRC_IPV6_SRC_2 = 17"

section \<open>Entry addresses\<close>

definition FC_CMP_SRC :: "nat \<Rightarrow> u32" where
  "FC_CMP_SRC i = PWFPGA_WIN_FC_CMP + of_nat i * 16"
definition FC_CMP_MASK :: "nat \<Rightarrow> u32" where
  "FC_CMP_MASK i = PWFPGA_WIN_FC_CMP + of_nat i * 16 + 4"
definition FC_CMP_VALUE :: "nat \<Rightarrow> u32" where
  "FC_CMP_VALUE i = PWFPGA_WIN_FC_CMP + of_nat i * 16 + 8"
definition FC_UDF_OFFSET :: "nat \<Rightarrow> u32" where
  "FC_UDF_OFFSET i = PWFPGA_WIN_FC_UDF + of_nat i * 16"
definition FC_UDF_MASK :: "nat \<Rightarrow> u32" where
  "FC_UDF_MASK i = PWFPGA_WIN_FC_UDF + of_nat i * 16 + 4"
definition FC_UDF_VALUE :: "nat \<Rightarrow> u32" where
  "FC_UDF_VALUE i = PWFPGA_WIN_FC_UDF + of_nat i * 16 + 8"
definition FC_RULE_WORD0 :: "nat \<Rightarrow> u32" where
  "FC_RULE_WORD0 i = PWFPGA_WIN_FC_RULE + of_nat i * 16"
definition FC_RULE_LFID :: "nat \<Rightarrow> u32" where
  "FC_RULE_LFID i = PWFPGA_WIN_FC_RULE + of_nat i * 16 + 4"
definition FC_RULE_LIF :: "nat \<Rightarrow> u32" where
  "FC_RULE_LIF i = PWFPGA_WIN_FC_RULE + of_nat i * 16 + 8"
definition HASH_KEY_WORD :: "nat \<Rightarrow> nat \<Rightarrow> u32" where
  "HASH_KEY_WORD i w = PWFPGA_WIN_FC_HASH + of_nat i * 64 + of_nat w * 4"
definition HASH_CTRL :: "nat \<Rightarrow> u32" where
  "HASH_CTRL i = PWFPGA_WIN_FC_HASH + of_nat i * 64 + 0x2C"
definition HASH_MASK_WORD :: "nat \<Rightarrow> u32" where
  "HASH_MASK_WORD w = PWFPGA_WIN_HASH_MASK + of_nat w * 4"
definition FLOWID_MAP_ENTRY :: "nat \<Rightarrow> u32" where
  "FLOWID_MAP_ENTRY flow = PWFPGA_WIN_FLOWID_MAP + of_nat flow * 4"

text \<open>\<open>PWFPGA_FC_RULE_W0\<close>: care in bits 13..0, action in 16..14, egress in 20..17, priority in
  28..21, enable in 31.\<close>

definition FC_RULE_W0 :: "u16 \<Rightarrow> u8 \<Rightarrow> u8 \<Rightarrow> u8 \<Rightarrow> bool \<Rightarrow> u32" where
  "FC_RULE_W0 care action egress prio en =
     (ucast care AND 0x3FFF) OR push_bit 14 (ucast action AND 0x7) OR
     push_bit 17 (ucast egress AND 0xF) OR push_bit 21 (ucast prio AND 0xFF) OR
     (if en then push_bit 31 1 else 0)"

section \<open>The flow-table row\<close>

record pwfpga_flow_config =
  row_enable :: u8
  row_egress_local_port :: u8
  row_global_flow_id :: u32
  row_local_flow_id :: u32
  row_logical_if_id :: u32
  row_dst_mac :: bytes
  row_src_mac :: bytes
  row_vlan_enable :: u8
  row_vlan_id :: u16
  row_pcp :: u8
  row_ip_version :: u8
  row_src_ipv4 :: u32
  row_dst_ipv4 :: u32
  row_dscp :: u8
  row_ttl :: u8
  row_udp_src_port :: u16
  row_udp_dst_port :: u16
  row_frame_len_min :: u16
  row_frame_len_max :: u16
  row_frame_len_step :: u16
  row_rate_bps :: u64
  row_rate_pps :: u64
  row_burst_size :: u32
  row_burst_gap_ticks :: u32
  row_tokens_per_tick_fp :: u32
  row_burst_bytes :: u16
  row_reserved0 :: u16
  row_payload_mode :: u8
  row_payload_seed :: u32
  row_insert_sequence :: u8
  row_insert_timestamp :: u8
  row_tx_enable :: u8
  row_rx_check_enable :: u8
  row_src_ipv4_mod :: u8
  row_src_ipv4_mask :: u32
  row_dst_ipv4_mod :: u8
  row_dst_ipv4_mask :: u32
  row_udp_src_mod :: u8
  row_udp_src_mask :: u16
  row_udp_dst_mod :: u8
  row_udp_dst_mask :: u16
  row_ipv6_src :: bytes
  row_ipv6_dst :: bytes
  row_src_mac_mod :: u8
  row_src_mac_mask :: bytes
  row_dst_mac_mod :: u8
  row_dst_mac_mask :: bytes
  row_vlan_mod :: u8
  row_vlan_mask :: u16
  row_encap_type :: u8
  row_outer_ip_version :: u8
  row_rx_expect :: u8
  row_outer_ttl :: u8
  row_outer_dscp :: u8
  row_outer_src_ipv4 :: u32
  row_outer_dst_ipv4 :: u32
  row_outer_ipv6_src :: bytes
  row_outer_ipv6_dst :: bytes
  row_inner_dst_mac :: bytes
  row_inner_src_mac :: bytes
  row_src_ipv6_mask_hi :: bytes
  row_dst_ipv6_mask_hi :: bytes
  row_l4_proto :: u8
  row_tcp_flags :: u8
  row_frame_template :: u8
  row_reserved_ft :: u8
  row_l2_ethertype :: u16

definition zero_row :: pwfpga_flow_config where
  "zero_row = \<lparr>
     row_enable = 0, row_egress_local_port = 0, row_global_flow_id = 0, row_local_flow_id = 0,
     row_logical_if_id = 0, row_dst_mac = zero_bytes 6, row_src_mac = zero_bytes 6,
     row_vlan_enable = 0, row_vlan_id = 0, row_pcp = 0, row_ip_version = 0, row_src_ipv4 = 0,
     row_dst_ipv4 = 0, row_dscp = 0, row_ttl = 0, row_udp_src_port = 0, row_udp_dst_port = 0,
     row_frame_len_min = 0, row_frame_len_max = 0, row_frame_len_step = 0, row_rate_bps = 0,
     row_rate_pps = 0, row_burst_size = 0, row_burst_gap_ticks = 0, row_tokens_per_tick_fp = 0,
     row_burst_bytes = 0, row_reserved0 = 0, row_payload_mode = 0, row_payload_seed = 0,
     row_insert_sequence = 0, row_insert_timestamp = 0, row_tx_enable = 0,
     row_rx_check_enable = 0, row_src_ipv4_mod = 0, row_src_ipv4_mask = 0,
     row_dst_ipv4_mod = 0, row_dst_ipv4_mask = 0, row_udp_src_mod = 0, row_udp_src_mask = 0,
     row_udp_dst_mod = 0, row_udp_dst_mask = 0, row_ipv6_src = zero_bytes 16,
     row_ipv6_dst = zero_bytes 16, row_src_mac_mod = 0, row_src_mac_mask = zero_bytes 6,
     row_dst_mac_mod = 0, row_dst_mac_mask = zero_bytes 6, row_vlan_mod = 0, row_vlan_mask = 0,
     row_encap_type = 0, row_outer_ip_version = 0, row_rx_expect = 0, row_outer_ttl = 0,
     row_outer_dscp = 0, row_outer_src_ipv4 = 0, row_outer_dst_ipv4 = 0,
     row_outer_ipv6_src = zero_bytes 16, row_outer_ipv6_dst = zero_bytes 16,
     row_inner_dst_mac = zero_bytes 6, row_inner_src_mac = zero_bytes 6,
     row_src_ipv6_mask_hi = zero_bytes 12, row_dst_ipv6_mask_hi = zero_bytes 12,
     row_l4_proto = 0, row_tcp_flags = 0, row_frame_template = 0, row_reserved_ft = 0,
     row_l2_ethertype = 0\<rparr>"

text \<open>The packed, little-endian image of a row (244 bytes when its arrays have their sizes).\<close>

definition flow_config_bytes :: "pwfpga_flow_config \<Rightarrow> bytes" where
  "flow_config_bytes r =
     [row_enable r] @ [row_egress_local_port r] @ le32_bytes (row_global_flow_id r) @
     le32_bytes (row_local_flow_id r) @ le32_bytes (row_logical_if_id r) @ row_dst_mac r @
     row_src_mac r @ [row_vlan_enable r] @ le16_bytes (row_vlan_id r) @ [row_pcp r] @
     [row_ip_version r] @ le32_bytes (row_src_ipv4 r) @ le32_bytes (row_dst_ipv4 r) @
     [row_dscp r] @ [row_ttl r] @ le16_bytes (row_udp_src_port r) @
     le16_bytes (row_udp_dst_port r) @ le16_bytes (row_frame_len_min r) @
     le16_bytes (row_frame_len_max r) @ le16_bytes (row_frame_len_step r) @
     le64_bytes (row_rate_bps r) @ le64_bytes (row_rate_pps r) @
     le32_bytes (row_burst_size r) @ le32_bytes (row_burst_gap_ticks r) @
     le32_bytes (row_tokens_per_tick_fp r) @ le16_bytes (row_burst_bytes r) @
     le16_bytes (row_reserved0 r) @ [row_payload_mode r] @ le32_bytes (row_payload_seed r) @
     [row_insert_sequence r] @ [row_insert_timestamp r] @ [row_tx_enable r] @
     [row_rx_check_enable r] @ [row_src_ipv4_mod r] @ le32_bytes (row_src_ipv4_mask r) @
     [row_dst_ipv4_mod r] @ le32_bytes (row_dst_ipv4_mask r) @ [row_udp_src_mod r] @
     le16_bytes (row_udp_src_mask r) @ [row_udp_dst_mod r] @ le16_bytes (row_udp_dst_mask r) @
     row_ipv6_src r @ row_ipv6_dst r @ [row_src_mac_mod r] @ row_src_mac_mask r @
     [row_dst_mac_mod r] @ row_dst_mac_mask r @ [row_vlan_mod r] @
     le16_bytes (row_vlan_mask r) @ [row_encap_type r] @ [row_outer_ip_version r] @
     [row_rx_expect r] @ [row_outer_ttl r] @ [row_outer_dscp r] @
     le32_bytes (row_outer_src_ipv4 r) @ le32_bytes (row_outer_dst_ipv4 r) @
     row_outer_ipv6_src r @ row_outer_ipv6_dst r @ row_inner_dst_mac r @ row_inner_src_mac r @
     row_src_ipv6_mask_hi r @ row_dst_ipv6_mask_hi r @ [row_l4_proto r] @ [row_tcp_flags r] @
     [row_frame_template r] @ [row_reserved_ft r] @ le16_bytes (row_l2_ethertype r)"

definition row_wf :: "pwfpga_flow_config \<Rightarrow> bool" where
  "row_wf r \<longleftrightarrow>
     length (row_dst_mac r) = 6 \<and> length (row_src_mac r) = 6 \<and>
     length (row_ipv6_src r) = 16 \<and> length (row_ipv6_dst r) = 16 \<and>
     length (row_src_mac_mask r) = 6 \<and> length (row_dst_mac_mask r) = 6 \<and>
     length (row_outer_ipv6_src r) = 16 \<and> length (row_outer_ipv6_dst r) = 16 \<and>
     length (row_inner_dst_mac r) = 6 \<and> length (row_inner_src_mac r) = 6 \<and>
     length (row_src_ipv6_mask_hi r) = 12 \<and> length (row_dst_ipv6_mask_hi r) = 12"

section \<open>Lemmas\<close>

lemmas csr_regs =
  PWFPGA_REG_DEVICE_ID_def PWFPGA_REG_VERSION_def PWFPGA_REG_BUILD_ID_def
  PWFPGA_REG_GIT_HASH_def PWFPGA_REG_CAPABILITIES_def PWFPGA_REG_NUM_LOCAL_PORTS_def
  PWFPGA_REG_NUM_LOCAL_FLOWS_def PWFPGA_REG_NUM_LOGICAL_IFS_def PWFPGA_REG_NUM_CLASSIFIER_def
  PWFPGA_REG_NUM_HIST_BINS_def PWFPGA_REG_GLOBAL_CONTROL_def PWFPGA_REG_GLOBAL_STATUS_def
  PWFPGA_REG_TIMESTAMP_LOW_def PWFPGA_REG_TIMESTAMP_HIGH_def PWFPGA_REG_ERROR_STATUS_def
  PWFPGA_REG_IRQ_STATUS_def PWFPGA_REG_GPIO_SYNC_CTRL_def PWFPGA_REG_GPIO_SYNC_TS_LOW_def
  PWFPGA_REG_GPIO_SYNC_TS_HIGH_def PWFPGA_REG_GPIO_SYNC_SEQ_def
  PWFPGA_REG_LAT_CORRECTION_BASE_def PWFPGA_WIN_FLOWID_MAP_def PWFPGA_WIN_FC_CMP_def
  PWFPGA_WIN_FC_UDF_def PWFPGA_WIN_FC_RULE_def PWFPGA_WIN_HASH_MASK_def PWFPGA_REG_HASH_SEED_def
  PWFPGA_WIN_FC_HASH_def PWFPGA_WIN_FLOW_TABLE_def PWFPGA_WIN_HISTOGRAM_def
  PWFPGA_WIN_STATS_SNAPSHOT_def PWFPGA_REG_FLOW_COMMIT_def PWFPGA_REG_STATS_SNAPSHOT_TRIGGER_def
  PWFPGA_REG_STATS_CLEAR_def PWFPGA_REG_DP_RESET_def

lemmas csr_caps =
  PWFPGA_FLOWID_MAP_DEPTH_def PWFPGA_NUM_CMP_def PWFPGA_NUM_UDF_def PWFPGA_NUM_RULE_def
  PWFPGA_HASH_DEPTH_def PWFPGA_HASH_KEY_WORDS_def PWFPGA_FLOW_STRIDE_def
  PWFPGA_PORT_STATS_STRIDE_def PWFPGA_FLOW_STATS_STRIDE_def PWFPGA_FLOW_HIST_STRIDE_def
  PWFPGA_FLOW_STATS_BASE_def PWFPGA_DATA_PLANE_CLOCK_HZ_def

lemmas csr_bits =
  PWFPGA_FLOWID_MAP_VALID_def PWFPGA_HASH_CTRL_VALID_def PWFPGA_FC_FLAG_IS_IPV6_def
  PWFPGA_GCTL_ENABLE_def PWFPGA_GCTL_ARM_def PWFPGA_GCTL_RESET_COUNTERS_def
  PWFPGA_GSTAT_READY_def PWFPGA_GSTAT_ARMED_def PWFPGA_CAP_HAS_DMA_def
  PWFPGA_CAP_HAS_HISTOGRAM_def PWFPGA_ACT_PUNT_TO_HOST_def PWFPGA_ACT_FORWARD_PORT_def
  PWFPGA_FIELD_STATIC_def PWFPGA_ENCAP_GRE_def PWFPGA_ENCAP_ETHERIP_def PWFPGA_PAYLOAD_ZERO_def
  PWFPGA_PAYLOAD_INCREMENT_def PWFPGA_PAYLOAD_PRBS_def PWFPGA_PAYLOAD_RANDOM_def
  PWFPGA_FC_SRC_L4_DST_def PWFPGA_FC_SRC_L4_SRC_def PWFPGA_FC_SRC_IPV6_DST_3_def
  PWFPGA_FC_SRC_IPV6_DST_2_def PWFPGA_FC_SRC_IPV6_DST_1_def PWFPGA_FC_SRC_IPV6_DST_0_def
  PWFPGA_FC_SRC_ETHERTYPE_def PWFPGA_FC_SRC_L3_PROTO_def PWFPGA_FC_SRC_VLAN_def
  PWFPGA_FC_SRC_FLAGS_def PWFPGA_FC_SRC_INGRESS_def PWFPGA_FC_SRC_IPV6_SRC_0_def
  PWFPGA_FC_SRC_IPV6_SRC_3_def PWFPGA_FC_SRC_IPV6_SRC_1_def PWFPGA_FC_SRC_IPV6_SRC_2_def

lemmas csr_addr =
  FC_CMP_SRC_def FC_CMP_MASK_def FC_CMP_VALUE_def FC_UDF_OFFSET_def FC_UDF_MASK_def
  FC_UDF_VALUE_def FC_RULE_WORD0_def FC_RULE_LFID_def FC_RULE_LIF_def HASH_KEY_WORD_def
  HASH_CTRL_def HASH_MASK_WORD_def FLOWID_MAP_ENTRY_def

lemma csr_derived_caps:
  "PWFPGA_FLOW_TABLE_ROWS = 64" "PWFPGA_FLOW_HIST_SLOTS = 64" "PWFPGA_FLOW_STATS_SLOTS = 125"
  by (simp_all add: PWFPGA_FLOW_TABLE_ROWS_def PWFPGA_FLOW_HIST_SLOTS_def
      PWFPGA_FLOW_STATS_SLOTS_def csr_regs csr_caps)

lemmas csr_capacities = csr_caps csr_derived_caps

lemma zero_row_wf: "row_wf zero_row"
  by (simp add: row_wf_def zero_row_def zero_bytes_def)

text \<open>The size assertion of the header: the wire row is exactly 244 bytes.\<close>

lemma flow_config_bytes_length: "row_wf r \<Longrightarrow> length (flow_config_bytes r) = 244"
  by (simp add: flow_config_bytes_def row_wf_def)

end
