(* ===== verification/PW_Flow_Compiler.thy ===== *)
theory PW_Flow_Compiler
  imports PW_Validate PW_Csr
begin

text \<open>
  The flow compiler, \<^verbatim>\<open>flow_compiler.c\<close> and \<^verbatim>\<open>flow_compiler.h\<close>: it turns a validated configuration
  into one program per card (flow-table rows, flow-id map, field and UDF comparators, rules,
  hash table) and one metadata record per flow. Allocation succeeds in the model; the program
  under construction is the explicit state, and an early return drops it.
\<close>

section \<open>The compiled program\<close>

record pw_flow_meta =
  meta_global_flow_id :: u32
  meta_tx_card_id :: u16
  meta_rx_card_id :: u16
  meta_tx_local_flow_id :: u32
  meta_rx_local_flow_id :: u32
  meta_latency_valid :: bool
  meta_rx_slot_valid :: bool

record pw_flowid_map_entry =
  me_flow_id :: u32
  me_local_flow_id :: u32

record pw_fc_cmp =
  cmp_src :: u8
  cmp_mask :: u32
  cmp_value :: u32

record pw_fc_udf =
  udf_offset :: u16
  udf_mask :: u32
  udf_value :: u32

record pw_fc_rule =
  rule_care :: u16
  rule_action :: u8
  rule_egress :: u8
  rule_local_flow_id :: u32
  rule_logical_if_id :: u32
  rule_priority :: u8

record pw_fc_hash_entry =
  he_index :: u16
  he_key_word :: "u32 list"
  he_local_flow_id :: u32

record pw_card_program =
  cp_card_id :: u16
  cp_flow_rows :: "pwfpga_flow_config list"
  cp_map_entries :: "pw_flowid_map_entry list"
  cp_fc_cmps :: "pw_fc_cmp list"
  cp_fc_udfs :: "pw_fc_udf list"
  cp_fc_rules :: "pw_fc_rule list"
  cp_hash_seed :: u32
  cp_hash_mask :: "u32 list"
  cp_hash_entries :: "pw_fc_hash_entry list"

record pw_program =
  prog_per_card :: "pw_card_program list"
  prog_flow_meta :: "pw_flow_meta list"

definition zero_meta :: pw_flow_meta where
  "zero_meta = \<lparr>meta_global_flow_id = 0, meta_tx_card_id = 0, meta_rx_card_id = 0,
     meta_tx_local_flow_id = 0, meta_rx_local_flow_id = 0, meta_latency_valid = False,
     meta_rx_slot_valid = False\<rparr>"

definition empty_card_program :: "u16 \<Rightarrow> pw_card_program" where
  "empty_card_program cid = \<lparr>cp_card_id = cid, cp_flow_rows = [], cp_map_entries = [],
     cp_fc_cmps = [], cp_fc_udfs = [], cp_fc_rules = [], cp_hash_seed = 0,
     cp_hash_mask = replicate 11 0, cp_hash_entries = []\<rparr>"

section \<open>Appending to a card program\<close>

definition card_slot :: "pw_program \<Rightarrow> u16 \<Rightarrow> nat option" where
  "card_slot p cid = find_idx (\<lambda>cp. cp_card_id cp = cid) (prog_per_card p)"

definition upd_card :: "nat \<Rightarrow> pw_card_program \<Rightarrow> pw_program \<Rightarrow> pw_program" where
  "upd_card i cp p = p\<lparr>prog_per_card := (prog_per_card p)[i := cp]\<rparr>"

definition append_flow :: "pw_card_program \<Rightarrow> pwfpga_flow_config \<Rightarrow> pw_card_program" where
  "append_flow cp r = cp\<lparr>cp_flow_rows := cp_flow_rows cp @ [r]\<rparr>"

definition append_map :: "pw_card_program \<Rightarrow> u32 \<Rightarrow> u32 \<Rightarrow> pw_card_program" where
  "append_map cp fid lfid =
     cp\<lparr>cp_map_entries := cp_map_entries cp @ [\<lparr>me_flow_id = fid, me_local_flow_id = lfid\<rparr>]\<rparr>"

text \<open>A comparator is shared when an identical one exists; the result is its bit index.\<close>

definition append_fc_cmp ::
  "pw_card_program \<Rightarrow> u8 \<Rightarrow> u32 \<Rightarrow> u32 \<Rightarrow> pw_status + (pw_card_program \<times> nat)" where
  "append_fc_cmp cp src msk val =
     (case find_idx (\<lambda>c. cmp_src c = src \<and> cmp_mask c = msk \<and> cmp_value c = val) (cp_fc_cmps cp) of
        Some i \<Rightarrow> Inr (cp, i)
      | None \<Rightarrow>
          if length (cp_fc_cmps cp) \<ge> PWFPGA_NUM_CMP then Inl PW_E_NO_RESOURCES
          else Inr (cp\<lparr>cp_fc_cmps := cp_fc_cmps cp @
                        [\<lparr>cmp_src = src, cmp_mask = msk, cmp_value = val\<rparr>]\<rparr>,
                    length (cp_fc_cmps cp)))"

definition append_fc_udf ::
  "pw_card_program \<Rightarrow> u16 \<Rightarrow> u32 \<Rightarrow> u32 \<Rightarrow> pw_status + (pw_card_program \<times> nat)" where
  "append_fc_udf cp off msk val =
     (case find_idx (\<lambda>u. udf_offset u = off \<and> udf_mask u = msk \<and> udf_value u = val)
             (cp_fc_udfs cp) of
        Some i \<Rightarrow> Inr (cp, PWFPGA_NUM_CMP + i)
      | None \<Rightarrow>
          if length (cp_fc_udfs cp) \<ge> PWFPGA_NUM_UDF then Inl PW_E_NO_RESOURCES
          else Inr (cp\<lparr>cp_fc_udfs := cp_fc_udfs cp @
                        [\<lparr>udf_offset = off, udf_mask = msk, udf_value = val\<rparr>]\<rparr>,
                    PWFPGA_NUM_CMP + length (cp_fc_udfs cp)))"

definition append_fc_rule :: "pw_card_program \<Rightarrow> pw_fc_rule \<Rightarrow> pw_status + pw_card_program" where
  "append_fc_rule cp rule =
     (if length (cp_fc_rules cp) \<ge> PWFPGA_NUM_RULE then Inl PW_E_NO_RESOURCES
      else Inr (cp\<lparr>cp_fc_rules := cp_fc_rules cp @ [rule]\<rparr>))"

text \<open>
  \<open>if (cond) { er = append_fc_cmp(...); if (er != PW_OK) return er; care |= 1u << bit; }\<close>,
  the step both rule compilers repeat, on the card program and the care mask under construction.
\<close>

definition set_care :: "u16 \<Rightarrow> nat \<Rightarrow> u16" where
  "set_care care b = care OR push_bit b 1"

definition care_cmp ::
  "bool \<Rightarrow> u8 \<Rightarrow> u32 \<Rightarrow> u32 \<Rightarrow> pw_card_program \<times> u16 \<Rightarrow> pw_status + (pw_card_program \<times> u16)" where
  "care_cmp cond src msk val st =
     (if cond then rbind (append_fc_cmp (fst st) src msk val)
                         (\<lambda>(cp', b). Inr (cp', set_care (snd st) b))
      else Inr st)"

definition care_udf ::
  "bool \<Rightarrow> u16 \<Rightarrow> u32 \<Rightarrow> u32 \<Rightarrow> pw_card_program \<times> u16 \<Rightarrow> pw_status + (pw_card_program \<times> u16)" where
  "care_udf cond off msk val st =
     (if cond then rbind (append_fc_udf (fst st) off msk val)
                         (\<lambda>(cp', b). Inr (cp', set_care (snd st) b))
      else Inr st)"

text \<open>
  Up to four comparators for a masked 128-bit address; a word with an all-zero mask needs none.
  \<open>sel\<close> lists the source selectors of the four words, most significant first.
\<close>

definition ipv6_cmp_word ::
  "bytes \<Rightarrow> bytes \<Rightarrow> u8 list \<Rightarrow> pw_card_program \<times> u16 \<Rightarrow> nat \<Rightarrow>
     pw_status + (pw_card_program \<times> u16)" where
  "ipv6_cmp_word addr msk sel st w =
     (let m = be_word msk w; v = be_word addr w AND m
      in care_cmp (m \<noteq> 0) (sel ! w) m v st)"

definition append_ipv6_cmps ::
  "bool \<Rightarrow> bytes \<Rightarrow> bytes \<Rightarrow> u8 list \<Rightarrow> pw_card_program \<times> u16 \<Rightarrow>
     pw_status + (pw_card_program \<times> u16)" where
  "append_ipv6_cmps cond addr msk sel st =
     (if cond then fold_res (ipv6_cmp_word addr msk sel) st [0, 1, 2, 3] else Inr st)"

section \<open>The header hash\<close>

definition pw_fc_l3_words :: "u128 \<Rightarrow> u32 list" where
  "pw_fc_l3_words a =
     [ucast a, ucast (drop_bit 32 a), ucast (drop_bit 64 a), ucast (drop_bit 96 a)]"

text \<open>The 128-bit value of an address in network order.\<close>

definition addr128 :: "bytes \<Rightarrow> u128" where
  "addr128 bs = foldl (\<lambda>a b. push_bit 8 a OR ucast b) 0 bs"

definition ip_ethertype :: "pw_flow \<Rightarrow> u32" where
  "ip_ethertype f = (if v6_present (flow_ipv6 f) then 0x86DD else 0x0800)"

definition hash_vlan :: "pw_flow \<Rightarrow> u32" where
  "hash_vlan f = (if l2_vlan_set (flow_l2 f) then ucast (l2_vlan (flow_l2 f) AND 0x0FFF) else 0)"

definition pw_fc_hash_words :: "pw_flow \<Rightarrow> u32 list" where
  "pw_fc_hash_words f =
     (let tmpl = tr_frame_template (flow_traffic f)
      in if tmpl = PW_FRAME_TEMPLATE_L2RAW then
           let et = (if l2_ethertype (flow_l2 f) \<noteq> 0 then ucast (l2_ethertype (flow_l2 f))
                     else ip_ethertype f)
           in replicate 9 0 @ [push_bit 16 (hash_vlan f) OR (et AND 0xFFFF), 0]
         else
           let dst = (if v6_present (flow_ipv6 f) then addr128 (v6_dst (flow_ipv6 f))
                      else ucast (v4_dst (flow_ipv4 f)));
               src = (if v6_present (flow_ipv6 f) then addr128 (v6_src (flow_ipv6 f))
                      else ucast (v4_src (flow_ipv4 f)))
           in pw_fc_l3_words dst @ pw_fc_l3_words src @
              [if tmpl = PW_FRAME_TEMPLATE_L3RAW then 0
               else push_bit 16 (ucast (udp_src_port (flow_udp f))) OR
                    ucast (udp_dst_port (flow_udp f)),
               push_bit 16 (hash_vlan f) OR ip_ethertype f,
               if udp_l4_proto (flow_udp f) \<noteq> 0 then ucast (udp_l4_proto (flow_udp f)) else 17])"

text \<open>\<open>for (unsigned d = PWFPGA_HASH_DEPTH; d > 1; d >>= 1) idx_w++;\<close>\<close>

fun idx_width :: "nat \<Rightarrow> nat" where
  "idx_width d = (if d > 1 then Suc (idx_width (d div 2)) else 0)"

declare idx_width.simps [simp del]

definition pw_fc_hash_index :: "u32 list \<Rightarrow> u32 \<Rightarrow> u16" where
  "pw_fc_hash_index w seed =
     (let k32 = foldl (XOR) 0 w; prod = k32 * (seed OR 1)
      in ucast (drop_bit (32 - idx_width PWFPGA_HASH_DEPTH) prod))"

definition append_hash_entry ::
  "pw_card_program \<Rightarrow> u32 list \<Rightarrow> u32 \<Rightarrow> pw_status + pw_card_program" where
  "append_hash_entry cp w lfid =
     (if length (cp_hash_entries cp) \<ge> PWFPGA_HASH_DEPTH then Inl PW_E_NO_RESOURCES
      else Inr (cp\<lparr>cp_hash_entries := cp_hash_entries cp @
                    [\<lparr>he_index = 0, he_key_word = w, he_local_flow_id = lfid\<rparr>]\<rparr>))"

definition compile_header_classify ::
  "pw_card_program \<Rightarrow> pw_flow \<Rightarrow> u32 \<Rightarrow> pw_status + pw_card_program" where
  "compile_header_classify cp f lfid = append_hash_entry cp (pw_fc_hash_words f) lfid"

text \<open>\<open>mask[i] &= v\<close>, when a condition holds.\<close>

definition and_word :: "bool \<Rightarrow> nat \<Rightarrow> u32 \<Rightarrow> u32 list \<Rightarrow> u32 list" where
  "and_word c i v m = (if c then m[i := m ! i AND v] else m)"

text \<open>Clear the hash-mask bits a flow's modifiers rotate and narrow by its match masks.\<close>

definition pw_fc_relax_mask :: "u32 list \<Rightarrow> pw_flow \<Rightarrow> u32 list" where
  "pw_fc_relax_mask m0 f =
     (let md = flow_mod f;
          rot_dst = fm_mode (mod_dst_ipv4 md) \<noteq> PWFPGA_FIELD_STATIC;
          rot_src = fm_mode (mod_src_ipv4 md) \<noteq> PWFPGA_FIELD_STATIC;
          m1 = and_word rot_dst 0 (NOT (ucast (fm_mask (mod_dst_ipv4 md)))) m0;
          m2 = and_word (flow_match_ipv4_dst_mask f \<noteq> 0xFFFFFFFF) 0 (flow_match_ipv4_dst_mask f) m1;
          m3 = and_word rot_src 4 (NOT (ucast (fm_mask (mod_src_ipv4 md)))) m2;
          v6 = v6_present (flow_ipv6 f);
          m4 = fold (\<lambda>w. and_word (v6 \<and> rot_dst) w (NOT (be_word (mod_dst_ipv6_mask md) (3 - w))))
                 [1, 2, 3] m3;
          m5 = fold (\<lambda>w. and_word (v6 \<and> rot_src) (4 + w)
                           (NOT (be_word (mod_src_ipv6_mask md) (3 - w)))) [1, 2, 3] m4;
          m6 = fold (\<lambda>i. and_word (flow_match_ipv6_dst_set f) i
                           (be_word (flow_match_ipv6_dst_mask f) (3 - i))) [0, 1, 2, 3] m5;
          m7 = fold (\<lambda>i. and_word (flow_match_ipv6_src_set f) (4 + i)
                           (be_word (flow_match_ipv6_src_mask f) (3 - i))) [0, 1, 2, 3] m6;
          m8 = and_word (fm_mode (mod_udp_dst md) \<noteq> PWFPGA_FIELD_STATIC) 8
                 (NOT (ucast (fm_mask (mod_udp_dst md)) AND 0xFFFF)) m7;
          m9 = and_word (flow_match_udp_dst_mask f \<noteq> 0xFFFF) 8
                 (0xFFFF0000 OR ucast (flow_match_udp_dst_mask f)) m8;
          m10 = and_word (fm_mode (mod_udp_src md) \<noteq> PWFPGA_FIELD_STATIC) 8
                 (NOT (push_bit 16 (ucast (fm_mask (mod_udp_src md)) AND 0xFFFF))) m9
      in and_word (fm_mode (mod_vlan md) \<noteq> PWFPGA_FIELD_STATIC) 9
           (NOT (push_bit 16 (ucast (fm_mask (mod_vlan md)) AND 0x0FFF))) m10)"

section \<open>One flow\<close>

definition pw_flow_min_legal_frame :: "pw_flow \<Rightarrow> nat" where
  "pw_flow_min_legal_frame f =
     (let tmpl = tr_frame_template (flow_traffic f);
          l0 = 14 + (if l2_vlan_set (flow_l2 f) then 4 else 0);
          iphl = (if v6_present (flow_ipv6 f) then 40 else 20)
      in if tmpl = PW_FRAME_TEMPLATE_L2RAW then l0
         else if tmpl = PW_FRAME_TEMPLATE_L3RAW then l0 + iphl
         else
           let enc = flow_encap f;
               l1 = (if enc_present enc
                     then l0 + (if v6_present (enc_outer_ipv6 enc) then 40 else 20) +
                          (if enc_type enc = PWFPGA_ENCAP_GRE then 4
                           else if enc_type enc = PWFPGA_ENCAP_ETHERIP then 16 else 0)
                     else l0);
               l2 = l1 + iphl + (if udp_l4_proto (flow_udp f) = 6 then 20 else 8)
           in if tmpl = PW_FRAME_TEMPLATE_TEST then l2 + 32 else l2)"

text \<open>The metered byte rate: \<open>rate_bps\<close>, or packets per second times the metered frame, saturated.\<close>

definition metered_len :: "pw_flow \<Rightarrow> nat" where
  "metered_len f =
     (let t = flow_traffic f;
          flen = unat (if tr_frame_len_fixed_set t then tr_frame_len_fixed t else tr_frame_len_min t)
      in if flen < pw_flow_min_legal_frame f then pw_flow_min_legal_frame f else flen)"

definition eff_rate_bps :: "pw_flow \<Rightarrow> nat" where
  "eff_rate_bps f =
     (let t = flow_traffic f
      in if tr_rate_bps t = 0 \<and> tr_rate_pps t \<noteq> 0
         then (let pr = unat (tr_rate_pps t) * metered_len f * 8
               in if pr > 2 ^ 64 - 1 then 2 ^ 64 - 1 else pr)
         else unat (tr_rate_bps t))"

text \<open>Q16.16 bytes per data-plane cycle, clamped to 32 bits. The 128-bit intermediates are exact.\<close>

definition tokens_per_tick :: "pw_flow \<Rightarrow> u32" where
  "tokens_per_tick f =
     (let num = eff_rate_bps f * 65536; den = PWFPGA_DATA_PLANE_CLOCK_HZ * 8;
          q = (if den \<noteq> 0 then num div den else 0)
      in if q > 0xFFFFFFFF then 0xFFFFFFFF else of_nat q)"

text \<open>The token-bucket cap in bytes: at least one (clamped) frame, at most 16 bits.\<close>

definition burst_cap :: "pw_flow \<Rightarrow> u16 \<Rightarrow> u16" where
  "burst_cap f frame_len_max =
     (let flen0 = (if frame_len_max \<noteq> 0 then unat frame_len_max else 1518);
          minf = pw_flow_min_legal_frame f;
          flen = (if flen0 < minf then minf else flen0);
          bsz = (if tr_burst_size (flow_traffic f) \<noteq> 0 then unat (tr_burst_size (flow_traffic f)) else 1);
          cap0 = bsz * flen;
          cap = (if cap0 < flen then flen else cap0)
      in if cap > 0xFFFF then 0xFFFF else of_nat cap)"

text \<open>The row in the order the source fills it: identity and L2, L3, encapsulation, L4 and
  modifiers, lengths and rates, payload and enables.\<close>

definition row_identity ::
  "pw_flow \<Rightarrow> pwfpga_port_ref \<Rightarrow> u32 \<Rightarrow> pwfpga_flow_config \<Rightarrow> pwfpga_flow_config" where
  "row_identity f tx lfid r =
     r\<lparr>row_enable := 1, row_egress_local_port := ref_local_port_id tx,
       row_global_flow_id := flow_id f, row_local_flow_id := lfid,
       row_logical_if_id := flow_logical_if_id f,
       row_src_mac := l2_src_mac (flow_l2 f), row_dst_mac := l2_dst_mac (flow_l2 f),
       row_vlan_enable := (if l2_vlan_set (flow_l2 f) then 1 else 0),
       row_vlan_id := l2_vlan (flow_l2 f), row_pcp := l2_pcp (flow_l2 f)\<rparr>"

definition row_l3 :: "pw_flow \<Rightarrow> pwfpga_flow_config \<Rightarrow> pwfpga_flow_config" where
  "row_l3 f r =
     (if v6_present (flow_ipv6 f)
      then r\<lparr>row_ip_version := 6, row_ipv6_src := v6_src (flow_ipv6 f),
             row_ipv6_dst := v6_dst (flow_ipv6 f), row_ttl := v6_hop_limit (flow_ipv6 f),
             row_dscp := v6_dscp (flow_ipv6 f)\<rparr>
      else r\<lparr>row_ip_version := 4, row_src_ipv4 := v4_src (flow_ipv4 f),
             row_dst_ipv4 := v4_dst (flow_ipv4 f), row_ttl := v4_ttl (flow_ipv4 f),
             row_dscp := v4_dscp (flow_ipv4 f)\<rparr>)"

definition row_encap :: "pw_flow \<Rightarrow> pwfpga_flow_config \<Rightarrow> pwfpga_flow_config" where
  "row_encap f r =
     (let e = flow_encap f; o6 = enc_outer_ipv6 e; o4 = enc_outer_ipv4 e
      in if \<not> enc_present e then r
         else
           let r1 = r\<lparr>row_encap_type := enc_type e, row_rx_expect := flow_rx_expect f\<rparr>;
               r2 = (if v6_present o6
                     then r1\<lparr>row_outer_ip_version := 6, row_outer_ipv6_src := v6_src o6,
                             row_outer_ipv6_dst := v6_dst o6, row_outer_ttl := v6_hop_limit o6,
                             row_outer_dscp := v6_dscp o6\<rparr>
                     else r1\<lparr>row_outer_ip_version := 4, row_outer_src_ipv4 := v4_src o4,
                             row_outer_dst_ipv4 := v4_dst o4, row_outer_ttl := v4_ttl o4,
                             row_outer_dscp := v4_dscp o4\<rparr>)
           in r2\<lparr>row_inner_src_mac := (if enc_inner_mac_set e then enc_inner_src_mac e
                                       else l2_src_mac (flow_l2 f)),
                 row_inner_dst_mac := (if enc_inner_mac_set e then enc_inner_dst_mac e
                                       else l2_dst_mac (flow_l2 f))\<rparr>)"

text \<open>\<open>(uint8_t)(mask >> (8 * (5 - i)))\<close> for the six bytes of a 48-bit mask.\<close>

definition mac_mask_bytes :: "u64 \<Rightarrow> bytes" where
  "mac_mask_bytes m = map (\<lambda>i. ucast (drop_bit (8 * (5 - i)) m)) [0, 1, 2, 3, 4, 5]"

text \<open>\<open>hi[i] = mask[11 - i]\<close>, \<open>i < 12\<close>.\<close>

definition ipv6_mask_hi :: "bytes \<Rightarrow> bytes" where
  "ipv6_mask_hi m = map (\<lambda>i. m ! (11 - i)) [0, 1, 2, 3, 4, 5, 6, 7, 8, 9, 10, 11]"

definition row_l4_mods :: "pw_flow \<Rightarrow> pwfpga_flow_config \<Rightarrow> pwfpga_flow_config" where
  "row_l4_mods f r =
     (let u = flow_udp f; md = flow_mod f;
          r1 = r\<lparr>row_udp_src_port := udp_src_port u, row_udp_dst_port := udp_dst_port u,
                 row_l4_proto := (if udp_l4_proto u \<noteq> 0 then udp_l4_proto u else 17),
                 row_tcp_flags := udp_tcp_flags u,
                 row_frame_template := tr_frame_template (flow_traffic f),
                 row_l2_ethertype := l2_ethertype (flow_l2 f),
                 row_src_ipv4_mod := fm_mode (mod_src_ipv4 md),
                 row_src_ipv4_mask := ucast (fm_mask (mod_src_ipv4 md)),
                 row_dst_ipv4_mod := fm_mode (mod_dst_ipv4 md),
                 row_dst_ipv4_mask := ucast (fm_mask (mod_dst_ipv4 md))\<rparr>;
          r2 = (if v6_present (flow_ipv6 f)
                then r1\<lparr>row_src_ipv6_mask_hi := ipv6_mask_hi (mod_src_ipv6_mask md),
                        row_dst_ipv6_mask_hi := ipv6_mask_hi (mod_dst_ipv6_mask md)\<rparr>
                else r1)
      in r2\<lparr>row_udp_src_mod := fm_mode (mod_udp_src md),
            row_udp_src_mask := ucast (fm_mask (mod_udp_src md)),
            row_udp_dst_mod := fm_mode (mod_udp_dst md),
            row_udp_dst_mask := ucast (fm_mask (mod_udp_dst md)),
            row_src_mac_mod := fm_mode (mod_src_mac md),
            row_dst_mac_mod := fm_mode (mod_dst_mac md),
            row_src_mac_mask := mac_mask_bytes (fm_mask (mod_src_mac md)),
            row_dst_mac_mask := mac_mask_bytes (fm_mask (mod_dst_mac md)),
            row_vlan_mod := fm_mode (mod_vlan md),
            row_vlan_mask := ucast (fm_mask (mod_vlan md) AND 0x0FFF)\<rparr>)"

definition row_rates :: "pw_flow \<Rightarrow> pwfpga_flow_config \<Rightarrow> pwfpga_flow_config" where
  "row_rates f r =
     (let t = flow_traffic f;
          r1 = (if tr_frame_len_fixed_set t
                then r\<lparr>row_frame_len_min := tr_frame_len_fixed t,
                       row_frame_len_max := tr_frame_len_fixed t, row_frame_len_step := 1\<rparr>
                else r\<lparr>row_frame_len_min := tr_frame_len_min t,
                       row_frame_len_max := tr_frame_len_max t,
                       row_frame_len_step :=
                         (if tr_frame_len_step t \<noteq> 0 then tr_frame_len_step t else 1)\<rparr>)
      in r1\<lparr>row_rate_bps := tr_rate_bps t, row_rate_pps := tr_rate_pps t,
            row_burst_size := tr_burst_size t, row_burst_gap_ticks := tr_burst_gap_ticks t,
            row_tokens_per_tick_fp := tokens_per_tick f,
            row_burst_bytes := burst_cap f (row_frame_len_max r1)\<rparr>)"

definition row_payload :: "pw_flow \<Rightarrow> bool \<Rightarrow> pwfpga_flow_config \<Rightarrow> pwfpga_flow_config" where
  "row_payload f same_card r =
     (let t = flow_traffic f
      in r\<lparr>row_payload_mode := tr_payload_mode t, row_payload_seed := tr_payload_seed t,
           row_insert_sequence := (if tr_insert_sequence t then 1 else 0),
           row_insert_timestamp := (if tr_insert_timestamp t then 1 else 0),
           row_tx_enable := 1,
           row_rx_check_enable := (if same_card \<and> \<not> flow_background f then 1 else 0)\<rparr>)"

definition tx_row :: "pw_flow \<Rightarrow> pwfpga_port_ref \<Rightarrow> bool \<Rightarrow> u32 \<Rightarrow> pwfpga_flow_config" where
  "tx_row f tx same_card lfid =
     row_payload f same_card (row_rates f (row_l4_mods f (row_encap f (row_l3 f
       (row_identity f tx lfid zero_row)))))"

definition rx_row :: "pwfpga_flow_config \<Rightarrow> pwfpga_port_ref \<Rightarrow> u32 \<Rightarrow> pwfpga_flow_config" where
  "rx_row tr rx rx_lfid =
     tr\<lparr>row_local_flow_id := rx_lfid, row_egress_local_port := ref_local_port_id rx,
        row_tx_enable := 0, row_rx_check_enable := 1\<rparr>"

definition flow_meta_of ::
  "pw_flow \<Rightarrow> pwfpga_port_ref \<Rightarrow> pwfpga_port_ref \<Rightarrow> u32 \<Rightarrow> u32 \<Rightarrow> pw_flow_meta" where
  "flow_meta_of f tx rx tx_lfid rx_lfid =
     \<lparr>meta_global_flow_id = flow_id f, meta_tx_card_id = ref_card_id tx,
      meta_rx_card_id = ref_card_id rx, meta_tx_local_flow_id = tx_lfid,
      meta_rx_local_flow_id = rx_lfid,
      meta_latency_valid = (ref_card_id tx = ref_card_id rx \<and> \<not> flow_background f),
      meta_rx_slot_valid = (\<not> flow_background f)\<rparr>"

text \<open>The receive side of a measured flow on its card: a checker row when the cards differ, then
  the hash entry or the flow-id map entry.\<close>

definition compile_rx ::
  "pw_flow \<Rightarrow> pwfpga_flow_config \<Rightarrow> pwfpga_port_ref \<Rightarrow> bool \<Rightarrow> u32 \<Rightarrow> pw_card_program \<Rightarrow>
     pw_status + pw_card_program" where
  "compile_rx f tr rx same_card rx_lfid cp =
     (let cp1 = (if same_card then cp else append_flow cp (rx_row tr rx rx_lfid))
      in if flow_classify_header f then compile_header_classify cp1 f rx_lfid
         else if unat (flow_id f) \<ge> PWFPGA_FLOWID_MAP_DEPTH then Inl PW_E_INVAL
         else Inr (append_map cp1 (flow_id f) rx_lfid))"

definition compile_one_flow ::
  "pw_config \<Rightarrow> pw_program \<Rightarrow> nat \<times> pw_flow \<Rightarrow> pw_status + pw_program" where
  "compile_one_flow cfg p nf =
     (let (flow_index, f) = nf in
      rbind (pw_config_resolve_port (Some cfg) (flow_tx_global_port f)) (\<lambda>tx.
      rbind (pw_config_resolve_port (Some cfg) (flow_rx_global_port f)) (\<lambda>rx.
      rbind (or_fail (card_slot p (ref_card_id tx)) PW_E_UNKNOWN_CARD) (\<lambda>ti.
      rbind (or_fail (card_slot p (ref_card_id rx)) PW_E_UNKNOWN_CARD) (\<lambda>ri.
      let same_card = (ref_card_id tx = ref_card_id rx);
          tx_cp = prog_per_card p ! ti;
          n_tx = length (cp_flow_rows tx_cp);
          n_rx = length (cp_flow_rows (prog_per_card p ! ri))
      in
      rbind (fail_if (n_tx \<ge> PWFPGA_FLOW_TABLE_ROWS) PW_E_NO_RESOURCES) (\<lambda>_.
      rbind (fail_if (\<not> same_card \<and> \<not> flow_background f \<and> n_rx \<ge> PWFPGA_FLOW_TABLE_ROWS)
               PW_E_NO_RESOURCES) (\<lambda>_.
      let tx_lfid = of_nat n_tx;
          rx_lfid = (if same_card \<or> flow_background f then tx_lfid else of_nat n_rx);
          tr = tx_row f tx same_card tx_lfid;
          p1 = upd_card ti (append_flow tx_cp tr) p;
          p2 = p1\<lparr>prog_flow_meta := (prog_flow_meta p1)
                    [flow_index := flow_meta_of f tx rx tx_lfid rx_lfid]\<rparr>
      in
      if flow_background f then Inr p2
      else rbind (compile_rx f tr rx same_card rx_lfid (prog_per_card p2 ! ri)) (\<lambda>cp'.
           Inr (upd_card ri cp' p2)))))))))"

section \<open>Punt and forward rules\<close>

text \<open>The arguments of one \<open>PUNT(...)\<close>.\<close>

record punt_args =
  pa_eth :: u16
  pa_l3p :: u8
  pa_l4lane :: u8
  pa_l4port :: u16
  pa_udf_off :: u16
  pa_udf_val :: u32
  pa_prio :: u8

definition punt :: "u16 \<Rightarrow> u8 \<Rightarrow> u8 \<Rightarrow> u16 \<Rightarrow> u16 \<Rightarrow> u32 \<Rightarrow> u8 \<Rightarrow> punt_args" where
  "punt eth l3p lane port off val prio =
     \<lparr>pa_eth = eth, pa_l3p = l3p, pa_l4lane = lane, pa_l4port = port, pa_udf_off = off,
      pa_udf_val = val, pa_prio = prio\<rparr>"

definition punt_list :: "pw_punt_flags \<Rightarrow> punt_args list" where
  "punt_list fl =
     (if punt_arp fl then [punt 0x0806 0 0 0 0 0 20] else []) @
     (if punt_ipv6_nd fl then [punt 0x86DD 58 0 0 0 0 20] else []) @
     (if punt_lldp fl then [punt 0x88CC 0 0 0 0 0 20] else []) @
     (if punt_icmp fl then [punt 0x0800 1 0 0 0 0 25] else []) @
     (if punt_bgp fl then [punt 0x0800 6 PWFPGA_FC_SRC_L4_DST 179 0 0 30,
                           punt 0x0800 6 PWFPGA_FC_SRC_L4_SRC 179 0 0 30] else []) @
     (if punt_ospf fl then [punt 0x0800 89 0 0 0 0 30] else []) @
     (if punt_ospf fl \<and> punt_ipv6_nd fl then [punt 0x86DD 89 0 0 0 0 30] else []) @
     (if punt_bgp fl \<and> punt_ipv6_nd fl
      then [punt 0x86DD 6 PWFPGA_FC_SRC_L4_DST 179 0 0 30,
            punt 0x86DD 6 PWFPGA_FC_SRC_L4_SRC 179 0 0 30] else []) @
     (if punt_is_is fl then [punt 0 0 0 0 0 0xFEFE0000 30] else [])"

definition add_punt_rule ::
  "pwfpga_port_ref \<Rightarrow> pw_logical_if \<Rightarrow> pw_card_program \<Rightarrow> punt_args \<Rightarrow>
     pw_status + pw_card_program" where
  "add_punt_rule ref l cp a =
     rbind (care_cmp True PWFPGA_FC_SRC_INGRESS 0xF (ucast (ref_local_port_id ref)) (cp, 0)) (\<lambda>s1.
     rbind (care_cmp (lif_vlan l \<noteq> 0) PWFPGA_FC_SRC_VLAN 0x0FFF (ucast (lif_vlan l)) s1) (\<lambda>s2.
     rbind (care_cmp (pa_eth a \<noteq> 0) PWFPGA_FC_SRC_ETHERTYPE 0xFFFF (ucast (pa_eth a)) s2) (\<lambda>s3.
     rbind (care_cmp (pa_l3p a \<noteq> 0) PWFPGA_FC_SRC_L3_PROTO 0xFF (ucast (pa_l3p a)) s3) (\<lambda>s4.
     rbind (care_cmp (pa_l4port a \<noteq> 0) (pa_l4lane a) 0xFFFF (ucast (pa_l4port a)) s4) (\<lambda>s5.
     rbind (care_udf (pa_udf_val a \<noteq> 0) (pa_udf_off a) 0xFFFF0000 (pa_udf_val a) s5) (\<lambda>s6.
     append_fc_rule (fst s6)
       \<lparr>rule_care = snd s6, rule_action = PWFPGA_ACT_PUNT_TO_HOST, rule_egress = 0,
        rule_local_flow_id = 0, rule_logical_if_id = lif_id l, rule_priority = pa_prio a\<rparr>))))))"

definition compile_punt_lif ::
  "pw_config \<Rightarrow> pw_program \<Rightarrow> pw_logical_if \<Rightarrow> pw_status + pw_program" where
  "compile_punt_lif cfg p l =
     rbind (pw_config_resolve_port (Some cfg) (lif_global_port l)) (\<lambda>ref.
     rbind (or_fail (card_slot p (ref_card_id ref)) PW_E_UNKNOWN_CARD) (\<lambda>i.
     rbind (fold_res (add_punt_rule ref l) (prog_per_card p ! i) (punt_list (lif_punt l))) (\<lambda>cp.
     Inr (upd_card i cp p))))"

definition compile_punt_rules :: "pw_config \<Rightarrow> pw_program \<Rightarrow> pw_status + pw_program" where
  "compile_punt_rules cfg p = fold_res (compile_punt_lif cfg) p (cfg_logical_if cfg)"

definition ipv6_dst_sel :: "u8 list" where
  "ipv6_dst_sel = [PWFPGA_FC_SRC_IPV6_DST_3, PWFPGA_FC_SRC_IPV6_DST_2, PWFPGA_FC_SRC_IPV6_DST_1,
                   PWFPGA_FC_SRC_IPV6_DST_0]"

definition ipv6_src_sel :: "u8 list" where
  "ipv6_src_sel = [PWFPGA_FC_SRC_IPV6_SRC_3, PWFPGA_FC_SRC_IPV6_SRC_2, PWFPGA_FC_SRC_IPV6_SRC_1,
                   PWFPGA_FC_SRC_IPV6_SRC_0]"

definition add_forward_rule ::
  "pwfpga_port_ref \<Rightarrow> pwfpga_port_ref \<Rightarrow> pw_forward_rule \<Rightarrow> pw_card_program \<Rightarrow>
     pw_status + pw_card_program" where
  "add_forward_rule ing egr fr cp =
     rbind (care_cmp True PWFPGA_FC_SRC_INGRESS 0xF (ucast (ref_local_port_id ing)) (cp, 0)) (\<lambda>s1.
     rbind (care_cmp (fwd_vlan fr \<noteq> 0) PWFPGA_FC_SRC_VLAN 0x0FFF (ucast (fwd_vlan fr)) s1) (\<lambda>s2.
     rbind (care_cmp (fwd_ethertype fr \<noteq> 0) PWFPGA_FC_SRC_ETHERTYPE 0xFFFF
              (ucast (fwd_ethertype fr)) s2) (\<lambda>s3.
     rbind (care_cmp (fwd_ip_proto fr \<noteq> 0) PWFPGA_FC_SRC_L3_PROTO 0xFF
              (ucast (fwd_ip_proto fr)) s3) (\<lambda>s4.
     rbind (care_cmp (fwd_udp_dst fr \<noteq> 0) PWFPGA_FC_SRC_L4_DST 0xFFFF
              (ucast (fwd_udp_dst fr)) s4) (\<lambda>s5.
     rbind (care_cmp (fwd_ipv6_dst_set fr \<or> fwd_ipv6_src_set fr) PWFPGA_FC_SRC_FLAGS
              PWFPGA_FC_FLAG_IS_IPV6 PWFPGA_FC_FLAG_IS_IPV6 s5) (\<lambda>s6.
     rbind (append_ipv6_cmps (fwd_ipv6_dst_set fr) (fwd_ipv6_dst fr) (fwd_ipv6_dst_mask fr)
              ipv6_dst_sel s6) (\<lambda>s7.
     rbind (append_ipv6_cmps (fwd_ipv6_src_set fr) (fwd_ipv6_src fr) (fwd_ipv6_src_mask fr)
              ipv6_src_sel s7) (\<lambda>s8.
     append_fc_rule (fst s8)
       \<lparr>rule_care = snd s8, rule_action = PWFPGA_ACT_FORWARD_PORT,
        rule_egress = ref_local_port_id egr, rule_local_flow_id = 0, rule_logical_if_id = 0,
        rule_priority = fwd_priority fr\<rparr>))))))))"

definition compile_forward ::
  "pw_config \<Rightarrow> pw_program \<Rightarrow> pw_forward_rule \<Rightarrow> pw_status + pw_program" where
  "compile_forward cfg p fr =
     rbind (pw_config_resolve_port (Some cfg) (fwd_ingress_port fr)) (\<lambda>ing.
     rbind (pw_config_resolve_port (Some cfg) (fwd_egress_port fr)) (\<lambda>egr.
     rbind (fail_if (ref_card_id ing \<noteq> ref_card_id egr) PW_E_INVAL) (\<lambda>_.
     rbind (or_fail (card_slot p (ref_card_id ing)) PW_E_UNKNOWN_CARD) (\<lambda>i.
     rbind (add_forward_rule ing egr fr (prog_per_card p ! i)) (\<lambda>cp.
     Inr (upd_card i cp p))))))"

definition compile_forward_rules :: "pw_config \<Rightarrow> pw_program \<Rightarrow> pw_status + pw_program" where
  "compile_forward_rules cfg p = fold_res (compile_forward cfg) p (cfg_forwards cfg)"

section \<open>Hash placement\<close>

text \<open>The global key mask of a card: all ones, relaxed by its header-classified flows.\<close>

definition relaxes_card :: "pw_config \<Rightarrow> u16 \<Rightarrow> pw_flow \<Rightarrow> bool" where
  "relaxes_card cfg cid f \<longleftrightarrow>
     flow_classify_header f \<and>
     (case pw_config_resolve_port (Some cfg) (flow_rx_global_port f) of
        Inl _ \<Rightarrow> False | Inr rx \<Rightarrow> ref_card_id rx = cid)"

definition card_hash_mask :: "pw_config \<Rightarrow> u16 \<Rightarrow> u32 list" where
  "card_hash_mask cfg cid =
     foldl (\<lambda>m f. if relaxes_card cfg cid f then pw_fc_relax_mask m f else m)
       (replicate 11 0xFFFFFFFF) (cfg_flows cfg)"

definition mask_key :: "u32 list \<Rightarrow> u32 list \<Rightarrow> u32 list" where
  "mask_key msk key = map2 (AND) key msk"

definition hash_seed_of :: "nat \<Rightarrow> u32" where
  "hash_seed_of attempt = 0x9E3779B1 * (of_nat attempt + 1) + 1"

text \<open>One placement attempt: the buckets of the keys in order, or a collision.\<close>

fun place_keys :: "u32 \<Rightarrow> bool list \<Rightarrow> u32 list list \<Rightarrow> u16 list option" where
  "place_keys seed used [] = Some []"
| "place_keys seed used (k # ks) =
     (let idx = pw_fc_hash_index k seed
      in if used ! unat idx then None
         else map_option ((#) idx) (place_keys seed (used[unat idx := True]) ks))"

fun seed_search :: "u32 list list \<Rightarrow> nat \<Rightarrow> nat \<Rightarrow> (u32 \<times> u16 list) option" where
  "seed_search keys 0 attempt = None"
| "seed_search keys (Suc n) attempt =
     (let seed = hash_seed_of attempt
      in case place_keys seed (replicate PWFPGA_HASH_DEPTH False) keys of
           Some idxs \<Rightarrow> Some (seed, idxs)
         | None \<Rightarrow> seed_search keys n (Suc attempt))"

definition hash_place_card :: "pw_config \<Rightarrow> pw_card_program \<Rightarrow> pw_status + pw_card_program" where
  "hash_place_card cfg cp =
     (if cp_hash_entries cp = [] then Inr cp
      else
        let msk = card_hash_mask cfg (cp_card_id cp);
            entries = map (\<lambda>e. e\<lparr>he_key_word := mask_key msk (he_key_word e)\<rparr>) (cp_hash_entries cp);
            keys = map he_key_word entries
        in
        rbind (fail_if (\<not> distinct keys) PW_E_INVAL) (\<lambda>_.
        case seed_search keys 4096 0 of
          None \<Rightarrow> Inl PW_E_NO_RESOURCES
        | Some (seed, idxs) \<Rightarrow>
            Inr (cp\<lparr>cp_hash_seed := seed, cp_hash_mask := msk,
                    cp_hash_entries := map2 (\<lambda>e i. e\<lparr>he_index := i\<rparr>) entries idxs\<rparr>)))"

section \<open>The compiler\<close>

definition init_program :: "pw_config \<Rightarrow> pw_program" where
  "init_program cfg =
     \<lparr>prog_per_card = map (\<lambda>c. empty_card_program (card_id c)) (cfg_cards cfg),
      prog_flow_meta = replicate (length (cfg_flows cfg)) zero_meta\<rparr>"

definition compile_flows :: "pw_config \<Rightarrow> pw_status + pw_program" where
  "compile_flows cfg =
     fold_res (compile_one_flow cfg) (init_program cfg)
       (zip [0..<length (cfg_flows cfg)] (cfg_flows cfg))"

definition pw_flow_compile :: "pw_config option \<Rightarrow> pw_status + pw_program" where
  "pw_flow_compile c =
     (case c of None \<Rightarrow> Inl PW_E_INVAL
      | Some cfg \<Rightarrow>
          rbind (fail_if (pw_config_validate (Some cfg) \<noteq> PW_OK) (pw_config_validate (Some cfg))) (\<lambda>_.
          rbind (compile_flows cfg) (\<lambda>p1.
          rbind (compile_punt_rules cfg p1) (\<lambda>p2.
          rbind (compile_forward_rules cfg p2) (\<lambda>p3.
          rbind (map_res (hash_place_card cfg) (prog_per_card p3)) (\<lambda>cards.
          Inr (p3\<lparr>prog_per_card := cards\<rparr>)))))))"

end
