(* ===== verification/PW_Compile_Inv.thy ===== *)
theory PW_Compile_Inv
  imports PW_Flow_Compiler
begin

text \<open>
  What the flow compiler's output satisfies: the resource invariant of a card program (the
  hardware capacities and the references between its tables) and the placement of every flow
  in the slots its metadata names. Both are kept by each append, hence by each compile step,
  hence by \<open>pw_flow_compile\<close>.
\<close>

section \<open>The resource invariant\<close>

definition care_ok :: "pw_card_program \<Rightarrow> u16 \<Rightarrow> bool" where
  "care_ok cp care \<longleftrightarrow>
     (\<forall>b < 16. bit care b \<longrightarrow>
        b < length (cp_fc_cmps cp) \<or>
        (PWFPGA_NUM_CMP \<le> b \<and> b < PWFPGA_NUM_CMP + length (cp_fc_udfs cp)))"

definition card_wf :: "pw_card_program \<Rightarrow> bool" where
  "card_wf cp \<longleftrightarrow>
     length (cp_flow_rows cp) \<le> PWFPGA_FLOW_TABLE_ROWS \<and>
     (\<forall>i < length (cp_flow_rows cp). row_local_flow_id (cp_flow_rows cp ! i) = of_nat i) \<and>
     (\<forall>e\<in>set (cp_map_entries cp). unat (me_flow_id e) < PWFPGA_FLOWID_MAP_DEPTH \<and>
        unat (me_local_flow_id e) < length (cp_flow_rows cp)) \<and>
     length (cp_fc_cmps cp) \<le> PWFPGA_NUM_CMP \<and> distinct (cp_fc_cmps cp) \<and>
     length (cp_fc_udfs cp) \<le> PWFPGA_NUM_UDF \<and> distinct (cp_fc_udfs cp) \<and>
     length (cp_fc_rules cp) \<le> PWFPGA_NUM_RULE \<and>
     (\<forall>r\<in>set (cp_fc_rules cp). care_ok cp (rule_care r)) \<and>
     length (cp_hash_entries cp) \<le> PWFPGA_HASH_DEPTH \<and>
     (\<forall>e\<in>set (cp_hash_entries cp). length (he_key_word e) = 11 \<and>
        unat (he_local_flow_id e) < length (cp_flow_rows cp))"

text \<open>\<open>cp'\<close> only adds to \<open>cp\<close>: every table of \<open>cp\<close> is a prefix of the table of \<open>cp'\<close>.\<close>

definition extends :: "pw_card_program \<Rightarrow> pw_card_program \<Rightarrow> bool" where
  "extends cp cp' \<longleftrightarrow>
     cp_card_id cp' = cp_card_id cp \<and>
     (\<exists>xs. cp_flow_rows cp' = cp_flow_rows cp @ xs) \<and>
     (\<exists>xs. cp_map_entries cp' = cp_map_entries cp @ xs) \<and>
     (\<exists>xs. cp_fc_cmps cp' = cp_fc_cmps cp @ xs) \<and>
     (\<exists>xs. cp_fc_udfs cp' = cp_fc_udfs cp @ xs) \<and>
     (\<exists>xs. cp_fc_rules cp' = cp_fc_rules cp @ xs) \<and>
     (\<exists>xs. cp_hash_entries cp' = cp_hash_entries cp @ xs)"

text \<open>The rule compilers leave the flow tables alone.\<close>

definition same_flows :: "pw_card_program \<Rightarrow> pw_card_program \<Rightarrow> bool" where
  "same_flows cp cp' \<longleftrightarrow>
     cp_flow_rows cp' = cp_flow_rows cp \<and> cp_map_entries cp' = cp_map_entries cp \<and>
     cp_hash_entries cp' = cp_hash_entries cp"

lemma same_flows_refl [simp]: "same_flows cp cp"
  by (simp add: same_flows_def)

lemma same_flows_trans: "same_flows a b \<Longrightarrow> same_flows b c \<Longrightarrow> same_flows a c"
  by (simp add: same_flows_def)

lemma extends_refl [simp]: "extends cp cp"
  by (simp add: extends_def)

lemma extends_trans: "extends a b \<Longrightarrow> extends b c \<Longrightarrow> extends a c"
  unfolding extends_def by (elim conjE exE) (simp add: append_assoc)

lemma extends_card_id: "extends a b \<Longrightarrow> cp_card_id b = cp_card_id a"
  by (simp add: extends_def)

lemma extends_row:
  "extends a b \<Longrightarrow> i < length (cp_flow_rows a) \<Longrightarrow>
     i < length (cp_flow_rows b) \<and> cp_flow_rows b ! i = cp_flow_rows a ! i"
  by (auto simp: extends_def nth_append)

lemma extends_cmp:
  "extends a b \<Longrightarrow> i < length (cp_fc_cmps a) \<Longrightarrow>
     i < length (cp_fc_cmps b) \<and> cp_fc_cmps b ! i = cp_fc_cmps a ! i"
  by (auto simp: extends_def nth_append)

lemma extends_udf:
  "extends a b \<Longrightarrow> i < length (cp_fc_udfs a) \<Longrightarrow>
     i < length (cp_fc_udfs b) \<and> cp_fc_udfs b ! i = cp_fc_udfs a ! i"
  by (auto simp: extends_def nth_append)

lemma extends_sets:
  "extends a b \<Longrightarrow> set (cp_map_entries a) \<subseteq> set (cp_map_entries b)"
  "extends a b \<Longrightarrow> set (cp_hash_entries a) \<subseteq> set (cp_hash_entries b)"
  "extends a b \<Longrightarrow> set (cp_fc_rules a) \<subseteq> set (cp_fc_rules b)"
  by (auto simp: extends_def)

lemma care_ok_extends: "extends a b \<Longrightarrow> care_ok a care \<Longrightarrow> care_ok b care"
  by (fastforce simp: care_ok_def extends_def)

lemma care_ok_0 [simp]: "care_ok cp 0"
  by (simp add: care_ok_def)

lemma empty_card_wf [simp]: "card_wf (empty_card_program cid)"
  by (simp add: card_wf_def empty_card_program_def)

section \<open>Each append keeps it\<close>

lemma append_flow_extends: "extends cp (append_flow cp r)"
  by (simp add: extends_def append_flow_def)

lemma append_flow_wf:
  assumes "card_wf cp" and "length (cp_flow_rows cp) < PWFPGA_FLOW_TABLE_ROWS"
    and "row_local_flow_id r = of_nat (length (cp_flow_rows cp))"
  shows "card_wf (append_flow cp r)"
  using assms by (auto simp: card_wf_def append_flow_def care_ok_def nth_append less_Suc_eq)

lemma append_map_extends: "extends cp (append_map cp a b)"
  by (simp add: extends_def append_map_def)

lemma append_map_wf:
  "card_wf cp \<Longrightarrow> unat fid < PWFPGA_FLOWID_MAP_DEPTH \<Longrightarrow> unat lfid < length (cp_flow_rows cp) \<Longrightarrow>
     card_wf (append_map cp fid lfid)"
  by (auto simp: card_wf_def append_map_def care_ok_def)

lemma append_fc_cmp_SomeD:
  assumes "append_fc_cmp cp src msk val = Inr (cp', b)" and "card_wf cp"
  shows "card_wf cp' \<and> extends cp cp' \<and> same_flows cp cp' \<and> b < length (cp_fc_cmps cp') \<and>
    cp_fc_cmps cp' ! b = \<lparr>cmp_src = src, cmp_mask = msk, cmp_value = val\<rparr>"
proof (cases "find_idx (\<lambda>c. cmp_src c = src \<and> cmp_mask c = msk \<and> cmp_value c = val) (cp_fc_cmps cp)")
  case (Some i)
  with assms find_idx_Some [OF Some] show ?thesis by (auto simp: append_fc_cmp_def)
next
  case None
  let ?c = "\<lparr>cmp_src = src, cmp_mask = msk, cmp_value = val\<rparr>"
  from None have new: "?c \<notin> set (cp_fc_cmps cp)" by (force simp: find_idx_None)
  from None assms(1) have cp': "cp' = cp\<lparr>cp_fc_cmps := cp_fc_cmps cp @ [?c]\<rparr>"
    and b: "b = length (cp_fc_cmps cp)" and cap: "length (cp_fc_cmps cp) < PWFPGA_NUM_CMP"
    by (auto simp: append_fc_cmp_def split: if_splits)
  have ext: "extends cp cp'" by (simp add: extends_def cp')
  moreover have "card_wf cp'"
    using assms(2) new cap care_ok_extends [OF ext] by (auto simp: card_wf_def cp')
  ultimately show ?thesis by (simp add: cp' b same_flows_def)
qed

lemma append_fc_udf_SomeD:
  assumes "append_fc_udf cp off msk val = Inr (cp', b)" and "card_wf cp"
  shows "card_wf cp' \<and> extends cp cp' \<and> same_flows cp cp' \<and> PWFPGA_NUM_CMP \<le> b \<and>
    b < PWFPGA_NUM_CMP + length (cp_fc_udfs cp') \<and>
    cp_fc_udfs cp' ! (b - PWFPGA_NUM_CMP) =
      \<lparr>udf_offset = off, udf_mask = msk, udf_value = val\<rparr>"
proof (cases "find_idx (\<lambda>u. udf_offset u = off \<and> udf_mask u = msk \<and> udf_value u = val) (cp_fc_udfs cp)")
  case (Some i)
  with assms find_idx_Some [OF Some] show ?thesis by (auto simp: append_fc_udf_def)
next
  case None
  let ?c = "\<lparr>udf_offset = off, udf_mask = msk, udf_value = val\<rparr>"
  from None have new: "?c \<notin> set (cp_fc_udfs cp)" by (force simp: find_idx_None)
  from None assms(1) have cp': "cp' = cp\<lparr>cp_fc_udfs := cp_fc_udfs cp @ [?c]\<rparr>"
    and b: "b = PWFPGA_NUM_CMP + length (cp_fc_udfs cp)"
    and cap: "length (cp_fc_udfs cp) < PWFPGA_NUM_UDF"
    by (auto simp: append_fc_udf_def split: if_splits)
  have ext: "extends cp cp'" by (simp add: extends_def cp')
  moreover have "card_wf cp'"
    using assms(2) new cap care_ok_extends [OF ext] by (auto simp: card_wf_def cp')
  ultimately show ?thesis by (simp add: cp' b same_flows_def)
qed

text \<open>The state of a rule under construction: the card program and the care mask so far.\<close>

definition rule_state_ok :: "pw_card_program \<Rightarrow> pw_card_program \<times> u16 \<Rightarrow> bool" where
  "rule_state_ok cp0 st \<longleftrightarrow>
     card_wf (fst st) \<and> extends cp0 (fst st) \<and> same_flows cp0 (fst st) \<and> care_ok (fst st) (snd st)"

lemma care_ok_set_care:
  "care_ok cp care \<Longrightarrow>
     b < length (cp_fc_cmps cp) \<or>
       (PWFPGA_NUM_CMP \<le> b \<and> b < PWFPGA_NUM_CMP + length (cp_fc_udfs cp)) \<Longrightarrow>
     care_ok cp (set_care care b)"
  by (auto simp: care_ok_def set_care_def bit_simps)

lemma care_cmp_ok:
  assumes "care_cmp cond src msk val st = Inr st'" and "rule_state_ok cp0 st"
  shows "rule_state_ok cp0 st'"
proof (cases cond)
  case True
  with assms(1) obtain cp' b where cb: "append_fc_cmp (fst st) src msk val = Inr (cp', b)"
    and st': "st' = (cp', set_care (snd st) b)"
    by (auto simp: care_cmp_def rbind_eq_Inr)
  from append_fc_cmp_SomeD [OF cb] assms(2) show ?thesis
    by (auto simp: rule_state_ok_def st' intro: extends_trans same_flows_trans care_ok_set_care
        care_ok_extends)
qed (use assms in \<open>simp add: care_cmp_def\<close>)

lemma care_udf_ok:
  assumes "care_udf cond off msk val st = Inr st'" and "rule_state_ok cp0 st"
  shows "rule_state_ok cp0 st'"
proof (cases cond)
  case True
  with assms(1) obtain cp' b where cb: "append_fc_udf (fst st) off msk val = Inr (cp', b)"
    and st': "st' = (cp', set_care (snd st) b)"
    by (auto simp: care_udf_def rbind_eq_Inr)
  from append_fc_udf_SomeD [OF cb] assms(2) show ?thesis
    by (auto simp: rule_state_ok_def st' intro: extends_trans same_flows_trans care_ok_set_care
        care_ok_extends)
qed (use assms in \<open>simp add: care_udf_def\<close>)

lemma append_ipv6_cmps_ok:
  assumes "append_ipv6_cmps cond addr msk sel st = Inr st'" and "rule_state_ok cp0 st"
  shows "rule_state_ok cp0 st'"
proof (cases cond)
  case True
  with assms(1) have "fold_res (ipv6_cmp_word addr msk sel) st [0, 1, 2, 3] = Inr st'"
    by (simp add: append_ipv6_cmps_def)
  then show ?thesis
  proof (rule fold_res_inv)
    show "rule_state_ok cp0 t'" if "rule_state_ok cp0 t" "ipv6_cmp_word addr msk sel t w = Inr t'"
      for t w t'
      using that care_cmp_ok by (auto simp: ipv6_cmp_word_def Let_def)
  qed (rule assms(2))
qed (use assms in \<open>simp add: append_ipv6_cmps_def\<close>)

lemma append_fc_rule_ok:
  assumes "append_fc_rule (fst st) r = Inr cp'" and "rule_state_ok cp0 st" and "rule_care r = snd st"
  shows "card_wf cp' \<and> extends cp0 cp' \<and> same_flows cp0 cp'"
proof -
  have cp': "cp' = fst st\<lparr>cp_fc_rules := cp_fc_rules (fst st) @ [r]\<rparr>"
    and cap: "length (cp_fc_rules (fst st)) < PWFPGA_NUM_RULE"
    using assms(1) by (auto simp: append_fc_rule_def split: if_splits)
  have ext: "extends (fst st) cp'" by (simp add: extends_def cp')
  then have "card_wf cp'"
    using assms(2,3) cap care_ok_extends [OF ext] by (auto simp: card_wf_def cp' rule_state_ok_def)
  with assms(2) ext show ?thesis
    by (auto simp: rule_state_ok_def cp' same_flows_def intro: extends_trans)
qed

lemma add_punt_rule_ok:
  assumes "add_punt_rule ref l cp a = Inr cp'" and "card_wf cp"
  shows "card_wf cp' \<and> extends cp cp' \<and> same_flows cp cp'"
proof -
  have "rule_state_ok cp (cp, 0)" using assms(2) by (simp add: rule_state_ok_def)
  with assms(1) show ?thesis
    unfolding add_punt_rule_def rbind_eq_Inr
    by (elim exE conjE) (drule (1) care_cmp_ok care_udf_ok append_fc_rule_ok | simp)+
qed

lemma add_forward_rule_ok:
  assumes "add_forward_rule ing egr fr cp = Inr cp'" and "card_wf cp"
  shows "card_wf cp' \<and> extends cp cp' \<and> same_flows cp cp'"
proof -
  have "rule_state_ok cp (cp, 0)" using assms(2) by (simp add: rule_state_ok_def)
  with assms(1) show ?thesis
    unfolding add_forward_rule_def rbind_eq_Inr
    by (elim exE conjE) (drule (1) care_cmp_ok append_ipv6_cmps_ok append_fc_rule_ok | simp)+
qed

lemma append_hash_entry_ok:
  assumes "append_hash_entry cp w lfid = Inr cp'" and "card_wf cp" and "length w = 11"
    and "unat lfid < length (cp_flow_rows cp)"
  shows "card_wf cp' \<and> extends cp cp' \<and> cp_flow_rows cp' = cp_flow_rows cp \<and>
    \<lparr>he_index = 0, he_key_word = w, he_local_flow_id = lfid\<rparr> \<in> set (cp_hash_entries cp')"
proof -
  let ?e = "\<lparr>he_index = 0, he_key_word = w, he_local_flow_id = lfid\<rparr>"
  have cp': "cp' = cp\<lparr>cp_hash_entries := cp_hash_entries cp @ [?e]\<rparr>"
    and cap: "length (cp_hash_entries cp) < PWFPGA_HASH_DEPTH"
    using assms(1) by (auto simp: append_hash_entry_def split: if_splits)
  have ext: "extends cp cp'" by (simp add: extends_def cp')
  then have "card_wf cp'"
    using assms(2-4) cap care_ok_extends [OF ext] by (auto simp: card_wf_def cp')
  with ext show ?thesis by (simp add: cp')
qed

lemma pw_fc_hash_words_length [simp]: "length (pw_fc_hash_words f) = 11"
  by (simp add: pw_fc_hash_words_def pw_fc_l3_words_def Let_def)

section \<open>The rows of a flow\<close>

lemma tx_row_fields [simp]:
  "row_global_flow_id (tx_row f tx same lfid) = flow_id f"
  "row_local_flow_id (tx_row f tx same lfid) = lfid"
  "row_egress_local_port (tx_row f tx same lfid) = ref_local_port_id tx"
  "row_enable (tx_row f tx same lfid) = 1"
  "row_tx_enable (tx_row f tx same lfid) = 1"
  "row_rx_check_enable (tx_row f tx same lfid) = (if same \<and> \<not> flow_background f then 1 else 0)"
  by (simp_all add: tx_row_def row_payload_def row_rates_def row_l4_mods_def row_encap_def
      row_l3_def row_identity_def Let_def)

lemma rx_row_fields [simp]:
  "row_global_flow_id (rx_row r rx lfid) = row_global_flow_id r"
  "row_local_flow_id (rx_row r rx lfid) = lfid"
  "row_egress_local_port (rx_row r rx lfid) = ref_local_port_id rx"
  "row_enable (rx_row r rx lfid) = row_enable r"
  "row_tx_enable (rx_row r rx lfid) = 0"
  "row_rx_check_enable (rx_row r rx lfid) = 1"
  by (simp_all add: rx_row_def)

section \<open>Placement of a flow\<close>

definition rx_slot_row ::
  "pw_flow \<Rightarrow> pwfpga_port_ref \<Rightarrow> pwfpga_port_ref \<Rightarrow> pw_flow_meta \<Rightarrow> pwfpga_flow_config" where
  "rx_slot_row f tx rx m =
     (let same = (ref_card_id tx = ref_card_id rx); tr = tx_row f tx same (meta_tx_local_flow_id m)
      in if same then tr else rx_row tr rx (meta_rx_local_flow_id m))"

text \<open>
  The flow's transmit row is in the slot its metadata names, and for a measured flow so is the
  checker row, on the card of its receive port, with an entry of the flow-id map that leads
  there. The hash entry, which the last pass rewrites, is \<open>hash_listed\<close>.
\<close>

definition slot_has :: "pw_card_program \<Rightarrow> u32 \<Rightarrow> pwfpga_flow_config \<Rightarrow> bool" where
  "slot_has cp lfid r \<longleftrightarrow>
     unat lfid < length (cp_flow_rows cp) \<and> cp_flow_rows cp ! unat lfid = r"

definition map_leads :: "pw_card_program \<Rightarrow> u32 \<Rightarrow> u32 \<Rightarrow> bool" where
  "map_leads cp fid lfid \<longleftrightarrow>
     \<lparr>me_flow_id = fid, me_local_flow_id = lfid\<rparr> \<in> set (cp_map_entries cp)"

definition flow_placed ::
  "pw_config \<Rightarrow> pw_card_program list \<Rightarrow> pw_flow \<Rightarrow> pw_flow_meta \<Rightarrow> bool" where
  "flow_placed cfg cards f m \<longleftrightarrow>
     (\<exists>tx rx tc rc.
        pw_config_resolve_port (Some cfg) (flow_tx_global_port f) = Inr tx \<and>
        pw_config_resolve_port (Some cfg) (flow_rx_global_port f) = Inr rx \<and>
        tc \<in> set cards \<and> cp_card_id tc = ref_card_id tx \<and>
        rc \<in> set cards \<and> cp_card_id rc = ref_card_id rx \<and>
        m = flow_meta_of f tx rx (meta_tx_local_flow_id m) (meta_rx_local_flow_id m) \<and>
        slot_has tc (meta_tx_local_flow_id m)
          (tx_row f tx (ref_card_id tx = ref_card_id rx) (meta_tx_local_flow_id m)) \<and>
        (\<not> flow_background f \<longrightarrow>
           (ref_card_id tx = ref_card_id rx \<longrightarrow> meta_rx_local_flow_id m = meta_tx_local_flow_id m) \<and>
           slot_has rc (meta_rx_local_flow_id m) (rx_slot_row f tx rx m) \<and>
           (\<not> flow_classify_header f \<longrightarrow> map_leads rc (flow_id f) (meta_rx_local_flow_id m))))"

lemma flow_placedI:
  assumes "pw_config_resolve_port (Some cfg) (flow_tx_global_port f) = Inr tx"
    and "pw_config_resolve_port (Some cfg) (flow_rx_global_port f) = Inr rx"
    and "tc \<in> set cards" and "cp_card_id tc = ref_card_id tx"
    and "rc \<in> set cards" and "cp_card_id rc = ref_card_id rx"
    and "m = flow_meta_of f tx rx (meta_tx_local_flow_id m) (meta_rx_local_flow_id m)"
    and "slot_has tc (meta_tx_local_flow_id m)
           (tx_row f tx (ref_card_id tx = ref_card_id rx) (meta_tx_local_flow_id m))"
    and "\<not> flow_background f \<Longrightarrow> ref_card_id tx = ref_card_id rx \<Longrightarrow>
           meta_rx_local_flow_id m = meta_tx_local_flow_id m"
    and "\<not> flow_background f \<Longrightarrow> slot_has rc (meta_rx_local_flow_id m) (rx_slot_row f tx rx m)"
    and "\<not> flow_background f \<Longrightarrow> \<not> flow_classify_header f \<Longrightarrow>
           map_leads rc (flow_id f) (meta_rx_local_flow_id m)"
  shows "flow_placed cfg cards f m"
  unfolding flow_placed_def using assms by blast

definition hash_listed ::
  "pw_config \<Rightarrow> pw_card_program list \<Rightarrow> pw_flow \<Rightarrow> pw_flow_meta \<Rightarrow> bool" where
  "hash_listed cfg cards f m \<longleftrightarrow>
     (\<exists>rc\<in>set cards. cp_card_id rc = meta_rx_card_id m \<and>
        (\<exists>e\<in>set (cp_hash_entries rc). he_key_word e = pw_fc_hash_words f \<and>
           he_local_flow_id e = meta_rx_local_flow_id m))"

text \<open>Growing card programs: slot by slot, each program only adds.\<close>

definition cards_extend :: "pw_card_program list \<Rightarrow> pw_card_program list \<Rightarrow> bool" where
  "cards_extend = list_all2 extends"

lemma cards_extend_refl [simp]: "cards_extend cs cs"
  by (simp add: cards_extend_def list_all2_refl)

lemma cards_extend_trans: "cards_extend a b \<Longrightarrow> cards_extend b c \<Longrightarrow> cards_extend a c"
  unfolding cards_extend_def by (rule list_all2_trans [OF extends_trans])

lemma cards_extend_update:
  "i < length cs \<Longrightarrow> extends (cs ! i) cp \<Longrightarrow> cards_extend cs (cs[i := cp])"
  by (auto simp: cards_extend_def list_all2_conv_all_nth nth_list_update)

lemma cards_extend_mem: "cards_extend a b \<Longrightarrow> c \<in> set a \<Longrightarrow> \<exists>c'\<in>set b. extends c c'"
  unfolding cards_extend_def by (metis in_set_conv_nth list_all2_conv_all_nth)

lemma cards_extend_ids: "cards_extend a b \<Longrightarrow> map cp_card_id b = map cp_card_id a"
  unfolding cards_extend_def
  by (auto simp: list_all2_conv_all_nth extends_card_id intro!: nth_equalityI)

lemma slot_has_extends: "extends a b \<Longrightarrow> slot_has a lfid r \<Longrightarrow> slot_has b lfid r"
  using extends_row by (auto simp: slot_has_def)

lemma map_leads_extends: "extends a b \<Longrightarrow> map_leads a fid lfid \<Longrightarrow> map_leads b fid lfid"
  using extends_sets(1) by (auto simp: map_leads_def)

lemma flow_placed_extend:
  assumes "cards_extend a b" and "flow_placed cfg a f m"
  shows "flow_placed cfg b f m"
proof -
  from assms(2) obtain tx rx tc rc where
    tc: "tc \<in> set a" and rc: "rc \<in> set a" and
    P: "pw_config_resolve_port (Some cfg) (flow_tx_global_port f) = Inr tx"
      "pw_config_resolve_port (Some cfg) (flow_rx_global_port f) = Inr rx"
      "cp_card_id tc = ref_card_id tx" "cp_card_id rc = ref_card_id rx"
      "m = flow_meta_of f tx rx (meta_tx_local_flow_id m) (meta_rx_local_flow_id m)"
      "slot_has tc (meta_tx_local_flow_id m)
         (tx_row f tx (ref_card_id tx = ref_card_id rx) (meta_tx_local_flow_id m))"
      "\<not> flow_background f \<longrightarrow>
         (ref_card_id tx = ref_card_id rx \<longrightarrow> meta_rx_local_flow_id m = meta_tx_local_flow_id m) \<and>
         slot_has rc (meta_rx_local_flow_id m) (rx_slot_row f tx rx m) \<and>
         (\<not> flow_classify_header f \<longrightarrow> map_leads rc (flow_id f) (meta_rx_local_flow_id m))"
    unfolding flow_placed_def by blast
  from cards_extend_mem [OF assms(1) tc] obtain tc' where tc': "tc' \<in> set b" "extends tc tc'" ..
  from cards_extend_mem [OF assms(1) rc] obtain rc' where rc': "rc' \<in> set b" "extends rc rc'" ..
  show ?thesis
    by (rule flow_placedI [OF P(1,2) tc'(1) _ rc'(1) _ P(5)])
      (use P extends_card_id [OF tc'(2)] extends_card_id [OF rc'(2)] slot_has_extends [OF tc'(2)]
        slot_has_extends [OF rc'(2)] map_leads_extends [OF rc'(2)] in auto)
qed

lemma hash_listed_extend:
  assumes "cards_extend a b" and "hash_listed cfg a f m"
  shows "hash_listed cfg b f m"
  using assms(2) cards_extend_mem [OF assms(1)] extends_card_id extends_sets(2)
  unfolding hash_listed_def by (metis (no_types, lifting) subsetD)

section \<open>One flow\<close>

lemma card_slot_SomeD:
  "card_slot p cid = Some i \<Longrightarrow>
     i < length (prog_per_card p) \<and> cp_card_id (prog_per_card p ! i) = cid"
  unfolding card_slot_def by (drule find_idx_Some) simp

lemma small_lfid [simp]: "n \<le> PWFPGA_FLOW_TABLE_ROWS \<Longrightarrow> unat (of_nat n :: u32) = n"
  by (simp add: unat_of_nat csr_capacities take_bit_nat_eq_self)

lemma append_flow_slot:
  "card_wf cp \<Longrightarrow> length (cp_flow_rows cp) < PWFPGA_FLOW_TABLE_ROWS \<Longrightarrow>
     slot_has (append_flow cp r) (of_nat (length (cp_flow_rows cp))) r"
  by (simp add: slot_has_def append_flow_def)

definition rx_entry_added :: "pw_flow \<Rightarrow> u32 \<Rightarrow> pw_card_program \<Rightarrow> pw_card_program \<Rightarrow> bool" where
  "rx_entry_added f rlf cp cp' \<longleftrightarrow>
     (if flow_classify_header f
      then cp_map_entries cp' = cp_map_entries cp \<and>
           cp_hash_entries cp' = cp_hash_entries cp @
             [\<lparr>he_index = 0, he_key_word = pw_fc_hash_words f, he_local_flow_id = rlf\<rparr>]
      else cp_map_entries cp' = cp_map_entries cp @
             [\<lparr>me_flow_id = flow_id f, me_local_flow_id = rlf\<rparr>] \<and>
           cp_hash_entries cp' = cp_hash_entries cp)"

lemma compile_rx_ok:
  assumes ok: "compile_rx f tr rx same rlf cp = Inr cp'" and wf: "card_wf cp"
    and cap: "\<not> same \<Longrightarrow> length (cp_flow_rows cp) < PWFPGA_FLOW_TABLE_ROWS \<and>
                rlf = of_nat (length (cp_flow_rows cp))"
    and slot: "same \<Longrightarrow> slot_has cp rlf tr"
  shows "card_wf cp' \<and> extends cp cp' \<and> slot_has cp' rlf (if same then tr else rx_row tr rx rlf) \<and>
    rx_entry_added f rlf cp cp'"
proof -
  define cp1 where "cp1 = (if same then cp else append_flow cp (rx_row tr rx rlf))"
  have wf1: "card_wf cp1" using append_flow_wf [OF wf, of "rx_row tr rx rlf"] cap wf by (auto simp: cp1_def)
  have ext1: "extends cp cp1" using append_flow_extends by (simp add: cp1_def)
  have slot1: "slot_has cp1 rlf (if same then tr else rx_row tr rx rlf)"
    using slot append_flow_slot [OF wf, of "rx_row tr rx rlf"] cap by (auto simp: cp1_def)
  have ents: "cp_map_entries cp1 = cp_map_entries cp" "cp_hash_entries cp1 = cp_hash_entries cp"
    by (simp_all add: cp1_def append_flow_def)
  show ?thesis
  proof (cases "flow_classify_header f")
    case True
    with ok have *: "append_hash_entry cp1 (pw_fc_hash_words f) rlf = Inr cp'"
      by (simp add: compile_rx_def cp1_def compile_header_classify_def Let_def)
    from append_hash_entry_ok [OF this wf1] slot1
    have "card_wf cp'" "extends cp1 cp'" by (auto simp: slot_has_def)
    moreover have "rx_entry_added f rlf cp cp'"
      using * True ents by (auto simp: rx_entry_added_def append_hash_entry_def split: if_splits)
    ultimately show ?thesis
      using extends_trans [OF ext1] slot_has_extends [OF _ slot1] by blast
  next
    case False
    with ok have fid: "unat (flow_id f) < PWFPGA_FLOWID_MAP_DEPTH"
      and cp': "cp' = append_map cp1 (flow_id f) rlf"
      by (auto simp: compile_rx_def cp1_def Let_def split: if_splits)
    have "card_wf cp'" unfolding cp' using slot1 by (intro append_map_wf wf1 fid) (simp add: slot_has_def)
    moreover have "rx_entry_added f rlf cp cp'"
      using cp' False ents by (simp add: rx_entry_added_def append_map_def)
    moreover have "extends cp1 cp'" unfolding cp' by (rule append_map_extends)
    ultimately show ?thesis
      using extends_trans [OF ext1] slot_has_extends [OF _ slot1] by blast
  qed
qed

text \<open>The successful path of \<open>compile_one_flow\<close>, in the source's order.\<close>

definition with_tx_row ::
  "pw_card_program list \<Rightarrow> nat \<Rightarrow> pw_flow \<Rightarrow> pwfpga_port_ref \<Rightarrow> bool \<Rightarrow> u32 \<Rightarrow> pw_card_program list"
  where
  "with_tx_row cs ti f tx same tlf = cs[ti := append_flow (cs ! ti) (tx_row f tx same tlf)]"

lemma compile_one_flow_cases:
  assumes ok: "compile_one_flow cfg p (n, f) = Inr p'" and cs: "cs = prog_per_card p"
  obtains tx rx ti ri tlf rlf same where
    "pw_config_resolve_port (Some cfg) (flow_tx_global_port f) = Inr tx"
    "pw_config_resolve_port (Some cfg) (flow_rx_global_port f) = Inr rx"
    "card_slot p (ref_card_id tx) = Some ti" "card_slot p (ref_card_id rx) = Some ri"
    "same \<longleftrightarrow> ref_card_id tx = ref_card_id rx"
    "length (cp_flow_rows (cs ! ti)) < PWFPGA_FLOW_TABLE_ROWS"
    "same \<or> flow_background f \<or> length (cp_flow_rows (cs ! ri)) < PWFPGA_FLOW_TABLE_ROWS"
    "tlf = of_nat (length (cp_flow_rows (cs ! ti)))"
    "rlf = (if same \<or> flow_background f then tlf else of_nat (length (cp_flow_rows (cs ! ri))))"
    "prog_flow_meta p' = (prog_flow_meta p)[n := flow_meta_of f tx rx tlf rlf]"
    "if flow_background f then prog_per_card p' = with_tx_row cs ti f tx same tlf
     else \<exists>cp'. compile_rx f (tx_row f tx same tlf) rx same rlf (with_tx_row cs ti f tx same tlf ! ri) = Inr cp' \<and>
                prog_per_card p' = (with_tx_row cs ti f tx same tlf)[ri := cp']"
proof -
  from ok obtain tx rx ti ri where
    C: "pw_config_resolve_port (Some cfg) (flow_tx_global_port f) = Inr tx"
      "pw_config_resolve_port (Some cfg) (flow_rx_global_port f) = Inr rx"
      "card_slot p (ref_card_id tx) = Some ti" "card_slot p (ref_card_id rx) = Some ri"
    by (auto simp: compile_one_flow_def rbind_eq_Inr Let_def)
  show thesis
    by (rule that [OF C refl _ _ refl refl])
      (use ok C in \<open>auto simp: compile_one_flow_def rbind_eq_Inr Let_def cs with_tx_row_def
         upd_card_def split: if_splits\<close>)
qed

lemma with_tx_row_ok:
  assumes wf: "\<forall>cp\<in>set cs. card_wf cp" and ti: "ti < length cs"
    and cap: "length (cp_flow_rows (cs ! ti)) < PWFPGA_FLOW_TABLE_ROWS"
    and tlf: "tlf = of_nat (length (cp_flow_rows (cs ! ti)))"
    and cs1_def: "cs1 = with_tx_row cs ti f tx same tlf"
  shows "\<forall>cp\<in>set cs1. card_wf cp" "cards_extend cs cs1" "length cs1 = length cs"
    "slot_has (cs1 ! ti) tlf (tx_row f tx same tlf)"
    "i < length cs \<Longrightarrow> cp_map_entries (cs1 ! i) = cp_map_entries (cs ! i)"
    "i < length cs \<Longrightarrow> cp_hash_entries (cs1 ! i) = cp_hash_entries (cs ! i)"
    "i < length cs \<Longrightarrow> cp_card_id (cs1 ! i) = cp_card_id (cs ! i)"
    "i \<noteq> ti \<Longrightarrow> cs1 ! i = cs ! i"
proof -
  let ?r = "tx_row f tx same tlf"
  have w: "card_wf (cs ! ti)" using wf ti by simp
  have "card_wf (append_flow (cs ! ti) ?r)"
    by (rule append_flow_wf [OF w cap]) (simp add: tlf)
  then show "\<forall>cp\<in>set cs1. card_wf cp"
    using wf set_update_subset_insert [of cs ti] by (auto simp: cs1_def with_tx_row_def)
  show "cards_extend cs cs1"
    unfolding cs1_def with_tx_row_def by (rule cards_extend_update [OF ti append_flow_extends])
  show "slot_has (cs1 ! ti) tlf ?r"
    using append_flow_slot [OF w cap] ti by (simp add: cs1_def with_tx_row_def tlf)
  show "length cs1 = length cs" "i \<noteq> ti \<Longrightarrow> cs1 ! i = cs ! i"
    by (simp_all add: cs1_def with_tx_row_def)
  show "cp_map_entries (cs1 ! i) = cp_map_entries (cs ! i)"
    "cp_hash_entries (cs1 ! i) = cp_hash_entries (cs ! i)"
    "cp_card_id (cs1 ! i) = cp_card_id (cs ! i)" if "i < length cs"
    using that ti by (auto simp: cs1_def with_tx_row_def nth_list_update append_flow_def)
qed

text \<open>
  What compiling a flow does: every table only grows and stays well formed, the flow is placed
  as its metadata says, and the classifier tables change on the receive card of a measured flow
  only, by one entry.
\<close>

definition entries_step :: "pw_program \<Rightarrow> pw_program \<Rightarrow> pw_flow \<Rightarrow> u16 \<Rightarrow> u32 \<Rightarrow> bool" where
  "entries_step p p' f rx_card rlf \<longleftrightarrow>
     (\<forall>i < length (prog_per_card p).
        if \<not> flow_background f \<and> card_slot p rx_card = Some i
        then rx_entry_added f rlf (prog_per_card p ! i) (prog_per_card p' ! i)
        else cp_map_entries (prog_per_card p' ! i) = cp_map_entries (prog_per_card p ! i) \<and>
             cp_hash_entries (prog_per_card p' ! i) = cp_hash_entries (prog_per_card p ! i))"

lemma compile_one_flow_ok:
  assumes ok: "compile_one_flow cfg p (n, f) = Inr p'"
    and wf: "\<forall>cp\<in>set (prog_per_card p). card_wf cp"
  obtains m where
    "prog_flow_meta p' = (prog_flow_meta p)[n := m]"
    "cards_extend (prog_per_card p) (prog_per_card p')"
    "\<forall>cp\<in>set (prog_per_card p'). card_wf cp"
    "flow_placed cfg (prog_per_card p') f m"
    "entries_step p p' f (meta_rx_card_id m) (meta_rx_local_flow_id m)"
proof -
  define cs where "cs = prog_per_card p"
  from compile_one_flow_cases [OF ok cs_def] obtain tx rx ti ri tlf rlf same where
    ports: "pw_config_resolve_port (Some cfg) (flow_tx_global_port f) = Inr tx"
      "pw_config_resolve_port (Some cfg) (flow_rx_global_port f) = Inr rx" and
    slots: "card_slot p (ref_card_id tx) = Some ti" "card_slot p (ref_card_id rx) = Some ri" and
    same: "same \<longleftrightarrow> ref_card_id tx = ref_card_id rx" and
    cap_t: "length (cp_flow_rows (cs ! ti)) < PWFPGA_FLOW_TABLE_ROWS" and
    cap_r: "same \<or> flow_background f \<or> length (cp_flow_rows (cs ! ri)) < PWFPGA_FLOW_TABLE_ROWS" and
    tlf: "tlf = of_nat (length (cp_flow_rows (cs ! ti)))" and
    rlf: "rlf = (if same \<or> flow_background f then tlf else of_nat (length (cp_flow_rows (cs ! ri))))" and
    meta: "prog_flow_meta p' = (prog_flow_meta p)[n := flow_meta_of f tx rx tlf rlf]" and
    fin: "if flow_background f then prog_per_card p' = with_tx_row cs ti f tx same tlf
      else \<exists>cp'. compile_rx f (tx_row f tx same tlf) rx same rlf (with_tx_row cs ti f tx same tlf ! ri) = Inr cp' \<and>
                 prog_per_card p' = (with_tx_row cs ti f tx same tlf)[ri := cp']" .
  define cs1 where "cs1 = with_tx_row cs ti f tx same tlf"
  define tr where "tr = tx_row f tx same tlf"
  define m where "m = flow_meta_of f tx rx tlf rlf"
  have L: "ti < length cs" "ri < length cs" and id: "cp_card_id (cs ! ti) = ref_card_id tx"
      "cp_card_id (cs ! ri) = ref_card_id rx"
    using card_slot_SomeD [OF slots(1)] card_slot_SomeD [OF slots(2)] by (simp_all add: cs_def)
  note T = with_tx_row_ok [OF wf [folded cs_def] L(1) cap_t tlf cs1_def, folded tr_def]
  have same_idx: "same \<longleftrightarrow> ti = ri" using slots id same by auto
  have tc1: "cs1 ! ti \<in> set cs1" "cp_card_id (cs1 ! ti) = ref_card_id tx"
    and rc1: "cs1 ! ri \<in> set cs1" "cp_card_id (cs1 ! ri) = ref_card_id rx"
    using L T(3,7) id by simp_all
  have mf: "meta_tx_local_flow_id m = tlf" "meta_rx_local_flow_id m = rlf"
      "meta_rx_card_id m = ref_card_id rx"
    by (simp_all add: m_def flow_meta_of_def)
  have m_eq: "m = flow_meta_of f tx rx (meta_tx_local_flow_id m) (meta_rx_local_flow_id m)"
    unfolding mf by (simp add: m_def)
  have same_lfid: "same \<Longrightarrow> rlf = tlf" by (simp add: rlf)
  show thesis
  proof (cases "flow_background f")
    case True
    with fin have p': "prog_per_card p' = cs1" by (simp add: cs1_def)
    have "flow_placed cfg cs1 f m"
      by (rule flow_placedI [OF ports tc1 rc1 m_eq])
        (use True T(4) in \<open>simp_all add: mf tr_def same\<close>)
    with T True meta show thesis
      by (intro that [of m]) (auto simp: p' m_def cs_def entries_step_def)
  next
    case False
    with fin obtain cp' where cp': "compile_rx f tr rx same rlf (cs1 ! ri) = Inr cp'"
      and p': "prog_per_card p' = cs1[ri := cp']" by (auto simp: cs1_def tr_def)
    have R: "card_wf cp' \<and> extends (cs1 ! ri) cp' \<and>
        slot_has cp' rlf (if same then tr else rx_row tr rx rlf) \<and> rx_entry_added f rlf (cs1 ! ri) cp'"
      using T(1) rc1(1) False cap_r same_idx T(4,8) rlf
      by (intro compile_rx_ok [OF cp']) auto
    have c2: "cards_extend cs1 (cs1[ri := cp'])" using R L T(3) by (intro cards_extend_update) simp_all
    have wf2: "\<forall>cp\<in>set (cs1[ri := cp']). card_wf cp"
      using T(1) R set_update_subset_insert [of cs1 ri cp'] by auto
    have rc2: "cp' \<in> set (cs1[ri := cp'])" "cp_card_id cp' = ref_card_id rx"
      using L T(3) R rc1(2) extends_card_id by (auto simp: set_update_memI)
    obtain tc where tc: "tc \<in> set (cs1[ri := cp'])" "cp_card_id tc = ref_card_id tx" "slot_has tc tlf tr"
      using cards_extend_mem [OF c2 tc1(1)] tc1(2) T(4) extends_card_id slot_has_extends by metis
    have "flow_placed cfg (cs1[ri := cp']) f m"
      by (rule flow_placedI [OF ports tc(1,2) rc2 m_eq])
        (use tc R False same_lfid in \<open>auto simp: mf tr_def same rx_slot_row_def Let_def
          rx_entry_added_def map_leads_def split: if_splits\<close>)
    moreover have "entries_step p p' f (ref_card_id rx) rlf"
      using R T(5,6) False slots(2) T(3)
      by (auto simp: entries_step_def p' cs_def [symmetric] nth_list_update rx_entry_added_def)
    ultimately show thesis
      using cards_extend_trans [OF T(2) c2] wf2 meta
      by (intro that [of m]) (simp_all add: p' m_def [symmetric] mf cs_def)
  qed
qed

section \<open>All flows\<close>

text \<open>Every classifier entry belongs to one of the first \<open>k\<close> flows and leads to its slot.\<close>

definition map_entry_of :: "pw_config \<Rightarrow> pw_program \<Rightarrow> u16 \<Rightarrow> pw_flowid_map_entry \<Rightarrow> nat \<Rightarrow> bool" where
  "map_entry_of cfg p cid e j \<longleftrightarrow>
     (let f = cfg_flows cfg ! j; m = prog_flow_meta p ! j
      in \<not> flow_background f \<and> \<not> flow_classify_header f \<and> meta_rx_card_id m = cid \<and>
         e = \<lparr>me_flow_id = flow_id f, me_local_flow_id = meta_rx_local_flow_id m\<rparr>)"

definition hash_entry_of :: "pw_config \<Rightarrow> pw_program \<Rightarrow> u16 \<Rightarrow> u32 list \<Rightarrow> u32 \<Rightarrow> nat \<Rightarrow> bool" where
  "hash_entry_of cfg p cid key lfid j \<longleftrightarrow>
     (let f = cfg_flows cfg ! j; m = prog_flow_meta p ! j
      in \<not> flow_background f \<and> flow_classify_header f \<and> meta_rx_card_id m = cid \<and>
         key = pw_fc_hash_words f \<and> lfid = meta_rx_local_flow_id m)"

definition entries_sound :: "pw_config \<Rightarrow> nat \<Rightarrow> pw_program \<Rightarrow> pw_card_program \<Rightarrow> bool" where
  "entries_sound cfg k p cp \<longleftrightarrow>
     (\<forall>e\<in>set (cp_map_entries cp). \<exists>j<k. map_entry_of cfg p (cp_card_id cp) e j) \<and>
     distinct (map me_flow_id (cp_map_entries cp)) \<and>
     (\<forall>e\<in>set (cp_hash_entries cp). \<exists>j<k.
        hash_entry_of cfg p (cp_card_id cp) (he_key_word e) (he_local_flow_id e) j)"

definition prog_inv :: "pw_config \<Rightarrow> nat \<Rightarrow> pw_program \<Rightarrow> bool" where
  "prog_inv cfg k p \<longleftrightarrow>
     map cp_card_id (prog_per_card p) = map card_id (cfg_cards cfg) \<and>
     length (prog_flow_meta p) = length (cfg_flows cfg) \<and>
     (\<forall>cp\<in>set (prog_per_card p). card_wf cp \<and> entries_sound cfg k p cp) \<and>
     (\<forall>j<k. flow_placed cfg (prog_per_card p) (cfg_flows cfg ! j) (prog_flow_meta p ! j) \<and>
        (\<not> flow_background (cfg_flows cfg ! j) \<and> flow_classify_header (cfg_flows cfg ! j) \<longrightarrow>
         hash_listed cfg (prog_per_card p) (cfg_flows cfg ! j) (prog_flow_meta p ! j)))"

lemma init_program_inv: "prog_inv cfg 0 (init_program cfg)"
  by (auto simp: prog_inv_def init_program_def entries_sound_def empty_card_program_def comp_def
      card_wf_def)

lemma entries_sound_step:
  assumes ok: "entries_sound cfg k p cp" and k: "k < length (cfg_flows cfg)"
    and dist: "distinct (map flow_id (cfg_flows cfg))"
    and meta: "prog_flow_meta p' = (prog_flow_meta p)[k := m]"
    and lenm: "length (prog_flow_meta p) = length (cfg_flows cfg)"
    and id: "cp_card_id cp' = cp_card_id cp"
    and step: "if hit then rx_entry_added (cfg_flows cfg ! k) (meta_rx_local_flow_id m) cp cp'
      else cp_map_entries cp' = cp_map_entries cp \<and> cp_hash_entries cp' = cp_hash_entries cp"
    and hit: "hit \<Longrightarrow> \<not> flow_background (cfg_flows cfg ! k) \<and> meta_rx_card_id m = cp_card_id cp"
  shows "entries_sound cfg (Suc k) p' cp'"
proof -
  have old_m: "map_entry_of cfg p' cid e j = map_entry_of cfg p cid e j"
    and old_h: "hash_entry_of cfg p' cid w l j = hash_entry_of cfg p cid w l j"
    if "j < k" for cid e w l j
    using that by (simp_all add: map_entry_of_def hash_entry_of_def meta)
  have M: "\<exists>j<Suc k. map_entry_of cfg p' (cp_card_id cp') e j" if "e \<in> set (cp_map_entries cp')" for e
  proof (cases "e \<in> set (cp_map_entries cp)")
    case True
    then show ?thesis using ok old_m id unfolding entries_sound_def by (metis less_Suc_eq)
  next
    case False
    with that step hit id show ?thesis
      by (intro exI [of _ k]) (auto simp: rx_entry_added_def map_entry_of_def meta lenm k split: if_splits)
  qed
  have H: "\<exists>j<Suc k. hash_entry_of cfg p' (cp_card_id cp') (he_key_word e) (he_local_flow_id e) j"
    if "e \<in> set (cp_hash_entries cp')" for e
  proof (cases "e \<in> set (cp_hash_entries cp)")
    case True
    then show ?thesis using ok old_h id unfolding entries_sound_def by (metis less_Suc_eq)
  next
    case False
    with that step hit id show ?thesis
      by (intro exI [of _ k]) (auto simp: rx_entry_added_def hash_entry_of_def meta lenm k split: if_splits)
  qed
  have "flow_id (cfg_flows cfg ! k) \<notin> me_flow_id ` set (cp_map_entries cp)"
  proof
    assume "flow_id (cfg_flows cfg ! k) \<in> me_flow_id ` set (cp_map_entries cp)"
    then obtain j where "j < k" "flow_id (cfg_flows cfg ! j) = flow_id (cfg_flows cfg ! k)"
      using ok unfolding entries_sound_def map_entry_of_def Let_def by force
    with dist k show False by (auto simp: distinct_conv_nth)
  qed
  then have "distinct (map me_flow_id (cp_map_entries cp'))"
    using ok step by (auto simp: entries_sound_def rx_entry_added_def split: if_splits)
  with M H show ?thesis by (simp add: entries_sound_def)
qed

lemma hash_listed_step:
  assumes ext: "cards_extend (prog_per_card p) (prog_per_card p')"
    and placed: "flow_placed cfg (prog_per_card p') f m"
    and step: "entries_step p p' f (meta_rx_card_id m) (meta_rx_local_flow_id m)"
    and f: "\<not> flow_background f" "flow_classify_header f"
  shows "hash_listed cfg (prog_per_card p') f m"
proof -
  note ids = cards_extend_ids [OF ext]
  have len: "length (prog_per_card p') = length (prog_per_card p)" using ids by (metis length_map)
  from placed obtain rc where "rc \<in> set (prog_per_card p')" "cp_card_id rc = meta_rx_card_id m"
    unfolding flow_placed_def flow_meta_of_def by (metis pw_flow_meta.select_convs(3))
  then have "meta_rx_card_id m \<in> set (map cp_card_id (prog_per_card p))"
    using ids by (metis image_eqI list.set_map)
  then have "card_slot p (meta_rx_card_id m) \<noteq> None" by (auto simp: card_slot_def find_idx_None)
  then obtain i where i: "card_slot p (meta_rx_card_id m) = Some i" by blast
  then have iL: "i < length (prog_per_card p)" and "cp_card_id (prog_per_card p ! i) = meta_rx_card_id m"
    using card_slot_SomeD by auto
  moreover have "cp_card_id (prog_per_card p' ! i) = cp_card_id (prog_per_card p ! i)"
    using ids iL len by (metis nth_map)
  moreover have "rx_entry_added f (meta_rx_local_flow_id m) (prog_per_card p ! i) (prog_per_card p' ! i)"
    using step i iL f by (simp add: entries_step_def)
  ultimately show ?thesis
    unfolding hash_listed_def using f len
    by (intro bexI [of _ "prog_per_card p' ! i"]) (auto simp: rx_entry_added_def)
qed

lemma compile_one_flow_inv:
  assumes inv: "prog_inv cfg k p" and k: "k < length (cfg_flows cfg)"
    and dist: "distinct (map flow_id (cfg_flows cfg))"
    and ok: "compile_one_flow cfg p (k, cfg_flows cfg ! k) = Inr p'"
  shows "prog_inv cfg (Suc k) p'"
proof -
  let ?f = "cfg_flows cfg ! k"
  have wf: "\<forall>cp\<in>set (prog_per_card p). card_wf cp" using inv by (simp add: prog_inv_def)
  from compile_one_flow_ok [OF ok wf] obtain m where
    meta: "prog_flow_meta p' = (prog_flow_meta p)[k := m]" and
    ext: "cards_extend (prog_per_card p) (prog_per_card p')" and
    wf': "\<forall>cp\<in>set (prog_per_card p'). card_wf cp" and
    placed: "flow_placed cfg (prog_per_card p') ?f m" and
    step: "entries_step p p' ?f (meta_rx_card_id m) (meta_rx_local_flow_id m)" by blast
  have lenm: "length (prog_flow_meta p) = length (cfg_flows cfg)" using inv by (simp add: prog_inv_def)
  have len: "length (prog_per_card p') = length (prog_per_card p)"
    using cards_extend_ids [OF ext] by (metis length_map)
  have sound: "entries_sound cfg (Suc k) p' (prog_per_card p' ! i)" if i: "i < length (prog_per_card p)" for i
  proof (rule entries_sound_step [OF _ k dist meta lenm])
    show "entries_sound cfg k p (prog_per_card p ! i)" using inv i by (simp add: prog_inv_def)
    show "cp_card_id (prog_per_card p' ! i) = cp_card_id (prog_per_card p ! i)"
      using cards_extend_ids [OF ext] i len by (metis nth_map)
    show "if \<not> flow_background ?f \<and> card_slot p (meta_rx_card_id m) = Some i
      then rx_entry_added ?f (meta_rx_local_flow_id m) (prog_per_card p ! i) (prog_per_card p' ! i)
      else cp_map_entries (prog_per_card p' ! i) = cp_map_entries (prog_per_card p ! i) \<and>
           cp_hash_entries (prog_per_card p' ! i) = cp_hash_entries (prog_per_card p ! i)"
      using step i by (simp add: entries_step_def)
    show "\<not> flow_background ?f \<and> meta_rx_card_id m = cp_card_id (prog_per_card p ! i)"
      if "\<not> flow_background ?f \<and> card_slot p (meta_rx_card_id m) = Some i"
      using that card_slot_SomeD by auto
  qed
  note listed = hash_listed_step [OF ext placed step]
  have "flow_placed cfg (prog_per_card p') (cfg_flows cfg ! j) (prog_flow_meta p' ! j) \<and>
      (\<not> flow_background (cfg_flows cfg ! j) \<and> flow_classify_header (cfg_flows cfg ! j) \<longrightarrow>
       hash_listed cfg (prog_per_card p') (cfg_flows cfg ! j) (prog_flow_meta p' ! j))"
    if "j < Suc k" for j
  proof (cases "j = k")
    case True
    with placed listed meta lenm k show ?thesis by simp
  next
    case False
    with that have "j < k" by simp
    with inv flow_placed_extend [OF ext] hash_listed_extend [OF ext] meta show ?thesis
      by (simp add: prog_inv_def)
  qed
  with inv cards_extend_ids [OF ext] meta wf' sound len show ?thesis
    unfolding prog_inv_def by (auto simp: in_set_conv_nth)
qed

lemma compile_flows_inv:
  assumes ok: "compile_flows cfg = Inr p" and dist: "distinct (map flow_id (cfg_flows cfg))"
  shows "prog_inv cfg (length (cfg_flows cfg)) p"
proof -
  let ?fs = "zip [0..<length (cfg_flows cfg)] (cfg_flows cfg)"
  have "prog_inv cfg k q" if "k \<le> length (cfg_flows cfg)"
      "fold_res (compile_one_flow cfg) (init_program cfg) (take k ?fs) = Inr q" for k q
    using that
  proof (induction k arbitrary: q)
    case 0
    then show ?case using init_program_inv by auto
  next
    case (Suc k)
    have "take (Suc k) ?fs = take k ?fs @ [(k, cfg_flows cfg ! k)]"
      using Suc.prems(1) by (simp add: take_Suc_conv_app_nth)
    with Suc.prems(2) obtain q' where
      "fold_res (compile_one_flow cfg) (init_program cfg) (take k ?fs) = Inr q'"
      "compile_one_flow cfg q' (k, cfg_flows cfg ! k) = Inr q"
      by (auto simp: fold_res_append rbind_eq_Inr)
    with Suc show ?case by (intro compile_one_flow_inv [OF _ _ dist]) auto
  qed
  from this [of "length (cfg_flows cfg)" p] ok show ?thesis by (simp add: compile_flows_def)
qed

section \<open>Rules\<close>

text \<open>A step that adds rules to one card keeps the invariant.\<close>

lemma rules_step_inv:
  assumes inv: "prog_inv cfg k p" and i: "i < length (prog_per_card p)"
    and cp: "card_wf cp \<and> extends (prog_per_card p ! i) cp \<and> same_flows (prog_per_card p ! i) cp"
  shows "prog_inv cfg k (upd_card i cp p)"
proof -
  let ?cs = "prog_per_card p" and ?p = "upd_card i cp p"
  have ext: "cards_extend ?cs (prog_per_card ?p)"
    using i cp by (simp add: upd_card_def cards_extend_update)
  have meta: "prog_flow_meta ?p = prog_flow_meta p" by (simp add: upd_card_def)
  have sound: "entries_sound cfg k ?p c \<and> card_wf c" if "c \<in> set (prog_per_card ?p)" for c
  proof (cases "c \<in> set ?cs")
    case True
    with inv show ?thesis
      by (simp add: prog_inv_def entries_sound_def map_entry_of_def hash_entry_of_def meta)
  next
    case False
    with that have c: "c = cp" using set_update_subset_insert [of ?cs i cp] by (auto simp: upd_card_def)
    have "entries_sound cfg k p (?cs ! i)" using inv i by (simp add: prog_inv_def)
    moreover have "cp_card_id cp = cp_card_id (?cs ! i)" using cp extends_card_id by blast
    ultimately show ?thesis
      using cp c
      by (simp add: entries_sound_def map_entry_of_def hash_entry_of_def meta same_flows_def)
  qed
  show ?thesis
    using inv sound cards_extend_ids [OF ext] flow_placed_extend [OF ext] hash_listed_extend [OF ext]
    unfolding prog_inv_def meta by auto
qed

lemma compile_punt_lif_inv:
  assumes "compile_punt_lif cfg p l = Inr p'" and inv: "prog_inv cfg k p"
  shows "prog_inv cfg k p'"
proof -
  from assms(1) obtain ref i cp where i: "card_slot p (ref_card_id ref) = Some i"
    and f: "fold_res (add_punt_rule ref l) (prog_per_card p ! i) (punt_list (lif_punt l)) = Inr cp"
    and p': "p' = upd_card i cp p"
    by (auto simp: compile_punt_lif_def rbind_eq_Inr)
  have iL: "i < length (prog_per_card p)" using card_slot_SomeD [OF i] by simp
  have "card_wf cp \<and> extends (prog_per_card p ! i) cp \<and> same_flows (prog_per_card p ! i) cp"
  proof (rule fold_res_inv [OF f])
    show "card_wf (prog_per_card p ! i) \<and> extends (prog_per_card p ! i) (prog_per_card p ! i) \<and>
        same_flows (prog_per_card p ! i) (prog_per_card p ! i)"
      using inv iL by (simp add: prog_inv_def)
  next
    fix c x c'
    assume c: "card_wf c \<and> extends (prog_per_card p ! i) c \<and> same_flows (prog_per_card p ! i) c"
      and x: "add_punt_rule ref l c x = Inr c'"
    from add_punt_rule_ok [OF x] c
    show "card_wf c' \<and> extends (prog_per_card p ! i) c' \<and> same_flows (prog_per_card p ! i) c'"
      using extends_trans same_flows_trans by blast
  qed
  then show ?thesis unfolding p' by (rule rules_step_inv [OF inv iL])
qed

lemma compile_forward_inv:
  assumes "compile_forward cfg p fr = Inr p'" and inv: "prog_inv cfg k p"
  shows "prog_inv cfg k p'"
proof -
  from assms(1) obtain ing egr i cp where i: "card_slot p (ref_card_id ing) = Some i"
    and f: "add_forward_rule ing egr fr (prog_per_card p ! i) = Inr cp" and p': "p' = upd_card i cp p"
    by (auto simp: compile_forward_def rbind_eq_Inr)
  have iL: "i < length (prog_per_card p)" using card_slot_SomeD [OF i] by simp
  show ?thesis unfolding p'
    by (rule rules_step_inv [OF inv iL add_forward_rule_ok [OF f]])
      (use inv iL in \<open>simp add: prog_inv_def\<close>)
qed

lemma compile_rules_inv:
  assumes "compile_punt_rules cfg p1 = Inr p2" and "compile_forward_rules cfg p2 = Inr p3"
    and inv: "prog_inv cfg k p1"
  shows "prog_inv cfg k p3"
proof -
  have "prog_inv cfg k p2"
    by (rule fold_res_inv [where I = "prog_inv cfg k", OF assms(1) [unfolded compile_punt_rules_def] inv])
      (rule compile_punt_lif_inv)
  then show ?thesis
    by (rule fold_res_inv [where I = "prog_inv cfg k", OF assms(2) [unfolded compile_forward_rules_def]])
      (rule compile_forward_inv)
qed

section \<open>The whole compilation\<close>

lemma pw_flow_compile_phases:
  assumes "pw_flow_compile (Some cfg) = Inr p"
  obtains p1 p2 p3 where "valid_config cfg" "compile_flows cfg = Inr p1"
    "compile_punt_rules cfg p1 = Inr p2" "compile_forward_rules cfg p2 = Inr p3"
    "map_res (hash_place_card cfg) (prog_per_card p3) = Inr (prog_per_card p)"
    "prog_flow_meta p = prog_flow_meta p3"
    "prog_inv cfg (length (cfg_flows cfg)) p1"
proof -
  from assms obtain p1 p2 p3 cards where
    v: "pw_config_validate (Some cfg) = PW_OK" and c: "compile_flows cfg = Inr p1"
    "compile_punt_rules cfg p1 = Inr p2" "compile_forward_rules cfg p2 = Inr p3"
    "map_res (hash_place_card cfg) (prog_per_card p3) = Inr cards"
    and p: "p = p3\<lparr>prog_per_card := cards\<rparr>"
    by (auto simp: pw_flow_compile_def rbind_eq_Inr)
  have val: "valid_config cfg"
    using v validate_cfg_None validate_cfg_err
    by (auto simp: pw_config_validate_def split: option.splits)
  then have "prog_inv cfg (length (cfg_flows cfg)) p1"
    using c(1) compile_flows_inv by (simp add: valid_config_def)
  with that val c p show thesis by simp
qed

lemma pw_flow_compile_cases:
  assumes "pw_flow_compile (Some cfg) = Inr p"
  obtains p3 where "valid_config cfg" "prog_inv cfg (length (cfg_flows cfg)) p3"
    "map_res (hash_place_card cfg) (prog_per_card p3) = Inr (prog_per_card p)"
    "prog_flow_meta p = prog_flow_meta p3"
  using pw_flow_compile_phases [OF assms] compile_rules_inv that by metis

end
