(* ===== verification/PW_Compile_Hash.thy ===== *)
theory PW_Compile_Hash
  imports PW_Compile_Inv
begin

text \<open>
  The header hash table of a compiled card: the seed search places every key in a bucket of its
  own or reports that no seed does, the key mask only drops bits, and the table answers with the
  flow's slot for every frame the flow's field modifiers can produce.
\<close>

section \<open>Buckets\<close>

lemma idx_width_depth: "idx_width PWFPGA_HASH_DEPTH = 7"
  by (simp add: csr_capacities idx_width.simps)

lemma pw_fc_hash_index_bound: "unat (pw_fc_hash_index w seed) < PWFPGA_HASH_DEPTH"
proof -
  let ?p = "foldl (XOR) 0 w * (seed OR 1)"
  have "unat (drop_bit 25 ?p) < 128"
  proof -
    have "unat (drop_bit 25 ?p) = unat ?p div 2 ^ 25" by (simp add: drop_bit_eq_div unat_div)
    moreover have "unat ?p < 128 * 2 ^ 25" using unsigned_less [of ?p] by simp
    ultimately show ?thesis by (metis less_mult_imp_div_less)
  qed
  moreover have "unat (ucast (drop_bit 25 ?p) :: u16) = unat (drop_bit 25 ?p)"
    using calculation by (simp add: unsigned_ucast_eq take_bit_nat_eq_self)
  ultimately show ?thesis
    unfolding pw_fc_hash_index_def idx_width_depth Let_def by (simp add: csr_capacities)
qed

section \<open>Placement\<close>

definition collision_free :: "u32 \<Rightarrow> u32 list list \<Rightarrow> bool" where
  "collision_free seed keys \<longleftrightarrow> distinct (map (\<lambda>k. pw_fc_hash_index k seed) keys)"

lemma place_keys_iff:
  assumes "length used = PWFPGA_HASH_DEPTH"
  shows "place_keys seed used keys =
    (if collision_free seed keys \<and> (\<forall>k\<in>set keys. \<not> used ! unat (pw_fc_hash_index k seed))
     then Some (map (\<lambda>k. pw_fc_hash_index k seed) keys) else None)"
  using assms
proof (induction keys arbitrary: used)
  case Nil
  then show ?case by (simp add: collision_free_def)
next
  case (Cons k ks)
  let ?i = "unat (pw_fc_hash_index k seed)"
  have L: "?i < length used" using pw_fc_hash_index_bound Cons.prems by simp
  have "used[?i := True] ! unat (pw_fc_hash_index k' seed) \<longleftrightarrow>
      used ! unat (pw_fc_hash_index k' seed) \<or> pw_fc_hash_index k' seed = pw_fc_hash_index k seed" for k'
    using L by (auto simp: nth_list_update word_unat_eq_iff)
  then show ?case
    using Cons.IH [of "used[?i := True]"] Cons.prems
    by (auto simp: Let_def collision_free_def image_iff dest: sym)
qed

lemma place_keys_empty:
  "place_keys seed (replicate PWFPGA_HASH_DEPTH False) keys =
     (if collision_free seed keys then Some (map (\<lambda>k. pw_fc_hash_index k seed) keys) else None)"
  using pw_fc_hash_index_bound by (simp add: place_keys_iff)

lemma seed_search_SomeD:
  "seed_search keys n a = Some (seed, idxs) \<Longrightarrow>
     \<exists>t. a \<le> t \<and> t < a + n \<and> seed = hash_seed_of t \<and> collision_free seed keys \<and>
         idxs = map (\<lambda>k. pw_fc_hash_index k seed) keys \<and>
         (\<forall>u. a \<le> u \<and> u < t \<longrightarrow> \<not> collision_free (hash_seed_of u) keys)"
proof (induction n arbitrary: a)
  case 0
  then show ?case by simp
next
  case (Suc n)
  show ?case
  proof (cases "collision_free (hash_seed_of a) keys")
    case True
    with Suc.prems show ?thesis by (intro exI [of _ a]) (auto simp: place_keys_empty Let_def)
  next
    case False
    with Suc.prems have "seed_search keys n (Suc a) = Some (seed, idxs)"
      by (simp add: place_keys_empty Let_def)
    from Suc.IH [OF this] obtain t where t: "Suc a \<le> t" "t < Suc a + n" "seed = hash_seed_of t"
      "collision_free seed keys" "idxs = map (\<lambda>k. pw_fc_hash_index k seed) keys"
      "\<forall>u. Suc a \<le> u \<and> u < t \<longrightarrow> \<not> collision_free (hash_seed_of u) keys" by blast
    then show ?thesis using False
      by (intro exI [of _ t]) (metis Suc_leD Suc_leI add_Suc_right add_Suc le_neq_implies_less)
  qed
qed

lemma seed_search_None:
  "seed_search keys n a = None \<longleftrightarrow>
     (\<forall>t. a \<le> t \<and> t < a + n \<longrightarrow> \<not> collision_free (hash_seed_of t) keys)"
proof (induction n arbitrary: a)
  case 0
  then show ?case by auto
next
  case (Suc n)
  have "(\<forall>t. a \<le> t \<and> t < a + Suc n \<longrightarrow> \<not> collision_free (hash_seed_of t) keys) \<longleftrightarrow>
      \<not> collision_free (hash_seed_of a) keys \<and>
      (\<forall>t. Suc a \<le> t \<and> t < Suc a + n \<longrightarrow> \<not> collision_free (hash_seed_of t) keys)"
    by (metis Suc_leD Suc_leI add_Suc_right add_Suc le_neq_implies_less le_refl less_add_Suc1)
  then show ?case by (simp add: place_keys_empty Suc.IH Let_def)
qed

text \<open>The masked keys of a card before placement.\<close>

definition masked_keys :: "pw_config \<Rightarrow> pw_card_program \<Rightarrow> u32 list list" where
  "masked_keys cfg cp =
     map (mask_key (card_hash_mask cfg (cp_card_id cp)) \<circ> he_key_word) (cp_hash_entries cp)"

definition placed_entry :: "u32 list \<Rightarrow> u32 \<Rightarrow> pw_fc_hash_entry \<Rightarrow> pw_fc_hash_entry" where
  "placed_entry msk seed e =
     e\<lparr>he_key_word := mask_key msk (he_key_word e),
       he_index := pw_fc_hash_index (mask_key msk (he_key_word e)) seed\<rparr>"

lemma hash_place_card_Inr:
  assumes "hash_place_card cfg cp = Inr cp'" and "cp_hash_entries cp \<noteq> []"
  obtains t where "t < 4096" "distinct (masked_keys cfg cp)"
    "collision_free (hash_seed_of t) (masked_keys cfg cp)"
    "\<forall>u < t. \<not> collision_free (hash_seed_of u) (masked_keys cfg cp)"
    "cp' = cp\<lparr>cp_hash_seed := hash_seed_of t,
              cp_hash_mask := card_hash_mask cfg (cp_card_id cp),
              cp_hash_entries := map (placed_entry (card_hash_mask cfg (cp_card_id cp)) (hash_seed_of t))
                                   (cp_hash_entries cp)\<rparr>"
proof -
  let ?m = "card_hash_mask cfg (cp_card_id cp)"
  let ?es = "map (\<lambda>e. e\<lparr>he_key_word := mask_key ?m (he_key_word e)\<rparr>) (cp_hash_entries cp)"
  have keys: "map he_key_word ?es = masked_keys cfg cp" by (simp add: masked_keys_def)
  from assms obtain seed idxs where d: "distinct (masked_keys cfg cp)"
    and s: "seed_search (masked_keys cfg cp) 4096 0 = Some (seed, idxs)"
    and cp': "cp' = cp\<lparr>cp_hash_seed := seed, cp_hash_mask := ?m,
                       cp_hash_entries := map2 (\<lambda>e i. e\<lparr>he_index := i\<rparr>) ?es idxs\<rparr>"
    by (auto simp: hash_place_card_def Let_def rbind_eq_Inr keys split: option.splits
        simp del: map_map)
  from seed_search_SomeD [OF s] obtain t where t: "t < 4096" "seed = hash_seed_of t"
    "collision_free seed (masked_keys cfg cp)"
    "idxs = map (\<lambda>k. pw_fc_hash_index k seed) (masked_keys cfg cp)"
    "\<forall>u < t. \<not> collision_free (hash_seed_of u) (masked_keys cfg cp)" by auto
  have "map2 (\<lambda>e i. e\<lparr>he_index := i\<rparr>) ?es idxs = map (placed_entry ?m seed) (cp_hash_entries cp)"
    unfolding t(4) masked_keys_def
    by (rule nth_equalityI) (simp_all add: placed_entry_def)
  with that t d cp' show thesis by simp
qed

text \<open>Placement fails only when two keys coincide under the mask, or every seed collides.\<close>

lemma hash_place_card_Inl:
  "hash_place_card cfg cp = Inl e \<longleftrightarrow>
     cp_hash_entries cp \<noteq> [] \<and>
     (\<not> distinct (masked_keys cfg cp) \<and> e = PW_E_INVAL \<or>
      distinct (masked_keys cfg cp) \<and> e = PW_E_NO_RESOURCES \<and>
        (\<forall>t < 4096. \<not> collision_free (hash_seed_of t) (masked_keys cfg cp)))"
proof -
  have keys: "map (he_key_word \<circ> (\<lambda>e. e\<lparr>he_key_word := mask_key (card_hash_mask cfg (cp_card_id cp))
      (he_key_word e)\<rparr>)) (cp_hash_entries cp) = masked_keys cfg cp"
    by (simp add: masked_keys_def comp_def)
  have "seed_search (masked_keys cfg cp) 4096 0 = None \<longleftrightarrow>
      (\<forall>t < 4096. \<not> collision_free (hash_seed_of t) (masked_keys cfg cp))"
    by (subst seed_search_None) auto
  then show ?thesis
    by (auto simp: hash_place_card_def Let_def rbind_eq_Inl keys split: option.splits)
qed

section \<open>The key mask\<close>

text \<open>The bits of the hash key words that a flow's field modifiers rotate.\<close>

definition mod_active :: "pw_field_mod \<Rightarrow> bool" where
  "mod_active fm \<longleftrightarrow> fm_mode fm \<noteq> PWFPGA_FIELD_STATIC"

definition rotated_bits :: "pw_flow \<Rightarrow> u32 list" where
  "rotated_bits f =
     (let md = flow_mod f; v6 = v6_present (flow_ipv6 f);
          d = (\<lambda>w. if v6 \<and> mod_active (mod_dst_ipv4 md) then be_word (mod_dst_ipv6_mask md) (3 - w) else 0);
          s = (\<lambda>w. if v6 \<and> mod_active (mod_src_ipv4 md) then be_word (mod_src_ipv6_mask md) (3 - w) else 0)
      in [if mod_active (mod_dst_ipv4 md) then ucast (fm_mask (mod_dst_ipv4 md)) else 0, d 1, d 2, d 3,
          if mod_active (mod_src_ipv4 md) then ucast (fm_mask (mod_src_ipv4 md)) else 0, s 1, s 2, s 3,
          (if mod_active (mod_udp_dst md) then ucast (fm_mask (mod_udp_dst md)) AND 0xFFFF else 0) OR
          (if mod_active (mod_udp_src md)
           then push_bit 16 (ucast (fm_mask (mod_udp_src md)) AND 0xFFFF) else 0),
          if mod_active (mod_vlan md) then push_bit 16 (ucast (fm_mask (mod_vlan md)) AND 0x0FFF) else 0,
          0])"

text \<open>The key of a frame whose modified fields carry the bits of \<open>r\<close>.\<close>

definition rotated_key :: "pw_flow \<Rightarrow> u32 list \<Rightarrow> u32 list" where
  "rotated_key f r =
     map (\<lambda>i. (pw_fc_hash_words f ! i AND NOT (rotated_bits f ! i)) OR (r ! i AND rotated_bits f ! i))
       [0..<11]"

definition disj_bits :: "u32 \<Rightarrow> u32 \<Rightarrow> bool" where
  "disj_bits k m \<longleftrightarrow> k AND m = 0"

lemma disj_bits_simps [simp]:
  "disj_bits k 0" "disj_bits (k AND NOT m) m" "disj_bits (k AND (NOT m AND x)) m"
  "disj_bits k m \<Longrightarrow> disj_bits (k AND x) m"
  "disj_bits k (a OR b) \<longleftrightarrow> disj_bits k a \<and> disj_bits k b"
  by (auto simp: disj_bits_def bit_eq_iff bit_simps)

lemma and_word_length [simp]: "length (and_word c i v m) = length m"
  by (simp add: and_word_def)

lemma and_word_nth:
  "i < length m \<Longrightarrow> and_word c i v m ! j = (if c \<and> j = i then m ! j AND v else m ! j)"
  by (auto simp: and_word_def nth_list_update)

lemma relax_mask_length [simp]: "length (pw_fc_relax_mask m f) = length m"
  by (simp add: pw_fc_relax_mask_def Let_def)

lemma relax_mask_clears:
  assumes "length m = 11" and "i < 11"
  shows "disj_bits (pw_fc_relax_mask m f ! i) (rotated_bits f ! i)"
proof -
  have "i = 0 \<or> i = 1 \<or> i = 2 \<or> i = 3 \<or> i = 4 \<or> i = 5 \<or> i = 6 \<or> i = 7 \<or> i = 8 \<or> i = 9 \<or> i = 10"
    using assms(2) by presburger
  then show ?thesis
    using assms(1)
    by (elim disjE; simp add: pw_fc_relax_mask_def rotated_bits_def mod_active_def Let_def
        and_word_nth del: bit.de_Morgan_conj push_bit_and)
qed

text \<open>Bits are only ever cleared.\<close>

definition mask_le :: "u32 list \<Rightarrow> u32 list \<Rightarrow> bool" where
  "mask_le = list_all2 (\<lambda>a b. a AND b = a)"

lemma mask_le_refl [simp]: "mask_le m m"
  by (simp add: mask_le_def list_all2_refl)

lemma and_absorb_trans: "a AND b = a \<Longrightarrow> b AND c = b \<Longrightarrow> a AND c = a" for a b c :: "'a::len word"
  by (metis and.assoc)

lemma mask_le_trans: "mask_le a b \<Longrightarrow> mask_le b c \<Longrightarrow> mask_le a c"
  unfolding mask_le_def by (rule list_all2_trans [OF and_absorb_trans])

lemma mask_le_and_word [intro]: "mask_le m m0 \<Longrightarrow> mask_le (and_word c i v m) m0"
  by (rule mask_le_trans [of _ m])
    (cases "i < length m"; auto simp: mask_le_def and_word_def list_all2_conv_all_nth nth_list_update
      and.assoc and.left_commute and.commute)

lemma mask_le_fold [intro]:
  "mask_le m m0 \<Longrightarrow> mask_le (fold (\<lambda>i. and_word (c i) (k i) (v i)) is m) m0"
  by (induction "is" arbitrary: m) (simp_all add: mask_le_and_word)

lemma relax_mask_le: "mask_le (pw_fc_relax_mask m f) m"
  unfolding pw_fc_relax_mask_def Let_def
  by (intro mask_le_and_word mask_le_fold mask_le_refl)

lemma disj_bits_le: "mask_le a b \<Longrightarrow> i < length b \<Longrightarrow> disj_bits (b ! i) x \<Longrightarrow> disj_bits (a ! i) x"
proof -
  assume a: "mask_le a b" "i < length b" and d: "disj_bits (b ! i) x"
  from a have "a ! i AND b ! i = a ! i" by (simp add: mask_le_def list_all2_conv_all_nth)
  then have "a ! i AND x = a ! i AND (b ! i AND x)" by (simp add: and.assoc [symmetric])
  with d show "disj_bits (a ! i) x" by (simp add: disj_bits_def)
qed

lemma card_hash_mask_fold:
  fixes cfg cid
  defines "step \<equiv> \<lambda>m f. if relaxes_card cfg cid f then pw_fc_relax_mask m f else m"
  shows "mask_le (foldl step m fs) m"
    and "length m = 11 \<Longrightarrow> f \<in> set fs \<Longrightarrow> relaxes_card cfg cid f \<Longrightarrow> i < 11 \<Longrightarrow>
           disj_bits (foldl step m fs ! i) (rotated_bits f ! i)"
proof -
  have le: "mask_le (foldl step m fs) m" for m fs
    by (induction fs arbitrary: m) (auto simp: step_def intro: mask_le_trans relax_mask_le)
  then show "mask_le (foldl step m fs) m" .
  show "disj_bits (foldl step m fs ! i) (rotated_bits f ! i)"
    if "length m = 11" "f \<in> set fs" "relaxes_card cfg cid f" "i < 11"
    using that
  proof (induction fs arbitrary: m)
    case Nil
    then show ?case by simp
  next
    case (Cons g fs)
    have L: "length (step m g) = 11" using Cons.prems(1) by (simp add: step_def)
    show ?case
    proof (cases "f \<in> set fs")
      case True
      with Cons.IH [OF L] Cons.prems show ?thesis by simp
    next
      case False
      with Cons.prems have "disj_bits (step m g ! i) (rotated_bits f ! i)"
        by (simp add: step_def relax_mask_clears)
      with disj_bits_le [OF le [of "step m g" fs]] L Cons.prems(4) show ?thesis by simp
    qed
  qed
qed

lemma card_hash_mask_clears:
  "f \<in> set (cfg_flows cfg) \<Longrightarrow> relaxes_card cfg cid f \<Longrightarrow> i < 11 \<Longrightarrow>
     card_hash_mask cfg cid ! i AND rotated_bits f ! i = 0"
  using card_hash_mask_fold(2) [of "replicate 11 0xFFFFFFFF" f "cfg_flows cfg" cfg cid i]
  by (simp add: card_hash_mask_def disj_bits_def)

lemma card_hash_mask_length [simp]: "length (card_hash_mask cfg cid) = 11"
  using card_hash_mask_fold(1) [of cfg cid "replicate 11 0xFFFFFFFF" "cfg_flows cfg"]
  by (simp add: card_hash_mask_def mask_le_def list_all2_lengthD)

text \<open>Hence the masked key of a flow does not depend on the rotating bits.\<close>

lemma mask_key_rotated:
  assumes "f \<in> set (cfg_flows cfg)" and "relaxes_card cfg cid f"
  shows "mask_key (card_hash_mask cfg cid) (rotated_key f r) =
    mask_key (card_hash_mask cfg cid) (pw_fc_hash_words f)"
proof (rule nth_equalityI)
  fix i
  assume "i < length (mask_key (card_hash_mask cfg cid) (rotated_key f r))"
  then have i: "i < 11" by (simp add: mask_key_def rotated_key_def)
  then show "mask_key (card_hash_mask cfg cid) (rotated_key f r) ! i =
      mask_key (card_hash_mask cfg cid) (pw_fc_hash_words f) ! i"
    using masked_update [OF card_hash_mask_clears [OF assms i]]
    by (simp add: mask_key_def rotated_key_def)
qed (simp add: mask_key_def rotated_key_def)

section \<open>The compiled cards\<close>

lemma hash_place_card_frame:
  assumes "hash_place_card cfg cp = Inr cp'"
  shows "cp_card_id cp' = cp_card_id cp" "cp_flow_rows cp' = cp_flow_rows cp"
    "cp_map_entries cp' = cp_map_entries cp" "cp_fc_cmps cp' = cp_fc_cmps cp"
    "cp_fc_udfs cp' = cp_fc_udfs cp" "cp_fc_rules cp' = cp_fc_rules cp"
    "map he_local_flow_id (cp_hash_entries cp') = map he_local_flow_id (cp_hash_entries cp)"
    "card_wf cp \<Longrightarrow> card_wf cp'"
proof -
  have "cp_card_id cp' = cp_card_id cp \<and> cp_flow_rows cp' = cp_flow_rows cp \<and>
    cp_map_entries cp' = cp_map_entries cp \<and> cp_fc_cmps cp' = cp_fc_cmps cp \<and>
    cp_fc_udfs cp' = cp_fc_udfs cp \<and> cp_fc_rules cp' = cp_fc_rules cp \<and>
    map he_local_flow_id (cp_hash_entries cp') = map he_local_flow_id (cp_hash_entries cp) \<and>
    (card_wf cp \<longrightarrow> card_wf cp')"
  proof (cases "cp_hash_entries cp = []")
    case True
    with assms show ?thesis by (simp add: hash_place_card_def)
  next
    case False
    from hash_place_card_Inr [OF assms False] obtain t where
      "cp' = cp\<lparr>cp_hash_seed := hash_seed_of t,
              cp_hash_mask := card_hash_mask cfg (cp_card_id cp),
              cp_hash_entries := map (placed_entry (card_hash_mask cfg (cp_card_id cp)) (hash_seed_of t))
                                   (cp_hash_entries cp)\<rparr>" by blast
    then show ?thesis
      by (auto simp: card_wf_def care_ok_def placed_entry_def mask_key_def)
  qed
  then show "cp_card_id cp' = cp_card_id cp" "cp_flow_rows cp' = cp_flow_rows cp"
    "cp_map_entries cp' = cp_map_entries cp" "cp_fc_cmps cp' = cp_fc_cmps cp"
    "cp_fc_udfs cp' = cp_fc_udfs cp" "cp_fc_rules cp' = cp_fc_rules cp"
    "map he_local_flow_id (cp_hash_entries cp') = map he_local_flow_id (cp_hash_entries cp)"
    "card_wf cp \<Longrightarrow> card_wf cp'" by blast+
qed

lemma flow_placed_hash:
  assumes place: "map_res (hash_place_card cfg) a = Inr b" and "flow_placed cfg a f m"
  shows "flow_placed cfg b f m"
proof -
  have mem: "\<exists>c'\<in>set b. hash_place_card cfg c = Inr c'" if "c \<in> set a" for c
    using place that by (auto simp: map_res_eq_Inr list_all2_conv_all_nth in_set_conv_nth)
  from assms(2) obtain tx rx tc rc where
    tc: "tc \<in> set a" and rc: "rc \<in> set a" and
    P: "pw_config_resolve_port (Some cfg) (flow_tx_global_port f) = Inr tx"
      "pw_config_resolve_port (Some cfg) (flow_rx_global_port f) = Inr rx"
      "cp_card_id tc = ref_card_id tx" "cp_card_id rc = ref_card_id rx"
      "m = flow_meta_of f tx rx (meta_tx_local_flow_id m) (meta_rx_local_flow_id m)"
      "slot_has tc (meta_tx_local_flow_id m)
         (tx_row f tx (ref_card_id tx = ref_card_id rx) (meta_tx_local_flow_id m))"
      "\<not> flow_background f \<longrightarrow>
         (ref_card_id tx = ref_card_id rx \<longrightarrow> meta_rx_local_flow_id m = meta_tx_local_flow_id m) \<and>
         slot_has rc (meta_rx_local_flow_id m) (rx_slot_row f tx rx m) \<and>
         (\<not> flow_classify_header f \<longrightarrow> map_leads rc (flow_id f) (meta_rx_local_flow_id m))"
    unfolding flow_placed_def by blast
  from mem [OF tc] obtain tc' where tc': "tc' \<in> set b" "hash_place_card cfg tc = Inr tc'" ..
  from mem [OF rc] obtain rc' where rc': "rc' \<in> set b" "hash_place_card cfg rc = Inr rc'" ..
  show ?thesis
    by (rule flow_placedI [OF P(1,2) tc'(1) _ rc'(1) _ P(5)])
      (use P hash_place_card_frame [OF tc'(2)] hash_place_card_frame [OF rc'(2)] in
        \<open>auto simp: slot_has_def map_leads_def\<close>)
qed

text \<open>What a successful compilation returns.\<close>

lemma pw_flow_compile_ok:
  assumes "pw_flow_compile (Some cfg) = Inr p"
  shows "valid_config cfg" "map cp_card_id (prog_per_card p) = map card_id (cfg_cards cfg)"
    "length (prog_flow_meta p) = length (cfg_flows cfg)"
    "\<And>cp. cp \<in> set (prog_per_card p) \<Longrightarrow> card_wf cp"
    "\<And>j. j < length (cfg_flows cfg) \<Longrightarrow>
       flow_placed cfg (prog_per_card p) (cfg_flows cfg ! j) (prog_flow_meta p ! j)"
    "\<And>cp e. cp \<in> set (prog_per_card p) \<Longrightarrow> e \<in> set (cp_map_entries cp) \<Longrightarrow>
       \<exists>j < length (cfg_flows cfg). map_entry_of cfg p (cp_card_id cp) e j"
    "\<And>cp. cp \<in> set (prog_per_card p) \<Longrightarrow> distinct (map me_flow_id (cp_map_entries cp))"
proof -
  from pw_flow_compile_cases [OF assms] obtain p3 where v: "valid_config cfg"
    and inv: "prog_inv cfg (length (cfg_flows cfg)) p3"
    and place: "map_res (hash_place_card cfg) (prog_per_card p3) = Inr (prog_per_card p)"
    and meta: "prog_flow_meta p = prog_flow_meta p3" .
  show "valid_config cfg" by (rule v)
  show "length (prog_flow_meta p) = length (cfg_flows cfg)" using inv by (simp add: prog_inv_def meta)
  have "map cp_card_id (prog_per_card p) = map cp_card_id (prog_per_card p3)"
    using place by (auto simp: map_res_eq_Inr list_all2_conv_all_nth hash_place_card_frame(1)
        intro!: nth_equalityI)
  then show "map cp_card_id (prog_per_card p) = map card_id (cfg_cards cfg)"
    using inv by (simp add: prog_inv_def)
  show "flow_placed cfg (prog_per_card p) (cfg_flows cfg ! j) (prog_flow_meta p ! j)"
    if "j < length (cfg_flows cfg)" for j
    by (rule flow_placed_hash [OF place]) (use inv that in \<open>simp add: prog_inv_def meta\<close>)
  fix cp assume cp: "cp \<in> set (prog_per_card p)"
  from map_res_set [OF place this] obtain c where c: "c \<in> set (prog_per_card p3)"
    "hash_place_card cfg c = Inr cp" ..
  note fr = hash_place_card_frame [OF c(2)]
  show "card_wf cp" using inv c(1) fr(8) by (simp add: prog_inv_def)
  have snd: "entries_sound cfg (length (cfg_flows cfg)) p3 c" using inv c(1) by (simp add: prog_inv_def)
  then show "distinct (map me_flow_id (cp_map_entries cp))" by (simp add: entries_sound_def fr)
  show "\<exists>j < length (cfg_flows cfg). map_entry_of cfg p (cp_card_id cp) e j"
    if "e \<in> set (cp_map_entries cp)" for e
    using snd that by (simp add: entries_sound_def fr map_entry_of_def meta)
qed

text \<open>The hash entries of a compiled card.\<close>

lemma pw_flow_compile_hash:
  assumes "pw_flow_compile (Some cfg) = Inr p" and "cp \<in> set (prog_per_card p)"
    and "cp_hash_entries cp \<noteq> []"
  obtains t where "cp_hash_mask cp = card_hash_mask cfg (cp_card_id cp)"
    "cp_hash_seed cp = hash_seed_of t" "t < 4096"
    "distinct (map he_index (cp_hash_entries cp))"
    "\<forall>e\<in>set (cp_hash_entries cp). he_index e = pw_fc_hash_index (he_key_word e) (cp_hash_seed cp)"
    "\<forall>e\<in>set (cp_hash_entries cp). \<exists>j < length (cfg_flows cfg). \<exists>key.
       hash_entry_of cfg p (cp_card_id cp) key (he_local_flow_id e) j \<and>
       he_key_word e = mask_key (cp_hash_mask cp) key"
proof -
  from pw_flow_compile_cases [OF assms(1)] obtain p3 where
    inv: "prog_inv cfg (length (cfg_flows cfg)) p3"
    and place: "map_res (hash_place_card cfg) (prog_per_card p3) = Inr (prog_per_card p)"
    and meta: "prog_flow_meta p = prog_flow_meta p3" .
  from map_res_set [OF place assms(2)] obtain c where c: "c \<in> set (prog_per_card p3)"
    "hash_place_card cfg c = Inr cp" ..
  from hash_place_card_frame(7) [OF c(2)] assms(3) have ne: "cp_hash_entries c \<noteq> []" by auto
  from hash_place_card_Inr [OF c(2) ne] obtain t where t: "t < 4096"
    "collision_free (hash_seed_of t) (masked_keys cfg c)"
    and cp: "cp = c\<lparr>cp_hash_seed := hash_seed_of t, cp_hash_mask := card_hash_mask cfg (cp_card_id c),
      cp_hash_entries := map (placed_entry (card_hash_mask cfg (cp_card_id c)) (hash_seed_of t))
        (cp_hash_entries c)\<rparr>" by blast
  have "entries_sound cfg (length (cfg_flows cfg)) p3 c" using inv c(1) by (simp add: prog_inv_def)
  then have src: "\<forall>e\<in>set (cp_hash_entries c). \<exists>j < length (cfg_flows cfg).
      hash_entry_of cfg p (cp_card_id c) (he_key_word e) (he_local_flow_id e) j"
    by (simp add: entries_sound_def hash_entry_of_def meta)
  let ?mk = "mask_key (card_hash_mask cfg (cp_card_id c))"
  have src': "\<exists>j < length (cfg_flows cfg). \<exists>key.
      hash_entry_of cfg p (cp_card_id c) key (he_local_flow_id e) j \<and> ?mk (he_key_word e) = ?mk key"
    if "e \<in> set (cp_hash_entries c)" for e
    using src that by blast
  show thesis
    by (rule that [of t])
      (use t src' in \<open>auto simp: cp placed_entry_def collision_free_def masked_keys_def comp_def\<close>)
qed

end
