(* ===== verification/PW_Programming.thy ===== *)
theory PW_Programming
  imports PW_Compile_Hash
begin

text \<open>
  The card-backend interface of \<^verbatim>\<open>backend.h\<close> and the table programming of \<^verbatim>\<open>programming.c\<close>. The
  operations table is a record of optional functions over a backend context; an operation
  returns the new context and its status. The tables are written as the source writes them:
  every slot up to capacity, in the order of the loops.
\<close>

section \<open>The backend interface\<close>

record pw_card_info =
  ci_device_id :: u32
  ci_version :: u32
  ci_build_id :: u32
  ci_git_hash :: u32
  ci_capabilities :: u32
  ci_num_local_ports :: u16
  ci_num_local_flows :: u16
  ci_num_logical_interfaces :: u16
  ci_num_classifier_entries :: u16

record 'c pw_card_backend_ops =
  op_write32 :: "('c \<Rightarrow> u32 \<Rightarrow> u32 \<Rightarrow> 'c \<times> pw_status) option"
  op_card_info :: "('c \<Rightarrow> pw_card_info \<times> pw_status) option"
  op_flow_write :: "('c \<Rightarrow> u32 \<Rightarrow> pwfpga_flow_config option \<Rightarrow> 'c \<times> pw_status) option"
  op_flow_commit :: "('c \<Rightarrow> 'c \<times> pw_status) option"

section \<open>The writes\<close>

text \<open>\<open>CHK(call)\<close>: keep the first hard failure, go on in any case.\<close>

definition chk :: "pw_status \<Rightarrow> 'c \<times> pw_status \<Rightarrow> 'c \<times> pw_status" where
  "chk worst r =
     (fst r, if snd r \<noteq> PW_OK \<and> snd r \<noteq> PW_E_NOT_IMPLEMENTED \<and> worst = PW_OK then snd r else worst)"

definition chk_writes ::
  "('c \<Rightarrow> u32 \<Rightarrow> u32 \<Rightarrow> 'c \<times> pw_status) \<Rightarrow> (u32 \<times> u32) list \<Rightarrow> 'c \<times> pw_status \<Rightarrow> 'c \<times> pw_status" where
  "chk_writes w32 ws st = foldl (\<lambda>(c, worst) (a, v). chk worst (w32 c a v)) st ws"

definition map_writes :: "pw_card_program \<Rightarrow> (u32 \<times> u32) list" where
  "map_writes cp =
     map (\<lambda>i. (PWFPGA_WIN_FLOWID_MAP + of_nat i * 4, 0)) [0..<PWFPGA_FLOWID_MAP_DEPTH] @
     map (\<lambda>e. (PWFPGA_WIN_FLOWID_MAP + me_flow_id e * 4, PWFPGA_FLOWID_MAP_VALID OR me_local_flow_id e))
       (cp_map_entries cp)"

definition cmp_writes :: "pw_card_program \<Rightarrow> (u32 \<times> u32) list" where
  "cmp_writes cp =
     concat (map (\<lambda>i. let c = cp_fc_cmps cp ! i
                      in [(FC_CMP_SRC i, ucast (cmp_src c)), (FC_CMP_MASK i, cmp_mask c),
                          (FC_CMP_VALUE i, cmp_value c)]) [0..<length (cp_fc_cmps cp)])"

definition udf_writes :: "pw_card_program \<Rightarrow> (u32 \<times> u32) list" where
  "udf_writes cp =
     concat (map (\<lambda>i. let u = cp_fc_udfs cp ! i
                      in [(FC_UDF_OFFSET i, ucast (udf_offset u)), (FC_UDF_MASK i, udf_mask u),
                          (FC_UDF_VALUE i, udf_value u)]) [0..<length (cp_fc_udfs cp)])"

definition rule_word0 :: "pw_card_program \<Rightarrow> nat \<Rightarrow> u32" where
  "rule_word0 cp i =
     (if i < length (cp_fc_rules cp)
      then let r = cp_fc_rules cp ! i
           in FC_RULE_W0 (rule_care r) (rule_action r) (rule_egress r) (rule_priority r) True
      else FC_RULE_W0 0 0 0 0 False)"

definition rule_writes :: "pw_card_program \<Rightarrow> (u32 \<times> u32) list" where
  "rule_writes cp =
     concat (map (\<lambda>i. (FC_RULE_WORD0 i, rule_word0 cp i) #
                      (if i < length (cp_fc_rules cp)
                       then [(FC_RULE_LFID i, rule_local_flow_id (cp_fc_rules cp ! i)),
                             (FC_RULE_LIF i, rule_logical_if_id (cp_fc_rules cp ! i))]
                       else [])) [0..<PWFPGA_NUM_RULE])"

definition hash_entry_writes :: "pw_fc_hash_entry \<Rightarrow> (u32 \<times> u32) list" where
  "hash_entry_writes e =
     map (\<lambda>w. (HASH_KEY_WORD (unat (he_index e)) w, he_key_word e ! w)) [0..<PWFPGA_HASH_KEY_WORDS] @
     [(HASH_CTRL (unat (he_index e)), PWFPGA_HASH_CTRL_VALID OR he_local_flow_id e)]"

definition hash_writes :: "pw_card_program \<Rightarrow> (u32 \<times> u32) list" where
  "hash_writes cp =
     map (\<lambda>b. (HASH_CTRL b, 0)) [0..<PWFPGA_HASH_DEPTH] @
     (if cp_hash_entries cp \<noteq> []
      then map (\<lambda>w. (HASH_MASK_WORD w, cp_hash_mask cp ! w)) [0..<PWFPGA_HASH_KEY_WORDS] @
           [(PWFPGA_REG_HASH_SEED, cp_hash_seed cp)] @
           concat (map hash_entry_writes (cp_hash_entries cp))
      else [])"

definition table_writes :: "pw_card_program \<Rightarrow> (u32 \<times> u32) list" where
  "table_writes cp = map_writes cp @ cmp_writes cp @ udf_writes cp @ rule_writes cp @ hash_writes cp"

section \<open>Programming a card\<close>

definition program_in_range :: "pw_card_program \<Rightarrow> bool" where
  "program_in_range cp \<longleftrightarrow>
     length (cp_flow_rows cp) \<le> PWFPGA_FLOW_TABLE_ROWS \<and> length (cp_fc_cmps cp) \<le> PWFPGA_NUM_CMP \<and>
     length (cp_fc_udfs cp) \<le> PWFPGA_NUM_UDF \<and> length (cp_fc_rules cp) \<le> PWFPGA_NUM_RULE \<and>
     length (cp_hash_entries cp) \<le> PWFPGA_HASH_DEPTH \<and>
     (\<forall>e\<in>set (cp_map_entries cp). unat (me_flow_id e) < PWFPGA_FLOWID_MAP_DEPTH) \<and>
     (\<forall>e\<in>set (cp_hash_entries cp). unat (he_index e) < PWFPGA_HASH_DEPTH)"

text \<open>\<open>have_info\<close> and \<open>info.num_local_flows\<close>.\<close>

definition local_flows :: "'c pw_card_backend_ops \<Rightarrow> 'c \<Rightarrow> nat option" where
  "local_flows ops c =
     (case op_card_info ops of None \<Rightarrow> None
      | Some ci \<Rightarrow> if snd (ci c) = PW_OK then Some (unat (ci_num_local_flows (fst (ci c)))) else None)"

definition over_capacity :: "nat option \<Rightarrow> nat \<Rightarrow> bool" where
  "over_capacity info n = (case info of None \<Rightarrow> False | Some m \<Rightarrow> m \<noteq> 0 \<and> n > m)"

text \<open>The number of rows written: the program's, or the card's, at most the window.\<close>

definition rows_to_write :: "nat option \<Rightarrow> nat \<Rightarrow> nat" where
  "rows_to_write info n =
     (let m = (case info of None \<Rightarrow> n | Some k \<Rightarrow> if k > n then k else n)
      in if m > PWFPGA_FLOW_TABLE_ROWS then PWFPGA_FLOW_TABLE_ROWS else m)"

definition row_image :: "pw_card_program \<Rightarrow> nat \<Rightarrow> pwfpga_flow_config" where
  "row_image cp r = (if r < length (cp_flow_rows cp) then cp_flow_rows cp ! r else zero_row)"

definition missing_op :: "'c pw_card_backend_ops \<Rightarrow> pw_card_program \<Rightarrow> bool" where
  "missing_op ops cp \<longleftrightarrow>
     cp_flow_rows cp \<noteq> [] \<and> (op_flow_write ops = None \<or> op_flow_commit ops = None) \<or>
     op_write32 ops = None \<and>
       (cp_map_entries cp \<noteq> [] \<or> cp_fc_cmps cp \<noteq> [] \<or> cp_fc_udfs cp \<noteq> [] \<or> cp_fc_rules cp \<noteq> [] \<or>
        cp_hash_entries cp \<noteq> [])"

definition write_rows ::
  "('c \<Rightarrow> u32 \<Rightarrow> pwfpga_flow_config option \<Rightarrow> 'c \<times> pw_status) \<Rightarrow> pw_card_program \<Rightarrow> nat \<Rightarrow>
     'c \<times> pw_status \<Rightarrow> 'c \<times> pw_status" where
  "write_rows fw cp n st =
     foldl (\<lambda>(c, worst) r. chk worst (fw c (of_nat r) (Some (row_image cp r)))) st [0..<n]"

definition pw_program_card_tables_diag ::
  "'c pw_card_backend_ops option \<Rightarrow> 'c \<Rightarrow> pw_card_program option \<Rightarrow> 'c \<times> pw_status" where
  "pw_program_card_tables_diag o_ops c o_cp =
     (case (o_ops, o_cp) of
        (Some ops, Some cp) \<Rightarrow>
          if \<not> program_in_range cp then (c, PW_E_INVAL)
          else
            let info = local_flows ops c; n = length (cp_flow_rows cp)
            in if over_capacity info n then (c, PW_E_NO_RESOURCES)
               else
                 let st0 = (c, if missing_op ops cp then PW_E_NOT_IMPLEMENTED else PW_OK);
                     st1 = (case op_flow_write ops of None \<Rightarrow> st0
                            | Some fw \<Rightarrow> write_rows fw cp (rows_to_write info n) st0);
                     st2 = (case op_flow_commit ops of None \<Rightarrow> st1
                            | Some fc \<Rightarrow> chk (snd st1) (fc (fst st1)))
                 in case op_write32 ops of None \<Rightarrow> st2
                    | Some w32 \<Rightarrow> chk_writes w32 (table_writes cp) st2
      | _ \<Rightarrow> (c, PW_E_INVAL))"

definition pw_program_card_tables ::
  "'c pw_card_backend_ops option \<Rightarrow> 'c \<Rightarrow> pw_card_program option \<Rightarrow> 'c \<times> pw_status" where
  "pw_program_card_tables ops c cp = pw_program_card_tables_diag ops c cp"

section \<open>Addresses\<close>

lemma write_rows_Suc:
  "write_rows fw cp (Suc n) st =
     chk (snd (write_rows fw cp n st)) (fw (fst (write_rows fw cp n st)) (of_nat n) (Some (row_image cp n)))"
  by (simp add: write_rows_def split: prod.split)

lemma csr_addr_nat:
  "i < PWFPGA_FLOWID_MAP_DEPTH \<Longrightarrow> unat (PWFPGA_WIN_FLOWID_MAP + of_nat i * 4) = 0x400 + 4 * i"
  "i < PWFPGA_NUM_CMP \<Longrightarrow> unat (FC_CMP_SRC i) = 0x2000 + 16 * i"
  "i < PWFPGA_NUM_CMP \<Longrightarrow> unat (FC_CMP_MASK i) = 0x2004 + 16 * i"
  "i < PWFPGA_NUM_CMP \<Longrightarrow> unat (FC_CMP_VALUE i) = 0x2008 + 16 * i"
  "i < PWFPGA_NUM_UDF \<Longrightarrow> unat (FC_UDF_OFFSET i) = 0x2100 + 16 * i"
  "i < PWFPGA_NUM_UDF \<Longrightarrow> unat (FC_UDF_MASK i) = 0x2104 + 16 * i"
  "i < PWFPGA_NUM_UDF \<Longrightarrow> unat (FC_UDF_VALUE i) = 0x2108 + 16 * i"
  "i < PWFPGA_NUM_RULE \<Longrightarrow> unat (FC_RULE_WORD0 i) = 0x2200 + 16 * i"
  "i < PWFPGA_NUM_RULE \<Longrightarrow> unat (FC_RULE_LFID i) = 0x2204 + 16 * i"
  "i < PWFPGA_NUM_RULE \<Longrightarrow> unat (FC_RULE_LIF i) = 0x2208 + 16 * i"
  "w < PWFPGA_HASH_KEY_WORDS \<Longrightarrow> unat (HASH_MASK_WORD w) = 0x2F00 + 4 * w"
  "i < PWFPGA_HASH_DEPTH \<Longrightarrow> w < PWFPGA_HASH_KEY_WORDS \<Longrightarrow>
     unat (HASH_KEY_WORD i w) = 0x3000 + 64 * i + 4 * w"
  "i < PWFPGA_HASH_DEPTH \<Longrightarrow> unat (HASH_CTRL i) = 0x302C + 64 * i"
  by (simp_all add: csr_addr csr_regs csr_capacities unat_word_ariths unat_of_nat take_bit_nat_eq_self)

text \<open>The addresses each group of writes touches.\<close>

definition addrs :: "(u32 \<times> u32) list \<Rightarrow> nat set" where
  "addrs ws = unat ` fst ` set ws"

lemma addrs_simps [simp]:
  "addrs [] = {}" "addrs (x # ws) = insert (unat (fst x)) (addrs ws)" "addrs (ws @ ws') = addrs ws \<union> addrs ws'"
  by (auto simp: addrs_def)

lemma addrs_concat: "addrs (concat (map f xs)) = (\<Union>x\<in>set xs. addrs (f x))"
  by (auto simp: addrs_def)

lemma addrs_map: "addrs (map f xs) = (\<lambda>x. unat (fst (f x))) ` set xs"
  by (auto simp: addrs_def)

lemma fid_word: "unat fid < PWFPGA_FLOWID_MAP_DEPTH \<Longrightarrow> unat (PWFPGA_WIN_FLOWID_MAP + fid * 4) = 0x400 + 4 * unat fid"
  using csr_addr_nat(1) [of "unat fid"] by simp

lemma group_addrs:
  assumes "program_in_range cp"
  shows "addrs (map_writes cp) \<subseteq> {0x400..<0x800}" "addrs (cmp_writes cp) \<subseteq> {0x2000..<0x2100}"
    "addrs (udf_writes cp) \<subseteq> {0x2100..<0x2200}" "addrs (rule_writes cp) \<subseteq> {0x2200..<0x2400}"
    "addrs (hash_writes cp) \<subseteq> {0x2F00..<0x5000}"
proof -
  note R = assms [unfolded program_in_range_def]
  show "addrs (map_writes cp) \<subseteq> {0x400..<0x800}"
    using R by (auto simp: map_writes_def addrs_map csr_addr_nat fid_word) (auto simp: csr_capacities)
  show "addrs (cmp_writes cp) \<subseteq> {0x2000..<0x2100}"
    using R by (auto simp: cmp_writes_def addrs_concat csr_addr_nat Let_def) (auto simp: csr_capacities)
  show "addrs (udf_writes cp) \<subseteq> {0x2100..<0x2200}"
    using R by (auto simp: udf_writes_def addrs_concat csr_addr_nat Let_def) (auto simp: csr_capacities)
  show "addrs (rule_writes cp) \<subseteq> {0x2200..<0x2400}"
    using R by (auto simp: rule_writes_def addrs_concat csr_addr_nat split: if_splits) (auto simp: csr_capacities)
  have seed: "unat PWFPGA_REG_HASH_SEED = 0x2FFC" by (simp add: csr_regs)
  show "addrs (hash_writes cp) \<subseteq> {0x2F00..<0x5000}"
    using R by (auto simp: hash_writes_def hash_entry_writes_def addrs_concat addrs_map csr_addr_nat seed)
      (auto simp: csr_capacities)
qed

section \<open>The register contents the writes leave\<close>

text \<open>The last write to an address.\<close>

definition last_write :: "(u32 \<times> u32) list \<Rightarrow> u32 \<Rightarrow> u32 option" where
  "last_write ws a = map_of (rev ws) a"

lemma last_write_append:
  "last_write (xs @ ys) a = (case last_write ys a of Some v \<Rightarrow> Some v | None \<Rightarrow> last_write xs a)"
  unfolding last_write_def by (simp add: map_add_def)

lemma last_write_Cons:
  "last_write (x # ys) a =
     (case last_write ys a of Some v \<Rightarrow> Some v | None \<Rightarrow> if a = fst x then Some (snd x) else None)"
  unfolding last_write_def by (cases x) (simp add: map_add_def split: option.split)

lemma last_write_None: "unat a \<notin> addrs ws \<Longrightarrow> last_write ws a = None"
  by (auto simp: last_write_def addrs_def map_of_eq_None_iff)

lemma last_write_skip: "unat a \<notin> addrs ys \<Longrightarrow> last_write (xs @ ys) a = last_write xs a"
  by (simp add: last_write_append last_write_None)

lemma last_write_distinct:
  "distinct (map fst ws) \<Longrightarrow> (a, v) \<in> set ws \<Longrightarrow> last_write ws a = Some v"
  by (simp add: last_write_def map_of_eq_Some_iff rev_map [symmetric])

lemma last_write_found: "last_write ys a = Some v \<Longrightarrow> last_write (xs @ ys) a = Some v"
  by (simp add: last_write_append)

lemmas disjoint_windows = last_write_skip group_addrs

text \<open>What each table must hold.\<close>

definition map_word :: "pw_card_program \<Rightarrow> nat \<Rightarrow> u32" where
  "map_word cp i =
     (case find (\<lambda>e. unat (me_flow_id e) = i) (cp_map_entries cp) of
        None \<Rightarrow> 0 | Some e \<Rightarrow> PWFPGA_FLOWID_MAP_VALID OR me_local_flow_id e)"

definition hash_ctrl_word :: "pw_card_program \<Rightarrow> nat \<Rightarrow> u32" where
  "hash_ctrl_word cp b =
     (case find (\<lambda>e. unat (he_index e) = b) (cp_hash_entries cp) of
        None \<Rightarrow> 0 | Some e \<Rightarrow> PWFPGA_HASH_CTRL_VALID OR he_local_flow_id e)"

lemma unat_eq_iff [simp]: "unat x = unat y \<longleftrightarrow> x = y"
  by (simp add: word_unat_eq_iff)

lemma inj_on_addr: "(\<And>i. i \<in> A \<Longrightarrow> unat (f i) = c + k * i) \<Longrightarrow> 0 < k \<Longrightarrow> inj_on f A" for k :: nat
  by (rule inj_onI) (metis add_left_cancel mult_left_cancel not_gr_zero)

text \<open>A table that is first cleared, then filled: the filled entries, zero elsewhere.\<close>

lemma last_write_cleared:
  assumes a: "i < n" and addr: "\<And>i. i < n \<Longrightarrow> unat (f i) = c + k * i" "0 < k"
    and key: "\<And>e. e \<in> set es \<Longrightarrow> key e < n" and dist: "distinct (map key es)"
  shows "last_write (map (\<lambda>i. (f i, 0)) [0..<n] @ map (\<lambda>e. (f (key e), g e)) es) (f i) =
    Some (case find (\<lambda>e. key e = i) es of None \<Rightarrow> 0 | Some e \<Rightarrow> g e)"
proof -
  have inj: "inj_on f {0..<n}" by (rule inj_on_addr [of _ _ c k]) (use addr in auto)
  have d: "distinct (map fst (map (\<lambda>e. (f (key e), g e)) es))"
    using dist key inj
    by (auto simp: distinct_map comp_def inj_on_def)
  show ?thesis
  proof (cases "find (\<lambda>e. key e = i) es")
    case None
    then have "f i \<notin> fst ` set (map (\<lambda>e. (f (key e), g e)) es)"
      using a key inj by (auto simp: find_None_iff inj_on_def image_iff)
    then have "last_write (map (\<lambda>e. (f (key e), g e)) es) (f i) = None"
      by (simp add: last_write_def map_of_eq_None_iff)
    moreover have "last_write (map (\<lambda>i. (f i, 0)) [0..<n]) (f i) = Some 0"
      by (rule last_write_distinct) (use inj a in \<open>auto simp: distinct_map comp_def\<close>)
    ultimately show ?thesis using None by (simp add: last_write_append)
  next
    case (Some e)
    from find_SomeD [OF Some] have "(f i, g e) \<in> set (map (\<lambda>e. (f (key e), g e)) es)" by force
    from last_write_distinct [OF d this] Some show ?thesis by (simp add: last_write_append)
  qed
qed

lemma map_writes_last:
  assumes "program_in_range cp" and "distinct (map me_flow_id (cp_map_entries cp))"
    and i: "i < PWFPGA_FLOWID_MAP_DEPTH"
  shows "last_write (map_writes cp) (PWFPGA_WIN_FLOWID_MAP + of_nat i * 4) = Some (map_word cp i)"
proof -
  have "distinct (map (\<lambda>e. unat (me_flow_id e)) (cp_map_entries cp))"
    using assms(2) by (auto simp: distinct_map inj_on_def)
  from last_write_cleared [OF i csr_addr_nat(1) _ _ this] assms(1)
  show ?thesis by (simp add: map_writes_def map_word_def program_in_range_def)
qed

text \<open>The hash table interleaves key and control words, so its entries are folded one by one.\<close>

lemma hash_entry_writes_addrs:
  "unat (he_index e) < PWFPGA_HASH_DEPTH \<Longrightarrow>
     addrs (hash_entry_writes e) \<subseteq> {0x3000 + 64 * unat (he_index e)..<0x3040 + 64 * unat (he_index e)}"
  by (auto simp: hash_entry_writes_def addrs_map csr_addr_nat) (auto simp: csr_capacities)

lemma hash_entries_last:
  assumes "\<forall>e\<in>set es. unat (he_index e) < PWFPGA_HASH_DEPTH" and "distinct (map he_index es)"
    and "e \<in> set es" and "unat a \<in> {0x3000 + 64 * unat (he_index e)..<0x3040 + 64 * unat (he_index e)}"
  shows "last_write (concat (map hash_entry_writes es)) a = last_write (hash_entry_writes e) a"
  using assms
proof (induction es)
  case Nil
  then show ?case by simp
next
  case (Cons x es)
  have other: "unat a \<notin> addrs (hash_entry_writes y)" if "y \<in> set (x # es)" "he_index y \<noteq> he_index e" for y
  proof -
    have "unat (he_index y) \<noteq> unat (he_index e)" using that(2) by simp
    moreover have "unat a \<in> {0x3000 + 64 * unat (he_index y)..<0x3040 + 64 * unat (he_index y)}"
      if "unat a \<in> addrs (hash_entry_writes y)"
      using that hash_entry_writes_addrs Cons.prems(1) \<open>y \<in> set (x # es)\<close> by blast
    ultimately show ?thesis using Cons.prems(4) by (simp only: atLeastLessThan_iff) linarith
  qed
  show ?case
  proof (cases "e = x")
    case True
    then have "he_index y \<noteq> he_index e" if "y \<in> set es" for y
      using Cons.prems(2) that by (metis distinct.simps(2) image_eqI list.set_map list.simps(9))
    with other have "unat a \<notin> addrs (concat (map hash_entry_writes es))"
      by (auto simp: addrs_concat)
    with True show ?thesis by (simp add: last_write_skip)
  next
    case False
    with Cons.prems have e: "e \<in> set es" "he_index x \<noteq> he_index e" by auto
    have "last_write (hash_entry_writes x) a = None" using other e(2) by (simp add: last_write_None)
    with Cons.IH Cons.prems e(1) show ?thesis
      by (simp add: last_write_append split: option.split)
  qed
qed

lemma hash_entry_writes_last:
  assumes i: "unat (he_index e) < PWFPGA_HASH_DEPTH"
  shows "last_write (hash_entry_writes e) (HASH_CTRL (unat (he_index e))) =
      Some (PWFPGA_HASH_CTRL_VALID OR he_local_flow_id e)"
    and "w < PWFPGA_HASH_KEY_WORDS \<Longrightarrow>
      last_write (hash_entry_writes e) (HASH_KEY_WORD (unat (he_index e)) w) = Some (he_key_word e ! w)"
proof -
  let ?i = "unat (he_index e)"
  show "last_write (hash_entry_writes e) (HASH_CTRL ?i) = Some (PWFPGA_HASH_CTRL_VALID OR he_local_flow_id e)"
    unfolding hash_entry_writes_def by (rule last_write_found) (simp add: last_write_def)
  assume w: "w < PWFPGA_HASH_KEY_WORDS"
  have "inj_on (HASH_KEY_WORD ?i) {0..<PWFPGA_HASH_KEY_WORDS}"
    by (rule inj_on_addr [of _ _ "0x3000 + 64 * ?i" 4]) (use csr_addr_nat(12) [OF i] in auto)
  then have "last_write (map (\<lambda>w. (HASH_KEY_WORD ?i w, he_key_word e ! w)) [0..<PWFPGA_HASH_KEY_WORDS])
      (HASH_KEY_WORD ?i w) = Some (he_key_word e ! w)"
    using w by (intro last_write_distinct) (auto simp: distinct_map comp_def)
  moreover have "unat (HASH_KEY_WORD ?i w) \<noteq> unat (HASH_CTRL ?i)"
    using csr_addr_nat(12) [OF i w] csr_addr_nat(13) [OF i] w by (simp add: csr_capacities)
  ultimately show "last_write (hash_entry_writes e) (HASH_KEY_WORD ?i w) = Some (he_key_word e ! w)"
    unfolding hash_entry_writes_def by (subst last_write_skip) auto
qed

lemma hash_writes_entry:
  assumes R: "program_in_range cp" and dist: "distinct (map he_index (cp_hash_entries cp))"
    and e: "e \<in> set (cp_hash_entries cp)"
    and a: "unat a \<in> {0x3000 + 64 * unat (he_index e)..<0x3040 + 64 * unat (he_index e)}"
    and found: "last_write (hash_entry_writes e) a = Some v"
  shows "last_write (hash_writes cp) a = Some v"
proof -
  have ne: "cp_hash_entries cp \<noteq> []" using e by auto
  have "last_write (concat (map hash_entry_writes (cp_hash_entries cp))) a = Some v"
    using hash_entries_last [OF _ dist e a] R found by (simp add: program_in_range_def)
  then show ?thesis using ne by (simp add: hash_writes_def last_write_append last_write_Cons)
qed

lemma hash_writes_ctrl:
  assumes R: "program_in_range cp" and dist: "distinct (map he_index (cp_hash_entries cp))"
    and b: "b < PWFPGA_HASH_DEPTH"
  shows "last_write (hash_writes cp) (HASH_CTRL b) = Some (hash_ctrl_word cp b)"
proof (cases "find (\<lambda>e. unat (he_index e) = b) (cp_hash_entries cp)")
  case (Some e)
  from find_SomeD [OF Some] have e: "e \<in> set (cp_hash_entries cp)" "unat (he_index e) = b" by auto
  have i: "unat (he_index e) < PWFPGA_HASH_DEPTH" using e b by simp
  from hash_writes_entry [OF R dist e(1) _ hash_entry_writes_last(1) [OF i]] csr_addr_nat(13) [OF b] e(2) Some
  show ?thesis by (simp add: hash_ctrl_word_def)
next
  case None
  have none: "unat (he_index e) \<noteq> b" if "e \<in> set (cp_hash_entries cp)" for e
    using None that by (auto simp: find_None_iff)
  have "unat (HASH_CTRL b) \<notin> addrs (hash_entry_writes e)" if e: "e \<in> set (cp_hash_entries cp)" for e
    using hash_entry_writes_addrs [of e] R e none [OF e] csr_addr_nat(13) [OF b]
    by (fastforce simp: program_in_range_def)
  then have tail: "unat (HASH_CTRL b) \<notin> addrs (map (\<lambda>w. (HASH_MASK_WORD w, cp_hash_mask cp ! w)) [0..<PWFPGA_HASH_KEY_WORDS] @
           [(PWFPGA_REG_HASH_SEED, cp_hash_seed cp)] @ concat (map hash_entry_writes (cp_hash_entries cp)))"
    using csr_addr_nat(13) [OF b]
    by (auto simp: addrs_concat addrs_map csr_addr_nat csr_regs) (simp add: csr_capacities)
  have inj: "inj_on HASH_CTRL {0..<PWFPGA_HASH_DEPTH}"
    by (rule inj_on_addr [of _ _ "0x302C" 64]) (use csr_addr_nat(13) in auto)
  then have "last_write (map (\<lambda>b. (HASH_CTRL b, 0)) [0..<PWFPGA_HASH_DEPTH]) (HASH_CTRL b) = Some 0"
    using b by (intro last_write_distinct) (auto simp: distinct_map comp_def)
  then show ?thesis
    using last_write_skip [OF tail] None by (simp add: hash_writes_def hash_ctrl_word_def)
qed

lemma hash_writes_mask:
  assumes R: "program_in_range cp" and ne: "cp_hash_entries cp \<noteq> []"
  shows "w < PWFPGA_HASH_KEY_WORDS \<Longrightarrow> last_write (hash_writes cp) (HASH_MASK_WORD w) = Some (cp_hash_mask cp ! w)"
    and "last_write (hash_writes cp) PWFPGA_REG_HASH_SEED = Some (cp_hash_seed cp)"
proof -
  have far: "unat a \<notin> addrs (concat (map hash_entry_writes (cp_hash_entries cp)))" if "unat a < 0x3000" for a
    using R hash_entry_writes_addrs that by (fastforce simp: addrs_concat program_in_range_def)
  have seed: "unat PWFPGA_REG_HASH_SEED = 0x2FFC" by (simp add: csr_regs)
  show "last_write (hash_writes cp) PWFPGA_REG_HASH_SEED = Some (cp_hash_seed cp)"
    using ne far [of PWFPGA_REG_HASH_SEED] seed
    by (simp add: hash_writes_def last_write_append last_write_Cons last_write_None)
  assume w: "w < PWFPGA_HASH_KEY_WORDS"
  have "inj_on HASH_MASK_WORD {0..<PWFPGA_HASH_KEY_WORDS}"
    by (rule inj_on_addr [of _ _ "0x2F00" 4]) (use csr_addr_nat(11) in auto)
  then have "last_write (map (\<lambda>w. (HASH_MASK_WORD w, cp_hash_mask cp ! w)) [0..<PWFPGA_HASH_KEY_WORDS])
      (HASH_MASK_WORD w) = Some (cp_hash_mask cp ! w)"
    using w by (intro last_write_distinct) (auto simp: distinct_map comp_def)
  moreover have "unat (HASH_MASK_WORD w) < 0x2FFC"
    using csr_addr_nat(11) [OF w] w by (simp add: csr_capacities)
  moreover from this seed have "HASH_MASK_WORD w \<noteq> PWFPGA_REG_HASH_SEED" by auto
  ultimately show "last_write (hash_writes cp) (HASH_MASK_WORD w) = Some (cp_hash_mask cp ! w)"
    using ne far [of "HASH_MASK_WORD w"]
    by (simp add: hash_writes_def last_write_append last_write_Cons last_write_None)
qed

text \<open>Groups of words at a fixed stride: the words of one entry.\<close>

lemma last_write_concat:
  assumes "i < n" and "\<And>j. j < n \<Longrightarrow> addrs (f j) \<subseteq> {c + k * j..<c + k * Suc j}"
    and "unat a \<in> {c + k * i..<c + k * Suc i}"
  shows "last_write (concat (map f [0..<n])) a = last_write (f i) a"
  using assms
proof (induction n)
  case 0
  then show ?case by simp
next
  case (Suc n)
  have other: "unat a \<notin> addrs (f j)" if "j < Suc n" "j \<noteq> i" for j
  proof -
    have "k * Suc j \<le> k * i \<or> k * Suc i \<le> k * j"
      using that(2) by (metis Suc_leI linorder_neqE_nat mult_le_mono2)
    with Suc.prems(2) [OF that(1)] Suc.prems(3) show ?thesis by (auto simp: subset_iff)
  qed
  show ?case
  proof (cases "i = n")
    case True
    then have "last_write (concat (map f [0..<n])) a = None"
      using other by (intro last_write_None) (auto simp: addrs_concat)
    with True show ?thesis by (simp add: last_write_append split: option.split)
  next
    case False
    with other [of n] Suc show ?thesis by (simp add: last_write_skip)
  qed
qed

lemma cmp_writes_last:
  assumes R: "program_in_range cp" and i: "i < length (cp_fc_cmps cp)"
  shows "last_write (cmp_writes cp) (FC_CMP_SRC i) = Some (ucast (cmp_src (cp_fc_cmps cp ! i)))"
    "last_write (cmp_writes cp) (FC_CMP_MASK i) = Some (cmp_mask (cp_fc_cmps cp ! i))"
    "last_write (cmp_writes cp) (FC_CMP_VALUE i) = Some (cmp_value (cp_fc_cmps cp ! i))"
proof -
  have L: "j < PWFPGA_NUM_CMP" if "j < length (cp_fc_cmps cp)" for j
    using R that by (simp add: program_in_range_def)
  note ad = csr_addr_nat(2-4) [OF L]
  have "FC_CMP_SRC i \<noteq> FC_CMP_MASK i" "FC_CMP_SRC i \<noteq> FC_CMP_VALUE i" "FC_CMP_MASK i \<noteq> FC_CMP_VALUE i"
    using ad [OF i] by (auto dest: arg_cong [where f = unat])
  note ne = this this [symmetric]
  show "last_write (cmp_writes cp) (FC_CMP_SRC i) = Some (ucast (cmp_src (cp_fc_cmps cp ! i)))"
    "last_write (cmp_writes cp) (FC_CMP_MASK i) = Some (cmp_mask (cp_fc_cmps cp ! i))"
    "last_write (cmp_writes cp) (FC_CMP_VALUE i) = Some (cmp_value (cp_fc_cmps cp ! i))"
    unfolding cmp_writes_def
    by (subst last_write_concat [OF i, of _ "0x2000" 16];
        use ad i ne in \<open>simp add: Let_def last_write_Cons; simp add: last_write_def\<close>)+
qed

lemma udf_writes_last:
  assumes R: "program_in_range cp" and i: "i < length (cp_fc_udfs cp)"
  shows "last_write (udf_writes cp) (FC_UDF_OFFSET i) = Some (ucast (udf_offset (cp_fc_udfs cp ! i)))"
    "last_write (udf_writes cp) (FC_UDF_MASK i) = Some (udf_mask (cp_fc_udfs cp ! i))"
    "last_write (udf_writes cp) (FC_UDF_VALUE i) = Some (udf_value (cp_fc_udfs cp ! i))"
proof -
  have L: "j < PWFPGA_NUM_UDF" if "j < length (cp_fc_udfs cp)" for j
    using R that by (simp add: program_in_range_def)
  note ad = csr_addr_nat(5-7) [OF L]
  have "FC_UDF_OFFSET i \<noteq> FC_UDF_MASK i" "FC_UDF_OFFSET i \<noteq> FC_UDF_VALUE i" "FC_UDF_MASK i \<noteq> FC_UDF_VALUE i"
    using ad [OF i] by (auto dest: arg_cong [where f = unat])
  note ne = this this [symmetric]
  show "last_write (udf_writes cp) (FC_UDF_OFFSET i) = Some (ucast (udf_offset (cp_fc_udfs cp ! i)))"
    "last_write (udf_writes cp) (FC_UDF_MASK i) = Some (udf_mask (cp_fc_udfs cp ! i))"
    "last_write (udf_writes cp) (FC_UDF_VALUE i) = Some (udf_value (cp_fc_udfs cp ! i))"
    unfolding udf_writes_def
    by (subst last_write_concat [OF i, of _ "0x2100" 16];
        use ad i ne in \<open>simp add: Let_def last_write_Cons; simp add: last_write_def\<close>)+
qed

lemma rule_writes_last:
  assumes R: "program_in_range cp" and i: "i < PWFPGA_NUM_RULE"
  shows "last_write (rule_writes cp) (FC_RULE_WORD0 i) = Some (rule_word0 cp i)"
    "i < length (cp_fc_rules cp) \<Longrightarrow>
       last_write (rule_writes cp) (FC_RULE_LFID i) = Some (rule_local_flow_id (cp_fc_rules cp ! i))"
    "i < length (cp_fc_rules cp) \<Longrightarrow>
       last_write (rule_writes cp) (FC_RULE_LIF i) = Some (rule_logical_if_id (cp_fc_rules cp ! i))"
proof -
  note ad = csr_addr_nat(8-10)
  have "FC_RULE_WORD0 i \<noteq> FC_RULE_LFID i" "FC_RULE_WORD0 i \<noteq> FC_RULE_LIF i" "FC_RULE_LFID i \<noteq> FC_RULE_LIF i"
    using ad [OF i] by (auto dest: arg_cong [where f = unat])
  note ne = this this [symmetric]
  show "last_write (rule_writes cp) (FC_RULE_WORD0 i) = Some (rule_word0 cp i)"
    "i < length (cp_fc_rules cp) \<Longrightarrow>
       last_write (rule_writes cp) (FC_RULE_LFID i) = Some (rule_local_flow_id (cp_fc_rules cp ! i))"
    "i < length (cp_fc_rules cp) \<Longrightarrow>
       last_write (rule_writes cp) (FC_RULE_LIF i) = Some (rule_logical_if_id (cp_fc_rules cp ! i))"
    unfolding rule_writes_def
    by (subst last_write_concat [OF i, of _ "0x2200" 16];
        use ad i ne in \<open>simp add: last_write_Cons; simp add: last_write_def\<close>)+
qed

text \<open>No group overwrites another, so each table keeps what its own group wrote.\<close>

lemma table_writes_last:
  assumes R: "program_in_range cp"
  shows "unat a \<in> {0x400..<0x800} \<Longrightarrow> last_write (table_writes cp) a = last_write (map_writes cp) a"
    "unat a \<in> {0x2000..<0x2100} \<Longrightarrow> last_write (cmp_writes cp) a = Some v \<Longrightarrow>
       last_write (table_writes cp) a = Some v"
    "unat a \<in> {0x2100..<0x2200} \<Longrightarrow> last_write (udf_writes cp) a = Some v \<Longrightarrow>
       last_write (table_writes cp) a = Some v"
    "unat a \<in> {0x2200..<0x2400} \<Longrightarrow> last_write (rule_writes cp) a = Some v \<Longrightarrow>
       last_write (table_writes cp) a = Some v"
    "last_write (hash_writes cp) a = Some v \<Longrightarrow> last_write (table_writes cp) a = Some v"
proof -
  note g = group_addrs [OF R]
  have out: "last_write ws a = None" if "addrs ws \<subseteq> {lo..<hi}" "unat a < lo \<or> hi \<le> unat a" for ws lo hi a
    using that by (intro last_write_None) auto
  note o = out [OF g(2)] out [OF g(3)] out [OF g(4)] out [OF g(5)]
  show "unat a \<in> {0x400..<0x800} \<Longrightarrow> last_write (table_writes cp) a = last_write (map_writes cp) a"
    using o by (simp add: table_writes_def last_write_append)
  show "unat a \<in> {0x2000..<0x2100} \<Longrightarrow> last_write (cmp_writes cp) a = Some v \<Longrightarrow>
       last_write (table_writes cp) a = Some v"
    using o by (simp add: table_writes_def last_write_append)
  show "unat a \<in> {0x2100..<0x2200} \<Longrightarrow> last_write (udf_writes cp) a = Some v \<Longrightarrow>
       last_write (table_writes cp) a = Some v"
    using o by (simp add: table_writes_def last_write_append)
  show "unat a \<in> {0x2200..<0x2400} \<Longrightarrow> last_write (rule_writes cp) a = Some v \<Longrightarrow>
       last_write (table_writes cp) a = Some v"
    using o by (simp add: table_writes_def last_write_append)
  show "last_write (hash_writes cp) a = Some v \<Longrightarrow> last_write (table_writes cp) a = Some v"
    by (simp add: table_writes_def last_write_append)
qed

lemma table_writes_addrs:
  "program_in_range cp \<Longrightarrow> addrs (table_writes cp) \<subseteq> {0x400..<0x800} \<union> {0x2000..<0x2400} \<union> {0x2F00..<0x5000}"
  using group_addrs [of cp] by (auto simp: table_writes_def subset_iff)

text \<open>Every address is a multiple of four.\<close>

lemma table_writes_aligned:
  assumes R: "program_in_range cp"
  shows "\<forall>n\<in>addrs (table_writes cp). 4 dvd n"
proof -
  note r = R [unfolded program_in_range_def]
  have seed: "unat PWFPGA_REG_HASH_SEED = 0x2FFC" by (simp add: csr_regs)
  have "\<forall>n\<in>addrs (map_writes cp). 4 dvd n"
    using r by (auto simp: map_writes_def addrs_map csr_addr_nat fid_word)
  moreover have "\<forall>n\<in>addrs (cmp_writes cp). 4 dvd n"
    using r by (auto simp: cmp_writes_def addrs_concat csr_addr_nat Let_def)
  moreover have "\<forall>n\<in>addrs (udf_writes cp). 4 dvd n"
    using r by (auto simp: udf_writes_def addrs_concat csr_addr_nat Let_def)
  moreover have "\<forall>n\<in>addrs (rule_writes cp). 4 dvd n"
    using r by (auto simp: rule_writes_def addrs_concat csr_addr_nat split: if_splits)
  moreover have "\<forall>n\<in>addrs (hash_writes cp). 4 dvd n"
    using r by (auto simp: hash_writes_def hash_entry_writes_def addrs_concat addrs_map csr_addr_nat seed)
  ultimately show ?thesis by (auto simp: table_writes_def)
qed

section \<open>The register interface\<close>

text \<open>
  What the programming relies on: on the addresses a card implements, a write succeeds, is read
  back, and changes no other register.
\<close>

locale csr_registers =
  fixes w32 :: "'c \<Rightarrow> u32 \<Rightarrow> u32 \<Rightarrow> 'c \<times> pw_status"
    and reg :: "'c \<Rightarrow> u32 \<Rightarrow> u32"
    and implemented :: "u32 \<Rightarrow> bool"
    and live :: "'c \<Rightarrow> bool"
  assumes write_ok: "live c \<Longrightarrow> implemented a \<Longrightarrow> snd (w32 c a v) = PW_OK"
    and write_live: "live c \<Longrightarrow> implemented a \<Longrightarrow> live (fst (w32 c a v))"
    and read_back: "live c \<Longrightarrow> implemented a \<Longrightarrow> implemented b \<Longrightarrow>
      reg (fst (w32 c a v)) b = (if b = a then v else reg c b)"
begin

lemma chk_writes_final:
  assumes "live c" and "\<forall>(a, v)\<in>set ws. implemented a"
  shows "snd (chk_writes w32 ws (c, s)) = s"
    and "live (fst (chk_writes w32 ws (c, s)))"
    and "implemented b \<Longrightarrow> reg (fst (chk_writes w32 ws (c, s))) b =
      (case last_write ws b of None \<Rightarrow> reg c b | Some v \<Rightarrow> v)"
proof -
  have "snd (chk_writes w32 ws (c, s)) = s \<and> live (fst (chk_writes w32 ws (c, s))) \<and>
      (implemented b \<longrightarrow> reg (fst (chk_writes w32 ws (c, s))) b =
        (case last_write ws b of None \<Rightarrow> reg c b | Some v \<Rightarrow> v))"
    using assms
  proof (induction ws arbitrary: c)
    case Nil
    then show ?case by (simp add: chk_writes_def last_write_def)
  next
    case (Cons w ws)
    obtain a v where w: "w = (a, v)" by (cases w)
    with Cons.prems have a: "implemented a" by simp
    let ?c = "fst (w32 c a v)"
    have step: "chk_writes w32 (w # ws) (c, s) = chk_writes w32 ws (?c, s)"
      using write_ok [OF Cons.prems(1) a, of v] by (simp add: chk_writes_def chk_def w)
    from Cons.IH [OF write_live [OF Cons.prems(1) a]] Cons.prems(2)
      read_back [OF Cons.prems(1) a, of b v]
    show ?case unfolding step by (auto simp: last_write_Cons w split: option.split)
  qed
  then show "snd (chk_writes w32 ws (c, s)) = s"
    and "live (fst (chk_writes w32 ws (c, s)))"
    and "implemented b \<Longrightarrow> reg (fst (chk_writes w32 ws (c, s))) b =
      (case last_write ws b of None \<Rightarrow> reg c b | Some v \<Rightarrow> v)" by blast+
qed

end

end
