(* ===== verification/PW_Stats.thy ===== *)
theory PW_Stats
  imports PW_Programming
begin

text \<open>
  The counters a backend reports (\<^verbatim>\<open>backend.h\<close>), their byte images in the snapshot window, and the
  aggregation of per-card counters into per-flow results (\<^verbatim>\<open>stats.c\<close>, \<^verbatim>\<open>stats.h\<close>).
\<close>

section \<open>Counters\<close>

record pw_port_stats =
  ps_rx_frames :: u64
  ps_rx_bytes :: u64
  ps_rx_fcs_error :: u64
  ps_rx_bad_frame :: u64
  ps_rx_oversize :: u64
  ps_rx_undersize :: u64
  ps_tx_frames :: u64
  ps_tx_bytes :: u64
  ps_link_up_count :: u32
  ps_link_down_count :: u32
  ps_block_lock_loss :: u32
  ps_rx_unmatched :: u32
  ps_last_unmatched_ctx :: u32
  ps_last_unmatched_flowid :: u32

record pw_flow_stats =
  fs_tx_frames :: u64
  fs_tx_bytes :: u64
  fs_rx_frames :: u64
  fs_rx_bytes :: u64
  fs_last_sequence :: u64
  fs_sequence_gap_count :: u64
  fs_lost_packets_estimated :: u64
  fs_duplicate_count :: u64
  fs_out_of_order_count :: u64
  fs_late_packet_count :: u64
  fs_min_latency :: u32
  fs_max_latency :: u32
  fs_sum_latency :: u64
  fs_sample_count :: u64
  fs_jitter_min :: u32
  fs_jitter_max :: u32
  fs_jitter_sum :: u64

definition zero_port_stats :: pw_port_stats where
  "zero_port_stats = \<lparr>ps_rx_frames = 0, ps_rx_bytes = 0, ps_rx_fcs_error = 0, ps_rx_bad_frame = 0,
     ps_rx_oversize = 0, ps_rx_undersize = 0, ps_tx_frames = 0, ps_tx_bytes = 0,
     ps_link_up_count = 0, ps_link_down_count = 0, ps_block_lock_loss = 0, ps_rx_unmatched = 0,
     ps_last_unmatched_ctx = 0, ps_last_unmatched_flowid = 0\<rparr>"

definition zero_flow_stats :: pw_flow_stats where
  "zero_flow_stats = \<lparr>fs_tx_frames = 0, fs_tx_bytes = 0, fs_rx_frames = 0, fs_rx_bytes = 0,
     fs_last_sequence = 0, fs_sequence_gap_count = 0, fs_lost_packets_estimated = 0,
     fs_duplicate_count = 0, fs_out_of_order_count = 0, fs_late_packet_count = 0,
     fs_min_latency = 0, fs_max_latency = 0, fs_sum_latency = 0, fs_sample_count = 0,
     fs_jitter_min = 0, fs_jitter_max = 0, fs_jitter_sum = 0\<rparr>"

text \<open>The byte images in the snapshot window, decoded: little-endian fields in declaration order.\<close>

definition u32_at :: "bytes \<Rightarrow> nat \<Rightarrow> u32" where
  "u32_at bs i = le32 (bs ! i) (bs ! (i + 1)) (bs ! (i + 2)) (bs ! (i + 3))"

definition u64_at :: "bytes \<Rightarrow> nat \<Rightarrow> u64" where
  "u64_at bs i = ucast (u32_at bs i) OR push_bit 32 (ucast (u32_at bs (i + 4)))"

definition PORT_STATS_SIZE :: nat where "PORT_STATS_SIZE = 88"
definition FLOW_STATS_SIZE :: nat where "FLOW_STATS_SIZE = 120"

definition port_stats_of_bytes :: "bytes \<Rightarrow> pw_port_stats" where
  "port_stats_of_bytes bs = \<lparr>ps_rx_frames = u64_at bs 0, ps_rx_bytes = u64_at bs 8,
     ps_rx_fcs_error = u64_at bs 16, ps_rx_bad_frame = u64_at bs 24, ps_rx_oversize = u64_at bs 32,
     ps_rx_undersize = u64_at bs 40, ps_tx_frames = u64_at bs 48, ps_tx_bytes = u64_at bs 56,
     ps_link_up_count = u32_at bs 64, ps_link_down_count = u32_at bs 68,
     ps_block_lock_loss = u32_at bs 72, ps_rx_unmatched = u32_at bs 76,
     ps_last_unmatched_ctx = u32_at bs 80, ps_last_unmatched_flowid = u32_at bs 84\<rparr>"

definition flow_stats_of_bytes :: "bytes \<Rightarrow> pw_flow_stats" where
  "flow_stats_of_bytes bs = \<lparr>fs_tx_frames = u64_at bs 0, fs_tx_bytes = u64_at bs 8,
     fs_rx_frames = u64_at bs 16, fs_rx_bytes = u64_at bs 24, fs_last_sequence = u64_at bs 32,
     fs_sequence_gap_count = u64_at bs 40, fs_lost_packets_estimated = u64_at bs 48,
     fs_duplicate_count = u64_at bs 56, fs_out_of_order_count = u64_at bs 64,
     fs_late_packet_count = u64_at bs 72, fs_min_latency = u32_at bs 80,
     fs_max_latency = u32_at bs 84, fs_sum_latency = u64_at bs 88, fs_sample_count = u64_at bs 96,
     fs_jitter_min = u32_at bs 104, fs_jitter_max = u32_at bs 108, fs_jitter_sum = u64_at bs 112\<rparr>"

section \<open>Aggregation\<close>

record pw_global_flow_stats =
  gs_global_flow_id :: u32
  gs_tx_frames :: u64
  gs_tx_bytes :: u64
  gs_rx_frames :: u64
  gs_rx_bytes :: u64
  gs_lost_est :: u64
  gs_duplicate :: u64
  gs_out_of_order :: u64
  gs_late :: u64
  gs_sequence_gap_count :: u64
  gs_latency_valid :: bool
  gs_cross_card :: bool
  gs_min_latency_ns :: u32
  gs_max_latency_ns :: u32
  gs_sum_latency_ns :: u64
  gs_sample_count :: u64
  gs_jitter_min_ns :: u32
  gs_jitter_max_ns :: u32
  gs_jitter_sum_ns :: u64

definition zero_global :: pw_global_flow_stats where
  "zero_global = \<lparr>gs_global_flow_id = 0, gs_tx_frames = 0, gs_tx_bytes = 0, gs_rx_frames = 0,
     gs_rx_bytes = 0, gs_lost_est = 0, gs_duplicate = 0, gs_out_of_order = 0, gs_late = 0,
     gs_sequence_gap_count = 0, gs_latency_valid = False, gs_cross_card = False,
     gs_min_latency_ns = 0, gs_max_latency_ns = 0, gs_sum_latency_ns = 0, gs_sample_count = 0,
     gs_jitter_min_ns = 0, gs_jitter_max_ns = 0, gs_jitter_sum_ns = 0\<rparr>"

text \<open>One iteration of the loop, on a zeroed element.\<close>

definition aggregate_flow ::
  "pw_flow_meta \<Rightarrow> pw_flow_stats \<Rightarrow> pw_flow_stats \<Rightarrow> pw_global_flow_stats" where
  "aggregate_flow m tx_s rx_s =
     (let g = zero_global\<lparr>gs_global_flow_id := meta_global_flow_id m, gs_tx_frames := fs_tx_frames tx_s,
                          gs_tx_bytes := fs_tx_bytes tx_s\<rparr>
      in if \<not> meta_rx_slot_valid m then g\<lparr>gs_latency_valid := False, gs_cross_card := False\<rparr>
         else g\<lparr>gs_rx_frames := fs_rx_frames rx_s, gs_rx_bytes := fs_rx_bytes rx_s,
                gs_lost_est := fs_lost_packets_estimated rx_s, gs_duplicate := fs_duplicate_count rx_s,
                gs_out_of_order := fs_out_of_order_count rx_s, gs_late := fs_late_packet_count rx_s,
                gs_sequence_gap_count := fs_sequence_gap_count rx_s,
                gs_latency_valid := True, gs_cross_card := \<not> meta_latency_valid m,
                gs_min_latency_ns := fs_min_latency rx_s, gs_max_latency_ns := fs_max_latency rx_s,
                gs_sum_latency_ns := fs_sum_latency rx_s, gs_sample_count := fs_sample_count rx_s,
                gs_jitter_min_ns := fs_jitter_min rx_s, gs_jitter_max_ns := fs_jitter_max rx_s,
                gs_jitter_sum_ns := fs_jitter_sum rx_s\<rparr>)"

text \<open>
  The output array has \<open>length out\<close> elements; the elements past the flows keep their contents.
  The two \<open>SIZE_MAX\<close> guards concern counts no list of the model reaches.
\<close>

definition pw_stats_aggregate ::
  "pw_program option \<Rightarrow> pw_flow_stats list option \<Rightarrow> pw_global_flow_stats list option \<Rightarrow>
     pw_status + pw_global_flow_stats list" where
  "pw_stats_aggregate o_prog o_stats o_out =
     (case (o_prog, o_stats, o_out) of
        (Some prog, Some stats, Some out) \<Rightarrow>
          let metas = prog_flow_meta prog; n = length metas
          in rbind (fail_if (length out < n) PW_E_INVAL) (\<lambda>_.
             rbind (fail_if (length stats < n * 2) PW_E_INVAL) (\<lambda>_.
             Inr (map (\<lambda>i. aggregate_flow (metas ! i) (stats ! (i * 2)) (stats ! (i * 2 + 1))) [0..<n] @
                  drop n out)))
      | _ \<Rightarrow> Inl PW_E_INVAL)"

text \<open>The pair per flow that the caller supplies: the transmit card's and the receive card's counters.\<close>

definition stats_pairs :: "(u16 \<Rightarrow> u32 \<Rightarrow> pw_flow_stats) \<Rightarrow> pw_flow_meta list \<Rightarrow> pw_flow_stats list" where
  "stats_pairs snap metas =
     concat (map (\<lambda>m. [snap (meta_tx_card_id m) (meta_tx_local_flow_id m),
                       snap (meta_rx_card_id m) (meta_rx_local_flow_id m)]) metas)"

lemma stats_pairs_length [simp]: "length (stats_pairs snap metas) = 2 * length metas"
  by (induction metas) (simp_all add: stats_pairs_def)

lemma stats_pairs_nth:
  assumes "i < length metas"
  shows "stats_pairs snap metas ! (i * 2) = snap (meta_tx_card_id (metas ! i)) (meta_tx_local_flow_id (metas ! i))"
    "stats_pairs snap metas ! (i * 2 + 1) = snap (meta_rx_card_id (metas ! i)) (meta_rx_local_flow_id (metas ! i))"
proof -
  have *: "stats_pairs snap metas ! (i * 2) = snap (meta_tx_card_id (metas ! i)) (meta_tx_local_flow_id (metas ! i)) \<and>
      stats_pairs snap metas ! (i * 2 + 1) = snap (meta_rx_card_id (metas ! i)) (meta_rx_local_flow_id (metas ! i))"
    using assms
  proof (induction metas arbitrary: i)
    case Nil
    then show ?case by simp
  next
    case (Cons m metas)
    then show ?case by (cases i) (simp_all add: stats_pairs_def)
  qed
  then show "stats_pairs snap metas ! (i * 2) = snap (meta_tx_card_id (metas ! i)) (meta_tx_local_flow_id (metas ! i))"
    "stats_pairs snap metas ! (i * 2 + 1) = snap (meta_rx_card_id (metas ! i)) (meta_rx_local_flow_id (metas ! i))"
    by blast+
qed

lemma aggregate_pairs:
  assumes "length out = length (prog_flow_meta prog)"
  shows "pw_stats_aggregate (Some prog) (Some (stats_pairs snap (prog_flow_meta prog))) (Some out) =
    Inr (map (\<lambda>m. aggregate_flow m (snap (meta_tx_card_id m) (meta_tx_local_flow_id m))
                    (snap (meta_rx_card_id m) (meta_rx_local_flow_id m))) (prog_flow_meta prog))"
  using assms stats_pairs_nth [of _ "prog_flow_meta prog" snap]
  by (auto simp: pw_stats_aggregate_def Let_def intro!: nth_equalityI)

end
