(* ===== verification/PW_Bar_Backend.thy ===== *)
theory PW_Bar_Backend
  imports PW_Stats
begin

text \<open>
  The BAR backend, \<^verbatim>\<open>backend_bar.c\<close>: register access with its range check, the word copies, flow
  rows, statistics and histogram reads, and the legacy punt and inject windows. The mapped BAR is
  a memory of 32-bit words, keyed by their byte offset in the mapping (all accesses are 4-aligned);
  it answers reads with what was written, as the file-backed BAR of \<open>pw_bar_backend_open_path\<close>
  does. Changes that hardware makes between two calls are a change of that memory between them.
\<close>

section \<open>Registers\<close>

record bar_ctx =
  bar_mem :: "nat \<Rightarrow> u32"
  bar_size :: u64
  bar_csr_off :: u32

definition reg_at :: "bar_ctx \<Rightarrow> u32 \<Rightarrow> nat" where
  "reg_at c off = unat (bar_csr_off c) + unat off"

definition csr_range_ok :: "bar_ctx \<Rightarrow> u64 \<Rightarrow> u64 \<Rightarrow> bool" where
  "csr_range_ok c off len =
     (let e = ucast (bar_csr_off c) + off + len in e \<ge> off \<and> e \<le> bar_size c)"

definition bar_get :: "bar_ctx \<Rightarrow> u32 \<Rightarrow> u32" where
  "bar_get c off = bar_mem c (reg_at c off)"

definition bar_put :: "bar_ctx \<Rightarrow> u32 \<Rightarrow> u32 \<Rightarrow> bar_ctx" where
  "bar_put c off v = c\<lparr>bar_mem := (bar_mem c)(reg_at c off := v)\<rparr>"

definition bar_read32 :: "bar_ctx \<Rightarrow> u32 \<Rightarrow> pw_status + u32" where
  "bar_read32 c off =
     (if \<not> csr_range_ok c (ucast off) 4 then Inl PW_E_OUT_OF_RANGE else Inr (bar_get c off))"

definition bar_write32 :: "bar_ctx \<Rightarrow> u32 \<Rightarrow> u32 \<Rightarrow> bar_ctx \<times> pw_status" where
  "bar_write32 c off v =
     (if \<not> csr_range_ok c (ucast off) 4 then (c, PW_E_OUT_OF_RANGE) else (bar_put c off v, PW_OK))"

definition bar_card_info :: "bar_ctx \<Rightarrow> pw_card_info \<times> pw_status" where
  "bar_card_info c =
     (\<lparr>ci_device_id = bar_get c PWFPGA_REG_DEVICE_ID, ci_version = bar_get c PWFPGA_REG_VERSION,
       ci_build_id = bar_get c PWFPGA_REG_BUILD_ID, ci_git_hash = bar_get c PWFPGA_REG_GIT_HASH,
       ci_capabilities = bar_get c PWFPGA_REG_CAPABILITIES,
       ci_num_local_ports = ucast (bar_get c PWFPGA_REG_NUM_LOCAL_PORTS),
       ci_num_local_flows = ucast (bar_get c PWFPGA_REG_NUM_LOCAL_FLOWS),
       ci_num_logical_interfaces = ucast (bar_get c PWFPGA_REG_NUM_LOGICAL_IFS),
       ci_num_classifier_entries = ucast (bar_get c PWFPGA_REG_NUM_CLASSIFIER)\<rparr>, PW_OK)"

section \<open>Word copies\<close>

text \<open>\<open>bar_copy_words\<close>: whole words, then the tail zero-padded to a word.\<close>

fun words_of_bytes :: "bytes \<Rightarrow> u32 list" where
  "words_of_bytes (a # b # c # d # r) = le32 a b c d # words_of_bytes r"
| "words_of_bytes [a, b, c] = [le32 a b c 0]"
| "words_of_bytes [a, b] = [le32 a b 0 0]"
| "words_of_bytes [a] = [le32 a 0 0 0]"
| "words_of_bytes [] = []"

fun put_words :: "(nat \<Rightarrow> u32) \<Rightarrow> nat \<Rightarrow> u32 list \<Rightarrow> nat \<Rightarrow> u32" where
  "put_words m a [] = m"
| "put_words m a (w # ws) = put_words (m(a := w)) (a + 4) ws"

definition bar_copy_words :: "(nat \<Rightarrow> u32) \<Rightarrow> nat \<Rightarrow> bytes \<Rightarrow> nat \<Rightarrow> u32" where
  "bar_copy_words m a bs = put_words m a (words_of_bytes bs)"

definition get_words :: "(nat \<Rightarrow> u32) \<Rightarrow> nat \<Rightarrow> nat \<Rightarrow> u32 list" where
  "get_words m a n = map (\<lambda>i. m (a + 4 * i)) [0..<n]"

definition bar_copy_words_out :: "(nat \<Rightarrow> u32) \<Rightarrow> nat \<Rightarrow> nat \<Rightarrow> bytes" where
  "bar_copy_words_out m a nbytes =
     take nbytes (concat (map le32_bytes (get_words m a ((nbytes + 3) div 4))))"

section \<open>Tables\<close>

definition FLOW_CONFIG_SIZE :: u64 where "FLOW_CONFIG_SIZE = 244"

definition flow_row_base :: "u32 \<Rightarrow> u64" where
  "flow_row_base row = ucast PWFPGA_WIN_FLOW_TABLE + ucast row * of_nat PWFPGA_FLOW_STRIDE"

definition bar_flow_write :: "bar_ctx \<Rightarrow> u32 \<Rightarrow> pwfpga_flow_config option \<Rightarrow> bar_ctx \<times> pw_status" where
  "bar_flow_write c row o_f =
     (case o_f of None \<Rightarrow> (c, PW_E_INVAL)
      | Some f \<Rightarrow>
          let base = flow_row_base row
          in if base + FLOW_CONFIG_SIZE > ucast PWFPGA_REG_FLOW_COMMIT then (c, PW_E_OUT_OF_RANGE)
             else if \<not> csr_range_ok c base FLOW_CONFIG_SIZE then (c, PW_E_OUT_OF_RANGE)
             else (c\<lparr>bar_mem := bar_copy_words (bar_mem c) (reg_at c (ucast base)) (flow_config_bytes f)\<rparr>,
                   PW_OK))"

definition bar_flow_commit :: "bar_ctx \<Rightarrow> bar_ctx \<times> pw_status" where
  "bar_flow_commit c =
     (if \<not> csr_range_ok c (ucast PWFPGA_REG_FLOW_COMMIT) 4 then (c, PW_E_OUT_OF_RANGE)
      else (bar_put c PWFPGA_REG_FLOW_COMMIT 1, PW_OK))"

definition bar_stats_snapshot :: "bar_ctx \<Rightarrow> bar_ctx \<times> pw_status" where
  "bar_stats_snapshot c =
     (if \<not> csr_range_ok c (ucast PWFPGA_REG_STATS_SNAPSHOT_TRIGGER) 4 then (c, PW_E_OUT_OF_RANGE)
      else (bar_put c PWFPGA_REG_STATS_SNAPSHOT_TRIGGER 1, PW_OK))"

definition bar_port_stats_read :: "bar_ctx \<Rightarrow> u8 \<Rightarrow> pw_status + pw_port_stats" where
  "bar_port_stats_read c local_port =
     (let base = ucast PWFPGA_WIN_STATS_SNAPSHOT + ucast local_port * of_nat PWFPGA_PORT_STATS_STRIDE
      in if unat local_port \<ge> PW_PORTS_PER_CARD then Inl PW_E_INVAL
         else if \<not> csr_range_ok c base (of_nat PORT_STATS_SIZE) then Inl PW_E_OUT_OF_RANGE
         else Inr (port_stats_of_bytes (bar_copy_words_out (bar_mem c) (reg_at c (ucast base)) PORT_STATS_SIZE)))"

definition flow_stats_base :: "u32 \<Rightarrow> u64" where
  "flow_stats_base lfid = ucast PWFPGA_WIN_STATS_SNAPSHOT + of_nat PWFPGA_FLOW_STATS_BASE +
     ucast lfid * of_nat PWFPGA_FLOW_STATS_STRIDE"

definition bar_flow_stats_read :: "bar_ctx \<Rightarrow> u32 \<Rightarrow> pw_status + pw_flow_stats" where
  "bar_flow_stats_read c lfid =
     (let base = flow_stats_base lfid
      in if unat lfid \<ge> PWFPGA_FLOW_STATS_SLOTS then Inl PW_E_OUT_OF_RANGE
         else if \<not> csr_range_ok c base (of_nat FLOW_STATS_SIZE) then Inl PW_E_OUT_OF_RANGE
         else Inr (flow_stats_of_bytes (bar_copy_words_out (bar_mem c) (reg_at c (ucast base)) FLOW_STATS_SIZE)))"

text \<open>The histogram buckets, 64-bit each; at most the sixteen a slot holds.\<close>

definition flow_hist_base :: "u32 \<Rightarrow> u64" where
  "flow_hist_base lfid = ucast PWFPGA_WIN_HISTOGRAM + ucast lfid * of_nat PWFPGA_FLOW_HIST_STRIDE"

definition bar_flow_hist_read :: "bar_ctx \<Rightarrow> u32 \<Rightarrow> nat \<Rightarrow> pw_status + u64 list" where
  "bar_flow_hist_read c lfid n_buckets =
     (if unat lfid \<ge> PWFPGA_FLOW_HIST_SLOTS then Inl PW_E_OUT_OF_RANGE
      else
        let base = flow_hist_base lfid; cap = PWFPGA_FLOW_HIST_STRIDE div 8;
            n = (if n_buckets > cap then cap else n_buckets)
        in if \<not> csr_range_ok c base (of_nat (n * 8)) then Inl PW_E_OUT_OF_RANGE
           else let bs = bar_copy_words_out (bar_mem c) (reg_at c (ucast base)) (n * 8)
                in Inr (map (\<lambda>i. u64_at bs (8 * i)) [0..<n]))"

definition bar_ops :: "bar_ctx pw_card_backend_ops" where
  "bar_ops = \<lparr>op_write32 = Some bar_write32, op_card_info = Some bar_card_info,
     op_flow_write = Some bar_flow_write, op_flow_commit = Some bar_flow_commit\<rparr>"

section \<open>The range check\<close>

text \<open>The check is exact as long as offset and length are CSR-sized, as at every call.\<close>

lemma csr_range_ok_iff:
  assumes "unat (ucast (bar_csr_off c) :: u64) + unat off + unat len < 2 ^ 64"
  shows "csr_range_ok c off len \<longleftrightarrow> unat (bar_csr_off c) + unat off + unat len \<le> unat (bar_size c)"
proof -
  have u: "unat (ucast (bar_csr_off c) :: u64) = unat (bar_csr_off c)"
    by (simp add: unsigned_ucast_eq take_bit_nat_eq_self_iff)
      (rule order.strict_trans [OF unsigned_less], simp)
  have e: "unat (ucast (bar_csr_off c) + off + len :: u64) = unat (bar_csr_off c) + unat off + unat len"
    using assms by (simp add: unat_word_ariths u)
  show ?thesis
    unfolding csr_range_ok_def Let_def word_le_nat_alt e by simp
qed

section \<open>Word copies round-trip\<close>

lemma words_of_bytes_length: "length (words_of_bytes bs) = (length bs + 3) div 4"
  by (induction bs rule: words_of_bytes.induct) simp_all

lemma words_of_bytes_concat: "take (length bs) (concat (map le32_bytes (words_of_bytes bs))) = bs"
  by (induction bs rule: words_of_bytes.induct) simp_all

lemma put_words_frame: "x < a \<or> a + 4 * length ws \<le> x \<Longrightarrow> put_words m a ws x = m x"
  by (induction ws arbitrary: m a) auto

lemma put_words_nth: "i < length ws \<Longrightarrow> put_words m a ws (a + 4 * i) = ws ! i"
proof (induction ws arbitrary: m a i)
  case Nil
  then show ?case by simp
next
  case (Cons w ws)
  show ?case
  proof (cases i)
    case 0
    then show ?thesis by (simp add: put_words_frame)
  next
    case (Suc j)
    with Cons.prems have "j < length ws" by simp
    note IH = Cons.IH [OF this, where a = "a + 4"]
    show ?thesis unfolding Suc using IH by (simp add: add.assoc)
  qed
qed

lemma get_put_words: "get_words (put_words m a ws) a (length ws) = ws"
  by (rule nth_equalityI) (simp_all add: get_words_def put_words_nth)

lemma bar_copy_roundtrip: "bar_copy_words_out (bar_copy_words m a bs) a (length bs) = bs"
  unfolding bar_copy_words_out_def bar_copy_words_def
  using get_put_words [of m a "words_of_bytes bs"] words_of_bytes_concat [of bs]
  by (simp add: words_of_bytes_length)

lemma bar_copy_frame: "x < a \<or> a + length bs + 3 \<le> x \<Longrightarrow> bar_copy_words m a bs x = m x"
  unfolding bar_copy_words_def by (rule put_words_frame) (auto simp: words_of_bytes_length)

lemma bar_copy_out_cong:
  "(\<And>x. a \<le> x \<Longrightarrow> x < a + n + 3 \<Longrightarrow> m x = m' x) \<Longrightarrow> bar_copy_words_out m a n = bar_copy_words_out m' a n"
  unfolding bar_copy_words_out_def get_words_def
  by (rule arg_cong [where f = "\<lambda>ws. take n (concat (map le32_bytes ws))"]) (auto intro!: map_cong)

section \<open>The register interface\<close>

text \<open>A mapping that covers the 64 KB CSR window.\<close>

definition bar_live :: "bar_ctx \<Rightarrow> bool" where
  "bar_live c \<longleftrightarrow> unat (bar_csr_off c) + 0x10000 \<le> unat (bar_size c)"

definition csr_word :: "u32 \<Rightarrow> bool" where
  "csr_word a \<longleftrightarrow> unat a + 4 \<le> 0x10000 \<and> 4 dvd unat a"

lemma ucast_u32_u64 [simp]: "unat (ucast (x :: u32) :: u64) = unat x"
  by (simp add: unsigned_ucast_eq take_bit_nat_eq_self_iff)
    (rule order.strict_trans [OF unsigned_less], simp)

lemma live_range:
  assumes "bar_live c" and "unat off + unat len \<le> 0x10000"
  shows "csr_range_ok c off len"
proof -
  have "unat (bar_csr_off c) < 2 ^ 32" using unsigned_less [of "bar_csr_off c"] by simp
  with assms show ?thesis by (subst csr_range_ok_iff) (simp_all add: bar_live_def)
qed

lemma csr_word_range: "bar_live c \<Longrightarrow> csr_word a \<Longrightarrow> csr_range_ok c (ucast a) 4"
  by (rule live_range) (simp_all add: csr_word_def)

interpretation bar: csr_registers bar_write32 bar_get csr_word bar_live
proof unfold_locales
  fix c a b v
  assume live: "bar_live c" and a: "csr_word a"
  show "snd (bar_write32 c a v) = PW_OK" using csr_word_range [OF live a] by (simp add: bar_write32_def)
  show "bar_live (fst (bar_write32 c a v))"
    using live by (simp add: bar_write32_def bar_put_def bar_live_def)
  show "bar_get (fst (bar_write32 c a v)) b = (if b = a then v else bar_get c b)" if "csr_word b"
    using csr_word_range [OF live a] by (simp add: bar_write32_def bar_put_def bar_get_def reg_at_def)
qed

section \<open>Flow rows\<close>

lemma flow_row_base_nat: "unat (flow_row_base row) = 0x6000 + 256 * unat row"
proof -
  have "unat row < 2 ^ 32" using unsigned_less [of row] by simp
  then show ?thesis
    by (simp add: flow_row_base_def csr_regs csr_capacities unat_word_ariths)
qed

lemma bar_flow_write_ok_iff:
  assumes live: "bar_live c"
  shows "snd (bar_flow_write c row (Some f)) = PW_OK \<longleftrightarrow> unat row < PWFPGA_FLOW_TABLE_ROWS"
proof -
  have r: "unat row < 2 ^ 32" using unsigned_less [of row] by simp
  have "unat (flow_row_base row + FLOW_CONFIG_SIZE) = 0x6000 + 256 * unat row + 244"
    using r flow_row_base_nat [of row] by (simp add: unat_word_ariths FLOW_CONFIG_SIZE_def)
  then have over: "flow_row_base row + FLOW_CONFIG_SIZE > ucast PWFPGA_REG_FLOW_COMMIT \<longleftrightarrow>
      0x9FFC < 0x6000 + 256 * unat row + 244"
    by (simp add: word_less_nat_alt csr_regs)
  show ?thesis
  proof (cases "unat row < PWFPGA_FLOW_TABLE_ROWS")
    case True
    then have "csr_range_ok c (flow_row_base row) FLOW_CONFIG_SIZE"
      by (intro live_range [OF live]) (simp add: flow_row_base_nat FLOW_CONFIG_SIZE_def csr_capacities)
    with True over show ?thesis by (simp add: bar_flow_write_def Let_def csr_capacities)
  next
    case False
    with over show ?thesis by (simp add: bar_flow_write_def Let_def csr_capacities)
  qed
qed

text \<open>A written row reads back as its wire image; nothing outside the row's slot changes.\<close>

definition row_bytes :: "bar_ctx \<Rightarrow> u32 \<Rightarrow> bytes" where
  "row_bytes c row = bar_copy_words_out (bar_mem c) (unat (bar_csr_off c) + 0x6000 + 256 * unat row) 244"

lemma bar_flow_write_mem:
  assumes live: "bar_live c" and row: "unat row < PWFPGA_FLOW_TABLE_ROWS"
  shows "bar_flow_write c row (Some f) =
    (c\<lparr>bar_mem := bar_copy_words (bar_mem c) (unat (bar_csr_off c) + 0x6000 + 256 * unat row)
         (flow_config_bytes f)\<rparr>, PW_OK)"
proof -
  have "unat (ucast (flow_row_base row) :: u32) = 0x6000 + 256 * unat row"
    using row by (simp add: unsigned_ucast_eq flow_row_base_nat csr_capacities take_bit_nat_eq_self)
  then have "reg_at c (ucast (flow_row_base row)) = unat (bar_csr_off c) + 0x6000 + 256 * unat row"
    by (simp add: reg_at_def)
  with bar_flow_write_ok_iff [OF live, of row f] row show ?thesis
    by (auto simp: bar_flow_write_def Let_def split: if_splits)
qed

lemma bar_flow_write_row:
  assumes live: "bar_live c" and row: "unat row < PWFPGA_FLOW_TABLE_ROWS" and wf: "row_wf f"
  defines "c' \<equiv> fst (bar_flow_write c row (Some f))"
  shows "bar_live c'" "row_bytes c' row = flow_config_bytes f"
    "unat row' < PWFPGA_FLOW_TABLE_ROWS \<Longrightarrow> row' \<noteq> row \<Longrightarrow> row_bytes c' row' = row_bytes c row'"
    "unat a < 0x6000 \<or> 0x9FFC \<le> unat a \<Longrightarrow> bar_get c' a = bar_get c a"
proof -
  let ?a = "unat (bar_csr_off c) + 0x6000 + 256 * unat row"
  note m = bar_flow_write_mem [OF live row, of f]
  note L = flow_config_bytes_length [OF wf]
  show "bar_live c'" using live by (simp add: c'_def m bar_live_def)
  show "row_bytes c' row = flow_config_bytes f"
    using bar_copy_roundtrip [of "bar_mem c" ?a "flow_config_bytes f"] L
    by (simp add: c'_def m row_bytes_def)
  show "row_bytes c' row' = row_bytes c row'" if "unat row' < PWFPGA_FLOW_TABLE_ROWS" "row' \<noteq> row"
    unfolding row_bytes_def c'_def m
  proof (simp, rule bar_copy_out_cong)
    fix x
    assume x: "unat (bar_csr_off c) + 0x6000 + 256 * unat row' \<le> x"
      "x < unat (bar_csr_off c) + 0x6000 + 256 * unat row' + 244 + 3"
    have ne: "unat row' \<noteq> unat row" using that(2) by simp
    show "bar_copy_words (bar_mem c) ?a (flow_config_bytes f) x = bar_mem c x"
      by (rule bar_copy_frame) (use x ne L in linarith)
  qed
  show "bar_get c' a = bar_get c a" if "unat a < 0x6000 \<or> 0x9FFC \<le> unat a"
    using that row L unfolding c'_def m bar_get_def reg_at_def
    by (simp, intro bar_copy_frame) (auto simp: csr_capacities)
qed

lemma bar_write_rows:
  assumes live: "bar_live c" and n: "n \<le> PWFPGA_FLOW_TABLE_ROWS" and wf: "\<forall>r < n. row_wf (row_image cp r)"
  shows "snd (write_rows bar_flow_write cp n (c, s)) = s \<and>
    bar_live (fst (write_rows bar_flow_write cp n (c, s))) \<and>
    (\<forall>r < n. row_bytes (fst (write_rows bar_flow_write cp n (c, s))) (of_nat r) =
       flow_config_bytes (row_image cp r)) \<and>
    (\<forall>a. unat a < 0x6000 \<or> 0x9FFC \<le> unat a \<longrightarrow>
       bar_get (fst (write_rows bar_flow_write cp n (c, s))) a = bar_get c a)"
  using n wf
proof (induction n)
  case 0
  then show ?case using live by (simp add: write_rows_def)
next
  case (Suc n)
  define c1 where "c1 = fst (write_rows bar_flow_write cp n (c, s))"
  have IH: "snd (write_rows bar_flow_write cp n (c, s)) = s" "bar_live c1"
    "\<forall>r < n. row_bytes c1 (of_nat r) = flow_config_bytes (row_image cp r)"
    "\<forall>a. unat a < 0x6000 \<or> 0x9FFC \<le> unat a \<longrightarrow> bar_get c1 a = bar_get c a"
    using Suc by (simp_all add: c1_def)
  have u: "unat (of_nat n :: u32) = n" "unat (of_nat n :: u32) < PWFPGA_FLOW_TABLE_ROWS"
    using Suc.prems(1) by simp_all
  have step: "write_rows bar_flow_write cp (Suc n) (c, s) =
      (fst (bar_flow_write c1 (of_nat n) (Some (row_image cp n))), s)"
    using bar_flow_write_ok_iff [OF IH(2), of "of_nat n"] u IH(1)
    by (simp add: write_rows_Suc c1_def chk_def)
  have "row_wf (row_image cp n)" using Suc.prems(2) by simp
  note W = bar_flow_write_row [OF IH(2) u(2) this]
  have "(of_nat r :: u32) \<noteq> of_nat n" "unat (of_nat r :: u32) < PWFPGA_FLOW_TABLE_ROWS" if "r < n" for r
    using that Suc.prems(1) small_lfid [of r] small_lfid [of n] by (metis Suc_leD le_trans less_imp_le nat_neq_iff, simp)
  with W IH(3,4) step show ?case by (simp add: less_Suc_eq)
qed

text \<open>A row's bytes are words of the register space, so writes elsewhere keep them.\<close>

lemma row_bytes_get:
  assumes "unat row < PWFPGA_FLOW_TABLE_ROWS"
  shows "row_bytes c row =
    take 244 (concat (map (\<lambda>i. le32_bytes (bar_get c (of_nat (0x6000 + 256 * unat row + 4 * i)))) [0..<61]))"
proof -
  have "bar_get c (of_nat (0x6000 + 256 * unat row + 4 * i)) =
      bar_mem c (unat (bar_csr_off c) + 0x6000 + 256 * unat row + 4 * i)" if "i < 61" for i
  proof -
    have "unat (of_nat (0x6000 + 256 * unat row + 4 * i) :: u32) = 0x6000 + 256 * unat row + 4 * i"
      using assms that by (simp only: unat_of_nat) (simp add: csr_capacities take_bit_nat_eq_self)
    then show ?thesis unfolding bar_get_def reg_at_def by (simp only:) (simp add: add.assoc)
  qed
  then have "map (\<lambda>i. le32_bytes (bar_get c (of_nat (0x6000 + 256 * unat row + 4 * i)))) [0..<61] =
      map le32_bytes (get_words (bar_mem c) (unat (bar_csr_off c) + 0x6000 + 256 * unat row) 61)"
    by (auto simp: get_words_def)
  then show ?thesis by (simp add: row_bytes_def bar_copy_words_out_def)
qed

lemma row_bytes_cong:
  assumes row: "unat row < PWFPGA_FLOW_TABLE_ROWS"
    and same: "\<And>a. csr_word a \<Longrightarrow> 0x6000 \<le> unat a \<Longrightarrow> unat a < 0x9FFC \<Longrightarrow> bar_get c' a = bar_get c a"
  shows "row_bytes c' row = row_bytes c row"
proof -
  have "bar_get c' (of_nat (0x6000 + 256 * unat row + 4 * i)) =
      bar_get c (of_nat (0x6000 + 256 * unat row + 4 * i))" if "i < 61" for i
  proof -
    have u: "unat (of_nat (0x6000 + 256 * unat row + 4 * i) :: u32) = 0x6000 + 256 * unat row + 4 * i"
      using row that by (simp only: unat_of_nat) (simp add: csr_capacities take_bit_nat_eq_self)
    show ?thesis
      by (rule same; unfold csr_word_def u) (use row that in \<open>simp_all add: csr_capacities\<close>)
  qed
  then show ?thesis
    unfolding row_bytes_get [OF row] by (intro arg_cong [where f = "\<lambda>ws. take 244 (concat ws)"]) auto
qed

section \<open>Programming through the BAR\<close>

lemma table_writes_csr:
  assumes "program_in_range cp" and "(a, v) \<in> set (table_writes cp)"
  shows "csr_word a" "unat a < 0x5000"
proof -
  have "unat a \<in> addrs (table_writes cp)" using assms(2) by (force simp: addrs_def)
  with table_writes_addrs [OF assms(1)] table_writes_aligned [OF assms(1)]
  show "csr_word a" "unat a < 0x5000" by (auto simp: csr_word_def)
qed

lemma last_write_in: "last_write ws a = Some v \<Longrightarrow> (a, v) \<in> set ws"
  unfolding last_write_def by (drule map_of_SomeD) simp

lemma bar_program:
  assumes live: "bar_live c" and R: "program_in_range cp" and wf: "\<forall>r\<in>set (cp_flow_rows cp). row_wf r"
    and nlf: "nlf = unat (ucast (bar_get c PWFPGA_REG_NUM_LOCAL_FLOWS) :: u16)"
      "nlf = 0 \<or> length (cp_flow_rows cp) \<le> nlf"
    and run: "pw_program_card_tables (Some bar_ops) c (Some cp) = (c', s)"
  shows "s = PW_OK"
    and "r < nlf \<or> r < length (cp_flow_rows cp) \<Longrightarrow> r < PWFPGA_FLOW_TABLE_ROWS \<Longrightarrow>
      row_bytes c' (of_nat r) = flow_config_bytes (row_image cp r)"
    and "last_write (table_writes cp) a = Some v \<Longrightarrow> bar_get c' a = v"
    and "bar_get c' PWFPGA_REG_FLOW_COMMIT = 1"
    and "bar_live c'"
    and "csr_word a \<Longrightarrow> unat a < 0x6000 \<Longrightarrow> last_write (table_writes cp) a = None \<Longrightarrow> bar_get c' a = bar_get c a"
proof -
  let ?n = "length (cp_flow_rows cp)"
  define N where "N = rows_to_write (Some nlf) ?n"
  have N: "N \<le> PWFPGA_FLOW_TABLE_ROWS" "r < N" if "r < nlf \<or> r < ?n" "r < PWFPGA_FLOW_TABLE_ROWS" for r
    using that by (auto simp: N_def rows_to_write_def Let_def split: if_splits)
  have N': "N \<le> PWFPGA_FLOW_TABLE_ROWS" by (simp add: N_def rows_to_write_def Let_def)
  have wf': "\<forall>r < N. row_wf (row_image cp r)" using wf zero_row_wf by (simp add: row_image_def)
  define c1 where "c1 = fst (write_rows bar_flow_write cp N (c, PW_OK))"
  note W = bar_write_rows [OF live N' wf', of PW_OK, folded c1_def]
  define c2 where "c2 = bar_put c1 PWFPGA_REG_FLOW_COMMIT 1"
  have cw: "csr_word PWFPGA_REG_FLOW_COMMIT" by (simp add: csr_word_def csr_regs)
  have live1: "bar_live c1" using W by blast
  have commit: "bar_flow_commit c1 = (c2, PW_OK)"
    using csr_word_range [OF live1 cw] by (simp add: bar_flow_commit_def c2_def)
  have live2: "bar_live c2" using live1 by (simp add: c2_def bar_put_def bar_live_def)
  have get2: "bar_get c2 a = (if a = PWFPGA_REG_FLOW_COMMIT then 1 else bar_get c1 a)" for a
    by (simp add: c2_def bar_put_def bar_get_def reg_at_def)
  have info: "local_flows bar_ops c = Some nlf" by (simp add: local_flows_def bar_ops_def bar_card_info_def nlf)
  have run': "chk_writes bar_write32 (table_writes cp) (c2, PW_OK) = (c', s)"
  proof -
    have "write_rows bar_flow_write cp (rows_to_write (Some nlf) ?n) (c, PW_OK) = (c1, PW_OK)"
      using W by (simp add: c1_def N_def prod_eq_iff)
    moreover have "\<not> over_capacity (Some nlf) ?n" using nlf(2) by (auto simp: over_capacity_def)
    ultimately show ?thesis
      using run R commit info
      by (simp add: pw_program_card_tables_def pw_program_card_tables_diag_def info Let_def missing_op_def
          bar_ops_def chk_def)
  qed
  have all: "\<forall>(a, v)\<in>set (table_writes cp). csr_word a" using table_writes_csr [OF R] by blast
  note F = bar.chk_writes_final [OF live2 all, where s = PW_OK, unfolded run', simplified]
  show "s = PW_OK" by (rule F(1))
  show "bar_live c'" by (rule F(2))
  show "bar_get c' a = bar_get c a" if "csr_word a" "unat a < 0x6000" "last_write (table_writes cp) a = None"
    using F(3) [OF that(1)] that(2,3) get2 [of a] W by (auto simp: csr_regs)
  show "bar_get c' a = v" if "last_write (table_writes cp) a = Some v"
    using F(3) [of a] table_writes_csr(1) [OF R last_write_in [OF that]] that by simp
  have keep: "bar_get c' a = bar_get c2 a" if "csr_word a" "0x5000 \<le> unat a" for a
  proof -
    have "last_write (table_writes cp) a = None"
      using table_writes_csr(2) [OF R last_write_in] that(2) by (metis not_le option.exhaust)
    with F(3) [OF that(1)] show ?thesis by simp
  qed
  then show "bar_get c' PWFPGA_REG_FLOW_COMMIT = 1" using cw get2 by (simp add: csr_regs)
  show "row_bytes c' (of_nat r) = flow_config_bytes (row_image cp r)"
    if "r < nlf \<or> r < ?n" "r < PWFPGA_FLOW_TABLE_ROWS"
  proof -
    have u: "unat (of_nat r :: u32) < PWFPGA_FLOW_TABLE_ROWS" using that(2) by simp
    have "row_bytes c' (of_nat r) = row_bytes c1 (of_nat r)"
    proof (rule row_bytes_cong [OF u])
      fix a
      assume a: "csr_word a" "0x6000 \<le> unat a" "unat a < 0x9FFC"
      then have "a \<noteq> PWFPGA_REG_FLOW_COMMIT" by (auto simp: csr_regs)
      with keep [of a] a get2 show "bar_get c' a = bar_get c1 a" by simp
    qed
    with W N(2) [OF that] show ?thesis by simp
  qed
qed


section \<open>Properties\<close>

text \<open>
  C33. The CSR range check is exact: for offsets and lengths below \<open>2\<^sup>6\<^sup>2\<close>, as at every call, a window is
  accepted iff it lies inside the mapping, the offset of the CSR window included; so a register access
  succeeds iff its four bytes are mapped.
\<close>

theorem csr_range_exact:
  assumes "unat off < 2 ^ 62" and "unat len < 2 ^ 62"
  shows "(csr_range_ok c off len \<longleftrightarrow> unat (bar_csr_off c) + unat off + unat len \<le> unat (bar_size c)) \<and>
    (bar_read32 c r \<noteq> Inl PW_E_OUT_OF_RANGE \<longleftrightarrow> unat (bar_csr_off c) + unat r + 4 \<le> unat (bar_size c)) \<and>
    (snd (bar_write32 c r v) = PW_OK \<longleftrightarrow> unat (bar_csr_off c) + unat r + 4 \<le> unat (bar_size c))"
proof -
  have o: "unat (bar_csr_off c) < 2 ^ 32" "unat r < 2 ^ 32" using unsigned_less [of "bar_csr_off c"] unsigned_less [of r] by simp_all
  have "csr_range_ok c off len \<longleftrightarrow> unat (bar_csr_off c) + unat off + unat len \<le> unat (bar_size c)"
    by (rule csr_range_ok_iff) (use assms o in simp)
  moreover have "csr_range_ok c (ucast r) 4 \<longleftrightarrow> unat (bar_csr_off c) + unat r + 4 \<le> unat (bar_size c)"
    using csr_range_ok_iff [of c "ucast r" 4] o by simp
  ultimately show ?thesis by (simp add: bar_read32_def bar_write32_def)
qed

theorem csr_range_exact_witness:
  "csr_range_ok \<lparr>bar_mem = \<lambda>_. 0, bar_size = 0x10000, bar_csr_off = 0\<rparr> 0xFFFC 4 \<and>
   \<not> csr_range_ok \<lparr>bar_mem = \<lambda>_. 0, bar_size = 0x10000, bar_csr_off = 0\<rparr> 0xFFFD 4"
  using csr_range_exact [of "0xFFFC" 4 "\<lparr>bar_mem = \<lambda>_. 0, bar_size = 0x10000, bar_csr_off = 0\<rparr>"]
    csr_range_exact [of "0xFFFD" 4 "\<lparr>bar_mem = \<lambda>_. 0, bar_size = 0x10000, bar_csr_off = 0\<rparr>"] by simp

text \<open>
  A flow row round-trips through the BAR: on a mapped card a row is accepted iff it is one of the
  table's rows, an accepted row reads back as its wire image, every other row keeps its bytes, and no
  register outside the table changes.
\<close>

lemma flow_row_roundtrip:
  assumes "bar_live c" and "row_wf f" and "bar_flow_write c row (Some f) = (c', s)"
  shows "(s = PW_OK \<longleftrightarrow> unat row < PWFPGA_FLOW_TABLE_ROWS) \<and>
    (s = PW_OK \<longrightarrow> bar_copy_words_out (bar_mem c') (reg_at c' (ucast (flow_row_base row))) 244 = flow_config_bytes f \<and>
      (\<forall>row'. unat row' < PWFPGA_FLOW_TABLE_ROWS \<and> row' \<noteq> row \<longrightarrow> row_bytes c' row' = row_bytes c row') \<and>
      (\<forall>a. unat a < 0x6000 \<or> 0x9FFC \<le> unat a \<longrightarrow> bar_get c' a = bar_get c a)) \<and>
    (s \<noteq> PW_OK \<longrightarrow> c' = c)"
proof (cases "unat row < PWFPGA_FLOW_TABLE_ROWS")
  case True
  note W = bar_flow_write_row [OF assms(1) True assms(2)]
  have m: "(c', s) = (c\<lparr>bar_mem := bar_copy_words (bar_mem c) (unat (bar_csr_off c) + 0x6000 + 256 * unat row)
         (flow_config_bytes f)\<rparr>, PW_OK)" using bar_flow_write_mem [OF assms(1) True, of f] assms(3) by simp
  have "unat (ucast (flow_row_base row) :: u32) = 0x6000 + 256 * unat row"
    using True by (simp add: unsigned_ucast_eq flow_row_base_nat csr_capacities take_bit_nat_eq_self)
  then have "reg_at c' (ucast (flow_row_base row)) = unat (bar_csr_off c') + 0x6000 + 256 * unat row" by (simp add: reg_at_def)
  then show ?thesis using W True m assms(3) by (auto simp: row_bytes_def)
next
  case False
  then show ?thesis
    using bar_flow_write_ok_iff [OF assms(1), of row f] assms(3)
    by (auto simp: bar_flow_write_def Let_def split: if_splits)
qed

lemma flow_row_roundtrip_witness:
  "\<exists>c'. bar_flow_write \<lparr>bar_mem = \<lambda>_. 0, bar_size = 0x10000, bar_csr_off = 0\<rparr> 63 (Some zero_row) = (c', PW_OK) \<and>
     bar_copy_words_out (bar_mem c') (reg_at c' (ucast (flow_row_base 63))) 244 = flow_config_bytes zero_row"
proof -
  let ?c = "\<lparr>bar_mem = \<lambda>_. 0, bar_size = 0x10000, bar_csr_off = 0\<rparr>"
  have live: "bar_live ?c" by (simp add: bar_live_def)
  have wf: "row_wf zero_row" by (simp add: row_wf_def zero_row_def zero_bytes_def)
  obtain c' s where w: "bar_flow_write ?c 63 (Some zero_row) = (c', s)" by (cases "bar_flow_write ?c 63 (Some zero_row)")
  show ?thesis using flow_row_roundtrip [OF live wf w] w by (auto simp: csr_capacities)
qed

end
