(* ===== verification/PW_Frame_Preview.thy ===== *)
theory PW_Frame_Preview
  imports PW_Compile_Hash
begin

text \<open>
  The generated-frame builder, \<^verbatim>\<open>frame_preview.c\<close>: per-packet field modifiers, headers, tunnel
  headers, test header, the one's-complement checksums, and the length clamp it shares with the
  flow compiler. A byte sequence of \<open>PUT\<close>s is a list; a \<open>PUT\<close> beyond the buffer makes the builder
  return \<open>-1\<close> (\<open>None\<close>).
\<close>

section \<open>Checksums\<close>

definition be16_bytes :: "u16 \<Rightarrow> bytes" where
  "be16_bytes v = [ucast (drop_bit 8 v), ucast v]"

definition be32_bytes :: "u32 \<Rightarrow> bytes" where
  "be32_bytes v = [ucast (drop_bit 24 v), ucast (drop_bit 16 v), ucast (drop_bit 8 v), ucast v]"

fun sum16 :: "u32 \<Rightarrow> bytes \<Rightarrow> u32" where
  "sum16 s [] = s"
| "sum16 s [a] = s + push_bit 8 (ucast a)"
| "sum16 s (a # b # r) = sum16 (s + (push_bit 8 (ucast a) OR ucast b)) r"

lemma split16:
  fixes s :: u32
  shows "unat (drop_bit 16 s) = unat s div 65536" "unat (s AND 0xFFFF) = unat s mod 65536"
proof -
  show "unat (drop_bit 16 s) = unat s div 65536"
    by (simp only: unat_drop_bit_eq) (simp add: drop_bit_eq_div)
  have "s AND 0xFFFF = take_bit 16 s" by (simp add: take_bit_eq_mask mask_eq_exp_minus_1)
  then show "unat (s AND 0xFFFF) = unat s mod 65536"
    by (simp only: unsigned_take_bit_eq) (simp add: take_bit_eq_mod)
qed

lemma fold16_dec:
  fixes s :: u32
  assumes "drop_bit 16 s \<noteq> 0"
  shows "unat ((s AND 0xFFFF) + drop_bit 16 s) < unat s"
proof -
  note d = split16(1) [of s] and t = split16(2) [of s]
  have "unat (drop_bit 16 s) \<noteq> 0" using assms by (simp add: unat_eq_0)
  then have "0 < unat s div 65536" unfolding d by simp
  moreover have "unat s = unat s div 65536 * 65536 + unat s mod 65536" by simp
  ultimately have "unat s mod 65536 + unat s div 65536 < unat s" by linarith
  moreover have "unat ((s AND 0xFFFF) + drop_bit 16 s) \<le> unat (s AND 0xFFFF) + unat (drop_bit 16 s)"
    by (simp add: unat_word_ariths)
  ultimately show ?thesis by (simp add: d t)
qed

function fold16 :: "u32 \<Rightarrow> u32" where
  "fold16 s = (if drop_bit 16 s \<noteq> 0 then fold16 ((s AND 0xFFFF) + drop_bit 16 s) else s)"
  by auto
termination by (relation "measure unat") (use fold16_dec in auto)

declare fold16.simps [simp del]

definition ones_csum :: "bytes \<Rightarrow> u32 \<Rightarrow> u16" where
  "ones_csum p s0 = ucast (NOT (fold16 (sum16 s0 p)))"

definition wbe16 :: "nat \<Rightarrow> u16 \<Rightarrow> bytes \<Rightarrow> bytes" where
  "wbe16 i v b = b[i := ucast (drop_bit 8 v), i + 1 := ucast v]"

section \<open>Field modifiers\<close>

definition pv_scramble :: "u32 \<Rightarrow> u32" where
  "pv_scramble x0 =
     (let x1 = x0 XOR push_bit 13 x0; x2 = x1 XOR drop_bit 17 x1 in x2 XOR push_bit 5 x2)"

definition pv_mod32 :: "u8 \<Rightarrow> u32 \<Rightarrow> u32 \<Rightarrow> u32 \<Rightarrow> u32" where
  "pv_mod32 mode base msk seq =
     (if mode = 0 then base
      else let rot = (if mode = 2 then pv_scramble seq else seq)
           in (base AND NOT msk) OR (rot AND msk))"

definition pv_mod16 :: "u8 \<Rightarrow> u16 \<Rightarrow> u16 \<Rightarrow> u32 \<Rightarrow> u16" where
  "pv_mod16 mode base msk seq =
     (if mode = 0 then base
      else let rot = (if mode = 2 then ucast (drop_bit 3 (pv_scramble seq)) else ucast seq)
           in (base AND NOT msk) OR (rot AND msk))"

definition pv_mod48 :: "u8 \<Rightarrow> u64 \<Rightarrow> u64 \<Rightarrow> u64 \<Rightarrow> u64" where
  "pv_mod48 mode base msk seq =
     (if mode = 0 then base
      else let rnd = push_bit 32 (ucast (pv_scramble (ucast (drop_bit 32 seq)))) OR
                     ucast (pv_scramble (ucast seq));
               rot = (if mode = 2 then rnd AND 0xFFFFFFFFFFFF else seq AND 0xFFFFFFFFFFFF)
           in (base AND NOT msk) OR (rot AND msk))"

definition lsalt :: "u32 list" where "lsalt = [0, 0x9E3779B1, 0x85EBCA77, 0xC2B2AE3D]"
definition loff :: "u32 list" where "loff = [0, 0x10000000, 0x20000000, 0x30000000]"

text \<open>One 32-bit lane of an IPv6 address; lane 0 is the last four bytes.\<close>

definition pv_lane :: "u8 \<Rightarrow> bytes \<Rightarrow> bytes \<Rightarrow> u32 \<Rightarrow> u32 \<Rightarrow> nat \<Rightarrow> u32" where
  "pv_lane mode base msk seq field_salt l =
     (let b = be_word base (3 - l); m = be_word msk (3 - l)
      in if mode = 0 then b
         else let rot = (if mode = 2 then pv_scramble (seq XOR field_salt XOR lsalt ! l) else seq + loff ! l)
              in (b AND NOT m) OR (rot AND m))"

definition pv_mod128 :: "u8 \<Rightarrow> bytes \<Rightarrow> bytes \<Rightarrow> u32 \<Rightarrow> u32 \<Rightarrow> bytes" where
  "pv_mod128 mode base msk seq field_salt =
     concat (map (\<lambda>l. be32_bytes (pv_lane mode base msk seq field_salt l)) [3, 2, 1, 0])"

definition mac_to_u48 :: "bytes \<Rightarrow> u64" where
  "mac_to_u48 m =
     push_bit 40 (ucast (m ! 0)) OR push_bit 32 (ucast (m ! 1)) OR push_bit 24 (ucast (m ! 2)) OR
     push_bit 16 (ucast (m ! 3)) OR push_bit 8 (ucast (m ! 4)) OR ucast (m ! 5)"

definition u48_to_mac :: "u64 \<Rightarrow> bytes" where
  "u48_to_mac v = [ucast (drop_bit 40 v), ucast (drop_bit 32 v), ucast (drop_bit 24 v),
     ucast (drop_bit 16 v), ucast (drop_bit 8 v), ucast v]"

section \<open>The builder\<close>

text \<open>The fields of the packet with a sequence number, after the modifiers.\<close>

record eff_fields =
  ef_dmac :: bytes
  ef_smac :: bytes
  ef_vlan :: u16
  ef_sp :: u16
  ef_dp :: u16
  ef_sip :: u32
  ef_dip :: u32
  ef_v6src :: bytes
  ef_v6dst :: bytes

definition eff :: "pw_flow \<Rightarrow> u32 \<Rightarrow> eff_fields" where
  "eff f seq =
     (let md = flow_mod f; l2 = flow_l2 f
      in \<lparr>ef_dmac = u48_to_mac (pv_mod48 (fm_mode (mod_dst_mac md)) (mac_to_u48 (l2_dst_mac l2))
                       (fm_mask (mod_dst_mac md)) (ucast seq)),
          ef_smac = u48_to_mac (pv_mod48 (fm_mode (mod_src_mac md)) (mac_to_u48 (l2_src_mac l2))
                       (fm_mask (mod_src_mac md)) (ucast seq)),
          ef_vlan = pv_mod16 (fm_mode (mod_vlan md)) (l2_vlan l2 AND 0x0FFF)
                      (ucast (fm_mask (mod_vlan md) AND 0x0FFF)) seq AND 0x0FFF,
          ef_sp = pv_mod16 (fm_mode (mod_udp_src md)) (udp_src_port (flow_udp f))
                    (ucast (fm_mask (mod_udp_src md))) seq,
          ef_dp = pv_mod16 (fm_mode (mod_udp_dst md)) (udp_dst_port (flow_udp f))
                    (ucast (fm_mask (mod_udp_dst md))) seq,
          ef_sip = pv_mod32 (fm_mode (mod_src_ipv4 md)) (v4_src (flow_ipv4 f))
                     (ucast (fm_mask (mod_src_ipv4 md))) seq,
          ef_dip = pv_mod32 (fm_mode (mod_dst_ipv4 md)) (v4_dst (flow_ipv4 f))
                     (ucast (fm_mask (mod_dst_ipv4 md))) seq,
          ef_v6src = pv_mod128 (fm_mode (mod_src_ipv4 md)) (v6_src (flow_ipv6 f))
                       (mod_src_ipv6_mask md) seq 0,
          ef_v6dst = pv_mod128 (fm_mode (mod_dst_ipv4 md)) (v6_dst (flow_ipv6 f))
                       (mod_dst_ipv6_mask md) seq 0x5A5A5A5A\<rparr>)"

definition pv_is_tcp :: "pw_flow \<Rightarrow> bool" where
  "pv_is_tcp f \<longleftrightarrow> udp_l4_proto (flow_udp f) = 6"

definition pv_encap :: "pw_flow \<Rightarrow> bool" where
  "pv_encap f \<longleftrightarrow> enc_present (flow_encap f) \<and> tr_frame_template (flow_traffic f) \<noteq> PW_FRAME_TEMPLATE_L2RAW"

definition pv_outer_v6 :: "pw_flow \<Rightarrow> bool" where
  "pv_outer_v6 f \<longleftrightarrow> pv_encap f \<and> v6_present (enc_outer_ipv6 (flow_encap f))"

definition pv_inner_et :: "pw_flow \<Rightarrow> u16" where
  "pv_inner_et f = (if v6_present (flow_ipv6 f) then 0x86DD else 0x0800)"

definition pv_frame_len :: "pw_flow \<Rightarrow> nat" where
  "pv_frame_len f =
     (let t = flow_traffic f
      in unat (if tr_frame_len_fixed_set t then tr_frame_len_fixed t else tr_frame_len_min t))"

definition pv_l4hl :: "pw_flow \<Rightarrow> nat" where
  "pv_l4hl f = (if tr_frame_template (flow_traffic f) = PW_FRAME_TEMPLATE_L3RAW then 0
                else if pv_is_tcp f then 20 else 8)"

definition pv_tun_len :: "pw_flow \<Rightarrow> nat" where
  "pv_tun_len f = (if enc_type (flow_encap f) = PW_ENCAP_GRE then 4
                   else if enc_type (flow_encap f) = PW_ENCAP_ETHERIP then 2 else 0)"

definition pv_inner_eth :: "pw_flow \<Rightarrow> nat" where
  "pv_inner_eth f = (if enc_type (flow_encap f) = PW_ENCAP_ETHERIP then 14 else 0)"

definition pv_inner_iphl :: "pw_flow \<Rightarrow> nat" where
  "pv_inner_iphl f = (if v6_present (flow_ipv6 f) then 40 else 20)"

text \<open>Ethernet and VLAN header.\<close>

definition pv_eth :: "pw_flow \<Rightarrow> eff_fields \<Rightarrow> bytes" where
  "pv_eth f e =
     ef_dmac e @ ef_smac e @
     (if l2_vlan_set (flow_l2 f)
      then [0x81, 0x00] @ be16_bytes (push_bit 13 (ucast (l2_pcp (flow_l2 f) AND 7)) OR (ef_vlan e AND 0x0FFF))
      else [])"

definition pv_prefix :: "pw_flow \<Rightarrow> eff_fields \<Rightarrow> nat" where
  "pv_prefix f e =
     length (pv_eth f e) + 2 +
     (if pv_encap f then (if pv_outer_v6 f then 40 else 20) + pv_tun_len f + pv_inner_eth f else 0)"

definition pv_min_frame :: "pw_flow \<Rightarrow> eff_fields \<Rightarrow> nat" where
  "pv_min_frame f e =
     pv_prefix f e + pv_inner_iphl f + pv_l4hl f +
     (if tr_frame_template (flow_traffic f) = PW_FRAME_TEMPLATE_TEST then 32 else 0)"

text \<open>IP headers; the IPv4 header carries its checksum.\<close>

definition v4_header0 :: "u8 \<Rightarrow> u16 \<Rightarrow> u8 \<Rightarrow> u8 \<Rightarrow> u32 \<Rightarrow> u32 \<Rightarrow> bytes" where
  "v4_header0 dscp tot ttl proto src dst =
     [0x45, push_bit 2 dscp] @ be16_bytes tot @ [0, 0, 0x40, 0, if ttl \<noteq> 0 then ttl else 64, proto, 0, 0] @
     be32_bytes src @ be32_bytes dst"

definition v4_header :: "u8 \<Rightarrow> u16 \<Rightarrow> u8 \<Rightarrow> u8 \<Rightarrow> u32 \<Rightarrow> u32 \<Rightarrow> bytes" where
  "v4_header dscp tot ttl proto src dst =
     (let h = v4_header0 dscp tot ttl proto src dst in wbe16 10 (ones_csum h 0) h)"

definition v6_header :: "u8 \<Rightarrow> u16 \<Rightarrow> u8 \<Rightarrow> u8 \<Rightarrow> bytes \<Rightarrow> bytes \<Rightarrow> bytes" where
  "v6_header dscp pl proto hop src dst =
     [0x60 OR drop_bit 2 dscp, push_bit 6 (dscp AND 3), 0, 0] @ be16_bytes pl @
     [proto, if hop \<noteq> 0 then hop else 64] @ src @ dst"

text \<open>Outer IP and tunnel header, or the inner ethertype.\<close>

definition pv_outer :: "pw_flow \<Rightarrow> nat \<Rightarrow> bytes" where
  "pv_outer f inner_payload =
     (if pv_encap f then
        let enc = flow_encap f;
            oproto = (if enc_type enc = PW_ENCAP_IPIP then (if v6_present (flow_ipv6 f) then 41 else 4)
                      else if enc_type enc = PW_ENCAP_GRE then 47 else 97);
            o_pl = pv_tun_len f + pv_inner_eth f + pv_inner_iphl f + pv_l4hl f + inner_payload;
            idm = (if enc_inner_mac_set enc then enc_inner_dst_mac enc else l2_dst_mac (flow_l2 f));
            ism = (if enc_inner_mac_set enc then enc_inner_src_mac enc else l2_src_mac (flow_l2 f))
        in (if pv_outer_v6 f
            then let x = enc_outer_ipv6 enc
                 in [0x86, 0xDD] @ v6_header (v6_dscp x) (of_nat o_pl) oproto (v6_hop_limit x) (v6_src x) (v6_dst x)
            else let x = enc_outer_ipv4 enc
                 in [0x08, 0x00] @ v4_header (v4_dscp x) (of_nat (20 + o_pl)) (v4_ttl x) oproto (v4_src x) (v4_dst x)) @
           (if enc_type enc = PW_ENCAP_GRE then [0, 0] @ be16_bytes (pv_inner_et f)
            else if enc_type enc = PW_ENCAP_ETHERIP then [0x30, 0x00] @ idm @ ism @ be16_bytes (pv_inner_et f)
            else [])
      else be16_bytes (pv_inner_et f))"

definition pv_inner_ip :: "pw_flow \<Rightarrow> eff_fields \<Rightarrow> nat \<Rightarrow> bytes" where
  "pv_inner_ip f e ip_pl =
     (let proto = (if tr_frame_template (flow_traffic f) = PW_FRAME_TEMPLATE_L3RAW then 0xFD
                   else if pv_is_tcp f then 6 else 17)
      in if v6_present (flow_ipv6 f)
         then v6_header (v6_dscp (flow_ipv6 f)) (of_nat ip_pl) proto (v6_hop_limit (flow_ipv6 f)) (ef_v6src e) (ef_v6dst e)
         else v4_header (v4_dscp (flow_ipv4 f)) (of_nat (20 + ip_pl)) (v4_ttl (flow_ipv4 f)) proto (ef_sip e) (ef_dip e))"

definition pv_l4 :: "pw_flow \<Rightarrow> eff_fields \<Rightarrow> u32 \<Rightarrow> nat \<Rightarrow> bytes" where
  "pv_l4 f e seq l4_len =
     be16_bytes (ef_sp e) @ be16_bytes (ef_dp e) @
     (if pv_is_tcp f
      then be32_bytes seq @ [0, 0, 0, 0] @
           [0x50, if udp_tcp_flags (flow_udp f) \<noteq> 0 then udp_tcp_flags (flow_udp f) else 0x02] @
           [0xFF, 0xFF, 0, 0, 0, 0]
      else be16_bytes (of_nat l4_len) @ [0, 0])"

definition pv_test_header :: "pw_flow \<Rightarrow> u32 \<Rightarrow> bytes" where
  "pv_test_header f seq =
     [0xA5, 0x02, 0x7E, 0x57, 0x00, 0x01, 0, 0] @ be32_bytes (flow_id f) @ [0, 0, 0, 0] @ be32_bytes seq @
     replicate 12 0"

text \<open>The pseudo-header sum.\<close>

definition pv_pseudo :: "pw_flow \<Rightarrow> eff_fields \<Rightarrow> nat \<Rightarrow> u32" where
  "pv_pseudo f e l4_len =
     (let s0 = (if pv_is_tcp f then 6 else 17) + of_nat l4_len
      in if v6_present (flow_ipv6 f)
         then foldl (\<lambda>s i. s + (if odd i then ucast (ef_v6dst e ! i) else push_bit 8 (ucast (ef_v6dst e ! i))))
                (foldl (\<lambda>s i. s + (if odd i then ucast (ef_v6src e ! i) else push_bit 8 (ucast (ef_v6src e ! i))))
                   s0 [0..<16]) [0..<16]
         else s0 + (drop_bit 16 (ef_sip e) AND 0xFFFF) + (ef_sip e AND 0xFFFF) +
              (drop_bit 16 (ef_dip e) AND 0xFFFF) + (ef_dip e AND 0xFFFF))"

text \<open>The buffer \<open>hdr\<close> has been stored into: \<open>memset\<close> to zero and the bytes put.\<close>

definition in_buf :: "nat \<Rightarrow> bytes \<Rightarrow> bytes" where
  "in_buf cap hdr = hdr @ replicate (cap - length hdr) 0"

text \<open>Length, bytes built, buffer; \<open>None\<close> is the return value \<open>-1\<close>.\<close>

definition pw_flow_build_preview :: "pw_flow \<Rightarrow> u32 \<Rightarrow> nat \<Rightarrow> (nat \<times> nat \<times> bytes) option" where
  "pw_flow_build_preview f seq cap =
     (let tmpl = tr_frame_template (flow_traffic f); e = eff f seq; len0 = pv_frame_len f
      in if len0 < 14 \<or> len0 > 9100 \<or> len0 > cap then None
         else if tmpl = PW_FRAME_TEMPLATE_L2RAW then
           let et = (if l2_ethertype (flow_l2 f) \<noteq> 0 then l2_ethertype (flow_l2 f) else pv_inner_et f);
               hdr = pv_eth f e @ be16_bytes et
           in if length hdr > cap then None else Some (len0, length hdr, in_buf cap hdr)
         else
           let len = (if len0 < pv_min_frame f e then pv_min_frame f e else len0)
           in if len > cap then None
              else
                let inner_payload = len - pv_prefix f e - pv_inner_iphl f - pv_l4hl f;
                    l4_len = pv_l4hl f + inner_payload;
                    ip_pl = (if tmpl = PW_FRAME_TEMPLATE_L3RAW then inner_payload else l4_len);
                    h3 = pv_eth f e @ pv_outer f inner_payload @ pv_inner_ip f e ip_pl
                in if length h3 > cap then None
                   else if tmpl = PW_FRAME_TEMPLATE_L3RAW then Some (len, length h3, in_buf cap h3)
                   else
                     let h4 = h3 @ pv_l4 f e seq l4_len;
                         h5 = h4 @ (if tmpl = PW_FRAME_TEMPLATE_TEST then pv_test_header f seq else []);
                         buf = in_buf cap h5; l4 = length h3;
                         c = ones_csum (take (len - l4) (drop l4 buf)) (pv_pseudo f e l4_len)
                     in if length h4 > cap then None
                        else Some (len, length h5, wbe16 (if pv_is_tcp f then l4 + 16 else l4 + 6) c buf))"

section \<open>The checksum is correct\<close>

text \<open>The sum as a number, when it does not wrap.\<close>

lemma u8_less: "unat (a :: u8) < 256"
  using unsigned_less [of a] by simp

lemma unat_u8_u32: "unat (ucast (a :: u8) :: u32) = unat a"
  using u8_less [of a] by (simp add: unsigned_ucast_eq take_bit_nat_eq_self)

fun sum_nat :: "bytes \<Rightarrow> nat" where
  "sum_nat [] = 0"
| "sum_nat [a] = 256 * unat a"
| "sum_nat (a # b # r) = 256 * unat a + unat b + sum_nat r"

lemma sum_nat_bound: "sum_nat p \<le> 65535 * ((length p + 1) div 2)"
proof (induction p rule: sum_nat.induct)
  case (2 a)
  have "unat a < 256" by (rule u8_less)
  then show ?case by simp
next
  case (3 a b r)
  have "unat a < 256" "unat b < 256" by (rule u8_less)+
  moreover have "(length (a # b # r) + 1) div 2 = (length r + 1) div 2 + 1" by simp
  ultimately show ?case using "3.IH" by simp
qed simp

lemma pair_nat: "unat ((push_bit 8 (ucast (a :: u8)) OR ucast (b :: u8)) :: u32) = 256 * unat a + unat b"
proof -
  have "(push_bit 8 (ucast a) OR ucast b :: u32) = push_bit 8 (ucast a) + ucast b"
    by (rule disjunctive_add [symmetric]) (auto simp: bit_simps dest: bit_imp_le_length)
  moreover have "(push_bit 8 (ucast a) :: u32) = 256 * ucast a" by (simp add: push_bit_eq_mult)
  moreover have "unat (ucast a :: u32) = unat a" "unat (ucast b :: u32) = unat b"
    by (rule unat_u8_u32)+
  moreover have "unat a < 256" "unat b < 256" by (rule u8_less)+
  ultimately show ?thesis by (simp add: unat_word_ariths)
qed

lemma sum16_nat: "unat s + sum_nat p < 2 ^ 32 \<Longrightarrow> unat (sum16 s p) = unat s + sum_nat p"
proof (induction s p rule: sum16.induct)
  case (2 s a)
  then show ?case using pair_nat [of a 0] by (simp add: unat_word_ariths)
next
  case (3 s a b r)
  let ?w = "(push_bit 8 (ucast a) OR ucast b) :: u32"
  have w: "unat ?w = 256 * unat a + unat b" by (rule pair_nat)
  then have s: "unat (s + ?w) = unat s + (256 * unat a + unat b)"
    using "3.prems" by (simp add: unat_word_ariths)
  have "unat (s + ?w) + sum_nat r < 2 ^ 32" unfolding s using "3.prems" by simp
  from "3.IH" [OF this] show ?case unfolding sum16.simps sum_nat.simps s by simp
qed simp

text \<open>Folding keeps the residue modulo 65535, ends below 65536, and is zero only for zero.\<close>

lemma fold16_nat:
  "unat (fold16 s) < 65536 \<and> unat (fold16 s) mod 65535 = unat s mod 65535 \<and> (fold16 s = 0 \<longleftrightarrow> s = 0)"
proof (induction s rule: fold16.induct)
  case (1 s)
  note d = split16(1) [of s] and t = split16(2) [of s]
  show ?case
  proof (cases "drop_bit 16 s = 0")
    case True
    then have "unat s div 65536 = 0" using d by simp
    then have "unat s < 65536" by (simp add: div_eq_0_iff)
    then show ?thesis using True by (subst (1 2 3) fold16.simps) simp
  next
    case False
    have lt: "unat s < 2 ^ 32" using unsigned_less [of s] by simp
    have e: "unat ((s AND 0xFFFF) + drop_bit 16 s) = unat s mod 65536 + unat s div 65536"
      using lt by (simp add: unat_word_ariths d t)
    have "s \<noteq> 0" using False by auto
    then have ne: "unat s \<noteq> 0" by (simp add: unat_eq_0)
    have "unat s = unat s div 65536 * 65535 + (unat s mod 65536 + unat s div 65536)"
      using div_mult_mod_eq [of "unat s" 65536] by linarith
    then have m: "(unat s mod 65536 + unat s div 65536) mod 65535 = unat s mod 65535"
      by (metis mod_mult_self3)
    have "(s AND 0xFFFF) + drop_bit 16 s \<noteq> 0"
    proof
      assume "(s AND 0xFFFF) + drop_bit 16 s = 0"
      with e have "unat s mod 65536 + unat s div 65536 = 0" by simp
      with False d show False by (simp add: unat_eq_0)
    qed
    then show ?thesis
      using False "1.IH" [OF False] m e ne by (subst (1 2 3) fold16.simps) auto
  qed
qed

lemma csum_nat: "unat (ones_csum p s) = 65535 - unat (fold16 (sum16 s p))"
proof -
  let ?f = "fold16 (sum16 s p)"
  have f: "unat ?f < 65536" using fold16_nat by blast
  have "ucast (NOT ?f) = (NOT (ucast ?f) :: u16)" by (rule bit_word_eqI) (simp add: bit_simps)
  moreover have "unat (ucast ?f :: u16) = unat ?f" using f by (simp add: unsigned_ucast_eq take_bit_nat_eq_self)
  moreover have "unat (NOT x) = 65535 - unat x" for x :: u16
  proof -
    have "NOT x = 0xFFFF - x" by (simp add: not_eq_complement)
    moreover have "x \<le> 0xFFFF" using unsigned_less [of x, where ?'a = nat] by (simp add: word_le_nat_alt)
    ultimately show ?thesis by (simp add: unat_sub)
  qed
  ultimately show ?thesis by (simp add: ones_csum_def)
qed


lemma sum_nat_append: "even (length xs) \<Longrightarrow> sum_nat (xs @ ys) = sum_nat xs + sum_nat ys"
  by (induction xs rule: sum_nat.induct) auto

lemma wbe16_split:
  assumes "i + 1 < length p"
  shows "wbe16 i v p = take i p @ [ucast (drop_bit 8 v), ucast v] @ drop (i + 2) p"
    and "p = take i p @ [p ! i, p ! (i + 1)] @ drop (i + 2) p"
proof -
  show p: "p = take i p @ [p ! i, p ! (i + 1)] @ drop (i + 2) p"
    using assms by (metis (no_types, lifting) Cons_nth_drop_Suc Suc_eq_plus1 Suc_lessD add_2_eq_Suc'
        append_Cons append_Nil append_take_drop_id)
  have t: "length (take i p) = i" using assms by simp
  show "wbe16 i v p = take i p @ [ucast (drop_bit 8 v), ucast v] @ drop (i + 2) p"
    unfolding wbe16_def using t by (subst p) (simp add: list_update_append)
qed

lemma halves_nat: "256 * unat (ucast (drop_bit 8 v) :: u8) + unat (ucast (v :: u16) :: u8) = unat v"
proof -
  have "unat v < 65536" using unsigned_less [of v, where ?'a = nat] by simp
  then have "unat v div 256 < 256" by (simp add: less_mult_imp_div_less)
  moreover have "unat (drop_bit 8 v) = unat v div 256" by (simp only: unat_drop_bit_eq) (simp add: drop_bit_eq_div)
  ultimately have "unat (ucast (drop_bit 8 v) :: u8) = unat v div 256"
    by (simp add: unsigned_ucast_eq take_bit_nat_eq_self)
  moreover have "unat (ucast v :: u8) = unat v mod 256" by (simp add: unsigned_ucast_eq take_bit_eq_mod)
  ultimately show ?thesis by simp
qed

lemma sum_nat_wbe16:
  assumes "even i" "i + 1 < length p" "p ! i = 0" "p ! (i + 1) = 0"
  shows "sum_nat (wbe16 i v p) = sum_nat p + unat v"
proof -
  have e: "even (length (take i p))" using assms(1,2) by simp
  have "sum_nat p = sum_nat (take i p) + sum_nat (drop (i + 2) p)"
    using assms(3,4) e by (subst wbe16_split(2) [OF assms(2)]) (simp add: sum_nat_append)
  moreover have "sum_nat (wbe16 i v p) = sum_nat (take i p) + unat v + sum_nat (drop (i + 2) p)"
    unfolding wbe16_split(1) [OF assms(2)] using e halves_nat [of v] by (simp add: sum_nat_append)
  ultimately show ?thesis by simp
qed

lemma only_multiple:
  fixes x :: nat
  assumes "x mod 65535 = 0" "x \<noteq> 0" "x < 65536"
  shows "x = 65535"
proof -
  obtain k where k: "x = 65535 * k" using assms(1) by (auto simp: mod_eq_0_iff_dvd)
  with assms(2,3) have "k = 1" by simp
  with k show ?thesis by simp
qed

text \<open>Writing the checksum into its zeroed field makes the sum over the area verify.\<close>

lemma csum_verifies:
  assumes "even i" "i + 1 < length p" "p ! i = 0" "p ! (i + 1) = 0"
    and fits: "unat s + 65535 * ((length p + 1) div 2) < 2 ^ 32"
  shows "ones_csum (wbe16 i (ones_csum p s) p) s = 0"
proof -
  let ?c = "ones_csum p s"
  define F where "F = unat (fold16 (sum16 s p))"
  define S where "S = unat s + sum_nat p"
  have S: "unat (sum16 s p) = S" unfolding S_def
    by (rule sum16_nat) (use sum_nat_bound [of p] fits in linarith)
  have F: "F < 65536" "F mod 65535 = S mod 65535" "F = 0 \<longleftrightarrow> S = 0"
    using fold16_nat [of "sum16 s p"] unat_eq_0 S by (auto simp: F_def)
  have c: "unat ?c = 65535 - F" by (simp add: csum_nat F_def)
  let ?q = "wbe16 i ?c p"
  have q: "sum_nat ?q = sum_nat p + (65535 - F)" unfolding c [symmetric] by (rule sum_nat_wbe16 [OF assms(1-4)])
  have "unat (sum16 s ?q) = unat s + sum_nat ?q"
    by (rule sum16_nat) (use sum_nat_bound [of ?q] fits in \<open>simp add: wbe16_def\<close>)
  then have S': "unat (sum16 s ?q) = S + (65535 - F)" by (simp add: q S_def)
  have "(S + (65535 - F)) mod 65535 = 0"
  proof -
    have "(S + (65535 - F)) mod 65535 = (F + (65535 - F)) mod 65535" using F(2) by (metis mod_add_left_eq)
    also have "\<dots> = 0" using F(1) by simp
    finally show ?thesis .
  qed
  moreover have "S + (65535 - F) \<noteq> 0" using F by auto
  ultimately have "unat (fold16 (sum16 s ?q)) mod 65535 = 0" "fold16 (sum16 s ?q) \<noteq> 0"
    using fold16_nat [of "sum16 s ?q"] S' unat_eq_0 by auto
  moreover have "unat (fold16 (sum16 s ?q)) < 65536" using fold16_nat by blast
  ultimately have "unat (fold16 (sum16 s ?q)) = 65535"
    by (intro only_multiple) (simp_all add: unat_eq_0)
  then have "unat (ones_csum ?q s) = 0" by (simp add: csum_nat)
  then show ?thesis by (simp add: unat_eq_0)
qed


section \<open>Shape of the frame\<close>

text \<open>The arrays have their sizes, and a raw template has no encapsulation (as validated).\<close>

definition pv_wf :: "pw_flow \<Rightarrow> bool" where
  "pv_wf f \<longleftrightarrow>
     length (l2_src_mac (flow_l2 f)) = 6 \<and> length (l2_dst_mac (flow_l2 f)) = 6 \<and>
     length (enc_inner_src_mac (flow_encap f)) = 6 \<and> length (enc_inner_dst_mac (flow_encap f)) = 6 \<and>
     length (v6_src (enc_outer_ipv6 (flow_encap f))) = 16 \<and> length (v6_dst (enc_outer_ipv6 (flow_encap f))) = 16 \<and>
     (tr_frame_template (flow_traffic f) \<noteq> PW_FRAME_TEMPLATE_TEST \<longrightarrow> \<not> enc_present (flow_encap f))"

lemma be_bytes_length [simp]: "length (be16_bytes v) = 2" "length (be32_bytes w) = 4"
  by (simp_all add: be16_bytes_def be32_bytes_def)

lemma pv_lengths [simp]:
  "length (u48_to_mac v) = 6" "length (pv_mod128 m b k r t) = 16" "length (wbe16 i c p) = length p"
  "length (v4_header0 d w l pr x y) = 20" "length (v4_header d w l pr x y) = 20"
  "length (pv_test_header f q) = 32"
  by (simp_all add: u48_to_mac_def pv_mod128_def wbe16_def v4_header0_def v4_header_def Let_def pv_test_header_def)

lemma eff_lengths [simp]:
  "length (ef_dmac (eff f q)) = 6" "length (ef_smac (eff f q)) = 6"
  "length (ef_v6src (eff f q)) = 16" "length (ef_v6dst (eff f q)) = 16"
  by (simp_all add: eff_def Let_def)

lemma pv_eth_length: "length (pv_eth f (eff f q)) = 12 + (if l2_vlan_set (flow_l2 f) then 4 else 0)"
  by (simp add: pv_eth_def)

lemma pv_outer_length:
  "pv_wf f \<Longrightarrow> length (pv_eth f e) + length (pv_outer f n) = pv_prefix f e"
  by (simp add: pv_wf_def pv_outer_def pv_prefix_def pv_tun_len_def pv_inner_eth_def v6_header_def Let_def pw_enums)

lemma pv_inner_ip_length: "length (pv_inner_ip f (eff f q) n) = pv_inner_iphl f"
  by (simp add: pv_inner_ip_def pv_inner_iphl_def v6_header_def Let_def)

lemma pv_l4_length:
  "tr_frame_template (flow_traffic f) \<noteq> PW_FRAME_TEMPLATE_L3RAW \<Longrightarrow> length (pv_l4 f e q n) = pv_l4hl f"
  by (simp add: pv_l4_def pv_l4hl_def)

text \<open>The clamp of the preview is the clamp of the flow compiler.\<close>

lemma pv_min_frame_legal:
  assumes "pv_wf f" and "tr_frame_template (flow_traffic f) \<noteq> PW_FRAME_TEMPLATE_L2RAW"
  shows "pv_min_frame f (eff f q) = pw_flow_min_legal_frame f"
  using assms
  by (auto simp: pv_min_frame_def pv_prefix_def pv_eth_length pw_flow_min_legal_frame_def pv_wf_def pv_encap_def
      pv_outer_v6_def pv_tun_len_def pv_inner_eth_def pv_inner_iphl_def pv_l4hl_def pv_is_tcp_def Let_def pw_enums
      PWFPGA_ENCAP_GRE_def PWFPGA_ENCAP_ETHERIP_def)

definition pv_len :: "pw_flow \<Rightarrow> nat" where
  "pv_len f = max (pv_frame_len f) (pw_flow_min_legal_frame f)"

text \<open>The header bytes of a frame, and the frame before its L4 checksum.\<close>

definition pv_payload :: "pw_flow \<Rightarrow> eff_fields \<Rightarrow> nat" where
  "pv_payload f e = pv_len f - pv_prefix f e - pv_inner_iphl f - pv_l4hl f"

definition pv_h3 :: "pw_flow \<Rightarrow> eff_fields \<Rightarrow> bytes" where
  "pv_h3 f e =
     pv_eth f e @ pv_outer f (pv_payload f e) @
     pv_inner_ip f e (if tr_frame_template (flow_traffic f) = PW_FRAME_TEMPLATE_L3RAW then pv_payload f e
                      else pv_l4hl f + pv_payload f e)"

definition pv_h5 :: "pw_flow \<Rightarrow> u32 \<Rightarrow> bytes" where
  "pv_h5 f q =
     pv_h3 f (eff f q) @ pv_l4 f (eff f q) q (pv_l4hl f + pv_payload f (eff f q)) @
     (if tr_frame_template (flow_traffic f) = PW_FRAME_TEMPLATE_TEST then pv_test_header f q else [])"

definition pv_csum_at :: "pw_flow \<Rightarrow> eff_fields \<Rightarrow> nat" where
  "pv_csum_at f e = length (pv_h3 f e) + (if pv_is_tcp f then 16 else 6)"

definition pv_l4_csum :: "pw_flow \<Rightarrow> u32 \<Rightarrow> nat \<Rightarrow> u16" where
  "pv_l4_csum f q cap =
     ones_csum (take (pv_len f - length (pv_h3 f (eff f q))) (drop (length (pv_h3 f (eff f q))) (in_buf cap (pv_h5 f q))))
       (pv_pseudo f (eff f q) (pv_l4hl f + pv_payload f (eff f q)))"

lemma pv_h3_length:
  "pv_wf f \<Longrightarrow> length (pv_h3 f (eff f q)) = pv_prefix f (eff f q) + pv_inner_iphl f"
  using pv_outer_length [of f "eff f q" "pv_payload f (eff f q)"] by (simp add: pv_h3_def pv_inner_ip_length)

lemma pv_h5_length:
  assumes "pv_wf f" "tr_frame_template (flow_traffic f) \<notin> {PW_FRAME_TEMPLATE_L2RAW, PW_FRAME_TEMPLATE_L3RAW}"
  shows "length (pv_h5 f q) = pw_flow_min_legal_frame f"
  using assms pv_min_frame_legal [OF assms(1), of q, symmetric]
  by (auto simp: pv_h5_def pv_h3_length pv_l4_length pv_min_frame_def pw_enums)

lemma preview_cases:
  assumes wf: "pv_wf f" and t: "tr_frame_template (flow_traffic f) \<noteq> PW_FRAME_TEMPLATE_L2RAW"
  shows "pw_flow_build_preview f q cap =
    (if pv_frame_len f < 14 \<or> pv_frame_len f > 9100 \<or> pv_len f > cap then None
     else if tr_frame_template (flow_traffic f) = PW_FRAME_TEMPLATE_L3RAW
     then Some (pv_len f, length (pv_h3 f (eff f q)), in_buf cap (pv_h3 f (eff f q)))
     else Some (pv_len f, length (pv_h5 f q),
            wbe16 (pv_csum_at f (eff f q)) (pv_l4_csum f q cap) (in_buf cap (pv_h5 f q))))"
proof (cases "pv_frame_len f < 14 \<or> pv_frame_len f > 9100 \<or> pv_len f > cap")
  case True
  then have "pv_frame_len f < 14 \<or> pv_frame_len f > 9100 \<or> pv_frame_len f > cap \<or>
      pw_flow_min_legal_frame f > cap" by (auto simp: pv_len_def)
  then show ?thesis
    using t True by (auto simp: pw_flow_build_preview_def pv_min_frame_legal [OF wf t] Let_def pv_len_def)
next
  case False
  let ?e = "eff f q"
  have min: "pv_min_frame f ?e = pw_flow_min_legal_frame f" by (rule pv_min_frame_legal [OF wf t])
  have len: "(if pv_frame_len f < pv_min_frame f ?e then pv_min_frame f ?e else pv_frame_len f) = pv_len f"
    by (simp add: min pv_len_def max_def)
  have h3: "length (pv_h3 f ?e) \<le> cap"
    using False pv_h3_length [OF wf, of q] min by (auto simp: pv_min_frame_def pv_len_def)
  have h4: "length (pv_h3 f ?e) + length (pv_l4 f ?e q n) \<le> cap"
    if "tr_frame_template (flow_traffic f) \<noteq> PW_FRAME_TEMPLATE_L3RAW" for n
    using False pv_h3_length [OF wf, of q] min pv_l4_length [OF that, of ?e q n]
    by (auto simp: pv_min_frame_def pv_len_def)
  have g: "\<not> (pv_frame_len f < 14 \<or> pv_frame_len f > 9100 \<or> pv_frame_len f > cap)" "\<not> pv_len f > cap"
    using False by (auto simp: pv_len_def)
  show ?thesis
    unfolding pw_flow_build_preview_def Let_def len pv_payload_def [symmetric] pv_h3_def [symmetric]
    using t g h3 h4 [of "pv_l4hl f + pv_payload f ?e"]
    by (cases "tr_frame_template (flow_traffic f) = PW_FRAME_TEMPLATE_L3RAW") (auto simp: False pv_h5_def pv_csum_at_def pv_l4_csum_def not_less)
qed


section \<open>The checksums verify\<close>

lemma v4_header_verifies: "ones_csum (v4_header d w l pr x y) 0 = 0"
proof -
  let ?h = "v4_header0 d w l pr x y"
  have "?h ! 10 = 0 \<and> ?h ! (10 + 1) = 0" by (simp add: v4_header0_def be16_bytes_def)
  then show ?thesis unfolding v4_header_def Let_def by (intro csum_verifies) simp_all
qed

lemma wbe16_drop_take:
  assumes "a \<le> i" "i + 1 < a + n" "a + n \<le> length b"
  shows "take n (drop a (wbe16 i c b)) = wbe16 (i - a) c (take n (drop a b))"
  using assms by (auto simp: wbe16_def drop_update_swap take_update_swap Suc_diff_le)

lemma wbe16_frame: "a + n \<le> i \<Longrightarrow> take n (drop a (wbe16 i c b)) = take n (drop a b)"
  by (auto simp: wbe16_def drop_update_swap)

lemma unat_add_le: "unat (a + b) \<le> unat a + unat (b :: u32)"
  by (simp add: unat_word_ariths)

lemma pseudo_bytes_le: "unat (if odd i then ucast (b :: u8) else push_bit 8 (ucast b) :: u32) \<le> 65535"
proof -
  have "unat (ucast b :: u32) \<le> 65535" using u8_less [of b] by (simp add: unat_u8_u32)
  moreover have "unat (push_bit 8 (ucast b) :: u32) \<le> 65535" using pair_nat [of b 0] u8_less [of b] by simp
  ultimately show ?thesis by simp
qed

lemma foldl_pseudo_le:
  "unat (foldl (\<lambda>s i. s + (if odd i then ucast (v ! i :: u8) else push_bit 8 (ucast (v ! i))) :: u32) s xs)
     \<le> unat s + 65535 * length xs"
proof (induction xs arbitrary: s)
  case (Cons i xs)
  let ?w = "if odd i then ucast (v ! i :: u8) else push_bit 8 (ucast (v ! i)) :: u32"
  have "unat (s + ?w) \<le> unat s + 65535"
    using unat_add_le [of s ?w] pseudo_bytes_le [of i "v ! i"] by linarith
  with Cons.IH [of "s + ?w"] show ?case by simp
qed simp

lemma mask16_le: "unat (x AND 0xFFFF :: u32) \<le> 65535"
  using split16(2) [of x] by simp

lemma pseudo_le: "unat (pv_pseudo f e n) \<le> 17 + n + 65535 * 32"
proof -
  define s0 where "s0 = (if pv_is_tcp f then 6 else 17) + (of_nat n :: u32)"
  have "unat (of_nat n :: u32) \<le> n" by (simp add: unat_of_nat)
  then have s0: "unat s0 \<le> 17 + n"
    using unat_add_le [of "if pv_is_tcp f then 6 else 17" "of_nat n"] by (simp add: s0_def split: if_splits)
  show ?thesis
  proof (cases "v6_present (flow_ipv6 f)")
    case True
    let ?g = "\<lambda>v s i. s + (if odd i then ucast (v ! i :: u8) else push_bit 8 (ucast (v ! i))) :: u32"
    define s1 where "s1 = foldl (?g (ef_v6src e)) s0 [0..<16]"
    have "unat s1 \<le> unat s0 + 65535 * 16" using foldl_pseudo_le [of "ef_v6src e" s0 "[0..<16]"] by (simp add: s1_def)
    moreover have "unat (foldl (?g (ef_v6dst e)) s1 [0..<16]) \<le> unat s1 + 65535 * 16"
      using foldl_pseudo_le [of "ef_v6dst e" s1 "[0..<16]"] by simp
    moreover have "pv_pseudo f e n = foldl (?g (ef_v6dst e)) s1 [0..<16]"
      using True by (simp only: pv_pseudo_def Let_def s0_def [symmetric] s1_def if_True)
    ultimately show ?thesis using s0 by simp
  next
    case False
    let ?a = "drop_bit 16 (ef_sip e) AND 0xFFFF" and ?b = "ef_sip e AND 0xFFFF"
    let ?c = "drop_bit 16 (ef_dip e) AND 0xFFFF" and ?d = "ef_dip e AND 0xFFFF"
    have "unat (s0 + ?a + ?b + ?c + ?d) \<le> unat s0 + 65535 * 4"
      using unat_add_le [of s0 ?a] unat_add_le [of "s0 + ?a" ?b] unat_add_le [of "s0 + ?a + ?b" ?c]
        unat_add_le [of "s0 + ?a + ?b + ?c" ?d] mask16_le [of "drop_bit 16 (ef_sip e)"] mask16_le [of "ef_sip e"]
        mask16_le [of "drop_bit 16 (ef_dip e)"] mask16_le [of "ef_dip e"] by linarith
    moreover have "pv_pseudo f e n = s0 + ?a + ?b + ?c + ?d"
      using False by (simp only: pv_pseudo_def Let_def s0_def [symmetric] if_False)
    ultimately show ?thesis using s0 by simp
  qed
qed

lemma min_legal_le: "pw_flow_min_legal_frame f \<le> 200"
  by (simp add: pw_flow_min_legal_frame_def Let_def)

text \<open>Every checksum of a frame with an L4 header verifies: the inner IPv4 header by itself, the
  L4 segment with its pseudo-header.\<close>

lemma preview_checksums:
  assumes wf: "pv_wf f" and t: "tr_frame_template (flow_traffic f) \<notin> {PW_FRAME_TEMPLATE_L2RAW, PW_FRAME_TEMPLATE_L3RAW}"
    and b: "pw_flow_build_preview f q cap = Some (len, built, buf)"
  shows "ones_csum (take (len - (pv_prefix f (eff f q) + pv_inner_iphl f)) (drop (pv_prefix f (eff f q) + pv_inner_iphl f) buf))
      (pv_pseudo f (eff f q) (len - (pv_prefix f (eff f q) + pv_inner_iphl f))) = 0"
    and "\<not> v6_present (flow_ipv6 f) \<Longrightarrow> ones_csum (take 20 (drop (pv_prefix f (eff f q)) buf)) 0 = 0"
proof -
  let ?e = "eff f q"
  define l4 where "l4 = length (pv_h3 f ?e)"
  define n where "n = pv_len f - l4"
  have l4: "l4 = pv_prefix f ?e + pv_inner_iphl f" unfolding l4_def by (rule pv_h3_length [OF wf])
  have t1: "tr_frame_template (flow_traffic f) \<noteq> PW_FRAME_TEMPLATE_L2RAW"
    and t2: "tr_frame_template (flow_traffic f) \<noteq> PW_FRAME_TEMPLATE_L3RAW" using t by auto
  note C = preview_cases [OF wf t1, of q cap]
  have g: "pv_frame_len f \<le> 9100" "pv_len f \<le> cap" "len = pv_len f"
    and buf: "buf = wbe16 (pv_csum_at f ?e) (pv_l4_csum f q cap) (in_buf cap (pv_h5 f q))"
    using b t2 unfolding C by (auto split: if_splits)
  have min: "l4 + pv_l4hl f \<le> pw_flow_min_legal_frame f"
    using pv_min_frame_legal [OF wf t1, of q] unfolding l4 pv_min_frame_def by linarith
  then have ge: "l4 + pv_l4hl f \<le> pv_len f" by (simp add: pv_len_def)
  have hl: "8 \<le> pv_l4hl f" "pv_is_tcp f \<Longrightarrow> pv_l4hl f = 20" using t2 by (simp_all add: pv_l4hl_def)
  have n: "pv_l4hl f + pv_payload f ?e = n" using ge by (simp add: n_def pv_payload_def l4)
  have len_le: "pv_len f \<le> 9100" using g(1) min_legal_le [of f] by (simp add: pv_len_def)
  define k where "k = (if pv_is_tcp f then 16 else 6 :: nat)"
  have at: "pv_csum_at f ?e = l4 + k" by (simp add: pv_csum_at_def l4_def k_def)
  define area where "area = take n (drop l4 (in_buf cap (pv_h5 f q)))"
  have h5: "length (pv_h5 f q) \<le> cap" using pv_h5_length [OF wf t, of q] g(2) by (simp add: pv_len_def)
  then have blen: "length (in_buf cap (pv_h5 f q)) = cap" by (simp add: in_buf_def)
  have alen: "length area = n" using blen g(2) ge by (simp add: area_def n_def)
  have kn: "k + 1 < n" using ge hl unfolding n_def k_def by auto
  have L4: "length (pv_l4 f ?e q n) = pv_l4hl f" by (rule pv_l4_length [OF t2])
  have "area ! i = pv_l4 f ?e q n ! i" if "i < pv_l4hl f" for i
    using that kn ge blen g(2) L4
    by (simp add: area_def n_def in_buf_def pv_h5_def n l4_def nth_append)
  then have z: "area ! k = 0" "area ! (k + 1) = 0"
    using hl by (auto simp: k_def pv_l4_def be16_bytes_def be32_bytes_def)
  have cs: "pv_l4_csum f q cap = ones_csum area (pv_pseudo f ?e n)"
    by (simp add: pv_l4_csum_def area_def n n_def [symmetric] l4_def [symmetric])
  have "take n (drop l4 buf) = wbe16 k (pv_l4_csum f q cap) area"
    unfolding buf at area_def
    using wbe16_drop_take [of l4 "l4 + k" n "in_buf cap (pv_h5 f q)"] kn ge g(2) blen by (simp add: n_def)
  moreover have "unat (pv_pseudo f ?e n) + 65535 * ((length area + 1) div 2) < 2 ^ 32"
    using pseudo_le [of f ?e n] len_le alen by (simp add: n_def)
  ultimately have "ones_csum (take n (drop l4 buf)) (pv_pseudo f ?e n) = 0"
    using csum_verifies [of k area "pv_pseudo f ?e n"] z kn alen by (simp add: cs k_def)
  then show "ones_csum (take (len - (pv_prefix f ?e + pv_inner_iphl f)) (drop (pv_prefix f ?e + pv_inner_iphl f) buf))
      (pv_pseudo f ?e (len - (pv_prefix f ?e + pv_inner_iphl f))) = 0"
    unfolding g(3) l4 [symmetric] n_def by simp
  show "ones_csum (take 20 (drop (pv_prefix f ?e) buf)) 0 = 0" if v4: "\<not> v6_present (flow_ipv6 f)"
  proof -
    have ip: "pv_inner_iphl f = 20" using v4 by (simp add: pv_inner_iphl_def)
    have "take 20 (drop (pv_prefix f ?e) buf) = take 20 (drop (pv_prefix f ?e) (in_buf cap (pv_h5 f q)))"
      unfolding buf at by (rule wbe16_frame) (simp add: l4 ip)
    also have "\<dots> = pv_inner_ip f ?e (pv_l4hl f + pv_payload f ?e)"
      using pv_outer_length [OF wf, of ?e "pv_payload f ?e"] pv_inner_ip_length [of f q] t2 ip
      by (simp add: in_buf_def pv_h5_def pv_h3_def)
    also have "ones_csum \<dots> 0 = 0" using v4 by (simp add: pv_inner_ip_def v4_header_verifies)
    finally show ?thesis .
  qed
qed


section \<open>The key of a generated frame\<close>

text \<open>The header key of the packet with a sequence number: the key words of the flow with the
  effective fields.\<close>

definition with_eff :: "pw_flow \<Rightarrow> eff_fields \<Rightarrow> pw_flow" where
  "with_eff f e =
     f\<lparr>flow_l2 := (flow_l2 f)\<lparr>l2_vlan := ef_vlan e\<rparr>,
       flow_ipv4 := (flow_ipv4 f)\<lparr>v4_src := ef_sip e, v4_dst := ef_dip e\<rparr>,
       flow_ipv6 := (flow_ipv6 f)\<lparr>v6_src := ef_v6src e, v6_dst := ef_v6dst e\<rparr>,
       flow_udp := (flow_udp f)\<lparr>udp_src_port := ef_sp e, udp_dst_port := ef_dp e\<rparr>\<rparr>"

definition frame_hash_key :: "pw_flow \<Rightarrow> u32 \<Rightarrow> u32 list" where
  "frame_hash_key f q = pw_fc_hash_words (with_eff f (eff f q))"

lemma with_eff_sel:
  "v6_dst (flow_ipv6 (with_eff f e)) = ef_v6dst e" "v6_src (flow_ipv6 (with_eff f e)) = ef_v6src e"
  "v4_dst (flow_ipv4 (with_eff f e)) = ef_dip e" "v4_src (flow_ipv4 (with_eff f e)) = ef_sip e"
  by (simp_all add: with_eff_def)

lemma eff_sel:
  "ef_v6dst (eff f q) = pv_mod128 (fm_mode (mod_dst_ipv4 (flow_mod f))) (v6_dst (flow_ipv6 f))
     (mod_dst_ipv6_mask (flow_mod f)) q 0x5A5A5A5A"
  "ef_v6src (eff f q) = pv_mod128 (fm_mode (mod_src_ipv4 (flow_mod f))) (v6_src (flow_ipv6 f))
     (mod_src_ipv6_mask (flow_mod f)) q 0"
  "ef_dip (eff f q) = pv_mod32 (fm_mode (mod_dst_ipv4 (flow_mod f))) (v4_dst (flow_ipv4 f))
     (ucast (fm_mask (mod_dst_ipv4 (flow_mod f)))) q"
  "ef_sip (eff f q) = pv_mod32 (fm_mode (mod_src_ipv4 (flow_mod f))) (v4_src (flow_ipv4 f))
     (ucast (fm_mask (mod_src_ipv4 (flow_mod f)))) q"
  by (simp_all add: eff_def Let_def)

text \<open>What the parser sets for an IPv6 modifier: a 16-byte mask, its low word repeated in the
  32-bit slot.\<close>

definition v6_mods_ok :: "pw_flow \<Rightarrow> bool" where
  "v6_mods_ok f \<longleftrightarrow>
     (v6_present (flow_ipv6 f) \<longrightarrow>
        length (v6_src (flow_ipv6 f)) = 16 \<and> length (v6_dst (flow_ipv6 f)) = 16 \<and>
        (mod_active (mod_src_ipv4 (flow_mod f)) \<longrightarrow>
           ucast (fm_mask (mod_src_ipv4 (flow_mod f))) = be_word (mod_src_ipv6_mask (flow_mod f)) 3) \<and>
        (mod_active (mod_dst_ipv4 (flow_mod f)) \<longrightarrow>
           ucast (fm_mask (mod_dst_ipv4 (flow_mod f))) = be_word (mod_dst_ipv6_mask (flow_mod f)) 3))"

definition agree :: "u32 \<Rightarrow> u32 \<Rightarrow> u32 \<Rightarrow> bool" where
  "agree r a b \<longleftrightarrow> (\<forall>i<32. \<not> bit r i \<longrightarrow> bit a i = bit b i)"

lemma agree_refl [simp]: "agree r a a"
  by (simp add: agree_def)

lemma agree_merge: "agree r a b \<Longrightarrow> (b AND NOT r) OR (a AND r) = a"
  by (rule bit_word_eqI) (auto simp: agree_def bit_simps)

lemma addr128_snoc4: "addr128 (bs @ [a, b, c, d]) = push_bit 32 (addr128 bs) OR ucast (be32 a b c d)"
proof (rule bit_word_eqI)
  fix n
  assume "n < LENGTH(128)"
  then have "bit (addr128 (bs @ [a, b, c, d])) n \<longleftrightarrow>
      (if n < 8 then bit d n else if n < 16 then bit c (n - 8) else if n < 24 then bit b (n - 16)
       else if n < 32 then bit a (n - 24) else bit (addr128 bs) (n - 32))"
    by (auto simp: addr128_def bit_push_bit_iff bit_or_iff bit_unsigned_iff dest: bit_imp_le_length)
  with \<open>n < LENGTH(128)\<close> show "bit (addr128 (bs @ [a, b, c, d])) n =
      bit (push_bit 32 (addr128 bs) OR ucast (be32 a b c d)) n"
    by (auto simp: bit_push_bit_iff bit_or_iff bit_unsigned_iff bit_be32)
qed

lemma l3_words_join:
  fixes a b c d :: u32
  shows "pw_fc_l3_words (push_bit 32 (push_bit 32 (push_bit 32 (push_bit 32 0 OR ucast a) OR ucast b) OR ucast c) OR ucast d) =
    [d, c, b, a]"
  unfolding pw_fc_l3_words_def list.inject
  by (intro conjI refl; rule bit_word_eqI; auto simp: bit_simps dest: bit_imp_le_length)

lemma l3_words_addr128:
  assumes "length bs = 16"
  shows "pw_fc_l3_words (addr128 bs) = [be_word bs 3, be_word bs 2, be_word bs 1, be_word bs 0]"
proof -
  obtain a0 a1 a2 a3 b0 b1 b2 b3 c0 c1 c2 c3 d0 d1 d2 d3 where
    bs: "bs = [a0, a1, a2, a3] @ [b0, b1, b2, b3] @ [c0, c1, c2, c3] @ [d0, d1, d2, d3]"
    using assms by (auto simp: numeral_eq_Suc length_Suc_conv)
  have "bs = (([] @ [a0, a1, a2, a3]) @ [b0, b1, b2, b3]) @ [c0, c1, c2, c3] @ [d0, d1, d2, d3]"
    by (simp add: bs)
  then have "bs = ((([] @ [a0, a1, a2, a3]) @ [b0, b1, b2, b3]) @ [c0, c1, c2, c3]) @ [d0, d1, d2, d3]"
    by simp
  then have "addr128 bs = push_bit 32 (push_bit 32 (push_bit 32 (push_bit 32 0 OR
      ucast (be32 a0 a1 a2 a3)) OR ucast (be32 b0 b1 b2 b3)) OR ucast (be32 c0 c1 c2 c3)) OR ucast (be32 d0 d1 d2 d3)"
    by (simp only: addr128_snoc4) (simp add: addr128_def)
  then show ?thesis by (simp only: l3_words_join) (simp add: bs be_word_def)
qed

lemma l3_words_v4: "pw_fc_l3_words (ucast (x :: u32)) = [x, 0, 0, 0]"
  by (simp add: pw_fc_l3_words_def) (intro conjI; rule bit_word_eqI; auto simp: bit_simps dest: bit_imp_le_length)

lemma be_word_mod128:
  "be_word (pv_mod128 m b k q t) 3 = pv_lane m b k q t 0" "be_word (pv_mod128 m b k q t) 2 = pv_lane m b k q t 1"
  "be_word (pv_mod128 m b k q t) 1 = pv_lane m b k q t 2" "be_word (pv_mod128 m b k q t) 0 = pv_lane m b k q t 3"
  by (simp_all add: be_word_def pv_mod128_def be32_bytes_def be32_be32_bytes)

text \<open>Outside its mask a modified field keeps the configured bits.\<close>

lemma pv_mod_agree:
  "agree (if mode \<noteq> 0 then msk else 0) (pv_mod32 mode base msk q) base"
  "agree (if mode \<noteq> 0 then be_word k (3 - l) else 0) (pv_lane mode b k q t l) (be_word b (3 - l))"
  by (auto simp: agree_def pv_mod32_def pv_lane_def Let_def bit_simps)

lemma pv_mod16_bit:
  "\<not> (mode \<noteq> 0 \<and> bit msk i) \<Longrightarrow> bit (pv_mod16 mode base msk q) i = bit base i"
  by (auto simp: pv_mod16_def Let_def bit_simps dest: bit_imp_le_length)


lemma agree_l4:
  "agree ((if mode_d \<noteq> 0 then ucast msk_d AND 0xFFFF else 0) OR (if mode_s \<noteq> 0 then push_bit 16 (ucast msk_s AND 0xFFFF) else 0))
     (push_bit 16 (ucast (pv_mod16 mode_s sp (ucast (msk_s :: u64)) q)) OR ucast (pv_mod16 mode_d dp (ucast (msk_d :: u64)) q))
     (push_bit 16 (ucast sp) OR ucast dp)"
  unfolding agree_def
proof (intro allI impI)
  fix i :: nat
  assume i: "i < 32" and r: "\<not> bit ((if mode_d \<noteq> 0 then ucast msk_d AND 0xFFFF else 0) OR
      (if mode_s \<noteq> 0 then push_bit 16 (ucast msk_s AND 0xFFFF) else 0) :: u32) i"
  have m: "(0xFFFF :: u32) = mask 16" by (simp add: mask_eq_exp_minus_1)
  have "i < 16 \<Longrightarrow> \<not> (mode_d \<noteq> 0 \<and> bit (ucast msk_d :: u16) i)"
    "16 \<le> i \<Longrightarrow> \<not> (mode_s \<noteq> 0 \<and> bit (ucast msk_s :: u16) (i - 16))"
    using r i unfolding m by (auto simp: bit_simps split: if_splits)
  then show "bit (push_bit 16 (ucast (pv_mod16 mode_s sp (ucast msk_s) q)) OR ucast (pv_mod16 mode_d dp (ucast msk_d) q) :: u32) i =
      bit (push_bit 16 (ucast sp) OR ucast dp :: u32) i"
    using i pv_mod16_bit [of mode_d "ucast msk_d" i dp q] pv_mod16_bit [of mode_s "ucast msk_s" "i - 16" sp q]
    by (cases "i < 16") (auto simp: bit_simps dest: bit_imp_le_length)
qed

lemma agree_vlan:
  "agree (if mode \<noteq> 0 then push_bit 16 (ucast (msk :: u64) AND 0x0FFF) else 0)
     (push_bit 16 (ucast ((pv_mod16 mode (v AND 0x0FFF) (ucast (msk AND 0x0FFF)) q AND 0x0FFF) AND 0x0FFF)) OR x)
     (push_bit 16 (ucast (v AND 0x0FFF)) OR x)"
  unfolding agree_def
proof (intro allI impI)
  fix i :: nat
  assume i: "i < 32" and r: "\<not> bit (if mode \<noteq> 0 then push_bit 16 (ucast msk AND 0x0FFF) else 0 :: u32) i"
  have m: "(0xFFF :: u32) = mask 12" "(0xFFF :: u64) = mask 12" "(0xFFF :: u16) = mask 12"
    by (simp_all add: mask_eq_exp_minus_1)
  show "bit (push_bit 16 (ucast ((pv_mod16 mode (v AND 0x0FFF) (ucast (msk AND 0x0FFF)) q AND 0x0FFF) AND 0x0FFF)) OR x) i =
      bit (push_bit 16 (ucast (v AND 0x0FFF)) OR x) i"
  proof (cases "16 \<le> i \<and> i - 16 < 12")
    case True
    then have "\<not> (mode \<noteq> 0 \<and> bit (ucast (msk AND 0x0FFF) :: u16) (i - 16))"
      using r i unfolding m by (auto simp: bit_simps split: if_splits)
    from pv_mod16_bit [OF this, of "v AND 0x0FFF" q] True i show ?thesis
      unfolding m by (auto simp: bit_simps)
  next
    case False
    then show ?thesis using i unfolding m by (auto simp: bit_simps)
  qed
qed

text \<open>Lists of words, position by position.\<close>

fun agrees :: "u32 list \<Rightarrow> u32 list \<Rightarrow> u32 list \<Rightarrow> bool" where
  "agrees [] [] [] = True"
| "agrees (r # rs) (a # as) (b # bs) = (agree r a b \<and> agrees rs as bs)"
| "agrees _ _ _ = False"

lemma agrees_nth: "agrees rs as bs \<Longrightarrow> i < length rs \<Longrightarrow> agree (rs ! i) (as ! i) (bs ! i)"
proof (induction rs as bs arbitrary: i rule: agrees.induct)
  case (2 r rs a as b bs)
  then show ?case by (cases i) auto
qed auto

lemma agrees_append: "agrees rs as bs \<Longrightarrow> agrees rs' as' bs' \<Longrightarrow> agrees (rs @ rs') (as @ as') (bs @ bs')"
  by (induction rs as bs rule: agrees.induct) auto

lemma agrees_refl: "length rs = length as \<Longrightarrow> agrees rs as as"
  by (induction rs as rule: list_induct2) auto

text \<open>An address, IPv6 or IPv4.\<close>

definition addr_words :: "bool \<Rightarrow> bytes \<Rightarrow> u32 \<Rightarrow> u32 list" where
  "addr_words v6 a6 a4 = pw_fc_l3_words (if v6 then addr128 a6 else ucast a4)"

definition addr_rot :: "bool \<Rightarrow> u8 \<Rightarrow> u32 \<Rightarrow> bytes \<Rightarrow> u32 list" where
  "addr_rot v6 mode m4 m6 =
     [if mode \<noteq> 0 then m4 else 0, if v6 \<and> mode \<noteq> 0 then be_word m6 2 else 0,
      if v6 \<and> mode \<noteq> 0 then be_word m6 1 else 0, if v6 \<and> mode \<noteq> 0 then be_word m6 0 else 0]"

lemma addr_agrees:
  assumes "v6 \<Longrightarrow> length a6 = 16" "v6 \<Longrightarrow> mode \<noteq> 0 \<Longrightarrow> m4 = be_word m6 3"
  shows "agrees (addr_rot v6 mode m4 m6) (addr_words v6 (pv_mod128 mode a6 m6 q t) (pv_mod32 mode a4 m4 q))
    (addr_words v6 a6 a4)"
proof (cases v6)
  case True
  have "agree (if mode \<noteq> 0 then be_word m6 3 else 0) (pv_lane mode a6 m6 q t 0) (be_word a6 3)"
    "agree (if mode \<noteq> 0 then be_word m6 2 else 0) (pv_lane mode a6 m6 q t 1) (be_word a6 2)"
    "agree (if mode \<noteq> 0 then be_word m6 1 else 0) (pv_lane mode a6 m6 q t 2) (be_word a6 1)"
    "agree (if mode \<noteq> 0 then be_word m6 0 else 0) (pv_lane mode a6 m6 q t 3) (be_word a6 0)"
    using pv_mod_agree(2) [of mode m6 0 a6 q t] pv_mod_agree(2) [of mode m6 1 a6 q t]
      pv_mod_agree(2) [of mode m6 2 a6 q t] pv_mod_agree(2) [of mode m6 3 a6 q t]
    by (simp_all split: if_splits)
  with True assms show ?thesis
    by (simp add: addr_rot_def addr_words_def l3_words_addr128 be_word_mod128 [simplified] split: if_splits)
next
  case False
  then show ?thesis
    using pv_mod_agree(1) [of mode m4 a4 q] by (simp add: addr_rot_def addr_words_def l3_words_v4)
qed

definition l4_rot :: "pw_flow_modifiers \<Rightarrow> u32" where
  "l4_rot md =
     (if fm_mode (mod_udp_dst md) \<noteq> 0 then ucast (fm_mask (mod_udp_dst md)) AND 0xFFFF else 0) OR
     (if fm_mode (mod_udp_src md) \<noteq> 0 then push_bit 16 (ucast (fm_mask (mod_udp_src md)) AND 0xFFFF) else 0)"

definition vlan_rot :: "pw_flow_modifiers \<Rightarrow> u32" where
  "vlan_rot md = (if fm_mode (mod_vlan md) \<noteq> 0 then push_bit 16 (ucast (fm_mask (mod_vlan md)) AND 0x0FFF) else 0)"

lemma rotated_bits_split:
  "rotated_bits f =
     addr_rot (v6_present (flow_ipv6 f)) (fm_mode (mod_dst_ipv4 (flow_mod f))) (ucast (fm_mask (mod_dst_ipv4 (flow_mod f))))
       (mod_dst_ipv6_mask (flow_mod f)) @
     addr_rot (v6_present (flow_ipv6 f)) (fm_mode (mod_src_ipv4 (flow_mod f))) (ucast (fm_mask (mod_src_ipv4 (flow_mod f))))
       (mod_src_ipv6_mask (flow_mod f)) @
     [l4_rot (flow_mod f), vlan_rot (flow_mod f), 0]"
  by (simp add: rotated_bits_def addr_rot_def l4_rot_def vlan_rot_def mod_active_def PWFPGA_FIELD_STATIC_def Let_def
      del: push_bit_and)

definition l4_word :: "pw_flow \<Rightarrow> u32" where
  "l4_word f = (if tr_frame_template (flow_traffic f) = PW_FRAME_TEMPLATE_L3RAW then 0
                else push_bit 16 (ucast (udp_src_port (flow_udp f))) OR ucast (udp_dst_port (flow_udp f)))"

definition proto_word :: "pw_flow \<Rightarrow> u32" where
  "proto_word f = (if udp_l4_proto (flow_udp f) \<noteq> 0 then ucast (udp_l4_proto (flow_udp f)) else 17)"

definition raw_et :: "pw_flow \<Rightarrow> u32" where
  "raw_et f = (if l2_ethertype (flow_l2 f) \<noteq> 0 then ucast (l2_ethertype (flow_l2 f)) else ip_ethertype f) AND 0xFFFF"

lemma hash_words_split:
  "pw_fc_hash_words f =
     (if tr_frame_template (flow_traffic f) = PW_FRAME_TEMPLATE_L2RAW
      then replicate 9 0 @ [push_bit 16 (hash_vlan f) OR raw_et f, 0]
      else addr_words (v6_present (flow_ipv6 f)) (v6_dst (flow_ipv6 f)) (v4_dst (flow_ipv4 f)) @
           addr_words (v6_present (flow_ipv6 f)) (v6_src (flow_ipv6 f)) (v4_src (flow_ipv4 f)) @
           [l4_word f, push_bit 16 (hash_vlan f) OR ip_ethertype f, proto_word f])"
  by (simp add: pw_fc_hash_words_def addr_words_def l4_word_def proto_word_def raw_et_def Let_def)

lemma vlan_agree:
  "agree (vlan_rot (flow_mod f)) (push_bit 16 (hash_vlan (with_eff f (eff f q))) OR x) (push_bit 16 (hash_vlan f) OR x)"
proof (cases "l2_vlan_set (flow_l2 f)")
  case True
  have e: "ef_vlan (eff f q) = pv_mod16 (fm_mode (mod_vlan (flow_mod f))) (l2_vlan (flow_l2 f) AND 0x0FFF)
      (ucast (fm_mask (mod_vlan (flow_mod f)) AND 0x0FFF)) q AND 0x0FFF"
    unfolding eff_def Let_def by (simp only: eff_fields.simps)
  have "hash_vlan (with_eff f (eff f q)) = ucast (ef_vlan (eff f q) AND 0x0FFF)" "hash_vlan f = ucast (l2_vlan (flow_l2 f) AND 0x0FFF)"
    using True by (simp_all add: hash_vlan_def with_eff_def)
  then show ?thesis unfolding vlan_rot_def e by (simp only: agree_vlan)
next
  case False
  then show ?thesis by (simp add: hash_vlan_def with_eff_def)
qed

lemma key_agrees:
  assumes "v6_mods_ok f"
  shows "agrees (rotated_bits f) (frame_hash_key f q) (pw_fc_hash_words f)"
proof -
  let ?g = "with_eff f (eff f q)"
  have same: "tr_frame_template (flow_traffic ?g) = tr_frame_template (flow_traffic f)"
    "v6_present (flow_ipv6 ?g) = v6_present (flow_ipv6 f)" "proto_word ?g = proto_word f"
    "ip_ethertype ?g = ip_ethertype f" "raw_et ?g = raw_et f"
    by (simp_all add: with_eff_def proto_word_def ip_ethertype_def raw_et_def)
  have l4: "agree (l4_rot (flow_mod f)) (l4_word ?g) (l4_word f)"
    using agree_l4 unfolding l4_word_def same(1) l4_rot_def by (simp add: with_eff_def eff_def Let_def)
  have dst: "agrees (addr_rot (v6_present (flow_ipv6 f)) (fm_mode (mod_dst_ipv4 (flow_mod f)))
        (ucast (fm_mask (mod_dst_ipv4 (flow_mod f)))) (mod_dst_ipv6_mask (flow_mod f)))
      (addr_words (v6_present (flow_ipv6 f)) (v6_dst (flow_ipv6 ?g)) (v4_dst (flow_ipv4 ?g)))
      (addr_words (v6_present (flow_ipv6 f)) (v6_dst (flow_ipv6 f)) (v4_dst (flow_ipv4 f)))"
    unfolding with_eff_sel eff_sel
    by (rule addr_agrees) (use assms in \<open>auto simp: v6_mods_ok_def mod_active_def PWFPGA_FIELD_STATIC_def\<close>)
  have src: "agrees (addr_rot (v6_present (flow_ipv6 f)) (fm_mode (mod_src_ipv4 (flow_mod f)))
        (ucast (fm_mask (mod_src_ipv4 (flow_mod f)))) (mod_src_ipv6_mask (flow_mod f)))
      (addr_words (v6_present (flow_ipv6 f)) (v6_src (flow_ipv6 ?g)) (v4_src (flow_ipv4 ?g)))
      (addr_words (v6_present (flow_ipv6 f)) (v6_src (flow_ipv6 f)) (v4_src (flow_ipv4 f)))"
    unfolding with_eff_sel eff_sel
    by (rule addr_agrees) (use assms in \<open>auto simp: v6_mods_ok_def mod_active_def PWFPGA_FIELD_STATIC_def\<close>)
  show ?thesis
  proof (cases "tr_frame_template (flow_traffic f) = PW_FRAME_TEMPLATE_L2RAW")
    case True
    have "agrees (rotated_bits f) (replicate 9 0 @ [push_bit 16 (hash_vlan ?g) OR raw_et f, 0])
        (replicate 9 0 @ [push_bit 16 (hash_vlan f) OR raw_et f, 0])"
      using vlan_agree [of f q "raw_et f"] by (simp add: rotated_bits_split addr_rot_def numeral_eq_Suc)
    then show ?thesis unfolding frame_hash_key_def hash_words_split [of f] hash_words_split [of ?g] same using True by simp
  next
    case False
    have "agrees [l4_rot (flow_mod f), vlan_rot (flow_mod f), 0]
        [l4_word ?g, push_bit 16 (hash_vlan ?g) OR ip_ethertype f, proto_word f]
        [l4_word f, push_bit 16 (hash_vlan f) OR ip_ethertype f, proto_word f]"
      using l4 vlan_agree [of f q "ip_ethertype f"] by simp
    with dst src False show ?thesis
      unfolding frame_hash_key_def hash_words_split [of f] hash_words_split [of ?g] same rotated_bits_split
      by (simp only: if_False) (intro agrees_append)
  qed
qed

text \<open>Every packet of a flow has a rotated key of the flow.\<close>

lemma frame_key_rotated:
  assumes "v6_mods_ok f"
  shows "frame_hash_key f q = rotated_key f (frame_hash_key f q)"
proof (rule nth_equalityI)
  have len: "length (frame_hash_key f q) = 11" by (simp add: frame_hash_key_def)
  then show "length (frame_hash_key f q) = length (rotated_key f (frame_hash_key f q))" by (simp add: rotated_key_def)
  fix i
  assume "i < length (frame_hash_key f q)"
  then have i: "i < 11" by (simp add: len)
  have "length (rotated_bits f) = 11" by (simp add: rotated_bits_def Let_def)
  with i have "agree (rotated_bits f ! i) (frame_hash_key f q ! i) (pw_fc_hash_words f ! i)"
    using agrees_nth [OF key_agrees [OF assms, of q]] by simp
  from agree_merge [OF this] i show "frame_hash_key f q ! i = rotated_key f (frame_hash_key f q) ! i"
    by (simp add: rotated_key_def)
qed


section \<open>Properties\<close>

text \<open>An example flow: a UDP test flow with a VLAN tag, shorter than its headers allow.\<close>

definition ex_preview_flow :: "u8 \<Rightarrow> pw_flow" where
  "ex_preview_flow tmpl = zero_flow\<lparr>flow_id := 9, flow_l2 := zero_l2\<lparr>l2_vlan_set := True, l2_vlan := 100\<rparr>,
     flow_ipv4 := zero_ipv4\<lparr>v4_present := True, v4_src := 0x0A000001, v4_dst := 0x0A000002\<rparr>,
     flow_udp := zero_udp\<lparr>udp_src_port := 1000, udp_dst_port := 2000\<rparr>,
     flow_traffic := zero_traffic\<lparr>tr_frame_template := tmpl, tr_frame_len_fixed_set := True, tr_frame_len_fixed := 60\<rparr>\<rparr>"

lemma ex_preview_sel:
  "pv_wf (ex_preview_flow t)" "tr_frame_template (flow_traffic (ex_preview_flow t)) = t"
  "pv_frame_len (ex_preview_flow t) = 60" "\<not> v6_present (flow_ipv6 (ex_preview_flow t))"
  "pw_flow_min_legal_frame (ex_preview_flow PW_FRAME_TEMPLATE_TEST) = 78"
  "pw_flow_min_legal_frame (ex_preview_flow PW_FRAME_TEMPLATE_L3RAW) = 38"
  "udp_l4_proto (flow_udp (ex_preview_flow t)) = 0"
  by (simp_all add: ex_preview_flow_def pv_wf_def zero_flow_def zero_l2_def zero_encap_def zero_ipv6_def zero_bytes_def
      zero_traffic_def pv_frame_len_def pw_flow_min_legal_frame_def zero_udp_def pw_enums)

lemma in_buf_length: "length h \<le> cap \<Longrightarrow> length (in_buf cap h) = cap"
  by (simp add: in_buf_def)

lemma in_buf_zero: "length h \<le> i \<Longrightarrow> i < cap \<Longrightarrow> in_buf cap h ! i = 0"
  by (simp add: in_buf_def nth_append)

lemma pv_lengths_fit:
  assumes wf: "pv_wf f" and t: "tr_frame_template (flow_traffic f) \<noteq> PW_FRAME_TEMPLATE_L2RAW"
  shows "length (pv_h3 f (eff f q)) \<le> pv_len f"
    and "tr_frame_template (flow_traffic f) \<noteq> PW_FRAME_TEMPLATE_L3RAW \<Longrightarrow>
      length (pv_h5 f q) \<le> pv_len f \<and> pv_csum_at f (eff f q) + 1 < length (pv_h5 f q)"
proof -
  have m: "pv_min_frame f (eff f q) = pw_flow_min_legal_frame f" by (rule pv_min_frame_legal [OF wf t])
  show "length (pv_h3 f (eff f q)) \<le> pv_len f"
    using m pv_h3_length [OF wf, of q] by (simp add: pv_min_frame_def pv_len_def)
  assume t': "tr_frame_template (flow_traffic f) \<noteq> PW_FRAME_TEMPLATE_L3RAW"
  have h5: "length (pv_h5 f q) = pw_flow_min_legal_frame f" using pv_h5_length [OF wf] t t' by simp
  have "8 \<le> pv_l4hl f" "pv_is_tcp f \<Longrightarrow> pv_l4hl f = 20" using t' by (simp_all add: pv_l4hl_def)
  then have "pv_csum_at f (eff f q) + 1 < length (pv_h5 f q)"
    unfolding h5 using m pv_h3_length [OF wf, of q] by (auto simp: pv_csum_at_def pv_min_frame_def)
  with h5 show "length (pv_h5 f q) \<le> pv_len f \<and> pv_csum_at f (eff f q) + 1 < length (pv_h5 f q)"
    by (simp add: pv_len_def)
qed

text \<open>
  The preview has the length the generator emits: for every template but the raw Ethernet one,
  \<open>pw_flow_build_preview\<close> fails exactly when the configured length is outside 14 to 9100 or the clamped
  length exceeds the buffer, and otherwise returns the configured length raised to the minimum legal frame
  that the flow compiler meters with.
\<close>

lemma preview_length:
  assumes "pv_wf f" and "tr_frame_template (flow_traffic f) \<noteq> PW_FRAME_TEMPLATE_L2RAW"
  shows "case pw_flow_build_preview f q cap of
      None \<Rightarrow> pv_frame_len f < 14 \<or> pv_frame_len f > 9100 \<or> max (pv_frame_len f) (pw_flow_min_legal_frame f) > cap
    | Some (len, built, buf) \<Rightarrow> len = max (pv_frame_len f) (pw_flow_min_legal_frame f) \<and> len \<le> cap \<and>
        14 \<le> pv_frame_len f \<and> pv_frame_len f \<le> 9100"
  using assms unfolding preview_cases [OF assms] by (auto simp: pv_len_def)

theorem preview_length_witness:
  "case pw_flow_build_preview (ex_preview_flow PW_FRAME_TEMPLATE_TEST) 3 128 of None \<Rightarrow> False | Some (len, _) \<Rightarrow> len = 78"
proof -
  have t: "PW_FRAME_TEMPLATE_TEST \<noteq> PW_FRAME_TEMPLATE_L2RAW" by (simp add: pw_enums)
  show ?thesis
    using preview_length [OF ex_preview_sel(1), of PW_FRAME_TEMPLATE_TEST 128 3] t
    by (auto simp: ex_preview_sel split: option.splits)
qed

text \<open>
  The preview stays inside its buffer and is zero past the headers: the buffer keeps its size, the
  bytes built lie within the returned length, and every byte after them is the zero padding.
\<close>

lemma preview_padding:
  assumes "pv_wf f" and "tr_frame_template (flow_traffic f) \<noteq> PW_FRAME_TEMPLATE_L2RAW"
    and "pw_flow_build_preview f q cap = Some (len, built, buf)"
  shows "length buf = cap \<and> built \<le> len \<and> len \<le> cap \<and> (\<forall>i. built \<le> i \<and> i < cap \<longrightarrow> buf ! i = 0)"
proof -
  note L = pv_lengths_fit [OF assms(1,2)]
  show ?thesis
  proof (cases "tr_frame_template (flow_traffic f) = PW_FRAME_TEMPLATE_L3RAW")
    case True
    then have r: "len = pv_len f" "len \<le> cap" "built = length (pv_h3 f (eff f q))" "buf = in_buf cap (pv_h3 f (eff f q))"
      using assms(3) unfolding preview_cases [OF assms(1,2)] by (auto split: if_splits)
    show ?thesis using L(1) [of q] r in_buf_length in_buf_zero by simp
  next
    case False
    then have r: "len = pv_len f" "len \<le> cap" "built = length (pv_h5 f q)"
      "buf = wbe16 (pv_csum_at f (eff f q)) (pv_l4_csum f q cap) (in_buf cap (pv_h5 f q))"
      using assms(3) unfolding preview_cases [OF assms(1,2)] by (auto split: if_splits)
    have z: "buf ! i = 0" if "built \<le> i" "i < cap" for i
      using L(2) [OF False, of q] that in_buf_zero [of "pv_h5 f q" i cap]
      by (simp add: r(3,4) wbe16_def nth_list_update)
    show ?thesis using L(2) [OF False, of q] r(1-3) z in_buf_length [of "pv_h5 f q" cap] by (simp add: r(4))
  qed
qed

lemma ex_preview_built:
  assumes "tr = PW_FRAME_TEMPLATE_TEST \<or> tr = PW_FRAME_TEMPLATE_L3RAW"
  obtains built buf where
    "pw_flow_build_preview (ex_preview_flow tr) 3 128 =
       Some (max 60 (pw_flow_min_legal_frame (ex_preview_flow tr)), built, buf)"
proof -
  have t: "tr \<noteq> PW_FRAME_TEMPLATE_L2RAW" using assms by (auto simp: pw_enums)
  have l: "max 60 (pw_flow_min_legal_frame (ex_preview_flow tr)) \<le> 128" using assms ex_preview_sel(5,6) by auto
  show thesis
    using preview_cases [OF ex_preview_sel(1), of tr 3 128] t l that
    by (auto simp: ex_preview_sel pv_len_def split: if_splits)
qed



text \<open>
  The raw IP template is previewed with a protocol the card does not emit: the byte the preview puts in the
  IPv4 header is 0xFD whatever the flow's protocol, while the header-classification key of the same flow carries
  the flow's protocol (UDP by default), which is the one the flow row hands to the generator.
\<close>

lemma l3raw_preview_protocol:
  assumes "pv_wf f" and "tr_frame_template (flow_traffic f) = PW_FRAME_TEMPLATE_L3RAW" and "\<not> v6_present (flow_ipv6 f)"
    and "pw_flow_build_preview f q cap = Some (len, built, buf)"
  shows "buf ! (pv_prefix f (eff f q) + 9) = 0xFD \<and>
    pw_fc_hash_words f ! 10 = ucast (row_l4_proto (tx_row f tx same lfid)) \<and>
    (udp_l4_proto (flow_udp f) \<noteq> 0xFD \<longrightarrow> row_l4_proto (tx_row f tx same lfid) \<noteq> 0xFD)"
proof -
  let ?e = "eff f q"
  have t: "tr_frame_template (flow_traffic f) \<noteq> PW_FRAME_TEMPLATE_L2RAW" using assms(2) by (simp add: pw_enums)
  have buf: "buf = in_buf cap (pv_h3 f ?e)"
    using assms(2,4) unfolding preview_cases [OF assms(1) t] by (auto split: if_splits)
  have pre: "length (pv_eth f ?e @ pv_outer f (pv_payload f ?e)) = pv_prefix f ?e"
    using pv_outer_length [OF assms(1)] by simp
  have h3: "pv_h3 f ?e = (pv_eth f ?e @ pv_outer f (pv_payload f ?e)) @ pv_inner_ip f ?e (pv_payload f ?e)"
    using assms(2) by (simp add: pv_h3_def)
  have ip: "pv_inner_ip f ?e n ! 9 = 0xFD" for n
    using assms(2,3) by (simp add: pv_inner_ip_def v4_header_def Let_def wbe16_def v4_header0_def be16_bytes_def)
  have len: "length (pv_inner_ip f ?e (pv_payload f ?e)) = 20"
    using assms(3) by (simp add: pv_inner_ip_length pv_inner_iphl_def)
  have "pv_h3 f ?e ! (pv_prefix f ?e + 9) = 0xFD"
    unfolding h3 pre [symmetric] nth_append_length_plus by (rule ip)
  moreover have "pv_prefix f ?e + 9 < length (pv_h3 f ?e)" unfolding h3 using pre len by simp
  ultimately have "buf ! (pv_prefix f ?e + 9) = 0xFD" by (simp add: buf in_buf_def nth_append)
  moreover have row: "row_l4_proto (tx_row f tx same lfid) = (if udp_l4_proto (flow_udp f) \<noteq> 0 then udp_l4_proto (flow_udp f) else 17)"
    by (simp add: tx_row_def row_payload_def row_rates_def row_l4_mods_def Let_def)
  moreover have "pw_fc_hash_words f ! 10 = ucast (row_l4_proto (tx_row f tx same lfid))"
    unfolding hash_words_split row using t by (simp add: addr_words_def proto_word_def nth_append pw_fc_l3_words_def)
  ultimately show ?thesis by simp
qed

lemma l3raw_preview_protocol_witness:
  "\<exists>built buf. pw_flow_build_preview (ex_preview_flow PW_FRAME_TEMPLATE_L3RAW) 3 128 = Some (60, built, buf) \<and>
     buf ! (pv_prefix (ex_preview_flow PW_FRAME_TEMPLATE_L3RAW) (eff (ex_preview_flow PW_FRAME_TEMPLATE_L3RAW) 3) + 9) = 0xFD"
proof -
  obtain built buf where b: "pw_flow_build_preview (ex_preview_flow PW_FRAME_TEMPLATE_L3RAW) 3 128 = Some (60, built, buf)"
    using ex_preview_built [of PW_FRAME_TEMPLATE_L3RAW] by (auto simp: ex_preview_sel)
  show ?thesis
    using l3raw_preview_protocol [OF ex_preview_sel(1,2,4) b] b by blast
qed

end
