(* ===== verification/PW_Lookup.thy ===== *)
theory PW_Lookup
  imports PW_Bar_Backend PW_Frame_Preview
begin

text \<open>
  From the configuration to the classifier: what the two exact tables of a card answer once its
  compiled program has been written through the BAR. The look-ups are those of the card
  (\<^verbatim>\<open>pw_flowid_map.sv\<close>, \<^verbatim>\<open>pw_hash_classifier.sv\<close>, register layout in \<^verbatim>\<open>csr.h\<close>), read from its registers.
\<close>

section \<open>Tables with one entry per bucket\<close>

text \<open>A word with a valid bit: nothing, or the slot in the other bits.\<close>

definition valid_entry :: "u32 \<Rightarrow> u32 \<Rightarrow> u32 option" where
  "valid_entry v w = (if w AND v = 0 then None else Some (w AND NOT v))"

locale bucket_table =
  fixes ok :: "'t \<Rightarrow> bool"
    and entries :: "'t \<Rightarrow> 'e list"
    and bucket :: "'e \<Rightarrow> nat"
    and slot :: "'e \<Rightarrow> u32"
    and flag :: u32
    and table_word :: "'t \<Rightarrow> nat \<Rightarrow> u32"
  assumes buckets_distinct: "ok t \<Longrightarrow> distinct (map bucket (entries t))"
    and slot_clear: "ok t \<Longrightarrow> e \<in> set (entries t) \<Longrightarrow> slot e AND flag = 0"
    and flag_set: "flag \<noteq> 0"
    and word_of: "table_word t b =
      (case find (\<lambda>e. bucket e = b) (entries t) of None \<Rightarrow> 0 | Some e \<Rightarrow> flag OR slot e)"
begin

lemma find_entry: "ok t \<Longrightarrow> e \<in> set (entries t) \<Longrightarrow> find (\<lambda>x. bucket x = bucket e) (entries t) = Some e"
  using buckets_distinct [of t] by (intro find_unique) (auto simp: distinct_map inj_on_def)

lemma decode: "ok t \<Longrightarrow> e \<in> set (entries t) \<Longrightarrow> valid_entry flag (flag OR slot e) = Some (slot e)"
proof -
  assume e: "ok t" "e \<in> set (entries t)"
  have z: "slot e AND flag = 0" by (rule slot_clear [OF e])
  have "(flag OR slot e) AND flag = flag" by (simp add: bit.conj_disj_distrib2 z)
  moreover have "(flag OR slot e) AND NOT flag = slot e"
  proof (rule bit_word_eqI)
    fix n
    assume "n < LENGTH(32)"
    moreover have "bit (slot e AND flag) n = False" by (simp add: z)
    ultimately show "bit ((flag OR slot e) AND NOT flag) n = bit (slot e) n" by (auto simp: bit_simps)
  qed
  ultimately show ?thesis using flag_set by (simp add: valid_entry_def)
qed

lemma lookup_entry: "ok t \<Longrightarrow> e \<in> set (entries t) \<Longrightarrow> valid_entry flag (table_word t (bucket e)) = Some (slot e)"
  by (simp add: word_of find_entry decode)

lemma lookup_sound:
  assumes "ok t" "valid_entry flag (table_word t b) = Some l"
  shows "\<exists>e\<in>set (entries t). bucket e = b \<and> slot e = l"
proof (cases "find (\<lambda>e. bucket e = b) (entries t)")
  case None
  with assms(2) show ?thesis by (simp add: word_of valid_entry_def)
next
  case (Some e)
  from find_SomeD [OF Some] have e: "e \<in> set (entries t)" "bucket e = b" by auto
  from assms(2) have "slot e = l" using Some decode [OF assms(1) e(1)] by (simp add: word_of)
  with e show ?thesis by blast
qed

end

text \<open>Slots are flow-table rows, so they do not reach the valid bit.\<close>

lemma small_and_valid:
  assumes "unat (l :: u32) < PWFPGA_FLOW_TABLE_ROWS"
  shows "l AND 0x80000000 = 0"
proof (rule bit_word_eqI)
  fix n
  assume "n < LENGTH(32)"
  have v: "(2 :: u32) ^ 31 = 0x80000000" by simp
  have b: "bit (0x80000000 :: u32) n \<Longrightarrow> n = 31"
    using bit_exp_iff [of 31 n, where ?'a = "32 word"] unfolding v by auto
  have "\<not> bit l 31"
  proof
    assume "bit l 31"
    then have "bit (unat l) 31" by (simp add: bit_unsigned_iff)
    then have "odd (unat l div 2 ^ 31)" unfolding bit_iff_odd .
    moreover have "unat l div 2 ^ 31 = 0" using assms by (simp add: csr_capacities)
    ultimately show False by simp
  qed
  with b show "bit (l AND 0x80000000) n = bit (0 :: u32) n" by (auto simp: bit_and_iff)
qed

definition map_ok :: "pw_card_program \<Rightarrow> bool" where
  "map_ok cp \<longleftrightarrow> card_wf cp \<and> distinct (map me_flow_id (cp_map_entries cp))"

definition hash_ok :: "pw_card_program \<Rightarrow> bool" where
  "hash_ok cp \<longleftrightarrow> card_wf cp \<and> distinct (map he_index (cp_hash_entries cp))"

lemma lfid_clear:
  "card_wf cp \<Longrightarrow> unat l < length (cp_flow_rows cp) \<Longrightarrow> (l :: u32) AND 0x80000000 = 0"
  by (rule small_and_valid) (simp add: card_wf_def)

interpretation flowid_map: bucket_table map_ok cp_map_entries "\<lambda>e. unat (me_flow_id e)" me_local_flow_id
  PWFPGA_FLOWID_MAP_VALID map_word
proof unfold_locales
  fix cp e b
  show "map_ok cp \<Longrightarrow> distinct (map (\<lambda>e. unat (me_flow_id e)) (cp_map_entries cp))"
    by (auto simp: map_ok_def distinct_map inj_on_def)
  show "map_ok cp \<Longrightarrow> e \<in> set (cp_map_entries cp) \<Longrightarrow> me_local_flow_id e AND PWFPGA_FLOWID_MAP_VALID = 0"
    using lfid_clear [of cp] by (auto simp: map_ok_def card_wf_def PWFPGA_FLOWID_MAP_VALID_def)
  show "PWFPGA_FLOWID_MAP_VALID \<noteq> 0" by (simp add: PWFPGA_FLOWID_MAP_VALID_def)
  show "map_word cp b = (case find (\<lambda>e. unat (me_flow_id e) = b) (cp_map_entries cp) of
      None \<Rightarrow> 0 | Some e \<Rightarrow> PWFPGA_FLOWID_MAP_VALID OR me_local_flow_id e)" by (simp add: map_word_def)
qed

interpretation header_hash: bucket_table hash_ok cp_hash_entries "\<lambda>e. unat (he_index e)" he_local_flow_id
  PWFPGA_HASH_CTRL_VALID hash_ctrl_word
proof unfold_locales
  fix cp e b
  show "hash_ok cp \<Longrightarrow> distinct (map (\<lambda>e. unat (he_index e)) (cp_hash_entries cp))"
    by (auto simp: hash_ok_def distinct_map inj_on_def)
  show "hash_ok cp \<Longrightarrow> e \<in> set (cp_hash_entries cp) \<Longrightarrow> he_local_flow_id e AND PWFPGA_HASH_CTRL_VALID = 0"
    using lfid_clear [of cp] by (auto simp: hash_ok_def card_wf_def PWFPGA_HASH_CTRL_VALID_def)
  show "PWFPGA_HASH_CTRL_VALID \<noteq> 0" by (simp add: PWFPGA_HASH_CTRL_VALID_def)
  show "hash_ctrl_word cp b = (case find (\<lambda>e. unat (he_index e) = b) (cp_hash_entries cp) of
      None \<Rightarrow> 0 | Some e \<Rightarrow> PWFPGA_HASH_CTRL_VALID OR he_local_flow_id e)" by (simp add: hash_ctrl_word_def)
qed

section \<open>Look-ups of the card\<close>

definition map_lookup :: "(u32 \<Rightarrow> u32) \<Rightarrow> u32 \<Rightarrow> u32 option" where
  "map_lookup regs fid =
     (if unat fid < PWFPGA_FLOWID_MAP_DEPTH
      then valid_entry PWFPGA_FLOWID_MAP_VALID (regs (FLOWID_MAP_ENTRY (unat fid))) else None)"

definition hash_lookup :: "(u32 \<Rightarrow> u32) \<Rightarrow> u32 list \<Rightarrow> u32 option" where
  "hash_lookup regs key =
     (let masked = mask_key (map (\<lambda>w. regs (HASH_MASK_WORD w)) [0..<PWFPGA_HASH_KEY_WORDS]) key;
          b = unat (pw_fc_hash_index masked (regs PWFPGA_REG_HASH_SEED))
      in if map (\<lambda>w. regs (HASH_KEY_WORD b w)) [0..<PWFPGA_HASH_KEY_WORDS] = masked
         then valid_entry PWFPGA_HASH_CTRL_VALID (regs (HASH_CTRL b)) else None)"

text \<open>Registers that hold a card program: every table write in effect.\<close>

definition holds_tables :: "(u32 \<Rightarrow> u32) \<Rightarrow> pw_card_program \<Rightarrow> bool" where
  "holds_tables regs cp \<longleftrightarrow> (\<forall>a v. last_write (table_writes cp) a = Some v \<longrightarrow> regs a = v)"

lemma holds_map:
  assumes "holds_tables regs cp" "program_in_range cp" "map_ok cp" "i < PWFPGA_FLOWID_MAP_DEPTH"
  shows "regs (FLOWID_MAP_ENTRY i) = map_word cp i"
proof -
  have u: "unat (PWFPGA_WIN_FLOWID_MAP + of_nat i * 4) = 0x400 + 4 * i" by (rule csr_addr_nat(1) [OF assms(4)])
  have "last_write (map_writes cp) (PWFPGA_WIN_FLOWID_MAP + of_nat i * 4) = Some (map_word cp i)"
    by (rule map_writes_last [OF assms(2) _ assms(4)]) (use assms(3) in \<open>simp add: map_ok_def\<close>)
  then have "last_write (table_writes cp) (PWFPGA_WIN_FLOWID_MAP + of_nat i * 4) = Some (map_word cp i)"
    using table_writes_last(1) [OF assms(2)] u assms(4) by (simp add: csr_capacities)
  with assms(1) show ?thesis by (simp add: holds_tables_def FLOWID_MAP_ENTRY_def)
qed

lemma holds_hash:
  assumes H: "holds_tables regs cp" and R: "program_in_range cp" and ok: "hash_ok cp"
  shows "b < PWFPGA_HASH_DEPTH \<Longrightarrow> regs (HASH_CTRL b) = hash_ctrl_word cp b"
    and "cp_hash_entries cp \<noteq> [] \<Longrightarrow> regs PWFPGA_REG_HASH_SEED = cp_hash_seed cp"
    and "cp_hash_entries cp \<noteq> [] \<Longrightarrow> length (cp_hash_mask cp) = 11 \<Longrightarrow>
      map (\<lambda>w. regs (HASH_MASK_WORD w)) [0..<PWFPGA_HASH_KEY_WORDS] = cp_hash_mask cp"
    and "e \<in> set (cp_hash_entries cp) \<Longrightarrow>
      map (\<lambda>w. regs (HASH_KEY_WORD (unat (he_index e)) w)) [0..<PWFPGA_HASH_KEY_WORDS] = he_key_word e"
proof -
  have dist: "distinct (map he_index (cp_hash_entries cp))" using ok by (simp add: hash_ok_def)
  have get: "regs a = v" if "last_write (hash_writes cp) a = Some v" for a v
    using H table_writes_last(5) [OF R that] by (simp add: holds_tables_def)
  show "regs (HASH_CTRL b) = hash_ctrl_word cp b" if "b < PWFPGA_HASH_DEPTH"
    by (rule get [OF hash_writes_ctrl [OF R dist that]])
  show "regs PWFPGA_REG_HASH_SEED = cp_hash_seed cp" if "cp_hash_entries cp \<noteq> []"
    by (rule get [OF hash_writes_mask(2) [OF R that]])
  show "map (\<lambda>w. regs (HASH_MASK_WORD w)) [0..<PWFPGA_HASH_KEY_WORDS] = cp_hash_mask cp"
    if ne: "cp_hash_entries cp \<noteq> []" and l: "length (cp_hash_mask cp) = 11"
    using get [OF hash_writes_mask(1) [OF R ne]] l by (intro nth_equalityI) (simp_all add: csr_capacities)
  show "map (\<lambda>w. regs (HASH_KEY_WORD (unat (he_index e)) w)) [0..<PWFPGA_HASH_KEY_WORDS] = he_key_word e"
    if e: "e \<in> set (cp_hash_entries cp)"
  proof -
    have i: "unat (he_index e) < PWFPGA_HASH_DEPTH" using R e by (simp add: program_in_range_def)
    have k: "length (he_key_word e) = 11" using ok e by (simp add: hash_ok_def card_wf_def)
    have "regs (HASH_KEY_WORD (unat (he_index e)) w) = he_key_word e ! w" if w: "w < PWFPGA_HASH_KEY_WORDS" for w
      by (rule get, rule hash_writes_entry [OF R dist e _ hash_entry_writes_last(2) [OF i w]])
        (use csr_addr_nat(12) [OF i w] w in \<open>simp add: csr_capacities\<close>)
    with k show ?thesis by (intro nth_equalityI) (simp_all add: csr_capacities)
  qed
qed


section \<open>Compiled programs\<close>

lemma compiled_in_range:
  assumes c: "pw_flow_compile (Some cfg) = Inr p" and cp: "cp \<in> set (prog_per_card p)"
  shows "program_in_range cp" "map_ok cp" "hash_ok cp"
proof -
  have wf: "card_wf cp" by (rule pw_flow_compile_ok(4) [OF c cp])
  show "map_ok cp" using wf pw_flow_compile_ok(7) [OF c cp] by (simp add: map_ok_def)
  have "distinct (map he_index (cp_hash_entries cp)) \<and>
      (\<forall>e\<in>set (cp_hash_entries cp). unat (he_index e) < PWFPGA_HASH_DEPTH)"
  proof (cases "cp_hash_entries cp = []")
    case False
    show ?thesis
      by (rule pw_flow_compile_hash [OF c cp False]) (use pw_fc_hash_index_bound in auto)
  qed simp
  then show "hash_ok cp" "program_in_range cp"
    using wf by (auto simp: hash_ok_def program_in_range_def card_wf_def)
qed

text \<open>The placed hash entry of every header-classified, measured flow.\<close>

lemma pw_flow_compile_hash_complete:
  assumes c: "pw_flow_compile (Some cfg) = Inr p" and j: "j < length (cfg_flows cfg)"
    and f: "f = cfg_flows cfg ! j" "\<not> flow_background f" "flow_classify_header f" and m: "m = prog_flow_meta p ! j"
  obtains cp e where "cp \<in> set (prog_per_card p)" "cp_card_id cp = meta_rx_card_id m"
    "e \<in> set (cp_hash_entries cp)" "he_key_word e = mask_key (cp_hash_mask cp) (pw_fc_hash_words f)"
    "he_local_flow_id e = meta_rx_local_flow_id m"
proof -
  from pw_flow_compile_cases [OF c] obtain p3 where
    inv: "prog_inv cfg (length (cfg_flows cfg)) p3"
    and place: "map_res (hash_place_card cfg) (prog_per_card p3) = Inr (prog_per_card p)"
    and meta: "prog_flow_meta p = prog_flow_meta p3" .
  have "hash_listed cfg (prog_per_card p3) f m" using inv j f by (simp add: prog_inv_def m meta)
  then obtain c3 e3 where c3: "c3 \<in> set (prog_per_card p3)" "cp_card_id c3 = meta_rx_card_id m"
    and e3: "e3 \<in> set (cp_hash_entries c3)" "he_key_word e3 = pw_fc_hash_words f"
      "he_local_flow_id e3 = meta_rx_local_flow_id m"
    unfolding hash_listed_def by blast
  have "\<exists>cp\<in>set (prog_per_card p). hash_place_card cfg c3 = Inr cp"
    using place c3(1) by (auto simp: map_res_eq_Inr list_all2_conv_all_nth in_set_conv_nth)
  then obtain cp where cp: "cp \<in> set (prog_per_card p)" "hash_place_card cfg c3 = Inr cp" ..
  have ne: "cp_hash_entries c3 \<noteq> []" using e3 by auto
  let ?m = "card_hash_mask cfg (cp_card_id c3)"
  from hash_place_card_Inr [OF cp(2) ne] obtain t where
    cp': "cp = c3\<lparr>cp_hash_seed := hash_seed_of t, cp_hash_mask := ?m,
            cp_hash_entries := map (placed_entry ?m (hash_seed_of t)) (cp_hash_entries c3)\<rparr>" by blast
  have mem: "placed_entry ?m (hash_seed_of t) e3 \<in> set (cp_hash_entries cp)" using e3(1) by (simp add: cp')
  show thesis
    by (rule that [OF cp(1) _ mem]) (use c3 e3 in \<open>simp_all add: cp' placed_entry_def\<close>)
qed

lemma relaxes_rx:
  assumes c: "pw_flow_compile (Some cfg) = Inr p" and j: "j < length (cfg_flows cfg)"
    and f: "f = cfg_flows cfg ! j" "flow_classify_header f" and m: "m = prog_flow_meta p ! j"
  shows "relaxes_card cfg (meta_rx_card_id m) f"
proof -
  from pw_flow_compile_ok(5) [OF c j] obtain tx rx where
    "pw_config_resolve_port (Some cfg) (flow_rx_global_port f) = Inr rx"
    "m = flow_meta_of f tx rx (meta_tx_local_flow_id m) (meta_rx_local_flow_id m)"
    unfolding flow_placed_def f(1) [symmetric] m [symmetric] by blast
  then have "ref_card_id rx = meta_rx_card_id m" by (metis flow_meta_of_def pw_flow_meta.select_convs(3))
  with f(2) \<open>pw_config_resolve_port (Some cfg) (flow_rx_global_port f) = Inr rx\<close>
  show ?thesis by (simp add: relaxes_card_def)
qed

text \<open>A card of the program is determined by its identifier.\<close>

lemma compiled_card_unique:
  assumes c: "pw_flow_compile (Some cfg) = Inr p" and "a \<in> set (prog_per_card p)" "b \<in> set (prog_per_card p)"
    and "cp_card_id a = cp_card_id b"
  shows "a = b"
proof -
  have "distinct (map cp_card_id (prog_per_card p))"
    using pw_flow_compile_ok(1,2) [OF c] by (simp add: valid_config_def valid_cards_def)
  with assms(2-4) show ?thesis by (auto simp: distinct_map inj_on_def)
qed

text \<open>The header look-up finds the flow's slot for every packet the flow generates.\<close>

lemma compiled_hash_lookup:
  assumes c: "pw_flow_compile (Some cfg) = Inr p" and cp: "cp \<in> set (prog_per_card p)"
    and j: "j < length (cfg_flows cfg)" and f: "f = cfg_flows cfg ! j" and m: "m = prog_flow_meta p ! j"
    and k: "\<not> flow_background f" "flow_classify_header f" "cp_card_id cp = meta_rx_card_id m"
    and regs: "holds_tables regs cp"
  shows "hash_lookup regs (rotated_key f r) = Some (meta_rx_local_flow_id m)"
proof -
  from pw_flow_compile_hash_complete [OF c j f k(1,2) m] obtain cp0 e where
    cp0: "cp0 \<in> set (prog_per_card p)" "cp_card_id cp0 = meta_rx_card_id m"
    and e0: "e \<in> set (cp_hash_entries cp0)" "he_key_word e = mask_key (cp_hash_mask cp0) (pw_fc_hash_words f)"
      "he_local_flow_id e = meta_rx_local_flow_id m" .
  have "cp0 = cp" by (rule compiled_card_unique [OF c cp0(1) cp]) (simp add: cp0 k)
  with e0 have e: "e \<in> set (cp_hash_entries cp)" "he_key_word e = mask_key (cp_hash_mask cp) (pw_fc_hash_words f)"
    by simp_all
  have ne: "cp_hash_entries cp \<noteq> []" using e by auto
  have fs: "f \<in> set (cfg_flows cfg)" using j f by simp
  from pw_flow_compile_hash [OF c cp ne] obtain t where
    t: "cp_hash_mask cp = card_hash_mask cfg (cp_card_id cp)"
      "\<forall>e\<in>set (cp_hash_entries cp). he_index e = pw_fc_hash_index (he_key_word e) (cp_hash_seed cp)" by metis
  have masked: "mask_key (cp_hash_mask cp) (rotated_key f r) = he_key_word e"
    unfolding e(2) t(1) k(3) by (rule mask_key_rotated [OF fs relaxes_rx [OF c j f k(2) m]])
  note R = compiled_in_range [OF c cp]
  note H = holds_hash [OF regs R(1) R(3)]
  have len: "length (cp_hash_mask cp) = 11" by (simp add: t(1))
  have idx: "pw_fc_hash_index (he_key_word e) (cp_hash_seed cp) = he_index e" using t(2) e(1) by simp
  have b: "unat (he_index e) < PWFPGA_HASH_DEPTH" using R(1) e(1) by (simp add: program_in_range_def)
  show ?thesis
    unfolding hash_lookup_def Let_def H(2) [OF ne] H(3) [OF ne len] masked idx H(1) [OF b] H(4) [OF e(1)]
    using header_hash.lookup_entry [OF R(3) e(1)] e0(3) by simp
qed

lemma compiled_hash_sound:
  assumes c: "pw_flow_compile (Some cfg) = Inr p" and cp: "cp \<in> set (prog_per_card p)"
    and regs: "holds_tables regs cp" and hit: "hash_lookup regs key = Some l"
  shows "\<exists>j < length (cfg_flows cfg). let f = cfg_flows cfg ! j; m = prog_flow_meta p ! j in
    \<not> flow_background f \<and> flow_classify_header f \<and> meta_rx_card_id m = cp_card_id cp \<and>
    meta_rx_local_flow_id m = l \<and> mask_key (cp_hash_mask cp) key = mask_key (cp_hash_mask cp) (pw_fc_hash_words f)"
proof -
  have ne: "cp_hash_entries cp \<noteq> []"
  proof
    assume e: "cp_hash_entries cp = []"
    have "hash_ctrl_word cp b = 0" for b by (simp add: hash_ctrl_word_def e)
    with hit show False
      using holds_hash(1) [OF regs compiled_in_range(1,3) [OF c cp] pw_fc_hash_index_bound]
      by (simp add: hash_lookup_def Let_def valid_entry_def split: if_splits)
  qed
  from pw_flow_compile_hash [OF c cp ne] obtain t where
    t: "cp_hash_mask cp = card_hash_mask cfg (cp_card_id cp)"
      "\<forall>e\<in>set (cp_hash_entries cp). \<exists>j < length (cfg_flows cfg). \<exists>key.
        hash_entry_of cfg p (cp_card_id cp) key (he_local_flow_id e) j \<and>
        he_key_word e = mask_key (cp_hash_mask cp) key" by metis
  note R = compiled_in_range [OF c cp]
  note H = holds_hash [OF regs R(1) R(3)]
  have len: "length (cp_hash_mask cp) = 11" by (simp add: t(1))
  let ?k = "mask_key (cp_hash_mask cp) key"
  let ?b = "unat (pw_fc_hash_index ?k (cp_hash_seed cp))"
  have hit': "map (\<lambda>w. regs (HASH_KEY_WORD ?b w)) [0..<PWFPGA_HASH_KEY_WORDS] = ?k"
    "valid_entry PWFPGA_HASH_CTRL_VALID (hash_ctrl_word cp ?b) = Some l"
    using hit H(1) [OF pw_fc_hash_index_bound]
    unfolding hash_lookup_def Let_def H(2) [OF ne] H(3) [OF ne len] by (auto split: if_splits)
  from header_hash.lookup_sound [OF R(3) hit'(2)] obtain e where
    e: "e \<in> set (cp_hash_entries cp)" "unat (he_index e) = ?b" "he_local_flow_id e = l" by blast
  have "he_key_word e = ?k" using H(4) [OF e(1)] hit'(1) by (simp only: e(2))
  moreover from t(2) e(1) obtain j kk where "j < length (cfg_flows cfg)"
    "hash_entry_of cfg p (cp_card_id cp) kk l j" "he_key_word e = mask_key (cp_hash_mask cp) kk"
    using e(3) by blast
  ultimately show ?thesis by (intro exI [of _ j]) (auto simp: hash_entry_of_def Let_def)
qed

lemma compiled_map_lookup:
  assumes c: "pw_flow_compile (Some cfg) = Inr p" and cp: "cp \<in> set (prog_per_card p)"
    and regs: "holds_tables regs cp"
  shows "map_lookup regs fid = Some l \<longleftrightarrow>
    (\<exists>j < length (cfg_flows cfg). let f = cfg_flows cfg ! j; m = prog_flow_meta p ! j in
      flow_id f = fid \<and> \<not> flow_background f \<and> \<not> flow_classify_header f \<and>
      meta_rx_card_id m = cp_card_id cp \<and> meta_rx_local_flow_id m = l)" (is "?L \<longleftrightarrow> ?R")
proof
  note R = compiled_in_range [OF c cp]
  assume ?L
  then have d: "unat fid < PWFPGA_FLOWID_MAP_DEPTH"
    and v: "valid_entry PWFPGA_FLOWID_MAP_VALID (map_word cp (unat fid)) = Some l"
    using holds_map [OF regs R(1,2)] by (auto simp: map_lookup_def split: if_splits)
  from flowid_map.lookup_sound [OF R(2) v] obtain e where
    e: "e \<in> set (cp_map_entries cp)" "me_flow_id e = fid" "me_local_flow_id e = l" by auto
  from pw_flow_compile_ok(6) [OF c cp e(1)] obtain j where "j < length (cfg_flows cfg)"
    "map_entry_of cfg p (cp_card_id cp) e j" by blast
  with e show ?R by (intro exI [of _ j]) (auto simp: map_entry_of_def Let_def)
next
  note R = compiled_in_range [OF c cp]
  assume ?R
  then obtain j where j: "j < length (cfg_flows cfg)" and f: "flow_id (cfg_flows cfg ! j) = fid"
    "\<not> flow_background (cfg_flows cfg ! j)" "\<not> flow_classify_header (cfg_flows cfg ! j)"
    "meta_rx_card_id (prog_flow_meta p ! j) = cp_card_id cp" "meta_rx_local_flow_id (prog_flow_meta p ! j) = l"
    by (auto simp: Let_def)
  from pw_flow_compile_ok(5) [OF c j] f(2,3) obtain tx rx rc where
    rc: "rc \<in> set (prog_per_card p)" "cp_card_id rc = ref_card_id rx"
    and m: "prog_flow_meta p ! j = flow_meta_of (cfg_flows cfg ! j) tx rx
      (meta_tx_local_flow_id (prog_flow_meta p ! j)) (meta_rx_local_flow_id (prog_flow_meta p ! j))"
    and leads: "map_leads rc (flow_id (cfg_flows cfg ! j)) (meta_rx_local_flow_id (prog_flow_meta p ! j))"
    unfolding flow_placed_def by blast
  have "meta_rx_card_id (prog_flow_meta p ! j) = ref_card_id rx"
    by (subst m) (simp add: flow_meta_of_def)
  then have "rc = cp" using compiled_card_unique [OF c rc(1) cp] rc(2) f(4) by simp
  with leads f have e: "\<lparr>me_flow_id = fid, me_local_flow_id = l\<rparr> \<in> set (cp_map_entries cp)" (is "?e \<in> _")
    by (simp add: map_leads_def)
  then have d: "unat fid < PWFPGA_FLOWID_MAP_DEPTH" using R(1) by (force simp: program_in_range_def)
  then show ?L
    using flowid_map.lookup_entry [OF R(2) e] holds_map [OF regs R(1,2) d] by (simp add: map_lookup_def)
qed


section \<open>Rows\<close>

text \<open>The fixed-size arrays of a configured flow.\<close>

definition flow_arrays :: "pw_flow \<Rightarrow> bool" where
  "flow_arrays f \<longleftrightarrow>
     length (l2_src_mac (flow_l2 f)) = 6 \<and> length (l2_dst_mac (flow_l2 f)) = 6 \<and>
     length (v6_src (flow_ipv6 f)) = 16 \<and> length (v6_dst (flow_ipv6 f)) = 16 \<and>
     length (enc_inner_src_mac (flow_encap f)) = 6 \<and> length (enc_inner_dst_mac (flow_encap f)) = 6 \<and>
     length (v6_src (enc_outer_ipv6 (flow_encap f))) = 16 \<and> length (v6_dst (enc_outer_ipv6 (flow_encap f))) = 16"

lemma tx_row_wf: "flow_arrays f \<Longrightarrow> row_wf (tx_row f tx same lfid)"
  by (simp add: flow_arrays_def row_wf_def tx_row_def row_payload_def row_rates_def row_l4_mods_def row_encap_def
      row_l3_def row_identity_def Let_def zero_row_def zero_bytes_def mac_mask_bytes_def ipv6_mask_hi_def)

lemma rx_row_wf: "row_wf r \<Longrightarrow> row_wf (rx_row r rx lfid)"
  by (simp add: row_wf_def rx_row_def)

definition rows_wf :: "pw_program \<Rightarrow> bool" where
  "rows_wf p \<longleftrightarrow> (\<forall>cp\<in>set (prog_per_card p). \<forall>r\<in>set (cp_flow_rows cp). row_wf r)"

lemma compile_rx_rows:
  "compile_rx f tr rx same rlf cp = Inr cp' \<Longrightarrow>
     cp_flow_rows cp' = cp_flow_rows cp @ (if same then [] else [rx_row tr rx rlf])"
  by (auto simp: compile_rx_def compile_header_classify_def append_hash_entry_def append_flow_def append_map_def
      Let_def split: if_splits)

lemma compile_one_flow_rows:
  assumes ok: "compile_one_flow cfg p (n, f) = Inr p'" and wf: "rows_wf p" and f: "flow_arrays f"
  shows "rows_wf p'"
proof (rule compile_one_flow_cases [OF ok refl])
  let ?cs = "prog_per_card p"
  fix tx rx ti ri tlf rlf same
  assume i: "card_slot p (ref_card_id tx) = Some ti" "card_slot p (ref_card_id rx) = Some ri"
    and fin: "if flow_background f then prog_per_card p' = with_tx_row ?cs ti f tx same tlf
      else \<exists>cp'. compile_rx f (tx_row f tx same tlf) rx same rlf (with_tx_row ?cs ti f tx same tlf ! ri) = Inr cp' \<and>
                 prog_per_card p' = (with_tx_row ?cs ti f tx same tlf)[ri := cp']"
  let ?cs1 = "with_tx_row ?cs ti f tx same tlf"
  have e1: "\<forall>cp\<in>set ?cs1. \<forall>r\<in>set (cp_flow_rows cp). row_wf r"
    using wf card_slot_SomeD [OF i(1)] tx_row_wf [OF f, of tx same tlf] set_update_subset_insert [of ?cs ti]
    by (fastforce simp: rows_wf_def with_tx_row_def append_flow_def)
  then have rx: "\<forall>r\<in>set (cp_flow_rows cp'). row_wf r"
    if "compile_rx f (tx_row f tx same tlf) rx same rlf (?cs1 ! ri) = Inr cp'" for cp'
    using compile_rx_rows [OF that] card_slot_SomeD [OF i(2)] rx_row_wf [OF tx_row_wf [OF f]]
    by (auto simp: with_tx_row_def)
  show ?thesis
  proof (cases "flow_background f")
    case True
    with fin e1 show ?thesis by (simp add: rows_wf_def)
  next
    case False
    with fin obtain cp' where "prog_per_card p' = ?cs1[ri := cp']" "\<forall>r\<in>set (cp_flow_rows cp'). row_wf r"
      using rx by auto
    with e1 show ?thesis using set_update_subset_insert [of ?cs1 ri cp'] by (auto simp: rows_wf_def)
  qed
qed

text \<open>The rows and the metadata, which the rules and the hash placement leave alone.\<close>

definition rows_view :: "pw_program \<Rightarrow> (u16 \<times> pwfpga_flow_config list) list \<times> pw_flow_meta list" where
  "rows_view p = (map (\<lambda>cp. (cp_card_id cp, cp_flow_rows cp)) (prog_per_card p), prog_flow_meta p)"

lemma rows_view_wf: "rows_view p = rows_view q \<Longrightarrow> rows_wf p \<longleftrightarrow> rows_wf q"
proof -
  have "rows_wf p \<longleftrightarrow> (\<forall>(_, rows)\<in>set (fst (rows_view p)). \<forall>r\<in>set rows. row_wf r)" for p
    by (auto simp: rows_wf_def rows_view_def)
  then show "rows_view p = rows_view q \<Longrightarrow> ?thesis" by simp
qed

lemma upd_card_view:
  assumes "i < length (prog_per_card p)" "extends (prog_per_card p ! i) cp" "same_flows (prog_per_card p ! i) cp"
  shows "rows_view (upd_card i cp p) = rows_view p"
  using assms extends_card_id [OF assms(2)]
  by (simp add: rows_view_def upd_card_def same_flows_def map_update list_update_same_conv)

lemma compile_punt_lif_view:
  assumes "compile_punt_lif cfg p l = Inr p'" and inv: "prog_inv cfg k p"
  shows "rows_view p' = rows_view p"
proof -
  from assms(1) obtain ref i cp where i: "card_slot p (ref_card_id ref) = Some i"
    and f: "fold_res (add_punt_rule ref l) (prog_per_card p ! i) (punt_list (lif_punt l)) = Inr cp"
    and p': "p' = upd_card i cp p"
    by (auto simp: compile_punt_lif_def rbind_eq_Inr)
  have iL: "i < length (prog_per_card p)" using card_slot_SomeD [OF i] by simp
  have "card_wf cp \<and> extends (prog_per_card p ! i) cp \<and> same_flows (prog_per_card p ! i) cp"
  proof (rule fold_res_inv [OF f])
    show "card_wf (prog_per_card p ! i) \<and> extends (prog_per_card p ! i) (prog_per_card p ! i) \<and>
        same_flows (prog_per_card p ! i) (prog_per_card p ! i)"
      using inv iL by (simp add: prog_inv_def)
    show "card_wf c' \<and> extends (prog_per_card p ! i) c' \<and> same_flows (prog_per_card p ! i) c'"
      if "card_wf c \<and> extends (prog_per_card p ! i) c \<and> same_flows (prog_per_card p ! i) c" "add_punt_rule ref l c x = Inr c'"
      for c x c'
      using add_punt_rule_ok [OF that(2)] that(1) same_flows_trans extends_trans by blast
  qed
  then show ?thesis unfolding p' using upd_card_view [OF iL] by blast
qed

lemma compile_forward_view:
  assumes "compile_forward cfg p fr = Inr p'" and inv: "prog_inv cfg k p"
  shows "rows_view p' = rows_view p"
proof -
  from assms(1) obtain ing egr i cp where i: "card_slot p (ref_card_id ing) = Some i"
    and f: "add_forward_rule ing egr fr (prog_per_card p ! i) = Inr cp" and p': "p' = upd_card i cp p"
    by (auto simp: compile_forward_def rbind_eq_Inr)
  have iL: "i < length (prog_per_card p)" using card_slot_SomeD [OF i] by simp
  have "card_wf (prog_per_card p ! i)" using inv iL by (simp add: prog_inv_def)
  then show ?thesis unfolding p' using upd_card_view [OF iL] add_forward_rule_ok [OF f] by blast
qed

lemma compile_rules_view:
  assumes "compile_punt_rules cfg p1 = Inr p2" "compile_forward_rules cfg p2 = Inr p3" "prog_inv cfg k p1"
  shows "rows_view p3 = rows_view p1"
proof -
  let ?I = "\<lambda>q. prog_inv cfg k q \<and> rows_view q = rows_view p1"
  have "?I p2"
    by (rule fold_res_inv [where I = ?I, OF assms(1) [unfolded compile_punt_rules_def]])
      (use assms(3) compile_punt_lif_inv compile_punt_lif_view in \<open>simp, metis\<close>)
  then have "?I p3"
    by (rule fold_res_inv [where I = ?I, OF assms(2) [unfolded compile_forward_rules_def]])
      (metis compile_forward_inv compile_forward_view)
  then show ?thesis ..
qed

lemma hash_place_view:
  assumes "map_res (hash_place_card cfg) (prog_per_card p3) = Inr (prog_per_card p)" "prog_flow_meta p = prog_flow_meta p3"
  shows "rows_view p = rows_view p3"
  using assms by (auto simp: rows_view_def map_res_eq_Inr list_all2_conv_all_nth hash_place_card_frame intro!: nth_equalityI)

lemma compiled_rows_wf:
  assumes c: "pw_flow_compile (Some cfg) = Inr p" and f: "\<forall>f\<in>set (cfg_flows cfg). flow_arrays f"
    and cp: "cp \<in> set (prog_per_card p)"
  shows "\<forall>r\<in>set (cp_flow_rows cp). row_wf r"
proof -
  let ?n = "length (cfg_flows cfg)"
  from pw_flow_compile_phases [OF c] obtain p1 p2 p3 where
    P: "compile_flows cfg = Inr p1" "compile_punt_rules cfg p1 = Inr p2" "compile_forward_rules cfg p2 = Inr p3"
    "map_res (hash_place_card cfg) (prog_per_card p3) = Inr (prog_per_card p)" "prog_flow_meta p = prog_flow_meta p3"
    and inv: "prog_inv cfg ?n p1" .
  have a: "\<forall>x\<in>set (zip [0..<?n] (cfg_flows cfg)). flow_arrays (snd x)" using f by (auto dest: set_zip_rightD)
  have r1: "rows_wf p1"
  proof (rule fold_res_inv [where I = rows_wf, OF P(1) [unfolded compile_flows_def]])
    show "rows_wf (init_program cfg)" by (simp add: rows_wf_def init_program_def empty_card_program_def)
    show "rows_wf q'" if "x \<in> set (zip [0..<?n] (cfg_flows cfg))" "rows_wf q" "compile_one_flow cfg q x = Inr q'" for q x q'
      using compile_one_flow_rows [of cfg q "fst x" "snd x" q'] that a by simp
  qed
  then have "rows_wf p"
    using rows_view_wf [OF hash_place_view [OF P(4,5)]] rows_view_wf [OF compile_rules_view [OF P(2,3) inv]] by simp
  with cp show ?thesis by (simp add: rows_wf_def)
qed


text \<open>A row belongs to one flow: different flows never share a slot of a card.\<close>

lemma placed_row_id:
  assumes "flow_placed cfg cards f m"
  obtains tc rc where "tc \<in> set cards" "cp_card_id tc = meta_tx_card_id m"
    "unat (meta_tx_local_flow_id m) < length (cp_flow_rows tc)"
    "row_global_flow_id (cp_flow_rows tc ! unat (meta_tx_local_flow_id m)) = flow_id f"
    "rc \<in> set cards" "cp_card_id rc = meta_rx_card_id m"
    "\<not> flow_background f \<longrightarrow> unat (meta_rx_local_flow_id m) < length (cp_flow_rows rc) \<and>
       row_global_flow_id (cp_flow_rows rc ! unat (meta_rx_local_flow_id m)) = flow_id f"
proof -
  from assms obtain tx rx tc rc where
    A: "tc \<in> set cards" "cp_card_id tc = ref_card_id tx" "rc \<in> set cards" "cp_card_id rc = ref_card_id rx"
    and m: "m = flow_meta_of f tx rx (meta_tx_local_flow_id m) (meta_rx_local_flow_id m)"
    and t: "slot_has tc (meta_tx_local_flow_id m)
         (tx_row f tx (ref_card_id tx = ref_card_id rx) (meta_tx_local_flow_id m))"
    and r: "\<not> flow_background f \<longrightarrow> slot_has rc (meta_rx_local_flow_id m) (rx_slot_row f tx rx m)"
    unfolding flow_placed_def by blast
  have ids: "meta_tx_card_id m = ref_card_id tx" "meta_rx_card_id m = ref_card_id rx"
    by (subst m, simp add: flow_meta_of_def)+
  show thesis
    by (rule that [of tc rc]) (use A t r ids in \<open>auto simp: slot_has_def rx_slot_row_def Let_def\<close>)
qed

lemma compiled_slots_exclusive:
  assumes c: "pw_flow_compile (Some cfg) = Inr p" and j: "j < length (cfg_flows cfg)" "k < length (cfg_flows cfg)"
    and ne: "j \<noteq> k"
  defines "m \<equiv> prog_flow_meta p ! j" and "n \<equiv> prog_flow_meta p ! k"
  shows "(meta_tx_card_id m, meta_tx_local_flow_id m) \<noteq> (meta_tx_card_id n, meta_tx_local_flow_id n)"
    and "\<not> flow_background (cfg_flows cfg ! k) \<Longrightarrow>
      (meta_tx_card_id m, meta_tx_local_flow_id m) \<noteq> (meta_rx_card_id n, meta_rx_local_flow_id n)"
    and "\<not> flow_background (cfg_flows cfg ! j) \<Longrightarrow> \<not> flow_background (cfg_flows cfg ! k) \<Longrightarrow>
      (meta_rx_card_id m, meta_rx_local_flow_id m) \<noteq> (meta_rx_card_id n, meta_rx_local_flow_id n)"
proof -
  have "distinct (map flow_id (cfg_flows cfg))" using pw_flow_compile_ok(1) [OF c] by (simp add: valid_config_def)
  then have id: "flow_id (cfg_flows cfg ! j) \<noteq> flow_id (cfg_flows cfg ! k)"
    using j ne nth_eq_iff_index_eq [of "map flow_id (cfg_flows cfg)" j k] by auto
  note U = compiled_card_unique [OF c]
  obtain tj rj where J: "tj \<in> set (prog_per_card p)" "cp_card_id tj = meta_tx_card_id m"
    "row_global_flow_id (cp_flow_rows tj ! unat (meta_tx_local_flow_id m)) = flow_id (cfg_flows cfg ! j)"
    "rj \<in> set (prog_per_card p)" "cp_card_id rj = meta_rx_card_id m"
    "\<not> flow_background (cfg_flows cfg ! j) \<longrightarrow>
       row_global_flow_id (cp_flow_rows rj ! unat (meta_rx_local_flow_id m)) = flow_id (cfg_flows cfg ! j)"
    by (rule placed_row_id [OF pw_flow_compile_ok(5) [OF c j(1)]]) (auto simp: m_def)
  obtain tk rk where K: "tk \<in> set (prog_per_card p)" "cp_card_id tk = meta_tx_card_id n"
    "row_global_flow_id (cp_flow_rows tk ! unat (meta_tx_local_flow_id n)) = flow_id (cfg_flows cfg ! k)"
    "rk \<in> set (prog_per_card p)" "cp_card_id rk = meta_rx_card_id n"
    "\<not> flow_background (cfg_flows cfg ! k) \<longrightarrow>
       row_global_flow_id (cp_flow_rows rk ! unat (meta_rx_local_flow_id n)) = flow_id (cfg_flows cfg ! k)"
    by (rule placed_row_id [OF pw_flow_compile_ok(5) [OF c j(2)]]) (auto simp: n_def)
  show "(meta_tx_card_id m, meta_tx_local_flow_id m) \<noteq> (meta_tx_card_id n, meta_tx_local_flow_id n)"
    using id J(2,3) K(2,3) U [OF J(1) K(1)] by auto
  show "(meta_tx_card_id m, meta_tx_local_flow_id m) \<noteq> (meta_rx_card_id n, meta_rx_local_flow_id n)"
    if "\<not> flow_background (cfg_flows cfg ! k)"
    using id that J(2,3) K(5,6) U [OF J(1) K(4)] by auto
  show "(meta_rx_card_id m, meta_rx_local_flow_id m) \<noteq> (meta_rx_card_id n, meta_rx_local_flow_id n)"
    if "\<not> flow_background (cfg_flows cfg ! j)" "\<not> flow_background (cfg_flows cfg ! k)"
    using id that J(5,6) K(5,6) U [OF J(4) K(4)] by auto
qed

section \<open>Programmed through the BAR\<close>

text \<open>A card that is ready to be programmed: mapped, and with room for the rows of the program.\<close>

definition card_ready :: "bar_ctx \<Rightarrow> pw_card_program \<Rightarrow> bool" where
  "card_ready c cp \<longleftrightarrow>
     bar_live c \<and>
     (let nlf = unat (ucast (bar_get c PWFPGA_REG_NUM_LOCAL_FLOWS) :: u16)
      in nlf = 0 \<or> length (cp_flow_rows cp) \<le> nlf)"

lemma compiled_bar_program:
  assumes c: "pw_flow_compile (Some cfg) = Inr p" and f: "\<forall>f\<in>set (cfg_flows cfg). flow_arrays f"
    and cp: "cp \<in> set (prog_per_card p)" and ready: "card_ready c0 cp"
    and run: "pw_program_card_tables (Some bar_ops) c0 (Some cp) = (c', s)"
  shows "s = PW_OK" "holds_tables (bar_get c') cp" "bar_get c' PWFPGA_REG_FLOW_COMMIT = 1"
    and "r < length (cp_flow_rows cp) \<Longrightarrow> row_bytes c' (of_nat r) = flow_config_bytes (cp_flow_rows cp ! r)"
proof -
  have live: "bar_live c0" using ready by (simp add: card_ready_def)
  note B = bar_program [OF live compiled_in_range(1) [OF c cp] compiled_rows_wf [OF c f cp] refl _ run]
  have n: "unat (ucast (bar_get c0 PWFPGA_REG_NUM_LOCAL_FLOWS) :: u16) = 0 \<or>
      length (cp_flow_rows cp) \<le> unat (ucast (bar_get c0 PWFPGA_REG_NUM_LOCAL_FLOWS) :: u16)"
    using ready by (simp add: card_ready_def Let_def)
  show "s = PW_OK" by (rule B(1) [OF n])
  show "holds_tables (bar_get c') cp" unfolding holds_tables_def using B(3) [OF n] by blast
  show "bar_get c' PWFPGA_REG_FLOW_COMMIT = 1" by (rule B(4) [OF n])
  show "row_bytes c' (of_nat r) = flow_config_bytes (cp_flow_rows cp ! r)" if "r < length (cp_flow_rows cp)"
    using B(2) [OF n, of r] that pw_flow_compile_ok(4) [OF c cp] by (auto simp: card_wf_def row_image_def)
qed

end
