(* ===== verification/PW_Gpio_Sync.thy ===== *)
theory PW_Gpio_Sync
  imports PW_Bar_Backend
begin

text \<open>
  Cross-card time synchronisation, \<^verbatim>\<open>gpio_sync.c\<close>: the control word, the latched 64-bit time stamp,
  the edge-coherent offset of two cards and the per-flow latency correction. A register read of
  either card is a function over a state of the two cards (reading the low half of a time stamp
  latches its high half, and edges arrive between any two reads).
\<close>

section \<open>Operations\<close>

definition mkctrl :: "int \<Rightarrow> int \<Rightarrow> int \<Rightarrow> int \<Rightarrow> int \<Rightarrow> int \<Rightarrow> u32" where
  "mkctrl en master rep in_sel out_sel per =
     (of_int en AND 1) OR push_bit 1 (of_int master AND 1) OR push_bit 2 (of_int rep AND 1) OR
     push_bit 4 (of_int in_sel AND 7) OR push_bit 8 (of_int out_sel AND 7) OR
     push_bit 16 (of_int per AND 0xF)"

definition wr :: "('c \<Rightarrow> u32 \<Rightarrow> u32 \<Rightarrow> 'c \<times> pw_status) option \<Rightarrow> 'c \<Rightarrow> u32 \<Rightarrow> u32 \<Rightarrow> 'c" where
  "wr w32 c off v = (case w32 of None \<Rightarrow> c | Some w \<Rightarrow> fst (w c off v))"

definition pw_gpio_sync_master ::
  "('c \<Rightarrow> u32 \<Rightarrow> u32 \<Rightarrow> 'c \<times> pw_status) option \<Rightarrow> 'c \<Rightarrow> int \<Rightarrow> int \<Rightarrow> 'c" where
  "pw_gpio_sync_master w32 c out_pin period_log2 =
     wr w32 c PWFPGA_REG_GPIO_SYNC_CTRL (mkctrl 1 1 0 0 out_pin period_log2)"

definition pw_gpio_sync_slave :: "('c \<Rightarrow> u32 \<Rightarrow> u32 \<Rightarrow> 'c \<times> pw_status) option \<Rightarrow> 'c \<Rightarrow> int \<Rightarrow> 'c" where
  "pw_gpio_sync_slave w32 c in_pin = wr w32 c PWFPGA_REG_GPIO_SYNC_CTRL (mkctrl 1 0 0 in_pin 1 0)"

definition pw_gpio_sync_disable :: "('c \<Rightarrow> u32 \<Rightarrow> u32 \<Rightarrow> 'c \<times> pw_status) option \<Rightarrow> 'c \<Rightarrow> 'c" where
  "pw_gpio_sync_disable w32 c = wr w32 c PWFPGA_REG_GPIO_SYNC_CTRL 0"

text \<open>Reads of one card: state to state and the value (0 where the read fails).\<close>

type_synonym 'w reader = "'w \<Rightarrow> u32 \<Rightarrow> 'w \<times> u32"

definition pw_gpio_sync_ts :: "'w reader option \<Rightarrow> 'w \<Rightarrow> 'w \<times> u64" where
  "pw_gpio_sync_ts o_rd w =
     (case o_rd of None \<Rightarrow> (w, 0)
      | Some rd \<Rightarrow>
          let (w1, lo) = rd w PWFPGA_REG_GPIO_SYNC_TS_LOW;
              (w2, hi) = rd w1 PWFPGA_REG_GPIO_SYNC_TS_HIGH
          in (w2, push_bit 32 (ucast hi) OR ucast lo))"

definition pw_gpio_sync_seq :: "'w reader option \<Rightarrow> 'w \<Rightarrow> 'w \<times> u32" where
  "pw_gpio_sync_seq o_rd w =
     (case o_rd of None \<Rightarrow> (w, 0) | Some rd \<Rightarrow> rd w PWFPGA_REG_GPIO_SYNC_SEQ)"

definition pw_gpio_sync_offset :: "'w reader option \<Rightarrow> 'w reader option \<Rightarrow> 'w \<Rightarrow> 'w \<times> u64" where
  "pw_gpio_sync_offset tx rx w =
     (let (w1, a) = pw_gpio_sync_ts tx w; (w2, b) = pw_gpio_sync_ts rx w1 in (w2, a - b))"

text \<open>One attempt, and the loop of at most eight.\<close>

definition coherent_try :: "'w reader \<Rightarrow> 'w reader \<Rightarrow> 'w \<Rightarrow> 'w \<times> u64 option" where
  "coherent_try tx rx w =
     (let (w1, s_tx_a) = tx w PWFPGA_REG_GPIO_SYNC_SEQ;
          (w2, s_rx_a) = rx w1 PWFPGA_REG_GPIO_SYNC_SEQ;
          (w3, ts_tx) = pw_gpio_sync_ts (Some tx) w2;
          (w4, ts_rx) = pw_gpio_sync_ts (Some rx) w3;
          (w5, s_tx_b) = tx w4 PWFPGA_REG_GPIO_SYNC_SEQ;
          (w6, s_rx_b) = rx w5 PWFPGA_REG_GPIO_SYNC_SEQ
      in (w6, if s_tx_a \<noteq> 0 \<and> s_rx_a \<noteq> 0 \<and> s_tx_a = s_tx_b \<and> s_rx_a = s_rx_b
              then Some (ts_tx - ts_rx) else None))"

primrec coherent_tries :: "'w reader \<Rightarrow> 'w reader \<Rightarrow> nat \<Rightarrow> 'w \<Rightarrow> 'w \<times> u64 option" where
  "coherent_tries tx rx 0 w = (w, None)"
| "coherent_tries tx rx (Suc n) w =
     (case coherent_try tx rx w of (w', Some d) \<Rightarrow> (w', Some d) | (w', None) \<Rightarrow> coherent_tries tx rx n w')"

definition pw_gpio_sync_offset_coherent ::
  "'w reader option \<Rightarrow> 'w reader option \<Rightarrow> 'w \<Rightarrow> 'w \<times> u64 option" where
  "pw_gpio_sync_offset_coherent o_tx o_rx w =
     (case (o_tx, o_rx) of (Some tx, Some rx) \<Rightarrow> coherent_tries tx rx 8 w | _ \<Rightarrow> (w, None))"

definition correction_base :: "nat \<Rightarrow> u32" where
  "correction_base slot = PWFPGA_REG_LAT_CORRECTION_BASE + of_nat slot * 8"

definition pw_gpio_sync_write_correction ::
  "('c \<Rightarrow> u32 \<Rightarrow> u32 \<Rightarrow> 'c \<times> pw_status) option \<Rightarrow> 'c \<Rightarrow> nat \<Rightarrow> u64 \<Rightarrow> 'c" where
  "pw_gpio_sync_write_correction w32 c slot corr =
     (if slot \<ge> PWFPGA_FLOW_TABLE_ROWS then c
      else let c1 = wr w32 c (correction_base slot) (ucast corr)
           in wr w32 c1 (correction_base slot + 4) (ucast (drop_bit 32 corr)))"

section \<open>The correction window\<close>

lemma correction_base_nat: "slot < PWFPGA_FLOW_TABLE_ROWS \<Longrightarrow> unat (correction_base slot) = 0x180 + 8 * slot"
  by (simp add: correction_base_def csr_regs csr_capacities unat_word_ariths unat_of_nat take_bit_nat_eq_self)

lemma correction_hi_nat: "slot < PWFPGA_FLOW_TABLE_ROWS \<Longrightarrow> unat (correction_base slot + 4) = 0x184 + 8 * slot"
  using correction_base_nat [of slot] by (simp add: unat_word_ariths csr_capacities)

lemma halves_join: "push_bit 32 (ucast (ucast (drop_bit 32 v) :: u32)) OR ucast (ucast v :: u32) = (v :: u64)"
  by (rule bit_word_eqI) (auto simp: bit_simps)

lemma write_correction_regs:
  fixes c :: bar_ctx and slot :: nat and corr :: u64
  assumes live: "bar_live c" and slot: "slot < PWFPGA_FLOW_TABLE_ROWS"
  defines "c' \<equiv> pw_gpio_sync_write_correction (Some bar_write32) c slot corr"
  shows "push_bit 32 (ucast (bar_get c' (correction_base slot + 4))) OR ucast (bar_get c' (correction_base slot)) = corr"
    and "csr_word a \<Longrightarrow> unat a \<notin> {0x180 + 8 * slot, 0x184 + 8 * slot} \<Longrightarrow> bar_get c' a = bar_get c a"
proof -
  note b = correction_base_nat [OF slot] correction_hi_nat [OF slot]
  have s64: "slot < 64" using slot by (simp add: csr_capacities)
  have w: "csr_word (correction_base slot)" "csr_word (correction_base slot + 4)"
    unfolding csr_word_def b using s64 by (auto simp: dvd_add_right_iff)
  define c1 where "c1 = fst (bar_write32 c (correction_base slot) (ucast corr))"
  have live1: "bar_live c1" unfolding c1_def by (rule bar.write_live [OF live w(1)])
  have c': "c' = fst (bar_write32 c1 (correction_base slot + 4) (ucast (drop_bit 32 corr)))"
    using slot by (simp add: c'_def pw_gpio_sync_write_correction_def wr_def c1_def)
  have get: "bar_get c' a = (if a = correction_base slot + 4 then ucast (drop_bit 32 corr)
      else if a = correction_base slot then ucast corr else bar_get c a)" if "csr_word a" for a
    using bar.read_back [OF live1 w(2) that] bar.read_back [OF live w(1) that] by (simp add: c' c1_def)
  have ne: "correction_base slot + 4 \<noteq> correction_base slot" by simp
  show "push_bit 32 (ucast (bar_get c' (correction_base slot + 4))) OR ucast (bar_get c' (correction_base slot)) = corr"
    using ne halves_join [of corr] by (simp add: get [OF w(1)] get [OF w(2)])
  show "bar_get c' a = bar_get c a" if "csr_word a" "unat a \<notin> {0x180 + 8 * slot, 0x184 + 8 * slot}"
    using that(2) b by (subst get [OF that(1)]) auto
qed

section \<open>Edge coherence\<close>

text \<open>
  Two cards driven by the same edges. The state is the number of register accesses so far and the
  two latched high halves; \<open>edges k\<close> is the number of shared edges before access \<open>k\<close>, and
  \<open>lat n\<close> the counter value a card latched at the \<open>n\<close>-th edge. \<open>SEQ\<close> counts the edges from a start
  value of the card's own (the cards need not have been enabled together), and reading the low half
  latches the high half of the same edge.
\<close>

record sync_world =
  sw_accesses :: nat
  sw_hi_tx :: u32
  sw_hi_rx :: u32

definition sync_rd ::
  "(nat \<Rightarrow> nat) \<Rightarrow> u32 \<Rightarrow> (nat \<Rightarrow> u64) \<Rightarrow> (sync_world \<Rightarrow> u32) \<Rightarrow> ((u32 \<Rightarrow> u32) \<Rightarrow> sync_world \<Rightarrow> sync_world) \<Rightarrow>
     sync_world reader" where
  "sync_rd edges seq0 lat hi set_hi w off =
     (let n = edges (sw_accesses w); w' = w\<lparr>sw_accesses := Suc (sw_accesses w)\<rparr>
      in if off = PWFPGA_REG_GPIO_SYNC_SEQ then (w', seq0 + of_nat n)
         else if off = PWFPGA_REG_GPIO_SYNC_TS_LOW
         then (set_hi (\<lambda>_. ucast (drop_bit 32 (lat n))) w', ucast (lat n))
         else if off = PWFPGA_REG_GPIO_SYNC_TS_HIGH then (w', hi w)
         else (w', 0))"

definition tx_rd :: "(nat \<Rightarrow> nat) \<Rightarrow> u32 \<Rightarrow> (nat \<Rightarrow> u64) \<Rightarrow> sync_world reader" where
  "tx_rd edges seq0 lat = sync_rd edges seq0 lat sw_hi_tx sw_hi_tx_update"

definition rx_rd :: "(nat \<Rightarrow> nat) \<Rightarrow> u32 \<Rightarrow> (nat \<Rightarrow> u64) \<Rightarrow> sync_world reader" where
  "rx_rd edges seq0 lat = sync_rd edges seq0 lat sw_hi_rx sw_hi_rx_update"

lemma sync_regs_distinct [simp]:
  "PWFPGA_REG_GPIO_SYNC_TS_LOW \<noteq> PWFPGA_REG_GPIO_SYNC_SEQ"
  "PWFPGA_REG_GPIO_SYNC_TS_HIGH \<noteq> PWFPGA_REG_GPIO_SYNC_SEQ"
  "PWFPGA_REG_GPIO_SYNC_TS_HIGH \<noteq> PWFPGA_REG_GPIO_SYNC_TS_LOW"
  by (simp_all add: csr_regs)

lemma sync_ts:
  "pw_gpio_sync_ts (Some (tx_rd edges seq0 lat)) w =
     (w\<lparr>sw_accesses := sw_accesses w + 2, sw_hi_tx := ucast (drop_bit 32 (lat (edges (sw_accesses w))))\<rparr>,
      lat (edges (sw_accesses w)))"
  "pw_gpio_sync_ts (Some (rx_rd edges seq0 lat)) w =
     (w\<lparr>sw_accesses := sw_accesses w + 2, sw_hi_rx := ucast (drop_bit 32 (lat (edges (sw_accesses w))))\<rparr>,
      lat (edges (sw_accesses w)))"
  by (simp_all add: pw_gpio_sync_ts_def tx_rd_def rx_rd_def sync_rd_def Let_def halves_join)

text \<open>An attempt is eight accesses; it succeeds exactly when the sequence numbers at its two ends agree.\<close>

lemma coherent_try_sync:
  "coherent_try (tx_rd edges s_tx lat_tx) (rx_rd edges s_rx lat_rx) w =
     (let k = sw_accesses w; e = edges
      in (w\<lparr>sw_accesses := k + 8, sw_hi_tx := ucast (drop_bit 32 (lat_tx (e (k + 2)))),
            sw_hi_rx := ucast (drop_bit 32 (lat_rx (e (k + 4))))\<rparr>,
          if s_tx + of_nat (e k) \<noteq> 0 \<and> s_rx + of_nat (e (k + 1)) \<noteq> 0 \<and>
             (of_nat (e k) :: u32) = of_nat (e (k + 6)) \<and> (of_nat (e (k + 1)) :: u32) = of_nat (e (k + 7))
          then Some (lat_tx (e (k + 2)) - lat_rx (e (k + 4))) else None))"
proof -
  have seq: "tx_rd edges s0 l w PWFPGA_REG_GPIO_SYNC_SEQ =
      (w\<lparr>sw_accesses := Suc (sw_accesses w)\<rparr>, s0 + of_nat (edges (sw_accesses w)))"
    "rx_rd edges s0 l w PWFPGA_REG_GPIO_SYNC_SEQ =
      (w\<lparr>sw_accesses := Suc (sw_accesses w)\<rparr>, s0 + of_nat (edges (sw_accesses w)))" for s0 l w
    by (simp_all add: tx_rd_def rx_rd_def sync_rd_def Let_def)
  show ?thesis by (auto simp: coherent_try_def seq sync_ts Let_def eval_nat_numeral)
qed

lemma of_nat_u32_inj:
  assumes "m \<le> n" "n - m < 2 ^ 32" "(of_nat m :: u32) = of_nat n"
  shows "m = n"
proof -
  have "(of_nat (n - m) :: u32) = 0" using assms by (simp add: of_nat_diff)
  then have "2 ^ 32 dvd n - m" by (simp add: word_of_nat_eq_0_iff)
  then show ?thesis using assms(1,2) by (auto dest: dvd_imp_le)
qed

lemma coherent_tries_same_edge:
  assumes mono: "mono edges" and slow: "\<And>k. edges (k + 8) < edges k + 2 ^ 32"
    and run: "coherent_tries (tx_rd edges s_tx lat_tx) (rx_rd edges s_rx lat_rx) t w = (w', Some d)"
  shows "\<exists>n. d = lat_tx n - lat_rx n"
  using run
proof (induction t arbitrary: w)
  case (Suc t)
  define k where "k = sw_accesses w"
  show ?case
  proof (cases "snd (coherent_try (tx_rd edges s_tx lat_tx) (rx_rd edges s_rx lat_rx) w)")
    case None
    then show ?thesis using Suc by (auto simp: split: prod.splits option.splits)
  next
    case (Some d')
    then have d: "d = d'" using Suc.prems by (auto split: prod.splits option.splits)
    have le: "edges i \<le> edges j" if "i \<le> j" for i j using monoD [OF mono that] .
    have "(of_nat (edges k) :: u32) = of_nat (edges (k + 6))"
      and d': "d' = lat_tx (edges (k + 2)) - lat_rx (edges (k + 4))"
      using Some by (auto simp: coherent_try_sync Let_def k_def split: if_splits)
    moreover have "edges (k + 6) - edges k < 2 ^ 32"
    proof -
      have "edges (k + 6) \<le> edges (k + 8)" by (rule le) simp
      with slow [of k] show ?thesis by simp
    qed
    ultimately have "edges k = edges (k + 6)"
      using of_nat_u32_inj [OF le] by simp
    then have "edges (k + 2) = edges k" "edges (k + 4) = edges k"
      using le [of k "k + 2"] le [of "k + 2" "k + 6"] le [of k "k + 4"] le [of "k + 4" "k + 6"] by auto
    then show ?thesis unfolding d d' by auto
  qed
qed simp

lemma coherent_stable:
  assumes "\<And>i. k \<le> i \<Longrightarrow> edges i = n" "s_tx + of_nat n \<noteq> 0" "s_rx + of_nat n \<noteq> 0" "sw_accesses w = k"
  shows "snd (pw_gpio_sync_offset_coherent (Some (tx_rd edges s_tx lat_tx)) (Some (rx_rd edges s_rx lat_rx)) w) =
    Some (lat_tx n - lat_rx n)"
proof -
  have "edges k = n" "edges (k + 1) = n" "edges (k + 2) = n" "edges (k + 4) = n" "edges (k + 6) = n" "edges (k + 7) = n"
    by (simp_all add: assms(1))
  then have "snd (coherent_try (tx_rd edges s_tx lat_tx) (rx_rd edges s_rx lat_rx) w) = Some (lat_tx n - lat_rx n)"
    by (simp add: coherent_try_sync Let_def assms)
  then obtain w1 where "coherent_try (tx_rd edges s_tx lat_tx) (rx_rd edges s_rx lat_rx) w =
      (w1, Some (lat_tx n - lat_rx n))" by (metis prod.collapse)
  then have "coherent_tries (tx_rd edges s_tx lat_tx) (rx_rd edges s_rx lat_rx) 8 w =
      (w1, Some (lat_tx n - lat_rx n))" by (simp only: eval_nat_numeral coherent_tries.simps prod.case option.case)
  then show ?thesis by (simp add: pw_gpio_sync_offset_coherent_def)
qed


section \<open>Properties\<close>

text \<open>
  A coherent offset compares the same edge: with two cards that latch on shared edges, fewer than
  \<open>2\<^sup>3\<^sup>2\<close> of them per attempt, an offset that \<open>pw_gpio_sync_offset_coherent\<close> returns is the difference of the
  two cards' counters at one and the same edge, however the edges fall between its register reads; and when
  no edge falls between them it does return one.
\<close>

lemma coherent_offset_same_edge:
  assumes "mono edges" and "\<forall>k. edges (k + 8) < edges k + 2 ^ 32"
  shows "(snd (pw_gpio_sync_offset_coherent (Some (tx_rd edges s_tx lat_tx)) (Some (rx_rd edges s_rx lat_rx)) w) = Some d \<longrightarrow>
      (\<exists>e. d = lat_tx e - lat_rx e)) \<and>
    ((\<forall>i \<ge> sw_accesses w. edges i = n) \<and> s_tx + of_nat n \<noteq> 0 \<and> s_rx + of_nat n \<noteq> 0 \<longrightarrow>
      snd (pw_gpio_sync_offset_coherent (Some (tx_rd edges s_tx lat_tx)) (Some (rx_rd edges s_rx lat_rx)) w) =
        Some (lat_tx n - lat_rx n))"
proof (intro conjI impI)
  assume "snd (pw_gpio_sync_offset_coherent (Some (tx_rd edges s_tx lat_tx)) (Some (rx_rd edges s_rx lat_rx)) w) = Some d"
  then obtain w' where "coherent_tries (tx_rd edges s_tx lat_tx) (rx_rd edges s_rx lat_rx) 8 w = (w', Some d)"
    by (cases "coherent_tries (tx_rd edges s_tx lat_tx) (rx_rd edges s_rx lat_rx) 8 w")
      (simp add: pw_gpio_sync_offset_coherent_def)
  then show "\<exists>e. d = lat_tx e - lat_rx e"
    using coherent_tries_same_edge [OF assms(1)] assms(2) by blast
qed (use coherent_stable in blast)

lemma coherent_offset_same_edge_witness:
  "snd (pw_gpio_sync_offset_coherent (Some (tx_rd (\<lambda>_. 3) 0 (\<lambda>n. 1000 * of_nat n))) (Some (rx_rd (\<lambda>_. 3) 9 (\<lambda>n. 7)))
     \<lparr>sw_accesses = 0, sw_hi_tx = 0, sw_hi_rx = 0\<rparr>) = Some 2993"
  using coherent_offset_same_edge [of "\<lambda>_. 3" 0 "\<lambda>n. 1000 * of_nat n" 9 "\<lambda>n. 7" "\<lparr>sw_accesses = 0, sw_hi_tx = 0, sw_hi_rx = 0\<rparr>" _ 3]
  by (simp add: mono_def)

text \<open>
  A latency correction lands in its own slot and nowhere else: on a mapped card the two words of the slot
  read back as the 64-bit correction, every other register keeps its value, and a slot past the table writes nothing.
\<close>

lemma write_correction_slot:
  assumes "bar_live c" and "c' = pw_gpio_sync_write_correction (Some bar_write32) c slot corr"
  shows "if slot < PWFPGA_FLOW_TABLE_ROWS
    then push_bit 32 (ucast (bar_get c' (correction_base slot + 4))) OR ucast (bar_get c' (correction_base slot)) = corr \<and>
      (\<forall>a. csr_word a \<and> unat a \<notin> {0x180 + 8 * slot, 0x184 + 8 * slot} \<longrightarrow> bar_get c' a = bar_get c a)
    else c' = c"
  using write_correction_regs(1) [OF assms(1), of slot corr] write_correction_regs(2) [OF assms(1), of slot _ corr]
  by (simp add: assms(2)) (simp add: pw_gpio_sync_write_correction_def)

theorem write_correction_slot_witness:
  "let c = \<lparr>bar_mem = \<lambda>_. 0, bar_size = 0x10000, bar_csr_off = 0\<rparr>;
       c' = pw_gpio_sync_write_correction (Some bar_write32) c 3 0x123456789
   in push_bit 32 (ucast (bar_get c' (correction_base 3 + 4))) OR ucast (bar_get c' (correction_base 3)) = (0x123456789 :: u64)"
proof -
  have "bar_live \<lparr>bar_mem = \<lambda>_. 0, bar_size = 0x10000, bar_csr_off = 0\<rparr>" by (simp add: bar_live_def)
  from write_correction_slot [OF this refl, of 3 "0x123456789"] show ?thesis by (simp add: csr_capacities Let_def)
qed

end
