(* ===== verification/PW_Scalar.thy ===== *)
theory PW_Scalar
  imports PW_Types
begin

text \<open>
  The scalar readers of \<^verbatim>\<open>scalar.c\<close> and the address-prefix readers of \<^verbatim>\<open>config.c\<close>, with the parts
  of the C library they use: \<open>strtoull\<close>, \<open>strcasecmp\<close>, the conversion \<open>%x\<close> of \<open>sscanf\<close> and
  \<open>inet_pton\<close>. A reader returns \<open>None\<close> where the source returns \<open>false\<close>. The second half shows that
  every reader inverts the usual way of writing its values, and what the number reader accepts.
\<close>

section \<open>The C library\<close>

text \<open>\<open>isspace\<close> in the C locale.\<close>

definition is_space :: "char \<Rightarrow> bool" where
  "is_space c \<longleftrightarrow> of_char c = (32 :: nat) \<or> (of_char c :: nat) \<in> {9..13}"

definition to_lower :: "char \<Rightarrow> char" where
  "to_lower c = (if (of_char c :: nat) \<in> {65..90} then char_of (of_char c + 32 :: nat) else c)"

definition strcaseeq :: "string \<Rightarrow> string \<Rightarrow> bool" where
  "strcaseeq s t \<longleftrightarrow> map to_lower s = map to_lower t"

text \<open>The value of a digit, and of a run of digits, in base 10 or 16.\<close>

definition digit_val :: "nat \<Rightarrow> char \<Rightarrow> nat option" where
  "digit_val base c =
     (let n = of_char c;
          v = (if n \<in> {48..57} then n - 48 else if n \<in> {97..102} then n - 87
               else if n \<in> {65..70} then n - 55 else 16)
      in if v < base then Some v else None)"

fun run_of_digits :: "nat \<Rightarrow> nat \<Rightarrow> string \<Rightarrow> nat \<times> string" where
  "run_of_digits base acc [] = (acc, [])"
| "run_of_digits base acc (c # cs) =
     (case digit_val base c of None \<Rightarrow> (acc, c # cs) | Some d \<Rightarrow> run_of_digits base (acc * base + d) cs)"

definition starts_digit :: "nat \<Rightarrow> string \<Rightarrow> bool" where
  "starts_digit base s = (case s of [] \<Rightarrow> False | c # _ \<Rightarrow> digit_val base c \<noteq> None)"

text \<open>An optional sign: whether it is a minus, and the rest.\<close>

definition opt_sign :: "string \<Rightarrow> bool \<times> string" where
  "opt_sign s = (case s of [] \<Rightarrow> (False, [])
     | c # cs \<Rightarrow> if c = CHR ''-'' then (True, cs) else if c = CHR ''+'' then (False, cs) else (False, s))"

definition hex_prefix :: "string \<Rightarrow> bool" where
  "hex_prefix s = (case s of a # b # _ \<Rightarrow> a = CHR ''0'' \<and> (b = CHR ''x'' \<or> b = CHR ''X'') | _ \<Rightarrow> False)"

text \<open>
  \<open>strtoull\<close>, and \<open>strtoul\<close> where \<open>long\<close> has 64 bits: the value, the rest at which \<open>end\<close> points, and
  whether \<open>errno\<close> is \<open>ERANGE\<close>. Without a digit nothing is consumed, not even the leading blanks.
\<close>

definition strtoull :: "nat \<Rightarrow> string \<Rightarrow> u64 \<times> string \<times> bool" where
  "strtoull base s =
     (let (neg, s2) = opt_sign (dropWhile is_space s);
          s3 = (if base = 16 \<and> hex_prefix s2 \<and> starts_digit 16 (drop 2 s2) then drop 2 s2 else s2)
      in if \<not> starts_digit base s3 then (0, s, False)
         else let (n, rest) = run_of_digits base 0 s3
              in if n \<ge> 2 ^ 64 then (- 1, rest, True)
                 else (if neg then - of_nat n else of_nat n, rest, False))"

text \<open>
  One \<open>%x\<close> of \<open>sscanf\<close> into an \<open>unsigned\<close>: blanks, a sign, an optional prefix that must be followed
  by a digit, digits. The number is read as \<open>strtoul\<close> does and stored modulo \<open>2\<^sup>3\<^sup>2\<close>.
\<close>

definition scan_hex :: "string \<Rightarrow> (u32 \<times> string) option" where
  "scan_hex s =
     (let (neg, s2) = opt_sign (dropWhile is_space s);
          s3 = (if hex_prefix s2 then drop 2 s2 else s2)
      in if \<not> starts_digit 16 s3 then None
         else let (n, rest) = run_of_digits 16 0 s3;
                  v = (if n \<ge> 2 ^ 64 then - 1 else if neg then - of_nat n else of_nat n) :: u64
              in Some (ucast v, rest))"

text \<open>\<open>k\<close> conversions separated by colons.\<close>

fun scan_fields :: "nat \<Rightarrow> string \<Rightarrow> (u32 list \<times> string) option" where
  "scan_fields 0 s = Some ([], s)"
| "scan_fields (Suc k) s =
     (case scan_hex s of None \<Rightarrow> None
      | Some (v, r) \<Rightarrow>
          if k = 0 then Some ([v], r)
          else (case r of [] \<Rightarrow> None
                | c # r' \<Rightarrow> if c \<noteq> CHR '':'' then None
                            else map_option (\<lambda>(vs, r''). (v # vs, r'')) (scan_fields k r')))"

text \<open>The parts of a string between separators.\<close>

fun split_on :: "char \<Rightarrow> string \<Rightarrow> string list" where
  "split_on d [] = [[]]"
| "split_on d (c # cs) =
     (if c = d then [] # split_on d cs
      else case split_on d cs of [] \<Rightarrow> [[c]] | p # ps \<Rightarrow> (c # p) # ps)"

text \<open>
  \<open>inet_pton(AF_INET)\<close>: four decimal numbers up to 255 without superfluous leading zeros, separated
  by dots.
\<close>

definition dec_octet :: "string \<Rightarrow> u8 option" where
  "dec_octet t =
     (if t = [] \<or> length t > 3 \<or> (length t > 1 \<and> hd t = CHR ''0'') then None
      else case run_of_digits 10 0 t of (n, rest) \<Rightarrow> if rest = [] \<and> n \<le> 255 then Some (of_nat n) else None)"

definition all_some :: "'a option list \<Rightarrow> 'a list option" where
  "all_some xs = (if None \<in> set xs then None else Some (map the xs))"

definition inet_pton4 :: "string \<Rightarrow> bytes option" where
  "inet_pton4 s =
     (let ps = split_on CHR ''.'' s in if length ps \<noteq> 4 then None else all_some (map dec_octet ps))"

text \<open>
  \<open>inet_pton(AF_INET6)\<close>: groups of one to four hexadecimal digits separated by colons, of which one run
  of groups may be written as two colons, and the last 32 bits as a dotted quad.
\<close>

definition hex_group :: "string \<Rightarrow> bytes option" where
  "hex_group t =
     (if t = [] \<or> length t > 4 then None
      else case run_of_digits 16 0 t of (n, rest) \<Rightarrow>
        if rest = [] then Some [of_nat (n div 256), of_nat (n mod 256)] else None)"

fun groups :: "bool \<Rightarrow> string list \<Rightarrow> bytes option" where
  "groups fin [] = Some []"
| "groups fin (p # ps) =
     (if fin \<and> ps = [] \<and> CHR ''.'' \<in> set p then inet_pton4 p
      else case hex_group p of None \<Rightarrow> None | Some g \<Rightarrow> map_option (\<lambda>r. g @ r) (groups fin ps))"

text \<open>The text before and after the first pair of colons.\<close>

fun split_colons :: "string \<Rightarrow> (string \<times> string) option" where
  "split_colons (a # b # cs) =
     (if a = CHR '':'' \<and> b = CHR '':'' then Some ([], cs)
      else map_option (\<lambda>(l, r). (a # l, r)) (split_colons (b # cs)))"
| "split_colons _ = None"

definition side :: "bool \<Rightarrow> string \<Rightarrow> bytes option" where
  "side fin t = (if t = [] then Some [] else groups fin (split_on CHR '':'' t))"

definition inet_pton6 :: "string \<Rightarrow> bytes option" where
  "inet_pton6 s =
     (case split_colons s of
        None \<Rightarrow> (case groups True (split_on CHR '':'' s) of None \<Rightarrow> None
                 | Some a \<Rightarrow> if length a = 16 then Some a else None)
      | Some (l, r) \<Rightarrow>
          (case (side False l, side True r) of
             (Some a, Some b) \<Rightarrow> if length a + length b \<le> 14
                                 then Some (a @ replicate (16 - length a - length b) 0 @ b) else None
           | _ \<Rightarrow> None))"

section \<open>The readers\<close>

definition pw_parse_bool :: "string \<Rightarrow> bool option" where
  "pw_parse_bool s =
     (if strcaseeq s ''true'' \<or> strcaseeq s ''yes'' \<or> s = ''1'' \<or> strcaseeq s ''on'' then Some True
      else if strcaseeq s ''false'' \<or> strcaseeq s ''no'' \<or> s = ''0'' \<or> strcaseeq s ''off'' then Some False
      else None)"

definition pw_parse_u64 :: "string \<Rightarrow> u64 option" where
  "pw_parse_u64 s =
     (if s = [] then None
      else let buf = filter (\<lambda>c. c \<noteq> CHR ''_'') s
           in if length buf > 63 then None
              else if buf = [] then None
              else let q = dropWhile (\<lambda>c. c = CHR '' '' \<or> of_char c = (9 :: nat)) buf
                   in if q \<noteq> [] \<and> (hd q = CHR ''-'' \<or> hd q = CHR ''+'') then None
                      else case strtoull (if hex_prefix q then 16 else 10) buf of (v, rest, erange) \<Rightarrow>
                             if rest = buf \<or> rest \<noteq> [] then None
                             else if erange then None else Some v)"

definition pw_parse_u32 :: "string \<Rightarrow> u32 option" where
  "pw_parse_u32 s = (case pw_parse_u64 s of None \<Rightarrow> None | Some v \<Rightarrow> if v > 0xFFFFFFFF then None else Some (ucast v))"

definition pw_parse_u16 :: "string \<Rightarrow> u16 option" where
  "pw_parse_u16 s = (case pw_parse_u64 s of None \<Rightarrow> None | Some v \<Rightarrow> if v > 0xFFFF then None else Some (ucast v))"

definition pw_parse_u8 :: "string \<Rightarrow> u8 option" where
  "pw_parse_u8 s = (case pw_parse_u64 s of None \<Rightarrow> None | Some v \<Rightarrow> if v > 0xFF then None else Some (ucast v))"

definition pw_parse_mac :: "string \<Rightarrow> bytes option" where
  "pw_parse_mac s =
     (case scan_fields 6 s of None \<Rightarrow> None
      | Some (vs, r) \<Rightarrow> if r \<noteq> [] \<or> (\<exists>v\<in>set vs. v > 0xFF) then None else Some (map ucast vs))"

definition pw_parse_ipv4 :: "string \<Rightarrow> u32 option" where
  "pw_parse_ipv4 s = map_option (\<lambda>b. be_word b 0) (inet_pton4 s)"

definition pw_parse_ipv6 :: "string \<Rightarrow> bytes option" where
  "pw_parse_ipv6 s = inet_pton6 s"

text \<open>The mask of an IPv6 prefix, and an address with an optional prefix length (\<^verbatim>\<open>config.c\<close>).\<close>

definition pw_v6_prefix_mask :: "nat \<Rightarrow> bytes" where
  "pw_v6_prefix_mask prefix =
     map (\<lambda>i. let lo = i * 8; hi = lo + 8;
                  bits = (if prefix \<ge> hi then 8 else if prefix > lo then prefix - lo else 0)
              in if bits \<noteq> 0 then ucast (push_bit (8 - bits) 0xFF :: u32) else 0) [0..<16]"

definition pw_parse_ipv6_cidr :: "string \<Rightarrow> (bytes \<times> bytes) option" where
  "pw_parse_ipv6_cidr s =
     (case dropWhile (\<lambda>c. c \<noteq> CHR ''/'') s of
        [] \<Rightarrow> map_option (\<lambda>a. (a, pw_v6_prefix_mask 128)) (pw_parse_ipv6 s)
      | _ # after \<Rightarrow>
          let buf = takeWhile (\<lambda>c. c \<noteq> CHR ''/'') s
          in if buf = [] \<or> length buf \<ge> 64 then None
             else case strtoull 10 after of (p, rest, _) \<Rightarrow>
               if rest \<noteq> [] \<or> p > 128 then None
               else map_option (\<lambda>a. (a, pw_v6_prefix_mask (unat p))) (pw_parse_ipv6 buf))"

section \<open>Runs of digits\<close>

text \<open>The number that a text of digits denotes, and which texts are numerals of a base.\<close>

definition digits_value :: "nat \<Rightarrow> nat \<Rightarrow> string \<Rightarrow> nat" where
  "digits_value base = foldl (\<lambda>a c. a * base + the (digit_val base c))"

definition numeral_value :: "nat \<Rightarrow> string \<Rightarrow> nat option" where
  "numeral_value base t =
     (if t = [] \<or> (\<exists>c\<in>set t. digit_val base c = None) then None else Some (digits_value base 0 t))"

lemma digits_value_simps [simp]:
  "digits_value base a [] = a"
  "digits_value base a (c # cs) = digits_value base (a * base + the (digit_val base c)) cs"
  "digits_value base a (xs @ ys) = digits_value base (digits_value base a xs) ys"
  by (simp_all add: digits_value_def)

lemma run_of_digits_append:
  assumes "\<forall>c\<in>set t. digit_val base c \<noteq> None" and "\<not> starts_digit base r"
  shows "run_of_digits base acc (t @ r) = (digits_value base acc t, r)"
  using assms(1)
proof (induction t arbitrary: acc)
  case Nil
  with assms(2) show ?case by (cases r) (auto simp: starts_digit_def)
next
  case (Cons c t)
  then show ?case by (auto split: option.splits)
qed

lemma run_of_digits_all:
  "\<forall>c\<in>set t. digit_val base c \<noteq> None \<Longrightarrow> run_of_digits base acc t = (digits_value base acc t, [])"
  using run_of_digits_append [of t base "[]" acc] by (simp add: starts_digit_def)

lemma run_of_digits_empty_rest:
  "snd (run_of_digits base acc t) = [] \<longleftrightarrow> (\<forall>c\<in>set t. digit_val base c \<noteq> None)"
  by (induction t arbitrary: acc) (auto split: option.splits)

lemma run_of_digits_rest_length: "length (snd (run_of_digits base acc t)) \<le> length t"
  by (induction t arbitrary: acc) (auto split: option.splits intro: le_SucI)

text \<open>A number that is read to the end of the text is a numeral, and conversely.\<close>

lemma run_of_digits_numeral:
  assumes "starts_digit base t"
  shows "(case run_of_digits base 0 t of (n, rest) \<Rightarrow> if rest = [] then Some n else None) = numeral_value base t"
proof (cases "\<forall>c\<in>set t. digit_val base c \<noteq> None")
  case True
  moreover have "t \<noteq> []" using assms by (auto simp: starts_digit_def)
  ultimately show ?thesis by (auto simp: run_of_digits_all numeral_value_def)
next
  case False
  then have "snd (run_of_digits base 0 t) \<noteq> []" by (simp add: run_of_digits_empty_rest)
  with False show ?thesis by (auto simp: numeral_value_def split: prod.splits)
qed

lemma numeral_value_start: "\<not> starts_digit base t \<Longrightarrow> numeral_value base t = None"
  by (cases t) (auto simp: numeral_value_def starts_digit_def)

section \<open>The number reader\<close>

text \<open>
  What the number reader should accept: a decimal numeral, or a hexadecimal one after its prefix, with
  underscores anywhere, at most 63 characters without them, of a value below \<open>2\<^sup>6\<^sup>4\<close>.
\<close>

definition u64_of_text :: "string \<Rightarrow> u64 option" where
  "u64_of_text s =
     (let t = filter (\<lambda>c. c \<noteq> CHR ''_'') s
      in if length t > 63 then None
         else case (if hex_prefix t then numeral_value 16 (drop 2 t) else numeral_value 10 t) of
                None \<Rightarrow> None | Some n \<Rightarrow> if n < 2 ^ 64 then Some (of_nat n) else None)"

lemma dropWhile_none: "\<forall>c\<in>set s. \<not> P c \<Longrightarrow> dropWhile P s = s"
  by (cases s) auto

lemma sign_not_digit [simp]: "digit_val base CHR ''-'' = None" "digit_val base CHR ''+'' = None" if "base \<le> 16"
  using that by (simp_all add: digit_val_def)

lemma x_not_digit: "b \<in> {CHR ''x'', CHR ''X''} \<Longrightarrow> digit_val 16 b = None" "digit_val 16 CHR ''0'' = Some 0"
  by (auto simp: digit_val_def)

lemma opt_sign_plain: "s = [] \<or> hd s \<noteq> CHR ''-'' \<and> hd s \<noteq> CHR ''+'' \<Longrightarrow> opt_sign s = (False, s)"
  by (cases s) (auto simp: opt_sign_def)

lemma strtoull_plain:
  assumes "\<forall>c\<in>set s. \<not> is_space c" and "s \<noteq> []" "hd s \<noteq> CHR ''-''" "hd s \<noteq> CHR ''+''"
    and "base = (if hex_prefix s then 16 else 10)"
  shows "(case strtoull base s of (v, rest, erange) \<Rightarrow>
            if rest = s \<or> rest \<noteq> [] then None else if erange then None else Some v) =
         (case (if hex_prefix s then numeral_value 16 (drop 2 s) else numeral_value 10 s) of
            None \<Rightarrow> None | Some n \<Rightarrow> if n < 2 ^ 64 then Some (of_nat n) else None)"
proof -
  have d: "dropWhile is_space s = s" "opt_sign s = (False, s)"
    using assms(1-4) by (auto intro: dropWhile_none opt_sign_plain)
  have read: "(case (let (n, rest) = run_of_digits b 0 t
              in if n \<ge> 2 ^ 64 then (- 1, rest, True)
                 else (if False then - of_nat n else of_nat n, rest, False)) of (v, rest, erange) \<Rightarrow>
            if rest = s \<or> rest \<noteq> [] then None else if erange then None else Some v) =
         (case numeral_value b t of None \<Rightarrow> None | Some n \<Rightarrow> if n < 2 ^ 64 then Some (of_nat n :: u64) else None)"
    if "starts_digit b t" for b t
    unfolding run_of_digits_numeral [OF that, symmetric] using assms(2) by (auto split: prod.splits)
  show ?thesis
  proof (cases "hex_prefix s")
    case hex: True
    then obtain a b r where s: "s = a # b # r" "a = CHR ''0''" "b \<in> {CHR ''x'', CHR ''X''}"
      by (auto simp: hex_prefix_def split: list.splits)
    have r: "drop 2 s = r" by (simp add: s(1))
    show ?thesis
    proof (cases "starts_digit 16 r")
      case True
      then show ?thesis using hex read [OF True] by (simp add: strtoull_def d assms(5) r)
    next
      case False
      have "starts_digit 16 s" "run_of_digits 16 0 s = (0, b # r)"
        using s x_not_digit by (auto simp: starts_digit_def)
      then show ?thesis using hex False numeral_value_start [OF False] by (simp add: strtoull_def d assms(5) r)
    qed
  next
    case False
    then show ?thesis
      using read [of 10 s] numeral_value_start [of 10 s] by (cases "starts_digit 10 s") (simp_all add: strtoull_def d assms(5))
  qed
qed

lemma parse_u64_plain:
  assumes "\<forall>c\<in>set s. \<not> is_space c"
  shows "pw_parse_u64 s = u64_of_text s"
proof -
  let ?t = "filter (\<lambda>c. c \<noteq> CHR ''_'') s"
  have t: "\<forall>c\<in>set ?t. \<not> is_space c" using assms by auto
  have q: "dropWhile (\<lambda>c. c = CHR '' '' \<or> of_char c = (9 :: nat)) ?t = ?t"
    by (rule dropWhile_none) (use t in \<open>auto simp: is_space_def\<close>)
  have none: "numeral_value 10 [] = None" "\<not> hex_prefix []" by (simp_all add: numeral_value_def hex_prefix_def)
  show ?thesis
  proof (cases "?t = []")
    case True
    then show ?thesis using none by (simp add: pw_parse_u64_def u64_of_text_def)
  next
    case False
    then have s: "s \<noteq> []" by auto
    show ?thesis
    proof (cases "hd ?t = CHR ''-'' \<or> hd ?t = CHR ''+''")
      case True
      with False have "\<not> hex_prefix ?t" "\<not> starts_digit 10 ?t"
        by (cases ?t; auto simp: hex_prefix_def starts_digit_def split: list.splits)+
      with True False s show ?thesis
        by (simp add: pw_parse_u64_def u64_of_text_def Let_def q numeral_value_start)
    next
      case sgn: False
      have "(case strtoull (if hex_prefix ?t then 16 else 10) ?t of (v, rest, erange) \<Rightarrow>
            if rest = ?t \<or> rest \<noteq> [] then None else if erange then None else Some v) =
         (case (if hex_prefix ?t then numeral_value 16 (drop 2 ?t) else numeral_value 10 ?t) of
            None \<Rightarrow> None | Some n \<Rightarrow> if n < 2 ^ 64 then Some (of_nat n) else None)"
        by (rule strtoull_plain [OF t False _ _ refl]) (use sgn in auto)
      with s False sgn show ?thesis
        unfolding pw_parse_u64_def u64_of_text_def Let_def q by (simp only: if_False if_cancel simp_thms split: if_splits)
    qed
  qed
qed

section \<open>Writing scalars\<close>

text \<open>The texts that the readers are shown to invert: decimal numbers, hexadecimal pairs, separated lists.\<close>

definition hex_digit :: "nat \<Rightarrow> char" where
  "hex_digit n = char_of (if n < 10 then 48 + n else 87 + n)"

definition hex2 :: "u8 \<Rightarrow> string" where
  "hex2 b = [hex_digit (unat b div 16), hex_digit (unat b mod 16)]"

fun join :: "char \<Rightarrow> string list \<Rightarrow> string" where
  "join d [] = []"
| "join d [p] = p"
| "join d (p # q # ps) = p @ d # join d (q # ps)"

definition u64_text :: "u64 \<Rightarrow> string" where "u64_text v = dec_string (unat v)"
definition u32_text :: "u32 \<Rightarrow> string" where "u32_text v = dec_string (unat v)"
definition u16_text :: "u16 \<Rightarrow> string" where "u16_text v = dec_string (unat v)"
definition u8_text :: "u8 \<Rightarrow> string" where "u8_text v = dec_string (unat v)"

definition bool_text :: "bool \<Rightarrow> string" where
  "bool_text b = (if b then ''true'' else ''false'')"

definition mac_text :: "bytes \<Rightarrow> string" where
  "mac_text m = join CHR '':'' (map hex2 m)"

definition ipv4_text :: "u32 \<Rightarrow> string" where
  "ipv4_text v = join CHR ''.'' (map u8_text [ucast (drop_bit 24 v), ucast (drop_bit 16 v), ucast (drop_bit 8 v), ucast v])"

definition ipv6_text :: "bytes \<Rightarrow> string" where
  "ipv6_text a = join CHR '':'' (map (\<lambda>i. hex2 (a ! (2 * i)) @ hex2 (a ! (2 * i + 1))) [0..<8])"

text \<open>Decimal numbers.\<close>

lemma dec_char: "c \<in> set (dec_string n) \<Longrightarrow> digit_val 10 c \<noteq> None \<and> \<not> is_space c \<and> c \<noteq> CHR ''_'' \<and> c \<noteq> CHR ''.''"
  using dec_digit [of c n] by (auto simp: digit_val_def is_space_def Let_def)

lemma dec_value: "digits_value 10 0 (dec_string n) = n"
proof (induction n rule: dec_string.induct)
  case (1 n)
  have d: "the (digit_val 10 (char_of (48 + m))) = m" if "m < 10" for m :: nat
    using that by (simp add: digit_val_def)
  show ?case
  proof (cases "n < 10")
    case True
    then show ?thesis by (subst dec_string.simps) (simp add: d)
  next
    case False
    then show ?thesis using "1.IH" [OF False] by (subst dec_string.simps) (simp add: d)
  qed
qed

lemma dec_numeral: "numeral_value 10 (dec_string n) = Some n"
  using dec_char dec_string_nonempty by (auto simp: numeral_value_def dec_value)

lemma dec_not_hex: "\<not> hex_prefix (dec_string n)"
proof
  assume "hex_prefix (dec_string n)"
  then obtain a b r where "dec_string n = a # b # r" "b \<in> {CHR ''x'', CHR ''X''}"
    by (auto simp: hex_prefix_def split: list.splits)
  with dec_char [of b n] show False by (auto simp: digit_val_def)
qed

lemma parse_u64_dec: "n < 2 ^ 64 \<Longrightarrow> pw_parse_u64 (dec_string n) = Some (of_nat n)"
proof -
  assume n: "n < 2 ^ 64"
  have l: "length (dec_string n) \<le> 20" using dec_string_length [of n 19] n by simp
  have f: "filter (\<lambda>c. c \<noteq> CHR ''_'') (dec_string n) = dec_string n"
    using dec_char by (auto simp: filter_id_conv)
  have "pw_parse_u64 (dec_string n) = u64_of_text (dec_string n)"
    using dec_char by (intro parse_u64_plain) blast
  with l n show ?thesis by (simp add: u64_of_text_def f dec_not_hex dec_numeral)
qed

lemma unat_lt: "unat (v :: u64) < 2 ^ 64" "unat (w :: u32) < 2 ^ 32" "unat (x :: u16) < 2 ^ 16" "unat (y :: u8) < 2 ^ 8"
  using unsigned_less [of v, where ?'a = nat] unsigned_less [of w, where ?'a = nat]
    unsigned_less [of x, where ?'a = nat] unsigned_less [of y, where ?'a = nat] by simp_all

text \<open>A narrow reader accepts the decimal text of its values.\<close>

lemma narrow_dec:
  assumes "n \<le> k" and "k < 2 ^ 64"
  shows "pw_parse_u64 (dec_string n) = Some (of_nat n) \<and> \<not> (of_nat n :: u64) > of_nat k"
proof -
  have "unat (of_nat n :: u64) = n" "unat (of_nat k :: u64) = k"
    using assms by (simp_all add: unat_of_nat take_bit_nat_eq_self)
  then show ?thesis using assms parse_u64_dec [of n] by (simp add: word_less_nat_alt)
qed

lemma ucast_up_down [simp]:
  "ucast (ucast v :: u64) = (v :: u32)" "ucast (ucast w :: u64) = (w :: u16)" "ucast (ucast x :: u64) = (x :: u8)"
  "ucast (ucast x :: u32) = (x :: u8)"
  by (rule bit_word_eqI; simp add: bit_simps)+

lemma parse_u64_text [simp]: "pw_parse_u64 (u64_text v) = Some v"
  using parse_u64_dec [OF unat_lt(1) [of v]] by (simp add: u64_text_def)

lemma parse_u32_text [simp]: "pw_parse_u32 (u32_text v) = Some v"
  using narrow_dec [of "unat v" "2 ^ 32 - 1"] unat_lt(2) [of v] by (simp add: pw_parse_u32_def u32_text_def)

lemma parse_u16_text [simp]: "pw_parse_u16 (u16_text v) = Some v"
  using narrow_dec [of "unat v" "2 ^ 16 - 1"] unat_lt(3) [of v] by (simp add: pw_parse_u16_def u16_text_def)

lemma parse_u8_text [simp]: "pw_parse_u8 (u8_text v) = Some v"
  using narrow_dec [of "unat v" "2 ^ 8 - 1"] unat_lt(4) [of v] by (simp add: pw_parse_u8_def u8_text_def)

lemma parse_bool_text [simp]: "pw_parse_bool (bool_text b) = Some b"
  by (cases b) (simp_all add: pw_parse_bool_def bool_text_def strcaseeq_def to_lower_def)

text \<open>Hexadecimal pairs, and lists with a separator.\<close>

lemma hex_digit_val: "n < 16 \<Longrightarrow> digit_val 16 (hex_digit n) = Some n"
  by (auto simp: hex_digit_def digit_val_def Let_def)

lemma hex_digit_char: "n < 16 \<Longrightarrow> (of_char (hex_digit n) :: nat) \<in> {48..57} \<union> {97..102}"
  by (auto simp: hex_digit_def)

lemma hex2_char: "c \<in> set (hex2 b) \<Longrightarrow> digit_val 16 c \<noteq> None \<and> (of_char c :: nat) \<in> {48..57} \<union> {97..102}"
proof -
  assume "c \<in> set (hex2 b)"
  then obtain n where "c = hex_digit n" "n < 16" using unat_lt(4) [of b] by (auto simp: hex2_def)
  then show ?thesis using hex_digit_char [of n] hex_digit_val [of n] by simp
qed

lemma hex2_plain: "c \<in> set (hex2 b) \<Longrightarrow> \<not> is_space c \<and> c \<notin> {CHR '':'', CHR ''.'', CHR ''-'', CHR ''+'', CHR ''x'', CHR ''X''}"
  using hex2_char [of c b] by (auto simp: is_space_def)

lemma hex2_value: "digits_value 16 a (hex2 b) = a * 256 + unat b"
proof -
  have "unat b div 16 < 16" using unat_lt(4) [of b] by auto
  then have "digits_value 16 a (hex2 b) = (a * 16 + unat b div 16) * 16 + unat b mod 16"
    by (simp add: hex2_def hex_digit_val)
  then show ?thesis by (simp add: algebra_simps)
qed

lemma scan_hex2:
  assumes "\<not> starts_digit 16 r"
  shows "scan_hex (hex2 b @ r) = Some (ucast b, r)"
proof -
  obtain x y where h: "hex2 b = [x, y]" by (simp add: hex2_def)
  have d: "dropWhile is_space (hex2 b @ r) = hex2 b @ r" "opt_sign (hex2 b @ r) = (False, hex2 b @ r)"
    "\<not> hex_prefix (hex2 b @ r)"
    using hex2_plain [of x b] hex2_plain [of y b] by (auto simp: h opt_sign_def hex_prefix_def)
  have s: "starts_digit 16 (hex2 b @ r)" using hex2_char [of x b] by (simp add: h starts_digit_def)
  have n: "run_of_digits 16 0 (hex2 b @ r) = (unat b, r)"
    using run_of_digits_append [OF _ assms, of "hex2 b" 0] hex2_char hex2_value [of 0 b] by auto
  have "(ucast (of_nat (unat b) :: u64) :: u32) = ucast b"
    by (rule bit_word_eqI) (auto simp: bit_simps dest: bit_imp_le_length)
  then show ?thesis using unat_lt(4) [of b] by (simp add: scan_hex_def d s n)
qed

lemma colon_not_digit [simp]: "\<not> starts_digit 16 (CHR '':'' # r)" "\<not> starts_digit 16 []"
  by (simp_all add: starts_digit_def digit_val_def)

lemma scan_mac_text: "scan_fields (Suc k) (join CHR '':'' (map hex2 bs)) = Some (map ucast bs, [])" if "length bs = Suc k"
  using that
proof (induction k arbitrary: bs)
  case 0
  then obtain b where "bs = [b]" by (cases bs) auto
  then show ?case using scan_hex2 [of "[]" b] by simp
next
  case (Suc k)
  then obtain b c cs where bs: "bs = b # c # cs" by (cases bs; cases "tl bs") auto
  have "scan_fields (Suc k) (join CHR '':'' (map hex2 (c # cs))) = Some (map ucast (c # cs), [])"
    by (rule Suc.IH) (use Suc.prems bs in simp)
  then show ?case by (simp add: bs scan_hex2)
qed

lemma parse_mac_text [simp]: "length m = 6 \<Longrightarrow> pw_parse_mac (mac_text m) = Some m"
proof -
  assume m: "length m = 6"
  have le: "\<not> (ucast (b :: u8) :: u32) > 0xFF" for b
  proof -
    have "unat (ucast b :: u32) = unat b" using unat_lt(4) [of b] by (simp add: unsigned_ucast_eq take_bit_nat_eq_self)
    then show ?thesis using unat_lt(4) [of b] by (simp add: word_less_nat_alt)
  qed
  have "scan_fields 6 (mac_text m) = Some (map ucast m, [])"
    using scan_mac_text [of m 5] m by (simp add: mac_text_def)
  with le show ?thesis by (auto simp: pw_parse_mac_def comp_def)
qed

lemma split_on_nonempty: "split_on d t \<noteq> []"
  by (induction t) (auto split: list.splits)

lemma split_on_part: "d \<notin> set p \<Longrightarrow> split_on d (p @ d # r) = p # split_on d r" "d \<notin> set p \<Longrightarrow> split_on d p = [p]"
  by (induction p) auto

lemma split_on_join: "ps \<noteq> [] \<Longrightarrow> \<forall>p\<in>set ps. d \<notin> set p \<Longrightarrow> split_on d (join d ps) = ps"
  by (induction ps rule: induct_list012) (simp_all add: split_on_part)

lemma dec_no_leading_zero: "0 < n \<Longrightarrow> hd (dec_string n) \<noteq> CHR ''0''"
proof (induction n rule: dec_string.induct)
  case (1 n)
  show ?case
  proof (cases "n < 10")
    case True
    have "char_of (48 + n) \<noteq> CHR ''0''"
    proof
      assume "char_of (48 + n) = CHR ''0''"
      then have "of_char (char_of (48 + n) :: char) = (48 :: nat)" by simp
      with True "1.prems" show False by simp
    qed
    then show ?thesis using True by (subst dec_string.simps) simp
  next
    case False
    then show ?thesis using "1.IH" dec_string_nonempty [of "n div 10"] by (subst dec_string.simps) simp
  qed
qed

lemma dec_octet_text: "dec_octet (u8_text b) = Some b"
proof -
  let ?t = "dec_string (unat b)"
  have l: "length ?t \<le> 3" using dec_string_length [of "unat b" 2] unat_lt(4) [of b] by simp
  have z: "\<not> (length ?t > 1 \<and> hd ?t = CHR ''0'')"
    using dec_no_leading_zero [of "unat b"] by (cases "unat b = 0") (simp_all add: dec_string.simps [of 0])
  have "run_of_digits 10 0 ?t = (unat b, [])"
    using run_of_digits_all [of ?t 10 0] dec_char dec_value by auto
  with l z dec_string_nonempty [of "unat b"] unat_lt(4) [of b] show ?thesis
    by (auto simp: dec_octet_def u8_text_def)
qed

lemma all_some_map: "(\<And>x. x \<in> set xs \<Longrightarrow> f (g x) = Some x) \<Longrightarrow> all_some (map f (map g xs)) = Some xs"
  by (auto simp: all_some_def intro: map_idI)

lemma pton4_text: "length bs = 4 \<Longrightarrow> inet_pton4 (join CHR ''.'' (map u8_text bs)) = Some bs"
proof -
  assume l: "length bs = 4"
  have "split_on CHR ''.'' (join CHR ''.'' (map u8_text bs)) = map u8_text bs"
    using l dec_char by (intro split_on_join) (auto simp: u8_text_def)
  then show ?thesis using l all_some_map [of bs dec_octet u8_text] by (simp add: inet_pton4_def dec_octet_text)
qed

lemma parse_ipv4_text [simp]: "pw_parse_ipv4 (ipv4_text v) = Some v"
proof -
  have "be32 (ucast (drop_bit 24 v)) (ucast (drop_bit 16 v)) (ucast (drop_bit 8 v)) (ucast v) = v"
    using le32_le32_bytes [of v] by (simp add: le32_def)
  then show ?thesis unfolding pw_parse_ipv4_def ipv4_text_def by (subst pton4_text) (simp_all add: be_word_def)
qed

lemma hex_group_text: "hex_group (hex2 a @ hex2 b) = Some [a, b]"
proof -
  have "run_of_digits 16 0 (hex2 a @ hex2 b) = (unat a * 256 + unat b, [])"
    using run_of_digits_all [of "hex2 a @ hex2 b" 16 0] hex2_char by (auto simp: hex2_value)
  moreover have "length (hex2 a @ hex2 b) = 4" "hex2 a @ hex2 b \<noteq> []" by (simp_all add: hex2_def)
  ultimately show ?thesis using unat_lt(4) [of b] by (simp add: hex_group_def)
qed

lemma groups_text:
  "groups True (map (\<lambda>i. hex2 (f (2 * i)) @ hex2 (f (2 * i + 1))) is) =
     Some (concat (map (\<lambda>i. [f (2 * i), f (2 * i + 1)]) is))"
proof (induction "is")
  case (Cons i "is")
  have "CHR ''.'' \<notin> set (hex2 (f (2 * i)) @ hex2 (f (2 * i + 1)))" using hex2_plain by fastforce
  with Cons.IH show ?case by (simp add: hex_group_text)
qed simp

lemma split_colons_join:
  "\<forall>p\<in>set ps. p \<noteq> [] \<and> CHR '':'' \<notin> set p \<Longrightarrow> split_colons (join CHR '':'' ps) = None"
proof (induction ps rule: induct_list012)
  case (2 p)
  have "CHR '':'' \<notin> set q \<Longrightarrow> split_colons q = None" for q by (induction q rule: split_colons.induct) auto
  with 2 show ?case by simp
next
  case (3 p q ps)
  have later: "split_colons (join CHR '':'' (q # ps)) = None" and q: "hd (join CHR '':'' (q # ps)) \<noteq> CHR '':''"
    "join CHR '':'' (q # ps) \<noteq> []"
    using 3 by (auto simp: neq_Nil_conv split: list.splits intro: list.exhaust [of ps])
  have "split_colons (r @ CHR '':'' # join CHR '':'' (q # ps)) = None" if "r \<noteq> []" "CHR '':'' \<notin> set r" for r
    using that
  proof (induction r)
    case (Cons a r)
    obtain h t where ht: "join CHR '':'' (q # ps) = h # t" "h \<noteq> CHR '':''"
      using q by (cases "join CHR '':'' (q # ps)") auto
    show ?case
    proof (cases r)
      case Nil
      then show ?thesis using Cons.prems later ht by simp
    next
      case (Cons b r')
      then show ?thesis using Cons.IH Cons.prems by auto
    qed
  qed simp
  with 3 show ?case by simp
qed simp

lemma parse_ipv6_text [simp]: "length a = 16 \<Longrightarrow> pw_parse_ipv6 (ipv6_text a) = Some a"
proof -
  assume l: "length a = 16"
  let ?ps = "map (\<lambda>i. hex2 (a ! (2 * i)) @ hex2 (a ! (2 * i + 1))) [0..<8]"
  have parts: "\<forall>p\<in>set ?ps. p \<noteq> [] \<and> CHR '':'' \<notin> set p"
    using hex2_plain by (fastforce simp: hex2_def)
  have "concat (map (\<lambda>i. [a ! (2 * i), a ! (2 * i + 1)]) [0..<n]) = map ((!) a) [0..<2 * n]" for n
    by (induction n) simp_all
  from this [of 8] l have "concat (map (\<lambda>i. [a ! (2 * i), a ! (2 * i + 1)]) [0..<8]) = a"
    using map_nth [of a] by simp
  then show ?thesis
    using l split_colons_join [OF parts] split_on_join [of ?ps "CHR '':''"] parts groups_text [of "\<lambda>i. a ! i" "[0..<8]"]
    by (simp add: pw_parse_ipv6_def inet_pton6_def ipv6_text_def)
qed

section \<open>Address prefixes\<close>

lemma prefix_mask_length [simp]: "length (pw_v6_prefix_mask p) = 16"
  by (simp add: pw_v6_prefix_mask_def)

lemma prefix_mask_bit:
  assumes "i < 16" and "n < 8"
  shows "bit (pw_v6_prefix_mask p ! i) (7 - n) \<longleftrightarrow> 8 * i + n < p"
proof -
  let ?b = "if p \<ge> 8 * i + 8 then 8 else if p > 8 * i then p - 8 * i else 0"
  have m: "pw_v6_prefix_mask p ! i = (if ?b \<noteq> 0 then ucast (push_bit (8 - ?b) 0xFF :: u32) else 0)"
    using assms(1) by (simp add: pw_v6_prefix_mask_def Let_def mult.commute)
  have ff: "bit (0xFF :: u32) k \<longleftrightarrow> k < 8" for k
    using bit_mask_iff [of 8 k, where ?'a = "32 word"] by (auto simp: mask_numeral)
  have u: "bit (ucast (x :: u32) :: u8) k \<longleftrightarrow> k < 8 \<and> bit x k" for x k by (auto simp: bit_simps)
  have B: "bit (ucast (push_bit (8 - b) 0xFF :: u32) :: u8) (7 - n) \<longleftrightarrow> n < b" if "b \<le> 8" for b
    using assms(2) that unfolding u bit_push_bit_iff ff by auto
  have "?b \<le> 8" "(?b \<noteq> 0 \<and> n < ?b) = (8 * i + n < p)" using assms(2) by auto
  then show ?thesis unfolding m using B [of ?b] by (cases "?b = 0") simp_all
qed

lemma dec_starts_digit: "starts_digit 10 (dec_string n)"
  using dec_char [of "hd (dec_string n)" n] dec_string_nonempty [of n]
  by (cases "dec_string n") (auto simp: starts_digit_def)

lemma strtoull_dec: "n < 2 ^ 64 \<Longrightarrow> strtoull 10 (dec_string n) = (of_nat n, [], False)"
proof -
  assume n: "n < 2 ^ 64"
  let ?t = "dec_string n"
  have c: "digit_val 10 (hd ?t) \<noteq> None" using dec_char [of "hd ?t" n] dec_string_nonempty [of n] by simp
  have d: "dropWhile is_space ?t = ?t" "opt_sign ?t = (False, ?t)"
    using dec_char c by (auto intro!: dropWhile_none opt_sign_plain)
  have "run_of_digits 10 0 ?t = (n, [])" using run_of_digits_all [of ?t 10 0] dec_char dec_value by auto
  with n d dec_starts_digit [of n] show ?thesis by (simp add: strtoull_def)
qed

definition cidr_text :: "bytes \<Rightarrow> nat \<Rightarrow> string" where
  "cidr_text a p = ipv6_text a @ CHR ''/'' # dec_string p"

lemma ipv6_text_chars: "CHR ''/'' \<notin> set (ipv6_text a)" "length (ipv6_text a) = 39"
proof -
  have j: "set (join d ps) \<subseteq> insert d (\<Union>(set ` set ps))" for d ps by (induction ps rule: induct_list012) auto
  have "CHR ''/'' \<notin> set (hex2 b)" for b using hex2_char [of "CHR ''/''" b] by auto
  then show "CHR ''/'' \<notin> set (ipv6_text a)" using j [of "CHR '':''"] unfolding ipv6_text_def by fastforce
  show "length (ipv6_text a) = 39" by (simp add: ipv6_text_def upt_conv_Cons hex2_def)
qed

lemma parse_cidr_text:
  assumes "length a = 16" and "p \<le> 128"
  shows "pw_parse_ipv6_cidr (cidr_text a p) = Some (a, pw_v6_prefix_mask p)"
proof -
  let ?P = "\<lambda>c. c \<noteq> CHR ''/''"
  have n: "\<forall>c\<in>set (ipv6_text a). ?P c" using ipv6_text_chars(1) [of a] by blast
  have d: "dropWhile ?P (cidr_text a p) = CHR ''/'' # dec_string p" "takeWhile ?P (cidr_text a p) = ipv6_text a"
    using n by (simp_all add: cidr_text_def dropWhile_append2 takeWhile_append2)
  have "(of_nat p :: u64) \<le> 128" "unat (of_nat p :: u64) = p"
    using assms(2) by (simp_all add: word_le_nat_alt unat_of_nat take_bit_nat_eq_self)
  moreover have "ipv6_text a \<noteq> []" using ipv6_text_chars(2) [of a] by auto
  ultimately show ?thesis
    using assms strtoull_dec [of p] ipv6_text_chars(2) [of a] by (simp add: pw_parse_ipv6_cidr_def d not_less)
qed

section \<open>Readers and their texts\<close>

text \<open>What the clients of the readers rely on: a reader inverts a way to write its values.\<close>

locale scalar_codec =
  fixes parse :: "string \<Rightarrow> 'a option" and text_of :: "'a \<Rightarrow> string" and ok :: "'a \<Rightarrow> bool"
  assumes parse_text: "ok v \<Longrightarrow> parse (text_of v) = Some v"
begin

lemma text_inj: "ok v \<Longrightarrow> ok w \<Longrightarrow> text_of v = text_of w \<Longrightarrow> v = w"
  using parse_text by (metis option.inject)

end

interpretation u64_codec: scalar_codec pw_parse_u64 u64_text "\<lambda>_. True" by unfold_locales simp
interpretation u32_codec: scalar_codec pw_parse_u32 u32_text "\<lambda>_. True" by unfold_locales simp
interpretation u16_codec: scalar_codec pw_parse_u16 u16_text "\<lambda>_. True" by unfold_locales simp
interpretation u8_codec: scalar_codec pw_parse_u8 u8_text "\<lambda>_. True" by unfold_locales simp
interpretation bool_codec: scalar_codec pw_parse_bool bool_text "\<lambda>_. True" by unfold_locales simp
interpretation mac_codec: scalar_codec pw_parse_mac mac_text "\<lambda>m. length m = 6" by unfold_locales simp
interpretation ipv4_codec: scalar_codec pw_parse_ipv4 ipv4_text "\<lambda>_. True" by unfold_locales simp
interpretation ipv6_codec: scalar_codec pw_parse_ipv6 ipv6_text "\<lambda>a. length a = 16" by unfold_locales simp

section \<open>Properties\<close>

text \<open>
  The number reader reads numerals and nothing else: on a text without white space it accepts exactly the
  decimal numerals, and the hexadecimal ones with their prefix, of at most 63 characters besides underscores and
  of a value that fits 64 bits, and returns that value; a sign, an overflow or trailing junk is refused.
\<close>

lemma number_reader_exact:
  assumes "\<forall>c\<in>set s. \<not> is_space c"
  shows "pw_parse_u64 s = u64_of_text s"
  by (rule parse_u64_plain [OF assms])

lemma number_reader_exact_witness:
  "pw_parse_u64 ''1_000'' = Some 1000 \<and> pw_parse_u64 ''0x1F'' = Some 31 \<and> pw_parse_u64 ''010'' = Some 10 \<and>
   pw_parse_u64 ''-1'' = None \<and> pw_parse_u64 ''18446744073709551616'' = None"
proof -
  note N = number_reader_exact [of "''1_000''"] number_reader_exact [of "''0x1F''"] number_reader_exact [of "''010''"]
    number_reader_exact [of "''-1''"] number_reader_exact [of "''18446744073709551616''"]
  have "u64_of_text ''1_000'' = Some 1000" "u64_of_text ''0x1F'' = Some 31" "u64_of_text ''010'' = Some 10"
    "u64_of_text ''-1'' = None" "u64_of_text ''18446744073709551616'' = None"
    by (simp_all add: u64_of_text_def numeral_value_def hex_prefix_def digit_val_def)
  then show ?thesis using N by (simp add: is_space_def)
qed

text \<open>
  White space defeats the sign check of the number reader: the check skips blanks and tabs only, while the
  library routine skips every kind of white space, so a line feed before a minus sign makes a negative
  number read as a huge positive one.
\<close>

lemma sign_check_bypass:
  assumes "0 < n" and "n < 2 ^ 64"
  shows "pw_parse_u64 (CHR 0x0A # CHR ''-'' # dec_string n) = Some (- of_nat n)"
proof -
  let ?t = "CHR 0x0A # CHR ''-'' # dec_string n"
  have l: "length (dec_string n) \<le> 20" using dec_string_length [of n 19] assms(2) by simp
  have f: "filter (\<lambda>c. c \<noteq> CHR ''_'') (dec_string n) = dec_string n"
    using dec_char by (auto simp: filter_id_conv)
  have "run_of_digits 10 0 (dec_string n) = (n, [])" using run_of_digits_all [of "dec_string n" 10 0] dec_char dec_value by auto
  with dec_starts_digit [of n] have "strtoull 10 ?t = (- of_nat n, [], False)"
    using assms(2) by (simp add: strtoull_def is_space_def opt_sign_def)
  then show ?thesis using l by (simp add: pw_parse_u64_def f hex_prefix_def)
qed

lemma sign_check_bypass_witness: "pw_parse_u64 (CHR 0x0A # CHR ''-'' # dec_string 1) = Some 0xFFFFFFFFFFFFFFFF"
  using sign_check_bypass [of 1] by simp

text \<open>
  Every scalar survives being written and read back: numbers of each width, booleans, MAC addresses, IPv4 and
  IPv6 addresses, and an IPv6 address with a prefix length, for which the reader also returns the mask whose
  leading bits, exactly as many as the length, are set.
\<close>

lemma scalar_roundtrip:
  assumes "length m = 6" and "length a = 16" and "p \<le> 128"
  shows "pw_parse_u64 (u64_text v64) = Some v64 \<and> pw_parse_u32 (u32_text v32) = Some v32 \<and>
    pw_parse_u16 (u16_text v16) = Some v16 \<and> pw_parse_u8 (u8_text v8) = Some v8 \<and>
    pw_parse_bool (bool_text b) = Some b \<and> pw_parse_mac (mac_text m) = Some m \<and>
    pw_parse_ipv4 (ipv4_text v4) = Some v4 \<and> pw_parse_ipv6 (ipv6_text a) = Some a \<and>
    (\<exists>mk. pw_parse_ipv6_cidr (cidr_text a p) = Some (a, mk) \<and> length mk = 16 \<and>
       (\<forall>i < 16. \<forall>n < 8. bit (mk ! i) (7 - n) \<longleftrightarrow> 8 * i + n < p))"
  using parse_cidr_text [OF assms(2,3)] prefix_mask_bit by (simp add: assms(1,2))

theorem scalar_roundtrip_witness:
  "pw_parse_mac (mac_text [2, 0, 0, 0, 0, 0xFE]) = Some [2, 0, 0, 0, 0, 0xFE] \<and>
   (\<exists>mk. pw_parse_ipv6_cidr (cidr_text (replicate 16 7) 33) = Some (replicate 16 7, mk))"
  using scalar_roundtrip [of "[2, 0, 0, 0, 0, 0xFE]" "replicate 16 7" 33] by auto

end
