(* ===== verification/PW_Yaml.thy ===== *)
theory PW_Yaml
  imports PW_Types
begin

text \<open>
  The document tree of \<^verbatim>\<open>yaml.h\<close> and its builder in \<^verbatim>\<open>yaml.c\<close>. The tokenising and the indentation rules
  are libyaml's, a third-party library: the model takes the events that its parser delivers for a text,
  in order; when the list is exhausted the parser has reported a failure. The builder walks the events by
  recursive descent. Its loops are bounded by the number of events, which is the fuel the entry point
  passes; that it never runs out is shown below.
\<close>

section \<open>Events and trees\<close>

datatype yaml_kind =
    Stream_start | Stream_end | Document_start | Document_end | Alias
  | Scalar string | Sequence_start | Sequence_end | Mapping_start | Mapping_end

text \<open>An event with its line, counted from one.\<close>

type_synonym yaml_event = "yaml_kind \<times> nat"

datatype pw_yaml_node =
    YAML_SCALAR nat string
  | YAML_MAP nat "(string \<times> pw_yaml_node) list"
  | YAML_SEQ nat "pw_yaml_node list"

text \<open>The failures, as the messages of the source name them.\<close>

datatype yaml_err =
    Parser_problem | Non_scalar_key nat | Duplicate_key nat string | Alias_unsupported nat
  | Unexpected_event nat | Before_document nat | Multiple_documents nat | Out_of_fuel

text \<open>What the code sees of a counted string: the part before the first NUL.\<close>

definition c_string :: "string \<Rightarrow> string" where
  "c_string = takeWhile (\<lambda>c. of_char c \<noteq> (0 :: nat))"

section \<open>Access\<close>

definition pw_yaml_map_get :: "pw_yaml_node \<Rightarrow> string \<Rightarrow> pw_yaml_node option" where
  "pw_yaml_map_get m key = (case m of YAML_MAP _ items \<Rightarrow> map_of items key | _ \<Rightarrow> None)"

definition pw_yaml_scalar :: "pw_yaml_node \<Rightarrow> string option" where
  "pw_yaml_scalar n = (case n of YAML_SCALAR _ v \<Rightarrow> Some v | _ \<Rightarrow> None)"

section \<open>The builder\<close>

fun build_node :: "nat \<Rightarrow> yaml_event \<Rightarrow> yaml_event list \<Rightarrow> yaml_err + (pw_yaml_node \<times> yaml_event list)"
and build_sequence :: "nat \<Rightarrow> pw_yaml_node list \<Rightarrow> yaml_event list \<Rightarrow> yaml_err + (pw_yaml_node list \<times> yaml_event list)"
and build_mapping :: "nat \<Rightarrow> (string \<times> pw_yaml_node) list \<Rightarrow> yaml_event list \<Rightarrow>
      yaml_err + ((string \<times> pw_yaml_node) list \<times> yaml_event list)"
where
  "build_node n (k, line) evs =
     (case k of
        Scalar v \<Rightarrow> Inr (YAML_SCALAR line (c_string v), evs)
      | Sequence_start \<Rightarrow> rbind (build_sequence n [] evs) (\<lambda>(xs, r). Inr (YAML_SEQ line xs, r))
      | Mapping_start \<Rightarrow> rbind (build_mapping n [] evs) (\<lambda>(kvs, r). Inr (YAML_MAP line kvs, r))
      | Alias \<Rightarrow> Inl (Alias_unsupported line)
      | _ \<Rightarrow> Inl (Unexpected_event line))"
| "build_sequence 0 acc evs = Inl Out_of_fuel"
| "build_sequence (Suc n) acc [] = Inl Parser_problem"
| "build_sequence (Suc n) acc (ev # evs) =
     (if fst ev = Sequence_end then Inr (acc, evs)
      else rbind (build_node n ev evs) (\<lambda>(child, r). build_sequence n (acc @ [child]) r))"
| "build_mapping 0 acc evs = Inl Out_of_fuel"
| "build_mapping (Suc n) acc [] = Inl Parser_problem"
| "build_mapping (Suc n) acc (kev # evs) =
     (case fst kev of
        Mapping_end \<Rightarrow> Inr (acc, evs)
      | Scalar v \<Rightarrow>
          let key = c_string v
          in if key \<in> fst ` set acc then Inl (Duplicate_key (snd kev) key)
             else (case evs of [] \<Rightarrow> Inl Parser_problem
                   | vev # evs' \<Rightarrow> rbind (build_node n vev evs') (\<lambda>(vn, r). build_mapping n (acc @ [(key, vn)]) r))
      | _ \<Rightarrow> Inl (Non_scalar_key (snd kev)))"

text \<open>The walk over the stream: one document, whose content is one node.\<close>

fun walk_stream :: "nat \<Rightarrow> bool \<Rightarrow> bool \<Rightarrow> nat \<Rightarrow> pw_yaml_node option \<Rightarrow> yaml_event list \<Rightarrow> yaml_err + pw_yaml_node option" where
  "walk_stream 0 seen_stream seen_doc n_docs root evs = Inl Out_of_fuel"
| "walk_stream (Suc n) seen_stream seen_doc n_docs root [] = Inl Parser_problem"
| "walk_stream (Suc n) seen_stream seen_doc n_docs root (ev # evs) =
     (case fst ev of
        Stream_start \<Rightarrow> walk_stream n True seen_doc n_docs root evs
      | Document_start \<Rightarrow>
          if n_docs + 1 > 1 then Inl (Multiple_documents (snd ev))
          else walk_stream n seen_stream True (n_docs + 1) root evs
      | Document_end \<Rightarrow> walk_stream n seen_stream seen_doc n_docs root evs
      | Stream_end \<Rightarrow> Inr root
      | _ \<Rightarrow>
          if \<not> seen_stream \<or> \<not> seen_doc then Inl (Before_document (snd ev))
          else if root \<noteq> None then Inl (Multiple_documents (snd ev))
          else rbind (build_node n ev evs) (\<lambda>(t, r). walk_stream n seen_stream seen_doc n_docs (Some t) r))"

definition pw_yaml_parse :: "yaml_event list \<Rightarrow> yaml_err + pw_yaml_node" where
  "pw_yaml_parse evs =
     rbind (walk_stream (Suc (length evs)) False False 0 None evs)
       (\<lambda>root. Inr (case root of None \<Rightarrow> YAML_MAP 1 [] | Some t \<Rightarrow> t))"

section \<open>The events of a tree\<close>

text \<open>The kinds of event that a tree is written as, and the tree without its line numbers.\<close>

fun kinds :: "pw_yaml_node \<Rightarrow> yaml_kind list" where
  "kinds (YAML_SCALAR _ v) = [Scalar v]"
| "kinds (YAML_SEQ _ xs) = Sequence_start # concat (map kinds xs) @ [Sequence_end]"
| "kinds (YAML_MAP _ kvs) = Mapping_start # concat (map (\<lambda>(k, v). Scalar k # kinds v) kvs) @ [Mapping_end]"

fun unlined :: "pw_yaml_node \<Rightarrow> pw_yaml_node" where
  "unlined (YAML_SCALAR _ v) = YAML_SCALAR 0 v"
| "unlined (YAML_SEQ _ xs) = YAML_SEQ 0 (map unlined xs)"
| "unlined (YAML_MAP _ kvs) = YAML_MAP 0 (map (\<lambda>(k, v). (k, unlined v)) kvs)"

text \<open>A tree as the builder makes it: the keys of every mapping are distinct, no text contains a NUL.\<close>

definition nul_free :: "string \<Rightarrow> bool" where
  "nul_free s \<longleftrightarrow> (\<forall>c\<in>set s. of_char c \<noteq> (0 :: nat))"

fun tree_ok :: "pw_yaml_node \<Rightarrow> bool" where
  "tree_ok (YAML_SCALAR _ v) = nul_free v"
| "tree_ok (YAML_SEQ _ xs) = list_all tree_ok xs"
| "tree_ok (YAML_MAP _ kvs) =
     (distinct (map fst kvs) \<and> list_all (\<lambda>(k, v). nul_free k \<and> tree_ok v) kvs)"

lemma c_string_nul_free [simp]: "nul_free (c_string s)" "nul_free s \<Longrightarrow> c_string s = s"
  by (auto simp: nul_free_def c_string_def dest: set_takeWhileD)

declare build_node.simps [simp del]

lemmas build_induct = build_node_build_sequence_build_mapping.induct

text \<open>The builder consumes events, so a fuel above the number of events is never exhausted.\<close>

lemma build_consumes:
  "build_node n ev evs = Inr (t, r) \<Longrightarrow> length r \<le> length evs"
  "build_sequence n acc evs = Inr (xs, r) \<Longrightarrow> length r < length evs"
  "build_mapping n macc evs = Inr (kvs, r) \<Longrightarrow> length r < length evs"
proof (induction n ev evs and n acc evs and n macc evs arbitrary: t r and xs r and kvs r rule: build_induct)
  case (1 n k line evs)
  then show ?case by (auto simp: build_node.simps rbind_eq_Inr split: yaml_kind.splits)
next
  case (4 n acc ev evs)
  then show ?case by (fastforce simp: rbind_eq_Inr split: if_splits)
next
  case (7 n acc kev evs)
  then show ?case by (fastforce simp: rbind_eq_Inr Let_def split: yaml_kind.splits list.splits if_splits)
qed simp_all

lemma build_fuel:
  "length evs < n \<Longrightarrow> build_node n ev evs \<noteq> Inl Out_of_fuel"
  "length evs < n \<Longrightarrow> build_sequence n acc evs \<noteq> Inl Out_of_fuel"
  "length evs < n \<Longrightarrow> build_mapping n macc evs \<noteq> Inl Out_of_fuel"
proof (induction n ev evs and n acc evs and n macc evs rule: build_induct)
  case (1 n k line evs)
  then show ?case by (auto simp: build_node.simps rbind_eq_Inl split: yaml_kind.splits)
next
  case (4 n acc ev evs)
  have "length r < n" if "build_node n ev evs = Inr (c, r)" for c r using build_consumes(1) [OF that] 4 by simp
  with 4 show ?case by (auto simp: rbind_eq_Inl)
next
  case (7 n acc kev evs)
  have "length r < n" if "evs = vev # evs'" "build_node n vev evs' = Inr (c, r)" for vev evs' c r
    using build_consumes(1) [OF that(2)] 7 that(1) by simp
  with 7 show ?case by (auto simp: rbind_eq_Inl Let_def split: yaml_kind.splits list.splits)
qed simp_all

text \<open>What is built is a tree whose events are those consumed.\<close>

definition plain_event :: "yaml_event \<Rightarrow> bool" where
  "plain_event ev = (case fst ev of Scalar v \<Rightarrow> nul_free v | _ \<Rightarrow> True)"

lemma build_suffix:
  "build_node n ev evs = Inr (t, r) \<Longrightarrow> \<exists>p. evs = p @ r"
  "build_sequence n acc evs = Inr (xs, r) \<Longrightarrow> \<exists>p. evs = p @ r"
  "build_mapping n macc evs = Inr (kvs, r) \<Longrightarrow> \<exists>p. evs = p @ r"
proof (induction n ev evs and n acc evs and n macc evs arbitrary: t r and xs r and kvs r rule: build_induct)
  case (1 n k line evs)
  then show ?case by (auto simp: build_node.simps rbind_eq_Inr split: yaml_kind.splits)
next
  case (4 n acc ev evs)
  then show ?case by (fastforce simp: rbind_eq_Inr split: if_splits)
next
  case (7 n acc kev evs)
  then show ?case by (fastforce simp: rbind_eq_Inr Let_def split: yaml_kind.splits list.splits if_splits)
qed simp_all

lemma build_sound:
  "build_node n ev evs = Inr (t, r) \<Longrightarrow> list_all plain_event (ev # evs) \<Longrightarrow>
     tree_ok t \<and> map fst (ev # evs) = kinds t @ map fst r"
  "build_sequence n acc evs = Inr (xs, r) \<Longrightarrow> list_all plain_event evs \<Longrightarrow>
     \<exists>ys. xs = acc @ ys \<and> list_all tree_ok ys \<and> map fst evs = concat (map kinds ys) @ Sequence_end # map fst r"
  "build_mapping n macc evs = Inr (kvs, r) \<Longrightarrow> list_all plain_event evs \<Longrightarrow> distinct (map fst macc) \<Longrightarrow>
     \<exists>ys. kvs = macc @ ys \<and> distinct (map fst kvs) \<and> list_all (\<lambda>(k, v). nul_free k \<and> tree_ok v) ys \<and>
       map fst evs = concat (map (\<lambda>(k, v). Scalar k # kinds v) ys) @ Mapping_end # map fst r"
proof (induction n ev evs and n acc evs and n macc evs arbitrary: t r and xs r and kvs r rule: build_induct)
  case (1 n k line evs)
  have evs: "list_all plain_event evs" using "1.prems"(2) by simp
  show ?case
  proof (cases k)
    case (Scalar v)
    then show ?thesis using "1.prems" by (auto simp: build_node.simps plain_event_def)
  next
    case Sequence_start
    with "1.prems"(1) obtain xs where x: "build_sequence n [] evs = Inr (xs, r)" "t = YAML_SEQ line xs"
      by (auto simp: build_node.simps rbind_eq_Inr)
    from "1.IH"(1) [OF Sequence_start x(1) evs] x(2) Sequence_start show ?thesis by auto
  next
    case Mapping_start
    with "1.prems"(1) obtain xs where x: "build_mapping n [] evs = Inr (xs, r)" "t = YAML_MAP line xs"
      by (auto simp: build_node.simps rbind_eq_Inr)
    from "1.IH"(2) [OF Mapping_start x(1) evs] x(2) Mapping_start show ?thesis by auto
  qed (use "1.prems" in \<open>simp_all add: build_node.simps\<close>)
next
  case (4 n acc ev evs)
  show ?case
  proof (cases "fst ev = Sequence_end")
    case True
    with 4 show ?thesis by simp
  next
    case False
    with "4.prems"(1) obtain c r1 where b: "build_node n ev evs = Inr (c, r1)" "build_sequence n (acc @ [c]) r1 = Inr (xs, r)"
      by (auto simp: rbind_eq_Inr)
    have p: "list_all plain_event r1" using build_suffix(1) [OF b(1)] "4.prems"(2) by auto
    from "4.IH"(1) [OF False b(1) "4.prems"(2)] "4.IH"(2) [OF False b(2) p]
    show ?thesis by fastforce
  qed
next
  case (7 n acc kev evs)
  show ?case
  proof (cases "fst kev")
    case (Scalar v)
    with "7.prems"(1) obtain vev evs' vn r1 where e: "evs = vev # evs'" "c_string v \<notin> fst ` set acc"
      "build_node n vev evs' = Inr (vn, r1)" "build_mapping n (acc @ [(c_string v, vn)]) r1 = Inr (kvs, r)"
      by (auto simp: rbind_eq_Inr Let_def split: if_splits list.splits)
    have v: "c_string v = v" "nul_free v" using "7.prems"(2) Scalar by (auto simp: plain_event_def)
    have p: "list_all plain_event r1" using build_suffix(1) [OF e(3)] "7.prems"(2) e(1) by auto
    have d: "distinct (map fst (acc @ [(c_string v, vn)]))" using "7.prems"(3) e(2) by auto
    from "7.IH"(1) [OF Scalar refl e(2,1,3)] "7.IH"(2) [OF Scalar refl e(2,1,4) p d] Scalar e(1) "7.prems"(2) v
    show ?thesis by fastforce
  qed (use 7 in auto)
qed simp_all

text \<open>Conversely, the events of a tree are built into that tree.\<close>

definition builds :: "pw_yaml_node \<Rightarrow> bool" where
  "builds u \<longleftrightarrow> (\<forall>n ev evs r. map fst (ev # evs) = kinds u \<and> length (evs @ r) < n \<longrightarrow>
     (\<exists>t. build_node n ev (evs @ r) = Inr (t, r) \<and> unlined t = unlined u))"

lemma kinds_Cons: "\<exists>k ks. kinds u = k # ks \<and> k \<noteq> Sequence_end \<and> k \<noteq> Mapping_end"
  by (cases u) auto

lemma builds_split:
  assumes "map fst evs = kinds x @ ks" and "builds x" and "length (evs @ r) \<le> n"
  shows "\<exists>ev e1 e2 t. evs = ev # e1 @ e2 \<and> map fst e2 = ks \<and> fst ev \<noteq> Sequence_end \<and>
    build_node n ev (e1 @ e2 @ r) = Inr (t, e2 @ r) \<and> unlined t = unlined x"
proof -
  obtain a e2 where a: "evs = a @ e2" "map fst a = kinds x" "map fst e2 = ks"
    using assms(1) by (auto simp: map_eq_append_conv)
  obtain k ks' where k: "kinds x = k # ks'" "k \<noteq> Sequence_end" using kinds_Cons [of x] by auto
  then obtain ev e1 where e: "a = ev # e1" "fst ev = k" using a(2) by auto
  have "length (e1 @ e2 @ r) < n" using assms(3) a(1) e(1) by simp
  then obtain t where "build_node n ev (e1 @ e2 @ r) = Inr (t, e2 @ r)" "unlined t = unlined x"
    using assms(2) a(2) e(1) unfolding builds_def by blast
  with a e k show ?thesis by auto
qed

lemma build_sequence_complete:
  "list_all builds xs \<Longrightarrow> map fst evs = concat (map kinds xs) @ [Sequence_end] \<Longrightarrow> length (evs @ r) < n \<Longrightarrow>
     \<exists>ts. build_sequence n acc (evs @ r) = Inr (acc @ ts, r) \<and> map unlined ts = map unlined xs"
proof (induction xs arbitrary: acc evs n)
  case Nil
  then obtain m ev where "n = Suc m" "evs = [ev]" "fst ev = Sequence_end" by (cases n) auto
  then show ?case by simp
next
  case (Cons x xs)
  then obtain m where m: "n = Suc m" by (cases n) auto
  have "map fst evs = kinds x @ concat (map kinds xs) @ [Sequence_end]" "length (evs @ r) \<le> m" "builds x"
    using Cons.prems m by simp_all
  from builds_split [OF this(1,3,2)] obtain ev e1 e2 t where e: "evs = ev # e1 @ e2"
    "map fst e2 = concat (map kinds xs) @ [Sequence_end]" "fst ev \<noteq> Sequence_end"
    "build_node m ev (e1 @ e2 @ r) = Inr (t, e2 @ r)" "unlined t = unlined x" by blast
  have "length (e2 @ r) < m" using Cons.prems(3) e(1) m by simp
  from Cons.IH [OF _ e(2) this, of "acc @ [t]"] Cons.prems(1) obtain ts where
    "build_sequence m (acc @ [t]) (e2 @ r) = Inr ((acc @ [t]) @ ts, r)" "map unlined ts = map unlined xs" by auto
  with e m show ?case by (intro exI [of _ "t # ts"]) simp
qed

lemma build_mapping_complete:
  "list_all (\<lambda>(k, v). nul_free k \<and> builds v) kvs \<Longrightarrow> distinct (map fst (acc @ kvs)) \<Longrightarrow>
   map fst evs = concat (map (\<lambda>(k, v). Scalar k # kinds v) kvs) @ [Mapping_end] \<Longrightarrow> length (evs @ r) < n \<Longrightarrow>
     \<exists>ts. build_mapping n acc (evs @ r) = Inr (acc @ ts, r) \<and>
       map (\<lambda>(k, v). (k, unlined v)) ts = map (\<lambda>(k, v). (k, unlined v)) kvs"
proof (induction kvs arbitrary: acc evs n)
  case Nil
  then obtain m ev where "n = Suc m" "evs = [ev]" "fst ev = Mapping_end" by (cases n) auto
  then show ?case by simp
next
  case (Cons kv kvs)
  obtain k v where kv: "kv = (k, v)" by fastforce
  obtain m where m: "n = Suc m" using Cons.prems(4) by (cases n) auto
  obtain kev evs1 where k1: "evs = kev # evs1" "fst kev = Scalar k"
    "map fst evs1 = kinds v @ concat (map (\<lambda>(k, v). Scalar k # kinds v) kvs) @ [Mapping_end]"
    using Cons.prems(3) kv by auto
  have b: "length (evs1 @ r) \<le> m" "builds v" "nul_free k" using Cons.prems k1 kv m by simp_all
  from builds_split [OF k1(3) b(2,1)] obtain ev e1 e2 t where e: "evs1 = ev # e1 @ e2"
    "map fst e2 = concat (map (\<lambda>(k, v). Scalar k # kinds v) kvs) @ [Mapping_end]"
    "build_node m ev (e1 @ e2 @ r) = Inr (t, e2 @ r)" "unlined t = unlined v" by blast
  have l: "length (e2 @ r) < m" and d: "distinct (map fst ((acc @ [(k, t)]) @ kvs))" and f: "k \<notin> fst ` set acc"
    using Cons.prems(2,4) e(1) k1(1) m kv by auto
  from Cons.IH [OF _ d e(2) l] Cons.prems(1) obtain ts where
    "build_mapping m (acc @ [(k, t)]) (e2 @ r) = Inr ((acc @ [(k, t)]) @ ts, r)"
    "map (\<lambda>(k, v). (k, unlined v)) ts = map (\<lambda>(k, v). (k, unlined v)) kvs" by auto
  with e m k1 kv f b(3) show ?case by (intro exI [of _ "(k, t) # ts"]) simp
qed

lemma tree_builds: "tree_ok u \<Longrightarrow> builds u"
proof (induction u)
  case (YAML_SCALAR l v)
  show ?case unfolding builds_def
  proof (intro allI impI)
    fix n r and ev :: yaml_event and evs
    assume "map fst (ev # evs) = kinds (YAML_SCALAR l v) \<and> length (evs @ r) < n"
    then obtain line where "ev = (Scalar v, line)" "evs = []" by (cases ev) auto
    then show "\<exists>t. build_node n ev (evs @ r) = Inr (t, r) \<and> unlined t = unlined (YAML_SCALAR l v)"
      using YAML_SCALAR by (simp add: build_node.simps)
  qed
next
  case (YAML_MAP l kvs)
  then have kvs: "list_all (\<lambda>(k, v). nul_free k \<and> builds v) kvs" "distinct (map fst ([] @ kvs))"
    by (fastforce simp: list_all_iff)+
  show ?case unfolding builds_def
  proof (intro allI impI)
    fix n r and ev :: yaml_event and evs
    assume a: "map fst (ev # evs) = kinds (YAML_MAP l kvs) \<and> length (evs @ r) < n"
    then obtain line where ev: "ev = (Mapping_start, line)" by (cases ev) auto
    have "map fst evs = concat (map (\<lambda>(k, v). Scalar k # kinds v) kvs) @ [Mapping_end]" "length (evs @ r) < n"
      using a by simp_all
    from build_mapping_complete [OF kvs this] obtain ts where
      "build_mapping n [] (evs @ r) = Inr ([] @ ts, r)" "map (\<lambda>(k, v). (k, unlined v)) ts = map (\<lambda>(k, v). (k, unlined v)) kvs"
      by blast
    then show "\<exists>t. build_node n ev (evs @ r) = Inr (t, r) \<and> unlined t = unlined (YAML_MAP l kvs)"
      by (intro exI [of _ "YAML_MAP line ts"]) (simp add: ev build_node.simps)
  qed
next
  case (YAML_SEQ l xs)
  then have xs: "list_all builds xs" by (auto simp: list_all_iff)
  show ?case unfolding builds_def
  proof (intro allI impI)
    fix n r and ev :: yaml_event and evs
    assume a: "map fst (ev # evs) = kinds (YAML_SEQ l xs) \<and> length (evs @ r) < n"
    then obtain line where ev: "ev = (Sequence_start, line)" by (cases ev) auto
    have "map fst evs = concat (map kinds xs) @ [Sequence_end]" "length (evs @ r) < n" using a by simp_all
    from build_sequence_complete [OF xs this, of "[]"] obtain ts where
      "build_sequence n [] (evs @ r) = Inr ([] @ ts, r)" "map unlined ts = map unlined xs" by blast
    then show "\<exists>t. build_node n ev (evs @ r) = Inr (t, r) \<and> unlined t = unlined (YAML_SEQ l xs)"
      by (intro exI [of _ "YAML_SEQ line ts"]) (simp add: ev build_node.simps)
  qed
qed

text \<open>Line numbers do not matter for the events and for well-formedness.\<close>

lemma kinds_unlined: "kinds (unlined t) = kinds t"
proof (induction t)
  case (YAML_MAP l kvs)
  have "concat (map (\<lambda>x. case case x of (k, v) \<Rightarrow> (k, unlined v) of (k, v) \<Rightarrow> Scalar k # kinds v) kvs) =
      concat (map (\<lambda>(k, v). Scalar k # kinds v) kvs)"
    by (intro arg_cong [of _ _ concat] map_cong refl) (use YAML_MAP in auto)
  then show ?case by (simp add: comp_def)
next
  case (YAML_SEQ l xs)
  then have k: "map (kinds \<circ> unlined) xs = map kinds xs" by simp
  show ?case by (simp add: k)
qed simp

lemma tree_ok_unlined: "tree_ok (unlined t) = tree_ok t"
proof (induction t)
  case (YAML_MAP l kvs)
  have f: "map (fst \<circ> (\<lambda>(k, v). (k, unlined v))) kvs = map fst kvs" by (induction kvs) auto
  have a: "list_all (\<lambda>(k, v). nul_free k \<and> tree_ok v) (map (\<lambda>(k, v). (k, unlined v)) kvs) \<longleftrightarrow>
      list_all (\<lambda>(k, v). nul_free k \<and> tree_ok v) kvs"
    unfolding list_all_iff set_map ball_simps by (intro ball_cong refl) (use YAML_MAP in auto)
  show ?case by (simp add: f a)
qed (auto simp: list_all_iff)

section \<open>The stream\<close>

text \<open>The events that make up the content of a document.\<close>

definition content_kind :: "yaml_kind \<Rightarrow> bool" where
  "content_kind k \<longleftrightarrow> k \<notin> {Stream_start, Stream_end, Document_start, Document_end}"

lemma kinds_content: "list_all content_kind (kinds t)"
  by (induction t) (fastforce simp: content_kind_def list_all_iff)+

lemma walk_fuel: "length evs < n \<Longrightarrow> walk_stream n ss sd nd root evs \<noteq> Inl Out_of_fuel"
proof (induction n ss sd nd root evs rule: walk_stream.induct)
  case (3 n ss sd nd root ev evs)
  have "length r < n" if "build_node n ev evs = Inr (t, r)" for t r using build_consumes(1) [OF that] 3 by simp
  with 3 show ?case using build_fuel(1) [of evs n ev] by (cases "fst ev") (auto simp: rbind_eq_Inl)
qed simp_all

lemma walk_content:
  "content_kind (fst ev) \<Longrightarrow> walk_stream (Suc n) True True nd root (ev # evs) =
     (if root \<noteq> None then Inl (Multiple_documents (snd ev))
      else rbind (build_node n ev evs) (\<lambda>(t, r). walk_stream n True True nd (Some t) r))"
  by (cases "fst ev") (auto simp: content_kind_def)

text \<open>A stream of one document.\<close>

definition document :: "nat \<Rightarrow> nat \<Rightarrow> yaml_event list \<Rightarrow> nat \<Rightarrow> nat \<Rightarrow> yaml_event list" where
  "document a b body c d = (Stream_start, a) # (Document_start, b) # body @ [(Document_end, c), (Stream_end, d)]"

lemma parse_document:
  assumes "content_kind (fst ev)"
  shows "pw_yaml_parse (document a b (ev # rest) c d) =
    rbind (rbind (build_node (Suc (Suc (Suc (length rest)))) ev (rest @ [(Document_end, c), (Stream_end, d)]))
        (\<lambda>(t, r). walk_stream (Suc (Suc (Suc (length rest)))) True True 1 (Some t) r))
      (\<lambda>root. Inr (case root of None \<Rightarrow> YAML_MAP 1 [] | Some t \<Rightarrow> t))"
proof -
  have "pw_yaml_parse (document a b (ev # rest) c d) =
      rbind (walk_stream (Suc (Suc (Suc (Suc (length rest))))) True True 1 None (ev # rest @ [(Document_end, c), (Stream_end, d)]))
        (\<lambda>root. Inr (case root of None \<Rightarrow> YAML_MAP 1 [] | Some t \<Rightarrow> t))"
    by (simp add: pw_yaml_parse_def document_def)
  then show ?thesis by (simp only: walk_content [OF assms]) simp
qed

lemma yaml_parse_tree:
  assumes "tree_ok u" and "map fst body = kinds u"
  shows "\<exists>t. pw_yaml_parse (document a b body c d) = Inr t \<and> unlined t = unlined u"
proof -
  obtain ev rest where body: "body = ev # rest" using assms(2) kinds_Cons [of u] by (cases body) auto
  let ?fin = "[(Document_end, c), (Stream_end, d)]" and ?n = "Suc (Suc (Suc (length rest)))"
  have ev: "content_kind (fst ev)" using assms(2) kinds_content [of u] body by (metis list.pred_inject(2) list.simps(9))
  have k: "map fst (ev # rest) = kinds u \<and> length (rest @ ?fin) < ?n" using assms(2) body by simp
  obtain t where t: "build_node ?n ev (rest @ ?fin) = Inr (t, ?fin)" "unlined t = unlined u"
    using tree_builds [OF assms(1), unfolded builds_def, rule_format, OF k] by blast
  have "walk_stream ?n True True 1 (Some t) ?fin = Inr (Some t)" by simp
  with t show ?thesis unfolding body parse_document [OF ev] by simp
qed

lemma yaml_parse_sound:
  assumes "body \<noteq> []" and "list_all plain_event body" and "list_all (content_kind \<circ> fst) body"
    and "pw_yaml_parse (document a b body c d) = Inr u"
  shows "map fst body = kinds u \<and> tree_ok u"
proof -
  obtain ev rest where body: "body = ev # rest" using assms(1) by (cases body) auto
  let ?fin = "[(Document_end, c), (Stream_end, d)]" and ?n = "Suc (Suc (Suc (length rest)))"
  have ev: "content_kind (fst ev)" using assms(3) body by simp
  from assms(4) obtain t r root where t: "build_node ?n ev (rest @ ?fin) = Inr (t, r)"
    and w: "walk_stream ?n True True 1 (Some t) r = Inr root" and u: "(case root of None \<Rightarrow> YAML_MAP 1 [] | Some t \<Rightarrow> t) = u"
    unfolding body parse_document [OF ev] by (auto simp: rbind_eq_Inr)
  have "list_all plain_event (ev # rest @ ?fin)" using assms(2) body by (simp add: plain_event_def)
  from build_sound(1) [OF t this] have ok: "tree_ok t"
    and k: "map fst body @ [Document_end, Stream_end] = kinds t @ map fst r" by (simp_all add: body)
  from k obtain us where us: "map fst body @ us = kinds t \<and> [Document_end, Stream_end] = us @ map fst r \<or>
      map fst body = kinds t @ us \<and> us @ [Document_end, Stream_end] = map fst r"
    by (auto simp: append_eq_append_conv2)
  have "us = []"
  proof (cases us)
    case (Cons x xs)
    from us show ?thesis
    proof
      assume "map fst body @ us = kinds t \<and> [Document_end, Stream_end] = us @ map fst r"
      then have "Document_end \<in> set (kinds t)" using Cons by (metis append_Cons in_set_conv_decomp list.inject)
      then show ?thesis using kinds_content [of t] by (auto simp: list_all_iff content_kind_def)
    next
      assume l: "map fst body = kinds t @ us \<and> us @ [Document_end, Stream_end] = map fst r"
      moreover have "list_all content_kind (map fst body)" using assms(3) by (simp add: list.pred_map)
      ultimately have "content_kind x" using Cons by simp
      moreover obtain e r' where "r = e # r'" "fst e = x" using l Cons by auto
      ultimately show ?thesis using w walk_content [of e "Suc (Suc (length rest))"] by simp
    qed
  qed simp
  with us have r: "map fst body = kinds t" "map fst r = [Document_end, Stream_end]" by auto
  then obtain x y where "r = [(Document_end, x), (Stream_end, y)]" by auto
  with w u have "u = t" by auto
  with r(1) ok show ?thesis by simp
qed

section \<open>Properties\<close>

text \<open>
  C38. The tree builder accepts exactly the events of a tree: for a stream of one document with some content, in
  which no text contains a NUL, the parse succeeds with a given tree (up to line numbers) if and only if the
  content is that tree written out and the keys of each of its mappings are distinct. In particular a
  duplicate key, an alias, a mapping key that is not a scalar and a second root are refused.
\<close>

theorem yaml_tree_exact:
  assumes "body \<noteq> []" and "list_all plain_event body" and "list_all (content_kind \<circ> fst) body"
  shows "(\<exists>t. pw_yaml_parse ((Stream_start, a) # (Document_start, b) # body @ [(Document_end, c), (Stream_end, d)]) = Inr t \<and>
            unlined t = unlined u) \<longleftrightarrow>
         map fst body = kinds u \<and> tree_ok u"
  unfolding document_def [symmetric]
  using yaml_parse_tree [of u body a b c d] yaml_parse_sound [OF assms, of a b c d] by (metis kinds_unlined tree_ok_unlined)

theorem yaml_tree_exact_witness:
  "\<exists>t. pw_yaml_parse ((Stream_start, 1) # (Document_start, 1) #
       [(Mapping_start, 1), (Scalar ''id'', 1), (Scalar ''7'', 1), (Mapping_end, 2)] @ [(Document_end, 2), (Stream_end, 2)]) = Inr t \<and>
     unlined t = unlined (YAML_MAP 0 [(''id'', YAML_SCALAR 0 ''7'')])"
  by (subst yaml_tree_exact) (simp_all add: plain_event_def content_kind_def nul_free_def)


end
