(* ===== verification/PW_Config_Parse.thy ===== *)
theory PW_Config_Parse
  imports PW_Csr PW_Scalar PW_Yaml
begin

text \<open>
  The schema walker of \<^verbatim>\<open>config.c\<close>: from a document tree to a configuration. Each function of the source
  is one definition (the long \<open>parse_flow\<close> one per block), reading the keys in the order of the source and
  returning the status of the first check that fails. The structs are filled from zero, as \<open>calloc\<close>
  leaves them. What a failed parse leaves half filled is discarded by every caller and is not modelled,
  nor are the texts of the diagnostics.
\<close>

section \<open>Reading keys\<close>

text \<open>A string copied into a buffer of \<open>n\<close> characters.\<close>

definition copy_str :: "nat \<Rightarrow> string \<Rightarrow> string" where
  "copy_str n s = take (n - 1) s"

text \<open>The macros \<open>REQ_MAP\<close> and \<open>REQ_SEQ\<close>.\<close>

definition req_map :: "pw_yaml_node option \<Rightarrow> pw_status + pw_yaml_node" where
  "req_map n = (case n of Some (YAML_MAP l kvs) \<Rightarrow> Inr (YAML_MAP l kvs) | _ \<Rightarrow> Inl PW_E_PARSE)"

definition req_seq :: "pw_yaml_node option \<Rightarrow> pw_status + pw_yaml_node list" where
  "req_seq n = (case n of Some (YAML_SEQ l xs) \<Rightarrow> Inr xs | _ \<Rightarrow> Inl PW_E_PARSE)"

definition get_scalar :: "pw_yaml_node \<Rightarrow> string \<Rightarrow> bool \<Rightarrow> pw_status + string option" where
  "get_scalar m key required =
     (case pw_yaml_map_get m key of
        None \<Rightarrow> if required then Inl PW_E_MISSING_FIELD else Inr None
      | Some v \<Rightarrow> (case v of YAML_SCALAR _ s \<Rightarrow> Inr (Some s) | _ \<Rightarrow> Inl PW_E_PARSE))"

text \<open>
  The two ways in which the walker uses it: a required key that a reader must accept, and an optional
  one with a default.
\<close>

definition req_field :: "pw_yaml_node \<Rightarrow> string \<Rightarrow> (string \<Rightarrow> 'a option) \<Rightarrow> pw_status \<Rightarrow> pw_status + 'a" where
  "req_field m key rd e = rbind (get_scalar m key True) (\<lambda>s. or_fail (Option.bind s rd) e)"

definition opt_field :: "pw_yaml_node \<Rightarrow> string \<Rightarrow> (string \<Rightarrow> 'a option) \<Rightarrow> pw_status \<Rightarrow> 'a \<Rightarrow> pw_status + 'a" where
  "opt_field m key rd e d =
     rbind (get_scalar m key False) (\<lambda>s. case s of None \<Rightarrow> Inr d | Some t \<Rightarrow> or_fail (rd t) e)"

text \<open>Readers that are built from others: a further check, a value that records its presence, a keyword.\<close>

definition checked :: "(string \<Rightarrow> 'a option) \<Rightarrow> ('a \<Rightarrow> bool) \<Rightarrow> string \<Rightarrow> 'a option" where
  "checked rd P t = (case rd t of None \<Rightarrow> None | Some v \<Rightarrow> if P v then Some v else None)"

definition present :: "(string \<Rightarrow> 'a option) \<Rightarrow> string \<Rightarrow> 'a option option" where
  "present rd t = map_option Some (rd t)"

definition keyword :: "(string \<times> 'a) list \<Rightarrow> string \<Rightarrow> 'a option" where
  "keyword ws t = map_of ws t"

definition name_field :: "nat \<Rightarrow> string \<Rightarrow> string option" where
  "name_field n t = Some (copy_str n t)"

section \<open>System, cards and logical interfaces\<close>

definition parse_system :: "pw_yaml_node option \<Rightarrow> pw_status + pw_system" where
  "parse_system n =
     rbind (req_map n) (\<lambda>m.
     rbind (req_field m ''name'' (name_field PW_NAME_MAX) PW_E_PARSE) (\<lambda>nm.
     rbind (req_field m ''mode'' (name_field PW_NAME_MAX) PW_E_PARSE) (\<lambda>md.
     rbind (fail_if (md \<noteq> ''multi-card'') PW_E_INVAL) (\<lambda>_.
     rbind (req_field m ''default_speed'' (name_field 8) PW_E_PARSE) (\<lambda>sp.
     rbind (fail_if (sp \<noteq> ''10g'') PW_E_INVAL) (\<lambda>_.
     rbind (opt_field m ''stats_poll_interval_ms'' pw_parse_u32 PW_E_PARSE 100) (\<lambda>ms.
     rbind (opt_field m ''control_socket'' (name_field 128) PW_E_PARSE ''/run/packetwyrm/packetwyrmd.sock'') (\<lambda>so.
     rbind (opt_field m ''secret'' (name_field 128) PW_E_PARSE []) (\<lambda>se.
     Inr \<lparr>sys_name = nm, sys_mode = md, sys_default_speed = sp, sys_stats_poll_interval_ms = ms,
          sys_control_socket = so, sys_secret = se\<rparr>)))))))))"

definition parse_card_port :: "pw_yaml_node \<Rightarrow> pw_status + pw_card_port" where
  "parse_card_port n =
     rbind (req_map (Some n)) (\<lambda>m.
     rbind (req_field m ''local_port'' (checked pw_parse_u8 (\<lambda>v. unat v < PW_PORTS_PER_CARD)) PW_E_OUT_OF_RANGE) (\<lambda>lp.
     rbind (req_field m ''global_port'' pw_parse_u16 PW_E_PARSE) (\<lambda>gp.
     rbind (opt_field m ''name'' (name_field PW_NAME_MAX) PW_E_PARSE (''p'' @ dec_string (unat gp))) (\<lambda>nm.
     Inr \<lparr>cport_local_port = lp, cport_global_port = gp, cport_name = nm\<rparr>))))"

definition parse_card :: "pw_yaml_node \<Rightarrow> pw_status + pw_card" where
  "parse_card n =
     rbind (req_map (Some n)) (\<lambda>m.
     rbind (req_field m ''id'' pw_parse_u16 PW_E_PARSE) (\<lambda>i.
     rbind (opt_field m ''name'' (name_field PW_NAME_MAX) PW_E_PARSE (''card'' @ dec_string (unat i))) (\<lambda>nm.
     rbind (req_field m ''pci'' (name_field PW_PCI_BDF_MAX) PW_E_PARSE) (\<lambda>pci.
     rbind (req_seq (pw_yaml_map_get m ''ports'')) (\<lambda>ports.
     rbind (fail_if (length ports = 0 \<or> length ports > PW_PORTS_PER_CARD) PW_E_OUT_OF_RANGE) (\<lambda>_.
     rbind (map_res parse_card_port ports) (\<lambda>ps.
     Inr \<lparr>card_id = i, card_name = nm, card_pci = pci, card_ports = ps\<rparr>)))))))"

definition punt_flag :: "pw_yaml_node \<Rightarrow> string \<Rightarrow> pw_status + bool" where
  "punt_flag punt key = opt_field punt key pw_parse_bool PW_E_PARSE False"

definition parse_punt :: "pw_yaml_node option \<Rightarrow> pw_status + pw_punt_flags" where
  "parse_punt n =
     (case n of None \<Rightarrow> Inr zero_punt
      | Some _ \<Rightarrow>
          rbind (req_map n) (\<lambda>p.
          rbind (punt_flag p ''arp'') (\<lambda>arp.
          rbind (punt_flag p ''ipv6_nd'') (\<lambda>nd.
          rbind (punt_flag p ''lldp'') (\<lambda>lldp.
          rbind (punt_flag p ''icmp'') (\<lambda>icmp.
          rbind (punt_flag p ''bgp'') (\<lambda>bgp.
          rbind (punt_flag p ''ospf'') (\<lambda>ospf.
          rbind (punt_flag p ''is_is'') (\<lambda>isis.
          Inr \<lparr>punt_arp = arp, punt_ipv6_nd = nd, punt_lldp = lldp, punt_icmp = icmp, punt_bgp = bgp,
               punt_ospf = ospf, punt_is_is = isis\<rparr>)))))))))"

definition default_lif_name :: "u16 \<Rightarrow> u16 \<Rightarrow> string" where
  "default_lif_name gp vlan = (case pw_tap_name PW_NAME_MAX gp vlan of Inl _ \<Rightarrow> [] | Inr s \<Rightarrow> s)"

definition vlan_field :: "string \<Rightarrow> u16 option" where
  "vlan_field = checked pw_parse_u16 (\<lambda>v. v < 4095)"

definition parse_logical_if :: "pw_yaml_node \<Rightarrow> pw_status + pw_logical_if" where
  "parse_logical_if n =
     rbind (req_map (Some n)) (\<lambda>m.
     rbind (req_field m ''id'' pw_parse_u32 PW_E_PARSE) (\<lambda>i.
     rbind (req_field m ''global_port'' pw_parse_u16 PW_E_PARSE) (\<lambda>gp.
     rbind (opt_field m ''vlan'' vlan_field PW_E_OUT_OF_RANGE 0) (\<lambda>vlan.
     rbind (opt_field m ''name'' (name_field PW_NAME_MAX) PW_E_PARSE (default_lif_name gp vlan)) (\<lambda>nm.
     rbind (req_field m ''mac'' pw_parse_mac PW_E_PARSE) (\<lambda>mac.
     rbind (opt_field m ''mtu'' pw_parse_u16 PW_E_PARSE 1500) (\<lambda>mtu.
     rbind (opt_field m ''netns'' (name_field PW_NAME_MAX) PW_E_PARSE []) (\<lambda>ns.
     rbind (parse_punt (pw_yaml_map_get m ''punt'')) (\<lambda>punt.
     Inr \<lparr>lif_id = i, lif_name = nm, lif_global_port = gp, lif_vlan = vlan, lif_mac = mac, lif_mtu = mtu,
          lif_netns = ns, lif_punt = punt\<rparr>)))))))))"

section \<open>Flows\<close>

definition modes :: "(string \<times> u8) list" where
  "modes = [(''static'', 0), (''increment'', 1), (''random'', 2)]"

definition parse_field_mod :: "pw_yaml_node \<Rightarrow> string \<Rightarrow> pw_status + pw_field_mod" where
  "parse_field_mod parent key =
     (case pw_yaml_map_get parent key of None \<Rightarrow> Inr zero_field_mod
      | Some n \<Rightarrow>
          rbind (req_map (Some n)) (\<lambda>m.
          rbind (opt_field m ''mode'' (keyword modes) PW_E_PARSE 0) (\<lambda>md.
          rbind (opt_field m ''mask'' (checked pw_parse_u64 (\<lambda>v. v \<le> 0xFFFFFFFFFFFF)) PW_E_PARSE 0) (\<lambda>mk.
          Inr \<lparr>fm_mode = md, fm_mask = mk\<rparr>))))"

text \<open>A mask of an IPv6 modifier: an address, or a number of at most 32 bits for the low word.\<close>

definition ipv6_mask_field :: "string \<Rightarrow> bytes option" where
  "ipv6_mask_field s =
     (if CHR '':'' \<in> set s then pw_parse_ipv6 s
      else case pw_parse_u64 s of None \<Rightarrow> None
           | Some v \<Rightarrow> if v > 0xFFFFFFFF then None
                       else Some (zero_bytes 12 @ [ucast (drop_bit 24 v), ucast (drop_bit 16 v), ucast (drop_bit 8 v), ucast v]))"

definition low_mask :: "bytes \<Rightarrow> u64" where
  "low_mask mask16 = push_bit 24 (ucast (mask16 ! 12)) OR push_bit 16 (ucast (mask16 ! 13)) OR
     push_bit 8 (ucast (mask16 ! 14)) OR ucast (mask16 ! 15)"

definition parse_ipv6_field_mod :: "pw_yaml_node \<Rightarrow> string \<Rightarrow> pw_status + (pw_field_mod \<times> bytes)" where
  "parse_ipv6_field_mod parent key =
     (case pw_yaml_map_get parent key of None \<Rightarrow> Inr (zero_field_mod, zero_bytes 16)
      | Some n \<Rightarrow>
          rbind (req_map (Some n)) (\<lambda>m.
          rbind (opt_field m ''mode'' (keyword modes) PW_E_PARSE 0) (\<lambda>md.
          rbind (opt_field m ''mask'' ipv6_mask_field PW_E_PARSE (zero_bytes 16)) (\<lambda>mask16.
          Inr (\<lparr>fm_mode = md, fm_mask = low_mask mask16\<rparr>, mask16)))))"

definition dscp_field :: "string \<Rightarrow> u8 option" where
  "dscp_field = checked pw_parse_u8 (\<lambda>v. v \<le> 63)"

definition parse_ip_endpoint :: "pw_yaml_node \<Rightarrow> pw_status + (pw_flow_ipv4 \<times> pw_flow_ipv6)" where
  "parse_ip_endpoint parent =
     (let v4 = pw_yaml_map_get parent ''ipv4''; v6 = pw_yaml_map_get parent ''ipv6'' in
      rbind (fail_if (v4 \<noteq> None \<and> v6 \<noteq> None) PW_E_INVAL) (\<lambda>_.
      rbind (fail_if (v4 = None \<and> v6 = None) PW_E_MISSING_FIELD) (\<lambda>_.
      if v6 \<noteq> None then
        rbind (req_map v6) (\<lambda>m.
        rbind (req_field m ''src'' pw_parse_ipv6 PW_E_PARSE) (\<lambda>src.
        rbind (req_field m ''dst'' pw_parse_ipv6 PW_E_PARSE) (\<lambda>dst.
        rbind (opt_field m ''hop_limit'' pw_parse_u8 PW_E_PARSE 64) (\<lambda>hl.
        rbind (opt_field m ''dscp'' dscp_field PW_E_OUT_OF_RANGE 0) (\<lambda>dscp.
        Inr (zero_ipv4, \<lparr>v6_present = True, v6_src = src, v6_dst = dst, v6_hop_limit = hl, v6_dscp = dscp\<rparr>))))))
      else
        rbind (req_map v4) (\<lambda>m.
        rbind (req_field m ''src'' pw_parse_ipv4 PW_E_PARSE) (\<lambda>src.
        rbind (req_field m ''dst'' pw_parse_ipv4 PW_E_PARSE) (\<lambda>dst.
        rbind (opt_field m ''ttl'' pw_parse_u8 PW_E_PARSE 64) (\<lambda>ttl.
        rbind (opt_field m ''dscp'' dscp_field PW_E_OUT_OF_RANGE 0) (\<lambda>dscp.
        Inr (\<lparr>v4_present = True, v4_src = src, v4_dst = dst, v4_ttl = ttl, v4_dscp = dscp\<rparr>, zero_ipv6)))))))))"

definition parse_l2 :: "pw_yaml_node option \<Rightarrow> pw_status + pw_flow_l2" where
  "parse_l2 n =
     (case n of None \<Rightarrow> Inr zero_l2
      | Some _ \<Rightarrow>
          rbind (req_map n) (\<lambda>l2.
          rbind (req_field l2 ''src_mac'' pw_parse_mac PW_E_PARSE) (\<lambda>sm.
          rbind (req_field l2 ''dst_mac'' pw_parse_mac PW_E_PARSE) (\<lambda>dm.
          rbind (opt_field l2 ''vlan'' (present vlan_field) PW_E_OUT_OF_RANGE None) (\<lambda>vlan.
          rbind (opt_field l2 ''pcp'' pw_parse_u8 PW_E_PARSE 0) (\<lambda>pcp.
          rbind (fail_if (pcp > 7) PW_E_OUT_OF_RANGE) (\<lambda>_.
          rbind (opt_field l2 ''ethertype'' pw_parse_u16 PW_E_PARSE 0) (\<lambda>et.
          Inr \<lparr>l2_src_mac = sm, l2_dst_mac = dm, l2_vlan_set = (vlan \<noteq> None),
               l2_vlan = (case vlan of None \<Rightarrow> 0 | Some v \<Rightarrow> v), l2_pcp = pcp, l2_ethertype = et\<rparr>))))))))"

definition encap_types :: "(string \<times> u8) list" where
  "encap_types = [(''ipip'', PW_ENCAP_IPIP), (''gre'', PW_ENCAP_GRE), (''etherip'', PW_ENCAP_ETHERIP)]"

definition parse_inner_l2 :: "pw_yaml_node option \<Rightarrow> pw_status + (bytes \<times> bytes) option" where
  "parse_inner_l2 n =
     (case n of None \<Rightarrow> Inr None
      | Some _ \<Rightarrow>
          rbind (req_map n) (\<lambda>il2.
          rbind (req_field il2 ''src_mac'' pw_parse_mac PW_E_PARSE) (\<lambda>sm.
          rbind (req_field il2 ''dst_mac'' pw_parse_mac PW_E_PARSE) (\<lambda>dm.
          Inr (Some (sm, dm))))))"

definition parse_encap :: "pw_yaml_node option \<Rightarrow> pw_status + pw_flow_encap" where
  "parse_encap n =
     (case n of None \<Rightarrow> Inr zero_encap
      | Some _ \<Rightarrow>
          rbind (req_map n) (\<lambda>enc.
          rbind (req_field enc ''type'' (keyword encap_types) PW_E_PARSE) (\<lambda>ty.
          rbind (fail_if (pw_yaml_map_get enc ''outer'' = None) PW_E_MISSING_FIELD) (\<lambda>_.
          rbind (req_map (pw_yaml_map_get enc ''outer'')) (\<lambda>outer.
          rbind (parse_ip_endpoint outer) (\<lambda>(v4, v6).
          rbind (parse_inner_l2 (pw_yaml_map_get enc ''inner_l2'')) (\<lambda>il2.
          Inr \<lparr>enc_present = True, enc_type = ty, enc_outer_ipv4 = v4, enc_outer_ipv6 = v6,
               enc_inner_mac_set = (il2 \<noteq> None),
               enc_inner_src_mac = (case il2 of None \<Rightarrow> zero_bytes 6 | Some (sm, dm) \<Rightarrow> sm),
               enc_inner_dst_mac = (case il2 of None \<Rightarrow> zero_bytes 6 | Some (sm, dm) \<Rightarrow> dm)\<rparr>)))))))"

definition rx_expects :: "(string \<times> u8) list" where
  "rx_expects = [(''inner'', PW_RX_INNER), (''tunneled'', PW_RX_TUNNELED)]"

definition parse_l4 :: "pw_yaml_node \<Rightarrow> pw_status + pw_flow_udp" where
  "parse_l4 m =
     (let udp = pw_yaml_map_get m ''udp''; tcp = pw_yaml_map_get m ''tcp'' in
      rbind (fail_if (udp \<noteq> None \<and> tcp \<noteq> None) PW_E_INVAL) (\<lambda>_.
      rbind (fail_if (udp = None \<and> tcp = None) PW_E_MISSING_FIELD) (\<lambda>_.
      rbind (req_map (if tcp \<noteq> None then tcp else udp)) (\<lambda>l4.
      rbind (req_field l4 ''src_port'' pw_parse_u16 PW_E_PARSE) (\<lambda>sp.
      rbind (req_field l4 ''dst_port'' pw_parse_u16 PW_E_PARSE) (\<lambda>dp.
      rbind (if tcp \<noteq> None then opt_field l4 ''flags'' pw_parse_u8 PW_E_PARSE 0x02 else Inr 0x02) (\<lambda>fl.
      Inr \<lparr>udp_src_port = sp, udp_dst_port = dp, udp_l4_proto = (if tcp \<noteq> None then 6 else 17), udp_tcp_flags = fl\<rparr>)))))))"

text \<open>The frame length of the traffic block: fixed, or a range with a step; then the checks.\<close>

definition parse_frame_len :: "pw_yaml_node \<Rightarrow> pw_status + pw_flow_traffic" where
  "parse_frame_len tr =
     rbind (opt_field tr ''frame_len'' (present pw_parse_u16) PW_E_PARSE None) (\<lambda>fl.
     case fl of
       Some v \<Rightarrow> Inr (zero_traffic\<lparr>tr_frame_len_fixed := v, tr_frame_len_fixed_set := True\<rparr>)
     | None \<Rightarrow>
         rbind (req_field tr ''frame_len_min'' pw_parse_u16 PW_E_PARSE) (\<lambda>mn.
         rbind (req_field tr ''frame_len_max'' pw_parse_u16 PW_E_PARSE) (\<lambda>mx.
         rbind (opt_field tr ''frame_len_step'' pw_parse_u16 PW_E_PARSE 1) (\<lambda>st.
         Inr (zero_traffic\<lparr>tr_frame_len_min := mn, tr_frame_len_max := mx, tr_frame_len_step := st\<rparr>)))))"

definition check_frame_len :: "pw_yaml_node \<Rightarrow> pw_flow_traffic \<Rightarrow> pw_status + unit" where
  "check_frame_len tr t =
     (let fixed = tr_frame_len_fixed_set t;
          flo = (if fixed then tr_frame_len_fixed t else tr_frame_len_min t);
          fhi = (if fixed then tr_frame_len_fixed t else tr_frame_len_max t) in
      rbind (fail_if (fixed \<and> (pw_yaml_map_get tr ''frame_len_min'' \<noteq> None \<or> pw_yaml_map_get tr ''frame_len_max'' \<noteq> None \<or>
                        pw_yaml_map_get tr ''frame_len_step'' \<noteq> None)) PW_E_INVAL) (\<lambda>_.
      rbind (fail_if (flo < 60 \<or> fhi > 1518) PW_E_INVAL) (\<lambda>_.
      rbind (fail_if (flo > fhi) PW_E_INVAL) (\<lambda>_.
      fail_if (\<not> fixed \<and> tr_frame_len_step t = 0) PW_E_INVAL))))"

definition payloads :: "(string \<times> u8) list" where
  "payloads = [(''zero'', PWFPGA_PAYLOAD_ZERO), (''increment'', PWFPGA_PAYLOAD_INCREMENT),
               (''prbs'', PWFPGA_PAYLOAD_PRBS), (''random'', PWFPGA_PAYLOAD_RANDOM)]"

definition frame_templates :: "(string \<times> u8) list" where
  "frame_templates = [(''test'', PW_FRAME_TEMPLATE_TEST), (''raw'', PW_FRAME_TEMPLATE_L4RAW),
                      (''ip'', PW_FRAME_TEMPLATE_L3RAW), (''eth'', PW_FRAME_TEMPLATE_L2RAW)]"

definition parse_traffic :: "pw_yaml_node option \<Rightarrow> pw_status + pw_flow_traffic" where
  "parse_traffic n =
     rbind (fail_if (n = None) PW_E_MISSING_FIELD) (\<lambda>_.
     rbind (req_map n) (\<lambda>tr.
     rbind (parse_frame_len tr) (\<lambda>t.
     rbind (opt_field tr ''rate_bps'' pw_parse_u64 PW_E_PARSE 0) (\<lambda>bps.
     rbind (opt_field tr ''rate_pps'' pw_parse_u64 PW_E_PARSE 0) (\<lambda>pps.
     rbind (check_frame_len tr t) (\<lambda>_.
     rbind (fail_if ((bps = 0) = (pps = 0)) PW_E_INVAL) (\<lambda>_.
     rbind (opt_field tr ''burst_size'' pw_parse_u32 PW_E_PARSE 1) (\<lambda>bs.
     rbind (opt_field tr ''burst_gap_ticks'' pw_parse_u32 PW_E_PARSE 0) (\<lambda>gap.
     rbind (opt_field tr ''payload'' (keyword payloads) PW_E_INVAL PWFPGA_PAYLOAD_INCREMENT) (\<lambda>pl.
     rbind (opt_field tr ''payload_seed'' pw_parse_u32 PW_E_PARSE 0) (\<lambda>seed.
     rbind (opt_field tr ''insert_sequence'' pw_parse_bool PW_E_PARSE True) (\<lambda>isq.
     rbind (opt_field tr ''insert_timestamp'' pw_parse_bool PW_E_PARSE True) (\<lambda>its.
     rbind (opt_field tr ''frame_template'' (keyword frame_templates) PW_E_INVAL PW_FRAME_TEMPLATE_TEST) (\<lambda>tmpl.
     Inr (t\<lparr>tr_rate_bps := bps, tr_rate_pps := pps, tr_burst_size := bs, tr_burst_gap_ticks := gap,
            tr_payload_mode := pl, tr_payload_seed := seed, tr_insert_sequence := isq,
            tr_insert_timestamp := its, tr_frame_template := tmpl\<rparr>)))))))))))))))"

definition parse_measurements :: "pw_yaml_node option \<Rightarrow> pw_status + pw_flow_meas" where
  "parse_measurements n =
     (case n of None \<Rightarrow> Inr zero_meas
      | Some _ \<Rightarrow>
          rbind (req_map n) (\<lambda>m.
          rbind (opt_field m ''loss'' pw_parse_bool PW_E_PARSE False) (\<lambda>l.
          rbind (opt_field m ''latency'' pw_parse_bool PW_E_PARSE False) (\<lambda>la.
          rbind (opt_field m ''jitter'' pw_parse_bool PW_E_PARSE False) (\<lambda>j.
          Inr \<lparr>meas_loss = l, meas_latency = la, meas_jitter = j\<rparr>)))))"

definition parse_modifiers :: "bool \<Rightarrow> pw_yaml_node option \<Rightarrow> pw_status + pw_flow_modifiers" where
  "parse_modifiers v6 n =
     (case n of None \<Rightarrow> Inr zero_modifiers
      | Some _ \<Rightarrow>
          rbind (req_map n) (\<lambda>m.
          rbind (if v6
                 then rbind (parse_ipv6_field_mod m ''src_ipv6'') (\<lambda>(s, sm).
                      rbind (parse_ipv6_field_mod m ''dst_ipv6'') (\<lambda>(d, dm). Inr (s, sm, d, dm)))
                 else rbind (parse_field_mod m ''src_ipv4'') (\<lambda>s.
                      rbind (parse_field_mod m ''dst_ipv4'') (\<lambda>d. Inr (s, zero_bytes 16, d, zero_bytes 16))))
                (\<lambda>(s, sm, d, dm).
          rbind (parse_field_mod m ''udp_src'') (\<lambda>us.
          rbind (parse_field_mod m ''udp_dst'') (\<lambda>ud.
          rbind (parse_field_mod m ''src_mac'') (\<lambda>sc.
          rbind (parse_field_mod m ''dst_mac'') (\<lambda>dc.
          rbind (parse_field_mod m ''vlan'') (\<lambda>vl.
          Inr \<lparr>mod_src_ipv4 = s, mod_dst_ipv4 = d, mod_udp_src = us, mod_udp_dst = ud, mod_src_mac = sc,
               mod_dst_mac = dc, mod_vlan = vl, mod_src_ipv6_mask = sm, mod_dst_ipv6_mask = dm\<rparr>))))))))"

text \<open>A prefix length, read with \<open>strtoul\<close>; it needs an IPv6 flow.\<close>

definition prefix_field :: "string \<Rightarrow> nat option" where
  "prefix_field s = (case strtoull 10 s of (p, rest, _) \<Rightarrow> if rest \<noteq> [] \<or> p > 128 then None else Some (unat p))"

definition match_prefix :: "bool \<Rightarrow> pw_yaml_node \<Rightarrow> string \<Rightarrow> pw_status + (bool \<times> bytes)" where
  "match_prefix v6 mm key =
     rbind (get_scalar mm key False) (\<lambda>s. case s of
        None \<Rightarrow> Inr (False, zero_bytes 16)
      | Some t \<Rightarrow>
          rbind (fail_if (\<not> v6) PW_E_INVAL) (\<lambda>_.
          rbind (or_fail (prefix_field t) PW_E_PARSE) (\<lambda>p. Inr (True, pw_v6_prefix_mask p))))"

definition parse_match :: "bool \<Rightarrow> pw_yaml_node option \<Rightarrow> pw_status + (u16 \<times> u32 \<times> (bool \<times> bytes) \<times> (bool \<times> bytes))" where
  "parse_match v6 n =
     (case n of None \<Rightarrow> Inr (0xFFFF, 0xFFFFFFFF, (False, zero_bytes 16), (False, zero_bytes 16))
      | Some _ \<Rightarrow>
          rbind (req_map n) (\<lambda>mm.
          rbind (opt_field mm ''udp_dst'' pw_parse_u16 PW_E_PARSE 0xFFFF) (\<lambda>ud.
          rbind (opt_field mm ''ipv4_dst'' pw_parse_u32 PW_E_PARSE 0xFFFFFFFF) (\<lambda>vd.
          rbind (match_prefix v6 mm ''ipv6_dst_prefix'') (\<lambda>d.
          rbind (match_prefix v6 mm ''ipv6_src_prefix'') (\<lambda>s.
          Inr (ud, vd, d, s)))))))"

definition classifies :: "(string \<times> bool) list" where
  "classifies = [(''header'', True), (''map'', False)]"

definition parse_flow :: "pw_yaml_node \<Rightarrow> pw_status + pw_flow" where
  "parse_flow n =
     rbind (req_map (Some n)) (\<lambda>m.
     rbind (req_field m ''id'' pw_parse_u32 PW_E_PARSE) (\<lambda>i.
     rbind (opt_field m ''name'' (name_field PW_NAME_MAX) PW_E_PARSE []) (\<lambda>nm.
     rbind (req_field m ''tx_global_port'' pw_parse_u16 PW_E_PARSE) (\<lambda>tx.
     rbind (req_field m ''rx_global_port'' pw_parse_u16 PW_E_PARSE) (\<lambda>rx.
     rbind (opt_field m ''logical_if_id'' pw_parse_u32 PW_E_PARSE 0) (\<lambda>lif.
     rbind (parse_l2 (pw_yaml_map_get m ''l2'')) (\<lambda>l2.
     rbind (parse_ip_endpoint m) (\<lambda>(v4, v6).
     rbind (parse_encap (pw_yaml_map_get m ''encap'')) (\<lambda>enc.
     rbind (opt_field m ''rx_expect'' (keyword rx_expects) PW_E_PARSE PW_RX_INNER) (\<lambda>re.
     rbind (parse_l4 m) (\<lambda>udp.
     rbind (parse_traffic (pw_yaml_map_get m ''traffic'')) (\<lambda>tr.
     rbind (parse_measurements (pw_yaml_map_get m ''measurements'')) (\<lambda>meas.
     rbind (parse_modifiers (v6_present v6) (pw_yaml_map_get m ''modifiers'')) (\<lambda>mods.
     rbind (opt_field m ''background'' pw_parse_bool PW_E_PARSE False) (\<lambda>bg.
     rbind (parse_match (v6_present v6) (pw_yaml_map_get m ''match'')) (\<lambda>(mud, mvd, (mds, mdm), (mss, msm)).
     rbind (opt_field m ''classify'' (keyword classifies) PW_E_INVAL False) (\<lambda>cl.
     Inr \<lparr>flow_id = i, flow_name = nm, flow_tx_global_port = tx, flow_rx_global_port = rx, flow_logical_if_id = lif,
          flow_l2 = l2, flow_ipv4 = v4, flow_ipv6 = v6, flow_udp = udp, flow_traffic = tr, flow_meas = meas,
          flow_mod = mods, flow_background = bg, flow_encap = enc, flow_rx_expect = re,
          flow_match_udp_dst_mask = mud, flow_match_ipv4_dst_mask = mvd, flow_match_ipv6_dst_set = mds,
          flow_match_ipv6_dst_mask = mdm, flow_match_ipv6_src_set = mss, flow_match_ipv6_src_mask = msm,
          flow_classify_header = cl\<rparr>)))))))))))))))))"

section \<open>Forward rules and the root\<close>

definition addr_match :: "pw_yaml_node \<Rightarrow> string \<Rightarrow> pw_status + (bool \<times> bytes \<times> bytes)" where
  "addr_match m key =
     rbind (opt_field m key (present pw_parse_ipv6_cidr) PW_E_PARSE None) (\<lambda>x.
     Inr (case x of None \<Rightarrow> (False, zero_bytes 16, zero_bytes 16) | Some (a, mk) \<Rightarrow> (True, a, mk)))"

definition parse_forward :: "pw_yaml_node \<Rightarrow> pw_status + pw_forward_rule" where
  "parse_forward n =
     rbind (req_map (Some n)) (\<lambda>m.
     rbind (req_field m ''ingress_port'' pw_parse_u16 PW_E_PARSE) (\<lambda>ing.
     rbind (req_field m ''egress_port'' pw_parse_u16 PW_E_PARSE) (\<lambda>egr.
     rbind (opt_field m ''name'' (name_field PW_NAME_MAX) PW_E_PARSE []) (\<lambda>nm.
     rbind (opt_field m ''priority'' pw_parse_u8 PW_E_OUT_OF_RANGE 40) (\<lambda>pr.
     rbind (opt_field m ''ethertype'' pw_parse_u16 PW_E_PARSE 0) (\<lambda>et.
     rbind (opt_field m ''ip_proto'' pw_parse_u8 PW_E_PARSE 0) (\<lambda>ipp.
     rbind (opt_field m ''udp_dst'' pw_parse_u16 PW_E_PARSE 0) (\<lambda>ud.
     rbind (opt_field m ''vlan'' vlan_field PW_E_OUT_OF_RANGE 0) (\<lambda>vl.
     rbind (addr_match m ''ipv6_dst'') (\<lambda>(ds, da, dm).
     rbind (addr_match m ''ipv6_src'') (\<lambda>(ss, sa, sm).
     Inr \<lparr>fwd_name = nm, fwd_ingress_port = ing, fwd_egress_port = egr, fwd_priority = pr, fwd_ethertype = et,
          fwd_ip_proto = ipp, fwd_udp_dst = ud, fwd_vlan = vl, fwd_ipv6_dst_set = ds, fwd_ipv6_dst = da,
          fwd_ipv6_dst_mask = dm, fwd_ipv6_src_set = ss, fwd_ipv6_src = sa, fwd_ipv6_src_mask = sm\<rparr>)))))))))))"

definition reject_unknown_keys :: "pw_yaml_node \<Rightarrow> string list \<Rightarrow> pw_status + unit" where
  "reject_unknown_keys m allowed =
     (case m of YAML_MAP _ kvs \<Rightarrow> fail_if (\<exists>(k, v)\<in>set kvs. k \<notin> set allowed) PW_E_PARSE | _ \<Rightarrow> Inr ())"

definition root_keys :: "string list" where
  "root_keys = [''system'', ''cards'', ''logical_interfaces'', ''flows'', ''forwards'']"

definition parse_list :: "pw_yaml_node \<Rightarrow> string \<Rightarrow> (pw_yaml_node \<Rightarrow> pw_status + 'a) \<Rightarrow> 'a list \<Rightarrow> pw_status + 'a list" where
  "parse_list root key rd old =
     (case pw_yaml_map_get root key of None \<Rightarrow> Inr old | Some n \<Rightarrow> rbind (req_seq (Some n)) (map_res rd))"

definition parse_root :: "pw_yaml_node \<Rightarrow> bool \<Rightarrow> pw_config \<Rightarrow> pw_status + pw_config" where
  "parse_root n test_only cfg =
     rbind (req_map (Some n)) (\<lambda>root.
     rbind (reject_unknown_keys root root_keys) (\<lambda>_.
     rbind (if pw_yaml_map_get root ''system'' \<noteq> None \<or> \<not> test_only
            then parse_system (pw_yaml_map_get root ''system'') else Inr (cfg_system cfg)) (\<lambda>sys.
     rbind (if pw_yaml_map_get root ''cards'' \<noteq> None \<or> \<not> test_only
            then rbind (req_seq (pw_yaml_map_get root ''cards'')) (\<lambda>xs.
                 rbind (fail_if (length xs > PW_MAX_CARDS) PW_E_OUT_OF_RANGE) (\<lambda>_. map_res parse_card xs))
            else Inr (cfg_cards cfg)) (\<lambda>cards.
     rbind (parse_list root ''logical_interfaces'' parse_logical_if (cfg_logical_if cfg)) (\<lambda>lifs.
     rbind (parse_list root ''flows'' parse_flow (cfg_flows cfg)) (\<lambda>flows.
     rbind (parse_list root ''forwards'' parse_forward (cfg_forwards cfg)) (\<lambda>fwds.
     Inr \<lparr>cfg_system = sys, cfg_cards = cards, cfg_logical_if = lifs, cfg_flows = flows, cfg_forwards = fwds\<rparr>)))))))"

text \<open>
  The entry points. \<open>libyaml\<close> is the third-party tokeniser. A file is absent when it cannot be opened;
  otherwise the model takes the size that \<open>ftell\<close> reports and the bytes that \<open>fread\<close> delivers.
\<close>

definition pw_config_parse_string_ex ::
  "(string \<Rightarrow> yaml_event list) \<Rightarrow> string option \<Rightarrow> bool \<Rightarrow> pw_config option \<Rightarrow> pw_status + pw_config" where
  "pw_config_parse_string_ex libyaml yaml test_only cfg =
     (case (yaml, cfg) of
        (Some text, Some c) \<Rightarrow>
          (case pw_yaml_parse (libyaml text) of Inl _ \<Rightarrow> Inl PW_E_PARSE | Inr root \<Rightarrow> parse_root root test_only c)
      | _ \<Rightarrow> Inl PW_E_INVAL)"

definition pw_config_parse_string ::
  "(string \<Rightarrow> yaml_event list) \<Rightarrow> string option \<Rightarrow> pw_config option \<Rightarrow> pw_status + pw_config" where
  "pw_config_parse_string libyaml yaml cfg = pw_config_parse_string_ex libyaml yaml False cfg"

definition pw_config_parse_file_ex ::
  "(string \<Rightarrow> yaml_event list) \<Rightarrow> (string \<Rightarrow> (int \<times> string) option) \<Rightarrow> string option \<Rightarrow> bool \<Rightarrow> pw_config option \<Rightarrow>
     pw_status + pw_config" where
  "pw_config_parse_file_ex libyaml files path test_only cfg =
     (case (path, cfg) of
        (Some p, Some c) \<Rightarrow>
          (case files p of None \<Rightarrow> Inl PW_E_IO
           | Some (sz, got) \<Rightarrow> if sz < 0 then Inl PW_E_IO
                              else pw_config_parse_string_ex libyaml (Some got) test_only (Some c))
      | _ \<Rightarrow> Inl PW_E_INVAL)"

definition pw_config_parse_file ::
  "(string \<Rightarrow> yaml_event list) \<Rightarrow> (string \<Rightarrow> (int \<times> string) option) \<Rightarrow> string option \<Rightarrow> pw_config option \<Rightarrow>
     pw_status + pw_config" where
  "pw_config_parse_file libyaml files path cfg = pw_config_parse_file_ex libyaml files path False cfg"

end
