(* ===== verification/PW_Config_Range.thy ===== *)
theory PW_Config_Range
  imports PW_Config_Parse
begin

text \<open>
  Which configurations the schema walker can produce. Every block has a predicate that says what its
  values look like; the walker only produces such values, and for each of them there is a document that
  it reads as exactly that value, so the predicates describe its range.
\<close>

section \<open>What the readers return\<close>

lemma req_field_Inr: "req_field m k rd e = Inr v \<Longrightarrow> \<exists>t. rd t = Some v"
  by (auto simp: req_field_def rbind_eq_Inr bind_eq_Some_conv)

lemma opt_field_Inr: "opt_field m k rd e d = Inr v \<Longrightarrow> v = d \<or> (\<exists>t. rd t = Some v)"
  by (auto simp: opt_field_def rbind_eq_Inr split: option.splits)

lemma name_field_Some: "name_field n t = Some v \<Longrightarrow> length v \<le> n - 1"
  by (auto simp: name_field_def copy_str_def)

lemma checked_Some: "checked rd P t = Some v \<longleftrightarrow> rd t = Some v \<and> P v"
  by (auto simp: checked_def split: option.splits if_splits)

lemma present_Some: "present rd t = Some x \<longleftrightarrow> (\<exists>v. x = Some v \<and> rd t = Some v)"
  by (auto simp: present_def)

lemma keyword_Some: "keyword ws t = Some v \<Longrightarrow> v \<in> snd ` set ws"
  by (force simp: keyword_def dest: map_of_SomeD)

lemma scan_fields_length: "scan_fields k s = Some (vs, r) \<Longrightarrow> length vs = k"
  by (induction k arbitrary: s vs r) (auto split: option.splits list.splits if_splits)

lemma parse_mac_length: "pw_parse_mac s = Some m \<Longrightarrow> length m = 6"
  by (auto simp: pw_parse_mac_def dest!: scan_fields_length split: option.splits if_splits)

lemma pton6_length: "inet_pton6 s = Some a \<Longrightarrow> length a = 16"
  by (auto simp: inet_pton6_def split: option.splits if_splits)

lemma parse_ipv6_length: "pw_parse_ipv6 s = Some a \<Longrightarrow> length a = 16"
  by (simp add: pw_parse_ipv6_def pton6_length)

lemma prefix_field_le: "prefix_field s = Some p \<Longrightarrow> p \<le> 128"
  by (auto simp: prefix_field_def word_less_nat_alt not_less split: prod.splits if_splits)

lemma cidr_range: "pw_parse_ipv6_cidr s = Some (a, m) \<Longrightarrow> length a = 16 \<and> (\<exists>p \<le> 128. m = pw_v6_prefix_mask p)"
  by (auto simp: pw_parse_ipv6_cidr_def Let_def word_less_nat_alt not_less dest!: parse_ipv6_length
      split: list.splits prod.splits if_splits)

lemma ipv6_mask_field_length: "ipv6_mask_field s = Some m \<Longrightarrow> length m = 16"
  by (auto simp: ipv6_mask_field_def zero_bytes_def dest: parse_ipv6_length split: if_splits option.splits)

section \<open>Well-formed values\<close>

definition system_ok :: "pw_system \<Rightarrow> bool" where
  "system_ok s \<longleftrightarrow> length (sys_name s) < PW_NAME_MAX \<and> sys_mode s = ''multi-card'' \<and> sys_default_speed s = ''10g'' \<and>
     length (sys_control_socket s) < 128 \<and> length (sys_secret s) < 128"

definition port_ok :: "pw_card_port \<Rightarrow> bool" where
  "port_ok p \<longleftrightarrow> unat (cport_local_port p) < PW_PORTS_PER_CARD \<and> length (cport_name p) < PW_NAME_MAX"

definition card_ok :: "pw_card \<Rightarrow> bool" where
  "card_ok c \<longleftrightarrow> length (card_name c) < PW_NAME_MAX \<and> length (card_pci c) < PW_PCI_BDF_MAX \<and>
     card_ports c \<noteq> [] \<and> length (card_ports c) \<le> PW_PORTS_PER_CARD \<and> list_all port_ok (card_ports c)"

definition lif_ok :: "pw_logical_if \<Rightarrow> bool" where
  "lif_ok l \<longleftrightarrow> length (lif_name l) < PW_NAME_MAX \<and> lif_vlan l < 4095 \<and> length (lif_mac l) = 6 \<and>
     length (lif_netns l) < PW_NAME_MAX"

definition fm_ok :: "pw_field_mod \<Rightarrow> bool" where
  "fm_ok m \<longleftrightarrow> fm_mode m \<in> {0, 1, 2} \<and> fm_mask m \<le> 0xFFFFFFFFFFFF"

definition fm6_ok :: "pw_field_mod \<Rightarrow> bytes \<Rightarrow> bool" where
  "fm6_ok m mask16 \<longleftrightarrow> fm_mode m \<in> {0, 1, 2} \<and> length mask16 = 16 \<and> fm_mask m = low_mask mask16"

definition l2_ok :: "pw_flow_l2 \<Rightarrow> bool" where
  "l2_ok l \<longleftrightarrow> length (l2_src_mac l) = 6 \<and> length (l2_dst_mac l) = 6 \<and> l2_pcp l \<le> 7 \<and>
     (if l2_vlan_set l then l2_vlan l < 4095 else l2_vlan l = 0)"

definition endpoint_ok :: "pw_flow_ipv4 \<Rightarrow> pw_flow_ipv6 \<Rightarrow> bool" where
  "endpoint_ok a b \<longleftrightarrow>
     (if v6_present b
      then a = zero_ipv4 \<and> length (v6_src b) = 16 \<and> length (v6_dst b) = 16 \<and> v6_dscp b \<le> 63
      else b = zero_ipv6 \<and> v4_present a \<and> v4_dscp a \<le> 63)"

definition encap_ok :: "pw_flow_encap \<Rightarrow> bool" where
  "encap_ok e \<longleftrightarrow>
     (if enc_present e
      then enc_type e \<in> {PW_ENCAP_IPIP, PW_ENCAP_GRE, PW_ENCAP_ETHERIP} \<and> endpoint_ok (enc_outer_ipv4 e) (enc_outer_ipv6 e) \<and>
           (if enc_inner_mac_set e then length (enc_inner_src_mac e) = 6 \<and> length (enc_inner_dst_mac e) = 6
            else enc_inner_src_mac e = zero_bytes 6 \<and> enc_inner_dst_mac e = zero_bytes 6)
      else e = zero_encap)"

definition udp_ok :: "pw_flow_udp \<Rightarrow> bool" where
  "udp_ok u \<longleftrightarrow> udp_l4_proto u = 6 \<or> udp_l4_proto u = 17 \<and> udp_tcp_flags u = 0x02"

definition frame_len_ok :: "pw_flow_traffic \<Rightarrow> bool" where
  "frame_len_ok t \<longleftrightarrow>
     (if tr_frame_len_fixed_set t
      then 60 \<le> tr_frame_len_fixed t \<and> tr_frame_len_fixed t \<le> 1518 \<and>
           tr_frame_len_min t = 0 \<and> tr_frame_len_max t = 0 \<and> tr_frame_len_step t = 0
      else 60 \<le> tr_frame_len_min t \<and> tr_frame_len_min t \<le> tr_frame_len_max t \<and> tr_frame_len_max t \<le> 1518 \<and>
           tr_frame_len_step t \<noteq> 0 \<and> tr_frame_len_fixed t = 0)"

definition traffic_ok :: "pw_flow_traffic \<Rightarrow> bool" where
  "traffic_ok t \<longleftrightarrow> frame_len_ok t \<and> (tr_rate_bps t = 0) \<noteq> (tr_rate_pps t = 0) \<and>
     tr_payload_mode t \<in> snd ` set payloads \<and> tr_frame_template t \<in> snd ` set frame_templates"

definition mods_ok :: "bool \<Rightarrow> pw_flow_modifiers \<Rightarrow> bool" where
  "mods_ok v6 m \<longleftrightarrow>
     (if v6 then fm6_ok (mod_src_ipv4 m) (mod_src_ipv6_mask m) \<and> fm6_ok (mod_dst_ipv4 m) (mod_dst_ipv6_mask m)
      else fm_ok (mod_src_ipv4 m) \<and> fm_ok (mod_dst_ipv4 m) \<and> mod_src_ipv6_mask m = zero_bytes 16 \<and>
           mod_dst_ipv6_mask m = zero_bytes 16) \<and>
     fm_ok (mod_udp_src m) \<and> fm_ok (mod_udp_dst m) \<and> fm_ok (mod_src_mac m) \<and> fm_ok (mod_dst_mac m) \<and> fm_ok (mod_vlan m)"

definition prefix_ok :: "bool \<Rightarrow> bool \<Rightarrow> bytes \<Rightarrow> bool" where
  "prefix_ok v6 st mk \<longleftrightarrow> (if st then v6 \<and> mk \<in> pw_v6_prefix_mask ` {..128} else mk = zero_bytes 16)"

definition flow_ok :: "pw_flow \<Rightarrow> bool" where
  "flow_ok f \<longleftrightarrow> length (flow_name f) < PW_NAME_MAX \<and> l2_ok (flow_l2 f) \<and> endpoint_ok (flow_ipv4 f) (flow_ipv6 f) \<and>
     encap_ok (flow_encap f) \<and> flow_rx_expect f \<in> {PW_RX_INNER, PW_RX_TUNNELED} \<and> udp_ok (flow_udp f) \<and>
     traffic_ok (flow_traffic f) \<and> mods_ok (v6_present (flow_ipv6 f)) (flow_mod f) \<and>
     prefix_ok (v6_present (flow_ipv6 f)) (flow_match_ipv6_dst_set f) (flow_match_ipv6_dst_mask f) \<and>
     prefix_ok (v6_present (flow_ipv6 f)) (flow_match_ipv6_src_set f) (flow_match_ipv6_src_mask f)"

definition addr_ok :: "bool \<Rightarrow> bytes \<Rightarrow> bytes \<Rightarrow> bool" where
  "addr_ok st a mk \<longleftrightarrow> (if st then length a = 16 \<and> mk \<in> pw_v6_prefix_mask ` {..128}
                        else a = zero_bytes 16 \<and> mk = zero_bytes 16)"

definition forward_ok :: "pw_forward_rule \<Rightarrow> bool" where
  "forward_ok r \<longleftrightarrow> length (fwd_name r) < PW_NAME_MAX \<and> fwd_vlan r < 4095 \<and>
     addr_ok (fwd_ipv6_dst_set r) (fwd_ipv6_dst r) (fwd_ipv6_dst_mask r) \<and>
     addr_ok (fwd_ipv6_src_set r) (fwd_ipv6_src r) (fwd_ipv6_src_mask r)"

definition config_ok :: "pw_config \<Rightarrow> bool" where
  "config_ok c \<longleftrightarrow> system_ok (cfg_system c) \<and> length (cfg_cards c) \<le> PW_MAX_CARDS \<and> list_all card_ok (cfg_cards c) \<and>
     list_all lif_ok (cfg_logical_if c) \<and> list_all flow_ok (cfg_flows c) \<and> list_all forward_ok (cfg_forwards c)"

section \<open>The walker produces well-formed values\<close>

named_theorems field_dests \<open>what a field that was read satisfies\<close>

lemma opt_field_inv: "opt_field m k rd e d = Inr v \<Longrightarrow> P d \<Longrightarrow> (\<And>t x. rd t = Some x \<Longrightarrow> P x) \<Longrightarrow> P v"
  by (auto dest: opt_field_Inr)

lemma req_field_inv: "req_field m k rd e = Inr v \<Longrightarrow> (\<And>t x. rd t = Some x \<Longrightarrow> P x) \<Longrightarrow> P v"
  by (auto dest: req_field_Inr)

lemma opt_name [field_dests]: "opt_field m k (name_field n) e d = Inr v \<Longrightarrow> length v \<le> max (n - 1) (length d)"
  by (erule opt_field_inv) (auto dest: name_field_Some)

lemma req_name [field_dests]: "req_field m k (name_field n) e = Inr v \<Longrightarrow> length v \<le> n - 1"
  by (erule req_field_inv) (rule name_field_Some)

lemma opt_vlan [field_dests]: "opt_field m k vlan_field e 0 = Inr v \<Longrightarrow> v < 4095"
  by (erule opt_field_inv) (auto simp: vlan_field_def checked_Some)

lemma opt_present_vlan [field_dests]: "opt_field m k (present vlan_field) e None = Inr v \<Longrightarrow> (\<forall>x. v = Some x \<longrightarrow> x < 4095)"
  by (erule opt_field_inv) (auto simp: present_Some vlan_field_def checked_Some)

lemma opt_dscp [field_dests]: "opt_field m k dscp_field e 0 = Inr v \<Longrightarrow> v \<le> 63"
  by (erule opt_field_inv) (auto simp: dscp_field_def checked_Some)

lemma opt_keyword [field_dests]: "opt_field m k (keyword ws) e d = Inr v \<Longrightarrow> v \<in> insert d (snd ` set ws)"
  by (erule opt_field_inv) (auto dest: keyword_Some)

lemma req_keyword [field_dests]: "req_field m k (keyword ws) e = Inr v \<Longrightarrow> v \<in> snd ` set ws"
  by (erule req_field_inv) (rule keyword_Some)

lemma opt_checked [field_dests]: "opt_field m k (checked rd P) e d = Inr v \<Longrightarrow> P d \<longrightarrow> P v"
  by (erule opt_field_inv) (auto simp: checked_Some)

lemma req_checked [field_dests]: "req_field m k (checked rd P) e = Inr v \<Longrightarrow> P v"
  by (erule req_field_inv) (simp add: checked_Some)

lemma req_mac [field_dests]: "req_field m k pw_parse_mac e = Inr v \<Longrightarrow> length v = 6"
  by (erule req_field_inv) (rule parse_mac_length)

lemma req_ipv6 [field_dests]: "req_field m k pw_parse_ipv6 e = Inr v \<Longrightarrow> length v = 16"
  by (erule req_field_inv) (rule parse_ipv6_length)

lemma opt_mask16 [field_dests]: "opt_field m k ipv6_mask_field e (zero_bytes 16) = Inr v \<Longrightarrow> length v = 16"
  by (erule opt_field_inv) (auto simp: zero_bytes_def dest: ipv6_mask_field_length)

lemma opt_cidr [field_dests]:
  "opt_field m k (present pw_parse_ipv6_cidr) e None = Inr v \<Longrightarrow>
     (\<forall>a mk. v = Some (a, mk) \<longrightarrow> length a = 16 \<and> mk \<in> pw_v6_prefix_mask ` {..128})"
  by (erule opt_field_inv) (auto simp: present_Some dest!: cidr_range)

lemma map_res_all: "map_res f xs = Inr ys \<Longrightarrow> (\<And>x y. f x = Inr y \<Longrightarrow> P y) \<Longrightarrow> list_all P ys"
  by (auto simp: list_all_iff dest: map_res_set)

lemma parse_system_ok: "parse_system n = Inr s \<Longrightarrow> system_ok s"
  by (auto simp: parse_system_def rbind_eq_Inr system_ok_def PW_NAME_MAX_def dest!: field_dests)

lemma dec_u16_short: "length (dec_string (unat (v :: u16))) \<le> 5"
  using dec_string_length [of "unat v" 4] unat_lt(3) [of v] by simp

lemma parse_card_port_ok: "parse_card_port n = Inr p \<Longrightarrow> port_ok p"
proof -
  assume "parse_card_port n = Inr p"
  then have "length (cport_name p) \<le> max 31 (Suc (length (dec_string (unat (cport_global_port p)))))"
    "unat (cport_local_port p) < PW_PORTS_PER_CARD"
    by (auto simp: parse_card_port_def rbind_eq_Inr PW_NAME_MAX_def dest!: field_dests)
  then show ?thesis using dec_u16_short [of "cport_global_port p"] by (simp add: port_ok_def PW_NAME_MAX_def)
qed

lemma parse_card_ok: "parse_card n = Inr c \<Longrightarrow> card_ok c"
proof -
  assume a: "parse_card n = Inr c"
  then have "length (card_name c) \<le> max 31 (4 + length (dec_string (unat (card_id c))))" "length (card_pci c) \<le> 15"
    by (auto simp: parse_card_def rbind_eq_Inr pw_limits dest!: field_dests)
  moreover from a have "card_ports c \<noteq> []" "length (card_ports c) \<le> PW_PORTS_PER_CARD" "list_all port_ok (card_ports c)"
    by (auto simp: parse_card_def rbind_eq_Inr dest: map_res_length intro: map_res_all [OF _ parse_card_port_ok])
  ultimately show ?thesis using dec_u16_short [of "card_id c"] by (simp add: card_ok_def pw_limits)
qed

lemma default_lif_name_short: "length (default_lif_name gp v) < PW_NAME_MAX"
  by (simp add: default_lif_name_def pw_tap_name_name_max tap_name_fits_name_max)

lemma parse_logical_if_ok: "parse_logical_if n = Inr l \<Longrightarrow> lif_ok l"
proof -
  assume a: "parse_logical_if n = Inr l"
  then have "length (lif_name l) \<le> max 31 (length (default_lif_name (lif_global_port l) (lif_vlan l)))"
    by (auto simp: parse_logical_if_def rbind_eq_Inr PW_NAME_MAX_def dest!: field_dests)
  moreover from a have "lif_vlan l < 4095" "length (lif_mac l) = 6" "length (lif_netns l) \<le> 31"
    by (auto simp: parse_logical_if_def rbind_eq_Inr PW_NAME_MAX_def dest!: field_dests)
  ultimately show ?thesis
    using default_lif_name_short [of "lif_global_port l" "lif_vlan l"] by (simp add: lif_ok_def PW_NAME_MAX_def)
qed

text \<open>Flows, block by block.\<close>

lemma parse_l2_ok: "parse_l2 n = Inr l \<Longrightarrow> l2_ok l"
  by (auto simp: parse_l2_def rbind_eq_Inr l2_ok_def zero_l2_def zero_bytes_def dest!: field_dests split: option.splits)

lemma parse_ip_endpoint_ok: "parse_ip_endpoint n = Inr (a, b) \<Longrightarrow> endpoint_ok a b"
  by (auto simp: parse_ip_endpoint_def Let_def rbind_eq_Inr endpoint_ok_def zero_ipv6_def dest!: field_dests split: if_splits)

lemma parse_inner_l2_ok: "parse_inner_l2 n = Inr x \<Longrightarrow> (\<forall>s d. x = Some (s, d) \<longrightarrow> length s = 6 \<and> length d = 6)"
  by (auto simp: parse_inner_l2_def rbind_eq_Inr dest!: field_dests split: option.splits)

lemma parse_encap_ok: "parse_encap n = Inr e \<Longrightarrow> encap_ok e"
  by (auto simp: parse_encap_def rbind_eq_Inr encap_ok_def encap_types_def zero_encap_def
      dest!: field_dests parse_ip_endpoint_ok parse_inner_l2_ok split: option.splits)

lemma parse_l4_ok: "parse_l4 m = Inr u \<Longrightarrow> udp_ok u"
  by (auto simp: parse_l4_def Let_def rbind_eq_Inr udp_ok_def split: if_splits)

lemma parse_field_mod_ok: "parse_field_mod m k = Inr x \<Longrightarrow> fm_ok x"
  by (auto simp: parse_field_mod_def rbind_eq_Inr fm_ok_def modes_def zero_field_mod_def dest!: field_dests split: option.splits)

lemma zero_mask [simp]: "length (zero_bytes n) = n" "low_mask (zero_bytes 16) = 0"
  by (simp_all add: zero_bytes_def low_mask_def)

lemma parse_ipv6_field_mod_ok: "parse_ipv6_field_mod m k = Inr (x, mk) \<Longrightarrow> fm6_ok x mk"
  by (auto simp: parse_ipv6_field_mod_def rbind_eq_Inr fm6_ok_def modes_def zero_field_mod_def
      dest!: field_dests split: option.splits)

lemma parse_frame_len_shape:
  assumes "parse_frame_len m = Inr t"
  obtains (fixed) v where "t = zero_traffic\<lparr>tr_frame_len_fixed := v, tr_frame_len_fixed_set := True\<rparr>"
    | (range) mn mx st where "t = zero_traffic\<lparr>tr_frame_len_min := mn, tr_frame_len_max := mx, tr_frame_len_step := st\<rparr>"
  using assms unfolding parse_frame_len_def rbind_eq_Inr by (auto simp: rbind_eq_Inr split: option.splits)

lemma frame_len_checked:
  assumes "parse_frame_len m = Inr t" and "check_frame_len m t = Inr u"
  shows "frame_len_ok t"
  using assms(1)
proof (cases rule: parse_frame_len_shape)
  case (fixed v)
  then show ?thesis
    using assms(2) by (simp add: check_frame_len_def rbind_eq_Inr frame_len_ok_def zero_traffic_def not_less)
next
  case (range mn mx st)
  then show ?thesis
    using assms(2) by (simp add: check_frame_len_def rbind_eq_Inr frame_len_ok_def zero_traffic_def not_less)
qed

lemma parse_traffic_ok: "parse_traffic n = Inr t \<Longrightarrow> traffic_ok t"
proof -
  assume "parse_traffic n = Inr t"
  then obtain m t0 bps pps bs gap pl seed isq its tmpl u where t0: "parse_frame_len m = Inr t0" "check_frame_len m t0 = Inr u"
    and k: "opt_field m ''payload'' (keyword payloads) PW_E_INVAL PWFPGA_PAYLOAD_INCREMENT = Inr pl"
      "opt_field m ''frame_template'' (keyword frame_templates) PW_E_INVAL PW_FRAME_TEMPLATE_TEST = Inr tmpl"
    and r: "(bps = 0) \<noteq> (pps = 0)"
    and t: "t0\<lparr>tr_rate_bps := bps, tr_rate_pps := pps, tr_burst_size := bs, tr_burst_gap_ticks := gap,
            tr_payload_mode := pl, tr_payload_seed := seed, tr_insert_sequence := isq,
            tr_insert_timestamp := its, tr_frame_template := tmpl\<rparr> = t"
    unfolding parse_traffic_def rbind_eq_Inr fail_if_eq_Inr sum.inject by blast
  have "frame_len_ok t0" by (rule frame_len_checked [OF t0])
  with r opt_keyword [OF k(1)] opt_keyword [OF k(2)] show ?thesis
    by (auto simp: t [symmetric] traffic_ok_def frame_len_ok_def payloads_def frame_templates_def)
qed

lemma parse_modifiers_ok: "parse_modifiers v6 n = Inr x \<Longrightarrow> mods_ok v6 x"
proof -
  have z: "mods_ok v6 zero_modifiers"
    by (simp add: mods_ok_def fm_ok_def fm6_ok_def zero_modifiers_def zero_field_mod_def)
  show "parse_modifiers v6 n = Inr x \<Longrightarrow> ?thesis"
    using z by (auto simp: parse_modifiers_def rbind_eq_Inr mods_ok_def
        dest!: parse_field_mod_ok parse_ipv6_field_mod_ok split: option.splits if_splits)
qed

lemma match_prefix_ok: "match_prefix v6 m k = Inr (st, mk) \<Longrightarrow> prefix_ok v6 st mk"
  by (auto simp: match_prefix_def rbind_eq_Inr prefix_ok_def dest!: prefix_field_le split: option.splits)

lemma parse_match_ok:
  "parse_match v6 n = Inr (a, b, (ds, dm), (ss, sm)) \<Longrightarrow> prefix_ok v6 ds dm \<and> prefix_ok v6 ss sm"
  by (auto simp: parse_match_def rbind_eq_Inr prefix_ok_def [of v6 False] dest!: match_prefix_ok split: option.splits)

lemmas block_dests = parse_l2_ok parse_ip_endpoint_ok parse_encap_ok parse_l4_ok parse_traffic_ok parse_modifiers_ok
  parse_match_ok

lemma parse_flow_ok: "parse_flow n = Inr f \<Longrightarrow> flow_ok f"
  by (auto simp: parse_flow_def rbind_eq_Inr flow_ok_def rx_expects_def PW_NAME_MAX_def dest!: opt_name opt_keyword block_dests)

lemma addr_match_ok: "addr_match m k = Inr (st, a, mk) \<Longrightarrow> addr_ok st a mk"
  by (auto simp: addr_match_def rbind_eq_Inr addr_ok_def dest!: field_dests split: option.splits)

lemma parse_forward_ok: "parse_forward n = Inr r \<Longrightarrow> forward_ok r"
  by (auto simp: parse_forward_def rbind_eq_Inr forward_ok_def PW_NAME_MAX_def dest!: opt_name opt_vlan addr_match_ok)

lemma parse_list_ok:
  "parse_list root key rd old = Inr ys \<Longrightarrow> list_all P old \<Longrightarrow> (\<And>x y. rd x = Inr y \<Longrightarrow> P y) \<Longrightarrow> list_all P ys"
  by (auto simp: parse_list_def rbind_eq_Inr split: option.splits intro: map_res_all)

text \<open>Read on top of a configuration whose lists are well formed, such as an empty one.\<close>

lemma parse_root_ok:
  assumes "parse_root n test_only cfg = Inr c" and "\<not> test_only \<or> system_ok (cfg_system cfg)"
    and "length (cfg_cards cfg) \<le> PW_MAX_CARDS" "list_all card_ok (cfg_cards cfg)" "list_all lif_ok (cfg_logical_if cfg)"
    and "list_all flow_ok (cfg_flows cfg)" "list_all forward_ok (cfg_forwards cfg)"
  shows "config_ok c"
proof -
  from assms(1) obtain root sys cards lifs flows fwds where
    s: "(if pw_yaml_map_get root ''system'' \<noteq> None \<or> \<not> test_only
            then parse_system (pw_yaml_map_get root ''system'') else Inr (cfg_system cfg)) = Inr sys"
    and cd: "(if pw_yaml_map_get root ''cards'' \<noteq> None \<or> \<not> test_only
            then rbind (req_seq (pw_yaml_map_get root ''cards'')) (\<lambda>xs.
                 rbind (fail_if (length xs > PW_MAX_CARDS) PW_E_OUT_OF_RANGE) (\<lambda>_. map_res parse_card xs))
            else Inr (cfg_cards cfg)) = Inr cards"
    and l: "parse_list root ''logical_interfaces'' parse_logical_if (cfg_logical_if cfg) = Inr lifs"
    and f: "parse_list root ''flows'' parse_flow (cfg_flows cfg) = Inr flows"
    and w: "parse_list root ''forwards'' parse_forward (cfg_forwards cfg) = Inr fwds"
    and c: "\<lparr>cfg_system = sys, cfg_cards = cards, cfg_logical_if = lifs, cfg_flows = flows, cfg_forwards = fwds\<rparr> = c"
    unfolding parse_root_def rbind_eq_Inr sum.inject by blast
  have "system_ok sys" using s assms(2) parse_system_ok by (auto split: if_splits)
  moreover have "length cards \<le> PW_MAX_CARDS \<and> list_all card_ok cards"
    using cd assms(3,4) by (auto simp: rbind_eq_Inr dest: map_res_length intro: map_res_all [OF _ parse_card_ok] split: if_splits)
  moreover note parse_list_ok [OF l assms(5) parse_logical_if_ok] parse_list_ok [OF f assms(6) parse_flow_ok]
    parse_list_ok [OF w assms(7) parse_forward_ok]
  ultimately show ?thesis by (simp add: c [symmetric] config_ok_def)
qed

end
