(* ===== verification/PW_Config_Text.thy ===== *)
theory PW_Config_Text
  imports PW_Config_Range
begin

text \<open>
  Documents for configurations: each block of a well-formed configuration is written as a mapping that the
  walker reads back as that block. With the range of the walker this gives the round trip and that the
  well-formed configurations are exactly those that can be read.
\<close>

section \<open>Writing mappings\<close>

text \<open>A mapping with optional entries, and its scalars.\<close>

definition ymap :: "(string \<times> pw_yaml_node option) list \<Rightarrow> pw_yaml_node" where
  "ymap es = YAML_MAP 0 (List.map_filter (\<lambda>(k, v). map_option (Pair k) v) es)"

definition ytext :: "string \<Rightarrow> pw_yaml_node option" where
  "ytext s = Some (YAML_SCALAR 0 s)"

definition word_of :: "(string \<times> 'a) list \<Rightarrow> 'a \<Rightarrow> string" where
  "word_of ws v = (case find (\<lambda>w. snd w = v) ws of None \<Rightarrow> [] | Some w \<Rightarrow> fst w)"

lemma keyword_word: "distinct (map fst ws) \<Longrightarrow> v \<in> snd ` set ws \<Longrightarrow> keyword ws (word_of ws v) = Some v"
proof -
  assume d: "distinct (map fst ws)" and v: "v \<in> snd ` set ws"
  then obtain w where w: "find (\<lambda>w. snd w = v) ws = Some w"
    by (cases "find (\<lambda>w. snd w = v) ws") (auto simp: find_None_iff)
  from find_SomeD [OF w] have "(fst w, v) \<in> set ws" by (cases w) auto
  with d w show ?thesis by (simp add: keyword_def word_of_def)
qed

interpretation modes_codec: scalar_codec "keyword modes" "word_of modes" "\<lambda>v. v \<in> {0, 1, 2}"
  by unfold_locales (rule keyword_word; auto simp: modes_def)

interpretation encap_codec: scalar_codec "keyword encap_types" "word_of encap_types"
    "\<lambda>v. v \<in> {PW_ENCAP_IPIP, PW_ENCAP_GRE, PW_ENCAP_ETHERIP}"
  by unfold_locales (rule keyword_word; auto simp: encap_types_def)

interpretation rx_expect_codec: scalar_codec "keyword rx_expects" "word_of rx_expects" "\<lambda>v. v \<in> {PW_RX_INNER, PW_RX_TUNNELED}"
  by unfold_locales (rule keyword_word; auto simp: rx_expects_def)

interpretation payload_codec: scalar_codec "keyword payloads" "word_of payloads" "\<lambda>v. v \<in> snd ` set payloads"
  by unfold_locales (rule keyword_word; simp add: payloads_def)

interpretation template_codec: scalar_codec "keyword frame_templates" "word_of frame_templates" "\<lambda>v. v \<in> snd ` set frame_templates"
  by unfold_locales (rule keyword_word; simp add: frame_templates_def)

interpretation classify_codec: scalar_codec "keyword classifies" "word_of classifies" "\<lambda>_. True"
  by unfold_locales (rule keyword_word; auto simp: classifies_def)

interpretation prefix_codec: scalar_codec prefix_field dec_string "\<lambda>p. p \<le> 128"
proof
  fix p :: nat
  assume p: "p \<le> 128"
  then have "unat (of_nat p :: u64) = p" "\<not> (of_nat p :: u64) > 128"
    by (simp_all add: word_less_nat_alt unat_of_nat take_bit_nat_eq_self)
  then show "prefix_field (dec_string p) = Some p" using p by (simp add: prefix_field_def strtoull_dec)
qed

lemmas keyword_texts [simp] = modes_codec.parse_text encap_codec.parse_text rx_expect_codec.parse_text
  payload_codec.parse_text template_codec.parse_text classify_codec.parse_text prefix_codec.parse_text

lemma name_text [simp]: "length t < n \<Longrightarrow> name_field n t = Some t"
  by (simp add: name_field_def copy_str_def)

lemma checked_text [simp]: "rd t = Some v \<Longrightarrow> P v \<Longrightarrow> checked rd P t = Some v"
  by (simp add: checked_def)

lemma present_text [simp]: "rd t = Some v \<Longrightarrow> present rd t = Some (Some v)"
  by (simp add: present_def)

text \<open>Reading a mapping that was written.\<close>

lemma map_of_filter:
  "distinct (map fst es) \<Longrightarrow>
     map_of (List.map_filter (\<lambda>(k, v). map_option (Pair k) v) es) key = (case map_of es key of None \<Rightarrow> None | Some v \<Rightarrow> v)"
proof (induction es)
  case (Cons e es)
  obtain k v where e: "e = (k, v)" by fastforce
  have "key \<notin> fst ` set es \<Longrightarrow> map_of es key = None" by (simp add: map_of_eq_None_iff)
  with Cons e show ?case by (cases v) (auto simp: List.map_filter_simps)
qed (simp add: List.map_filter_simps)

lemma get_ymap: "distinct (map fst es) \<Longrightarrow> pw_yaml_map_get (ymap es) key = (case map_of es key of None \<Rightarrow> None | Some v \<Rightarrow> v)"
  by (simp add: pw_yaml_map_get_def ymap_def map_of_filter)

lemma req_map_ymap [simp]: "req_map (Some (ymap es)) = Inr (ymap es)"
  by (simp add: req_map_def ymap_def)

lemma scalar_cases:
  "pw_yaml_map_get m key = ytext s \<Longrightarrow> get_scalar m key b = Inr (Some s)"
  "pw_yaml_map_get m key = None \<Longrightarrow> get_scalar m key b = (if b then Inl PW_E_MISSING_FIELD else Inr None)"
  by (simp_all add: get_scalar_def ytext_def)

lemma req_field_text: "pw_yaml_map_get m key = ytext t \<Longrightarrow> rd t = Some v \<Longrightarrow> req_field m key rd e = Inr v"
  by (simp add: req_field_def scalar_cases)

lemma opt_field_text: "pw_yaml_map_get m key = ytext t \<Longrightarrow> rd t = Some v \<Longrightarrow> opt_field m key rd e d = Inr v"
  by (simp add: opt_field_def scalar_cases)

lemma opt_field_absent: "pw_yaml_map_get m key = None \<Longrightarrow> opt_field m key rd e d = Inr d"
  by (simp add: opt_field_def scalar_cases)

lemmas field_texts = req_field_text opt_field_text opt_field_absent get_ymap

section \<open>System, cards and logical interfaces\<close>

definition yaml_of_system :: "pw_system \<Rightarrow> pw_yaml_node" where
  "yaml_of_system s = ymap [(''name'', ytext (sys_name s)), (''mode'', ytext (sys_mode s)),
     (''default_speed'', ytext (sys_default_speed s)),
     (''stats_poll_interval_ms'', ytext (u32_text (sys_stats_poll_interval_ms s))),
     (''control_socket'', ytext (sys_control_socket s)), (''secret'', ytext (sys_secret s))]"

lemma parse_system_text: "system_ok s \<Longrightarrow> parse_system (Some (yaml_of_system s)) = Inr s"
  by (simp add: parse_system_def yaml_of_system_def system_ok_def field_texts PW_NAME_MAX_def)

definition yaml_of_port :: "pw_card_port \<Rightarrow> pw_yaml_node" where
  "yaml_of_port p = ymap [(''local_port'', ytext (u8_text (cport_local_port p))),
     (''global_port'', ytext (u16_text (cport_global_port p))), (''name'', ytext (cport_name p))]"

lemma parse_card_port_text: "port_ok p \<Longrightarrow> parse_card_port (yaml_of_port p) = Inr p"
  by (simp add: parse_card_port_def yaml_of_port_def port_ok_def field_texts)

lemma map_res_text: "list_all P ys \<Longrightarrow> (\<And>y. P y \<Longrightarrow> f (g y) = Inr y) \<Longrightarrow> map_res f (map g ys) = Inr ys"
  by (induction ys) simp_all

definition yseq :: "pw_yaml_node list \<Rightarrow> pw_yaml_node option" where
  "yseq xs = Some (YAML_SEQ 0 xs)"

lemma req_seq_yseq [simp]: "req_seq (yseq xs) = Inr xs"
  by (simp add: req_seq_def yseq_def)

definition yaml_of_card :: "pw_card \<Rightarrow> pw_yaml_node" where
  "yaml_of_card c = ymap [(''id'', ytext (u16_text (card_id c))), (''name'', ytext (card_name c)),
     (''pci'', ytext (card_pci c)), (''ports'', yseq (map yaml_of_port (card_ports c)))]"

lemma parse_card_text: "card_ok c \<Longrightarrow> parse_card (yaml_of_card c) = Inr c"
  by (simp add: parse_card_def yaml_of_card_def card_ok_def field_texts 
      map_res_text [where P = port_ok and f = parse_card_port and g = yaml_of_port, OF _ parse_card_port_text])

definition yaml_of_punt :: "pw_punt_flags \<Rightarrow> pw_yaml_node" where
  "yaml_of_punt p = ymap [(''arp'', ytext (bool_text (punt_arp p))), (''ipv6_nd'', ytext (bool_text (punt_ipv6_nd p))),
     (''lldp'', ytext (bool_text (punt_lldp p))), (''icmp'', ytext (bool_text (punt_icmp p))),
     (''bgp'', ytext (bool_text (punt_bgp p))), (''ospf'', ytext (bool_text (punt_ospf p))),
     (''is_is'', ytext (bool_text (punt_is_is p)))]"

lemma parse_punt_text: "parse_punt (Some (yaml_of_punt p)) = Inr p"
  by (simp add: parse_punt_def punt_flag_def yaml_of_punt_def field_texts)

definition yaml_of_lif :: "pw_logical_if \<Rightarrow> pw_yaml_node" where
  "yaml_of_lif l = ymap [(''id'', ytext (u32_text (lif_id l))), (''global_port'', ytext (u16_text (lif_global_port l))),
     (''vlan'', ytext (u16_text (lif_vlan l))), (''name'', ytext (lif_name l)), (''mac'', ytext (mac_text (lif_mac l))),
     (''mtu'', ytext (u16_text (lif_mtu l))), (''netns'', ytext (lif_netns l)), (''punt'', Some (yaml_of_punt (lif_punt l)))]"

lemma vlan_text [simp]: "v < 4095 \<Longrightarrow> vlan_field (u16_text v) = Some v"
  by (simp add: vlan_field_def)

lemma dscp_text [simp]: "v \<le> 63 \<Longrightarrow> dscp_field (u8_text v) = Some v"
  by (simp add: dscp_field_def)

lemma parse_lif_text: "lif_ok l \<Longrightarrow> parse_logical_if (yaml_of_lif l) = Inr l"
  by (simp add: parse_logical_if_def yaml_of_lif_def lif_ok_def field_texts parse_punt_text)

section \<open>Flows\<close>

definition yaml_of_fm :: "pw_field_mod \<Rightarrow> pw_yaml_node" where
  "yaml_of_fm m = ymap [(''mode'', ytext (word_of modes (fm_mode m))), (''mask'', ytext (u64_text (fm_mask m)))]"

lemma parse_field_mod_text:
  "pw_yaml_map_get m key = Some (yaml_of_fm x) \<Longrightarrow> fm_ok x \<Longrightarrow> parse_field_mod m key = Inr x"
  by (simp add: parse_field_mod_def yaml_of_fm_def fm_ok_def field_texts)

definition yaml_of_fm6 :: "pw_field_mod \<Rightarrow> bytes \<Rightarrow> pw_yaml_node" where
  "yaml_of_fm6 m mask16 = ymap [(''mode'', ytext (word_of modes (fm_mode m))), (''mask'', ytext (ipv6_text mask16))]"

lemma ipv6_text_colon: "CHR '':'' \<in> set (ipv6_text a)"
  by (simp add: ipv6_text_def upt_conv_Cons)

lemma parse_ipv6_field_mod_text:
  "pw_yaml_map_get m key = Some (yaml_of_fm6 x mk) \<Longrightarrow> fm6_ok x mk \<Longrightarrow> parse_ipv6_field_mod m key = Inr (x, mk)"
  by (simp add: parse_ipv6_field_mod_def yaml_of_fm6_def fm6_ok_def field_texts ipv6_mask_field_def ipv6_text_colon)

definition yaml_of_ipv4 :: "pw_flow_ipv4 \<Rightarrow> pw_yaml_node" where
  "yaml_of_ipv4 a = ymap [(''src'', ytext (ipv4_text (v4_src a))), (''dst'', ytext (ipv4_text (v4_dst a))),
     (''ttl'', ytext (u8_text (v4_ttl a))), (''dscp'', ytext (u8_text (v4_dscp a)))]"

definition yaml_of_ipv6 :: "pw_flow_ipv6 \<Rightarrow> pw_yaml_node" where
  "yaml_of_ipv6 b = ymap [(''src'', ytext (ipv6_text (v6_src b))), (''dst'', ytext (ipv6_text (v6_dst b))),
     (''hop_limit'', ytext (u8_text (v6_hop_limit b))), (''dscp'', ytext (u8_text (v6_dscp b)))]"

definition ipv4_entry :: "pw_flow_ipv4 \<Rightarrow> pw_flow_ipv6 \<Rightarrow> pw_yaml_node option" where
  "ipv4_entry a b = (if v6_present b then None else Some (yaml_of_ipv4 a))"

definition ipv6_entry :: "pw_flow_ipv6 \<Rightarrow> pw_yaml_node option" where
  "ipv6_entry b = (if v6_present b then Some (yaml_of_ipv6 b) else None)"

lemma parse_endpoint_text:
  assumes "endpoint_ok a b" and "pw_yaml_map_get m ''ipv4'' = ipv4_entry a b" and "pw_yaml_map_get m ''ipv6'' = ipv6_entry b"
  shows "parse_ip_endpoint m = Inr (a, b)"
proof (cases "v6_present b")
  case True
  with assms show ?thesis
    by (simp add: parse_ip_endpoint_def ipv4_entry_def ipv6_entry_def endpoint_ok_def yaml_of_ipv6_def field_texts)
next
  case False
  with assms show ?thesis
    by (simp add: parse_ip_endpoint_def ipv4_entry_def ipv6_entry_def endpoint_ok_def yaml_of_ipv4_def field_texts)
qed

definition yaml_of_l2 :: "pw_flow_l2 \<Rightarrow> pw_yaml_node" where
  "yaml_of_l2 l = ymap [(''src_mac'', ytext (mac_text (l2_src_mac l))), (''dst_mac'', ytext (mac_text (l2_dst_mac l))),
     (''vlan'', if l2_vlan_set l then ytext (u16_text (l2_vlan l)) else None), (''pcp'', ytext (u8_text (l2_pcp l))),
     (''ethertype'', ytext (u16_text (l2_ethertype l)))]"

lemma parse_l2_text: "l2_ok l \<Longrightarrow> parse_l2 (Some (yaml_of_l2 l)) = Inr l"
  by (cases "l2_vlan_set l") (simp_all add: parse_l2_def yaml_of_l2_def l2_ok_def field_texts fail_if_def leD)

definition yaml_of_encap :: "pw_flow_encap \<Rightarrow> pw_yaml_node option" where
  "yaml_of_encap e =
     (if \<not> enc_present e then None
      else Some (ymap [(''type'', ytext (word_of encap_types (enc_type e))),
        (''outer'', Some (ymap [(''ipv4'', ipv4_entry (enc_outer_ipv4 e) (enc_outer_ipv6 e)),
                                (''ipv6'', ipv6_entry (enc_outer_ipv6 e))])),
        (''inner_l2'', if enc_inner_mac_set e
                       then Some (ymap [(''src_mac'', ytext (mac_text (enc_inner_src_mac e))),
                                        (''dst_mac'', ytext (mac_text (enc_inner_dst_mac e)))])
                       else None)]))"

lemma parse_encap_text: "encap_ok e \<Longrightarrow> parse_encap (yaml_of_encap e) = Inr e"
proof (cases "enc_present e")
  case False
  then show "encap_ok e \<Longrightarrow> ?thesis" by (simp add: encap_ok_def parse_encap_def yaml_of_encap_def)
next
  case True
  assume ok: "encap_ok e"
  have ep: "parse_ip_endpoint (ymap [(''ipv4'', ipv4_entry (enc_outer_ipv4 e) (enc_outer_ipv6 e)),
      (''ipv6'', ipv6_entry (enc_outer_ipv6 e))]) = Inr (enc_outer_ipv4 e, enc_outer_ipv6 e)"
    by (rule parse_endpoint_text) (use ok True in \<open>simp_all add: encap_ok_def get_ymap\<close>)
  show ?thesis
    using True ok ep
    by (cases "enc_inner_mac_set e")
      (simp_all add: parse_encap_def yaml_of_encap_def encap_ok_def field_texts parse_inner_l2_def)
qed

definition udp_entry :: "pw_flow_udp \<Rightarrow> pw_yaml_node option" where
  "udp_entry u =
     (if udp_l4_proto u = 6 then None
      else Some (ymap [(''src_port'', ytext (u16_text (udp_src_port u))), (''dst_port'', ytext (u16_text (udp_dst_port u)))]))"

definition tcp_entry :: "pw_flow_udp \<Rightarrow> pw_yaml_node option" where
  "tcp_entry u =
     (if udp_l4_proto u = 6
      then Some (ymap [(''src_port'', ytext (u16_text (udp_src_port u))), (''dst_port'', ytext (u16_text (udp_dst_port u))),
                       (''flags'', ytext (u8_text (udp_tcp_flags u)))])
      else None)"

lemma parse_l4_text:
  assumes "udp_ok u" and "pw_yaml_map_get m ''udp'' = udp_entry u" and "pw_yaml_map_get m ''tcp'' = tcp_entry u"
  shows "parse_l4 m = Inr u"
proof (cases "udp_l4_proto u = 6")
  case True
  with assms show ?thesis by (simp add: parse_l4_def udp_entry_def tcp_entry_def field_texts)
next
  case False
  with assms(1) have p: "udp_l4_proto u = 17" "udp_tcp_flags u = 2" by (auto simp: udp_ok_def)
  with assms show ?thesis by (simp add: parse_l4_def udp_entry_def tcp_entry_def field_texts)
qed

definition yaml_of_traffic :: "pw_flow_traffic \<Rightarrow> pw_yaml_node" where
  "yaml_of_traffic t =
     (let fixed = tr_frame_len_fixed_set t in
      ymap [(''frame_len'', if fixed then ytext (u16_text (tr_frame_len_fixed t)) else None),
        (''frame_len_min'', if fixed then None else ytext (u16_text (tr_frame_len_min t))),
        (''frame_len_max'', if fixed then None else ytext (u16_text (tr_frame_len_max t))),
        (''frame_len_step'', if fixed then None else ytext (u16_text (tr_frame_len_step t))),
        (''rate_bps'', ytext (u64_text (tr_rate_bps t))), (''rate_pps'', ytext (u64_text (tr_rate_pps t))),
        (''burst_size'', ytext (u32_text (tr_burst_size t))), (''burst_gap_ticks'', ytext (u32_text (tr_burst_gap_ticks t))),
        (''payload'', ytext (word_of payloads (tr_payload_mode t))), (''payload_seed'', ytext (u32_text (tr_payload_seed t))),
        (''insert_sequence'', ytext (bool_text (tr_insert_sequence t))),
        (''insert_timestamp'', ytext (bool_text (tr_insert_timestamp t))),
        (''frame_template'', ytext (word_of frame_templates (tr_frame_template t)))])"

lemma frame_len_text:
  assumes "frame_len_ok t" and "\<And>k. pw_yaml_map_get m k = pw_yaml_map_get (yaml_of_traffic t) k"
  shows "parse_frame_len m = Inr (zero_traffic\<lparr>tr_frame_len_fixed := tr_frame_len_fixed t,
      tr_frame_len_fixed_set := tr_frame_len_fixed_set t, tr_frame_len_min := tr_frame_len_min t,
      tr_frame_len_max := tr_frame_len_max t, tr_frame_len_step := tr_frame_len_step t\<rparr>)"
  using assms
  by (cases "tr_frame_len_fixed_set t")
    (simp_all add: parse_frame_len_def yaml_of_traffic_def frame_len_ok_def field_texts zero_traffic_def)

lemma check_frame_len_text:
  assumes "frame_len_ok t" and "\<And>k. pw_yaml_map_get m k = pw_yaml_map_get (yaml_of_traffic t) k"
    and "tr_frame_len_fixed u = tr_frame_len_fixed t" "tr_frame_len_fixed_set u = tr_frame_len_fixed_set t"
      "tr_frame_len_min u = tr_frame_len_min t" "tr_frame_len_max u = tr_frame_len_max t" "tr_frame_len_step u = tr_frame_len_step t"
  shows "check_frame_len m u = Inr ()"
  using assms
  by (cases "tr_frame_len_fixed_set t")
    (simp_all add: check_frame_len_def yaml_of_traffic_def frame_len_ok_def field_texts fail_if_def leD)

lemma parse_traffic_text: "traffic_ok t \<Longrightarrow> parse_traffic (Some (yaml_of_traffic t)) = Inr t"
proof -
  assume ok: "traffic_ok t"
  then have fl: "frame_len_ok t" by (simp add: traffic_ok_def)
  have m: "req_map (Some (yaml_of_traffic t)) = Inr (yaml_of_traffic t)" by (simp add: yaml_of_traffic_def Let_def)
  have g: "pw_yaml_map_get (yaml_of_traffic t) ''rate_bps'' = ytext (u64_text (tr_rate_bps t))"
    "pw_yaml_map_get (yaml_of_traffic t) ''rate_pps'' = ytext (u64_text (tr_rate_pps t))"
    "pw_yaml_map_get (yaml_of_traffic t) ''burst_size'' = ytext (u32_text (tr_burst_size t))"
    "pw_yaml_map_get (yaml_of_traffic t) ''burst_gap_ticks'' = ytext (u32_text (tr_burst_gap_ticks t))"
    "pw_yaml_map_get (yaml_of_traffic t) ''payload'' = ytext (word_of payloads (tr_payload_mode t))"
    "pw_yaml_map_get (yaml_of_traffic t) ''payload_seed'' = ytext (u32_text (tr_payload_seed t))"
    "pw_yaml_map_get (yaml_of_traffic t) ''insert_sequence'' = ytext (bool_text (tr_insert_sequence t))"
    "pw_yaml_map_get (yaml_of_traffic t) ''insert_timestamp'' = ytext (bool_text (tr_insert_timestamp t))"
    "pw_yaml_map_get (yaml_of_traffic t) ''frame_template'' = ytext (word_of frame_templates (tr_frame_template t))"
    by (simp_all add: yaml_of_traffic_def Let_def get_ymap)
  show ?thesis
    using ok
    by (simp add: parse_traffic_def m frame_len_text [OF fl] check_frame_len_text [OF fl] g field_texts(1,2) traffic_ok_def fail_if_def)
qed

definition yaml_of_meas :: "pw_flow_meas \<Rightarrow> pw_yaml_node" where
  "yaml_of_meas x = ymap [(''loss'', ytext (bool_text (meas_loss x))), (''latency'', ytext (bool_text (meas_latency x))),
     (''jitter'', ytext (bool_text (meas_jitter x)))]"

lemma parse_measurements_text: "parse_measurements (Some (yaml_of_meas x)) = Inr x"
  by (simp add: parse_measurements_def yaml_of_meas_def field_texts)

definition yaml_of_mods :: "bool \<Rightarrow> pw_flow_modifiers \<Rightarrow> pw_yaml_node" where
  "yaml_of_mods v6 x = ymap
     [(''src_ipv6'', if v6 then Some (yaml_of_fm6 (mod_src_ipv4 x) (mod_src_ipv6_mask x)) else None),
      (''dst_ipv6'', if v6 then Some (yaml_of_fm6 (mod_dst_ipv4 x) (mod_dst_ipv6_mask x)) else None),
      (''src_ipv4'', if v6 then None else Some (yaml_of_fm (mod_src_ipv4 x))),
      (''dst_ipv4'', if v6 then None else Some (yaml_of_fm (mod_dst_ipv4 x))),
      (''udp_src'', Some (yaml_of_fm (mod_udp_src x))), (''udp_dst'', Some (yaml_of_fm (mod_udp_dst x))),
      (''src_mac'', Some (yaml_of_fm (mod_src_mac x))), (''dst_mac'', Some (yaml_of_fm (mod_dst_mac x))),
      (''vlan'', Some (yaml_of_fm (mod_vlan x)))]"

lemma parse_modifiers_text: "mods_ok v6 x \<Longrightarrow> parse_modifiers v6 (Some (yaml_of_mods v6 x)) = Inr x"
  by (cases v6)
    (simp_all add: parse_modifiers_def yaml_of_mods_def mods_ok_def get_ymap parse_field_mod_text parse_ipv6_field_mod_text)

definition mask_length :: "bytes \<Rightarrow> nat" where
  "mask_length mk = (case find (\<lambda>p. pw_v6_prefix_mask p = mk) [0..<129] of None \<Rightarrow> 0 | Some p \<Rightarrow> p)"

lemma mask_length:
  assumes "mk \<in> pw_v6_prefix_mask ` {..128}"
  shows "mask_length mk \<le> 128" "pw_v6_prefix_mask (mask_length mk) = mk"
proof -
  from assms obtain p where "p \<le> 128" and mk: "mk = pw_v6_prefix_mask p" by auto
  then have "p < 129" by simp
  with mk have "find (\<lambda>p. pw_v6_prefix_mask p = mk) [0..<129] \<noteq> None" by (auto simp: find_None_iff simp del: upt_Suc)
  then obtain q where q: "find (\<lambda>p. pw_v6_prefix_mask p = mk) [0..<129] = Some q" by blast
  with find_SomeD [OF q] show "mask_length mk \<le> 128" "pw_v6_prefix_mask (mask_length mk) = mk"
    by (auto simp: mask_length_def simp del: upt_Suc)
qed

definition yaml_of_match :: "pw_flow \<Rightarrow> pw_yaml_node" where
  "yaml_of_match f = ymap
     [(''udp_dst'', ytext (u16_text (flow_match_udp_dst_mask f))),
      (''ipv4_dst'', ytext (u32_text (flow_match_ipv4_dst_mask f))),
      (''ipv6_dst_prefix'', if flow_match_ipv6_dst_set f then ytext (dec_string (mask_length (flow_match_ipv6_dst_mask f))) else None),
      (''ipv6_src_prefix'', if flow_match_ipv6_src_set f then ytext (dec_string (mask_length (flow_match_ipv6_src_mask f))) else None)]"

lemma match_prefix_text:
  assumes "pw_yaml_map_get m k = (if st then ytext (dec_string (mask_length mk)) else None)" and "prefix_ok v6 st mk"
  shows "match_prefix v6 m k = Inr (st, mk)"
  using assms by (cases st) (simp_all add: match_prefix_def prefix_ok_def scalar_cases mask_length)

lemma parse_match_text:
  assumes "prefix_ok v6 (flow_match_ipv6_dst_set f) (flow_match_ipv6_dst_mask f)"
    and "prefix_ok v6 (flow_match_ipv6_src_set f) (flow_match_ipv6_src_mask f)"
  shows "parse_match v6 (Some (yaml_of_match f)) =
    Inr (flow_match_udp_dst_mask f, flow_match_ipv4_dst_mask f,
      (flow_match_ipv6_dst_set f, flow_match_ipv6_dst_mask f), (flow_match_ipv6_src_set f, flow_match_ipv6_src_mask f))"
  using assms by (simp add: parse_match_def yaml_of_match_def field_texts match_prefix_text)

definition yaml_of_flow :: "pw_flow \<Rightarrow> pw_yaml_node" where
  "yaml_of_flow f = ymap
     [(''id'', ytext (u32_text (flow_id f))), (''name'', ytext (flow_name f)),
      (''tx_global_port'', ytext (u16_text (flow_tx_global_port f))), (''rx_global_port'', ytext (u16_text (flow_rx_global_port f))),
      (''logical_if_id'', ytext (u32_text (flow_logical_if_id f))), (''l2'', Some (yaml_of_l2 (flow_l2 f))),
      (''ipv4'', ipv4_entry (flow_ipv4 f) (flow_ipv6 f)), (''ipv6'', ipv6_entry (flow_ipv6 f)),
      (''encap'', yaml_of_encap (flow_encap f)), (''rx_expect'', ytext (word_of rx_expects (flow_rx_expect f))),
      (''udp'', udp_entry (flow_udp f)), (''tcp'', tcp_entry (flow_udp f)),
      (''traffic'', Some (yaml_of_traffic (flow_traffic f))), (''measurements'', Some (yaml_of_meas (flow_meas f))),
      (''modifiers'', Some (yaml_of_mods (v6_present (flow_ipv6 f)) (flow_mod f))),
      (''background'', ytext (bool_text (flow_background f))), (''match'', Some (yaml_of_match f)),
      (''classify'', ytext (word_of classifies (flow_classify_header f)))]"

lemma parse_flow_text: "flow_ok f \<Longrightarrow> parse_flow (yaml_of_flow f) = Inr f"
proof -
  assume ok: "flow_ok f"
  have ep: "parse_ip_endpoint (yaml_of_flow f) = Inr (flow_ipv4 f, flow_ipv6 f)"
    by (rule parse_endpoint_text) (use ok in \<open>simp_all add: flow_ok_def yaml_of_flow_def get_ymap\<close>)
  have l4: "parse_l4 (yaml_of_flow f) = Inr (flow_udp f)"
    by (rule parse_l4_text) (use ok in \<open>simp_all add: flow_ok_def yaml_of_flow_def get_ymap\<close>)
  show ?thesis
    using ok ep l4
    by (simp add: parse_flow_def yaml_of_flow_def flow_ok_def field_texts parse_l2_text parse_encap_text parse_traffic_text
        parse_measurements_text parse_modifiers_text parse_match_text)
qed

section \<open>Forward rules and the whole document\<close>

definition cidr_entry :: "bool \<Rightarrow> bytes \<Rightarrow> bytes \<Rightarrow> pw_yaml_node option" where
  "cidr_entry st a mk = (if st then ytext (cidr_text a (mask_length mk)) else None)"

definition yaml_of_forward :: "pw_forward_rule \<Rightarrow> pw_yaml_node" where
  "yaml_of_forward r = ymap
     [(''ingress_port'', ytext (u16_text (fwd_ingress_port r))), (''egress_port'', ytext (u16_text (fwd_egress_port r))),
      (''name'', ytext (fwd_name r)), (''priority'', ytext (u8_text (fwd_priority r))),
      (''ethertype'', ytext (u16_text (fwd_ethertype r))), (''ip_proto'', ytext (u8_text (fwd_ip_proto r))),
      (''udp_dst'', ytext (u16_text (fwd_udp_dst r))), (''vlan'', ytext (u16_text (fwd_vlan r))),
      (''ipv6_dst'', cidr_entry (fwd_ipv6_dst_set r) (fwd_ipv6_dst r) (fwd_ipv6_dst_mask r)),
      (''ipv6_src'', cidr_entry (fwd_ipv6_src_set r) (fwd_ipv6_src r) (fwd_ipv6_src_mask r))]"

lemma addr_match_text:
  assumes "pw_yaml_map_get m k = cidr_entry st a mk" and "addr_ok st a mk"
  shows "addr_match m k = Inr (st, a, mk)"
proof (cases st)
  case True
  with assms have "length a = 16" "mask_length mk \<le> 128" "pw_v6_prefix_mask (mask_length mk) = mk"
    by (simp_all add: addr_ok_def mask_length)
  then have "present pw_parse_ipv6_cidr (cidr_text a (mask_length mk)) = Some (Some (a, mk))"
    by (simp add: parse_cidr_text)
  with True assms show ?thesis by (simp add: addr_match_def cidr_entry_def opt_field_text)
next
  case False
  with assms show ?thesis by (simp add: addr_match_def cidr_entry_def addr_ok_def opt_field_absent)
qed

lemma parse_forward_text: "forward_ok r \<Longrightarrow> parse_forward (yaml_of_forward r) = Inr r"
  by (simp add: parse_forward_def yaml_of_forward_def forward_ok_def field_texts addr_match_text)

text \<open>A document for a configuration: every block written out, absent addresses and blocks left out.\<close>

definition yaml_of_config :: "pw_config \<Rightarrow> pw_yaml_node" where
  "yaml_of_config c = ymap
     [(''system'', Some (yaml_of_system (cfg_system c))), (''cards'', yseq (map yaml_of_card (cfg_cards c))),
      (''logical_interfaces'', yseq (map yaml_of_lif (cfg_logical_if c))), (''flows'', yseq (map yaml_of_flow (cfg_flows c))),
      (''forwards'', yseq (map yaml_of_forward (cfg_forwards c)))]"

lemma parse_list_text:
  assumes "pw_yaml_map_get m k = yseq (map g ys)" and "list_all P ys" and "\<And>y. P y \<Longrightarrow> f (g y) = Inr y"
  shows "parse_list m k f old = Inr ys"
proof -
  have "map_res f (map g ys) = Inr ys" by (rule map_res_text [where P = P and f = f and g = g, OF assms(2,3)])
  with assms(1) show ?thesis by (simp add: parse_list_def yseq_def req_seq_def)
qed

lemma root_known: "reject_unknown_keys (yaml_of_config c) root_keys = Inr ()"
  by (simp add: reject_unknown_keys_def yaml_of_config_def ymap_def root_keys_def yseq_def List.map_filter_simps)

lemma parse_root_text:
  assumes "config_ok c"
  shows "parse_root (yaml_of_config c) test_only old = Inr c"
proof -
  have m: "req_map (Some (yaml_of_config c)) = Inr (yaml_of_config c)" by (simp add: yaml_of_config_def)
  have g: "pw_yaml_map_get (yaml_of_config c) ''system'' = Some (yaml_of_system (cfg_system c))"
    "pw_yaml_map_get (yaml_of_config c) ''cards'' = yseq (map yaml_of_card (cfg_cards c))"
    by (simp_all add: yaml_of_config_def get_ymap)
  have cards: "map_res parse_card (map yaml_of_card (cfg_cards c)) = Inr (cfg_cards c)"
    by (rule map_res_text [of card_ok]) (use assms parse_card_text in \<open>simp_all add: config_ok_def\<close>)
  have l: "parse_list (yaml_of_config c) ''logical_interfaces'' parse_logical_if old' = Inr (cfg_logical_if c)" for old'
    by (rule parse_list_text [of _ _ yaml_of_lif _ lif_ok])
      (use assms parse_lif_text in \<open>simp_all add: config_ok_def yaml_of_config_def get_ymap\<close>)
  have f: "parse_list (yaml_of_config c) ''flows'' parse_flow old' = Inr (cfg_flows c)" for old'
    by (rule parse_list_text [of _ _ yaml_of_flow _ flow_ok])
      (use assms parse_flow_text in \<open>simp_all add: config_ok_def yaml_of_config_def get_ymap\<close>)
  have w: "parse_list (yaml_of_config c) ''forwards'' parse_forward old' = Inr (cfg_forwards c)" for old'
    by (rule parse_list_text [of _ _ yaml_of_forward _ forward_ok])
      (use assms parse_forward_text in \<open>simp_all add: config_ok_def yaml_of_config_def get_ymap\<close>)
  have "length (cfg_cards c) \<le> PW_MAX_CARDS" "system_ok (cfg_system c)" using assms by (simp_all add: config_ok_def)
  then show ?thesis
    by (simp add: parse_root_def m root_known g cards l f w parse_system_text fail_if_def leD) (simp add: yseq_def)
qed

section \<open>What can be read\<close>

lemma config_new_lists: "cfg_cards pw_config_new = []" "cfg_logical_if pw_config_new = []" "cfg_flows pw_config_new = []"
  "cfg_forwards pw_config_new = []"
  by (simp_all add: pw_config_new_def)

lemma parse_new_ok: "parse_root n False pw_config_new = Inr c \<Longrightarrow> config_ok c"
  by (erule parse_root_ok) (simp_all add: config_new_lists)

text \<open>
  C3. The configurations the schema walker can produce are exactly the well-formed ones. Whatever document
  tree it accepts on an empty configuration, the result has its strings within their buffers, its VLAN ids,
  DSCP and PCP values, ports per card and frame lengths within their limits, exactly one of the two rates,
  one address family per endpoint, and addresses, MACs and masks of full length; and every such
  configuration is read, value for value, from the document that writes it out.
\<close>

theorem config_range_exact: "(\<exists>n. parse_root n False pw_config_new = Inr c) \<longleftrightarrow> config_ok c"
  using parse_new_ok parse_root_text by blast

end
