(* ===== verification/PW_Config_Doc.thy ===== *)
theory PW_Config_Doc
  imports PW_Config_Text
begin

text \<open>
  The whole reader: events, document tree, configuration. The line numbers that the tree carries are only
  for messages, so the walker gives the same result on trees that differ in them; with the tree builder's exactness the
  document of a configuration is read back as that configuration.
\<close>

section \<open>Line numbers do not matter\<close>

named_theorems line_free \<open>reading a tree without its line numbers\<close>

lemma get_unlined [line_free]: "pw_yaml_map_get (unlined m) k = map_option unlined (pw_yaml_map_get m k)"
proof (cases m)
  case (YAML_MAP l kvs)
  have "map_of (map (\<lambda>(k, v). (k, unlined v)) kvs) k = map_option unlined (map_of kvs k)" by (simp add: map_of_map comp_def)
  with YAML_MAP show ?thesis by (simp add: pw_yaml_map_get_def)
qed (simp_all add: pw_yaml_map_get_def)

lemma req_map_unlined [line_free]: "rbind (req_map (map_option unlined n)) f = rbind (req_map n) (\<lambda>m. f (unlined m))"
  by (cases n; cases "the n") (simp_all add: req_map_def)

lemma req_map_Some_unlined [line_free]: "rbind (req_map (Some (unlined n))) f = rbind (req_map (Some n)) (\<lambda>m. f (unlined m))"
  using req_map_unlined [of "Some n"] by simp

lemma req_seq_unlined [line_free]: "req_seq (map_option unlined n) = map_sum id (map unlined) (req_seq n)"
  by (cases n; cases "the n") (simp_all add: req_seq_def)

lemma scalar_unlined [line_free]: "get_scalar (unlined m) k b = get_scalar m k b"
  by (auto simp: get_scalar_def get_unlined split: option.splits pw_yaml_node.splits)

lemma field_unlined [line_free]: "req_field (unlined m) k rd e = req_field m k rd e" "opt_field (unlined m) k rd e d = opt_field m k rd e d"
  by (simp_all add: req_field_def opt_field_def scalar_unlined)

lemma rbind_seq_unlined [line_free]: "rbind (map_sum id (map unlined) r) f = rbind r (\<lambda>xs. f (map unlined xs))"
  by (cases r) simp_all

lemma map_res_unlined: "(\<And>x. f (unlined x) = f x) \<Longrightarrow> map_res f (map unlined xs) = map_res f xs"
  by (induction xs) simp_all

lemma parse_system_unlined [line_free]: "parse_system (map_option unlined n) = parse_system n"
  by (simp add: parse_system_def line_free)

lemma parse_card_port_unlined: "parse_card_port (unlined n) = parse_card_port n"
  by (simp add: parse_card_port_def line_free)

lemma parse_card_unlined: "parse_card (unlined n) = parse_card n"
  by (simp add: parse_card_def line_free map_res_unlined [where f = parse_card_port, OF parse_card_port_unlined])

lemma parse_punt_unlined [line_free]: "parse_punt (map_option unlined n) = parse_punt n"
  by (cases n) (simp_all add: parse_punt_def punt_flag_def line_free)

lemma parse_logical_if_unlined: "parse_logical_if (unlined n) = parse_logical_if n"
  by (simp add: parse_logical_if_def line_free)

lemma field_mod_unlined [line_free]:
  "parse_field_mod (unlined n) k = parse_field_mod n k" "parse_ipv6_field_mod (unlined n) k = parse_ipv6_field_mod n k"
  by (cases "pw_yaml_map_get n k"; simp add: parse_field_mod_def parse_ipv6_field_mod_def line_free)+

lemma endpoint_unlined [line_free]: "parse_ip_endpoint (unlined n) = parse_ip_endpoint n"
  by (simp add: parse_ip_endpoint_def line_free Let_def)

lemma blocks_unlined [line_free]:
  "parse_l2 (map_option unlined n) = parse_l2 n"
  "parse_inner_l2 (map_option unlined n) = parse_inner_l2 n"
  "parse_measurements (map_option unlined n) = parse_measurements n"
  by (cases n; simp add: parse_l2_def parse_inner_l2_def parse_measurements_def line_free)+

lemma parse_modifiers_unlined [line_free]: "parse_modifiers v6 (map_option unlined n) = parse_modifiers v6 n"
  by (cases n; cases v6; simp add: parse_modifiers_def line_free)

lemma parse_encap_unlined [line_free]: "parse_encap (map_option unlined n) = parse_encap n"
  by (cases n) (simp_all add: parse_encap_def line_free)

lemma parse_l4_unlined [line_free]: "parse_l4 (unlined n) = parse_l4 n"
  by (cases "pw_yaml_map_get n ''tcp''"; cases "pw_yaml_map_get n ''udp''")
    (simp_all add: parse_l4_def line_free req_map_Some_unlined)

lemma frame_len_unlined [line_free]: "parse_frame_len (unlined n) = parse_frame_len n" "check_frame_len (unlined n) t = check_frame_len n t"
  by (simp_all add: parse_frame_len_def check_frame_len_def line_free cong: option.case_cong)

lemma parse_traffic_unlined [line_free]: "parse_traffic (map_option unlined n) = parse_traffic n"
  by (simp add: parse_traffic_def line_free)

lemma parse_match_unlined [line_free]: "parse_match v6 (map_option unlined n) = parse_match v6 n"
  by (cases n) (simp_all add: parse_match_def match_prefix_def line_free cong: option.case_cong)

lemma parse_flow_unlined: "parse_flow (unlined n) = parse_flow n"
  by (simp add: parse_flow_def line_free)

lemma parse_forward_unlined: "parse_forward (unlined n) = parse_forward n"
  by (simp add: parse_forward_def addr_match_def line_free)

lemma parse_list_unlined: "(\<And>x. f (unlined x) = f x) \<Longrightarrow> parse_list (unlined n) k f old = parse_list n k f old"
  using req_seq_unlined [of "pw_yaml_map_get n k"]
  by (cases "pw_yaml_map_get n k") (simp_all add: parse_list_def get_unlined rbind_seq_unlined map_res_unlined)

lemma unknown_unlined [line_free]: "reject_unknown_keys (unlined m) ks = reject_unknown_keys m ks"
proof (cases m)
  case (YAML_MAP l kvs)
  have "(\<exists>(k, v)\<in>set (map (\<lambda>(k, v). (k, unlined v)) kvs). k \<notin> set ks) \<longleftrightarrow> (\<exists>(k, v)\<in>set kvs. k \<notin> set ks)"
    by (induction kvs) auto
  then show ?thesis by (simp only: YAML_MAP unlined.simps reject_unknown_keys_def pw_yaml_node.case)
qed (simp_all add: reject_unknown_keys_def)

lemmas lists_unlined = parse_list_unlined [where f = parse_logical_if, OF parse_logical_if_unlined]
  parse_list_unlined [where f = parse_flow, OF parse_flow_unlined] parse_list_unlined [where f = parse_forward, OF parse_forward_unlined]

lemma parse_root_unlined: "parse_root (unlined n) test_only cfg = parse_root n test_only cfg"
  by (simp add: parse_root_def line_free lists_unlined map_res_unlined [where f = parse_card, OF parse_card_unlined]
      cong: if_cong)

lemma parse_root_same: "unlined n = unlined m \<Longrightarrow> parse_root n test_only cfg = parse_root m test_only cfg"
  by (metis parse_root_unlined)

section \<open>Documents without NUL\<close>

text \<open>The texts that a configuration stores, which its document writes as they are.\<close>

definition system_texts :: "pw_system \<Rightarrow> string list" where
  "system_texts s = [sys_name s, sys_mode s, sys_default_speed s, sys_control_socket s, sys_secret s]"

definition card_texts :: "pw_card \<Rightarrow> string list" where
  "card_texts c = card_name c # card_pci c # map cport_name (card_ports c)"

definition config_texts :: "pw_config \<Rightarrow> string list" where
  "config_texts c = system_texts (cfg_system c) @ concat (map card_texts (cfg_cards c)) @
     concat (map (\<lambda>l. [lif_name l, lif_netns l]) (cfg_logical_if c)) @ map flow_name (cfg_flows c) @ map fwd_name (cfg_forwards c)"

named_theorems clean \<open>texts and trees without a NUL\<close>

lemma nul_free_Nil [clean]: "nul_free []" by (simp add: nul_free_def)

lemma nul_free_Cons [clean]: "nul_free (c # s) \<longleftrightarrow> of_char c \<noteq> (0 :: nat) \<and> nul_free s"
  by (auto simp: nul_free_def)

lemma nul_free_append [clean]: "nul_free (s @ t) \<longleftrightarrow> nul_free s \<and> nul_free t"
  by (auto simp: nul_free_def)

lemma dec_nul_free [clean]: "nul_free (dec_string n)"
proof -
  have "digit_val 10 c = None" if "of_char c = (0 :: nat)" for c using that by (simp add: digit_val_def)
  then show ?thesis using dec_char [of _ n] unfolding nul_free_def by (metis option.distinct(1))
qed

lemma join_nul_free: "of_char d \<noteq> (0 :: nat) \<Longrightarrow> list_all nul_free ps \<Longrightarrow> nul_free (join d ps)"
  by (induction ps rule: induct_list012) (simp_all add: clean)

lemma hex2_nul_free [clean]: "nul_free (hex2 b)"
  using hex2_char [of _ b] by (fastforce simp: nul_free_def)

lemma number_texts_clean [clean]:
  "nul_free (u64_text a)" "nul_free (u32_text b)" "nul_free (u16_text c)" "nul_free (u8_text d)" "nul_free (bool_text e)"
  by (simp_all add: u64_text_def u32_text_def u16_text_def u8_text_def bool_text_def clean)

lemma address_texts_clean [clean]: "nul_free (mac_text m)" "nul_free (ipv4_text v)" "nul_free (ipv6_text a)" "nul_free (cidr_text a p)"
proof -
  show "nul_free (mac_text m)" "nul_free (ipv4_text v)" and v6: "nul_free (ipv6_text a)"
    unfolding mac_text_def ipv4_text_def ipv6_text_def
    by (rule join_nul_free; simp add: list_all_iff clean)+
  then show "nul_free (cidr_text a p)" by (simp add: cidr_text_def clean)
qed

lemma word_of_clean: "list_all (\<lambda>w. nul_free (fst w)) ws \<Longrightarrow> nul_free (word_of ws v)"
  by (force simp: word_of_def nul_free_Nil list_all_iff split: option.splits dest: find_SomeD)

lemma keywords_clean [clean]:
  "nul_free (word_of modes a)" "nul_free (word_of encap_types a)" "nul_free (word_of rx_expects a)"
  "nul_free (word_of payloads a)" "nul_free (word_of frame_templates a)" "nul_free (word_of classifies b)"
  by (rule word_of_clean; simp add: modes_def encap_types_def rx_expects_def payloads_def frame_templates_def classifies_def clean)+

definition clean_entry :: "pw_yaml_node option \<Rightarrow> bool" where
  "clean_entry v = (case v of None \<Rightarrow> True | Some t \<Rightarrow> tree_ok t)"

lemma clean_entries [clean]:
  "clean_entry None" "clean_entry (Some t) = tree_ok t" "clean_entry (ytext s) = nul_free s"
  "clean_entry (yseq xs) = list_all tree_ok xs" "clean_entry (if b then v else w) = (if b then clean_entry v else clean_entry w)"
  by (simp_all add: clean_entry_def ytext_def yseq_def)

lemma ymap_clean [clean]:
  "distinct (map fst es) \<Longrightarrow> list_all (\<lambda>(k, v). nul_free k \<and> clean_entry v) es \<Longrightarrow> tree_ok (ymap es)"
proof -
  let ?es = "\<lambda>es. List.map_filter (\<lambda>(k, v). map_option (Pair k) v) es"
  assume d: "distinct (map fst es)" and a: "list_all (\<lambda>(k, v). nul_free k \<and> clean_entry v) es"
  have sub: "fst ` set (?es es) \<subseteq> fst ` set es" for es :: "(string \<times> pw_yaml_node option) list"
    by (induction es) (auto simp: List.map_filter_simps split: option.splits)
  have "distinct (map fst (?es es))" using d
  proof (induction es)
    case (Cons e es)
    then have "fst e \<notin> fst ` set (?es es)" using sub [of es] by auto
    with Cons show ?case by (cases e; cases "snd e") (simp_all add: List.map_filter_simps)
  qed (simp add: List.map_filter_simps)
  moreover have "list_all (\<lambda>(k, v). nul_free k \<and> tree_ok v) (?es es)" using a
    by (induction es) (auto simp: List.map_filter_simps clean_entry_def split: option.splits)
  ultimately show "tree_ok (ymap es)" by (simp add: ymap_def)
qed

lemma map_clean: "list_all P ys \<Longrightarrow> (\<And>y. P y \<Longrightarrow> tree_ok (g y)) \<Longrightarrow> list_all tree_ok (map g ys)"
  by (induction ys) simp_all

lemma small_blocks_clean [clean]:
  "tree_ok (yaml_of_punt pu)" "tree_ok (yaml_of_fm fm)" "tree_ok (yaml_of_fm6 fm mk)" "tree_ok (yaml_of_ipv4 a)"
  "tree_ok (yaml_of_ipv6 b)" "tree_ok (yaml_of_l2 l)" "tree_ok (yaml_of_meas me)" "tree_ok (yaml_of_match f)"
  by (simp_all add: yaml_of_punt_def yaml_of_fm_def yaml_of_fm6_def yaml_of_ipv4_def yaml_of_ipv6_def yaml_of_l2_def
      yaml_of_meas_def yaml_of_match_def clean)

lemma entries_clean [clean]:
  "clean_entry (ipv4_entry a b)" "clean_entry (ipv6_entry b)" "clean_entry (udp_entry u)" "clean_entry (tcp_entry u)"
  "clean_entry (cidr_entry st x mk)"
  by (simp_all add: ipv4_entry_def ipv6_entry_def udp_entry_def tcp_entry_def cidr_entry_def clean)

lemma large_blocks_clean [clean]:
  "clean_entry (yaml_of_encap e)" "tree_ok (yaml_of_traffic t)" "tree_ok (yaml_of_mods v6 x)"
  by (simp_all add: yaml_of_encap_def yaml_of_traffic_def yaml_of_mods_def Let_def clean)

lemma items_clean:
  "nul_free (cport_name p) \<Longrightarrow> tree_ok (yaml_of_port p)"
  "list_all nul_free [lif_name l, lif_netns l] \<Longrightarrow> tree_ok (yaml_of_lif l)"
  "nul_free (flow_name f) \<Longrightarrow> tree_ok (yaml_of_flow f)"
  "nul_free (fwd_name r) \<Longrightarrow> tree_ok (yaml_of_forward r)"
  "list_all nul_free (system_texts s) \<Longrightarrow> tree_ok (yaml_of_system s)"
  by (simp_all add: yaml_of_port_def yaml_of_lif_def yaml_of_flow_def yaml_of_forward_def yaml_of_system_def system_texts_def clean)

lemma card_clean: "list_all nul_free (card_texts c) \<Longrightarrow> tree_ok (yaml_of_card c)"
proof -
  assume a: "list_all nul_free (card_texts c)"
  then have "list_all tree_ok (map yaml_of_port (card_ports c))"
    by (intro map_clean [of "\<lambda>p. nul_free (cport_name p)"] items_clean(1)) (simp_all add: card_texts_def list.pred_map comp_def)
  with a show ?thesis by (simp add: yaml_of_card_def card_texts_def clean)
qed

lemma config_clean:
  assumes "list_all nul_free (config_texts c)"
  shows "tree_ok (yaml_of_config c)"
proof -
  have a: "list_all nul_free (system_texts (cfg_system c))" "list_all (\<lambda>x. list_all nul_free (card_texts x)) (cfg_cards c)"
    "list_all (\<lambda>l. list_all nul_free [lif_name l, lif_netns l]) (cfg_logical_if c)"
    "list_all (\<lambda>f. nul_free (flow_name f)) (cfg_flows c)" "list_all (\<lambda>r. nul_free (fwd_name r)) (cfg_forwards c)"
    using assms by (auto simp: config_texts_def list_all_iff)
  note l = map_clean [OF a(2) card_clean] map_clean [OF a(3) items_clean(2)] map_clean [OF a(4) items_clean(3)]
    map_clean [OF a(5) items_clean(4)]
  show ?thesis using l items_clean(5) [OF a(1)] by (simp add: yaml_of_config_def clean)
qed

section \<open>The round trip\<close>

lemma config_read_back:
  assumes "config_ok c" and "list_all nul_free (config_texts c)"
    and "libyaml text = document a b body d e" and "map fst body = kinds (yaml_of_config c)"
  shows "pw_config_parse_string_ex libyaml (Some text) test_only (Some old) = Inr c"
proof -
  let ?u = "yaml_of_config c"
  have ok: "tree_ok ?u" by (rule config_clean [OF assms(2)])
  obtain t where t: "pw_yaml_parse (libyaml text) = Inr t" "unlined t = unlined ?u"
    using yaml_parse_tree [OF ok assms(4)] unfolding assms(3) by blast
  have "parse_root t test_only old = Inr c"
    using parse_root_same [OF t(2)] parse_root_text [OF assms(1)] by simp
  with t(1) show ?thesis by (simp add: pw_config_parse_string_ex_def)
qed

text \<open>What the entry points deliver on a new configuration.\<close>

lemma parse_string_ok: "pw_config_parse_string libyaml text (Some pw_config_new) = Inr c \<Longrightarrow> config_ok c"
  by (auto simp: pw_config_parse_string_def pw_config_parse_string_ex_def split: option.splits sum.splits intro: parse_new_ok)

lemma parse_file_ok: "pw_config_parse_file libyaml files path (Some pw_config_new) = Inr c \<Longrightarrow> config_ok c"
  by (auto simp: pw_config_parse_file_def pw_config_parse_file_ex_def pw_config_parse_string_def [symmetric]
      split: option.splits prod.splits if_splits intro: parse_string_ok)

end
