(* ===== verification/PW_Daemon.thy ===== *)
theory PW_Daemon
  imports PW_Lookup PW_Gpio_Sync PW_Config_Doc
begin

text \<open>
  The daemon's control of the cards, \<^verbatim>\<open>packetwyrmd/src/main.c\<close>: programming all cards, cross-card latency
  correction, starting and stopping flows, and the live replacement of the test configuration with its roll-back. The
  operations of every backend act on one state \<open>'w\<close> of all the hardware, so what a card does between two
  accesses, and how cards influence each other, is part of that state.
\<close>

section \<open>Cards\<close>

record 'w card_runtime =
  cr_ops :: "'w pw_card_backend_ops"
  cr_read32 :: "('w \<Rightarrow> u32 \<Rightarrow> 'w \<times> (pw_status + u32)) option"
  cr_which :: string
  cr_open :: bool

definition card_open :: "'w card_runtime list \<Rightarrow> nat \<Rightarrow> bool" where
  "card_open cards i \<longleftrightarrow> i < length cards \<and> cr_open (cards ! i)"

definition card_reader :: "'w card_runtime \<Rightarrow> 'w reader option" where
  "card_reader c = map_option (\<lambda>rd w a. case rd w a of (w', Inr v) \<Rightarrow> (w', v) | (w', Inl _) \<Rightarrow> (w', 0)) (cr_read32 c)"

definition card_idx_by_id :: "pw_config \<Rightarrow> u16 \<Rightarrow> nat option" where
  "card_idx_by_id cfg cid = find_idx (\<lambda>c. card_id c = cid) (cfg_cards cfg)"

definition setup_gpio_sync :: "pw_config \<Rightarrow> pw_program \<Rightarrow> 'w card_runtime list \<Rightarrow> 'w \<Rightarrow> 'w" where
  "setup_gpio_sync cfg prog cards w =
     (let any_cross = list_ex (\<lambda>m. meta_tx_card_id m \<noteq> meta_rx_card_id m) (prog_flow_meta prog) in
      case find (card_open cards) [0..<length (cfg_cards cfg)] of
        None \<Rightarrow> w
      | Some master \<Rightarrow>
          foldl (\<lambda>w ci.
            if \<not> card_open cards ci then w
            else let w32 = op_write32 (cr_ops (cards ! ci)) in
                 if \<not> any_cross then pw_gpio_sync_disable w32 w
                 else if ci = master then pw_gpio_sync_master w32 w 1 15
                 else pw_gpio_sync_slave w32 w 0) w [0..<length (cfg_cards cfg)])"

section \<open>Latency correction\<close>

text \<open>The calibration constant is \<open>g_xcard_lat_cal_ticks\<close>, the \<open>-C\<close> option.\<close>

definition xcard_cal_bias :: "int \<Rightarrow> pw_flow_meta \<Rightarrow> u64" where
  "xcard_cal_bias cal m =
     (if cal = 0 \<or> meta_tx_card_id m = meta_rx_card_id m then 0
      else if meta_tx_card_id m < meta_rx_card_id m then of_int cal else - of_int cal)"

text \<open>The receiving and the transmitting card of a cross-card flow, when both are open.\<close>

definition open_pair :: "pw_config \<Rightarrow> 'w card_runtime list \<Rightarrow> pw_flow_meta \<Rightarrow> (nat \<times> nat) option" where
  "open_pair cfg cards m =
     (case (card_idx_by_id cfg (meta_rx_card_id m), card_idx_by_id cfg (meta_tx_card_id m)) of
        (Some rx, Some tx) \<Rightarrow> if card_open cards rx \<and> card_open cards tx then Some (rx, tx) else None
      | _ \<Rightarrow> None)"

definition offset_of :: "'w card_runtime list \<Rightarrow> nat \<Rightarrow> nat \<Rightarrow> 'w \<Rightarrow> 'w \<times> u64 option" where
  "offset_of cards tx rx w = pw_gpio_sync_offset_coherent (card_reader (cards ! tx)) (card_reader (cards ! rx)) w"

definition correct :: "int \<Rightarrow> 'w card_runtime list \<Rightarrow> pw_flow_meta \<Rightarrow> nat \<Rightarrow> u64 \<Rightarrow> 'w \<Rightarrow> 'w" where
  "correct cal cards m rx corr w =
     pw_gpio_sync_write_correction (op_write32 (cr_ops (cards ! rx))) w (unat (meta_rx_local_flow_id m)) (corr + xcard_cal_bias cal m)"

definition servo_lat_correction ::
  "int \<Rightarrow> pw_config \<Rightarrow> pw_program \<Rightarrow> 'w card_runtime list \<Rightarrow> 'w \<Rightarrow> 'w" where
  "servo_lat_correction cal cfg prog cards w =
     foldl (\<lambda>w m.
       if \<not> meta_rx_slot_valid m \<or> meta_tx_card_id m = meta_rx_card_id m then w
       else case open_pair cfg cards m of None \<Rightarrow> w
            | Some (rx, tx) \<Rightarrow>
                (case offset_of cards tx rx w of (w', None) \<Rightarrow> w' | (w', Some corr) \<Rightarrow> correct cal cards m rx corr w'))
       w (prog_flow_meta prog)"

fun converged_from :: "pw_config \<Rightarrow> 'w card_runtime list \<Rightarrow> pw_flow_meta list \<Rightarrow> 'w \<Rightarrow> 'w \<times> bool" where
  "converged_from cfg cards [] w = (w, True)"
| "converged_from cfg cards (m # ms) w =
     (if \<not> meta_rx_slot_valid m \<or> meta_tx_card_id m = meta_rx_card_id m then converged_from cfg cards ms w
      else case open_pair cfg cards m of None \<Rightarrow> converged_from cfg cards ms w
           | Some (rx, tx) \<Rightarrow>
               (case offset_of cards tx rx w of (w', None) \<Rightarrow> (w', False) | (w', Some _) \<Rightarrow> converged_from cfg cards ms w'))"

definition servo_converged :: "pw_config \<Rightarrow> pw_program \<Rightarrow> 'w card_runtime list \<Rightarrow> 'w \<Rightarrow> 'w \<times> bool" where
  "servo_converged cfg prog cards w = converged_from cfg cards (prog_flow_meta prog) w"

text \<open>Priming: at most 200 attempts per flow; the second component collects the cards with a cross-card
  flow, the third those where one could not be primed.\<close>

fun prime_tries :: "int \<Rightarrow> 'w card_runtime list \<Rightarrow> pw_flow_meta \<Rightarrow> nat \<Rightarrow> nat \<Rightarrow> nat \<Rightarrow> 'w \<Rightarrow> 'w \<times> bool" where
  "prime_tries cal cards m rx tx 0 w = (w, False)"
| "prime_tries cal cards m rx tx (Suc k) w =
     (case offset_of cards tx rx w of (w', Some corr) \<Rightarrow> (correct cal cards m rx corr w', True)
      | (w', None) \<Rightarrow> prime_tries cal cards m rx tx k w')"

definition prime_flow ::
  "int \<Rightarrow> pw_config \<Rightarrow> 'w card_runtime list \<Rightarrow> 'w \<times> nat list \<times> nat list \<Rightarrow> pw_flow_meta \<Rightarrow> 'w \<times> nat list \<times> nat list" where
  "prime_flow cal cfg cards = (\<lambda>(w, crossed, missed) m.
     if \<not> meta_rx_slot_valid m then (w, crossed, missed)
     else case card_idx_by_id cfg (meta_rx_card_id m) of None \<Rightarrow> (w, crossed, missed)
          | Some rx \<Rightarrow>
              if \<not> card_open cards rx then (w, crossed, missed)
              else if meta_tx_card_id m = meta_rx_card_id m
              then (pw_gpio_sync_write_correction (op_write32 (cr_ops (cards ! rx))) w (unat (meta_rx_local_flow_id m)) 0,
                    crossed, missed)
              else (case card_idx_by_id cfg (meta_tx_card_id m) of None \<Rightarrow> (w, crossed, missed)
                    | Some tx \<Rightarrow>
                        if \<not> card_open cards tx then (w, crossed, missed)
                        else (case prime_tries cal cards m rx tx 200 w of
                                (w', wrote) \<Rightarrow> (w', rx # crossed, if wrote then missed else rx # missed))))"

definition clear_stats :: "'w card_runtime \<Rightarrow> 'w \<Rightarrow> 'w \<times> pw_status" where
  "clear_stats c w =
     (case op_write32 (cr_ops c) of None \<Rightarrow> (w, PW_E_NOT_IMPLEMENTED) | Some w32 \<Rightarrow> w32 w PWFPGA_REG_STATS_CLEAR 1)"

definition prime_lat_correction ::
  "int \<Rightarrow> pw_config \<Rightarrow> pw_program \<Rightarrow> 'w card_runtime list \<Rightarrow> 'w \<Rightarrow> 'w" where
  "prime_lat_correction cal cfg prog cards w =
     (case foldl (prime_flow cal cfg cards) (w, [], []) (prog_flow_meta prog) of
        (w', crossed, missed) \<Rightarrow>
          foldl (\<lambda>w ci.
            if card_open cards ci \<and> ci \<in> set crossed \<and> ci \<notin> set missed then fst (clear_stats (cards ! ci) w) else w)
            w' [0..<min (length (cfg_cards cfg)) PW_MAX_CARDS])"

section \<open>Programming the cards\<close>

definition program_card :: "'w card_runtime list \<Rightarrow> pw_program \<Rightarrow> 'w \<times> pw_status \<Rightarrow> nat \<Rightarrow> 'w \<times> pw_status" where
  "program_card cards prog = (\<lambda>(w, worst) ci.
     if \<not> card_open cards ci then (w, worst)
     else let ops = cr_ops (cards ! ci);
              (w, worst) = (case op_write32 ops of None \<Rightarrow> (w, worst)
                            | Some w32 \<Rightarrow> chk worst (w32 w PWFPGA_REG_DP_RESET 1));
              (w, s) = pw_program_card_tables_diag (Some ops) w (Some (prog_per_card prog ! ci))
          in (w, if s \<noteq> PW_OK \<and> worst = PW_OK then s else worst))"

definition program_backends ::
  "int \<Rightarrow> pw_program \<Rightarrow> pw_config \<Rightarrow> 'w card_runtime list \<Rightarrow> 'w \<Rightarrow> 'w \<times> pw_status" where
  "program_backends cal prog cfg cards w =
     (case foldl (program_card cards prog) (w, PW_OK) [0..<length (prog_per_card prog)] of
        (w', worst) \<Rightarrow> (prime_lat_correction cal cfg prog cards (setup_gpio_sync cfg prog cards w'), worst))"

section \<open>Running flows\<close>

text \<open>Card index and row of a flow's transmit row.\<close>

definition find_tx_row :: "pw_program \<Rightarrow> u32 \<Rightarrow> (nat \<times> nat) option" where
  "find_tx_row prog gid =
     (case find (\<lambda>m. meta_global_flow_id m = gid) (prog_flow_meta prog) of None \<Rightarrow> None
      | Some m \<Rightarrow>
          first_some (\<lambda>ci. let cp = prog_per_card prog ! ci in
            if cp_card_id cp \<noteq> meta_tx_card_id m then None
            else map_option (\<lambda>r. (ci, r)) (find_idx (\<lambda>row. row_local_flow_id row = meta_tx_local_flow_id m) (cp_flow_rows cp)))
            [0..<length (prog_per_card prog)])"

definition run_row :: "bool \<Rightarrow> pwfpga_flow_config \<Rightarrow> pwfpga_flow_config" where
  "run_row on row = row\<lparr>row_enable := (if on then 1 else 0), row_tx_enable := (if on then 1 else 0)\<rparr>"

definition set_row :: "nat \<Rightarrow> nat \<Rightarrow> pwfpga_flow_config \<Rightarrow> pw_program \<Rightarrow> pw_program" where
  "set_row ci r row prog =
     (let cp = prog_per_card prog ! ci in upd_card ci (cp\<lparr>cp_flow_rows := (cp_flow_rows cp)[r := row]\<rparr>) prog)"

definition stage_flow_run_state :: "pw_program \<Rightarrow> bool \<Rightarrow> pw_program" where
  "stage_flow_run_state prog running =
     foldl (\<lambda>p m. case find_tx_row p (meta_global_flow_id m) of None \<Rightarrow> p
              | Some (ci, r) \<Rightarrow> set_row ci r (run_row running (cp_flow_rows (prog_per_card p ! ci) ! r)) p)
       prog (prog_flow_meta prog)"

definition set_flow_enable ::
  "pw_program \<Rightarrow> 'w card_runtime list \<Rightarrow> u32 \<Rightarrow> bool \<Rightarrow> bool \<Rightarrow> 'w \<Rightarrow> 'w \<times> pw_program \<times> pw_status" where
  "set_flow_enable prog cards gid enable persist w =
     (case find_tx_row prog gid of None \<Rightarrow> (w, prog, PW_E_INVAL)
      | Some (ci, r) \<Rightarrow>
          if \<not> card_open cards ci then (w, prog, PW_E_NO_CARD)
          else
            let ops = cr_ops (cards ! ci); row = run_row enable (cp_flow_rows (prog_per_card prog ! ci) ! r);
                (w, s) = (case op_flow_write ops of None \<Rightarrow> (w, PW_E_NOT_IMPLEMENTED) | Some fw \<Rightarrow> fw w (of_nat r) (Some row));
                (w, s) = (case op_flow_commit ops of Some fc \<Rightarrow> if s = PW_OK then fc w else (w, s) | None \<Rightarrow> (w, s))
            in (w, if s = PW_OK \<and> persist then set_row ci r row prog else prog, s))"

definition flow_enabled :: "pw_program \<Rightarrow> u32 \<Rightarrow> bool" where
  "flow_enabled prog gid =
     (case find_tx_row prog gid of None \<Rightarrow> False | Some (ci, r) \<Rightarrow> row_tx_enable (cp_flow_rows (prog_per_card prog ! ci) ! r) \<noteq> 0)"

section \<open>Replacing the test configuration\<close>

definition same_ports :: "pw_card_port \<Rightarrow> pw_card_port \<Rightarrow> bool" where
  "same_ports p q \<longleftrightarrow> cport_local_port p = cport_local_port q \<and> cport_global_port p = cport_global_port q"

definition same_card :: "pw_card \<Rightarrow> pw_card \<Rightarrow> bool" where
  "same_card a b \<longleftrightarrow> card_id a = card_id b \<and> card_pci a = card_pci b \<and> list_all2 same_ports (card_ports a) (card_ports b)"

definition same_lif :: "pw_logical_if \<Rightarrow> pw_logical_if \<Rightarrow> bool" where
  "same_lif a b \<longleftrightarrow>
     lif_id a = lif_id b \<and> lif_global_port a = lif_global_port b \<and> lif_vlan a = lif_vlan b \<and> lif_name a = lif_name b \<and>
     lif_mac a = lif_mac b"

definition same_topology :: "pw_config \<Rightarrow> pw_config \<Rightarrow> bool" where
  "same_topology a b \<longleftrightarrow>
     list_all2 same_card (cfg_cards a) (cfg_cards b) \<and> list_all2 same_lif (cfg_logical_if a) (cfg_logical_if b)"

text \<open>The daemon: the running configuration and program, the text they came from, and the hardware.\<close>

record 'w daemon =
  dm_cfg :: pw_config
  dm_prog :: pw_program
  dm_test_yaml :: "string option"
  dm_world :: 'w

text \<open>The error replies; of a failed stage also the status of the roll-back.\<close>

datatype load_error =
  Missing_yaml | Parse_failed pw_status | Topology_changed | Invalid pw_status | Not_compiled pw_status
| Stage_failed pw_status pw_status

definition quiesce :: "pw_program \<Rightarrow> 'w card_runtime list \<Rightarrow> 'w \<Rightarrow> 'w" where
  "quiesce prog cards w =
     foldl (\<lambda>w m. fst (set_flow_enable prog cards (meta_global_flow_id m) False False w)) w (prog_flow_meta prog)"

text \<open>What is checked before anything is touched: the new configuration and its staged program.\<close>

definition prepare_load ::
  "(string \<Rightarrow> yaml_event list) \<Rightarrow> pw_config \<Rightarrow> string option \<Rightarrow> load_error + (pw_config \<times> pw_program)" where
  "prepare_load libyaml cfg o_yaml =
     (case o_yaml of None \<Rightarrow> Inl Missing_yaml
      | Some yaml \<Rightarrow>
          (case pw_config_parse_string_ex libyaml (Some yaml) True (Some pw_config_new) of Inl r \<Rightarrow> Inl (Parse_failed r)
           | Inr payload \<Rightarrow>
               if cfg_cards payload \<noteq> [] \<and> \<not> same_topology cfg payload then Inl Topology_changed
               else let new = (the (pw_config_clone_env (Some cfg)))\<lparr>cfg_flows := cfg_flows payload, cfg_forwards := cfg_forwards payload\<rparr> in
               if pw_config_validate (Some new) \<noteq> PW_OK then Inl (Invalid (pw_config_validate (Some new)))
               else (case pw_flow_compile (Some new) of Inl r \<Rightarrow> Inl (Not_compiled r)
                     | Inr prog \<Rightarrow> Inr (new, stage_flow_run_state prog False))))"

definition do_config_load ::
  "(string \<Rightarrow> yaml_event list) \<Rightarrow> int \<Rightarrow> 'w card_runtime list \<Rightarrow> string option \<Rightarrow> 'w daemon \<Rightarrow> 'w daemon \<times> (load_error + (nat \<times> nat))" where
  "do_config_load libyaml cal cards o_yaml d =
     (case prepare_load libyaml (dm_cfg d) o_yaml of Inl e \<Rightarrow> (d, Inl e)
      | Inr (cfg, prog) \<Rightarrow>
          let w = quiesce (dm_prog d) cards (dm_world d);
              (w, st) = program_backends cal prog cfg cards w in
          if st \<noteq> PW_OK
          then let (w, rb) = program_backends cal (dm_prog d) (dm_cfg d) cards w in (d\<lparr>dm_world := w\<rparr>, Inl (Stage_failed st rb))
          else (\<lparr>dm_cfg = cfg, dm_prog = prog, dm_test_yaml = o_yaml, dm_world = w\<rparr>,
                Inr (length (cfg_flows cfg), sum_list (map (\<lambda>cp. length (cp_fc_rules cp)) (prog_per_card prog)))))"

section \<open>Start, stop and arm\<close>

definition flow_run :: "'w card_runtime list \<Rightarrow> bool \<Rightarrow> u32 \<Rightarrow> 'w daemon \<Rightarrow> 'w daemon \<times> pw_status" where
  "flow_run cards en gid d =
     (case set_flow_enable (dm_prog d) cards gid en True (dm_world d) of (w, prog, s) \<Rightarrow>
        (d\<lparr>dm_prog := prog, dm_world := w\<rparr>, s))"

text \<open>The loops over all flows and over all cards, with the counts of what changed and what failed.\<close>

definition count :: "pw_status \<Rightarrow> nat \<times> nat \<Rightarrow> nat \<times> nat" where
  "count s = (\<lambda>(changed, failed). if s = PW_OK then (changed + 1, failed) else (changed, failed + 1))"

definition run_all :: "'w card_runtime list \<Rightarrow> bool \<Rightarrow> 'w daemon \<Rightarrow> 'w daemon \<times> nat \<times> nat" where
  "run_all cards en d =
     foldl (\<lambda>(d, n) m. case flow_run cards en (meta_global_flow_id m) d of (d', s) \<Rightarrow> (d', count s n))
       (d, 0, 0) (prog_flow_meta (dm_prog d))"

definition clear_all :: "'w card_runtime list \<Rightarrow> pw_config \<Rightarrow> 'w \<Rightarrow> 'w \<times> nat \<times> nat" where
  "clear_all cards cfg w =
     foldl (\<lambda>(w, n) ci.
       if card_open cards ci \<and> op_write32 (cr_ops (cards ! ci)) \<noteq> None
       then (case clear_stats (cards ! ci) w of (w', s) \<Rightarrow> (w', count s n)) else (w, n))
       (w, 0, 0) [0..<length (cfg_cards cfg)]"

definition test_run :: "int \<Rightarrow> 'w card_runtime list \<Rightarrow> bool \<Rightarrow> 'w daemon \<Rightarrow> 'w daemon \<times> nat \<times> nat" where
  "test_run cal cards en d =
     (case run_all cards en d of (d, changed, failed) \<Rightarrow>
        (if en \<and> failed = 0
         then d\<lparr>dm_world := fst (clear_all cards (dm_cfg d)
                (prime_lat_correction cal (dm_cfg d) (dm_prog d) cards (dm_world d)))\<rparr>
         else d, changed, failed))"

definition test_arm :: "int \<Rightarrow> 'w card_runtime list \<Rightarrow> 'w daemon \<Rightarrow> 'w daemon \<times> nat \<times> nat \<times> bool" where
  "test_arm cal cards d =
     (case program_backends cal (dm_prog d) (dm_cfg d) cards (dm_world d) of (w, s) \<Rightarrow>
        if s \<noteq> PW_OK then (d\<lparr>dm_world := w\<rparr>, 0, 1, False)
        else (case clear_all cards (dm_cfg d) w of (w, changed, failed) \<Rightarrow> (d\<lparr>dm_world := w\<rparr>, changed, failed, True)))"

definition stats_clear :: "'w card_runtime list \<Rightarrow> 'w daemon \<Rightarrow> 'w daemon \<times> nat \<times> nat" where
  "stats_clear cards d =
     (case clear_all cards (dm_cfg d) (dm_world d) of (w, n) \<Rightarrow> (d\<lparr>dm_world := w\<rparr>, n))"

text \<open>The answer to start and arm also says whether the offsets are coherent, which reads the cards.\<close>

definition warn_servo :: "'w card_runtime list \<Rightarrow> 'w daemon \<Rightarrow> 'w daemon \<times> bool" where
  "warn_servo cards d =
     (case servo_converged (dm_cfg d) (dm_prog d) cards (dm_world d) of (w, conv) \<Rightarrow> (d\<lparr>dm_world := w\<rparr>, conv))"

definition servo_tick :: "int \<Rightarrow> 'w card_runtime list \<Rightarrow> 'w daemon \<Rightarrow> 'w daemon" where
  "servo_tick cal cards d =
     d\<lparr>dm_world := servo_lat_correction cal (dm_cfg d) (dm_prog d) cards (dm_world d)\<rparr>"

section \<open>Startup\<close>

text \<open>What opening a backend delivers: its operations and its register read.\<close>

type_synonym 'w backend = "'w pw_card_backend_ops \<times> ('w \<Rightarrow> u32 \<Rightarrow> 'w \<times> (pw_status + u32)) option"

definition opened :: "string \<Rightarrow> pw_status + 'w backend \<Rightarrow> 'w card_runtime" where
  "opened which r = (case r of
     Inr (ops, rd) \<Rightarrow> \<lparr>cr_ops = ops, cr_read32 = rd, cr_which = which, cr_open = True\<rparr>
   | Inl _ \<Rightarrow> \<lparr>cr_ops = \<lparr>op_write32 = None, op_card_info = None, op_flow_write = None, op_flow_commit = None\<rparr>,
              cr_read32 = None, cr_which = which, cr_open = False\<rparr>)"

definition open_all_backends ::
  "(string \<Rightarrow> pw_status + 'w backend) \<Rightarrow> (string \<Rightarrow> pw_status + 'w backend) \<Rightarrow> bool \<Rightarrow> pw_config \<Rightarrow> 'w card_runtime list \<times> nat" where
  "open_all_backends bar_open fake_open allow_fake cfg =
     (let cards = map (\<lambda>c. let r = bar_open (card_pci c) in
                   if isl r \<and> allow_fake then opened ''fake'' (fake_open (card_pci c)) else opened ''bar'' r) (cfg_cards cfg)
      in (cards, length (filter (\<lambda>c. \<not> cr_open c) cards)))"

datatype startup_error =
  Env_unreadable pw_status | Test_unreadable pw_status | Config_invalid pw_status | Config_not_compiled pw_status
| Cards_missing nat | Programming_failed pw_status

definition read_configs ::
  "(string \<Rightarrow> yaml_event list) \<Rightarrow> (string \<Rightarrow> (int \<times> string) option) \<Rightarrow> string \<Rightarrow> string option \<Rightarrow> startup_error + pw_config" where
  "read_configs libyaml files env_path test_path =
     (case pw_config_parse_file libyaml files (Some env_path) (Some pw_config_new) of Inl r \<Rightarrow> Inl (Env_unreadable r)
      | Inr cfg \<Rightarrow>
          (case test_path of None \<Rightarrow> Inr cfg
           | Some _ \<Rightarrow>
               (case pw_config_parse_file_ex libyaml files test_path True (Some pw_config_new) of Inl r \<Rightarrow> Inl (Test_unreadable r)
                | Inr t \<Rightarrow> Inr (cfg\<lparr>cfg_flows := cfg_flows t, cfg_forwards := cfg_forwards t\<rparr>))))"

definition startup ::
  "(string \<Rightarrow> yaml_event list) \<Rightarrow> (string \<Rightarrow> (int \<times> string) option) \<Rightarrow> (string \<Rightarrow> pw_status + 'w backend) \<Rightarrow>
   (string \<Rightarrow> pw_status + 'w backend) \<Rightarrow> int \<Rightarrow> bool \<Rightarrow> bool \<Rightarrow> string \<Rightarrow> string option \<Rightarrow> 'w \<Rightarrow>
   startup_error + ('w card_runtime list \<times> 'w daemon)" where
  "startup libyaml files bar_open fake_open cal autostart allow_fake env_path test_path w =
     (case read_configs libyaml files env_path test_path of Inl e \<Rightarrow> Inl e
      | Inr cfg \<Rightarrow>
          if pw_config_validate (Some cfg) \<noteq> PW_OK then Inl (Config_invalid (pw_config_validate (Some cfg)))
          else (case pw_flow_compile (Some cfg) of Inl r \<Rightarrow> Inl (Config_not_compiled r)
                | Inr compiled \<Rightarrow>
                    let (cards, n_failed) = open_all_backends bar_open fake_open allow_fake cfg in
                    if n_failed > 0 \<and> \<not> allow_fake then Inl (Cards_missing n_failed)
                    else let prog = (if autostart then compiled else stage_flow_run_state compiled False);
                             (w, s) = program_backends cal prog cfg cards w in
                         if s \<noteq> PW_OK \<and> \<not> allow_fake then Inl (Programming_failed s)
                         else Inr (cards, \<lparr>dm_cfg = cfg, dm_prog = prog,
                                           dm_test_yaml = Option.bind test_path (\<lambda>p. map_option snd (files p)), dm_world = w\<rparr>)))"

section \<open>The control plane as a transition system\<close>

text \<open>The requests that change the cards or the program, and the servo's turns between them.\<close>

inductive dstep ::
  "(string \<Rightarrow> yaml_event list) \<Rightarrow> int \<Rightarrow> 'w card_runtime list \<Rightarrow> 'w daemon \<Rightarrow> 'w daemon \<Rightarrow> bool"
  for libyaml cal cards where
  config_load: "dstep libyaml cal cards d (fst (do_config_load libyaml cal cards y d))"
| flow_start_stop: "dstep libyaml cal cards d (fst (flow_run cards en gid d))"
| test_start: "dstep libyaml cal cards d (fst (warn_servo cards (fst (test_run cal cards True d))))"
| test_stop: "dstep libyaml cal cards d (fst (test_run cal cards False d))"
| test_arm_push: "dstep libyaml cal cards d (fst (warn_servo cards (fst (test_arm cal cards d))))"
| counters_clear: "dstep libyaml cal cards d (fst (stats_clear cards d))"
| servo: "dstep libyaml cal cards d (servo_tick cal cards d)"

end
