(* ===== verification/PW_Daemon_State.thy ===== *)
theory PW_Daemon_State
  imports PW_Daemon
begin

text \<open>
  The run state in the staged program: starting and stopping flows changes nothing but the enable bits of
  transmit rows, every transmit row belongs to the flow that the daemon looks it up for, and a staged
  program transmits nothing.
\<close>

section \<open>Programs up to the run state\<close>

definition with_row :: "nat \<Rightarrow> pwfpga_flow_config \<Rightarrow> pw_card_program \<Rightarrow> pw_card_program" where
  "with_row r row cp = cp\<lparr>cp_flow_rows := (cp_flow_rows cp)[r := row]\<rparr>"

lemma set_row_simps [simp]:
  "prog_per_card (set_row ci r row p) = (prog_per_card p)[ci := with_row r row (prog_per_card p ! ci)]"
  "prog_flow_meta (set_row ci r row p) = prog_flow_meta p"
  by (simp_all add: set_row_def upd_card_def with_row_def Let_def)

definition idle_card :: "pw_card_program \<Rightarrow> pw_card_program" where
  "idle_card cp = cp\<lparr>cp_flow_rows := map (run_row False) (cp_flow_rows cp)\<rparr>"

definition idle :: "pw_program \<Rightarrow> pw_program" where
  "idle p = p\<lparr>prog_per_card := map idle_card (prog_per_card p)\<rparr>"

lemma run_row_simps [simp]:
  "run_row a (run_row b row) = run_row a row" "row_local_flow_id (run_row a row) = row_local_flow_id row"
  "row_global_flow_id (run_row a row) = row_global_flow_id row"
  "row_tx_enable (run_row a row) = (if a then 1 else 0)" "row_enable (run_row a row) = (if a then 1 else 0)"
  by (simp_all add: run_row_def)

lemma idle_simps [simp]:
  "prog_flow_meta (idle p) = prog_flow_meta p" "prog_per_card (idle p) = map idle_card (prog_per_card p)"
  "cp_card_id (idle_card cp) = cp_card_id cp" "cp_flow_rows (idle_card cp) = map (run_row False) (cp_flow_rows cp)"
  "cp_map_entries (idle_card cp) = cp_map_entries cp" "cp_fc_cmps (idle_card cp) = cp_fc_cmps cp"
  "cp_fc_udfs (idle_card cp) = cp_fc_udfs cp" "cp_fc_rules (idle_card cp) = cp_fc_rules cp"
  "cp_hash_entries (idle_card cp) = cp_hash_entries cp"
  by (simp_all add: idle_def idle_card_def)

lemma idle_set_row:
  assumes "ci < length (prog_per_card p)" "r < length (cp_flow_rows (prog_per_card p ! ci))"
  shows "idle (set_row ci r (run_row on (cp_flow_rows (prog_per_card p ! ci) ! r)) p) = idle p"
proof -
  let ?cp = "prog_per_card p ! ci"
  have "idle_card (with_row r (run_row on (cp_flow_rows ?cp ! r)) ?cp) = idle_card ?cp"
    using assms(2) by (simp add: idle_card_def with_row_def map_update list_update_same_conv)
  then have "map idle_card ((prog_per_card p)[ci := with_row r (run_row on (cp_flow_rows ?cp ! r)) ?cp]) =
      map idle_card (prog_per_card p)"
    using assms(1) by (simp add: map_update list_update_same_conv)
  then show ?thesis by (simp add: idle_def set_row_def upd_card_def with_row_def Let_def)
qed

lemma idle_eq:
  assumes "idle p = idle q"
  shows "prog_flow_meta p = prog_flow_meta q" "length (prog_per_card p) = length (prog_per_card q)"
    "i < length (prog_per_card q) \<Longrightarrow> idle_card (prog_per_card p ! i) = idle_card (prog_per_card q ! i)"
proof -
  from assms have m: "map idle_card (prog_per_card p) = map idle_card (prog_per_card q)" by (metis idle_simps(2))
  from assms show "prog_flow_meta p = prog_flow_meta q" by (metis idle_simps(1))
  from m show l: "length (prog_per_card p) = length (prog_per_card q)" by (metis length_map)
  from m l show "i < length (prog_per_card q) \<Longrightarrow> idle_card (prog_per_card p ! i) = idle_card (prog_per_card q ! i)"
    by (metis nth_map)
qed

lemma idle_card_eq:
  assumes "idle_card c = idle_card d"
  shows "cp_card_id c = cp_card_id d" "length (cp_flow_rows c) = length (cp_flow_rows d)"
    "r < length (cp_flow_rows d) \<Longrightarrow> run_row b (cp_flow_rows c ! r) = run_row b (cp_flow_rows d ! r)"
proof -
  from assms have m: "map (run_row False) (cp_flow_rows c) = map (run_row False) (cp_flow_rows d)" by (metis idle_simps(4))
  from assms show "cp_card_id c = cp_card_id d" by (metis idle_simps(3))
  from m show l: "length (cp_flow_rows c) = length (cp_flow_rows d)" by (metis length_map)
  show "run_row b (cp_flow_rows c ! r) = run_row b (cp_flow_rows d ! r)" if "r < length (cp_flow_rows d)"
    using m l that by (metis nth_map run_row_simps(1))
qed

section \<open>Looking up the transmit row\<close>

lemma find_tx_row_SomeD:
  assumes "find_tx_row p gid = Some (ci, r)"
  obtains m where "find (\<lambda>m. meta_global_flow_id m = gid) (prog_flow_meta p) = Some m" "ci < length (prog_per_card p)"
    "cp_card_id (prog_per_card p ! ci) = meta_tx_card_id m" "r < length (cp_flow_rows (prog_per_card p ! ci))"
    "row_local_flow_id (cp_flow_rows (prog_per_card p ! ci) ! r) = meta_tx_local_flow_id m"
proof -
  from assms obtain m where m: "find (\<lambda>m. meta_global_flow_id m = gid) (prog_flow_meta p) = Some m"
    by (cases "find (\<lambda>m. meta_global_flow_id m = gid) (prog_flow_meta p)") (simp_all add: find_tx_row_def)
  from assms m have "\<exists>i\<in>set [0..<length (prog_per_card p)].
      (let cp = prog_per_card p ! i in
        if cp_card_id cp \<noteq> meta_tx_card_id m then None
        else map_option (\<lambda>r. (i, r)) (find_idx (\<lambda>row. row_local_flow_id row = meta_tx_local_flow_id m) (cp_flow_rows cp))) = Some (ci, r)"
    unfolding find_tx_row_def by simp (drule first_some_SomeD, simp)
  then show thesis using that [OF m] by (auto simp: Let_def split: if_splits dest: find_idx_Some)
qed

lemma find_idx_map: "find_idx P (map f xs) = find_idx (\<lambda>x. P (f x)) xs"
  by (induction xs) simp_all

lemma find_tx_row_idle: "find_tx_row (idle p) gid = find_tx_row p gid"
proof -
  have "first_some (\<lambda>ci. let cp = prog_per_card (idle p) ! ci in
            if cp_card_id cp \<noteq> c then None
            else map_option (\<lambda>r. (ci, r)) (find_idx (\<lambda>row. row_local_flow_id row = l) (cp_flow_rows cp)))
            [0..<length (prog_per_card p)] =
        first_some (\<lambda>ci. let cp = prog_per_card p ! ci in
            if cp_card_id cp \<noteq> c then None
            else map_option (\<lambda>r. (ci, r)) (find_idx (\<lambda>row. row_local_flow_id row = l) (cp_flow_rows cp)))
            [0..<length (prog_per_card p)]" for c l
    by (rule first_some_cong) (simp add: Let_def find_idx_map)
  then show ?thesis by (simp add: find_tx_row_def cong: option.case_cong)
qed

lemma find_tx_row_same: "idle p = idle q \<Longrightarrow> find_tx_row p gid = find_tx_row q gid"
  by (metis find_tx_row_idle)

lemma set_flow_enable_idle:
  assumes "set_flow_enable p cards gid en persist w = (w', p', s)"
  shows "idle p' = idle p"
proof (cases "find_tx_row p gid")
  case (Some a)
  obtain i r where a: "a = (i, r)" by (cases a)
  from find_tx_row_SomeD [OF Some [unfolded a]] have "i < length (prog_per_card p)"
      and "r < length (cp_flow_rows (prog_per_card p ! i))" by metis+
  from idle_set_row [OF this] assms Some a show ?thesis
    by (auto simp: set_flow_enable_def Let_def split_beta split: if_splits)
qed (use assms in \<open>simp add: set_flow_enable_def\<close>)

section \<open>Staging\<close>

text \<open>The row \<open>r\<close> of card \<open>i\<close>.\<close>

abbreviation prog_row :: "pw_program \<Rightarrow> nat \<Rightarrow> nat \<Rightarrow> pwfpga_flow_config" where
  "prog_row p i r \<equiv> cp_flow_rows (prog_per_card p ! i) ! r"

definition stage_one :: "bool \<Rightarrow> pw_program \<Rightarrow> pw_flow_meta \<Rightarrow> pw_program" where
  "stage_one running p m = (case find_tx_row p (meta_global_flow_id m) of None \<Rightarrow> p
     | Some (ci, r) \<Rightarrow> set_row ci r (run_row running (prog_row p ci r)) p)"

lemma stage_one_idle: "idle (stage_one running p m) = idle p"
proof (cases "find_tx_row p (meta_global_flow_id m)")
  case (Some a)
  obtain i r where a: "a = (i, r)" by (cases a)
  from find_tx_row_SomeD [OF Some [unfolded a]] have "i < length (prog_per_card p)"
      and "r < length (cp_flow_rows (prog_per_card p ! i))" by metis+
  from idle_set_row [OF this] Some a show ?thesis by (simp add: stage_one_def)
qed (simp add: stage_one_def)

lemma stage_one_row:
  assumes "i < length (prog_per_card p)" "r < length (cp_flow_rows (prog_per_card p ! i))"
  shows "prog_row (stage_one running p m) i r =
    (if find_tx_row p (meta_global_flow_id m) = Some (i, r) then run_row running (prog_row p i r) else prog_row p i r)"
proof (cases "find_tx_row p (meta_global_flow_id m)")
  case (Some a)
  obtain ci b where a: "a = (ci, b)" by (cases a)
  show ?thesis using assms Some a by (cases "ci = i") (auto simp: stage_one_def with_row_def nth_list_update)
qed (simp add: stage_one_def)

lemma stage_folded:
  "idle (foldl (stage_one running) p ms) = idle p \<and>
   (\<forall>i r. i < length (prog_per_card p) \<and> r < length (cp_flow_rows (prog_per_card p ! i)) \<longrightarrow>
      prog_row (foldl (stage_one running) p ms) i r =
        (if \<exists>m\<in>set ms. find_tx_row p (meta_global_flow_id m) = Some (i, r) then run_row running (prog_row p i r)
         else prog_row p i r))"
proof (induction ms arbitrary: p)
  case (Cons m ms)
  note e = stage_one_idle [of running p m]
  have f: "find_tx_row (stage_one running p m) g = find_tx_row p g" for g by (rule find_tx_row_same [OF e])
  note L = idle_eq [OF e]
  have rl: "length (cp_flow_rows (prog_per_card (stage_one running p m) ! i)) = length (cp_flow_rows (prog_per_card p ! i))"
    if "i < length (prog_per_card p)" for i
    by (rule idle_card_eq(2) [OF L(3) [OF that]])
  show ?case using Cons.IH [of "stage_one running p m"] e
    by (auto simp: f L(2) rl stage_one_row)
qed simp

lemma stage_flow_run_state_rows:
  shows "idle (stage_flow_run_state p running) = idle p"
    and "i < length (prog_per_card p) \<Longrightarrow> r < length (cp_flow_rows (prog_per_card p ! i)) \<Longrightarrow>
      prog_row (stage_flow_run_state p running) i r =
        (if \<exists>m\<in>set (prog_flow_meta p). find_tx_row p (meta_global_flow_id m) = Some (i, r)
         then run_row running (prog_row p i r) else prog_row p i r)"
proof -
  have e: "stage_flow_run_state p running = foldl (stage_one running) p (prog_flow_meta p)"
    by (simp add: stage_flow_run_state_def stage_one_def [abs_def])
  show "idle (stage_flow_run_state p running) = idle p"
    and "i < length (prog_per_card p) \<Longrightarrow> r < length (cp_flow_rows (prog_per_card p ! i)) \<Longrightarrow>
      prog_row (stage_flow_run_state p running) i r =
        (if \<exists>m\<in>set (prog_flow_meta p). find_tx_row p (meta_global_flow_id m) = Some (i, r)
         then run_row running (prog_row p i r) else prog_row p i r)"
    unfolding e using stage_folded by blast+
qed

section \<open>Every transmit row has an owner\<close>

text \<open>A row that transmits is the transmit row of one of the first \<open>k\<close> flows.\<close>

definition tx_owned :: "nat \<Rightarrow> pw_program \<Rightarrow> bool" where
  "tx_owned k p \<longleftrightarrow>
     (\<forall>cp\<in>set (prog_per_card p). \<forall>r < length (cp_flow_rows cp). row_tx_enable (cp_flow_rows cp ! r) \<noteq> 0 \<longrightarrow>
        (\<exists>j < k. meta_tx_card_id (prog_flow_meta p ! j) = cp_card_id cp \<and>
                 meta_tx_local_flow_id (prog_flow_meta p ! j) = of_nat r))"

lemma tx_owned_mono: "tx_owned k p \<Longrightarrow> k \<le> l \<Longrightarrow> tx_owned l p"
  unfolding tx_owned_def by (meson order_less_le_trans)

lemma compile_rx_card: "compile_rx f tr rx same rlf cp = Inr cp' \<Longrightarrow> cp_card_id cp' = cp_card_id cp"
  by (auto simp: compile_rx_def compile_header_classify_def append_hash_entry_def append_flow_def append_map_def
      Let_def split: if_splits)

lemma compile_one_flow_owned:
  assumes ok: "compile_one_flow cfg p (n, f) = Inr p'" and inv: "tx_owned n p" and n: "n < length (prog_flow_meta p)"
  shows "tx_owned (Suc n) p'"
proof (rule compile_one_flow_cases [OF ok refl])
  let ?cs = "prog_per_card p"
  fix tx rx ti ri tlf rlf same
  assume i: "card_slot p (ref_card_id tx) = Some ti" "card_slot p (ref_card_id rx) = Some ri"
    and tlf: "tlf = of_nat (length (cp_flow_rows (?cs ! ti)))"
    and meta: "prog_flow_meta p' = (prog_flow_meta p)[n := flow_meta_of f tx rx tlf rlf]"
    and fin: "if flow_background f then prog_per_card p' = with_tx_row ?cs ti f tx same tlf
      else \<exists>cp'. compile_rx f (tx_row f tx same tlf) rx same rlf (with_tx_row ?cs ti f tx same tlf ! ri) = Inr cp' \<and>
                 prog_per_card p' = (with_tx_row ?cs ti f tx same tlf)[ri := cp']"
  let ?cs1 = "with_tx_row ?cs ti f tx same tlf"
  define own where "own = (\<lambda>cs :: pw_card_program list. \<forall>cp\<in>set cs. \<forall>r < length (cp_flow_rows cp). row_tx_enable (cp_flow_rows cp ! r) \<noteq> 0 \<longrightarrow>
        (\<exists>j < Suc n. meta_tx_card_id (prog_flow_meta p' ! j) = cp_card_id cp \<and>
                     meta_tx_local_flow_id (prog_flow_meta p' ! j) = of_nat r))"
  have old: "prog_flow_meta p' ! j = prog_flow_meta p ! j" if "j < n" for j using that by (simp add: meta)
  have new: "prog_flow_meta p' ! n = flow_meta_of f tx rx tlf rlf" using n by (simp add: meta)
  have o0: "own ?cs" using inv old unfolding own_def tx_owned_def by (metis less_SucI)
  have mem: "own [x]" if "own cs" "x \<in> set cs" for cs x using that by (simp add: own_def)
  have upd: "own (cs[i := x])" if "own cs" "own [x]" for cs i x
    unfolding own_def
  proof
    fix cp
    assume "cp \<in> set (cs[i := x])"
    then have "cp = x \<or> cp \<in> set cs" using set_update_subset_insert [of cs i x] by blast
    with that mem have "own [cp]" by auto
    then show "\<forall>r < length (cp_flow_rows cp). row_tx_enable (cp_flow_rows cp ! r) \<noteq> 0 \<longrightarrow>
        (\<exists>j < Suc n. meta_tx_card_id (prog_flow_meta p' ! j) = cp_card_id cp \<and>
                     meta_tx_local_flow_id (prog_flow_meta p' ! j) = of_nat r)" by (simp add: own_def)
  qed
  have "own [?cs ! ti]" by (rule mem [OF o0]) (use card_slot_SomeD [OF i(1)] in simp)
  then have "own [append_flow (?cs ! ti) (tx_row f tx same tlf)]"
    using card_slot_SomeD [OF i(1)] new tlf
    by (auto simp: own_def append_flow_def nth_append flow_meta_of_def less_Suc_eq split: if_splits)
  then have o1: "own ?cs1" unfolding with_tx_row_def by (rule upd [OF o0])
  have own1: "own [?cs1 ! ri]" by (rule mem [OF o1]) (use card_slot_SomeD [OF i(2)] in \<open>simp add: with_tx_row_def\<close>)
  have o2: "own [cp']" if "compile_rx f (tx_row f tx same tlf) rx same rlf (?cs1 ! ri) = Inr cp'" for cp'
    using own1 compile_rx_rows [OF that] card_slot_SomeD [OF i(2)] compile_rx_card [OF that]
    by (auto simp: own_def nth_append with_tx_row_def split: if_splits)
  have "own (prog_per_card p')"
  proof (cases "flow_background f")
    case False
    with fin obtain cp' where "prog_per_card p' = ?cs1[ri := cp']" "own [cp']" using o2 by auto
    with upd [OF o1] show ?thesis by simp
  qed (use fin o1 in simp)
  then show ?thesis by (simp add: own_def tx_owned_def)
qed

lemma compile_flows_owned:
  assumes ok: "compile_flows cfg = Inr p"
  shows "tx_owned (length (cfg_flows cfg)) p"
proof -
  let ?fs = "zip [0..<length (cfg_flows cfg)] (cfg_flows cfg)"
  have "tx_owned k q \<and> length (prog_flow_meta q) = length (cfg_flows cfg)" if "k \<le> length (cfg_flows cfg)"
      "fold_res (compile_one_flow cfg) (init_program cfg) (take k ?fs) = Inr q" for k q
    using that
  proof (induction k arbitrary: q)
    case 0
    then show ?case by (auto simp: tx_owned_def init_program_def empty_card_program_def)
  next
    case (Suc k)
    have "take (Suc k) ?fs = take k ?fs @ [(k, cfg_flows cfg ! k)]"
      using Suc.prems(1) by (simp add: take_Suc_conv_app_nth)
    with Suc.prems(2) obtain q' where
      q': "fold_res (compile_one_flow cfg) (init_program cfg) (take k ?fs) = Inr q'"
      "compile_one_flow cfg q' (k, cfg_flows cfg ! k) = Inr q"
      by (auto simp: fold_res_append rbind_eq_Inr)
    with Suc have I: "tx_owned k q'" "length (prog_flow_meta q') = length (cfg_flows cfg)" by simp_all
    have "length (prog_flow_meta q) = length (prog_flow_meta q')"
      by (rule compile_one_flow_cases [OF q'(2) refl]) simp
    with I compile_one_flow_owned [OF q'(2) I(1)] Suc.prems(1) show ?case by simp
  qed
  from this [of "length (cfg_flows cfg)" p] ok show ?thesis by (simp add: compile_flows_def)
qed

lemma tx_owned_view: "rows_view p = rows_view q \<Longrightarrow> tx_owned k p \<longleftrightarrow> tx_owned k q"
proof -
  have "tx_owned k p \<longleftrightarrow> (\<forall>(cid, rows)\<in>set (fst (rows_view p)). \<forall>r < length rows. row_tx_enable (rows ! r) \<noteq> 0 \<longrightarrow>
        (\<exists>j < k. meta_tx_card_id (snd (rows_view p) ! j) = cid \<and> meta_tx_local_flow_id (snd (rows_view p) ! j) = of_nat r))" for p
    by (simp add: tx_owned_def rows_view_def)
  then show "rows_view p = rows_view q \<Longrightarrow> ?thesis" by simp
qed

lemma compiled_tx_owned:
  assumes c: "pw_flow_compile (Some cfg) = Inr p"
  shows "tx_owned (length (cfg_flows cfg)) p"
proof -
  from pw_flow_compile_phases [OF c] obtain p1 p2 p3 where
    P: "compile_flows cfg = Inr p1" "compile_punt_rules cfg p1 = Inr p2" "compile_forward_rules cfg p2 = Inr p3"
    "map_res (hash_place_card cfg) (prog_per_card p3) = Inr (prog_per_card p)" "prog_flow_meta p = prog_flow_meta p3"
    and inv: "prog_inv cfg (length (cfg_flows cfg)) p1" .
  from compile_flows_owned [OF P(1)] tx_owned_view [OF compile_rules_view [OF P(2,3) inv]]
    tx_owned_view [OF hash_place_view [OF P(4,5)]] show ?thesis by simp
qed

section \<open>The transmit row of a flow\<close>

lemma compiled_meta:
  assumes c: "pw_flow_compile (Some cfg) = Inr p" and j: "j < length (cfg_flows cfg)"
  shows "meta_global_flow_id (prog_flow_meta p ! j) = flow_id (cfg_flows cfg ! j)"
    "find (\<lambda>m. meta_global_flow_id m = flow_id (cfg_flows cfg ! j)) (prog_flow_meta p) = Some (prog_flow_meta p ! j)"
proof -
  note ok = pw_flow_compile_ok [OF c]
  have g: "meta_global_flow_id (prog_flow_meta p ! k) = flow_id (cfg_flows cfg ! k)" if "k < length (cfg_flows cfg)" for k
    using ok(5) [OF that] unfolding flow_placed_def
    by (elim exE conjE) (erule ssubst [where P = "\<lambda>m. meta_global_flow_id m = _"], simp add: flow_meta_of_def)
  have d: "distinct (map flow_id (cfg_flows cfg))" using ok(1) by (simp add: valid_config_def)
  show "meta_global_flow_id (prog_flow_meta p ! j) = flow_id (cfg_flows cfg ! j)" by (rule g [OF j])
  have u: "k = j" if "k < length (cfg_flows cfg)" "flow_id (cfg_flows cfg ! k) = flow_id (cfg_flows cfg ! j)" for k
    using d that j nth_eq_iff_index_eq [of "map flow_id (cfg_flows cfg)" k j] by simp
  show "find (\<lambda>m. meta_global_flow_id m = flow_id (cfg_flows cfg ! j)) (prog_flow_meta p) = Some (prog_flow_meta p ! j)"
    unfolding find_Some_iff using g j u ok(3) by (intro exI [of _ j]) (auto, metis less_trans less_irrefl)
qed

lemma compiled_find_tx_row:
  assumes c: "pw_flow_compile (Some cfg) = Inr p" and j: "j < length (cfg_flows cfg)"
    and i: "i < length (prog_per_card p)" "cp_card_id (prog_per_card p ! i) = meta_tx_card_id (prog_flow_meta p ! j)"
  shows "find_tx_row p (flow_id (cfg_flows cfg ! j)) = Some (i, unat (meta_tx_local_flow_id (prog_flow_meta p ! j)))"
    and "unat (meta_tx_local_flow_id (prog_flow_meta p ! j)) < length (cp_flow_rows (prog_per_card p ! i))"
proof -
  let ?m = "prog_flow_meta p ! j" and ?cp = "prog_per_card p ! i"
  note ok = pw_flow_compile_ok [OF c] and F = compiled_meta(2) [OF c j]
  have d: "distinct (map cp_card_id (prog_per_card p))" using ok(1,2) by (simp add: valid_config_def valid_cards_def)
  have wf: "row_local_flow_id (cp_flow_rows ?cp ! k) = of_nat k" "k \<le> PWFPGA_FLOW_TABLE_ROWS" if "k < length (cp_flow_rows ?cp)" for k
    using ok(4) [of ?cp] that i(1) by (auto simp: card_wf_def)
  obtain tc where tc: "tc \<in> set (prog_per_card p)" "cp_card_id tc = meta_tx_card_id ?m"
    "unat (meta_tx_local_flow_id ?m) < length (cp_flow_rows tc)"
    by (rule placed_row_id [OF ok(5) [OF j]]) auto
  have "tc = ?cp" by (rule compiled_card_unique [OF c tc(1)]) (use i tc(2) in simp_all)
  with tc show r: "unat (meta_tx_local_flow_id ?m) < length (cp_flow_rows ?cp)" by simp
  have hit: "\<exists>row\<in>set (cp_flow_rows ?cp). row_local_flow_id row = meta_tx_local_flow_id ?m"
    using wf(1) [OF r] nth_mem [OF r] by auto
  have "find_idx (\<lambda>row. row_local_flow_id row = meta_tx_local_flow_id ?m) (cp_flow_rows ?cp) \<noteq> None"
    using hit by (simp add: find_idx_None)
  then have "find_tx_row p (flow_id (cfg_flows cfg ! j)) \<noteq> None"
    unfolding find_tx_row_def F using i by (auto simp: first_some_None Let_def intro!: bexI [of _ i])
  then obtain a b where f: "find_tx_row p (flow_id (cfg_flows cfg ! j)) = Some (a, b)" by auto
  from find_tx_row_SomeD [OF f] F have a: "a < length (prog_per_card p)" "cp_card_id (prog_per_card p ! a) = meta_tx_card_id ?m"
    and b: "b < length (cp_flow_rows (prog_per_card p ! a))"
      "row_local_flow_id (cp_flow_rows (prog_per_card p ! a) ! b) = meta_tx_local_flow_id ?m" by (metis option.inject)+
  have "a = i" using d a i nth_eq_iff_index_eq [of "map cp_card_id (prog_per_card p)" a i] by simp
  moreover from this b wf [of b] have "b = unat (meta_tx_local_flow_id ?m)" by (metis small_lfid)
  ultimately show "find_tx_row p (flow_id (cfg_flows cfg ! j)) = Some (i, unat (meta_tx_local_flow_id ?m))" using f by simp
qed

text \<open>Staged idle, no row of the program transmits.\<close>

definition silent :: "pw_program \<Rightarrow> bool" where
  "silent p \<longleftrightarrow> (\<forall>cp\<in>set (prog_per_card p). \<forall>row\<in>set (cp_flow_rows cp). row_tx_enable row = 0)"

lemma staged_silent:
  assumes c: "pw_flow_compile (Some cfg) = Inr p"
  shows "silent (stage_flow_run_state p False)"
  unfolding silent_def
proof (intro ballI)
  let ?q = "stage_flow_run_state p False"
  fix cp row
  assume "cp \<in> set (prog_per_card ?q)" "row \<in> set (cp_flow_rows cp)"
  then obtain i r where i: "i < length (prog_per_card ?q)" "r < length (cp_flow_rows (prog_per_card ?q ! i))" "row = prog_row ?q i r"
    by (metis in_set_conv_nth)
  note S = stage_flow_run_state_rows [where p = p and running = False]
  have ip: "i < length (prog_per_card p)" "r < length (cp_flow_rows (prog_per_card p ! i))"
    using i idle_eq [OF S(1)] idle_card_eq(2) [OF idle_eq(3) [OF S(1)]] by simp_all
  show "row_tx_enable row = 0"
  proof (cases "row_tx_enable (prog_row p i r) = 0")
    case False
    with compiled_tx_owned [OF c] ip obtain j where j: "j < length (cfg_flows cfg)"
      "meta_tx_card_id (prog_flow_meta p ! j) = cp_card_id (prog_per_card p ! i)" "meta_tx_local_flow_id (prog_flow_meta p ! j) = of_nat r"
      unfolding tx_owned_def by (meson nth_mem)
    have r: "unat (of_nat r :: u32) = r"
      using pw_flow_compile_ok(4) [OF c nth_mem [OF ip(1)]] ip(2) by (intro small_lfid) (simp add: card_wf_def)
    have "find_tx_row p (flow_id (cfg_flows cfg ! j)) = Some (i, r)"
      using compiled_find_tx_row(1) [OF c j(1) ip(1)] j(2,3) r by simp
    moreover have "prog_flow_meta p ! j \<in> set (prog_flow_meta p)" using j(1) pw_flow_compile_ok(3) [OF c] by simp
    ultimately show ?thesis using S(2) [OF ip] i(3) compiled_meta(1) [OF c j(1)] by auto
  qed (use S(2) [OF ip] i(3) in simp)
qed

text \<open>Different flows have different transmit rows, and starting or stopping one leaves the others.\<close>

lemma run_flow_enabled:
  assumes c: "pw_flow_compile (Some cfg) = Inr p" and q: "idle q = idle p"
    and j: "j < length (cfg_flows cfg)" "k < length (cfg_flows cfg)"
    and run: "set_flow_enable q cards (flow_id (cfg_flows cfg ! j)) en True w = (w', q', PW_OK)"
  shows "flow_enabled q' (flow_id (cfg_flows cfg ! k)) = (if k = j then en else flow_enabled q (flow_id (cfg_flows cfg ! k)))"
proof -
  note ok = pw_flow_compile_ok [OF c]
  have card: "\<exists>i < length (prog_per_card p). cp_card_id (prog_per_card p ! i) = meta_tx_card_id (prog_flow_meta p ! l)"
    if "l < length (cfg_flows cfg)" for l
    by (rule placed_row_id [OF ok(5) [OF that]]) (metis in_set_conv_nth)
  define at where "at = (\<lambda>l. unat (meta_tx_local_flow_id (prog_flow_meta p ! l)))"
  from card [OF j(1)] obtain a where a: "a < length (prog_per_card p)"
    "cp_card_id (prog_per_card p ! a) = meta_tx_card_id (prog_flow_meta p ! j)" by blast
  from card [OF j(2)] obtain b where b: "b < length (prog_per_card p)"
    "cp_card_id (prog_per_card p ! b) = meta_tx_card_id (prog_flow_meta p ! k)" by blast
  note A = compiled_find_tx_row [OF c j(1) a] and B = compiled_find_tx_row [OF c j(2) b]
  have fq: "find_tx_row q g = find_tx_row p g" "find_tx_row q' g = find_tx_row p g" for g
    using find_tx_row_same q set_flow_enable_idle [OF run] by metis+
  have ne: "(a, at j) \<noteq> (b, at k)" if "k \<noteq> j"
    using compiled_slots_exclusive(1) [OF c j(2) j(1) that] a b by (auto simp: at_def)
  have L: "a < length (prog_per_card q)" "at j < length (cp_flow_rows (prog_per_card q ! a))"
    using a idle_eq [OF q] A(2) idle_card_eq(2) [OF idle_eq(3) [OF q a(1)]] by (simp_all add: at_def)
  have q': "q' = set_row a (at j) (run_row en (prog_row q a (at j))) q"
    using run A(1) fq by (auto simp: set_flow_enable_def Let_def at_def split_beta split: if_splits)
  have "prog_row q' b (at k) = (if k = j then run_row en (prog_row q a (at j)) else prog_row q b (at k))"
  proof (cases "k = j")
    case True
    have "b = a" using A(1) B(1) True by simp
    then show ?thesis using L True by (simp add: q' with_row_def)
  next
    case False
    show ?thesis using L ne [OF False] False by (cases "a = b") (auto simp: q' with_row_def)
  qed
  then show ?thesis using A(1) B(1) by (auto simp: flow_enabled_def fq at_def)
qed

section \<open>Requests that keep the configuration\<close>

definition same_run :: "'w daemon \<Rightarrow> 'w daemon \<Rightarrow> bool" where
  "same_run d d' \<longleftrightarrow> dm_cfg d' = dm_cfg d \<and> idle (dm_prog d') = idle (dm_prog d)"

lemma same_run_world [simp]: "same_run d (d'\<lparr>dm_world := w\<rparr>) = same_run d d'"
  by (simp add: same_run_def)

lemma same_run_refl [simp]: "same_run d d"
  by (simp add: same_run_def)

lemma same_run_trans: "same_run a b \<Longrightarrow> same_run b c \<Longrightarrow> same_run a c"
  by (simp add: same_run_def)

lemma flow_run_same: "same_run d (fst (flow_run cards en gid d))"
  by (auto simp: same_run_def flow_run_def split: prod.split dest: set_flow_enable_idle)

lemma run_all_same: "same_run d (fst (run_all cards en d))"
proof -
  let ?f = "\<lambda>(d, n) m. case flow_run cards en (meta_global_flow_id m) d of (d', s) \<Rightarrow> (d', count s n)"
  have "same_run (fst st) (fst (foldl ?f st ms))" for st ms
  proof (induction ms arbitrary: st)
    case (Cons m ms)
    have "fst (?f st m) = fst (flow_run cards en (meta_global_flow_id m) (fst st))" by (simp add: split_beta)
    with flow_run_same have "same_run (fst st) (fst (?f st m))" by metis
    from same_run_trans [OF this Cons.IH] show ?case by simp
  qed simp
  from this [of "(d, 0, 0)" "prog_flow_meta (dm_prog d)"] show ?thesis by (simp add: run_all_def)
qed

lemma requests_same_run:
  "same_run d (fst (test_run cal cards en d))" "same_run d (fst (test_arm cal cards d))"
  "same_run d (fst (stats_clear cards d))" "same_run d (fst (warn_servo cards d'')) = same_run d d''"
  "same_run d (servo_tick cal cards d)"
  using run_all_same [of d cards en]
  by (auto simp: test_run_def test_arm_def stats_clear_def warn_servo_def servo_tick_def split_beta)

end
