(* ===== verification/PW_Daemon_Sync.thy ===== *)
theory PW_Daemon_Sync
  imports PW_Daemon_State
begin

text \<open>
  The cards and the daemon's view of them: what the daemon relies on in a backend is the locale \<open>card_plane\<close>,
  inside which the operations of the daemon are shown to keep every open card in step with the staged
  program, or to report that they did not.
\<close>

section \<open>What a program must be\<close>

definition good_card :: "pw_card_program \<Rightarrow> bool" where
  "good_card cp \<longleftrightarrow> program_in_range cp \<and> (\<forall>row\<in>set (cp_flow_rows cp). row_wf row)"

definition good_prog :: "pw_program \<Rightarrow> bool" where
  "good_prog p \<longleftrightarrow> list_all good_card (prog_per_card p)"

text \<open>The registers the daemon writes itself: resets, counters, time synchronisation and corrections.\<close>

definition control_reg :: "u32 \<Rightarrow> bool" where
  "control_reg a \<longleftrightarrow>
     a = PWFPGA_REG_DP_RESET \<or> a = PWFPGA_REG_STATS_CLEAR \<or> a = PWFPGA_REG_GPIO_SYNC_CTRL \<or>
     (\<exists>slot < PWFPGA_FLOW_TABLE_ROWS. a = correction_base slot \<or> a = correction_base slot + 4)"

lemma run_row_wf [simp]: "row_wf (run_row on row) = row_wf row"
  by (simp add: row_wf_def run_row_def)

lemma with_row_good: "good_card cp \<Longrightarrow> row_wf row \<Longrightarrow> good_card (with_row r row cp)"
  by (auto simp: good_card_def with_row_def program_in_range_def dest: set_update_subset_insert [THEN subsetD])

lemma good_idle_card: "good_card (idle_card cp) = good_card cp"
  by (simp add: good_card_def program_in_range_def)

lemma good_prog_same: "idle p = idle q \<Longrightarrow> good_prog p = good_prog q"
proof -
  have "good_prog p = good_prog (idle p)" for p by (simp add: good_prog_def list.pred_map comp_def good_idle_card)
  then show "idle p = idle q \<Longrightarrow> ?thesis" by metis
qed

lemma compiled_good:
  "pw_flow_compile (Some cfg) = Inr p \<Longrightarrow> \<forall>f\<in>set (cfg_flows cfg). flow_arrays f \<Longrightarrow> good_prog p"
  by (simp add: good_prog_def good_card_def list_all_iff compiled_in_range(1) compiled_rows_wf)

section \<open>What a load prepares\<close>

lemma flow_ok_arrays:
  assumes "flow_ok f"
  shows "flow_arrays f"
proof -
  have "length (v6_src b) = 16 \<and> length (v6_dst b) = 16" if "endpoint_ok a b" for a b
    using that by (auto simp: endpoint_ok_def zero_ipv6_def split: if_splits)
  moreover have "length (enc_inner_src_mac e) = 6 \<and> length (enc_inner_dst_mac e) = 6 \<and>
      (enc_present e \<longrightarrow> endpoint_ok (enc_outer_ipv4 e) (enc_outer_ipv6 e)) \<and> (\<not> enc_present e \<longrightarrow> e = zero_encap)"
    if "encap_ok e" for e
    using that by (auto simp: encap_ok_def zero_encap_def split: if_splits)
  ultimately show ?thesis
    using assms unfolding flow_ok_def l2_ok_def flow_arrays_def
    by (cases "enc_present (flow_encap f)") (fastforce simp: zero_encap_def zero_ipv6_def)+
qed

text \<open>The environment of a configuration: all but its flows and forwards.\<close>

definition same_env :: "pw_config \<Rightarrow> pw_config \<Rightarrow> bool" where
  "same_env a b \<longleftrightarrow> cfg_system a = cfg_system b \<and> cfg_cards a = cfg_cards b \<and> cfg_logical_if a = cfg_logical_if b"

lemma parse_root_flows:
  "parse_root n test_only cfg = Inr c \<Longrightarrow> cfg_flows cfg = [] \<Longrightarrow> list_all flow_ok (cfg_flows c)"
  by (auto simp: parse_root_def rbind_eq_Inr Let_def dest!: parse_list_ok [OF _ _ parse_flow_ok])

lemma prepare_load_ok:
  assumes "prepare_load libyaml cfg y = Inr (new, q)"
  obtains p where "pw_flow_compile (Some new) = Inr p" "q = stage_flow_run_state p False" "same_env new cfg"
    "\<forall>f\<in>set (cfg_flows new). flow_arrays f"
proof -
  from assms obtain yaml payload where y: "y = Some yaml"
    and pl: "pw_config_parse_string_ex libyaml (Some yaml) True (Some pw_config_new) = Inr payload"
    by (auto simp: prepare_load_def split: option.splits sum.splits)
  let ?new = "(the (pw_config_clone_env (Some cfg)))\<lparr>cfg_flows := cfg_flows payload, cfg_forwards := cfg_forwards payload\<rparr>"
  from assms y pl obtain p where p: "pw_flow_compile (Some ?new) = Inr p" "new = ?new" "q = stage_flow_run_state p False"
    by (auto simp: prepare_load_def Let_def split: sum.splits if_splits)
  have "list_all flow_ok (cfg_flows payload)"
    using pl parse_root_flows by (auto simp: pw_config_parse_string_ex_def config_new_lists split: sum.splits)
  then have "\<forall>f\<in>set (cfg_flows new). flow_arrays f" using flow_ok_arrays by (simp add: p(2) list_all_iff)
  with p show thesis by (intro that [of p]) (auto simp: same_env_def pw_config_clone_env_def)
qed

text \<open>The running program is the running configuration's, up to the run state.\<close>

definition compiled_state :: "'w daemon \<Rightarrow> bool" where
  "compiled_state d \<longleftrightarrow> (\<forall>f\<in>set (cfg_flows (dm_cfg d)). flow_arrays f) \<and>
     (\<exists>p. pw_flow_compile (Some (dm_cfg d)) = Inr p \<and> idle (dm_prog d) = idle p)"

lemma compiled_state_good: "compiled_state d \<Longrightarrow> good_prog (dm_prog d)"
  unfolding compiled_state_def using compiled_good good_prog_same by blast

lemma compiled_state_same:
  "compiled_state d \<Longrightarrow> dm_cfg d' = dm_cfg d \<Longrightarrow> idle (dm_prog d') = idle (dm_prog d) \<Longrightarrow> compiled_state d'"
  unfolding compiled_state_def by metis

section \<open>The contract of a backend\<close>

text \<open>
  The state \<open>w\<close> of the hardware holds program \<open>cp\<close> on card \<open>i\<close>, for open cards. Programming a card either succeeds
  and establishes that, or fails; control writes and reads do not disturb it; a row that was written
  and committed replaces the row of the program; no card disturbs another.
\<close>

locale card_plane =
  fixes cards :: "'w card_runtime list" and live :: "'w \<Rightarrow> bool" and holds :: "'w \<Rightarrow> nat \<Rightarrow> pw_card_program \<Rightarrow> bool"
  assumes prog: "live w \<Longrightarrow> card_open cards i \<Longrightarrow> good_card cp \<Longrightarrow>
      pw_program_card_tables_diag (Some (cr_ops (cards ! i))) w (Some cp) = (w', s) \<Longrightarrow>
      live w' \<and> (s = PW_OK \<longrightarrow> holds w' i cp) \<and> (\<forall>j. j \<noteq> i \<longrightarrow> holds w' j = holds w j)"
    and ctl: "live w \<Longrightarrow> card_open cards i \<Longrightarrow> op_write32 (cr_ops (cards ! i)) = Some w32 \<Longrightarrow> control_reg a \<Longrightarrow>
      live (fst (w32 w a v)) \<and> holds (fst (w32 w a v)) = holds w"
    and rd: "live w \<Longrightarrow> card_open cards i \<Longrightarrow> cr_read32 (cards ! i) = Some rd32 \<Longrightarrow>
      live (fst (rd32 w a)) \<and> holds (fst (rd32 w a)) = holds w"
    and row: "live w \<Longrightarrow> card_open cards i \<Longrightarrow> good_card cp \<Longrightarrow> r < length (cp_flow_rows cp) \<Longrightarrow> row_wf f \<Longrightarrow>
      op_flow_write (cr_ops (cards ! i)) = Some fw \<Longrightarrow> fw w (of_nat r) (Some f) = (w1, s1) \<Longrightarrow>
      if s1 = PW_OK then \<exists>fc. op_flow_commit (cr_ops (cards ! i)) = Some fc \<and> snd (fc w1) = PW_OK \<and> live (fst (fc w1)) \<and>
        (holds w i cp \<longrightarrow> holds (fst (fc w1)) i (with_row r f cp)) \<and> (\<forall>j. j \<noteq> i \<longrightarrow> holds (fst (fc w1)) j = holds w j)
      else live w1 \<and> holds w1 = holds w"
begin

text \<open>Control writes and reads, wherever they come from.\<close>

lemma wr_keeps:
  assumes "live w" "card_open cards i" "control_reg a"
  shows "live (wr (op_write32 (cr_ops (cards ! i))) w a v)" "holds (wr (op_write32 (cr_ops (cards ! i))) w a v) = holds w"
  using ctl [OF assms(1,2) _ assms(3)] assms(1) by (auto simp: wr_def split: option.split)

lemma sync_keeps:
  assumes "live w" "card_open cards i"
  shows "live (pw_gpio_sync_disable (op_write32 (cr_ops (cards ! i))) w)"
    "live (pw_gpio_sync_master (op_write32 (cr_ops (cards ! i))) w a b)"
    "live (pw_gpio_sync_slave (op_write32 (cr_ops (cards ! i))) w a)"
    "holds (pw_gpio_sync_disable (op_write32 (cr_ops (cards ! i))) w) = holds w"
    "holds (pw_gpio_sync_master (op_write32 (cr_ops (cards ! i))) w a b) = holds w"
    "holds (pw_gpio_sync_slave (op_write32 (cr_ops (cards ! i))) w a) = holds w"
  using wr_keeps [OF assms] by (simp_all add: pw_gpio_sync_disable_def pw_gpio_sync_master_def pw_gpio_sync_slave_def control_reg_def)

lemma correction_keeps:
  assumes "live w" "card_open cards i"
  shows "live (pw_gpio_sync_write_correction (op_write32 (cr_ops (cards ! i))) w slot v)"
    "holds (pw_gpio_sync_write_correction (op_write32 (cr_ops (cards ! i))) w slot v) = holds w"
proof -
  have c: "control_reg (correction_base slot)" "control_reg (correction_base slot + 4)" if "slot < PWFPGA_FLOW_TABLE_ROWS"
    using that by (auto simp: control_reg_def)
  show "live (pw_gpio_sync_write_correction (op_write32 (cr_ops (cards ! i))) w slot v)"
    "holds (pw_gpio_sync_write_correction (op_write32 (cr_ops (cards ! i))) w slot v) = holds w"
    using assms(1) wr_keeps [OF assms c(1)] wr_keeps [OF wr_keeps(1) [OF assms c(1)] assms(2) c(2)]
    by (auto simp: pw_gpio_sync_write_correction_def Let_def not_le)
qed

lemma reader_keeps:
  assumes "live w" "card_open cards i" "card_reader (cards ! i) = Some rd32"
  shows "live (fst (rd32 w a)) \<and> holds (fst (rd32 w a)) = holds w"
proof -
  from assms(3) obtain r where r: "cr_read32 (cards ! i) = Some r"
    and e: "rd32 = (\<lambda>w a. case r w a of (w', Inr v) \<Rightarrow> (w', v) | (w', Inl _) \<Rightarrow> (w', 0))"
    by (auto simp: card_reader_def)
  have "fst (rd32 w a) = fst (r w a)" unfolding e by (auto split: prod.split sum.split)
  with rd [OF assms(1,2) r] show ?thesis by simp
qed

text \<open>A step that disturbs no card.\<close>

definition kept :: "'w \<Rightarrow> 'w \<Rightarrow> bool" where
  "kept w w' \<longleftrightarrow> live w' \<and> holds w' = holds w"

lemma kept_refl: "live w \<Longrightarrow> kept w w"
  by (simp add: kept_def)

lemma kept_trans: "kept w w1 \<Longrightarrow> kept w1 w2 \<Longrightarrow> kept w w2"
  by (simp add: kept_def)

lemma kept_live: "kept w w' \<Longrightarrow> live w'"
  by (simp add: kept_def)

lemma kept_foldl:
  assumes "\<And>w x. x \<in> set xs \<Longrightarrow> live w \<Longrightarrow> kept w (f w x)" and "live w"
  shows "kept w (foldl f w xs)"
  using assms
proof (induction xs arbitrary: w)
  case (Cons x xs)
  have "kept w (f w x)" using Cons.prems by simp
  moreover from this have "kept (f w x) (foldl f (f w x) xs)" using Cons.prems(1) by (intro Cons.IH) (auto simp: kept_def)
  ultimately show ?case by (auto intro: kept_trans)
qed (simp add: kept_refl)

lemma kept_control:
  assumes "live w" "card_open cards i"
  shows "kept w (pw_gpio_sync_disable (op_write32 (cr_ops (cards ! i))) w)"
    "kept w (pw_gpio_sync_master (op_write32 (cr_ops (cards ! i))) w a b)"
    "kept w (pw_gpio_sync_slave (op_write32 (cr_ops (cards ! i))) w a)"
    "kept w (pw_gpio_sync_write_correction (op_write32 (cr_ops (cards ! i))) w slot v)"
    "kept w (fst (clear_stats (cards ! i) w))"
proof -
  have c: "control_reg PWFPGA_REG_STATS_CLEAR" by (simp add: control_reg_def)
  show "kept w (fst (clear_stats (cards ! i) w))"
    using assms(1) ctl [OF assms _ c] by (auto simp: kept_def clear_stats_def split: option.split)
qed (use sync_keeps [OF assms] correction_keeps [OF assms] in \<open>simp_all add: kept_def\<close>)

lemma kept_try:
  assumes "live w" "card_open cards i" "card_open cards j" "card_reader (cards ! i) = Some tx" "card_reader (cards ! j) = Some rx"
  shows "kept w (fst (coherent_try tx rx w))"
proof -
  have t: "kept w (fst (tx w a))" if "live w" for w a using reader_keeps [OF that assms(2,4)] by (simp add: kept_def)
  have r: "kept w (fst (rx w a))" if "live w" for w a using reader_keeps [OF that assms(3,5)] by (simp add: kept_def)
  have ts: "kept w (fst (pw_gpio_sync_ts (Some q) w))" if "live w" "q = tx \<or> q = rx" for w q
    using that t r by (auto simp: pw_gpio_sync_ts_def Let_def split_beta) (metis kept_def kept_trans)+
  define w1 where "w1 = fst (tx w PWFPGA_REG_GPIO_SYNC_SEQ)"
  define w2 where "w2 = fst (rx w1 PWFPGA_REG_GPIO_SYNC_SEQ)"
  define w3 where "w3 = fst (pw_gpio_sync_ts (Some tx) w2)"
  define w4 where "w4 = fst (pw_gpio_sync_ts (Some rx) w3)"
  define w5 where "w5 = fst (tx w4 PWFPGA_REG_GPIO_SYNC_SEQ)"
  have k: "kept w w1" using t [OF assms(1)] by (simp add: w1_def)
  have k2: "kept w w2" using r [of w1 PWFPGA_REG_GPIO_SYNC_SEQ] k by (simp add: w2_def kept_def)
  have k3: "kept w w3" using ts [of w2 tx] k2 by (simp add: w3_def kept_def)
  have k4: "kept w w4" using ts [of w3 rx] k3 by (simp add: w4_def kept_def)
  have k5: "kept w w5" using t [of w4 PWFPGA_REG_GPIO_SYNC_SEQ] k4 by (simp add: w5_def kept_def)
  have "fst (coherent_try tx rx w) = fst (rx w5 PWFPGA_REG_GPIO_SYNC_SEQ)"
    by (simp add: coherent_try_def Let_def split_beta w1_def w2_def w3_def w4_def w5_def)
  with r [of w5 PWFPGA_REG_GPIO_SYNC_SEQ] k5 show ?thesis by (simp add: kept_def)
qed

lemma kept_tries:
  assumes "card_open cards i" "card_open cards j" "card_reader (cards ! i) = Some tx" "card_reader (cards ! j) = Some rx"
  shows "live w \<Longrightarrow> kept w (fst (coherent_tries tx rx n w))"
proof (induction n arbitrary: w)
  case (Suc n)
  have "kept w (fst (coherent_try tx rx w))" by (rule kept_try [OF Suc.prems assms])
  with Suc.IH [of "fst (coherent_try tx rx w)"] show ?case
    by (auto simp: kept_def split: prod.splits option.splits)
qed (simp add: kept_refl)

lemma kept_offset: "live w \<Longrightarrow> card_open cards i \<Longrightarrow> card_open cards j \<Longrightarrow> kept w (fst (offset_of cards i j w))"
  unfolding offset_of_def pw_gpio_sync_offset_coherent_def
  by (auto simp: kept_refl kept_tries split: option.split)

lemma open_pair_open: "open_pair cfg cards m = Some (rx, tx) \<Longrightarrow> card_open cards rx \<and> card_open cards tx"
  by (auto simp: open_pair_def split: option.splits if_splits)

lemma kept_correct: "live w \<Longrightarrow> card_open cards rx \<Longrightarrow> kept w (correct cal cards m rx corr w)"
  unfolding correct_def by (rule kept_control(4))

lemma kept_setup: "live w \<Longrightarrow> kept w (setup_gpio_sync cfg p cards w)"
  unfolding setup_gpio_sync_def Let_def
  by (auto split: option.split simp: kept_refl kept_control intro!: kept_foldl)

lemma kept_corrected:
  assumes "live w" "card_open cards tx" "card_open cards rx"
  shows "kept w (case offset_of cards tx rx w of (w', None) \<Rightarrow> w' | (w', Some corr) \<Rightarrow> correct cal cards m rx corr w')"
proof -
  have o: "kept w (fst (offset_of cards tx rx w))" by (rule kept_offset [OF assms])
  then have "kept (fst (offset_of cards tx rx w)) (correct cal cards m rx corr (fst (offset_of cards tx rx w)))" for corr
    using kept_correct assms(3) by (simp add: kept_def)
  with o show ?thesis by (auto split: prod.split option.split intro: kept_trans)
qed

lemma kept_servo: "live w \<Longrightarrow> kept w (servo_lat_correction cal cfg p cards w)"
  unfolding servo_lat_correction_def
  by (rule kept_foldl) (auto simp: kept_refl kept_corrected split: option.split dest: open_pair_open)

lemma kept_converged_from: "live w \<Longrightarrow> kept w (fst (converged_from cfg cards ms w))"
proof (induction ms arbitrary: w)
  case (Cons m ms)
  show ?case
  proof (cases "open_pair cfg cards m")
    case (Some a)
    obtain rx tx where a: "a = (rx, tx)" by (cases a)
    have k: "kept w (fst (offset_of cards tx rx w))"
      using open_pair_open [OF Some [unfolded a]] by (intro kept_offset [OF Cons.prems]) auto
    from kept_trans [OF k Cons.IH [OF kept_live [OF k]]] k Cons.IH [OF Cons.prems] Some a show ?thesis
      by (auto split: prod.split option.split)
  qed (use Cons in auto)
qed (simp add: kept_refl)

lemma kept_converged: "live w \<Longrightarrow> kept w (fst (servo_converged cfg p cards w))"
  unfolding servo_converged_def by (rule kept_converged_from)

lemma kept_tried:
  assumes "card_open cards tx" "card_open cards rx"
  shows "live w \<Longrightarrow> kept w (fst (prime_tries cal cards m rx tx k w))"
proof (induction k arbitrary: w)
  case (Suc k)
  have o: "kept w (fst (offset_of cards tx rx w))" by (rule kept_offset [OF Suc.prems assms])
  from kept_trans [OF o kept_correct [OF kept_live [OF o] assms(2)]] kept_trans [OF o Suc.IH [OF kept_live [OF o]]]
  show ?case by (auto split: prod.split option.split)
qed (simp add: kept_refl)

lemma kept_prime_flow: "live (fst st) \<Longrightarrow> kept (fst st) (fst (prime_flow cal cfg cards st m))"
  using kept_tried [where w = "fst st"]
  by (auto simp: prime_flow_def kept_refl kept_control split_beta split: option.split)

lemma kept_prime_flows: "live (fst st) \<Longrightarrow> kept (fst st) (fst (foldl (prime_flow cal cfg cards) st ms))"
proof (induction ms arbitrary: st)
  case (Cons m ms)
  have k: "kept (fst st) (fst (prime_flow cal cfg cards st m))" by (rule kept_prime_flow [OF Cons.prems])
  from kept_trans [OF k Cons.IH [OF kept_live [OF k]]] show ?case by simp
qed (simp add: kept_refl)

lemma kept_prime:
  assumes "live w"
  shows "kept w (prime_lat_correction cal cfg p cards w)"
proof -
  obtain w1 cr mi where f: "foldl (prime_flow cal cfg cards) (w, [], []) (prog_flow_meta p) = (w1, cr, mi)"
    by (metis prod_cases3)
  have k: "kept w w1" using kept_prime_flows [of "(w, [], [])" cal cfg "prog_flow_meta p"] assms by (simp add: f)
  have "kept w1 (foldl (\<lambda>w ci.
            if card_open cards ci \<and> ci \<in> set cr \<and> ci \<notin> set mi then fst (clear_stats (cards ! ci) w) else w)
            w1 [0..<min (length (cfg_cards cfg)) PW_MAX_CARDS])"
    by (rule kept_foldl) (use k in \<open>auto simp: kept_refl kept_control, simp add: kept_def\<close>)
  with k show ?thesis unfolding prime_lat_correction_def f by (auto intro: kept_trans)
qed

lemma kept_clear_all: "live w \<Longrightarrow> kept w (fst (clear_all cards cfg w))"
proof -
  have "kept (fst st) (fst (foldl (\<lambda>(w, n) ci.
       if card_open cards ci \<and> op_write32 (cr_ops (cards ! ci)) \<noteq> None
       then (case clear_stats (cards ! ci) w of (w', s) \<Rightarrow> (w', count s n)) else (w, n)) st is))"
    if "live (fst st)" for st :: "'w \<times> nat \<times> nat" and "is"
    using that
  proof (induction "is" arbitrary: st)
    case (Cons i "is")
    have k: "kept (fst st) (fst ((\<lambda>(w, n) ci.
       if card_open cards ci \<and> op_write32 (cr_ops (cards ! ci)) \<noteq> None
       then (case clear_stats (cards ! ci) w of (w', s) \<Rightarrow> (w', count s n)) else (w, n)) st i))"
      using kept_control(5) [OF Cons.prems, of i] Cons.prems by (auto simp: kept_refl split: prod.split)
    from kept_trans [OF k Cons.IH [OF kept_live [OF k]]] show ?case by simp
  qed (simp add: kept_refl)
  from this [of "(w, 0, 0)"] show "live w \<Longrightarrow> ?thesis" by (simp add: clear_all_def)
qed

section \<open>Programs in sync with the cards\<close>

definition in_sync :: "'w \<Rightarrow> pw_program \<Rightarrow> bool" where
  "in_sync w p \<longleftrightarrow> (\<forall>i < length (prog_per_card p). card_open cards i \<longrightarrow> holds w i (prog_per_card p ! i))"

lemma kept_sync: "kept w w' \<Longrightarrow> in_sync w p \<Longrightarrow> in_sync w' p"
  by (simp add: kept_def in_sync_def)

lemma program_card_step:
  assumes "live w" and i: "i < length (prog_per_card p)" and good: "good_prog p"
    and run: "program_card cards p (w, s) i = (w', s')"
  shows "live w'" "s' = PW_OK \<Longrightarrow> s = PW_OK" "s' = PW_OK \<Longrightarrow> card_open cards i \<Longrightarrow> holds w' i (prog_per_card p ! i)"
    "j \<noteq> i \<Longrightarrow> holds w' j = holds w j"
proof -
  have cp: "good_card (prog_per_card p ! i)" using good i by (simp add: good_prog_def list_all_length)
  have "live w' \<and> (s' = PW_OK \<longrightarrow> s = PW_OK \<and> (card_open cards i \<longrightarrow> holds w' i (prog_per_card p ! i))) \<and>
      (\<forall>j. j \<noteq> i \<longrightarrow> holds w' j = holds w j)"
  proof (cases "card_open cards i")
    case False
    with run assms(1) show ?thesis by (simp add: program_card_def)
  next
    case True
    let ?ops = "cr_ops (cards ! i)"
    obtain w1 s1 where r: "(case op_write32 ?ops of None \<Rightarrow> (w, s) | Some w32 \<Rightarrow> chk s (w32 w PWFPGA_REG_DP_RESET 1)) = (w1, s1)"
      by (metis surj_pair)
    have c: "control_reg PWFPGA_REG_DP_RESET" by (simp add: control_reg_def)
    have k: "kept w w1" "s1 = PW_OK \<Longrightarrow> s = PW_OK"
      using r ctl [OF assms(1) True _ c] assms(1)
      by (auto simp: kept_def chk_def split: option.splits if_splits)
    obtain w2 s2 where t: "pw_program_card_tables_diag (Some ?ops) w1 (Some (prog_per_card p ! i)) = (w2, s2)" by (metis surj_pair)
    have "w' = w2" "s' = (if s2 \<noteq> PW_OK \<and> s1 = PW_OK then s2 else s1)"
      using run True r t by (auto simp: program_card_def Let_def)
    with prog [OF kept_live [OF k(1)] True cp t] k show ?thesis by (auto simp: kept_def split: if_splits)
  qed
  then show "live w'" "s' = PW_OK \<Longrightarrow> s = PW_OK" "s' = PW_OK \<Longrightarrow> card_open cards i \<Longrightarrow> holds w' i (prog_per_card p ! i)"
    "j \<noteq> i \<Longrightarrow> holds w' j = holds w j" by blast+
qed

lemma program_cards:
  assumes "live w" "good_prog p" "n \<le> length (prog_per_card p)"
  shows "foldl (program_card cards p) (w, PW_OK) [0..<n] = (w', s) \<Longrightarrow>
    live w' \<and> (s = PW_OK \<longrightarrow> (\<forall>i < n. card_open cards i \<longrightarrow> holds w' i (prog_per_card p ! i)))"
  using assms(3)
proof (induction n arbitrary: w' s)
  case 0
  with assms(1) show ?case by simp
next
  case (Suc n)
  obtain w1 s1 where f: "foldl (program_card cards p) (w, PW_OK) [0..<n] = (w1, s1)" by (metis surj_pair)
  with Suc have IH: "live w1 \<and> (s1 = PW_OK \<longrightarrow> (\<forall>i < n. card_open cards i \<longrightarrow> holds w1 i (prog_per_card p ! i)))"
    by simp
  have st: "program_card cards p (w1, s1) n = (w', s)" using Suc.prems(1) f by simp
  have "n < length (prog_per_card p)" using Suc.prems(2) by simp
  note S = program_card_step [OF conjunct1 [OF IH] this assms(2) st]
  have "holds w' i (prog_per_card p ! i)" if "s = PW_OK" "i < Suc n" "card_open cards i" for i
    using that IH S(2,3) S(4) [of i] by (cases "i = n") auto
  with S(1) show ?case by blast
qed

lemma program_backends_sync:
  assumes "live w" "good_prog p" "program_backends cal p cfg cards w = (w', s)"
  shows "live w'" "s = PW_OK \<Longrightarrow> in_sync w' p"
proof -
  obtain w1 s1 where f: "foldl (program_card cards p) (w, PW_OK) [0..<length (prog_per_card p)] = (w1, s1)" by (metis surj_pair)
  note P = program_cards [OF assms(1,2) le_refl f]
  have e: "w' = prime_lat_correction cal cfg p cards (setup_gpio_sync cfg p cards w1)" "s = s1"
    using assms(3) f by (simp_all add: program_backends_def)
  have k: "kept w1 w'" unfolding e(1) using P kept_setup kept_prime kept_live kept_trans by blast
  show "live w'" by (rule kept_live [OF k])
  show "in_sync w' p" if "s = PW_OK" using P that e(2) by (intro kept_sync [OF k]) (simp add: in_sync_def)
qed

lemma set_flow_enable_sync:
  assumes "live w" "good_prog p" and run: "set_flow_enable p cards gid en persist w = (w', p', s)"
  shows "live w'" "in_sync w p \<Longrightarrow> persist \<Longrightarrow> in_sync w' p'"
proof -
  have "live w' \<and> (in_sync w p \<and> persist \<longrightarrow> in_sync w' p')"
  proof (cases "find_tx_row p gid")
    case None
    with assms show ?thesis by (simp add: set_flow_enable_def)
  next
    case (Some a)
    obtain i r where a: "a = (i, r)" by (cases a)
    from find_tx_row_SomeD [OF Some [unfolded a]] have i: "i < length (prog_per_card p)"
      and r: "r < length (cp_flow_rows (prog_per_card p ! i))" by metis+
    let ?cp = "prog_per_card p ! i" and ?ops = "cr_ops (cards ! i)"
    define row where "row = run_row en (cp_flow_rows ?cp ! r)"
    have cp: "good_card ?cp" using assms(2) i by (simp add: good_prog_def list_all_length)
    have wf: "row_wf row" using cp r by (simp add: good_card_def row_def)
    show ?thesis
    proof (cases "card_open cards i \<and> op_flow_write ?ops \<noteq> None")
      case False
      with assms Some a show ?thesis
        by (auto simp: set_flow_enable_def Let_def split: option.splits if_splits)
    next
      case True
      then obtain fw where fw: "op_flow_write ?ops = Some fw" "card_open cards i" by auto
      obtain w1 s1 where w1: "fw w (of_nat r) (Some row) = (w1, s1)" by (metis surj_pair)
      note R = row [OF assms(1) fw(2) cp r wf fw(1) w1]
      show ?thesis
      proof (cases "s1 = PW_OK")
        case False
        with R run Some a fw w1 have "w' = w1" "p' = p" "live w1" "holds w1 = holds w"
          by (auto simp: set_flow_enable_def Let_def row_def split: option.splits)
        then show ?thesis by (simp add: in_sync_def)
      next
        case True
        with R obtain fc where fc: "op_flow_commit ?ops = Some fc" "snd (fc w1) = PW_OK" "live (fst (fc w1))"
          "holds w i ?cp \<Longrightarrow> holds (fst (fc w1)) i (with_row r row ?cp)" "\<And>j. j \<noteq> i \<Longrightarrow> holds (fst (fc w1)) j = holds w j"
          by auto
        have e: "w' = fst (fc w1)" "persist \<Longrightarrow> p' = set_row i r row p"
          using run Some a fw w1 fc(1,2) True
          by (auto simp: set_flow_enable_def Let_def row_def split_beta)
        have "in_sync w' p'" if "in_sync w p" "persist"
          using that(1) fc(4,5) fw(2) i unfolding e(1) e(2) [OF that(2)]
          by (auto simp: in_sync_def nth_list_update)
        with fc(3) e(1) show ?thesis by simp
      qed
    qed
  qed
  then show "live w'" "in_sync w p \<Longrightarrow> persist \<Longrightarrow> in_sync w' p'" by blast+
qed

section \<open>The daemon\<close>

definition tracks :: "'w daemon \<Rightarrow> bool" where
  "tracks d \<longleftrightarrow> compiled_state d \<and> live (dm_world d) \<and> in_sync (dm_world d) (dm_prog d)"

lemma tracks_kept: "tracks d \<Longrightarrow> kept (dm_world d) w \<Longrightarrow> tracks (d\<lparr>dm_world := w\<rparr>)"
  unfolding tracks_def using kept_live kept_sync compiled_state_same [of d "d\<lparr>dm_world := w\<rparr>"] by simp

lemma flow_run_tracks:
  assumes "tracks d"
  shows "tracks (fst (flow_run cards en gid d))" "dm_cfg (fst (flow_run cards en gid d)) = dm_cfg d"
proof -
  obtain w p s where r: "set_flow_enable (dm_prog d) cards gid en True (dm_world d) = (w, p, s)" by (metis prod_cases3)
  have "live (dm_world d)" "good_prog (dm_prog d)" using assms compiled_state_good by (auto simp: tracks_def)
  note S = set_flow_enable_sync [OF this r] and I = set_flow_enable_idle [OF r]
  have "compiled_state (d\<lparr>dm_prog := p, dm_world := w\<rparr>)"
    by (rule compiled_state_same [of d]) (use assms I in \<open>simp_all add: tracks_def\<close>)
  with S assms show "tracks (fst (flow_run cards en gid d))" by (simp add: tracks_def flow_run_def r)
  show "dm_cfg (fst (flow_run cards en gid d)) = dm_cfg d" by (simp add: flow_run_def r)
qed

lemma run_all_tracks:
  assumes "tracks d"
  shows "tracks (fst (run_all cards en d))" "dm_cfg (fst (run_all cards en d)) = dm_cfg d"
proof -
  let ?f = "\<lambda>(d, n) m. case flow_run cards en (meta_global_flow_id m) d of (d', s) \<Rightarrow> (d', count s n)"
  have "tracks (fst (foldl ?f st ms)) \<and> dm_cfg (fst (foldl ?f st ms)) = dm_cfg (fst st)" if "tracks (fst st)" for st ms
    using that
  proof (induction ms arbitrary: st)
    case (Cons m ms)
    have e: "fst (?f st m) = fst (flow_run cards en (meta_global_flow_id m) (fst st))" by (simp add: split_beta)
    have "tracks (fst (?f st m))" "dm_cfg (fst (?f st m)) = dm_cfg (fst st)"
      unfolding e by (rule flow_run_tracks [OF Cons.prems])+
    with Cons.IH [of "?f st m"] show ?case unfolding foldl.simps by metis
  qed simp
  from this [of "(d, 0, 0)" "prog_flow_meta (dm_prog d)"] assms
  show "tracks (fst (run_all cards en d))" "dm_cfg (fst (run_all cards en d)) = dm_cfg d" by (simp_all add: run_all_def)
qed

lemma test_run_tracks:
  assumes "tracks d"
  shows "tracks (fst (test_run cal cards en d))"
proof -
  obtain d1 c f where r: "run_all cards en d = (d1, c, f)" by (metis prod_cases3)
  have t: "tracks d1" using run_all_tracks [OF assms, of en] by (simp add: r)
  then have l: "live (dm_world d1)" by (simp add: tracks_def)
  note k = kept_prime [OF l, of cal "dm_cfg d1" "dm_prog d1"]
  from tracks_kept [OF t kept_trans [OF k kept_clear_all [OF kept_live [OF k]]]] t
  show ?thesis by (simp add: test_run_def r)
qed

lemma control_tracks:
  assumes "tracks d"
  shows "tracks (fst (stats_clear cards d))" "tracks (fst (warn_servo cards d))" "tracks (servo_tick cal cards d)"
proof -
  have l: "live (dm_world d)" using assms by (simp add: tracks_def)
  show "tracks (fst (stats_clear cards d))"
    using tracks_kept [OF assms kept_clear_all [OF l, of "dm_cfg d"]] by (simp add: stats_clear_def split_beta)
  show "tracks (fst (warn_servo cards d))"
    using tracks_kept [OF assms kept_converged [OF l, of "dm_cfg d" "dm_prog d"]] by (simp add: warn_servo_def split_beta)
  show "tracks (servo_tick cal cards d)"
    using tracks_kept [OF assms kept_servo [OF l]] by (simp add: servo_tick_def)
qed

lemma quiesce_live: "live w \<Longrightarrow> good_prog p \<Longrightarrow> live (quiesce p cards w)"
proof -
  have "live (foldl (\<lambda>w m. fst (set_flow_enable p cards (meta_global_flow_id m) False False w)) w ms)"
    if "live w" "good_prog p" for w ms
    using that by (induction ms arbitrary: w) (auto, metis prod_cases3 fst_conv set_flow_enable_sync(1))
  then show "live w \<Longrightarrow> good_prog p \<Longrightarrow> ?thesis" by (simp add: quiesce_def)
qed

text \<open>Arming pushes the program again, so it also repairs a daemon that had lost track.\<close>

lemma test_arm_tracks:
  assumes "compiled_state d" "live (dm_world d)" and run: "test_arm cal cards d = (d', changed, failed, programmed)"
  shows "compiled_state d'" "live (dm_world d')" "programmed \<Longrightarrow> tracks d'"
proof -
  obtain w s where p: "program_backends cal (dm_prog d) (dm_cfg d) cards (dm_world d) = (w, s)" by (metis surj_pair)
  note P = program_backends_sync [OF assms(2) compiled_state_good [OF assms(1)] p]
  have c: "compiled_state (d\<lparr>dm_world := w'\<rparr>)" for w'
    by (rule compiled_state_same [OF assms(1)]) simp_all
  have e: "d' = d\<lparr>dm_world := if s = PW_OK then fst (clear_all cards (dm_cfg d) w) else w\<rparr>" "programmed \<longleftrightarrow> s = PW_OK"
    using run p by (auto simp: test_arm_def split: prod.splits if_splits)
  show "compiled_state d'" unfolding e(1) by (rule c)
  show "live (dm_world d')" using P(1) kept_live [OF kept_clear_all [OF P(1)]] by (simp add: e(1))
  show "tracks d'" if "programmed"
    using that e c kept_live [OF kept_clear_all [OF P(1)]] kept_sync [OF kept_clear_all [OF P(1)] P(2)] by (simp add: tracks_def)
qed

text \<open>The outcomes of a load.\<close>

lemma do_config_load_outcome:
  assumes "compiled_state d" "live (dm_world d)" and run: "do_config_load libyaml cal cards y d = (d', r)"
  shows "live (dm_world d')" "compiled_state d'"
    "r = Inr n \<Longrightarrow> tracks d' \<and> silent (dm_prog d') \<and> same_env (dm_cfg d') (dm_cfg d) \<and>
       prepare_load libyaml (dm_cfg d) y = Inr (dm_cfg d', dm_prog d') \<and> dm_test_yaml d' = y"
    "r = Inl (Stage_failed st rb) \<Longrightarrow> d' = d\<lparr>dm_world := dm_world d'\<rparr> \<and> (rb = PW_OK \<longrightarrow> tracks d')"
    "r = Inl e \<Longrightarrow> (\<And>st rb. e \<noteq> Stage_failed st rb) \<Longrightarrow> d' = d"
proof -
  have g: "good_prog (dm_prog d)" by (rule compiled_state_good [OF assms(1)])
  have "live (dm_world d') \<and> compiled_state d' \<and> (case r of
      Inr n \<Rightarrow> tracks d' \<and> silent (dm_prog d') \<and> same_env (dm_cfg d') (dm_cfg d) \<and>
        prepare_load libyaml (dm_cfg d) y = Inr (dm_cfg d', dm_prog d') \<and> dm_test_yaml d' = y
    | Inl (Stage_failed st rb) \<Rightarrow> d' = d\<lparr>dm_world := dm_world d'\<rparr> \<and> (rb = PW_OK \<longrightarrow> tracks d')
    | Inl e \<Rightarrow> d' = d)"
  proof (cases "prepare_load libyaml (dm_cfg d) y")
    case (Inl e)
    then have "e \<noteq> Stage_failed st rb" for st rb
      by (auto simp: prepare_load_def Let_def split: option.splits sum.splits if_splits)
    with Inl assms show ?thesis by (auto simp: do_config_load_def split: load_error.split)
  next
    case (Inr a)
    obtain new q where a: "a = (new, q)" by (cases a)
    obtain p where p: "pw_flow_compile (Some new) = Inr p" "q = stage_flow_run_state p False" "same_env new (dm_cfg d)"
      "\<forall>f\<in>set (cfg_flows new). flow_arrays f" by (rule prepare_load_ok [OF Inr [unfolded a]])
    have qi: "idle q = idle p" by (simp add: p(2) stage_flow_run_state_rows(1))
    have qg: "good_prog q" using compiled_good [OF p(1,4)] good_prog_same [OF qi] by simp
    define w0 where "w0 = quiesce (dm_prog d) cards (dm_world d)"
    have l0: "live w0" unfolding w0_def by (rule quiesce_live [OF assms(2) g])
    obtain w1 s1 where s1: "program_backends cal q new cards w0 = (w1, s1)" by (metis surj_pair)
    note S1 = program_backends_sync [OF l0 qg s1]
    show ?thesis
    proof (cases "s1 = PW_OK")
      case True
      have d': "d' = \<lparr>dm_cfg = new, dm_prog = q, dm_test_yaml = y, dm_world = w1\<rparr>" "\<exists>n. r = Inr n"
        using run Inr a s1 True by (auto simp: do_config_load_def Let_def w0_def)
      have "compiled_state d'" using p(1,4) qi by (auto simp: compiled_state_def d'(1))
      with d' S1 True p(3) staged_silent [OF p(1)] Inr a show ?thesis by (auto simp: tracks_def p(2))
    next
      case False
      obtain w2 s2 where s2: "program_backends cal (dm_prog d) (dm_cfg d) cards w1 = (w2, s2)" by (metis surj_pair)
      note S2 = program_backends_sync [OF S1(1) g s2]
      have d': "d' = d\<lparr>dm_world := w2\<rparr>" "r = Inl (Stage_failed s1 s2)"
        using run Inr a s1 s2 False by (auto simp: do_config_load_def Let_def w0_def)
      have "compiled_state d'" by (rule compiled_state_same [OF assms(1)]) (simp_all add: d')
      with S2 show ?thesis by (auto simp: d' tracks_def)
    qed
  qed
  then show "live (dm_world d')" "compiled_state d'"
    "r = Inr n \<Longrightarrow> tracks d' \<and> silent (dm_prog d') \<and> same_env (dm_cfg d') (dm_cfg d) \<and>
       prepare_load libyaml (dm_cfg d) y = Inr (dm_cfg d', dm_prog d') \<and> dm_test_yaml d' = y"
    "r = Inl (Stage_failed st rb) \<Longrightarrow> d' = d\<lparr>dm_world := dm_world d'\<rparr> \<and> (rb = PW_OK \<longrightarrow> tracks d')"
    "r = Inl e \<Longrightarrow> (\<And>st rb. e \<noteq> Stage_failed st rb) \<Longrightarrow> d' = d"
    by (auto split: load_error.splits)
qed

end

section \<open>Cards that only run out of room\<close>

text \<open>
  A plane whose cards answer: the reset is accepted, and programming fails only for a program that has no room,
  which depends on the number of its rows.
\<close>

locale sized_plane = card_plane cards live holds
  for cards :: "'w card_runtime list" and live :: "'w \<Rightarrow> bool" and holds :: "'w \<Rightarrow> nat \<Rightarrow> pw_card_program \<Rightarrow> bool" +
  fixes room :: "nat \<Rightarrow> nat \<Rightarrow> bool"
  assumes reset_ok: "live w \<Longrightarrow> card_open cards i \<Longrightarrow> op_write32 (cr_ops (cards ! i)) = Some w32 \<Longrightarrow>
      snd (w32 w PWFPGA_REG_DP_RESET 1) = PW_OK"
    and prog_ok: "live w \<Longrightarrow> card_open cards i \<Longrightarrow> good_card cp \<Longrightarrow>
      snd (pw_program_card_tables_diag (Some (cr_ops (cards ! i))) w (Some cp)) = PW_OK \<longleftrightarrow> room i (length (cp_flow_rows cp))"
begin

definition roomy :: "pw_program \<Rightarrow> bool" where
  "roomy p \<longleftrightarrow> (\<forall>i < length (prog_per_card p). card_open cards i \<longrightarrow> room i (length (cp_flow_rows (prog_per_card p ! i))))"

lemma roomy_same:
  assumes "idle p = idle q"
  shows "roomy p = roomy q"
proof -
  have "length (cp_flow_rows (prog_per_card p ! i)) = length (cp_flow_rows (prog_per_card q ! i))" if "i < length (prog_per_card q)" for i
    by (rule idle_card_eq(2) [OF idle_eq(3) [OF assms that]])
  then show ?thesis using idle_eq(2) [OF assms] by (simp add: roomy_def)
qed

lemma program_card_ok:
  assumes "live w" "i < length (prog_per_card p)" "good_prog p"
  shows "snd (program_card cards p (w, s) i) = PW_OK \<longleftrightarrow>
    s = PW_OK \<and> (card_open cards i \<longrightarrow> room i (length (cp_flow_rows (prog_per_card p ! i))))"
proof (cases "card_open cards i")
  case True
  let ?ops = "cr_ops (cards ! i)"
  have cp: "good_card (prog_per_card p ! i)" using assms(2,3) by (simp add: good_prog_def list_all_length)
  have c: "control_reg PWFPGA_REG_DP_RESET" by (simp add: control_reg_def)
  obtain w1 where r: "(case op_write32 ?ops of None \<Rightarrow> (w, s) | Some w32 \<Rightarrow> chk s (w32 w PWFPGA_REG_DP_RESET 1)) = (w1, s)"
    and l: "live w1"
    using reset_ok [OF assms(1) True] ctl [OF assms(1) True _ c] assms(1)
    by (cases "op_write32 ?ops") (auto simp: chk_def)
  obtain w2 s2 where t: "pw_program_card_tables_diag (Some ?ops) w1 (Some (prog_per_card p ! i)) = (w2, s2)" by (metis surj_pair)
  from prog_ok [OF l True cp] t r True show ?thesis by (auto simp: program_card_def Let_def)
qed (simp add: program_card_def)

lemma program_backends_ok:
  assumes "live w" "good_prog p"
  shows "snd (program_backends cal p cfg cards w) = PW_OK \<longleftrightarrow> roomy p"
proof -
  have "snd (foldl (program_card cards p) (w, PW_OK) [0..<n]) = PW_OK \<longleftrightarrow>
      (\<forall>i < n. card_open cards i \<longrightarrow> room i (length (cp_flow_rows (prog_per_card p ! i))))" if "n \<le> length (prog_per_card p)" for n
    using that
  proof (induction n)
    case (Suc n)
    obtain w1 s1 where f: "foldl (program_card cards p) (w, PW_OK) [0..<n] = (w1, s1)" by (metis surj_pair)
    have "live w1" using program_cards [OF assms _ f] Suc.prems by simp
    from program_card_ok [OF this _ assms(2)] Suc f show ?case by (auto simp: less_Suc_eq)
  qed simp
  then show ?thesis by (simp add: program_backends_def roomy_def split_beta)
qed

lemma load_room:
  assumes "tracks d" "roomy (dm_prog d)" and run: "do_config_load libyaml cal cards y d = (d', r)"
  shows "r = Inr n \<Longrightarrow> roomy (dm_prog d')" "r = Inl (Stage_failed st rb) \<Longrightarrow> rb = PW_OK"
proof -
  have c: "compiled_state d" and l: "live (dm_world d)" using assms(1) by (simp_all add: tracks_def)
  have ql: "live (quiesce (dm_prog d) cards (dm_world d))" by (rule quiesce_live [OF l compiled_state_good [OF c]])
  show "roomy (dm_prog d')" if "r = Inr n"
  proof -
    note O = do_config_load_outcome(2,3) [OF c l run]
    have "snd (program_backends cal (dm_prog d') (dm_cfg d') cards (quiesce (dm_prog d) cards (dm_world d))) = PW_OK"
      using run that O(2) [OF that] by (auto simp: do_config_load_def Let_def split_beta split: if_splits)
    with program_backends_ok [OF ql compiled_state_good [OF O(1)]] show ?thesis by simp
  qed
  show "rb = PW_OK" if e: "r = Inl (Stage_failed st rb)"
  proof -
    obtain new q where pl: "prepare_load libyaml (dm_cfg d) y = Inr (new, q)"
      using run e by (auto simp: do_config_load_def prepare_load_def Let_def split: option.splits sum.splits if_splits)
    obtain p where p: "pw_flow_compile (Some new) = Inr p" "q = stage_flow_run_state p False"
      "\<forall>f\<in>set (cfg_flows new). flow_arrays f" by (rule prepare_load_ok [OF pl])
    have qg: "good_prog q"
      using compiled_good [OF p(1,3)] good_prog_same [OF stage_flow_run_state_rows(1)] by (simp add: p(2))
    obtain w1 s1 where s1: "program_backends cal q new cards (quiesce (dm_prog d) cards (dm_world d)) = (w1, s1)" by (metis surj_pair)
    have "rb = snd (program_backends cal (dm_prog d) (dm_cfg d) cards w1)"
      using run e pl s1 by (auto simp: do_config_load_def Let_def split_beta split: if_splits)
    with program_backends_ok [OF program_backends_sync(1) [OF ql qg s1] compiled_state_good [OF c]] assms(2) show ?thesis by simp
  qed
qed

text \<open>Once in step, every step keeps the daemon in step: a failed load is rolled back, an arm succeeds.\<close>

lemma load_tracks:
  assumes "tracks d" "roomy (dm_prog d)"
  shows "tracks (fst (do_config_load libyaml cal cards y d)) \<and> roomy (dm_prog (fst (do_config_load libyaml cal cards y d))) \<and>
    same_env (dm_cfg (fst (do_config_load libyaml cal cards y d))) (dm_cfg d)"
proof -
  obtain d' r where run: "do_config_load libyaml cal cards y d = (d', r)" by (metis surj_pair)
  have c: "compiled_state d" and l: "live (dm_world d)" using assms(1) by (simp_all add: tracks_def)
  note O = do_config_load_outcome [OF c l run] and R = load_room [OF assms run]
  consider (ok) n where "r = Inr n" | (stage) st rb where "r = Inl (Stage_failed st rb)"
    | (other) e where "r = Inl e" "\<And>st rb. e \<noteq> Stage_failed st rb" by (metis sum.exhaust)
  then have "tracks d' \<and> roomy (dm_prog d') \<and> same_env (dm_cfg d') (dm_cfg d)"
  proof cases
    case ok
    with O(3) R(1) show ?thesis by blast
  next
    case stage
    from O(4) [OF stage] R(2) [OF stage] have d': "d' = d\<lparr>dm_world := dm_world d'\<rparr>" "tracks d'" by blast+
    have "dm_prog d' = dm_prog d" "dm_cfg d' = dm_cfg d" by (subst d'(1), simp)+
    with d'(2) assms(2) show ?thesis by (simp add: same_env_def)
  next
    case other
    from O(5) [OF other] assms show ?thesis by (simp add: same_env_def)
  qed
  then show ?thesis by (simp add: run)
qed

lemma arm_tracks:
  assumes "tracks d" "roomy (dm_prog d)"
  shows "tracks (fst (test_arm cal cards d))"
proof -
  obtain d' ch fl pr where run: "test_arm cal cards d = (d', ch, fl, pr)" by (metis prod_cases4)
  have c: "compiled_state d" and l: "live (dm_world d)" using assms(1) by (simp_all add: tracks_def)
  have "pr" using run program_backends_ok [OF l compiled_state_good [OF c]] assms(2)
    by (auto simp: test_arm_def split_beta split: if_splits)
  with test_arm_tracks(3) [OF c l run] run show ?thesis by simp
qed

lemma dstep_tracks:
  assumes "dstep libyaml cal cards d d'" "tracks d" "roomy (dm_prog d)"
  shows "tracks d' \<and> roomy (dm_prog d') \<and> same_env (dm_cfg d') (dm_cfg d)"
proof -
  have keep: "tracks d' \<and> roomy (dm_prog d') \<and> same_env (dm_cfg d') (dm_cfg d)" if "tracks d'" "same_run d d'"
    using that assms(3) roomy_same [of "dm_prog d'" "dm_prog d"] by (simp add: same_run_def same_env_def)
  from assms(1) show ?thesis
  proof cases
    case config_load
    with load_tracks [OF assms(2,3)] show ?thesis by simp
  qed (use keep assms(2,3) in \<open>simp_all add: flow_run_tracks test_run_tracks control_tracks arm_tracks flow_run_same requests_same_run\<close>)
qed

lemma dsteps_tracks:
  assumes "(dstep libyaml cal cards)\<^sup>*\<^sup>* d d'" "tracks d" "roomy (dm_prog d)"
  shows "tracks d' \<and> roomy (dm_prog d') \<and> same_env (dm_cfg d') (dm_cfg d)"
  using assms
proof (induction rule: rtranclp_induct)
  case (step e e')
  then have "tracks e" "roomy (dm_prog e)" "same_env (dm_cfg e) (dm_cfg d)" by blast+
  with dstep_tracks [OF step.hyps(2)] show ?case by (auto simp: same_env_def)
qed (simp add: same_env_def)

end

end
