(* ===== verification/PW_Compile_Rules.thy ===== *)
theory PW_Compile_Rules
  imports PW_Compile_Hash
begin

text \<open>
  What the compiled classifier rules mean. A comparator reads a 32-bit lane of the parsed frame
  and tests it under a mask; a rule hits when all comparators of its care mask do. The rule
  compilers build exactly the conjunction that each punt flag and each forward rule asks for,
  and sharing comparators between rules changes no rule.
\<close>

section \<open>The classifier's semantics\<close>

record frame_key =
  fk_lane :: "u8 \<Rightarrow> u32"
  fk_udf :: "u16 \<Rightarrow> u32"

definition masked_eq :: "u32 \<Rightarrow> u32 \<Rightarrow> u32 \<Rightarrow> bool" where
  "masked_eq x msk v \<longleftrightarrow> x AND msk = v AND msk"

definition cmp_hit :: "frame_key \<Rightarrow> pw_fc_cmp \<Rightarrow> bool" where
  "cmp_hit k c \<longleftrightarrow> masked_eq (fk_lane k (cmp_src c)) (cmp_mask c) (cmp_value c)"

definition udf_hit :: "frame_key \<Rightarrow> pw_fc_udf \<Rightarrow> bool" where
  "udf_hit k u \<longleftrightarrow> masked_eq (fk_udf k (udf_offset u)) (udf_mask u) (udf_value u)"

text \<open>Comparator bits \<open>0..11\<close> are field comparators, \<open>12..13\<close> UDF comparators; a comparator that
  is not programmed has a zero mask and always matches.\<close>

definition care_bit_hit :: "pw_card_program \<Rightarrow> frame_key \<Rightarrow> nat \<Rightarrow> bool" where
  "care_bit_hit cp k b \<longleftrightarrow>
     (if b < PWFPGA_NUM_CMP then b < length (cp_fc_cmps cp) \<longrightarrow> cmp_hit k (cp_fc_cmps cp ! b)
      else b - PWFPGA_NUM_CMP < length (cp_fc_udfs cp) \<longrightarrow>
             udf_hit k (cp_fc_udfs cp ! (b - PWFPGA_NUM_CMP)))"

definition care_hit :: "pw_card_program \<Rightarrow> frame_key \<Rightarrow> u16 \<Rightarrow> bool" where
  "care_hit cp k care \<longleftrightarrow> (\<forall>b < 16. bit care b \<longrightarrow> care_bit_hit cp k b)"

text \<open>What a rule does: its action, egress port, logical interface, priority and hit set.\<close>

record rule_meaning =
  rm_action :: u8
  rm_egress :: u8
  rm_lif :: u32
  rm_priority :: u8
  rm_hit :: "frame_key \<Rightarrow> bool"

definition rule_sem :: "pw_card_program \<Rightarrow> pw_fc_rule \<Rightarrow> rule_meaning" where
  "rule_sem cp r = \<lparr>rm_action = rule_action r, rm_egress = rule_egress r,
     rm_lif = rule_logical_if_id r, rm_priority = rule_priority r,
     rm_hit = (\<lambda>k. care_hit cp k (rule_care r))\<rparr>"

definition card_sem :: "pw_card_program \<Rightarrow> rule_meaning list" where
  "card_sem cp = map (rule_sem cp) (cp_fc_rules cp)"

section \<open>What the configuration asks for\<close>

definition lane_is :: "u8 \<Rightarrow> u32 \<Rightarrow> u32 \<Rightarrow> frame_key \<Rightarrow> bool" where
  "lane_is src msk v k \<longleftrightarrow> masked_eq (fk_lane k src) msk v"

definition punt_hit :: "pwfpga_port_ref \<Rightarrow> pw_logical_if \<Rightarrow> punt_args \<Rightarrow> frame_key \<Rightarrow> bool" where
  "punt_hit ref l a k \<longleftrightarrow>
     lane_is PWFPGA_FC_SRC_INGRESS 0xF (ucast (ref_local_port_id ref)) k \<and>
     (lif_vlan l \<noteq> 0 \<longrightarrow> lane_is PWFPGA_FC_SRC_VLAN 0x0FFF (ucast (lif_vlan l)) k) \<and>
     (pa_eth a \<noteq> 0 \<longrightarrow> lane_is PWFPGA_FC_SRC_ETHERTYPE 0xFFFF (ucast (pa_eth a)) k) \<and>
     (pa_l3p a \<noteq> 0 \<longrightarrow> lane_is PWFPGA_FC_SRC_L3_PROTO 0xFF (ucast (pa_l3p a)) k) \<and>
     (pa_l4port a \<noteq> 0 \<longrightarrow> lane_is (pa_l4lane a) 0xFFFF (ucast (pa_l4port a)) k) \<and>
     (pa_udf_val a \<noteq> 0 \<longrightarrow> masked_eq (fk_udf k (pa_udf_off a)) 0xFFFF0000 (pa_udf_val a))"

definition punt_meaning :: "pwfpga_port_ref \<Rightarrow> pw_logical_if \<Rightarrow> punt_args \<Rightarrow> rule_meaning" where
  "punt_meaning ref l a = \<lparr>rm_action = PWFPGA_ACT_PUNT_TO_HOST, rm_egress = 0, rm_lif = lif_id l,
     rm_priority = pa_prio a, rm_hit = punt_hit ref l a\<rparr>"

text \<open>The masked comparison of a 128-bit address, word by word.\<close>

definition ipv6_hit :: "u8 list \<Rightarrow> bytes \<Rightarrow> bytes \<Rightarrow> frame_key \<Rightarrow> bool" where
  "ipv6_hit sel addr msk k \<longleftrightarrow>
     (\<forall>w < 4. masked_eq (fk_lane k (sel ! w)) (be_word msk w) (be_word addr w))"

definition forward_hit :: "pwfpga_port_ref \<Rightarrow> pw_forward_rule \<Rightarrow> frame_key \<Rightarrow> bool" where
  "forward_hit ing fr k \<longleftrightarrow>
     lane_is PWFPGA_FC_SRC_INGRESS 0xF (ucast (ref_local_port_id ing)) k \<and>
     (fwd_vlan fr \<noteq> 0 \<longrightarrow> lane_is PWFPGA_FC_SRC_VLAN 0x0FFF (ucast (fwd_vlan fr)) k) \<and>
     (fwd_ethertype fr \<noteq> 0 \<longrightarrow> lane_is PWFPGA_FC_SRC_ETHERTYPE 0xFFFF (ucast (fwd_ethertype fr)) k) \<and>
     (fwd_ip_proto fr \<noteq> 0 \<longrightarrow> lane_is PWFPGA_FC_SRC_L3_PROTO 0xFF (ucast (fwd_ip_proto fr)) k) \<and>
     (fwd_udp_dst fr \<noteq> 0 \<longrightarrow> lane_is PWFPGA_FC_SRC_L4_DST 0xFFFF (ucast (fwd_udp_dst fr)) k) \<and>
     (fwd_ipv6_dst_set fr \<or> fwd_ipv6_src_set fr \<longrightarrow>
        lane_is PWFPGA_FC_SRC_FLAGS PWFPGA_FC_FLAG_IS_IPV6 PWFPGA_FC_FLAG_IS_IPV6 k) \<and>
     (fwd_ipv6_dst_set fr \<longrightarrow> ipv6_hit ipv6_dst_sel (fwd_ipv6_dst fr) (fwd_ipv6_dst_mask fr) k) \<and>
     (fwd_ipv6_src_set fr \<longrightarrow> ipv6_hit ipv6_src_sel (fwd_ipv6_src fr) (fwd_ipv6_src_mask fr) k)"

definition forward_meaning ::
  "pwfpga_port_ref \<Rightarrow> pwfpga_port_ref \<Rightarrow> pw_forward_rule \<Rightarrow> rule_meaning" where
  "forward_meaning ing egr fr = \<lparr>rm_action = PWFPGA_ACT_FORWARD_PORT,
     rm_egress = ref_local_port_id egr, rm_lif = 0, rm_priority = fwd_priority fr,
     rm_hit = forward_hit ing fr\<rparr>"

text \<open>The rules a card must have: those of its logical interfaces, then those of its forwards.\<close>

definition lif_rules :: "pw_config \<Rightarrow> u16 \<Rightarrow> pw_logical_if \<Rightarrow> rule_meaning list" where
  "lif_rules cfg cid l =
     (case resolve_port (cfg_cards cfg) (lif_global_port l) of
        None \<Rightarrow> []
      | Some ref \<Rightarrow> if ref_card_id ref = cid then map (punt_meaning ref l) (punt_list (lif_punt l)) else [])"

definition forward_rules :: "pw_config \<Rightarrow> u16 \<Rightarrow> pw_forward_rule \<Rightarrow> rule_meaning list" where
  "forward_rules cfg cid fr =
     (case (resolve_port (cfg_cards cfg) (fwd_ingress_port fr),
            resolve_port (cfg_cards cfg) (fwd_egress_port fr)) of
        (Some ing, Some egr) \<Rightarrow> if ref_card_id ing = cid then [forward_meaning ing egr fr] else []
      | _ \<Rightarrow> [])"

definition card_rules_spec :: "pw_config \<Rightarrow> u16 \<Rightarrow> rule_meaning list" where
  "card_rules_spec cfg cid =
     concat (map (lif_rules cfg cid) (cfg_logical_if cfg)) @
     concat (map (forward_rules cfg cid) (cfg_forwards cfg))"

section \<open>Building one rule\<close>

lemma care_hit_extends:
  assumes "extends a b" and "care_ok a care" and "card_wf a" and "card_wf b"
  shows "care_hit b k care = care_hit a k care"
proof -
  have "care_bit_hit b k i = care_bit_hit a k i" if i: "i < 16" "bit care i" for i
  proof -
    from assms(2) i have "i < length (cp_fc_cmps a) \<or>
        PWFPGA_NUM_CMP \<le> i \<and> i < PWFPGA_NUM_CMP + length (cp_fc_udfs a)" by (simp add: care_ok_def)
    then show ?thesis
    proof
      assume c: "i < length (cp_fc_cmps a)"
      moreover have "i < PWFPGA_NUM_CMP" using c assms(3) by (simp add: card_wf_def)
      ultimately show ?thesis using extends_cmp [OF assms(1) c] by (simp add: care_bit_hit_def)
    next
      assume u: "PWFPGA_NUM_CMP \<le> i \<and> i < PWFPGA_NUM_CMP + length (cp_fc_udfs a)"
      then have "i - PWFPGA_NUM_CMP < length (cp_fc_udfs a)" by linarith
      with u extends_udf [OF assms(1) this] show ?thesis by (simp add: care_bit_hit_def)
    qed
  qed
  then show ?thesis by (simp add: care_hit_def)
qed

lemma care_hit_set_care:
  "b < 16 \<Longrightarrow> care_hit cp k (set_care care b) \<longleftrightarrow> care_hit cp k care \<and> care_bit_hit cp k b"
  by (auto simp: care_hit_def set_care_def bit_simps)

lemma care_hit_0 [simp]: "care_hit cp k 0"
  by (simp add: care_hit_def)

text \<open>The care masks of the rules already built are unaffected; the new one gains a conjunct.\<close>

definition rule_hits_as :: "pw_card_program \<times> u16 \<Rightarrow> (frame_key \<Rightarrow> bool) \<Rightarrow> bool" where
  "rule_hits_as st P \<longleftrightarrow> (\<forall>k. care_hit (fst st) k (snd st) = P k)"

lemma care_cmp_hit:
  assumes "care_cmp cond src msk val st = Inr st'" and "rule_state_ok cp0 st" and "rule_hits_as st P"
  shows "rule_hits_as st' (\<lambda>k. P k \<and> (cond \<longrightarrow> lane_is src msk val k))"
proof (cases cond)
  case True
  with assms(1) obtain cp' b where cb: "append_fc_cmp (fst st) src msk val = Inr (cp', b)"
    and st': "st' = (cp', set_care (snd st) b)"
    by (auto simp: care_cmp_def rbind_eq_Inr)
  have wf: "card_wf (fst st)" and ok: "care_ok (fst st) (snd st)"
    using assms(2) by (simp_all add: rule_state_ok_def)
  note C = append_fc_cmp_SomeD [OF cb wf]
  have b: "b < PWFPGA_NUM_CMP" using C by (simp add: card_wf_def)
  then have "b < 16" by (simp add: csr_capacities)
  with C b care_hit_extends [OF _ ok wf, of cp'] assms(3) True show ?thesis
    by (auto simp: rule_hits_as_def st' care_hit_set_care care_bit_hit_def cmp_hit_def lane_is_def)
qed (use assms in \<open>simp add: care_cmp_def\<close>)

lemma care_udf_hit:
  assumes "care_udf cond off msk val st = Inr st'" and "rule_state_ok cp0 st" and "rule_hits_as st P"
  shows "rule_hits_as st' (\<lambda>k. P k \<and> (cond \<longrightarrow> masked_eq (fk_udf k off) msk val))"
proof (cases cond)
  case True
  with assms(1) obtain cp' b where cb: "append_fc_udf (fst st) off msk val = Inr (cp', b)"
    and st': "st' = (cp', set_care (snd st) b)"
    by (auto simp: care_udf_def rbind_eq_Inr)
  have wf: "card_wf (fst st)" and ok: "care_ok (fst st) (snd st)"
    using assms(2) by (simp_all add: rule_state_ok_def)
  note C = append_fc_udf_SomeD [OF cb wf]
  have b: "PWFPGA_NUM_CMP \<le> b" "b - PWFPGA_NUM_CMP < length (cp_fc_udfs cp')" using C by auto
  have "length (cp_fc_udfs cp') \<le> PWFPGA_NUM_UDF" using C by (simp add: card_wf_def)
  with b have "b < 16" by (simp add: csr_capacities)
  with C b care_hit_extends [OF _ ok wf, of cp'] assms(3) True show ?thesis
    by (auto simp: rule_hits_as_def st' care_hit_set_care care_bit_hit_def udf_hit_def)
qed (use assms in \<open>simp add: care_udf_def\<close>)

lemma ipv6_cmp_word_hit:
  assumes "ipv6_cmp_word addr msk sel st w = Inr st'" and "rule_state_ok cp0 st" and "rule_hits_as st P"
  shows "rule_state_ok cp0 st'"
    and "rule_hits_as st' (\<lambda>k. P k \<and> masked_eq (fk_lane k (sel ! w)) (be_word msk w) (be_word addr w))"
proof -
  have c: "care_cmp (be_word msk w \<noteq> 0) (sel ! w) (be_word msk w) (be_word addr w AND be_word msk w) st = Inr st'"
    using assms(1) by (simp add: ipv6_cmp_word_def Let_def)
  show "rule_state_ok cp0 st'" by (rule care_cmp_ok [OF c assms(2)])
  show "rule_hits_as st' (\<lambda>k. P k \<and> masked_eq (fk_lane k (sel ! w)) (be_word msk w) (be_word addr w))"
    using care_cmp_hit [OF c assms(2,3)]
    by (auto simp: rule_hits_as_def lane_is_def masked_eq_def and.assoc)
qed

lemma append_ipv6_cmps_hit:
  assumes "append_ipv6_cmps cond addr msk sel st = Inr st'" and "rule_state_ok cp0 st"
    and "rule_hits_as st P"
  shows "rule_hits_as st' (\<lambda>k. P k \<and> (cond \<longrightarrow> ipv6_hit sel addr msk k))"
proof (cases cond)
  case True
  with assms(1) obtain s1 s2 s3 where
    s: "ipv6_cmp_word addr msk sel st 0 = Inr s1" "ipv6_cmp_word addr msk sel s1 1 = Inr s2"
      "ipv6_cmp_word addr msk sel s2 2 = Inr s3" "ipv6_cmp_word addr msk sel s3 3 = Inr st'"
    by (auto simp: append_ipv6_cmps_def rbind_eq_Inr)
  note h1 = ipv6_cmp_word_hit [OF s(1) assms(2,3)]
  note h2 = ipv6_cmp_word_hit [OF s(2) h1]
  note h3 = ipv6_cmp_word_hit [OF s(3) h2]
  note h4 = ipv6_cmp_word_hit [OF s(4) h3]
  have four: "(\<forall>w < (4::nat). Q w) \<longleftrightarrow> Q 0 \<and> Q 1 \<and> Q 2 \<and> Q 3" for Q
    by (auto simp: numeral_eq_Suc less_Suc_eq)
  from h4(2) True show ?thesis by (simp add: rule_hits_as_def ipv6_hit_def four)
qed (use assms in \<open>simp add: append_ipv6_cmps_def\<close>)

text \<open>Adding a rule appends its meaning and keeps the meaning of the rules before it.\<close>

lemma card_sem_extends:
  assumes "extends a b" and "card_wf a" and "card_wf b" and "cp_fc_rules b = cp_fc_rules a @ rs"
  shows "card_sem b = card_sem a @ map (rule_sem b) rs"
proof -
  have "rule_sem b r = rule_sem a r" if "r \<in> set (cp_fc_rules a)" for r
    using that assms(2) care_hit_extends [OF assms(1) _ assms(2,3)]
    by (simp add: rule_sem_def card_wf_def)
  with assms(4) show ?thesis by (simp add: card_sem_def)
qed

lemma append_fc_rule_sem:
  assumes ok: "append_fc_rule (fst st) r = Inr cp'" and st: "rule_state_ok cp st"
    and wf: "card_wf cp" and rules: "cp_fc_rules (fst st) = cp_fc_rules cp"
    and care: "rule_care r = snd st" and hit: "rule_hits_as st P"
  shows "card_sem cp' = card_sem cp @
    [\<lparr>rm_action = rule_action r, rm_egress = rule_egress r, rm_lif = rule_logical_if_id r,
      rm_priority = rule_priority r, rm_hit = P\<rparr>]"
proof -
  have cp': "cp' = fst st\<lparr>cp_fc_rules := cp_fc_rules (fst st) @ [r]\<rparr>"
    using ok by (auto simp: append_fc_rule_def split: if_splits)
  from append_fc_rule_ok [OF ok st care] have w: "card_wf cp'" "extends cp cp'" by auto
  have "care_hit cp' k (rule_care r) = care_hit (fst st) k (rule_care r)" for k
    by (simp add: care_hit_def care_bit_hit_def cp')
  then have "rule_sem cp' r = \<lparr>rm_action = rule_action r, rm_egress = rule_egress r,
      rm_lif = rule_logical_if_id r, rm_priority = rule_priority r, rm_hit = P\<rparr>"
    using hit by (simp add: rule_sem_def rule_hits_as_def care)
  then show ?thesis
    using card_sem_extends [OF w(2) wf w(1), of "[r]"] rules by (simp add: cp')
qed

lemma care_cmp_rules:
  "care_cmp c src msk val st = Inr st' \<Longrightarrow> cp_fc_rules (fst st') = cp_fc_rules (fst st)"
  by (auto simp: care_cmp_def append_fc_cmp_def rbind_eq_Inr split: if_splits option.splits)

lemma care_udf_rules:
  "care_udf c off msk val st = Inr st' \<Longrightarrow> cp_fc_rules (fst st') = cp_fc_rules (fst st)"
  by (auto simp: care_udf_def append_fc_udf_def rbind_eq_Inr split: if_splits option.splits)

lemma append_ipv6_cmps_rules:
  "append_ipv6_cmps c addr msk sel st = Inr st' \<Longrightarrow> cp_fc_rules (fst st') = cp_fc_rules (fst st)"
  by (auto simp: append_ipv6_cmps_def ipv6_cmp_word_def rbind_eq_Inr Let_def split: if_splits
      dest!: care_cmp_rules)

text \<open>One step of building a rule, all facts at once.\<close>

definition building :: "pw_card_program \<Rightarrow> (frame_key \<Rightarrow> bool) \<Rightarrow> pw_card_program \<times> u16 \<Rightarrow> bool" where
  "building cp P st \<longleftrightarrow>
     rule_state_ok cp st \<and> cp_fc_rules (fst st) = cp_fc_rules cp \<and> rule_hits_as st P"

lemma building_start: "card_wf cp \<Longrightarrow> building cp (\<lambda>_. True) (cp, 0)"
  by (simp add: building_def rule_state_ok_def rule_hits_as_def)

lemma building_cmp:
  "care_cmp c src msk val st = Inr st' \<Longrightarrow> building cp P st \<Longrightarrow>
     building cp (\<lambda>k. P k \<and> (c \<longrightarrow> lane_is src msk val k)) st'"
  unfolding building_def
  by (elim conjE, intro conjI, erule (1) care_cmp_ok, simp add: care_cmp_rules, erule (2) care_cmp_hit)

lemma building_udf:
  "care_udf c off msk val st = Inr st' \<Longrightarrow> building cp P st \<Longrightarrow>
     building cp (\<lambda>k. P k \<and> (c \<longrightarrow> masked_eq (fk_udf k off) msk val)) st'"
  unfolding building_def
  by (elim conjE, intro conjI, erule (1) care_udf_ok, simp add: care_udf_rules, erule (2) care_udf_hit)

lemma building_ipv6:
  "append_ipv6_cmps c addr msk sel st = Inr st' \<Longrightarrow> building cp P st \<Longrightarrow>
     building cp (\<lambda>k. P k \<and> (c \<longrightarrow> ipv6_hit sel addr msk k)) st'"
  unfolding building_def
  by (elim conjE, intro conjI, erule (1) append_ipv6_cmps_ok, simp add: append_ipv6_cmps_rules, erule (2) append_ipv6_cmps_hit)

lemma building_done:
  "append_fc_rule (fst st) r = Inr cp' \<Longrightarrow> building cp P st \<Longrightarrow> card_wf cp \<Longrightarrow> rule_care r = snd st \<Longrightarrow>
     card_sem cp' = card_sem cp @
       [\<lparr>rm_action = rule_action r, rm_egress = rule_egress r, rm_lif = rule_logical_if_id r,
         rm_priority = rule_priority r, rm_hit = P\<rparr>]"
  unfolding building_def by (rule append_fc_rule_sem) auto

lemma add_punt_rule_sem:
  assumes "add_punt_rule ref l cp a = Inr cp'" and wf: "card_wf cp"
  shows "card_sem cp' = card_sem cp @ [punt_meaning ref l a]"
proof -
  from assms(1) obtain s1 s2 s3 s4 s5 s6 where
    s1: "care_cmp True PWFPGA_FC_SRC_INGRESS 0xF (ucast (ref_local_port_id ref)) (cp, 0) = Inr s1" and
    s2: "care_cmp (lif_vlan l \<noteq> 0) PWFPGA_FC_SRC_VLAN 0x0FFF (ucast (lif_vlan l)) s1 = Inr s2" and
    s3: "care_cmp (pa_eth a \<noteq> 0) PWFPGA_FC_SRC_ETHERTYPE 0xFFFF (ucast (pa_eth a)) s2 = Inr s3" and
    s4: "care_cmp (pa_l3p a \<noteq> 0) PWFPGA_FC_SRC_L3_PROTO 0xFF (ucast (pa_l3p a)) s3 = Inr s4" and
    s5: "care_cmp (pa_l4port a \<noteq> 0) (pa_l4lane a) 0xFFFF (ucast (pa_l4port a)) s4 = Inr s5" and
    s6: "care_udf (pa_udf_val a \<noteq> 0) (pa_udf_off a) 0xFFFF0000 (pa_udf_val a) s5 = Inr s6" and
    fin: "append_fc_rule (fst s6)
       \<lparr>rule_care = snd s6, rule_action = PWFPGA_ACT_PUNT_TO_HOST, rule_egress = 0,
        rule_local_flow_id = 0, rule_logical_if_id = lif_id l, rule_priority = pa_prio a\<rparr> = Inr cp'"
    unfolding add_punt_rule_def rbind_eq_Inr by blast
  note b = building_udf [OF s6 building_cmp [OF s5 building_cmp [OF s4 building_cmp [OF s3
    building_cmp [OF s2 building_cmp [OF s1 building_start [OF wf]]]]]]]
  from building_done [OF fin b wf] show ?thesis
    by (simp add: punt_meaning_def punt_hit_def fun_eq_iff)
qed

lemma add_forward_rule_sem:
  assumes "add_forward_rule ing egr fr cp = Inr cp'" and wf: "card_wf cp"
  shows "card_sem cp' = card_sem cp @ [forward_meaning ing egr fr]"
proof -
  from assms(1) obtain s1 s2 s3 s4 s5 s6 s7 s8 where
    s1: "care_cmp True PWFPGA_FC_SRC_INGRESS 0xF (ucast (ref_local_port_id ing)) (cp, 0) = Inr s1" and
    s2: "care_cmp (fwd_vlan fr \<noteq> 0) PWFPGA_FC_SRC_VLAN 0x0FFF (ucast (fwd_vlan fr)) s1 = Inr s2" and
    s3: "care_cmp (fwd_ethertype fr \<noteq> 0) PWFPGA_FC_SRC_ETHERTYPE 0xFFFF (ucast (fwd_ethertype fr)) s2 = Inr s3" and
    s4: "care_cmp (fwd_ip_proto fr \<noteq> 0) PWFPGA_FC_SRC_L3_PROTO 0xFF (ucast (fwd_ip_proto fr)) s3 = Inr s4" and
    s5: "care_cmp (fwd_udp_dst fr \<noteq> 0) PWFPGA_FC_SRC_L4_DST 0xFFFF (ucast (fwd_udp_dst fr)) s4 = Inr s5" and
    s6: "care_cmp (fwd_ipv6_dst_set fr \<or> fwd_ipv6_src_set fr) PWFPGA_FC_SRC_FLAGS
           PWFPGA_FC_FLAG_IS_IPV6 PWFPGA_FC_FLAG_IS_IPV6 s5 = Inr s6" and
    s7: "append_ipv6_cmps (fwd_ipv6_dst_set fr) (fwd_ipv6_dst fr) (fwd_ipv6_dst_mask fr)
           ipv6_dst_sel s6 = Inr s7" and
    s8: "append_ipv6_cmps (fwd_ipv6_src_set fr) (fwd_ipv6_src fr) (fwd_ipv6_src_mask fr)
           ipv6_src_sel s7 = Inr s8" and
    fin: "append_fc_rule (fst s8)
       \<lparr>rule_care = snd s8, rule_action = PWFPGA_ACT_FORWARD_PORT,
        rule_egress = ref_local_port_id egr, rule_local_flow_id = 0, rule_logical_if_id = 0,
        rule_priority = fwd_priority fr\<rparr> = Inr cp'"
    unfolding add_forward_rule_def rbind_eq_Inr by blast
  note b = building_ipv6 [OF s8 building_ipv6 [OF s7 building_cmp [OF s6 building_cmp [OF s5
    building_cmp [OF s4 building_cmp [OF s3 building_cmp [OF s2 building_cmp [OF s1
    building_start [OF wf]]]]]]]]]
  from building_done [OF fin b wf] show ?thesis
    by (simp add: forward_meaning_def forward_hit_def fun_eq_iff conj_assoc)
qed

section \<open>All rules\<close>

text \<open>Each card's rules so far mean \<open>R\<close> of its id.\<close>

definition rules_are :: "pw_program \<Rightarrow> (u16 \<Rightarrow> rule_meaning list) \<Rightarrow> bool" where
  "rules_are p R \<longleftrightarrow> (\<forall>cp\<in>set (prog_per_card p). card_sem cp = R (cp_card_id cp))"

lemma rules_are_update:
  assumes inv: "prog_inv cfg k p" and dist: "distinct (map card_id (cfg_cards cfg))"
    and R: "rules_are p R" and i: "card_slot p cid = Some i"
    and cp: "card_sem cp = card_sem (prog_per_card p ! i) @ new"
      "cp_card_id cp = cp_card_id (prog_per_card p ! i)"
  shows "rules_are (upd_card i cp p) (\<lambda>c. R c @ (if c = cid then new else []))"
proof -
  let ?cs = "prog_per_card p"
  have iL: "i < length ?cs" and id: "cp_card_id (?cs ! i) = cid" using card_slot_SomeD [OF i] by auto
  have d: "distinct (map cp_card_id ?cs)" using inv dist by (simp add: prog_inv_def)
  have "card_sem (?cs[i := cp] ! j) = R (cp_card_id (?cs[i := cp] ! j)) @
      (if cp_card_id (?cs[i := cp] ! j) = cid then new else [])" if j: "j < length ?cs" for j
  proof (cases "j = i")
    case True
    with iL id cp R show ?thesis by (simp add: rules_are_def)
  next
    case False
    with d iL j id have "cp_card_id (?cs ! j) \<noteq> cid" by (auto simp: distinct_conv_nth)
    with False j R show ?thesis by (simp add: rules_are_def)
  qed
  then show ?thesis by (auto simp: rules_are_def upd_card_def in_set_conv_nth)
qed

lemma compile_punt_lif_sem:
  assumes "compile_punt_lif cfg p l = Inr p'" and inv: "prog_inv cfg k p"
    and dist: "distinct (map card_id (cfg_cards cfg))" and R: "rules_are p R"
  shows "rules_are p' (\<lambda>c. R c @ lif_rules cfg c l)"
proof -
  from assms(1) obtain ref i cp where
    ref: "resolve_port (cfg_cards cfg) (lif_global_port l) = Some ref" and
    i: "card_slot p (ref_card_id ref) = Some i" and
    f: "fold_res (add_punt_rule ref l) (prog_per_card p ! i) (punt_list (lif_punt l)) = Inr cp" and
    p': "p' = upd_card i cp p"
    by (auto simp: compile_punt_lif_def rbind_eq_Inr pw_config_resolve_port_def)
  have wf: "card_wf (prog_per_card p ! i)" using inv card_slot_SomeD [OF i] by (simp add: prog_inv_def)
  have "card_sem c' = card_sem c @ map (punt_meaning ref l) as \<and> cp_card_id c' = cp_card_id c"
    if "fold_res (add_punt_rule ref l) c as = Inr c'" "card_wf c" for c as c'
    using that
  proof (induction "as" arbitrary: c)
    case Nil
    then show ?case by simp
  next
    case (Cons a "as")
    from Cons.prems(1) obtain c1 where c1: "add_punt_rule ref l c a = Inr c1"
      "fold_res (add_punt_rule ref l) c1 as = Inr c'" by (auto simp: rbind_eq_Inr)
    from add_punt_rule_ok [OF c1(1) Cons.prems(2)] have "card_wf c1" "cp_card_id c1 = cp_card_id c"
      by (auto simp: extends_card_id)
    with Cons.IH [OF c1(2)] add_punt_rule_sem [OF c1(1) Cons.prems(2)] show ?case by simp
  qed
  from this [OF f wf] rules_are_update [OF inv dist R i] show ?thesis
    unfolding p' by (simp add: lif_rules_def ref eq_commute)
qed

lemma compile_forward_sem:
  assumes "compile_forward cfg p fr = Inr p'" and inv: "prog_inv cfg k p"
    and dist: "distinct (map card_id (cfg_cards cfg))" and R: "rules_are p R"
  shows "rules_are p' (\<lambda>c. R c @ forward_rules cfg c fr)"
proof -
  from assms(1) obtain ing egr i cp where
    P: "resolve_port (cfg_cards cfg) (fwd_ingress_port fr) = Some ing"
      "resolve_port (cfg_cards cfg) (fwd_egress_port fr) = Some egr" and
    i: "card_slot p (ref_card_id ing) = Some i" and
    f: "add_forward_rule ing egr fr (prog_per_card p ! i) = Inr cp" and p': "p' = upd_card i cp p"
    by (auto simp: compile_forward_def rbind_eq_Inr pw_config_resolve_port_def)
  have wf: "card_wf (prog_per_card p ! i)" using inv card_slot_SomeD [OF i] by (simp add: prog_inv_def)
  have "cp_card_id cp = cp_card_id (prog_per_card p ! i)"
    using add_forward_rule_ok [OF f wf] by (auto simp: extends_card_id)
  from rules_are_update [OF inv dist R i add_forward_rule_sem [OF f wf] this] show ?thesis
    unfolding p' by (simp add: forward_rules_def P eq_commute)
qed

text \<open>A loop whose iterations each append to the meaning.\<close>

lemma rules_loop:
  assumes "fold_res f p xs = Inr p'" and "prog_inv cfg k p" and "rules_are p R"
    and "\<And>p x p' R. x \<in> set xs \<Longrightarrow> f p x = Inr p' \<Longrightarrow> prog_inv cfg k p \<Longrightarrow> rules_are p R \<Longrightarrow>
           prog_inv cfg k p' \<and> rules_are p' (\<lambda>c. R c @ g c x)"
  shows "rules_are p' (\<lambda>c. R c @ concat (map (g c) xs))"
  using assms
proof (induction xs arbitrary: p R)
  case Nil
  then show ?case by simp
next
  case (Cons x xs)
  from Cons.prems(1) obtain q where q: "f p x = Inr q" "fold_res f q xs = Inr p'"
    by (auto simp: rbind_eq_Inr)
  have step: "prog_inv cfg k q" "rules_are q (\<lambda>c. R c @ g c x)"
    using Cons.prems(4) [OF _ q(1) Cons.prems(2,3)] by simp_all
  have "rules_are p' (\<lambda>c. (R c @ g c x) @ concat (map (g c) xs))"
  proof (rule Cons.IH [OF q(2) step])
    show "prog_inv cfg k b \<and> rules_are b (\<lambda>c. R' c @ g c y)"
      if "y \<in> set xs" "f a y = Inr b" "prog_inv cfg k a" "rules_are a R'" for a y b R'
      using Cons.prems(4) [OF _ that(2-4)] that(1) by simp
  qed
  then show ?case by simp
qed

text \<open>Compiling flows adds no rule; placing the hash table changes none.\<close>

lemma compile_rx_rules:
  "compile_rx f tr rx same rlf c = Inr cp' \<Longrightarrow> cp_fc_rules cp' = cp_fc_rules c"
  by (auto simp: compile_rx_def compile_header_classify_def append_hash_entry_def append_flow_def
      append_map_def Let_def split: if_splits)

lemma compile_one_flow_rules:
  assumes ok: "compile_one_flow cfg p (n, f) = Inr p'"
    and none: "\<forall>cp\<in>set (prog_per_card p). cp_fc_rules cp = []"
  shows "\<forall>cp\<in>set (prog_per_card p'). cp_fc_rules cp = []"
proof (rule compile_one_flow_cases [OF ok refl])
  let ?cs = "prog_per_card p"
  fix tx rx ti ri tlf rlf same
  assume i: "card_slot p (ref_card_id tx) = Some ti" "card_slot p (ref_card_id rx) = Some ri"
    and fin: "if flow_background f then prog_per_card p' = with_tx_row ?cs ti f tx same tlf
      else \<exists>cp'. compile_rx f (tx_row f tx same tlf) rx same rlf (with_tx_row ?cs ti f tx same tlf ! ri) = Inr cp' \<and>
                 prog_per_card p' = (with_tx_row ?cs ti f tx same tlf)[ri := cp']"
  let ?cs1 = "with_tx_row ?cs ti f tx same tlf"
  have e1: "\<forall>cp\<in>set ?cs1. cp_fc_rules cp = []"
    using none card_slot_SomeD [OF i(1)]
    by (auto simp: with_tx_row_def append_flow_def all_set_conv_all_nth nth_list_update)
  then have rx: "cp_fc_rules cp' = []" if "compile_rx f tr rx same rlf (?cs1 ! ri) = Inr cp'" for tr cp'
    using compile_rx_rules [OF that] card_slot_SomeD [OF i(2)] by (simp add: with_tx_row_def)
  show ?thesis
  proof (cases "flow_background f")
    case True
    with fin e1 show ?thesis by simp
  next
    case False
    with fin obtain cp' where "prog_per_card p' = ?cs1[ri := cp']" "cp_fc_rules cp' = []"
      using rx by auto
    with e1 show ?thesis using set_update_subset_insert [of ?cs1 ri cp'] by auto
  qed
qed

lemma compile_flows_rules:
  assumes "compile_flows cfg = Inr p"
  shows "rules_are p (\<lambda>_. [])"
proof -
  have "\<forall>cp\<in>set (prog_per_card p). cp_fc_rules cp = []"
  proof (rule fold_res_inv [OF assms [unfolded compile_flows_def]])
    show "\<forall>cp\<in>set (prog_per_card (init_program cfg)). cp_fc_rules cp = []"
      by (simp add: init_program_def empty_card_program_def)
    show "\<forall>cp\<in>set (prog_per_card q'). cp_fc_rules cp = []"
      if "\<forall>cp\<in>set (prog_per_card q). cp_fc_rules cp = []" "compile_one_flow cfg q x = Inr q'" for q x q'
      using compile_one_flow_rules that by (cases x) blast
  qed
  then show ?thesis by (simp add: rules_are_def card_sem_def)
qed

lemma hash_place_card_sem: "hash_place_card cfg cp = Inr cp' \<Longrightarrow> card_sem cp' = card_sem cp"
  by (simp add: card_sem_def rule_sem_def care_hit_def care_bit_hit_def hash_place_card_frame
      cong: map_cong)

lemma compile_rules_sem:
  assumes p: "compile_punt_rules cfg p1 = Inr p2" and f: "compile_forward_rules cfg p2 = Inr p3"
    and inv: "prog_inv cfg k p1" and dist: "distinct (map card_id (cfg_cards cfg))"
    and R: "rules_are p1 (\<lambda>_. [])"
  shows "rules_are p3 (card_rules_spec cfg)"
proof -
  have "rules_are p2 (\<lambda>c. [] @ concat (map (lif_rules cfg c) (cfg_logical_if cfg)))"
    by (rule rules_loop [OF p [unfolded compile_punt_rules_def] inv R])
      (use compile_punt_lif_inv compile_punt_lif_sem dist in blast)
  then have R2: "rules_are p2 (\<lambda>c. concat (map (lif_rules cfg c) (cfg_logical_if cfg)))" by simp
  have inv2: "prog_inv cfg k p2"
    by (rule fold_res_inv [where I = "prog_inv cfg k", OF p [unfolded compile_punt_rules_def] inv])
      (rule compile_punt_lif_inv)
  have "rules_are p3 (\<lambda>c. concat (map (lif_rules cfg c) (cfg_logical_if cfg)) @
      concat (map (forward_rules cfg c) (cfg_forwards cfg)))"
    by (rule rules_loop [OF f [unfolded compile_forward_rules_def] inv2 R2])
      (use compile_forward_inv compile_forward_sem dist in blast)
  then show ?thesis by (simp add: card_rules_spec_def rules_are_def)
qed

end
