(* ===== verification/PW_Compile_Live.thy ===== *)
theory PW_Compile_Live
  imports PW_Compile_Hash
begin

text \<open>
  When compilation succeeds: a valid configuration of at most one flow table's worth of flows
  never runs out of rows or hash entries, so only a flow id outside the flow-id map, the
  comparator and rule pools and the hash placement can refuse it. Also the errors a validated
  configuration can still meet.
\<close>

section \<open>Flows\<close>

text \<open>After \<open>k\<close> flows a card holds at most \<open>k\<close> rows and \<open>k\<close> hash entries.\<close>

definition loads_le :: "nat \<Rightarrow> pw_program \<Rightarrow> bool" where
  "loads_le k p \<longleftrightarrow>
     (\<forall>cp\<in>set (prog_per_card p). length (cp_flow_rows cp) \<le> k \<and> length (cp_hash_entries cp) \<le> k)"

definition map_id_ok :: "pw_flow \<Rightarrow> bool" where
  "map_id_ok f \<longleftrightarrow>
     flow_background f \<or> flow_classify_header f \<or> unat (flow_id f) < PWFPGA_FLOWID_MAP_DEPTH"

lemma card_slot_known:
  assumes "map cp_card_id (prog_per_card p) = map card_id (cfg_cards cfg)"
    and "resolve_port (cfg_cards cfg) gp = Some ref"
  obtains i where "card_slot p (ref_card_id ref) = Some i" "i < length (prog_per_card p)"
    "cp_card_id (prog_per_card p ! i) = ref_card_id ref"
proof -
  from resolve_port_card_known [OF assms(2)] have "ref_card_id ref \<in> cp_card_id ` set (prog_per_card p)"
    using assms(1) by (metis list.set_map)
  then have "card_slot p (ref_card_id ref) \<noteq> None" by (auto simp: card_slot_def find_idx_None)
  then obtain i where "card_slot p (ref_card_id ref) = Some i" by blast
  with card_slot_SomeD [OF this] that show thesis by blast
qed

lemma compile_rx_success:
  assumes "length (cp_hash_entries cp) < PWFPGA_HASH_DEPTH" and "map_id_ok f" and "\<not> flow_background f"
  shows "\<exists>cp'. compile_rx f tr rx same rlf cp = Inr cp' \<and> cp_card_id cp' = cp_card_id cp \<and>
    length (cp_flow_rows cp') \<le> length (cp_flow_rows cp) + (if same then 0 else 1) \<and>
    length (cp_hash_entries cp') \<le> Suc (length (cp_hash_entries cp))"
  using assms
  by (auto simp: compile_rx_def map_id_ok_def Let_def compile_header_classify_def append_hash_entry_def
      append_flow_def append_map_def)

lemma compile_one_flow_success:
  assumes ids: "map cp_card_id (prog_per_card p) = map card_id (cfg_cards cfg)"
    and ports: "resolve_port (cfg_cards cfg) (flow_tx_global_port f) = Some tx"
      "resolve_port (cfg_cards cfg) (flow_rx_global_port f) = Some rx"
    and load: "loads_le k p" "k < PWFPGA_FLOW_TABLE_ROWS" and idok: "map_id_ok f"
  shows "\<exists>p'. compile_one_flow cfg p (n, f) = Inr p' \<and> loads_le (Suc k) p' \<and>
    map cp_card_id (prog_per_card p') = map card_id (cfg_cards cfg)"
proof -
  let ?cs = "prog_per_card p"
  from card_slot_known [OF ids ports(1)] obtain ti where
    ti: "card_slot p (ref_card_id tx) = Some ti" "ti < length ?cs" "cp_card_id (?cs ! ti) = ref_card_id tx" .
  from card_slot_known [OF ids ports(2)] obtain ri where
    ri: "card_slot p (ref_card_id rx) = Some ri" "ri < length ?cs" "cp_card_id (?cs ! ri) = ref_card_id rx" .
  define same where "same = (ref_card_id tx = ref_card_id rx)"
  have same: "same \<longleftrightarrow> ti = ri" using ti ri by (auto simp: same_def)
  have le: "length (cp_flow_rows (?cs ! i)) \<le> k" "length (cp_hash_entries (?cs ! i)) \<le> k"
    if "i < length ?cs" for i using load(1) that by (simp_all add: loads_le_def)
  define tlf where "tlf = (of_nat (length (cp_flow_rows (?cs ! ti))) :: u32)"
  define rlf where "rlf = (if same \<or> flow_background f then tlf
                           else of_nat (length (cp_flow_rows (?cs ! ri))))"
  define tr where "tr = tx_row f tx same tlf"
  define cs1 where "cs1 = ?cs[ti := append_flow (?cs ! ti) tr]"
  define p2 where "p2 = p\<lparr>prog_per_card := cs1,
     prog_flow_meta := (prog_flow_meta p)[n := flow_meta_of f tx rx tlf rlf]\<rparr>"
  have cs1: "length (cp_flow_rows (cs1 ! i)) \<le> (if i = ti then Suc k else k)"
      "length (cp_hash_entries (cs1 ! i)) \<le> k" "cp_card_id (cs1 ! i) = cp_card_id (?cs ! i)"
    if "i < length ?cs" for i
    using le [OF that] that ti(2) by (auto simp: cs1_def nth_list_update append_flow_def)
  have len1: "length cs1 = length ?cs" by (simp add: cs1_def)
  have le1: "length (cp_flow_rows (cs1 ! i)) \<le> Suc k" if "i < length ?cs" for i
    using cs1(1) [OF that] by (auto split: if_splits)
  have run: "compile_one_flow cfg p (n, f) =
      (if flow_background f then Inr p2
       else rbind (compile_rx f tr rx same rlf (cs1 ! ri)) (\<lambda>cp'. Inr (upd_card ri cp' p2)))"
    using ports ti ri le(1) [OF ti(2)] le(1) [OF ri(2)] load(2)
    by (simp add: compile_one_flow_def pw_config_resolve_port_def Let_def same_def
        tlf_def rlf_def tr_def cs1_def upd_card_def p2_def)
  show ?thesis
  proof (cases "flow_background f")
    case True
    have "loads_le (Suc k) p2"
      using cs1(2) le1 len1 unfolding loads_le_def p2_def all_set_conv_all_nth
      by (auto intro: le_SucI)
    moreover have "map cp_card_id cs1 = map cp_card_id ?cs"
      by (rule nth_equalityI) (simp_all add: len1 cs1(3))
    ultimately show ?thesis using True ids run by (simp add: p2_def)
  next
    case False
    have "length (cp_hash_entries (cs1 ! ri)) < PWFPGA_HASH_DEPTH"
      using cs1(2) [OF ri(2)] load(2) by (simp add: csr_capacities)
    from compile_rx_success [OF this idok False] obtain cp' where
      cp': "compile_rx f tr rx same rlf (cs1 ! ri) = Inr cp'" "cp_card_id cp' = cp_card_id (cs1 ! ri)"
        "length (cp_flow_rows cp') \<le> length (cp_flow_rows (cs1 ! ri)) + (if same then 0 else 1)"
        "length (cp_hash_entries cp') \<le> Suc (length (cp_hash_entries (cs1 ! ri)))" by blast
    have "length (cp_flow_rows cp') \<le> Suc k" "length (cp_hash_entries cp') \<le> Suc k"
      using cp'(3,4) cs1(1,2) [OF ri(2)] same by (auto split: if_splits)
    then have "loads_le (Suc k) (upd_card ri cp' p2)"
      using cs1(2) le1 len1 ri(2) unfolding loads_le_def p2_def upd_card_def all_set_conv_all_nth
      by (auto simp: nth_list_update intro: le_SucI)
    moreover have "map cp_card_id (cs1[ri := cp']) = map cp_card_id ?cs"
      by (rule nth_equalityI) (auto simp: len1 cs1(3) cp'(2) nth_list_update ri)
    ultimately show ?thesis using False ids run cp'(1) by (simp add: p2_def upd_card_def)
  qed
qed

lemma compile_flows_success:
  assumes valid: "valid_config cfg" and n: "length (cfg_flows cfg) \<le> PWFPGA_FLOW_TABLE_ROWS"
    and idok: "\<forall>f\<in>set (cfg_flows cfg). map_id_ok f"
  shows "\<exists>p. compile_flows cfg = Inr p"
proof -
  let ?fs = "zip [0..<length (cfg_flows cfg)] (cfg_flows cfg)"
  have "\<exists>q. fold_res (compile_one_flow cfg) (init_program cfg) (take k ?fs) = Inr q \<and>
      loads_le k q \<and> map cp_card_id (prog_per_card q) = map card_id (cfg_cards cfg)"
    if "k \<le> length (cfg_flows cfg)" for k
    using that
  proof (induction k)
    case 0
    then show ?case
      by (auto simp: loads_le_def init_program_def empty_card_program_def comp_def)
  next
    case (Suc k)
    then obtain q where q: "fold_res (compile_one_flow cfg) (init_program cfg) (take k ?fs) = Inr q"
      "loads_le k q" "map cp_card_id (prog_per_card q) = map card_id (cfg_cards cfg)" by auto
    let ?f = "cfg_flows cfg ! k"
    have f: "?f \<in> set (cfg_flows cfg)" using Suc.prems by simp
    with valid have "valid_flow cfg ?f" by (simp add: valid_config_def)
    then obtain tx rx where "resolve_port (cfg_cards cfg) (flow_tx_global_port ?f) = Some tx"
      "resolve_port (cfg_cards cfg) (flow_rx_global_port ?f) = Some rx"
      by (auto simp: valid_flow_def)
    from compile_one_flow_success [OF q(3) this q(2)] Suc.prems n f idok obtain q' where
      "compile_one_flow cfg q (k, ?f) = Inr q'" "loads_le (Suc k) q'"
      "map cp_card_id (prog_per_card q') = map card_id (cfg_cards cfg)" by fastforce
    moreover have "take (Suc k) ?fs = take k ?fs @ [(k, ?f)]"
      using Suc.prems by (simp add: take_Suc_conv_app_nth)
    ultimately show ?case using q(1) by (simp add: fold_res_append)
  qed
  from this [of "length (cfg_flows cfg)"] show ?thesis by (auto simp: compile_flows_def)
qed

section \<open>Errors of a validated configuration\<close>

lemma append_fc_cmp_err: "append_fc_cmp cp src msk val = Inl e \<Longrightarrow> e = PW_E_NO_RESOURCES"
  by (auto simp: append_fc_cmp_def split: option.splits if_splits)

lemma append_fc_udf_err: "append_fc_udf cp off msk val = Inl e \<Longrightarrow> e = PW_E_NO_RESOURCES"
  by (auto simp: append_fc_udf_def split: option.splits if_splits)

lemma append_fc_rule_err: "append_fc_rule cp r = Inl e \<Longrightarrow> e = PW_E_NO_RESOURCES"
  by (auto simp: append_fc_rule_def split: if_splits)

lemma care_cmp_err: "care_cmp c src msk val st = Inl e \<Longrightarrow> e = PW_E_NO_RESOURCES"
  by (auto simp: care_cmp_def rbind_eq_Inl dest: append_fc_cmp_err split: if_splits prod.splits)

lemma care_udf_err: "care_udf c off msk val st = Inl e \<Longrightarrow> e = PW_E_NO_RESOURCES"
  by (auto simp: care_udf_def rbind_eq_Inl dest: append_fc_udf_err split: if_splits prod.splits)

lemma append_ipv6_cmps_err: "append_ipv6_cmps c addr msk sel st = Inl e \<Longrightarrow> e = PW_E_NO_RESOURCES"
  unfolding append_ipv6_cmps_def ipv6_cmp_word_def Let_def
  by (auto simp: rbind_eq_Inl dest: care_cmp_err split: if_splits)

lemma add_punt_rule_err: "add_punt_rule ref l cp a = Inl e \<Longrightarrow> e = PW_E_NO_RESOURCES"
  unfolding add_punt_rule_def rbind_eq_Inl
  by (elim disjE exE conjE) (auto dest: care_cmp_err care_udf_err append_fc_rule_err)

lemma add_forward_rule_err: "add_forward_rule ing egr fr cp = Inl e \<Longrightarrow> e = PW_E_NO_RESOURCES"
  unfolding add_forward_rule_def rbind_eq_Inl
  by (elim disjE exE conjE) (auto dest: care_cmp_err append_ipv6_cmps_err append_fc_rule_err)

definition ids_ok :: "pw_config \<Rightarrow> pw_program \<Rightarrow> bool" where
  "ids_ok cfg p \<longleftrightarrow> map cp_card_id (prog_per_card p) = map card_id (cfg_cards cfg)"

lemma ids_ok_inv: "prog_inv cfg k p \<Longrightarrow> ids_ok cfg p"
  by (simp add: ids_ok_def prog_inv_def)

lemma card_slot_ids_ok:
  "ids_ok cfg p \<Longrightarrow> resolve_port (cfg_cards cfg) gp = Some ref \<Longrightarrow> card_slot p (ref_card_id ref) \<noteq> None"
  unfolding ids_ok_def by (erule (1) card_slot_known) simp

lemma compile_rx_err:
  "compile_rx f tr rx same rlf cp = Inl e \<Longrightarrow> e = PW_E_NO_RESOURCES \<or> e = PW_E_INVAL"
  by (auto simp: compile_rx_def compile_header_classify_def append_hash_entry_def Let_def
      split: if_splits)

lemma compile_one_flow_err:
  assumes "compile_one_flow cfg p (n, f) = Inl e" and "ids_ok cfg p" and "valid_flow cfg f"
  shows "e = PW_E_NO_RESOURCES \<or> e = PW_E_INVAL"
proof -
  from assms(3) obtain tx rx where P: "resolve_port (cfg_cards cfg) (flow_tx_global_port f) = Some tx"
    "resolve_port (cfg_cards cfg) (flow_rx_global_port f) = Some rx" by (auto simp: valid_flow_def)
  from card_slot_ids_ok [OF assms(2) P(1)] card_slot_ids_ok [OF assms(2) P(2)] obtain ti ri where
    "card_slot p (ref_card_id tx) = Some ti" "card_slot p (ref_card_id rx) = Some ri" by auto
  with assms(1) P show ?thesis
    by (auto simp: compile_one_flow_def pw_config_resolve_port_def Let_def rbind_eq_Inl
        dest: compile_rx_err split: if_splits)
qed

lemma compile_punt_lif_err:
  assumes "compile_punt_lif cfg p l = Inl e" and "ids_ok cfg p"
    and "resolve_port (cfg_cards cfg) (lif_global_port l) \<noteq> None"
  shows "e = PW_E_NO_RESOURCES"
proof -
  from assms(3) obtain ref where ref: "resolve_port (cfg_cards cfg) (lif_global_port l) = Some ref" by auto
  with card_slot_ids_ok [OF assms(2) ref] assms(1) obtain i where
    "fold_res (add_punt_rule ref l) (prog_per_card p ! i) (punt_list (lif_punt l)) = Inl e"
    by (auto simp: compile_punt_lif_def pw_config_resolve_port_def rbind_eq_Inl)
  then show ?thesis
    by (rule fold_res_err [where I = "\<lambda>_. True"]) (auto dest: add_punt_rule_err)
qed

lemma compile_forward_err:
  assumes "compile_forward cfg p fr = Inl e" and "ids_ok cfg p" and "valid_forward (cfg_cards cfg) fr"
  shows "e = PW_E_NO_RESOURCES"
proof -
  from assms(3) obtain ing egr where P: "resolve_port (cfg_cards cfg) (fwd_ingress_port fr) = Some ing"
    "resolve_port (cfg_cards cfg) (fwd_egress_port fr) = Some egr" "ref_card_id ing = ref_card_id egr"
    by (auto simp: valid_forward_def)
  from card_slot_ids_ok [OF assms(2) P(1)] obtain i where "card_slot p (ref_card_id ing) = Some i" by auto
  with assms(1) P show ?thesis
    by (auto simp: compile_forward_def pw_config_resolve_port_def rbind_eq_Inl dest: add_forward_rule_err)
qed

lemma compile_flows_err:
  assumes "compile_flows cfg = Inl e" and valid: "valid_config cfg"
  shows "e = PW_E_NO_RESOURCES \<or> e = PW_E_INVAL"
proof -
  let ?I = "\<lambda>p. ids_ok cfg p \<and> (\<forall>cp\<in>set (prog_per_card p). card_wf cp)"
  show ?thesis
  proof (rule fold_res_err [where I = ?I, OF assms(1) [unfolded compile_flows_def]])
    show "?I (init_program cfg)"
      using init_program_inv [of cfg] ids_ok_inv by (auto simp: prog_inv_def)
  next
    fix p x p'
    assume x: "?I p" "compile_one_flow cfg p x = Inr p'"
    obtain n f where nf: "x = (n, f)" by (cases x)
    with x have wf: "\<forall>cp\<in>set (prog_per_card p). card_wf cp" by simp
    from compile_one_flow_ok [OF x(2) [unfolded nf] wf]
    show "?I p'" using x(1) cards_extend_ids by (metis ids_ok_def)
  next
    fix p x
    assume x: "x \<in> set (zip [0..<length (cfg_flows cfg)] (cfg_flows cfg))" "?I p"
      "compile_one_flow cfg p x = Inl e"
    obtain n f where nf: "x = (n, f)" by (cases x)
    with x(1) have "f \<in> set (cfg_flows cfg)" by (auto dest: set_zip_rightD)
    with valid have "valid_flow cfg f" by (simp add: valid_config_def)
    with x nf show "e = PW_E_NO_RESOURCES \<or> e = PW_E_INVAL" using compile_one_flow_err by blast
  qed
qed

lemma compile_rules_err:
  assumes valid: "valid_config cfg" and inv: "prog_inv cfg k p1"
  shows "compile_punt_rules cfg p1 = Inl e \<Longrightarrow> e = PW_E_NO_RESOURCES"
    and "compile_punt_rules cfg p1 = Inr p2 \<Longrightarrow> compile_forward_rules cfg p2 = Inl e \<Longrightarrow>
           e = PW_E_NO_RESOURCES"
proof -
  show "e = PW_E_NO_RESOURCES" if "compile_punt_rules cfg p1 = Inl e"
    by (rule fold_res_err [where I = "prog_inv cfg k", OF that [unfolded compile_punt_rules_def] inv])
      (use valid in \<open>auto simp: valid_config_def valid_lifs_def intro: compile_punt_lif_inv
         compile_punt_lif_err ids_ok_inv\<close>)
  show "e = PW_E_NO_RESOURCES"
    if p: "compile_punt_rules cfg p1 = Inr p2" and f: "compile_forward_rules cfg p2 = Inl e"
  proof (rule fold_res_err [where I = "prog_inv cfg k", OF f [unfolded compile_forward_rules_def]])
    show "prog_inv cfg k p2"
      by (rule fold_res_inv [where I = "prog_inv cfg k", OF p [unfolded compile_punt_rules_def] inv])
        (rule compile_punt_lif_inv)
  qed (use valid in \<open>auto simp: valid_config_def intro: compile_forward_inv compile_forward_err ids_ok_inv\<close>)
qed

lemma map_res_err: "map_res f xs = Inl e \<Longrightarrow> \<exists>x\<in>set xs. f x = Inl e"
  by (induction xs) (auto simp: rbind_eq_Inl)


section \<open>Success of the whole compilation\<close>

text \<open>A card has at most as many hash entries as there are header-classified flows.\<close>

definition hash_load_le :: "nat \<Rightarrow> pw_program \<Rightarrow> bool" where
  "hash_load_le k p \<longleftrightarrow> (\<forall>cp\<in>set (prog_per_card p). length (cp_hash_entries cp) \<le> k)"

lemma compile_rx_hash_load:
  "compile_rx f tr rx same rlf cp = Inr cp' \<Longrightarrow>
     length (cp_hash_entries cp') \<le> length (cp_hash_entries cp) + (if flow_classify_header f then 1 else 0)"
  by (auto simp: compile_rx_def compile_header_classify_def append_hash_entry_def append_flow_def append_map_def
      Let_def split: if_splits)

lemma compile_one_flow_hash_load:
  assumes ok: "compile_one_flow cfg p (n, f) = Inr p'" and load: "hash_load_le k p"
  shows "hash_load_le (k + (if flow_classify_header f then 1 else 0)) p'"
proof (rule compile_one_flow_cases [OF ok refl])
  let ?cs = "prog_per_card p" and ?k = "k + (if flow_classify_header f then 1 else 0)"
  fix tx rx ti ri tlf rlf same
  assume i: "card_slot p (ref_card_id tx) = Some ti" "card_slot p (ref_card_id rx) = Some ri"
    and fin: "if flow_background f then prog_per_card p' = with_tx_row ?cs ti f tx same tlf
      else \<exists>cp'. compile_rx f (tx_row f tx same tlf) rx same rlf (with_tx_row ?cs ti f tx same tlf ! ri) = Inr cp' \<and>
                 prog_per_card p' = (with_tx_row ?cs ti f tx same tlf)[ri := cp']"
  let ?cs1 = "with_tx_row ?cs ti f tx same tlf"
  have e1: "\<forall>cp\<in>set ?cs1. length (cp_hash_entries cp) \<le> k"
    using load card_slot_SomeD [OF i(1)] set_update_subset_insert [of ?cs ti]
    by (fastforce simp: hash_load_le_def with_tx_row_def append_flow_def)
  then have ri: "length (cp_hash_entries (?cs1 ! ri)) \<le> k"
    using card_slot_SomeD [OF i(2)] by (simp add: with_tx_row_def)
  show ?thesis
  proof (cases "flow_background f")
    case True
    with fin e1 show ?thesis by (auto simp: hash_load_le_def)
  next
    case False
    with fin obtain cp' where p': "prog_per_card p' = ?cs1[ri := cp']"
      and rx: "compile_rx f (tx_row f tx same tlf) rx same rlf (?cs1 ! ri) = Inr cp'" by auto
    have "length (cp_hash_entries cp') \<le> ?k" using compile_rx_hash_load [OF rx] ri by linarith
    then show ?thesis
      using e1 set_update_subset_insert [of ?cs1 ri cp'] by (fastforce simp: hash_load_le_def p')
  qed
qed

lemma compile_flows_hash_load:
  assumes "fold_res (compile_one_flow cfg) p xs = Inr q" and "hash_load_le k p"
  shows "hash_load_le (k + length (filter (flow_classify_header \<circ> snd) xs)) q"
  using assms
proof (induction xs arbitrary: p k)
  case (Cons x xs)
  from Cons.prems(1) obtain p' where p': "compile_one_flow cfg p (fst x, snd x) = Inr p'"
    "fold_res (compile_one_flow cfg) p' xs = Inr q" by (auto simp: rbind_eq_Inr)
  show ?case
    using Cons.IH [OF p'(2) compile_one_flow_hash_load [OF p'(1) Cons.prems(2)]]
    by (auto simp: hash_load_le_def)
qed simp

lemma filter_zip_snd: "length xs = length ys \<Longrightarrow> length (filter (P \<circ> snd) (zip xs ys)) = length (filter P ys)"
  by (induction xs ys rule: list_induct2) auto

text \<open>One key is placed at once, whatever the mask.\<close>

lemma hash_place_single:
  assumes "length (cp_hash_entries cp) \<le> 1"
  shows "\<exists>cp'. hash_place_card cfg cp = Inr cp'"
proof (cases "hash_place_card cfg cp")
  case (Inl e)
  have len: "length (masked_keys cfg cp) \<le> 1" using assms by (simp add: masked_keys_def)
  have single: "distinct xs" if "length xs \<le> 1" for xs :: "'a list"
    using that by (cases xs) auto
  have "distinct (masked_keys cfg cp)" "collision_free (hash_seed_of 0) (masked_keys cfg cp)"
    using single [OF len] single [of "map (\<lambda>k. pw_fc_hash_index k (hash_seed_of 0)) (masked_keys cfg cp)"] len
    by (simp_all add: collision_free_def)
  with Inl show ?thesis unfolding hash_place_card_Inl by auto
qed simp

lemma map_res_success: "\<forall>x\<in>set xs. \<exists>y. f x = Inr y \<Longrightarrow> \<exists>ys. map_res f xs = Inr ys"
  by (induction xs) auto

lemma compile_punt_none:
  assumes "\<forall>l\<in>set ls. punt_list (lif_punt l) = [] \<and> resolve_port (cfg_cards cfg) (lif_global_port l) \<noteq> None"
    and "ids_ok cfg p"
  shows "fold_res (compile_punt_lif cfg) p ls = Inr p"
  using assms
proof (induction ls)
  case (Cons l ls)
  then obtain ref where ref: "resolve_port (cfg_cards cfg) (lif_global_port l) = Some ref" by auto
  from card_slot_ids_ok [OF Cons.prems(2) ref] obtain i where i: "card_slot p (ref_card_id ref) = Some i" by auto
  have "upd_card i (prog_per_card p ! i) p = p" by (simp add: upd_card_def)
  then have "compile_punt_lif cfg p l = Inr p"
    using Cons.prems ref i by (simp add: compile_punt_lif_def pw_config_resolve_port_def)
  with Cons show ?case by simp
qed simp

lemma pw_flow_compile_success:
  assumes valid: "valid_config cfg" and n: "length (cfg_flows cfg) \<le> PWFPGA_FLOW_TABLE_ROWS"
    and idok: "\<forall>f\<in>set (cfg_flows cfg). map_id_ok f"
    and quiet: "\<forall>l\<in>set (cfg_logical_if cfg). punt_list (lif_punt l) = []" "cfg_forwards cfg = []"
    and one: "length (filter flow_classify_header (cfg_flows cfg)) \<le> 1"
  shows "\<exists>p. pw_flow_compile (Some cfg) = Inr p"
proof -
  from compile_flows_success [OF valid n idok] obtain p1 where p1: "compile_flows cfg = Inr p1" ..
  have inv: "prog_inv cfg (length (cfg_flows cfg)) p1"
    using compile_flows_inv [OF p1] valid by (simp add: valid_config_def)
  have lifs: "\<forall>l\<in>set (cfg_logical_if cfg). resolve_port (cfg_cards cfg) (lif_global_port l) \<noteq> None"
    using valid by (auto simp: valid_config_def valid_lifs_def)
  have p2: "compile_punt_rules cfg p1 = Inr p1" unfolding compile_punt_rules_def
    by (rule compile_punt_none) (use quiet lifs ids_ok_inv [OF inv] in auto)
  have "hash_load_le 0 (init_program cfg)" by (simp add: hash_load_le_def init_program_def empty_card_program_def)
  from compile_flows_hash_load [OF p1 [unfolded compile_flows_def] this]
  have "hash_load_le 1 p1" using one filter_zip_snd [of "[0..<length (cfg_flows cfg)]" "cfg_flows cfg"]
    by (auto simp: hash_load_le_def)
  then have "\<exists>cards. map_res (hash_place_card cfg) (prog_per_card p1) = Inr cards"
    by (intro map_res_success) (use hash_place_single in \<open>auto simp: hash_load_le_def\<close>)
  then obtain cards where "map_res (hash_place_card cfg) (prog_per_card p1) = Inr cards" ..
  moreover have "pw_config_validate (Some cfg) = PW_OK"
    using valid validate_cfg_None [of cfg] by (simp add: pw_config_validate_def)
  ultimately show ?thesis
    using p1 p2 quiet(2) by (simp add: pw_flow_compile_def compile_forward_rules_def)
qed

text \<open>Why a compilation fails.\<close>

lemma pw_flow_compile_err:
  assumes "pw_flow_compile (Some cfg) = Inl e"
  shows "\<not> valid_config cfg \<and> pw_config_validate (Some cfg) = e \<and> e \<noteq> PW_OK \<or>
    valid_config cfg \<and> (e = PW_E_NO_RESOURCES \<or> e = PW_E_INVAL)"
proof (cases "pw_config_validate (Some cfg) = PW_OK")
  case False
  with assms have e: "pw_config_validate (Some cfg) = e" "e \<noteq> PW_OK" by (auto simp: pw_flow_compile_def)
  have "\<not> valid_config cfg"
    using validate_cfg_None [of cfg] False by (auto simp: pw_config_validate_def split: option.splits)
  with e show ?thesis by simp
next
  case True
  then have val: "valid_config cfg"
    using validate_cfg_None [of cfg] validate_cfg_err [of cfg] by (auto simp: pw_config_validate_def split: option.splits)
  have "e = PW_E_NO_RESOURCES \<or> e = PW_E_INVAL"
  proof (cases "compile_flows cfg")
    case (Inl x)
    with assms True have "compile_flows cfg = Inl e" by (simp add: pw_flow_compile_def)
    then show ?thesis by (rule compile_flows_err [OF _ val])
  next
    case (Inr p1)
    have inv: "prog_inv cfg (length (cfg_flows cfg)) p1"
      using compile_flows_inv [OF Inr] val by (simp add: valid_config_def)
    note E = compile_rules_err [OF val inv]
    have "compile_punt_rules cfg p1 = Inl e \<or>
        (\<exists>p2. compile_punt_rules cfg p1 = Inr p2 \<and> (compile_forward_rules cfg p2 = Inl e \<or>
          (\<exists>p3. compile_forward_rules cfg p2 = Inr p3 \<and> map_res (hash_place_card cfg) (prog_per_card p3) = Inl e)))"
      using assms True Inr by (simp add: pw_flow_compile_def rbind_eq_Inl)
    then show ?thesis
    proof (elim disjE exE conjE)
      fix p2 p3
      assume "map_res (hash_place_card cfg) (prog_per_card p3) = Inl e"
      from map_res_err [OF this] show ?thesis by (auto simp: hash_place_card_Inl)
    qed (use E in blast)+
  qed
  with val show ?thesis by simp
qed

end
