(* ===== verification/PW_Example.thy ===== *)
theory PW_Example
  imports PW_Compile_Rules PW_Compile_Live PW_Lookup PW_Config_Doc "HOL-Library.Code_Target_Numeral"
begin

text \<open>
  A small lab set-up that the properties spanning the compiler and the backends are applied to: the
  configuration, that it validates and compiles, and a freshly mapped card.
\<close>

section \<open>An example set-up\<close>

text \<open>
  Two cards of two ports each, a flow that stays on one card, a header-classified flow between the
  cards whose source address is modified, and a background flow; and a freshly mapped BAR.
\<close>

definition ex_card :: "u16 \<Rightarrow> u16 \<Rightarrow> pw_card" where
  "ex_card cid gp = \<lparr>card_id = cid, card_name = ''c'', card_pci = dec_string (unat cid),
     card_ports = [\<lparr>cport_local_port = 0, cport_global_port = gp, cport_name = ''a''\<rparr>,
                   \<lparr>cport_local_port = 1, cport_global_port = gp + 1, cport_name = ''b''\<rparr>]\<rparr>"

definition ex_flow :: "u32 \<Rightarrow> u16 \<Rightarrow> u16 \<Rightarrow> bool \<Rightarrow> bool \<Rightarrow> pw_flow" where
  "ex_flow fid tx rx bg hdr = zero_flow\<lparr>flow_id := fid, flow_tx_global_port := tx, flow_rx_global_port := rx,
     flow_ipv4 := zero_ipv4\<lparr>v4_present := True, v4_src := 0x0A000001, v4_dst := 0x0A000002\<rparr>,
     flow_udp := zero_udp\<lparr>udp_src_port := 1000, udp_dst_port := 2000 + ucast fid,
                          udp_l4_proto := 17, udp_tcp_flags := 0x02\<rparr>,
     flow_traffic := zero_traffic\<lparr>tr_frame_len_fixed_set := True, tr_frame_len_fixed := 128,
                                  tr_rate_bps := 1000000\<rparr>,
     flow_match_udp_dst_mask := 0xFFFF, flow_match_ipv4_dst_mask := 0xFFFFFFFF,
     flow_mod := zero_modifiers\<lparr>mod_src_ipv4 := \<lparr>fm_mode = 2, fm_mask = 0xFF\<rparr>\<rparr>,
     flow_background := bg, flow_classify_header := hdr\<rparr>"

definition ex_config :: pw_config where
  "ex_config = pw_config_new\<lparr>
     cfg_system := \<lparr>sys_name = ''lab'', sys_mode = ''multi-card'', sys_default_speed = ''10g'',
       sys_stats_poll_interval_ms = 100, sys_control_socket = ''/run/pw'', sys_secret = []\<rparr>,
     cfg_cards := [ex_card 0 0, ex_card 1 2],
     cfg_flows := [ex_flow 1 0 1 False False, ex_flow 2 0 2 False True, ex_flow 3 1 3 True False]\<rparr>"

definition ex_bar :: bar_ctx where
  "ex_bar = \<lparr>bar_mem = \<lambda>_. 0, bar_size = 0x100000, bar_csr_off = 0\<rparr>"

lemma ex_config_valid: "pw_config_validate (Some ex_config) = PW_OK"
  by code_simp

lemma ex_flow_arrays: "\<forall>f\<in>set (cfg_flows ex_config). flow_arrays f"
  by (simp add: ex_config_def pw_config_new_def flow_arrays_def ex_flow_def zero_flow_def zero_l2_def zero_ipv6_def
      zero_encap_def zero_bytes_def)

lemma ex_flows [simp]:
  "cfg_flows ex_config = [ex_flow 1 0 1 False False, ex_flow 2 0 2 False True, ex_flow 3 1 3 True False]"
  "map card_id (cfg_cards ex_config) = [0, 1]"
  by (simp_all add: ex_config_def ex_card_def)

lemma ex_flow_sel [simp]:
  "flow_id (ex_flow i t r b h) = i" "flow_background (ex_flow i t r b h) = b"
  "flow_classify_header (ex_flow i t r b h) = h"
  "flow_rx_global_port (ex_flow i t r b h) = r" "flow_tx_global_port (ex_flow i t r b h) = t"
  by (simp_all add: ex_flow_def)

lemma ex_header_flow:
  "1 < length (cfg_flows ex_config)" "ex_flow 2 0 2 False True = cfg_flows ex_config ! 1"
  "\<not> flow_background (ex_flow 2 0 2 False True)" "flow_classify_header (ex_flow 2 0 2 False True)"
  by simp_all

lemma ex_valid: "valid_config ex_config"
  using ex_config_valid validate_cfg_None [of ex_config] validate_cfg_err [of ex_config]
  by (auto simp: pw_config_validate_def split: option.splits)

lemma ex_compiles: "\<exists>p. pw_flow_compile (Some ex_config) = Inr p"
  by (rule pw_flow_compile_success [OF ex_valid])
    (simp_all add: csr_capacities map_id_ok_def ex_config_def pw_config_new_def)

text \<open>The example as a document: the events of libyaml for it, all on line 1.\<close>

definition ex_events :: "yaml_event list" where
  "ex_events = document 1 1 (map (\<lambda>k. (k, 1)) (kinds (yaml_of_config ex_config))) 1 1"

definition ex_files :: "string \<Rightarrow> (int \<times> string) option" where
  "ex_files path = (if path = ''lab.yaml'' then Some (1, ''x'') else None)"

lemma ex_config_ok: "config_ok ex_config"
  by (simp add: config_ok_def ex_config_def pw_config_new_def system_ok_def card_ok_def port_ok_def ex_card_def pw_limits
      flow_ok_def l2_ok_def endpoint_ok_def encap_ok_def udp_ok_def traffic_ok_def frame_len_ok_def mods_ok_def fm_ok_def
      prefix_ok_def ex_flow_def zero_flow_def zero_l2_def zero_ipv6_def zero_ipv4_def zero_encap_def zero_modifiers_def zero_field_mod_def
      zero_traffic_def zero_udp_def payloads_def frame_templates_def dec_string.simps
      PWFPGA_PAYLOAD_ZERO_def PW_FRAME_TEMPLATE_TEST_def PW_RX_INNER_def)

lemma ex_config_texts: "list_all nul_free (config_texts ex_config)"
  by (simp add: config_texts_def system_texts_def card_texts_def ex_config_def pw_config_new_def ex_card_def ex_flow_def
      zero_flow_def clean)

lemma ex_read: "pw_config_parse_file (\<lambda>_. ex_events) ex_files (Some ''lab.yaml'') (Some pw_config_new) = Inr ex_config"
proof -
  have k: "map fst (map (\<lambda>k. (k, 1)) (kinds (yaml_of_config ex_config))) = kinds (yaml_of_config ex_config)"
    by (simp add: comp_def)
  show ?thesis
    using config_read_back [OF ex_config_ok ex_config_texts ex_events_def k]
    by (simp add: pw_config_parse_file_def pw_config_parse_file_ex_def ex_files_def)
qed

lemma ex_resolve:
  "pw_config_resolve_port (Some ex_config) 0 = Inr \<lparr>ref_card_id = 0, ref_local_port_id = 0, ref_global_port_id = 0\<rparr>"
  "pw_config_resolve_port (Some ex_config) 1 = Inr \<lparr>ref_card_id = 0, ref_local_port_id = 1, ref_global_port_id = 1\<rparr>"
  "pw_config_resolve_port (Some ex_config) 2 = Inr \<lparr>ref_card_id = 1, ref_local_port_id = 0, ref_global_port_id = 2\<rparr>"
  "pw_config_resolve_port (Some ex_config) 3 = Inr \<lparr>ref_card_id = 1, ref_local_port_id = 1, ref_global_port_id = 3\<rparr>"
  by code_simp+

lemma ex_bar_ready: "card_ready ex_bar cp"
  by (simp add: card_ready_def bar_live_def ex_bar_def bar_get_def)

lemma rotated_key_self: "rotated_key f (pw_fc_hash_words f) = pw_fc_hash_words f"
  by (rule nth_equalityI) (simp_all add: rotated_key_def bit.conj_disj_distrib [symmetric] or.commute)

lemma placed_cards:
  assumes "flow_placed cfg cards f m"
    and "pw_config_resolve_port (Some cfg) (flow_tx_global_port f) = Inr tx"
    and "pw_config_resolve_port (Some cfg) (flow_rx_global_port f) = Inr rx"
  shows "meta_tx_card_id m = ref_card_id tx" "meta_rx_card_id m = ref_card_id rx"
proof -
  have m: "m = flow_meta_of f tx rx (meta_tx_local_flow_id m) (meta_rx_local_flow_id m)"
    using assms unfolding flow_placed_def by auto
  show "meta_tx_card_id m = ref_card_id tx" by (subst m) (simp add: flow_meta_of_def)
  show "meta_rx_card_id m = ref_card_id rx" by (subst m) (simp add: flow_meta_of_def)
qed

lemma ex_program:
  obtains p c0 c1 where "pw_flow_compile (Some ex_config) = Inr p" "prog_per_card p = [c0, c1]"
    "cp_card_id c0 = 0" "cp_card_id c1 = 1"
    "meta_rx_card_id (prog_flow_meta p ! 0) = 0" "meta_rx_card_id (prog_flow_meta p ! 1) = 1"
    "meta_tx_card_id (prog_flow_meta p ! 0) = 0" "meta_tx_card_id (prog_flow_meta p ! 1) = 0"
proof -
  from ex_compiles obtain p where p: "pw_flow_compile (Some ex_config) = Inr p" ..
  have "map cp_card_id (prog_per_card p) = [0, 1]" using pw_flow_compile_ok(2) [OF p] by simp
  then obtain c0 c1 where c: "prog_per_card p = [c0, c1]" "cp_card_id c0 = 0" "cp_card_id c1 = 1"
    by (auto simp: map_eq_Cons_conv)
  have P: "flow_placed ex_config (prog_per_card p) (cfg_flows ex_config ! j) (prog_flow_meta p ! j)" if "j < 3" for j
    using pw_flow_compile_ok(5) [OF p, of j] that by simp
  note m0 = placed_cards [OF P [of 0, simplified], simplified ex_flow_sel, OF ex_resolve(1,2)]
  note m1 = placed_cards [OF P [of 1, simplified], simplified ex_flow_sel, OF ex_resolve(1,3)]
  show thesis by (rule that [OF p c]) (use m0 m1 in simp_all)
qed


end
