(* ===== verification/PW_Daemon_Bar.thy ===== *)
theory PW_Daemon_Bar
  imports PW_Daemon_Sync PW_Example
begin

text \<open>
  The daemon on BAR cards: the hardware is the BAR of every PCI address, the operations of a card are
  \<^verbatim>\<open>backend_bar.c\<close>'s on its own BAR, and the contracts of the daemon hold of them.
\<close>

section \<open>BARs by PCI address\<close>

type_synonym bars = "string \<Rightarrow> bar_ctx"

definition on_bar :: "string \<Rightarrow> (bar_ctx \<Rightarrow> bar_ctx \<times> 'a) \<Rightarrow> bars \<Rightarrow> bars \<times> 'a" where
  "on_bar pci f w = (w(pci := fst (f (w pci))), snd (f (w pci)))"

definition bar_ops_at :: "string \<Rightarrow> bars pw_card_backend_ops" where
  "bar_ops_at pci =
     \<lparr>op_write32 = Some (\<lambda>w a v. on_bar pci (\<lambda>c. bar_write32 c a v) w),
      op_card_info = Some (\<lambda>w. bar_card_info (w pci)),
      op_flow_write = Some (\<lambda>w r f. on_bar pci (\<lambda>c. bar_flow_write c r f) w),
      op_flow_commit = Some (on_bar pci bar_flow_commit)\<rparr>"

definition bar_at :: "string \<Rightarrow> bars backend" where
  "bar_at pci = (bar_ops_at pci, Some (\<lambda>w a. (w, bar_read32 (w pci) a)))"

definition bar_cards :: "string list \<Rightarrow> bars card_runtime list" where
  "bar_cards pcis = map (\<lambda>pci. opened ''bar'' (Inr (bar_at pci))) pcis"

lemma bar_cards_simps [simp]:
  "length (bar_cards pcis) = length pcis"
  "i < length pcis \<Longrightarrow> cr_ops (bar_cards pcis ! i) = bar_ops_at (pcis ! i)"
  "i < length pcis \<Longrightarrow> cr_read32 (bar_cards pcis ! i) = Some (\<lambda>w a. (w, bar_read32 (w (pcis ! i)) a))"
  "card_open (bar_cards pcis) i = (i < length pcis)"
  by (auto simp: bar_cards_def opened_def bar_at_def card_open_def)

lemma bar_ops_simps [simp]:
  "op_write32 (bar_ops_at pci) = Some (\<lambda>w a v. on_bar pci (\<lambda>c. bar_write32 c a v) w)"
  "op_flow_write (bar_ops_at pci) = Some (\<lambda>w r f. on_bar pci (\<lambda>c. bar_flow_write c r f) w)"
  "op_flow_commit (bar_ops_at pci) = Some (on_bar pci bar_flow_commit)"
  "op_write32 bar_ops = Some bar_write32" "op_flow_write bar_ops = Some bar_flow_write" "op_flow_commit bar_ops = Some bar_flow_commit"
  by (simp_all add: bar_ops_at_def bar_ops_def)

text \<open>A sequence of operations on one BAR is the operation of the sequence.\<close>

lemma chk_on_bar: "chk s (on_bar pci f w) = (w(pci := fst (chk s (f (w pci)))), snd (chk s (f (w pci))))"
  by (simp add: chk_def on_bar_def)

lemma foldl_on_bar:
  "foldl (\<lambda>(w, s) x. chk s (on_bar pci (\<lambda>c. g c x) w)) (w, s) xs =
     (w(pci := fst (foldl (\<lambda>(c, s) x. chk s (g c x)) (w pci, s) xs)), snd (foldl (\<lambda>(c, s) x. chk s (g c x)) (w pci, s) xs))"
proof (induction xs arbitrary: w s)
  case (Cons x xs)
  obtain c1 s1 where e: "chk s (g (w pci) x) = (c1, s1)" by (metis surj_pair)
  have "(\<lambda>(w, s) x. chk s (on_bar pci (\<lambda>c. g c x) w)) (w, s) x = (w(pci := c1), s1)" by (simp add: chk_on_bar e)
  then show ?case unfolding foldl.simps by (simp only: Cons.IH) (auto simp: e)
qed simp

lemma program_on_bar:
  "pw_program_card_tables_diag (Some (bar_ops_at pci)) w (Some cp) =
     on_bar pci (\<lambda>c. pw_program_card_tables (Some bar_ops) c (Some cp)) w"
proof -
  have info: "local_flows (bar_ops_at pci) w = local_flows bar_ops (w pci)" by (simp add: local_flows_def bar_ops_at_def bar_ops_def)
  have miss: "\<not> missing_op (bar_ops_at pci) cp" "\<not> missing_op bar_ops cp" by (simp_all add: missing_op_def bar_ops_at_def bar_ops_def)
  let ?n = "rows_to_write (local_flows bar_ops (w pci)) (length (cp_flow_rows cp))"
  obtain c1 s1 where r: "write_rows bar_flow_write cp ?n (w pci, PW_OK) = (c1, s1)" by (metis surj_pair)
  have r': "write_rows (\<lambda>w r f. on_bar pci (\<lambda>c. bar_flow_write c r f) w) cp ?n (w, PW_OK) = (w(pci := c1), s1)"
    using foldl_on_bar [of pci "\<lambda>c r. bar_flow_write c (of_nat r) (Some (row_image cp r))" w PW_OK "[0..<?n]"] r
    by (simp add: write_rows_def)
  have t: "chk_writes (\<lambda>w a v. on_bar pci (\<lambda>c. bar_write32 c a v) w) ws (w, s) =
      (w(pci := fst (chk_writes bar_write32 ws (w pci, s))), snd (chk_writes bar_write32 ws (w pci, s)))" for w ws s
    using foldl_on_bar [of pci "\<lambda>c (a, v). bar_write32 c a v" w s ws]
    by (simp add: chk_writes_def case_prod_unfold)
  show ?thesis
    unfolding on_bar_def [where f = "\<lambda>c. pw_program_card_tables (Some bar_ops) c (Some cp)"]
    by (auto simp: pw_program_card_tables_def pw_program_card_tables_diag_def info miss Let_def r' r chk_on_bar t)
qed

section \<open>One card\<close>

definition nlf :: "bar_ctx \<Rightarrow> nat" where
  "nlf c = unat (ucast (bar_get c PWFPGA_REG_NUM_LOCAL_FLOWS) :: u16)"

text \<open>A BAR that holds a card program: its tables, and the rows of the program and of the card.\<close>

definition card_holds :: "bar_ctx \<Rightarrow> pw_card_program \<Rightarrow> bool" where
  "card_holds c cp \<longleftrightarrow> program_in_range cp \<and> holds_tables (bar_get c) cp \<and>
     (\<forall>r < PWFPGA_FLOW_TABLE_ROWS. r < nlf c \<or> r < length (cp_flow_rows cp) \<longrightarrow>
        row_bytes c (of_nat r) = flow_config_bytes (row_image cp r))"

text \<open>A change outside the tables, the rows and the capacity register.\<close>

lemma card_holds_cong:
  assumes "\<And>a. csr_word a \<Longrightarrow> unat a = 0x18 \<or> unat a \<in> {0x400..<0x800} \<union> {0x2000..<0x2400} \<union> {0x2F00..<0x5000} \<union> {0x6000..<0x9FFC} \<Longrightarrow>
      bar_get c' a = bar_get c a"
  shows "nlf c' = nlf c" "card_holds c' = card_holds c"
proof -
  show n: "nlf c' = nlf c" using assms [of PWFPGA_REG_NUM_LOCAL_FLOWS] by (simp add: nlf_def csr_word_def csr_regs)
  have t: "bar_get c' a = bar_get c a" if "program_in_range cp" "last_write (table_writes cp) a = Some v" for cp a v
  proof (rule assms)
    from last_write_in [OF that(2)] have m: "(a, v) \<in> set (table_writes cp)" .
    show "csr_word a" by (rule table_writes_csr(1) [OF that(1) m])
    have "unat a \<in> addrs (table_writes cp)" using m by (force simp: addrs_def)
    with table_writes_addrs [OF that(1)]
    show "unat a = 0x18 \<or> unat a \<in> {0x400..<0x800} \<union> {0x2000..<0x2400} \<union> {0x2F00..<0x5000} \<union> {0x6000..<0x9FFC}" by blast
  qed
  have r: "row_bytes c' (of_nat r) = row_bytes c (of_nat r)" if "r < PWFPGA_FLOW_TABLE_ROWS" for r
    by (rule row_bytes_cong) (use that assms in auto)
  have "holds_tables (bar_get c') cp = holds_tables (bar_get c) cp" if "program_in_range cp" for cp
    using t [OF that] by (auto simp: holds_tables_def)
  then show "card_holds c' = card_holds c" using r by (auto simp: card_holds_def n fun_eq_iff)
qed

lemma control_reg_csr:
  assumes "control_reg a"
  shows "csr_word a" "unat a \<noteq> 0x18" "unat a \<notin> {0x400..<0x800} \<union> {0x2000..<0x2400} \<union> {0x2F00..<0x5000} \<union> {0x6000..<0x9FFC}"
proof -
  have "unat a = 0xFFF4 \<or> unat a = 0xFFF8 \<or> unat a = 0x130 \<or> (\<exists>slot < 64. unat a = 0x180 + 4 * (2 * slot) \<or> unat a = 0x180 + 4 * (2 * slot + 1))"
    using assms correction_base_nat correction_hi_nat unfolding control_reg_def by (auto simp: csr_regs csr_capacities)
  then have "\<exists>k. unat a = 4 * k \<and> (k = 0x3FFD \<or> k = 0x3FFE \<or> k = 0x4C \<or> 0x60 \<le> k \<and> k < 0xE0)" by presburger
  then have "csr_word a \<and> unat a \<noteq> 0x18 \<and> unat a \<notin> {0x400..<0x800} \<union> {0x2000..<0x2400} \<union> {0x2F00..<0x5000} \<union> {0x6000..<0x9FFC}"
    by (auto simp: csr_word_def)
  then show "csr_word a" "unat a \<noteq> 0x18" "unat a \<notin> {0x400..<0x800} \<union> {0x2000..<0x2400} \<union> {0x2F00..<0x5000} \<union> {0x6000..<0x9FFC}"
    by blast+
qed

lemma bar_control:
  assumes "bar_live c" "control_reg a"
  shows "snd (bar_write32 c a v) = PW_OK" "bar_live (fst (bar_write32 c a v))" "nlf (fst (bar_write32 c a v)) = nlf c"
    "card_holds (fst (bar_write32 c a v)) = card_holds c"
proof -
  note R = control_reg_csr [OF assms(2)]
  show "snd (bar_write32 c a v) = PW_OK" by (rule bar.write_ok [OF assms(1) R(1)])
  show "bar_live (fst (bar_write32 c a v))" by (rule bar.write_live [OF assms(1) R(1)])
  have k: "bar_get (fst (bar_write32 c a v)) b = bar_get c b"
    if "csr_word b" "unat b = 0x18 \<or> unat b \<in> {0x400..<0x800} \<union> {0x2000..<0x2400} \<union> {0x2F00..<0x5000} \<union> {0x6000..<0x9FFC}" for b
    using bar.read_back [OF assms(1) R(1) that(1), of v] that(2) R(2,3) by auto
  show "nlf (fst (bar_write32 c a v)) = nlf c" "card_holds (fst (bar_write32 c a v)) = card_holds c"
    using card_holds_cong [OF k] by blast+
qed

lemma bar_programs:
  assumes "bar_live c" "good_card cp" "pw_program_card_tables (Some bar_ops) c (Some cp) = (c', s)"
  shows "bar_live c'" "nlf c' = nlf c" "s = PW_OK \<longleftrightarrow> nlf c = 0 \<or> length (cp_flow_rows cp) \<le> nlf c" "s = PW_OK \<Longrightarrow> card_holds c' cp"
proof -
  have R: "program_in_range cp" and wf: "\<forall>r\<in>set (cp_flow_rows cp). row_wf r" using assms(2) by (simp_all add: good_card_def)
  have "bar_live c' \<and> nlf c' = nlf c \<and> (s = PW_OK \<longleftrightarrow> nlf c = 0 \<or> length (cp_flow_rows cp) \<le> nlf c) \<and> (s = PW_OK \<longrightarrow> card_holds c' cp)"
  proof (cases "nlf c = 0 \<or> length (cp_flow_rows cp) \<le> nlf c")
    case True
    note B = bar_program [OF assms(1) R wf nlf_def True assms(3)]
    have "unat PWFPGA_REG_NUM_LOCAL_FLOWS \<notin> addrs (table_writes cp)"
      using table_writes_addrs [OF R] by (auto simp: csr_regs)
    then have n: "nlf c' = nlf c"
      using B(6) [of PWFPGA_REG_NUM_LOCAL_FLOWS] last_write_None by (simp add: nlf_def csr_word_def csr_regs)
    moreover have "card_holds c' cp"
      unfolding card_holds_def holds_tables_def n using R B(2,3) by blast
    ultimately show ?thesis using B(1,5) True by blast
  next
    case False
    have "local_flows bar_ops c = Some (nlf c)" by (simp add: local_flows_def bar_ops_def bar_card_info_def nlf_def)
    with False assms(1,3) R show ?thesis
      by (auto simp: pw_program_card_tables_def pw_program_card_tables_diag_def over_capacity_def Let_def)
  qed
  then show "bar_live c'" "nlf c' = nlf c" "s = PW_OK \<longleftrightarrow> nlf c = 0 \<or> length (cp_flow_rows cp) \<le> nlf c" "s = PW_OK \<Longrightarrow> card_holds c' cp"
    by blast+
qed

lemma bar_writes_row:
  assumes "bar_live c" "good_card cp" "r < length (cp_flow_rows cp)" "row_wf f"
    and w: "bar_flow_write c (of_nat r) (Some f) = (c1, s1)"
  shows "s1 = PW_OK" "snd (bar_flow_commit c1) = PW_OK" "bar_live (fst (bar_flow_commit c1))" "nlf (fst (bar_flow_commit c1)) = nlf c"
    "card_holds c cp \<Longrightarrow> card_holds (fst (bar_flow_commit c1)) (with_row r f cp)"
proof -
  have R: "program_in_range cp" using assms(2) by (simp add: good_card_def)
  then have r: "r < PWFPGA_FLOW_TABLE_ROWS" using assms(3) by (simp add: program_in_range_def)
  then have u: "unat (of_nat r :: u32) < PWFPGA_FLOW_TABLE_ROWS" by simp
  have c1: "c1 = fst (bar_flow_write c (of_nat r) (Some f))" by (simp add: w)
  note W = bar_flow_write_row [OF assms(1) u assms(4), folded c1]
  show "s1 = PW_OK" using bar_flow_write_ok_iff [OF assms(1), of "of_nat r" f] u w by simp
  have cw: "csr_word PWFPGA_REG_FLOW_COMMIT" by (simp add: csr_word_def csr_regs)
  define c2 where "c2 = fst (bar_flow_commit c1)"
  have commit: "bar_flow_commit c1 = (bar_put c1 PWFPGA_REG_FLOW_COMMIT 1, PW_OK)"
    using csr_word_range [OF W(1) cw] by (simp add: bar_flow_commit_def)
  then show "snd (bar_flow_commit c1) = PW_OK" "bar_live (fst (bar_flow_commit c1))"
    using W(1) by (simp_all add: bar_put_def bar_live_def)
  have k: "bar_get c2 b = bar_get c1 b"
    if "csr_word b" "unat b = 0x18 \<or> unat b \<in> {0x400..<0x800} \<union> {0x2000..<0x2400} \<union> {0x2F00..<0x5000} \<union> {0x6000..<0x9FFC}" for b
    using that(2) by (auto simp: c2_def commit bar_put_def bar_get_def reg_at_def csr_regs)
  note K = card_holds_cong [OF k]
  have n1: "nlf c1 = nlf c" using W(4) [of PWFPGA_REG_NUM_LOCAL_FLOWS] by (simp add: nlf_def csr_regs)
  then show "nlf (fst (bar_flow_commit c1)) = nlf c" using K(1) by (simp add: c2_def)
  have "card_holds c1 (with_row r f cp)" if H: "card_holds c cp"
  proof -
    have e: "rule_word0 (with_row r f cp) = rule_word0 cp" "cp_fc_rules (with_row r f cp) = cp_fc_rules cp"
      "cp_map_entries (with_row r f cp) = cp_map_entries cp" "cp_fc_cmps (with_row r f cp) = cp_fc_cmps cp"
      "cp_fc_udfs (with_row r f cp) = cp_fc_udfs cp" "cp_hash_entries (with_row r f cp) = cp_hash_entries cp"
      "cp_hash_mask (with_row r f cp) = cp_hash_mask cp" "cp_hash_seed (with_row r f cp) = cp_hash_seed cp"
      by (simp_all add: fun_eq_iff rule_word0_def with_row_def)
    have tw: "table_writes (with_row r f cp) = table_writes cp"
      unfolding table_writes_def map_writes_def cmp_writes_def udf_writes_def rule_writes_def hash_writes_def e ..
    have "bar_get c1 a = bar_get c a" if "last_write (table_writes cp) a = Some v" for a v
      using table_writes_csr(2) [OF R last_write_in [OF that]] by (intro W(4)) simp
    with H have "holds_tables (bar_get c1) (with_row r f cp)"
      unfolding card_holds_def holds_tables_def tw by metis
    moreover have "row_bytes c1 (of_nat k) = flow_config_bytes (row_image (with_row r f cp) k)"
      if k: "k < PWFPGA_FLOW_TABLE_ROWS" "k < nlf c1 \<or> k < length (cp_flow_rows (with_row r f cp))" for k
    proof (cases "k = r")
      case True
      with W(2) assms(3) show ?thesis by (simp add: row_image_def with_row_def)
    next
      case False
      then have "(of_nat k :: u32) \<noteq> of_nat r" using k(1) r small_lfid [of k] small_lfid [of r] by (metis less_imp_le)
      with W(3) [of "of_nat k"] k H n1 False show ?thesis by (auto simp: card_holds_def row_image_def with_row_def)
    qed
    ultimately show ?thesis using R by (simp add: card_holds_def with_row_def program_in_range_def)
  qed
  then show "card_holds c cp \<Longrightarrow> card_holds (fst (bar_flow_commit c1)) (with_row r f cp)" using K(2) by (simp add: c2_def)
qed

section \<open>All cards\<close>

text \<open>The cards are mapped, at different addresses, and report the capacities \<open>cap\<close>.\<close>

definition bars_live :: "string list \<Rightarrow> (string \<Rightarrow> nat) \<Rightarrow> bars \<Rightarrow> bool" where
  "bars_live pcis cap w \<longleftrightarrow> distinct pcis \<and> (\<forall>pci\<in>set pcis. bar_live (w pci) \<and> nlf (w pci) = cap pci)"

definition bars_hold :: "string list \<Rightarrow> bars \<Rightarrow> nat \<Rightarrow> pw_card_program \<Rightarrow> bool" where
  "bars_hold pcis w i cp \<longleftrightarrow> i < length pcis \<and> card_holds (w (pcis ! i)) cp"

definition has_room :: "string list \<Rightarrow> (string \<Rightarrow> nat) \<Rightarrow> nat \<Rightarrow> nat \<Rightarrow> bool" where
  "has_room pcis cap i n \<longleftrightarrow> cap (pcis ! i) = 0 \<or> n \<le> cap (pcis ! i)"

lemma on_bar_live:
  "bars_live pcis cap w \<Longrightarrow> bar_live (fst (f (w pci))) \<Longrightarrow> nlf (fst (f (w pci))) = nlf (w pci) \<Longrightarrow> bars_live pcis cap (fst (on_bar pci f w))"
  by (auto simp: bars_live_def on_bar_def)

lemma on_bar_other:
  "distinct pcis \<Longrightarrow> i < length pcis \<Longrightarrow> j \<noteq> i \<Longrightarrow> bars_hold pcis (fst (on_bar (pcis ! i) f w)) j = bars_hold pcis w j"
  by (auto simp: bars_hold_def on_bar_def fun_eq_iff nth_eq_iff_index_eq)

lemma on_bar_kept:
  assumes "card_holds (fst (f (w (pcis ! i)))) = card_holds (w (pcis ! i))"
  shows "bars_hold pcis (fst (on_bar (pcis ! i) f w)) = bars_hold pcis w"
  using assms by (auto simp: bars_hold_def on_bar_def fun_eq_iff)

lemma bars_card:
  assumes "bars_live pcis cap w" "card_open (bar_cards pcis) i"
  shows "i < length pcis" "distinct pcis" "bar_live (w (pcis ! i))" "nlf (w (pcis ! i)) = cap (pcis ! i)"
  using assms by (simp_all add: bars_live_def)

lemma bars_program:
  assumes live: "bars_live pcis cap w" "card_open (bar_cards pcis) i" and cp: "good_card cp"
    and run: "pw_program_card_tables_diag (Some (cr_ops (bar_cards pcis ! i))) w (Some cp) = (w', s)"
  shows "bars_live pcis cap w'" "s = PW_OK \<Longrightarrow> bars_hold pcis w' i cp" "j \<noteq> i \<Longrightarrow> bars_hold pcis w' j = bars_hold pcis w j"
    "s = PW_OK \<longleftrightarrow> has_room pcis cap i (length (cp_flow_rows cp))"
proof -
  note L = bars_card [OF live]
  let ?f = "\<lambda>c. pw_program_card_tables (Some bar_ops) c (Some cp)"
  obtain c' s' where c': "?f (w (pcis ! i)) = (c', s')" by (metis surj_pair)
  note P = bar_programs [OF L(3) cp c']
  have w': "w' = fst (on_bar (pcis ! i) ?f w)" "s = s'" using run L(1) by (simp_all add: program_on_bar on_bar_def c')
  show "bars_live pcis cap w'" unfolding w' by (rule on_bar_live [OF live(1)]) (simp_all add: c' P)
  show "bars_hold pcis w' i cp" if "s = PW_OK" using P(4) that L(1) by (simp add: bars_hold_def w' on_bar_def c')
  show "bars_hold pcis w' j = bars_hold pcis w j" if "j \<noteq> i" unfolding w' by (rule on_bar_other [OF L(2,1) that])
  show "s = PW_OK \<longleftrightarrow> has_room pcis cap i (length (cp_flow_rows cp))" using P(3) L(4) w'(2) by (simp add: has_room_def)
qed

lemma bars_control:
  assumes live: "bars_live pcis cap w" "card_open (bar_cards pcis) i" and a: "control_reg a"
    and w32: "op_write32 (cr_ops (bar_cards pcis ! i)) = Some w32"
  shows "bars_live pcis cap (fst (w32 w a v))" "bars_hold pcis (fst (w32 w a v)) = bars_hold pcis w" "snd (w32 w a v) = PW_OK"
proof -
  note L = bars_card [OF live]
  note C = bar_control [OF L(3) a, of v]
  have w: "w32 w a v = on_bar (pcis ! i) (\<lambda>c. bar_write32 c a v) w" using w32 L(1) by auto
  show "bars_live pcis cap (fst (w32 w a v))" unfolding w by (rule on_bar_live [OF live(1)]) (rule C)+
  show "bars_hold pcis (fst (w32 w a v)) = bars_hold pcis w" unfolding w by (rule on_bar_kept) (rule C)
  show "snd (w32 w a v) = PW_OK" using C(1) by (simp add: w on_bar_def)
qed

lemma bars_row:
  assumes live: "bars_live pcis cap w" "card_open (bar_cards pcis) i" and cp: "good_card cp" "r < length (cp_flow_rows cp)" "row_wf f"
    and fw: "op_flow_write (cr_ops (bar_cards pcis ! i)) = Some fw" "fw w (of_nat r) (Some f) = (w1, s1)"
  shows "s1 = PW_OK" "\<exists>fc. op_flow_commit (cr_ops (bar_cards pcis ! i)) = Some fc \<and> snd (fc w1) = PW_OK \<and> bars_live pcis cap (fst (fc w1)) \<and>
        (bars_hold pcis w i cp \<longrightarrow> bars_hold pcis (fst (fc w1)) i (with_row r f cp)) \<and>
        (\<forall>j. j \<noteq> i \<longrightarrow> bars_hold pcis (fst (fc w1)) j = bars_hold pcis w j)"
proof -
  note L = bars_card [OF live]
  obtain c1 s where c1: "bar_flow_write (w (pcis ! i)) (of_nat r) (Some f) = (c1, s)" by (metis surj_pair)
  note R = bar_writes_row [OF L(3) cp c1]
  have w1: "w1 = w(pcis ! i := c1)" "s1 = s" using fw L(1) by (auto simp: on_bar_def c1)
  then show "s1 = PW_OK" using R(1) by simp
  let ?g = "\<lambda>c. bar_flow_commit (fst (bar_flow_write c (of_nat r) (Some f)))"
  have e: "on_bar (pcis ! i) bar_flow_commit w1 = on_bar (pcis ! i) ?g w" by (simp add: on_bar_def w1 c1)
  have "snd (on_bar (pcis ! i) ?g w) = PW_OK" using R(2) by (simp add: on_bar_def c1)
  moreover have "bars_live pcis cap (fst (on_bar (pcis ! i) ?g w))"
    by (rule on_bar_live [OF live(1)]) (simp_all add: c1 R(3,4))
  moreover have "bars_hold pcis w i cp \<longrightarrow> bars_hold pcis (fst (on_bar (pcis ! i) ?g w)) i (with_row r f cp)"
    using R(5) by (simp add: bars_hold_def on_bar_def c1)
  moreover have "\<forall>j. j \<noteq> i \<longrightarrow> bars_hold pcis (fst (on_bar (pcis ! i) ?g w)) j = bars_hold pcis w j"
    using on_bar_other [OF L(2,1)] by blast
  ultimately show "\<exists>fc. op_flow_commit (cr_ops (bar_cards pcis ! i)) = Some fc \<and> snd (fc w1) = PW_OK \<and> bars_live pcis cap (fst (fc w1)) \<and>
        (bars_hold pcis w i cp \<longrightarrow> bars_hold pcis (fst (fc w1)) i (with_row r f cp)) \<and>
        (\<forall>j. j \<noteq> i \<longrightarrow> bars_hold pcis (fst (fc w1)) j = bars_hold pcis w j)"
    unfolding e [symmetric] using L(1) by (intro exI [of _ "on_bar (pcis ! i) bar_flow_commit"]) simp
qed

interpretation bar_plane: sized_plane "bar_cards pcis" "bars_live pcis cap" "bars_hold pcis" "has_room pcis cap" for pcis cap
proof unfold_locales
  show "bars_live pcis cap w' \<and> (s = PW_OK \<longrightarrow> bars_hold pcis w' i cp) \<and> (\<forall>j. j \<noteq> i \<longrightarrow> bars_hold pcis w' j = bars_hold pcis w j)"
    if "bars_live pcis cap w" "card_open (bar_cards pcis) i" "good_card cp"
      "pw_program_card_tables_diag (Some (cr_ops (bar_cards pcis ! i))) w (Some cp) = (w', s)" for w i cp w' s
    using bars_program(1-3) [OF that] by blast
  show "bars_live pcis cap (fst (w32 w a v)) \<and> bars_hold pcis (fst (w32 w a v)) = bars_hold pcis w"
    if "bars_live pcis cap w" "card_open (bar_cards pcis) i" "op_write32 (cr_ops (bar_cards pcis ! i)) = Some w32" "control_reg a"
    for w i w32 a v
    using bars_control(1,2) [OF that(1,2,4,3)] by blast
  show "bars_live pcis cap (fst (rd32 w a)) \<and> bars_hold pcis (fst (rd32 w a)) = bars_hold pcis w"
    if "bars_live pcis cap w" "card_open (bar_cards pcis) i" "cr_read32 (bar_cards pcis ! i) = Some rd32" for w i rd32 a
    using that by auto
  show "if s1 = PW_OK then \<exists>fc. op_flow_commit (cr_ops (bar_cards pcis ! i)) = Some fc \<and> snd (fc w1) = PW_OK \<and> bars_live pcis cap (fst (fc w1)) \<and>
        (bars_hold pcis w i cp \<longrightarrow> bars_hold pcis (fst (fc w1)) i (with_row r f cp)) \<and>
        (\<forall>j. j \<noteq> i \<longrightarrow> bars_hold pcis (fst (fc w1)) j = bars_hold pcis w j)
      else bars_live pcis cap w1 \<and> bars_hold pcis w1 = bars_hold pcis w"
    if "bars_live pcis cap w" "card_open (bar_cards pcis) i" "good_card cp" "r < length (cp_flow_rows cp)" "row_wf f"
      "op_flow_write (cr_ops (bar_cards pcis ! i)) = Some fw" "fw w (of_nat r) (Some f) = (w1, s1)" for w i cp r f fw w1 s1
    using bars_row [OF that] by simp
  show "snd (w32 w PWFPGA_REG_DP_RESET 1) = PW_OK"
    if "bars_live pcis cap w" "card_open (bar_cards pcis) i" "op_write32 (cr_ops (bar_cards pcis ! i)) = Some w32" for w i w32
    using bars_control(3) [OF that(1,2) _ that(3)] by (simp add: control_reg_def)
  show "snd (pw_program_card_tables_diag (Some (cr_ops (bar_cards pcis ! i))) w (Some cp)) = PW_OK \<longleftrightarrow>
      has_room pcis cap i (length (cp_flow_rows cp))"
    if "bars_live pcis cap w" "card_open (bar_cards pcis) i" "good_card cp" for w i cp
    using bars_program(4) [OF that] by (metis prod.collapse)
qed

section \<open>The daemon started on BAR cards\<close>

definition pcis_of :: "pw_config \<Rightarrow> string list" where
  "pcis_of cfg = map card_pci (cfg_cards cfg)"

lemma read_configs_arrays:
  assumes "read_configs libyaml files env test = Inr cfg"
  shows "\<forall>f\<in>set (cfg_flows cfg). flow_arrays f"
proof -
  have "list_all flow_ok (cfg_flows c)" if "pw_config_parse_file_ex libyaml files p t (Some pw_config_new) = Inr c" for p t c
    using that parse_root_flows
    by (auto simp: pw_config_parse_file_ex_def pw_config_parse_string_ex_def config_new_lists split: option.splits prod.splits if_splits sum.splits)
  then have "list_all flow_ok (cfg_flows cfg)"
    using assms by (auto simp: read_configs_def pw_config_parse_file_def split: sum.splits option.splits)
  then show ?thesis using flow_ok_arrays by (simp add: list_all_iff)
qed

lemma started:
  assumes start: "startup libyaml files bar_open fake_open cal autostart False env test w = Inr (cards, d)"
    and bar: "\<forall>pci b. bar_open pci = Inr b \<longrightarrow> b = bar_at pci"
    and live: "\<forall>c\<in>set (cfg_cards (dm_cfg d)). bar_live (w (card_pci c))"
  shows "cards = bar_cards (pcis_of (dm_cfg d))"
    "bar_plane.tracks (pcis_of (dm_cfg d)) (\<lambda>pci. nlf (w pci)) d"
    "bar_plane.roomy (pcis_of (dm_cfg d)) (\<lambda>pci. nlf (w pci)) (dm_prog d)"
    "\<not> autostart \<Longrightarrow> silent (dm_prog d)"
proof -
  from start obtain cfg p where cfg: "read_configs libyaml files env test = Inr cfg" and p: "pw_flow_compile (Some cfg) = Inr p"
    by (auto simp: startup_def Let_def split: sum.splits if_splits prod.splits)
  obtain cs n where o: "open_all_backends bar_open fake_open False cfg = (cs, n)" by (metis surj_pair)
  define prog where "prog = (if autostart then p else stage_flow_run_state p False)"
  obtain w1 s where run: "program_backends cal prog cfg cs w = (w1, s)" by (metis surj_pair)
  have d: "cs = cards" "n = 0" "s = PW_OK" "dm_cfg d = cfg" "dm_prog d = prog" "dm_world d = w1"
    using start cfg p o run by (auto simp: startup_def Let_def prog_def split: if_splits)
  have cs: "cs = map (\<lambda>c. opened ''bar'' (bar_open (card_pci c))) (cfg_cards cfg)" "\<forall>c\<in>set cs. cr_open c"
    using o d(2) by (auto simp: open_all_backends_def Let_def filter_empty_conv)
  have "opened ''bar'' (bar_open (card_pci c)) = opened ''bar'' (Inr (bar_at (card_pci c)))" if "c \<in> set (cfg_cards cfg)" for c
    using cs that bar by (cases "bar_open (card_pci c)") (auto simp: opened_def)
  then have cards: "cs = bar_cards (pcis_of cfg)" unfolding cs(1) by (simp add: bar_cards_def pcis_of_def)
  show "cards = bar_cards (pcis_of (dm_cfg d))" using cards d by simp
  have fa: "\<forall>f\<in>set (cfg_flows cfg). flow_arrays f" by (rule read_configs_arrays [OF cfg])
  have idl: "idle prog = idle p" by (simp add: prog_def stage_flow_run_state_rows(1))
  have g: "good_prog prog" using compiled_good [OF p fa] good_prog_same [OF idl] by simp
  have "distinct (pcis_of cfg)"
    using pw_flow_compile_ok(1) [OF p] by (simp add: valid_config_def valid_cards_def pcis_of_def)
  then have l: "bars_live (pcis_of cfg) (\<lambda>pci. nlf (w pci)) w"
    using live d(4) by (auto simp: bars_live_def pcis_of_def)
  note S = bar_plane.program_backends_sync [OF l g run [unfolded cards]]
  have "compiled_state d" using fa p idl by (auto simp: compiled_state_def d)
  then show "bar_plane.tracks (pcis_of (dm_cfg d)) (\<lambda>pci. nlf (w pci)) d"
    using S d by (simp add: bar_plane.tracks_def)
  show "bar_plane.roomy (pcis_of (dm_cfg d)) (\<lambda>pci. nlf (w pci)) (dm_prog d)"
    using bar_plane.program_backends_ok [OF l g, of cal cfg] run d by (simp add: cards)
  show "silent (dm_prog d)" if "\<not> autostart" using staged_silent [OF p] that by (simp add: d prog_def)
qed

text \<open>What the invariant says of the BARs.\<close>

lemma tracks_holds:
  assumes "bar_plane.tracks (pcis_of cfg0) cap d" "same_env (dm_cfg d) cfg0" "i < length (cfg_cards (dm_cfg d))"
  shows "card_holds (dm_world d (card_pci (cfg_cards (dm_cfg d) ! i))) (prog_per_card (dm_prog d) ! i)"
proof -
  from assms(1) obtain p where p: "pw_flow_compile (Some (dm_cfg d)) = Inr p" "idle (dm_prog d) = idle p"
    by (auto simp: bar_plane.tracks_def compiled_state_def)
  have "length (prog_per_card p) = length (cfg_cards (dm_cfg d))" using pw_flow_compile_ok(2) [OF p(1)] by (metis length_map)
  then have n: "i < length (prog_per_card (dm_prog d))" using idle_eq(2) [OF p(2)] assms(3) by simp
  have "bars_hold (pcis_of cfg0) (dm_world d) i (prog_per_card (dm_prog d) ! i)"
    using assms n by (simp add: bar_plane.tracks_def bar_plane.in_sync_def pcis_of_def same_env_def)
  with assms(2,3) show ?thesis by (simp add: bars_hold_def same_env_def pcis_of_def)
qed

lemma reached:
  assumes start: "startup libyaml files bar_open fake_open cal autostart False env test w = Inr (cards, d0)"
    and bar: "\<forall>pci b. bar_open pci = Inr b \<longrightarrow> b = bar_at pci"
    and live: "\<forall>c\<in>set (cfg_cards (dm_cfg d0)). bar_live (w (card_pci c))"
    and steps: "(dstep libyaml cal cards)\<^sup>*\<^sup>* d0 d"
  shows "bar_plane.tracks (pcis_of (dm_cfg d0)) (\<lambda>pci. nlf (w pci)) d"
    "bar_plane.roomy (pcis_of (dm_cfg d0)) (\<lambda>pci. nlf (w pci)) (dm_prog d)" "same_env (dm_cfg d) (dm_cfg d0)"
  using bar_plane.dsteps_tracks [OF steps [unfolded started(1) [OF start bar live]] started(2,3) [OF start bar live]] by blast+

lemma bars_set_flow_enable:
  assumes "find_tx_row p gid = Some (i, r)" "bars_live pcis cap w" "good_prog p" "i < length pcis"
  shows "snd (snd (set_flow_enable p (bar_cards pcis) gid en persist w)) = PW_OK"
proof -
  from find_tx_row_SomeD [OF assms(1)] have i: "i < length (prog_per_card p)"
    and r: "r < length (cp_flow_rows (prog_per_card p ! i))" by metis+
  let ?f = "run_row en (cp_flow_rows (prog_per_card p ! i) ! r)"
  have cp: "good_card (prog_per_card p ! i)" using assms(3) i by (simp add: good_prog_def list_all_length)
  have wf: "row_wf ?f" using cp r by (simp add: good_card_def)
  have o: "card_open (bar_cards pcis) i" using assms(4) by simp
  obtain w1 s1 where w1: "on_bar (pcis ! i) (\<lambda>c. bar_flow_write c (of_nat r) (Some ?f)) w = (w1, s1)" by (metis surj_pair)
  note R = bars_row [OF assms(2) o cp r wf, of "\<lambda>w r f. on_bar (pcis ! i) (\<lambda>c. bar_flow_write c r f) w" w1 s1]
  have "s1 = PW_OK" "snd (on_bar (pcis ! i) bar_flow_commit w1) = PW_OK" using R w1 assms(4) by auto
  then show ?thesis using assms(1,4) w1 by (simp add: set_flow_enable_def Let_def split_beta)
qed

lemma silent_disabled: "silent p \<Longrightarrow> \<not> flow_enabled p gid"
proof (cases "find_tx_row p gid")
  case (Some a)
  obtain i r where a: "a = (i, r)" by (cases a)
  assume "silent p"
  with find_tx_row_SomeD [OF Some [unfolded a]] have "row_tx_enable (prog_row p i r) = 0" unfolding silent_def by (metis nth_mem)
  with Some a show ?thesis by (simp add: flow_enabled_def)
qed (simp add: flow_enabled_def)

section \<open>The example lab, started\<close>

abbreviation ex_yaml :: "string \<Rightarrow> yaml_event list" where "ex_yaml \<equiv> \<lambda>_. ex_events"

abbreviation ex_start :: "startup_error + (bars card_runtime list \<times> bars daemon)" where
  "ex_start \<equiv> startup ex_yaml ex_files (\<lambda>pci. Inr (bar_at pci)) (\<lambda>_. Inl PW_E_IO) 0 False False ''lab.yaml'' None (\<lambda>_. ex_bar)"

lemma ex_nlf: "nlf ex_bar = 0"
  by (simp add: nlf_def bar_get_def ex_bar_def)

lemma ex_room: "bar_plane.roomy pcis (\<lambda>_. nlf ex_bar) p"
  by (simp add: bar_plane.roomy_def has_room_def ex_nlf)

lemma ex_pci: "length (cfg_cards ex_config) = 2" "card_pci (cfg_cards ex_config ! 0) = ''0''" "card_pci (cfg_cards ex_config ! 1) = ''1''"
  by code_simp+

lemma ex_pcis: "distinct (pcis_of ex_config)"
  using ex_valid by (simp add: valid_config_def valid_cards_def pcis_of_def)

lemma ex_bar_live: "bar_live ex_bar"
  by (simp add: bar_live_def ex_bar_def)

lemma ex_started:
  obtains d0 where "ex_start = Inr (bar_cards (pcis_of ex_config), d0)" "dm_cfg d0 = ex_config"
proof -
  obtain p where p: "pw_flow_compile (Some ex_config) = Inr p" using ex_compiles ..
  let ?q = "stage_flow_run_state p False" and ?cards = "bar_cards (pcis_of ex_config)"
  have r: "read_configs ex_yaml ex_files ''lab.yaml'' None = Inr ex_config" by (simp add: read_configs_def ex_read)
  have o: "open_all_backends (\<lambda>pci. Inr (bar_at pci)) (\<lambda>_. Inl PW_E_IO) False ex_config = (?cards, 0)"
    by (simp add: open_all_backends_def Let_def bar_cards_def pcis_of_def comp_def opened_def bar_at_def filter_empty_conv)
  have g: "good_prog ?q"
    using compiled_good [OF p ex_flow_arrays] good_prog_same [OF stage_flow_run_state_rows(1)] by simp
  have l: "bars_live (pcis_of ex_config) (\<lambda>_. nlf ex_bar) (\<lambda>_. ex_bar)" using ex_pcis ex_bar_live by (simp add: bars_live_def)
  obtain w s where w: "program_backends 0 ?q ex_config ?cards (\<lambda>_. ex_bar) = (w, s)" by (metis surj_pair)
  have "s = PW_OK" using bar_plane.program_backends_ok [OF l g, of 0 ex_config] ex_room w by simp
  then have "ex_start = Inr (?cards, \<lparr>dm_cfg = ex_config, dm_prog = ?q, dm_test_yaml = None, dm_world = w\<rparr>)"
    using r o w ex_config_valid p by (simp add: startup_def)
  then show thesis by (rule that) simp
qed

lemma ex_facts:
  assumes "dm_cfg d0 = ex_config"
  shows "\<forall>pci b. (Inr (bar_at pci) :: pw_status + bars backend) = Inr b \<longrightarrow> b = bar_at pci"
    "\<forall>c\<in>set (cfg_cards (dm_cfg d0)). bar_live ((\<lambda>_. ex_bar) (card_pci c))"
  using ex_bar_live by simp_all

lemma ex_prepared:
  obtains q where "prepare_load ex_yaml ex_config (Some ''x'') = Inr (ex_config, q)"
proof -
  obtain p where p: "pw_flow_compile (Some ex_config) = Inr p" using ex_compiles ..
  have k: "map fst (map (\<lambda>k. (k, 1)) (kinds (yaml_of_config ex_config))) = kinds (yaml_of_config ex_config)"
    by (simp add: comp_def)
  have rd: "pw_config_parse_string_ex ex_yaml (Some ''x'') True (Some pw_config_new) = Inr ex_config"
    by (rule config_read_back [OF ex_config_ok ex_config_texts ex_events_def k])
  have st: "same_topology c c" for c
    by (simp add: same_topology_def same_card_def same_ports_def same_lif_def list.rel_refl)
  have cl: "(the (pw_config_clone_env (Some ex_config)))\<lparr>cfg_flows := cfg_flows ex_config, cfg_forwards := cfg_forwards ex_config\<rparr> = ex_config"
    by (simp add: pw_config_clone_env_def ex_config_def pw_config_new_def)
  have "prepare_load ex_yaml ex_config (Some ''x'') = Inr (ex_config, stage_flow_run_state p False)"
    unfolding prepare_load_def option.case rd sum.case Let_def cl by (simp add: st ex_config_valid p)
  then show thesis by (rule that)
qed

lemma ex_loaded:
  assumes d0: "ex_start = Inr (bar_cards (pcis_of ex_config), d0)" "dm_cfg d0 = ex_config"
  obtains d' n where "do_config_load ex_yaml 0 (bar_cards (pcis_of ex_config)) (Some ''x'') d0 = (d', Inr n)"
proof -
  let ?cards = "bar_cards (pcis_of ex_config)"
  note S = started(2) [OF d0(1) ex_facts [OF d0(2)], unfolded d0(2)]
  then have c: "compiled_state d0" and l: "bars_live (pcis_of ex_config) (\<lambda>_. nlf ex_bar) (dm_world d0)"
    by (simp_all add: bar_plane.tracks_def)
  obtain q where pl: "prepare_load ex_yaml ex_config (Some ''x'') = Inr (ex_config, q)" by (rule ex_prepared)
  obtain p where p: "pw_flow_compile (Some ex_config) = Inr p" "q = stage_flow_run_state p False" by (rule prepare_load_ok [OF pl])
  have g: "good_prog q"
    using compiled_good [OF p(1) ex_flow_arrays] good_prog_same [OF stage_flow_run_state_rows(1)] by (simp add: p(2))
  have "snd (program_backends 0 q ex_config ?cards (quiesce (dm_prog d0) ?cards (dm_world d0))) = PW_OK"
    using bar_plane.program_backends_ok [OF bar_plane.quiesce_live [OF l compiled_state_good [OF c]] g, of 0 ex_config] ex_room by simp
  then have "\<exists>d' n. do_config_load ex_yaml 0 ?cards (Some ''x'') d0 = (d', Inr n)"
    using pl by (auto simp: do_config_load_def d0(2) Let_def split_beta)
  then show thesis using that by blast
qed

section \<open>Properties\<close>

text \<open>
  C4. The cards never lose step with the daemon: once a daemon has started on BAR cards, then after any sequence of
  config loads (also failed ones), flow and test starts and stops, arms, counter clears and servo turns, the
  running program is the compilation of the running configuration up to the enable bits, its environment is the one
  it started with, and the BAR of every card holds the card's part of the program, tables and rows.
\<close>

theorem daemon_in_sync:
  assumes "startup libyaml files bar_open fake_open cal autostart False env test w = Inr (cards, d0)"
    and "\<forall>pci b. bar_open pci = Inr b \<longrightarrow> b = bar_at pci"
    and "\<forall>c\<in>set (cfg_cards (dm_cfg d0)). bar_live (w (card_pci c))"
    and "(dstep libyaml cal cards)\<^sup>*\<^sup>* d0 d"
  shows "(\<exists>p. pw_flow_compile (Some (dm_cfg d)) = Inr p \<and> idle (dm_prog d) = idle p) \<and> same_env (dm_cfg d) (dm_cfg d0) \<and>
    (\<forall>i < length (cfg_cards (dm_cfg d)).
       card_holds (dm_world d (card_pci (cfg_cards (dm_cfg d) ! i))) (prog_per_card (dm_prog d) ! i))"
proof -
  note R = reached [OF assms]
  have "compiled_state d" using R(1) by (simp add: bar_plane.tracks_def)
  then show ?thesis using tracks_holds [OF R(1,3)] R(3) by (auto simp: compiled_state_def)
qed

theorem daemon_in_sync_witness:
  "\<exists>cards d0 d p. ex_start = Inr (cards, d0) \<and> d = fst (warn_servo cards (fst (test_run 0 cards True d0))) \<and>
     pw_flow_compile (Some ex_config) = Inr p \<and> idle (dm_prog d) = idle p \<and>
     card_holds (dm_world d ''0'') (prog_per_card (dm_prog d) ! 0) \<and> card_holds (dm_world d ''1'') (prog_per_card (dm_prog d) ! 1)"
proof -
  obtain d0 where d0: "ex_start = Inr (bar_cards (pcis_of ex_config), d0)" "dm_cfg d0 = ex_config" by (rule ex_started)
  define d where "d = fst (warn_servo (bar_cards (pcis_of ex_config)) (fst (test_run 0 (bar_cards (pcis_of ex_config)) True d0)))"
  have st: "(dstep ex_yaml 0 (bar_cards (pcis_of ex_config)))\<^sup>*\<^sup>* d0 d" unfolding d_def using dstep.test_start by blast
  have cfg: "dm_cfg d = ex_config" using requests_same_run(1,4) d0(2) unfolding d_def by (metis same_run_def)
  from daemon_in_sync [OF d0(1) ex_facts [OF d0(2)] st, unfolded cfg] obtain p where
    "pw_flow_compile (Some ex_config) = Inr p" "idle (dm_prog d) = idle p"
    "\<forall>i < length (cfg_cards ex_config). card_holds (dm_world d (card_pci (cfg_cards ex_config ! i))) (prog_per_card (dm_prog d) ! i)"
    by blast
  moreover from this(3) [rule_format, of 0, unfolded ex_pci] this(3) [rule_format, of 1, unfolded ex_pci]
  have "card_holds (dm_world d ''0'') (prog_per_card (dm_prog d) ! 0)" "card_holds (dm_world d ''1'') (prog_per_card (dm_prog d) ! 1)"
    by simp_all
  ultimately show ?thesis using d0(1) d_def by blast
qed

text \<open>
  C5. A config load is all or nothing, and silent. If it succeeds, the flows and forwards of the payload have
  replaced the old ones, everything else of the configuration is untouched, and no row of any card transmits. If it
  fails, configuration, program and stored text are the old ones, nothing at all was touched unless staging had
  begun, and a failed stage was rolled back with success. In every case the BARs hold the program that the daemon
  then has.
\<close>

theorem config_load_atomic:
  assumes "startup libyaml files bar_open fake_open cal autostart False env test w = Inr (cards, d0)"
    and "\<forall>pci b. bar_open pci = Inr b \<longrightarrow> b = bar_at pci"
    and "\<forall>c\<in>set (cfg_cards (dm_cfg d0)). bar_live (w (card_pci c))"
    and "(dstep libyaml cal cards)\<^sup>*\<^sup>* d0 d"
    and "do_config_load libyaml cal cards y d = (d', r)"
  shows "(\<forall>n. r = Inr n \<longrightarrow> silent (dm_prog d') \<and> dm_test_yaml d' = y \<and>
       (\<exists>payload. pw_config_parse_string_ex libyaml y True (Some pw_config_new) = Inr payload \<and>
          dm_cfg d' = (dm_cfg d)\<lparr>cfg_flows := cfg_flows payload, cfg_forwards := cfg_forwards payload\<rparr>)) \<and>
    (\<forall>e. r = Inl e \<longrightarrow> dm_cfg d' = dm_cfg d \<and> dm_prog d' = dm_prog d \<and> dm_test_yaml d' = dm_test_yaml d \<and>
       (d' = d \<or> (\<exists>st. e = Stage_failed st PW_OK))) \<and>
    (\<forall>i < length (cfg_cards (dm_cfg d')).
       card_holds (dm_world d' (card_pci (cfg_cards (dm_cfg d') ! i))) (prog_per_card (dm_prog d') ! i))"
proof -
  note R = reached [OF assms(1-4)] and c = started(1) [OF assms(1-3)]
  have "(dstep libyaml cal cards)\<^sup>*\<^sup>* d0 d'" using assms(4,5) dstep.config_load [of libyaml cal cards d y] by simp
  note R' = reached [OF assms(1-3) this]
  have t: "compiled_state d" "bars_live (pcis_of (dm_cfg d0)) (\<lambda>pci. nlf (w pci)) (dm_world d)"
    using R(1) by (simp_all add: bar_plane.tracks_def)
  note O = bar_plane.do_config_load_outcome [OF t assms(5) [unfolded c]] and S = bar_plane.load_room(2) [OF R(1,2) assms(5) [unfolded c]]
  have ok: "silent (dm_prog d') \<and> dm_test_yaml d' = y \<and>
       (\<exists>payload. pw_config_parse_string_ex libyaml y True (Some pw_config_new) = Inr payload \<and>
          dm_cfg d' = (dm_cfg d)\<lparr>cfg_flows := cfg_flows payload, cfg_forwards := cfg_forwards payload\<rparr>)" if "r = Inr n" for n
  proof -
    from O(3) [OF that] have o: "silent (dm_prog d')" "dm_test_yaml d' = y" "prepare_load libyaml (dm_cfg d) y = Inr (dm_cfg d', dm_prog d')"
      by blast+
    from o(3) obtain payload where "pw_config_parse_string_ex libyaml y True (Some pw_config_new) = Inr payload"
      "dm_cfg d' = (the (pw_config_clone_env (Some (dm_cfg d))))\<lparr>cfg_flows := cfg_flows payload, cfg_forwards := cfg_forwards payload\<rparr>"
      by (auto simp: prepare_load_def Let_def split: option.splits sum.splits if_splits)
    with o(1,2) show ?thesis by (auto simp: pw_config_clone_env_def pw_config_new_def)
  qed
  have err: "dm_cfg d' = dm_cfg d \<and> dm_prog d' = dm_prog d \<and> dm_test_yaml d' = dm_test_yaml d \<and> (d' = d \<or> (\<exists>st. e = Stage_failed st PW_OK))"
    if "r = Inl e" for e
  proof (cases "\<exists>st rb. e = Stage_failed st rb")
    case True
    then obtain st rb where es: "e = Stage_failed st rb" by blast
    with that have e: "r = Inl (Stage_failed st rb)" "e = Stage_failed st rb" by simp_all
    have d': "d' = d\<lparr>dm_world := dm_world d'\<rparr>" using O(4) [OF e(1)] by blast
    have "dm_cfg d' = dm_cfg d" "dm_prog d' = dm_prog d" "dm_test_yaml d' = dm_test_yaml d" by (subst d', simp)+
    with S [OF e(1)] e(2) show ?thesis by simp
  qed (use O(5) [OF that] in auto)
  show ?thesis using ok err tracks_holds [OF R'(1,3)] by blast
qed

theorem config_load_atomic_witness:
  "\<exists>cards d0 d' n. ex_start = Inr (cards, d0) \<and> do_config_load ex_yaml 0 cards (Some ''x'') d0 = (d', Inr n) \<and>
     silent (dm_prog d') \<and> dm_test_yaml d' = Some ''x'' \<and> dm_cfg d' = ex_config \<and>
     card_holds (dm_world d' ''1'') (prog_per_card (dm_prog d') ! 1)"
proof -
  obtain d0 where d0: "ex_start = Inr (bar_cards (pcis_of ex_config), d0)" "dm_cfg d0 = ex_config" by (rule ex_started)
  obtain d' n where ld: "do_config_load ex_yaml 0 (bar_cards (pcis_of ex_config)) (Some ''x'') d0 = (d', Inr n)"
    by (rule ex_loaded [OF d0])
  obtain q where pl: "prepare_load ex_yaml ex_config (Some ''x'') = Inr (ex_config, q)" by (rule ex_prepared)
  have cfg: "dm_cfg d' = ex_config"
    using ld unfolding do_config_load_def d0(2) pl by (simp add: Let_def split_beta split: if_splits) fastforce
  note T = config_load_atomic [OF d0(1) ex_facts [OF d0(2)] rtranclp.rtrancl_refl ld]
  have "silent (dm_prog d')" "dm_test_yaml d' = Some ''x''" using T by blast+
  moreover have "card_holds (dm_world d' ''1'') (prog_per_card (dm_prog d') ! 1)"
    using conjunct2 [OF conjunct2 [OF T], rule_format, of 1, unfolded cfg ex_pci] by simp
  ultimately show ?thesis using d0(1) ld cfg by blast
qed

text \<open>
  C6. Starting or stopping a flow does exactly that: for a configured flow it succeeds, the flow is reported
  running iff it was started, every other flow is reported as before, and the BARs hold the program with the new
  state; an id that no flow has is refused and nothing changes.
\<close>

theorem flow_start_stop_exact:
  assumes "startup libyaml files bar_open fake_open cal autostart False env test w = Inr (cards, d0)"
    and "\<forall>pci b. bar_open pci = Inr b \<longrightarrow> b = bar_at pci"
    and "\<forall>c\<in>set (cfg_cards (dm_cfg d0)). bar_live (w (card_pci c))"
    and "(dstep libyaml cal cards)\<^sup>*\<^sup>* d0 d"
    and "flow_run cards en gid d = (d', s)"
  shows "(\<forall>j < length (cfg_flows (dm_cfg d)). gid = flow_id (cfg_flows (dm_cfg d) ! j) \<longrightarrow> s = PW_OK \<and>
       (\<forall>k < length (cfg_flows (dm_cfg d)). flow_enabled (dm_prog d') (flow_id (cfg_flows (dm_cfg d) ! k)) =
          (if k = j then en else flow_enabled (dm_prog d) (flow_id (cfg_flows (dm_cfg d) ! k))))) \<and>
    (gid \<notin> flow_id ` set (cfg_flows (dm_cfg d)) \<longrightarrow> s = PW_E_INVAL \<and> d' = d) \<and> dm_cfg d' = dm_cfg d \<and>
    (\<forall>i < length (cfg_cards (dm_cfg d)).
       card_holds (dm_world d' (card_pci (cfg_cards (dm_cfg d) ! i))) (prog_per_card (dm_prog d') ! i))"
proof -
  let ?fs = "cfg_flows (dm_cfg d)" and ?pcis = "pcis_of (dm_cfg d0)" and ?cap = "\<lambda>pci. nlf (w pci)"
  note R = reached [OF assms(1-4)] and c = started(1) [OF assms(1-3)]
  have "dstep libyaml cal cards d d'" using dstep.flow_start_stop [of libyaml cal cards d en gid] assms(5) by simp
  with assms(4) have "(dstep libyaml cal cards)\<^sup>*\<^sup>* d0 d'" by simp
  note R' = reached [OF assms(1-3) this]
  obtain w' p' where run: "set_flow_enable (dm_prog d) cards gid en True (dm_world d) = (w', p', s)" "d' = d\<lparr>dm_prog := p', dm_world := w'\<rparr>"
    using assms(5) by (auto simp: flow_run_def split: prod.splits)
  obtain p where p: "pw_flow_compile (Some (dm_cfg d)) = Inr p" "idle (dm_prog d) = idle p"
    and l: "bars_live ?pcis ?cap (dm_world d)" and g: "good_prog (dm_prog d)"
    using R(1) compiled_state_good by (auto simp: bar_plane.tracks_def compiled_state_def)
  have known: "s = PW_OK \<and> (\<forall>k < length ?fs. flow_enabled p' (flow_id (?fs ! k)) =
          (if k = j then en else flow_enabled (dm_prog d) (flow_id (?fs ! k))))"
    if j: "j < length ?fs" "gid = flow_id (?fs ! j)" for j
  proof -
    obtain tc where "tc \<in> set (prog_per_card p)" "cp_card_id tc = meta_tx_card_id (prog_flow_meta p ! j)"
      by (rule placed_row_id [OF pw_flow_compile_ok(5) [OF p(1) j(1)]]) auto
    then obtain i where i: "i < length (prog_per_card p)" "cp_card_id (prog_per_card p ! i) = meta_tx_card_id (prog_flow_meta p ! j)"
      by (metis in_set_conv_nth)
    have f: "find_tx_row (dm_prog d) gid = Some (i, unat (meta_tx_local_flow_id (prog_flow_meta p ! j)))"
      using compiled_find_tx_row(1) [OF p(1) j(1) i] find_tx_row_same [OF p(2)] j(2) by simp
    have "length (prog_per_card p) = length ?pcis"
      using pw_flow_compile_ok(2) [OF p(1)] R(3) by (metis length_map pcis_of_def same_env_def)
    then have s: "s = PW_OK" using bars_set_flow_enable [OF f l g, of en True] i(1) run(1) c by simp
    show ?thesis using run_flow_enabled [OF p j(1) _ run(1) [unfolded s j(2)]] s by blast
  qed
  have unknown: "s = PW_E_INVAL \<and> d' = d" if "gid \<notin> flow_id ` set ?fs"
  proof -
    have "meta_global_flow_id m \<noteq> gid" if "m \<in> set (prog_flow_meta p)" for m
      using that compiled_meta(1) [OF p(1)] pw_flow_compile_ok(3) [OF p(1)] \<open>gid \<notin> flow_id ` set ?fs\<close>
      by (metis image_eqI in_set_conv_nth nth_mem)
    then have "find (\<lambda>m. meta_global_flow_id m = gid) (prog_flow_meta p) = None" by (simp add: find_None_iff)
    then have "find_tx_row p gid = None" by (simp add: find_tx_row_def)
    then have "find_tx_row (dm_prog d) gid = None" using find_tx_row_same [OF p(2)] by simp
    with run show ?thesis by (simp add: set_flow_enable_def)
  qed
  have cfg: "dm_cfg d' = dm_cfg d" by (simp add: run(2))
  show ?thesis using known unknown cfg tracks_holds [OF R'(1,3)] by (simp add: run(2))
qed

theorem flow_start_stop_exact_witness:
  "\<exists>cards d0 d'. ex_start = Inr (cards, d0) \<and> flow_run cards True 2 d0 = (d', PW_OK) \<and>
     flow_enabled (dm_prog d') 2 \<and> \<not> flow_enabled (dm_prog d') 1 \<and> flow_run cards True 9 d0 = (d0, PW_E_INVAL)"
proof -
  obtain d0 where d0: "ex_start = Inr (bar_cards (pcis_of ex_config), d0)" "dm_cfg d0 = ex_config" by (rule ex_started)
  have sil: "silent (dm_prog d0)" using started(4) [OF d0(1) ex_facts [OF d0(2)]] by simp
  obtain d' s where r: "flow_run (bar_cards (pcis_of ex_config)) True 2 d0 = (d', s)" by (metis surj_pair)
  obtain e t where u: "flow_run (bar_cards (pcis_of ex_config)) True 9 d0 = (e, t)" by (metis surj_pair)
  note T = flow_start_stop_exact [OF d0(1) ex_facts [OF d0(2)] rtranclp.rtrancl_refl r, unfolded d0(2)]
  note U = flow_start_stop_exact [OF d0(1) ex_facts [OF d0(2)] rtranclp.rtrancl_refl u, unfolded d0(2)]
  have j: "1 < length (cfg_flows ex_config)" "0 < length (cfg_flows ex_config)" "(2 :: u32) = flow_id (cfg_flows ex_config ! 1)"
    "flow_id (cfg_flows ex_config ! 0) = 1" "(9 :: u32) \<notin> flow_id ` set (cfg_flows ex_config)" by simp_all
  have E: "s = PW_OK" "\<forall>k < length (cfg_flows ex_config). flow_enabled (dm_prog d') (flow_id (cfg_flows ex_config ! k)) =
      (if k = 1 then True else flow_enabled (dm_prog d0) (flow_id (cfg_flows ex_config ! k)))"
    using conjunct1 [OF T, rule_format, OF j(1,3)] by blast+
  have "flow_enabled (dm_prog d') 2" using E(2) [rule_format, OF j(1)] unfolding j(3) [symmetric] by simp
  moreover have "\<not> flow_enabled (dm_prog d') 1"
    using E(2) [rule_format, OF j(2)] silent_disabled [OF sil] unfolding j(4) by simp
  moreover have "t = PW_E_INVAL" "e = d0" using conjunct1 [OF conjunct2 [OF U]] j(5) by blast+
  ultimately show ?thesis using d0(1) r u E(1) by blast
qed

end
