(* ===== verification/PW_Daemon_Rpc.thy ===== *)
theory PW_Daemon_Rpc
  imports PW_Daemon PW_Example
begin

text \<open>
  The control requests of the daemon, \<^verbatim>\<open>packetwyrmd/src/main.c\<close>: authentication, the dispatch of a request to
  its handler, and the secret in the environment file (redaction, restoration and saving). json-c is a parameter:
  parsing, the fields and the type of a value, and its conversions.
\<close>

section \<open>Requests\<close>

datatype json_type = J_null | J_boolean | J_double | J_int | J_object | J_array | J_string

record 'j json_c =
  jc_parse :: "bytes \<Rightarrow> 'j option"
  jc_type :: "'j \<Rightarrow> json_type"
  jc_field :: "'j \<Rightarrow> string \<Rightarrow> 'j option"
  jc_string :: "'j \<Rightarrow> string option"
  jc_string_len :: "'j \<Rightarrow> nat"
  jc_int :: "'j \<Rightarrow> int"
  jc_int64 :: "'j \<Rightarrow> int"

text \<open>
  What json-c documents: \<open>json_object_get_string\<close> is NULL for the null value only (a key whose value is null is
  found, with a NULL object), and the length of a text fits an \<open>int\<close>.
\<close>

definition json_c_ok :: "'j json_c \<Rightarrow> bool" where
  "json_c_ok jc \<longleftrightarrow> (\<forall>j. (jc_string jc j = None \<longleftrightarrow> jc_type jc j = J_null) \<and>
     (\<forall>s. jc_string jc j = Some s \<longrightarrow> length s < 2 ^ 31))"

text \<open>
  The constant-time comparison of the secret \<open>want\<close> with the text of the request. The lengths are 64 bits wide, the
  collected difference 32, and characters are promoted with their sign.
\<close>

definition PW_SECRET_MAX :: nat where "PW_SECRET_MAX = 128"

definition char32 :: "char \<Rightarrow> u32" where
  "char32 c = scast (of_nat (of_char c) :: u8)"

definition secret_diff :: "string \<Rightarrow> string \<Rightarrow> u32" where
  "secret_diff want got =
     (let wl = min (length want) PW_SECRET_MAX; gl = length got
      in foldl (\<lambda>diff i. diff OR (char32 (want ! i) XOR (if i < gl then char32 (got ! i) else 0)))
           (ucast ((of_nat wl :: u64) XOR of_nat gl)) [0..<wl])"

text \<open>None: \<open>strlen\<close> is called on NULL.\<close>

definition authenticate :: "'j json_c \<Rightarrow> string \<Rightarrow> 'j \<Rightarrow> bool option" where
  "authenticate jc want req =
     (if want = [] then Some True
      else case (case jc_field jc req ''secret'' of None \<Rightarrow> Some [] | Some js \<Rightarrow> jc_string jc js) of
             None \<Rightarrow> None
           | Some got \<Rightarrow> Some (secret_diff want (c_string got) = 0))"

section \<open>Dispatch\<close>

datatype call =
  Error string | Version | Cards | Ports | Flows | Stats int | Ports_stats | Tap_stats | Flow_hist int
| Flow_preview "string option" nat int u32 | Flow_stats int | Sfp_info int int | Test_start | Test_stop | Test_arm
| Stats_clear | Config_load "string option" | Config_get_raw | Config_get_test | Config_save "string option"
| Flow_start u32 | Flow_stop u32 | Flash_id | Flash_write "string option" u32

definition int_field :: "'j json_c \<Rightarrow> 'j \<Rightarrow> string \<Rightarrow> int" where
  "int_field jc req k = (case jc_field jc req k of None \<Rightarrow> - 1 | Some j \<Rightarrow> jc_int jc j)"

text \<open>A field that must be a string.\<close>

definition text_field :: "'j json_c \<Rightarrow> 'j \<Rightarrow> string \<Rightarrow> string option" where
  "text_field jc req k =
     (case jc_field jc req k of None \<Rightarrow> None
      | Some j \<Rightarrow> if jc_type jc j = J_string then map_option c_string (jc_string jc j) else None)"

definition route :: "'j json_c \<Rightarrow> string \<Rightarrow> 'j \<Rightarrow> call" where
  "route jc name req =
     (if name = ''version'' then Version
      else if name = ''cards'' then Cards
      else if name = ''ports'' then Ports
      else if name = ''flows'' then Flows
      else if name = ''stats'' then Stats (int_field jc req ''card'')
      else if name = ''ports.stats'' then Ports_stats
      else if name = ''tap.stats'' then Tap_stats
      else if name = ''flow.hist''
      then (case jc_field jc req ''id'' of None \<Rightarrow> Error ''missing id'' | Some j \<Rightarrow> Flow_hist (jc_int jc j))
      else if name = ''flow.preview''
      then let yaml = Option.bind (jc_field jc req ''yaml'') (jc_string jc)
           in Flow_preview yaml (if yaml = None then 0 else jc_string_len jc (the (jc_field jc req ''yaml''))) (int_field jc req ''id'')
                (case jc_field jc req ''seq'' of None \<Rightarrow> 0 | Some j \<Rightarrow> of_int (jc_int64 jc j))
      else if name = ''flow.stats'' then Flow_stats (int_field jc req ''id'')
      else if name = ''sfp.info'' then Sfp_info (int_field jc req ''card'') (int_field jc req ''port'')
      else if name = ''test.start'' then Test_start
      else if name = ''test.stop'' then Test_stop
      else if name = ''test.arm'' then Test_arm
      else if name = ''stats.clear'' then Stats_clear
      else if name = ''config.load'' then Config_load (text_field jc req ''yaml'')
      else if name = ''config.get_raw'' then Config_get_raw
      else if name = ''config.get_test'' then Config_get_test
      else if name = ''config.save'' then Config_save (text_field jc req ''yaml'')
      else if name = ''flow.start''
      then (case jc_field jc req ''id'' of None \<Rightarrow> Error ''missing id'' | Some j \<Rightarrow> Flow_start (of_int (jc_int64 jc j)))
      else if name = ''flow.stop''
      then (case jc_field jc req ''id'' of None \<Rightarrow> Error ''missing id'' | Some j \<Rightarrow> Flow_stop (of_int (jc_int64 jc j)))
      else if name = ''flash.id'' then Flash_id
      else if name = ''flash.write''
      then (case jc_field jc req ''path'' of None \<Rightarrow> Error ''missing path''
            | Some j \<Rightarrow> Flash_write (jc_string jc j)
                (case jc_field jc req ''offset'' of None \<Rightarrow> 0x00E00000 | Some k \<Rightarrow> of_int (jc_int64 jc k)))
      else Error ''unknown rpc'')"

text \<open>The request of one connection, as far as the handler that is called; None: the daemon crashes.\<close>

definition dispatch :: "'j json_c \<Rightarrow> string \<Rightarrow> bytes \<Rightarrow> call option" where
  "dispatch jc want buf =
     (case jc_parse jc buf of None \<Rightarrow> Some (Error ''invalid JSON'')
      | Some req \<Rightarrow>
          if jc_type jc req \<noteq> J_object then Some (Error ''request must be a JSON object'')
          else let name = text_field jc req ''rpc'' in
            (case authenticate jc want req of None \<Rightarrow> None
             | Some authed \<Rightarrow>
                 if \<not> authed then Some (Error ''unauthorized'')
                 else (case name of None \<Rightarrow> Some (Error ''missing rpc'') | Some n \<Rightarrow> Some (route jc n req))))"

text \<open>
  What a call does to the program and the cards. \<open>config.save\<close> writes a file and \<open>flash.write\<close> the flash, which are
  not part of this state; the other handlers read.
\<close>

fun act :: "(string \<Rightarrow> yaml_event list) \<Rightarrow> int \<Rightarrow> 'w card_runtime list \<Rightarrow> call \<Rightarrow> 'w daemon \<Rightarrow> 'w daemon" where
  "act libyaml cal cards Test_start d = fst (warn_servo cards (fst (test_run cal cards True d)))"
| "act libyaml cal cards Test_stop d = fst (test_run cal cards False d)"
| "act libyaml cal cards Test_arm d = fst (warn_servo cards (fst (test_arm cal cards d)))"
| "act libyaml cal cards Stats_clear d = fst (stats_clear cards d)"
| "act libyaml cal cards (Config_load y) d = fst (do_config_load libyaml cal cards y d)"
| "act libyaml cal cards (Flow_start gid) d = fst (flow_run cards True gid d)"
| "act libyaml cal cards (Flow_stop gid) d = fst (flow_run cards False gid d)"
| "act libyaml cal cards _ d = d"

section \<open>The secret in the environment file\<close>

definition PW_SECRET_REDACTED :: string where "PW_SECRET_REDACTED = ''***''"

definition blank :: "char \<Rightarrow> bool" where
  "blank c \<longleftrightarrow> c = CHR '' '' \<or> c = CHR 0x09"

text \<open>The indentation of a line with the key \<open>secret\<close>.\<close>

definition secret_line_indent :: "string \<Rightarrow> nat option" where
  "secret_line_indent line =
     (let p = dropWhile blank line
      in if take 6 p \<noteq> ''secret'' then None
         else if take 1 (dropWhile blank (drop 6 p)) = '':'' then Some (length (takeWhile blank line)) else None)"

text \<open>The pieces \<open>fgets\<close> delivers with a buffer of \<open>n + 1\<close> characters: to the end of the line, or \<open>n\<close>.\<close>

fun piece :: "nat \<Rightarrow> string \<Rightarrow> string \<times> string" where
  "piece 0 cs = ([], cs)"
| "piece (Suc n) [] = ([], [])"
| "piece (Suc n) (c # cs) = (if c = CHR 0x0A then ([c], cs) else case piece n cs of (l, r) \<Rightarrow> (c # l, r))"

lemma piece_code [code]:
  "piece n cs =
     (if n = 0 then ([], cs)
      else case cs of [] \<Rightarrow> ([], [])
           | c # ds \<Rightarrow> if c = CHR 0x0A then ([c], ds) else (case piece (n - 1) ds of (l, r) \<Rightarrow> (c # l, r)))"
  by (cases n; cases cs) simp_all

lemma piece_length: "piece n cs = (l, r) \<Longrightarrow> 0 < n \<Longrightarrow> cs \<noteq> [] \<Longrightarrow> length r < length cs"
proof (induction n cs arbitrary: l r rule: piece.induct)
  case (3 n c cs)
  show ?case
  proof (cases "c = CHR 0x0A \<or> n = 0 \<or> cs = []")
    case True
    then show ?thesis using 3(2) by (cases n) (auto split: if_splits prod.splits)
  next
    case False
    then show ?thesis using 3 by (cases "piece n cs") fastforce
  qed
qed simp_all

function pieces :: "nat \<Rightarrow> string \<Rightarrow> string list" where
  "pieces n cs = (if n = 0 \<or> cs = [] then [] else fst (piece n cs) # pieces n (snd (piece n cs)))"
  by pat_completeness auto
termination
  by (relation "measure (length \<circ> snd)") (auto intro: piece_length [OF prod.collapse [symmetric]])

declare pieces.simps [simp del]

text \<open>
  \<open>config.get_raw\<close>: the text of the file, in pieces of at most 1023 characters (each up to its first NUL), the
  lines of the secret replaced.
\<close>

definition redact_line :: "string \<Rightarrow> string" where
  "redact_line line =
     (case secret_line_indent line of None \<Rightarrow> line
      | Some indent \<Rightarrow> replicate (min indent 32) (CHR '' '') @ ''secret: \"'' @ PW_SECRET_REDACTED @ ''\"'' @ [CHR 0x0A])"

definition build_config_get_raw :: "string option \<Rightarrow> pw_config option \<Rightarrow> string \<times> bool \<times> bool" where
  "build_config_get_raw file cfg =
     (case file of None \<Rightarrow> ([], False, True)
      | Some content \<Rightarrow>
          (concat (map (redact_line \<circ> c_string) (pieces 1023 content)),
           (case cfg of None \<Rightarrow> False | Some c \<Rightarrow> sys_secret (cfg_system c) \<noteq> []), False))"

text \<open>The escaped secret, as far as it fits its buffer.\<close>

fun escape_into :: "nat \<Rightarrow> string \<Rightarrow> string \<Rightarrow> string" where
  "escape_into room acc [] = acc"
| "escape_into room acc (c # cs) =
     (if length acc + 2 < room
      then escape_into room (acc @ (if c = CHR 0x5C \<or> c = CHR 0x22 then [CHR 0x5C] else []) @ [c]) cs
      else acc)"

definition escape_secret :: "string \<Rightarrow> string" where
  "escape_secret sec = escape_into (PW_SECRET_MAX * 2 + 1) [] sec"

definition restore_line :: "string \<Rightarrow> string \<Rightarrow> string" where
  "restore_line esc line =
     (if length line < 1024
      then (case secret_line_indent line of None \<Rightarrow> line
            | Some indent \<Rightarrow>
                replicate (min indent 64) (CHR '' '') @ ''secret: \"'' @ esc @ ''\"'' @
                (if line \<noteq> [] \<and> last line = CHR 0x0A then [CHR 0x0A] else []))
      else line)"

text \<open>The lines of a text, each with its newline; the last one may have none.\<close>

definition text_lines :: "string \<Rightarrow> string list" where
  "text_lines t = pieces (length t) t"

definition yaml_rewrite_secret :: "string \<Rightarrow> string \<Rightarrow> string" where
  "yaml_rewrite_secret yaml sec = concat (map (restore_line (escape_secret sec)) (text_lines yaml))"

text \<open>
  \<open>config.save\<close> up to the text that is written: the text, whether a restart is needed to apply it, and whether the
  topology changed.
\<close>

datatype save_error = Save_missing_yaml | Save_parse pw_status | Save_invalid pw_status | Save_placeholder

definition do_config_save ::
  "(string \<Rightarrow> yaml_event list) \<Rightarrow> pw_config \<Rightarrow> string option \<Rightarrow> string option \<Rightarrow> save_error + (string \<times> bool \<times> bool)" where
  "do_config_save libyaml cfg loaded o_yaml =
     (case o_yaml of None \<Rightarrow> Inl Save_missing_yaml
      | Some yaml \<Rightarrow>
          (case pw_config_parse_string_ex libyaml (Some yaml) False (Some pw_config_new) of Inl r \<Rightarrow> Inl (Save_parse r)
           | Inr newc \<Rightarrow>
               if pw_config_validate (Some newc) \<noteq> PW_OK then Inl (Save_invalid (pw_config_validate (Some newc)))
               else
                 let topology_change = \<not> same_topology cfg newc;
                     rewritten = yaml_rewrite_secret yaml (sys_secret (cfg_system cfg));
                     ok = (case pw_config_parse_string_ex libyaml (Some rewritten) False (Some pw_config_new) of
                             Inl _ \<Rightarrow> False | Inr again \<Rightarrow> sys_secret (cfg_system again) \<noteq> PW_SECRET_REDACTED)
                 in if sys_secret (cfg_system newc) = PW_SECRET_REDACTED \<and> \<not> ok then Inl Save_placeholder
                    else let out = (if sys_secret (cfg_system newc) = PW_SECRET_REDACTED then rewritten else yaml)
                         in Inr (out, loaded \<noteq> Some out, topology_change)))"

section \<open>Labels of the exporter\<close>

fun label_into :: "nat \<Rightarrow> string \<Rightarrow> string \<Rightarrow> string" where
  "label_into room acc [] = acc"
| "label_into room acc (c # cs) =
     (if length acc + 2 < room
      then label_into room (acc @ (if c = CHR 0x5C then [CHR 0x5C, CHR 0x5C] else if c = CHR 0x22 then [CHR 0x5C, CHR 0x22]
                                   else if c = CHR 0x0A then [CHR 0x5C, CHR ''n''] else [c])) cs
      else acc)"

definition prom_label_escape :: "nat \<Rightarrow> string option \<Rightarrow> string option" where
  "prom_label_escape dstsz src =
     (if dstsz = 0 then None else Some (label_into dstsz [] (case src of None \<Rightarrow> [] | Some s \<Rightarrow> s)))"

section \<open>The comparison\<close>

lemma or_fold_zero: "foldl (\<lambda>d i. d OR f i) a xs = (0 :: u32) \<longleftrightarrow> a = 0 \<and> (\<forall>i\<in>set xs. f i = 0)"
  by (induction xs arbitrary: a) (auto simp: or_eq_0_iff)

lemma xor_zero [simp]: "a XOR b = 0 \<longleftrightarrow> a = (b :: u32)"
proof
  assume "a XOR b = 0"
  then have "(a XOR b) XOR b = 0 XOR b" by (simp only:)
  then show "a = b" by (simp add: xor.assoc)
qed simp

lemma char32_eq [simp]: "char32 a = char32 b \<longleftrightarrow> a = b"
proof
  assume e: "char32 a = char32 b"
  have inv: "scast (scast x :: u32) = x" for x :: u8 by (rule scast_up_scast_id) (simp add: is_up)
  have "unat (of_nat (of_char c) :: u8) = of_char c" for c by (simp add: unat_of_nat take_bit_nat_eq_self)
  moreover from e inv have "(of_nat (of_char a) :: u8) = of_nat (of_char b)" unfolding char32_def by metis
  ultimately have "of_char a = (of_char b :: nat)" by metis
  then show "a = b" by simp
qed simp

lemma length_diff:
  assumes "m < 2 ^ 32" "n < 2 ^ 32"
  shows "(ucast ((of_nat m :: u64) XOR of_nat n) :: u32) = 0 \<longleftrightarrow> m = n"
proof -
  have e: "(ucast ((of_nat m :: u64) XOR of_nat n) :: u32) = of_nat m XOR of_nat n"
    by (rule bit_word_eqI) (auto simp: bit_simps)
  have u: "unat (of_nat k :: u32) = k" if "k < 2 ^ 32" for k using that by (simp add: unat_of_nat take_bit_nat_eq_self)
  show ?thesis unfolding e using u [OF assms(1)] u [OF assms(2)] by (metis xor_zero)
qed

lemma secret_diff_zero:
  assumes "length want < PW_SECRET_MAX" "length got < 2 ^ 32"
  shows "secret_diff want got = 0 \<longleftrightarrow> got = want"
proof -
  have l: "length want < 2 ^ 32" "min (length want) PW_SECRET_MAX = length want" using assms(1) by (simp_all add: PW_SECRET_MAX_def)
  have "secret_diff want got = 0 \<longleftrightarrow> length want = length got \<and> (\<forall>i < length want. want ! i = got ! i)"
    unfolding secret_diff_def Let_def or_fold_zero l(2) length_diff [OF l(1) assms(2)] by auto
  also have "\<dots> \<longleftrightarrow> got = want" by (auto simp: list_eq_iff_nth_eq)
  finally show ?thesis .
qed

lemma c_string_length: "length (c_string s) \<le> length s"
  by (simp add: c_string_def length_takeWhile_le)

lemma authenticate_exact:
  assumes jc: "json_c_ok jc" and want: "want \<noteq> []" "length want < PW_SECRET_MAX"
  shows "authenticate jc want req =
    (case jc_field jc req ''secret'' of None \<Rightarrow> Some False
     | Some js \<Rightarrow> if jc_type jc js = J_null then None else Some (c_string (the (jc_string jc js)) = want))"
proof (cases "jc_field jc req ''secret''")
  case None
  have "secret_diff want (c_string []) \<noteq> 0" using secret_diff_zero [OF want(2), of "[]"] want(1) by (simp add: c_string_def)
  with None want(1) show ?thesis by (simp add: authenticate_def c_string_def)
next
  case (Some js)
  show ?thesis
  proof (cases "jc_string jc js")
    case None
    moreover from this jc have "jc_type jc js = J_null" by (simp add: json_c_ok_def)
    ultimately show ?thesis using Some want(1) by (simp add: authenticate_def)
  next
    case (Some got)
    have "length got < 2 ^ 31" using jc Some by (simp add: json_c_ok_def)
    then have "length (c_string got) < 2 ^ 32" using c_string_length [of got] by simp
    from secret_diff_zero [OF want(2) this] Some have "authenticate jc want req = Some (c_string got = want)"
      using \<open>jc_field jc req ''secret'' = Some js\<close> want(1) by (simp add: authenticate_def)
    moreover have "jc_type jc js \<noteq> J_null" using Some jc unfolding json_c_ok_def by (metis option.distinct(1))
    ultimately show ?thesis using Some \<open>jc_field jc req ''secret'' = Some js\<close> by simp
  qed
qed

lemma act_step: "act libyaml cal cards c d = d \<or> dstep libyaml cal cards d (act libyaml cal cards c d)"
  by (cases c) (auto intro: dstep.intros)

section \<open>Lines\<close>

text \<open>Lines of at most \<open>n\<close> characters: only the last one may lack its newline.\<close>

fun proper_lines :: "nat \<Rightarrow> string list \<Rightarrow> bool" where
  "proper_lines n [] = True"
| "proper_lines n (l # ls) =
     (l \<noteq> [] \<and> length l \<le> n \<and> CHR 0x0A \<notin> set (butlast l) \<and> (ls \<noteq> [] \<longrightarrow> last l = CHR 0x0A) \<and> proper_lines n ls)"

lemma piece_line:
  "l \<noteq> [] \<Longrightarrow> length l \<le> n \<Longrightarrow> CHR 0x0A \<notin> set (butlast l) \<Longrightarrow> last l = CHR 0x0A \<or> r = [] \<Longrightarrow> piece n (l @ r) = (l, r)"
proof (induction l arbitrary: n)
  case (Cons c l)
  then obtain m where n: "n = Suc m" by (cases n) auto
  show ?case
  proof (cases "l = []")
    case True
    with Cons.prems n show ?thesis by (cases m) auto
  next
    case False
    with Cons n have "piece m (l @ r) = (l, r)" by (intro Cons.IH) (auto split: if_splits)
    moreover have "c \<noteq> CHR 0x0A" using False Cons.prems by auto
    ultimately show ?thesis using n by simp
  qed
qed simp

lemma pieces_lines: "proper_lines n ls \<Longrightarrow> pieces n (concat ls) = ls"
proof (induction ls)
  case (Cons l ls)
  then have "piece n (l @ concat ls) = (l, concat ls)" by (intro piece_line) auto
  moreover have "0 < n" using Cons.prems by (cases n) auto
  ultimately show ?case using Cons by (subst pieces.simps) auto
qed (simp add: pieces.simps)

lemma piece_spec:
  "0 < n \<Longrightarrow> cs \<noteq> [] \<Longrightarrow> fst (piece n cs) @ snd (piece n cs) = cs \<and> fst (piece n cs) \<noteq> [] \<and> length (fst (piece n cs)) \<le> n \<and>
     CHR 0x0A \<notin> set (butlast (fst (piece n cs))) \<and>
     (last (fst (piece n cs)) = CHR 0x0A \<or> length (fst (piece n cs)) = n \<or> snd (piece n cs) = [])"
proof (induction n cs rule: piece.induct)
  case (3 n c cs)
  show ?case
  proof (cases "c = CHR 0x0A \<or> n = 0 \<or> cs = []")
    case True
    then show ?thesis by (cases n) auto
  next
    case False
    then obtain m where "n = Suc m" by (cases n) auto
    with False 3 show ?thesis by (auto simp: split_beta)
  qed
qed simp_all

lemma pieces_proper: "length cs \<le> n \<Longrightarrow> concat (pieces n cs) = cs \<and> proper_lines n (pieces n cs)"
proof (induction "length cs" arbitrary: cs rule: less_induct)
  case less
  show ?case
  proof (cases "cs = []")
    case True
    then show ?thesis by (simp add: pieces.simps)
  next
    case False
    then have n: "0 < n" using less.prems by (cases n) auto
    note P = piece_spec [OF n False]
    let ?l = "fst (piece n cs)" and ?r = "snd (piece n cs)"
    have len: "length ?l + length ?r = length cs" using P by (metis length_append)
    then have r: "length ?r < length cs" "length ?r \<le> n" using P less.prems by (cases ?l; simp)+
    note IH = less.hyps [OF r(1) r(2)]
    have "length ?l = n \<Longrightarrow> ?r = []" using len less.prems by (cases ?r) auto
    then have "?r = [] \<or> last ?l = CHR 0x0A" using P by blast
    moreover have "pieces n ?r = [] \<longleftrightarrow> ?r = []" using IH by (metis concat.simps(1) pieces.simps)
    ultimately show ?thesis using P IH n False by (subst (1 2) pieces.simps) auto
  qed
qed

lemma text_lines: "concat (text_lines t) = t" "proper_lines (length t) (text_lines t)"
  using pieces_proper [of t "length t"] by (simp_all add: text_lines_def)

lemma proper_lines_le: "proper_lines n ls \<Longrightarrow> \<forall>l\<in>set ls. length l \<le> m \<Longrightarrow> proper_lines m ls"
  by (induction ls) auto

lemma length_concat_member: "l \<in> set ls \<Longrightarrow> length l \<le> length (concat ls)"
  by (induction ls) auto

lemma proper_lines_concat: "proper_lines n ls \<Longrightarrow> proper_lines (length (concat ls)) ls"
  by (erule proper_lines_le) (use length_concat_member in blast)

lemma text_lines_concat: "proper_lines n ls \<Longrightarrow> text_lines (concat ls) = ls"
  unfolding text_lines_def by (rule pieces_lines) (rule proper_lines_concat)

lemma short_lines:
  assumes "\<forall>l\<in>set (text_lines t). length l < 1024"
  shows "pieces 1023 t = text_lines t"
proof -
  have "proper_lines 1023 (text_lines t)" using assms by (intro proper_lines_le [OF text_lines(2)]) fastforce
  from pieces_lines [OF this] show ?thesis by (simp add: text_lines(1))
qed

lemma lines_nul_free: "nul_free t \<Longrightarrow> l \<in> set (text_lines t) \<Longrightarrow> nul_free l"
  using text_lines(1) [of t] unfolding nul_free_def by (metis UN_I set_concat)

section \<open>The lines of the secret\<close>

lemma get_raw_text:
  assumes "\<forall>l\<in>set (text_lines t). length l < 1024" "nul_free t"
  shows "fst (build_config_get_raw (Some t) cfg) = concat (map redact_line (text_lines t))"
proof -
  have "map (redact_line \<circ> c_string) (text_lines t) = map redact_line (text_lines t)"
    using lines_nul_free [OF assms(2)] by (intro map_cong) auto
  then show ?thesis unfolding build_config_get_raw_def option.case fst_conv short_lines [OF assms(1)] by (rule arg_cong)
qed

lemma takeWhile_replicate: "P x \<Longrightarrow> \<not> P y \<Longrightarrow> takeWhile P (replicate k x @ y # ys) = replicate k x"
  by (induction k) auto

lemma dropWhile_replicate: "P x \<Longrightarrow> \<not> P y \<Longrightarrow> dropWhile P (replicate k x @ y # ys) = y # ys"
  by (induction k) auto

lemma secret_line_indent_made:
  "secret_line_indent (replicate k (CHR '' '') @ ''secret: \"'' @ rest) = Some k"
  by (simp add: secret_line_indent_def Let_def blank_def takeWhile_replicate dropWhile_replicate)

lemmas indent_made [simp] = secret_line_indent_made [simplified append_Cons append_Nil]

lemma secret_line_indent_redact: "secret_line_indent (redact_line l) = map_option (min 32) (secret_line_indent l)"
  by (auto simp: redact_line_def secret_line_indent_made min.commute split: option.split)

lemma redact_again: "redact_line (redact_line l) = redact_line l"
  by (auto simp: redact_line_def secret_line_indent_made split: option.split)

lemma redact_same: "secret_line_indent a = secret_line_indent b \<Longrightarrow> Some k = secret_line_indent b \<Longrightarrow> redact_line a = redact_line b"
  by (auto simp: redact_line_def split: option.split)

lemma redact_public: "secret_line_indent l = None \<Longrightarrow> redact_line l = l"
  by (simp add: redact_line_def)

lemma redact_line_short: "secret_line_indent l = Some k \<Longrightarrow> length (redact_line l) \<le> 47"
  by (simp add: redact_line_def PW_SECRET_REDACTED_def)

lemma redact_line_proper:
  assumes "proper_lines n ls" "47 \<le> n"
  shows "proper_lines n (map redact_line ls)"
  using assms(1)
proof (induction ls)
  case (Cons l ls)
  show ?case
  proof (cases "secret_line_indent l")
    case None
    with Cons show ?thesis by (simp add: redact_line_def)
  next
    case (Some k)
    have "length (redact_line l) \<le> n" using redact_line_short [OF Some] assms(2) by simp
    moreover have "redact_line l \<noteq> [] \<and> CHR 0x0A \<notin> set (butlast (redact_line l)) \<and> last (redact_line l) = CHR 0x0A"
      using Some by (simp add: redact_line_def PW_SECRET_REDACTED_def butlast_append)
    ultimately show ?thesis using Cons by simp
  qed
qed simp

lemma text_lines_redact: "text_lines (concat (map redact_line (text_lines t))) = map redact_line (text_lines t)"
proof -
  have "proper_lines (length t + 47) (text_lines t)"
    using length_concat_member [of _ "text_lines t"] unfolding text_lines(1)
    by (intro proper_lines_le [OF text_lines(2)] ballI) (metis trans_le_add1)
  from redact_line_proper [OF this] show ?thesis by (intro text_lines_concat) simp
qed

text \<open>The file with a secret in place of the ones it has.\<close>

definition with_secret :: "string \<Rightarrow> string \<Rightarrow> string" where
  "with_secret sec l =
     (case secret_line_indent l of None \<Rightarrow> l
      | Some k \<Rightarrow> replicate (min k 32) (CHR '' '') @ ''secret: \"'' @ escape_secret sec @ ''\"'' @ [CHR 0x0A])"

lemma restore_redacted:
  assumes "length l < 1024"
  shows "restore_line (escape_secret sec) (redact_line l) = with_secret sec l"
proof (cases "secret_line_indent l")
  case None
  with assms show ?thesis by (simp add: redact_line_def restore_line_def with_secret_def)
next
  case (Some k)
  have "redact_line l \<noteq> []" "last (redact_line l) = CHR 0x0A" using Some by (simp_all add: redact_line_def)
  moreover have "secret_line_indent (redact_line l) = Some (min 32 k)" using Some by (simp add: secret_line_indent_redact)
  ultimately show ?thesis using redact_line_short [OF Some] Some by (simp add: restore_line_def with_secret_def min.commute)
qed

lemma rewrite_redacted:
  assumes "\<forall>l\<in>set (text_lines t). length l < 1024"
  shows "yaml_rewrite_secret (concat (map redact_line (text_lines t))) sec = concat (map (with_secret sec) (text_lines t))"
  unfolding yaml_rewrite_secret_def text_lines_redact map_map comp_def
  using restore_redacted assms by (intro arg_cong [where f = concat] map_cong) auto

section \<open>Quoted text\<close>

text \<open>
  What a YAML reader makes of a double-quoted scalar on one line, from behind the opening quote: the text and what
  follows the closing quote. Only the escapes the daemon writes are read.
\<close>

fun read_quoted :: "string \<Rightarrow> (string \<times> string) option" where
  "read_quoted [] = None"
| "read_quoted (c # cs) =
     (if c = CHR 0x22 then Some ([], cs)
      else if c = CHR 0x5C
      then (case cs of d # ds \<Rightarrow>
              if d = CHR 0x5C \<or> d = CHR 0x22 then map_option (\<lambda>(a, r). (d # a, r)) (read_quoted ds) else None
            | [] \<Rightarrow> None)
      else map_option (\<lambda>(a, r). (c # a, r)) (read_quoted cs))"

definition escape_char :: "char \<Rightarrow> string" where
  "escape_char c = (if c = CHR 0x5C \<or> c = CHR 0x22 then [CHR 0x5C] else []) @ [c]"

lemma escape_into_all: "length acc + 2 * length s < room \<Longrightarrow> escape_into room acc s = acc @ concat (map escape_char s)"
  by (induction s arbitrary: acc) (auto simp: escape_char_def)

lemma escape_secret_all: "length sec < PW_SECRET_MAX \<Longrightarrow> escape_secret sec = concat (map escape_char sec)"
  by (simp add: escape_secret_def escape_into_all)

lemma read_escaped: "read_quoted (concat (map escape_char s) @ CHR 0x22 # rest) = Some (s, rest)"
  by (induction s) (auto simp: escape_char_def)

lemma escape_secret_read:
  "length sec < PW_SECRET_MAX \<Longrightarrow> read_quoted (escape_secret sec @ CHR 0x22 # rest) = Some (sec, rest)"
  by (simp add: escape_secret_all read_escaped)

section \<open>Properties\<close>


text \<open>A reader of requests whose bytes are the secret they present.\<close>

definition ex_json :: "(string, string) map + string option \<Rightarrow> json_type" where
  "ex_json j = (case j of Inl _ \<Rightarrow> J_object | Inr None \<Rightarrow> J_null | Inr (Some _) \<Rightarrow> J_string)"

definition ex_json_c :: "((string, string) map + string option) json_c" where
  "ex_json_c = \<lparr>jc_parse = \<lambda>b. Some (Inl [''rpc'' \<mapsto> ''test.stop'', ''secret'' \<mapsto> map (char_of \<circ> unat) b]), jc_type = ex_json,
     jc_field = \<lambda>j k. (case j of Inl f \<Rightarrow> map_option (Inr \<circ> Some) (f k) | Inr _ \<Rightarrow> None),
     jc_string = \<lambda>j. (case j of Inl _ \<Rightarrow> Some ''{}'' | Inr s \<Rightarrow> map_option (take 1000) s),
     jc_string_len = \<lambda>j. (case j of Inl _ \<Rightarrow> 2 | Inr None \<Rightarrow> 0 | Inr (Some s) \<Rightarrow> min 1000 (length s)),
     jc_int = \<lambda>_. 0, jc_int64 = \<lambda>_. 0\<rparr>"

lemma ex_json_c_ok: "json_c_ok ex_json_c"
  by (auto simp: json_c_ok_def ex_json_c_def ex_json_def split: sum.splits option.splits)


text \<open>Two files that differ in the values of the secret only.\<close>

definition same_public :: "string \<Rightarrow> string \<Rightarrow> bool" where
  "same_public t u \<longleftrightarrow>
     list_all2 (\<lambda>a b. a = b \<or> secret_line_indent a \<noteq> None \<and> secret_line_indent a = secret_line_indent b) (text_lines t) (text_lines u)"

definition short_text :: "string \<Rightarrow> bool" where
  "short_text t \<longleftrightarrow> nul_free t \<and> list_all (\<lambda>l. length l < 1024) (text_lines t)"


definition ex_env :: "string \<Rightarrow> string" where
  "ex_env sec = ''# lab'' @ [CHR 0x0A] @ ''  secret: \"'' @ sec @ ''\"'' @ [CHR 0x0A] @ ''  mode: x''"

lemma ex_env_lines:
  assumes "CHR 0x0A \<notin> set sec"
  shows "text_lines (ex_env sec) = [''# lab'' @ [CHR 0x0A], ''  secret: \"'' @ sec @ ''\"'' @ [CHR 0x0A], ''  mode: x'']"
proof -
  let ?ls = "[''# lab'' @ [CHR 0x0A], ''  secret: \"'' @ sec @ ''\"'' @ [CHR 0x0A], ''  mode: x'']"
  have "proper_lines (length sec + 13) ?ls" using assms by (simp add: butlast_append)
  from text_lines_concat [OF this] show ?thesis by (simp add: ex_env_def)
qed

lemma ex_env_indent: "secret_line_indent (''  secret: \"'' @ rest) = Some 2" "secret_line_indent (''# lab'' @ [CHR 0x0A]) = None"
  "secret_line_indent ''  mode: x'' = None"
  by (simp_all add: secret_line_indent_def blank_def Let_def)

lemma ex_env_short: "short_text (ex_env sec)" if "CHR 0x0A \<notin> set sec" "nul_free sec" "length sec < 100"
  using that ex_env_lines [OF that(1)] by (simp add: short_text_def ex_env_def clean)


text \<open>
  C8. \<open>config.save\<close>. What it writes can be read, and its secret is not the placeholder. A text with a secret of its
  own is written as it is. A text with the placeholder for its secret gets the running one: for the answer to
  \<open>config.get_raw\<close> for a file \<open>t\<close>, this is \<open>t\<close> with the lines of the secret rewritten, where a reader of quoted
  text finds the running secret, never cut off; when those lines have the daemon's form already, it is \<open>t\<close> itself.
  A restart is asked for unless the text is the one that was loaded.
\<close>

theorem save_keeps_secret:
  assumes "do_config_save libyaml cfg loaded (Some yaml) = Inr (out, restart, topology)"
    and "length (sys_secret (cfg_system cfg)) < PW_SECRET_MAX"
  shows "(\<exists>c. pw_config_parse_string_ex libyaml (Some out) False (Some pw_config_new) = Inr c \<and> sys_secret (cfg_system c) \<noteq> ''***'') \<and>
    restart = (loaded \<noteq> Some out) \<and>
    (\<forall>c. pw_config_parse_string_ex libyaml (Some yaml) False (Some pw_config_new) = Inr c \<longrightarrow>
       (sys_secret (cfg_system c) \<noteq> ''***'' \<longrightarrow> out = yaml) \<and>
       (sys_secret (cfg_system c) = ''***'' \<longrightarrow>
          (\<forall>t. short_text t \<and> yaml = fst (build_config_get_raw (Some t) (Some cfg)) \<longrightarrow>
             out = concat (map (with_secret (sys_secret (cfg_system cfg))) (text_lines t)) \<and>
             ((\<forall>l\<in>set (text_lines t). with_secret (sys_secret (cfg_system cfg)) l = l) \<longrightarrow> out = t)))) \<and>
    (\<forall>rest. read_quoted (escape_secret (sys_secret (cfg_system cfg)) @ CHR 0x22 # rest) = Some (sys_secret (cfg_system cfg), rest))"
proof -
  let ?sec = "sys_secret (cfg_system cfg)" and ?parse = "\<lambda>y. pw_config_parse_string_ex libyaml (Some y) False (Some pw_config_new)"
  obtain c where c: "?parse yaml = Inr c" using assms(1) by (auto simp: do_config_save_def split: sum.splits)
  have S: "restart = (loaded \<noteq> Some out)" "sys_secret (cfg_system c) \<noteq> ''***'' \<Longrightarrow> out = yaml"
    "sys_secret (cfg_system c) = ''***'' \<Longrightarrow> out = yaml_rewrite_secret yaml ?sec \<and>
       (\<exists>a. ?parse out = Inr a \<and> sys_secret (cfg_system a) \<noteq> ''***'')"
    using assms(1) c by (auto simp: do_config_save_def Let_def PW_SECRET_REDACTED_def split: if_splits sum.splits)
  have ex: "\<exists>a. ?parse out = Inr a \<and> sys_secret (cfg_system a) \<noteq> ''***''" using S(2,3) c by metis
  have R: "yaml_rewrite_secret yaml ?sec = concat (map (with_secret ?sec) (text_lines t))"
    if "short_text t" "yaml = fst (build_config_get_raw (Some t) (Some cfg))" for t
    using that get_raw_text [of t] rewrite_redacted [of t] by (auto simp: short_text_def list_all_iff)
  have I: "concat (map (with_secret ?sec) (text_lines t)) = t" if "\<forall>l\<in>set (text_lines t). with_secret ?sec l = l" for t
    using that text_lines(1) [of t] by (metis map_idI)
  show ?thesis using ex S c R I escape_secret_read [OF assms(2)] by auto
qed

text \<open>A reader for these files, and the running configuration.\<close>

definition ex_with :: "string \<Rightarrow> pw_config" where
  "ex_with sec = ex_config\<lparr>cfg_system := (cfg_system ex_config)\<lparr>sys_secret := sec\<rparr>\<rparr>"

definition ex_secret_of :: "string \<Rightarrow> string" where
  "ex_secret_of t = (case read_quoted (drop 17 t) of None \<Rightarrow> [] | Some (s, _) \<Rightarrow> s)"

definition ex_reader :: "string \<Rightarrow> yaml_event list" where
  "ex_reader t = document 1 1 (map (\<lambda>k. (k, 1)) (kinds (yaml_of_config (ex_with (ex_secret_of t))))) 1 1"

definition ex_sec :: string where "ex_sec = [CHR ''a'', CHR 0x22]"

lemma ex_with_valid: "pw_config_validate (Some (ex_with ''***'')) = PW_OK"
  by code_simp

lemma ex_reader_reads:
  assumes "nul_free (ex_secret_of t)" "length (ex_secret_of t) < 128"
  shows "pw_config_parse_string_ex ex_reader (Some t) False (Some pw_config_new) = Inr (ex_with (ex_secret_of t))"
proof (rule config_read_back [OF _ _ ex_reader_def])
  show "config_ok (ex_with (ex_secret_of t))" using ex_config_ok assms(2) by (simp add: config_ok_def ex_with_def system_ok_def)
  show "list_all nul_free (config_texts (ex_with (ex_secret_of t)))"
    using ex_config_texts assms(1) by (simp add: config_texts_def ex_with_def system_texts_def)
qed (simp add: comp_def)

theorem save_keeps_secret_witness:
  "do_config_save ex_reader (ex_with ex_sec) None (Some (ex_env ''***'')) = Inr (ex_env [CHR ''a'', CHR 0x5C, CHR 0x22], True, False) \<and>
   (\<exists>c. pw_config_parse_string_ex ex_reader (Some (ex_env [CHR ''a'', CHR 0x5C, CHR 0x22])) False (Some pw_config_new) = Inr c \<and>
      sys_secret (cfg_system c) \<noteq> ''***'')"
proof -
  let ?out = "ex_env [CHR ''a'', CHR 0x5C, CHR 0x22]"
  have sec: "ex_secret_of (ex_env ''***'') = ''***''" "ex_secret_of ?out = ex_sec" by code_simp+
  have "sys_secret (cfg_system (ex_with s)) = s" for s by (simp add: ex_with_def)
  note facts = this
  have r: "pw_config_parse_string_ex ex_reader (Some (ex_env ''***'')) False (Some pw_config_new) = Inr (ex_with ''***'')"
    "pw_config_parse_string_ex ex_reader (Some ?out) False (Some pw_config_new) = Inr (ex_with ex_sec)"
    using ex_reader_reads [of "ex_env ''***''"] ex_reader_reads [of ?out] by (simp_all add: sec clean ex_sec_def)
  have t: "same_topology (ex_with a) (ex_with b)" for a b
    by (simp add: same_topology_def ex_with_def same_card_def same_ports_def same_lif_def list.rel_refl)
  let ?ls = "[''# lab'' @ [CHR 0x0A], ''  secret: \"'' @ ''***'' @ ''\"'' @ [CHR 0x0A], ''  mode: x'']"
  have l: "text_lines (ex_env ''***'') = ?ls" by (rule ex_env_lines) simp
  have "concat (map (restore_line (escape_secret ex_sec)) ?ls) = ?out" by code_simp
  then have w: "yaml_rewrite_secret (ex_env ''***'') ex_sec = ?out" unfolding yaml_rewrite_secret_def l .
  have S: "do_config_save ex_reader (ex_with ex_sec) None (Some (ex_env ''***'')) = Inr (?out, True, False)"
    unfolding do_config_save_def option.case r(1) sum.case facts w r(2) Let_def
    by (simp add: ex_with_valid t PW_SECRET_REDACTED_def ex_sec_def)
  have "length (sys_secret (cfg_system (ex_with ex_sec))) < PW_SECRET_MAX" by (simp add: facts ex_sec_def PW_SECRET_MAX_def)
  from save_keeps_secret [OF S this, THEN conjunct1] S show ?thesis by blast
qed

end
