(* ===== verification/PW_Ipc.thy ===== *)
theory PW_Ipc
  imports PW_Types
begin

text \<open>
  The control socket of \<^verbatim>\<open>ipc.c\<close>: frames with a length prefix over a stream socket, and the set-up of the
  socket. The kernel decides how much each \<open>send\<close> and \<open>read\<close> moves and when it is interrupted: its
  answers are a list, one per call, and a call for which there is no answer yet has not returned (\<open>None\<close>).
\<close>

section \<open>Streams\<close>

datatype io_answer = Chunk nat | Interrupted | Broken

text \<open>
  \<open>write_all\<close>: whether it succeeded, the bytes that went out, and the answers that are left.
\<close>

fun write_all :: "io_answer list \<Rightarrow> bytes \<Rightarrow> (bool \<times> bytes \<times> io_answer list) option" where
  "write_all ks [] = Some (True, [], ks)"
| "write_all [] (b # bs) = None"
| "write_all (k # ks) (b # bs) =
     (case k of
        Interrupted \<Rightarrow> write_all ks (b # bs)
      | Broken \<Rightarrow> Some (False, [], ks)
      | Chunk n \<Rightarrow> map_option (\<lambda>(ok, out, r). (ok, take n (b # bs) @ out, r)) (write_all ks (drop n (b # bs))))"

text \<open>
  \<open>read_all\<close> for \<open>left\<close> bytes from what the peer has sent: the bytes read unless it failed, what is left of the
  stream, the answers that are left. A read returns at least one byte except at the end of the stream.
\<close>

fun read_all :: "io_answer list \<Rightarrow> bytes \<Rightarrow> nat \<Rightarrow> (bytes option \<times> bytes \<times> io_answer list) option" where
  "read_all ks inb 0 = Some (Some [], inb, ks)"
| "read_all [] inb (Suc left) = None"
| "read_all (k # ks) inb (Suc left) =
     (case k of
        Interrupted \<Rightarrow> read_all ks inb (Suc left)
      | Broken \<Rightarrow> Some (None, inb, ks)
      | Chunk n \<Rightarrow>
          (if inb = [] then Some (None, inb, ks)
           else let got = take (min (max 1 n) (Suc left)) inb in
             map_option (\<lambda>(x, inb', r). (map_option (\<lambda>bs. got @ bs) x, inb', r))
               (read_all ks (drop (length got) inb) (Suc left - length got))))"

lemma read_all_code [code]:
  "read_all ks inb left =
     (if left = 0 then Some (Some [], inb, ks)
      else case ks of [] \<Rightarrow> None
           | k # ks' \<Rightarrow>
               (case k of
                  Interrupted \<Rightarrow> read_all ks' inb left
                | Broken \<Rightarrow> Some (None, inb, ks')
                | Chunk n \<Rightarrow>
                    (if inb = [] then Some (None, inb, ks')
                     else let got = take (min (max 1 n) left) inb in
                       map_option (\<lambda>(x, inb', r). (map_option (\<lambda>bs. got @ bs) x, inb', r))
                         (read_all ks' (drop (length got) inb) (left - length got)))))"
  by (cases left; cases ks) (simp_all split: io_answer.split)

section \<open>Frames\<close>

definition PW_IPC_FRAME_MAX :: nat where "PW_IPC_FRAME_MAX = 65536"

definition pw_ipc_read_frame ::
  "io_answer list \<Rightarrow> bytes \<Rightarrow> nat \<Rightarrow> ((pw_status + bytes) \<times> bytes \<times> io_answer list) option" where
  "pw_ipc_read_frame ks inb buflen =
     (case read_all ks inb 4 of None \<Rightarrow> None
      | Some (None, inb', ks') \<Rightarrow> Some (Inl PW_E_IO, inb', ks')
      | Some (Some hdr, inb', ks') \<Rightarrow>
          let n = unat (be32 (hdr ! 0) (hdr ! 1) (hdr ! 2) (hdr ! 3)) in
          if n = 0 \<or> n > buflen \<or> n > PW_IPC_FRAME_MAX then Some (Inl PW_E_OUT_OF_RANGE, inb', ks')
          else map_option (\<lambda>(x, inb'', ks''). (case x of None \<Rightarrow> Inl PW_E_IO | Some bs \<Rightarrow> Inr bs, inb'', ks''))
                 (read_all ks' inb' n))"

text \<open>The result, the bytes on the wire, the answers that are left.\<close>

definition pw_ipc_write_frame :: "io_answer list \<Rightarrow> bytes \<Rightarrow> (pw_status \<times> bytes \<times> io_answer list) option" where
  "pw_ipc_write_frame ks buf =
     (let len = length buf; w = of_nat len :: u64;
          hdr = [ucast (drop_bit 24 w), ucast (drop_bit 16 w), ucast (drop_bit 8 w), ucast w] :: bytes in
      if len = 0 \<or> len > PW_IPC_FRAME_MAX then Some (PW_E_OUT_OF_RANGE, [], ks)
      else case write_all ks hdr of None \<Rightarrow> None
           | Some (False, out, ks') \<Rightarrow> Some (PW_E_IO, out, ks')
           | Some (True, out, ks') \<Rightarrow>
               map_option (\<lambda>(ok, out2, ks''). (if ok then PW_OK else PW_E_IO, out @ out2, ks'')) (write_all ks' buf))"

section \<open>Setting up the socket\<close>

text \<open>The capacity of \<open>sun_path\<close> on Linux.\<close>

definition SUN_PATH :: nat where "SUN_PATH = 108"

definition fill_sockaddr_un :: "string \<Rightarrow> pw_status + string" where
  "fill_sockaddr_un path = (if length path \<ge> SUN_PATH then Inl PW_E_OUT_OF_RANGE else Inr path)"

datatype sys_call =
    Mkdir string | Unlink string | Socket | Umask nat | Bind string | Listen | Chmod string nat | Close | Connect string

text \<open>\<open>connect\<close>: the answers are whether \<open>socket\<close> and \<open>connect\<close> succeed.\<close>

definition pw_ipc_connect :: "bool \<Rightarrow> bool \<Rightarrow> string option \<Rightarrow> pw_status \<times> sys_call list" where
  "pw_ipc_connect sock_ok conn_ok path =
     (case path of None \<Rightarrow> (PW_E_INVAL, [])
      | Some p \<Rightarrow>
          (case fill_sockaddr_un p of Inl e \<Rightarrow> (e, [])
           | Inr sa \<Rightarrow>
               if \<not> sock_ok then (PW_E_IO, [Socket])
               else if \<not> conn_ok then (PW_E_IO, [Socket, Connect sa, Close])
               else (PW_OK, [Socket, Connect sa])))"

datatype errno = ECONNREFUSED | ENOENT | EACCES | EPERM | ENOTSOCK | ETIMEDOUT | Other_errno int

definition pw_ipc_connect_hint :: "errno \<Rightarrow> string" where
  "pw_ipc_connect_hint err =
     (let denied = ''permission denied -- run as root or join the '' @ CHR 0x27 # ''packetwyrm'' @ CHR 0x27 #
            '' group (socket is 0660 root:packetwyrm)'' in
      case err of
        ECONNREFUSED \<Rightarrow> ''daemon not running or wrong --socket path''
      | ENOENT \<Rightarrow> ''socket path does not exist -- is packetwyrmd running?''
      | EACCES \<Rightarrow> denied
      | EPERM \<Rightarrow> denied
      | ENOTSOCK \<Rightarrow> ''path exists but is not a socket -- check the --socket path''
      | ETIMEDOUT \<Rightarrow> ''connect timed out -- daemon may be hung or unreachable''
      | Other_errno _ \<Rightarrow> ''unable to connect to the control socket'')"

text \<open>The directories that \<open>ensure_parent_dir\<close> creates, in order.\<close>

definition parent_dir :: "string \<Rightarrow> string option" where
  "parent_dir path =
     (if length path = 0 \<or> length path \<ge> SUN_PATH \<or> CHR ''/'' \<notin> set path then None
      else let dir = rev (drop 1 (dropWhile (\<lambda>c. c \<noteq> CHR ''/'') (rev path)))
           in if dir = [] then None else Some dir)"

definition ensure_parent_dir :: "string \<Rightarrow> sys_call list" where
  "ensure_parent_dir path =
     (case parent_dir path of None \<Rightarrow> []
      | Some buf \<Rightarrow> map (\<lambda>i. Mkdir (take i buf)) (filter (\<lambda>i. buf ! i = CHR ''/'') [1..<length buf]) @ [Mkdir buf])"

text \<open>
  \<open>pw_ipc_listen\<close> with the answers of the kernel: what \<open>lstat\<close> finds at the path (nothing, or whether it is a
  socket), the old mask, and whether each call succeeds. The result and the calls, in order. The mask \<open>0x3F\<close> is
  octal 77.
\<close>

record listen_answers =
  la_lstat :: "bool option"
  la_umask :: nat
  la_socket :: bool
  la_bind :: bool
  la_listen :: bool
  la_chmod :: bool

definition pw_ipc_listen :: "listen_answers \<Rightarrow> string option \<Rightarrow> nat \<Rightarrow> pw_status \<times> sys_call list" where
  "pw_ipc_listen k path mode =
     (case path of None \<Rightarrow> (PW_E_INVAL, [])
      | Some p \<Rightarrow>
          (case fill_sockaddr_un p of Inl e \<Rightarrow> (e, [])
           | Inr sa \<Rightarrow>
               let t0 = ensure_parent_dir p in
               if la_lstat k = Some False then (PW_E_IO, t0)
               else let t1 = t0 @ (if la_lstat k = Some True then [Unlink p] else []) @ [Socket] in
               if \<not> la_socket k then (PW_E_IO, t1)
               else let t2 = t1 @ [Umask 0x3F, Bind sa, Umask (la_umask k)] in
               if \<not> la_bind k then (PW_E_IO, t2 @ [Close])
               else if \<not> la_listen k then (PW_E_IO, t2 @ [Listen, Close])
               else if \<not> la_chmod k then (PW_E_IO, t2 @ [Listen, Chmod p mode, Close, Unlink p])
               else (PW_OK, t2 @ [Listen, Chmod p mode])))"

section \<open>Complete transfers\<close>

text \<open>Answers that let \<open>n\<close> bytes through: the connection holds, and enough calls move something.\<close>

definition progress :: "io_answer list \<Rightarrow> nat" where
  "progress ks = length (filter (\<lambda>k. case k of Chunk n \<Rightarrow> n > 0 | _ \<Rightarrow> False) ks)"

definition holds :: "io_answer list \<Rightarrow> nat \<Rightarrow> bool" where
  "holds ks n \<longleftrightarrow> Broken \<notin> set ks \<and> n \<le> progress ks"

lemma progress_simps [simp]:
  "progress [] = 0" "progress (Interrupted # ks) = progress ks" "progress (Broken # ks) = progress ks"
  "progress (Chunk n # ks) = (if n > 0 then Suc (progress ks) else progress ks)"
  by (simp_all add: progress_def)

lemma write_all_complete:
  "holds ks (length bs + m) \<Longrightarrow> \<exists>ks'. write_all ks bs = Some (True, bs, ks') \<and> holds ks' m"
proof (induction ks bs rule: write_all.induct)
  case (3 k ks b bs)
  show ?case
  proof (cases k)
    case (Chunk n)
    have "holds ks (length (drop n (b # bs)) + m)" using "3.prems" Chunk by (cases n) (auto simp: holds_def split: if_splits)
    from "3.IH"(1) [OF Chunk this] obtain ks' where
      r: "write_all ks (drop n (b # bs)) = Some (True, drop n (b # bs), ks')" "holds ks' m" by blast
    have "write_all (k # ks) (b # bs) = Some (True, take n (b # bs) @ drop n (b # bs), ks')" by (simp add: Chunk r(1))
    with r(2) show ?thesis by (metis append_take_drop_id)
  qed (use 3 in \<open>auto simp: holds_def\<close>)
qed (auto simp: holds_def)

lemma read_all_complete:
  "holds ks (length bs + m) \<Longrightarrow> \<exists>ks'. read_all ks (bs @ rest) (length bs) = Some (Some bs, rest, ks') \<and> holds ks' m"
proof (induction ks arbitrary: bs)
  case Nil
  then show ?case by (simp add: holds_def)
next
  case (Cons k ks)
  show ?case
  proof (cases bs)
    case Nil
    with Cons.prems show ?thesis by (simp add: holds_def)
  next
    case (Cons b bs')
    note bs = Cons
    show ?thesis
    proof (cases k)
      case (Chunk n)
      let ?g = "min (max 1 n) (length bs)"
      have g: "take ?g (bs @ rest) = take ?g bs" "length (take ?g bs) = ?g" "drop ?g (bs @ rest) = drop ?g bs @ rest"
        by simp_all
      have pos: "0 < ?g" using bs by simp
      have "holds ks (length (drop ?g bs) + m)"
      proof -
        have "length bs + m \<le> Suc (progress ks)" "Broken \<notin> set ks"
          using Cons.prems Chunk by (auto simp: holds_def split: if_splits)
        moreover have "length (drop ?g bs) = length bs - ?g" "?g \<le> length bs" by simp_all
        ultimately show ?thesis using pos unfolding holds_def by linarith
      qed
      from Cons.IH [OF this] obtain ks' where
        "read_all ks (drop ?g bs @ rest) (length (drop ?g bs)) = Some (Some (drop ?g bs), rest, ks')" "holds ks' m" by blast
      with bs Chunk g show ?thesis by (simp add: Let_def)
    qed (use Cons.IH [of bs] Cons.prems bs in \<open>auto simp: holds_def\<close>)
  qed
qed

section \<open>What goes over the wire\<close>

definition framed :: "bytes \<Rightarrow> bytes" where
  "framed bs = (let w = of_nat (length bs) :: u64 in [ucast (drop_bit 24 w), ucast (drop_bit 16 w), ucast (drop_bit 8 w), ucast w] @ bs)"

lemma read_all_sound:
  "read_all ks inb n = Some (Some bs, inb', ks') \<Longrightarrow> inb = bs @ inb' \<and> length bs = n"
proof (induction ks inb n arbitrary: bs rule: read_all.induct)
  case (3 k ks inb left)
  show ?case
  proof (cases k)
    case (Chunk m)
    let ?got = "take (min (max 1 m) (Suc left)) inb"
    have inb: "inb \<noteq> []" using 3(3) Chunk by (auto split: if_splits)
    with 3(3) Chunk obtain bs' where b: "read_all ks (drop (length ?got) inb) (Suc left - length ?got) = Some (Some bs', inb', ks')"
        "bs = ?got @ bs'"
      by (auto simp: Let_def)
    from 3(1) [OF Chunk inb refl b(1)] have "drop (length ?got) inb = bs' @ inb'" "length bs' = Suc left - length ?got" by simp_all
    moreover have "inb = ?got @ drop (length ?got) inb" by (simp add: min_def)
    moreover have "length ?got \<le> Suc left" by simp
    ultimately show ?thesis unfolding b(2) by (metis append_assoc le_add_diff_inverse length_append)
  qed (use 3 in auto)
qed simp_all

lemma write_all_out: "write_all ks bs = Some (True, out, ks') \<Longrightarrow> out = bs"
proof (induction ks bs arbitrary: out rule: write_all.induct)
  case (3 k ks b bs)
  then show ?case by (cases k) (fastforce simp del: take_Cons drop_Cons)+
qed auto

lemma write_frame_out: "pw_ipc_write_frame ks bs = Some (PW_OK, out, ks') \<Longrightarrow> out = framed bs"
  by (auto simp: pw_ipc_write_frame_def framed_def Let_def dest!: write_all_out split: if_splits option.splits bool.splits)

lemma frame_size:
  assumes "n < 2 ^ 32"
  shows "unat (be32 (ucast (drop_bit 24 (of_nat n :: u64))) (ucast (drop_bit 16 (of_nat n :: u64)))
    (ucast (drop_bit 8 (of_nat n :: u64))) (ucast (of_nat n :: u64))) = n"
proof -
  let ?w = "of_nat n :: u64"
  have "be32 (ucast (drop_bit 24 ?w)) (ucast (drop_bit 16 ?w)) (ucast (drop_bit 8 ?w)) (ucast ?w) = (ucast ?w :: u32)"
    by (rule bit_word_eqI) (auto simp: bit_be32 bit_simps)
  moreover have "unat (ucast ?w :: u32) = n"
    using assms by (simp add: unsigned_ucast_eq unat_of_nat take_bit_nat_eq_self)
  ultimately show ?thesis by simp
qed

lemma read_frame_framed:
  assumes "pw_ipc_read_frame ks (framed bs) cap = Some (Inr got, rest, ks')" "length bs < 2 ^ 32"
  shows "got = bs"
proof -
  let ?w = "of_nat (length bs) :: u64"
  let ?h = "[ucast (drop_bit 24 ?w), ucast (drop_bit 16 ?w), ucast (drop_bit 8 ?w), ucast ?w] :: bytes"
  have F: "framed bs = ?h @ bs" by (simp add: framed_def Let_def)
  from assms(1) obtain hdr inb1 ks1 where h: "read_all ks (framed bs) 4 = Some (Some hdr, inb1, ks1)"
    by (auto simp: pw_ipc_read_frame_def Let_def split: option.splits)
  from read_all_sound [OF h] have "framed bs = hdr @ inb1" "length hdr = length ?h" by simp_all
  then have "?h = hdr \<and> bs = inb1" unfolding F by (metis append_eq_append_conv)
  then have e: "hdr = ?h" "inb1 = bs" by blast+
  have n: "unat (be32 (hdr ! 0) (hdr ! 1) (hdr ! 2) (hdr ! 3)) = length bs" using frame_size [OF assms(2)] by (simp add: e)
  from assms(1) have "read_all ks1 bs (length bs) = Some (Some got, rest, ks')"
    unfolding pw_ipc_read_frame_def h option.case prod.case Let_def n by (auto simp: e split: if_splits option.splits)
  from read_all_sound [OF this] show ?thesis by (metis append_eq_conv_conj take_all_iff order_refl)
qed

section \<open>Properties\<close>

text \<open>
  C40. A frame that is written is read: whatever the sizes in which the kernel moves the bytes on either side and however
  often a call is interrupted, as long as the connection holds and enough calls move something, writing a
  message of 1 to 65536 bytes succeeds, and a reader whose buffer is large enough gets exactly that message and
  leaves whatever follows it in the stream.
\<close>

theorem ipc_frame_roundtrip:
  assumes "0 < length msg" and "length msg \<le> PW_IPC_FRAME_MAX" and "length msg \<le> buflen"
    and "holds ws (4 + length msg)" and "holds rs (4 + length msg)"
  shows "\<exists>wire ws' rs'. pw_ipc_write_frame ws msg = Some (PW_OK, wire, ws') \<and>
    pw_ipc_read_frame rs (wire @ rest) buflen = Some (Inr msg, rest, rs')"
proof -
  let ?w = "of_nat (length msg) :: u64"
  let ?h = "[ucast (drop_bit 24 ?w), ucast (drop_bit 16 ?w), ucast (drop_bit 8 ?w), ucast ?w] :: bytes"
  have hl: "length ?h = 4" by simp
  obtain ws1 where w1: "write_all ws ?h = Some (True, ?h, ws1)" "holds ws1 (length msg)"
    using write_all_complete [of ws ?h "length msg"] assms(4) unfolding hl by blast
  obtain ws2 where w2: "write_all ws1 msg = Some (True, msg, ws2)" using write_all_complete [of ws1 msg 0] w1(2) by auto
  obtain rs1 where r1: "read_all rs (?h @ msg @ rest) 4 = Some (Some ?h, msg @ rest, rs1)" "holds rs1 (length msg)"
    using read_all_complete [of rs ?h "length msg" "msg @ rest"] assms(5) unfolding hl by blast
  obtain rs2 where r2: "read_all rs1 (msg @ rest) (length msg) = Some (Some msg, rest, rs2)"
    using read_all_complete [of rs1 msg 0 rest] r1(2) by auto
  have n: "unat (be32 (?h ! 0) (?h ! 1) (?h ! 2) (?h ! 3)) = length msg"
    using frame_size [of "length msg"] assms(2) by (simp add: PW_IPC_FRAME_MAX_def)
  have "pw_ipc_write_frame ws msg = Some (PW_OK, ?h @ msg, ws2)"
    using assms(1,2) w1(1) w2 by (simp add: pw_ipc_write_frame_def Let_def)
  moreover have "pw_ipc_read_frame rs ((?h @ msg) @ rest) buflen = Some (Inr msg, rest, rs2)"
    using assms(1-3) r1(1) r2 n by (simp add: pw_ipc_read_frame_def Let_def)
  ultimately show ?thesis by blast
qed

theorem ipc_frame_roundtrip_witness:
  "\<exists>wire ws' rs'. pw_ipc_write_frame [Interrupted, Chunk 3, Chunk 0, Chunk 1, Chunk 5, Chunk 5, Chunk 5, Chunk 5] [7, 8] =
       Some (PW_OK, wire, ws') \<and>
     pw_ipc_read_frame [Chunk 1, Chunk 1, Chunk 9, Interrupted, Chunk 1, Chunk 1, Chunk 1] (wire @ [9]) 100 = Some (Inr [7, 8], [9], rs')"
  by (rule ipc_frame_roundtrip) (simp_all add: PW_IPC_FRAME_MAX_def holds_def)

text \<open>
  What may be done to the file system while the socket is set up, as a monitor of the calls: \<open>stale\<close> says that a
  socket was found at the path, \<open>masked\<close> that new files belong to the owner alone, \<open>bound\<close> that this call created
  the socket file, and \<open>heard\<close> that it listens.
\<close>

fun admitted :: "bool \<Rightarrow> string \<Rightarrow> nat \<Rightarrow> bool \<times> bool \<times> bool \<Rightarrow> sys_call list \<Rightarrow> bool" where
  "admitted stale p mode st [] = True"
| "admitted stale p mode (masked, bound, heard) (x # xs) =
     (case x of
        Unlink q \<Rightarrow> q = p \<and> (stale \<or> bound) \<and> admitted stale p mode (masked, bound, heard) xs
      | Umask v \<Rightarrow> admitted stale p mode (v = 0x3F, bound, heard) xs
      | Bind q \<Rightarrow> q = p \<and> masked \<and> admitted stale p mode (masked, True, heard) xs
      | Listen \<Rightarrow> bound \<and> admitted stale p mode (masked, bound, True) xs
      | Chmod q m \<Rightarrow> q = p \<and> m = mode \<and> heard \<and> admitted stale p mode (masked, bound, heard) xs
      | _ \<Rightarrow> admitted stale p mode (masked, bound, heard) xs)"

lemma admitted_mkdirs: "admitted stale p mode st (map Mkdir ds @ xs) = admitted stale p mode st xs"
  by (cases st) (induction ds, simp_all)

lemma parents_are_mkdirs: "\<exists>ds. ensure_parent_dir p = map Mkdir ds"
proof (cases "parent_dir p")
  case (Some buf)
  then have "ensure_parent_dir p = map Mkdir (map (\<lambda>i. take i buf) (filter (\<lambda>i. buf ! i = CHR ''/'') [1..<length buf]) @ [buf])"
    by (simp add: ensure_parent_dir_def)
  then show ?thesis by blast
qed (simp add: ensure_parent_dir_def)

text \<open>
  Listening never destroys what is not a stale socket and never opens the door too early: a path is removed only
  if it was found to be a socket or after this call created it; if something else is there the call fails and
  binds nothing; the file is created under the mask that leaves it to the owner alone, and its permissions are set, to
  those asked for, only after the socket listens; and a failure after the file was created closes the socket.
\<close>

lemma listen_safe:
  assumes "pw_ipc_listen k (Some p) mode = (s, tr)"
  shows "admitted (la_lstat k = Some True) p mode (False, False, False) tr \<and>
    (la_lstat k = Some False \<longrightarrow> s \<noteq> PW_OK \<and> Bind p \<notin> set tr) \<and>
    (s = PW_OK \<longrightarrow> Chmod p mode \<in> set tr) \<and> (s \<noteq> PW_OK \<and> Bind p \<in> set tr \<longrightarrow> Close \<in> set tr)"
proof -
  obtain ds where m: "ensure_parent_dir p = map Mkdir ds" using parents_are_mkdirs by blast
  show ?thesis
    using assms by (auto simp: pw_ipc_listen_def fill_sockaddr_un_def m Let_def admitted_mkdirs admitted_mkdirs [where xs = "[]", simplified]
        split: if_splits)
qed

lemma listen_safe_witness:
  "pw_ipc_listen \<lparr>la_lstat = Some True, la_umask = 18, la_socket = True, la_bind = True, la_listen = True, la_chmod = False\<rparr>
     (Some ''/run/pw/d.sock'') 432 =
     (PW_E_IO, [Mkdir ''/run'', Mkdir ''/run/pw'', Unlink ''/run/pw/d.sock'', Socket, Umask 63, Bind ''/run/pw/d.sock'', Umask 18,
       Listen, Chmod ''/run/pw/d.sock'' 432, Close, Unlink ''/run/pw/d.sock'']) \<and>
   admitted True ''/run/pw/d.sock'' 432 (False, False, False)
     [Mkdir ''/run'', Mkdir ''/run/pw'', Unlink ''/run/pw/d.sock'', Socket, Umask 63, Bind ''/run/pw/d.sock'', Umask 18,
       Listen, Chmod ''/run/pw/d.sock'' 432, Close, Unlink ''/run/pw/d.sock'']"
proof -
  let ?k = "\<lparr>la_lstat = Some True, la_umask = 18, la_socket = True, la_bind = True, la_listen = True, la_chmod = False\<rparr>"
  let ?t = "[Mkdir ''/run'', Mkdir ''/run/pw'', Unlink ''/run/pw/d.sock'', Socket, Umask 63, Bind ''/run/pw/d.sock'', Umask 18,
       Listen, Chmod ''/run/pw/d.sock'' 432, Close, Unlink ''/run/pw/d.sock'']"
  have r: "pw_ipc_listen ?k (Some ''/run/pw/d.sock'') 432 = (PW_E_IO, ?t)" by code_simp
  from listen_safe [OF r] r show ?thesis by simp
qed

end
