(* ===== verification/PW_Proxy.thy ===== *)
theory PW_Proxy
  imports PW_Daemon_Rpc PW_Ipc
begin

text \<open>
  The HTTPS gateway, \<^verbatim>\<open>packetwyrm-proxyd/src/main.c\<close>: options and their file, the reading of an HTTP request, the
  guards of the control endpoint, the relay to the daemon, and the set-up with its two safeguards. The kernel and
  OpenSSL decide how much a read delivers and when, as answers, one per call; the table of embedded pages and the
  version text are arguments.
\<close>

section \<open>Constants and options\<close>

definition PROXYD_DEFAULT_PORT :: int where "PROXYD_DEFAULT_PORT = 8443"
definition PROXYD_MAX_THREADS :: int where "PROXYD_MAX_THREADS = 32"
definition PROXYD_REQ_MAX :: nat where "PROXYD_REQ_MAX = PW_IPC_FRAME_MAX + 8192"
definition PROXYD_REQ_DEADLINE_S :: int where "PROXYD_REQ_DEADLINE_S = 30"
definition PROXYD_PROBE_PERIOD_S :: int where "PROXYD_PROBE_PERIOD_S = 60"
definition PW_IPC_DEFAULT_PATH :: string where "PW_IPC_DEFAULT_PATH = ''/run/packetwyrm/packetwyrmd.sock''"

definition PROXYD_CSP :: string where
  "PROXYD_CSP =
     (let q = CHR 0x27; self = q # ''self'' @ [q]; none = q # ''none'' @ [q] in
      ''default-src '' @ self @ ''; script-src '' @ self @ ''; style-src '' @ self @ '' '' @ (q # ''unsafe-inline'' @ [q]) @
      ''; img-src '' @ self @ '' data:; connect-src '' @ self @ ''; object-src '' @ none @ ''; base-uri '' @ none @
      ''; frame-ancestors '' @ none)"

record proxyd_opts =
  po_listen_addr :: string
  po_listen_port :: int
  po_daemon_sock :: string
  po_tls_cert :: "string option"
  po_tls_key :: "string option"
  po_no_tls :: bool
  po_insecure_no_auth :: bool
  po_allowed_hosts :: "string option"

section \<open>Replies\<close>

definition crlf :: string where "crlf = [CHR 0x0D, CHR 0x0A]"

text \<open>What is written: None when the header would not fit its buffer.\<close>

definition http_reply :: "nat \<Rightarrow> string \<Rightarrow> string \<Rightarrow> string \<Rightarrow> string option" where
  "http_reply code status ctype body =
     (let hdr = ''HTTP/1.1 '' @ dec_string code @ '' '' @ status @ crlf @
        ''Content-Type: '' @ ctype @ crlf @
        ''Content-Length: '' @ dec_string (length body) @ crlf @
        ''Content-Security-Policy: '' @ PROXYD_CSP @ crlf @
        ''X-Content-Type-Options: nosniff'' @ crlf @
        ''Cache-Control: no-store'' @ crlf @
        ''Connection: close'' @ crlf @ crlf
      in if length hdr \<ge> 1024 then None else Some (hdr @ body))"

definition http_error :: "nat \<Rightarrow> string \<Rightarrow> string option" where
  "http_error code status = http_reply code status ''application/json'' (''{\"error\":\"'' @ status @ ''\"}'')"

text \<open>\<open>conn_write_all\<close>: whether all of it went out, and what did. An interrupted write fails.\<close>

fun conn_write_all :: "io_answer list \<Rightarrow> string \<Rightarrow> (bool \<times> string) option" where
  "conn_write_all ks [] = Some (True, [])"
| "conn_write_all [] (c # cs) = None"
| "conn_write_all (k # ks) (c # cs) =
     (case k of
        Chunk n \<Rightarrow>
          if n = 0 then Some (False, [])
          else map_option (\<lambda>(ok, out). (ok, take n (c # cs) @ out)) (conn_write_all ks (drop n (c # cs)))
      | _ \<Rightarrow> Some (False, []))"

text \<open>The embedded pages: path, data and content type.\<close>

type_synonym assets = "(string \<times> string \<times> string) list"

definition asset_name :: "string \<Rightarrow> string" where
  "asset_name path =
     (let clean = take 255 (takeWhile (\<lambda>c. c \<noteq> CHR ''?'') path)
      in if clean = [] \<or> clean = ''/'' then ''/index.html'' else clean)"

definition serve_asset :: "assets \<Rightarrow> string \<Rightarrow> string option option" where
  "serve_asset assets path =
     map_option (\<lambda>(_, data, ctype). http_reply 200 ''OK'' ctype data) (find (\<lambda>a. fst a = asset_name path) assets)"

section \<open>The daemon\<close>

definition octets :: "string \<Rightarrow> bytes" where "octets s = map (of_nat \<circ> of_char) s"
definition chars :: "bytes \<Rightarrow> string" where "chars bs = map (char_of \<circ> unat) bs"

text \<open>A connection to the daemon: whether it is made, the answers for its transfers, and what the daemon sends back.\<close>

record daemon_link =
  dl_socket :: bool
  dl_connect :: bool
  dl_io :: "io_answer list"
  dl_peer :: "bytes \<Rightarrow> bytes"

text \<open>\<open>Some None\<close> is the failure \<open>-1\<close>; \<open>None\<close>: the call has not returned.\<close>

definition daemon_relay :: "daemon_link \<Rightarrow> string \<Rightarrow> string \<Rightarrow> nat \<Rightarrow> string option option" where
  "daemon_relay k sock body rcap =
     (if fst (pw_ipc_connect (dl_socket k) (dl_connect k) (Some sock)) \<noteq> PW_OK then Some None
      else case pw_ipc_write_frame (dl_io k) (octets body) of None \<Rightarrow> None
           | Some (st, out, ks) \<Rightarrow>
               if st \<noteq> PW_OK then Some None
               else (case pw_ipc_read_frame ks (dl_peer k out) rcap of None \<Rightarrow> None
                     | Some (Inl _, _, _) \<Rightarrow> Some None
                     | Some (Inr bs, _, _) \<Rightarrow> Some (Some (chars bs))))"

definition strstr :: "string \<Rightarrow> string \<Rightarrow> bool" where
  "strstr s pat \<longleftrightarrow> list_ex (\<lambda>i. take (length pat) (drop i s) = pat) [0..<Suc (length s)]"

definition probe_daemon_secret :: "daemon_link \<Rightarrow> string \<Rightarrow> int option" where
  "probe_daemon_secret k sock =
     map_option (\<lambda>r. case r of None \<Rightarrow> - 1 | Some resp \<Rightarrow> if strstr (c_string resp) ''unauthorized'' then 1 else 0)
       (daemon_relay k sock ''{\"rpc\":\"version\"}'' (PW_IPC_FRAME_MAX - 1))"

section \<open>Reading a request\<close>

datatype read_error = Read_failed | Read_timeout

definition head_mark :: string where "head_mark = crlf @ crlf"

text \<open>The end of the headers among the positions from \<open>start\<close>.\<close>

definition head_end :: "string \<Rightarrow> nat \<Rightarrow> nat option" where
  "head_end buf start = map_option (\<lambda>i. i + 4) (find (\<lambda>i. take 4 (drop i buf) = head_mark) [start..<length buf - 3])"

text \<open>
  The first loop: the bytes so far, the bytes the client has sent and still to be read, the answers with the seconds
  that have passed since the start. The result: the buffer, the end of the headers, and what is left of the rest.
\<close>

type_synonym timed = "(io_answer \<times> int) list"

fun read_head :: "nat \<Rightarrow> string \<Rightarrow> string \<Rightarrow> timed \<Rightarrow> (read_error + string \<times> nat \<times> string \<times> timed) option" where
  "read_head cap buf inb [] = (if length buf \<ge> cap then Some (Inl Read_failed) else None)"
| "read_head cap buf inb ((k, t) # ks) =
     (if length buf \<ge> cap then Some (Inl Read_failed)
      else case k of
        Chunk n \<Rightarrow>
          (let got = take (min (max 1 n) (cap - length buf)) inb; buf' = buf @ got in
           if got = [] then Some (Inl Read_failed)
           else if t \<ge> PROXYD_REQ_DEADLINE_S then Some (Inl Read_timeout)
           else case head_end buf' (if length buf' \<ge> length got + 3 then length buf' - length got - 3 else 0) of
                  Some e \<Rightarrow> Some (Inr (buf', e, drop (length got) inb, ks))
                | None \<Rightarrow> read_head cap buf' (drop (length got) inb) ks)
      | _ \<Rightarrow> Some (Inl Read_failed))"

text \<open>A value of \<open>Content-Length\<close>, from behind the colon.\<close>

definition content_length :: "string \<Rightarrow> nat option" where
  "content_length s =
     (let p = dropWhile blank s in
      if \<not> starts_digit 10 p then None
      else let (v, rest, erange) = strtoull 10 p; e = dropWhile blank rest in
           if e = [] \<or> hd e \<noteq> CHR 0x0D \<and> hd e \<noteq> CHR 0x0A then None
           else if erange then None else Some (unat v))"

definition at_header :: "string \<Rightarrow> nat \<Rightarrow> string \<Rightarrow> bool" where
  "at_header buf i name \<longleftrightarrow> strcaseeq (take (length name) (drop i buf)) name"

text \<open>The loop over the positions of the headers: the start of the line, and the length if one was seen.\<close>

fun scan_lengths :: "string \<Rightarrow> nat \<Rightarrow> nat list \<Rightarrow> nat \<Rightarrow> nat option \<Rightarrow> nat option option" where
  "scan_lengths buf hend [] ls cl = Some cl"
| "scan_lengths buf hend (i # is) ls cl =
     (if buf ! i = CHR 0x0A then scan_lengths buf hend is (i + 1) cl
      else if i \<noteq> ls then scan_lengths buf hend is ls cl
      else if hend - i \<le> 15 \<or> \<not> at_header buf i ''Content-Length:'' then scan_lengths buf hend is ls cl
      else if cl \<noteq> None then None
      else case content_length (drop (i + 15) buf) of None \<Rightarrow> None | Some v \<Rightarrow> scan_lengths buf hend is ls (Some v))"

fun read_body :: "nat \<Rightarrow> nat \<Rightarrow> string \<Rightarrow> string \<Rightarrow> timed \<Rightarrow> (read_error + string) option" where
  "read_body cap len buf inb [] = (if length buf \<ge> len then Some (Inr buf) else None)"
| "read_body cap len buf inb ((k, t) # ks) =
     (if length buf \<ge> len then Some (Inr buf)
      else case k of
        Chunk n \<Rightarrow>
          (let got = take (min (max 1 n) (cap - length buf)) inb in
           if got = [] then Some (Inl Read_failed)
           else if t \<ge> PROXYD_REQ_DEADLINE_S then Some (Inl Read_timeout)
           else read_body cap len (buf @ got) (drop (length got) inb) ks)
      | _ \<Rightarrow> Some (Inl Read_failed))"

text \<open>The buffer, where the body starts, and its length.\<close>

definition read_request :: "nat \<Rightarrow> string \<Rightarrow> timed \<Rightarrow> (read_error + string \<times> nat \<times> nat) option" where
  "read_request cap inb ks =
     (case read_head cap [] inb ks of None \<Rightarrow> None | Some (Inl e) \<Rightarrow> Some (Inl e)
      | Some (Inr (buf, hend, inb', ks')) \<Rightarrow>
          (case scan_lengths buf hend [0..<hend] 0 None of None \<Rightarrow> Some (Inl Read_failed)
           | Some cl \<Rightarrow>
               let clen = (case cl of None \<Rightarrow> 0 | Some n \<Rightarrow> n) in
               if clen > PW_IPC_FRAME_MAX then Some (Inl Read_failed)
               else if hend + clen > cap then Some (Inl Read_failed)
               else map_option (map_sum id (\<lambda>buf. (buf, hend, clen))) (read_body cap (hend + clen) buf inb' ks')))"

section \<open>Guards\<close>

definition trim_end :: "(char \<Rightarrow> bool) \<Rightarrow> string \<Rightarrow> string" where
  "trim_end P s = rev (dropWhile P (rev s))"

definition line_end :: "char \<Rightarrow> bool" where
  "line_end c \<longleftrightarrow> c = CHR 0x0D \<or> c = CHR 0x0A"

definition find_header :: "string \<Rightarrow> nat \<Rightarrow> string \<Rightarrow> nat \<Rightarrow> string option" where
  "find_header buf hend name outcap =
     (case find (\<lambda>i. (i = 0 \<or> buf ! (i - 1) = CHR 0x0A) \<and> at_header buf i name) [0..<hend - length name] of None \<Rightarrow> None
      | Some i \<Rightarrow>
          let v = dropWhile blank (drop (i + length name) (take hend buf));
              val = trim_end blank (takeWhile (\<lambda>c. \<not> line_end c) v)
          in if length val \<ge> outcap then None else Some (c_string val))"

definition host_matches :: "string \<Rightarrow> string \<Rightarrow> bool" where
  "host_matches host want \<longleftrightarrow>
     strcaseeq host want \<or>
     (length host \<ge> 2 \<and> hd host = CHR ''['' \<and> last host = CHR '']'' \<and> length want = length host - 2 \<and>
      strcaseeq (take (length host - 2) (drop 1 host)) want)"

definition strip_port :: "string \<Rightarrow> string" where
  "strip_port host =
     (if take 1 host = ''[''
      then let after = dropWhile (\<lambda>c. c \<noteq> CHR '']'') host
           in if take 2 after = '']:'' then takeWhile (\<lambda>c. c \<noteq> CHR '']'') host @ '']'' else host
      else let after = dropWhile (\<lambda>c. c \<noteq> CHR '':'') host
           in if after \<noteq> [] \<and> CHR '':'' \<notin> set (drop 1 after) then takeWhile (\<lambda>c. c \<noteq> CHR '':'') host else host)"

text \<open>The shared state: the bound address, the hosts, and the state of the probe; and the running workers.\<close>

record proxy =
  px_sock :: string
  px_listen_addr :: string
  px_allowed_hosts :: "string list"
  px_probe_enforce :: bool
  px_probe_valid :: bool
  px_probe_ts :: int
  px_active :: int

definition host_allowed :: "proxy \<Rightarrow> string \<Rightarrow> bool" where
  "host_allowed px raw =
     (let host = strip_port (take 299 raw)
      in host \<noteq> [] \<and> list_ex (host_matches host) ([''localhost'', ''127.0.0.1'', ''::1''] @ px_listen_addr px # px_allowed_hosts px))"

text \<open>What the gateway does towards the daemon.\<close>

datatype proxy_event = Probed int int | Relayed int string

definition auth_probe_current :: "int \<Rightarrow> daemon_link \<Rightarrow> proxy \<Rightarrow> (bool \<times> proxy_event list \<times> proxy) option" where
  "auth_probe_current now k px =
     (if \<not> px_probe_enforce px then Some (True, [], px)
      else if px_probe_valid px \<and> now - px_probe_ts px < PROXYD_PROBE_PERIOD_S then Some (True, [], px)
      else map_option (\<lambda>r.
             if r = 1 then (True, [Probed now r], px\<lparr>px_probe_ts := now, px_probe_valid := True\<rparr>)
             else (False, [Probed now r], px\<lparr>px_probe_valid := False\<rparr>)) (probe_daemon_secret k (px_sock px)))"

section \<open>Serving\<close>

text \<open>One \<open>%ns\<close> of \<open>sscanf\<close>.\<close>

definition scan_word :: "nat \<Rightarrow> string \<Rightarrow> (string \<times> string) option" where
  "scan_word n s =
     (let t = dropWhile is_space s; w = takeWhile (\<lambda>c. \<not> is_space c) (take n t)
      in if w = [] then None else Some (w, drop (length w) t))"

definition request_line :: "string \<Rightarrow> (string \<times> string) option" where
  "request_line buf =
     (case scan_word 7 (c_string buf) of None \<Rightarrow> None
      | Some (m, r) \<Rightarrow> map_option (\<lambda>(p, _). (m, p)) (scan_word 255 r))"

text \<open>The surroundings of a request: the clock, and the connections for the probe and the relay.\<close>

record surroundings =
  su_now :: int
  su_probe :: daemon_link
  su_relay :: daemon_link

text \<open>
  The reply that is written, if any, and what was done towards the daemon. (The version text of the build fits the
  128 characters of its buffer with its frame.)
\<close>

definition serve_rpc :: "surroundings \<Rightarrow> string \<Rightarrow> nat \<Rightarrow> nat \<Rightarrow> proxy \<Rightarrow> (string option \<times> proxy_event list \<times> proxy) option" where
  "serve_rpc su buf off len px =
     (if find_header buf off ''X-PW-Request:'' 300 \<noteq> Some ''1'' then Some (http_error 403 ''missing X-PW-Request header'', [], px)
      else if \<not> (case find_header buf off ''Host:'' 300 of None \<Rightarrow> False | Some h \<Rightarrow> host_allowed px h)
      then Some (http_error 403 ''host not allowed'', [], px)
      else case auth_probe_current (su_now su) (su_probe su) px of None \<Rightarrow> None
           | Some (ok, ev, px) \<Rightarrow>
               if \<not> ok then Some (http_error 403 ''daemon auth not confirmed'', ev, px)
               else if len = 0 then Some (http_error 400 ''empty body'', ev, px)
               else let body = take len (drop off buf) in
                    map_option (\<lambda>r. (case r of Some resp \<Rightarrow> http_reply 200 ''OK'' ''application/json'' resp
                                     | None \<Rightarrow> http_error 502 ''daemon unreachable'', ev @ [Relayed (su_now su) body], px))
                      (daemon_relay (su_relay su) (px_sock px) body PW_IPC_FRAME_MAX))"

definition serve ::
  "assets \<Rightarrow> string \<Rightarrow> surroundings \<Rightarrow> string \<Rightarrow> timed \<Rightarrow> proxy \<Rightarrow> (string option \<times> proxy_event list \<times> proxy) option" where
  "serve assets version su inb ks px =
     (case read_request PROXYD_REQ_MAX inb ks of None \<Rightarrow> None
      | Some (Inl Read_timeout) \<Rightarrow> Some (http_error 408 ''request timeout'', [], px)
      | Some (Inl Read_failed) \<Rightarrow> Some (None, [], px)
      | Some (Inr (buf, off, len)) \<Rightarrow>
          (case request_line buf of None \<Rightarrow> Some (http_error 400 ''bad request'', [], px)
           | Some (m, path) \<Rightarrow>
               if m = ''POST'' \<and> path = ''/api/rpc'' then serve_rpc su buf off len px
               else if m = ''GET'' \<and> path = ''/proxyd/version''
               then Some (http_reply 200 ''OK'' ''application/json'' (''{\"version\":\"'' @ version @ ''\"}''), [], px)
               else (case (if m = ''GET'' then serve_asset assets path else None) of
                       Some r \<Rightarrow> Some (r, [], px)
                     | None \<Rightarrow> Some (http_error 404 ''not found'', [], px))))"

section \<open>Options\<close>

text \<open>\<open>strtol\<close> with base 10: the value, the rest, and whether it is out of range.\<close>

definition strtol10 :: "string \<Rightarrow> int \<times> string \<times> bool" where
  "strtol10 s =
     (let (neg, t) = opt_sign (dropWhile is_space s) in
      if \<not> starts_digit 10 t then (0, s, False)
      else let (n, rest) = run_of_digits 10 0 t; v = (if neg then - int n else int n) in
           if v > 2 ^ 63 - 1 then (2 ^ 63 - 1, rest, True)
           else if v < - (2 ^ 63) then (- (2 ^ 63), rest, True) else (v, rest, False))"

definition parse_port_strict :: "string \<Rightarrow> int option" where
  "parse_port_strict s =
     (if s = [] then None
      else let (v, e, erange) = strtol10 s in if erange \<or> e \<noteq> [] \<or> v \<le> 0 \<or> v > 65535 then None else Some v)"

definition parse_listen :: "proxyd_opts \<Rightarrow> string \<Rightarrow> proxyd_opts option" where
  "parse_listen po s =
     (if CHR '':'' \<in> set s
      then let port = rev (takeWhile (\<lambda>c. c \<noteq> CHR '':'') (rev s)); addr = take (length s - length port - 1) s
           in if length addr \<ge> 128 then None
              else map_option (\<lambda>p. po\<lparr>po_listen_addr := addr, po_listen_port := p\<rparr>) (parse_port_strict port)
      else map_option (\<lambda>p. po\<lparr>po_listen_port := p\<rparr>) (parse_port_strict s))"

definition parse_bool :: "string \<Rightarrow> bool option" where
  "parse_bool s =
     (if strcaseeq s ''true'' \<or> strcaseeq s ''yes'' \<or> strcaseeq s ''on'' \<or> s = ''1'' then Some True
      else if strcaseeq s ''false'' \<or> strcaseeq s ''no'' \<or> strcaseeq s ''off'' \<or> s = ''0'' then Some False else None)"

text \<open>A line of the file as key and value; None for a line without a colon.\<close>

definition unquote :: "string \<Rightarrow> string" where
  "unquote v =
     (if length v \<ge> 2 \<and> (hd v = CHR 0x22 \<and> last v = CHR 0x22 \<or> hd v = CHR 0x27 \<and> last v = CHR 0x27)
      then drop 1 (butlast v) else v)"

definition key_value :: "string \<Rightarrow> (string \<times> string) option" where
  "key_value p =
     (if CHR '':'' \<notin> set p then None
      else let after = drop 1 (dropWhile (\<lambda>c. c \<noteq> CHR '':'') p)
           in Some (trim_end blank (takeWhile (\<lambda>c. c \<noteq> CHR '':'') p),
                    unquote (trim_end (\<lambda>c. line_end c \<or> blank c) (dropWhile blank after))))"

definition set_option :: "proxyd_opts \<Rightarrow> string \<Rightarrow> string \<Rightarrow> proxyd_opts option" where
  "set_option po key val =
     (if key = ''listen'' then parse_listen po val
      else if key = ''socket'' then Some (po\<lparr>po_daemon_sock := val\<rparr>)
      else if key = ''tls_cert'' then Some (po\<lparr>po_tls_cert := if val = [] then None else Some val\<rparr>)
      else if key = ''tls_key'' then Some (po\<lparr>po_tls_key := if val = [] then None else Some val\<rparr>)
      else if key = ''allowed_hosts'' \<or> key = ''allowed_host'' then Some (po\<lparr>po_allowed_hosts := Some val\<rparr>)
      else if key = ''no_tls'' then map_option (\<lambda>b. po\<lparr>po_no_tls := b\<rparr>) (parse_bool val)
      else if key = ''insecure_no_auth'' then map_option (\<lambda>b. po\<lparr>po_insecure_no_auth := b\<rparr>) (parse_bool val)
      else None)"

definition config_line :: "proxyd_opts \<Rightarrow> string \<Rightarrow> proxyd_opts option" where
  "config_line po line =
     (let p = dropWhile blank line in
      if p = [] \<or> hd p = CHR ''#'' \<or> line_end (hd p) then Some po
      else case key_value p of None \<Rightarrow> None | Some (k, v) \<Rightarrow> set_option po k v)"

fun config_lines :: "proxyd_opts \<Rightarrow> string list \<Rightarrow> proxyd_opts option" where
  "config_lines po [] = Some po"
| "config_lines po (l # ls) = (case config_line po l of None \<Rightarrow> None | Some po' \<Rightarrow> config_lines po' ls)"

definition load_config_file :: "(string \<Rightarrow> string option) \<Rightarrow> proxyd_opts \<Rightarrow> string \<Rightarrow> proxyd_opts option" where
  "load_config_file files po path =
     (case files path of None \<Rightarrow> None | Some content \<Rightarrow> config_lines po (map c_string (pieces 1023 content)))"

definition config_arg :: "string \<Rightarrow> bool" where
  "config_arg a \<longleftrightarrow> a = ''--config'' \<or> a = ''-c''"

text \<open>The first pass reads the files, the second the options; \<open>Inl\<close> is an exit code.\<close>

fun config_pass :: "(string \<Rightarrow> string option) \<Rightarrow> proxyd_opts \<Rightarrow> string list \<Rightarrow> proxyd_opts option" where
  "config_pass files po (a # b # args) =
     (if config_arg a then (case load_config_file files po b of None \<Rightarrow> None | Some po' \<Rightarrow> config_pass files po' (b # args))
      else config_pass files po (b # args))"
| "config_pass files po _ = Some po"

fun option_pass :: "proxyd_opts \<Rightarrow> string list \<Rightarrow> int + proxyd_opts" where
  "option_pass po [] = Inr po"
| "option_pass po (a # args) =
     (if config_arg a \<and> args \<noteq> [] then option_pass po (drop 1 args)
      else if a = ''--listen'' \<and> args \<noteq> []
      then (case parse_listen po (hd args) of None \<Rightarrow> Inl 2 | Some po' \<Rightarrow> option_pass po' (drop 1 args))
      else if a = ''--socket'' \<and> args \<noteq> [] then option_pass (po\<lparr>po_daemon_sock := hd args\<rparr>) (drop 1 args)
      else if a = ''--tls-cert'' \<and> args \<noteq> [] then option_pass (po\<lparr>po_tls_cert := Some (hd args)\<rparr>) (drop 1 args)
      else if a = ''--tls-key'' \<and> args \<noteq> [] then option_pass (po\<lparr>po_tls_key := Some (hd args)\<rparr>) (drop 1 args)
      else if a = ''--no-tls'' then option_pass (po\<lparr>po_no_tls := True\<rparr>) args
      else if a = ''--insecure-no-auth'' then option_pass (po\<lparr>po_insecure_no_auth := True\<rparr>) args
      else if a = ''--allowed-host'' \<and> args \<noteq> [] then option_pass (po\<lparr>po_allowed_hosts := Some (hd args)\<rparr>) (drop 1 args)
      else if a = ''-h'' \<or> a = ''--help'' then Inl 0
      else Inl 2)"

definition default_opts :: proxyd_opts where
  "default_opts = \<lparr>po_listen_addr = ''0.0.0.0'', po_listen_port = PROXYD_DEFAULT_PORT, po_daemon_sock = PW_IPC_DEFAULT_PATH,
     po_tls_cert = None, po_tls_key = None, po_no_tls = False, po_insecure_no_auth = False, po_allowed_hosts = None\<rparr>"

definition read_options :: "(string \<Rightarrow> string option) \<Rightarrow> string list \<Rightarrow> int + proxyd_opts" where
  "read_options files args =
     (case config_pass files default_opts args of None \<Rightarrow> Inl 2
      | Some po \<Rightarrow>
          (case option_pass po args of Inl rc \<Rightarrow> Inl rc
           | Inr po \<Rightarrow> if (po_tls_cert po = None) \<noteq> (po_tls_key po = None) then Inl 2 else Inr po))"

section \<open>Startup and connections\<close>

text \<open>\<open>strtok\<close> at commas skips empty parts.\<close>

definition split_hosts :: "string option \<Rightarrow> string list" where
  "split_hosts h = (case h of None \<Rightarrow> [] | Some s \<Rightarrow> filter (\<lambda>t. t \<noteq> []) (split_on CHR '','' s))"

text \<open>What the system answers at startup: the clock, the probe, TLS, the socket.\<close>

record startup_answers =
  sa_now :: int
  sa_probe :: daemon_link
  sa_tls :: bool
  sa_socket :: bool
  sa_bind :: bool
  sa_listen :: bool

text \<open>\<open>Inl\<close> is the exit code; otherwise the gateway listens, and the events so far.\<close>

definition proxy_start ::
  "(string \<Rightarrow> string option) \<Rightarrow> string list \<Rightarrow> startup_answers \<Rightarrow> (int + proxyd_opts \<times> proxy_event list \<times> proxy) option" where
  "proxy_start files args sa =
     (case read_options files args of Inl rc \<Rightarrow> Some (Inl rc)
      | Inr po \<Rightarrow>
          (case inet_pton4 (po_listen_addr po) of None \<Rightarrow> Some (Inl 2)
           | Some ia \<Rightarrow>
               let loopback = (hd ia = 127) in
               map_option (\<lambda>sec.
                 if \<not> loopback \<and> \<not> po_insecure_no_auth po \<and> sec \<noteq> 1 then Inl 1
                 else if \<not> loopback \<and> po_no_tls po \<and> \<not> po_insecure_no_auth po then Inl 1
                 else let enforce = (\<not> loopback \<and> \<not> po_insecure_no_auth po); seed = (enforce \<and> sec = 1) in
                      if \<not> po_no_tls po \<and> \<not> sa_tls sa then Inl 1
                      else if \<not> sa_socket sa \<or> \<not> sa_bind sa \<or> \<not> sa_listen sa then Inl 1
                      else Inr (po, [Probed (sa_now sa) sec],
                             \<lparr>px_sock = po_daemon_sock po, px_listen_addr = po_listen_addr po,
                              px_allowed_hosts = split_hosts (po_allowed_hosts po), px_probe_enforce = enforce,
                              px_probe_valid = seed, px_probe_ts = (if seed then sa_now sa else 0), px_active = 0\<rparr>))
                 (probe_daemon_secret (sa_probe sa) (po_daemon_sock po))))"

text \<open>
  A connection: refused while all workers are busy, or given to a worker. A worker ends at once when the timeouts
  cannot be set or the TLS handshake fails, and otherwise after serving one request.
\<close>

definition accept_conn :: "bool \<Rightarrow> proxy \<Rightarrow> proxy" where
  "accept_conn created px =
     (if px_active px \<ge> PROXYD_MAX_THREADS then px
      else if created then px\<lparr>px_active := px_active px + 1\<rparr> else px)"

definition worker_end :: "proxy \<Rightarrow> proxy" where
  "worker_end px = px\<lparr>px_active := px_active px - 1\<rparr>"

inductive proxy_run :: "assets \<Rightarrow> string \<Rightarrow> int \<Rightarrow> proxy \<Rightarrow> int \<Rightarrow> proxy_event list \<Rightarrow> proxy \<Rightarrow> bool" for assets version where
  idle: "proxy_run assets version t px t [] px"
| accept: "proxy_run assets version t0 px0 t ev px \<Longrightarrow> proxy_run assets version t0 px0 t ev (accept_conn created px)"
| dropped: "proxy_run assets version t0 px0 t ev px \<Longrightarrow> px_active px > 0 \<Longrightarrow> proxy_run assets version t0 px0 t ev (worker_end px)"
| served: "proxy_run assets version t0 px0 t ev px \<Longrightarrow> px_active px > 0 \<Longrightarrow> t \<le> su_now su \<Longrightarrow>
    serve assets version su inb ks px = Some (reply, ev', px') \<Longrightarrow>
    proxy_run assets version t0 px0 (su_now su) (ev @ ev') (worker_end px')"

end
