(* ===== verification/PW_Proxy_Http.thy ===== *)
theory PW_Proxy_Http
  imports PW_Proxy
begin

text \<open>
  Reading a request does not depend on how its bytes arrive: \<open>read_request\<close> against a reference that looks at the
  whole stream of the client and at the lines of its header.
\<close>

section \<open>The end of the headers\<close>

abbreviation mark_at :: "string \<Rightarrow> nat \<Rightarrow> bool" where
  "mark_at s i \<equiv> take 4 (drop i s) = head_mark"

lemma head_mark_length [simp]: "length head_mark = 4"
  by (simp add: head_mark_def crlf_def)

lemma mark_room: "mark_at s i \<Longrightarrow> i + 4 \<le> length s"
  by (drule arg_cong [where f = length]) (simp add: min_def split: if_splits)

lemma mark_append: "mark_at s i \<Longrightarrow> mark_at (s @ r) i"
  using mark_room [of i s] by simp

lemma mark_within: "i + 4 \<le> length s \<Longrightarrow> mark_at (s @ r) i \<longleftrightarrow> mark_at s i"
  by simp

lemma find_upt: "find P [a..<b] = Some i \<longleftrightarrow> a \<le> i \<and> i < b \<and> P i \<and> (\<forall>j. a \<le> j \<and> j < i \<longrightarrow> \<not> P j)"
proof (induction "b - a" arbitrary: a)
  case (Suc n)
  then have ab: "a < b" and IH: "find P [Suc a..<b] = Some i \<longleftrightarrow> Suc a \<le> i \<and> i < b \<and> P i \<and> (\<forall>j. Suc a \<le> j \<and> j < i \<longrightarrow> \<not> P j)"
    by simp_all
  show ?case
  proof (cases "P a")
    case True
    with ab show ?thesis by (auto simp: upt_conv_Cons intro: le_antisym leI)
  next
    case False
    with ab IH show ?thesis by (auto simp: upt_conv_Cons) (metis Suc_leI le_neq_implies_less)+
  qed
qed simp

lemma head_end_Some:
  "head_end s a = Some e \<longleftrightarrow> (\<exists>i. e = i + 4 \<and> a \<le> i \<and> mark_at s i \<and> (\<forall>j. a \<le> j \<and> j < i \<longrightarrow> \<not> mark_at s j))"
  using mark_room [of _ s] by (auto simp: head_end_def find_upt) fastforce

lemma head_end_None: "head_end s a = None \<longleftrightarrow> (\<forall>i \<ge> a. \<not> mark_at s i)"
  using mark_room [of _ s] by (auto simp: head_end_def find_None_iff) fastforce

lemma head_end_later:
  assumes "\<forall>i < a. \<not> mark_at s i"
  shows "head_end s a = head_end s 0"
proof (cases "head_end s 0")
  case None
  then have "head_end s a = None" by (simp add: head_end_None)
  with None show ?thesis by simp
next
  case (Some e)
  then obtain i where i: "e = i + 4" "mark_at s i" "\<forall>j < i. \<not> mark_at s j" by (auto simp: head_end_Some)
  then have "a \<le> i" using assms by (meson not_le)
  then have "head_end s a = Some e" using i by (auto simp: head_end_Some)
  with Some show ?thesis by simp
qed

text \<open>Scanning the fresh bytes and three before them is scanning everything.\<close>

lemma head_end_fresh:
  assumes "head_end buf 0 = None"
  shows "head_end (buf @ got) (if length (buf @ got) \<ge> length got + 3 then length (buf @ got) - length got - 3 else 0)
    = head_end (buf @ got) 0"
proof (rule head_end_later, intro allI impI)
  fix i
  assume "i < (if length (buf @ got) \<ge> length got + 3 then length (buf @ got) - length got - 3 else 0)"
  then have "i + 4 \<le> length buf" by (auto split: if_splits)
  then show "\<not> mark_at (buf @ got) i" using assms by (simp add: mark_within head_end_None)
qed

lemma head_end_append: "head_end s 0 = Some e \<Longrightarrow> head_end (s @ r) 0 = Some e"
proof -
  assume "head_end s 0 = Some e"
  then obtain i where i: "e = i + 4" "mark_at s i" "\<forall>j < i. \<not> mark_at s j" by (auto simp: head_end_Some)
  have "\<not> mark_at (s @ r) j" if "j < i" for j
    using i(3) that mark_room [OF i(2)] by (simp add: mark_within)
  with i mark_append [OF i(2)] show ?thesis by (auto simp: head_end_Some)
qed

lemma head_end_room: "head_end s 0 = Some e \<Longrightarrow> 4 \<le> e \<and> e \<le> length s"
  using mark_room by (auto simp: head_end_Some)

lemma head_end_take: "head_end s 0 = Some e \<Longrightarrow> head_end (take e s) 0 = Some e"
proof -
  assume h: "head_end s 0 = Some e"
  then obtain i where i: "e = i + 4" "mark_at s i" "\<forall>j < i. \<not> mark_at s j" by (auto simp: head_end_Some)
  have "\<not> mark_at (take e s) j" if "j < i" for j
  proof
    assume "mark_at (take e s) j"
    then have "mark_at (take e s @ drop e s) j" by (rule mark_append)
    with i(3) that show False by simp
  qed
  moreover have "mark_at (take e s) i" using i mark_room [OF i(2)] by (simp add: take_drop min_def)
  ultimately show ?thesis using i by (auto simp: head_end_Some)
qed

section \<open>The loops\<close>

text \<open>Answers that keep delivering, in time.\<close>

definition delivering :: "timed \<Rightarrow> bool" where
  "delivering ks \<longleftrightarrow> (\<forall>(k, t) \<in> set ks. (\<exists>n. k = Chunk n) \<and> t < PROXYD_REQ_DEADLINE_S)"

lemma delivering_Cons: "delivering ((k, t) # ks) \<longleftrightarrow> (\<exists>n. k = Chunk n) \<and> t < PROXYD_REQ_DEADLINE_S \<and> delivering ks"
  by (auto simp: delivering_def)

lemma read_head_step:
  assumes "head_end buf 0 = None" "length buf < cap" and got: "got = take (min (max 1 n) (cap - length buf)) inb"
  shows "read_head cap buf inb ((Chunk n, t) # ks) =
    (if got = [] then Some (Inl Read_failed)
     else if t \<ge> PROXYD_REQ_DEADLINE_S then Some (Inl Read_timeout)
     else case head_end (buf @ got) 0 of
            Some e \<Rightarrow> Some (Inr (buf @ got, e, drop (length got) inb, ks))
          | None \<Rightarrow> read_head cap (buf @ got) (drop (length got) inb) ks)"
  unfolding read_head.simps Let_def io_answer.case head_end_fresh [OF assms(1)] got using assms(2) by simp

lemma got_bounds:
  assumes "length buf < cap" and got: "got = take (min (max 1 n) (cap - length buf)) inb"
  shows "length (buf @ got) \<le> cap" "got = [] \<longleftrightarrow> inb = []" "(buf @ got) @ drop (length got) inb = buf @ inb"
    "got \<noteq> [] \<Longrightarrow> length (drop (length got) inb) < length inb"
proof -
  show "length (buf @ got) \<le> cap" using assms by simp
  show e: "got = [] \<longleftrightarrow> inb = []" using assms by auto
  have "inb = got @ drop (length got) inb" unfolding got by (simp add: min_def)
  then show "(buf @ got) @ drop (length got) inb = buf @ inb" by simp
  show "length (drop (length got) inb) < length inb" if "got \<noteq> []" using that e by (cases got) auto
qed

lemma read_head_sound:
  "read_head cap buf inb ks = Some (Inr (buf', e, inb', ks')) \<Longrightarrow> head_end buf 0 = None \<Longrightarrow> length buf \<le> cap \<Longrightarrow>
     buf' @ inb' = buf @ inb \<and> head_end buf' 0 = Some e \<and> length buf' \<le> cap"
proof (induction ks arbitrary: buf inb)
  case (Cons kt ks)
  from Cons.prems(1) obtain n t where kt: "kt = (Chunk n, t)" and room: "length buf < cap"
    by (cases kt) (auto split: if_splits io_answer.splits)
  define got where "got = take (min (max 1 n) (cap - length buf)) inb"
  note B = got_bounds [OF room got_def]
  note R = Cons.prems(1) [unfolded kt read_head_step [OF Cons.prems(2) room got_def]]
  show ?case
  proof (cases "head_end (buf @ got) 0")
    case None
    with R have "read_head cap (buf @ got) (drop (length got) inb) ks = Some (Inr (buf', e, inb', ks'))"
      by (simp split: if_splits)
    from Cons.IH [OF this None B(1)] B(3) show ?thesis by simp
  next
    case (Some e')
    with R have "buf' = buf @ got \<and> e' = e \<and> inb' = drop (length got) inb" by (simp split: if_splits)
    with Some B show ?thesis by simp
  qed
qed (simp split: if_splits)

lemma read_head_complete:
  "delivering ks \<Longrightarrow> length inb < length ks \<Longrightarrow> head_end buf 0 = None \<Longrightarrow> length buf \<le> cap \<Longrightarrow>
     (case head_end (take cap (buf @ inb)) 0 of
        None \<Rightarrow> read_head cap buf inb ks = Some (Inl Read_failed)
      | Some e \<Rightarrow> \<exists>buf' inb' ks'. read_head cap buf inb ks = Some (Inr (buf', e, inb', ks')) \<and> delivering ks' \<and> length inb' < length ks')"
proof (induction ks arbitrary: buf inb)
  case (Cons kt ks)
  from Cons.prems(1) obtain n t where kt: "kt = (Chunk n, t)" and t: "\<not> t \<ge> PROXYD_REQ_DEADLINE_S" and ks: "delivering ks"
    by (cases kt) (auto simp: delivering_Cons)
  show ?case
  proof (cases "length buf < cap")
    case False
    with Cons.prems(3,4) show ?thesis by (simp add: kt)
  next
    case room: True
    define got where "got = take (min (max 1 n) (cap - length buf)) inb"
    note B = got_bounds [OF room got_def] and R = read_head_step [OF Cons.prems(3) room got_def, of t ks]
    show ?thesis
    proof (cases "got = []")
      case True
      with B(2) Cons.prems(3,4) R show ?thesis by (simp add: kt)
    next
      case got: False
      have len: "length (drop (length got) inb) < length ks" using B(4) [OF got] Cons.prems(2) by simp
      have app: "take cap (buf @ inb) = (buf @ got) @ take (cap - length (buf @ got)) (drop (length got) inb)"
        using B(1) unfolding B(3) [symmetric] take_append by simp
      show ?thesis
      proof (cases "head_end (buf @ got) 0")
        case None
        have "read_head cap buf inb (kt # ks) = read_head cap (buf @ got) (drop (length got) inb) ks"
          unfolding kt R using got t None by simp
        with Cons.IH [OF ks len None B(1)] show ?thesis unfolding B(3) by (simp only:)
      next
        case (Some e)
        then have "head_end (take cap (buf @ inb)) 0 = Some e" unfolding app by (rule head_end_append)
        with Some R got t ks len show ?thesis by (simp add: kt)
      qed
    qed
  qed
qed simp

lemma read_body_sound:
  "read_body cap len buf inb ks = Some (Inr buf') \<Longrightarrow> length buf \<le> cap \<Longrightarrow> len \<le> cap \<Longrightarrow>
     (\<exists>inb'. buf' @ inb' = buf @ inb) \<and> len \<le> length buf' \<and> length buf' \<le> cap"
proof (induction ks arbitrary: buf inb)
  case (Cons kt ks)
  show ?case
  proof (cases "len \<le> length buf")
    case True
    with Cons.prems show ?thesis by (cases kt) auto
  next
    case False
    then obtain n t where kt: "kt = (Chunk n, t)" using Cons.prems(1) by (cases kt) (auto split: io_answer.splits)
    define got where "got = take (min (max 1 n) (cap - length buf)) inb"
    note B = got_bounds [OF _ got_def]
    have room: "length buf < cap" using False Cons.prems(3) by simp
    have "read_body cap len (buf @ got) (drop (length got) inb) ks = Some (Inr buf')"
      using Cons.prems(1) False by (simp add: kt Let_def got_def split: if_splits)
    from Cons.IH [OF this B(1) [OF room] Cons.prems(3)] B(3) [OF room] show ?thesis by simp
  qed
qed (simp split: if_splits)

lemma read_body_grows: "read_body cap len buf inb ks = Some (Inr buf') \<Longrightarrow> \<exists>more. buf' = buf @ more"
  by (induction cap len buf inb ks rule: read_body.induct) (fastforce simp: Let_def split: if_splits io_answer.splits)+

lemma read_body_complete:
  "delivering ks \<Longrightarrow> length inb < length ks \<Longrightarrow> length buf \<le> cap \<Longrightarrow> len \<le> cap \<Longrightarrow>
     (if len \<le> length (buf @ inb) then \<exists>buf'. read_body cap len buf inb ks = Some (Inr buf')
      else read_body cap len buf inb ks = Some (Inl Read_failed))"
proof (induction ks arbitrary: buf inb)
  case (Cons kt ks)
  from Cons.prems(1) obtain n t where kt: "kt = (Chunk n, t)" and t: "\<not> t \<ge> PROXYD_REQ_DEADLINE_S" and ks: "delivering ks"
    by (cases kt) (auto simp: delivering_Cons)
  show ?case
  proof (cases "len \<le> length buf")
    case True
    then show ?thesis by (simp add: kt)
  next
    case False
    then have room: "length buf < cap" using Cons.prems(4) by simp
    define got where "got = take (min (max 1 n) (cap - length buf)) inb"
    note B = got_bounds [OF room got_def]
    have R: "read_body cap len buf inb (kt # ks) = (if got = [] then Some (Inl Read_failed) else read_body cap len (buf @ got) (drop (length got) inb) ks)"
      unfolding kt read_body.simps Let_def io_answer.case got_def using False t by (simp only: if_False)
    show ?thesis
    proof (cases "got = []")
      case True
      with R B(2) False show ?thesis by simp
    next
      case got: False
      have "length (drop (length got) inb) < length ks" using B(4) [OF got] Cons.prems(2) by simp
      from Cons.IH [OF ks this B(1) Cons.prems(4)] show ?thesis using R got unfolding B(3) by simp
    qed
  qed
qed simp

section \<open>The declared length\<close>

lemma trim_end_append: "trim_end P (x @ y) = (if \<forall>c\<in>set y. P c then trim_end P x else x @ trim_end P y)"
  by (induction y rule: rev_induct) (auto simp: trim_end_def)

lemma trim_end_last: "x = [] \<or> \<not> P (last x) \<Longrightarrow> trim_end P x = x"
  by (cases x rule: rev_cases) (auto simp: trim_end_def)

lemma trim_end_prefix: "\<exists>y. trim_end P x @ y = x"
  unfolding trim_end_def by (metis rev_append rev_rev_ident takeWhile_dropWhile_id)

lemma blank_not [simp]: "blank c \<Longrightarrow> \<not> line_end c" "blank c \<Longrightarrow> digit_val 10 c = None" "line_end c \<Longrightarrow> digit_val 10 c = None"
  by (auto simp: blank_def line_end_def digit_val_def)

lemma digit_not_space: "digit_val 10 c = Some v \<Longrightarrow> \<not> is_space c \<and> c \<noteq> CHR ''-'' \<and> c \<noteq> CHR ''+''"
  by (auto simp: digit_val_def is_space_def Let_def split: if_splits)

text \<open>A length as the protocol has it: digits between blanks, to the end of the line.\<close>

definition length_value :: "string \<Rightarrow> nat option" where
  "length_value s =
     (case numeral_value 10 (trim_end blank (takeWhile (\<lambda>c. \<not> line_end c) (dropWhile blank s))) of
        None \<Rightarrow> None | Some n \<Rightarrow> if n < 2 ^ 64 then Some n else None)"

lemma digits_stop: "\<not> starts_digit b (dropWhile (\<lambda>c. digit_val b c \<noteq> None) p)"
  by (induction p) (auto simp: starts_digit_def)

lemma strtoull_digits:
  assumes "starts_digit 10 p"
  obtains d r where "p = d @ r" "d \<noteq> []" "\<forall>c\<in>set d. digit_val 10 c \<noteq> None" "\<not> starts_digit 10 r"
    "strtoull 10 p = (if digits_value 10 0 d \<ge> 2 ^ 64 then (- 1, r, True) else (of_nat (digits_value 10 0 d), r, False))"
proof
  let ?d = "takeWhile (\<lambda>c. digit_val 10 c \<noteq> None) p" and ?r = "dropWhile (\<lambda>c. digit_val 10 c \<noteq> None) p"
  obtain c cs where p: "p = c # cs" "digit_val 10 c \<noteq> None" using assms by (cases p) (auto simp: starts_digit_def)
  then have first: "dropWhile is_space p = p" "opt_sign p = (False, p)"
    using digit_not_space [of c] by (auto simp: opt_sign_def)
  show "p = ?d @ ?r" "?d \<noteq> []" "\<forall>c\<in>set ?d. digit_val 10 c \<noteq> None" using p by (auto dest: set_takeWhileD)
  show r: "\<not> starts_digit 10 ?r"
    by (rule digits_stop)
  have "run_of_digits 10 0 (?d @ ?r) = (digits_value 10 0 ?d, ?r)"
    using r by (intro run_of_digits_append) (auto dest: set_takeWhileD)
  then show "strtoull 10 p = (if digits_value 10 0 ?d \<ge> 2 ^ 64 then (- 1, ?r, True) else (of_nat (digits_value 10 0 ?d), ?r, False))"
    using assms by (simp add: strtoull_def first)
qed

lemma content_length_exact:
  assumes "\<exists>c\<in>set s. line_end c"
  shows "content_length s = length_value s"
proof (cases "starts_digit 10 (dropWhile blank s)")
  case False
  let ?p = "dropWhile blank s" and ?v = "trim_end blank (takeWhile (\<lambda>c. \<not> line_end c) (dropWhile blank s))"
  obtain y where "?v @ y = takeWhile (\<lambda>c. \<not> line_end c) ?p" using trim_end_prefix by blast
  then have "?v @ y @ dropWhile (\<lambda>c. \<not> line_end c) ?p = ?p" by (metis append_assoc takeWhile_dropWhile_id)
  then have "\<not> starts_digit 10 ?v" using False by (cases ?v) (auto simp: starts_digit_def split: list.splits)
  with False show ?thesis by (simp add: content_length_def length_value_def numeral_value_start)
next
  case True
  from strtoull_digits [OF True] obtain d r where p: "dropWhile blank s = d @ r" and d: "d \<noteq> []" "\<forall>c\<in>set d. digit_val 10 c \<noteq> None"
    and r: "\<not> starts_digit 10 r"
    and S: "strtoull 10 (dropWhile blank s) =
      (if digits_value 10 0 d \<ge> 2 ^ 64 then (- 1, r, True) else (of_nat (digits_value 10 0 d), r, False))" by metis
  define b e where "b = takeWhile blank r" and "e = dropWhile blank r"
  have be: "r = b @ e" "\<forall>c\<in>set b. blank c" by (auto simp: b_def e_def dest: set_takeWhileD)
  have dl: "\<not> blank (last d)" "\<forall>c\<in>set d. \<not> line_end c"
    using d blank_not(2) [of "last d"] blank_not(3) last_in_set [of d] by metis+
  have num: "numeral_value 10 d = Some (digits_value 10 0 d)" using d by (auto simp: numeral_value_def)
  have "\<exists>c\<in>set (dropWhile blank s). line_end c"
    using assms blank_not(1) by (metis (mono_tags, lifting) UnE set_append set_takeWhileD takeWhile_dropWhile_id)
  then have "\<exists>c\<in>set e. line_end c" using p be dl(2) by auto
  then obtain x xs where e: "e = x # xs" by (cases e) auto
  have x: "\<not> blank x" using e hd_dropWhile [of blank r] unfolding e_def by (cases "dropWhile blank r") auto
  have C: "content_length s = (if line_end x then if digits_value 10 0 d \<ge> 2 ^ 64 then None else Some (digits_value 10 0 d) else None)"
    using True e [unfolded e_def]
    by (cases "digits_value 10 0 d \<ge> 2 ^ 64") (simp_all add: content_length_def S line_end_def unat_of_nat take_bit_nat_eq_self del: dropWhile_eq_Nil_conv)
  have T: "takeWhile (\<lambda>c. \<not> line_end c) (d @ b @ y) = d @ b @ takeWhile (\<lambda>c. \<not> line_end c) y" for y
    using dl(2) be(2) by (simp add: takeWhile_append2)
  show ?thesis
  proof (cases "line_end x")
    case True
    then have "trim_end blank (takeWhile (\<lambda>c. \<not> line_end c) (dropWhile blank s)) = d"
      unfolding p be(1) T e using be(2) dl(1) by (simp add: trim_end_append trim_end_last)
    then show ?thesis unfolding C length_value_def using True num by simp
  next
    case False
    let ?y = "takeWhile (\<lambda>c. \<not> line_end c) xs"
    have "trim_end blank (takeWhile (\<lambda>c. \<not> line_end c) (dropWhile blank s)) = d @ b @ trim_end blank (x # ?y)"
      unfolding p be(1) T e using False x by (auto simp: trim_end_append)
    moreover obtain z zs where z: "b @ trim_end blank (x # ?y) = z # zs" "digit_val 10 z = None"
    proof (cases b)
      case Nil
      have "trim_end blank ([x] @ ?y) = x # (if \<forall>c\<in>set ?y. blank c then [] else trim_end blank ?y)"
        unfolding trim_end_append using x by (simp add: trim_end_last)
      moreover have "digit_val 10 x = None" using r be(1) e Nil by (simp add: starts_digit_def)
      ultimately show ?thesis using that Nil by simp
    next
      case (Cons z zs)
      then show ?thesis using that be(2) by simp
    qed
    ultimately have "numeral_value 10 (trim_end blank (takeWhile (\<lambda>c. \<not> line_end c) (dropWhile blank s))) = None"
      by (simp add: numeral_value_def)
    then show ?thesis unfolding C length_value_def using False by simp
  qed
qed

lemma value_line:
  assumes "\<exists>c\<in>set s. line_end c"
  shows "takeWhile (\<lambda>c. \<not> line_end c) (dropWhile blank (s @ r)) = takeWhile (\<lambda>c. \<not> line_end c) (dropWhile blank s)"
proof -
  have p: "dropWhile blank (s @ r) = dropWhile blank s @ r" "\<exists>c\<in>set (dropWhile blank s). line_end c"
    using assms blank_not(1) by (induction s) auto
  show ?thesis using p(2) unfolding p(1) by auto
qed

lemma content_length_line:
  assumes "\<exists>c\<in>set s. line_end c"
  shows "content_length (s @ r) = content_length s"
proof -
  have "length_value (s @ r) = length_value s" unfolding length_value_def value_line [OF assms] ..
  moreover have "content_length (s @ r) = length_value (s @ r)" using assms by (intro content_length_exact) auto
  ultimately show ?thesis by (simp add: content_length_exact [OF assms])
qed

text \<open>The lines of the headers that declare a length, and what they declare together.\<close>

definition length_line :: "string \<Rightarrow> bool" where
  "length_line l \<longleftrightarrow> strcaseeq (take 15 l) ''Content-Length:''"

definition declared_length :: "string \<Rightarrow> nat option" where
  "declared_length head =
     (case filter length_line (text_lines head) of [] \<Rightarrow> Some 0 | [l] \<Rightarrow> length_value (drop 15 l) | _ \<Rightarrow> None)"

fun scan_lines :: "string list \<Rightarrow> nat option \<Rightarrow> nat option option" where
  "scan_lines [] cl = Some cl"
| "scan_lines (l # ls) cl =
     (if length_line l
      then if cl \<noteq> None then None
           else case content_length (drop 15 l) of None \<Rightarrow> None | Some v \<Rightarrow> scan_lines ls (Some v)
      else scan_lines ls cl)"

lemma scan_skip:
  "\<forall>j\<in>set js. j \<noteq> ls \<and> buf ! j \<noteq> CHR 0x0A \<Longrightarrow> scan_lengths buf hend (js @ is) ls cl = scan_lengths buf hend is ls cl"
  by (induction js) auto

lemma lower_newline: "CHR 0x0A \<in> set s \<Longrightarrow> strcaseeq s t \<Longrightarrow> CHR 0x0A \<in> to_lower ` set t"
proof -
  assume "CHR 0x0A \<in> set s" "strcaseeq s t"
  moreover have "to_lower (CHR 0x0A) = CHR 0x0A" by (simp add: to_lower_def)
  ultimately show ?thesis unfolding strcaseeq_def by (metis image_eqI set_map)
qed

lemma no_newline: "CHR 0x0A \<notin> to_lower ` set ''Content-Length:''"
  by code_simp

lemma at_length: "at_header buf i ''Content-Length:'' \<longleftrightarrow> strcaseeq (take 15 (drop i buf)) ''Content-Length:''"
  unfolding at_header_def by (simp add: eval_nat_numeral)

lemma length_line_at:
  assumes "last l = CHR 0x0A" "l \<noteq> []"
  shows "at_header (pre @ l @ post) (length pre) ''Content-Length:'' \<longleftrightarrow> length_line l"
    and "length_line l \<Longrightarrow> 15 < length l"
proof -
  have no: "\<not> strcaseeq s ''Content-Length:''" if "CHR 0x0A \<in> set s" for s using lower_newline [OF that] no_newline by blast
  have nl: "CHR 0x0A \<in> set l" using assms last_in_set by metis
  show L: "15 < length l" if "length_line l"
  proof (rule ccontr)
    assume "\<not> 15 < length l"
    then have "take 15 l = l" by simp
    with that no [OF nl] show False by (simp add: length_line_def)
  qed
  show "at_header (pre @ l @ post) (length pre) ''Content-Length:'' \<longleftrightarrow> length_line l"
  proof (cases "15 < length l")
    case True
    then show ?thesis unfolding at_length length_line_def by simp
  next
    case False
    then have "CHR 0x0A \<in> set (take 15 (l @ post))" using nl by simp
    with no L False show ?thesis unfolding at_length by auto
  qed
qed

lemma upt_split: "a \<le> b \<Longrightarrow> b \<le> c \<Longrightarrow> [a..<c] = [a..<b] @ [b..<c]"
  by (metis le_add_diff_inverse upt_add_eq_append)

lemma scan_lengths_lines:
  "\<forall>l\<in>set ls. l \<noteq> [] \<and> last l = CHR 0x0A \<and> CHR 0x0A \<notin> set (butlast l) \<Longrightarrow>
     scan_lengths (pre @ concat ls @ post) (length (pre @ concat ls)) [length pre..<length (pre @ concat ls)] (length pre) cl =
       scan_lines ls cl"
proof (induction ls arbitrary: pre cl)
  case (Cons l ls)
  define x where "x = butlast l"
  have l: "l = x @ [CHR 0x0A]" "CHR 0x0A \<notin> set x"
    using Cons.prems append_butlast_last_id [of l] by (auto simp: x_def)
  let ?buf = "pre @ concat (l # ls) @ post" and ?h = "length (pre @ concat (l # ls))" and ?i = "length pre" and ?j = "length (pre @ l)"
  have IH: "scan_lengths ?buf ?h [?j..<?h] ?j c = scan_lines ls c" for c
    using Cons.IH [of "pre @ l" c] Cons.prems by simp
  have nth: "?buf ! k = x ! (k - ?i)" if "?i \<le> k" "k < ?i + length x" for k
  proof -
    have "k - ?i < length x" using that by linarith
    with that show ?thesis by (simp add: l(1) nth_append)
  qed
  have nl: "?buf ! (?i + length x) = CHR 0x0A" by (simp add: l(1) nth_append)
  have rest: "scan_lengths ?buf ?h ([Suc ?i..<?i + length x] @ [?i + length x] @ [?j..<?h]) ?i c = scan_lines ls c" for c
  proof (subst scan_skip)
    show "\<forall>j\<in>set [Suc ?i..<?i + length x]. j \<noteq> ?i \<and> ?buf ! j \<noteq> CHR 0x0A"
    proof
      fix j
      assume "j \<in> set [Suc ?i..<?i + length x]"
      then have b: "?i \<le> j" "j < ?i + length x" "j \<noteq> ?i" by auto
      then have "x ! (j - ?i) \<in> set x" by (intro nth_mem) linarith
      then show "j \<noteq> ?i \<and> ?buf ! j \<noteq> CHR 0x0A" unfolding nth [OF b(1,2)] using l(2) b(3) by metis
    qed
    show "scan_lengths ?buf ?h ([?i + length x] @ [?j..<?h]) ?i c = scan_lines ls c"
      using nl IH [of c] by (simp add: l(1))
  qed
  show ?case
  proof (cases x)
    case Nil
    then have "?i < ?h" "?j = Suc ?i" by (simp_all add: l(1))
    then have "[?i..<?h] = ?i # [?j..<?h]" by (metis upt_conv_Cons)
    moreover have "\<not> length_line l" using l Nil length_line_at(2) [of l] by auto
    ultimately show ?thesis using nl IH [of cl] Nil by (simp add: l(1))
  next
    case (Cons c cs)
    have split: "[?i..<?h] = ?i # [Suc ?i..<?i + length x] @ [?i + length x] @ [?j..<?h]"
    proof -
      have "[?i..<?h] = [?i..<?i + length x] @ [?i + length x..<?j] @ [?j..<?h]"
      proof -
        have "?i + length x \<le> ?j" "?j \<le> ?h" by (simp_all add: l(1))
        from upt_split [OF this] upt_split [of ?i "?i + length x" ?h] this show ?thesis by (metis le_add1 le_trans)
      qed
      moreover have "[?i + length x..<?j] = [?i + length x]" by (simp add: l(1))
      moreover have "[?i..<?i + length x] = ?i # [Suc ?i..<?i + length x]" using Cons by (intro upt_conv_Cons) simp
      ultimately show ?thesis by simp
    qed
    have first: "?buf ! ?i \<noteq> CHR 0x0A" using nth [of ?i] Cons l(2) by auto
    have a: "at_header ?buf ?i ''Content-Length:'' \<longleftrightarrow> length_line l" "length_line l \<Longrightarrow> 15 < length l"
      using length_line_at(1) [of l pre "concat ls @ post"] length_line_at(2) [of l] l by simp_all
    have v: "content_length (drop (?i + 15) ?buf) = content_length (drop 15 l)" if "length_line l"
    proof -
      have "drop (?i + 15) ?buf = drop 15 l @ concat ls @ post" using a(2) [OF that] by simp
      moreover have "CHR 0x0A \<in> set (drop 15 l)" using a(2) [OF that] l(1) by simp
      ultimately show ?thesis using content_length_line [of "drop 15 l"] by (metis line_end_def)
    qed
    have h: "length_line l \<Longrightarrow> \<not> ?h - ?i \<le> 15" using a(2) by simp
    show ?thesis unfolding split using first a(1) v h rest by (auto split: option.split)
  qed
qed simp

lemma scan_lines_declared:
  assumes "\<forall>l\<in>set ls. last l = CHR 0x0A \<and> l \<noteq> []"
  shows "scan_lines ls cl =
    (case (cl, filter length_line ls) of
       (_, []) \<Rightarrow> Some cl
     | (None, [l]) \<Rightarrow> map_option Some (length_value (drop 15 l))
     | _ \<Rightarrow> None)"
  using assms
proof (induction ls arbitrary: cl)
  case (Cons l ls)
  show ?case
  proof (cases "length_line l")
    case True
    have "CHR 0x0A \<in> set (drop 15 l)"
      using Cons.prems length_line_at(2) [of l] True by (metis last_drop last_in_set drop_eq_Nil list.set_intros(1) not_less)
    then have "content_length (drop 15 l) = length_value (drop 15 l)" by (intro content_length_exact) (auto simp: line_end_def)
    with Cons True show ?thesis by (auto split: option.split list.split)
  next
    case False
    with Cons show ?thesis by simp
  qed
qed (simp split: option.split)

section \<open>The request\<close>

text \<open>The reference: the headers end at the first empty line within the buffer, and the body has the declared length.\<close>

definition request_of :: "nat \<Rightarrow> string \<Rightarrow> (nat \<times> nat) option" where
  "request_of cap s =
     (case head_end (take cap s) 0 of None \<Rightarrow> None
      | Some e \<Rightarrow>
          (case declared_length (take e s) of None \<Rightarrow> None
           | Some n \<Rightarrow> if n \<le> PW_IPC_FRAME_MAX \<and> e + n \<le> cap \<and> e + n \<le> length s then Some (e, n) else None))"

lemma head_lines:
  assumes "head_end s 0 = Some e"
  shows "\<forall>l\<in>set (text_lines (take e s)). l \<noteq> [] \<and> last l = CHR 0x0A \<and> CHR 0x0A \<notin> set (butlast l)"
proof -
  obtain i where i: "e = i + 4" "mark_at s i" using assms by (auto simp: head_end_Some)
  have "take e s = take i s @ take 4 (drop i s)" unfolding i(1) by (rule take_add)
  then have t: "take e s \<noteq> []" "last (take e s) = CHR 0x0A" unfolding i(2) by (simp_all add: head_mark_def crlf_def)
  have P: "proper_lines n ls \<Longrightarrow> concat ls \<noteq> [] \<Longrightarrow> last (concat ls) = CHR 0x0A \<Longrightarrow>
      \<forall>l\<in>set ls. l \<noteq> [] \<and> last l = CHR 0x0A \<and> CHR 0x0A \<notin> set (butlast l)" for n ls
  proof (induction ls)
    case (Cons l ls)
    show ?case
    proof (cases "ls = []")
      case True
      with Cons.prems show ?thesis by simp
    next
      case False
      then have c: "concat ls \<noteq> []" using Cons.prems(1) by (cases ls) auto
      have "last (concat ls) = CHR 0x0A" using Cons.prems(3) unfolding concat.simps last_append if_not_P [OF c] .
      from Cons.IH [OF _ c this] Cons.prems(1) False show ?thesis by simp
    qed
  qed simp
  show ?thesis using P [OF text_lines(2)] t unfolding text_lines(1) by blast
qed

lemma scan_declared:
  assumes "head_end s 0 = Some e"
  shows "scan_lengths s e [0..<e] 0 None = map_option (\<lambda>n. if filter length_line (text_lines (take e s)) = [] then None else Some n)
    (declared_length (take e s))"
proof -
  let ?ls = "text_lines (take e s)"
  have "s = take e s @ drop e s" "length (take e s) = e" using head_end_room [OF assms] by simp_all
  then have "scan_lengths s e [0..<e] 0 None = scan_lines ?ls None"
    using scan_lengths_lines [OF head_lines [OF assms], of "[]" "drop e s" None] by (simp add: text_lines(1))
  then show ?thesis using scan_lines_declared [of ?ls None] head_lines [OF assms]
    by (auto simp: declared_length_def split: list.split)
qed

lemma request_cases:
  assumes "head_end s 0 = Some e"
  shows "(case scan_lengths s e [0..<e] 0 None of None \<Rightarrow> F
      | Some cl \<Rightarrow> G (case cl of None \<Rightarrow> 0 | Some n \<Rightarrow> n)) =
    (case declared_length (take e s) of None \<Rightarrow> F | Some n \<Rightarrow> G n)"
  unfolding scan_declared [OF assms] by (auto simp: declared_length_def split: option.split list.split)

text \<open>Once the headers are in the buffer.\<close>

lemma read_request_body:
  assumes "read_head cap [] inb ks = Some (Inr (buf, e, inb', ks'))"
  shows "read_request cap inb ks =
    (case declared_length (take e inb) of None \<Rightarrow> Some (Inl Read_failed)
     | Some n \<Rightarrow> if n \<le> PW_IPC_FRAME_MAX \<and> e + n \<le> cap
                 then map_option (map_sum id (\<lambda>b. (b, e, n))) (read_body cap (e + n) buf inb' ks')
                 else Some (Inl Read_failed))"
    and "buf @ inb' = inb" "length buf \<le> cap" "head_end (take cap inb) 0 = Some e" "head_end buf 0 = Some e"
proof -
  have "head_end [] 0 = None" by (simp add: head_end_None head_mark_def crlf_def)
  note S = read_head_sound [OF assms this]
  then show b: "buf @ inb' = inb" and c: "length buf \<le> cap" by simp_all
  from S show h: "head_end buf 0 = Some e" by simp
  have "take cap inb = buf @ take (cap - length buf) inb'" unfolding b [symmetric] using c by simp
  with head_end_append [OF h] show "head_end (take cap inb) 0 = Some e" by simp
  have e: "take e buf = take e inb" unfolding b [symmetric] using head_end_room [OF h] by simp
  show "read_request cap inb ks =
    (case declared_length (take e inb) of None \<Rightarrow> Some (Inl Read_failed)
     | Some n \<Rightarrow> if n \<le> PW_IPC_FRAME_MAX \<and> e + n \<le> cap
                 then map_option (map_sum id (\<lambda>b. (b, e, n))) (read_body cap (e + n) buf inb' ks')
                 else Some (Inl Read_failed))"
    unfolding read_request_def assms option.case sum.case prod.case Let_def
      request_cases [OF h, where F = "Some (Inl Read_failed)" and G = "\<lambda>n. if n > PW_IPC_FRAME_MAX then Some (Inl Read_failed)
        else if e + n > cap then Some (Inl Read_failed) else map_option (map_sum id (\<lambda>b. (b, e, n))) (read_body cap (e + n) buf inb' ks')"] e
    by (auto split: option.split)
qed

lemma accepted_request:
  assumes "read_request cap inb ks = Some (Inr (buf, off, len))"
  shows "request_of cap inb = Some (off, len) \<and> (\<exists>rest. buf @ rest = inb) \<and> off + len \<le> length buf \<and> length buf \<le> cap \<and>
    head_end buf 0 = Some off"
proof -
  obtain buf1 e inb' ks' where H: "read_head cap [] inb ks = Some (Inr (buf1, e, inb', ks'))"
    using assms by (auto simp: read_request_def split: option.splits sum.splits)
  note B = read_request_body [OF H]
  from assms B(1) obtain n where n: "declared_length (take e inb) = Some n" "n \<le> PW_IPC_FRAME_MAX" "e + n \<le> cap"
    and b: "read_body cap (e + n) buf1 inb' ks' = Some (Inr buf)" "off = e" "len = n"
    by (auto split: option.splits if_splits) (metis map_sum.simps sum.exhaust sum.distinct(1) Inr_inject prod.inject)+
  note S = read_body_sound [OF b(1) B(3) n(3)]
  then obtain rest where r: "buf @ rest = inb" "e + n \<le> length buf" "length buf \<le> cap" unfolding B(2) by auto
  obtain more where "buf = buf1 @ more" using read_body_grows [OF b(1)] by blast
  with head_end_append [OF B(5)] have "head_end buf 0 = Some e" by simp
  moreover have "e + n \<le> length inb" using r by auto
  then have "request_of cap inb = Some (off, len)" using n b(2,3) B(4) by (simp add: request_of_def)
  ultimately show ?thesis using r b by auto
qed

lemma request_complete:
  assumes d: "delivering ks \<and> length inb < length ks"
  shows "case request_of cap inb of
      None \<Rightarrow> read_request cap inb ks = Some (Inl Read_failed)
    | Some (off, len) \<Rightarrow> \<exists>buf. read_request cap inb ks = Some (Inr (buf, off, len))"
proof -
  have "head_end [] 0 = None" by (simp add: head_end_None head_mark_def crlf_def)
  with d have C: "case head_end (take cap inb) 0 of
        None \<Rightarrow> read_head cap [] inb ks = Some (Inl Read_failed)
      | Some e \<Rightarrow> \<exists>buf' inb' ks'. read_head cap [] inb ks = Some (Inr (buf', e, inb', ks')) \<and> delivering ks' \<and> length inb' < length ks'"
    using read_head_complete [of ks inb "[]" cap] by simp
  show ?thesis
  proof (cases "head_end (take cap inb) 0")
    case None
    with C show ?thesis by (simp add: request_of_def read_request_def)
  next
    case (Some e)
    with C obtain buf inb' ks' where H: "read_head cap [] inb ks = Some (Inr (buf, e, inb', ks'))" and k: "delivering ks'" "length inb' < length ks'"
      by auto
    note B = read_request_body [OF H]
    show ?thesis
    proof (cases "declared_length (take e inb)")
      case None
      with Some B(1) show ?thesis by (simp add: request_of_def)
    next
      case (Some n)
      show ?thesis
      proof (cases "n \<le> PW_IPC_FRAME_MAX \<and> e + n \<le> cap")
        case True
        with read_body_complete [OF k B(3), of "e + n"] Some B(1,4) show ?thesis
          unfolding B(2) by (auto simp: request_of_def split: if_splits)
      next
        case False
        with Some B(1,4) show ?thesis by (auto simp: request_of_def)
      qed
    qed
  qed
qed

section \<open>Properties\<close>

text \<open>
  C12. A request is read the same way however its bytes arrive. Whatever the reads deliver, a request that is accepted is
  the one that the reference finds in the stream of the client: the headers end at the first empty line in the buffer,
  the body has the length that the only \<open>Content-Length\<close> line declares in digits (none: 0), and the buffer holds a
  prefix of the stream that includes both. And when the reads keep delivering within the deadline, every request that
  the reference finds is accepted and every other stream is refused.
\<close>

theorem request_reading_exact:
  "(\<forall>buf off len. read_request cap inb ks = Some (Inr (buf, off, len)) \<longrightarrow>
      request_of cap inb = Some (off, len) \<and> (\<exists>rest. buf @ rest = inb) \<and> off + len \<le> length buf \<and> length buf \<le> cap) \<and>
   (delivering ks \<and> length inb < length ks \<longrightarrow>
      (case request_of cap inb of
         None \<Rightarrow> read_request cap inb ks = Some (Inl Read_failed)
       | Some (off, len) \<Rightarrow> \<exists>buf. read_request cap inb ks = Some (Inr (buf, off, len))))"
  using accepted_request request_complete by blast

definition ex_put :: string where
  "ex_put = ''X'' @ crlf @ ''content-length: 2'' @ crlf @ crlf @ ''{}''"

definition ex_reads :: timed where
  "ex_reads = replicate 30 (Chunk 7, 3)"

lemma ex_reads_deliver: "delivering ex_reads" "length ex_reads = 30"
  by (auto simp: delivering_def ex_reads_def PROXYD_REQ_DEADLINE_S_def)

theorem request_reading_exact_witness:
  "(\<exists>buf. read_request 100 ex_put ex_reads = Some (Inr (buf, 24, 2))) \<and>
   read_request 20 ex_put ex_reads = Some (Inl Read_failed)"
proof -
  have l: "length ex_put < length ex_reads" unfolding ex_reads_deliver by code_simp
  have r: "request_of 100 ex_put = Some (24, 2)" "request_of 20 ex_put = None" by code_simp+
  note T = request_reading_exact [THEN conjunct2, rule_format, OF conjI, OF ex_reads_deliver(1) l]
  show ?thesis using T [of 100] T [of 20] unfolding r by simp
qed

end
