(* ===== verification/PW_Proxy_Guard.thy ===== *)
theory PW_Proxy_Guard
  imports PW_Proxy_Http
begin

text \<open>
  What reaches the daemon through the gateway: the guards of a single request, in terms of the header lines the client
  sent, and the confirmation of the daemon's secret over a run with any number of connections.
\<close>

section \<open>Header fields\<close>

text \<open>The field of a header: the value of its first line.\<close>

definition field_line :: "string \<Rightarrow> string \<Rightarrow> bool" where
  "field_line name l \<longleftrightarrow> strcaseeq (take (length name) l) name"

definition header_field :: "string \<Rightarrow> string \<Rightarrow> string option" where
  "header_field head name =
     map_option (\<lambda>l. trim_end blank (takeWhile (\<lambda>c. \<not> line_end c) (dropWhile blank (drop (length name) l))))
       (find (field_line name) (text_lines head))"

definition one_line :: "string \<Rightarrow> bool" where
  "one_line name \<longleftrightarrow> CHR 0x0A \<notin> to_lower ` set name"

lemma field_line_at:
  assumes "one_line name" "last l = CHR 0x0A" "l \<noteq> []"
  shows "at_header (pre @ l @ post) (length pre) name \<longleftrightarrow> field_line name l"
    and "field_line name l \<Longrightarrow> length name < length l"
proof -
  have no: "\<not> strcaseeq s name" if "CHR 0x0A \<in> set s" for s
    using lower_newline [OF that] assms(1) by (auto simp: one_line_def)
  have nl: "CHR 0x0A \<in> set l" using assms last_in_set by metis
  show L: "length name < length l" if "field_line name l"
  proof (rule ccontr)
    assume "\<not> length name < length l"
    then have "take (length name) l = l" by simp
    with that no [OF nl] show False by (simp add: field_line_def)
  qed
  show "at_header (pre @ l @ post) (length pre) name \<longleftrightarrow> field_line name l"
  proof (cases "length name < length l")
    case True
    then show ?thesis by (simp add: at_header_def field_line_def)
  next
    case False
    then have "CHR 0x0A \<in> set (take (length name) (l @ post))" using nl by simp
    with no L False show ?thesis by (auto simp: at_header_def)
  qed
qed

definition line_at :: "string \<Rightarrow> nat \<Rightarrow> string \<Rightarrow> bool" where
  "line_at buf i name \<longleftrightarrow> (i = 0 \<or> buf ! (i - 1) = CHR 0x0A) \<and> at_header buf i name"

lemma find_skip: "\<forall>x\<in>set xs. \<not> P x \<Longrightarrow> find P (xs @ ys) = find P ys"
  by (induction xs) auto

text \<open>The first position of a field is the start of its first line.\<close>

lemma find_line:
  assumes "one_line name" "\<forall>l\<in>set ls. l \<noteq> [] \<and> last l = CHR 0x0A \<and> CHR 0x0A \<notin> set (butlast l)"
    and "pre = [] \<or> last pre = CHR 0x0A"
  shows "case find (field_line name) ls of
      None \<Rightarrow> find (\<lambda>i. line_at (pre @ concat ls @ post) i name) [length pre..<length (pre @ concat ls) - length name] = None
    | Some l \<Rightarrow> \<exists>i a b. find (\<lambda>i. line_at (pre @ concat ls @ post) i name) [length pre..<length (pre @ concat ls) - length name] = Some i \<and>
        pre @ concat ls = a @ l @ b \<and> length a = i"
  using assms(2,3)
proof (induction ls arbitrary: pre)
  case (Cons l ls)
  let ?buf = "pre @ concat (l # ls) @ post" and ?h = "length (pre @ concat (l # ls)) - length name"
  let ?P = "\<lambda>i. line_at ?buf i name" and ?i = "length pre" and ?j = "length (pre @ l)"
  have l: "l \<noteq> []" "last l = CHR 0x0A" "CHR 0x0A \<notin> set (butlast l)" using Cons.prems(1) by simp_all
  have before: "?i = 0 \<or> ?buf ! (?i - 1) = CHR 0x0A"
    using Cons.prems(2) by (cases pre rule: rev_cases) (auto simp: nth_append)
  have here: "?P ?i \<longleftrightarrow> field_line name l"
    using field_line_at(1) [OF assms(1) l(2,1), of pre "concat ls @ post"] before by (simp add: line_at_def)
  have inside: "\<not> ?P k" if "?i < k" "k < ?j" for k
  proof -
    have k: "k - 1 - ?i < length (butlast l)" "k - 1 < ?i + length l" "?i \<le> k - 1" using that l(1) by auto
    moreover from k(1) have "k - 1 - ?i < length l" by simp
    ultimately have "?buf ! (k - 1) = butlast l ! (k - 1 - ?i)" by (simp add: nth_append nth_butlast del: diff_diff_left)
    then have "?buf ! (k - 1) \<noteq> CHR 0x0A" using nth_mem [OF k(1)] l(3) by metis
    then show ?thesis using that by (simp add: line_at_def)
  qed
  show ?case
  proof (cases "field_line name l")
    case True
    then have "?i < ?h" using field_line_at(2) [OF assms(1) l(2,1)] by simp
    then have "find ?P [?i..<?h] = Some ?i" using here True by (simp add: upt_conv_Cons)
    moreover have "\<exists>b. pre @ concat (l # ls) = pre @ l @ b" by simp
    ultimately show ?thesis using True by auto
  next
    case False
    have skip: "find ?P [?i..<?h] = find ?P [?j..<?h]"
    proof (cases "?j \<le> ?h")
      case True
      have "\<forall>k\<in>set [?i..<?j]. \<not> ?P k"
      proof
        fix k
        assume "k \<in> set [?i..<?j]"
        then show "\<not> ?P k" using here False inside [of k] by (cases "k = ?i") auto
      qed
      from find_skip [OF this] upt_split [of ?i ?j ?h] True show ?thesis by simp
    next
      case j: False
      have "find ?P [?i..<?h] = None"
      proof (subst find_None_iff, rule notI, elim exE conjE)
        fix k
        assume "k \<in> set [?i..<?h]" "?P k"
        then show False using here False inside [of k] j by (cases "k = ?i") auto
      qed
      with j show ?thesis by simp
    qed
    show ?thesis using Cons.IH [of "pre @ l"] Cons.prems l False skip by (auto simp: append_assoc split: option.splits)
  qed
qed simp

lemma find_header_lines:
  assumes "one_line name" "head_end s 0 = Some e"
  shows "find_header s e name cap =
    (case header_field (take e s) name of None \<Rightarrow> None | Some v \<Rightarrow> if length v \<ge> cap then None else Some (c_string v))"
proof -
  let ?ls = "text_lines (take e s)" and ?P = "\<lambda>i. line_at s i name"
  have len0: "length (take e s) = e" using head_end_room [OF assms(2)] by simp
  have F: "case find (field_line name) ?ls of None \<Rightarrow> find ?P [0..<e - length name] = None
      | Some l \<Rightarrow> \<exists>i a b. find ?P [0..<e - length name] = Some i \<and> take e s = a @ l @ b \<and> length a = i"
    using find_line [OF assms(1) head_lines [OF assms(2)], of "[]" "drop e s"]
    unfolding text_lines(1) append_Nil append_take_drop_id list.size(3) len0 by simp
  show ?thesis
  proof (cases "find (field_line name) ?ls")
    case None
    with F show ?thesis by (simp add: find_header_def header_field_def line_at_def)
  next
    case (Some l)
    with F obtain i a b where i: "find ?P [0..<e - length name] = Some i" "take e s = a @ l @ b" "length a = i" by auto
    have l: "l \<in> set ?ls" "field_line name l" using Some by (auto simp: find_Some_iff)
    then have nl: "last l = CHR 0x0A" "l \<noteq> []" using head_lines [OF assms(2)] by auto
    then have len: "length name < length l" using field_line_at(2) [OF assms(1)] l(2) by blast
    then have le: "\<exists>c\<in>set (drop (length name) l). line_end c"
      using nl last_in_set [of "drop (length name) l"] by (metis drop_eq_Nil last_drop line_end_def not_less)
    have "drop (i + length name) (take e s) = drop (length name) l @ b" unfolding i(2) using i(3) len by simp
    then have "takeWhile (\<lambda>c. \<not> line_end c) (dropWhile blank (drop (i + length name) (take e s))) =
        takeWhile (\<lambda>c. \<not> line_end c) (dropWhile blank (drop (length name) l))"
      using value_line [OF le, of b] by simp
    then show ?thesis using i(1) Some by (simp add: find_header_def header_field_def line_at_def Let_def)
  qed
qed

section \<open>Hosts\<close>

definition host_names :: "proxy \<Rightarrow> string list" where
  "host_names px = [''localhost'', ''127.0.0.1'', ''::1''] @ px_listen_addr px # px_allowed_hosts px"

text \<open>A name is allowed if it is one of these but for the case of its letters.\<close>

definition allowed_name :: "proxy \<Rightarrow> string \<Rightarrow> bool" where
  "allowed_name px n \<longleftrightarrow> (\<exists>m\<in>set (host_names px). strcaseeq n m)"

lemma host_allowed_names:
  "length raw < 300 \<Longrightarrow> host_allowed px raw \<longleftrightarrow> strip_port raw \<noteq> [] \<and> (\<exists>m\<in>set (host_names px). host_matches (strip_port raw) m)"
  by (simp add: host_allowed_def host_names_def Let_def list_ex_iff)

lemma host_matches_plain: "take 1 host \<noteq> ''['' \<Longrightarrow> host_matches host want \<longleftrightarrow> strcaseeq host want"
  by (cases host) (auto simp: host_matches_def)

lemma host_matches_literal: "host_matches (CHR ''['' # n @ '']'') want \<longleftrightarrow> strcaseeq (CHR ''['' # n @ '']'') want \<or> strcaseeq n want"
  by (auto simp: host_matches_def strcaseeq_def dest: map_eq_imp_length_eq)

text \<open>
  The forms of a host: a name, with a port or without, is allowed exactly if it is an allowed name; a literal in
  brackets exactly if it is one, with its brackets or without.
\<close>

lemma host_forms:
  assumes "CHR '':'' \<notin> set n" "take 1 n \<noteq> ''[''" "n \<noteq> []" "CHR '':'' \<notin> set port" "length n + length port < 299"
  shows "host_allowed px n \<longleftrightarrow> allowed_name px n" and "host_allowed px (n @ CHR '':'' # port) \<longleftrightarrow> allowed_name px n"
proof -
  have d: "dropWhile (\<lambda>c. c \<noteq> CHR '':'') (n @ CHR '':'' # r) = CHR '':'' # r" "takeWhile (\<lambda>c. c \<noteq> CHR '':'') (n @ CHR '':'' # r) = n" for r
    using assms(1) by (auto simp: dropWhile_append takeWhile_append)
  have "strip_port n = n" using assms(1,2) by (auto simp: strip_port_def Let_def dropWhile_append dest: set_dropWhileD)
  moreover have "take 1 (n @ CHR '':'' # port) \<noteq> ''[''" using assms(2,3) by (cases n) auto
  then have "strip_port (n @ CHR '':'' # port) = n" using assms(4) by (simp add: strip_port_def d)
  ultimately show "host_allowed px n \<longleftrightarrow> allowed_name px n" "host_allowed px (n @ CHR '':'' # port) \<longleftrightarrow> allowed_name px n"
    using assms(2,3,5) by (simp_all add: host_allowed_names allowed_name_def host_matches_plain)
qed

lemma host_literals:
  assumes "CHR '']'' \<notin> set n" "rest = [] \<or> hd rest = CHR '':''" "length n + length rest < 298"
  shows "host_allowed px (CHR ''['' # n @ CHR '']'' # rest) \<longleftrightarrow> allowed_name px n \<or> allowed_name px (CHR ''['' # n @ '']'')"
proof -
  have d: "dropWhile (\<lambda>c. c \<noteq> CHR '']'') (CHR ''['' # n @ CHR '']'' # rest) = CHR '']'' # rest"
    "takeWhile (\<lambda>c. c \<noteq> CHR '']'') (CHR ''['' # n @ CHR '']'' # rest) = CHR ''['' # n"
    using assms(1) by (auto simp: dropWhile_append takeWhile_append)
  have "strip_port (CHR ''['' # n @ CHR '']'' # rest) = CHR ''['' # n @ '']''"
    using assms(2) d by (cases rest) (simp_all add: strip_port_def Let_def)
  then show ?thesis using assms(3) by (auto simp: host_allowed_names allowed_name_def host_matches_literal)
qed

section \<open>Replies and frames\<close>

lemma dec_string_short: "n \<le> 100000 \<Longrightarrow> length (dec_string n) \<le> 6"
  using dec_string_length [of n 5] by simp

lemma csp_length: "length PROXYD_CSP = 173"
  by code_simp

lemma http_reply_fits:
  assumes "code \<le> 100000" "length status \<le> 100" "length ctype \<le> 100" "length body \<le> 100000"
  shows "\<exists>hdr. http_reply code status ctype body = Some (hdr @ body)"
  using assms dec_string_short [of code] dec_string_short [of "length body"] csp_length
  by (auto simp: http_reply_def Let_def crlf_def)

lemma relay_length: "daemon_relay k sock body rcap = Some (Some resp) \<Longrightarrow> length resp \<le> PW_IPC_FRAME_MAX"
proof -
  assume "daemon_relay k sock body rcap = Some (Some resp)"
  then obtain ks inb bs inb' ks' where f: "pw_ipc_read_frame ks inb rcap = Some (Inr bs, inb', ks')" "resp = chars bs"
    by (auto simp: daemon_relay_def split: if_splits option.splits sum.splits)
  then obtain h inb1 ks1 n where "read_all ks1 inb1 n = Some (Some bs, inb', ks')" "n \<le> PW_IPC_FRAME_MAX"
    by (auto simp: pw_ipc_read_frame_def Let_def not_less split: if_splits option.splits)
  with f(2) show ?thesis using read_all_sound by (fastforce simp: chars_def)
qed

section \<open>Guards of a request\<close>

lemma request_in_buffer:
  assumes "read_request cap inb ks = Some (Inr (buf, off, len))"
  obtains rest where "request_of cap inb = Some (off, len)" "buf @ rest = inb" "off + len \<le> length buf" "head_end buf 0 = Some off"
  using accepted_request [OF assms] that by blast

lemma one_lines: "one_line ''X-PW-Request:''" "one_line ''Host:''"
  by code_simp+

lemma auth_frame:
  "auth_probe_current now k px = Some (ok, ev, px') \<Longrightarrow>
     px_sock px' = px_sock px \<and> px_listen_addr px' = px_listen_addr px \<and> px_allowed_hosts px' = px_allowed_hosts px \<and>
     px_probe_enforce px' = px_probe_enforce px \<and> px_active px' = px_active px \<and> Relayed t b \<notin> set ev"
  by (auto simp: auth_probe_current_def split: if_splits)

lemma serve_rpc_relay:
  assumes "serve_rpc su buf off len px = Some (reply, ev, px')" "Relayed t body \<in> set ev"
  shows "find_header buf off ''X-PW-Request:'' 300 = Some ''1''"
    "\<exists>h. find_header buf off ''Host:'' 300 = Some h \<and> host_allowed px h"
    "0 < len" "t = su_now su" "body = take len (drop off buf)"
    "\<exists>r. daemon_relay (su_relay su) (px_sock px) body PW_IPC_FRAME_MAX = Some r \<and>
       reply = (case r of Some resp \<Rightarrow> http_reply 200 ''OK'' ''application/json'' resp | None \<Rightarrow> http_error 502 ''daemon unreachable'')"
proof -
  note S = assms(1) [unfolded serve_rpc_def]
  show x: "find_header buf off ''X-PW-Request:'' 300 = Some ''1''" using S assms(2) by (auto split: if_splits)
  show h: "\<exists>h. find_header buf off ''Host:'' 300 = Some h \<and> host_allowed px h"
    using S assms(2) by (auto split: if_splits option.splits)
  obtain ok ev1 px1 where a: "auth_probe_current (su_now su) (su_probe su) px = Some (ok, ev1, px1)"
    using S x h by (auto split: if_splits option.splits)
  note F = auth_frame [OF a, of t body]
  have R: "ok \<and> 0 < len \<and> map_option (\<lambda>r. (case r of Some resp \<Rightarrow> http_reply 200 ''OK'' ''application/json'' resp
        | None \<Rightarrow> http_error 502 ''daemon unreachable'', ev1 @ [Relayed (su_now su) (take len (drop off buf))], px1))
      (daemon_relay (su_relay su) (px_sock px1) (take len (drop off buf)) PW_IPC_FRAME_MAX) = Some (reply, ev, px')"
    using S x h a F assms(2) by (auto simp: Let_def split: if_splits option.splits)
  then have "ev = ev1 @ [Relayed (su_now su) (take len (drop off buf))]" by auto
  with R F assms(2) show "0 < len" "t = su_now su" "body = take len (drop off buf)"
    "\<exists>r. daemon_relay (su_relay su) (px_sock px) body PW_IPC_FRAME_MAX = Some r \<and>
       reply = (case r of Some resp \<Rightarrow> http_reply 200 ''OK'' ''application/json'' resp | None \<Rightarrow> http_error 502 ''daemon unreachable'')"
    by auto
qed

lemma serve_cases:
  assumes "serve assets version su inb ks px = Some (reply, ev, px')" "ev \<noteq> [] \<or> px' \<noteq> px"
  obtains buf off len where "read_request PROXYD_REQ_MAX inb ks = Some (Inr (buf, off, len))"
    "request_line buf = Some (''POST'', ''/api/rpc'')" "serve_rpc su buf off len px = Some (reply, ev, px')"
  using assms by (auto simp: serve_def split: option.splits sum.splits read_error.splits prod.splits if_splits)

section \<open>Confirmation over a run\<close>

text \<open>A trace in which every relay comes after a passed probe less than a probe period old.\<close>

definition confirmed :: "proxy_event list \<Rightarrow> bool" where
  "confirmed ev \<longleftrightarrow> (\<forall>pre t b post. ev = pre @ Relayed t b # post \<longrightarrow>
     (\<exists>t'. Probed t' 1 \<in> set pre \<and> t' \<le> t \<and> t < t' + PROXYD_PROBE_PERIOD_S))"

lemma confirmed_Nil [simp]: "confirmed []"
  by (simp add: confirmed_def)

lemma confirmed_snoc:
  "confirmed (ev @ [e]) \<longleftrightarrow> confirmed ev \<and>
     (\<forall>t b. e = Relayed t b \<longrightarrow> (\<exists>t'. Probed t' 1 \<in> set ev \<and> t' \<le> t \<and> t < t' + PROXYD_PROBE_PERIOD_S))"
proof -
  have "ev @ [e] = pre @ Relayed t b # post \<longleftrightarrow>
      (post = [] \<and> pre = ev \<and> e = Relayed t b) \<or> (\<exists>post'. post = post' @ [e] \<and> ev = pre @ Relayed t b # post')" for pre t b post
    by (cases post rule: rev_cases) auto
  note split = this
  show ?thesis
  proof
    assume C: "confirmed (ev @ [e])"
    show "confirmed ev \<and> (\<forall>t b. e = Relayed t b \<longrightarrow> (\<exists>t'. Probed t' 1 \<in> set ev \<and> t' \<le> t \<and> t < t' + PROXYD_PROBE_PERIOD_S))"
      using C unfolding confirmed_def split by simp
  next
    assume "confirmed ev \<and> (\<forall>t b. e = Relayed t b \<longrightarrow> (\<exists>t'. Probed t' 1 \<in> set ev \<and> t' \<le> t \<and> t < t' + PROXYD_PROBE_PERIOD_S))"
    then show "confirmed (ev @ [e])" unfolding confirmed_def split by auto
  qed
qed

text \<open>The state of the probe agrees with the trace.\<close>

definition probe_dated :: "proxy_event list \<Rightarrow> int \<Rightarrow> proxy \<Rightarrow> bool" where
  "probe_dated ev now px \<longleftrightarrow> px_probe_enforce px \<and>
     (px_probe_valid px \<longrightarrow> Probed (px_probe_ts px) 1 \<in> set ev \<and> px_probe_ts px \<le> now)"

lemma auth_confirmed:
  assumes "probe_dated ev t px" "confirmed ev" "t \<le> now" "auth_probe_current now k px = Some (ok, ev', px')"
  shows "probe_dated (ev @ ev') now px'" "confirmed (ev @ ev')"
    "ok \<Longrightarrow> \<exists>t'. Probed t' 1 \<in> set (ev @ ev') \<and> t' \<le> now \<and> now < t' + PROXYD_PROBE_PERIOD_S"
proof -
  show "probe_dated (ev @ ev') now px'" "confirmed (ev @ ev')"
    using assms by (auto simp: auth_probe_current_def probe_dated_def confirmed_snoc split: if_splits)
  assume ok
  then have "Probed now 1 \<in> set ev' \<or> Probed (px_probe_ts px) 1 \<in> set ev \<and> px_probe_ts px \<le> t \<and> now - px_probe_ts px < PROXYD_PROBE_PERIOD_S"
    using assms(1,4) by (auto simp: auth_probe_current_def probe_dated_def split: if_splits)
  then show "\<exists>t'. Probed t' 1 \<in> set (ev @ ev') \<and> t' \<le> now \<and> now < t' + PROXYD_PROBE_PERIOD_S"
  proof
    assume "Probed now 1 \<in> set ev'"
    then show ?thesis by (intro exI [of _ now]) (simp add: PROXYD_PROBE_PERIOD_S_def)
  next
    assume "Probed (px_probe_ts px) 1 \<in> set ev \<and> px_probe_ts px \<le> t \<and> now - px_probe_ts px < PROXYD_PROBE_PERIOD_S"
    with assms(3) show ?thesis by (intro exI [of _ "px_probe_ts px"]) auto
  qed
qed

lemma serve_rpc_confirmed:
  assumes "probe_dated ev t px" "confirmed ev" "t \<le> su_now su" "serve_rpc su buf off len px = Some (reply, ev', px')"
  shows "probe_dated (ev @ ev') (su_now su) px' \<and> confirmed (ev @ ev') \<and> px_active px' = px_active px"
proof (cases "ev' = [] \<and> px' = px")
  case True
  with assms show ?thesis by (auto simp: probe_dated_def)
next
  case False
  with assms(4) obtain ok ev1 where a: "auth_probe_current (su_now su) (su_probe su) px = Some (ok, ev1, px')"
    and e: "ev' = ev1 \<or> ok \<and> (\<exists>b. ev' = ev1 @ [Relayed (su_now su) b])"
    by (auto simp: serve_rpc_def Let_def split: if_splits option.splits)
  note A = auth_confirmed [OF assms(1-3) a]
  have "px_active px' = px_active px" using auth_frame [OF a] by blast
  with e A show ?thesis
    by (auto simp: confirmed_snoc probe_dated_def simp flip: append_assoc)
qed

lemma run_confirmed:
  assumes "proxy_run assets version t0 px0 t ev px" "probe_dated ev0 t0 px0" "confirmed ev0" "0 \<le> px_active px0" "px_active px0 \<le> PROXYD_MAX_THREADS"
  shows "probe_dated (ev0 @ ev) t px \<and> confirmed (ev0 @ ev) \<and> 0 \<le> px_active px \<and> px_active px \<le> PROXYD_MAX_THREADS"
  using assms
proof (induction rule: proxy_run.induct)
  case (served t0 px0 t ev px su inb ks reply ev' px')
  then have IH: "probe_dated (ev0 @ ev) t px" "confirmed (ev0 @ ev)" "0 \<le> px_active px" "px_active px \<le> PROXYD_MAX_THREADS" by auto
  have "probe_dated ((ev0 @ ev) @ ev') (su_now su) px' \<and> confirmed ((ev0 @ ev) @ ev') \<and> px_active px' = px_active px"
  proof (cases "ev' \<noteq> [] \<or> px' \<noteq> px")
    case True
    from serve_cases [OF served.hyps(4) True] obtain buf off len where "serve_rpc su buf off len px = Some (reply, ev', px')" by metis
    from serve_rpc_confirmed [OF IH(1,2) served.hyps(3) this] show ?thesis .
  next
    case False
    with IH served.hyps(3) show ?thesis by (auto simp: probe_dated_def)
  qed
  with IH served.hyps(2) show ?case by (auto simp: worker_end_def probe_dated_def)
qed (auto simp: accept_conn_def worker_end_def probe_dated_def)

text \<open>What a public bind starts with.\<close>

lemma start_public:
  assumes "proxy_start files args sa = Some (Inr (po, ev0, px0))" "inet_pton4 (po_listen_addr po) = Some ia" "hd ia \<noteq> 127"
    and "\<not> po_insecure_no_auth po"
  shows "\<not> po_no_tls po" "probe_dated ev0 (sa_now sa) px0" "confirmed ev0" "px_active px0 = 0" "ev0 = [Probed (sa_now sa) 1]"
  using assms by (auto simp: proxy_start_def Let_def probe_dated_def confirmed_def Cons_eq_append_conv split: sum.splits option.splits if_splits)

section \<open>The daemon behind the probe\<close>

text \<open>A daemon that answers a framed request with the framed text of its reply.\<close>

definition answers :: "'j json_c \<Rightarrow> string \<Rightarrow> (call \<Rightarrow> string) \<Rightarrow> daemon_link \<Rightarrow> bool" where
  "answers jc want text_of k \<longleftrightarrow> (\<forall>req c. dispatch jc want req = Some c \<longrightarrow>
     0 < length (text_of c) \<and> length (text_of c) < PW_IPC_FRAME_MAX \<and> dl_peer k (framed req) = framed (octets (text_of c)))"

lemma octets_chars [simp]: "chars (octets s) = s"
  by (induction s) (simp_all add: chars_def octets_def unat_of_nat take_bit_nat_eq_self)

lemma probe_answer:
  assumes "answers jc want text_of k" "dispatch jc want (octets ''{\"rpc\":\"version\"}'') = Some c"
    and "probe_daemon_secret k sock = Some r"
  shows "r = - 1 \<or> r = (if strstr (c_string (text_of c)) ''unauthorized'' then 1 else 0)"
proof -
  let ?req = "''{\"rpc\":\"version\"}''"
  have c: "length (octets (text_of c)) < 2 ^ 32" "dl_peer k (framed (octets ?req)) = framed (octets (text_of c))"
    using assms(1) [unfolded answers_def, rule_format, OF assms(2)] by (simp_all add: octets_def PW_IPC_FRAME_MAX_def)
  have "resp = text_of c" if "daemon_relay k sock ?req (PW_IPC_FRAME_MAX - 1) = Some (Some resp)" for resp
    using that c
    by (auto simp: daemon_relay_def dest!: write_frame_out read_frame_framed [OF _ c(1)] split: if_splits option.splits sum.splits)
  with assms(3) show ?thesis by (auto simp: probe_daemon_secret_def split: option.splits)
qed

text \<open>What json-c makes of the request of the probe.\<close>

definition probe_parsed :: "'j json_c \<Rightarrow> bool" where
  "probe_parsed jc \<longleftrightarrow> (\<exists>req. jc_parse jc (octets ''{\"rpc\":\"version\"}'') = Some req \<and> jc_type jc req = J_object \<and>
     jc_field jc req ''secret'' = None \<and> text_field jc req ''rpc'' = Some ''version'')"

lemma probe_dispatch:
  assumes "probe_parsed jc" "length want < PW_SECRET_MAX"
  shows "dispatch jc want (octets ''{\"rpc\":\"version\"}'') = Some (if want = [] then Version else Error ''unauthorized'')"
proof -
  have "secret_diff want (c_string []) = 0 \<longleftrightarrow> want = []"
    using secret_diff_zero [OF assms(2), of "[]"] by (auto simp: c_string_def)
  with assms(1) show ?thesis by (auto simp: probe_parsed_def dispatch_def authenticate_def route_def)
qed

lemma probe_means_secret:
  assumes "answers jc want text_of k" "probe_parsed jc" "length want < PW_SECRET_MAX"
    and "\<not> strstr (c_string (text_of Version)) ''unauthorized''" "probe_daemon_secret k sock = Some 1"
  shows "want \<noteq> []"
  using probe_answer [OF assms(1) probe_dispatch [OF assms(2,3)] assms(5)] assms(4) by (auto split: if_splits)

section \<open>Properties\<close>

text \<open>
  C11. What is relayed to the daemon. A request has its body relayed only if it is a \<open>POST\<close> to \<open>/api/rpc\<close>, the first
  header line with the field \<open>X-PW-Request\<close> says 1 and the first one with the field \<open>Host\<close> names an allowed host; the
  body is, byte for byte, what the client sent behind its headers, of the length it declared, and is not empty; and the
  client gets the text of the daemon's reply, or a reply of status 502.
\<close>

theorem relay_guarded:
  assumes "serve assets version su inb ks px = Some (reply, ev, px')" "Relayed t body \<in> set ev"
  shows "\<exists>off len key host buf rest.
    request_of PROXYD_REQ_MAX inb = Some (off, len) \<and> 0 < len \<and> body = take len (drop off inb) \<and> t = su_now su \<and>
    buf @ rest = inb \<and> off + len \<le> length buf \<and> request_line buf = Some (''POST'', ''/api/rpc'') \<and>
    header_field (take off inb) ''X-PW-Request:'' = Some key \<and> c_string key = ''1'' \<and>
    header_field (take off inb) ''Host:'' = Some host \<and> host_allowed px (c_string host) \<and>
    (case daemon_relay (su_relay su) (px_sock px) body PW_IPC_FRAME_MAX of
       Some (Some resp) \<Rightarrow> \<exists>hdr. reply = Some (hdr @ resp)
     | _ \<Rightarrow> reply = http_error 502 ''daemon unreachable'')"
proof -
  have "ev \<noteq> [] \<or> px' \<noteq> px" using assms(2) by auto
  from serve_cases [OF assms(1) this] obtain buf off len where R: "read_request PROXYD_REQ_MAX inb ks = Some (Inr (buf, off, len))"
    and l: "request_line buf = Some (''POST'', ''/api/rpc'')" and S: "serve_rpc su buf off len px = Some (reply, ev, px')" by metis
  note G = serve_rpc_relay [OF S assms(2)]
  obtain rest where b: "request_of PROXYD_REQ_MAX inb = Some (off, len)" "buf @ rest = inb" "off + len \<le> length buf"
    and h: "head_end buf 0 = Some off" by (rule request_in_buffer [OF R])
  have t: "take off buf = take off inb" "take len (drop off buf) = take len (drop off inb)" unfolding b(2) [symmetric] using b(3) by simp_all
  note F = find_header_lines [OF _ h, of _ 300]
  obtain key where key: "header_field (take off inb) ''X-PW-Request:'' = Some key" "c_string key = ''1''"
    using G(1) unfolding F [OF one_lines(1)] t by (auto split: option.splits if_splits)
  obtain host where host: "header_field (take off inb) ''Host:'' = Some host" "host_allowed px (c_string host)"
    using G(2) unfolding F [OF one_lines(2)] t by (auto split: option.splits if_splits)
  obtain r where r: "daemon_relay (su_relay su) (px_sock px) body PW_IPC_FRAME_MAX = Some r"
    "reply = (case r of Some resp \<Rightarrow> http_reply 200 ''OK'' ''application/json'' resp | None \<Rightarrow> http_error 502 ''daemon unreachable'')"
    using G(6) by blast
  have "\<exists>hdr. http_reply 200 ''OK'' ''application/json'' resp = Some (hdr @ resp)" if "r = Some resp" for resp
    using relay_length [of "su_relay su" "px_sock px" body PW_IPC_FRAME_MAX resp] r(1) that
    by (intro http_reply_fits) (simp_all add: PW_IPC_FRAME_MAX_def)
  then have reply: "case daemon_relay (su_relay su) (px_sock px) body PW_IPC_FRAME_MAX of
       Some (Some resp) \<Rightarrow> \<exists>hdr. reply = Some (hdr @ resp)
     | _ \<Rightarrow> reply = http_error 502 ''daemon unreachable''"
    using r by (auto split: option.split)
  show ?thesis
    by (intro exI [of _ off] exI [of _ len] exI [of _ key] exI [of _ host] exI [of _ buf] exI [of _ rest] conjI)
      (fact b(1) G(3) G(4) b(2) b(3) l key host reply | simp only: G(5) t)+
qed

text \<open>A client, a daemon that requires a secret, and a gateway on a public address.\<close>

definition ex_post :: string where
  "ex_post = ''POST /api/rpc'' @ crlf @ ''host:localhost:8443'' @ crlf @ ''X-PW-Request: 1'' @ crlf @ ''content-length:2'' @ crlf @ crlf @ ''{}''"

definition ex_link :: "string \<Rightarrow> daemon_link" where
  "ex_link text = \<lparr>dl_socket = True, dl_connect = True, dl_io = replicate 4 (Chunk 100), dl_peer = \<lambda>_. framed (octets text)\<rparr>"

definition ex_su :: surroundings where
  "ex_su = \<lparr>su_now = 30, su_probe = ex_link ''unauthorized'', su_relay = ex_link ''ok''\<rparr>"

definition ex_px :: proxy where
  "ex_px = \<lparr>px_sock = ''/s'', px_listen_addr = ''10.0.0.1'', px_allowed_hosts = [], px_probe_enforce = True,
     px_probe_valid = True, px_probe_ts = 0, px_active = 1\<rparr>"

lemma ex_post_read: "read_request PROXYD_REQ_MAX ex_post [(Chunk 1000, 0)] = Some (Inr (ex_post, 73, 2))"
  by code_simp

lemma ex_post_line: "request_line ex_post = Some (''POST'', ''/api/rpc'')"
  by code_simp

lemma ex_post_key: "find_header ex_post 73 ''X-PW-Request:'' 300 = Some ''1''"
  by code_simp

lemma ex_post_host: "find_header ex_post 73 ''Host:'' 300 = Some ''localhost:8443''"
  by code_simp

lemma ex_post_body: "take 2 (drop 73 ex_post) = ''{}''"
  by code_simp

lemma ex_post_relay: "daemon_relay (ex_link ''ok'') ''/s'' ''{}'' PW_IPC_FRAME_MAX = Some (Some ''ok'')"
  by code_simp

lemma ex_post_served:
  "serve [] [] ex_su ex_post [(Chunk 1000, 0)] ex_px = Some (http_reply 200 ''OK'' ''application/json'' ''ok'', [Relayed 30 ''{}''], ex_px)"
proof -
  have h: "host_allowed ex_px ''localhost:8443''" by code_simp
  have "auth_probe_current 30 (ex_link ''unauthorized'') ex_px = Some (True, [], ex_px)"
    by (simp add: auth_probe_current_def ex_px_def PROXYD_PROBE_PERIOD_S_def)
  moreover have "px_sock ex_px = ''/s''" by (simp add: ex_px_def)
  ultimately have "serve_rpc ex_su ex_post 73 2 ex_px = Some (http_reply 200 ''OK'' ''application/json'' ''ok'', [Relayed 30 ''{}''], ex_px)"
    by (simp add: serve_rpc_def ex_post_key ex_post_host h ex_post_body ex_post_relay ex_su_def)
  then show ?thesis by (simp add: serve_def ex_post_read ex_post_line)
qed

theorem relay_guarded_witness:
  "\<exists>off len host. request_of PROXYD_REQ_MAX ex_post = Some (off, len) \<and> ''{}'' = take len (drop off ex_post) \<and>
     header_field (take off ex_post) ''Host:'' = Some host \<and> host_allowed ex_px (c_string host)"
  using relay_guarded [OF ex_post_served, of 30 "''{}''"] by auto


definition ex_args :: "string list" where "ex_args = [''--listen'', ''10.0.0.1:8443'', ''--socket'', ''/s'']"

definition ex_sa :: startup_answers where
  "ex_sa = \<lparr>sa_now = 0, sa_probe = ex_link ''unauthorized'', sa_tls = True, sa_socket = True, sa_bind = True, sa_listen = True\<rparr>"

definition ex_po :: proxyd_opts where
  "ex_po = default_opts\<lparr>po_listen_addr := ''10.0.0.1'', po_daemon_sock := ''/s''\<rparr>"

lemma ex_proxy_start: "proxy_start (\<lambda>_. None) ex_args ex_sa = Some (Inr (ex_po, [Probed 0 1], ex_px\<lparr>px_active := 0\<rparr>))"
  by code_simp


end
