(* ===== verification/PW_Cli.thy ===== *)
theory PW_Cli
  imports PW_Proxy_Guard
begin

text \<open>
  The command-line tool, \<^verbatim>\<open>pktwyrm/src/main.c\<close>: its global options, the secret, the address of a gateway, and a call
  over HTTPS or over the socket. Connections, files and json-c are parameters; texts are C strings, without a NUL.
\<close>

section \<open>The secret\<close>

definition resolve_secret ::
  "(string \<Rightarrow> yaml_event list) \<Rightarrow> (string \<Rightarrow> (int \<times> string) option) \<Rightarrow> string option \<Rightarrow> string option \<Rightarrow> string option \<Rightarrow> string" where
  "resolve_secret libyaml files secret_arg getenv_secret env_arg =
     (case secret_arg of Some s \<Rightarrow> take (PW_SECRET_MAX - 1) s
      | None \<Rightarrow>
          (case getenv_secret of
             Some (c # cs) \<Rightarrow> take (PW_SECRET_MAX - 1) (c # cs)
           | _ \<Rightarrow>
               let path = (case env_arg of Some p \<Rightarrow> p | None \<Rightarrow> ''/etc/packetwyrm/packetwyrm.yaml'') in
               (case pw_config_parse_file libyaml files (Some path) (Some pw_config_new) of
                  Inr c \<Rightarrow> take (PW_SECRET_MAX - 1) (sys_secret (cfg_system c)) | Inl _ \<Rightarrow> [])))"

section \<open>HTTPS\<close>

text \<open>\<open>HOST[:PORT]\<close>, with brackets around an IPv6 address; one with several colons and no brackets has no port.\<close>

definition split_host :: "string \<Rightarrow> (string \<times> string) option" where
  "split_host hostarg =
     (if length hostarg \<ge> 256 then None
      else if take 1 hostarg = ''[''
      then if CHR '']'' \<notin> set hostarg then None
           else let h = takeWhile (\<lambda>c. c \<noteq> CHR '']'') (tl hostarg); r = drop 1 (dropWhile (\<lambda>c. c \<noteq> CHR '']'') hostarg) in
                if r = [] then Some (h, ''8443'') else if hd r = CHR '':'' then Some (h, tl r) else None
      else if length (filter (\<lambda>c. c = CHR '':'') hostarg) = 1
      then Some (takeWhile (\<lambda>c. c \<noteq> CHR '':'') hostarg, tl (dropWhile (\<lambda>c. c \<noteq> CHR '':'') hostarg))
      else Some (hostarg, ''8443''))"

definition http_request :: "string \<Rightarrow> string \<Rightarrow> string" where
  "http_request host send =
     ''POST /api/rpc HTTP/1.1'' @ crlf @ ''Host: '' @ host @ crlf @ ''Content-Type: application/json'' @ crlf @
     ''Content-Length: '' @ dec_string (length send) @ crlf @ ''X-PW-Request: 1'' @ crlf @ ''Connection: close'' @ crlf @ crlf @ send"

text \<open>The length that the headers declare, from the start of a line; \<open>n\<close> characters are left before the body.\<close>

definition find_crlf :: "string \<Rightarrow> nat option" where
  "find_crlf s = find (\<lambda>i. take 2 (drop i s) = crlf) [0..<length s]"

function declared_in :: "nat \<Rightarrow> string \<Rightarrow> int" where
  "declared_in n s =
     (if n = 0 then - 1
      else if strcaseeq (take 15 s) ''Content-Length:'' then fst (strtol10 (drop 15 s))
      else case find_crlf s of None \<Rightarrow> - 1 | Some i \<Rightarrow> declared_in (n - (i + 2)) (drop (i + 2) s))"
  by auto
termination by (relation "measure fst") auto

declare declared_in.simps [simp del]

text \<open>What is taken from the bytes that were read: the body of a reply with status 200, of the length it declares.\<close>

definition status_200 :: "string \<Rightarrow> bool" where
  "status_200 s \<longleftrightarrow> take 7 s = ''HTTP/1.'' \<and>
     (let sp = dropWhile (\<lambda>c. c \<noteq> CHR '' '') s in
      sp \<noteq> [] \<and> take 3 (drop 1 sp) = ''200'' \<and> take 1 (drop 4 sp) \<in> {'' '', [CHR 0x0D]})"

definition reply_body :: "nat \<Rightarrow> string \<Rightarrow> string option" where
  "reply_body resp_cap buf =
     (let s = c_string buf in
      if \<not> status_200 s \<or> length buf \<ge> PW_IPC_FRAME_MAX + 4095 then None
      else case head_end s 0 of None \<Rightarrow> None
      | Some e \<Rightarrow>
          let body = drop e buf; declared = declared_in e s in
          if declared \<ge> 0 \<and> nat declared \<noteq> length body then None
          else if length body \<le> resp_cap then Some body else None)"

text \<open>The loop that reads until the peer closes or the buffer is full.\<close>

fun ssl_read_all :: "nat \<Rightarrow> io_answer list \<Rightarrow> string \<Rightarrow> string \<Rightarrow> string option" where
  "ssl_read_all cap [] buf inb = (if length buf \<ge> cap then Some buf else None)"
| "ssl_read_all cap (k # ks) buf inb =
     (if length buf \<ge> cap then Some buf
      else case k of
        Chunk n \<Rightarrow>
          let got = take (min (max 1 n) (cap - length buf)) inb in
          if got = [] then Some buf else ssl_read_all cap ks (buf @ got) (drop (length got) inb)
      | _ \<Rightarrow> Some buf)"

text \<open>
  A connection to a gateway: whether it is made, with its encryption, the answers for its transfers, and what the
  gateway sends back for what it was sent.
\<close>

record gateway_link =
  gl_connect :: bool
  gl_tls :: bool
  gl_writes :: "io_answer list"
  gl_reads :: "io_answer list"
  gl_peer :: "string \<Rightarrow> string"

definition https_rpc_call :: "(string \<Rightarrow> string \<Rightarrow> gateway_link) \<Rightarrow> string \<Rightarrow> string \<Rightarrow> nat \<Rightarrow> string option option" where
  "https_rpc_call net hostarg send resp_cap =
     (if length send > PW_IPC_FRAME_MAX then Some None
      else case split_host hostarg of None \<Rightarrow> Some None
      | Some (host, port) \<Rightarrow>
          let k = net host port; req = http_request host send in
          if \<not> gl_connect k \<or> \<not> gl_tls k then Some None
          else if length req \<ge> PW_IPC_FRAME_MAX + 512 then Some None
          else (case conn_write_all (gl_writes k) req of None \<Rightarrow> None
                | Some (ok, out) \<Rightarrow>
                    if \<not> ok then Some None
                    else map_option (reply_body resp_cap)
                           (ssl_read_all (PW_IPC_FRAME_MAX + 4095) (gl_reads k) [] (gl_peer k out))))"

text \<open>
  With a secret the request is parsed, given the secret and written again by json-c (\<open>add_secret\<close>), where it parses.
\<close>

definition secret_request :: "(string \<Rightarrow> string \<Rightarrow> string option) \<Rightarrow> string \<Rightarrow> string \<Rightarrow> string" where
  "secret_request add_secret sec json_req =
     (if sec = [] then json_req else case add_secret json_req sec of None \<Rightarrow> json_req | Some t \<Rightarrow> t)"

definition rpc_call ::
  "(string \<Rightarrow> string \<Rightarrow> string option) \<Rightarrow> (string \<Rightarrow> string \<Rightarrow> gateway_link) \<Rightarrow> daemon_link \<Rightarrow> string \<Rightarrow> string option \<Rightarrow> string \<Rightarrow>
     string \<Rightarrow> nat \<Rightarrow> string option option" where
  "rpc_call add_secret net local sec host_arg sock json_req resp_cap =
     (let send = secret_request add_secret sec json_req in
      case host_arg of Some h \<Rightarrow> https_rpc_call net h send resp_cap
      | None \<Rightarrow>
          if fst (pw_ipc_connect (dl_socket local) (dl_connect local) (Some sock)) \<noteq> PW_OK then Some None
          else (case pw_ipc_write_frame (dl_io local) (octets send) of None \<Rightarrow> None
                | Some (st, out, ks) \<Rightarrow>
                    if st \<noteq> PW_OK then Some None
                    else (case pw_ipc_read_frame ks (dl_peer local out) resp_cap of None \<Rightarrow> None
                          | Some (Inl _, _, _) \<Rightarrow> Some None
                          | Some (Inr bs, _, _) \<Rightarrow> Some (Some (chars bs)))))"

text \<open>The global options, which \<open>main\<close> takes out of the arguments wherever they stand.\<close>

record cli_opts =
  co_secret :: "string option"
  co_env :: "string option"
  co_host :: "string option"

fun global_flags :: "cli_opts \<Rightarrow> string list \<Rightarrow> cli_opts \<times> string list" where
  "global_flags o1 (a # b # as) =
     (if a = ''--secret'' then global_flags (o1\<lparr>co_secret := Some b\<rparr>) as
      else if a = ''--env'' then global_flags (o1\<lparr>co_env := Some b\<rparr>) as
      else if a = ''--host'' then global_flags (o1\<lparr>co_host := Some b\<rparr>) as
      else map_prod id ((#) a) (global_flags o1 (b # as)))"
| "global_flags o1 as = (o1, as)"

section \<open>Addresses and options\<close>

lemma resolve_secret_short: "length (resolve_secret libyaml files a e p) < PW_SECRET_MAX"
  by (auto simp: resolve_secret_def PW_SECRET_MAX_def Let_def split: option.split sum.split list.split)

lemma up_to_char: "c \<notin> set h \<Longrightarrow> takeWhile (\<lambda>x. x \<noteq> c) (h @ c # r) = h" "c \<notin> set h \<Longrightarrow> dropWhile (\<lambda>x. x \<noteq> c) (h @ c # r) = c # r"
  by (induction h) auto

text \<open>The forms of an address: a name, a name with a port, and a bracketed or bare IPv6 address.\<close>

lemma split_host_name:
  assumes "CHR '':'' \<notin> set h" "take 1 h \<noteq> ''[''"
  shows "length h < 256 \<Longrightarrow> split_host h = Some (h, ''8443'')"
    and "CHR '':'' \<notin> set p \<Longrightarrow> h \<noteq> [] \<Longrightarrow> length h + length p < 255 \<Longrightarrow> split_host (h @ CHR '':'' # p) = Some (h, p)"
proof -
  have f: "CHR '':'' \<notin> set s \<Longrightarrow> filter (\<lambda>c. c = CHR '':'') s = []" for s by (auto simp: filter_empty_conv)
  show "length h < 256 \<Longrightarrow> split_host h = Some (h, ''8443'')" using assms f by (simp add: split_host_def)
  show "split_host (h @ CHR '':'' # p) = Some (h, p)" if "CHR '':'' \<notin> set p" "h \<noteq> []" "length h + length p < 255"
  proof -
    have "take 1 (h @ CHR '':'' # p) \<noteq> ''[''" using that(2) assms(2) by (cases h) auto
    then show ?thesis using f [OF that(1)] f [OF assms(1)] up_to_char [OF assms(1), of p] that(3) by (simp add: split_host_def)
  qed
qed

lemma split_host_literal:
  assumes "CHR '']'' \<notin> set h" "length h + length p < 253"
  shows "split_host (''['' @ h @ '']:'' @ p) = Some (h, p)" "split_host (''['' @ h @ '']'') = Some (h, ''8443'')"
  using assms up_to_char [OF assms(1)] by (simp_all add: split_host_def)

lemma split_host_bare:
  assumes "length (filter (\<lambda>c. c = CHR '':'') h) \<ge> 2" "take 1 h \<noteq> ''[''" "length h < 256"
  shows "split_host h = Some (h, ''8443'')"
  using assms by (simp add: split_host_def)

end
