(* ===== verification/PW_Cli_Remote.thy ===== *)
theory PW_Cli_Remote
  imports PW_Cli
begin

text \<open>
  A call through a gateway: the tool's request is read and relayed by \<open>packetwyrm-proxyd\<close>, and its reply is read by the
  tool. The result is the daemon's own answer, or a failure.
\<close>

section \<open>Headers\<close>

definition good_line :: "string \<Rightarrow> bool" where
  "good_line l \<longleftrightarrow> l \<noteq> [] \<and> CHR 0x0D \<notin> set l \<and> CHR 0x0A \<notin> set l"

definition head_of :: "string list \<Rightarrow> string" where
  "head_of ls = concat (map (\<lambda>l. l @ crlf) ls) @ crlf"

lemma head_of_Cons: "head_of (l # ls) = l @ crlf @ head_of ls"
  by (simp add: head_of_def)

lemma head_of_Nil: "head_of [] = crlf"
  by (simp add: head_of_def)

lemma mark_chars: "mark_at s j \<Longrightarrow> j < length s \<and> s ! j = CHR 0x0D \<and> j + 2 < length s \<and> s ! (j + 2) = CHR 0x0D"
proof -
  assume m: "mark_at s j"
  have "j + 4 \<le> length s" by (rule mark_room [OF m])
  moreover have "s ! (j + k) = head_mark ! k" if "k < 4" for k
    using that m calculation by (metis nth_take nth_drop add_leD1)
  from this [of 0] this [of 2] have "s ! j = CHR 0x0D" "s ! (j + 2) = CHR 0x0D" by (simp_all add: head_mark_def crlf_def)
  ultimately show ?thesis by simp
qed

lemma line_no_mark:
  assumes "good_line l" "r \<noteq> []" "hd r \<noteq> CHR 0x0D" "j < length l + 2"
  shows "\<not> mark_at (l @ crlf @ r) j"
proof
  assume "mark_at (l @ crlf @ r) j"
  from mark_chars [OF this] have c: "(l @ crlf @ r) ! j = CHR 0x0D" "(l @ crlf @ r) ! (j + 2) = CHR 0x0D" by simp_all
  have "\<not> j < length l"
  proof
    assume "j < length l"
    then show False using c(1) assms(1) by (metis good_line_def nth_append nth_mem)
  qed
  moreover have "j \<noteq> length l + 1" using c(1) by (auto simp: nth_append crlf_def)
  moreover have "j \<noteq> length l" using c(2) assms(2,3) by (cases r) (auto simp: nth_append crlf_def)
  ultimately show False using assms(4) by simp
qed

lemma head_end_shift:
  assumes "\<forall>j < length p. \<not> mark_at (p @ s) j" "head_end s 0 = Some e"
  shows "head_end (p @ s) 0 = Some (length p + e)"
proof -
  obtain i where i: "e = i + 4" "mark_at s i" "\<forall>j < i. \<not> mark_at s j" using assms(2) by (auto simp: head_end_Some)
  have "\<not> mark_at (p @ s) j" if "j < length p + i" for j
    using that assms(1) i(3) by (cases "j < length p") (auto simp: not_less dest!: le_Suc_ex)
  then show ?thesis using i by (auto simp: head_end_Some intro!: exI [of _ "length p + i"])
qed

text \<open>The headers end where their last empty line does, and are read back line by line.\<close>

lemma head_of_end: "ls \<noteq> [] \<Longrightarrow> \<forall>l \<in> set ls. good_line l \<Longrightarrow> head_end (head_of ls @ body) 0 = Some (length (head_of ls))"
proof (induction ls)
  case (Cons l ls)
  show ?case
  proof (cases "ls = []")
    case True
    let ?s = "head_mark @ body"
    have h: "head_end ?s 0 = Some 4" by (auto simp: head_end_Some intro!: exI [of _ 0])
    have "\<not> mark_at (l @ ?s) j" if "j < length l" for j
    proof
      assume "mark_at (l @ ?s) j"
      from mark_chars [OF this] that have "l ! j = CHR 0x0D" by (simp add: nth_append)
      then show False using that Cons.prems(2) by (auto simp: good_line_def dest: nth_mem)
    qed
    from head_end_shift [OF _ h, of l] this show ?thesis using True by (simp add: head_of_def head_mark_def crlf_def)
  next
    case False
    then have r: "head_of ls @ body \<noteq> []" "hd (head_of ls @ body) \<noteq> CHR 0x0D"
      using Cons.prems(2) by (cases ls; cases "hd ls"; auto simp: head_of_def good_line_def)+
    have "head_end (head_of ls @ body) 0 = Some (length (head_of ls))" using Cons False by simp
    from head_end_shift [OF _ this, of "l @ crlf"] line_no_mark [OF _ r, of l] Cons.prems(2)
    show ?thesis by (simp add: head_of_Cons crlf_def)
  qed
qed simp

lemma head_of_lines:
  assumes "\<forall>l \<in> set ls. good_line l"
  shows "text_lines (head_of ls) = map (\<lambda>l. l @ crlf) ls @ [crlf]"
proof -
  let ?ls = "map (\<lambda>l. l @ crlf) ls @ [crlf]"
  have "proper_lines (length (concat ?ls)) ?ls"
  proof -
    have "proper_lines n (map (\<lambda>l. l @ crlf) ls @ [crlf])" if "\<forall>l \<in> set ?ls. length l \<le> n" for n
      using assms that by (induction ls) (auto simp: good_line_def crlf_def butlast_append)
    then show ?thesis using length_concat_member by blast
  qed
  from text_lines_concat [OF this] show ?thesis by (simp add: head_of_def)
qed

section \<open>The request\<close>

definition clean_host :: "string \<Rightarrow> bool" where
  "clean_host h \<longleftrightarrow> h \<noteq> [] \<and> (\<forall>c \<in> set h. \<not> is_space c \<and> of_char c \<noteq> (0 :: nat))"

definition request_lines :: "string \<Rightarrow> nat \<Rightarrow> string list" where
  "request_lines host n = [''POST /api/rpc HTTP/1.1'', ''Host: '' @ host, ''Content-Type: application/json'',
     ''Content-Length: '' @ dec_string n, ''X-PW-Request: 1'', ''Connection: close'']"

lemma http_request_lines: "http_request host send = head_of (request_lines host (length send)) @ send"
  by (simp add: http_request_def head_of_def request_lines_def)

lemma clean_not: "clean_host h \<Longrightarrow> c \<in> set h \<Longrightarrow> c \<noteq> CHR 0x0D \<and> c \<noteq> CHR 0x0A \<and> \<not> blank c \<and> \<not> line_end c"
  by (auto simp: clean_host_def is_space_def blank_def line_end_def)

lemma dec_not: "c \<in> set (dec_string n) \<Longrightarrow> c \<noteq> CHR 0x0D \<and> c \<noteq> CHR 0x0A \<and> \<not> blank c \<and> \<not> line_end c \<and> of_char c \<noteq> (0 :: nat)"
  using dec_char [of c n] by (auto simp: is_space_def blank_def line_end_def digit_val_def)

lemma request_lines_good: "clean_host host \<Longrightarrow> \<forall>l \<in> set (request_lines host n). good_line l"
  using clean_not [of host] dec_not [of _ n] by (auto simp: request_lines_def good_line_def)

lemma caseeq_Cons: "strcaseeq (a # s) (b # t) \<longleftrightarrow> to_lower a = to_lower b \<and> strcaseeq s t"
  by (simp add: strcaseeq_def)

lemma lower_letters: "to_lower CHR ''H'' = CHR ''h''" "to_lower CHR ''X'' = CHR ''x''" "to_lower CHR ''C'' = CHR ''c''"
  "to_lower CHR ''P'' = CHR ''p''" "to_lower CHR ''o'' = CHR ''o''" "to_lower CHR ''s'' = CHR ''s''" "to_lower CHR ''t'' = CHR ''t''"
  "to_lower CHR '':'' = CHR '':''"
  by code_simp+

lemma not_key_lines: "\<not> field_line ''X-PW-Request:'' (''POST /api/rpc HTTP/1.1'' @ crlf)" "\<not> field_line ''X-PW-Request:'' ((''Host: '' @ h) @ crlf)"
  "\<not> field_line ''X-PW-Request:'' (''Content-Type: application/json'' @ crlf)" "\<not> field_line ''X-PW-Request:'' ((''Content-Length: '' @ d) @ crlf)"
  "field_line ''X-PW-Request:'' (''X-PW-Request: 1'' @ crlf)"
  by (simp_all add: field_line_def caseeq_Cons lower_letters) (simp add: strcaseeq_def)

lemma not_host_lines: "\<not> field_line ''Host:'' (''POST /api/rpc HTTP/1.1'' @ crlf)" "field_line ''Host:'' ((''Host: '' @ h) @ crlf)"
  by (simp_all add: field_line_def caseeq_Cons lower_letters) (simp add: strcaseeq_def)

lemma not_length_lines: "\<not> length_line (''POST /api/rpc HTTP/1.1'' @ crlf)" "\<not> length_line ((''Host: '' @ h) @ crlf)"
  "\<not> length_line (''Content-Type: application/json'' @ crlf)" "length_line ((''Content-Length: '' @ d) @ crlf)"
  "\<not> length_line (''X-PW-Request: 1'' @ crlf)" "\<not> length_line (''Connection: close'' @ crlf)" "\<not> length_line crlf"
  by (simp_all add: length_line_def caseeq_Cons lower_letters crlf_def) (simp_all add: strcaseeq_def to_lower_def)

text \<open>The value of a field without blanks and line ends.\<close>

lemma plain_value:
  assumes "v \<noteq> []" "\<forall>c \<in> set v. \<not> blank c \<and> \<not> line_end c"
  shows "trim_end blank (takeWhile (\<lambda>c. \<not> line_end c) (dropWhile blank (CHR '' '' # v @ crlf))) = v"
proof -
  have b: "blank CHR '' ''" by (simp add: blank_def)
  have "dropWhile blank (v @ crlf) = v @ crlf" using assms by (cases v) auto
  moreover have "takeWhile (\<lambda>c. \<not> line_end c) (v @ crlf) = v" using assms by (simp add: takeWhile_append2 crlf_def line_end_def)
  ultimately show ?thesis using assms b by (simp add: trim_end_last)
qed

lemma request_fields:
  assumes "clean_host host"
  shows "header_field (head_of (request_lines host n)) ''X-PW-Request:'' = Some ''1''"
    and "header_field (head_of (request_lines host n)) ''Host:'' = Some host"
    and "n < 2 ^ 64 \<Longrightarrow> declared_length (head_of (request_lines host n)) = Some n"
proof -
  note L = head_of_lines [OF request_lines_good [OF assms], of n] and R = request_lines_def
  show "header_field (head_of (request_lines host n)) ''X-PW-Request:'' = Some ''1''"
  proof -
    have "find (field_line ''X-PW-Request:'') (map (\<lambda>l. l @ crlf) (request_lines host n) @ [crlf]) = Some (''X-PW-Request: 1'' @ crlf)"
      unfolding R list.map by (subst append_Cons, simp only: find.simps not_key_lines if_True if_False simp_thms)+
    then show ?thesis unfolding header_field_def L using plain_value [of "''1''"] by (simp add: blank_def line_end_def)
  qed
  show "header_field (head_of (request_lines host n)) ''Host:'' = Some host"
  proof -
    have "find (field_line ''Host:'') (map (\<lambda>l. l @ crlf) (request_lines host n) @ [crlf]) = Some ((''Host: '' @ host) @ crlf)"
      unfolding R list.map by (subst append_Cons, simp only: find.simps not_host_lines if_True if_False simp_thms)+
    then show ?thesis unfolding header_field_def L using plain_value [of host] clean_not [OF assms] assms
      by (simp add: clean_host_def blank_def)
  qed
  show "declared_length (head_of (request_lines host n)) = Some n" if "n < 2 ^ 64"
  proof -
    have "filter length_line (map (\<lambda>l. l @ crlf) (request_lines host n) @ [crlf]) = [(''Content-Length: '' @ dec_string n) @ crlf]"
      unfolding R list.map filter_append by (simp only: filter.simps not_length_lines if_True if_False append_Nil2)
    then show ?thesis unfolding declared_length_def L using plain_value [of "dec_string n"] dec_not [of _ n] dec_string_nonempty [of n] that
      by (simp add: length_value_def dec_numeral blank_def)
  qed
qed

text \<open>The gateway reads the request as it was sent.\<close>

lemma request_head_length:
  assumes "length host < 256" "n \<le> PW_IPC_FRAME_MAX"
  shows "length (head_of (request_lines host n)) < 400"
  using assms dec_string_length [of n 4] by (simp add: head_of_def request_lines_def crlf_def PW_IPC_FRAME_MAX_def)

lemma request_found:
  assumes "clean_host host" "length host < 256" "length send \<le> PW_IPC_FRAME_MAX"
  shows "request_of PROXYD_REQ_MAX (http_request host send) = Some (length (head_of (request_lines host (length send))), length send)"
proof -
  let ?h = "head_of (request_lines host (length send))"
  have len: "length ?h + length send \<le> PROXYD_REQ_MAX"
    using request_head_length [OF assms(2,3)] assms(3) by (simp add: PROXYD_REQ_MAX_def)
  have e: "head_end (?h @ send) 0 = Some (length ?h)"
    by (rule head_of_end) (use request_lines_good [OF assms(1)] in \<open>auto simp: request_lines_def\<close>)
  have "length send < 2 ^ 64" using assms(3) by (simp add: PW_IPC_FRAME_MAX_def)
  from request_fields(3) [OF assms(1) this] show ?thesis
    using e len assms(3) unfolding http_request_lines by (simp add: request_of_def)
qed

lemma request_line_post: "request_line (''POST /api/rpc HTTP/1.1'' @ crlf @ r) = Some (''POST'', ''/api/rpc'')"
  by (simp add: request_line_def scan_word_def c_string_def is_space_def crlf_def)

lemma c_string_plain: "\<forall>c \<in> set s. of_char c \<noteq> (0 :: nat) \<Longrightarrow> c_string s = s"
  by (simp add: c_string_def takeWhile_eq_all_conv)

text \<open>What a gateway does for a host and a body.\<close>

definition gated_relay :: "surroundings \<Rightarrow> string \<Rightarrow> string \<Rightarrow> proxy \<Rightarrow> (string option \<times> proxy_event list \<times> proxy) option" where
  "gated_relay su host send px =
    (if \<not> host_allowed px host then Some (http_error 403 ''host not allowed'', [], px)
     else case auth_probe_current (su_now su) (su_probe su) px of None \<Rightarrow> None
          | Some (ok, ev, px) \<Rightarrow>
              if \<not> ok then Some (http_error 403 ''daemon auth not confirmed'', ev, px)
              else if send = [] then Some (http_error 400 ''empty body'', ev, px)
              else map_option (\<lambda>r. (case r of Some resp \<Rightarrow> http_reply 200 ''OK'' ''application/json'' resp
                                    | None \<Rightarrow> http_error 502 ''daemon unreachable'', ev @ [Relayed (su_now su) send], px))
                     (daemon_relay (su_relay su) (px_sock px) send PW_IPC_FRAME_MAX))"

lemma serve_request:
  assumes "clean_host host" "length host < 256" "length send \<le> PW_IPC_FRAME_MAX"
    and ks: "delivering ks" "length (http_request host send) < length ks"
  shows "serve assets version su (http_request host send) ks px = gated_relay su host send px"
proof -
  let ?h = "head_of (request_lines host (length send))" and ?req = "http_request host send"
  obtain buf where R: "read_request PROXYD_REQ_MAX ?req ks = Some (Inr (buf, length ?h, length send))"
    using request_complete [of ks ?req PROXYD_REQ_MAX] ks request_found [OF assms(1-3)] by auto
  obtain rest where b: "buf @ rest = ?req" "length ?h + length send \<le> length buf" "head_end buf 0 = Some (length ?h)"
    by (rule request_in_buffer [OF R])
  have buf: "buf = ?h @ send"
  proof -
    have "length (?h @ send) \<le> length buf" using b(2) by simp
    then show ?thesis using b(1) unfolding http_request_lines by (metis append_eq_append_conv append_Nil2 length_append le_add1 le_antisym add_leE)
  qed
  have line: "request_line buf = Some (''POST'', ''/api/rpc'')"
    using request_line_post by (simp add: buf head_of_def request_lines_def)
  have key: "find_header buf (length ?h) ''X-PW-Request:'' 300 = Some ''1''"
    using find_header_lines [OF one_lines(1) b(3), of 300] request_fields(1) [OF assms(1)] by (simp add: buf c_string_def)
  have host: "find_header buf (length ?h) ''Host:'' 300 = Some host"
    using find_header_lines [OF one_lines(2) b(3), of 300] request_fields(2) [OF assms(1)] assms(1,2) c_string_plain [of host]
    by (simp add: buf clean_host_def)
  have body: "take (length send) (drop (length ?h) buf) = send" by (simp add: buf)
  have "serve_rpc su buf (length ?h) (length send) px = gated_relay su host send px"
    unfolding serve_rpc_def key host body Let_def length_0_conv gated_relay_def by simp
  then show ?thesis by (simp add: serve_def R line)
qed

section \<open>The reply\<close>

definition reply_lines :: "nat \<Rightarrow> string \<Rightarrow> nat \<Rightarrow> string list" where
  "reply_lines code status n = [''HTTP/1.1 '' @ dec_string code @ '' '' @ status, ''Content-Type: application/json'',
     ''Content-Length: '' @ dec_string n, ''Content-Security-Policy: '' @ PROXYD_CSP, ''X-Content-Type-Options: nosniff'',
     ''Cache-Control: no-store'', ''Connection: close'']"

lemma http_reply_lines:
  assumes "code \<le> 100000" "length status \<le> 100" "length body \<le> 100000"
  shows "http_reply code status ''application/json'' body = Some (head_of (reply_lines code status (length body)) @ body)"
  using assms dec_string_short [of code] dec_string_short [of "length body"] csp_length
  by (simp add: http_reply_def Let_def crlf_def head_of_def reply_lines_def)

definition plain_text :: "string \<Rightarrow> bool" where
  "plain_text s \<longleftrightarrow> (\<forall>c \<in> set s. c \<noteq> CHR 0x0D \<and> c \<noteq> CHR 0x0A \<and> of_char c \<noteq> (0 :: nat))"

lemma csp_plain: "plain_text PROXYD_CSP"
  by code_simp

lemma dec_plain: "plain_text (dec_string n)"
  using dec_not by (simp add: plain_text_def)

lemma plain_append [simp]: "plain_text (x @ y) \<longleftrightarrow> plain_text x \<and> plain_text y"
  by (auto simp: plain_text_def)

lemma plain_Cons [simp]: "plain_text (c # s) \<longleftrightarrow> c \<noteq> CHR 0x0D \<and> c \<noteq> CHR 0x0A \<and> of_char c \<noteq> (0 :: nat) \<and> plain_text s" "plain_text []"
  by (auto simp: plain_text_def)

lemma reply_lines_plain: "plain_text status \<Longrightarrow> \<forall>l \<in> set (reply_lines code status n). plain_text l \<and> l \<noteq> []"
  by (simp add: reply_lines_def csp_plain dec_plain)

lemma reply_lines_good: "plain_text status \<Longrightarrow> \<forall>l \<in> set (reply_lines code status n). good_line l"
  using reply_lines_plain [of status code n] by (auto simp: good_line_def plain_text_def)

lemma head_plain: "\<forall>l \<in> set ls. plain_text l \<Longrightarrow> \<forall>c \<in> set (head_of ls). of_char c \<noteq> (0 :: nat)"
  by (auto simp: head_of_def plain_text_def crlf_def)

lemma c_string_append: "\<forall>c \<in> set h. of_char c \<noteq> (0 :: nat) \<Longrightarrow> c_string (h @ b) = h @ c_string b"
  by (simp add: c_string_def takeWhile_append2)

lemma find_crlf_line: "CHR 0x0D \<notin> set l \<Longrightarrow> find_crlf (l @ crlf @ r) = Some (length l)"
proof -
  assume l: "CHR 0x0D \<notin> set l"
  have "take 2 (drop j (l @ crlf @ r)) \<noteq> crlf" if "j < length l" for j
  proof
    assume "take 2 (drop j (l @ crlf @ r)) = crlf"
    then have "hd (drop j l @ crlf @ r) = CHR 0x0D" using that by (cases "drop j l") (auto simp: crlf_def)
    then show False using that l by (metis append_is_Nil_conv drop_eq_Nil hd_append hd_in_set in_set_dropD leD)
  qed
  moreover have "take 2 (drop (length l) (l @ crlf @ r)) = crlf" by (simp add: crlf_def)
  moreover have "length l < length (l @ crlf @ r)" by (simp add: crlf_def)
  ultimately show ?thesis unfolding find_crlf_def find_upt by blast
qed

lemma declared_skip:
  assumes "CHR 0x0D \<notin> set l" "\<not> strcaseeq (take 15 (l @ crlf @ r)) ''Content-Length:''" "n > 0"
  shows "declared_in n (l @ crlf @ r) = declared_in (n - (length l + 2)) r"
proof -
  have "drop (length l + 2) (l @ crlf @ r) = r" by (simp add: crlf_def)
  then show ?thesis using assms by (subst declared_in.simps) (simp only: find_crlf_line [OF assms(1)] neq0_conv [symmetric] if_False option.simps)
qed

lemma strtol_dec:
  assumes "n < 2 ^ 63"
  shows "fst (strtol10 (CHR '' '' # dec_string n @ crlf @ r)) = int n"
proof -
  have d: "\<forall>c \<in> set (dec_string n). digit_val 10 c \<noteq> None" using dec_char by blast
  obtain c cs where c: "dec_string n = c # cs" using dec_string_nonempty [of n] by (cases "dec_string n") auto
  have nr: "\<not> starts_digit 10 (crlf @ r)" by (simp add: starts_digit_def crlf_def digit_val_def)
  have "run_of_digits 10 0 (dec_string n @ crlf @ r) = (digits_value 10 0 (dec_string n), crlf @ r)"
    using nr d by (intro run_of_digits_append) auto
  moreover have "digits_value 10 0 (dec_string n) = n" using dec_numeral [of n] d by (simp add: numeral_value_def c)
  moreover have "digit_val 10 c \<noteq> None" using d c by simp
  moreover have "is_space CHR '' ''" by (simp add: is_space_def)
  ultimately show ?thesis using digit_not_space [of c] assms
    by (auto simp: strtol10_def c opt_sign_def starts_digit_def Let_def)
qed

lemma reply_declared:
  assumes "plain_text status" "n < 2 ^ 63"
  shows "declared_in (length (head_of (reply_lines code status n))) (head_of (reply_lines code status n) @ b) = int n"
proof -
  let ?r1 = "head_of (tl (reply_lines code status n)) @ b" and ?r2 = "head_of (tl (tl (reply_lines code status n))) @ b"
  let ?l1 = "''HTTP/1.1 '' @ dec_string code @ '' '' @ status" and ?l2 = "''Content-Type: application/json''"
  have h1: "head_of (reply_lines code status n) @ b = ?l1 @ crlf @ ?r1" by (simp add: head_of_def reply_lines_def)
  have h2: "?r1 = ?l2 @ crlf @ ?r2" by (simp add: head_of_def reply_lines_def)
  have s1: "declared_in k (?l1 @ crlf @ ?r1) = declared_in (k - (length ?l1 + 2)) ?r1" if "k > 0" for k
    by (rule declared_skip) (use that assms(1) dec_plain [of code] in \<open>auto simp: plain_text_def caseeq_Cons lower_letters\<close>)
  have s2: "declared_in k (?l2 @ crlf @ ?r2) = declared_in (k - (length ?l2 + 2)) ?r2" if "k > 0" for k
    by (rule declared_skip) (use that in \<open>simp_all add: caseeq_Cons lower_letters to_lower_def\<close>)
  have s3: "declared_in k ?r2 = int n" if "k > 0" for k
  proof -
    have "?r2 = ''Content-Length:'' @ CHR '' '' # dec_string n @ crlf @ head_of (drop 3 (reply_lines code status n)) @ b"
      by (simp add: head_of_def reply_lines_def)
    moreover have "strcaseeq ''Content-Length:'' ''Content-Length:''" by (simp add: strcaseeq_def)
    ultimately show ?thesis using that strtol_dec [OF assms(2)] by (subst declared_in.simps) (simp add: numeral_eq_Suc)
  qed
  let ?n = "length (head_of (reply_lines code status n))"
  have p: "0 < ?n" "0 < ?n - (length ?l1 + 2)" "0 < ?n - (length ?l1 + 2) - (length ?l2 + 2)"
    by (simp_all add: head_of_def reply_lines_def crlf_def)
  show ?thesis unfolding h1 s1 [OF p(1)] unfolding h2 s2 [OF p(2)] by (rule s3 [OF p(3)])
qed

lemma status_of: "length d = 3 \<Longrightarrow> status_200 (''HTTP/1.1 '' @ d @ '' '' @ r) \<longleftrightarrow> d = ''200''"
  by (simp add: status_200_def)

lemma reply_head_length: "code \<le> 100000 \<Longrightarrow> length status \<le> 100 \<Longrightarrow> n \<le> 100000 \<Longrightarrow> length (head_of (reply_lines code status n)) < 1024"
  using dec_string_short [of code] dec_string_short [of n] csp_length by (simp add: crlf_def head_of_def reply_lines_def)

text \<open>The tool takes the body of a reply with status 200 and nothing of another one.\<close>

lemma reply_read:
  assumes "length (dec_string code) = 3" "code \<le> 100000" "plain_text status" "length status \<le> 100" "length body \<le> PW_IPC_FRAME_MAX"
    and reply: "http_reply code status ''application/json'' body = Some reply"
  shows "reply_body cap reply = (if dec_string code = ''200'' \<and> length body \<le> cap then Some body else None)"
    and "length reply < PW_IPC_FRAME_MAX + 1024"
proof -
  let ?h = "head_of (reply_lines code status (length body))"
  have b: "length body \<le> 100000" using assms(5) by (simp add: PW_IPC_FRAME_MAX_def)
  have r: "reply = ?h @ body" using http_reply_lines [OF assms(2,4) b] reply by simp
  have len: "length ?h < 1024" by (rule reply_head_length [OF assms(2,4) b])
  then show "length reply < PW_IPC_FRAME_MAX + 1024" using assms(5) r by simp
  have s: "c_string reply = ?h @ c_string body"
    unfolding r by (intro c_string_append head_plain) (use reply_lines_plain [OF assms(3)] in blast)
  have st: "status_200 (?h @ c_string body) \<longleftrightarrow> dec_string code = ''200''"
    using status_of [OF assms(1)] by (simp add: head_of_def reply_lines_def)
  have e: "head_end (?h @ c_string body) 0 = Some (length ?h)"
    by (rule head_of_end [OF _ reply_lines_good [OF assms(3)]]) (simp add: reply_lines_def)
  have d: "declared_in (length ?h) (?h @ c_string body) = int (length body)"
    using b by (intro reply_declared [OF assms(3)]) simp
  show "reply_body cap reply = (if dec_string code = ''200'' \<and> length body \<le> cap then Some body else None)"
    using len assms(5) by (simp add: reply_body_def s st e d Let_def) (simp add: r)
qed

section \<open>Transfers\<close>

text \<open>A connection that holds and moves something with each of more than \<open>m\<close> calls.\<close>

definition steady :: "io_answer list \<Rightarrow> nat \<Rightarrow> bool" where
  "steady ks m \<longleftrightarrow> list_all (\<lambda>k. case k of Chunk n \<Rightarrow> n > 0 | _ \<Rightarrow> False) ks \<and> m < length ks"

lemma steady_Cons: "steady ks m \<Longrightarrow> \<exists>n ks'. ks = Chunk n # ks' \<and> n > 0 \<and> (m > 0 \<longrightarrow> steady ks' (m - 1))"
  by (cases ks) (auto simp: steady_def split: io_answer.splits)

lemma steady_mono: "steady ks m \<Longrightarrow> m' \<le> m \<Longrightarrow> steady ks m'"
  by (auto simp: steady_def)

lemma steady_write: "steady ks (length s) \<Longrightarrow> conn_write_all ks s = Some (True, s)"
proof (induction ks s rule: conn_write_all.induct)
  case (3 k ks c cs)
  from steady_Cons [OF 3(2)] obtain n where k: "k = Chunk n" "n > 0" and st: "steady ks (length cs)" by auto
  have "conn_write_all ks (drop n (c # cs)) = Some (True, drop n (c # cs))"
    using k by (intro 3(1) [OF k(1)] steady_mono [OF st]) auto
  then show ?case using k by simp
qed (auto simp: steady_def)

lemma steady_read: "steady ks (length inb) \<Longrightarrow> length buf + length inb < cap \<Longrightarrow> ssl_read_all cap ks buf inb = Some (buf @ inb)"
proof (induction ks arbitrary: buf inb)
  case (Cons k ks)
  from steady_Cons [OF Cons.prems(1)] obtain n where k: "k = Chunk n" "n > 0" and st: "inb \<noteq> [] \<Longrightarrow> steady ks (length inb - 1)" by auto
  let ?got = "take (min (max 1 n) (cap - length buf)) inb"
  show ?case
  proof (cases "inb = []")
    case False
    then have g: "?got \<noteq> []" "length ?got \<ge> 1" using k Cons.prems(2) by (auto simp: Suc_le_eq)
    have "ssl_read_all cap ks (buf @ ?got) (drop (length ?got) inb) = Some ((buf @ ?got) @ drop (length ?got) inb)"
    proof (rule Cons.IH)
      show "steady ks (length (drop (length ?got) inb))" unfolding length_drop by (intro steady_mono [OF st [OF False]] diff_le_mono2 g(2))
      show "length (buf @ ?got) + length (drop (length ?got) inb) < cap" using Cons.prems(2) by simp
    qed
    moreover have "(buf @ ?got) @ drop (length ?got) inb = buf @ inb" by (metis append_assoc append_take_drop_id append_eq_conv_conj)
    moreover have "\<not> length buf \<ge> cap" using Cons.prems(2) by simp
    ultimately show ?thesis using k(1) g(1) unfolding ssl_read_all.simps Let_def by (simp only: io_answer.case if_False)
  qed (use k Cons.prems in \<open>simp add: Let_def\<close>)
qed (simp add: steady_def)

text \<open>A smaller buffer for the answer refuses what does not fit.\<close>

lemma frame_cap:
  assumes "pw_ipc_read_frame ks inb PW_IPC_FRAME_MAX = Some (x, rest)"
  shows "\<exists>x' rest'. pw_ipc_read_frame ks inb cap = Some (x', rest') \<and>
    (case x of Inl _ \<Rightarrow> \<not> isl x' \<longrightarrow> False | Inr bs \<Rightarrow> if length bs \<le> cap then x' = Inr bs else isl x')"
proof (cases "read_all ks inb 4")
  case (Some t)
  obtain h inb' ks' where t: "t = (h, inb', ks')" by (cases t)
  show ?thesis
  proof (cases h)
    case (Some hdr)
    let ?n = "unat (be32 (hdr ! 0) (hdr ! 1) (hdr ! 2) (hdr ! 3))"
    show ?thesis
    proof (cases "?n = 0 \<or> ?n > PW_IPC_FRAME_MAX")
      case False
      then obtain b inb'' ks'' where b: "read_all ks' inb' ?n = Some (b, inb'', ks'')" "x = (case b of None \<Rightarrow> Inl PW_E_IO | Some bs \<Rightarrow> Inr bs)"
        using assms \<open>read_all ks inb 4 = Some t\<close> t Some by (auto simp: pw_ipc_read_frame_def Let_def)
      have len: "b = Some bs \<Longrightarrow> length bs = ?n" for bs using read_all_sound b(1) by blast
      show ?thesis
        using b False len \<open>read_all ks inb 4 = Some t\<close> t Some by (cases b; cases "?n \<le> cap") (auto simp: pw_ipc_read_frame_def Let_def)
    qed (use assms \<open>read_all ks inb 4 = Some t\<close> t Some in \<open>auto simp: pw_ipc_read_frame_def Let_def\<close>)
  qed (use assms Some t in \<open>auto simp: pw_ipc_read_frame_def\<close>)
qed (use assms in \<open>simp add: pw_ipc_read_frame_def\<close>)

lemma relay_cap:
  assumes "daemon_relay k sock body PW_IPC_FRAME_MAX = Some r"
  shows "daemon_relay k sock body cap = Some (case r of None \<Rightarrow> None | Some resp \<Rightarrow> if length resp \<le> cap then Some resp else None)"
proof (cases "fst (pw_ipc_connect (dl_socket k) (dl_connect k) (Some sock)) = PW_OK")
  case c: True
  then obtain st out ks where w: "pw_ipc_write_frame (dl_io k) (octets body) = Some (st, out, ks)"
    using assms by (auto simp: daemon_relay_def split: option.splits)
  show ?thesis
  proof (cases "st = PW_OK")
    case True
    then obtain x rest where f: "pw_ipc_read_frame ks (dl_peer k out) PW_IPC_FRAME_MAX = Some (x, rest)"
      using assms c w by (auto simp: daemon_relay_def split: option.splits)
    from frame_cap [OF f, of cap] obtain x' rest' where "pw_ipc_read_frame ks (dl_peer k out) cap = Some (x', rest')"
      and "case x of Inl _ \<Rightarrow> \<not> isl x' \<longrightarrow> False | Inr bs \<Rightarrow> if length bs \<le> cap then x' = Inr bs else isl x'" by blast
    then show ?thesis using assms c w True f
      by (cases x; cases x'; cases rest; cases rest') (auto simp: daemon_relay_def chars_def split: if_splits)
  qed (use assms c w in \<open>auto simp: daemon_relay_def\<close>)
qed (use assms in \<open>auto simp: daemon_relay_def\<close>)

section \<open>A call through a gateway\<close>

lemma split_host_short: "split_host h = Some (host, port) \<Longrightarrow> length host < 256"
  using length_takeWhile_le [of "\<lambda>c. c \<noteq> CHR '':''" h] length_takeWhile_le [of "\<lambda>c. c \<noteq> CHR '']''" "tl h"]
  by (auto simp: split_host_def Let_def split: if_splits)

lemma rpc_local: "rpc_call add_secret net k sec None sock req cap = daemon_relay k sock (secret_request add_secret sec req) cap"
  by (simp add: rpc_call_def daemon_relay_def Let_def)

lemma https_steady:
  assumes "split_host h = Some (host, port)" "length send \<le> PW_IPC_FRAME_MAX"
    and "gl_connect (net host port)" "gl_tls (net host port)" "steady (gl_writes (net host port)) (length (http_request host send))"
    and "gl_peer (net host port) (http_request host send) = reply" "steady (gl_reads (net host port)) (length reply)"
    and "length reply < PW_IPC_FRAME_MAX + 1024"
  shows "https_rpc_call net h send cap = Some (reply_body cap reply)"
proof -
  have "length (http_request host send) < PW_IPC_FRAME_MAX + 512"
    unfolding http_request_lines using request_head_length [OF split_host_short [OF assms(1)] assms(2)] assms(2) by simp
  moreover have "ssl_read_all (PW_IPC_FRAME_MAX + 4095) (gl_reads (net host port)) [] reply = Some ([] @ reply)"
    by (rule steady_read) (use assms(7,8) in auto)
  ultimately show ?thesis using assms steady_write [OF assms(5)] by (simp add: https_rpc_call_def Let_def)
qed

text \<open>The reply of a gateway, as the tool takes it.\<close>

lemma gated_reply:
  assumes "gated_relay su host send px = Some (Some reply, ev, px')" "send \<noteq> []"
  shows "length reply < PW_IPC_FRAME_MAX + 1024"
    and "Relayed (su_now su) send \<in> set ev \<longleftrightarrow>
      host_allowed px host \<and> (\<exists>ev px'. auth_probe_current (su_now su) (su_probe su) px = Some (True, ev, px'))"
    and "Some (reply_body cap reply) =
      (if Relayed (su_now su) send \<in> set ev then daemon_relay (su_relay su) (px_sock px) send cap else Some None)"
proof -
  have err: "length reply < PW_IPC_FRAME_MAX + 1024 \<and> reply_body cap reply = None"
    if "http_error code status = Some reply" "(code, status) \<in> {(403, ''host not allowed''), (403, ''daemon auth not confirmed''), (502, ''daemon unreachable'')}"
    for code status
  proof -
    have d: "dec_string 403 = ''403''" "dec_string 502 = ''502''" by code_simp+
    show ?thesis using that reply_read(1) [of code status "''{\"error\":\"'' @ status @ ''\"}''" reply cap] reply_read(2) [of code status "''{\"error\":\"'' @ status @ ''\"}''" reply]
      by (auto simp: http_error_def d PW_IPC_FRAME_MAX_def)
  qed
  have goal: "length reply < PW_IPC_FRAME_MAX + 1024 \<and>
    (Relayed (su_now su) send \<in> set ev \<longleftrightarrow>
      host_allowed px host \<and> (\<exists>ev px'. auth_probe_current (su_now su) (su_probe su) px = Some (True, ev, px'))) \<and>
    Some (reply_body cap reply) =
      (if Relayed (su_now su) send \<in> set ev then daemon_relay (su_relay su) (px_sock px) send cap else Some None)"
  proof (cases "host_allowed px host")
    case True
    then obtain ok ev1 px1 where a: "auth_probe_current (su_now su) (su_probe su) px = Some (ok, ev1, px1)"
      using assms by (auto simp: gated_relay_def split: option.splits)
    note fr = auth_frame [OF a]
    show ?thesis
    proof (cases ok)
      case ok: True
      with assms True a fr obtain x where x: "daemon_relay (su_relay su) (px_sock px) send PW_IPC_FRAME_MAX = Some x"
        and rep: "(case x of Some resp \<Rightarrow> http_reply 200 ''OK'' ''application/json'' resp | None \<Rightarrow> http_error 502 ''daemon unreachable'') = Some reply"
        and ev: "ev = ev1 @ [Relayed (su_now su) send]"
        by (auto simp: gated_relay_def)
      have "length reply < PW_IPC_FRAME_MAX + 1024 \<and> reply_body cap reply = (case x of None \<Rightarrow> None | Some resp \<Rightarrow> if length resp \<le> cap then Some resp else None)"
      proof (cases x)
        case (Some resp)
        have d: "dec_string 200 = ''200''" by code_simp
        show ?thesis using reply_read(1) [of 200 "''OK''" resp reply cap] reply_read(2) [of 200 "''OK''" resp reply] relay_length [of _ _ _ _ resp] x rep Some d by simp
      qed (use err [of 502] rep in simp)
      then show ?thesis using relay_cap [OF x] ev a ok True by simp
    next
      case False
      then show ?thesis using assms True a fr err [of 403 "''daemon auth not confirmed''"] by (simp add: gated_relay_def)
    qed
  qed (use assms err [of 403 "''host not allowed''"] in \<open>simp add: gated_relay_def\<close>)
  then show "length reply < PW_IPC_FRAME_MAX + 1024"
    and "Relayed (su_now su) send \<in> set ev \<longleftrightarrow>
      host_allowed px host \<and> (\<exists>ev px'. auth_probe_current (su_now su) (su_probe su) px = Some (True, ev, px'))"
    and "Some (reply_body cap reply) =
      (if Relayed (su_now su) send \<in> set ev then daemon_relay (su_relay su) (px_sock px) send cap else Some None)" by blast+
qed

text \<open>
  C13. A call through a gateway. Where the tool reaches a gateway over a connection that holds, and the gateway has
  read the request and replied, the call has the result that the same call, with the same secret and the same buffer,
  has on the gateway's machine over the gateway's socket, when the gateway relayed it, and fails otherwise. It relays
  the request exactly if it accepts the host in the address and has the daemon's authentication confirmed.
\<close>

theorem remote_call_exact:
  assumes "split_host h = Some (host, port)" "clean_host host"
    and "send = secret_request add_secret sec req" "send \<noteq> []" "length send \<le> PW_IPC_FRAME_MAX"
    and "gl_connect (net host port)" "gl_tls (net host port)" "steady (gl_writes (net host port)) (length (http_request host send))"
    and "delivering ks" "length (http_request host send) < length ks"
    and "serve assets version su (http_request host send) ks px = Some (Some reply, ev, px')"
    and "gl_peer (net host port) (http_request host send) = reply" "steady (gl_reads (net host port)) (length reply)"
  shows "rpc_call add_secret net local sec (Some h) sock req cap =
      (if Relayed (su_now su) send \<in> set ev then rpc_call add_secret net (su_relay su) sec None (px_sock px) req cap
       else Some None) \<and>
    (Relayed (su_now su) send \<in> set ev \<longleftrightarrow>
      host_allowed px host \<and> (\<exists>ev px'. auth_probe_current (su_now su) (su_probe su) px = Some (True, ev, px')))"
proof -
  have g: "gated_relay su host send px = Some (Some reply, ev, px')"
    using assms(11) serve_request [OF assms(2) split_host_short [OF assms(1)] assms(5,9,10)] by simp
  note r = gated_reply [OF g assms(4)]
  have "rpc_call add_secret net local sec (Some h) sock req cap = https_rpc_call net h send cap"
    by (simp add: rpc_call_def assms(3))
  also have "\<dots> = Some (reply_body cap reply)" by (rule https_steady) (use assms r(1) in auto)
  also have "\<dots> = (if Relayed (su_now su) send \<in> set ev then rpc_call add_secret net (su_relay su) sec None (px_sock px) req cap else Some None)"
    unfolding rpc_local assms(3) [symmetric] by (rule r(3))
  finally show ?thesis using r(2) by blast
qed

definition ex_reply :: string where
  "ex_reply = head_of (reply_lines 200 ''OK'' 2) @ ''ok''"

definition ex_gateway :: "string \<Rightarrow> string \<Rightarrow> gateway_link" where
  "ex_gateway host port = \<lparr>gl_connect = True, gl_tls = True, gl_writes = replicate 400 (Chunk 1), gl_reads = replicate 1100 (Chunk 7),
     gl_peer = \<lambda>_. ex_reply\<rparr>"

lemma ex_call_served:
  "serve [] [] ex_su (http_request ''localhost'' ''{}'') (replicate 400 (Chunk 9, 1)) ex_px = Some (Some ex_reply, [Relayed 30 ''{}''], ex_px)"
proof -
  have h: "host_allowed ex_px ''localhost''" by code_simp
  have a: "auth_probe_current 30 (ex_link ''unauthorized'') ex_px = Some (True, [], ex_px)"
    by (simp add: auth_probe_current_def ex_px_def PROXYD_PROBE_PERIOD_S_def)
  have "px_sock ex_px = ''/s''" by (simp add: ex_px_def)
  then have "gated_relay ex_su ''localhost'' ''{}'' ex_px = Some (Some ex_reply, [Relayed 30 ''{}''], ex_px)"
    using http_reply_lines [of 200 "''OK''" "''ok''"] h a
    by (simp add: gated_relay_def ex_su_def ex_post_relay ex_reply_def numeral_2_eq_2)
  moreover have "clean_host ''localhost''" by code_simp
  moreover have "length (http_request ''localhost'' ''{}'') < 400" by code_simp
  moreover have "delivering (replicate 400 (Chunk 9, 1))" by (simp add: delivering_def PROXYD_REQ_DEADLINE_S_def)
  ultimately show ?thesis using serve_request [of "''localhost''" "''{}''" "replicate 400 (Chunk 9, 1)"]
    by (simp add: PW_IPC_FRAME_MAX_def)
qed

theorem remote_call_exact_witness:
  "rpc_call (\<lambda>_ _. None) ex_gateway (ex_link []) [] (Some ''localhost:443'') ''/other'' ''{}'' 100 = Some (Some ''ok'')"
proof -
  have s: "split_host ''localhost:443'' = Some (''localhost'', ''443'')" "clean_host ''localhost''" by code_simp+
  have l: "length (http_request ''localhost'' ''{}'') < 400" "length ex_reply < 1100" by code_simp+
  have k: "delivering (replicate 400 (Chunk 9, 1))" by (simp add: delivering_def PROXYD_REQ_DEADLINE_S_def)
  have "daemon_relay (ex_link ''ok'') ''/s'' ''{}'' 100 = Some (Some ''ok'')" by code_simp
  moreover have "secret_request (\<lambda>_ _. None) [] ''{}'' = ''{}''" by (simp add: secret_request_def)
  ultimately show ?thesis
    using remote_call_exact [OF s, of "''{}''" "\<lambda>_ _. None" "[]" "''{}''" ex_gateway, OF _ _ _ _ _ _ k _ ex_call_served, of "ex_link []" "''/other''" 100] l
    by (simp add: ex_gateway_def steady_def list_all_iff PW_IPC_FRAME_MAX_def ex_su_def ex_px_def rpc_local)
qed

end
