(* ===== verification/PW_Daemon_Report.thy ===== *)
theory PW_Daemon_Report
  imports PW_Daemon_Rpc
begin

text \<open>
  The reports of the daemon, \<^verbatim>\<open>packetwyrmd/src/main.c\<close>: ports, flows, and the counters and histograms of flows and
  ports. A reply is built as a JSON value; counters are read through the operations of the backends, each of which may
  be missing.
\<close>

section \<open>Replies\<close>

datatype json = JBool bool | JInt int | JStr string | JArr "json list" | JObj "(string \<times> json) list"

definition jlong :: "u64 \<Rightarrow> json" where "jlong v = JInt (sint v)"

definition build_version :: "string \<Rightarrow> json" where
  "build_version version = JObj [(''version'', JStr version)]"

definition build_error :: "string \<Rightarrow> json" where
  "build_error msg = JObj [(''error'', JStr msg)]"

definition port_json :: "pw_card \<Rightarrow> pw_card_port \<Rightarrow> json" where
  "port_json c p = JObj [(''name'', JStr (cport_name p)), (''card_id'', JInt (uint (card_id c))),
     (''local_port'', JInt (uint (cport_local_port p))), (''global_port'', JInt (uint (cport_global_port p)))]"

definition build_ports :: "pw_config \<Rightarrow> json" where
  "build_ports cfg = JObj [(''ports'', JArr (concat (map (\<lambda>c. map (port_json c) (card_ports c)) (cfg_cards cfg))))]"

definition cross_card :: "pw_flow_meta \<Rightarrow> bool" where
  "cross_card m \<longleftrightarrow> meta_tx_card_id m \<noteq> meta_rx_card_id m"

definition flow_listing :: "pw_program \<Rightarrow> pw_flow \<times> pw_flow_meta \<Rightarrow> json" where
  "flow_listing prog = (\<lambda>(f, m). JObj
     [(''id'', JInt (uint (flow_id f))), (''name'', JStr (flow_name f)),
      (''tx_global_port'', JInt (uint (flow_tx_global_port f))), (''rx_global_port'', JInt (uint (flow_rx_global_port f))),
      (''tx_card_id'', JInt (uint (meta_tx_card_id m))), (''rx_card_id'', JInt (uint (meta_rx_card_id m))),
      (''background'', JBool (\<not> meta_rx_slot_valid m)), (''latency_valid'', JBool (meta_rx_slot_valid m)),
      (''latency_method'', JStr (if \<not> meta_rx_slot_valid m then ''none'' else if cross_card m then ''gpio-corrected'' else ''same-card'')),
      (''enabled'', JBool (flow_enabled prog (flow_id f)))])"

text \<open>The program has one entry per flow.\<close>

definition build_flows :: "pw_config \<Rightarrow> pw_program \<Rightarrow> json" where
  "build_flows cfg prog = JObj [(''flows'', JArr (map (flow_listing prog) (zip (cfg_flows cfg) (prog_flow_meta prog))))]"

section \<open>Counters\<close>

text \<open>The operations of a backend that read counters.\<close>

record 'w report_ops =
  ro_snapshot :: "('w \<Rightarrow> 'w \<times> pw_status) option"
  ro_port_stats_read :: "('w \<Rightarrow> u8 \<Rightarrow> 'w \<times> (pw_status + pw_port_stats)) option"
  ro_flow_stats_read :: "('w \<Rightarrow> u32 \<Rightarrow> 'w \<times> (pw_status + pw_flow_stats)) option"
  ro_flow_hist_read :: "('w \<Rightarrow> u32 \<Rightarrow> nat \<Rightarrow> 'w \<times> (pw_status + u64 list)) option"

definition snapshot_card :: "'w card_runtime list \<Rightarrow> (nat \<Rightarrow> 'w report_ops) \<Rightarrow> nat \<Rightarrow> 'w \<Rightarrow> 'w \<times> bool" where
  "snapshot_card cards ops ci w =
     (case ro_snapshot (ops ci) of
        Some snap \<Rightarrow> if card_open cards ci then map_prod id (\<lambda>s. s = PW_OK) (snap w) else (w, True)
      | None \<Rightarrow> (w, True))"

definition snapshot_all :: "'w card_runtime list \<Rightarrow> (nat \<Rightarrow> 'w report_ops) \<Rightarrow> nat \<Rightarrow> 'w \<Rightarrow> 'w \<times> bool list" where
  "snapshot_all cards ops n w =
     foldl (\<lambda>(w, oks) ci. map_prod id (\<lambda>ok. oks @ [ok]) (snapshot_card cards ops ci w)) (w, []) [0..<n]"

text \<open>The time stamp of the first open card that can be read; none if one of the two reads fails.\<close>

definition report_time :: "pw_config \<Rightarrow> 'w card_runtime list \<Rightarrow> 'w \<Rightarrow> 'w \<times> (string \<times> json) list" where
  "report_time cfg cards w =
     (case find (\<lambda>ci. card_open cards ci \<and> cr_read32 (cards ! ci) \<noteq> None) [0..<length (cfg_cards cfg)] of None \<Rightarrow> (w, [])
      | Some ci \<Rightarrow>
          let rd = the (cr_read32 (cards ! ci)) in
          (case rd w PWFPGA_REG_TIMESTAMP_LOW of
             (w, Inl _) \<Rightarrow> (w, [])
           | (w, Inr lo) \<Rightarrow>
               (case rd w PWFPGA_REG_TIMESTAMP_HIGH of
                  (w, Inl _) \<Rightarrow> (w, [])
                | (w, Inr hi) \<Rightarrow> (w, [(''fpga_ts_lo'', JInt (uint lo)), (''fpga_ts_hi'', JInt (uint hi))]))))"

definition port_label :: "pw_config \<Rightarrow> u16 \<Rightarrow> string" where
  "port_label cfg gp = take (PW_NAME_MAX * 2 + 1)
     (case find (\<lambda>(c, p). cport_global_port p = gp) (concat (map (\<lambda>c. map (Pair c) (card_ports c)) (cfg_cards cfg))) of
        Some (c, p) \<Rightarrow> card_name c @ ''.'' @ cport_name p
      | None \<Rightarrow> ''gp'' @ dec_string (unat gp))"

section \<open>Flow counters\<close>

text \<open>One side of a flow: whether its counters could be read, and the counters, which are zero otherwise.\<close>

definition read_side ::
  "'w card_runtime list \<Rightarrow> (nat \<Rightarrow> 'w report_ops) \<Rightarrow> bool list \<Rightarrow> nat option \<Rightarrow> u32 \<Rightarrow> 'w \<Rightarrow> 'w \<times> bool \<times> pw_flow_stats" where
  "read_side cards ops snap_ok o_ci lfid w =
     (case o_ci of None \<Rightarrow> (w, False, zero_flow_stats)
      | Some ci \<Rightarrow>
          (case ro_flow_stats_read (ops ci) of None \<Rightarrow> (w, False, zero_flow_stats)
           | Some rd \<Rightarrow>
               if \<not> card_open cards ci then (w, False, zero_flow_stats)
               else let ok = (if ci < PW_MAX_CARDS then snap_ok ! ci else True) in
                 (case rd w lfid of (w, Inr s) \<Rightarrow> (w, ok, s) | (w, Inl _) \<Rightarrow> (w, False, zero_flow_stats))))"

text \<open>What is read for one flow: both sides, and the offset of the two cards where the report has it.\<close>

record flow_reading =
  fr_meta :: pw_flow_meta
  fr_read_ok :: bool
  fr_rx :: pw_flow_stats
  fr_tx :: pw_flow_stats
  fr_offset :: "u64 option"

definition latency_ok :: "pw_flow_meta \<Rightarrow> bool \<Rightarrow> bool" where
  "latency_ok m read_ok \<longleftrightarrow> read_ok \<and> meta_rx_slot_valid m \<and> (meta_latency_valid m \<or> cross_card m)"

definition read_flow ::
  "pw_config \<Rightarrow> 'w card_runtime list \<Rightarrow> (nat \<Rightarrow> 'w report_ops) \<Rightarrow> bool list \<Rightarrow> pw_flow_meta \<Rightarrow> 'w \<Rightarrow> 'w \<times> flow_reading" where
  "read_flow cfg cards ops snap_ok m w =
     (let rx = card_idx_by_id cfg (meta_rx_card_id m); tx = card_idx_by_id cfg (meta_tx_card_id m);
          (w, rok, rs) = (if \<not> meta_rx_slot_valid m then (w, True, zero_flow_stats)
                          else read_side cards ops snap_ok rx (meta_rx_local_flow_id m) w);
          (w, tok, ts) = read_side cards ops snap_ok tx (meta_tx_local_flow_id m) w;
          read_ok = (rok \<and> tok);
          (w, off) = (if latency_ok m read_ok \<and> cross_card m
                      then case (tx, rx) of (Some t, Some r) \<Rightarrow> offset_of cards t r w | _ \<Rightarrow> (w, None)
                      else (w, None))
      in (w, \<lparr>fr_meta = m, fr_read_ok = read_ok, fr_rx = rs, fr_tx = ts, fr_offset = off\<rparr>))"

definition latency_json :: "flow_reading \<Rightarrow> (string \<times> json) list" where
  "latency_json r =
     (let rs = fr_rx r; n = fs_sample_count rs; have = (n > 0); avg = (\<lambda>s. if n \<noteq> 0 then jlong (s div n) else JInt 0) in
      [(''min_latency'', JInt (if have then uint (fs_min_latency rs) else 0)), (''max_latency'', JInt (uint (fs_max_latency rs))),
       (''avg_latency'', avg (fs_sum_latency rs)), (''sample_count'', jlong n),
       (''jitter_min'', JInt (if have then uint (fs_jitter_min rs) else 0)), (''jitter_max'', JInt (uint (fs_jitter_max rs))),
       (''jitter_avg'', avg (fs_jitter_sum rs)),
       (''latency_method'', JStr (if cross_card (fr_meta r) then ''gpio-corrected'' else ''same-card''))] @
      (case fr_offset r of None \<Rightarrow> [] | Some off \<Rightarrow> [(''offset_ticks'', jlong off)]))"

definition flow_fields :: "pw_config \<Rightarrow> pw_program \<Rightarrow> flow_reading \<Rightarrow> (string \<times> json) list" where
  "flow_fields cfg prog r =
     (let m = fr_meta r; rs = fr_rx r; ts = fr_tx r; cf = pw_config_flow_by_id (Some cfg) (meta_global_flow_id m);
          txgp = (case cf of None \<Rightarrow> 0 | Some f \<Rightarrow> flow_tx_global_port f);
          rxgp = (case cf of None \<Rightarrow> 0 | Some f \<Rightarrow> flow_rx_global_port f) in
      [(''id'', JInt (uint (meta_global_flow_id m))),
       (''tx_card_id'', JInt (uint (meta_tx_card_id m))), (''rx_card_id'', JInt (uint (meta_rx_card_id m))),
       (''name'', JStr (case cf of None \<Rightarrow> [] | Some f \<Rightarrow> flow_name f)),
       (''tx_global_port'', JInt (uint txgp)), (''rx_global_port'', JInt (uint rxgp)),
       (''tx_port'', JStr (port_label cfg txgp)), (''rx_port'', JStr (port_label cfg rxgp)),
       (''enabled'', JBool (flow_enabled prog (meta_global_flow_id m))), (''read_ok'', JBool (fr_read_ok r)),
       (''tx_frames'', jlong (fs_tx_frames ts)), (''tx_bytes'', jlong (fs_tx_bytes ts)),
       (''rx_frames'', jlong (fs_rx_frames rs)), (''rx_bytes'', jlong (fs_rx_bytes rs)),
       (''lost'', jlong (fs_lost_packets_estimated rs)), (''duplicate'', jlong (fs_duplicate_count rs)),
       (''out_of_order'', jlong (fs_out_of_order_count rs)), (''seq_gap'', jlong (fs_sequence_gap_count rs)),
       (''last_seq'', jlong (fs_last_sequence rs)), (''latency_valid'', JBool (latency_ok m (fr_read_ok r)))])"

definition flow_json :: "pw_config \<Rightarrow> pw_program \<Rightarrow> flow_reading \<Rightarrow> json" where
  "flow_json cfg prog r =
     JObj (flow_fields cfg prog r @ (if latency_ok (fr_meta r) (fr_read_ok r) then latency_json r else []))"

definition reported :: "int \<Rightarrow> pw_flow_meta \<Rightarrow> bool" where
  "reported filter_flow_id m \<longleftrightarrow> \<not> (filter_flow_id \<ge> 0 \<and> sint (meta_global_flow_id m) \<noteq> filter_flow_id)"

fun read_flow_list ::
  "pw_config \<Rightarrow> 'w card_runtime list \<Rightarrow> (nat \<Rightarrow> 'w report_ops) \<Rightarrow> bool list \<Rightarrow> pw_flow_meta list \<Rightarrow> 'w \<Rightarrow> 'w \<times> flow_reading list" where
  "read_flow_list cfg cards ops snap_ok [] w = (w, [])"
| "read_flow_list cfg cards ops snap_ok (m # ms) w =
     (let (w, r) = read_flow cfg cards ops snap_ok m w; (w, rs) = read_flow_list cfg cards ops snap_ok ms w in (w, r # rs))"

text \<open>The time stamp and the readings that the report of \<open>flow.stats\<close> is made of, then the report.\<close>

definition flow_readings ::
  "pw_config \<Rightarrow> pw_program \<Rightarrow> 'w card_runtime list \<Rightarrow> (nat \<Rightarrow> 'w report_ops) \<Rightarrow> int \<Rightarrow> 'w \<Rightarrow> 'w \<times> (string \<times> json) list \<times> flow_reading list" where
  "flow_readings cfg prog cards ops filter_flow_id w =
     (let (w, snap_ok) = snapshot_all cards ops (min (length (cfg_cards cfg)) PW_MAX_CARDS) w;
          (w, ts) = report_time cfg cards w;
          (w, rs) = read_flow_list cfg cards ops snap_ok (filter (reported filter_flow_id) (prog_flow_meta prog)) w
      in (w, ts, rs))"

definition build_flow_stats ::
  "pw_config \<Rightarrow> pw_program \<Rightarrow> 'w card_runtime list \<Rightarrow> (nat \<Rightarrow> 'w report_ops) \<Rightarrow> int \<Rightarrow> 'w \<Rightarrow> 'w \<times> json" where
  "build_flow_stats cfg prog cards ops filter_flow_id w =
     (case flow_readings cfg prog cards ops filter_flow_id w of
        (w, ts, rs) \<Rightarrow> (w, JObj (ts @ [(''flows'', JArr (map (flow_json cfg prog) rs))])))"

section \<open>Histograms and ports\<close>

definition build_flow_hist ::
  "pw_config \<Rightarrow> pw_program \<Rightarrow> 'w card_runtime list \<Rightarrow> (nat \<Rightarrow> 'w report_ops) \<Rightarrow> int \<Rightarrow> 'w \<Rightarrow> 'w \<times> json" where
  "build_flow_hist cfg prog cards ops fid w =
     (case find (\<lambda>m. sint (meta_global_flow_id m) = fid) (prog_flow_meta prog) of None \<Rightarrow> (w, build_error ''unknown flow'')
      | Some m \<Rightarrow>
          if \<not> meta_rx_slot_valid m then (w, build_error ''background (TX-only) flow: no RX latency histogram'')
          else (case card_idx_by_id cfg (meta_rx_card_id m) of None \<Rightarrow> (w, build_error ''backend not ready'')
                | Some ci \<Rightarrow>
                    (case ro_flow_hist_read (ops ci) of None \<Rightarrow> (w, build_error ''backend not ready'')
                     | Some rd \<Rightarrow>
                         if \<not> card_open cards ci then (w, build_error ''backend not ready'')
                         else let (w, ss) = (case ro_snapshot (ops ci) of None \<Rightarrow> (w, PW_OK) | Some snap \<Rightarrow> snap w) in
                           if ss \<noteq> PW_OK then (w, build_error (pw_strerror ss))
                           else (case rd w (meta_rx_local_flow_id m) 64 of
                                   (w, Inl s) \<Rightarrow> (w, build_error (pw_strerror s))
                                 | (w, Inr bs) \<Rightarrow> (w, JObj [(''id'', JInt fid), (''n_buckets'', JInt (int (length bs))),
                                                    (''buckets'', JArr (map jlong bs))])))))"

definition ctx_bit :: "u32 \<Rightarrow> nat \<Rightarrow> json" where
  "ctx_bit c i = JBool (drop_bit i c AND 1 \<noteq> 0)"

definition unmatched_json :: "pw_port_stats \<Rightarrow> json" where
  "unmatched_json ps =
     (let c = ps_last_unmatched_ctx ps in
      JObj [(''ctx_raw'', JInt (uint c)), (''is_test'', ctx_bit c 0), (''is_ipv4'', ctx_bit c 1), (''is_ipv6'', ctx_bit c 2),
        (''hit'', ctx_bit c 3), (''action'', JInt (uint (drop_bit 4 c AND 7))), (''is_arp'', ctx_bit c 7),
        (''ethertype'', JInt (uint (drop_bit 8 c AND 0xFFFF))), (''l3_proto'', JInt (uint (drop_bit 24 c AND 0xFF))),
        (''flow_id'', JInt (uint (ps_last_unmatched_flowid ps)))])"

definition port_stats_json :: "pw_card \<Rightarrow> pw_card_port \<Rightarrow> pw_port_stats \<Rightarrow> json" where
  "port_stats_json c p ps =
     JObj [(''card_id'', JInt (uint (card_id c))), (''local_port'', JInt (uint (cport_local_port p))),
       (''global_port'', JInt (uint (cport_global_port p))),
       (''rx_frames'', jlong (ps_rx_frames ps)), (''rx_bytes'', jlong (ps_rx_bytes ps)),
       (''tx_frames'', jlong (ps_tx_frames ps)), (''tx_bytes'', jlong (ps_tx_bytes ps)),
       (''rx_fcs_error'', jlong (ps_rx_fcs_error ps)), (''drops'', jlong (ps_rx_bad_frame ps)),
       (''rx_unmatched'', JInt (uint (ps_rx_unmatched ps))), (''last_unmatched'', unmatched_json ps),
       (''link_up_count'', JInt (uint (ps_link_up_count ps))), (''block_lock_loss'', JInt (uint (ps_block_lock_loss ps)))]"

definition read_ports :: "'w card_runtime list \<Rightarrow> (nat \<Rightarrow> 'w report_ops) \<Rightarrow> nat \<times> pw_card \<Rightarrow> 'w \<Rightarrow> 'w \<times> json list" where
  "read_ports cards ops = (\<lambda>(ci, c) w.
     case ro_port_stats_read (ops ci) of None \<Rightarrow> (w, [])
     | Some rd \<Rightarrow>
         if \<not> card_open cards ci then (w, [])
         else foldl (\<lambda>(w, js) p. case rd w (cport_local_port p) of
                       (w, Inl _) \<Rightarrow> (w, js) | (w, Inr ps) \<Rightarrow> (w, js @ [port_stats_json c p ps])) (w, []) (card_ports c))"

definition build_port_stats :: "pw_config \<Rightarrow> 'w card_runtime list \<Rightarrow> (nat \<Rightarrow> 'w report_ops) \<Rightarrow> 'w \<Rightarrow> 'w \<times> json" where
  "build_port_stats cfg cards ops w =
     (let (w, _) = snapshot_all cards ops (length (cfg_cards cfg)) w;
          (w, ts) = report_time cfg cards w;
          (w, js) = foldl (\<lambda>(w, js) x. map_prod id (\<lambda>more. js @ more) (read_ports cards ops x w)) (w, [])
                      (enumerate 0 (cfg_cards cfg))
      in (w, JObj (ts @ [(''ports'', JArr js)])))"

section \<open>What the reports say of background flows\<close>

lemma read_flow_meta [simp]: "fr_meta (snd (read_flow cfg cards ops ok m w)) = m"
  by (simp add: read_flow_def Let_def split_beta)

lemma background_reading: "\<not> meta_rx_slot_valid m \<Longrightarrow> fr_rx (snd (read_flow cfg cards ops ok m w)) = zero_flow_stats"
  by (simp add: read_flow_def Let_def split_beta)

lemma read_flows_all:
  "read_flow_list cfg cards ops ok ms w = (w', rs) \<Longrightarrow>
     map fr_meta rs = ms \<and> (\<forall>r \<in> set rs. \<not> meta_rx_slot_valid (fr_meta r) \<longrightarrow> fr_rx r = zero_flow_stats)"
proof (induction ms arbitrary: w w' rs)
  case (Cons m ms)
  obtain w1 r where r: "read_flow cfg cards ops ok m w = (w1, r)" by (cases "read_flow cfg cards ops ok m w")
  obtain w2 rest where t: "read_flow_list cfg cards ops ok ms w1 = (w2, rest)" by (cases "read_flow_list cfg cards ops ok ms w1")
  have "fr_meta r = m" using read_flow_meta [of cfg cards ops ok m w] r by simp
  moreover have "\<not> meta_rx_slot_valid m \<Longrightarrow> fr_rx r = zero_flow_stats" using background_reading [of m cfg cards ops ok w] r by simp
  ultimately show ?case using Cons.IH [OF t] Cons.prems r t by auto
qed simp

text \<open>The report of all flows has one reading per flow of the program, and those of background flows are zero.\<close>

lemma flow_readings_all:
  assumes "flow_readings cfg prog cards ops (- 1) w = (w', ts, rs)"
  shows "map fr_meta rs = prog_flow_meta prog"
    and "r \<in> set rs \<Longrightarrow> \<not> meta_rx_slot_valid (fr_meta r) \<Longrightarrow> fr_rx r = zero_flow_stats"
proof -
  obtain w1 ok where s: "snapshot_all cards ops (min (length (cfg_cards cfg)) PW_MAX_CARDS) w = (w1, ok)" by fastforce
  obtain w2 t where t: "report_time cfg cards w1 = (w2, t)" by fastforce
  have "filter (reported (- 1)) (prog_flow_meta prog) = prog_flow_meta prog" by (simp add: reported_def)
  then have "read_flow_list cfg cards ops ok (prog_flow_meta prog) w2 = (w', rs)"
    using assms by (simp add: flow_readings_def s t split: prod.splits)
  from read_flows_all [OF this] show "map fr_meta rs = prog_flow_meta prog"
    and "r \<in> set rs \<Longrightarrow> \<not> meta_rx_slot_valid (fr_meta r) \<Longrightarrow> fr_rx r = zero_flow_stats" by simp_all
qed

end
