(* ===== verification/PW_Cli_Test.thy ===== *)
theory PW_Cli_Test
  imports PW_Cli PW_Daemon_Report
begin

text \<open>
  \<open>pktwyrm test run\<close>: arm, start, wait, read the counters of all flows, stop, and the verdict; and what the verdict
  means for the configuration that the daemon runs.
\<close>

section \<open>The command\<close>

text \<open>json-c with arrays.\<close>

record 'j json_view = "'j json_c" +
  jc_array :: "'j \<Rightarrow> 'j list"

datatype verdict = Tx_only | Fail_no_rx | Fail | Pass

definition flow_verdict :: "'j json_view \<Rightarrow> 'j \<Rightarrow> verdict" where
  "flow_verdict jv f =
     (let get = (\<lambda>k. case jc_field jv f k of None \<Rightarrow> 0 | Some v \<Rightarrow> jc_int64 jv v) in
      if jc_field jv f ''rx_frames'' = None \<or> jc_field jv f ''rx_card_id'' = None then Tx_only
      else if get ''rx_frames'' = 0 then Fail_no_rx
      else if get ''lost'' \<noteq> 0 \<or> get ''duplicate'' \<noteq> 0 \<or> get ''out_of_order'' \<noteq> 0 then Fail
      else Pass)"

definition test_verdict :: "'j json_view \<Rightarrow> string \<Rightarrow> int" where
  "test_verdict jv resp =
     (case jc_parse jv (octets resp) of None \<Rightarrow> 2
      | Some root \<Rightarrow>
          (case jc_field jv root ''flows'' of None \<Rightarrow> 2
           | Some arr \<Rightarrow>
               if jc_type jv arr \<noteq> J_array then 2
               else let failed = filter (\<lambda>v. v = Fail_no_rx \<or> v = Fail) (map (flow_verdict jv) (jc_array jv arr))
                    in if failed \<noteq> [] then 1 else 0))"

text \<open>The options; the duration is read by \<open>parse_duration_ms\<close>, whose floating-point arithmetic is a parameter.\<close>

fun test_options :: "(string \<Rightarrow> int) \<Rightarrow> string list \<Rightarrow> string \<times> int \<Rightarrow> (string \<times> int) option" where
  "test_options dur (a # b # as) (sock, d) =
     (if a = ''--socket'' then test_options dur as (b, d)
      else if a = ''--duration'' then (if dur b < 0 then None else test_options dur as (sock, dur b))
      else test_options dur (b # as) (sock, d))"
| "test_options dur _ (sock, d) = Some (sock, d)"

text \<open>The calls of the daemon change a state \<open>'w\<close>, as does the time that passes; the result is the exit code.\<close>

definition cmd_test_run ::
  "'j json_view \<Rightarrow> (string \<Rightarrow> int) \<Rightarrow> (string \<Rightarrow> string \<Rightarrow> nat \<Rightarrow> 'w \<Rightarrow> 'w \<times> string option) \<Rightarrow> (int \<Rightarrow> 'w \<Rightarrow> 'w) \<Rightarrow> string list \<Rightarrow>
     'w \<Rightarrow> 'w \<times> int" where
  "cmd_test_run jv dur rpc wait argv w =
     (case test_options dur argv (PW_IPC_DEFAULT_PATH, 10000) of None \<Rightarrow> (w, 2)
      | Some (sock, dur_ms) \<Rightarrow>
          (case rpc sock ''{\"rpc\":\"test.arm\"}'' PW_IPC_FRAME_MAX w of (w, None) \<Rightarrow> (w, 2)
           | (w, Some _) \<Rightarrow>
               (case rpc sock ''{\"rpc\":\"test.start\"}'' PW_IPC_FRAME_MAX w of (w, None) \<Rightarrow> (w, 2)
                | (w, Some _) \<Rightarrow>
                    let (w, r) = rpc sock ''{\"rpc\":\"flow.stats\"}'' PW_IPC_FRAME_MAX (wait dur_ms w);
                        (w, _) = rpc sock ''{\"rpc\":\"test.stop\"}'' 16 w
                    in (w, case r of None \<Rightarrow> 2 | Some resp \<Rightarrow> test_verdict jv resp))))"

section \<open>The verdict\<close>

text \<open>
  What json-c documents of a value that was written and read back: the fields of an object with distinct names, the
  elements of an array, and integers of 64 bits.
\<close>

definition json_reads :: "'j json_view \<Rightarrow> (json \<Rightarrow> 'j) \<Rightarrow> bool" where
  "json_reads jv rep \<longleftrightarrow>
     (\<forall>n. - (2 ^ 63) \<le> n \<and> n < 2 ^ 63 \<longrightarrow> jc_int64 jv (rep (JInt n)) = n) \<and>
     (\<forall>fs k. distinct (map fst fs) \<longrightarrow> jc_field jv (rep (JObj fs)) k = map_option rep (map_of fs k)) \<and>
     (\<forall>js. jc_type jv (rep (JArr js)) = J_array \<and> jc_array jv (rep (JArr js)) = map rep js)"

text \<open>The receiver of a flow saw frames, and all of them once and in order.\<close>

definition received_all :: "flow_reading \<Rightarrow> bool" where
  "received_all r \<longleftrightarrow> fs_rx_frames (fr_rx r) \<noteq> 0 \<and> fs_lost_packets_estimated (fr_rx r) = 0 \<and>
     fs_duplicate_count (fr_rx r) = 0 \<and> fs_out_of_order_count (fr_rx r) = 0"

lemma reads_long: "json_reads jv rep \<Longrightarrow> jc_int64 jv (rep (jlong v)) = sint v"
  using sint_range_size [of v] by (simp add: json_reads_def jlong_def word_size)

lemma sint_zero: "sint (v :: u64) = 0 \<longleftrightarrow> v = 0"
  by (simp add: signed_eq_0_iff)

lemma flow_names:
  "map fst (flow_fields cfg prog r) = [''id'', ''tx_card_id'', ''rx_card_id'', ''name'', ''tx_global_port'', ''rx_global_port'',
     ''tx_port'', ''rx_port'', ''enabled'', ''read_ok'', ''tx_frames'', ''tx_bytes'', ''rx_frames'', ''rx_bytes'', ''lost'', ''duplicate'',
     ''out_of_order'', ''seq_gap'', ''last_seq'', ''latency_valid'']"
  by (simp add: flow_fields_def Let_def)

lemma latency_names:
  "map fst (latency_json r) = [''min_latency'', ''max_latency'', ''avg_latency'', ''sample_count'', ''jitter_min'', ''jitter_max'',
     ''jitter_avg'', ''latency_method''] @ (if fr_offset r = None then [] else [''offset_ticks''])"
  by (simp add: latency_json_def Let_def split: option.split)

lemma flow_json_fields:
  "\<exists>fs. flow_json cfg prog r = JObj fs \<and> distinct (map fst fs) \<and> map_of fs ''rx_frames'' = Some (jlong (fs_rx_frames (fr_rx r))) \<and>
     (\<exists>c. map_of fs ''rx_card_id'' = Some c) \<and> map_of fs ''lost'' = Some (jlong (fs_lost_packets_estimated (fr_rx r))) \<and>
     map_of fs ''duplicate'' = Some (jlong (fs_duplicate_count (fr_rx r))) \<and>
     map_of fs ''out_of_order'' = Some (jlong (fs_out_of_order_count (fr_rx r)))"
proof -
  let ?l = "if latency_ok (fr_meta r) (fr_read_ok r) then latency_json r else []"
  have d: "distinct (map fst (flow_fields cfg prog r @ ?l))"
    unfolding map_append flow_names by (simp add: latency_names del: set_map)
  show ?thesis unfolding flow_json_def
    by (intro exI [of _ "flow_fields cfg prog r @ ?l"] conjI d refl) (simp_all add: flow_fields_def Let_def)
qed

lemma flow_verdict_reading:
  assumes "json_reads jv rep"
  shows "flow_verdict jv (rep (flow_json cfg prog r)) \<in> {Fail_no_rx, Fail} \<longleftrightarrow> \<not> received_all r"
    and "flow_verdict jv (rep (flow_json cfg prog r)) \<noteq> Tx_only"
proof -
  from flow_json_fields [of cfg prog r] obtain fs where fs: "flow_json cfg prog r = JObj fs" "distinct (map fst fs)"
    "map_of fs ''rx_frames'' = Some (jlong (fs_rx_frames (fr_rx r)))" "\<exists>c. map_of fs ''rx_card_id'' = Some c"
    "map_of fs ''lost'' = Some (jlong (fs_lost_packets_estimated (fr_rx r)))"
    "map_of fs ''duplicate'' = Some (jlong (fs_duplicate_count (fr_rx r)))"
    "map_of fs ''out_of_order'' = Some (jlong (fs_out_of_order_count (fr_rx r)))" by blast
  have f: "jc_field jv (rep (JObj fs)) k = map_option rep (map_of fs k)" for k using assms fs(2) by (simp add: json_reads_def)
  show "flow_verdict jv (rep (flow_json cfg prog r)) \<in> {Fail_no_rx, Fail} \<longleftrightarrow> \<not> received_all r"
    and "flow_verdict jv (rep (flow_json cfg prog r)) \<noteq> Tx_only"
    using fs(3-7) by (auto simp: flow_verdict_def fs(1) f reads_long [OF assms] sint_zero received_all_def Let_def)
qed

lemma report_time_names: "map fst (snd (report_time cfg cards w)) \<in> {[], [''fpga_ts_lo'', ''fpga_ts_hi'']}"
  by (simp add: report_time_def Let_def split: option.split prod.split sum.split)

lemma flow_readings_time: "flow_readings cfg prog cards ops i w = (w', ts, rs) \<Longrightarrow> map fst ts \<in> {[], [''fpga_ts_lo'', ''fpga_ts_hi'']}"
proof -
  assume f: "flow_readings cfg prog cards ops i w = (w', ts, rs)"
  obtain w1 ok where s: "snapshot_all cards ops (min (length (cfg_cards cfg)) PW_MAX_CARDS) w = (w1, ok)" by fastforce
  obtain w2 t where t: "report_time cfg cards w1 = (w2, t)" by fastforce
  have "ts = t" using f by (simp add: flow_readings_def s t split: prod.splits)
  then show ?thesis using report_time_names [of cfg cards w1] t by simp
qed

lemma test_verdict_readings:
  assumes "json_reads jv rep" and rs: "flow_readings cfg prog cards ops i w = (w', ts, rs)"
    and "jc_parse jv (octets resp) = Some (rep (snd (build_flow_stats cfg prog cards ops i w)))"
  shows "test_verdict jv resp = (if list_all received_all rs then 0 else 1)"
proof -
  let ?js = "map (flow_json cfg prog) rs" and ?fs = "ts @ [(''flows'', JArr (map (flow_json cfg prog) rs))]"
  have "distinct (map fst ?fs)" "map_of ?fs ''flows'' = Some (JArr ?js)"
    using flow_readings_time [OF rs] by (auto simp: map_of_eq_None_iff map_add_def split: option.split dest!: map_of_SomeD)
  then have "jc_field jv (rep (JObj ?fs)) ''flows'' = Some (rep (JArr ?js))" using assms(1) by (simp add: json_reads_def)
  moreover have "jc_type jv (rep (JArr ?js)) = J_array" "jc_array jv (rep (JArr ?js)) = map rep ?js"
    using assms(1) by (simp_all add: json_reads_def)
  moreover have "filter (\<lambda>v. v = Fail_no_rx \<or> v = Fail) (map (flow_verdict jv) (map rep ?js)) = [] \<longleftrightarrow> list_all received_all rs"
    using flow_verdict_reading(1) [OF assms(1), of cfg prog] by (auto simp: filter_empty_conv list_all_iff)
  ultimately show ?thesis using assms(3) rs by (simp add: test_verdict_def build_flow_stats_def)
qed

lemma background_fails:
  assumes "pw_flow_compile (Some cfg) = Inr p" "prog_flow_meta prog = prog_flow_meta p"
    and "flow_readings cfg prog cards ops (- 1) w = (w', ts, rs)" "list_ex flow_background (cfg_flows cfg)"
  shows "\<not> list_all received_all rs"
proof -
  obtain j where j: "j < length (cfg_flows cfg)" "flow_background (cfg_flows cfg ! j)"
    using assms(4) by (auto simp: list_ex_length)
  have "\<exists>tx rx a b. prog_flow_meta p ! j = flow_meta_of (cfg_flows cfg ! j) tx rx a b"
    using pw_flow_compile_ok(5) [OF assms(1) j(1)] unfolding flow_placed_def by blast
  then have bg: "\<not> meta_rx_slot_valid (prog_flow_meta p ! j)" using j(2) by (auto simp: flow_meta_of_def)
  have m: "map fr_meta rs = prog_flow_meta p" using flow_readings_all(1) [OF assms(3)] assms(2) by simp
  then have len: "j < length rs" using pw_flow_compile_ok(3) [OF assms(1)] j(1) by (metis length_map)
  then have "fr_meta (rs ! j) = prog_flow_meta p ! j" using m by (metis nth_map)
  with flow_readings_all(2) [OF assms(3)] bg len have "fr_rx (rs ! j) = zero_flow_stats" by simp
  then have "\<not> received_all (rs ! j)" by (simp add: received_all_def zero_flow_stats_def)
  then show ?thesis using len by (auto simp: list_all_length)
qed

text \<open>
  C14. The verdict of \<open>pktwyrm test run\<close>. Where the calls go through, and the reply to \<open>flow.stats\<close> is the daemon's
  report on a compiled configuration, the tool stops the generators whatever was reported, and exits with 0 exactly
  if for every flow of the configuration the receiver's counters show frames, none of them lost, repeated or out of
  order, and with 1 otherwise. The daemon also reports receive counters, all zero, for background flows, which have no
  receiver: a configuration with a background flow never passes.
\<close>

theorem test_run_verdict:
  assumes "json_reads jv rep" and "pw_flow_compile (Some cfg) = Inr p" "prog_flow_meta prog = prog_flow_meta p"
    and "test_options dur argv (PW_IPC_DEFAULT_PATH, 10000) = Some (sock, d)"
    and "rpc sock ''{\"rpc\":\"test.arm\"}'' PW_IPC_FRAME_MAX w0 = (w1, Some a)"
    and "rpc sock ''{\"rpc\":\"test.start\"}'' PW_IPC_FRAME_MAX w1 = (w2, Some b)"
    and "rpc sock ''{\"rpc\":\"flow.stats\"}'' PW_IPC_FRAME_MAX (wait d w2) = (w3, Some resp)"
    and "flow_readings cfg prog cards ops (- 1) w = (w', ts, rs)"
    and "jc_parse jv (octets resp) = Some (rep (snd (build_flow_stats cfg prog cards ops (- 1) w)))"
  shows "cmd_test_run jv dur rpc wait argv w0 =
      (fst (rpc sock ''{\"rpc\":\"test.stop\"}'' 16 w3), if list_all received_all rs then 0 else 1) \<and>
    map fr_meta rs = prog_flow_meta p \<and> length rs = length (cfg_flows cfg) \<and>
    (list_ex flow_background (cfg_flows cfg) \<longrightarrow> snd (cmd_test_run jv dur rpc wait argv w0) = 1)"
proof -
  have r: "cmd_test_run jv dur rpc wait argv w0 =
      (fst (rpc sock ''{\"rpc\":\"test.stop\"}'' 16 w3), if list_all received_all rs then 0 else 1)"
    using assms(4-7) test_verdict_readings [OF assms(1,8,9)] by (simp add: cmd_test_run_def split_beta)
  have m: "map fr_meta rs = prog_flow_meta p" using flow_readings_all(1) [OF assms(8)] assms(3) by simp
  moreover have "length rs = length (cfg_flows cfg)" using m pw_flow_compile_ok(3) [OF assms(2)] by (metis length_map)
  moreover have "list_ex flow_background (cfg_flows cfg) \<Longrightarrow> \<not> list_all received_all rs"
    by (rule background_fails [OF assms(2,3,8)])
  ultimately show ?thesis by (simp add: r)
qed

text \<open>A run of the example, on cards whose counters show five frames for every slot.\<close>

definition ex_counting :: "nat \<Rightarrow> unit report_ops" where
  "ex_counting _ = \<lparr>ro_snapshot = None, ro_port_stats_read = None,
     ro_flow_stats_read = Some (\<lambda>w _. (w, Inr (zero_flow_stats\<lparr>fs_rx_frames := 5, fs_tx_frames := 5\<rparr>))), ro_flow_hist_read = None\<rparr>"

definition ex_runtime :: "unit card_runtime" where
  "ex_runtime = \<lparr>cr_ops = \<lparr>op_write32 = None, op_card_info = None, op_flow_write = None, op_flow_commit = None\<rparr>,
     cr_read32 = None, cr_which = [], cr_open = True\<rparr>"

definition ex_view :: "json \<Rightarrow> json json_view" where
  "ex_view v = \<lparr>jc_parse = \<lambda>_. Some v, jc_type = \<lambda>j. case j of JArr _ \<Rightarrow> J_array | _ \<Rightarrow> J_object,
     jc_field = \<lambda>j k. case j of JObj fs \<Rightarrow> map_of fs k | _ \<Rightarrow> None, jc_string = \<lambda>_. None, jc_string_len = \<lambda>_. 0, jc_int = \<lambda>_. 0,
     jc_int64 = \<lambda>j. case j of JInt n \<Rightarrow> n | _ \<Rightarrow> 0, jc_array = \<lambda>j. case j of JArr js \<Rightarrow> js | _ \<Rightarrow> []\<rparr>"

theorem test_run_verdict_witness:
  "\<exists>p. pw_flow_compile (Some ex_config) = Inr p \<and>
     snd (cmd_test_run (ex_view (snd (build_flow_stats ex_config p [ex_runtime, ex_runtime] ex_counting (- 1) ()))) (\<lambda>_. 5)
       (\<lambda>_ _ _ w. (w, Some ''x'')) (\<lambda>_ w. w) [''--duration'', ''5ms''] ()) = 1"
proof -
  obtain p where p: "pw_flow_compile (Some ex_config) = Inr p" using ex_compiles ..
  let ?v = "snd (build_flow_stats ex_config p [ex_runtime, ex_runtime] ex_counting (- 1) ())"
  have jr: "json_reads (ex_view ?v) id" by (simp add: json_reads_def ex_view_def option.map_id id_def [symmetric])
  have o1: "test_options (\<lambda>_. 5) [''--duration'', ''5ms''] (PW_IPC_DEFAULT_PATH, 10000) = Some (PW_IPC_DEFAULT_PATH, 5)" by simp
  obtain w' ts rs where r: "flow_readings ex_config p [ex_runtime, ex_runtime] ex_counting (- 1) () = (w', ts, rs)" by (metis prod_cases3)
  have "list_ex flow_background (cfg_flows ex_config)" by simp
  moreover have "jc_parse (ex_view ?v) (octets ''x'') = Some (id ?v)" by (simp add: ex_view_def)
  note test_run_verdict [where rpc = "\<lambda>_ _ _ w. (w, Some ''x'')" and wait = "\<lambda>_ w. w" and ?w0.0 = "()",
      OF jr p refl o1 refl refl refl r this]
  ultimately show ?thesis using p by blast
qed

end
