(* ===== verification/PW_Spi_Flash.thy ===== *)
theory PW_Spi_Flash
  imports PW_Csr
begin

text \<open>
  In-system programming of the configuration flash, \<^verbatim>\<open>spi_flash.c\<close>: transactions on the SPI engine of
  the card, the flash commands, and the range operations built from them. The code is written over the
  two register operations of a backend. What it drives is modelled as well: the register side of the engine
  (\<^verbatim>\<open>pw_spi_flash.sv\<close>) and a NOR flash with the standard commands behind it.
\<close>

section \<open>Register access that may fail\<close>

text \<open>
  A step over a card of type \<open>'c\<close> returns the new card and a status or a value; a status other than
  \<open>PW_OK\<close> is an early return.
\<close>

type_synonym 'c wr32 = "'c \<Rightarrow> u32 \<Rightarrow> u32 \<Rightarrow> 'c \<times> pw_status"
type_synonym 'c rd32 = "'c \<Rightarrow> u32 \<Rightarrow> 'c \<times> pw_status \<times> u32"
type_synonym ('c, 'a) io = "'c \<Rightarrow> 'c \<times> (pw_status + 'a)"

definition io_ret :: "'a \<Rightarrow> ('c, 'a) io" where
  "io_ret a c = (c, Inr a)"

definition io_fail :: "pw_status \<Rightarrow> ('c, 'a) io" where
  "io_fail e c = (c, Inl e)"

definition io_bind :: "('c, 'a) io \<Rightarrow> ('a \<Rightarrow> ('c, 'b) io) \<Rightarrow> ('c, 'b) io" where
  "io_bind m f c = (case m c of (c', Inl e) \<Rightarrow> (c', Inl e) | (c', Inr a) \<Rightarrow> f a c')"

definition io_write :: "'c wr32 \<Rightarrow> u32 \<Rightarrow> u32 \<Rightarrow> ('c, unit) io" where
  "io_write w a v c = (case w c a v of (c', s) \<Rightarrow> (c', if s = PW_OK then Inr () else Inl s))"

definition io_read :: "'c rd32 \<Rightarrow> u32 \<Rightarrow> ('c, u32) io" where
  "io_read r a c = (case r c a of (c', s, v) \<Rightarrow> (c', if s = PW_OK then Inr v else Inl s))"

fun io_each :: "('x \<Rightarrow> ('c, unit) io) \<Rightarrow> 'x list \<Rightarrow> ('c, unit) io" where
  "io_each f [] = io_ret ()"
| "io_each f (x # xs) = io_bind (f x) (\<lambda>_. io_each f xs)"

fun io_map :: "('x \<Rightarrow> ('c, 'a) io) \<Rightarrow> 'x list \<Rightarrow> ('c, 'a list) io" where
  "io_map f [] = io_ret []"
| "io_map f (x # xs) = io_bind (f x) (\<lambda>a. io_bind (io_map f xs) (\<lambda>as. io_ret (a # as)))"

section \<open>Transactions\<close>

definition PWFPGA_WIN_SPI_FLASH :: u32 where "PWFPGA_WIN_SPI_FLASH = 0x0800"
definition PWFPGA_REG_SPI_CTRL :: u32 where "PWFPGA_REG_SPI_CTRL = PWFPGA_WIN_SPI_FLASH + 0x000"
definition PWFPGA_REG_SPI_LEN :: u32 where "PWFPGA_REG_SPI_LEN = PWFPGA_WIN_SPI_FLASH + 0x004"
definition PWFPGA_SPI_TXBUF :: u32 where "PWFPGA_SPI_TXBUF = PWFPGA_WIN_SPI_FLASH + 0x100"
definition PWFPGA_SPI_RXBUF :: u32 where "PWFPGA_SPI_RXBUF = PWFPGA_WIN_SPI_FLASH + 0x300"
definition PWFPGA_SPI_BUF_BYTES :: nat where "PWFPGA_SPI_BUF_BYTES = 512"
definition PWFPGA_SPI_CTRL_GO :: u32 where "PWFPGA_SPI_CTRL_GO = 1"
definition PWFPGA_SPI_CTRL_CS_HOLD :: u32 where "PWFPGA_SPI_CTRL_CS_HOLD = 2"
definition PWFPGA_SPI_STATUS_BUSY :: u32 where "PWFPGA_SPI_STATUS_BUSY = 1"

lemmas spi_regs = PWFPGA_WIN_SPI_FLASH_def PWFPGA_REG_SPI_CTRL_def PWFPGA_REG_SPI_LEN_def PWFPGA_SPI_TXBUF_def
  PWFPGA_SPI_RXBUF_def PWFPGA_SPI_BUF_BYTES_def PWFPGA_SPI_CTRL_GO_def PWFPGA_SPI_CTRL_CS_HOLD_def PWFPGA_SPI_STATUS_BUSY_def

text \<open>The loop \<open>for (i = 0; i < n; i += 4)\<close>, and the little-endian word of the bytes at \<open>i\<close>.\<close>

definition word_steps :: "nat \<Rightarrow> nat list" where
  "word_steps n = map (\<lambda>k. 4 * k) [0..<(n + 3) div 4]"

definition byte_at :: "bytes \<Rightarrow> nat \<Rightarrow> u8" where
  "byte_at tx i = (if i < length tx then tx ! i else 0)"

definition txn_word :: "bytes \<Rightarrow> nat \<Rightarrow> u32" where
  "txn_word tx i = le32 (byte_at tx i) (byte_at tx (i + 1)) (byte_at tx (i + 2)) (byte_at tx (i + 3))"

fun spi_poll :: "'c rd32 \<Rightarrow> nat \<Rightarrow> ('c, unit) io" where
  "spi_poll r 0 = io_fail PW_E_IO"
| "spi_poll r (Suc k) =
     io_bind (io_read r PWFPGA_REG_SPI_CTRL) (\<lambda>st. if st AND PWFPGA_SPI_STATUS_BUSY = 0 then io_ret () else spi_poll r k)"

definition spi_txn :: "'c wr32 \<Rightarrow> 'c rd32 \<Rightarrow> bytes \<Rightarrow> bool \<Rightarrow> bool \<Rightarrow> ('c, bytes) io" where
  "spi_txn w r tx want_rx cs_hold =
     (let n = length tx in
      if n > PWFPGA_SPI_BUF_BYTES then io_fail PW_E_INVAL
      else
        io_bind (io_each (\<lambda>i. io_write w (PWFPGA_SPI_TXBUF + of_nat i) (txn_word tx i)) (word_steps n)) (\<lambda>_.
        io_bind (io_write w PWFPGA_REG_SPI_LEN (of_nat n)) (\<lambda>_.
        io_bind (io_write w PWFPGA_REG_SPI_CTRL (PWFPGA_SPI_CTRL_GO OR (if cs_hold then PWFPGA_SPI_CTRL_CS_HOLD else 0))) (\<lambda>_.
        io_bind (spi_poll r 2000000) (\<lambda>_.
        if want_rx
        then io_bind (io_map (\<lambda>i. io_read r (PWFPGA_SPI_RXBUF + of_nat i)) (word_steps n)) (\<lambda>ws.
             io_ret (take n (concat (map le32_bytes ws))))
        else io_ret [])))))"

section \<open>Flash commands\<close>

definition SECTOR :: nat where "SECTOR = 0x10000"
definition PAGE :: nat where "PAGE = 256"
definition FLASH_SZ :: nat where "FLASH_SZ = 0x1000000"

definition warmup :: "'c wr32 \<Rightarrow> 'c rd32 \<Rightarrow> ('c, unit) io" where
  "warmup w r = io_bind (spi_txn w r [0x05, 0x00] False False) (\<lambda>_. io_ret ())"

definition wren :: "'c wr32 \<Rightarrow> 'c rd32 \<Rightarrow> ('c, unit) io" where
  "wren w r = io_bind (spi_txn w r [0x06] False False) (\<lambda>_. io_ret ())"

text \<open>\<open>None\<close> is the negative return.\<close>

definition wip :: "'c wr32 \<Rightarrow> 'c rd32 \<Rightarrow> 'c \<Rightarrow> 'c \<times> bool option" where
  "wip w r c = (case spi_txn w r [0x05, 0x00] True False c of
     (c', Inl _) \<Rightarrow> (c', None) | (c', Inr rx) \<Rightarrow> (c', Some (rx ! 1 AND 1 \<noteq> 0)))"

fun idle_loop :: "'c wr32 \<Rightarrow> 'c rd32 \<Rightarrow> nat \<Rightarrow> ('c, unit) io" where
  "idle_loop w r 0 c = (c, Inl PW_E_IO)"
| "idle_loop w r (Suc k) c =
     (case wip w r c of (c', None) \<Rightarrow> (c', Inl PW_E_IO)
      | (c', Some busy) \<Rightarrow> if busy then idle_loop w r k c' else (c', Inr ()))"

definition wait_idle :: "'c wr32 \<Rightarrow> 'c rd32 \<Rightarrow> ('c, unit) io" where
  "wait_idle w r = idle_loop w r 4000000"

definition addr3 :: "u32 \<Rightarrow> bytes" where
  "addr3 a = [ucast (drop_bit 16 a), ucast (drop_bit 8 a), ucast a]"

definition sector_erase :: "'c wr32 \<Rightarrow> 'c rd32 \<Rightarrow> u32 \<Rightarrow> ('c, unit) io" where
  "sector_erase w r a =
     io_bind (wren w r) (\<lambda>_. io_bind (spi_txn w r (0xD8 # addr3 a) False False) (\<lambda>_. wait_idle w r))"

definition page_program :: "'c wr32 \<Rightarrow> 'c rd32 \<Rightarrow> u32 \<Rightarrow> bytes \<Rightarrow> ('c, unit) io" where
  "page_program w r a data =
     io_bind (wren w r) (\<lambda>_. io_bind (spi_txn w r (0x02 # addr3 a @ data) False False) (\<lambda>_. wait_idle w r))"

definition flash_read :: "'c wr32 \<Rightarrow> 'c rd32 \<Rightarrow> u32 \<Rightarrow> nat \<Rightarrow> ('c, bytes) io" where
  "flash_read w r a len =
     io_bind (spi_txn w r (0x03 # addr3 a @ replicate len 0) True False) (\<lambda>rx. io_ret (drop 4 rx))"

section \<open>Ranges\<close>

function flash_read_range :: "'c wr32 \<Rightarrow> 'c rd32 \<Rightarrow> u32 \<Rightarrow> nat \<Rightarrow> ('c, bytes) io" where
  "flash_read_range w r a len =
     (if len = 0 then io_ret []
      else let n = min 256 len in
        io_bind (flash_read w r a n) (\<lambda>xs.
        io_bind (flash_read_range w r (a + of_nat n) (len - n)) (\<lambda>ys. io_ret (xs @ ys))))"
  by pat_completeness auto
termination by (relation "measure (\<lambda>(_, _, _, len). len)") auto

text \<open>Chunks that end at a page boundary.\<close>

function program_range :: "'c wr32 \<Rightarrow> 'c rd32 \<Rightarrow> u32 \<Rightarrow> bytes \<Rightarrow> ('c, unit) io" where
  "program_range w r a data =
     (if data = [] then io_ret ()
      else let n = min (length data) (PAGE - unat a mod PAGE) in
        io_bind (page_program w r a (take n data)) (\<lambda>_. program_range w r (a + of_nat n) (drop n data)))"
  by pat_completeness auto
termination
  by (relation "measure (\<lambda>(_, _, _, data). length data)") (auto simp: PAGE_def Let_def)

declare flash_read_range.simps [simp del] program_range.simps [simp del]

definition mismatches :: "bytes \<Rightarrow> bytes \<Rightarrow> nat" where
  "mismatches xs ys = length (filter (\<lambda>(x, y). x \<noteq> y) (zip xs ys))"

function flash_verify_range :: "'c wr32 \<Rightarrow> 'c rd32 \<Rightarrow> u32 \<Rightarrow> bytes \<Rightarrow> u64 \<Rightarrow> ('c, u64) io" where
  "flash_verify_range w r a expected mism =
     (if expected = [] then io_ret mism
      else let n = min 256 (length expected) in
        io_bind (flash_read w r a n) (\<lambda>rb.
        flash_verify_range w r (a + of_nat n) (drop n expected) (mism + of_nat (mismatches rb (take n expected)))))"
  by pat_completeness auto
termination by (relation "measure (\<lambda>(_, _, _, xs, _). length xs)") auto

declare flash_verify_range.simps [simp del]

definition pw_flash_read_id :: "'c wr32 option \<Rightarrow> 'c rd32 option \<Rightarrow> ('c, bytes) io" where
  "pw_flash_read_id wo ro =
     (case (wo, ro) of
        (Some w, Some r) \<Rightarrow>
          io_bind (warmup w r) (\<lambda>_.
          io_bind (spi_txn w r [0x9F, 0, 0, 0] True False) (\<lambda>rx. io_ret [rx ! 1, rx ! 2, rx ! 3]))
      | _ \<Rightarrow> io_fail PW_E_INVAL)"

text \<open>
  One turn of the loop over sectors: a sector that the range covers is erased; of one that it covers in
  part, the bytes outside the range are read before and programmed and verified after.
\<close>

definition program_sector :: "'c wr32 \<Rightarrow> 'c rd32 \<Rightarrow> nat \<Rightarrow> nat \<Rightarrow> nat \<Rightarrow> u64 \<Rightarrow> ('c, u64) io" where
  "program_sector w r offset fin a mism =
     (let head = (if a < offset then offset - a else 0);
          tail = (if a + SECTOR > fin then a + SECTOR - fin else 0) in
      if head = 0 \<and> tail = 0 then io_bind (sector_erase w r (of_nat a)) (\<lambda>_. io_ret mism)
      else
        io_bind (flash_read_range w r (of_nat a) head) (\<lambda>keep_head.
        io_bind (flash_read_range w r (of_nat fin) tail) (\<lambda>keep_tail.
        io_bind (sector_erase w r (of_nat a)) (\<lambda>_.
        io_bind (program_range w r (of_nat a) keep_head) (\<lambda>_.
        io_bind (program_range w r (of_nat fin) keep_tail) (\<lambda>_.
        io_bind (flash_verify_range w r (of_nat a) keep_head mism) (\<lambda>mism.
        flash_verify_range w r (of_nat fin) keep_tail mism)))))))"

fun program_sectors :: "'c wr32 \<Rightarrow> 'c rd32 \<Rightarrow> nat \<Rightarrow> nat \<Rightarrow> nat list \<Rightarrow> u64 \<Rightarrow> ('c, u64) io" where
  "program_sectors w r offset fin [] mism = io_ret mism"
| "program_sectors w r offset fin (a # as) mism =
     io_bind (program_sector w r offset fin a mism) (\<lambda>mism. program_sectors w r offset fin as mism)"

definition sectors :: "nat \<Rightarrow> nat \<Rightarrow> nat list" where
  "sectors offset fin = map (\<lambda>k. k * SECTOR) [offset div SECTOR ..< (fin + SECTOR - 1) div SECTOR]"

definition pw_flash_program :: "'c wr32 option \<Rightarrow> 'c rd32 option \<Rightarrow> u32 \<Rightarrow> bytes option \<Rightarrow> ('c, u64) io" where
  "pw_flash_program wo ro offset data =
     (case (wo, ro, data) of
        (Some w, Some r, Some bs) \<Rightarrow>
          (let off = unat offset; len = length bs; fin = off + len in
           if len = 0 then io_fail PW_E_INVAL
           else if off \<ge> FLASH_SZ \<or> len > FLASH_SZ \<or> off + len > FLASH_SZ then io_fail PW_E_OUT_OF_RANGE
           else
             io_bind (warmup w r) (\<lambda>_.
             io_bind (program_sectors w r off fin (sectors off fin) 0) (\<lambda>mism.
             io_bind (program_range w r offset bs) (\<lambda>_.
             flash_verify_range w r offset bs mism))))
      | _ \<Rightarrow> io_fail PW_E_INVAL)"

section \<open>Completing computations\<close>

text \<open>A computation that returns a value, with what holds of it and of the card afterwards.\<close>

definition completes :: "('c, 'a) io \<Rightarrow> 'c \<Rightarrow> ('a \<Rightarrow> 'c \<Rightarrow> bool) \<Rightarrow> bool" where
  "completes m c Q \<longleftrightarrow> (case m c of (c', Inl _) \<Rightarrow> False | (c', Inr a) \<Rightarrow> Q a c')"

lemma completes_ret [simp]: "completes (io_ret a) c Q = Q a c"
  by (simp add: completes_def io_ret_def)

lemma completes_bind [simp]: "completes (io_bind m f) c Q = completes m c (\<lambda>a c'. completes (f a) c' Q)"
  by (auto simp: completes_def io_bind_def split: prod.splits sum.splits)

lemma completes_mono: "completes m c P \<Longrightarrow> (\<And>a c'. P a c' \<Longrightarrow> Q a c') \<Longrightarrow> completes m c Q"
  by (auto simp: completes_def split: prod.splits sum.splits)

lemma completesD: "completes m c Q \<Longrightarrow> \<exists>c' a. m c = (c', Inr a) \<and> Q a c'"
  by (auto simp: completes_def split: prod.splits sum.splits)

lemma completes_if [simp]: "completes (if b then m else n) c Q = (if b then completes m c Q else completes n c Q)"
  by simp

section \<open>What a flash promises\<close>

text \<open>Programming clears bits.\<close>

definition burn :: "nat \<Rightarrow> bytes \<Rightarrow> (nat \<Rightarrow> u8) \<Rightarrow> nat \<Rightarrow> u8" where
  "burn a bs m x = (if a \<le> x \<and> x < a + length bs then m x AND bs ! (x - a) else m x)"

lemma ones_and: "(0xFF :: u8) AND x = x"
proof -
  have "(0xFF :: u8) = - 1" by simp
  then show ?thesis by (simp only: and.left_neutral)
qed

lemma burn_Nil [simp]: "burn a [] m = m"
  by (rule ext) (auto simp: burn_def)

lemma burn_append: "burn (a + length xs) ys (burn a xs m) = burn a (xs @ ys) m"
proof
  fix x
  show "burn (a + length xs) ys (burn a xs m) x = burn a (xs @ ys) m x"
    by (auto simp: burn_def nth_append diff_diff_left not_less dest: le_imp_less_or_eq)
qed

lemma addr_plus: "unat (a :: u32) + n \<le> FLASH_SZ \<Longrightarrow> unat (a + of_nat n) = unat a + n"
  by (simp add: unat_word_ariths unat_of_nat FLASH_SZ_def take_bit_nat_eq_self)

lemma addr_nat: "n \<le> FLASH_SZ \<Longrightarrow> unat (of_nat n :: u32) = n"
  by (simp add: unat_of_nat FLASH_SZ_def take_bit_nat_eq_self)

text \<open>The part of a sector that a range covers, erased.\<close>

definition cleared :: "nat \<Rightarrow> nat \<Rightarrow> nat \<Rightarrow> (nat \<Rightarrow> u8) \<Rightarrow> nat \<Rightarrow> u8" where
  "cleared offset fin a m x = (if x div SECTOR = a div SECTOR \<and> offset \<le> x \<and> x < fin then 0xFF else m x)"

text \<open>
  A card with a flash: \<open>attached\<close> after configuration, when the first clock edges may be lost, and \<open>ready\<close>
  once a transaction has been burnt. Erasing sets a sector to ones, programming within a page clears bits,
  reading returns the contents and changes nothing.
\<close>

locale nor_flash =
  fixes w :: "'c wr32" and r :: "'c rd32" and mem :: "'c \<Rightarrow> nat \<Rightarrow> u8"
    and attached :: "'c \<Rightarrow> bool" and ready :: "'c \<Rightarrow> bool"
  assumes warmup: "attached c \<Longrightarrow> completes (warmup w r) c (\<lambda>_ c'. ready c' \<and> mem c' = mem c)"
    and erase: "ready c \<Longrightarrow> unat a < FLASH_SZ \<Longrightarrow>
      completes (sector_erase w r a) c
        (\<lambda>_ c'. ready c' \<and> mem c' = (\<lambda>x. if x div SECTOR = unat a div SECTOR then 0xFF else mem c x))"
    and prog: "ready c \<Longrightarrow> data \<noteq> [] \<Longrightarrow> unat a mod PAGE + length data \<le> PAGE \<Longrightarrow> unat a + length data \<le> FLASH_SZ \<Longrightarrow>
      completes (page_program w r a data) c (\<lambda>_ c'. ready c' \<and> mem c' = burn (unat a) data (mem c))"
    and read: "ready c \<Longrightarrow> 0 < len \<Longrightarrow> len \<le> 256 \<Longrightarrow> unat a + len \<le> FLASH_SZ \<Longrightarrow>
      completes (flash_read w r a len) c
        (\<lambda>bs c'. bs = map (mem c) [unat a..<unat a + len] \<and> ready c' \<and> mem c' = mem c)"
begin

lemma read_range:
  "ready c \<Longrightarrow> unat a + len \<le> FLASH_SZ \<Longrightarrow>
     completes (flash_read_range w r a len) c (\<lambda>bs c'. bs = map (mem c) [unat a..<unat a + len] \<and> ready c' \<and> mem c' = mem c)"
proof (induction len arbitrary: a c rule: less_induct)
  case (less len)
  show ?case
  proof (cases "len = 0")
    case True
    with less.prems show ?thesis by (simp add: flash_read_range.simps)
  next
    case False
    let ?n = "min 256 len"
    have n: "0 < ?n" "?n \<le> 256" "unat a + ?n \<le> FLASH_SZ" "len - ?n < len" using False less.prems by auto
    have a: "unat (a + of_nat ?n) = unat a + ?n" by (rule addr_plus [OF n(3)])
    have fit: "unat (a + of_nat ?n) + (len - ?n) \<le> FLASH_SZ" using a less.prems(2) by simp
    have rest: "completes (flash_read_range w r (a + of_nat ?n) (len - ?n)) c1
        (\<lambda>ys c'. map (mem c) [unat a..<unat a + ?n] @ ys = map (mem c) [unat a..<unat a + len] \<and> ready c' \<and> mem c' = mem c)"
      if "ready c1" "mem c1 = mem c" for c1
    proof (rule completes_mono [OF less.IH [OF n(4) that(1) fit]], elim conjE, intro conjI)
      fix ys c'
      assume "ys = map (mem c1) [unat (a + of_nat ?n)..<unat (a + of_nat ?n) + (len - ?n)]"
      moreover have "[unat a..<unat a + len] = [unat a..<unat a + ?n] @ [unat a + ?n..<unat a + len]"
        using upt_add_eq_append [of "unat a" "unat a + ?n" "len - ?n"] by simp
      ultimately show "map (mem c) [unat a..<unat a + ?n] @ ys = map (mem c) [unat a..<unat a + len]"
        by (simp add: a that(2))
    qed (simp_all add: that(2))
    show ?thesis
      by (subst flash_read_range.simps) (use False rest in \<open>auto simp: Let_def intro: completes_mono [OF read [OF less.prems(1) n(1-3)]]\<close>)
  qed
qed

lemma program_range:
  "ready c \<Longrightarrow> unat a + length data \<le> FLASH_SZ \<Longrightarrow>
     completes (program_range w r a data) c (\<lambda>_ c'. ready c' \<and> mem c' = burn (unat a) data (mem c))"
proof (induction data arbitrary: a c rule: length_induct)
  case (1 data)
  show ?case
  proof (cases "data = []")
    case True
    with 1(2) show ?thesis by (simp add: program_range.simps)
  next
    case False
    let ?n = "min (length data) (PAGE - unat a mod PAGE)"
    have p: "0 < PAGE - unat a mod PAGE" by (simp add: PAGE_def)
    have n: "0 < ?n" "?n \<le> length data" using False p by auto
    have pre: "take ?n data \<noteq> []" "unat a mod PAGE + length (take ?n data) \<le> PAGE" "unat a + length (take ?n data) \<le> FLASH_SZ"
      using False n 1(3) p by auto
    have a: "unat (a + of_nat ?n) = unat a + ?n" by (rule addr_plus) (use n 1(3) in linarith)
    have fit: "unat (a + of_nat ?n) + length (drop ?n data) \<le> FLASH_SZ" using a 1(3) by simp
    have "length (drop ?n data) < length data" using n by simp
    note IH = 1(1) [rule_format, OF this _ fit]
    have split: "burn (unat a + ?n) (drop ?n data) (burn (unat a) (take ?n data) m) = burn (unat a) data m" for m
      using burn_append [of "unat a" "take ?n data" "drop ?n data" m] n by simp
    have rest: "completes (program_range w r (a + of_nat ?n) (drop ?n data)) c1 (\<lambda>_ c'. ready c' \<and> mem c' = burn (unat a) data (mem c))"
      if "ready c1 \<and> mem c1 = burn (unat a) (take ?n data) (mem c)" for c1
      by (rule completes_mono [OF IH]) (use that split in \<open>auto simp: a\<close>)
    show ?thesis
      by (subst program_range.simps) (use False rest in \<open>auto simp: Let_def intro: completes_mono [OF prog [OF 1(2) pre]]\<close>)
  qed
qed

lemma verify_range:
  "ready c \<Longrightarrow> unat a + length xs \<le> FLASH_SZ \<Longrightarrow> xs = map (mem c) [unat a..<unat a + length xs] \<Longrightarrow>
     completes (flash_verify_range w r a xs mism) c (\<lambda>m c'. m = mism \<and> ready c' \<and> mem c' = mem c)"
proof (induction xs arbitrary: a c mism rule: length_induct)
  case (1 xs)
  show ?case
  proof (cases "xs = []")
    case True
    with 1(2) show ?thesis by (simp add: flash_verify_range.simps)
  next
    case False
    let ?n = "min 256 (length xs)"
    have n: "0 < ?n" "?n \<le> 256" "unat a + ?n \<le> FLASH_SZ" using False 1(3) by auto
    have a: "unat (a + of_nat ?n) = unat a + ?n" by (rule addr_plus [OF n(3)])
    have upt: "[unat a..<unat a + length xs] = [unat a..<unat a + ?n] @ [unat a + ?n..<unat a + length xs]"
      using upt_add_eq_append [of "unat a" "unat a + ?n" "length xs - ?n"] by simp
    have take_eq: "take k (map f (us @ vs)) = map f us \<and> drop k (map f (us @ vs)) = map f vs" if "length us = k" for f and us vs :: "nat list" and k
      using that by auto
    have "take ?n xs = map (mem c) [unat a..<unat a + ?n] \<and> drop ?n xs = map (mem c) [unat a + ?n..<unat a + length xs]"
      using take_eq [of "[unat a..<unat a + ?n]" ?n "mem c" "[unat a + ?n..<unat a + length xs]"]
      unfolding upt [symmetric] 1(4) [symmetric] by simp
    then have parts: "take ?n xs = map (mem c) [unat a..<unat a + ?n]" "drop ?n xs = map (mem c) [unat a + ?n..<unat a + length xs]"
      by blast+
    have m0: "mismatches (map (mem c) [unat a..<unat a + ?n]) (take ?n xs) = 0"
      unfolding parts(1) by (auto simp: mismatches_def zip_same_conv_map filter_empty_conv)
    have short: "length (drop ?n xs) < length xs" using False by simp
    have rest: "completes (flash_verify_range w r (a + of_nat ?n) (drop ?n xs) mism) c1 (\<lambda>m c'. m = mism \<and> ready c' \<and> mem c' = mem c)"
      if "ready c1" "mem c1 = mem c" for c1
      by (rule completes_mono [OF 1(1) [rule_format, OF short that(1)]])
        (use 1(3) parts(2) that(2) in \<open>simp_all add: a\<close>)
    show ?thesis
      by (subst flash_verify_range.simps)
        (use False rest m0 in \<open>auto simp: Let_def intro: completes_mono [OF read [OF 1(2) n]]\<close>)
  qed
qed

lemma sector:
  assumes c: "ready c" and a: "a mod SECTOR = 0" "a < fin" "offset < a + SECTOR" "offset < fin" "fin \<le> FLASH_SZ"
  shows "completes (program_sector w r offset fin a mism) c (\<lambda>m c'. m = mism \<and> ready c' \<and> mem c' = cleared offset fin a (mem c))"
proof -
  let ?h = "offset - a" and ?t = "a + SECTOR - fin"
  have S: "x div SECTOR = a div SECTOR \<longleftrightarrow> a \<le> x \<and> x < a + SECTOR" for x
    using a(1) by (auto simp: SECTOR_def)
  have top: "a + SECTOR \<le> FLASH_SZ" using a(1,2,5) by (auto simp: SECTOR_def FLASH_SZ_def)
  have ua: "unat (of_nat a :: u32) = a" "unat (of_nat fin :: u32) = fin" using a(2,5) by (simp_all add: addr_nat)
  have alt: "(if a < offset then offset - a else 0) = ?h" "(if a + SECTOR > fin then a + SECTOR - fin else 0) = ?t" by simp_all
  let ?m1 = "\<lambda>x. if x div SECTOR = a div SECTOR then 0xFF else mem c x"
  let ?H = "map (mem c) [a..<a + ?h]" and ?T = "map (mem c) [fin..<fin + ?t]"
  have era: "completes (sector_erase w r (of_nat a)) c1 (\<lambda>_ c'. ready c' \<and> mem c' = ?m1)"
    if "ready c1" "mem c1 = mem c" for c1
    using erase [of c1 "of_nat a"] that a(2,5) by (simp add: ua cong: if_cong)
  show ?thesis
  proof (cases "?h = 0 \<and> ?t = 0")
    case True
    then have "?m1 = cleared offset fin a (mem c)" by (auto simp: cleared_def S fun_eq_iff)
    with True era [OF c refl] show ?thesis by (simp add: program_sector_def alt Let_def)
  next
    case False
    let ?m2 = "burn a ?H ?m1"
    let ?m3 = "burn fin ?T ?m2"
    have m3: "?m3 = cleared offset fin a (mem c)"
    proof
      fix x
      show "?m3 x = cleared offset fin a (mem c) x"
        using a(2,3,4) by (cases "x < offset"; cases "x < fin") (auto simp: burn_def cleared_def S nth_upt ones_and)
    qed
    have rh: "completes (flash_read_range w r (of_nat a) ?h) c (\<lambda>bs c'. bs = ?H \<and> ready c' \<and> mem c' = mem c)"
      using read_range [OF c, of "of_nat a" ?h] a top by (simp add: ua)
    have rt: "completes (flash_read_range w r (of_nat fin) ?t) c1 (\<lambda>bs c'. bs = ?T \<and> ready c' \<and> mem c' = mem c)"
      if "ready c1" "mem c1 = mem c" for c1
      using read_range [OF that(1), of "of_nat fin" ?t] that(2) a top by (simp add: ua)
    have ph: "completes (program_range w r (of_nat a) ?H) c1 (\<lambda>_ c'. ready c' \<and> mem c' = ?m2)"
      if "ready c1" "mem c1 = ?m1" for c1
      using program_range [OF that(1), of "of_nat a" ?H] that(2) a top by (simp add: ua)
    have pt: "completes (program_range w r (of_nat fin) ?T) c1 (\<lambda>_ c'. ready c' \<and> mem c' = ?m3)"
      if "ready c1" "mem c1 = ?m2" for c1
      using program_range [OF that(1), of "of_nat fin" ?T] that(2) a top by (simp add: ua)
    have vh: "completes (flash_verify_range w r (of_nat a) ?H mism) c1 (\<lambda>m c'. m = mism \<and> ready c' \<and> mem c' = ?m3)"
      if "ready c1" "mem c1 = ?m3" for c1
    proof -
      have "?H = map (mem c1) [unat (of_nat a :: u32)..<unat (of_nat a :: u32) + length ?H]"
        unfolding that(2) m3 ua by (auto simp: cleared_def)
      from verify_range [OF that(1) _ this, of mism] that(2) a top show ?thesis by (simp add: ua)
    qed
    have vt: "completes (flash_verify_range w r (of_nat fin) ?T mism) c1 (\<lambda>m c'. m = mism \<and> ready c' \<and> mem c' = ?m3)"
      if "ready c1" "mem c1 = ?m3" for c1
    proof -
      have "?T = map (mem c1) [unat (of_nat fin :: u32)..<unat (of_nat fin :: u32) + length ?T]"
        unfolding that(2) m3 ua by (auto simp: cleared_def)
      from verify_range [OF that(1) _ this, of mism] that(2) a top show ?thesis by (simp add: ua)
    qed
    have step: "program_sector w r offset fin a mism = (
        io_bind (flash_read_range w r (of_nat a) ?h) (\<lambda>kh. io_bind (flash_read_range w r (of_nat fin) ?t) (\<lambda>kt.
        io_bind (sector_erase w r (of_nat a)) (\<lambda>_. io_bind (program_range w r (of_nat a) kh) (\<lambda>_.
        io_bind (program_range w r (of_nat fin) kt) (\<lambda>_. io_bind (flash_verify_range w r (of_nat a) kh mism) (\<lambda>m.
        flash_verify_range w r (of_nat fin) kt m)))))))"
      unfolding program_sector_def Let_def alt if_not_P [OF False] by (rule refl)
    show ?thesis
      unfolding step completes_bind m3 [symmetric]
      by (rule completes_mono [OF rh], elim conjE, simp only:)
        (rule completes_mono [OF rt], assumption, assumption, elim conjE, simp only:,
         rule completes_mono [OF era], assumption, assumption, elim conjE,
         rule completes_mono [OF ph], assumption, assumption, elim conjE,
         rule completes_mono [OF pt], assumption, assumption, elim conjE,
         rule completes_mono [OF vh], assumption, assumption, elim conjE, simp only:, rule vt)
  qed
qed

lemma all_sectors:
  assumes "ready c" and "\<forall>a\<in>set as. a mod SECTOR = 0 \<and> a < fin \<and> offset < a + SECTOR" and "offset < fin" "fin \<le> FLASH_SZ"
  shows "completes (program_sectors w r offset fin as mism) c
    (\<lambda>m c'. m = mism \<and> ready c' \<and>
       mem c' = (\<lambda>x. if x div SECTOR * SECTOR \<in> set as \<and> offset \<le> x \<and> x < fin then 0xFF else mem c x))"
  using assms(1,2)
proof (induction as arbitrary: c)
  case (Cons a as)
  have a: "a mod SECTOR = 0" "a < fin" "offset < a + SECTOR" using Cons.prems(2) by auto
  have same: "x div SECTOR = a div SECTOR \<longleftrightarrow> x div SECTOR * SECTOR = a" for x
    using a(1) by (auto simp: SECTOR_def)
  have rest: "completes (program_sectors w r offset fin as mism) c1 (\<lambda>m c'. m = mism \<and> ready c' \<and>
      mem c' = (\<lambda>x. if x div SECTOR * SECTOR \<in> set (a # as) \<and> offset \<le> x \<and> x < fin then 0xFF else mem c x))"
    if c1: "ready c1" "mem c1 = cleared offset fin a (mem c)" for c1
  proof (rule completes_mono [OF Cons.IH [OF c1(1)]])
    show "\<forall>a\<in>set as. a mod SECTOR = 0 \<and> a < fin \<and> offset < a + SECTOR" using Cons.prems(2) by simp
  qed (auto simp: c1(2) cleared_def same fun_eq_iff)
  show ?case
    unfolding program_sectors.simps completes_bind
    by (rule completes_mono [OF sector [OF Cons.prems(1) a assms(3,4)]]) (use rest in auto)
qed simp

lemma sectors_cover:
  assumes "offset \<le> x" "x < fin"
  shows "x div SECTOR * SECTOR \<in> set (sectors offset fin)"
proof -
  have "offset div SECTOR \<le> x div SECTOR" using assms(1) by (rule div_le_mono)
  moreover have "x div SECTOR < (fin + SECTOR - 1) div SECTOR" using assms(2) by (simp add: SECTOR_def)
  ultimately show ?thesis unfolding sectors_def set_map set_upt by (intro imageI) simp
qed

lemma sectors_overlap: "offset < fin \<Longrightarrow> a \<in> set (sectors offset fin) \<Longrightarrow> a mod SECTOR = 0 \<and> a < fin \<and> offset < a + SECTOR"
  by (auto simp: sectors_def SECTOR_def)

theorem programs:
  assumes c: "attached c" and d: "data \<noteq> []" "unat offset + length data \<le> FLASH_SZ"
  shows "completes (pw_flash_program (Some w) (Some r) offset (Some data)) c
    (\<lambda>m c'. m = 0 \<and> ready c' \<and>
       mem c' = (\<lambda>x. if unat offset \<le> x \<and> x < unat offset + length data then data ! (x - unat offset) else mem c x))"
proof -
  let ?o = "unat offset" and ?e = "unat offset + length data"
  let ?m1 = "\<lambda>x. if x div SECTOR * SECTOR \<in> set (sectors ?o ?e) \<and> ?o \<le> x \<and> x < ?e then 0xFF else mem c x"
  let ?m2 = "\<lambda>x. if ?o \<le> x \<and> x < ?e then data ! (x - ?o) else mem c x"
  have e: "?o < ?e" using d(1) by simp
  have m2: "burn ?o data ?m1 = ?m2"
    using sectors_cover [of ?o _ ?e] by (auto simp: burn_def fun_eq_iff ones_and)
  have sec: "completes (program_sectors w r ?o ?e (sectors ?o ?e) 0) c1 (\<lambda>m c'. m = 0 \<and> ready c' \<and> mem c' = ?m1)"
    if "ready c1" "mem c1 = mem c" for c1
    using all_sectors [OF that(1) _ e d(2), of "sectors ?o ?e" 0] sectors_overlap [OF e] that(2) by (simp cong: if_cong)
  have pro: "completes (program_range w r offset data) c1 (\<lambda>_ c'. ready c' \<and> mem c' = ?m2)"
    if "ready c1" "mem c1 = ?m1" for c1
    using program_range [OF that(1) d(2)] unfolding that(2) m2 .
  have ver: "completes (flash_verify_range w r offset data 0) c1 (\<lambda>m c'. m = 0 \<and> ready c' \<and> mem c' = ?m2)"
    if "ready c1" "mem c1 = ?m2" for c1
  proof -
    have "data = map (mem c1) [?o..<?e]" unfolding that(2) by (rule nth_equalityI) simp_all
    from verify_range [OF that(1) d(2) this, of 0] show ?thesis unfolding that(2) .
  qed
  have step: "pw_flash_program (Some w) (Some r) offset (Some data) =
      io_bind (warmup w r) (\<lambda>_. io_bind (program_sectors w r ?o ?e (sectors ?o ?e) 0) (\<lambda>mism.
      io_bind (program_range w r offset data) (\<lambda>_. flash_verify_range w r offset data mism)))"
  proof -
    have "\<not> (FLASH_SZ \<le> ?o \<or> FLASH_SZ < length data \<or> FLASH_SZ < ?o + length data)" using d e by linarith
    with d(1) show ?thesis by (simp only: pw_flash_program_def Let_def) simp
  qed
  show ?thesis
    unfolding step completes_bind
    by (rule completes_mono [OF warmup [OF c]], elim conjE,
        rule completes_mono [OF sec], assumption, assumption, elim conjE, simp only:,
        rule completes_mono [OF pro], assumption, assumption, elim conjE, rule ver)
qed

end

end
