(* ===== verification/PW_Flash_Card.thy ===== *)
theory PW_Flash_Card
  imports PW_Spi_Flash
begin

text \<open>
  What \<^verbatim>\<open>spi_flash.c\<close> drives: the register side of the SPI engine of the card, as \<^verbatim>\<open>pw_spi_flash.sv\<close>
  implements it, with a NOR flash behind it that follows the standard command set. How long a transfer and
  how long an erase or a program take is arbitrary, within the bounds of the waiting loops. The card is shown to
  keep the promises that the driver relies on, which gives the correctness of flash programming.
\<close>

section \<open>The flash\<close>

record nor_chip =
  chip_mem :: "nat \<Rightarrow> u8"
  chip_wel :: bool
  chip_wip :: nat
  chip_ops :: nat
  chip_times :: "nat \<Rightarrow> nat"
  chip_id :: bytes

text \<open>
  The effect of one transaction and the bytes shifted out. \<open>chip_wip\<close> counts the status reads for which
  the write in progress is still reported; \<open>chip_times\<close> gives that number for each erase or program.
\<close>

definition chip_addr :: "bytes \<Rightarrow> nat" where
  "chip_addr tx = unat (tx ! 1) * 65536 + unat (tx ! 2) * 256 + unat (tx ! 3)"

definition page_burn :: "nat \<Rightarrow> bytes \<Rightarrow> (nat \<Rightarrow> u8) \<Rightarrow> nat \<Rightarrow> u8" where
  "page_burn a data m =
     fold (\<lambda>i m. let x = a div PAGE * PAGE + (a + i) mod PAGE in m(x := m x AND data ! i)) [0..<length data] m"

definition chip_started :: "nor_chip \<Rightarrow> (nat \<Rightarrow> u8) \<Rightarrow> nor_chip" where
  "chip_started k m = k\<lparr>chip_mem := m, chip_wel := False, chip_wip := chip_times k (chip_ops k), chip_ops := chip_ops k + 1\<rparr>"

definition chip_txn :: "bytes \<Rightarrow> nor_chip \<Rightarrow> nor_chip \<times> bytes" where
  "chip_txn tx k =
     (let cmd = tx ! 0; n = length tx; quiet = replicate n 0 in
      if cmd = 0x05 then (k\<lparr>chip_wip := chip_wip k - 1\<rparr>, replicate n (if chip_wip k > 0 then 1 else 0))
      else if chip_wip k > 0 then (k, quiet)
      else if cmd = 0x06 then (k\<lparr>chip_wel := True\<rparr>, quiet)
      else if cmd = 0x9F then (k, take n (0 # chip_id k @ quiet))
      else if n < 4 then (k, quiet)
      else if cmd = 0x03 then (k, replicate 4 0 @ map (\<lambda>i. chip_mem k ((chip_addr tx + i) mod FLASH_SZ)) [0..<n - 4])
      else if cmd = 0x02 \<and> chip_wel k then (chip_started k (page_burn (chip_addr tx) (drop 4 tx) (chip_mem k)), quiet)
      else if cmd = 0xD8 \<and> chip_wel k
        then (chip_started k (\<lambda>x. if x div SECTOR = chip_addr tx div SECTOR then 0xFF else chip_mem k x), quiet)
      else (k, quiet))"

section \<open>The engine\<close>

text \<open>
  The registers. After configuration the card is cold: the first transfer loses clock edges and does not reach
  the flash.
\<close>

record nor_card =
  nc_tx :: "nat \<Rightarrow> u32"
  nc_rx :: "nat \<Rightarrow> u32"
  nc_len :: nat
  nc_busy :: nat
  nc_count :: nat
  nc_delays :: "nat \<Rightarrow> nat"
  nc_cold :: bool
  nc_chip :: nor_chip

definition engine_tx :: "nor_card \<Rightarrow> bytes" where
  "engine_tx c = take (nc_len c) (concat (map (\<lambda>k. le32_bytes (nc_tx c k)) [0..<128]))"

definition engine_transfer :: "nor_card \<Rightarrow> nor_card" where
  "engine_transfer c =
     (let (chip, rx) = (if nc_cold c then (nc_chip c, replicate (nc_len c) 0) else chip_txn (engine_tx c) (nc_chip c)) in
      c\<lparr>nc_chip := chip, nc_rx := (\<lambda>k. txn_word rx (4 * k)), nc_busy := nc_delays c (nc_count c),
        nc_count := nc_count c + 1, nc_cold := False\<rparr>)"

definition engine_write32 :: "nor_card wr32" where
  "engine_write32 c a v =
     (let off = unat a - unat PWFPGA_WIN_SPI_FLASH in
      (if unat a < unat PWFPGA_WIN_SPI_FLASH then c
       else if off = 0 then (if bit v 0 \<and> nc_len c \<noteq> 0 \<and> nc_busy c = 0 then engine_transfer c else c)
       else if off = 4 then c\<lparr>nc_len := unat v mod 1024\<rparr>
       else if 0x100 \<le> off \<and> off < 0x300 then c\<lparr>nc_tx := (nc_tx c)((off - 0x100) div 4 := v)\<rparr>
       else c, PW_OK))"

definition engine_read32 :: "nor_card rd32" where
  "engine_read32 c a =
     (let off = unat a - unat PWFPGA_WIN_SPI_FLASH in
      if unat a < unat PWFPGA_WIN_SPI_FLASH then (c, PW_OK, 0)
      else if off = 0 then (c\<lparr>nc_busy := nc_busy c - 1\<rparr>, PW_OK, if nc_busy c > 0 then 1 else 0)
      else if off = 4 then (c, PW_OK, of_nat (nc_len c))
      else if 0x300 \<le> off \<and> off < 0x500 then (c, PW_OK, nc_rx c ((off - 0x300) div 4))
      else (c, PW_OK, 0))"

section \<open>A transaction reaches the flash\<close>

text \<open>Bytes written as words and read back.\<close>

lemma words_length: "length (concat (map (\<lambda>k. le32_bytes (txn_word xs (4 * k))) [0..<n])) = 4 * n"
  by (induction n) (simp_all add: txn_word_def)

lemma words_bytes:
  assumes "length xs \<le> 4 * m"
  shows "take (length xs) (concat (map (\<lambda>k. le32_bytes (txn_word xs (4 * k))) [0..<m])) = xs"
proof -
  have "concat (map (\<lambda>k. le32_bytes (txn_word xs (4 * k))) [0..<n]) = map (byte_at xs) [0..<4 * n]" for n
    by (induction n) (simp_all add: txn_word_def numeral_eq_Suc)
  then have "take (length xs) (concat (map (\<lambda>k. le32_bytes (txn_word xs (4 * k))) [0..<m])) = map (byte_at xs) [0..<length xs]"
    using assms by (simp add: take_map)
  also have "\<dots> = xs" by (rule nth_equalityI) (simp_all add: byte_at_def)
  finally show ?thesis .
qed

lemma spi_addr:
  "k < 128 \<Longrightarrow> unat (PWFPGA_SPI_TXBUF + of_nat (4 * k)) = 0x900 + 4 * k"
  "k < 128 \<Longrightarrow> unat (PWFPGA_SPI_RXBUF + of_nat (4 * k)) = 0xB00 + 4 * k"
  by (simp_all add: spi_regs unat_word_ariths unat_of_nat take_bit_nat_eq_self del: of_nat_mult)

lemma io_steps:
  "io_write engine_write32 a v c = (fst (engine_write32 c a v), Inr ())"
  "io_read engine_read32 a c = (fst (engine_read32 c a), Inr (snd (snd (engine_read32 c a))))"
  by (simp_all add: io_write_def io_read_def engine_write32_def engine_read32_def Let_def)

lemma write_tx: "k < 128 \<Longrightarrow> fst (engine_write32 c (PWFPGA_SPI_TXBUF + of_nat (4 * k)) v) = c\<lparr>nc_tx := (nc_tx c)(k := v)\<rparr>"
  by (simp only: engine_write32_def spi_addr Let_def) (simp add: PWFPGA_WIN_SPI_FLASH_def)

lemma write_buffer:
  assumes "\<forall>k\<in>set ks. k < 128"
  shows "io_each (\<lambda>i. io_write engine_write32 (PWFPGA_SPI_TXBUF + of_nat i) (f i)) (map (\<lambda>k. 4 * k) ks) c =
    (c\<lparr>nc_tx := (\<lambda>k. if k \<in> set ks then f (4 * k) else nc_tx c k)\<rparr>, Inr ())"
  using assms
proof (induction ks arbitrary: c)
  case (Cons k ks)
  then have k: "k < 128" by simp
  have "(\<lambda>j. if j \<in> set ks then f (4 * j) else (if j = k then f (4 * k) else nc_tx c j)) =
      (\<lambda>j. if j = k \<or> j \<in> set ks then f (4 * j) else nc_tx c j)" by auto
  with Cons write_tx [OF k] show ?case
    by (simp add: io_bind_def io_steps fun_upd_def cong: if_cong del: of_nat_mult)
qed (simp add: io_ret_def)

lemma read_buffer:
  assumes "\<forall>k\<in>set ks. k < 128"
  shows "io_map (\<lambda>i. io_read engine_read32 (PWFPGA_SPI_RXBUF + of_nat i)) (map (\<lambda>k. 4 * k) ks) c = (c, Inr (map (nc_rx c) ks))"
  using assms
proof (induction ks)
  case (Cons k ks)
  then have k: "k < 128" by simp
  have "engine_read32 c (PWFPGA_SPI_RXBUF + of_nat (4 * k)) = (c, PW_OK, nc_rx c k)"
    by (simp only: engine_read32_def spi_addr [OF k] Let_def) (use k in \<open>simp add: PWFPGA_WIN_SPI_FLASH_def\<close>)
  with Cons show ?case by (simp add: io_bind_def io_steps io_ret_def del: of_nat_mult)
qed (simp add: io_ret_def)

lemma read_ctrl:
  "engine_read32 c PWFPGA_REG_SPI_CTRL = (c\<lparr>nc_busy := nc_busy c - 1\<rparr>, PW_OK, if nc_busy c > 0 then 1 else 0)"
  by (simp add: engine_read32_def PWFPGA_REG_SPI_CTRL_def)

lemma poll_engine: "nc_busy c < k \<Longrightarrow> spi_poll engine_read32 k c = (c\<lparr>nc_busy := 0\<rparr>, Inr ())"
proof (induction k arbitrary: c)
  case (Suc k)
  show ?case
  proof (cases "nc_busy c")
    case 0
    then have "c\<lparr>nc_busy := 0\<rparr> = c" by simp
    with 0 show ?thesis by (simp add: io_bind_def io_steps read_ctrl io_ret_def)
  next
    case (Suc b)
    with Suc.IH [of "c\<lparr>nc_busy := b\<rparr>"] Suc.prems show ?thesis
      by (simp add: io_bind_def io_steps read_ctrl PWFPGA_SPI_STATUS_BUSY_def)
  qed
qed simp

text \<open>The card after a transaction, and what it returned.\<close>

definition timely :: "nor_card \<Rightarrow> bool" where
  "timely c \<longleftrightarrow> (\<forall>k. nc_delays c k < 2000000) \<and> (\<forall>k. chip_times (nc_chip c) k < 4000000)"

definition seen :: "bytes \<Rightarrow> nor_card \<Rightarrow> nor_chip \<times> bytes" where
  "seen tx c = (if nc_cold c then (nc_chip c, replicate (length tx) 0) else chip_txn tx (nc_chip c))"

lemma seen_frame: "seen tx c = (k, rx) \<Longrightarrow> length rx = length tx \<and> chip_times k = chip_times (nc_chip c)"
  by (auto simp: seen_def chip_txn_def Let_def chip_started_def split: if_splits)

lemma engine_txn:
  assumes n: "0 < length tx" "length tx \<le> 512" and c: "nc_busy c = 0" "timely c"
  shows "completes (spi_txn engine_write32 engine_read32 tx want_rx False) c
    (\<lambda>rx c'. nc_chip c' = fst (seen tx c) \<and> nc_busy c' = 0 \<and> \<not> nc_cold c' \<and> timely c' \<and>
       rx = (if want_rx then snd (seen tx c) else []))"
proof -
  let ?K = "(length tx + 3) div 4"
  have ks: "\<forall>k\<in>set [0..<?K]. k < 128" using n by auto
  let ?c1 = "c\<lparr>nc_tx := (\<lambda>k. if k \<in> set [0..<?K] then txn_word tx (4 * k) else nc_tx c k)\<rparr>"
  let ?c2 = "?c1\<lparr>nc_len := length tx\<rparr>"
  have len: "fst (engine_write32 ?c1 PWFPGA_REG_SPI_LEN (of_nat (length tx))) = ?c2"
    using n by (simp add: engine_write32_def PWFPGA_REG_SPI_LEN_def PWFPGA_WIN_SPI_FLASH_def unat_of_nat take_bit_nat_eq_self)
  have "map (\<lambda>k. le32_bytes (nc_tx ?c2 k)) [0..<128] =
      map (\<lambda>k. le32_bytes (txn_word tx (4 * k))) [0..<?K] @ map (\<lambda>k. le32_bytes (nc_tx c k)) [?K..<128]"
    using upt_add_eq_append [of 0 ?K "128 - ?K"] n by simp
  then have tx: "engine_tx ?c2 = tx"
    using words_bytes [of tx ?K] words_length [of tx ?K] by (simp add: engine_tx_def)
  obtain chip rx where txn: "seen tx c = (chip, rx)" by fastforce
  let ?c3 = "?c2\<lparr>nc_chip := chip, nc_rx := (\<lambda>k. txn_word rx (4 * k)), nc_busy := nc_delays c (nc_count c),
        nc_count := nc_count c + 1, nc_cold := False\<rparr>"
  have "(if nc_cold ?c2 then (nc_chip ?c2, replicate (nc_len ?c2) 0) else chip_txn (engine_tx ?c2) (nc_chip ?c2)) = (chip, rx)"
    unfolding tx using txn by (auto simp: seen_def split: if_splits)
  then have "engine_transfer ?c2 = ?c3" by (simp only: engine_transfer_def) simp
  then have go: "fst (engine_write32 ?c2 PWFPGA_REG_SPI_CTRL PWFPGA_SPI_CTRL_GO) = ?c3"
    using n c(1) by (simp add: engine_write32_def PWFPGA_REG_SPI_CTRL_def PWFPGA_SPI_CTRL_GO_def)
  have busy: "nc_busy ?c3 < 2000000" using c(2) by (simp add: timely_def)
  have rx: "take (length tx) (concat (map (\<lambda>k. le32_bytes (nc_rx ?c3 k)) [0..<?K])) = rx"
    using words_bytes [of rx ?K] seen_frame [OF txn] by simp
  have run: "spi_txn engine_write32 engine_read32 tx want_rx False c =
      (?c3\<lparr>nc_busy := 0\<rparr>, Inr (if want_rx then rx else []))"
    using n write_buffer [OF ks, of "txn_word tx" c] poll_engine [OF busy] rx
      read_buffer [OF ks, of "?c3\<lparr>nc_busy := 0\<rparr>"]
    by (simp only: spi_txn_def word_steps_def Let_def PWFPGA_SPI_BUF_BYTES_def not_less [symmetric] if_False if_True
        io_bind_def io_steps len go simp_thms prod.case sum.case or.right_neutral)
      (simp add: io_bind_def io_ret_def comp_def)
  show ?thesis using seen_frame [OF txn] c(2) by (simp add: completes_def run txn timely_def)
qed

section \<open>The promises of the flash\<close>

definition nor_attached :: "nor_card \<Rightarrow> bool" where
  "nor_attached c \<longleftrightarrow> nc_busy c = 0 \<and> chip_wip (nc_chip c) = 0 \<and> timely c"

definition nor_ready :: "nor_card \<Rightarrow> bool" where
  "nor_ready c \<longleftrightarrow> nor_attached c \<and> \<not> nc_cold c"

definition nor_mem :: "nor_card \<Rightarrow> nat \<Rightarrow> u8" where
  "nor_mem c = chip_mem (nc_chip c)"

lemmas nor_defs = nor_attached_def nor_ready_def nor_mem_def

text \<open>A transaction that is sent, for the commands that return nothing.\<close>

lemma send:
  assumes "nc_busy c = 0" "\<not> nc_cold c" "timely c" and "0 < length tx" "length tx \<le> 512"
    and "chip_txn tx (nc_chip c) = (k, rx)"
    and "\<And>c'. nc_chip c' = k \<Longrightarrow> nc_busy c' = 0 \<Longrightarrow> \<not> nc_cold c' \<Longrightarrow> timely c' \<Longrightarrow> Q (if want_rx then rx else []) c'"
  shows "completes (spi_txn engine_write32 engine_read32 tx want_rx False) c Q"
  by (rule completes_mono [OF engine_txn [OF assms(4,5,1,3)]]) (use assms(2,6,7) in \<open>auto simp: seen_def\<close>)

lemma idle:
  assumes "chip_wip (nc_chip c) < k" and "nc_busy c = 0" "\<not> nc_cold c" "timely c"
  shows "completes (idle_loop engine_write32 engine_read32 k) c (\<lambda>_ c'. nor_ready c' \<and> nor_mem c' = nor_mem c)"
  using assms
proof (induction k arbitrary: c)
  case (Suc k)
  let ?chip = "nc_chip c"
  have t: "chip_txn [0x05, 0x00] ?chip = (?chip\<lparr>chip_wip := chip_wip ?chip - 1\<rparr>, replicate 2 (if chip_wip ?chip > 0 then 1 else 0))"
    by (simp add: chip_txn_def numeral_2_eq_2)
  obtain c' rx where run: "spi_txn engine_write32 engine_read32 [0x05, 0x00] True False c = (c', Inr rx)"
    and c': "nc_chip c' = ?chip\<lparr>chip_wip := chip_wip ?chip - 1\<rparr>" "nc_busy c' = 0" "\<not> nc_cold c'" "timely c'"
      "rx = replicate 2 (if chip_wip ?chip > 0 then 1 else 0)"
    using completesD [OF send [OF Suc.prems(2-4) _ _ t, of "\<lambda>rx c'. nc_chip c' = ?chip\<lparr>chip_wip := chip_wip ?chip - 1\<rparr> \<and>
        nc_busy c' = 0 \<and> \<not> nc_cold c' \<and> timely c' \<and> rx = replicate 2 (if chip_wip ?chip > 0 then 1 else 0)" True]] by auto
  show ?case
  proof (cases "chip_wip ?chip")
    case 0
    then show ?thesis using c' run by (simp add: completes_def wip_def nor_defs)
  next
    case (Suc b)
    have "completes (idle_loop engine_write32 engine_read32 k) c' (\<lambda>_ c''. nor_ready c'' \<and> nor_mem c'' = nor_mem c')"
      by (rule Suc.IH) (use c' Suc Suc.prems(1) in simp_all)
    then show ?thesis using c' run Suc by (simp add: completes_def wip_def nor_mem_def)
  qed
qed simp

lemma addr3_chip: "unat a < FLASH_SZ \<Longrightarrow> chip_addr (cmd # addr3 a @ rest) = unat a"
proof -
  assume a: "unat a < FLASH_SZ"
  have "unat (ucast (drop_bit 16 a) :: u8) = unat a div 65536" "unat (ucast (drop_bit 8 a) :: u8) = unat a div 256 mod 256"
    "unat (ucast a :: u8) = unat a mod 256"
    using a by (simp_all add: unsigned_ucast_eq unat_drop_bit_eq take_bit_eq_mod FLASH_SZ_def del: drop_bit_eq_div)
      (simp_all add: drop_bit_eq_div)
  then have "chip_addr (cmd # addr3 a @ rest) = unat a div 65536 * 65536 + unat a div 256 mod 256 * 256 + unat a mod 256"
    by (simp add: chip_addr_def addr3_def)
  moreover have "unat a div 65536 = unat a div 256 div 256" by (simp add: div_mult2_eq [symmetric])
  ultimately show ?thesis using div_mult_mod_eq [of "unat a" 256] div_mult_mod_eq [of "unat a div 256" 256] by linarith
qed

lemma page_burn_fits:
  assumes "a mod PAGE + length data \<le> PAGE"
  shows "page_burn a data m = burn a data m"
proof -
  let ?step = "\<lambda>i m. let x = a div PAGE * PAGE + (a + i) mod PAGE in m(x := m x AND data ! i)"
  have at: "a div PAGE * PAGE + (a + i) mod PAGE = a + i" if "i < length data" for i
  proof -
    have e: "a = PAGE * (a div PAGE) + a mod PAGE" by simp
    have "(a + i) div PAGE = a div PAGE"
    proof (rule div_nat_eqI)
      show "PAGE * (a div PAGE) \<le> a + i" using e by linarith
      show "a + i < PAGE * Suc (a div PAGE)" unfolding mult_Suc_right using e that assms by linarith
    qed
    then show ?thesis by (metis div_mult_mod_eq)
  qed
  have "fold ?step [0..<k] m = burn a (take k data) m" if "k \<le> length data" for k
    using that
  proof (induction k)
    case (Suc k)
    then have k: "k < length data" by simp
    have "burn a (take (Suc k) data) m = burn (a + k) [data ! k] (burn a (take k data) m)"
      using burn_append [of a "take k data" "[data ! k]" m] k by (simp add: take_Suc_conv_app_nth min_absorb2)
    also have "\<dots> = (burn a (take k data) m)(a + k := burn a (take k data) m (a + k) AND data ! k)"
      by (auto simp: burn_def fun_eq_iff)
    finally have b: "burn a (take (Suc k) data) m = \<dots>" .
    have "fold ?step [0..<Suc k] m = ?step k (fold ?step [0..<k] m)" by simp
    also have "fold ?step [0..<k] m = burn a (take k data) m" by (rule Suc.IH [OF less_imp_le [OF k]])
    finally show ?case unfolding b at [OF k] Let_def .
  qed simp
  from this [of "length data"] show ?thesis by (simp add: page_burn_def)
qed

lemma write_enable:
  assumes "nor_ready c"
  shows "completes (wren engine_write32 engine_read32) c
    (\<lambda>_ c'. nor_ready c' \<and> nc_chip c' = (nc_chip c)\<lparr>chip_wel := True\<rparr>)"
  unfolding wren_def completes_bind completes_ret
  by (rule send [where k = "(nc_chip c)\<lparr>chip_wel := True\<rparr>" and rx = "[0]"])
    (use assms in \<open>simp_all add: nor_defs chip_txn_def\<close>)

text \<open>An erase or a program: enabled, sent, and waited for.\<close>

lemma write_command:
  assumes "nor_ready c" and "0 < length tx" "length tx \<le> 512"
    and "\<And>k. chip_wel k \<Longrightarrow> chip_wip k = 0 \<Longrightarrow> fst (chip_txn tx k) = chip_started k (f (chip_mem k))"
  shows "completes (io_bind (wren engine_write32 engine_read32) (\<lambda>_.
      io_bind (spi_txn engine_write32 engine_read32 tx False False) (\<lambda>_. wait_idle engine_write32 engine_read32))) c
    (\<lambda>_ c'. nor_ready c' \<and> nor_mem c' = f (nor_mem c))"
  unfolding completes_bind
proof (rule completes_mono [OF write_enable [OF assms(1)]], elim conjE)
  fix c1 :: nor_card
  let ?k = "chip_started (nc_chip c1) (f (nor_mem c))"
  assume c1: "nor_ready c1" "nc_chip c1 = (nc_chip c)\<lparr>chip_wel := True\<rparr>"
  have "fst (chip_txn tx (nc_chip c1)) = ?k" using assms(4) [of "nc_chip c1"] c1 by (simp add: nor_defs)
  then obtain rx where t: "chip_txn tx (nc_chip c1) = (?k, rx)" by (cases "chip_txn tx (nc_chip c1)") simp
  show "completes (spi_txn engine_write32 engine_read32 tx False False) c1
      (\<lambda>_ c'. completes (wait_idle engine_write32 engine_read32) c' (\<lambda>_ c'. nor_ready c' \<and> nor_mem c' = f (nor_mem c)))"
  proof (rule send [OF _ _ _ assms(2,3) t])
    fix c' :: nor_card
    assume c': "nc_chip c' = ?k" "nc_busy c' = 0" "\<not> nc_cold c'" "timely c'"
    have "chip_times (nc_chip c1) = chip_times ?k" by (simp add: chip_started_def)
    then have "chip_wip (nc_chip c') < 4000000" using c' by (simp add: timely_def chip_started_def)
    from idle [OF this c'(2-4)] show "completes (wait_idle engine_write32 engine_read32) c' (\<lambda>_ c'. nor_ready c' \<and> nor_mem c' = f (nor_mem c))"
      by (simp add: wait_idle_def nor_mem_def c'(1) chip_started_def)
  qed (use c1(1) in \<open>simp_all add: nor_defs\<close>)
qed

interpretation card_flash: nor_flash engine_write32 engine_read32 nor_mem nor_attached nor_ready
proof
  fix c :: nor_card
  assume c: "nor_attached c"
  have "fst (seen [0x05, 0x00] c) = nc_chip c" using c by (simp add: seen_def chip_txn_def nor_defs)
  then show "completes (warmup engine_write32 engine_read32) c (\<lambda>_ c'. nor_ready c' \<and> nor_mem c' = nor_mem c)"
    unfolding warmup_def completes_bind completes_ret
    by (intro completes_mono [OF engine_txn]) (use c in \<open>auto simp: nor_defs\<close>)
next
  fix c :: nor_card and a :: u32
  assume c: "nor_ready c" and a: "unat a < FLASH_SZ"
  show "completes (sector_erase engine_write32 engine_read32 a) c
      (\<lambda>_ c'. nor_ready c' \<and> nor_mem c' = (\<lambda>x. if x div SECTOR = unat a div SECTOR then 0xFF else nor_mem c x))"
    unfolding sector_erase_def
    by (rule write_command [OF c, where f = "\<lambda>m x. if x div SECTOR = unat a div SECTOR then 0xFF else m x"])
      (use addr3_chip [OF a, of _ "[]"] in \<open>simp_all add: chip_txn_def addr3_def\<close>)
next
  fix c :: nor_card and a :: u32 and data :: bytes
  assume c: "nor_ready c" and d: "data \<noteq> []" "unat a mod PAGE + length data \<le> PAGE" "unat a + length data \<le> FLASH_SZ"
  have a: "unat a < FLASH_SZ" using d(1,3) by (cases data) auto
  show "completes (page_program engine_write32 engine_read32 a data) c (\<lambda>_ c'. nor_ready c' \<and> nor_mem c' = burn (unat a) data (nor_mem c))"
    unfolding page_program_def
    by (rule write_command [OF c, where f = "burn (unat a) data"])
      (use addr3_chip [OF a, of _ data] d(2) page_burn_fits [OF d(2)] in \<open>simp_all add: chip_txn_def addr3_def PAGE_def\<close>)
next
  fix c :: nor_card and a :: u32 and len :: nat
  assume c: "nor_ready c" and l: "0 < len" "len \<le> 256" "unat a + len \<le> FLASH_SZ"
  let ?tx = "0x03 # addr3 a @ replicate len 0"
  let ?rx = "replicate 4 0 @ map (nor_mem c) [unat a..<unat a + len]"
  have a: "unat a < FLASH_SZ" using l by simp
  have "map (\<lambda>i. nor_mem c ((unat a + i) mod FLASH_SZ)) [0..<len] = map (nor_mem c) [unat a..<unat a + len]"
    using l by (intro nth_equalityI) simp_all
  then have t: "chip_txn ?tx (nc_chip c) = (nc_chip c, ?rx)"
    using c addr3_chip [OF a, of "0x03" "replicate len 0"] by (simp add: chip_txn_def nor_defs) (simp add: addr3_def)
  show "completes (flash_read engine_write32 engine_read32 a len) c
      (\<lambda>bs c'. bs = map (nor_mem c) [unat a..<unat a + len] \<and> nor_ready c' \<and> nor_mem c' = nor_mem c)"
    unfolding flash_read_def completes_bind completes_ret
    by (rule send [OF _ _ _ _ _ t]) (use c l in \<open>simp_all add: nor_defs addr3_def\<close>)
qed

section \<open>Properties\<close>

text \<open>
  C25. Flash programming writes what it is given and nothing else: for every image that lies in the 16 MB space, at any
  offset, aligned to a sector or a page or not, and on a card fresh from configuration or not, with arbitrary delays
  of the engine and of the flash within the bounds of the waiting loops, \<open>pw_flash_program\<close> returns success with
  no mismatch, the flash then holds the image at its place, and every other byte is as it was, those in the same
  sectors included.
\<close>

theorem flash_program_exact:
  assumes "nor_attached c" and "data \<noteq> []" and "unat offset + length data \<le> FLASH_SZ"
  shows "\<exists>c'. pw_flash_program (Some engine_write32) (Some engine_read32) offset (Some data) c = (c', Inr 0) \<and>
    nor_ready c' \<and>
    (\<forall>x. nor_mem c' x = (if unat offset \<le> x \<and> x < unat offset + length data then data ! (x - unat offset) else nor_mem c x))"
  using completesD [OF card_flash.programs [OF assms]] by auto

definition ex_nor_card :: nor_card where
  "ex_nor_card = \<lparr>nc_tx = (\<lambda>_. 0), nc_rx = (\<lambda>_. 0), nc_len = 0, nc_busy = 0, nc_count = 0, nc_delays = (\<lambda>k. k mod 7),
     nc_cold = True, nc_chip = \<lparr>chip_mem = (\<lambda>x. of_nat x), chip_wel = False, chip_wip = 0, chip_ops = 0,
       chip_times = (\<lambda>k. k mod 3), chip_id = [0x20, 0xBB, 0x19]\<rparr>\<rparr>"

lemma ex_nor_attached: "nor_attached ex_nor_card"
proof -
  have "k mod 7 < 2000000" "k mod 3 < 4000000" for k :: nat
    by (rule order.strict_trans2 [OF mod_less_divisor]; simp)+
  then show ?thesis by (simp add: nor_attached_def timely_def ex_nor_card_def)
qed

theorem flash_program_exact_witness:
  "\<exists>c'. pw_flash_program (Some engine_write32) (Some engine_read32) 0x12345 (Some [1, 2, 3]) ex_nor_card = (c', Inr 0) \<and>
     nor_mem c' 0x12346 = 2 \<and> nor_mem c' 0x12348 = 0x48 \<and> nor_mem c' 0x12344 = 0x44"
proof -
  from flash_program_exact [OF ex_nor_attached, of "[1, 2, 3]" "0x12345"] obtain c' where
    c': "pw_flash_program (Some engine_write32) (Some engine_read32) 0x12345 (Some [1, 2, 3]) ex_nor_card = (c', Inr 0)"
    and m: "\<And>x. nor_mem c' x = (if 0x12345 \<le> x \<and> x < 0x12348 then [1, 2, 3] ! (x - 0x12345) else nor_mem ex_nor_card x)"
    by (auto simp: FLASH_SZ_def)
  have "nor_mem ex_nor_card 0x12348 = 0x48" "nor_mem ex_nor_card 0x12344 = 0x44"
    by (simp_all add: nor_mem_def ex_nor_card_def)
  with c' m show ?thesis by (intro exI [of _ c']) simp
qed

text \<open>
  Reading the identification returns the bytes of the flash, on a cold card too: the first transfer is a throwaway.
\<close>

lemma flash_read_id_exact:
  assumes "nor_attached c" and "chip_id (nc_chip c) = [i0, i1, i2]"
  shows "\<exists>c'. pw_flash_read_id (Some engine_write32) (Some engine_read32) c = (c', Inr [i0, i1, i2])"
proof -
  have "fst (seen [0x05, 0x00] c) = nc_chip c" using assms(1) by (simp add: seen_def chip_txn_def nor_defs)
  then have w: "completes (warmup engine_write32 engine_read32) c (\<lambda>_ c'. nor_ready c' \<and> nc_chip c' = nc_chip c)"
    unfolding warmup_def completes_bind completes_ret
    by (intro completes_mono [OF engine_txn]) (use assms(1) in \<open>auto simp: nor_defs\<close>)
  have "completes (pw_flash_read_id (Some engine_write32) (Some engine_read32)) c (\<lambda>bs _. bs = [i0, i1, i2])"
    unfolding pw_flash_read_id_def option.case prod.case completes_bind completes_ret
  proof (rule completes_mono [OF w], elim conjE)
    fix c1
    assume c1: "nor_ready c1" "nc_chip c1 = nc_chip c"
    show "completes (spi_txn engine_write32 engine_read32 [0x9F, 0, 0, 0] True False) c1 (\<lambda>rx _. [rx ! 1, rx ! 2, rx ! 3] = [i0, i1, i2])"
      by (rule send [where k = "nc_chip c1" and rx = "[0, i0, i1, i2]"])
        (use c1 assms(2) in \<open>simp_all add: nor_defs chip_txn_def\<close>)
  qed
  from completesD [OF this] show ?thesis by blast
qed

end
