(* ===== verification/PW_Daemon_Flash.thy ===== *)
theory PW_Daemon_Flash
  imports PW_Daemon PW_Flash_Card
begin

text \<open>
  The requests \<open>flash.id\<close> and \<open>flash.write\<close> of the daemon, \<^verbatim>\<open>packetwyrmd/src/main.c\<close>: they act on the first open card,
  and a write is refused unless it lies in the 16 MB of the flash.
\<close>

section \<open>The requests\<close>

definition first_open :: "pw_config \<Rightarrow> 'w card_runtime list \<Rightarrow> nat option" where
  "first_open cfg cards = find (card_open cards) [0..<length (cfg_cards cfg)]"

text \<open>The register read of a backend as the flash code calls it: the status, and the value where there is one.\<close>

definition flash_reader :: "'w card_runtime \<Rightarrow> 'w rd32 option" where
  "flash_reader c = map_option (\<lambda>rd w a. case rd w a of (w', Inr v) \<Rightarrow> (w', PW_OK, v) | (w', Inl s) \<Rightarrow> (w', s, 0)) (cr_read32 c)"

definition flash_id :: "pw_config \<Rightarrow> 'w card_runtime list \<Rightarrow> 'w \<Rightarrow> 'w \<times> (string + bytes \<times> pw_status)" where
  "flash_id cfg cards w =
     (case first_open cfg cards of None \<Rightarrow> (w, Inl ''no open card'')
      | Some ci \<Rightarrow>
          (case pw_flash_read_id (op_write32 (cr_ops (cards ! ci))) (flash_reader (cards ! ci)) w of
             (w, Inr i) \<Rightarrow> (w, Inr (i, PW_OK))
           | (w, Inl s) \<Rightarrow> (w, Inr ([0, 0, 0], s))))"

text \<open>
  A file is its size, as \<open>ftell\<close> reports it at the end, and what reading delivers. The reply holds the size, the offset,
  the count of mismatches, whether the write is verified, and the status.
\<close>

type_synonym flash_file = "int \<times> bytes"

definition flash_write ::
  "(string option \<Rightarrow> flash_file option) \<Rightarrow> pw_config \<Rightarrow> 'w card_runtime list \<Rightarrow> string option \<Rightarrow> u32 \<Rightarrow> 'w \<Rightarrow>
     'w \<times> (string + int \<times> u32 \<times> u64 \<times> bool \<times> pw_status)" where
  "flash_write files cfg cards path off w =
     (case first_open cfg cards of None \<Rightarrow> (w, Inl ''no open card'')
      | Some ci \<Rightarrow>
          (case files path of None \<Rightarrow> (w, Inl ''open file failed'')
           | Some (sz, content) \<Rightarrow>
               if sz \<le> 0 \<or> sz > 16 * 2 ^ 20 then (w, Inl ''bad file size'')
               else if uint off + sz > 0x01000000
               then (w, Inl ''offset+size exceeds 16 MB (would wrap onto boot image); use offset 0 for a full image'')
               else let img = take (nat sz) content
                    in if int (length img) \<noteq> sz then (w, Inl ''file read failed'')
                       else (case pw_flash_program (op_write32 (cr_ops (cards ! ci))) (flash_reader (cards ! ci)) off (Some img) w of
                               (w, Inr mism) \<Rightarrow> (w, Inr (sz, off, mism, mism = 0, PW_OK))
                             | (w, Inl s) \<Rightarrow> (w, Inr (sz, off, 0, False, s)))))"

section \<open>What a write does\<close>

lemma first_open_closed: "(\<forall>i < length (cfg_cards cfg). \<not> card_open cards i) \<longleftrightarrow> first_open cfg cards = None"
  by (auto simp: first_open_def find_None_iff)

text \<open>Whatever the card, a refused request does not touch it.\<close>

lemma flash_write_refused: "flash_write files cfg cards path off w = (w', Inl e) \<Longrightarrow> w' = w"
  by (auto simp: flash_write_def Let_def split: option.splits if_splits prod.splits sum.splits)

text \<open>
  On a card with the SPI engine, a request for a file of at most 16 MB that fits behind the offset ends with a verified
  reply and with exactly the file in the flash; any other request is refused, and the card is as it was.
\<close>

lemma flash_write_exact:
  assumes card: "first_open cfg cards = Some ci" "op_write32 (cr_ops (cards ! ci)) = Some engine_write32"
      "flash_reader (cards ! ci) = Some engine_read32"
    and "nor_attached c"
    and img: "files path = Some (int (length data), data)"
  shows "if data \<noteq> [] \<and> unat off + length data \<le> FLASH_SZ
    then \<exists>c'. flash_write files cfg cards path off c = (c', Inr (int (length data), off, 0, True, PW_OK)) \<and>
      (\<forall>x. nor_mem c' x = (if unat off \<le> x \<and> x < unat off + length data then data ! (x - unat off) else nor_mem c x))
    else \<exists>e. flash_write files cfg cards path off c = (c, Inl e)"
proof -
  have u: "uint off = int (unat off)" by simp
  show ?thesis
  proof (cases "data \<noteq> [] \<and> unat off + length data \<le> FLASH_SZ")
    case True
    from completesD [OF card_flash.programs [OF assms(4), of data off]] True obtain c' where
      c': "pw_flash_program (Some engine_write32) (Some engine_read32) off (Some data) c = (c', Inr 0)"
      "\<forall>x. nor_mem c' x = (if unat off \<le> x \<and> x < unat off + length data then data ! (x - unat off) else nor_mem c x)"
      by auto
    have "unat off + length data \<le> 16777216" "0 < length data" using True by (simp_all add: FLASH_SZ_def)
    then have "uint off + int (length data) \<le> 0x01000000 \<and> int (length data) \<le> 16777216 \<and> 0 < int (length data)"
      using u by (intro conjI; linarith)
    with c' True show ?thesis by (simp add: flash_write_def card img)
  next
    case False
    then have "int (length data) \<le> 0 \<or> int (length data) > 16777216 \<or> uint off + int (length data) > 0x01000000"
      using u unfolding FLASH_SZ_def by (cases "data = []") (simp, linarith)
    then show ?thesis using False by (auto simp: flash_write_def card img)
  qed
qed

end
