(* ===== verification/PW_Pci.thy ===== *)
theory PW_Pci
  imports PW_Scalar "HOL-Library.Multiset" "HOL-Library.Char_ord" "HOL-Library.List_Lexorder"
begin

text \<open>
  PCI discovery of \<^verbatim>\<open>pci.c\<close>: canonical bus addresses, the walk over sysfs and the mapping of a BAR.
  What the kernel answers is a parameter: the names in the directory, the contents of the files, whether a
  file opens, its size and kind, and the address that \<open>mmap\<close> returns.
\<close>

section \<open>Bus addresses\<close>

text \<open>The loop over at most \<open>k\<close> digits: how many there were, their value, the rest.\<close>

fun hex_loop :: "nat \<Rightarrow> nat \<Rightarrow> nat \<Rightarrow> string \<Rightarrow> nat \<times> nat \<times> string" where
  "hex_loop 0 n v s = (n, v, s)"
| "hex_loop (Suc k) n v s =
     (case s of [] \<Rightarrow> (n, v, s)
      | c # cs \<Rightarrow> (case digit_val 16 c of None \<Rightarrow> (n, v, s) | Some d \<Rightarrow> hex_loop k (n + 1) (v * 16 + d) cs))"

definition parse_hex_field :: "nat \<Rightarrow> nat \<Rightarrow> string \<Rightarrow> pw_status + (nat \<times> string)" where
  "parse_hex_field maxdigits mx s =
     (case hex_loop maxdigits 0 0 s of (n, v, r) \<Rightarrow> if n = 0 \<or> v > mx then Inl PW_E_INVAL else Inr (v, r))"

definition expect :: "char \<Rightarrow> string \<Rightarrow> pw_status + string" where
  "expect c s = (case s of [] \<Rightarrow> Inl PW_E_INVAL | x # xs \<Rightarrow> if x = c then Inr xs else Inl PW_E_INVAL)"

text \<open>The conversion \<open>%0wlx\<close> of a number that has at most \<open>w\<close> digits, and the canonical form.\<close>

fun hex_fixed :: "nat \<Rightarrow> nat \<Rightarrow> string" where
  "hex_fixed 0 n = []"
| "hex_fixed (Suc w) n = hex_fixed w (n div 16) @ [hex_digit (n mod 16)]"

definition bdf_text :: "nat \<Rightarrow> nat \<Rightarrow> nat \<Rightarrow> nat \<Rightarrow> string" where
  "bdf_text domain bus dev func =
     hex_fixed 4 domain @ CHR '':'' # hex_fixed 2 bus @ CHR '':'' # hex_fixed 2 dev @ CHR ''.'' # dec_string func"

definition pw_pci_normalize_bdf :: "string option \<Rightarrow> pw_status + string" where
  "pw_pci_normalize_bdf inp =
     (case inp of None \<Rightarrow> Inl PW_E_INVAL
      | Some s \<Rightarrow>
          rbind (fail_if (CHR '':'' \<notin> set s) PW_E_INVAL) (\<lambda>_.
          let c2 = CHR '':'' \<in> set (drop 1 (dropWhile (\<lambda>c. c \<noteq> CHR '':'') s)) in
          rbind (if c2 then rbind (parse_hex_field 4 0xFFFF s) (\<lambda>(d, r).
                            rbind (expect CHR '':'' r) (\<lambda>r. Inr (d, r)))
                 else Inr (0, s)) (\<lambda>(domain, p).
          rbind (parse_hex_field 2 0xFF p) (\<lambda>(bus, p).
          rbind (expect CHR '':'' p) (\<lambda>p.
          rbind (parse_hex_field 2 0x1F p) (\<lambda>(dev, p).
          rbind (expect CHR ''.'' p) (\<lambda>p.
          rbind (parse_hex_field 1 7 p) (\<lambda>(func, p).
          rbind (fail_if (p \<noteq> []) PW_E_INVAL) (\<lambda>_.
          Inr (bdf_text domain bus dev func))))))))))"

section \<open>Discovery\<close>

record pw_pci_device =
  dev_bdf :: string
  dev_vendor :: u16
  dev_device :: u16
  dev_subsystem_vendor :: u16
  dev_subsystem_device :: u16

definition PW_SYSFS_PCI :: string where
  "PW_SYSFS_PCI = ''/sys/bus/pci/devices''"

text \<open>\<open>files\<close> gives the contents of a file that opens.\<close>

definition read_hex_file :: "(string \<Rightarrow> string option) \<Rightarrow> string \<Rightarrow> u32 option" where
  "read_hex_file files path = Option.bind (files path) (\<lambda>t. map_option fst (scan_hex t))"

definition read_pci_device :: "(string \<Rightarrow> string option) \<Rightarrow> string \<Rightarrow> pw_pci_device option" where
  "read_pci_device files bdf =
     (if length bdf = 0 \<or> length bdf \<ge> PW_PCI_BDF_MAX then None
      else let rd = \<lambda>name. read_hex_file files (PW_SYSFS_PCI @ ''/'' @ bdf @ ''/'' @ name);
               opt = \<lambda>v. (case v of None \<Rightarrow> 0 | Some x \<Rightarrow> ucast (x :: u32)) in
        case (rd ''vendor'', rd ''device'') of
          (Some v, Some d) \<Rightarrow> Some \<lparr>dev_bdf = bdf, dev_vendor = ucast v, dev_device = ucast d,
             dev_subsystem_vendor = opt (rd ''subsystem_vendor''), dev_subsystem_device = opt (rd ''subsystem_device'')\<rparr>
        | _ \<Rightarrow> None)"

text \<open>The walk over the directory: the devices that match, in the order of \<open>readdir\<close>.\<close>

definition matching :: "(string \<Rightarrow> string option) \<Rightarrow> u16 \<Rightarrow> u16 \<Rightarrow> string \<Rightarrow> pw_pci_device option" where
  "matching files vendor device name =
     (if take 1 name = ''.'' then None
      else case read_pci_device files name of None \<Rightarrow> None
           | Some d \<Rightarrow> if vendor \<noteq> 0 \<and> dev_vendor d \<noteq> vendor then None
                       else if device \<noteq> 0 \<and> dev_device d \<noteq> device then None else Some d)"

text \<open>
  The exchange sort: one pass carries the smallest element of the rest to the front, swapping it with
  whatever it meets that is larger.
\<close>

fun exchange_pass :: "pw_pci_device \<Rightarrow> pw_pci_device list \<Rightarrow> pw_pci_device \<times> pw_pci_device list" where
  "exchange_pass x [] = (x, [])"
| "exchange_pass x (y # ys) =
     (if dev_bdf x > dev_bdf y then (case exchange_pass y ys of (m, r) \<Rightarrow> (m, x # r))
      else (case exchange_pass x ys of (m, r) \<Rightarrow> (m, y # r)))"

lemma exchange_pass_length: "length (snd (exchange_pass x ys)) = length ys"
  by (induction x ys rule: exchange_pass.induct) (auto split: prod.splits)

function exchange_sort :: "pw_pci_device list \<Rightarrow> pw_pci_device list" where
  "exchange_sort [] = []"
| "exchange_sort (x # xs) = fst (exchange_pass x xs) # exchange_sort (snd (exchange_pass x xs))"
  by pat_completeness auto
termination by (relation "measure length") (simp_all add: exchange_pass_length)

text \<open>
  The directory either fails to open, for lack of a bus or otherwise, or lists its names. \<open>cap\<close> is the
  capacity of the output array, absent when the caller passes none. The result is the number of matches and
  what was written.
\<close>

datatype sysfs_dir = No_bus | Unreadable | Names "string list"

definition pw_pci_discover ::
  "(string \<Rightarrow> string option) \<Rightarrow> sysfs_dir \<Rightarrow> u16 \<Rightarrow> u16 \<Rightarrow> nat option \<Rightarrow> pw_status + (nat \<times> pw_pci_device list)" where
  "pw_pci_discover files dir vendor device cap =
     (case dir of No_bus \<Rightarrow> Inr (0, []) | Unreadable \<Rightarrow> Inl PW_E_IO
      | Names ns \<Rightarrow>
          let found = List.map_filter (matching files vendor device) ns in
          Inr (length found,
               case cap of None \<Rightarrow> []
               | Some n \<Rightarrow> if length found > 1 then exchange_sort (take n found) else take n found))"

section \<open>Mapping a BAR\<close>

text \<open>A node as the kernel shows it: it does not open, its status cannot be read, or its size and whether it is a regular file.\<close>

datatype bar_node = Not_opened | No_status | Node nat bool

definition pw_pci_open_bar0_path ::
  "(string \<Rightarrow> bar_node) \<Rightarrow> (nat \<Rightarrow> 'a option) \<Rightarrow> string option \<Rightarrow> pw_status + ('a \<times> nat)" where
  "pw_pci_open_bar0_path nodes mmap path =
     (case path of None \<Rightarrow> Inl PW_E_INVAL
      | Some p \<Rightarrow>
          (case nodes p of Not_opened \<Rightarrow> Inl PW_E_IO | No_status \<Rightarrow> Inl PW_E_IO
           | Node st_size isreg \<Rightarrow>
               rbind (fail_if (st_size = 0 \<and> isreg) PW_E_OUT_OF_RANGE) (\<lambda>_.
               let sz = (if st_size = 0 then 65536 else st_size) in
               case mmap sz of None \<Rightarrow> Inl PW_E_IO | Some a \<Rightarrow> Inr (a, sz))))"

definition pw_pci_open_bar0 ::
  "(string \<Rightarrow> bar_node) \<Rightarrow> (nat \<Rightarrow> 'a option) \<Rightarrow> string option \<Rightarrow> pw_status + ('a \<times> nat)" where
  "pw_pci_open_bar0 nodes mmap bdf =
     (case pw_pci_normalize_bdf bdf of Inl _ \<Rightarrow> Inl PW_E_INVAL
      | Inr cbdf \<Rightarrow> pw_pci_open_bar0_path nodes mmap (Some (PW_SYSFS_PCI @ ''/'' @ cbdf @ ''/resource0'')))"

section \<open>What a bus address is\<close>

text \<open>A numeral of at most \<open>k\<close> digits and of value at most \<open>mx\<close>, and the two forms of an address.\<close>

definition hexnum :: "nat \<Rightarrow> nat \<Rightarrow> string \<Rightarrow> nat \<Rightarrow> bool" where
  "hexnum k mx h n \<longleftrightarrow> h \<noteq> [] \<and> length h \<le> k \<and> (\<forall>c\<in>set h. digit_val 16 c \<noteq> None) \<and> n = digits_value 16 0 h \<and> n \<le> mx"

definition bdf_form :: "string \<Rightarrow> nat \<Rightarrow> nat \<Rightarrow> nat \<Rightarrow> nat \<Rightarrow> bool" where
  "bdf_form s domain bus dev func \<longleftrightarrow>
     (\<exists>hb hv hf. hexnum 2 0xFF hb bus \<and> hexnum 2 0x1F hv dev \<and> hexnum 1 7 hf func \<and>
        (let short = hb @ CHR '':'' # hv @ CHR ''.'' # hf in
         s = short \<and> domain = 0 \<or> (\<exists>hd. hexnum 4 0xFFFF hd domain \<and> s = hd @ CHR '':'' # short)))"

lemma hex_loop_run:
  "hex_loop k n v s = (let h = takeWhile (\<lambda>c. digit_val 16 c \<noteq> None) (take k s) in
     (n + length h, digits_value 16 v h, drop (length h) s))"
  by (induction k n v s rule: hex_loop.induct) (auto simp: Let_def split: list.splits option.splits)

text \<open>A field that is followed by something that is not a digit.\<close>

lemma take_digits:
  assumes "\<forall>c\<in>set h. P c" and "length h \<le> k" and "length h < k \<longrightarrow> \<not> (case r of [] \<Rightarrow> False | c # _ \<Rightarrow> P c)"
  shows "takeWhile P (take k (h @ r)) = h"
proof -
  have "takeWhile P (take (k - length h) r) = []"
    using assms(2,3) by (cases r; cases "k - length h") auto
  with assms(1,2) show ?thesis by (simp add: takeWhile_append2)
qed

lemma digits_split: "takeWhile P (take k s) @ drop (length (takeWhile P (take k s))) s = s"
proof -
  have "takeWhile P (take k s) = take (length (takeWhile P (take k s))) (take k s)" by (rule takeWhile_eq_take)
  moreover have "length (takeWhile P (take k s)) \<le> k" by (rule le_trans [OF length_takeWhile_le]) simp
  ultimately have "takeWhile P (take k s) = take (length (takeWhile P (take k s))) s" by (simp add: min_absorb1)
  then show ?thesis by (metis append_take_drop_id)
qed

lemma field_Inr: "parse_hex_field k mx s = Inr (v, r) \<Longrightarrow> \<exists>h. s = h @ r \<and> hexnum k mx h v"
proof -
  let ?h = "takeWhile (\<lambda>c. digit_val 16 c \<noteq> None) (take k s)"
  assume "parse_hex_field k mx s = Inr (v, r)"
  then have "?h \<noteq> []" "v = digits_value 16 0 ?h" "v \<le> mx" "r = drop (length ?h) s"
    by (auto simp: parse_hex_field_def hex_loop_run Let_def split: if_splits)
  moreover have "length ?h \<le> k" by (rule le_trans [OF length_takeWhile_le]) simp
  moreover have "\<forall>c\<in>set ?h. digit_val 16 c \<noteq> None" by (blast dest: set_takeWhileD)
  ultimately show ?thesis using digits_split [of _ k s] by (intro exI [of _ ?h]) (simp add: hexnum_def)
qed

lemma field_reads:
  assumes "hexnum k mx h v" and "\<not> starts_digit 16 r"
  shows "parse_hex_field k mx (h @ r) = Inr (v, r)"
proof -
  have "takeWhile (\<lambda>c. digit_val 16 c \<noteq> None) (take k (h @ r)) = h"
    by (rule take_digits) (use assms in \<open>auto simp: hexnum_def starts_digit_def split: list.splits\<close>)
  with assms(1) show ?thesis by (auto simp: parse_hex_field_def hex_loop_run hexnum_def)
qed

lemma expect_Inr: "expect c s = Inr r \<longleftrightarrow> s = c # r"
  by (auto simp: expect_def split: list.splits)

lemma separators: "\<not> starts_digit 16 (CHR '':'' # r)" "\<not> starts_digit 16 (CHR ''.'' # r)" "\<not> starts_digit 16 []"
  by (simp_all add: starts_digit_def digit_val_def)

lemma hexnum_no_colon: "hexnum k mx h v \<Longrightarrow> CHR '':'' \<notin> set h"
  by (auto simp: hexnum_def digit_val_def)

lemma normalize_Inr:
  "pw_pci_normalize_bdf (Some s) = Inr t \<longleftrightarrow> (\<exists>d b v f. bdf_form s d b v f \<and> t = bdf_text d b v f)"
proof
  assume "pw_pci_normalize_bdf (Some s) = Inr t"
  then obtain d p bus p1 p2 dev p3 p4 func where
    dom: "(if CHR '':'' \<in> set (drop 1 (dropWhile (\<lambda>c. c \<noteq> CHR '':'') s))
      then rbind (parse_hex_field 4 0xFFFF s) (\<lambda>(d, r). rbind (expect CHR '':'' r) (\<lambda>r. Inr (d, r))) else Inr (0, s)) = Inr (d, p)"
    and f: "parse_hex_field 2 0xFF p = Inr (bus, p1)" "expect CHR '':'' p1 = Inr p2" "parse_hex_field 2 0x1F p2 = Inr (dev, p3)"
      "expect CHR ''.'' p3 = Inr p4" "parse_hex_field 1 7 p4 = Inr (func, [])"
    and t: "t = bdf_text d bus dev func"
    by (auto simp: pw_pci_normalize_bdf_def Let_def rbind_eq_Inr)
  from field_Inr [OF f(1)] field_Inr [OF f(3)] field_Inr [OF f(5)] obtain hb hv hf where
    h: "hexnum 2 0xFF hb bus" "hexnum 2 0x1F hv dev" "hexnum 1 7 hf func" and p: "p = hb @ p1" "p2 = hv @ p3" "p4 = hf" by auto
  have short: "p = hb @ CHR '':'' # hv @ CHR ''.'' # hf" using f(2,4) p by (simp add: expect_Inr)
  have "s = p \<and> d = 0 \<or> (\<exists>hd. hexnum 4 0xFFFF hd d \<and> s = hd @ CHR '':'' # p)"
    using dom field_Inr [of 4 "0xFFFF" s] by (fastforce simp: rbind_eq_Inr expect_Inr split: if_splits)
  with h short t show "\<exists>d b v f. bdf_form s d b v f \<and> t = bdf_text d b v f"
    unfolding bdf_form_def Let_def by blast
next
  assume "\<exists>d b v f. bdf_form s d b v f \<and> t = bdf_text d b v f"
  then obtain d b v f hb hv hf where h: "hexnum 2 0xFF hb b" "hexnum 2 0x1F hv v" "hexnum 1 7 hf f"
    and t: "t = bdf_text d b v f"
    and s: "s = hb @ CHR '':'' # hv @ CHR ''.'' # hf \<and> d = 0 \<or>
      (\<exists>hd. hexnum 4 0xFFFF hd d \<and> s = hd @ CHR '':'' # hb @ CHR '':'' # hv @ CHR ''.'' # hf)"
    by (auto simp: bdf_form_def Let_def)
  have nc: "CHR '':'' \<notin> set hb" "CHR '':'' \<notin> set hv" "CHR '':'' \<notin> set hf" using h hexnum_no_colon by blast+
  have dw: "dropWhile (\<lambda>c. c \<noteq> CHR '':'') (x @ CHR '':'' # y) = CHR '':'' # y" if "CHR '':'' \<notin> set x" for x y
    using that by (subst dropWhile_append2) auto
  note reads = field_reads [OF h(1) separators(1)] field_reads [OF h(2) separators(2)] field_reads [OF h(3) separators(3), simplified]
  from s show "pw_pci_normalize_bdf (Some s) = Inr t"
  proof
    assume "s = hb @ CHR '':'' # hv @ CHR ''.'' # hf \<and> d = 0"
    with nc t reads show ?thesis by (simp add: pw_pci_normalize_bdf_def dw expect_Inr expect_def)
  next
    assume "\<exists>hd. hexnum 4 0xFFFF hd d \<and> s = hd @ CHR '':'' # hb @ CHR '':'' # hv @ CHR ''.'' # hf"
    then obtain hd where hd: "hexnum 4 0xFFFF hd d" "s = hd @ CHR '':'' # hb @ CHR '':'' # hv @ CHR ''.'' # hf" by blast
    note r4 = field_reads [OF hd(1) separators(1)]
    from hd(2) hexnum_no_colon [OF hd(1)] t reads r4 show ?thesis
      by (simp add: pw_pci_normalize_bdf_def dw expect_def)
  qed
qed

text \<open>The canonical form is one of the forms.\<close>

lemma hex_fixed_num: "n < 16 ^ w \<Longrightarrow> length (hex_fixed w n) = w \<and> (\<forall>c\<in>set (hex_fixed w n). digit_val 16 c \<noteq> None) \<and>
    digits_value 16 0 (hex_fixed w n) = n"
proof (induction w arbitrary: n)
  case (Suc w)
  then have "n div 16 < 16 ^ w" by (simp add: less_mult_imp_div_less mult.commute)
  from Suc.IH [OF this] show ?case by (auto simp: hex_digit_val digits_value_def)
qed simp

lemma hexnum_fixed: "n \<le> mx \<Longrightarrow> mx < 16 ^ w \<Longrightarrow> 0 < w \<Longrightarrow> hexnum w mx (hex_fixed w n) n"
  using hex_fixed_num [of n w] by (auto simp: hexnum_def)

lemma dec_digit_hex: "n \<le> 7 \<Longrightarrow> dec_string n = hex_fixed 1 n"
  by (simp add: dec_string.simps hex_digit_def)

lemma canonical_form:
  assumes "d \<le> 0xFFFF" "b \<le> 0xFF" "v \<le> 0x1F" "f \<le> 7"
  shows "bdf_form (bdf_text d b v f) d b v f"
proof -
  have "hexnum 4 0xFFFF (hex_fixed 4 d) d" "hexnum 2 0xFF (hex_fixed 2 b) b" "hexnum 2 0x1F (hex_fixed 2 v) v" "hexnum 1 7 (hex_fixed 1 f) f"
    by (rule hexnum_fixed; use assms in simp)+
  then show ?thesis unfolding bdf_form_def bdf_text_def Let_def dec_digit_hex [OF assms(4)] by blast
qed

lemma form_ranges: "bdf_form s d b v f \<Longrightarrow> d \<le> 0xFFFF \<and> b \<le> 0xFF \<and> v \<le> 0x1F \<and> f \<le> 7"
  by (auto simp: bdf_form_def Let_def hexnum_def)

section \<open>Sorting\<close>

lemma exchange_pass_mset: "exchange_pass x ys = (m, r) \<Longrightarrow> mset (m # r) = mset (x # ys)"
  by (induction x ys arbitrary: m r rule: exchange_pass.induct) (fastforce split: prod.splits if_splits)+

lemma exchange_pass_min: "exchange_pass x ys = (m, r) \<Longrightarrow> dev_bdf m \<le> dev_bdf x \<and> (\<forall>y\<in>set r. dev_bdf m \<le> dev_bdf y)"
  by (induction x ys arbitrary: m r rule: exchange_pass.induct) (fastforce split: prod.splits if_splits)+

lemma exchange_sort_mset: "mset (exchange_sort xs) = mset xs"
proof (induction xs rule: exchange_sort.induct)
  case (2 x xs)
  then show ?case using exchange_pass_mset [of x xs] by (cases "exchange_pass x xs") auto
qed simp

lemma exchange_sort_sorted: "sorted (map dev_bdf (exchange_sort xs))"
proof (induction xs rule: exchange_sort.induct)
  case (2 x xs)
  have "set (exchange_sort (snd (exchange_pass x xs))) = set (snd (exchange_pass x xs))"
    by (metis exchange_sort_mset set_mset_mset)
  with 2 show ?case using exchange_pass_min [of x xs] by (cases "exchange_pass x xs") auto
qed simp

section \<open>Properties\<close>

text \<open>
  Bus addresses are read exactly and get one canonical spelling: an input is accepted iff it is, with or without a
  domain of one to four hexadecimal digits, a bus of one or two digits, a device of one or two with value at most 31
  and a function of one digit at most 7, separated by colons and a dot; the result spells these numbers in twelve
  characters, and is itself accepted and left unchanged.
\<close>

lemma bdf_exact:
  "(pw_pci_normalize_bdf (Some s) = Inr t \<longleftrightarrow> (\<exists>d b v f. bdf_form s d b v f \<and> t = bdf_text d b v f)) \<and>
   (pw_pci_normalize_bdf (Some s) = Inr t \<longrightarrow> pw_pci_normalize_bdf (Some t) = Inr t \<and> length t = 12)"
proof (intro conjI impI)
  show "pw_pci_normalize_bdf (Some s) = Inr t \<longleftrightarrow> (\<exists>d b v f. bdf_form s d b v f \<and> t = bdf_text d b v f)"
    by (rule normalize_Inr)
  assume "pw_pci_normalize_bdf (Some s) = Inr t"
  then obtain d b v f where "bdf_form s d b v f" and t: "t = bdf_text d b v f" unfolding normalize_Inr by blast
  note r = form_ranges [OF this(1)]
  then have "bdf_form t d b v f" using canonical_form t by blast
  with t show "pw_pci_normalize_bdf (Some t) = Inr t" unfolding normalize_Inr by blast
  show "length t = 12"
    using r hex_fixed_num [of d 4] hex_fixed_num [of b 2] hex_fixed_num [of v 2] hex_fixed_num [of f 1]
    by (simp add: t bdf_text_def dec_digit_hex del: hex_fixed.simps)
qed

lemma bdf_exact_witness:
  "pw_pci_normalize_bdf (Some ''7:0.1'') = Inr ''0000:07:00.1'' \<and> pw_pci_normalize_bdf (Some ''0000:07:00.1'') = Inr ''0000:07:00.1''"
proof -
  have "pw_pci_normalize_bdf (Some ''7:0.1'') = Inr ''0000:07:00.1''" by code_simp
  with bdf_exact [of "''7:0.1''" "''0000:07:00.1''"] show ?thesis by blast
qed

text \<open>
  Discovery reports every matching device and writes the first of them in order of their addresses: the count is
  the number of directory entries that describe a device with the wanted vendor and product, and what is written
  is, sorted by address, as many of them as the array holds.
\<close>

lemma discover_sorted:
  "\<exists>out. pw_pci_discover files (Names ns) vendor device (Some n) =
       Inr (length (List.map_filter (matching files vendor device) ns), out) \<and>
     mset out = mset (take n (List.map_filter (matching files vendor device) ns)) \<and> sorted (map dev_bdf out)"
proof -
  have short: "exchange_sort ys = ys" if "length ys \<le> 1" for ys
    using that by (cases ys rule: exchange_sort.cases) auto
  have "(if length xs > 1 then exchange_sort (take n xs) else take n xs) = exchange_sort (take n xs)" for xs
    using short [of "take n xs"] by (cases "length xs > 1") auto
  then show ?thesis
    using exchange_sort_mset exchange_sort_sorted by (auto simp: pw_pci_discover_def Let_def)
qed

end
