(* ===== verification/PW_Cli_Firmware.thy ===== *)
theory PW_Cli_Firmware
  imports PW_Cli PW_Daemon_Flash PW_Pci
begin

text \<open>
  The commands \<open>load\<close> and \<open>firmware update\<close> of the tool: the checks before a configuration goes to the daemon, and the
  replacement of a card's image, which reaches the flash of the card without the daemon.
\<close>

section \<open>Loading a configuration\<close>

text \<open>The path, the socket, and whether it is only checked.\<close>

definition no_path :: "string option \<Rightarrow> string \<Rightarrow> string option" where
  "no_path path a = (case path of None \<Rightarrow> Some a | Some p \<Rightarrow> Some p)"

definition only_check :: "string \<Rightarrow> bool" where
  "only_check a \<longleftrightarrow> a = ''--check'' \<or> a = ''-n''"

fun load_options :: "string option \<times> string option \<times> bool \<Rightarrow> string list \<Rightarrow> string option \<times> string option \<times> bool" where
  "load_options (path, sock, check) (a # b # as) =
     (if a = ''--socket'' then load_options (path, Some b, check) as
      else if only_check a then load_options (path, sock, True) (b # as)
      else if a = ''--env'' \<or> a = ''--secret'' then load_options (path, sock, check) as
      else load_options (no_path path a, sock, check) (b # as))"
| "load_options (path, sock, check) [a] = (if only_check a then (path, sock, True) else (no_path path a, sock, check))"
| "load_options (path, sock, check) [] = (path, sock, check)"

text \<open>The check without the daemon: a whole configuration compiles, or the file is one for tests.\<close>

definition offline_ok :: "(string \<Rightarrow> yaml_event list) \<Rightarrow> (string \<Rightarrow> (int \<times> string) option) \<Rightarrow> string \<Rightarrow> bool" where
  "offline_ok libyaml files path =
     (case pw_config_parse_file libyaml files (Some path) (Some pw_config_new) of
        Inr cfg \<Rightarrow> pw_config_validate (Some cfg) = PW_OK \<and> \<not> isl (pw_flow_compile (Some cfg))
      | Inl _ \<Rightarrow> \<not> isl (pw_config_parse_file_ex libyaml files (Some path) True (Some pw_config_new)))"

text \<open>
  The content that is sent is read again (\<open>slurp\<close>); \<open>request\<close> is the request that json-c writes for it, \<open>rpc\<close> the call,
  with what it does to a state \<open>'w\<close> (a call through a gateway ignores the socket). The result is the exit code.
\<close>

definition cmd_load ::
  "'j json_c \<Rightarrow> (string \<Rightarrow> yaml_event list) \<Rightarrow> (string \<Rightarrow> (int \<times> string) option) \<Rightarrow> (string \<Rightarrow> string option) \<Rightarrow> (string \<Rightarrow> string) \<Rightarrow>
     (string \<Rightarrow> string \<Rightarrow> nat \<Rightarrow> 'w \<Rightarrow> 'w \<times> string option) \<Rightarrow> string list \<Rightarrow> 'w \<Rightarrow> 'w \<times> int" where
  "cmd_load jc libyaml files slurp request rpc argv w =
     (case load_options (None, None, False) argv of
        (None, _, _) \<Rightarrow> (w, 2)
      | (Some path, o_sock, check_only) \<Rightarrow>
          let sock = (case o_sock of Some s \<Rightarrow> s | None \<Rightarrow> PW_IPC_DEFAULT_PATH) in
          if \<not> offline_ok libyaml files path then (w, 1)
          else if check_only then (w, 0)
          else case slurp path of None \<Rightarrow> (w, 1)
               | Some yaml \<Rightarrow>
                   (case rpc sock (request yaml) PW_IPC_FRAME_MAX w of
                      (w, None) \<Rightarrow> (w, 1)
                    | (w, Some resp) \<Rightarrow>
                        (case jc_parse jc (octets resp) of None \<Rightarrow> (w, 1)
                         | Some r \<Rightarrow> (w, if jc_field jc r ''error'' \<noteq> None then 1 else 0))))"

text \<open>Only a file that passes the check is sent, and success means that it was checked, or sent and not refused.\<close>

lemma load_checks_first:
  assumes "cmd_load jc libyaml files slurp request rpc argv w = (w', code)"
    and "load_options (None, None, False) argv = (Some path, o_sock, check_only)"
  shows "code = 0 \<Longrightarrow> offline_ok libyaml files path"
    and "check_only \<or> \<not> offline_ok libyaml files path \<Longrightarrow> w' = w"
    and "code = 0 \<Longrightarrow> \<not> check_only \<Longrightarrow> \<exists>yaml resp r. slurp path = Some yaml \<and>
      rpc (case o_sock of Some s \<Rightarrow> s | None \<Rightarrow> PW_IPC_DEFAULT_PATH) (request yaml) PW_IPC_FRAME_MAX w = (w', Some resp) \<and>
      jc_parse jc (octets resp) = Some r \<and> jc_field jc r ''error'' = None"
  using assms by (auto simp: cmd_load_def Let_def split: if_splits option.splits prod.splits)

section \<open>Replacing the image of a card\<close>

text \<open>
  A card as the command reaches it: binding and opening it, its registers, reading its build id, and removing it from
  the bus and scanning again.
\<close>

record 'w firmware_card =
  fw_open :: "string \<Rightarrow> 'w \<Rightarrow> 'w \<times> bool"
  fw_write32 :: "'w wr32 option"
  fw_read32 :: "'w rd32 option"
  fw_build_id :: "'w \<Rightarrow> 'w \<times> u32"
  fw_rescan :: "string \<Rightarrow> 'w \<Rightarrow> 'w"

fun firmware_options :: "string option \<times> bool \<times> bool \<Rightarrow> string list \<Rightarrow> (string option \<times> bool \<times> bool) option" where
  "firmware_options (bdf, boot, scratch) (a # b # as) =
     (if a = ''--card'' then firmware_options (Some b, boot, scratch) as
      else if a = ''--boot'' then firmware_options (bdf, True, scratch) (b # as)
      else if a = ''--scratch'' then firmware_options (bdf, boot, True) (b # as)
      else None)"
| "firmware_options (bdf, boot, scratch) [a] =
     (if a = ''--boot'' then Some (bdf, True, scratch) else if a = ''--scratch'' then Some (bdf, boot, True) else None)"
| "firmware_options (bdf, boot, scratch) [] = Some (bdf, boot, scratch)"

definition PWFPGA_REG_REBOOT :: u32 where "PWFPGA_REG_REBOOT = 0x0120"
definition PWFPGA_REBOOT_MAGIC :: u32 where "PWFPGA_REBOOT_MAGIC = 0x52424F54"

text \<open>Where the image goes.\<close>

definition flash_target :: "bool \<Rightarrow> u32" where
  "flash_target scratch = (if scratch then 0x00E00000 else 0)"

text \<open>The reload of the card, and the comparison of its build id with the one before.\<close>

definition firmware_reload :: "'w firmware_card \<Rightarrow> string \<Rightarrow> u32 \<Rightarrow> 'w \<Rightarrow> 'w \<times> int" where
  "firmware_reload fc bdf before w =
     (let w = wr (fw_write32 fc) w PWFPGA_REG_REBOOT PWFPGA_REBOOT_MAGIC in
      case pw_pci_normalize_bdf (Some bdf) of Inl _ \<Rightarrow> (w, 1)
      | Inr cbdf \<Rightarrow>
          (case fw_open fc bdf (fw_rescan fc cbdf w) of
             (w, False) \<Rightarrow> (w, 1)
           | (w, True) \<Rightarrow> (case fw_build_id fc w of (w, after) \<Rightarrow> (w, if after = before then 1 else 0))))"

definition cmd_firmware :: "(string \<Rightarrow> flash_file option) \<Rightarrow> 'w firmware_card \<Rightarrow> string list \<Rightarrow> 'w \<Rightarrow> 'w \<times> int" where
  "cmd_firmware files fc argv w =
     (case argv of
        a # file # rest \<Rightarrow>
          if a \<noteq> ''update'' then (w, 2)
          else (case firmware_options (None, False, False) rest of
                  Some (Some bdf, boot, scratch) \<Rightarrow>
                    let off = flash_target scratch in
                    (case files file of None \<Rightarrow> (w, 1)
                     | Some (sz, content) \<Rightarrow>
                         let img = take (nat sz) content in
                         if sz \<le> 0 \<or> sz > 16 * 2 ^ 20 then (w, 1)
                         else if uint off + sz > 0x01000000 then (w, 1)
                         else if int (length img) \<noteq> sz then (w, 1)
                         else (case fw_open fc bdf w of
                                 (w, False) \<Rightarrow> (w, 1)
                               | (w, True) \<Rightarrow>
                                   (case fw_build_id fc w of (w, before) \<Rightarrow>
                                     (case pw_flash_program (fw_write32 fc) (fw_read32 fc) off (Some img) w of
                                        (w, Inl _) \<Rightarrow> (w, 1)
                                      | (w, Inr mism) \<Rightarrow>
                                          if mism \<noteq> 0 then (w, 1)
                                          else if \<not> boot then (w, 0)
                                          else if scratch then (w, 2)
                                          else firmware_reload fc bdf before w))))
                | _ \<Rightarrow> (w, 2))
      | _ \<Rightarrow> (w, 2))"


lemma image_fits:
  "\<not> (int (length data) \<le> 0 \<or> int (length data) > 16 * 2 ^ 20) \<and> \<not> uint (flash_target scratch) + int (length data) > 0x01000000 \<longleftrightarrow>
     data \<noteq> [] \<and> unat (flash_target scratch) + length data \<le> FLASH_SZ"
  by (auto simp: flash_target_def FLASH_SZ_def)

text \<open>
  C15. \<open>pktwyrm firmware update\<close>, on a card with the SPI engine. The target is the boot image unless \<open>--scratch\<close> is
  given, no further choice is asked for. An image that does not fit behind the offset is refused and the card is as it
  was. Otherwise the flash then holds exactly the image at that place and is as it was elsewhere; without \<open>--boot\<close> that
  is the end, with success; with \<open>--scratch\<close> and \<open>--boot\<close> the command fails, after the write; and with \<open>--boot\<close> alone
  the card is reloaded, only now.
\<close>

theorem firmware_update_exact:
  assumes "firmware_options (None, False, False) rest = Some (Some bdf, boot, scratch)" "off = (if scratch then 0xE00000 else 0)"
    and "files file = Some (int (length data), data)" and "fw_open fc bdf c = (c, True)" "fw_build_id fc c = (c, before)"
    and "fw_write32 fc = Some engine_write32" "fw_read32 fc = Some engine_read32" and "nor_attached c"
  shows "if data \<noteq> [] \<and> off + length data \<le> FLASH_SZ
    then \<exists>c'. (\<forall>x. nor_mem c' x = (if off \<le> x \<and> x < off + length data then data ! (x - off) else nor_mem c x)) \<and>
      cmd_firmware files fc (''update'' # file # rest) c =
        (if \<not> boot then (c', 0) else if scratch then (c', 2) else firmware_reload fc bdf before c')
    else cmd_firmware files fc (''update'' # file # rest) c = (c, 1)"
proof (cases "data \<noteq> [] \<and> off + length data \<le> FLASH_SZ")
  case True
  have off: "unat (flash_target scratch) = off" by (simp add: flash_target_def assms(2))
  from completesD [OF card_flash.programs [OF assms(8), of data "flash_target scratch"]] True obtain c' where
    c': "pw_flash_program (Some engine_write32) (Some engine_read32) (flash_target scratch) (Some data) c = (c', Inr 0)"
    "\<forall>x. nor_mem c' x = (if off \<le> x \<and> x < off + length data then data ! (x - off) else nor_mem c x)"
    by (auto simp: off)
  have "cmd_firmware files fc (''update'' # file # rest) c =
      (if \<not> boot then (c', 0) else if scratch then (c', 2) else firmware_reload fc bdf before c')"
    using image_fits [of data scratch] True c'(1) assms by (simp add: cmd_firmware_def off)
  with c'(2) show ?thesis unfolding if_P [OF True] by blast
next
  case False
  moreover have "unat (flash_target scratch) = off" by (simp add: flash_target_def assms(2))
  ultimately show ?thesis using image_fits [of data scratch] assms(1,3) by (auto simp: cmd_firmware_def Let_def)
qed

definition ex_firmware :: "nor_card firmware_card" where
  "ex_firmware = \<lparr>fw_open = \<lambda>_ c. (c, True), fw_write32 = Some engine_write32, fw_read32 = Some engine_read32,
     fw_build_id = \<lambda>c. (c, 7), fw_rescan = \<lambda>_ c. c\<rparr>"

theorem firmware_update_exact_witness:
  "\<exists>c'. cmd_firmware (\<lambda>_. Some (3, [1, 2, 3])) ex_firmware [''update'', ''a.bin'', ''--card'', ''07:00.0''] ex_nor_card = (c', 0) \<and>
     nor_mem c' 1 = 2 \<and> nor_mem c' 3 = 3"
proof -
  have o1: "firmware_options (None, False, False) [''--card'', ''07:00.0''] = Some (Some ''07:00.0'', False, False)" by simp
  have "nor_mem ex_nor_card 3 = 3" by (simp add: nor_mem_def ex_nor_card_def)
  then show ?thesis
    using firmware_update_exact [OF o1, of 0 "\<lambda>_. Some (3, [1, 2, 3])" "''a.bin''" "[1, 2, 3]" ex_firmware ex_nor_card 7, OF _ _ _ _ _ _ ex_nor_attached]
    by (auto simp: ex_firmware_def FLASH_SZ_def)
qed

end
