(* ===== verification/PW_Dma.thy ===== *)
theory PW_Dma
  imports PW_Bar_Backend
begin

text \<open>
  The slow path of the BAR backend, \<^verbatim>\<open>backend_bar.c\<close>: the legacy punt and inject windows, the XDMA
  descriptor rings, the inject transfer and the punt reaper, and how an opened BAR is attached.
  What the hardware answers to a polled register is an argument: the values read, in order.
\<close>

section \<open>Constants\<close>

definition PW_DMA_FRAME_CAP :: nat where "PW_DMA_FRAME_CAP = 16384"
definition PW_DMA_HDR_LEN :: nat where "PW_DMA_HDR_LEN = 8"
definition PW_DMA_RX_RING :: nat where "PW_DMA_RX_RING = 16"
definition XDMA_DESC_SIZE :: nat where "XDMA_DESC_SIZE = 32"

definition PWFPGA_XDMA_DESC_MAGIC :: u32 where "PWFPGA_XDMA_DESC_MAGIC = 0xAD4B0000"
definition PWFPGA_XDMA_DESC_STOP :: u32 where "PWFPGA_XDMA_DESC_STOP = 1"
definition PWFPGA_XDMA_DESC_COMPLETED :: u32 where "PWFPGA_XDMA_DESC_COMPLETED = 2"
definition PWFPGA_XDMA_DESC_EOP :: u32 where "PWFPGA_XDMA_DESC_EOP = 16"
definition PWFPGA_XDMA_H2C_CHANNEL :: u32 where "PWFPGA_XDMA_H2C_CHANNEL = 0x0000"
definition PWFPGA_XDMA_C2H_CHANNEL :: u32 where "PWFPGA_XDMA_C2H_CHANNEL = 0x1000"
definition PWFPGA_XDMA_H2C_SGDMA :: u32 where "PWFPGA_XDMA_H2C_SGDMA = 0x4000"
definition PWFPGA_XDMA_C2H_SGDMA :: u32 where "PWFPGA_XDMA_C2H_SGDMA = 0x5000"
definition PWFPGA_XDMA_CH_CONTROL :: u32 where "PWFPGA_XDMA_CH_CONTROL = 0x04"
definition PWFPGA_XDMA_CH_STATUS_RC :: u32 where "PWFPGA_XDMA_CH_STATUS_RC = 0x44"
definition PWFPGA_XDMA_SG_DESC_ADDR_LO :: u32 where "PWFPGA_XDMA_SG_DESC_ADDR_LO = 0x80"
definition PWFPGA_XDMA_SG_DESC_ADDR_HI :: u32 where "PWFPGA_XDMA_SG_DESC_ADDR_HI = 0x84"
definition PWFPGA_XDMA_SG_DESC_ADJ :: u32 where "PWFPGA_XDMA_SG_DESC_ADJ = 0x88"
definition PWFPGA_XDMA_CTRL_RUN :: u32 where "PWFPGA_XDMA_CTRL_RUN = 1"
definition PWFPGA_XDMA_STAT_ERR :: u32 where
  "PWFPGA_XDMA_STAT_ERR = push_bit 3 1 OR push_bit 9 0x1F OR push_bit 19 0x1F"
definition PWFPGA_CSR_DMA_OFFSET :: u32 where "PWFPGA_CSR_DMA_OFFSET = 0x10000"

definition PWFPGA_WIN_PUNT_RX :: u32 where "PWFPGA_WIN_PUNT_RX = 0x1000"
definition PWFPGA_REG_PUNT_STATUS :: u32 where "PWFPGA_REG_PUNT_STATUS = PWFPGA_WIN_PUNT_RX"
definition PWFPGA_REG_PUNT_INFO :: u32 where "PWFPGA_REG_PUNT_INFO = PWFPGA_WIN_PUNT_RX + 0x004"
definition PWFPGA_REG_PUNT_LIF :: u32 where "PWFPGA_REG_PUNT_LIF = PWFPGA_WIN_PUNT_RX + 0x008"
definition PWFPGA_REG_PUNT_POP :: u32 where "PWFPGA_REG_PUNT_POP = PWFPGA_WIN_PUNT_RX + 0x00C"
definition PWFPGA_REG_PUNT_RX_TS_LOW :: u32 where "PWFPGA_REG_PUNT_RX_TS_LOW = PWFPGA_WIN_PUNT_RX + 0x010"
definition PWFPGA_REG_PUNT_RX_TS_HIGH :: u32 where "PWFPGA_REG_PUNT_RX_TS_HIGH = PWFPGA_WIN_PUNT_RX + 0x014"
definition PWFPGA_PUNT_DATA :: u32 where "PWFPGA_PUNT_DATA = PWFPGA_WIN_PUNT_RX + 0x020"
definition PWFPGA_PUNT_MAX_FRAME :: nat where "PWFPGA_PUNT_MAX_FRAME = 2048"
definition PWFPGA_PUNT_STATUS_VALID :: u32 where "PWFPGA_PUNT_STATUS_VALID = 1"
definition PWFPGA_PUNT_INFO_LEN_MASK :: u32 where "PWFPGA_PUNT_INFO_LEN_MASK = 0x3FFF"

definition PWFPGA_WIN_INJECT_TX :: u32 where "PWFPGA_WIN_INJECT_TX = 0x0D00"
definition PWFPGA_REG_INJECT_CTRL :: u32 where "PWFPGA_REG_INJECT_CTRL = PWFPGA_WIN_INJECT_TX"
definition PWFPGA_REG_INJECT_INFO :: u32 where "PWFPGA_REG_INJECT_INFO = PWFPGA_WIN_INJECT_TX + 0x004"
definition PWFPGA_INJECT_DATA :: u32 where "PWFPGA_INJECT_DATA = PWFPGA_WIN_INJECT_TX + 0x040"
definition PWFPGA_INJECT_MAX_FRAME :: nat where "PWFPGA_INJECT_MAX_FRAME = 512"
definition PWFPGA_INJECT_CTRL_GO :: u32 where "PWFPGA_INJECT_CTRL_GO = 1"
definition PWFPGA_INJECT_STATUS_BUSY :: u32 where "PWFPGA_INJECT_STATUS_BUSY = 1"
definition PWFPGA_INJECT_INFO_EGRESS_SHIFT :: nat where "PWFPGA_INJECT_INFO_EGRESS_SHIFT = 16"

lemmas dma_consts = PW_DMA_FRAME_CAP_def PW_DMA_HDR_LEN_def PW_DMA_RX_RING_def XDMA_DESC_SIZE_def

lemmas slow_regs = PWFPGA_WIN_PUNT_RX_def PWFPGA_REG_PUNT_STATUS_def PWFPGA_REG_PUNT_INFO_def
  PWFPGA_REG_PUNT_LIF_def PWFPGA_REG_PUNT_POP_def PWFPGA_REG_PUNT_RX_TS_LOW_def
  PWFPGA_REG_PUNT_RX_TS_HIGH_def PWFPGA_PUNT_DATA_def PWFPGA_PUNT_MAX_FRAME_def
  PWFPGA_PUNT_STATUS_VALID_def PWFPGA_PUNT_INFO_LEN_MASK_def PWFPGA_WIN_INJECT_TX_def
  PWFPGA_REG_INJECT_CTRL_def PWFPGA_REG_INJECT_INFO_def PWFPGA_INJECT_DATA_def
  PWFPGA_INJECT_MAX_FRAME_def PWFPGA_INJECT_CTRL_GO_def PWFPGA_INJECT_STATUS_BUSY_def
  PWFPGA_INJECT_INFO_EGRESS_SHIFT_def

section \<open>Descriptors and pool layout\<close>

record pwfpga_xdma_desc =
  xd_control :: u32
  xd_bytes :: u32
  xd_src_addr_lo :: u32
  xd_src_addr_hi :: u32
  xd_dst_addr_lo :: u32
  xd_dst_addr_hi :: u32
  xd_next_lo :: u32
  xd_next_hi :: u32

definition desc_fill :: "u32 \<Rightarrow> u32 \<Rightarrow> u64 \<Rightarrow> u64 \<Rightarrow> pwfpga_xdma_desc" where
  "desc_fill ctrl_flags bytes src dst =
     \<lparr>xd_control = PWFPGA_XDMA_DESC_MAGIC OR ctrl_flags, xd_bytes = bytes,
      xd_src_addr_lo = ucast src, xd_src_addr_hi = ucast (drop_bit 32 src),
      xd_dst_addr_lo = ucast dst, xd_dst_addr_hi = ucast (drop_bit 32 dst),
      xd_next_lo = 0, xd_next_hi = 0\<rparr>"

text \<open>The regions \<open>dma_setup\<close> carves out of the pool: offset and length.\<close>

definition off_ring :: nat where "off_ring = 64"
definition ring_bytes :: nat where "ring_bytes = PW_DMA_RX_RING * XDMA_DESC_SIZE"
definition off_tx :: nat where "off_tx = ((off_ring + ring_bytes + 63) div 64) * 64"
definition off_rx :: nat where "off_rx = off_tx + PW_DMA_FRAME_CAP"

definition dma_pool_len :: "nat \<Rightarrow> nat" where
  "dma_pool_len ps =
     (let need = 1024 + (1 + PW_DMA_RX_RING) * PW_DMA_FRAME_CAP in ((need + ps - 1) div ps) * ps)"

definition dma_regions :: "(nat \<times> nat) list" where
  "dma_regions = (0, XDMA_DESC_SIZE) # (off_ring, ring_bytes) # (off_tx, PW_DMA_FRAME_CAP) #
     map (\<lambda>i. (off_rx + i * PW_DMA_FRAME_CAP, PW_DMA_FRAME_CAP)) [0..<PW_DMA_RX_RING]"

text \<open>The circular punt ring as \<open>dma_arm_c2h\<close> links it.\<close>

definition c2h_desc :: "u64 \<Rightarrow> u64 \<Rightarrow> nat \<Rightarrow> pwfpga_xdma_desc" where
  "c2h_desc ring_iova bufs_iova i =
     (let dst = bufs_iova + of_nat i * of_nat PW_DMA_FRAME_CAP;
          nxt = ring_iova + of_nat ((i + 1) mod PW_DMA_RX_RING) * of_nat XDMA_DESC_SIZE
      in (desc_fill PWFPGA_XDMA_DESC_COMPLETED (of_nat PW_DMA_FRAME_CAP) 0 dst)
           \<lparr>xd_next_lo := ucast nxt, xd_next_hi := ucast (drop_bit 32 nxt)\<rparr>)"

text \<open>
  An access to the XDMA registers that the engine reacts to: every write, and the reads of the
  read-to-clear status register. They are logged in program order; the polled values are arguments.
\<close>

datatype xdma_access = Xdma_wr u32 u32 | Xdma_rd u32

record dma_state =
  dma_pool_iova :: u64
  dma_pool_size :: nat
  dma_h2c_desc :: pwfpga_xdma_desc
  dma_h2c_desc_iova :: u64
  dma_tx_buf :: bytes
  dma_tx_iova :: u64
  dma_c2h_ring :: "pwfpga_xdma_desc list"
  dma_c2h_ring_iova :: u64
  dma_rx_bufs :: "nat \<Rightarrow> bytes"
  dma_rx_bufs_iova :: u64
  dma_c2h_cmpl_base :: u32
  dma_rx_consumed :: u32
  dma_c2h_overrun :: u64
  dma_c2h_err :: u64
  dma_c2h_armed :: bool
  dma_log :: "xdma_access list"

definition xdma_do :: "xdma_access list \<Rightarrow> dma_state \<Rightarrow> dma_state" where
  "xdma_do as d = d\<lparr>dma_log := dma_log d @ as\<rparr>"

definition zero_desc :: pwfpga_xdma_desc where
  "zero_desc = \<lparr>xd_control = 0, xd_bytes = 0, xd_src_addr_lo = 0, xd_src_addr_hi = 0,
     xd_dst_addr_lo = 0, xd_dst_addr_hi = 0, xd_next_lo = 0, xd_next_hi = 0\<rparr>"

text \<open>
  \<open>dma_setup\<close>: \<open>region\<close> is the outcome of mapping the register BAR, \<open>ps\<close> the reported page size,
  \<open>pool_ok\<close> and \<open>state_ok\<close> whether the two allocations succeed, \<open>map_dma\<close> the outcome of mapping the
  pool for the device with the address the device sees.
\<close>

definition dma_setup ::
  "pw_status + unit \<Rightarrow> int \<Rightarrow> bool \<Rightarrow> pw_status + u64 \<Rightarrow> bool \<Rightarrow> pw_status + dma_state" where
  "dma_setup region ps pool_ok map_dma state_ok =
     rbind region (\<lambda>_.
     rbind (fail_if (\<not> pool_ok) PW_E_NO_RESOURCES) (\<lambda>_.
     rbind map_dma (\<lambda>iova.
     rbind (fail_if (\<not> state_ok) PW_E_NO_RESOURCES) (\<lambda>_.
     Inr \<lparr>dma_pool_iova = iova, dma_pool_size = dma_pool_len (if ps \<le> 0 then 4096 else nat ps),
          dma_h2c_desc = zero_desc, dma_h2c_desc_iova = iova,
          dma_tx_buf = replicate PW_DMA_FRAME_CAP 0, dma_tx_iova = iova + of_nat off_tx,
          dma_c2h_ring = replicate PW_DMA_RX_RING zero_desc, dma_c2h_ring_iova = iova + of_nat off_ring,
          dma_rx_bufs = (\<lambda>_. replicate PW_DMA_FRAME_CAP 0), dma_rx_bufs_iova = iova + of_nat off_rx,
          dma_c2h_cmpl_base = 0, dma_rx_consumed = 0, dma_c2h_overrun = 0, dma_c2h_err = 0,
          dma_c2h_armed = False, dma_log = []\<rparr>))))"

definition start_channel :: "u32 \<Rightarrow> u32 \<Rightarrow> u64 \<Rightarrow> xdma_access list" where
  "start_channel sgdma channel iova =
     [Xdma_wr (sgdma + PWFPGA_XDMA_SG_DESC_ADDR_LO) (ucast iova),
      Xdma_wr (sgdma + PWFPGA_XDMA_SG_DESC_ADDR_HI) (ucast (drop_bit 32 iova)),
      Xdma_wr (sgdma + PWFPGA_XDMA_SG_DESC_ADJ) 0,
      Xdma_wr (channel + PWFPGA_XDMA_CH_CONTROL) PWFPGA_XDMA_CTRL_RUN]"

definition dma_arm_c2h :: "u32 \<Rightarrow> dma_state \<Rightarrow> dma_state" where
  "dma_arm_c2h completed_count d =
     xdma_do (start_channel PWFPGA_XDMA_C2H_SGDMA PWFPGA_XDMA_C2H_CHANNEL (dma_c2h_ring_iova d))
       (d\<lparr>dma_c2h_ring := map (c2h_desc (dma_c2h_ring_iova d) (dma_rx_bufs_iova d)) [0..<PW_DMA_RX_RING],
          dma_rx_consumed := 0, dma_c2h_cmpl_base := completed_count, dma_c2h_armed := True\<rparr>)"

section \<open>Inject (H2C)\<close>

text \<open>The poll loop: each observation is the completed count, the channel status, and whether the
  200 ms deadline has passed. The result is \<open>None\<close> while none of them ends the loop.\<close>

fun h2c_poll :: "(u32 \<times> u32 \<times> bool) list \<Rightarrow> pw_status option" where
  "h2c_poll [] = None"
| "h2c_poll ((count, st, late) # obs) =
     (if count \<noteq> 0 then Some PW_OK
      else if st AND PWFPGA_XDMA_STAT_ERR \<noteq> 0 then Some PW_E_IO
      else if late then Some PW_E_IO
      else h2c_poll obs)"

text \<open>The accesses after the loop: the channel is stopped, and a latched error is cleared.\<close>

definition h2c_finish :: "pw_status option \<Rightarrow> xdma_access list" where
  "h2c_finish r =
     (case r of None \<Rightarrow> []
      | Some st \<Rightarrow> Xdma_wr (PWFPGA_XDMA_H2C_CHANNEL + PWFPGA_XDMA_CH_CONTROL) 0 #
          (if st \<noteq> PW_OK then [Xdma_rd (PWFPGA_XDMA_H2C_CHANNEL + PWFPGA_XDMA_CH_STATUS_RC)] else []))"

definition dma_slow_path_tx ::
  "dma_state \<Rightarrow> (u32 \<times> u32 \<times> bool) list \<Rightarrow> bytes option \<Rightarrow> u8 \<Rightarrow> dma_state \<times> pw_status option" where
  "dma_slow_path_tx d obs o_frame egress =
     (case o_frame of None \<Rightarrow> (d, Some PW_E_INVAL)
      | Some frame \<Rightarrow>
          if frame = [] then (d, Some PW_E_INVAL)
          else if length frame + PW_DMA_HDR_LEN > PW_DMA_FRAME_CAP then (d, Some PW_E_INVAL)
          else
            let total = PW_DMA_HDR_LEN + length frame;
                d1 = d\<lparr>dma_tx_buf := egress # replicate (PW_DMA_HDR_LEN - 1) 0 @ frame @ drop total (dma_tx_buf d),
                       dma_h2c_desc := desc_fill
                         (PWFPGA_XDMA_DESC_STOP OR PWFPGA_XDMA_DESC_EOP OR PWFPGA_XDMA_DESC_COMPLETED)
                         (of_nat total) (dma_tx_iova d) 0\<rparr>;
                d2 = xdma_do (start_channel PWFPGA_XDMA_H2C_SGDMA PWFPGA_XDMA_H2C_CHANNEL (dma_h2c_desc_iova d1)) d1;
                r = h2c_poll obs
            in (xdma_do (h2c_finish r) d2, r))"

section \<open>Punt (C2H)\<close>

definition punt_frame_len :: "bytes \<Rightarrow> nat \<Rightarrow> nat" where
  "punt_frame_len f cap =
     (let et = unat (be16 (f ! 12) (f ! 13));
          len = (if et < 0x0600 then 14 + et
                 else if et = 0x0800 then 14 + unat (be16 (f ! 16) (f ! 17))
                 else if et = 0x86DD then 14 + 40 + unat (be16 (f ! 18) (f ! 19))
                 else if et = 0x0806 then 42 else 0)
      in if len > cap then cap else len)"

text \<open>
  The reaper: the next frame to hand out given the completed count. \<open>None\<close> when there is none;
  otherwise the number of the frame since arming, with the state after the skip of an overrun.
\<close>

definition c2h_next :: "dma_state \<Rightarrow> u32 \<Rightarrow> (dma_state \<times> u32) option" where
  "c2h_next d cnt =
     (let fin = cnt - dma_c2h_cmpl_base d
      in if dma_rx_consumed d \<ge> fin then None
         else
           let d1 = (if fin - dma_rx_consumed d \<ge> of_nat PW_DMA_RX_RING
                     then d\<lparr>dma_c2h_overrun := dma_c2h_overrun d +
                              ucast ((fin - dma_rx_consumed d) - (of_nat PW_DMA_RX_RING - 1)),
                            dma_rx_consumed := fin - (of_nat PW_DMA_RX_RING - 1)\<rparr>
                     else d)
           in Some (d1\<lparr>dma_rx_consumed := dma_rx_consumed d1 + 1\<rparr>, dma_rx_consumed d1))"

definition buf_lif :: "bytes \<Rightarrow> u32" where
  "buf_lif rb = le32 (rb ! 0) (rb ! 1) (rb ! 2) (rb ! 3)"

definition buf_payload :: "bytes \<Rightarrow> nat" where
  "buf_payload rb =
     (let hdr_len = unat (be16 (rb ! 6) (rb ! 5));
          p = (if hdr_len \<noteq> 0 then hdr_len
               else punt_frame_len (drop PW_DMA_HDR_LEN rb) (PW_DMA_FRAME_CAP - PW_DMA_HDR_LEN))
      in if p > PW_DMA_FRAME_CAP - PW_DMA_HDR_LEN then PW_DMA_FRAME_CAP - PW_DMA_HDR_LEN else p)"

text \<open>
  The registers a call reads: the completed count at the arming, if it arms, the channel status and
  the completed count. A missing buffer is \<open>None\<close>; the result is the delivered bytes, whose number
  the call returns, and the interface, or nothing when no frame is waiting.
\<close>

record c2h_reads =
  cr_base :: u32
  cr_status :: u32
  cr_count :: u32

definition dma_slow_path_rx ::
  "dma_state \<Rightarrow> c2h_reads \<Rightarrow> nat option \<Rightarrow> pw_status + dma_state \<times> (bytes \<times> u32) option" where
  "dma_slow_path_rx d rds o_buf =
     (case o_buf of None \<Rightarrow> Inl PW_E_INVAL
      | Some buflen \<Rightarrow>
          let d0 = (if dma_c2h_armed d then d else dma_arm_c2h (cr_base rds) d);
              d1 = (if cr_status rds AND PWFPGA_XDMA_STAT_ERR \<noteq> 0
                    then xdma_do [Xdma_rd (PWFPGA_XDMA_C2H_CHANNEL + PWFPGA_XDMA_CH_STATUS_RC)]
                           (d0\<lparr>dma_c2h_err := dma_c2h_err d0 + 1\<rparr>)
                    else d0)
          in case c2h_next d1 (cr_count rds) of None \<Rightarrow> Inr (d1, None)
             | Some (d2, k) \<Rightarrow>
                 let rb = dma_rx_bufs d2 (unat (k mod of_nat PW_DMA_RX_RING));
                     payload = buf_payload rb;
                     copy = (if payload > buflen then buflen else payload)
                 in Inr (d2, Some (take copy (drop PW_DMA_HDR_LEN rb), buf_lif rb)))"

section \<open>The windows of builds without DMA\<close>

text \<open>The part of \<open>bar_slow_path_rx\<close> and \<open>bar_slow_path_tx\<close> that follows the dispatch to DMA.\<close>

definition punt_window_rx :: "bar_ctx \<Rightarrow> nat \<Rightarrow> pw_status + bar_ctx \<times> (bytes \<times> u32 \<times> u64) option" where
  "punt_window_rx c buflen =
     (if \<not> csr_range_ok c (ucast PWFPGA_WIN_PUNT_RX)
            (ucast (PWFPGA_PUNT_DATA - PWFPGA_WIN_PUNT_RX) + of_nat PWFPGA_PUNT_MAX_FRAME)
      then Inl PW_E_OUT_OF_RANGE
      else if bar_get c PWFPGA_REG_PUNT_STATUS AND PWFPGA_PUNT_STATUS_VALID = 0 then Inr (c, None)
      else
        let len0 = unat (bar_get c PWFPGA_REG_PUNT_INFO AND PWFPGA_PUNT_INFO_LEN_MASK);
            lif = bar_get c PWFPGA_REG_PUNT_LIF;
            rx_ts = ucast (bar_get c PWFPGA_REG_PUNT_RX_TS_LOW) OR
                    push_bit 32 (ucast (bar_get c PWFPGA_REG_PUNT_RX_TS_HIGH));
            len = (if len0 > PWFPGA_PUNT_MAX_FRAME then PWFPGA_PUNT_MAX_FRAME else len0);
            copy = (if len > buflen then buflen else len)
        in Inr (bar_put c PWFPGA_REG_PUNT_POP 1,
                Some (bar_copy_words_out (bar_mem c) (reg_at c PWFPGA_PUNT_DATA) copy, lif, rx_ts)))"

text \<open>The bounded spin on the busy bit: \<open>rd k\<close> is the \<open>k\<close>-th value read; the number of reads until
  the bit is clear, or \<open>None\<close> after \<open>n\<close> reads.\<close>

fun spin :: "(nat \<Rightarrow> u32) \<Rightarrow> nat \<Rightarrow> nat \<Rightarrow> nat option" where
  "spin rd k 0 = None"
| "spin rd k (Suc n) =
     (if rd k AND PWFPGA_INJECT_STATUS_BUSY = 0 then Some (Suc k) else spin rd (Suc k) n)"

definition inject_window_tx ::
  "bar_ctx \<Rightarrow> (nat \<Rightarrow> u32) \<Rightarrow> bytes option \<Rightarrow> u8 \<Rightarrow> bar_ctx \<times> pw_status" where
  "inject_window_tx c rd o_frame egress =
     (case o_frame of None \<Rightarrow> (c, PW_E_INVAL)
      | Some frame \<Rightarrow>
          let len = length frame
          in if len = 0 then (c, PW_E_INVAL)
             else if len > PWFPGA_INJECT_MAX_FRAME then (c, PW_E_INVAL)
             else if unat PWFPGA_INJECT_DATA + (len + 3) div 4 * 4 > unat (bar_size c)
             then (c, PW_E_OUT_OF_RANGE)
             else
               let k1 = (case spin rd 0 100000 of Some k \<Rightarrow> k | None \<Rightarrow> 100000)
               in if rd k1 AND PWFPGA_INJECT_STATUS_BUSY \<noteq> 0 then (c, PW_E_IO)
                  else
                    let c1 = c\<lparr>bar_mem := bar_copy_words (bar_mem c) (reg_at c PWFPGA_INJECT_DATA) frame\<rparr>;
                        c2 = bar_put c1 PWFPGA_REG_INJECT_INFO
                               (push_bit PWFPGA_INJECT_INFO_EGRESS_SHIFT (ucast egress) OR
                                (of_nat len AND 0x3FFF));
                        c3 = bar_put c2 PWFPGA_REG_INJECT_CTRL PWFPGA_INJECT_CTRL_GO
                    in (c3, case spin rd (Suc k1) 100000 of Some _ \<Rightarrow> PW_OK | None \<Rightarrow> PW_E_IO))"

section \<open>The slow path of an attached card\<close>

record bar_dev =
  dev_bar :: bar_ctx
  dev_use_vfio :: bool
  dev_dma :: "dma_state option"

definition bar_slow_path_rx ::
  "bar_dev \<Rightarrow> c2h_reads \<Rightarrow> nat option \<Rightarrow> pw_status + bar_dev \<times> (bytes \<times> u32 \<times> u64) option" where
  "bar_slow_path_rx v rds o_buf =
     (case dev_dma v of
        Some d \<Rightarrow> rbind (dma_slow_path_rx d rds o_buf) (\<lambda>(d', r).
          Inr (v\<lparr>dev_dma := Some d'\<rparr>, map_option (\<lambda>(b, lif). (b, lif, 0)) r))
      | None \<Rightarrow> rbind (or_fail o_buf PW_E_INVAL) (\<lambda>buflen.
          rbind (punt_window_rx (dev_bar v) buflen) (\<lambda>(c, r). Inr (v\<lparr>dev_bar := c\<rparr>, r))))"

definition bar_slow_path_tx ::
  "bar_dev \<Rightarrow> (u32 \<times> u32 \<times> bool) list \<Rightarrow> (nat \<Rightarrow> u32) \<Rightarrow> bytes option \<Rightarrow> u8 \<Rightarrow> bar_dev \<times> pw_status option" where
  "bar_slow_path_tx v obs rd o_frame egress =
     (case dev_dma v of
        Some d \<Rightarrow> (let (d', r) = dma_slow_path_tx d obs o_frame egress in (v\<lparr>dev_dma := Some d'\<rparr>, r))
      | None \<Rightarrow> (let (c, r) = inject_window_tx (dev_bar v) rd o_frame egress in (v\<lparr>dev_bar := c\<rparr>, Some r)))"

text \<open>\<open>dma_teardown\<close>: the DMA state is dropped; the result has the accesses it made in its life.\<close>

definition dma_teardown :: "bar_dev \<Rightarrow> bar_dev \<times> xdma_access list" where
  "dma_teardown v =
     (case dev_dma v of None \<Rightarrow> (v, [])
      | Some d \<Rightarrow> (v\<lparr>dev_dma := None\<rparr>, dma_log d @
          [Xdma_wr (PWFPGA_XDMA_H2C_CHANNEL + PWFPGA_XDMA_CH_CONTROL) 0,
           Xdma_wr (PWFPGA_XDMA_C2H_CHANNEL + PWFPGA_XDMA_CH_CONTROL) 0]))"

section \<open>Attaching\<close>

definition probe_csr_off :: "(nat \<Rightarrow> u32) \<Rightarrow> u64 \<Rightarrow> u32" where
  "probe_csr_off m sz =
     (if unat sz \<ge> unat PWFPGA_CSR_DMA_OFFSET + 0x1000
      then let at0 = m (unat PWFPGA_REG_DEVICE_ID);
               athi = m (unat (PWFPGA_CSR_DMA_OFFSET + PWFPGA_REG_DEVICE_ID))
           in if drop_bit 16 athi = 0xA502 \<and> drop_bit 16 at0 \<noteq> 0xA502 then PWFPGA_CSR_DMA_OFFSET else 0
      else 0)"

text \<open>\<open>dma\<close> is the outcome \<open>dma_setup\<close> has on this device; the context is always allocated.\<close>

definition bar_backend_attach ::
  "(nat \<Rightarrow> u32) \<Rightarrow> u64 \<Rightarrow> bool \<Rightarrow> pw_status + dma_state \<Rightarrow> pw_status + bar_dev" where
  "bar_backend_attach m sz vfio dma =
     (let c = \<lparr>bar_mem = m, bar_size = sz, bar_csr_off = probe_csr_off m sz\<rparr>
      in if \<not> csr_range_ok c 0 (ucast (PWFPGA_REG_NUM_HIST_BINS + 4)) then Inl PW_E_OUT_OF_RANGE
         else if bar_get c PWFPGA_REG_CAPABILITIES AND PWFPGA_CAP_HAS_DMA \<noteq> 0
         then (case dma of
                 Inr d \<Rightarrow> if vfio then Inr \<lparr>dev_bar = c, dev_use_vfio = True, dev_dma = Some d\<rparr>
                          else Inl PW_E_BACKEND
               | Inl _ \<Rightarrow> Inl PW_E_BACKEND)
         else Inr \<lparr>dev_bar = c, dev_use_vfio = vfio, dev_dma = None\<rparr>)"

datatype backend_force = Force_None | Force_Vfio | Force_Sysfs

text \<open>\<open>sysfs\<close> and \<open>vfio\<close> are the outcomes of mapping the BAR on either path.\<close>

definition pw_bar_backend_open_vfio ::
  "pw_status + (nat \<Rightarrow> u32) \<times> u64 \<Rightarrow> pw_status + dma_state \<Rightarrow> pw_status + bar_dev" where
  "pw_bar_backend_open_vfio vfio dma = rbind vfio (\<lambda>(m, sz). bar_backend_attach m sz True dma)"

definition pw_bar_backend_open ::
  "backend_force \<Rightarrow> pw_status + (nat \<Rightarrow> u32) \<times> u64 \<Rightarrow> pw_status + (nat \<Rightarrow> u32) \<times> u64 \<Rightarrow>
     pw_status + dma_state \<Rightarrow> pw_status + bar_dev" where
  "pw_bar_backend_open force sysfs vfio dma =
     (if force = Force_Vfio then pw_bar_backend_open_vfio vfio dma
      else
        let first = rbind sysfs (\<lambda>(m, sz). bar_backend_attach m sz False dma)
        in case first of Inr v \<Rightarrow> Inr v
           | Inl e \<Rightarrow>
               if force = Force_Sysfs then Inl e
               else (case pw_bar_backend_open_vfio vfio dma of Inr v \<Rightarrow> Inr v | Inl _ \<Rightarrow> Inl e))"

definition pw_bar_backend_open_path :: "pw_status + (nat \<Rightarrow> u32) \<times> u64 \<Rightarrow> pw_status + dma_state \<Rightarrow> pw_status + bar_dev" where
  "pw_bar_backend_open_path path dma = rbind path (\<lambda>(m, sz). bar_backend_attach m sz False dma)"

section \<open>Layout and ring\<close>

definition disjoint_regions :: "nat \<times> nat \<Rightarrow> nat \<times> nat \<Rightarrow> bool" where
  "disjoint_regions r s \<longleftrightarrow> fst r + snd r \<le> fst s \<or> fst s + snd s \<le> fst r"

lemmas dma_layout = dma_regions_def off_ring_def ring_bytes_def off_tx_def off_rx_def dma_consts

lemma dma_regions_fit: "r \<in> set dma_regions \<Longrightarrow> fst r + snd r \<le> 1024 + (1 + PW_DMA_RX_RING) * PW_DMA_FRAME_CAP"
  by (auto simp: dma_layout)

lemma dma_pool_len_ge: "0 < ps \<Longrightarrow> 1024 + (1 + PW_DMA_RX_RING) * PW_DMA_FRAME_CAP \<le> dma_pool_len ps"
proof -
  assume ps: "0 < ps"
  let ?n = "1024 + (1 + PW_DMA_RX_RING) * PW_DMA_FRAME_CAP"
  have "?n + ps - 1 = (?n + ps - 1) div ps * ps + (?n + ps - 1) mod ps" by simp
  moreover have "(?n + ps - 1) mod ps < ps" using ps by simp
  ultimately have "?n \<le> (?n + ps - 1) div ps * ps" using ps by linarith
  then show ?thesis by (simp add: dma_pool_len_def)
qed

text \<open>Where a descriptor's next pointer leads, as a 64-bit address.\<close>

definition desc_next :: "pwfpga_xdma_desc \<Rightarrow> u64" where
  "desc_next d = ucast (xd_next_lo d) OR push_bit 32 (ucast (xd_next_hi d))"

definition desc_dst :: "pwfpga_xdma_desc \<Rightarrow> u64" where
  "desc_dst d = ucast (xd_dst_addr_lo d) OR push_bit 32 (ucast (xd_dst_addr_hi d))"

lemma lo_hi_u64: "(ucast (ucast x :: u32) :: u64) OR push_bit 32 (ucast (ucast (drop_bit 32 x) :: u32)) = x"
  for x :: u64
  by (rule bit_word_eqI) (auto simp: bit_simps)

lemma c2h_desc_addrs:
  "desc_next (c2h_desc ring bufs i) = ring + of_nat ((i + 1) mod PW_DMA_RX_RING) * of_nat XDMA_DESC_SIZE"
  "desc_dst (c2h_desc ring bufs i) = bufs + of_nat i * of_nat PW_DMA_FRAME_CAP"
  by (simp_all add: desc_next_def desc_dst_def c2h_desc_def desc_fill_def Let_def lo_hi_u64)

section \<open>The reaper\<close>

text \<open>
  Frames are numbered from the arming. The engine completes them in order, frame \<open>k\<close> into buffer
  \<open>k mod 16\<close>; before a completion shows, the engine may already have written anything into the
  buffer of the next frame. A poll is a call to \<open>dma_slow_path_rx\<close> that reads the true count.
  \<open>rp_frames\<close> has the completed frames, \<open>rp_out\<close> what the calls handed out: the number of the frame,
  the size of the caller's buffer, the bytes and the interface.
\<close>

record reaper =
  rp_frames :: "bytes list"
  rp_dma :: dma_state
  rp_out :: "(nat \<times> nat \<times> bytes \<times> u32) list"

definition reaper_start :: "dma_state \<Rightarrow> u32 \<Rightarrow> reaper" where
  "reaper_start d base = \<lparr>rp_frames = [], rp_dma = (dma_arm_c2h base d)\<lparr>dma_c2h_overrun := 0\<rparr>, rp_out = []\<rparr>"

definition engine_write :: "bytes \<Rightarrow> reaper \<Rightarrow> reaper" where
  "engine_write rb s = s\<lparr>rp_dma := (rp_dma s)\<lparr>dma_rx_bufs :=
     (dma_rx_bufs (rp_dma s))(length (rp_frames s) mod PW_DMA_RX_RING := rb)\<rparr>\<rparr>"

definition handed_out :: "nat \<Rightarrow> dma_state \<Rightarrow> (bytes \<times> u32) option \<Rightarrow> (nat \<times> nat \<times> bytes \<times> u32) list" where
  "handed_out n d r = (case r of None \<Rightarrow> [] | Some (b, lif) \<Rightarrow> [(unat (dma_rx_consumed d) - 1, n, b, lif)])"

inductive reaper_step :: "reaper \<Rightarrow> reaper \<Rightarrow> bool" where
  partial: "reaper_step s (engine_write rb s)"
| complete: "reaper_step s ((engine_write rb s)\<lparr>rp_frames := rp_frames s @ [rb]\<rparr>)"
| poll: "cr_count rds = dma_c2h_cmpl_base (rp_dma s) + of_nat (length (rp_frames s)) \<Longrightarrow>
    dma_slow_path_rx (rp_dma s) rds (Some n) = Inr (d, r) \<Longrightarrow>
    reaper_step s (s\<lparr>rp_dma := d, rp_out := rp_out s @ handed_out n d r\<rparr>)"

inductive_cases reaper_stepE: "reaper_step s t"

text \<open>What a call hands out of a buffer.\<close>

definition frame_out :: "nat \<Rightarrow> bytes \<Rightarrow> bytes \<times> u32" where
  "frame_out n rb = (take (min n (buf_payload rb)) (drop PW_DMA_HDR_LEN rb), buf_lif rb)"

text \<open>
  While fewer than \<open>2\<^sup>3\<^sup>2\<close> frames have completed: every frame up to the consumer index was either
  handed out, in order and as the engine completed it, or counted as an overrun; and the last
  fifteen completed frames are in their buffers.
\<close>

definition reaper_inv :: "reaper \<Rightarrow> bool" where
  "reaper_inv s \<longleftrightarrow>
     dma_c2h_armed (rp_dma s) \<and>
     unat (dma_rx_consumed (rp_dma s)) \<le> length (rp_frames s) \<and>
     sorted_wrt (<) (map fst (rp_out s)) \<and>
     (\<forall>(k, n, out)\<in>set (rp_out s). k < unat (dma_rx_consumed (rp_dma s)) \<and> out = frame_out n (rp_frames s ! k)) \<and>
     length (rp_out s) + unat (dma_c2h_overrun (rp_dma s)) = unat (dma_rx_consumed (rp_dma s)) \<and>
     (\<forall>k < length (rp_frames s). length (rp_frames s) \<le> k + 15 \<longrightarrow>
        dma_rx_bufs (rp_dma s) (k mod PW_DMA_RX_RING) = rp_frames s ! k)"

lemma reaper_start_inv: "reaper_inv (reaper_start d base)"
  by (simp add: reaper_inv_def reaper_start_def dma_arm_c2h_def xdma_do_def)

text \<open>The reaper's choice in unbounded arithmetic.\<close>

lemma c2h_next_nat:
  assumes T: "T < 2 ^ 32" and c: "unat (dma_rx_consumed d) \<le> T"
    and o: "unat (dma_c2h_overrun d) \<le> unat (dma_rx_consumed d)"
  defines "r \<equiv> c2h_next d (dma_c2h_cmpl_base d + of_nat T)"
    and "consumed \<equiv> unat (dma_rx_consumed d)"
  shows "consumed = T \<Longrightarrow> r = None"
    and "consumed < T \<Longrightarrow> \<exists>d'. r = Some (d', of_nat (max consumed (T - 15))) \<and>
      unat (dma_rx_consumed d') = Suc (max consumed (T - 15)) \<and>
      unat (dma_c2h_overrun d') = unat (dma_c2h_overrun d) + (max consumed (T - 15) - consumed) \<and>
      dma_c2h_cmpl_base d' = dma_c2h_cmpl_base d"
proof -
  have uT: "unat (of_nat T :: u32) = T" using T by (simp add: unat_of_nat take_bit_nat_eq_self)
  have fin: "dma_c2h_cmpl_base d + of_nat T - dma_c2h_cmpl_base d = of_nat T" by simp
  have ge: "dma_rx_consumed d \<ge> of_nat T \<longleftrightarrow> consumed \<ge> T"
    by (simp add: word_le_nat_alt uT consumed_def)
  show "r = None" if "consumed = T" using that by (simp add: r_def c2h_next_def Let_def fin ge)
  assume lt: "consumed < T"
  have diff: "unat (of_nat T - dma_rx_consumed d) = T - consumed"
    using c by (simp add: unat_sub_if' uT consumed_def)
  have over: "of_nat T - dma_rx_consumed d \<ge> of_nat PW_DMA_RX_RING \<longleftrightarrow> T - consumed \<ge> 16"
    by (simp add: word_le_nat_alt diff dma_consts)
  show "\<exists>d'. r = Some (d', of_nat (max consumed (T - 15))) \<and>
      unat (dma_rx_consumed d') = Suc (max consumed (T - 15)) \<and>
      unat (dma_c2h_overrun d') = unat (dma_c2h_overrun d) + (max consumed (T - 15) - consumed) \<and>
      dma_c2h_cmpl_base d' = dma_c2h_cmpl_base d"
  proof (cases "T - consumed \<ge> 16")
    case True
    have m: "max consumed (T - 15) = T - 15" using True by simp
    have w: "of_nat T - (of_nat PW_DMA_RX_RING - 1) = (of_nat (T - 15) :: u32)"
      using True by (simp add: dma_consts of_nat_diff)
    have sk: "unat ((of_nat T - dma_rx_consumed d) - (of_nat PW_DMA_RX_RING - 1)) = T - consumed - 15"
      using True diff by (simp add: dma_consts unat_sub_if')
    have "unat (ucast ((of_nat T - dma_rx_consumed d) - (of_nat PW_DMA_RX_RING - 1)) :: u64) = T - consumed - 15"
      using sk by simp
    then have ov: "unat (dma_c2h_overrun d + ucast ((of_nat T - dma_rx_consumed d) - (of_nat PW_DMA_RX_RING - 1))) =
        unat (dma_c2h_overrun d) + (T - consumed - 15)"
      using o T c by (simp add: unat_word_ariths consumed_def)
    have suc: "unat ((of_nat (T - 15) :: u32) + 1) = Suc (T - 15)"
    proof -
      have "unat (of_nat (T - 15) :: u32) = T - 15"
        using T by (simp only: unat_of_nat) (simp add: take_bit_nat_eq_self)
      then show ?thesis using T True by (simp add: unat_word_ariths(1) del: of_nat_diff)
    qed
    show ?thesis
      using True lt ov suc
      by (simp add: r_def c2h_next_def Let_def ge over m w del: of_nat_diff)
  next
    case False
    then have m: "max consumed (T - 15) = consumed" by simp
    have "unat (dma_rx_consumed d + 1) = Suc consumed"
      using lt T by (simp add: unat_word_ariths consumed_def)
    with False lt show ?thesis
      by (simp add: r_def c2h_next_def Let_def ge over m) (simp add: consumed_def)
  qed
qed

text \<open>With a buffer, a call never fails.\<close>

lemma dma_rx_total: "\<exists>d' r. dma_slow_path_rx d rds (Some n) = Inr (d', r)"
  unfolding dma_slow_path_rx_def option.case Let_def
  by (rule option.exhaust [where y = "c2h_next
        (if cr_status rds AND PWFPGA_XDMA_STAT_ERR \<noteq> 0
         then xdma_do [Xdma_rd (PWFPGA_XDMA_C2H_CHANNEL + PWFPGA_XDMA_CH_STATUS_RC)]
                ((if dma_c2h_armed d then d else dma_arm_c2h (cr_base rds) d)
                  \<lparr>dma_c2h_err := dma_c2h_err (if dma_c2h_armed d then d else dma_arm_c2h (cr_base rds) d) + 1\<rparr>)
         else if dma_c2h_armed d then d else dma_arm_c2h (cr_base rds) d) (cr_count rds)"]) auto

text \<open>A call on the armed ring, for the count \<open>T\<close>.\<close>

lemma dma_rx_nat:
  assumes T: "T < 2 ^ 32" and c: "unat (dma_rx_consumed d) \<le> T"
    and o: "unat (dma_c2h_overrun d) \<le> unat (dma_rx_consumed d)" and armed: "dma_c2h_armed d"
    and cnt: "cr_count rds = dma_c2h_cmpl_base d + of_nat T"
    and call: "dma_slow_path_rx d rds (Some n) = Inr (d', r)"
  defines "k \<equiv> max (unat (dma_rx_consumed d)) (T - 15)"
  shows "dma_c2h_armed d'" "dma_c2h_cmpl_base d' = dma_c2h_cmpl_base d" "dma_rx_bufs d' = dma_rx_bufs d"
    and "unat (dma_rx_consumed d) = T \<Longrightarrow>
      r = None \<and> dma_rx_consumed d' = dma_rx_consumed d \<and> dma_c2h_overrun d' = dma_c2h_overrun d"
    and "unat (dma_rx_consumed d) < T \<Longrightarrow>
      r = Some (frame_out n (dma_rx_bufs d (k mod PW_DMA_RX_RING))) \<and> unat (dma_rx_consumed d') = Suc k \<and>
      unat (dma_c2h_overrun d') = unat (dma_c2h_overrun d) + (k - unat (dma_rx_consumed d))"
proof -
  define d1 where "d1 = (if cr_status rds AND PWFPGA_XDMA_STAT_ERR \<noteq> 0
    then xdma_do [Xdma_rd (PWFPGA_XDMA_C2H_CHANNEL + PWFPGA_XDMA_CH_STATUS_RC)] (d\<lparr>dma_c2h_err := dma_c2h_err d + 1\<rparr>)
    else d)"
  have same: "dma_rx_consumed d1 = dma_rx_consumed d" "dma_c2h_overrun d1 = dma_c2h_overrun d"
    "dma_c2h_cmpl_base d1 = dma_c2h_cmpl_base d" "dma_rx_bufs d1 = dma_rx_bufs d" "dma_c2h_armed d1"
    using armed by (simp_all add: d1_def xdma_do_def)
  have bufs: "c2h_next d1 x = Some (d2, j) \<Longrightarrow> dma_rx_bufs d2 = dma_rx_bufs d \<and> dma_c2h_armed d2" for x d2 j
    using same by (auto simp: c2h_next_def Let_def split: if_splits)
  note N = c2h_next_nat [of T d1, unfolded same, OF T c o]
  have run: "dma_slow_path_rx d rds (Some n) =
      (case c2h_next d1 (dma_c2h_cmpl_base d + of_nat T) of None \<Rightarrow> Inr (d1, None)
       | Some (d2, j) \<Rightarrow> Inr (d2, Some (frame_out n (dma_rx_bufs d2 (unat (j mod of_nat PW_DMA_RX_RING))))))"
    using armed by (simp add: dma_slow_path_rx_def d1_def cnt Let_def frame_out_def min_def split: option.split)
  have none: "r = None \<and> d' = d1" if "unat (dma_rx_consumed d) = T"
    using call N(1) [OF that] by (simp add: run)
  have some: "\<exists>d2. r = Some (frame_out n (dma_rx_bufs d (k mod PW_DMA_RX_RING))) \<and> d' = d2 \<and>
      dma_rx_bufs d2 = dma_rx_bufs d \<and> dma_c2h_armed d2 \<and> dma_c2h_cmpl_base d2 = dma_c2h_cmpl_base d \<and>
      unat (dma_rx_consumed d2) = Suc k \<and>
      unat (dma_c2h_overrun d2) = unat (dma_c2h_overrun d) + (k - unat (dma_rx_consumed d))"
    if lt: "unat (dma_rx_consumed d) < T"
  proof -
    from N(2) [OF lt] obtain d2 where d2: "c2h_next d1 (dma_c2h_cmpl_base d + of_nat T) = Some (d2, of_nat k)"
      "unat (dma_rx_consumed d2) = Suc k"
      "unat (dma_c2h_overrun d2) = unat (dma_c2h_overrun d) + (k - unat (dma_rx_consumed d))"
      "dma_c2h_cmpl_base d2 = dma_c2h_cmpl_base d" unfolding k_def by blast
    have "k < 2 ^ 32" using lt T by (simp add: k_def)
    then have "unat (of_nat k :: u32) = k" by (simp only: unat_of_nat) (simp add: take_bit_nat_eq_self)
    then have "unat ((of_nat k :: u32) mod of_nat PW_DMA_RX_RING) = k mod PW_DMA_RX_RING"
      by (simp add: unat_mod dma_consts)
    with d2 bufs [OF d2(1)] call show ?thesis by (intro exI [of _ d2]) (simp add: run)
  qed
  have cs: "unat (dma_rx_consumed d) = T \<or> unat (dma_rx_consumed d) < T" using c by auto
  then show "dma_c2h_armed d'" "dma_c2h_cmpl_base d' = dma_c2h_cmpl_base d" "dma_rx_bufs d' = dma_rx_bufs d"
    using none some same by auto
  show "r = None \<and> dma_rx_consumed d' = dma_rx_consumed d \<and> dma_c2h_overrun d' = dma_c2h_overrun d"
    if "unat (dma_rx_consumed d) = T" using none [OF that] same by simp
  show "r = Some (frame_out n (dma_rx_bufs d (k mod PW_DMA_RX_RING))) \<and> unat (dma_rx_consumed d') = Suc k \<and>
      unat (dma_c2h_overrun d') = unat (dma_c2h_overrun d) + (k - unat (dma_rx_consumed d))"
    if "unat (dma_rx_consumed d) < T" using some [OF that] by blast
qed

text \<open>The buffer the engine writes is not one of the last fifteen completed frames.\<close>

lemma engine_buffer:
  assumes "k < T" "T \<le> k + 15"
  shows "k mod PW_DMA_RX_RING \<noteq> T mod PW_DMA_RX_RING"
proof
  assume "k mod PW_DMA_RX_RING = T mod PW_DMA_RX_RING"
  then have "16 dvd T - k" using assms mod_eq_dvd_iff_nat [of k T 16] by (simp add: dma_consts)
  with assms show False by (auto dest: dvd_imp_le)
qed

lemma reaper_step_inv:
  assumes inv: "reaper_inv s" and T: "length (rp_frames s) < 2 ^ 32" and step: "reaper_step s t"
  shows "reaper_inv t"
  using step
proof (cases rule: reaper_step.cases)
  case (partial rb)
  with inv engine_buffer show ?thesis by (auto simp: reaper_inv_def engine_write_def)
next
  case (complete rb)
  have last: "\<forall>k < Suc (length (rp_frames s)). Suc (length (rp_frames s)) \<le> k + 15 \<longrightarrow>
      ((dma_rx_bufs (rp_dma s))(length (rp_frames s) mod PW_DMA_RX_RING := rb)) (k mod PW_DMA_RX_RING) =
      (rp_frames s @ [rb]) ! k"
    using inv engine_buffer [of _ "length (rp_frames s)"] by (auto simp: reaper_inv_def less_Suc_eq nth_append)
  have old: "\<forall>(k, n, out)\<in>set (rp_out s). k < unat (dma_rx_consumed (rp_dma s)) \<and>
      out = frame_out n ((rp_frames s @ [rb]) ! k)"
    using inv by (auto simp: reaper_inv_def nth_append split_beta)
  show ?thesis using inv last old by (simp add: reaper_inv_def engine_write_def complete)
next
  case (poll rds n d r)
  let ?d = "rp_dma s" and ?T = "length (rp_frames s)"
  let ?k = "max (unat (dma_rx_consumed ?d)) (?T - 15)"
  have I: "unat (dma_rx_consumed ?d) \<le> ?T" "unat (dma_c2h_overrun ?d) \<le> unat (dma_rx_consumed ?d)" "dma_c2h_armed ?d"
    using inv by (simp_all add: reaper_inv_def)
  note R = dma_rx_nat [OF T I poll(2,3)]
  show ?thesis
  proof (cases "unat (dma_rx_consumed ?d) = ?T")
    case True
    with R(1,3,4) inv show ?thesis by (auto simp: reaper_inv_def poll(1) handed_out_def)
  next
    case False
    with I(1) have lt: "unat (dma_rx_consumed ?d) < ?T" by simp
    note S = R(5) [OF lt]
    have k: "?k < ?T" "?T \<le> ?k + 15" using lt by auto
    have buf: "dma_rx_bufs ?d (?k mod PW_DMA_RX_RING) = rp_frames s ! ?k"
      using inv k by (simp add: reaper_inv_def)
    have ho: "handed_out n d r = [(?k, n, frame_out n (rp_frames s ! ?k))]"
      using S by (cases "frame_out n (rp_frames s ! ?k)") (auto simp: handed_out_def buf)
    have cnt: "length (rp_out s) + unat (dma_c2h_overrun ?d) = unat (dma_rx_consumed ?d)"
      using inv by (simp add: reaper_inv_def)
    have cons: "unat (dma_rx_consumed d) = Suc ?k" using S by simp
    have old: "\<forall>(j, m, out)\<in>set (rp_out s). j < unat (dma_rx_consumed ?d) \<and> out = frame_out m (rp_frames s ! j)"
      "sorted_wrt (<) (map fst (rp_out s))" using inv by (simp_all add: reaper_inv_def)
    then have less: "\<forall>x\<in>set (rp_out s). fst x < ?k" by force
    have out: "\<forall>(j, m, out)\<in>set (rp_out s @ handed_out n d r).
        j < unat (dma_rx_consumed d) \<and> out = frame_out m (rp_frames s ! j)"
      unfolding ho using old(1) cons by (auto simp: less_Suc_eq less_max_iff_disj)
    have ord: "sorted_wrt (<) (map fst (rp_out s @ handed_out n d r))"
      using old(2) less by (simp add: ho sorted_wrt_append)
    have len: "length (rp_out s @ handed_out n d r) + unat (dma_c2h_overrun d) = unat (dma_rx_consumed d)"
      unfolding ho using cnt S by simp
    have "unat (dma_rx_consumed d) \<le> ?T" unfolding cons using k(1) by (rule Suc_leI)
    with R(1,3) out ord len inv show ?thesis by (simp only: reaper_inv_def poll(1)) simp
  qed
qed

text \<open>The runs of engine and reaper.\<close>

inductive reaper_run :: "dma_state \<Rightarrow> u32 \<Rightarrow> reaper \<Rightarrow> bool" for d :: dma_state and base :: u32 where
  start: "reaper_run d base (reaper_start d base)"
| step: "reaper_run d base s \<Longrightarrow> reaper_step s t \<Longrightarrow> reaper_run d base t"

lemma reaper_step_total: "reaper_step s t \<Longrightarrow> length (rp_frames s) \<le> length (rp_frames t)"
  by (auto elim: reaper_step.cases simp: engine_write_def)

lemma reaper_run_inv: "reaper_run d base s \<Longrightarrow> length (rp_frames s) < 2 ^ 32 \<Longrightarrow> reaper_inv s"
proof (induction rule: reaper_run.induct)
  case start
  show ?case by (rule reaper_start_inv)
next
  case (step s t)
  have "length (rp_frames s) < 2 ^ 32" using reaper_step_total [OF step.hyps(2)] step.prems by simp
  with step reaper_step_inv show ?case by blast
qed

section \<open>Attaching\<close>

lemma attach_ok:
  assumes "bar_backend_attach m sz vfio dma = Inr v"
  shows "dev_bar v = \<lparr>bar_mem = m, bar_size = sz, bar_csr_off = probe_csr_off m sz\<rparr>"
    "unat (probe_csr_off m sz) + 0x28 \<le> unat sz"
    "dev_dma v \<noteq> None \<longleftrightarrow> bar_get (dev_bar v) PWFPGA_REG_CAPABILITIES AND PWFPGA_CAP_HAS_DMA \<noteq> 0"
    "dev_use_vfio v = vfio" "\<And>d. dev_dma v = Some d \<Longrightarrow> vfio \<and> dma = Inr d"
proof -
  let ?c = "\<lparr>bar_mem = m, bar_size = sz, bar_csr_off = probe_csr_off m sz\<rparr>"
  have r: "csr_range_ok ?c 0 (ucast (PWFPGA_REG_NUM_HIST_BINS + 4))"
    and c: "dev_bar v = ?c"
    and d: "dev_dma v \<noteq> None \<longleftrightarrow> bar_get ?c PWFPGA_REG_CAPABILITIES AND PWFPGA_CAP_HAS_DMA \<noteq> 0"
    and u: "dev_use_vfio v = vfio" "\<And>d. dev_dma v = Some d \<Longrightarrow> vfio \<and> dma = Inr d"
    using assms by (auto simp: bar_backend_attach_def Let_def split: if_splits sum.splits)
  show "dev_bar v = ?c" by (rule c)
  have "unat (probe_csr_off m sz) < 2 ^ 32" using unsigned_less [of "probe_csr_off m sz"] by simp
  with r show "unat (probe_csr_off m sz) + 0x28 \<le> unat sz"
    by (subst (asm) csr_range_ok_iff) (simp_all add: csr_regs)
  show "dev_dma v \<noteq> None \<longleftrightarrow> bar_get (dev_bar v) PWFPGA_REG_CAPABILITIES AND PWFPGA_CAP_HAS_DMA \<noteq> 0"
    using d by (simp add: c)
  show "dev_use_vfio v = vfio" "\<And>d. dev_dma v = Some d \<Longrightarrow> vfio \<and> dma = Inr d" by (rule u, rule u)
qed


section \<open>Properties\<close>

text \<open>An example pool at a device address, and calls on it.\<close>

definition ex_dma :: dma_state where
  "ex_dma = \<lparr>dma_pool_iova = 0x100000, dma_pool_size = dma_pool_len 4096, dma_h2c_desc = zero_desc,
     dma_h2c_desc_iova = 0x100000, dma_tx_buf = replicate PW_DMA_FRAME_CAP 0, dma_tx_iova = 0x100000 + of_nat off_tx,
     dma_c2h_ring = replicate PW_DMA_RX_RING zero_desc, dma_c2h_ring_iova = 0x100000 + of_nat off_ring,
     dma_rx_bufs = (\<lambda>_. replicate PW_DMA_FRAME_CAP 0), dma_rx_bufs_iova = 0x100000 + of_nat off_rx,
     dma_c2h_cmpl_base = 0, dma_rx_consumed = 0, dma_c2h_overrun = 0, dma_c2h_err = 0,
     dma_c2h_armed = False, dma_log = []\<rparr>"

lemma ex_dma_setup: "dma_setup (Inr ()) 4096 True (Inr 0x100000) True = Inr ex_dma"
  by (simp add: dma_setup_def ex_dma_def fail_if_def)

lemma dma_regions_nth:
  "length dma_regions = 19" "dma_regions ! 0 = (0, 32)" "dma_regions ! 1 = (off_ring, ring_bytes)"
  "dma_regions ! 2 = (off_tx, PW_DMA_FRAME_CAP)"
  "i < 16 \<Longrightarrow> dma_regions ! (i + 3) = (off_rx + i * PW_DMA_FRAME_CAP, PW_DMA_FRAME_CAP)"
  by (simp_all add: dma_regions_def dma_consts)

lemma dma_regions_pairwise:
  assumes "i < j" "j < length dma_regions"
  shows "disjoint_regions (dma_regions ! i) (dma_regions ! j)"
proof -
  have at: "fst (dma_regions ! i) + snd (dma_regions ! i) \<le> fst (dma_regions ! Suc i)" if "Suc i < length dma_regions" for i
  proof (cases "i < 3")
    case True
    then have "i = 0 \<or> i = 1 \<or> i = 2" by auto
    then show ?thesis by (elim disjE) (simp_all add: dma_layout)
  next
    case False
    then obtain k where k: "i = k + 3" using le_Suc_ex by (metis add.commute not_less)
    with that have "Suc k < 16" by (simp add: dma_regions_nth(1))
    then show ?thesis
      using dma_regions_nth(5) [of k] dma_regions_nth(5) [of "Suc k"] by (simp add: k)
  qed
  have "i < j \<Longrightarrow> j < length dma_regions \<Longrightarrow> fst (dma_regions ! i) + snd (dma_regions ! i) \<le> fst (dma_regions ! j)"
  proof (induction j)
    case (Suc j)
    show ?case
    proof (cases "i = j")
      case True
      then show ?thesis using at Suc.prems by simp
    next
      case False
      with Suc have "fst (dma_regions ! i) + snd (dma_regions ! i) \<le> fst (dma_regions ! j)" by simp
      with at [of j] Suc.prems show ?thesis by linarith
    qed
  qed simp
  with assms show ?thesis by (simp add: disjoint_regions_def)
qed

text \<open>
  C31. The DMA pool is laid out safely: when \<open>dma_setup\<close> succeeds, for any page size, the inject
  descriptor, the punt ring, the inject buffer and the sixteen punt buffers are pairwise disjoint,
  lie inside the allocated pool, and the device addresses handed to the engine are those of the regions.
\<close>

theorem dma_setup_layout:
  assumes "dma_setup region ps pool_ok map_dma state_ok = Inr d"
  shows "(\<forall>i j. i < j \<and> j < length dma_regions \<longrightarrow> disjoint_regions (dma_regions ! i) (dma_regions ! j)) \<and>
    (\<forall>r\<in>set dma_regions. fst r + snd r \<le> dma_pool_size d) \<and>
    dma_h2c_desc_iova d = dma_pool_iova d + of_nat (fst (dma_regions ! 0)) \<and>
    dma_c2h_ring_iova d = dma_pool_iova d + of_nat (fst (dma_regions ! 1)) \<and>
    dma_tx_iova d = dma_pool_iova d + of_nat (fst (dma_regions ! 2)) \<and>
    (\<forall>i < PW_DMA_RX_RING. dma_rx_bufs_iova d + of_nat (i * PW_DMA_FRAME_CAP) =
       dma_pool_iova d + of_nat (fst (dma_regions ! (i + 3))))"
proof -
  have "dma_pool_size d = dma_pool_len (if ps \<le> 0 then 4096 else nat ps)"
    using assms by (auto simp: dma_setup_def rbind_eq_Inr)
  then have sz: "\<exists>n > 0. dma_pool_size d = dma_pool_len n"
    by (intro exI [of _ "if ps \<le> 0 then 4096 else nat ps"]) simp
  have a: "dma_h2c_desc_iova d = dma_pool_iova d" "dma_c2h_ring_iova d = dma_pool_iova d + of_nat off_ring"
    "dma_tx_iova d = dma_pool_iova d + of_nat off_tx" "dma_rx_bufs_iova d = dma_pool_iova d + of_nat off_rx"
    using assms by (auto simp: dma_setup_def rbind_eq_Inr)
  have fit: "fst r + snd r \<le> dma_pool_size d" if "r \<in> set dma_regions" for r
    using sz dma_regions_fit [OF that] dma_pool_len_ge le_trans by metis
  have rx: "dma_rx_bufs_iova d + of_nat (i * PW_DMA_FRAME_CAP) =
      dma_pool_iova d + of_nat (fst (dma_regions ! (i + 3)))" if "i < PW_DMA_RX_RING" for i
    using that dma_regions_nth(5) [of i] by (simp add: a(4) PW_DMA_RX_RING_def)
  show ?thesis
    using dma_regions_pairwise fit rx by (simp add: a(1-3) dma_regions_nth(2,4) dma_regions_nth(3) [simplified])
qed

theorem dma_setup_layout_witness:
  "dma_setup (Inr ()) 4096 True (Inr 0x100000) True = Inr ex_dma \<and>
   disjoint_regions (dma_regions ! 1) (dma_regions ! 2) \<and> fst (dma_regions ! 1) + snd (dma_regions ! 1) \<le> dma_pool_size ex_dma"
proof -
  have n: "1 < length dma_regions" "2 < length dma_regions" by (simp_all add: dma_layout)
  then have "dma_regions ! 1 \<in> set dma_regions" by simp
  with n dma_setup_layout [OF ex_dma_setup] ex_dma_setup show ?thesis by auto
qed

text \<open>
  The punt ring is closed: after arming, descriptor \<open>i\<close> of the sixteen writes into buffer \<open>i\<close>, never
  stops the engine, and points to the descriptor of the next frame, the last one back to the first.
\<close>

lemma c2h_ring_closed:
  assumes "i < PW_DMA_RX_RING"
  shows "length (dma_c2h_ring (dma_arm_c2h cnt d)) = PW_DMA_RX_RING \<and>
    desc_next (dma_c2h_ring (dma_arm_c2h cnt d) ! i) =
      dma_c2h_ring_iova d + of_nat (((i + 1) mod PW_DMA_RX_RING) * XDMA_DESC_SIZE) \<and>
    desc_dst (dma_c2h_ring (dma_arm_c2h cnt d) ! i) = dma_rx_bufs_iova d + of_nat (i * PW_DMA_FRAME_CAP) \<and>
    xd_control (dma_c2h_ring (dma_arm_c2h cnt d) ! i) AND PWFPGA_XDMA_DESC_STOP = 0"
proof -
  have n: "dma_c2h_ring (dma_arm_c2h cnt d) ! i = c2h_desc (dma_c2h_ring_iova d) (dma_rx_bufs_iova d) i"
    using assms by (simp add: dma_arm_c2h_def xdma_do_def)
  have stop: "xd_control (c2h_desc a b i) AND PWFPGA_XDMA_DESC_STOP = 0" for a b
    by (simp add: c2h_desc_def desc_fill_def Let_def PWFPGA_XDMA_DESC_MAGIC_def PWFPGA_XDMA_DESC_COMPLETED_def
        PWFPGA_XDMA_DESC_STOP_def)
  show ?thesis unfolding n by (simp add: c2h_desc_addrs stop) (simp add: dma_arm_c2h_def xdma_do_def)
qed

theorem c2h_ring_closed_witness:
  "desc_next (dma_c2h_ring (dma_arm_c2h 0 ex_dma) ! 15) = dma_c2h_ring_iova ex_dma"
  using c2h_ring_closed [of 15 0 ex_dma] by (simp add: dma_consts)



text \<open>
  No completed frame is overlooked: while fewer than \<open>2\<^sup>3\<^sup>2\<close> frames have completed, a poll hands out a
  frame whenever the engine has completed one past the consumer index, and nothing otherwise.
\<close>

lemma punt_poll_live:
  assumes "reaper_run d base s" and "length (rp_frames s) < 2 ^ 32"
    and "cr_count rds = dma_c2h_cmpl_base (rp_dma s) + of_nat (length (rp_frames s))"
  shows "\<exists>d' r. dma_slow_path_rx (rp_dma s) rds (Some n) = Inr (d', r) \<and>
    (r = None \<longleftrightarrow> unat (dma_rx_consumed (rp_dma s)) = length (rp_frames s))"
proof -
  have I: "unat (dma_rx_consumed (rp_dma s)) \<le> length (rp_frames s)"
    "unat (dma_c2h_overrun (rp_dma s)) \<le> unat (dma_rx_consumed (rp_dma s))" "dma_c2h_armed (rp_dma s)"
    using reaper_run_inv [OF assms(1,2)] by (simp_all add: reaper_inv_def)
  obtain d' r where c: "dma_slow_path_rx (rp_dma s) rds (Some n) = Inr (d', r)"
    using dma_rx_total [of "rp_dma s" rds n] by blast
  note R = dma_rx_nat(4,5) [OF assms(2) I assms(3) c]
  show ?thesis using c R I(1) by (cases "unat (dma_rx_consumed (rp_dma s)) = length (rp_frames s)") auto
qed

lemma punt_poll_live_witness:
  "\<exists>d' r. dma_slow_path_rx (rp_dma (reaper_start ex_dma 5)) \<lparr>cr_base = 0, cr_status = 0, cr_count = 5\<rparr> (Some 100) =
     Inr (d', r) \<and> r = None"
  using punt_poll_live [OF reaper_run.start, of ex_dma 5 "\<lparr>cr_base = 0, cr_status = 0, cr_count = 5\<rparr>" 100]
  by (simp add: reaper_start_def dma_arm_c2h_def xdma_do_def)

text \<open>
  C30. The limit of the previous two properties is sharp: the comparison of the consumer index with the
  number of completed frames is not safe against wrap-around. Once \<open>2\<^sup>3\<^sup>2 - 1\<close> frames have been consumed since
  arming, no poll ever hands out a frame again, whatever the completed count.
\<close>

theorem punt_stalls_at_wrap:
  assumes "dma_c2h_armed d" and "dma_rx_consumed d = 0xFFFFFFFF"
  shows "\<exists>d'. dma_slow_path_rx d rds (Some n) = Inr (d', None) \<and> dma_rx_consumed d' = 0xFFFFFFFF"
proof -
  have "(x :: u32) \<le> 0xFFFFFFFF" for x using unsigned_less [of x, where ?'a = nat] by (simp add: word_le_nat_alt)
  with assms show ?thesis by (simp add: dma_slow_path_rx_def Let_def c2h_next_def xdma_do_def)
qed

theorem punt_stalls_at_wrap_witness:
  "\<exists>d'. dma_slow_path_rx (ex_dma\<lparr>dma_c2h_armed := True, dma_rx_consumed := 0xFFFFFFFF\<rparr>)
     \<lparr>cr_base = 0, cr_status = 0, cr_count = 7\<rparr> (Some 100) = Inr (d', None)"
  using punt_stalls_at_wrap [of "ex_dma\<lparr>dma_c2h_armed := True, dma_rx_consumed := 0xFFFFFFFF\<rparr>"] by auto

text \<open>
  An inject hands the engine exactly the frame: for a frame that fits, the descriptor it fetches
  covers the eight-byte header with the egress port followed by the frame, the engine is started on that
  descriptor, and when the call returns, with whatever status, the channel has been stopped.
\<close>

lemma inject_dma_exact:
  assumes "0 < length frame" and "length frame + PW_DMA_HDR_LEN \<le> PW_DMA_FRAME_CAP"
    and "dma_slow_path_tx d obs (Some frame) egress = (d', Some st)"
  shows "take (unat (xd_bytes (dma_h2c_desc d'))) (dma_tx_buf d') = egress # replicate 7 0 @ frame \<and>
    ucast (xd_src_addr_lo (dma_h2c_desc d')) OR push_bit 32 (ucast (xd_src_addr_hi (dma_h2c_desc d'))) = dma_tx_iova d \<and>
    xd_control (dma_h2c_desc d') AND PWFPGA_XDMA_DESC_STOP \<noteq> 0 \<and>
    h2c_poll obs = Some st \<and>
    (\<exists>tail. dma_log d' = dma_log d @
       start_channel PWFPGA_XDMA_H2C_SGDMA PWFPGA_XDMA_H2C_CHANNEL (dma_h2c_desc_iova d) @
       Xdma_wr (PWFPGA_XDMA_H2C_CHANNEL + PWFPGA_XDMA_CH_CONTROL) 0 # tail \<and> (tail = [] \<longleftrightarrow> st = PW_OK))"
proof -
  let ?n = "PW_DMA_HDR_LEN + length frame"
  have n: "unat (of_nat ?n :: u32) = ?n"
    using assms(2) by (simp only: unat_of_nat) (simp add: take_bit_nat_eq_self dma_consts)
  have r: "h2c_poll obs = Some st"
    and d': "d' = xdma_do (h2c_finish (Some st))
      (xdma_do (start_channel PWFPGA_XDMA_H2C_SGDMA PWFPGA_XDMA_H2C_CHANNEL (dma_h2c_desc_iova d))
       (d\<lparr>dma_tx_buf := egress # replicate (PW_DMA_HDR_LEN - 1) 0 @ frame @ drop ?n (dma_tx_buf d),
          dma_h2c_desc := desc_fill (PWFPGA_XDMA_DESC_STOP OR PWFPGA_XDMA_DESC_EOP OR PWFPGA_XDMA_DESC_COMPLETED)
            (of_nat ?n) (dma_tx_iova d) 0\<rparr>))"
    using assms by (auto simp: dma_slow_path_tx_def Let_def split: if_splits)
  have c: "xd_control (dma_h2c_desc d') AND PWFPGA_XDMA_DESC_STOP \<noteq> 0"
    by (simp add: d' xdma_do_def desc_fill_def PWFPGA_XDMA_DESC_MAGIC_def PWFPGA_XDMA_DESC_STOP_def
        PWFPGA_XDMA_DESC_EOP_def PWFPGA_XDMA_DESC_COMPLETED_def)
  have b: "take (unat (xd_bytes (dma_h2c_desc d'))) (dma_tx_buf d') = egress # replicate 7 0 @ frame"
    using n by (simp add: d' xdma_do_def desc_fill_def) (simp add: dma_consts take_Cons')
  have log: "dma_log d' = dma_log d @
       start_channel PWFPGA_XDMA_H2C_SGDMA PWFPGA_XDMA_H2C_CHANNEL (dma_h2c_desc_iova d) @ h2c_finish (Some st)"
    by (simp add: d' xdma_do_def)
  show ?thesis
    using b c r log lo_hi_u64 [of "dma_tx_iova d"]
    by (auto simp: h2c_finish_def d' xdma_do_def desc_fill_def)
qed

lemma inject_dma_exact_witness:
  "\<exists>d'. dma_slow_path_tx ex_dma [(0, 0, False), (1, 0, False)] (Some [1, 2, 3]) 1 = (d', Some PW_OK) \<and>
     take (unat (xd_bytes (dma_h2c_desc d'))) (dma_tx_buf d') = [1, 0, 0, 0, 0, 0, 0, 0, 1, 2, 3]"
proof -
  have "\<exists>d'. dma_slow_path_tx ex_dma [(0, 0, False), (1, 0, False)] (Some [1, 2, 3]) 1 = (d', Some PW_OK)"
    by (simp add: dma_slow_path_tx_def Let_def dma_consts)
  then obtain d' where c: "dma_slow_path_tx ex_dma [(0, 0, False), (1, 0, False)] (Some [1, 2, 3]) 1 = (d', Some PW_OK)" ..
  show ?thesis using inject_dma_exact [OF _ _ c] c by (simp add: dma_consts) (simp add: numeral_eq_Suc)
qed

text \<open>
  Attaching never leaves a card without a slow path: a backend that \<open>bar_backend_attach\<close> returns covers
  the identity registers of its CSR window, has its DMA state exactly when the card advertises DMA, and then
  the BAR was mapped through VFIO.
\<close>

lemma attach_consistent:
  assumes "bar_backend_attach m sz vfio dma = Inr v"
  shows "unat (bar_csr_off (dev_bar v)) + 0x28 \<le> unat (bar_size (dev_bar v)) \<and>
    (dev_dma v \<noteq> None \<longleftrightarrow> bar_get (dev_bar v) PWFPGA_REG_CAPABILITIES AND PWFPGA_CAP_HAS_DMA \<noteq> 0) \<and>
    (dev_dma v \<noteq> None \<longrightarrow> dev_use_vfio v)"
  using attach_ok [OF assms] by auto

theorem attach_consistent_witness:
  "\<exists>v. bar_backend_attach (\<lambda>_. 0) 0x10000 False (Inl PW_E_BACKEND) = Inr v \<and> dev_dma v = None \<and>
     unat (bar_csr_off (dev_bar v)) + 0x28 \<le> unat (bar_size (dev_bar v))"
proof -
  have "\<exists>v. bar_backend_attach (\<lambda>_. 0) 0x10000 False (Inl PW_E_BACKEND) = Inr v \<and> dev_dma v = None"
    by (simp add: bar_backend_attach_def Let_def csr_range_ok_def probe_csr_off_def csr_regs bar_get_def
        PWFPGA_CSR_DMA_OFFSET_def)
  then obtain v where v: "bar_backend_attach (\<lambda>_. 0) 0x10000 False (Inl PW_E_BACKEND) = Inr v" "dev_dma v = None" by blast
  show ?thesis using attach_consistent [OF v(1)] v by blast
qed

end
