(* ===== verification/PW_Fake_Backend.thy ===== *)
theory PW_Fake_Backend
  imports PW_Stats
begin

text \<open>
  The software backend, \<^verbatim>\<open>backend_fake.c\<close>: register model, staged and committed flow table, traffic
  model, write counters and the slow-path FIFOs. The FIFO is a ring over a fixed array; it
  implements a bounded queue, whose laws the clients use. Each FIFO operation runs under the
  FIFO's mutex in the source, so operations are atomic steps here.
\<close>

section \<open>The bounded queue\<close>

locale bounded_queue =
  fixes push :: "'e \<Rightarrow> 'q \<Rightarrow> 'q option"
    and pop :: "'q \<Rightarrow> ('e \<times> 'q) option"
    and contents :: "'q \<Rightarrow> 'e list"
    and capacity :: nat
    and accepts :: "'e \<Rightarrow> bool"
    and inv :: "'q \<Rightarrow> bool"
  assumes push_None: "inv q \<Longrightarrow> push e q = None \<longleftrightarrow> \<not> accepts e \<or> capacity \<le> length (contents q)"
    and push_Some: "inv q \<Longrightarrow> push e q = Some q' \<Longrightarrow> inv q' \<and> contents q' = contents q @ [e]"
    and pop_None: "inv q \<Longrightarrow> pop q = None \<longleftrightarrow> contents q = []"
    and pop_Some: "inv q \<Longrightarrow> pop q = Some (e, q') \<Longrightarrow> inv q' \<and> contents q = e # contents q'"
begin

text \<open>A history of operations: the elements accepted and the elements delivered.\<close>

inductive history :: "'q \<Rightarrow> 'e list \<Rightarrow> 'e list \<Rightarrow> 'q \<Rightarrow> bool" where
  h_nil: "history q [] [] q"
| h_push: "history q ins outs r \<Longrightarrow> push e r = Some r' \<Longrightarrow> history q (ins @ [e]) outs r'"
| h_full: "history q ins outs r \<Longrightarrow> push e r = None \<Longrightarrow> history q ins outs r"
| h_pop: "history q ins outs r \<Longrightarrow> pop r = Some (e, r') \<Longrightarrow> history q ins (outs @ [e]) r'"
| h_empty: "history q ins outs r \<Longrightarrow> pop r = None \<Longrightarrow> history q ins outs r"

text \<open>First in, first out; nothing is lost, duplicated or invented.\<close>

lemma history_fifo:
  "history q ins outs r \<Longrightarrow> inv q \<Longrightarrow> inv r \<and> contents q @ ins = outs @ contents r"
proof (induction rule: history.induct)
  case (h_push q ins outs r e r')
  then show ?case using push_Some by (metis append.assoc)
next
  case (h_pop q ins outs r e r')
  then show ?case using pop_Some by (metis append.assoc append_Cons append_Nil)
qed auto

end

section \<open>The ring\<close>

definition FAKE_NUM_FLOWS :: nat where "FAKE_NUM_FLOWS = 256"
definition FAKE_NUM_CLASSIFIER :: nat where "FAKE_NUM_CLASSIFIER = 256"
definition FAKE_NUM_HIST_BINS :: nat where "FAKE_NUM_HIST_BINS = 64"
definition FAKE_SLOW_PATH_DEPTH :: nat where "FAKE_SLOW_PATH_DEPTH = 64"
definition FAKE_SLOW_FRAME_MAX :: nat where "FAKE_SLOW_FRAME_MAX = 2048"
definition FAKE_FRAMES_PER_SNAPSHOT :: u64 where "FAKE_FRAMES_PER_SNAPSHOT = 1000"

record fake_slow_entry =
  fe_data :: bytes
  fe_len :: nat
  fe_logical_if_id :: u32
  fe_egress_local_port :: u8

record fake_slow_fifo =
  ff_q :: "fake_slow_entry list"
  ff_head :: nat
  ff_tail :: nat
  ff_count :: nat

definition slow_push :: "fake_slow_fifo \<Rightarrow> bytes \<Rightarrow> u32 \<Rightarrow> u8 \<Rightarrow> fake_slow_fifo \<times> int" where
  "slow_push f data lif egress =
     (if ff_count f < FAKE_SLOW_PATH_DEPTH \<and> length data \<le> FAKE_SLOW_FRAME_MAX
      then (f\<lparr>ff_q := (ff_q f)[ff_head f :=
                 \<lparr>fe_data = data @ drop (length data) (fe_data (ff_q f ! ff_head f)),
                  fe_len = length data, fe_logical_if_id = lif, fe_egress_local_port = egress\<rparr>],
              ff_head := (ff_head f + 1) mod FAKE_SLOW_PATH_DEPTH, ff_count := ff_count f + 1\<rparr>, 0)
      else (f, -1))"

text \<open>The frame copied out (at most \<open>buflen\<close> bytes) with its interface and port, if there is one;
  the return value of the source is the number of bytes copied, or 0.\<close>

definition slow_pop :: "fake_slow_fifo \<Rightarrow> nat \<Rightarrow> fake_slow_fifo \<times> (bytes \<times> u32 \<times> u8) option" where
  "slow_pop f buflen =
     (if ff_count f > 0
      then let e = ff_q f ! ff_tail f; copy = (if fe_len e < buflen then fe_len e else buflen)
           in (f\<lparr>ff_tail := (ff_tail f + 1) mod FAKE_SLOW_PATH_DEPTH, ff_count := ff_count f - 1\<rparr>,
               Some (take copy (fe_data e), fe_logical_if_id e, fe_egress_local_port e))
      else (f, None))"

definition slow_pop_rc :: "(bytes \<times> u32 \<times> u8) option \<Rightarrow> int" where
  "slow_pop_rc r = (case r of None \<Rightarrow> 0 | Some (bs, _) \<Rightarrow> int (length bs))"

definition zero_entry :: fake_slow_entry where
  "zero_entry = \<lparr>fe_data = replicate FAKE_SLOW_FRAME_MAX 0, fe_len = 0, fe_logical_if_id = 0,
                 fe_egress_local_port = 0\<rparr>"

definition zero_fifo :: fake_slow_fifo where
  "zero_fifo = \<lparr>ff_q = replicate FAKE_SLOW_PATH_DEPTH zero_entry, ff_head = 0, ff_tail = 0, ff_count = 0\<rparr>"

section \<open>The ring is a bounded queue\<close>

type_synonym slow_frame = "bytes \<times> u32 \<times> u8"

definition entry_frame :: "fake_slow_entry \<Rightarrow> slow_frame" where
  "entry_frame e = (take (fe_len e) (fe_data e), fe_logical_if_id e, fe_egress_local_port e)"

definition fifo_inv :: "fake_slow_fifo \<Rightarrow> bool" where
  "fifo_inv f \<longleftrightarrow>
     length (ff_q f) = FAKE_SLOW_PATH_DEPTH \<and> ff_head f < FAKE_SLOW_PATH_DEPTH \<and>
     ff_tail f < FAKE_SLOW_PATH_DEPTH \<and> ff_count f \<le> FAKE_SLOW_PATH_DEPTH \<and>
     ff_head f = (ff_tail f + ff_count f) mod FAKE_SLOW_PATH_DEPTH \<and>
     (\<forall>e\<in>set (ff_q f). length (fe_data e) = FAKE_SLOW_FRAME_MAX \<and> fe_len e \<le> FAKE_SLOW_FRAME_MAX)"

definition fifo_contents :: "fake_slow_fifo \<Rightarrow> slow_frame list" where
  "fifo_contents f =
     map (\<lambda>i. entry_frame (ff_q f ! ((ff_tail f + i) mod FAKE_SLOW_PATH_DEPTH))) [0..<ff_count f]"

definition fifo_push :: "slow_frame \<Rightarrow> fake_slow_fifo \<Rightarrow> fake_slow_fifo option" where
  "fifo_push x f =
     (case x of (data, lif, egress) \<Rightarrow>
        let (f', rc) = slow_push f data lif egress in if rc < 0 then None else Some f')"

definition fifo_pop :: "fake_slow_fifo \<Rightarrow> (slow_frame \<times> fake_slow_fifo) option" where
  "fifo_pop f = (let (f', r) = slow_pop f FAKE_SLOW_FRAME_MAX in map_option (\<lambda>x. (x, f')) r)"

definition frame_fits :: "slow_frame \<Rightarrow> bool" where
  "frame_fits x \<longleftrightarrow> length (fst x) \<le> FAKE_SLOW_FRAME_MAX"

lemma ring_distinct:
  "i < n \<Longrightarrow> n < FAKE_SLOW_PATH_DEPTH \<Longrightarrow>
     (t + i) mod FAKE_SLOW_PATH_DEPTH \<noteq> (t + n) mod FAKE_SLOW_PATH_DEPTH"
proof
  let ?D = FAKE_SLOW_PATH_DEPTH
  assume i: "i < n" "n < ?D" and eq: "(t + i) mod ?D = (t + n) mod ?D"
  have "?D dvd (t + n) - (t + i)" using mod_eq_dvd_iff_nat [of "t + i" "t + n" ?D] i eq by simp
  with i show False by (simp add: nat_dvd_not_less)
qed

lemma fifo_push_Some:
  assumes inv: "fifo_inv f" and p: "fifo_push x f = Some f'"
  shows "fifo_inv f' \<and> fifo_contents f' = fifo_contents f @ [x]"
proof -
  let ?D = FAKE_SLOW_PATH_DEPTH
  obtain data lif egress where x: "x = (data, lif, egress)" by (cases x)
  define e where "e = \<lparr>fe_data = data @ drop (length data) (fe_data (ff_q f ! ff_head f)),
    fe_len = length data, fe_logical_if_id = lif, fe_egress_local_port = egress\<rparr>"
  from p have room: "ff_count f < ?D" and fits: "length data \<le> FAKE_SLOW_FRAME_MAX"
    and f': "f' = f\<lparr>ff_q := (ff_q f)[ff_head f := e], ff_head := (ff_head f + 1) mod ?D,
                    ff_count := ff_count f + 1\<rparr>"
    by (auto simp: fifo_push_def x slow_push_def e_def split: if_splits)
  have h: "ff_head f < length (ff_q f)" "ff_head f = (ff_tail f + ff_count f) mod ?D"
    and D: "0 < ?D" using inv by (auto simp: fifo_inv_def FAKE_SLOW_PATH_DEPTH_def)
  have len: "length (fe_data (ff_q f ! ff_head f)) = FAKE_SLOW_FRAME_MAX"
    using inv h(1) by (simp add: fifo_inv_def)
  have "\<forall>y\<in>set ((ff_q f)[ff_head f := e]). length (fe_data y) = FAKE_SLOW_FRAME_MAX \<and> fe_len y \<le> FAKE_SLOW_FRAME_MAX"
    using inv fits len set_update_subset_insert [of "ff_q f" "ff_head f" e]
    by (auto simp: fifo_inv_def e_def)
  moreover have "(ff_head f + 1) mod ?D = (ff_tail f + Suc (ff_count f)) mod ?D"
    unfolding h(2) by (simp add: mod_Suc_eq)
  ultimately have inv': "fifo_inv f'" using inv room D by (auto simp: fifo_inv_def f')
  have slot: "ff_q f' ! ((ff_tail f + i) mod ?D) = ff_q f ! ((ff_tail f + i) mod ?D)" if "i < ff_count f" for i
    using ring_distinct [OF that room, of "ff_tail f"] h(2) by (simp add: f')
  have new: "ff_q f' ! ((ff_tail f + ff_count f) mod ?D) = e" using h by (simp add: f')
  have "fifo_contents f' = fifo_contents f @ [entry_frame e]"
    using slot new by (simp add: fifo_contents_def f')
  moreover have "entry_frame e = x" by (simp add: entry_frame_def e_def x)
  ultimately show ?thesis using inv' by simp
qed

lemma fifo_pop_Some:
  assumes inv: "fifo_inv f" and p: "fifo_pop f = Some (x, f')"
  shows "fifo_inv f' \<and> fifo_contents f = x # fifo_contents f'"
proof -
  let ?D = FAKE_SLOW_PATH_DEPTH
  define e where "e = ff_q f ! ff_tail f"
  from p have ne: "0 < ff_count f"
    and f': "f' = f\<lparr>ff_tail := (ff_tail f + 1) mod ?D, ff_count := ff_count f - 1\<rparr>"
    and x: "x = (take (if fe_len e < FAKE_SLOW_FRAME_MAX then fe_len e else FAKE_SLOW_FRAME_MAX) (fe_data e),
      fe_logical_if_id e, fe_egress_local_port e)"
    by (auto simp: fifo_pop_def slow_pop_def e_def Let_def split: if_splits)
  have t: "ff_tail f < ?D" and D: "0 < ?D" using inv by (auto simp: fifo_inv_def FAKE_SLOW_PATH_DEPTH_def)
  have "e \<in> set (ff_q f)" using inv t by (simp add: e_def fifo_inv_def)
  then have "fe_len e \<le> FAKE_SLOW_FRAME_MAX" using inv by (simp add: fifo_inv_def)
  then have x': "x = entry_frame e" by (auto simp: x entry_frame_def)
  obtain n where n: "ff_count f = Suc n" using ne by (cases "ff_count f") auto
  have "((ff_tail f + 1) mod ?D + n) mod ?D = (ff_tail f + Suc n) mod ?D" by (simp add: mod_add_left_eq)
  then have inv': "fifo_inv f'" using inv D by (auto simp: fifo_inv_def f' n)
  have "[0..<Suc n] = 0 # map Suc [0..<n]" by (simp add: upt_conv_Cons map_Suc_upt)
  then have "fifo_contents f = entry_frame e # fifo_contents f'"
    using t by (simp add: fifo_contents_def f' n e_def mod_add_left_eq)
  with inv' x' show ?thesis by simp
qed

interpretation slow_fifo: bounded_queue fifo_push fifo_pop fifo_contents FAKE_SLOW_PATH_DEPTH frame_fits fifo_inv
proof unfold_locales
  fix f x
  assume "fifo_inv f"
  then show "fifo_push x f = None \<longleftrightarrow> \<not> frame_fits x \<or> FAKE_SLOW_PATH_DEPTH \<le> length (fifo_contents f)"
    by (cases x) (auto simp: fifo_push_def slow_push_def frame_fits_def fifo_contents_def)
next
  fix f
  assume "fifo_inv f"
  then show "fifo_pop f = None \<longleftrightarrow> fifo_contents f = []"
    by (auto simp: fifo_pop_def slow_pop_def fifo_contents_def Let_def)
next
  fix f f' x
  assume inv: "fifo_inv f"
  show "fifo_push x f = Some f' \<Longrightarrow> fifo_inv f' \<and> fifo_contents f' = fifo_contents f @ [x]"
    by (rule fifo_push_Some [OF inv])
  show "fifo_pop f = Some (x, f') \<Longrightarrow> fifo_inv f' \<and> fifo_contents f = x # fifo_contents f'"
    by (rule fifo_pop_Some [OF inv])
qed

lemma zero_fifo_inv: "fifo_inv zero_fifo" "fifo_contents zero_fifo = []"
  by (simp_all add: fifo_inv_def zero_fifo_def zero_entry_def fifo_contents_def FAKE_SLOW_PATH_DEPTH_def)

lemma push_first:
  assumes "frame_fits x"
  shows "\<exists>f. fifo_push x zero_fifo = Some f \<and> fifo_inv f \<and> fifo_contents f = [x]"
proof -
  have "fifo_push x zero_fifo \<noteq> None"
    using slow_fifo.push_None [OF zero_fifo_inv(1), of x] assms by (simp add: zero_fifo_inv FAKE_SLOW_PATH_DEPTH_def)
  then obtain f where f: "fifo_push x zero_fifo = Some f" by blast
  with slow_fifo.push_Some [OF zero_fifo_inv(1) f] show ?thesis by (simp add: zero_fifo_inv)
qed

section \<open>The context\<close>

record pw_fake_wr_counts =
  wc_flowid_map :: u32
  wc_fc_cmp :: u32
  wc_fc_udf :: u32
  wc_fc_rule :: u32
  wc_hash :: u32

record fake_ctx =
  fk_global_ctl :: u32
  fk_global_status :: u32
  fk_timestamp :: u64
  fk_port :: "pw_port_stats list"
  fk_flow :: "pwfpga_flow_config list"
  fk_flow_staged :: "pwfpga_flow_config list"
  fk_flow_stats :: "pw_flow_stats list"
  fk_flow_stats_snapshot :: "pw_flow_stats list"
  fk_punt_rx :: fake_slow_fifo
  fk_tx_inject :: fake_slow_fifo
  fk_wr :: pw_fake_wr_counts
  fk_fail_armed :: bool
  fk_flag_was_present :: bool

text \<open>\<open>calloc\<close> in \<open>pw_fake_backend_open\<close>.\<close>

definition pw_fake_backend_open :: fake_ctx where
  "pw_fake_backend_open =
     \<lparr>fk_global_ctl = 0, fk_global_status = 0, fk_timestamp = 0,
      fk_port = replicate PW_PORTS_PER_CARD zero_port_stats,
      fk_flow = replicate FAKE_NUM_FLOWS zero_row, fk_flow_staged = replicate FAKE_NUM_FLOWS zero_row,
      fk_flow_stats = replicate FAKE_NUM_FLOWS zero_flow_stats,
      fk_flow_stats_snapshot = replicate FAKE_NUM_FLOWS zero_flow_stats,
      fk_punt_rx = zero_fifo, fk_tx_inject = zero_fifo,
      fk_wr = \<lparr>wc_flowid_map = 0, wc_fc_cmp = 0, wc_fc_udf = 0, wc_fc_rule = 0, wc_hash = 0\<rparr>,
      fk_fail_armed = False, fk_flag_was_present = False\<rparr>"

section \<open>Registers\<close>

definition fake_read32 :: "fake_ctx \<Rightarrow> u32 \<Rightarrow> pw_status + u32" where
  "fake_read32 c off = Inr
     (if off = PWFPGA_REG_DEVICE_ID then 0xA502BEEF
      else if off = PWFPGA_REG_VERSION then 0x00010000
      else if off = PWFPGA_REG_BUILD_ID then 0xFACE0000
      else if off = PWFPGA_REG_GIT_HASH then 0xDEADBEEF
      else if off = PWFPGA_REG_CAPABILITIES then PWFPGA_CAP_HAS_HISTOGRAM
      else if off = PWFPGA_REG_NUM_LOCAL_PORTS then of_nat PW_PORTS_PER_CARD
      else if off = PWFPGA_REG_NUM_LOCAL_FLOWS then of_nat FAKE_NUM_FLOWS
      else if off = PWFPGA_REG_NUM_LOGICAL_IFS then 256
      else if off = PWFPGA_REG_NUM_CLASSIFIER then of_nat FAKE_NUM_CLASSIFIER
      else if off = PWFPGA_REG_NUM_HIST_BINS then of_nat FAKE_NUM_HIST_BINS
      else if off = PWFPGA_REG_GLOBAL_CONTROL then fk_global_ctl c
      else if off = PWFPGA_REG_GLOBAL_STATUS then fk_global_status c
      else if off = PWFPGA_REG_TIMESTAMP_LOW then ucast (fk_timestamp c)
      else if off = PWFPGA_REG_TIMESTAMP_HIGH then ucast (drop_bit 32 (fk_timestamp c))
      else 0)"

text \<open>The failure hook: a write of \<open>DP_RESET\<close> arms the next commit, by the flag files the
  environment names (\<open>oneshot\<close>, \<open>sticky\<close>: whether they are present).\<close>

definition fake_dp_reset :: "bool \<Rightarrow> bool \<Rightarrow> fake_ctx \<Rightarrow> fake_ctx" where
  "fake_dp_reset oneshot sticky c =
     c\<lparr>fk_fail_armed := (if sticky then True
                          else if oneshot \<and> \<not> fk_flag_was_present c then True else fk_fail_armed c),
       fk_flag_was_present := oneshot\<rparr>"

definition clear_counters :: "fake_ctx \<Rightarrow> fake_ctx" where
  "clear_counters c =
     c\<lparr>fk_port := replicate PW_PORTS_PER_CARD zero_port_stats,
       fk_flow_stats := replicate FAKE_NUM_FLOWS zero_flow_stats\<rparr>"

definition fake_global_control :: "fake_ctx \<Rightarrow> u32 \<Rightarrow> fake_ctx" where
  "fake_global_control c v =
     (let c1 = c\<lparr>fk_global_ctl := v\<rparr>;
          c2 = (if v AND PWFPGA_GCTL_ENABLE \<noteq> 0
                then c1\<lparr>fk_global_status := fk_global_status c1 OR PWFPGA_GSTAT_READY\<rparr> else c1);
          c3 = (if v AND PWFPGA_GCTL_ARM \<noteq> 0
                then c2\<lparr>fk_global_status := fk_global_status c2 OR PWFPGA_GSTAT_ARMED\<rparr> else c2)
      in if v AND PWFPGA_GCTL_RESET_COUNTERS \<noteq> 0 then clear_counters c3 else c3)"

definition count_write :: "pw_fake_wr_counts \<Rightarrow> u32 \<Rightarrow> pw_fake_wr_counts" where
  "count_write wr off =
     (if off \<ge> PWFPGA_WIN_FLOWID_MAP \<and> off < PWFPGA_WIN_FLOWID_MAP + 0x400
      then wr\<lparr>wc_flowid_map := wc_flowid_map wr + 1\<rparr>
      else if off \<ge> PWFPGA_WIN_FC_CMP \<and> off < PWFPGA_WIN_FC_UDF
      then wr\<lparr>wc_fc_cmp := wc_fc_cmp wr + 1\<rparr>
      else if off \<ge> PWFPGA_WIN_FC_UDF \<and> off < PWFPGA_WIN_FC_RULE
      then wr\<lparr>wc_fc_udf := wc_fc_udf wr + 1\<rparr>
      else if off \<ge> PWFPGA_WIN_FC_RULE \<and> off < PWFPGA_WIN_FC_RULE + of_nat PWFPGA_NUM_RULE * 16
      then wr\<lparr>wc_fc_rule := wc_fc_rule wr + 1\<rparr>
      else if off \<ge> PWFPGA_WIN_HASH_MASK \<and> off < PWFPGA_WIN_FC_HASH + 0x2000
      then wr\<lparr>wc_hash := wc_hash wr + 1\<rparr>
      else wr)"

definition fake_write32 :: "bool \<Rightarrow> bool \<Rightarrow> fake_ctx \<Rightarrow> u32 \<Rightarrow> u32 \<Rightarrow> fake_ctx \<times> pw_status" where
  "fake_write32 oneshot sticky c0 off v =
     (let c = (if off = PWFPGA_REG_DP_RESET then fake_dp_reset oneshot sticky c0 else c0)
      in if off = PWFPGA_REG_GLOBAL_CONTROL then (fake_global_control c v, PW_OK)
         else if off = PWFPGA_REG_ERROR_STATUS \<or> off = PWFPGA_REG_IRQ_STATUS then (c, PW_OK)
         else if off = PWFPGA_REG_STATS_CLEAR
         then ((clear_counters c)\<lparr>fk_flow_stats_snapshot := replicate FAKE_NUM_FLOWS zero_flow_stats\<rparr>, PW_OK)
         else (c\<lparr>fk_wr := count_write (fk_wr c) off\<rparr>, PW_OK))"

definition fake_card_info :: "fake_ctx \<Rightarrow> pw_card_info \<times> pw_status" where
  "fake_card_info c =
     (\<lparr>ci_device_id = 0xA502BEEF, ci_version = 0x00010000, ci_build_id = 0xFACE0000,
       ci_git_hash = 0xDEADBEEF, ci_capabilities = PWFPGA_CAP_HAS_HISTOGRAM,
       ci_num_local_ports = of_nat PW_PORTS_PER_CARD, ci_num_local_flows = of_nat FAKE_NUM_FLOWS,
       ci_num_logical_interfaces = 256, ci_num_classifier_entries = of_nat FAKE_NUM_CLASSIFIER\<rparr>, PW_OK)"

section \<open>Flow table and statistics\<close>

definition fake_flow_write :: "fake_ctx \<Rightarrow> u32 \<Rightarrow> pwfpga_flow_config option \<Rightarrow> fake_ctx \<times> pw_status" where
  "fake_flow_write c row o_f =
     (case o_f of None \<Rightarrow> (c, PW_E_INVAL)
      | Some f \<Rightarrow>
          if unat row \<ge> FAKE_NUM_FLOWS then (c, PW_E_OUT_OF_RANGE)
          else (c\<lparr>fk_flow_staged := (fk_flow_staged c)[unat row := f]\<rparr>, PW_OK))"

definition fake_flow_commit :: "fake_ctx \<Rightarrow> fake_ctx \<times> pw_status" where
  "fake_flow_commit c =
     (if fk_fail_armed c then (c\<lparr>fk_fail_armed := False\<rparr>, PW_E_IO)
      else (c\<lparr>fk_flow := fk_flow_staged c\<rparr>, PW_OK))"

definition advance_flow :: "pwfpga_flow_config \<Rightarrow> pw_flow_stats \<Rightarrow> pw_flow_stats" where
  "advance_flow f s =
     (if row_enable f = 0 \<or> row_tx_enable f = 0 then s
      else
        let flen = (if row_frame_len_min f \<noteq> 0 then ucast (row_frame_len_min f) else 64);
            s1 = s\<lparr>fs_tx_frames := fs_tx_frames s + FAKE_FRAMES_PER_SNAPSHOT,
                   fs_tx_bytes := fs_tx_bytes s + FAKE_FRAMES_PER_SNAPSHOT * flen\<rparr>
        in if row_rx_check_enable f \<noteq> 0
           then s1\<lparr>fs_rx_frames := fs_rx_frames s1 + FAKE_FRAMES_PER_SNAPSHOT,
                   fs_rx_bytes := fs_rx_bytes s1 + FAKE_FRAMES_PER_SNAPSHOT * flen,
                   fs_last_sequence := fs_rx_frames s1 + FAKE_FRAMES_PER_SNAPSHOT\<rparr>
           else s1)"

definition fake_stats_snapshot :: "fake_ctx \<Rightarrow> fake_ctx \<times> pw_status" where
  "fake_stats_snapshot c =
     (let st = map2 advance_flow (fk_flow c) (fk_flow_stats c)
      in (c\<lparr>fk_flow_stats := st, fk_timestamp := fk_timestamp c + of_nat (PWFPGA_DATA_PLANE_CLOCK_HZ div 10),
            fk_flow_stats_snapshot := st\<rparr>, PW_OK))"

definition fake_port_stats_read :: "fake_ctx \<Rightarrow> u8 \<Rightarrow> pw_status + pw_port_stats" where
  "fake_port_stats_read c local_port =
     (if unat local_port \<ge> PW_PORTS_PER_CARD then Inl PW_E_INVAL else Inr (fk_port c ! unat local_port))"

definition fake_flow_stats_read :: "fake_ctx \<Rightarrow> u32 \<Rightarrow> pw_status + pw_flow_stats" where
  "fake_flow_stats_read c lfid =
     (if unat lfid \<ge> FAKE_NUM_FLOWS then Inl PW_E_INVAL else Inr (fk_flow_stats_snapshot c ! unat lfid))"

definition fake_flow_hist_read :: "fake_ctx \<Rightarrow> u32 \<Rightarrow> nat \<Rightarrow> pw_status + u64 list" where
  "fake_flow_hist_read c lfid n_buckets =
     Inr (replicate (if n_buckets < FAKE_NUM_HIST_BINS then n_buckets else FAKE_NUM_HIST_BINS) 0)"

section \<open>Slow path and test helpers\<close>

definition fake_slow_path_rx :: "fake_ctx \<Rightarrow> nat \<Rightarrow> fake_ctx \<times> (bytes \<times> u32 \<times> u8) option" where
  "fake_slow_path_rx c buflen =
     (let (f, r) = slow_pop (fk_punt_rx c) buflen in (c\<lparr>fk_punt_rx := f\<rparr>, r))"

definition fake_slow_path_tx :: "fake_ctx \<Rightarrow> bytes \<Rightarrow> u32 \<Rightarrow> u8 \<Rightarrow> fake_ctx \<times> pw_status" where
  "fake_slow_path_tx c frame lif egress =
     (let (f, rc) = slow_push (fk_tx_inject c) frame lif egress
      in (c\<lparr>fk_tx_inject := f\<rparr>, if rc < 0 then PW_E_NO_RESOURCES else PW_OK))"

definition pw_fake_backend_inject_punt :: "fake_ctx \<Rightarrow> u32 \<Rightarrow> bytes \<Rightarrow> fake_ctx \<times> pw_status" where
  "pw_fake_backend_inject_punt c lif frame =
     (let (f, rc) = slow_push (fk_punt_rx c) frame lif 0
      in (c\<lparr>fk_punt_rx := f\<rparr>, if rc < 0 then PW_E_NO_RESOURCES else PW_OK))"

definition pw_fake_backend_drain_tx :: "fake_ctx \<Rightarrow> nat \<Rightarrow> fake_ctx \<times> (bytes \<times> u32 \<times> u8) option" where
  "pw_fake_backend_drain_tx c buflen =
     (let (f, r) = slow_pop (fk_tx_inject c) buflen in (c\<lparr>fk_tx_inject := f\<rparr>, r))"

definition fake_ops :: "bool \<Rightarrow> bool \<Rightarrow> fake_ctx pw_card_backend_ops" where
  "fake_ops oneshot sticky =
     \<lparr>op_write32 = Some (fake_write32 oneshot sticky), op_card_info = Some fake_card_info,
      op_flow_write = Some fake_flow_write, op_flow_commit = Some fake_flow_commit\<rparr>"

section \<open>Staging\<close>

text \<open>A staged table: writes land in the staged copy and nowhere else, a commit publishes it or
  fails and publishes nothing.\<close>

locale staged_table =
  fixes fw :: "'c \<Rightarrow> u32 \<Rightarrow> pwfpga_flow_config option \<Rightarrow> 'c \<times> pw_status"
    and commit :: "'c \<Rightarrow> 'c \<times> pw_status"
    and staged :: "'c \<Rightarrow> nat \<Rightarrow> pwfpga_flow_config"
    and live :: "'c \<Rightarrow> nat \<Rightarrow> pwfpga_flow_config"
    and armed :: "'c \<Rightarrow> bool"
    and capacity :: nat
    and ok :: "'c \<Rightarrow> bool"
  assumes cap_u32: "capacity \<le> 2 ^ 32"
    and fw_ok: "ok c \<Longrightarrow> unat row < capacity \<Longrightarrow> snd (fw c row (Some f)) = PW_OK \<and> ok (fst (fw c row (Some f))) \<and>
      live (fst (fw c row (Some f))) = live c \<and> armed (fst (fw c row (Some f))) = armed c \<and>
      staged (fst (fw c row (Some f))) = (staged c)(unat row := f)"
    and commit_ok: "ok c \<Longrightarrow> \<not> armed c \<Longrightarrow> snd (commit c) = PW_OK \<and> ok (fst (commit c)) \<and>
      live (fst (commit c)) = staged c"
    and commit_fail: "ok c \<Longrightarrow> armed c \<Longrightarrow> snd (commit c) = PW_E_IO \<and> ok (fst (commit c)) \<and>
      live (fst (commit c)) = live c \<and> \<not> armed (fst (commit c))"
begin

lemma write_rows_staged:
  assumes "ok c" "n \<le> capacity"
  shows "snd (write_rows fw cp n (c, s)) = s \<and> ok (fst (write_rows fw cp n (c, s))) \<and>
    live (fst (write_rows fw cp n (c, s))) = live c \<and> armed (fst (write_rows fw cp n (c, s))) = armed c \<and>
    staged (fst (write_rows fw cp n (c, s))) = (\<lambda>r. if r < n then row_image cp r else staged c r)"
  using assms(2)
proof (induction n)
  case 0
  then show ?case using assms(1) by (simp add: write_rows_def)
next
  case (Suc n)
  define c1 where "c1 = fst (write_rows fw cp n (c, s))"
  have IH: "snd (write_rows fw cp n (c, s)) = s" "ok c1" "live c1 = live c" "armed c1 = armed c"
    "staged c1 = (\<lambda>r. if r < n then row_image cp r else staged c r)"
    using Suc by (simp_all add: c1_def)
  have u: "unat (of_nat n :: u32) = n"
    using Suc.prems cap_u32 by (simp add: unat_of_nat take_bit_nat_eq_self)
  have u': "unat (of_nat n :: u32) < capacity" unfolding u using Suc.prems by simp
  note W = fw_ok [OF IH(2) u', of "row_image cp n", unfolded u]
  have step: "write_rows fw cp (Suc n) (c, s) = (fst (fw c1 (of_nat n) (Some (row_image cp n))), s)"
    using W IH(1) by (simp add: write_rows_Suc c1_def chk_def)
  show ?case unfolding step using W IH by (auto simp: fun_eq_iff)
qed

lemma stage_commit:
  fixes c cp n s
  assumes "ok c" "n \<le> capacity"
  defines "c1 \<equiv> fst (write_rows fw cp n (c, s))"
  shows "armed c \<Longrightarrow> snd (commit c1) = PW_E_IO \<and> ok (fst (commit c1)) \<and> live (fst (commit c1)) = live c"
    and "\<not> armed c \<Longrightarrow> snd (commit c1) = PW_OK \<and> ok (fst (commit c1)) \<and>
      live (fst (commit c1)) = (\<lambda>r. if r < n then row_image cp r else staged c r)"
  using write_rows_staged [OF assms(1,2), of cp s] commit_ok [of c1] commit_fail [of c1]
  by (simp_all add: c1_def)

end


definition fake_inv :: "fake_ctx \<Rightarrow> bool" where
  "fake_inv c \<longleftrightarrow>
     length (fk_port c) = PW_PORTS_PER_CARD \<and> length (fk_flow c) = FAKE_NUM_FLOWS \<and>
     length (fk_flow_staged c) = FAKE_NUM_FLOWS \<and> length (fk_flow_stats c) = FAKE_NUM_FLOWS \<and>
     length (fk_flow_stats_snapshot c) = FAKE_NUM_FLOWS \<and>
     fifo_inv (fk_punt_rx c) \<and> fifo_inv (fk_tx_inject c)"

definition table_row :: "pwfpga_flow_config list \<Rightarrow> nat \<Rightarrow> pwfpga_flow_config" where
  "table_row t r = (if r < length t then t ! r else zero_row)"

interpretation fake_flows: staged_table fake_flow_write fake_flow_commit
  "\<lambda>c. table_row (fk_flow_staged c)" "\<lambda>c. table_row (fk_flow c)" fk_fail_armed FAKE_NUM_FLOWS fake_inv
proof unfold_locales
  show "FAKE_NUM_FLOWS \<le> 2 ^ 32" by (simp add: FAKE_NUM_FLOWS_def)
next
  fix c :: fake_ctx and row :: u32 and f
  assume "fake_inv c" "unat row < FAKE_NUM_FLOWS"
  then show "snd (fake_flow_write c row (Some f)) = PW_OK \<and> fake_inv (fst (fake_flow_write c row (Some f))) \<and>
      table_row (fk_flow (fst (fake_flow_write c row (Some f)))) = table_row (fk_flow c) \<and>
      fk_fail_armed (fst (fake_flow_write c row (Some f))) = fk_fail_armed c \<and>
      table_row (fk_flow_staged (fst (fake_flow_write c row (Some f)))) =
        (table_row (fk_flow_staged c))(unat row := f)"
    by (auto simp: fake_flow_write_def fake_inv_def table_row_def fun_eq_iff)
qed (auto simp: fake_flow_commit_def fake_inv_def)

text \<open>Every operation keeps the invariant.\<close>

lemma fake_open_inv: "fake_inv pw_fake_backend_open"
  by (simp add: fake_inv_def pw_fake_backend_open_def zero_fifo_inv)

lemma slow_push_inv: "fifo_inv f \<Longrightarrow> fifo_inv (fst (slow_push f data lif egress))"
  using fifo_push_Some [of f "(data, lif, egress)"]
  by (auto simp: fifo_push_def slow_push_def split: if_splits)

lemma slow_pop_inv: "fifo_inv f \<Longrightarrow> fifo_inv (fst (slow_pop f buflen))"
  using fifo_pop_Some [of f]
  by (auto simp: fifo_pop_def slow_pop_def Let_def split: if_splits)

lemma fake_write32_inv: "fake_inv c \<Longrightarrow> fake_inv (fst (fake_write32 oneshot sticky c off v))"
  by (simp add: fake_inv_def fake_write32_def fake_global_control_def clear_counters_def fake_dp_reset_def Let_def)

lemma fake_ops_inv:
  assumes "fake_inv c"
  shows "fake_inv (fst (fake_flow_write c row f))" "fake_inv (fst (fake_flow_commit c))"
    "fake_inv (fst (fake_stats_snapshot c))" "fake_inv (fst (fake_slow_path_rx c n))"
    "fake_inv (fst (fake_slow_path_tx c data lif egress))"
    "fake_inv (fst (pw_fake_backend_inject_punt c lif data))"
    "fake_inv (fst (pw_fake_backend_drain_tx c n))"
  using assms slow_push_inv [of "fk_punt_rx c" data lif 0] slow_push_inv [of "fk_tx_inject c" data lif egress]
    slow_pop_inv [of "fk_punt_rx c" n] slow_pop_inv [of "fk_tx_inject c" n]
  by (auto simp: fake_inv_def fake_flow_write_def fake_flow_commit_def fake_stats_snapshot_def Let_def
      fake_slow_path_rx_def fake_slow_path_tx_def pw_fake_backend_inject_punt_def pw_fake_backend_drain_tx_def
      split: option.split prod.split)

section \<open>Programming the software card\<close>

definition plain_reg :: "u32 \<Rightarrow> bool" where
  "plain_reg off \<longleftrightarrow> off \<notin> {PWFPGA_REG_DP_RESET, PWFPGA_REG_GLOBAL_CONTROL, PWFPGA_REG_ERROR_STATUS,
     PWFPGA_REG_IRQ_STATUS, PWFPGA_REG_STATS_CLEAR}"

lemma fake_writes_count:
  "\<forall>(a, v)\<in>set ws. plain_reg a \<Longrightarrow>
     chk_writes (fake_write32 oneshot sticky) ws (c, s) =
       (c\<lparr>fk_wr := foldl count_write (fk_wr c) (map fst ws)\<rparr>, s)"
proof (induction ws arbitrary: c)
  case (Cons w ws)
  obtain a v where w: "w = (a, v)" by (cases w)
  with Cons.prems have "plain_reg a" by simp
  then have "fake_write32 oneshot sticky c a v = (c\<lparr>fk_wr := count_write (fk_wr c) a\<rparr>, PW_OK)"
    by (simp add: fake_write32_def plain_reg_def)
  moreover have "chk_writes (fake_write32 oneshot sticky) (w # ws) (c, s) =
      chk_writes (fake_write32 oneshot sticky) ws (chk s (fake_write32 oneshot sticky c a v))"
    by (simp add: chk_writes_def w)
  ultimately show ?case using Cons by (simp add: chk_def w)
qed (simp add: chk_writes_def)

lemma table_writes_plain:
  assumes "program_in_range cp"
  shows "\<forall>(a, v)\<in>set (table_writes cp). plain_reg a"
proof (intro ballI, clarify)
  fix a v
  assume "(a, v) \<in> set (table_writes cp)"
  then have "unat a \<in> addrs (table_writes cp)" by (force simp: addrs_def)
  with table_writes_addrs [OF assms]
  have "unat a \<in> {0x400..<0x800} \<union> {0x2000..<0x2400} \<union> {0x2F00..<0x5000}" by blast
  then show "plain_reg a" by (auto simp: plain_reg_def csr_regs)
qed

text \<open>A group of writes is counted in its own window.\<close>

definition wr_plus :: "pw_fake_wr_counts \<Rightarrow> nat \<Rightarrow> nat \<Rightarrow> nat \<Rightarrow> nat \<Rightarrow> nat \<Rightarrow> pw_fake_wr_counts" where
  "wr_plus wr m c u r h =
     \<lparr>wc_flowid_map = wc_flowid_map wr + of_nat m, wc_fc_cmp = wc_fc_cmp wr + of_nat c,
      wc_fc_udf = wc_fc_udf wr + of_nat u, wc_fc_rule = wc_fc_rule wr + of_nat r,
      wc_hash = wc_hash wr + of_nat h\<rparr>"

lemma count_write_window:
  "unat a \<in> {0x400..<0x800} \<Longrightarrow> count_write wr a = wr_plus wr 1 0 0 0 0"
  "unat a \<in> {0x2000..<0x2100} \<Longrightarrow> count_write wr a = wr_plus wr 0 1 0 0 0"
  "unat a \<in> {0x2100..<0x2200} \<Longrightarrow> count_write wr a = wr_plus wr 0 0 1 0 0"
  "unat a \<in> {0x2200..<0x2400} \<Longrightarrow> count_write wr a = wr_plus wr 0 0 0 1 0"
  "unat a \<in> {0x2F00..<0x5000} \<Longrightarrow> count_write wr a = wr_plus wr 0 0 0 0 1"
  by (simp_all add: count_write_def wr_plus_def csr_regs csr_caps word_le_nat_alt word_less_nat_alt)

lemma wr_plus_add: "wr_plus (wr_plus wr m c u r h) m' c' u' r' h' = wr_plus wr (m + m') (c + c') (u + u') (r + r') (h + h')"
  by (simp add: wr_plus_def)

lemma foldl_count:
  assumes "\<And>a wr. unat a \<in> W \<Longrightarrow> count_write wr a = wr_plus wr m c u r h" and "addrs ws \<subseteq> W"
  shows "foldl count_write wr (map fst ws) =
    wr_plus wr (length ws * m) (length ws * c) (length ws * u) (length ws * r) (length ws * h)"
  using assms(2)
proof (induction ws arbitrary: wr)
  case Nil
  then show ?case by (simp add: wr_plus_def)
next
  case (Cons w ws)
  then have "foldl count_write wr (map fst (w # ws)) = foldl count_write (wr_plus wr m c u r h) (map fst ws)"
    using assms(1) by simp
  with Cons show ?case by (simp add: wr_plus_add)
qed

lemma table_writes_count:
  assumes "program_in_range cp"
  shows "foldl count_write wr (map fst (table_writes cp)) =
    wr_plus wr (length (map_writes cp)) (length (cmp_writes cp)) (length (udf_writes cp))
      (length (rule_writes cp)) (length (hash_writes cp))"
proof -
  note G = group_addrs [OF assms]
  have "foldl count_write wr (map fst (map_writes cp)) = wr_plus wr (length (map_writes cp)) 0 0 0 0" for wr
    using foldl_count [OF _ G(1)] count_write_window(1) by fastforce
  moreover have "foldl count_write wr (map fst (cmp_writes cp)) = wr_plus wr 0 (length (cmp_writes cp)) 0 0 0" for wr
    using foldl_count [OF _ G(2)] count_write_window(2) by fastforce
  moreover have "foldl count_write wr (map fst (udf_writes cp)) = wr_plus wr 0 0 (length (udf_writes cp)) 0 0" for wr
    using foldl_count [OF _ G(3)] count_write_window(3) by fastforce
  moreover have "foldl count_write wr (map fst (rule_writes cp)) = wr_plus wr 0 0 0 (length (rule_writes cp)) 0" for wr
    using foldl_count [OF _ G(4)] count_write_window(4) by fastforce
  moreover have "foldl count_write wr (map fst (hash_writes cp)) = wr_plus wr 0 0 0 0 (length (hash_writes cp))" for wr
    using foldl_count [OF _ G(5)] count_write_window(5) by fastforce
  ultimately show ?thesis by (simp add: table_writes_def wr_plus_add)
qed

lemma fake_rows_wr: "fk_wr (fst (write_rows fake_flow_write cp n (c, s))) = fk_wr c"
  by (induction n) (simp_all add: write_rows_def[of _ _ 0] write_rows_Suc chk_def fake_flow_write_def)

lemma fake_program:
  assumes inv: "fake_inv c" and R: "program_in_range cp"
    and run: "pw_program_card_tables (Some (fake_ops oneshot sticky)) c (Some cp) = (c', s)"
  shows "s = (if fk_fail_armed c then PW_E_IO else PW_OK)"
    and "fake_inv c'"
    and "fk_fail_armed c \<Longrightarrow> table_row (fk_flow c') = table_row (fk_flow c)"
    and "\<not> fk_fail_armed c \<Longrightarrow> r < PWFPGA_FLOW_TABLE_ROWS \<Longrightarrow> table_row (fk_flow c') r = row_image cp r"
    and "fk_wr c' = wr_plus (fk_wr c) (length (map_writes cp)) (length (cmp_writes cp)) (length (udf_writes cp))
      (length (rule_writes cp)) (length (hash_writes cp))"
proof -
  define n where "n = rows_to_write (Some FAKE_NUM_FLOWS) (length (cp_flow_rows cp))"
  have len: "length (cp_flow_rows cp) \<le> 64" using R by (simp add: program_in_range_def csr_capacities)
  have n: "n = PWFPGA_FLOW_TABLE_ROWS" "n \<le> FAKE_NUM_FLOWS"
    using len by (simp_all add: n_def rows_to_write_def FAKE_NUM_FLOWS_def csr_capacities Let_def)
  have info: "local_flows (fake_ops oneshot sticky) c = Some FAKE_NUM_FLOWS"
    by (simp add: local_flows_def fake_ops_def fake_card_info_def FAKE_NUM_FLOWS_def)
  have cap: "\<not> over_capacity (Some FAKE_NUM_FLOWS) (length (cp_flow_rows cp))"
    using len by (simp add: over_capacity_def FAKE_NUM_FLOWS_def)
  define c1 where "c1 = fst (write_rows fake_flow_write cp n (c, PW_OK))"
  define c2 where "c2 = fst (fake_flow_commit c1)"
  have rows: "write_rows fake_flow_write cp n (c, PW_OK) = (c1, PW_OK)" "fk_wr c1 = fk_wr c"
    using fake_flows.write_rows_staged [OF inv n(2), of cp PW_OK] fake_rows_wr [of cp n c PW_OK]
    by (simp_all add: c1_def prod_eq_iff)
  note C = fake_flows.stage_commit [OF inv n(2), of cp PW_OK, folded c1_def c2_def]
  have sc: "snd (fake_flow_commit c1) = (if fk_fail_armed c then PW_E_IO else PW_OK)" and inv2: "fake_inv c2"
    using C by (cases "fk_fail_armed c"; simp)+
  have wr2: "fk_wr c2 = fk_wr c" using rows(2) by (simp add: c2_def fake_flow_commit_def)
  have "chk_writes (fake_write32 oneshot sticky) (table_writes cp) (chk PW_OK (fake_flow_commit c1)) = (c', s)"
    using run R cap rows(1) info unfolding pw_program_card_tables_def pw_program_card_tables_diag_def
    by (simp add: Let_def missing_op_def fake_ops_def n_def [symmetric])
  moreover have "chk PW_OK (fake_flow_commit c1) = (c2, if fk_fail_armed c then PW_E_IO else PW_OK)"
    using sc by (simp add: chk_def c2_def)
  ultimately have c': "c' = c2\<lparr>fk_wr := foldl count_write (fk_wr c2) (map fst (table_writes cp))\<rparr>"
    and s: "s = (if fk_fail_armed c then PW_E_IO else PW_OK)"
    using fake_writes_count [OF table_writes_plain [OF R]] by auto
  show "s = (if fk_fail_armed c then PW_E_IO else PW_OK)" by (rule s)
  show "fake_inv c'" using inv2 by (simp add: c' fake_inv_def)
  show "table_row (fk_flow c') = table_row (fk_flow c)" if "fk_fail_armed c" using C that by (simp add: c')
  show "table_row (fk_flow c') r = row_image cp r" if "\<not> fk_fail_armed c" "r < PWFPGA_FLOW_TABLE_ROWS"
    using C that n by (simp add: c')
  show "fk_wr c' = wr_plus (fk_wr c) (length (map_writes cp)) (length (cmp_writes cp)) (length (udf_writes cp))
      (length (rule_writes cp)) (length (hash_writes cp))"
    using table_writes_count [OF R] wr2 by (simp add: c')
qed

section \<open>The traffic model\<close>

definition gate_on :: "pwfpga_flow_config \<Rightarrow> bool" where
  "gate_on f \<longleftrightarrow> row_enable f \<noteq> 0 \<and> row_tx_enable f \<noteq> 0"

definition snapshots :: "nat \<Rightarrow> fake_ctx \<Rightarrow> fake_ctx" where
  "snapshots n = ((\<lambda>c. fst (fake_stats_snapshot c)) ^^ n)"

lemma fake_snapshots:
  assumes "fake_inv c" "i < FAKE_NUM_FLOWS"
  shows "fake_inv (snapshots n c) \<and> fk_flow (snapshots n c) = fk_flow c \<and>
    fk_flow_stats (snapshots n c) ! i = (advance_flow (fk_flow c ! i) ^^ n) (fk_flow_stats c ! i) \<and>
    (0 < n \<longrightarrow> fk_flow_stats_snapshot (snapshots n c) = fk_flow_stats (snapshots n c))"
proof (induction n)
  case (Suc n)
  let ?c = "snapshots n c"
  have step: "snapshots (Suc n) c = fst (fake_stats_snapshot ?c)" by (simp add: snapshots_def)
  have len: "i < length (fk_flow c)" "i < length (fk_flow_stats ?c)" using Suc assms by (auto simp: fake_inv_def)
  show ?case unfolding step
    using Suc len fake_ops_inv(3) [of ?c] by (simp add: fake_stats_snapshot_def Let_def)
qed (use assms in \<open>simp add: snapshots_def\<close>)

lemma advance_flow_iter:
  "\<not> gate_on f \<Longrightarrow> (advance_flow f ^^ n) s = s"
  "gate_on f \<Longrightarrow> fs_tx_frames ((advance_flow f ^^ n) s) = fs_tx_frames s + of_nat n * FAKE_FRAMES_PER_SNAPSHOT"
  "gate_on f \<Longrightarrow> row_rx_check_enable f \<noteq> 0 \<Longrightarrow>
     fs_rx_frames ((advance_flow f ^^ n) s) = fs_rx_frames s + of_nat n * FAKE_FRAMES_PER_SNAPSHOT"
  "gate_on f \<Longrightarrow> row_rx_check_enable f = 0 \<Longrightarrow> fs_rx_frames ((advance_flow f ^^ n) s) = fs_rx_frames s"
  by (induction n) (auto simp: advance_flow_def gate_on_def Let_def algebra_simps)


section \<open>Reachable states\<close>

text \<open>Every operation of the backend, by the daemon or by a test, as a step.\<close>

inductive fake_step :: "fake_ctx \<Rightarrow> fake_ctx \<Rightarrow> bool" where
  st_write32: "fake_step c (fst (fake_write32 oneshot sticky c off v))"
| st_flow_write: "fake_step c (fst (fake_flow_write c row f))"
| st_flow_commit: "fake_step c (fst (fake_flow_commit c))"
| st_snapshot: "fake_step c (fst (fake_stats_snapshot c))"
| st_rx: "fake_step c (fst (fake_slow_path_rx c n))"
| st_tx: "fake_step c (fst (fake_slow_path_tx c data lif egress))"
| st_punt: "fake_step c (fst (pw_fake_backend_inject_punt c lif data))"
| st_drain: "fake_step c (fst (pw_fake_backend_drain_tx c n))"

inductive fake_reachable :: "fake_ctx \<Rightarrow> bool" where
  fr_open: "fake_reachable pw_fake_backend_open"
| fr_step: "fake_reachable c \<Longrightarrow> fake_step c c' \<Longrightarrow> fake_reachable c'"

lemma fake_step_inv: "fake_step c c' \<Longrightarrow> fake_inv c \<Longrightarrow> fake_inv c'"
  by (induction rule: fake_step.induct) (auto intro: fake_write32_inv fake_ops_inv)

lemma fake_reachable_inv: "fake_reachable c \<Longrightarrow> fake_inv c"
  by (induction rule: fake_reachable.induct) (auto intro: fake_open_inv fake_step_inv)

section \<open>Properties\<close>

text \<open>
  In every reachable state of the software backend the tables keep their sizes and both FIFOs stay
  consistent rings, so no access indexed by an accepted row, slot or port is out of bounds: a row below the
  capacity is staged, a statistics slot or port in range is read, and everything else is an error.
\<close>

lemma fake_safe:
  assumes "fake_reachable c"
  shows "fake_inv c \<and>
    (snd (fake_flow_write c row (Some f)) = PW_OK \<longleftrightarrow> unat row < length (fk_flow_staged c)) \<and>
    (\<exists>st. fake_flow_stats_read c lfid = (if unat lfid < length (fk_flow_stats_snapshot c) then Inr st else Inl PW_E_INVAL)) \<and>
    (\<exists>st. fake_port_stats_read c port = (if unat port < length (fk_port c) then Inr st else Inl PW_E_INVAL))"
  using fake_reachable_inv [OF assms]
  by (auto simp: fake_inv_def fake_flow_write_def fake_flow_stats_read_def fake_port_stats_read_def)

lemma fake_safe_witness:
  "fake_inv (fst (fake_flow_commit pw_fake_backend_open)) \<and>
   snd (fake_flow_write (fst (fake_flow_commit pw_fake_backend_open)) 255 (Some zero_row)) = PW_OK"
  using fake_safe [OF fr_step [OF fr_open st_flow_commit], of 255 zero_row]
  by (simp add: fake_flow_commit_def pw_fake_backend_open_def FAKE_NUM_FLOWS_def)



text \<open>
  The traffic model of the software backend: after \<open>n\<close> snapshots, one at least, the counters read for
  a slot have grown by a thousand transmitted frames per snapshot if its committed row is enabled for
  transmission, by as many received frames if the row also checks reception, and not at all otherwise.
\<close>

lemma fake_traffic:
  assumes "fake_reachable c" and "unat lfid < FAKE_NUM_FLOWS" and "0 < n"
  shows "\<exists>st. fake_flow_stats_read (snapshots n c) lfid = Inr st \<and>
    fs_tx_frames st = fs_tx_frames (fk_flow_stats c ! unat lfid) +
      (if gate_on (fk_flow c ! unat lfid) then of_nat n * 1000 else 0) \<and>
    fs_rx_frames st = fs_rx_frames (fk_flow_stats c ! unat lfid) +
      (if gate_on (fk_flow c ! unat lfid) \<and> row_rx_check_enable (fk_flow c ! unat lfid) \<noteq> 0
       then of_nat n * 1000 else 0)"
proof -
  note S = fake_snapshots [OF fake_reachable_inv [OF assms(1)] assms(2), of n]
  have r: "fake_flow_stats_read (snapshots n c) lfid = Inr ((advance_flow (fk_flow c ! unat lfid) ^^ n) (fk_flow_stats c ! unat lfid))"
    using S assms(2,3) by (simp add: fake_flow_stats_read_def)
  show ?thesis
    using advance_flow_iter [of "fk_flow c ! unat lfid" n "fk_flow_stats c ! unat lfid"]
    by (cases "gate_on (fk_flow c ! unat lfid)"; cases "row_rx_check_enable (fk_flow c ! unat lfid) = 0")
      (simp_all add: r FAKE_FRAMES_PER_SNAPSHOT_def)
qed

theorem fake_traffic_witness:
  "\<exists>st. fake_flow_stats_read (snapshots 3 (fst (fake_flow_commit (fst (fake_flow_write pw_fake_backend_open 5
       (Some (zero_row\<lparr>row_enable := 1, row_tx_enable := 1\<rparr>))))))) 5 = Inr st \<and> fs_tx_frames st = 3000 \<and> fs_rx_frames st = 0"
proof -
  let ?r = "zero_row\<lparr>row_enable := 1, row_tx_enable := 1\<rparr>"
  let ?c = "fst (fake_flow_commit (fst (fake_flow_write pw_fake_backend_open 5 (Some ?r))))"
  have n: "(5 :: nat) < FAKE_NUM_FLOWS" by (simp add: FAKE_NUM_FLOWS_def)
  have f: "fk_flow ?c ! 5 = ?r" "fk_flow_stats ?c ! 5 = zero_flow_stats"
    using n by (simp_all add: fake_flow_write_def fake_flow_commit_def pw_fake_backend_open_def)
  have z: "fs_tx_frames zero_flow_stats = 0" "fs_rx_frames zero_flow_stats = 0" "row_rx_check_enable ?r = 0" "gate_on ?r"
    by (simp_all add: zero_flow_stats_def gate_on_def zero_row_def)
  have "fake_reachable ?c" by (rule fr_step [OF fr_step [OF fr_open st_flow_write] st_flow_commit])
  from fake_traffic [OF this, of 5 3] n f z show ?thesis by simp
qed

end
