(* ===== verification/PW_Host_Plane.thy ===== *)
theory PW_Host_Plane
  imports PW_Fake_Backend
begin

text \<open>
  The host packet plane, \<^verbatim>\<open>host_plane.c\<close>: frames the card punts go to the TAP of their logical
  interface, frames read from a TAP go to the card's inject path. The card side is the pair of
  slow-path operations of \<^verbatim>\<open>backend.h\<close>; the file-descriptor side (\<open>read\<close> and \<open>write\<close> of the kernel)
  is a pair of functions over a state of its own, a parameter of the step.
\<close>

section \<open>Data\<close>

definition PW_HOST_FRAME_MAX :: nat where "PW_HOST_FRAME_MAX = 9600"
definition PW_HOST_PLANE_MAX_BINDINGS :: nat where "PW_HOST_PLANE_MAX_BINDINGS = 32"

record pw_host_binding =
  hb_logical_if_id :: u32
  hb_fd :: int
  hb_egress_local_port :: u8

record pw_host_plane =
  hp_bindings :: "pw_host_binding list"
  hp_punt_to_tap_ok :: "u64 list"
  hp_punt_to_tap_dropped :: "u64 list"
  hp_tap_to_fpga_ok :: "u64 list"
  hp_tap_to_fpga_dropped :: "u64 list"
  hp_punt_unknown_lif :: u64

text \<open>\<open>slow_path_rx\<close>: return value, buffer, interface. \<open>slow_path_tx\<close>: status.\<close>

record 'c slow_path_ops =
  sp_rx :: "('c \<Rightarrow> nat \<Rightarrow> 'c \<times> int \<times> bytes \<times> u32) option"
  sp_tx :: "('c \<Rightarrow> bytes \<Rightarrow> u32 \<Rightarrow> u8 \<Rightarrow> 'c \<times> pw_status) option"

text \<open>\<open>write(fd, buf, n)\<close> and \<open>read(fd, buf, size)\<close>.\<close>

record 'o fd_ops =
  fd_write :: "'o \<Rightarrow> int \<Rightarrow> bytes \<Rightarrow> 'o \<times> int"
  fd_read :: "'o \<Rightarrow> int \<Rightarrow> nat \<Rightarrow> 'o \<times> int \<times> bytes"

section \<open>Operations\<close>

definition pw_host_plane_init :: pw_host_plane where
  "pw_host_plane_init =
     \<lparr>hp_bindings = [], hp_punt_to_tap_ok = replicate PW_HOST_PLANE_MAX_BINDINGS 0,
      hp_punt_to_tap_dropped = replicate PW_HOST_PLANE_MAX_BINDINGS 0,
      hp_tap_to_fpga_ok = replicate PW_HOST_PLANE_MAX_BINDINGS 0,
      hp_tap_to_fpga_dropped = replicate PW_HOST_PLANE_MAX_BINDINGS 0, hp_punt_unknown_lif = 0\<rparr>"

definition find_binding :: "pw_host_plane \<Rightarrow> u32 \<Rightarrow> nat option" where
  "find_binding hp lif = find_idx (\<lambda>b. hb_logical_if_id b = lif) (hp_bindings hp)"

definition pw_host_plane_bind :: "pw_host_plane \<Rightarrow> u32 \<Rightarrow> int \<Rightarrow> u8 \<Rightarrow> pw_host_plane \<times> pw_status" where
  "pw_host_plane_bind hp lif fd egress =
     (if fd < 0 then (hp, PW_E_INVAL)
      else if find_binding hp lif \<noteq> None then (hp, PW_E_DUP_LOGICAL_IF)
      else if length (hp_bindings hp) \<ge> PW_HOST_PLANE_MAX_BINDINGS then (hp, PW_E_NO_RESOURCES)
      else (hp\<lparr>hp_bindings := hp_bindings hp @
                 [\<lparr>hb_logical_if_id = lif, hb_fd = fd, hb_egress_local_port = egress\<rparr>]\<rparr>, PW_OK))"

definition bump :: "nat \<Rightarrow> u64 list \<Rightarrow> u64 list" where
  "bump b xs = xs[b := xs ! b + 1]"

text \<open>What the punt loop does with one frame; the last component counts a frame moved.\<close>

definition punt_deliver ::
  "'o fd_ops \<Rightarrow> pw_host_plane \<times> 'o \<times> int \<Rightarrow> int \<times> bytes \<times> u32 \<Rightarrow> pw_host_plane \<times> 'o \<times> int" where
  "punt_deliver fds st x =
     (case st of (hp, ks, moved) \<Rightarrow> case x of (n, buf, lif) \<Rightarrow>
        (case find_binding hp lif of
           None \<Rightarrow> (hp\<lparr>hp_punt_unknown_lif := hp_punt_unknown_lif hp + 1\<rparr>, ks, moved)
         | Some b \<Rightarrow>
             let (ks', w) = fd_write fds ks (hb_fd (hp_bindings hp ! b)) (take (nat n) buf)
             in if w = n then (hp\<lparr>hp_punt_to_tap_ok := bump b (hp_punt_to_tap_ok hp)\<rparr>, ks', moved + 1)
                else (hp\<lparr>hp_punt_to_tap_dropped := bump b (hp_punt_to_tap_dropped hp)\<rparr>, ks', moved)))"

primrec punt_loop ::
  "('c \<Rightarrow> nat \<Rightarrow> 'c \<times> int \<times> bytes \<times> u32) \<Rightarrow> 'o fd_ops \<Rightarrow> nat \<Rightarrow> 'c \<Rightarrow> pw_host_plane \<times> 'o \<times> int \<Rightarrow>
     'c \<times> (pw_host_plane \<times> 'o \<times> int)" where
  "punt_loop rx fds 0 c st = (c, st)"
| "punt_loop rx fds (Suc i) c st =
     (case rx c PW_HOST_FRAME_MAX of (c', n, buf, lif) \<Rightarrow>
        if n \<le> 0 then (c', st) else punt_loop rx fds i c' (punt_deliver fds st (n, buf, lif)))"

primrec tap_loop ::
  "('c \<Rightarrow> bytes \<Rightarrow> u32 \<Rightarrow> u8 \<Rightarrow> 'c \<times> pw_status) \<Rightarrow> 'o fd_ops \<Rightarrow> nat \<Rightarrow> nat \<Rightarrow>
     'c \<times> (pw_host_plane \<times> 'o \<times> int) \<Rightarrow> 'c \<times> (pw_host_plane \<times> 'o \<times> int)" where
  "tap_loop tx fds b 0 s = s"
| "tap_loop tx fds b (Suc i) s =
     (case s of (c, hp, ks, moved) \<Rightarrow>
        case fd_read fds ks (hb_fd (hp_bindings hp ! b)) PW_HOST_FRAME_MAX of (ks', n, buf) \<Rightarrow>
          if n \<le> 0 then (c, hp, ks', moved)
          else
            let (c', r) = tx c (take (nat n) buf) (hb_logical_if_id (hp_bindings hp ! b))
                              (hb_egress_local_port (hp_bindings hp ! b))
            in tap_loop tx fds b i
                 (if r = PW_OK
                  then (c', hp\<lparr>hp_tap_to_fpga_ok := bump b (hp_tap_to_fpga_ok hp)\<rparr>, ks', moved + 1)
                  else (c', hp\<lparr>hp_tap_to_fpga_dropped := bump b (hp_tap_to_fpga_dropped hp)\<rparr>, ks', moved)))"

definition pw_host_plane_step ::
  "'c slow_path_ops \<Rightarrow> 'o fd_ops \<Rightarrow> int \<Rightarrow> 'c \<Rightarrow> pw_host_plane \<Rightarrow> 'o \<Rightarrow> 'c \<times> (pw_host_plane \<times> 'o \<times> int)" where
  "pw_host_plane_step ops fds max_per_dir c hp ks =
     (let s1 = (case sp_rx ops of None \<Rightarrow> (c, (hp, ks, 0))
                | Some rx \<Rightarrow> punt_loop rx fds (nat max_per_dir) c (hp, ks, 0))
      in case sp_tx ops of None \<Rightarrow> s1
         | Some tx \<Rightarrow> foldl (\<lambda>s b. tap_loop tx fds b (nat max_per_dir) s) s1 [0..<length (hp_bindings hp)])"

section \<open>Bindings\<close>

definition plane_inv :: "pw_host_plane \<Rightarrow> bool" where
  "plane_inv hp \<longleftrightarrow>
     length (hp_bindings hp) \<le> PW_HOST_PLANE_MAX_BINDINGS \<and>
     distinct (map hb_logical_if_id (hp_bindings hp)) \<and> (\<forall>b\<in>set (hp_bindings hp). 0 \<le> hb_fd b) \<and>
     length (hp_punt_to_tap_ok hp) = PW_HOST_PLANE_MAX_BINDINGS \<and>
     length (hp_punt_to_tap_dropped hp) = PW_HOST_PLANE_MAX_BINDINGS \<and>
     length (hp_tap_to_fpga_ok hp) = PW_HOST_PLANE_MAX_BINDINGS \<and>
     length (hp_tap_to_fpga_dropped hp) = PW_HOST_PLANE_MAX_BINDINGS"

lemma find_binding_Some:
  "find_binding hp lif = Some b \<Longrightarrow>
     b < length (hp_bindings hp) \<and> hb_logical_if_id (hp_bindings hp ! b) = lif"
  unfolding find_binding_def by (drule find_idx_Some) simp

lemma find_binding_None:
  "find_binding hp lif = None \<longleftrightarrow> lif \<notin> hb_logical_if_id ` set (hp_bindings hp)"
  by (auto simp: find_binding_def scan_simps)

lemma find_binding_iff:
  assumes "plane_inv hp"
  shows "find_binding hp lif = Some b \<longleftrightarrow>
    b < length (hp_bindings hp) \<and> hb_logical_if_id (hp_bindings hp ! b) = lif"
proof
  assume b: "b < length (hp_bindings hp) \<and> hb_logical_if_id (hp_bindings hp ! b) = lif"
  then have "find_binding hp lif \<noteq> None" by (auto simp: find_binding_None)
  then obtain b' where b': "find_binding hp lif = Some b'" by blast
  note B = find_binding_Some [OF b']
  have "map hb_logical_if_id (hp_bindings hp) ! b = map hb_logical_if_id (hp_bindings hp) ! b'" using b B by simp
  moreover have "distinct (map hb_logical_if_id (hp_bindings hp))" using assms by (simp add: plane_inv_def)
  ultimately have "b' = b" using b B nth_eq_iff_index_eq by fastforce
  with b' show "find_binding hp lif = Some b" by simp
qed (rule find_binding_Some)

lemma init_inv: "plane_inv pw_host_plane_init"
  by (simp add: plane_inv_def pw_host_plane_init_def)

lemma bind_inv: "plane_inv hp \<Longrightarrow> plane_inv (fst (pw_host_plane_bind hp lif fd egress))"
  by (auto simp: plane_inv_def pw_host_plane_bind_def find_binding_None)

section \<open>Accounting\<close>

text \<open>The totals a step accounts for.\<close>

definition moved_total :: "pw_host_plane \<Rightarrow> u64" where
  "moved_total hp = sum_list (hp_punt_to_tap_ok hp) + sum_list (hp_tap_to_fpga_ok hp)"

definition punt_total :: "pw_host_plane \<Rightarrow> u64" where
  "punt_total hp =
     sum_list (hp_punt_to_tap_ok hp) + sum_list (hp_punt_to_tap_dropped hp) + hp_punt_unknown_lif hp"

lemma bump_length [simp]: "length (bump b xs) = length xs"
  by (simp add: bump_def)

lemma bump_sum [simp]: "b < length xs \<Longrightarrow> sum_list (bump b xs) = sum_list xs + 1"
proof (induction xs arbitrary: b)
  case (Cons x xs)
  then show ?case by (cases b) (auto simp: bump_def)
qed simp

lemma punt_deliver_account:
  assumes "plane_inv hp" and "punt_deliver fds (hp, ks, m) x = (hp', ks', m')"
  shows "plane_inv hp'" "hp_bindings hp' = hp_bindings hp" "punt_total hp' = punt_total hp + 1"
    "moved_total hp' - of_int m' = moved_total hp - of_int m"
    "hp_tap_to_fpga_ok hp' = hp_tap_to_fpga_ok hp" "hp_tap_to_fpga_dropped hp' = hp_tap_to_fpga_dropped hp"
proof -
  obtain n buf lif where x: "x = (n, buf, lif)" by (cases x)
  have len: "b < length (hp_punt_to_tap_ok hp) \<and> b < length (hp_punt_to_tap_dropped hp)"
    if "find_binding hp lif = Some b" for b
    using assms(1) find_binding_Some [OF that] by (auto simp: plane_inv_def)
  show "plane_inv hp'" "hp_bindings hp' = hp_bindings hp" "punt_total hp' = punt_total hp + 1"
    "moved_total hp' - of_int m' = moved_total hp - of_int m"
    "hp_tap_to_fpga_ok hp' = hp_tap_to_fpga_ok hp" "hp_tap_to_fpga_dropped hp' = hp_tap_to_fpga_dropped hp"
    using assms len
    by (auto simp: punt_deliver_def x plane_inv_def punt_total_def moved_total_def Let_def
        split: option.splits prod.splits if_splits)
qed


text \<open>What a phase of the step keeps: the bindings, the invariant, and that the return value is the
  increase of the success counters.\<close>

definition accounts :: "pw_host_plane \<times> 'o \<times> int \<Rightarrow> pw_host_plane \<times> 'o \<times> int \<Rightarrow> bool" where
  "accounts s s' \<longleftrightarrow>
     plane_inv (fst s') \<and> hp_bindings (fst s') = hp_bindings (fst s) \<and>
     moved_total (fst s') - of_int (snd (snd s')) = moved_total (fst s) - of_int (snd (snd s))"

lemma accounts_trans: "accounts s t \<Longrightarrow> accounts t u \<Longrightarrow> accounts s u"
  by (simp add: accounts_def)

lemma punt_loop_accounts:
  "plane_inv (fst st) \<Longrightarrow> accounts st (snd (punt_loop rx fds k c st))"
proof (induction k arbitrary: c st)
  case (Suc k)
  obtain hp ks m where st: "st = (hp, ks, m)" by (cases st)
  obtain c' n buf lif where rx: "rx c PW_HOST_FRAME_MAX = (c', n, buf, lif)" by (cases "rx c PW_HOST_FRAME_MAX")
  obtain hp' ks' m' where d: "punt_deliver fds (hp, ks, m) (n, buf, lif) = (hp', ks', m')"
    by (cases "punt_deliver fds (hp, ks, m) (n, buf, lif)")
  from Suc.prems have "plane_inv hp" by (simp add: st)
  note D = punt_deliver_account [OF this d]
  then have step: "accounts st (hp', ks', m')" by (simp add: accounts_def st)
  show ?case
  proof (cases "n \<le> 0")
    case True
    then show ?thesis using Suc.prems by (simp add: rx accounts_def)
  next
    case False
    then show ?thesis
      using accounts_trans [OF step Suc.IH [of "(hp', ks', m')" c']] D(1) by (simp add: rx st d)
  qed
qed (simp add: accounts_def)

lemma tap_loop_accounts:
  "plane_inv hp \<Longrightarrow> b < length (hp_bindings hp) \<Longrightarrow>
     accounts (hp, ks, m) (snd (tap_loop tx fds b k (c, hp, ks, m)))"
proof (induction k arbitrary: c hp ks m)
  case (Suc k)
  obtain ks' n buf where rd: "fd_read fds ks (hb_fd (hp_bindings hp ! b)) PW_HOST_FRAME_MAX = (ks', n, buf)"
    by (cases "fd_read fds ks (hb_fd (hp_bindings hp ! b)) PW_HOST_FRAME_MAX")
  define r where "r = tx c (take (nat n) buf) (hb_logical_if_id (hp_bindings hp ! b))
    (hb_egress_local_port (hp_bindings hp ! b))"
  define st where "st = (if snd r = PW_OK
    then (hp\<lparr>hp_tap_to_fpga_ok := bump b (hp_tap_to_fpga_ok hp)\<rparr>, ks', m + 1)
    else (hp\<lparr>hp_tap_to_fpga_dropped := bump b (hp_tap_to_fpga_dropped hp)\<rparr>, ks', m))"
  have "b < PW_HOST_PLANE_MAX_BINDINGS" using Suc.prems by (simp add: plane_inv_def)
  then have step: "accounts (hp, ks, m) st"
    using Suc.prems by (auto simp: accounts_def st_def plane_inv_def moved_total_def)
  obtain hp1 ks1 m1 where st': "st = (hp1, ks1, m1)" by (cases st)
  from step Suc.prems have "plane_inv hp1" "b < length (hp_bindings hp1)" by (simp_all add: accounts_def st')
  note IH = Suc.IH [OF this, of ks1 m1 "fst r"]
  show ?case
  proof (cases "n \<le> 0")
    case True
    then show ?thesis using Suc.prems by (simp add: rd accounts_def)
  next
    case False
    then have "tap_loop tx fds b (Suc k) (c, hp, ks, m) = tap_loop tx fds b k (fst r, st)"
      by (simp add: rd r_def st_def Let_def split: prod.split)
    then show ?thesis using accounts_trans [OF step] IH by (simp add: st')
  qed
qed (simp add: accounts_def)

lemma tap_loops_account:
  "plane_inv hp \<Longrightarrow> \<forall>b\<in>set bs. b < length (hp_bindings hp) \<Longrightarrow>
     accounts (hp, ks, m) (snd (foldl (\<lambda>s b. tap_loop tx fds b k s) (c, hp, ks, m) bs))"
proof (induction bs arbitrary: c hp ks m)
  case (Cons b bs)
  obtain c1 hp1 ks1 m1 where t: "tap_loop tx fds b k (c, hp, ks, m) = (c1, hp1, ks1, m1)"
    by (cases "tap_loop tx fds b k (c, hp, ks, m)")
  have step: "accounts (hp, ks, m) (hp1, ks1, m1)"
    using tap_loop_accounts [of hp b ks m tx fds k c] Cons.prems t by simp
  then have "plane_inv hp1" "hp_bindings hp1 = hp_bindings hp" by (simp_all add: accounts_def)
  then show ?case using accounts_trans [OF step Cons.IH [of hp1 ks1 m1 c1]] Cons.prems by (simp add: t)
qed (simp add: accounts_def)

lemma step_accounts:
  assumes "plane_inv hp"
  shows "accounts (hp, ks, 0) (snd (pw_host_plane_step ops fds max_per_dir c hp ks))"
proof -
  define s1 where "s1 = (case sp_rx ops of None \<Rightarrow> (c, (hp, ks, 0))
    | Some rx \<Rightarrow> punt_loop rx fds (nat max_per_dir) c (hp, ks, 0))"
  have one: "accounts (hp, ks, 0) (snd s1)"
  proof (cases "sp_rx ops")
    case None
    then show ?thesis using assms by (simp add: s1_def accounts_def)
  next
    case (Some rx)
    then show ?thesis using punt_loop_accounts [of "(hp, ks, 0)"] assms by (simp add: s1_def)
  qed
  obtain c1 hp1 ks1 m1 where s1: "s1 = (c1, hp1, ks1, m1)" by (cases s1)
  from one have "plane_inv hp1" "hp_bindings hp1 = hp_bindings hp" by (simp_all add: accounts_def s1)
  then have two: "accounts (hp, ks, 0)
      (snd (foldl (\<lambda>s b. tap_loop tx fds b (nat max_per_dir) s) s1 [0..<length (hp_bindings hp)]))" for tx
    using accounts_trans [OF one] tap_loops_account [of hp1 "[0..<length (hp_bindings hp)]" ks1 m1 tx fds "nat max_per_dir" c1]
    by (simp add: s1)
  show ?thesis
    using one two by (cases "sp_tx ops") (simp_all add: pw_host_plane_step_def Let_def s1_def [symmetric])
qed

section \<open>Delivery\<close>

text \<open>A punt source: a queue of frames, each with its logical interface, that \<open>slow_path_rx\<close> takes
  from the front.\<close>

locale punt_source =
  fixes rx :: "'c \<Rightarrow> nat \<Rightarrow> 'c \<times> int \<times> bytes \<times> u32"
    and pending :: "'c \<Rightarrow> (bytes \<times> u32) list"
    and ok :: "'c \<Rightarrow> bool"
  assumes rx_empty: "ok c \<Longrightarrow> pending c = [] \<Longrightarrow>
      fst (snd (rx c PW_HOST_FRAME_MAX)) \<le> 0 \<and> pending (fst (rx c PW_HOST_FRAME_MAX)) = [] \<and>
      ok (fst (rx c PW_HOST_FRAME_MAX))"
    and rx_front: "ok c \<Longrightarrow> pending c = (f, lif) # rest \<Longrightarrow>
      f \<noteq> [] \<and> snd (rx c PW_HOST_FRAME_MAX) = (int (length f), f, lif) \<and>
      pending (fst (rx c PW_HOST_FRAME_MAX)) = rest \<and> ok (fst (rx c PW_HOST_FRAME_MAX))"
begin

lemma punt_loop_delivers:
  "ok c \<Longrightarrow>
     snd (punt_loop rx fds k c st) =
       foldl (punt_deliver fds) st (map (\<lambda>(f, lif). (int (length f), f, lif)) (take k (pending c))) \<and>
     pending (fst (punt_loop rx fds k c st)) = drop k (pending c) \<and> ok (fst (punt_loop rx fds k c st))"
proof (induction k arbitrary: c st)
  case (Suc k)
  obtain c' n buf lif where rx: "rx c PW_HOST_FRAME_MAX = (c', n, buf, lif)" by (cases "rx c PW_HOST_FRAME_MAX")
  show ?case
  proof (cases "pending c")
    case Nil
    then show ?thesis using rx_empty [OF Suc.prems Nil] by (simp add: rx)
  next
    case (Cons x rest)
    obtain f l where x: "x = (f, l)" by (cases x)
    have F: "f \<noteq> []" "n = int (length f)" "buf = f" "lif = l" "pending c' = rest" "ok c'"
      using rx_front [OF Suc.prems Cons [unfolded x]] by (simp_all add: rx)
    then have "\<not> n \<le> 0" by simp
    with Suc.IH [OF F(6)] F show ?thesis by (simp add: rx Cons x)
  qed
qed simp

end

definition fake_rx :: "fake_ctx \<Rightarrow> nat \<Rightarrow> fake_ctx \<times> int \<times> bytes \<times> u32" where
  "fake_rx c buflen =
     (case fake_slow_path_rx c buflen of (c', r) \<Rightarrow>
        (c', slow_pop_rc r, case r of None \<Rightarrow> ([], 0) | Some (buf, lif, _) \<Rightarrow> (buf, lif)))"

definition fake_slow_ops :: "fake_ctx slow_path_ops" where
  "fake_slow_ops = \<lparr>sp_rx = Some fake_rx, sp_tx = Some fake_slow_path_tx\<rparr>"

definition fake_pending :: "fake_ctx \<Rightarrow> (bytes \<times> u32) list" where
  "fake_pending c = map (\<lambda>(f, lif, _). (f, lif)) (fifo_contents (fk_punt_rx c))"

definition fake_punts_ok :: "fake_ctx \<Rightarrow> bool" where
  "fake_punts_ok c \<longleftrightarrow> fake_inv c \<and> (\<forall>x\<in>set (fake_pending c). fst x \<noteq> [])"

lemma slow_pop_enough:
  assumes "fifo_inv f" "FAKE_SLOW_FRAME_MAX \<le> n"
  shows "slow_pop f n = slow_pop f FAKE_SLOW_FRAME_MAX"
proof -
  have "fe_len (ff_q f ! ff_tail f) \<le> FAKE_SLOW_FRAME_MAX" using assms(1) by (simp add: fifo_inv_def)
  then show ?thesis using assms(2) by (auto simp: slow_pop_def Let_def)
qed

lemma fake_rx_front:
  assumes ok: "fake_punts_ok c" and p: "fake_pending c = (f, lif) # rest"
  shows "f \<noteq> [] \<and> snd (fake_rx c PW_HOST_FRAME_MAX) = (int (length f), f, lif) \<and>
      fake_pending (fst (fake_rx c PW_HOST_FRAME_MAX)) = rest \<and> fake_punts_ok (fst (fake_rx c PW_HOST_FRAME_MAX))"
proof -
  have inv: "fifo_inv (fk_punt_rx c)" using ok by (simp add: fake_punts_ok_def fake_inv_def)
  obtain e q where c: "fifo_contents (fk_punt_rx c) = (f, lif, e) # q" and rest: "rest = map (\<lambda>(f, lif, _). (f, lif)) q"
    using p by (auto simp: fake_pending_def)
  have "fifo_pop (fk_punt_rx c) \<noteq> None" using slow_fifo.pop_None [OF inv] c by simp
  then obtain x F where pop: "fifo_pop (fk_punt_rx c) = Some (x, F)" by auto
  have X: "x = (f, lif, e)" "fifo_contents F = q" "fifo_inv F"
    using slow_fifo.pop_Some [OF inv pop] c by simp_all
  have "slow_pop (fk_punt_rx c) PW_HOST_FRAME_MAX = (F, Some (f, lif, e))"
    using pop X(1) slow_pop_enough [OF inv, of PW_HOST_FRAME_MAX]
    by (auto simp: fifo_pop_def PW_HOST_FRAME_MAX_def FAKE_SLOW_FRAME_MAX_def split: prod.splits)
  then have rx: "fake_rx c PW_HOST_FRAME_MAX = (c\<lparr>fk_punt_rx := F\<rparr>, int (length f), f, lif)"
    by (simp add: fake_rx_def fake_slow_path_rx_def slow_pop_rc_def)
  show ?thesis using ok p X by (auto simp: rx fake_pending_def rest c fake_punts_ok_def fake_inv_def)
qed

interpretation fake_punts: punt_source fake_rx fake_pending fake_punts_ok
proof unfold_locales
  fix c
  assume ok: "fake_punts_ok c" and e: "fake_pending c = []"
  then have "ff_count (fk_punt_rx c) = 0" by (simp add: fake_pending_def fifo_contents_def)
  then have "fake_rx c PW_HOST_FRAME_MAX = (c, 0, [], 0)"
    by (simp add: fake_rx_def fake_slow_path_rx_def slow_pop_def slow_pop_rc_def)
  then show "fst (snd (fake_rx c PW_HOST_FRAME_MAX)) \<le> 0 \<and>
      fake_pending (fst (fake_rx c PW_HOST_FRAME_MAX)) = [] \<and> fake_punts_ok (fst (fake_rx c PW_HOST_FRAME_MAX))"
    using ok e by simp
qed (rule fake_rx_front)

text \<open>The inject direction: up to \<open>k\<close> frames are read from the TAP and queued in order.\<close>

primrec tap_reads :: "'o fd_ops \<Rightarrow> int \<Rightarrow> nat \<Rightarrow> 'o \<Rightarrow> bytes list \<times> 'o" where
  "tap_reads fds fd 0 ks = ([], ks)"
| "tap_reads fds fd (Suc k) ks =
     (case fd_read fds ks fd PW_HOST_FRAME_MAX of (ks', n, buf) \<Rightarrow>
        if n \<le> 0 then ([], ks')
        else let (fs, ks'') = tap_reads fds fd k ks' in (take (nat n) buf # fs, ks''))"

text \<open>The queue after offering frames: what fits while there is room.\<close>

definition offer :: "u32 \<Rightarrow> u8 \<Rightarrow> slow_frame list \<Rightarrow> bytes \<Rightarrow> slow_frame list" where
  "offer lif egress q f =
     (if length f \<le> FAKE_SLOW_FRAME_MAX \<and> length q < FAKE_SLOW_PATH_DEPTH then q @ [(f, lif, egress)] else q)"

lemma fake_tx_offer:
  assumes "fifo_inv (fk_tx_inject c)"
  shows "fifo_contents (fk_tx_inject (fst (fake_slow_path_tx c f lif egress))) =
      offer lif egress (fifo_contents (fk_tx_inject c)) f \<and>
    fifo_inv (fk_tx_inject (fst (fake_slow_path_tx c f lif egress)))"
proof -
  obtain q rc where p: "slow_push (fk_tx_inject c) f lif egress = (q, rc)"
    by (cases "slow_push (fk_tx_inject c) f lif egress")
  have tx: "fk_tx_inject (fst (fake_slow_path_tx c f lif egress)) = q" by (simp add: fake_slow_path_tx_def p)
  show ?thesis
  proof (cases "fifo_push (f, lif, egress) (fk_tx_inject c)")
    case None
    then have "q = fk_tx_inject c" using p by (auto simp: fifo_push_def slow_push_def split: if_splits)
    moreover have "\<not> (length f \<le> FAKE_SLOW_FRAME_MAX \<and> length (fifo_contents (fk_tx_inject c)) < FAKE_SLOW_PATH_DEPTH)"
      using None slow_fifo.push_None [OF assms, of "(f, lif, egress)"] by (auto simp: frame_fits_def)
    ultimately show ?thesis using assms unfolding tx offer_def by simp
  next
    case (Some q')
    then have "q = q'" using p by (auto simp: fifo_push_def split: if_splits)
    moreover have "length f \<le> FAKE_SLOW_FRAME_MAX \<and> length (fifo_contents (fk_tx_inject c)) < FAKE_SLOW_PATH_DEPTH"
      using Some slow_fifo.push_None [OF assms, of "(f, lif, egress)"] by (auto simp: frame_fits_def not_le)
    ultimately show ?thesis using slow_fifo.push_Some [OF assms Some] unfolding tx offer_def by simp
  qed
qed

lemma tap_loop_fake:
  "fifo_inv (fk_tx_inject c) \<Longrightarrow> bd = hp_bindings hp ! b \<Longrightarrow>
     tap_loop fake_slow_path_tx fds b k (c, hp, ks, m) = (c', hp', ks', m') \<Longrightarrow>
     ks' = snd (tap_reads fds (hb_fd bd) k ks) \<and>
     fifo_contents (fk_tx_inject c') =
       foldl (offer (hb_logical_if_id bd) (hb_egress_local_port bd)) (fifo_contents (fk_tx_inject c))
         (fst (tap_reads fds (hb_fd bd) k ks))"
proof (induction k arbitrary: c hp ks m)
  case (Suc k)
  obtain ks1 n buf where rd: "fd_read fds ks (hb_fd bd) PW_HOST_FRAME_MAX = (ks1, n, buf)"
    by (cases "fd_read fds ks (hb_fd bd) PW_HOST_FRAME_MAX")
  define r where "r = fake_slow_path_tx c (take (nat n) buf) (hb_logical_if_id bd) (hb_egress_local_port bd)"
  note T = fake_tx_offer [OF Suc.prems(1), of "take (nat n) buf" "hb_logical_if_id bd" "hb_egress_local_port bd",
      folded r_def]
  have bd: "hp_bindings hp ! b = bd" using Suc.prems(2) by simp
  show ?case
  proof (cases "n \<le> 0")
    case True
    then show ?thesis using Suc.prems(3) by (simp add: rd bd)
  next
    case False
    define hp1 where "hp1 = (if snd r = PW_OK then hp\<lparr>hp_tap_to_fpga_ok := bump b (hp_tap_to_fpga_ok hp)\<rparr>
      else hp\<lparr>hp_tap_to_fpga_dropped := bump b (hp_tap_to_fpga_dropped hp)\<rparr>)"
    define m1 where "m1 = (if snd r = PW_OK then m + 1 else m)"
    have "tap_loop fake_slow_path_tx fds b (Suc k) (c, hp, ks, m) =
        tap_loop fake_slow_path_tx fds b k (fst r, hp1, ks1, m1)"
      using False by (simp add: rd bd r_def hp1_def m1_def split: prod.split)
    with Suc.prems have run: "tap_loop fake_slow_path_tx fds b k (fst r, hp1, ks1, m1) = (c', hp', ks', m')" by simp
    have "bd = hp_bindings hp1 ! b" using Suc.prems(2) by (simp add: hp1_def)
    from Suc.IH [OF _ this run] T False show ?thesis by (simp add: rd Let_def split: prod.split)
  qed
qed simp


section \<open>A recording kernel\<close>

text \<open>Writes are recorded with their descriptor and taken in full; nothing is waiting to be read.\<close>

definition rec_fds :: "(int \<times> bytes) list fd_ops" where
  "rec_fds = \<lparr>fd_write = (\<lambda>ks fd bs. (ks @ [(fd, bs)], int (length bs))), fd_read = (\<lambda>ks fd n. (ks, 0, []))\<rparr>"

text \<open>Where frames belong: to the TAP bound to their interface, or nowhere.\<close>

definition deliveries :: "pw_host_plane \<Rightarrow> (bytes \<times> u32) list \<Rightarrow> (int \<times> bytes) list" where
  "deliveries hp xs = concat (map (\<lambda>(f, lif).
     case find_binding hp lif of None \<Rightarrow> [] | Some b \<Rightarrow> [(hb_fd (hp_bindings hp ! b), f)]) xs)"

lemma deliveries_cong: "hp_bindings hp' = hp_bindings hp \<Longrightarrow> deliveries hp' xs = deliveries hp xs"
  unfolding deliveries_def find_binding_def by (simp only:)

lemma punt_deliver_rec:
  "\<exists>hp' m'. punt_deliver rec_fds (hp, ks, m) (int (length f), f, lif) = (hp', ks @ deliveries hp [(f, lif)], m') \<and>
     hp_bindings hp' = hp_bindings hp"
  by (auto simp: punt_deliver_def rec_fds_def deliveries_def split: option.split)

lemma punt_fold_rec:
  "\<exists>hp' m'. foldl (punt_deliver rec_fds) (hp, ks, m) (map (\<lambda>(f, lif). (int (length f), f, lif)) xs) =
       (hp', ks @ deliveries hp xs, m') \<and> hp_bindings hp' = hp_bindings hp"
proof (induction xs arbitrary: hp ks m)
  case (Cons x xs)
  obtain f lif where x: "x = (f, lif)" by (cases x)
  obtain hp1 m1 where one: "punt_deliver rec_fds (hp, ks, m) (int (length f), f, lif) =
      (hp1, ks @ deliveries hp [(f, lif)], m1)" and b: "hp_bindings hp1 = hp_bindings hp"
    using punt_deliver_rec [of hp ks m f lif] by blast
  have split: "deliveries hp (x # xs) = deliveries hp [(f, lif)] @ deliveries hp xs" by (simp add: deliveries_def x)
  show ?case
    using Cons.IH [of hp1 "ks @ deliveries hp [(f, lif)]" m1]
    unfolding split by (simp add: x one b deliveries_cong [OF b])
qed (simp add: deliveries_def)

lemma tap_loop_rec: "tap_loop tx rec_fds b k s = s"
  by (cases k) (simp_all add: rec_fds_def split: prod.split)

lemma tap_loops_rec: "foldl (\<lambda>s b. tap_loop tx rec_fds b k s) s bs = s"
  by (induction bs) (simp_all add: tap_loop_rec)

section \<open>Properties\<close>

text \<open>
  The bridge accounts for what it moves: whatever the backend and the kernel answer, a step of the host
  plane keeps the plane well formed (bindings distinct and within the limit, counters present), leaves the
  bindings alone, and returns exactly the increase of its success counters, modulo the counters' width.
\<close>

lemma host_step_accounts:
  assumes "plane_inv hp" and "pw_host_plane_step ops fds max_per_dir c hp ks = (c', hp', ks', moved)"
  shows "plane_inv hp' \<and> hp_bindings hp' = hp_bindings hp \<and>
    sum_list (hp_punt_to_tap_ok hp') + sum_list (hp_tap_to_fpga_ok hp') =
      sum_list (hp_punt_to_tap_ok hp) + sum_list (hp_tap_to_fpga_ok hp) + of_int moved"
  using step_accounts [OF assms(1), of ks ops fds max_per_dir c]
  by (auto simp: assms(2) accounts_def moved_total_def algebra_simps)

lemma host_step_accounts_witness:
  "\<exists>c' hp' ks' moved. pw_host_plane_step fake_slow_ops rec_fds 4 pw_fake_backend_open pw_host_plane_init [] = (c', hp', ks', moved) \<and>
     sum_list (hp_punt_to_tap_ok hp') + sum_list (hp_tap_to_fpga_ok hp') = of_int moved"
proof -
  obtain c' hp' ks' moved where
    s: "pw_host_plane_step fake_slow_ops rec_fds 4 pw_fake_backend_open pw_host_plane_init [] = (c', hp', ks', moved)"
    by (cases "pw_host_plane_step fake_slow_ops rec_fds 4 pw_fake_backend_open pw_host_plane_init []")
  from host_step_accounts [OF init_inv s] have
    "sum_list (hp_punt_to_tap_ok hp') + sum_list (hp_tap_to_fpga_ok hp') = of_int moved"
    by (simp add: pw_host_plane_init_def sum_list_replicate)
  with s show ?thesis by blast
qed



text \<open>
  Frames from a TAP are injected in order: draining a binding offers the frames read from its
  descriptor, in the order they were read and with the binding's interface and egress port, to the inject
  queue, which takes each one that fits while it has room.
\<close>

lemma host_inject_order:
  assumes "fake_inv c" and "bd = hp_bindings hp ! b"
    and "tap_loop fake_slow_path_tx fds b k (c, hp, ks, m) = (c', hp', ks', m')"
  shows "ks' = snd (tap_reads fds (hb_fd bd) k ks) \<and>
    fifo_contents (fk_tx_inject c') =
      foldl (offer (hb_logical_if_id bd) (hb_egress_local_port bd)) (fifo_contents (fk_tx_inject c))
        (fst (tap_reads fds (hb_fd bd) k ks))"
  by (rule tap_loop_fake [OF _ assms(2,3)]) (use assms(1) in \<open>simp add: fake_inv_def\<close>)

theorem host_inject_order_witness:
  "\<exists>c' hp' ks' m'. tap_loop fake_slow_path_tx
       \<lparr>fd_write = (\<lambda>ks fd bs. (ks, 0)), fd_read = (\<lambda>ks fd n. if ks = 0 then (1 :: nat, 2, [8, 9]) else (ks, -1, []))\<rparr> 0 5
       (pw_fake_backend_open, fst (pw_host_plane_bind pw_host_plane_init 7 5 1), 0, 0) = (c', hp', ks', m') \<and>
     fifo_contents (fk_tx_inject c') = [([8, 9], 7, 1)]"
proof -
  let ?fds = "\<lparr>fd_write = (\<lambda>ks fd bs. (ks, 0)),
    fd_read = (\<lambda>ks fd n. if ks = 0 then (1 :: nat, 2, [8, 9]) else (ks, -1, []))\<rparr> :: nat fd_ops"
  let ?hp = "fst (pw_host_plane_bind pw_host_plane_init 7 5 1)"
  obtain c' hp' ks' m' where s: "tap_loop fake_slow_path_tx ?fds 0 5 (pw_fake_backend_open, ?hp, 0, 0) = (c', hp', ks', m')"
    by (cases "tap_loop fake_slow_path_tx ?fds 0 5 (pw_fake_backend_open, ?hp, 0, 0)")
  have hp: "hp_bindings ?hp = [\<lparr>hb_logical_if_id = 7, hb_fd = 5, hb_egress_local_port = 1\<rparr>]"
    by (simp add: find_binding_def pw_host_plane_bind_def pw_host_plane_init_def PW_HOST_PLANE_MAX_BINDINGS_def scan_simps)
  have r: "fst (tap_reads ?fds 5 5 0) = [[8, 9]]" by (simp add: numeral_eq_Suc)
  from host_inject_order [OF fake_open_inv refl s] have "fifo_contents (fk_tx_inject c') = [([8, 9], 7, 1)]"
    using r by (simp add: hp pw_fake_backend_open_def zero_fifo_inv offer_def FAKE_SLOW_FRAME_MAX_def FAKE_SLOW_PATH_DEPTH_def)
  with s show ?thesis by blast
qed

text \<open>
  Binding is safe: a plane built by initialisation and any sequence of bindings stays well formed, a
  binding is refused exactly for a negative descriptor, an interface already bound or a full table, and an
  accepted one makes the interface resolve to its own descriptor and port.
\<close>

lemma host_bind_safe:
  assumes "plane_inv hp" and "pw_host_plane_bind hp lif fd egress = (hp', s)"
  shows "plane_inv hp' \<and>
    (s = PW_OK \<longleftrightarrow> 0 \<le> fd \<and> find_binding hp lif = None \<and> length (hp_bindings hp) < PW_HOST_PLANE_MAX_BINDINGS) \<and>
    (s \<noteq> PW_OK \<longrightarrow> hp' = hp) \<and>
    (s = PW_OK \<longrightarrow> find_binding hp' lif = Some (length (hp_bindings hp)) \<and>
       hp_bindings hp' = hp_bindings hp @ [\<lparr>hb_logical_if_id = lif, hb_fd = fd, hb_egress_local_port = egress\<rparr>])"
proof -
  have i: "plane_inv hp'" using bind_inv [OF assms(1), of lif fd egress] assms(2) by simp
  then show ?thesis
    using assms(2) by (auto simp: pw_host_plane_bind_def find_binding_iff [OF i] split: if_splits)
qed

theorem host_bind_safe_witness:
  "\<exists>hp'. pw_host_plane_bind pw_host_plane_init 7 5 1 = (hp', PW_OK) \<and> find_binding hp' 7 = Some 0"
proof -
  obtain hp' s where s: "pw_host_plane_bind pw_host_plane_init 7 5 1 = (hp', s)" by (cases "pw_host_plane_bind pw_host_plane_init 7 5 1")
  from host_bind_safe [OF init_inv s] have "s = PW_OK \<and> find_binding hp' 7 = Some 0"
    by (auto simp: find_binding_def pw_host_plane_init_def PW_HOST_PLANE_MAX_BINDINGS_def scan_simps)
  with s show ?thesis by blast
qed

end
