(* ===== verification/PW_Tap.thy ===== *)
theory PW_Tap
  imports PW_Host_Plane PW_Daemon "HOL-Library.Sublist"
begin

text \<open>
  TAP devices, \<^verbatim>\<open>tap.c\<close>, and their set-up in the daemon, \<open>setup_taps\<close> of \<^verbatim>\<open>packetwyrmd/src/main.c\<close>. What the kernel
  answers to a call is an argument; the calls that have an effect are recorded in their order.
\<close>

section \<open>TAP devices\<close>

definition IFNAMSIZ :: nat where "IFNAMSIZ = 16"
definition IFF_UP :: u16 where "IFF_UP = 1"
definition IFF_RUNNING :: u32 where "IFF_RUNNING = 0x40"
definition IFF_TAP_NO_PI :: u16 where "IFF_TAP_NO_PI = 0x1002"

datatype net_event =
  Tun_opened int | Tun_iface int u16 string string | Tun_persist int bool | Tun_carrier int bool
| Sock_opened int | Fd_closed int
| If_hwaddr string u16 bytes | If_mtu string u16 | If_flags string u16

definition set_ifr_name :: "string \<Rightarrow> pw_status + string" where
  "set_ifr_name name =
     (let n = min (length name) IFNAMSIZ in if n = 0 \<or> n \<ge> IFNAMSIZ then Inl PW_E_INVAL else Inr (take n name))"

text \<open>The descriptor of \<open>/dev/net/tun\<close>, and the name the kernel gives an interface for a requested one, if it gives one.\<close>

definition pw_tap_open ::
  "int \<Rightarrow> (string \<Rightarrow> string option) \<Rightarrow> string option \<Rightarrow> (pw_status + int \<times> string) \<times> net_event list" where
  "pw_tap_open fd iface requested_name =
     (let name = (case requested_name of None \<Rightarrow> [] | Some s \<Rightarrow> s) in
      if name \<noteq> [] \<and> min (length name) IFNAMSIZ \<ge> IFNAMSIZ then (Inl PW_E_INVAL, [])
      else if fd < 0 then (Inl PW_E_BACKEND, [])
      else let req = take (IFNAMSIZ - 1) name in
           (case iface req of None \<Rightarrow> (Inl PW_E_BACKEND, [Tun_opened fd, Fd_closed fd])
            | Some given \<Rightarrow>
                (Inr (fd, take (PW_TAP_IFNAME_MAX - 1) given),
                 [Tun_opened fd, Tun_iface fd IFF_TAP_NO_PI req given, Tun_persist fd False, Tun_carrier fd True])))"

definition pw_tap_close :: "int \<Rightarrow> net_event list" where
  "pw_tap_close fd = (if fd \<ge> 0 then [Fd_closed fd] else [])"

text \<open>The control socket, the flags it reads, and whether the change is accepted.\<close>

record ctl_answers =
  ca_sock :: int
  ca_flags :: "u16 option"
  ca_set :: bool

definition pw_tap_set_up :: "ctl_answers \<Rightarrow> string option \<Rightarrow> bool \<Rightarrow> pw_status \<times> net_event list" where
  "pw_tap_set_up a o_name up =
     (case o_name of None \<Rightarrow> (PW_E_INVAL, [])
      | Some name \<Rightarrow>
          let s = ca_sock a in
          if s < 0 then (PW_E_BACKEND, [])
          else (case set_ifr_name name of Inl nr \<Rightarrow> (nr, [Sock_opened s, Fd_closed s])
                | Inr n \<Rightarrow>
                    (case ca_flags a of None \<Rightarrow> (PW_E_BACKEND, [Sock_opened s, Fd_closed s])
                     | Some fl \<Rightarrow>
                         let fl = (if up then fl OR IFF_UP else fl AND NOT IFF_UP) in
                         if ca_set a then (PW_OK, [Sock_opened s, If_flags n fl, Fd_closed s])
                         else (PW_E_BACKEND, [Sock_opened s, Fd_closed s]))))"

definition pw_tap_set_mac :: "ctl_answers \<Rightarrow> string option \<Rightarrow> bytes option \<Rightarrow> pw_status \<times> net_event list" where
  "pw_tap_set_mac a o_name o_mac =
     (case (o_name, o_mac) of
        (Some name, Some mac) \<Rightarrow>
          let s = ca_sock a in
          if s < 0 then (PW_E_BACKEND, [])
          else (case set_ifr_name name of Inl nr \<Rightarrow> (nr, [Sock_opened s, Fd_closed s])
                | Inr n \<Rightarrow>
                    if ca_set a then (PW_OK, [Sock_opened s, If_hwaddr n 1 (take 6 mac), Fd_closed s])
                    else (PW_E_BACKEND, [Sock_opened s, Fd_closed s]))
      | _ \<Rightarrow> (PW_E_INVAL, []))"

definition pw_tap_set_mtu :: "ctl_answers \<Rightarrow> string option \<Rightarrow> u16 \<Rightarrow> pw_status \<times> net_event list" where
  "pw_tap_set_mtu a o_name mtu =
     (case o_name of None \<Rightarrow> (PW_E_INVAL, [])
      | Some name \<Rightarrow>
          let s = ca_sock a in
          if s < 0 then (PW_E_BACKEND, [])
          else (case set_ifr_name name of Inl nr \<Rightarrow> (nr, [Sock_opened s, Fd_closed s])
                | Inr n \<Rightarrow>
                    if ca_set a then (PW_OK, [Sock_opened s, If_mtu n mtu, Fd_closed s])
                    else (PW_E_BACKEND, [Sock_opened s, Fd_closed s])))"

section \<open>Querying\<close>

text \<open>
  The list of \<open>getifaddrs\<close>: an entry has a name, flags and an address of some family, for the packet family with the
  counters of the interface where there are any.
\<close>

datatype if_addr = If_packet "(u64 \<times> u64 \<times> u64 \<times> u64 \<times> u64 \<times> u64) option" | If_inet u32 | If_inet6 bytes | If_other

record ifaddrs =
  ia_name :: "string option"
  ia_flags :: u32
  ia_addr :: "if_addr option"

definition PW_TAP_ADDR_MAX :: nat where "PW_TAP_ADDR_MAX = 8"
definition PW_TAP_ADDR_STR_MAX :: nat where "PW_TAP_ADDR_STR_MAX = 46"

record pw_tap_state =
  ts_admin_up :: bool
  ts_oper_up :: bool
  ts_counters :: "u64 \<times> u64 \<times> u64 \<times> u64 \<times> u64 \<times> u64"
  ts_addrs :: "string list"

definition zero_tap_state :: pw_tap_state where
  "zero_tap_state = \<lparr>ts_admin_up = False, ts_oper_up = False, ts_counters = (0, 0, 0, 0, 0, 0), ts_addrs = []\<rparr>"

text \<open>\<open>inet_ntop\<close> of the C library: for IPv6 the first longest run of at least two zero groups is left out, and an
  embedded IPv4 address is written with dots.\<close>

fun hex_text :: "nat \<Rightarrow> string" where
  "hex_text n = (if n < 16 then [hex_digit n] else hex_text (n div 16) @ [hex_digit (n mod 16)])"

declare hex_text.simps [simp del]

fun zero_run :: "nat list \<Rightarrow> nat" where
  "zero_run (0 # ws) = Suc (zero_run ws)"
| "zero_run ws = 0"

definition best_run :: "nat list \<Rightarrow> (nat \<times> nat) option" where
  "best_run ws =
     (let len = (\<lambda>i. zero_run (drop i ws)); m = fold (\<lambda>i m. max m (len i)) [0..<8] 0 in
      if m < 2 then None else map_option (\<lambda>i. (i, m)) (find (\<lambda>i. len i = m) [0..<8]))"

fun groups_text :: "(nat \<times> nat) option \<Rightarrow> nat list \<Rightarrow> nat list \<Rightarrow> string" where
  "groups_text best ws [] = (case best of Some (b, l) \<Rightarrow> if b + l = 8 then '':'' else [] | None \<Rightarrow> [])"
| "groups_text best ws (i # is) =
     (case best of
        Some (b, l) \<Rightarrow>
          if b \<le> i \<and> i < b + l then (if i = b then '':'' else []) @ groups_text best ws is
          else (if i \<noteq> 0 then '':'' else []) @
               (if i = 6 \<and> b = 0 \<and> (l = 6 \<or> l = 5 \<and> ws ! 5 = 0xFFFF)
                then ipv4_text (of_nat (ws ! 6 * 65536 + ws ! 7))
                else hex_text (ws ! i) @ groups_text best ws is)
      | None \<Rightarrow> (if i \<noteq> 0 then '':'' else []) @ hex_text (ws ! i) @ groups_text best ws is)"

definition inet_ntop6 :: "bytes \<Rightarrow> string" where
  "inet_ntop6 a =
     (let ws = map (\<lambda>i. unat (a ! (2 * i)) * 256 + unat (a ! (2 * i + 1))) [0..<8] in groups_text (best_run ws) ws [0..<8])"

definition query_entry :: "string \<Rightarrow> bool \<times> pw_tap_state \<Rightarrow> ifaddrs \<Rightarrow> bool \<times> pw_tap_state" where
  "query_entry name = (\<lambda>(found, out) ifa.
     if ia_name ifa \<noteq> Some name then (found, out)
     else let out = out\<lparr>ts_admin_up := ia_flags ifa AND 1 \<noteq> 0, ts_oper_up := ia_flags ifa AND IFF_RUNNING \<noteq> 0\<rparr>;
              add = (\<lambda>t. if length (ts_addrs out) < PW_TAP_ADDR_MAX
                         then out\<lparr>ts_addrs := ts_addrs out @ [take (PW_TAP_ADDR_STR_MAX - 1) t]\<rparr> else out)
          in (True,
              case ia_addr ifa of None \<Rightarrow> out
              | Some (If_packet st) \<Rightarrow> (case st of None \<Rightarrow> out | Some c \<Rightarrow> out\<lparr>ts_counters := c\<rparr>)
              | Some (If_inet v) \<Rightarrow> add (ipv4_text v)
              | Some (If_inet6 a) \<Rightarrow> add (inet_ntop6 a)
              | Some If_other \<Rightarrow> out))"

definition pw_tap_query :: "ifaddrs list option \<Rightarrow> string option \<Rightarrow> pw_status + pw_tap_state" where
  "pw_tap_query ifas o_name =
     (case o_name of None \<Rightarrow> Inl PW_E_INVAL
      | Some name \<Rightarrow>
          (case ifas of None \<Rightarrow> Inl PW_E_BACKEND
           | Some xs \<Rightarrow>
               let (found, out) = foldl (query_entry name) (False, zero_tap_state) xs in
               if found then Inr out else Inl PW_E_BACKEND))"

text \<open>The query is about the entries of the name only, and reports the first eight of their addresses.\<close>

definition addr_texts :: "if_addr option \<Rightarrow> string list" where
  "addr_texts a = (case a of Some (If_inet v) \<Rightarrow> [take (PW_TAP_ADDR_STR_MAX - 1) (ipv4_text v)]
     | Some (If_inet6 b) \<Rightarrow> [take (PW_TAP_ADDR_STR_MAX - 1) (inet_ntop6 b)] | _ \<Rightarrow> [])"

lemma take_add: "(if length (take n A) < n then take n A @ [t] else take n A) = take n (A @ [t])"
  by auto

lemma query_addrs:
  assumes "ts_addrs st = take PW_TAP_ADDR_MAX A" "query_entry name (f, st) x = (f', st')"
  shows "ts_addrs st' = take PW_TAP_ADDR_MAX (A @ (if ia_name x = Some name then addr_texts (ia_addr x) else []))"
  using assms take_add [of PW_TAP_ADDR_MAX A]
  by (auto simp: query_entry_def Let_def addr_texts_def split: if_splits option.splits if_addr.splits)

lemma query_fold:
  "foldl (query_entry name) (False, zero_tap_state) xs = (f, st) \<Longrightarrow>
   (f \<longleftrightarrow> Some name \<in> ia_name ` set xs) \<and>
   ts_addrs st = take PW_TAP_ADDR_MAX (concat (map (\<lambda>x. addr_texts (ia_addr x)) (filter (\<lambda>x. ia_name x = Some name) xs)))"
proof (induction xs arbitrary: f st rule: rev_induct)
  case Nil
  then show ?case by (auto simp: zero_tap_state_def)
next
  case (snoc x xs)
  obtain f0 st0 where 0: "foldl (query_entry name) (False, zero_tap_state) xs = (f0, st0)" by fastforce
  have 1: "query_entry name (f0, st0) x = (f, st)" using snoc.prems 0 by simp
  then have "f = (f0 \<or> ia_name x = Some name)" by (auto simp: query_entry_def Let_def split: if_splits)
  then show ?case using snoc.IH [OF 0] query_addrs [OF _ 1] by (auto simp: image_iff)
qed

lemma tap_query_exact:
  "pw_tap_query (Some xs) (Some name) = Inl e \<longleftrightarrow> Some name \<notin> ia_name ` set xs \<and> e = PW_E_BACKEND"
  "pw_tap_query (Some xs) (Some name) = Inr st \<Longrightarrow>
   ts_addrs st = take PW_TAP_ADDR_MAX (concat (map (\<lambda>x. addr_texts (ia_addr x)) (filter (\<lambda>x. ia_name x = Some name) xs)))"
  using query_fold [of name xs] by (auto simp: pw_tap_query_def split: prod.splits if_splits)

section \<open>The daemon's TAPs\<close>

record tap_handle =
  th_fd :: int
  th_lif_id :: u32
  th_name :: string

definition backend_for_lif :: "pw_config \<Rightarrow> 'w card_runtime list \<Rightarrow> pw_logical_if \<Rightarrow> (nat \<times> u8) option" where
  "backend_for_lif cfg cards lif =
     (case pw_config_resolve_port (Some cfg) (lif_global_port lif) of Inl _ \<Rightarrow> None
      | Inr ref \<Rightarrow>
          map_option (\<lambda>i. (i, ref_local_port_id ref))
            (find (\<lambda>i. card_id (cfg_cards cfg ! i) = ref_card_id ref \<and> card_open cards i) [0..<length (cfg_cards cfg)]))"

text \<open>The kernel's answers while one interface is set up.\<close>

record tap_answers =
  ta_fd :: int
  ta_iface :: "string \<Rightarrow> string option"
  ta_mac :: ctl_answers
  ta_mtu :: ctl_answers
  ta_up :: ctl_answers

datatype tap_flow = Go | Break | Fail

type_synonym planes = "pw_host_plane option list"

definition tap_config :: "tap_answers \<Rightarrow> pw_logical_if \<Rightarrow> string \<Rightarrow> bool \<times> net_event list" where
  "tap_config a lif actual =
     (let (mr, ev1) = pw_tap_set_mac (ta_mac a) (Some actual) (Some (lif_mac lif));
          (tr, ev2) = (if lif_mtu lif \<noteq> 0 then pw_tap_set_mtu (ta_mtu a) (Some actual) (lif_mtu lif) else (PW_OK, []));
          (ur, ev3) = pw_tap_set_up (ta_up a) (Some actual) True
      in (mr = PW_OK \<and> tr = PW_OK \<and> ur = PW_OK, ev1 @ ev2 @ ev3))"

text \<open>One turn of the loop of \<open>setup_taps\<close>.\<close>

definition setup_tap ::
  "tap_answers \<Rightarrow> bool \<Rightarrow> nat \<Rightarrow> pw_config \<Rightarrow> 'w card_runtime list \<Rightarrow> pw_logical_if \<Rightarrow> tap_handle list \<Rightarrow> planes \<Rightarrow>
     tap_flow \<times> tap_handle list \<times> planes \<times> net_event list" where
  "setup_tap a allow_fake max_taps cfg cards lif taps hps =
     (let skip = (if allow_fake then Go else Fail) in
      if length taps \<ge> max_taps then (if allow_fake then Break else Fail, taps, hps, [])
      else case backend_for_lif cfg cards lif of None \<Rightarrow> (skip, taps, hps, [])
      | Some (ci, egress) \<Rightarrow>
          (case pw_tap_open (ta_fd a) (ta_iface a) (Some (lif_name lif)) of (Inl _, ev) \<Rightarrow> (skip, taps, hps, ev)
           | (Inr (fd, actual), ev) \<Rightarrow>
               let (ok, ev') = tap_config a lif actual; ev = ev @ ev' in
               if \<not> ok \<and> \<not> allow_fake then (Fail, taps, hps, ev @ pw_tap_close fd)
               else if ci \<ge> PW_MAX_CARDS then (Go, taps, hps, ev @ pw_tap_close fd)
               else let hp = (case hps ! ci of None \<Rightarrow> pw_host_plane_init | Some hp \<Rightarrow> hp);
                        (hp', br) = pw_host_plane_bind hp (lif_id lif) fd egress;
                        hps = hps[ci := Some hp'] in
                    if br \<noteq> PW_OK then (skip, taps, hps, ev @ pw_tap_close fd)
                    else (Go, taps @ [\<lparr>th_fd = fd, th_lif_id = lif_id lif, th_name = take (PW_TAP_IFNAME_MAX - 1) actual\<rparr>], hps, ev)))"

text \<open>The kernel answers in view of the calls made so far.\<close>

fun setup_loop ::
  "(net_event list \<Rightarrow> tap_answers) \<Rightarrow> bool \<Rightarrow> nat \<Rightarrow> pw_config \<Rightarrow> 'w card_runtime list \<Rightarrow> pw_logical_if list \<Rightarrow>
     tap_handle list \<Rightarrow> planes \<Rightarrow> net_event list \<Rightarrow> bool \<times> tap_handle list \<times> planes \<times> net_event list" where
  "setup_loop answers allow_fake max_taps cfg cards [] taps hps ev = (True, taps, hps, ev)"
| "setup_loop answers allow_fake max_taps cfg cards (lif # lifs) taps hps ev =
     (case setup_tap (answers ev) allow_fake max_taps cfg cards lif taps hps of
        (Go, taps, hps, ev') \<Rightarrow> setup_loop answers allow_fake max_taps cfg cards lifs taps hps (ev @ ev')
      | (Break, taps, hps, ev') \<Rightarrow> (True, taps, hps, ev @ ev')
      | (Fail, taps, hps, ev') \<Rightarrow> (False, taps, hps, ev @ ev'))"

definition setup_taps ::
  "(net_event list \<Rightarrow> tap_answers) \<Rightarrow> bool \<Rightarrow> nat \<Rightarrow> pw_config \<Rightarrow> 'w card_runtime list \<Rightarrow>
     tap_handle list option \<times> planes \<times> net_event list" where
  "setup_taps answers allow_fake max_taps cfg cards =
     (case setup_loop answers allow_fake max_taps cfg cards (cfg_logical_if cfg) [] (replicate PW_MAX_CARDS None) [] of
        (True, taps, hps, ev) \<Rightarrow> (Some taps, hps, ev)
      | (False, taps, hps, ev) \<Rightarrow>
          (None, replicate (min (length (cfg_cards cfg)) PW_MAX_CARDS) None @ drop (length (cfg_cards cfg)) hps,
           ev @ concat (map (\<lambda>t. pw_tap_close (th_fd t)) taps)))"

section \<open>The kernel's side\<close>

text \<open>
  The descriptors of the process and the interfaces it owns, with what has been configured. A call is refused (\<open>None\<close>)
  where a descriptor is closed or used that is not open, or where an interface is configured that is not one of the
  process's own.
\<close>

record netdev =
  nd_fd :: int
  nd_name :: string
  nd_mac :: "bytes option"
  nd_mtu :: "u16 option"
  nd_flags :: "u16 option"

record net =
  nt_fds :: "int list"
  nt_devs :: "netdev list"

definition on_dev :: "string \<Rightarrow> (netdev \<Rightarrow> netdev) \<Rightarrow> net \<Rightarrow> net option" where
  "on_dev name f n =
     (if name \<notin> nd_name ` set (nt_devs n) then None
      else Some (n\<lparr>nt_devs := map (\<lambda>d. if nd_name d = name then f d else d) (nt_devs n)\<rparr>))"

fun net_do :: "net_event \<Rightarrow> net \<Rightarrow> net option" where
  "net_do (Tun_opened fd) n = (if fd \<in> set (nt_fds n) then None else Some (n\<lparr>nt_fds := fd # nt_fds n\<rparr>))"
| "net_do (Sock_opened fd) n = (if fd \<in> set (nt_fds n) then None else Some (n\<lparr>nt_fds := fd # nt_fds n\<rparr>))"
| "net_do (Tun_iface fd fl req name) n =
     (if fd \<notin> set (nt_fds n) \<or> fd \<in> nd_fd ` set (nt_devs n) \<or> name \<in> nd_name ` set (nt_devs n) then None
      else Some (n\<lparr>nt_devs := \<lparr>nd_fd = fd, nd_name = name, nd_mac = None, nd_mtu = None, nd_flags = None\<rparr> # nt_devs n\<rparr>))"
| "net_do (Tun_persist fd b) n = (if fd \<notin> set (nt_fds n) then None else Some n)"
| "net_do (Tun_carrier fd b) n = (if fd \<notin> set (nt_fds n) then None else Some n)"
| "net_do (Fd_closed fd) n =
     (if fd \<notin> set (nt_fds n) then None
      else Some (n\<lparr>nt_fds := remove1 fd (nt_fds n), nt_devs := filter (\<lambda>d. nd_fd d \<noteq> fd) (nt_devs n)\<rparr>))"
| "net_do (If_hwaddr name fam mac) n = on_dev name (\<lambda>d. d\<lparr>nd_mac := Some mac\<rparr>) n"
| "net_do (If_mtu name mtu) n = on_dev name (\<lambda>d. d\<lparr>nd_mtu := Some mtu\<rparr>) n"
| "net_do (If_flags name fl) n = on_dev name (\<lambda>d. d\<lparr>nd_flags := Some fl\<rparr>) n"

fun net_run :: "net_event list \<Rightarrow> net \<Rightarrow> net option" where
  "net_run [] n = Some n"
| "net_run (e # es) n = (case net_do e n of None \<Rightarrow> None | Some n' \<Rightarrow> net_run es n')"

definition no_net :: net where "no_net = \<lparr>nt_fds = [], nt_devs = []\<rparr>"

text \<open>
  What is documented of the kernel: a descriptor it hands out is not one that is open; an interface gets a name that fits
  and is not taken, the requested one unless that is empty or a pattern.
\<close>

definition fresh_sock :: "net \<Rightarrow> int \<Rightarrow> ctl_answers \<Rightarrow> bool" where
  "fresh_sock n fd a \<longleftrightarrow> ca_sock a \<notin> set (nt_fds n) \<and> (ca_sock a \<ge> 0 \<longrightarrow> ca_sock a \<noteq> fd)"

definition fresh_answers :: "net \<Rightarrow> tap_answers \<Rightarrow> bool" where
  "fresh_answers n a \<longleftrightarrow> ta_fd a \<notin> set (nt_fds n) \<and> fresh_sock n (ta_fd a) (ta_mac a) \<and> fresh_sock n (ta_fd a) (ta_mtu a) \<and>
     fresh_sock n (ta_fd a) (ta_up a) \<and>
     (\<forall>req given. ta_iface a req = Some given \<longrightarrow>
        given \<notin> nd_name ` set (nt_devs n) \<and> given \<noteq> [] \<and> length given < IFNAMSIZ \<and> (req \<noteq> [] \<and> CHR ''%'' \<notin> set req \<longrightarrow> given = req))"

definition honest_kernel :: "(net_event list \<Rightarrow> tap_answers) \<Rightarrow> bool" where
  "honest_kernel answers \<longleftrightarrow> (\<forall>ev n. net_run ev no_net = Some n \<longrightarrow> fresh_answers n (answers ev))"


section \<open>One TAP\<close>

lemma net_run_append: "net_run (es @ fs) n = (case net_run es n of None \<Rightarrow> None | Some n' \<Rightarrow> net_run fs n')"
  by (induction es arbitrary: n) (auto split: option.splits)

text \<open>The net while a TAP is set up: its descriptor and its interface are the newest.\<close>

definition newest :: "netdev \<Rightarrow> net \<Rightarrow> net" where
  "newest d n = \<lparr>nt_fds = nd_fd d # nt_fds n, nt_devs = d # nt_devs n\<rparr>"

definition net_ok :: "net \<Rightarrow> bool" where
  "net_ok n \<longleftrightarrow> nt_fds n = map nd_fd (nt_devs n) \<and> distinct (nt_fds n) \<and> distinct (map nd_name (nt_devs n))"

definition new_in :: "netdev \<Rightarrow> net \<Rightarrow> bool" where
  "new_in d n \<longleftrightarrow> net_ok n \<and> nd_fd d \<ge> 0 \<and> nd_fd d \<notin> set (nt_fds n) \<and> nd_name d \<notin> nd_name ` set (nt_devs n)"

lemma map_other: "nm \<notin> nd_name ` set ds \<Longrightarrow> map (\<lambda>d. if nd_name d = nm then f d else d) ds = ds"
  by (induction ds) auto

lemma on_newest: "new_in d n \<Longrightarrow> on_dev (nd_name d) f (newest d n) = Some \<lparr>nt_fds = nd_fd d # nt_fds n, nt_devs = f d # nt_devs n\<rparr>"
  by (auto simp: on_dev_def newest_def new_in_def map_other)

lemma filter_fds: "fd \<notin> set (nt_fds n) \<Longrightarrow> net_ok n \<Longrightarrow> filter (\<lambda>d. nd_fd d \<noteq> fd) (nt_devs n) = nt_devs n"
  by (auto simp: net_ok_def filter_id_conv)

text \<open>A control socket is opened, one change is made at most, and the socket is closed.\<close>

lemma socket_alone:
  assumes "new_in d n" "fresh_sock n (nd_fd d) a" "ca_sock a \<ge> 0"
  shows "net_run [Sock_opened (ca_sock a), Fd_closed (ca_sock a)] (newest d n) = Some (newest d n)"
  using assms filter_fds [of "ca_sock a" n] by (auto simp: fresh_sock_def newest_def new_in_def)

lemma socket_change:
  assumes d: "new_in d n" and s: "fresh_sock n (nd_fd d) a" "ca_sock a \<ge> 0"
    and e: "net_do e = on_dev (nd_name d) f" and f: "nd_fd (f d) = nd_fd d"
  shows "net_run [Sock_opened (ca_sock a), e, Fd_closed (ca_sock a)] (newest d n) = Some (newest (f d) n)"
proof -
  let ?s = "ca_sock a"
  have s': "?s \<notin> set (nt_fds n)" "?s \<noteq> nd_fd d" using s by (auto simp: fresh_sock_def)
  have "on_dev (nd_name d) f \<lparr>nt_fds = ?s # nd_fd d # nt_fds n, nt_devs = d # nt_devs n\<rparr> =
      Some \<lparr>nt_fds = ?s # nd_fd d # nt_fds n, nt_devs = f d # nt_devs n\<rparr>"
    using d by (auto simp: on_dev_def new_in_def map_other)
  then show ?thesis using s' d f filter_fds [of ?s n] by (simp add: e newest_def new_in_def)
qed

lemma set_ifr_name_Inr: "set_ifr_name s = Inr t \<Longrightarrow> t = s"
  by (auto simp: set_ifr_name_def Let_def min_def split: if_splits)

lemma set_ifr_name_Inl: "set_ifr_name s = Inl e \<Longrightarrow> e = PW_E_INVAL"
  by (auto simp: set_ifr_name_def Let_def split: if_splits)

lemma set_mac_newest:
  assumes "new_in d n" "fresh_sock n (nd_fd d) a" "pw_tap_set_mac a (Some (nd_name d)) (Some mac) = (r, ev)"
  shows "net_run ev (newest d n) = Some (newest (if r = PW_OK then d\<lparr>nd_mac := Some (take 6 mac)\<rparr> else d) n)"
  using assms(3) socket_alone [OF assms(1,2)]
    socket_change [OF assms(1,2), of "If_hwaddr (nd_name d) 1 (take 6 mac)" "\<lambda>d. d\<lparr>nd_mac := Some (take 6 mac)\<rparr>"]
  by (auto simp: pw_tap_set_mac_def Let_def fun_eq_iff simp del: net_run.simps(2) dest!: set_ifr_name_Inr set_ifr_name_Inl split: if_splits sum.splits)

lemma set_mtu_newest:
  assumes "new_in d n" "fresh_sock n (nd_fd d) a" "pw_tap_set_mtu a (Some (nd_name d)) mtu = (r, ev)"
  shows "net_run ev (newest d n) = Some (newest (if r = PW_OK then d\<lparr>nd_mtu := Some mtu\<rparr> else d) n)"
  using assms(3) socket_alone [OF assms(1,2)]
    socket_change [OF assms(1,2), of "If_mtu (nd_name d) mtu" "\<lambda>d. d\<lparr>nd_mtu := Some mtu\<rparr>"]
  by (auto simp: pw_tap_set_mtu_def Let_def fun_eq_iff simp del: net_run.simps(2) dest!: set_ifr_name_Inr set_ifr_name_Inl split: if_splits sum.splits)

lemma up_bit: "(fl OR IFF_UP) AND IFF_UP \<noteq> 0"
proof -
  have "bit ((fl OR IFF_UP) AND IFF_UP) 0" by (simp add: IFF_UP_def bit_simps)
  then show ?thesis by auto
qed

lemma set_up_newest:
  assumes "new_in d n" "fresh_sock n (nd_fd d) a" "pw_tap_set_up a (Some (nd_name d)) True = (r, ev)"
  shows "\<exists>fl. net_run ev (newest d n) = Some (newest (if r = PW_OK then d\<lparr>nd_flags := Some fl\<rparr> else d) n) \<and> fl AND IFF_UP \<noteq> 0"
proof (cases "r = PW_OK")
  case True
  then obtain fl where *: "ca_sock a \<ge> 0" "ev = [Sock_opened (ca_sock a), If_flags (nd_name d) (fl OR IFF_UP), Fd_closed (ca_sock a)]"
    using assms(3) by (auto simp: pw_tap_set_up_def Let_def dest!: set_ifr_name_Inr set_ifr_name_Inl split: if_splits sum.splits option.splits)
  then show ?thesis using True up_bit [of fl]
      socket_change [OF assms(1,2) *(1), of "If_flags (nd_name d) (fl OR IFF_UP)" "\<lambda>d. d\<lparr>nd_flags := Some (fl OR IFF_UP)\<rparr>"]
    by (intro exI [of _ "fl OR IFF_UP"]) (simp add: fun_eq_iff del: net_run.simps)
next
  case False
  then have "ev = [] \<or> ca_sock a \<ge> 0 \<and> ev = [Sock_opened (ca_sock a), Fd_closed (ca_sock a)]"
    using assms(3) by (auto simp: pw_tap_set_up_def Let_def split: if_splits sum.splits option.splits)
  then show ?thesis using False socket_alone [OF assms(1,2)]
    by (intro exI [of _ IFF_UP]) (auto simp: IFF_UP_def simp del: net_run.simps(2))
qed

text \<open>What a TAP of a logical interface is configured with.\<close>

definition configured :: "pw_logical_if \<Rightarrow> netdev \<Rightarrow> bool" where
  "configured lif d \<longleftrightarrow> nd_mac d = Some (take 6 (lif_mac lif)) \<and> (lif_mtu lif \<noteq> 0 \<longrightarrow> nd_mtu d = Some (lif_mtu lif)) \<and>
     (\<exists>fl. nd_flags d = Some fl \<and> fl AND IFF_UP \<noteq> 0)"

lemma tap_config_newest:
  assumes d: "new_in d n" and a: "fresh_sock n (nd_fd d) (ta_mac a)" "fresh_sock n (nd_fd d) (ta_mtu a)" "fresh_sock n (nd_fd d) (ta_up a)"
    and c: "tap_config a lif (nd_name d) = (ok, ev)"
  shows "\<exists>d'. net_run ev (newest d n) = Some (newest d' n) \<and> nd_fd d' = nd_fd d \<and> nd_name d' = nd_name d \<and> (ok \<longrightarrow> configured lif d')"
proof -
  obtain mr ev1 where 1: "pw_tap_set_mac (ta_mac a) (Some (nd_name d)) (Some (lif_mac lif)) = (mr, ev1)" by fastforce
  obtain tr ev2 where 2: "(if lif_mtu lif \<noteq> 0 then pw_tap_set_mtu (ta_mtu a) (Some (nd_name d)) (lif_mtu lif) else (PW_OK, [])) = (tr, ev2)"
    by fastforce
  obtain ur ev3 where 3: "pw_tap_set_up (ta_up a) (Some (nd_name d)) True = (ur, ev3)" by fastforce
  have ev: "ok = (mr = PW_OK \<and> tr = PW_OK \<and> ur = PW_OK)" "ev = ev1 @ ev2 @ ev3" using c 1 2 3 by (auto simp: tap_config_def)
  define d1 where "d1 = (if mr = PW_OK then d\<lparr>nd_mac := Some (take 6 (lif_mac lif))\<rparr> else d)"
  have k1: "net_run ev1 (newest d n) = Some (newest d1 n)" using set_mac_newest [OF d a(1) 1] by (simp add: d1_def)
  have n1: "new_in d1 n" "nd_fd d1 = nd_fd d" "nd_name d1 = nd_name d" using d by (simp_all add: d1_def new_in_def)
  define d2 where "d2 = (if tr = PW_OK \<and> lif_mtu lif \<noteq> 0 then d1\<lparr>nd_mtu := Some (lif_mtu lif)\<rparr> else d1)"
  have k2: "net_run ev2 (newest d1 n) = Some (newest d2 n)"
    using set_mtu_newest [of d1 n "ta_mtu a" "lif_mtu lif" tr ev2] n1 a(2) 2 by (auto simp: d2_def split: if_splits)
  have n2: "new_in d2 n" "nd_fd d2 = nd_fd d" "nd_name d2 = nd_name d" using n1 by (simp_all add: d2_def new_in_def)
  obtain fl where k3: "net_run ev3 (newest d2 n) = Some (newest (if ur = PW_OK then d2\<lparr>nd_flags := Some fl\<rparr> else d2) n)"
    and up: "fl AND IFF_UP \<noteq> 0" using set_up_newest [of d2 n "ta_up a" ur ev3] n2 a(3) 3 by auto
  let ?d = "if ur = PW_OK then d2\<lparr>nd_flags := Some fl\<rparr> else d2"
  have "net_run ev (newest d n) = Some (newest ?d n)" unfolding ev(2) by (simp add: net_run_append k1 k2 k3)
  moreover have "ok \<longrightarrow> configured lif ?d" using ev(1) up by (auto simp: configured_def d1_def d2_def)
  ultimately show ?thesis using n2 by (intro exI [of _ ?d]) simp
qed

text \<open>A TAP is opened under the name the kernel gives, or leaves nothing.\<close>

lemma tap_open_newest:
  assumes n: "net_ok n" and a: "fresh_answers n a" and op: "pw_tap_open (ta_fd a) (ta_iface a) (Some nm) = (Inr (fd, actual), ev)"
  shows "\<exists>d. net_run ev n = Some (newest d n) \<and> new_in d n \<and> nd_fd d = fd \<and> nd_name d = actual \<and> fd = ta_fd a \<and> length actual < IFNAMSIZ \<and>
    (nm \<noteq> [] \<and> CHR ''%'' \<notin> set nm \<longrightarrow> actual = nm)"
proof -
  obtain given where g: "ta_iface a (take (IFNAMSIZ - 1) nm) = Some given" "ta_fd a \<ge> 0" "fd = ta_fd a" "length nm < IFNAMSIZ"
    "actual = take (PW_TAP_IFNAME_MAX - 1) given"
    "ev = [Tun_opened fd, Tun_iface fd IFF_TAP_NO_PI (take (IFNAMSIZ - 1) nm) given, Tun_persist fd False, Tun_carrier fd True]"
    using op by (auto simp: pw_tap_open_def Let_def IFNAMSIZ_def split: if_splits option.splits)
  have given: "given \<notin> nd_name ` set (nt_devs n)" "length given < IFNAMSIZ" "nm \<noteq> [] \<and> CHR ''%'' \<notin> set nm \<longrightarrow> given = nm"
    and fd: "ta_fd a \<notin> set (nt_fds n)" using a g(1,4) unfolding fresh_answers_def by (auto simp: IFNAMSIZ_def)
  have actual: "actual = given" using g(5) given(2) by (simp add: IFNAMSIZ_def PW_TAP_IFNAME_MAX_def)
  have "ta_fd a \<notin> nd_fd ` set (nt_devs n)" using fd n by (metis net_ok_def set_map)
  then have "net_run ev n = Some (newest \<lparr>nd_fd = fd, nd_name = given, nd_mac = None, nd_mtu = None, nd_flags = None\<rparr> n)"
    using g fd given by (simp add: newest_def)
  then show ?thesis using n g fd given actual
    by (intro exI [of _ "\<lparr>nd_fd = fd, nd_name = given, nd_mac = None, nd_mtu = None, nd_flags = None\<rparr>"]) (simp add: new_in_def)
qed

lemma tap_open_refused:
  assumes n: "net_ok n" and a: "fresh_answers n a" and op: "pw_tap_open (ta_fd a) (ta_iface a) (Some nm) = (Inl e, ev)"
  shows "net_run ev n = Some n"
proof -
  have "ev = [] \<or> ev = [Tun_opened (ta_fd a), Fd_closed (ta_fd a)]"
    using op by (auto simp: pw_tap_open_def Let_def split: if_splits option.splits)
  then show ?thesis using a filter_fds [of "ta_fd a" n] n by (auto simp: fresh_answers_def)
qed

lemma close_newest: "new_in d n \<Longrightarrow> net_run (pw_tap_close (nd_fd d)) (newest d n) = Some n"
  using filter_fds [of "nd_fd d" n] by (simp add: pw_tap_close_def newest_def new_in_def)

section \<open>All TAPs\<close>

lemma find_idx_append:
  "find_idx P (xs @ ys) = (case find_idx P xs of Some i \<Rightarrow> Some i | None \<Rightarrow> map_option ((+) (length xs)) (find_idx P ys))"
  by (cases "find_idx P ys"; induction xs) (auto split: option.splits)

lemma bind_new:
  assumes "pw_host_plane_bind hp lif fd eg = (hp', PW_OK)"
  shows "\<exists>b. find_binding hp' lif = Some b \<and> hp_bindings hp' ! b = \<lparr>hb_logical_if_id = lif, hb_fd = fd, hb_egress_local_port = eg\<rparr>"
  using assms by (auto simp: pw_host_plane_bind_def find_binding_def find_idx_append split: if_splits)

lemma bind_old:
  assumes "pw_host_plane_bind hp lif fd eg = (hp', r)" "find_binding hp x = Some b"
  shows "find_binding hp' x = Some b \<and> hp_bindings hp' ! b = hp_bindings hp ! b"
  using assms find_binding_Some [OF assms(2)]
  by (auto simp: pw_host_plane_bind_def find_binding_def find_idx_append nth_append split: if_splits)

text \<open>
  A TAP serves its interface: it is bound on the card of the interface's port, so that what the card punts for the
  interface goes to it, and what is read from it leaves by the port.
\<close>

definition tap_serves :: "pw_config \<Rightarrow> 'w card_runtime list \<Rightarrow> planes \<Rightarrow> pw_logical_if \<Rightarrow> tap_handle \<Rightarrow> bool" where
  "tap_serves cfg cards hps lif th \<longleftrightarrow>
     (\<exists>ref ci hp b. pw_config_resolve_port (Some cfg) (lif_global_port lif) = Inr ref \<and> ci < length (cfg_cards cfg) \<and>
        card_id (cfg_cards cfg ! ci) = ref_card_id ref \<and> card_open cards ci \<and> ci < length hps \<and> hps ! ci = Some hp \<and>
        find_binding hp (lif_id lif) = Some b \<and>
        hp_bindings hp ! b = \<lparr>hb_logical_if_id = lif_id lif, hb_fd = th_fd th, hb_egress_local_port = ref_local_port_id ref\<rparr>)"

definition tap_device :: "bool \<Rightarrow> net \<Rightarrow> pw_logical_if \<Rightarrow> tap_handle \<Rightarrow> bool" where
  "tap_device allow_fake n lif th \<longleftrightarrow>
     (\<exists>d \<in> set (nt_devs n). nd_fd d = th_fd th \<and> nd_name d = th_name th \<and>
        (lif_name lif \<noteq> [] \<and> CHR ''%'' \<notin> set (lif_name lif) \<longrightarrow> nd_name d = lif_name lif) \<and> (allow_fake \<or> configured lif d))"

definition tap_good :: "bool \<Rightarrow> pw_config \<Rightarrow> 'w card_runtime list \<Rightarrow> planes \<Rightarrow> net \<Rightarrow> pw_logical_if \<Rightarrow> tap_handle \<Rightarrow> bool" where
  "tap_good allow_fake cfg cards hps n lif th \<longleftrightarrow>
     th_lif_id th = lif_id lif \<and> tap_serves cfg cards hps lif th \<and> tap_device allow_fake n lif th"

definition fds_inv :: "tap_handle list \<Rightarrow> net \<Rightarrow> bool" where
  "fds_inv taps n \<longleftrightarrow> net_ok n \<and> nt_fds n = rev (map th_fd taps) \<and> (\<forall>t \<in> set taps. th_fd t \<ge> 0)"

definition taps_inv ::
  "bool \<Rightarrow> pw_config \<Rightarrow> 'w card_runtime list \<Rightarrow> pw_logical_if list \<Rightarrow> tap_handle list \<Rightarrow> planes \<Rightarrow> net \<Rightarrow> bool" where
  "taps_inv allow_fake cfg cards lifs taps hps n \<longleftrightarrow> fds_inv taps n \<and> length hps = PW_MAX_CARDS \<and>
     (\<exists>ls. subseq ls lifs \<and> (allow_fake \<or> ls = lifs) \<and> list_all2 (tap_good allow_fake cfg cards hps n) ls taps)"

definition bind_in :: "planes \<Rightarrow> nat \<Rightarrow> u32 \<Rightarrow> int \<Rightarrow> u8 \<Rightarrow> pw_host_plane \<times> pw_status" where
  "bind_in hps ci lif fd eg = pw_host_plane_bind (case hps ! ci of None \<Rightarrow> pw_host_plane_init | Some hp \<Rightarrow> hp) lif fd eg"

lemma serves_bind:
  assumes "tap_serves cfg cards hps lif th" "bind_in hps ci x fd eg = (hp', r)"
  shows "tap_serves cfg cards (hps[ci := Some hp']) lif th"
proof -
  obtain ref cj hp b where *: "pw_config_resolve_port (Some cfg) (lif_global_port lif) = Inr ref" "cj < length (cfg_cards cfg)"
    "card_id (cfg_cards cfg ! cj) = ref_card_id ref" "card_open cards cj" "cj < length hps" "hps ! cj = Some hp"
    "find_binding hp (lif_id lif) = Some b"
    "hp_bindings hp ! b = \<lparr>hb_logical_if_id = lif_id lif, hb_fd = th_fd th, hb_egress_local_port = ref_local_port_id ref\<rparr>"
    using assms(1) unfolding tap_serves_def by blast
  have "\<exists>hp'' b'. hps[ci := Some hp'] ! cj = Some hp'' \<and> find_binding hp'' (lif_id lif) = Some b' \<and>
    hp_bindings hp'' ! b' = \<lparr>hb_logical_if_id = lif_id lif, hb_fd = th_fd th, hb_egress_local_port = ref_local_port_id ref\<rparr>"
    using * bind_old [of hp x fd eg hp' r "lif_id lif" b] assms(2) by (cases "cj = ci") (auto simp: bind_in_def)
  then show ?thesis using *(1-5) unfolding tap_serves_def by (metis length_list_update)
qed

lemma good_mono:
  assumes "list_all2 (tap_good af cfg cards hps n) ls taps" "set (nt_devs n) \<subseteq> set (nt_devs n')"
    and "\<And>lif th. tap_serves cfg cards hps lif th \<Longrightarrow> tap_serves cfg cards hps' lif th"
  shows "list_all2 (tap_good af cfg cards hps' n') ls taps"
  using assms(1) by (rule list_all2_mono) (use assms(2,3) in \<open>auto simp: tap_good_def tap_device_def\<close>)

lemma taps_skip:
  assumes "taps_inv True cfg cards lifs taps hps n"
  shows "taps_inv True cfg cards (lifs @ [lif]) taps hps n"
  using assms unfolding taps_inv_def by (metis subseq_append_iff subseq_order.refl list_emb_Nil append_Nil2 list_emb_append_mono)

lemma taps_bind:
  assumes inv: "taps_inv af cfg cards lifs taps hps n" and bind: "bind_in hps ci x fd eg = (hp', r)"
  shows "taps_inv af cfg cards lifs taps (hps[ci := Some hp']) n"
  using inv good_mono [of af cfg cards hps n _ taps n "hps[ci := Some hp']"] serves_bind [OF _ bind]
  unfolding taps_inv_def by (metis length_list_update subset_refl)

text \<open>A TAP that is bound joins the others.\<close>

lemma taps_add:
  assumes inv: "taps_inv af cfg cards lifs taps hps n" and d: "new_in d n"
    and th: "th = \<lparr>th_fd = nd_fd d, th_lif_id = lif_id lif, th_name = nd_name d\<rparr>"
    and name: "lif_name lif \<noteq> [] \<and> CHR ''%'' \<notin> set (lif_name lif) \<longrightarrow> nd_name d = lif_name lif" and ok: "af \<or> configured lif d"
    and card: "backend_for_lif cfg cards lif = Some (ci, eg)" "ci < PW_MAX_CARDS"
    and bind: "bind_in hps ci (lif_id lif) (nd_fd d) eg = (hp', PW_OK)"
  shows "taps_inv af cfg cards (lifs @ [lif]) (taps @ [th]) (hps[ci := Some hp']) (newest d n)"
proof -
  have fds: "fds_inv taps n" and len: "length hps = PW_MAX_CARDS" using inv by (simp_all add: taps_inv_def)
  obtain ls where ls: "subseq ls lifs" "af \<or> ls = lifs" "list_all2 (tap_good af cfg cards hps n) ls taps"
    using inv unfolding taps_inv_def by blast
  have old: "list_all2 (tap_good af cfg cards (hps[ci := Some hp']) (newest d n)) ls taps"
    by (rule good_mono [OF ls(3)]) (use serves_bind [OF _ bind] in \<open>auto simp: newest_def\<close>)
  obtain ref where ref: "pw_config_resolve_port (Some cfg) (lif_global_port lif) = Inr ref" "eg = ref_local_port_id ref"
    "ci < length (cfg_cards cfg)" "card_id (cfg_cards cfg ! ci) = ref_card_id ref" "card_open cards ci"
    using card(1) by (auto simp: backend_for_lif_def find_Some_iff split: sum.splits)
  have "tap_serves cfg cards (hps[ci := Some hp']) lif th"
    using ref bind_new [OF bind [unfolded bind_in_def]] card(2) len th unfolding tap_serves_def by auto
  moreover have "tap_device af (newest d n) lif th" using th name ok by (auto simp: tap_device_def newest_def)
  ultimately have "tap_good af cfg cards (hps[ci := Some hp']) (newest d n) lif th" by (simp add: tap_good_def th)
  then have "list_all2 (tap_good af cfg cards (hps[ci := Some hp']) (newest d n)) (ls @ [lif]) (taps @ [th])"
    using old by (intro list_all2_appendI) auto
  moreover have "fds_inv (taps @ [th]) (newest d n)" using fds d th by (auto simp: fds_inv_def newest_def net_ok_def new_in_def)
  moreover have "subseq (ls @ [lif]) (lifs @ [lif])" using ls(1) by (simp add: list_emb_append_mono)
  ultimately show ?thesis using ls(2) len unfolding taps_inv_def by (metis length_list_update)
qed

text \<open>One turn of the loop: what it leaves in each case.\<close>

definition turn_ok ::
  "bool \<Rightarrow> pw_config \<Rightarrow> 'w card_runtime list \<Rightarrow> pw_logical_if list \<Rightarrow> pw_logical_if \<Rightarrow> tap_flow \<times> tap_handle list \<times> planes \<Rightarrow> net \<Rightarrow> bool" where
  "turn_ok af cfg cards lifs lif = (\<lambda>(fl, taps, hps) n. case fl of
     Go \<Rightarrow> taps_inv af cfg cards (lifs @ [lif]) taps hps n
   | Break \<Rightarrow> af \<and> taps_inv af cfg cards lifs taps hps n
   | Fail \<Rightarrow> fds_inv taps n \<and> length hps = PW_MAX_CARDS)"

lemma turn_skip:
  "taps_inv af cfg cards lifs taps hps n \<Longrightarrow> turn_ok af cfg cards lifs lif (if af then Go else Fail, taps, hps) n"
  using taps_skip by (cases af) (auto simp: turn_ok_def taps_inv_def)

lemma turn_opened:
  assumes inv: "taps_inv af cfg cards lifs taps hps n" and a: "fresh_answers n a" and cards: "length (cfg_cards cfg) \<le> PW_MAX_CARDS"
    and card: "backend_for_lif cfg cards lif = Some (ci, eg)" "length taps < max_taps"
    and op: "pw_tap_open (ta_fd a) (ta_iface a) (Some (lif_name lif)) = (Inr (fd, actual), ev1)"
    and turn: "setup_tap a af max_taps cfg cards lif taps hps = (fl, taps', hps', ev)"
  shows "\<exists>n'. net_run ev n = Some n' \<and> turn_ok af cfg cards lifs lif (fl, taps', hps') n'"
proof -
  have n: "net_ok n" using inv by (simp add: taps_inv_def fds_inv_def)
  have ci: "ci < PW_MAX_CARDS" using card(1) cards by (auto simp: backend_for_lif_def find_Some_iff split: sum.splits)
  obtain d where d: "net_run ev1 n = Some (newest d n)" "new_in d n" "nd_fd d = fd" "nd_name d = actual" "fd = ta_fd a" "length actual < IFNAMSIZ"
    "lif_name lif \<noteq> [] \<and> CHR ''%'' \<notin> set (lif_name lif) \<longrightarrow> actual = lif_name lif" using tap_open_newest [OF n a op] by blast
  obtain ok ev2 where c: "tap_config a lif actual = (ok, ev2)" by fastforce
  obtain d' where d': "net_run ev2 (newest d n) = Some (newest d' n)" "nd_fd d' = fd" "nd_name d' = actual" "ok \<longrightarrow> configured lif d'"
    using tap_config_newest [OF d(2), of a lif ok ev2] a c d unfolding fresh_answers_def by auto
  have new: "new_in d' n" using d d' by (simp add: new_in_def)
  have run: "net_run (ev1 @ ev2) n = Some (newest d' n)" by (simp add: net_run_append d d')
  then have undone: "net_run (ev1 @ ev2 @ pw_tap_close fd) n = Some n"
    using close_newest [OF new] d' by (simp add: net_run_append d split: option.splits)
  obtain hp' br where b: "bind_in hps ci (lif_id lif) fd eg = (hp', br)" by fastforce
  have nm: "take (PW_TAP_IFNAME_MAX - 1) actual = actual" using d(6) by (simp add: IFNAMSIZ_def PW_TAP_IFNAME_MAX_def)
  note turn' = turn [unfolded setup_tap_def card(1) op c Let_def option.case prod.case sum.case bind_in_def [symmetric] b nm]
  consider "\<not> ok \<and> \<not> af" | "ok \<or> af" "br \<noteq> PW_OK" | "ok \<or> af" "br = PW_OK" by blast
  then show ?thesis
  proof cases
    case 1
    then have "fl = Fail" "taps' = taps" "hps' = hps" "ev = ev1 @ ev2 @ pw_tap_close fd" using turn' card(2) by auto
    then show ?thesis using undone inv by (auto simp: turn_ok_def taps_inv_def)
  next
    case 2
    then have "fl = (if af then Go else Fail)" "taps' = taps" "hps' = hps[ci := Some hp']" "ev = ev1 @ ev2 @ pw_tap_close fd"
      using turn' card(2) ci by auto
    then show ?thesis using undone turn_skip [OF taps_bind [OF inv b]] by auto
  next
    case 3
    then have *: "fl = Go" "taps' = taps @ [\<lparr>th_fd = fd, th_lif_id = lif_id lif, th_name = actual\<rparr>]" "hps' = hps[ci := Some hp']" "ev = ev1 @ ev2"
      using turn' card(2) ci by auto
    have "taps_inv af cfg cards (lifs @ [lif]) taps' hps' (newest d' n)"
      using taps_add [OF inv new _ _ _ card(1) ci] 3 b d d' * by auto
    then show ?thesis using run * by (auto simp: turn_ok_def)
  qed
qed

lemma turn_keeps:
  assumes inv: "taps_inv af cfg cards lifs taps hps n" and a: "fresh_answers n a" and cards: "length (cfg_cards cfg) \<le> PW_MAX_CARDS"
    and turn: "setup_tap a af max_taps cfg cards lif taps hps = (fl, taps', hps', ev)"
  shows "\<exists>n'. net_run ev n = Some n' \<and> turn_ok af cfg cards lifs lif (fl, taps', hps') n'"
proof (cases "length taps \<ge> max_taps")
  case True
  then show ?thesis using turn inv by (auto simp: setup_tap_def turn_ok_def taps_inv_def split: if_splits)
next
  case False
  show ?thesis
  proof (cases "backend_for_lif cfg cards lif")
    case None
    then show ?thesis using turn False turn_skip [OF inv] by (auto simp: setup_tap_def)
  next
    case (Some p)
    obtain ci eg where p: "p = (ci, eg)" by fastforce
    obtain r ev1 where op: "pw_tap_open (ta_fd a) (ta_iface a) (Some (lif_name lif)) = (r, ev1)" by fastforce
    show ?thesis
    proof (cases r)
      case (Inl e)
      have "net_run ev1 n = Some n" using tap_open_refused [OF _ a] op Inl inv by (auto simp: taps_inv_def fds_inv_def)
      then show ?thesis using turn False Some p op Inl turn_skip [OF inv] by (auto simp: setup_tap_def)
    next
      case (Inr q)
      then show ?thesis
        using turn_opened [OF inv a cards _ _ _ turn, of ci eg "fst q" "snd q" ev1] False Some p op by simp
    qed
  qed
qed

lemma loop_keeps:
  assumes "honest_kernel answers" "length (cfg_cards cfg) \<le> PW_MAX_CARDS"
  shows "net_run ev no_net = Some n \<Longrightarrow> taps_inv af cfg cards lifs0 taps hps n \<Longrightarrow>
    setup_loop answers af max_taps cfg cards lifs taps hps ev = (ok, taps', hps', ev') \<Longrightarrow>
    \<exists>n'. net_run ev' no_net = Some n' \<and> fds_inv taps' n' \<and> length hps' = PW_MAX_CARDS \<and>
      (ok \<longrightarrow> (\<exists>ls. subseq ls (lifs0 @ lifs) \<and> (af \<or> ls = lifs0 @ lifs) \<and> list_all2 (tap_good af cfg cards hps' n') ls taps'))"
proof (induction lifs arbitrary: lifs0 taps hps ev n)
  case Nil
  then show ?case by (auto simp: taps_inv_def)
next
  case (Cons lif lifs)
  obtain fl t1 h1 e1 where turn: "setup_tap (answers ev) af max_taps cfg cards lif taps hps = (fl, t1, h1, e1)"
    using prod_cases4 by blast
  have "fresh_answers n (answers ev)" using assms(1) Cons.prems(1) by (simp add: honest_kernel_def)
  then obtain n1 where n1: "net_run e1 n = Some n1" "turn_ok af cfg cards lifs0 lif (fl, t1, h1) n1"
    using turn_keeps [OF Cons.prems(2) _ assms(2) turn] by blast
  have run: "net_run (ev @ e1) no_net = Some n1" using Cons.prems(1) n1(1) by (simp add: net_run_append)
  show ?case
  proof (cases fl)
    case Go
    then have inv1: "taps_inv af cfg cards (lifs0 @ [lif]) t1 h1 n1" using n1(2) by (simp add: turn_ok_def)
    show ?thesis using Cons.IH [OF run inv1] Cons.prems(3) turn Go by simp
  next
    case Break
    then have "af" "taps_inv af cfg cards lifs0 t1 h1 n1" "ok" "taps' = t1" "hps' = h1" "ev' = ev @ e1"
      using n1(2) Cons.prems(3) turn by (auto simp: turn_ok_def)
    then show ?thesis using run unfolding taps_inv_def by (metis list_emb_append2 append_Nil2 subseq_rev_drop_many)
  next
    case Fail
    then have "\<not> ok" "fds_inv t1 n1" "length h1 = PW_MAX_CARDS" "taps' = t1" "hps' = h1" "ev' = ev @ e1"
      using n1(2) Cons.prems(3) turn by (auto simp: turn_ok_def)
    then show ?thesis using run by auto
  qed
qed

text \<open>The end of a failed set-up.\<close>

lemma close_taps:
  "fds_inv taps n \<Longrightarrow> net_run (concat (map (\<lambda>t. pw_tap_close (th_fd t)) taps)) n = Some no_net"
proof (induction taps arbitrary: n)
  case Nil
  then show ?case by (auto simp: fds_inv_def net_ok_def no_net_def)
next
  case (Cons t taps)
  let ?n = "n\<lparr>nt_fds := remove1 (th_fd t) (nt_fds n), nt_devs := filter (\<lambda>d. nd_fd d \<noteq> th_fd t) (nt_devs n)\<rparr>"
  have n: "net_ok n" "nt_fds n = rev (map th_fd taps) @ [th_fd t]" "\<forall>t \<in> set (t # taps). th_fd t \<ge> 0"
    using Cons.prems by (auto simp: fds_inv_def)
  have t: "th_fd t \<notin> set (map th_fd taps)" using n by (auto simp: net_ok_def)
  have fds: "remove1 (th_fd t) (nt_fds n) = rev (map th_fd taps)" using n t by (simp add: remove1_append)
  have "rev (map th_fd taps) = filter (\<lambda>x. x \<noteq> th_fd t) (nt_fds n)" using n(2) t by (auto simp: filter_id_conv intro!: sym [OF filter_True])
  also have "\<dots> = map nd_fd (filter (\<lambda>d. nd_fd d \<noteq> th_fd t) (nt_devs n))" using n(1) by (simp add: net_ok_def filter_map comp_def)
  finally have "fds_inv taps ?n" using n fds by (auto simp: fds_inv_def net_ok_def intro: distinct_map_filter)
  then have "net_run (concat (map (\<lambda>t. pw_tap_close (th_fd t)) taps)) ?n = Some no_net" by (rule Cons.IH)
  then show ?case using n by (simp add: pw_tap_close_def)
qed

text \<open>A kernel that grants what can be granted.\<close>

definition ctl_grants :: "ctl_answers \<Rightarrow> bool" where
  "ctl_grants a \<longleftrightarrow> ca_sock a \<ge> 0 \<and> ca_flags a \<noteq> None \<and> ca_set a"

definition grants :: "net \<Rightarrow> tap_answers \<Rightarrow> bool" where
  "grants n a \<longleftrightarrow> ta_fd a \<ge> 0 \<and> (\<forall>req. req \<noteq> [] \<and> length req < IFNAMSIZ \<and> req \<notin> nd_name ` set (nt_devs n) \<longrightarrow> ta_iface a req \<noteq> None) \<and>
     ctl_grants (ta_mac a) \<and> ctl_grants (ta_mtu a) \<and> ctl_grants (ta_up a)"

definition granting_kernel :: "(net_event list \<Rightarrow> tap_answers) \<Rightarrow> bool" where
  "granting_kernel answers \<longleftrightarrow> (\<forall>ev n. net_run ev no_net = Some n \<longrightarrow> grants n (answers ev))"

definition planes_fit :: "planes \<Rightarrow> tap_handle list \<Rightarrow> bool" where
  "planes_fit hps taps \<longleftrightarrow> (\<forall>hp. Some hp \<in> set hps \<longrightarrow>
     length (hp_bindings hp) \<le> length taps \<and> hb_logical_if_id ` set (hp_bindings hp) \<subseteq> th_lif_id ` set taps)"

lemma config_granted:
  assumes "ctl_grants (ta_mac a)" "ctl_grants (ta_mtu a)" "ctl_grants (ta_up a)" "nm \<noteq> []" "length nm < IFNAMSIZ"
  shows "fst (tap_config a lif nm)"
proof -
  have "set_ifr_name nm = Inr nm" using assms(4,5) by (simp add: set_ifr_name_def)
  then show ?thesis using assms(1-3)
    by (auto simp: tap_config_def ctl_grants_def pw_tap_set_mac_def pw_tap_set_mtu_def pw_tap_set_up_def Let_def split: option.splits prod.splits if_splits)
qed

lemma bind_granted:
  assumes fit: "planes_fit hps taps" and ci: "ci < length hps" and new: "lif \<notin> th_lif_id ` set taps"
    and room: "length taps < PW_HOST_PLANE_MAX_BINDINGS" and fd: "fd \<ge> 0" and b: "bind_in hps ci lif fd eg = (hp', br)"
    and th: "th_lif_id th = lif"
  shows "br = PW_OK \<and> planes_fit (hps[ci := Some hp']) (taps @ [th])"
proof -
  define hp where "hp = (case hps ! ci of None \<Rightarrow> pw_host_plane_init | Some hp \<Rightarrow> hp)"
  have hp: "length (hp_bindings hp) \<le> length taps" "hb_logical_if_id ` set (hp_bindings hp) \<subseteq> th_lif_id ` set taps"
    using fit nth_mem [OF ci] unfolding planes_fit_def hp_def
    by (cases "hps ! ci"; force simp: pw_host_plane_init_def)+
  then have "find_binding hp lif = None" using new by (auto simp: find_binding_None)
  then have br: "br = PW_OK" "hp_bindings hp' = hp_bindings hp @ [\<lparr>hb_logical_if_id = lif, hb_fd = fd, hb_egress_local_port = eg\<rparr>]"
    using b hp(1) room fd unfolding bind_in_def hp_def [symmetric] by (auto simp: pw_host_plane_bind_def split: if_splits)
  moreover have "length (hp_bindings x) \<le> length (taps @ [th]) \<and> hb_logical_if_id ` set (hp_bindings x) \<subseteq> th_lif_id ` set (taps @ [th])"
    if "Some x \<in> set (hps[ci := Some hp'])" for x
  proof -
    have "x = hp' \<or> Some x \<in> set hps" using that set_update_subset_insert [of hps ci "Some hp'"] by auto
    then show ?thesis
    proof
      assume "x = hp'"
      then show ?thesis using br(2) hp th by auto
    next
      assume "Some x \<in> set hps"
      then have "length (hp_bindings x) \<le> length taps" "hb_logical_if_id ` set (hp_bindings x) \<subseteq> th_lif_id ` set taps"
        using fit unfolding planes_fit_def by blast+
      then show ?thesis by auto
    qed
  qed
  ultimately show ?thesis unfolding planes_fit_def by blast
qed

text \<open>One turn then binds the interface under its own name.\<close>

lemma turn_granted:
  assumes inv: "fds_inv taps n" and a: "fresh_answers n a" "grants n a" and len: "length hps = PW_MAX_CARDS" and fit: "planes_fit hps taps"
    and card: "backend_for_lif cfg cards lif = Some (ci, eg)" "ci < PW_MAX_CARDS"
    and room: "length taps < max_taps" "max_taps \<le> PW_HOST_PLANE_MAX_BINDINGS" and new: "lif_id lif \<notin> th_lif_id ` set taps"
    and nm: "lif_name lif \<noteq> []" "CHR ''%'' \<notin> set (lif_name lif)" "length (lif_name lif) < IFNAMSIZ" "lif_name lif \<notin> nd_name ` set (nt_devs n)"
  shows "\<exists>th hps' ev. setup_tap a af max_taps cfg cards lif taps hps = (Go, taps @ [th], hps', ev) \<and> th_lif_id th = lif_id lif \<and>
    th_name th = lif_name lif \<and> planes_fit hps' (taps @ [th])"
proof -
  let ?th = "\<lparr>th_fd = ta_fd a, th_lif_id = lif_id lif, th_name = lif_name lif\<rparr>"
  have fd: "ta_fd a \<ge> 0" using a(2) by (simp add: grants_def)
  have tk: "take (IFNAMSIZ - 1) (lif_name lif) = lif_name lif" "take (PW_TAP_IFNAME_MAX - 1) (lif_name lif) = lif_name lif"
    using nm(3) by (simp_all add: IFNAMSIZ_def PW_TAP_IFNAME_MAX_def)
  obtain given where "ta_iface a (lif_name lif) = Some given" using a(2) nm unfolding grants_def by blast
  then have "ta_iface a (lif_name lif) = Some (lif_name lif)" using a(1) nm unfolding fresh_answers_def by blast
  then obtain ev1 where op: "pw_tap_open (ta_fd a) (ta_iface a) (Some (lif_name lif)) = (Inr (ta_fd a, lif_name lif), ev1)"
    using fd nm(3) tk by (auto simp: pw_tap_open_def Let_def)
  obtain ok ev2 where c: "tap_config a lif (lif_name lif) = (ok, ev2)" by fastforce
  then have ok: "ok" using config_granted [of a "lif_name lif" lif] a(2) nm by (simp add: grants_def)
  obtain hp' br where b: "bind_in hps ci (lif_id lif) (ta_fd a) eg = (hp', br)" by fastforce
  have br: "br = PW_OK" "planes_fit (hps[ci := Some hp']) (taps @ [?th])"
    using bind_granted [OF fit _ new _ fd b, of ?th] room len card(2) by auto
  have "setup_tap a af max_taps cfg cards lif taps hps = (Go, taps @ [?th], hps[ci := Some hp'], ev1 @ ev2)"
    using room(1) card(2) ok br(1) nm(3)
    by (simp add: setup_tap_def card(1) op c Let_def bind_in_def [symmetric] b IFNAMSIZ_def PW_TAP_IFNAME_MAX_def)
  then show ?thesis using br(2) by auto
qed

lemma card_of_lif:
  assumes "resolve_port (cfg_cards cfg) (lif_global_port lif) \<noteq> None" "\<forall>ci < length (cfg_cards cfg). card_open cards ci"
  shows "\<exists>ci eg. backend_for_lif cfg cards lif = Some (ci, eg) \<and> ci < length (cfg_cards cfg)"
proof -
  obtain ref where ref: "resolve_port (cfg_cards cfg) (lif_global_port lif) = Some ref" using assms(1) by blast
  then obtain ci where ci: "ci < length (cfg_cards cfg)" "card_id (cfg_cards cfg ! ci) = ref_card_id ref"
    using resolve_port_card_known [OF ref] by (metis imageE in_set_conv_nth)
  then have "find (\<lambda>i. card_id (cfg_cards cfg ! i) = ref_card_id ref \<and> card_open cards i) [0..<length (cfg_cards cfg)] \<noteq> None"
    using assms(2) by (auto simp: find_None_iff)
  then show ?thesis using ref
    by (auto simp: backend_for_lif_def pw_config_resolve_port_def or_fail_def find_Some_iff)
qed

lemma devs_named:
  assumes "taps_inv af cfg cards lifs taps hps n"
  shows "nd_name ` set (nt_devs n) \<subseteq> th_name ` set taps"
proof
  obtain ls where ls: "list_all2 (tap_good af cfg cards hps n) ls taps" using assms unfolding taps_inv_def by blast
  have n: "nt_fds n = map nd_fd (nt_devs n)" "distinct (nt_fds n)" "nt_fds n = rev (map th_fd taps)"
    using assms by (auto simp: taps_inv_def fds_inv_def net_ok_def)
  fix nm assume "nm \<in> nd_name ` set (nt_devs n)"
  then obtain d where d: "d \<in> set (nt_devs n)" "nm = nd_name d" by blast
  have "nd_fd d \<in> set (nt_fds n)" using d n(1) by simp
  then obtain t where t: "t \<in> set taps" "nd_fd d = th_fd t" using n(3) by auto
  then obtain lif where "tap_good af cfg cards hps n lif t" using ls by (metis in_set_conv_nth list_all2_conv_all_nth)
  then obtain d' where d': "d' \<in> set (nt_devs n)" "nd_fd d' = th_fd t" "nd_name d' = th_name t"
    unfolding tap_good_def tap_device_def by blast
  have "d' = d" using n(1,2) d(1) d' t(2) by (metis distinct_map inj_onD)
  then show "nm \<in> th_name ` set taps" using d(2) d'(3) t(1) by blast
qed

lemma loop_granted:
  assumes kernel: "honest_kernel answers" "granting_kernel answers" and cards: "length (cfg_cards cfg) \<le> PW_MAX_CARDS"
    and open_: "\<forall>ci < length (cfg_cards cfg). card_open cards ci" and lifs: "valid_lifs (cfg_cards cfg) all_lifs"
    and names: "\<forall>lif \<in> set all_lifs. lif_name lif \<noteq> [] \<and> CHR ''%'' \<notin> set (lif_name lif)"
    and room: "length all_lifs \<le> max_taps" "max_taps \<le> PW_HOST_PLANE_MAX_BINDINGS"
  shows "net_run ev no_net = Some n \<Longrightarrow> taps_inv af cfg cards lifs0 taps hps n \<Longrightarrow> planes_fit hps taps \<Longrightarrow>
    map th_lif_id taps = map lif_id lifs0 \<Longrightarrow> map th_name taps = map lif_name lifs0 \<Longrightarrow> lifs0 @ lifs = all_lifs \<Longrightarrow>
    fst (setup_loop answers af max_taps cfg cards lifs taps hps ev)"
proof (induction lifs arbitrary: lifs0 taps hps ev n)
  case Nil
  show ?case by simp
next
  case (Cons lif lifs)
  have a: "fresh_answers n (answers ev)" "grants n (answers ev)"
    using kernel Cons.prems(1) unfolding honest_kernel_def granting_kernel_def by blast+
  have lif: "lif \<in> set all_lifs" using Cons.prems(6) by auto
  obtain ci eg where card: "backend_for_lif cfg cards lif = Some (ci, eg)" "ci < PW_MAX_CARDS"
    using card_of_lif [OF _ open_] lifs lif cards unfolding valid_lifs_def by fastforce
  have "length taps = length lifs0" using Cons.prems(4) by (metis length_map)
  then have taps: "length taps < max_taps" using room(1) Cons.prems(6) by auto
  have new: "lif_id lif \<notin> th_lif_id ` set taps"
    using lifs Cons.prems(4,6) unfolding valid_lifs_def by (metis distinct_append list.set_intros(1) list.set_map list.simps(9) map_append disjoint_iff)
  have nm: "lif_name lif \<notin> nd_name ` set (nt_devs n)"
  proof -
    have "th_name ` set taps = lif_name ` set lifs0" using Cons.prems(5) by (metis set_map)
    then show ?thesis using lifs Cons.prems(6) devs_named [OF Cons.prems(2)] unfolding valid_lifs_def by auto
  qed
  have len: "length (lif_name lif) < IFNAMSIZ"
    using lifs lif unfolding valid_lifs_def by (auto simp: IFNAMSIZ_def PW_TAP_IFNAME_MAX_def)
  have fds: "fds_inv taps n" "length hps = PW_MAX_CARDS" using Cons.prems(2) by (simp_all add: taps_inv_def)
  obtain th hps' ev1 where turn: "setup_tap (answers ev) af max_taps cfg cards lif taps hps = (Go, taps @ [th], hps', ev1)"
    and th: "th_lif_id th = lif_id lif" "th_name th = lif_name lif" and fit: "planes_fit hps' (taps @ [th])"
    using turn_granted [OF fds(1) a fds(2) Cons.prems(3) card taps room(2) new _ _ len nm] names lif by blast
  obtain n1 where n1: "net_run ev1 n = Some n1" "taps_inv af cfg cards (lifs0 @ [lif]) (taps @ [th]) hps' n1"
    using turn_keeps [OF Cons.prems(2) a(1) cards turn] by (auto simp: turn_ok_def)
  have run: "net_run (ev @ ev1) no_net = Some n1" using Cons.prems(1) n1(1) by (simp add: net_run_append)
  have "fst (setup_loop answers af max_taps cfg cards lifs (taps @ [th]) hps' (ev @ ev1))"
    by (rule Cons.IH [OF run n1(2) fit]) (use th Cons.prems(4-6) in simp_all)
  then show ?case using turn by simp
qed

text \<open>
  C35. The TAPs of the daemon, for every kernel that hands out fresh descriptors and free names. Where the set-up fails,
  every descriptor has been closed, every interface it created is gone and no host plane is left. Where it succeeds,
  the open descriptors are exactly those of the TAPs, no interface but its own was configured, and each TAP serves a
  logical interface, in their order: it carries its name, unless that is a pattern, and is bound on the card of the
  interface's port with that port as its exit; without the option for missing hardware, every logical interface has its
  TAP, with its MAC and MTU, and up. And it does succeed on a valid configuration with at most 32 interfaces, all cards
  open and a kernel that grants the requests.
\<close>
theorem taps_exact:
  assumes "honest_kernel answers" and "length (cfg_cards cfg) \<le> PW_MAX_CARDS"
    and "setup_taps answers allow_fake PW_HOST_PLANE_MAX_BINDINGS cfg cards = (r, hps, ev)"
  shows "\<exists>n. net_run ev no_net = Some n \<and>
    (case r of None \<Rightarrow> n = no_net \<and> (\<forall>ci < length (cfg_cards cfg). hps ! ci = None)
     | Some taps \<Rightarrow> distinct (nt_fds n) \<and> set (nt_fds n) = th_fd ` set taps \<and>
         (\<exists>ls. subseq ls (cfg_logical_if cfg) \<and> (allow_fake \<or> ls = cfg_logical_if cfg) \<and>
            list_all2 (tap_good allow_fake cfg cards hps n) ls taps)) \<and>
    (granting_kernel answers \<and> valid_lifs (cfg_cards cfg) (cfg_logical_if cfg) \<and>
       (\<forall>lif \<in> set (cfg_logical_if cfg). lif_name lif \<noteq> [] \<and> CHR ''%'' \<notin> set (lif_name lif)) \<and>
       (\<forall>ci < length (cfg_cards cfg). card_open cards ci) \<and> length (cfg_logical_if cfg) \<le> PW_HOST_PLANE_MAX_BINDINGS
     \<longrightarrow> r \<noteq> None)"
proof -
  let ?start = "replicate PW_MAX_CARDS None :: planes"
  obtain ok taps' hps' ev' where loop:
    "setup_loop answers allow_fake PW_HOST_PLANE_MAX_BINDINGS cfg cards (cfg_logical_if cfg) [] ?start [] = (ok, taps', hps', ev')"
    using prod_cases4 by blast
  have inv: "taps_inv allow_fake cfg cards [] [] ?start no_net" by (simp add: taps_inv_def fds_inv_def net_ok_def no_net_def)
  obtain n where n: "net_run ev' no_net = Some n" "fds_inv taps' n" "length hps' = PW_MAX_CARDS"
    "ok \<longrightarrow> (\<exists>ls. subseq ls (cfg_logical_if cfg) \<and> (allow_fake \<or> ls = cfg_logical_if cfg) \<and>
       list_all2 (tap_good allow_fake cfg cards hps' n) ls taps')"
    using loop_keeps [OF assms(1,2) _ inv loop] by auto
  have r: "ok \<Longrightarrow> r = Some taps' \<and> hps = hps' \<and> ev = ev'"
    "\<not> ok \<Longrightarrow> r = None \<and> hps = replicate (min (length (cfg_cards cfg)) PW_MAX_CARDS) None @ drop (length (cfg_cards cfg)) hps' \<and>
       ev = ev' @ concat (map (\<lambda>t. pw_tap_close (th_fd t)) taps')"
    using assms(3) loop by (auto simp: setup_taps_def split: bool.splits)
  have grant: "ok" if "granting_kernel answers" "valid_lifs (cfg_cards cfg) (cfg_logical_if cfg)"
    "\<forall>lif \<in> set (cfg_logical_if cfg). lif_name lif \<noteq> [] \<and> CHR ''%'' \<notin> set (lif_name lif)"
    "\<forall>ci < length (cfg_cards cfg). card_open cards ci" "length (cfg_logical_if cfg) \<le> PW_HOST_PLANE_MAX_BINDINGS"
    using loop_granted [OF assms(1) that(1) assms(2) that(4,2,3,5) order_refl _ inv, of "[]"] loop by (simp add: planes_fit_def)
  show ?thesis
  proof (cases ok)
    case True
    have "distinct (nt_fds n)" using n(2) unfolding fds_inv_def net_ok_def by blast
    moreover have "set (nt_fds n) = th_fd ` set taps'" using n(2) by (auto simp: fds_inv_def)
    ultimately show ?thesis using True r(1) n by (intro exI [of _ n]) simp
  next
    case False
    have "net_run ev no_net = Some no_net" using r(2) [OF False] n(1) close_taps [OF n(2)] by (simp add: net_run_append)
    moreover have "hps ! ci = None" if "ci < length (cfg_cards cfg)" for ci
      using r(2) [OF False] that assms(2) by (simp add: nth_append min_absorb1)
    ultimately show ?thesis using r(2) [OF False] grant False by (intro exI [of _ no_net]) auto
  qed
qed

section \<open>Two interfaces of a card\<close>

definition ex_lif :: "u32 \<Rightarrow> string \<Rightarrow> u16 \<Rightarrow> pw_logical_if" where
  "ex_lif i name gp = \<lparr>lif_id = i, lif_name = name, lif_global_port = gp, lif_vlan = 0, lif_mac = [2, 0, 0, 0, 0, ucast i], lif_mtu = 9000,
     lif_netns = [], lif_punt = zero_punt\<rparr>"

definition ex_tap_config :: pw_config where
  "ex_tap_config = pw_config_new\<lparr>cfg_cards := [\<lparr>card_id = 3, card_name = ''c3'', card_pci = ''0000:03:00.0'',
       card_ports = [\<lparr>cport_local_port = 0, cport_global_port = 0, cport_name = []\<rparr>, \<lparr>cport_local_port = 1, cport_global_port = 1, cport_name = []\<rparr>]\<rparr>],
     cfg_logical_if := [ex_lif 100 ''pw-p0'' 0, ex_lif 101 ''pw-p1'' 1]\<rparr>"

definition ex_tap_cards :: "unit card_runtime list" where
  "ex_tap_cards = [opened ''bar'' (Inr (\<lparr>op_write32 = None, op_card_info = None, op_flow_write = None, op_flow_commit = None\<rparr>, None))]"

definition ex_ctl :: "int \<Rightarrow> ctl_answers" where
  "ex_ctl fd = \<lparr>ca_sock = fd, ca_flags = Some 0x1002, ca_set = True\<rparr>"

definition ex_net :: "net \<Rightarrow> tap_answers" where
  "ex_net n = (let fd = foldr max (nt_fds n) 2 + 1 in
     \<lparr>ta_fd = fd, ta_iface = (\<lambda>req. if req = [] \<or> length req \<ge> IFNAMSIZ \<or> req \<in> nd_name ` set (nt_devs n) then None else Some req),
      ta_mac = ex_ctl (fd + 1), ta_mtu = ex_ctl (fd + 1), ta_up = ex_ctl (fd + 1)\<rparr>)"

definition ex_tap_kernel :: "net_event list \<Rightarrow> tap_answers" where
  "ex_tap_kernel ev = (case net_run ev no_net of None \<Rightarrow> ex_net no_net | Some n \<Rightarrow> ex_net n)"

lemma foldr_max: "(x :: int) \<in> set xs \<Longrightarrow> x \<le> foldr max xs m" and foldr_max_ge: "m \<le> foldr max xs m"
  by (induction xs) auto

lemma ex_net_fresh: "fresh_answers n (ex_net n)" and ex_net_grants: "grants n (ex_net n)"
proof -
  have new: "foldr max (nt_fds n) 2 + k \<notin> set (nt_fds n)" if "k > 0" for k using foldr_max [of _ "nt_fds n" 2] that by fastforce
  show "fresh_answers n (ex_net n)"
    using new [of 1] new [of 2] by (auto simp: fresh_answers_def ex_net_def Let_def fresh_sock_def ex_ctl_def add.assoc split: if_splits)
  show "grants n (ex_net n)"
    using foldr_max_ge [of 2 "nt_fds n"] by (auto simp: grants_def ex_net_def Let_def ctl_grants_def ex_ctl_def)
qed

lemma ex_tap_kernel_ok: "honest_kernel ex_tap_kernel" "granting_kernel ex_tap_kernel"
  by (simp_all add: honest_kernel_def granting_kernel_def ex_tap_kernel_def ex_net_fresh ex_net_grants)

theorem taps_exact_witness:
  "\<exists>taps hps ev n. setup_taps ex_tap_kernel False PW_HOST_PLANE_MAX_BINDINGS ex_tap_config ex_tap_cards = (Some taps, hps, ev) \<and>
     net_run ev no_net = Some n \<and> list_all2 (tap_good False ex_tap_config ex_tap_cards hps n) (cfg_logical_if ex_tap_config) taps"
proof -
  obtain r hps ev where s: "setup_taps ex_tap_kernel False PW_HOST_PLANE_MAX_BINDINGS ex_tap_config ex_tap_cards = (r, hps, ev)"
    using prod_cases3 by blast
  have lifs: "valid_lifs (cfg_cards ex_tap_config) (cfg_logical_if ex_tap_config)"
    "\<forall>lif \<in> set (cfg_logical_if ex_tap_config). lif_name lif \<noteq> [] \<and> CHR ''%'' \<notin> set (lif_name lif)"
    "\<forall>ci < length (cfg_cards ex_tap_config). card_open ex_tap_cards ci"
    "length (cfg_logical_if ex_tap_config) \<le> PW_HOST_PLANE_MAX_BINDINGS" "length (cfg_cards ex_tap_config) \<le> PW_MAX_CARDS"
    by code_simp+
  show ?thesis using taps_exact [OF ex_tap_kernel_ok(1) lifs(5) s] ex_tap_kernel_ok(2) lifs(1-4) s by auto
qed
end
