(* ===== verification/PW_Vfio.thy ===== *)
theory PW_Vfio
  imports PW_Pci
begin

text \<open>
  VFIO, \<^verbatim>\<open>vfio.c\<close>: the registry of IOMMU groups that the cards of a host share, the mapping of BARs and of DMA
  buffers, and the binding of a device to the driver. What the kernel answers to a call is an argument; the calls that
  create, use and release its objects are recorded in their order.
\<close>

section \<open>The registry\<close>

definition PW_VFIO_MAX_GROUPS :: nat where "PW_VFIO_MAX_GROUPS = 16"

record vfio_group_slot =
  vs_group_no :: int
  vs_group_fd :: int
  vs_container_fd :: int
  vs_iova_next :: u64
  vs_refcount :: int

type_synonym registry = "vfio_group_slot list"

definition empty_registry :: registry where
  "empty_registry = replicate PW_VFIO_MAX_GROUPS
     \<lparr>vs_group_no = - 1, vs_group_fd = 0, vs_container_fd = 0, vs_iova_next = 0, vs_refcount = 0\<rparr>"

definition vfio_group_find :: "registry \<Rightarrow> int \<Rightarrow> nat option" where
  "vfio_group_find reg no = find_idx (\<lambda>g. vs_refcount g > 0 \<and> vs_group_no g = no) reg"

definition vfio_group_free_slot :: "registry \<Rightarrow> nat option" where
  "vfio_group_free_slot reg = find_idx (\<lambda>g. vs_refcount g = 0) reg"

section \<open>Files of the kernel\<close>

definition sysfs_device :: "string \<Rightarrow> string \<Rightarrow> string" where
  "sysfs_device bdf leaf = ''/sys/bus/pci/devices/'' @ bdf @ ''/'' @ leaf"

text \<open>What follows the last slash.\<close>

definition base_name :: "string \<Rightarrow> string" where
  "base_name t = rev (takeWhile (\<lambda>c. c \<noteq> CHR ''/'') (rev t))"

text \<open>\<open>%d\<close> of \<open>sscanf\<close> on a number of an \<open>int\<close>.\<close>

definition scan_dec :: "string \<Rightarrow> int option" where
  "scan_dec s =
     (let (neg, t) = opt_sign (dropWhile is_space s) in
      if \<not> starts_digit 10 t then None
      else let n = fst (run_of_digits 10 0 t) in Some (if neg then - int n else int n))"

definition iommu_group_of :: "(string \<Rightarrow> string option) \<Rightarrow> string \<Rightarrow> int" where
  "iommu_group_of links bdf =
     (case links (sysfs_device bdf ''iommu_group'') of None \<Rightarrow> - 1
      | Some target \<Rightarrow> (case scan_dec (base_name (take 255 target)) of None \<Rightarrow> - 1 | Some g \<Rightarrow> g))"

text \<open>
  \<open>pw_vfio_prep_device\<close>: the writes it makes. Whether the power file opens, and the command register when it can be read.
\<close>

definition pw_vfio_prep_device :: "bool \<Rightarrow> u16 option \<Rightarrow> string \<Rightarrow> (string \<times> bytes) list" where
  "pw_vfio_prep_device pm cmd bdf =
     (if pm then [(take 159 (sysfs_device bdf ''power/control''), [0x6F, 0x6E])] else []) @
     (case cmd of None \<Rightarrow> []
      | Some c \<Rightarrow> let want = c OR 6 in if want = c then [] else [(take 159 (sysfs_device bdf ''config''), le16_bytes want)])"

section \<open>Handles\<close>

record pw_vfio_handle =
  vh_container_fd :: int
  vh_group_fd :: int
  vh_device_fd :: int
  vh_base :: u64
  vh_size :: u64
  vh_grp_slot :: u64

definition no_handle :: pw_vfio_handle where
  "no_handle = \<lparr>vh_container_fd = - 1, vh_group_fd = - 1, vh_device_fd = - 1, vh_base = 0, vh_size = 0, vh_grp_slot = 0\<rparr>"

text \<open>What the kernel is asked to create, use and release.\<close>

datatype vfio_event =
  Opened int | Opened_group int int | Got_device int int | Closed int
| Mapped int u64 u64 | Unmapped int u64 u64 | Munmapped u64 u64 | Wrote string bytes

text \<open>\<open>pw_vfio_close\<close>: the registry, the handle and the calls.\<close>

definition slot_of :: "pw_vfio_handle \<Rightarrow> nat option" where
  "slot_of h = (let s = unat (vh_grp_slot h) in if s \<noteq> 0 \<and> s \<le> PW_VFIO_MAX_GROUPS then Some (s - 1) else None)"

definition close_if :: "int \<Rightarrow> vfio_event list" where
  "close_if fd = (if fd \<ge> 0 then [Closed fd] else [])"

definition release_slot :: "registry \<Rightarrow> nat \<Rightarrow> registry \<times> vfio_event list" where
  "release_slot reg i =
     (let g = reg ! i in
      if vs_refcount g > 0
      then if vs_refcount g - 1 = 0
           then (reg[i := \<lparr>vs_group_no = - 1, vs_group_fd = - 1, vs_container_fd = - 1, vs_iova_next = 0, vs_refcount = 0\<rparr>],
                 close_if (vs_group_fd g) @ close_if (vs_container_fd g))
           else (reg[i := g\<lparr>vs_refcount := vs_refcount g - 1\<rparr>], [])
      else (reg, []))"

definition pw_vfio_close :: "registry \<Rightarrow> pw_vfio_handle \<Rightarrow> registry \<times> pw_vfio_handle \<times> vfio_event list" where
  "pw_vfio_close reg h =
     (let unmap = (if vh_base h \<noteq> 0 \<and> vh_base h \<noteq> - 1 then [Munmapped (vh_base h) (vh_size h)] else []);
          (reg', ev) = (case slot_of h of None \<Rightarrow> (reg, []) | Some i \<Rightarrow> release_slot reg i)
      in (reg', no_handle, unmap @ close_if (vh_device_fd h) @ ev))"

section \<open>Opening\<close>

text \<open>
  What the kernel answers while a BAR is opened: the links of sysfs, the power file and the command register; the
  container, whether its version fits, the group, whether it is viable, whether container and IOMMU can be set; the
  device; its region, as size and whether it can be mapped; and the address of the mapping.
\<close>

record open_answers =
  oa_links :: "string \<Rightarrow> string option"
  oa_power :: bool
  oa_command :: "u16 option"
  oa_container :: int
  oa_version :: bool
  oa_group :: int
  oa_viable :: bool
  oa_set_container :: bool
  oa_set_iommu :: bool
  oa_device :: int
  oa_region :: "(u64 \<times> bool) option"
  oa_mmap :: "u64 option"

text \<open>A group that is open already, or one opened into a free slot.\<close>

definition open_group :: "open_answers \<Rightarrow> int \<Rightarrow> registry \<Rightarrow> (pw_status + registry \<times> nat) \<times> vfio_event list" where
  "open_group oa grp reg =
     (case vfio_group_find reg grp of Some gi \<Rightarrow> (Inr (reg, gi), [])
      | None \<Rightarrow>
          (case vfio_group_free_slot reg of None \<Rightarrow> (Inl PW_E_NO_RESOURCES, [])
           | Some gi \<Rightarrow>
               let c = oa_container oa; g = oa_group oa in
               if c < 0 then (Inl PW_E_IO, [])
               else if \<not> oa_version oa then (Inl PW_E_BACKEND, [Opened c, Closed c])
               else if g < 0 then (Inl PW_E_IO, [Opened c, Closed c])
               else if \<not> oa_viable oa then (Inl PW_E_IO, [Opened c, Opened_group g grp, Closed g, Closed c])
               else if \<not> oa_set_container oa \<or> \<not> oa_set_iommu oa
               then (Inl PW_E_IO, [Opened c, Opened_group g grp, Closed g, Closed c])
               else (Inr (reg[gi := \<lparr>vs_group_no = grp, vs_group_fd = g, vs_container_fd = c, vs_iova_next = 0, vs_refcount = 0\<rparr>], gi),
                     [Opened c, Opened_group g grp])))"

text \<open>The device of a group that is held, its region and the mapping; what is held is released where that fails.\<close>

definition open_device :: "open_answers \<Rightarrow> registry \<Rightarrow> nat \<Rightarrow> pw_status \<times> registry \<times> pw_vfio_handle \<times> vfio_event list" where
  "open_device oa reg gi =
     (let g = reg ! gi; d = oa_device oa in
      if d < 0
      then if vs_refcount g = 0
           then (PW_E_IO, reg[gi := g\<lparr>vs_group_no := - 1\<rparr>], no_handle, [Closed (vs_group_fd g), Closed (vs_container_fd g)])
           else (PW_E_IO, reg, no_handle, [])
      else let reg = reg[gi := g\<lparr>vs_refcount := vs_refcount g + 1\<rparr>];
               h = \<lparr>vh_container_fd = vs_container_fd g, vh_group_fd = vs_group_fd g, vh_device_fd = d, vh_base = 0,
                    vh_size = 0, vh_grp_slot = of_nat (gi + 1)\<rparr>;
               got = Got_device d (vs_group_fd g);
               fail = (\<lambda>st. let (reg', h', ev) = pw_vfio_close reg h in (st, reg', h', got # ev))
           in case oa_region oa of None \<Rightarrow> fail PW_E_IO
              | Some (sz, mappable) \<Rightarrow>
                  if sz = 0 \<or> \<not> mappable then fail PW_E_BACKEND
                  else (case oa_mmap oa of None \<Rightarrow> fail PW_E_IO
                        | Some p \<Rightarrow> (PW_OK, reg, h\<lparr>vh_base := p, vh_size := sz\<rparr>, [got])))"

definition pw_vfio_open_bar ::
  "open_answers \<Rightarrow> string option \<Rightarrow> int \<Rightarrow> registry \<Rightarrow> pw_status \<times> registry \<times> pw_vfio_handle \<times> vfio_event list" where
  "pw_vfio_open_bar oa bdf_in bar reg =
     (if bdf_in = None \<or> bar < 0 \<or> bar > 5 then (PW_E_INVAL, reg, no_handle, [])
      else case pw_pci_normalize_bdf bdf_in of Inl _ \<Rightarrow> (PW_E_INVAL, reg, no_handle, [])
      | Inr bdf \<Rightarrow>
          let prep = map (\<lambda>(p, v). Wrote p v) (pw_vfio_prep_device (oa_power oa) (oa_command oa) bdf);
              grp = iommu_group_of (oa_links oa) bdf in
          if grp < 0 then (PW_E_IO, reg, no_handle, prep)
          else case open_group oa grp reg of (Inl st, ev) \<Rightarrow> (st, reg, no_handle, prep @ ev)
          | (Inr (reg, gi), ev) \<Rightarrow> let (st, reg', h, ev') = open_device oa reg gi in (st, reg', h, prep @ ev @ ev'))"

section \<open>DMA\<close>

definition PW_VFIO_IOVA_BASE :: u64 where "PW_VFIO_IOVA_BASE = 0x100000000"

text \<open>The page size as \<open>sysconf\<close> reports it, and whether the kernel accepts the mapping.\<close>

definition pw_vfio_map_dma ::
  "int \<Rightarrow> bool \<Rightarrow> registry \<Rightarrow> pw_vfio_handle \<Rightarrow> u64 \<Rightarrow> u64 \<Rightarrow> (pw_status + u64) \<times> registry \<times> vfio_event list" where
  "pw_vfio_map_dma ps ok reg h vaddr len =
     (if vh_container_fd h < 0 \<or> vaddr = 0 \<or> len = 0 then (Inl PW_E_INVAL, reg, [])
      else if ps > 0 \<and> (vaddr mod of_int ps \<noteq> 0 \<or> len mod of_int ps \<noteq> 0) then (Inl PW_E_INVAL, reg, [])
      else case slot_of h of None \<Rightarrow> (Inl PW_E_INVAL, reg, [])
      | Some i \<Rightarrow>
          let g = reg ! i; iova = (if vs_iova_next g = 0 then PW_VFIO_IOVA_BASE else vs_iova_next g);
              reg = reg[i := g\<lparr>vs_iova_next := iova\<rparr>] in
          if iova > - 1 - len then (Inl PW_E_INVAL, reg, [])
          else if \<not> ok then (Inl PW_E_IO, reg, [])
          else (Inr iova, reg[i := g\<lparr>vs_iova_next := iova + len\<rparr>], [Mapped (vh_container_fd h) iova len]))"

definition pw_vfio_unmap_dma :: "bool \<Rightarrow> pw_vfio_handle \<Rightarrow> u64 \<Rightarrow> u64 \<Rightarrow> pw_status \<times> vfio_event list" where
  "pw_vfio_unmap_dma ok h iova len =
     (if vh_container_fd h < 0 \<or> len = 0 then (PW_E_INVAL, [])
      else if \<not> ok then (PW_E_IO, []) else (PW_OK, [Unmapped (vh_container_fd h) iova len]))"

definition pw_vfio_map_region ::
  "(u64 \<times> bool) option \<Rightarrow> u64 option \<Rightarrow> pw_vfio_handle \<Rightarrow> int \<Rightarrow> pw_status + u64 \<times> u64" where
  "pw_vfio_map_region region mmap h bar =
     (if vh_device_fd h < 0 \<or> bar < 0 \<or> bar > 5 then Inl PW_E_INVAL
      else case region of None \<Rightarrow> Inl PW_E_IO
      | Some (sz, mappable) \<Rightarrow>
          if sz = 0 \<or> \<not> mappable then Inl PW_E_BACKEND
          else (case mmap of None \<Rightarrow> Inl PW_E_IO | Some p \<Rightarrow> Inr (p, sz)))"

section \<open>Binding\<close>

text \<open>Which writes succeed is an argument; the result and the writes that were tried.\<close>

definition current_driver :: "(string \<Rightarrow> string option) \<Rightarrow> string \<Rightarrow> string option" where
  "current_driver links bdf = map_option (\<lambda>t. base_name (take 255 t)) (links (take 255 (sysfs_device bdf ''driver'')))"

definition pw_vfio_bind ::
  "(string \<Rightarrow> string option) \<Rightarrow> (string \<Rightarrow> string \<Rightarrow> bool) \<Rightarrow> string option \<Rightarrow> pw_status \<times> (string \<times> string) list" where
  "pw_vfio_bind links write_str bdf_in =
     (case bdf_in of None \<Rightarrow> (PW_E_INVAL, [])
      | Some bdf \<Rightarrow>
          let unbind = take 127 (sysfs_device bdf ''driver/unbind''); ovr = take 127 (sysfs_device bdf ''driver_override'');
              bind = ''/sys/bus/pci/drivers/vfio-pci/bind'';
              override = (\<lambda>ws. if \<not> write_str ovr ''vfio-pci'' then (PW_E_IO, ws @ [(ovr, ''vfio-pci'')])
                 else (if write_str bind bdf then PW_OK else PW_E_IO, ws @ [(ovr, ''vfio-pci''), (bind, bdf)]))
          in case current_driver links bdf of
               None \<Rightarrow> override []
             | Some drv \<Rightarrow>
                 if drv = ''vfio-pci'' then (PW_OK, [])
                 else if \<not> write_str unbind bdf then (PW_E_IO, [(unbind, bdf)])
                 else override [(unbind, bdf)])"

text \<open>The device is bound when it was already, or when it was unbound from its driver, overridden and bound in this order.\<close>

lemma bind_order:
  assumes "pw_vfio_bind links write_str (Some bdf) = (PW_OK, ws)"
  shows "current_driver links bdf = Some ''vfio-pci'' \<and> ws = [] \<or>
    (\<forall>(p, v) \<in> set ws. write_str p v) \<and> (\<exists>ovr. drop (length ws - 2) ws = [(ovr, ''vfio-pci''), (''/sys/bus/pci/drivers/vfio-pci/bind'', bdf)]) \<and>
    (length ws = 3 \<longleftrightarrow> current_driver links bdf \<noteq> None)"
  using assms by (auto simp: pw_vfio_bind_def Let_def split: option.splits if_splits)

section \<open>The kernel's side\<close>

text \<open>
  What the kernel holds for the process: its descriptors, the groups among them, and the DMA mappings of a container. A
  call is refused (\<open>None\<close>) where the kernel would fail it or the program would harm another object of its own: a
  descriptor that is not open is closed or used, a group is opened a second time, a mapping overlaps another one of
  its container.
\<close>

record kernel =
  k_fds :: "int list"
  k_groups :: "(int \<times> int) list"
  k_maps :: "(int \<times> nat \<times> nat) list"

definition overlaps :: "nat \<Rightarrow> nat \<Rightarrow> nat \<Rightarrow> nat \<Rightarrow> bool" where
  "overlaps a la b lb \<longleftrightarrow> a < b + lb \<and> b < a + la"

fun kernel_do :: "vfio_event \<Rightarrow> kernel \<Rightarrow> kernel option" where
  "kernel_do (Opened fd) k = (if fd \<in> set (k_fds k) then None else Some (k\<lparr>k_fds := fd # k_fds k\<rparr>))"
| "kernel_do (Opened_group fd no) k =
     (if fd \<in> set (k_fds k) \<or> no \<in> snd ` set (k_groups k) then None
      else Some (k\<lparr>k_fds := fd # k_fds k, k_groups := (fd, no) # k_groups k\<rparr>))"
| "kernel_do (Got_device fd g) k =
     (if fd \<in> set (k_fds k) \<or> g \<notin> set (k_fds k) then None else Some (k\<lparr>k_fds := fd # k_fds k\<rparr>))"
| "kernel_do (Closed fd) k =
     (if fd \<notin> set (k_fds k) then None
      else Some (k\<lparr>k_fds := remove1 fd (k_fds k), k_groups := filter (\<lambda>p. fst p \<noteq> fd) (k_groups k),
                   k_maps := filter (\<lambda>m. fst m \<noteq> fd) (k_maps k)\<rparr>))"
| "kernel_do (Mapped c iova len) k =
     (if c \<notin> set (k_fds k) \<or> (\<exists>(c', a, l) \<in> set (k_maps k). c' = c \<and> overlaps a l (unat iova) (unat len)) then None
      else Some (k\<lparr>k_maps := (c, unat iova, unat len) # k_maps k\<rparr>))"
| "kernel_do (Unmapped c iova len) k =
     (if c \<notin> set (k_fds k) then None
      else Some (k\<lparr>k_maps := filter (\<lambda>(c', a, l). \<not> (c' = c \<and> unat iova \<le> a \<and> a + l \<le> unat iova + unat len)) (k_maps k)\<rparr>))"
| "kernel_do (Munmapped a n) k = Some k"
| "kernel_do (Wrote p v) k = Some k"

fun kernel_run :: "vfio_event list \<Rightarrow> kernel \<Rightarrow> kernel option" where
  "kernel_run [] k = Some k"
| "kernel_run (e # es) k = (case kernel_do e k of None \<Rightarrow> None | Some k' \<Rightarrow> kernel_run es k')"

lemma kernel_run_append: "kernel_run (es @ fs) k = (case kernel_run es k of None \<Rightarrow> None | Some k' \<Rightarrow> kernel_run fs k')"
  by (induction es arbitrary: k) (auto split: option.splits)

text \<open>The descriptors that the kernel hands out are new ones.\<close>

definition fresh_fds :: "open_answers \<Rightarrow> kernel \<Rightarrow> bool" where
  "fresh_fds oa k \<longleftrightarrow> (let fds = filter (\<lambda>fd. fd \<ge> 0) [oa_container oa, oa_group oa, oa_device oa]
     in distinct fds \<and> set fds \<inter> set (k_fds k) = {})"

text \<open>
  The use of the library: the registry, the handles that are open, and the kernel. Each call is one step; a handle is
  closed once, and used while it is open. Mappings may be refused by the kernel or accepted.
\<close>

record vfio_state =
  vx_reg :: registry
  vx_handles :: "pw_vfio_handle list"

inductive vfio_run :: "vfio_state \<Rightarrow> vfio_event list \<Rightarrow> kernel option \<Rightarrow> bool" where
  start: "vfio_run \<lparr>vx_reg = empty_registry, vx_handles = []\<rparr> [] (Some \<lparr>k_fds = [], k_groups = [], k_maps = []\<rparr>)"
| opens: "vfio_run \<lparr>vx_reg = reg, vx_handles = hs\<rparr> ev (Some k) \<Longrightarrow> fresh_fds oa k \<Longrightarrow>
    pw_vfio_open_bar oa bdf bar reg = (st, reg', h, ev') \<Longrightarrow>
    vfio_run \<lparr>vx_reg = reg', vx_handles = (if st = PW_OK then h # hs else hs)\<rparr> (ev @ ev') (kernel_run ev' k)"
| closes: "vfio_run \<lparr>vx_reg = reg, vx_handles = hs\<rparr> ev (Some k) \<Longrightarrow> h \<in> set hs \<Longrightarrow> pw_vfio_close reg h = (reg', h', ev') \<Longrightarrow>
    vfio_run \<lparr>vx_reg = reg', vx_handles = remove1 h hs\<rparr> (ev @ ev') (kernel_run ev' k)"
| maps: "vfio_run \<lparr>vx_reg = reg, vx_handles = hs\<rparr> ev (Some k) \<Longrightarrow> h \<in> set hs \<Longrightarrow>
    pw_vfio_map_dma ps ok reg h vaddr len = (r, reg', ev') \<Longrightarrow>
    vfio_run \<lparr>vx_reg = reg', vx_handles = hs\<rparr> (ev @ ev') (kernel_run ev' k)"
| unmaps: "vfio_run \<lparr>vx_reg = reg, vx_handles = hs\<rparr> ev (Some k) \<Longrightarrow> h \<in> set hs \<Longrightarrow>
    pw_vfio_unmap_dma ok h iova len = (st, ev') \<Longrightarrow>
    vfio_run \<lparr>vx_reg = reg, vx_handles = hs\<rparr> (ev @ ev') (kernel_run ev' k)"


section \<open>Who owns what\<close>

text \<open>
  The kernel's objects against their owners: \<open>F\<close> is what the process must close, and \<open>L\<close> holds the live groups as
  group descriptor, number, container and the end of the IOVAs handed out.
\<close>

type_synonym live_group = "int \<times> int \<times> int \<times> nat"

definition kernel_fits :: "int multiset \<Rightarrow> live_group set \<Rightarrow> kernel \<Rightarrow> bool" where
  "kernel_fits F L k \<longleftrightarrow> mset (k_fds k) = F \<and> distinct (k_fds k) \<and>
     (\<forall>g no. (g, no) \<in> set (k_groups k) \<longleftrightarrow> (\<exists>c n. (g, no, c, n) \<in> L)) \<and>
     (\<forall>c a l. (c, a, l) \<in> set (k_maps k) \<longrightarrow> (\<exists>g no n. (g, no, c, n) \<in> L \<and> a + l \<le> n)) \<and>
     (\<forall>g no c n. (g, no, c, n) \<in> L \<longrightarrow> g \<in># F \<and> c \<in># F)"

lemma kernel_fitsD:
  assumes "kernel_fits F L k"
  shows fits_mset: "mset (k_fds k) = F"
    and fits_distinct: "distinct (k_fds k)"
    and fits_groups: "(g, no) \<in> set (k_groups k) \<longleftrightarrow> (\<exists>c n. (g, no, c, n) \<in> L)"
    and fits_maps: "(c, a, l) \<in> set (k_maps k) \<Longrightarrow> \<exists>g no n. (g, no, c, n) \<in> L \<and> a + l \<le> n"
    and fits_owned: "(g, no, c, n) \<in> L \<Longrightarrow> g \<in># F \<and> c \<in># F"
  using assms unfolding kernel_fits_def by blast+

lemma kernel_fitsI:
  assumes "mset (k_fds k) = F" "distinct (k_fds k)"
    and "\<And>g no. (g, no) \<in> set (k_groups k) \<longleftrightarrow> (\<exists>c n. (g, no, c, n) \<in> L)"
    and "\<And>c a l. (c, a, l) \<in> set (k_maps k) \<Longrightarrow> \<exists>g no n. (g, no, c, n) \<in> L \<and> a + l \<le> n"
    and "\<And>g no c n. (g, no, c, n) \<in> L \<Longrightarrow> g \<in># F \<and> c \<in># F"
  shows "kernel_fits F L k"
  using assms unfolding kernel_fits_def by blast

lemma fits_fds: "kernel_fits F L k \<Longrightarrow> x \<in> set (k_fds k) \<longleftrightarrow> x \<in># F"
  by (metis fits_mset set_mset_mset)

lemma fits_opened:
  assumes k: "kernel_fits F L k" and fd: "fd \<notin># F"
  shows "\<exists>k'. kernel_do (Opened fd) k = Some k' \<and> kernel_fits (add_mset fd F) L k'"
proof -
  have "kernel_fits (add_mset fd F) L (k\<lparr>k_fds := fd # k_fds k\<rparr>)"
    using kernel_fitsD [OF k] fits_fds [OF k] fd by (intro kernel_fitsI) auto
  then show ?thesis using fd fits_fds [OF k] by simp
qed

lemma fits_group:
  assumes k: "kernel_fits F L k" and g: "g \<notin># F" and c: "c \<in># F" and no: "\<forall>g' c' n'. (g', no, c', n') \<notin> L"
  shows "\<exists>k'. kernel_do (Opened_group g no) k = Some k' \<and> kernel_fits (add_mset g F) (insert (g, no, c, n) L) k'"
proof -
  have "kernel_fits (add_mset g F) (insert (g, no, c, n) L) (k\<lparr>k_fds := g # k_fds k, k_groups := (g, no) # k_groups k\<rparr>)"
  proof (rule kernel_fitsI)
    show "\<exists>g' no' n'. (g', no', c', n') \<in> insert (g, no, c, n) L \<and> a + l \<le> n'"
      if "(c', a, l) \<in> set (k_maps (k\<lparr>k_fds := g # k_fds k, k_groups := (g, no) # k_groups k\<rparr>))" for c' a l
      using that fits_maps [OF k, of c' a l] by auto
    show "(g', no') \<in> set (k_groups (k\<lparr>k_fds := g # k_fds k, k_groups := (g, no) # k_groups k\<rparr>)) \<longleftrightarrow>
        (\<exists>c' n'. (g', no', c', n') \<in> insert (g, no, c, n) L)" for g' no'
      using fits_groups [OF k, of g' no'] by auto
    show "g' \<in># add_mset g F \<and> c' \<in># add_mset g F" if "(g', no', c', n') \<in> insert (g, no, c, n) L" for g' no' c' n'
      using that fits_owned [OF k, of g' no' c' n'] c by auto
  qed (use fits_mset [OF k] fits_distinct [OF k] fits_fds [OF k] g in auto)
  moreover have "no \<notin> snd ` set (k_groups k)" using fits_groups [OF k] no by auto
  ultimately show ?thesis using g fits_fds [OF k] by simp
qed

lemma fits_device:
  assumes k: "kernel_fits F L k" and fd: "fd \<notin># F" "g \<in># F"
  shows "\<exists>k'. kernel_do (Got_device fd g) k = Some k' \<and> kernel_fits (add_mset fd F) L k'"
proof -
  have "kernel_fits (add_mset fd F) L (k\<lparr>k_fds := fd # k_fds k\<rparr>)"
    using kernel_fitsD [OF k] fits_fds [OF k] fd by (intro kernel_fitsI) auto
  then show ?thesis using fd fits_fds [OF k] by simp
qed

text \<open>A descriptor has one owner.\<close>

lemma fits_alone:
  assumes k: "kernel_fits (add_mset fd F) L k"
  shows "fd \<notin># F"
proof -
  obtain fs where fs: "mset fs = F" using ex_mset by blast
  have "distinct (fd # fs)"
    using mset_eq_imp_distinct_iff [of "k_fds k" "fd # fs"] fits_mset [OF k] fits_distinct [OF k] fs by simp
  then show ?thesis using fs by (auto simp flip: set_mset_mset)
qed

text \<open>Closing what no live group uses.\<close>

lemma fits_closed:
  assumes k: "kernel_fits (add_mset fd F) L k" and L': "\<forall>g no c n. (g, no, c, n) \<in> L \<longrightarrow> g \<in># F \<and> c \<in># F"
  shows "\<exists>k'. kernel_do (Closed fd) k = Some k' \<and> kernel_fits F L k'"
proof -
  have L: "\<forall>g no c n. (g, no, c, n) \<in> L \<longrightarrow> g \<noteq> fd \<and> c \<noteq> fd" using fits_alone [OF k] L' by blast
  let ?k = "k\<lparr>k_fds := remove1 fd (k_fds k), k_groups := filter (\<lambda>p. fst p \<noteq> fd) (k_groups k),
              k_maps := filter (\<lambda>m. fst m \<noteq> fd) (k_maps k)\<rparr>"
  have "kernel_fits F L ?k"
  proof (rule kernel_fitsI)
    show "(g, no) \<in> set (k_groups ?k) \<longleftrightarrow> (\<exists>c n. (g, no, c, n) \<in> L)" for g no
      using fits_groups [OF k, of g no] L by auto
    show "\<exists>g no n. (g, no, c, n) \<in> L \<and> a + l \<le> n" if "(c, a, l) \<in> set (k_maps ?k)" for c a l
      using that fits_maps [OF k, of c a l] by auto
    show "g \<in># F \<and> c \<in># F" if "(g, no, c, n) \<in> L" for g no c n using L' that by blast
  qed (use fits_mset [OF k] fits_distinct [OF k] in auto)
  then show ?thesis using fits_fds [OF k] by simp
qed

text \<open>Closing the group and then the container of a group that nothing else shares.\<close>

lemma fits_group_closed:
  assumes k: "kernel_fits (add_mset g (add_mset c F)) (insert (g, no, c, n) L) k"
    and L: "\<forall>g' no' c' n'. (g', no', c', n') \<in> L \<longrightarrow> g' \<in># F \<and> c' \<in># F"
  shows "\<exists>k'. kernel_run [Closed g, Closed c] k = Some k' \<and> kernel_fits F L k'"
proof -
  have nd: "g \<noteq> c" "g \<notin># F" "c \<notin># F"
    using fits_alone [OF k] fits_alone [of c "add_mset g F"] k by (auto simp: add_mset_commute)
  then have L': "g' \<noteq> g \<and> g' \<noteq> c \<and> c' \<noteq> c \<and> c' \<noteq> g" if "(g', no', c', n') \<in> L" for g' no' c' n'
    using that L by blast
  let ?k = "k\<lparr>k_fds := remove1 c (remove1 g (k_fds k)),
              k_groups := filter (\<lambda>p. fst p \<noteq> c) (filter (\<lambda>p. fst p \<noteq> g) (k_groups k)),
              k_maps := filter (\<lambda>m. fst m \<noteq> c) (filter (\<lambda>m. fst m \<noteq> g) (k_maps k))\<rparr>"
  have "kernel_fits F L ?k"
  proof (rule kernel_fitsI)
    show "(g', no') \<in> set (k_groups ?k) \<longleftrightarrow> (\<exists>c n. (g', no', c, n) \<in> L)" for g' no'
      using fits_groups [OF k, of g' no'] L' by auto
    show "\<exists>g no n. (g, no, c', n) \<in> L \<and> a + l \<le> n" if "(c', a, l) \<in> set (k_maps ?k)" for c' a l
      using that fits_maps [OF k, of c' a l] by auto
    show "g' \<in># F \<and> c' \<in># F" if "(g', no', c', n') \<in> L" for g' no' c' n' using L that by blast
  qed (use fits_mset [OF k] fits_distinct [OF k] in auto)
  moreover have "kernel_run [Closed g, Closed c] k = Some ?k" using fits_fds [OF k] nd by simp
  ultimately show ?thesis by blast
qed

text \<open>A mapping behind everything handed out from its container.\<close>

lemma fits_mapped:
  assumes k: "kernel_fits F (insert (g, no, c, n) L) k" and L: "\<forall>g' no' c' n'. (g', no', c', n') \<in> L \<longrightarrow> c' \<noteq> c"
    and iova: "n \<le> unat iova" "unat iova + unat len \<le> n'"
  shows "\<exists>k'. kernel_do (Mapped c iova len) k = Some k' \<and> kernel_fits F (insert (g, no, c, n') L) k'"
proof -
  let ?k = "k\<lparr>k_maps := (c, unat iova, unat len) # k_maps k\<rparr>"
  have upto: "a + l \<le> n" if "(c, a, l) \<in> set (k_maps k)" for a l using fits_maps [OF k that] L by auto
  then have "\<not> (\<exists>(c', a, l) \<in> set (k_maps k). c' = c \<and> overlaps a l (unat iova) (unat len))"
    using iova by (fastforce simp: overlaps_def)
  moreover have "c \<in> set (k_fds k)" using fits_owned [OF k] fits_fds [OF k] by blast
  moreover have "kernel_fits F (insert (g, no, c, n') L) ?k"
  proof (rule kernel_fitsI)
    show "(g', no') \<in> set (k_groups ?k) \<longleftrightarrow> (\<exists>c'' n''. (g', no', c'', n'') \<in> insert (g, no, c, n') L)" for g' no'
      using fits_groups [OF k, of g' no'] by auto
    show "\<exists>g' no' n''. (g', no', c0, n'') \<in> insert (g, no, c, n') L \<and> a + l \<le> n''"
      if "(c0, a, l) \<in> set (k_maps ?k)" for c0 a l
    proof (cases "c0 = c")
      case True
      with that upto iova have "a + l \<le> n'" by fastforce
      with True show ?thesis by blast
    next
      case False
      with that fits_maps [OF k, of c0 a l] show ?thesis by auto
    qed
    show "g' \<in># F \<and> c' \<in># F" if "(g', no', c', n'') \<in> insert (g, no, c, n') L" for g' no' c' n''
      using that fits_owned [OF k, of g' no' c' n''] fits_owned [OF k, of g no c n] by auto
  qed (use fits_mset [OF k] fits_distinct [OF k] in auto)
  ultimately show ?thesis by simp
qed

lemma fits_unmapped:
  assumes k: "kernel_fits F L k" and c: "c \<in># F"
  shows "\<exists>k'. kernel_do (Unmapped c iova len) k = Some k' \<and> kernel_fits F L k'"
proof -
  let ?k = "k\<lparr>k_maps := filter (\<lambda>(c', a, l). \<not> (c' = c \<and> unat iova \<le> a \<and> a + l \<le> unat iova + unat len)) (k_maps k)\<rparr>"
  have "kernel_fits F L ?k"
  proof (rule kernel_fitsI)
    show "\<exists>g no n. (g, no, c', n) \<in> L \<and> a + l \<le> n" if "(c', a, l) \<in> set (k_maps ?k)" for c' a l
      using that fits_maps [OF k, of c' a l] by auto
  qed (use fits_mset [OF k] fits_distinct [OF k] fits_groups [OF k] fits_owned [OF k] in auto)
  then show ?thesis using c fits_fds [OF k] by simp
qed

text \<open>The end of what was handed out may be raised.\<close>

lemma fits_raise:
  assumes k: "kernel_fits F (insert (g, no, c, n) L) k" and n: "n \<le> n'"
  shows "kernel_fits F (insert (g, no, c, n') L) k"
proof (rule kernel_fitsI)
  show "(g', no') \<in> set (k_groups k) \<longleftrightarrow> (\<exists>c'' n''. (g', no', c'', n'') \<in> insert (g, no, c, n') L)" for g' no'
    using fits_groups [OF k, of g' no'] by auto
  show "\<exists>g' no' n''. (g', no', c0, n'') \<in> insert (g, no, c, n') L \<and> a + l \<le> n''" if "(c0, a, l) \<in> set (k_maps k)" for c0 a l
    using fits_maps [OF k that] n by (auto intro: le_trans)
  show "g' \<in># F \<and> c' \<in># F" if "(g', no', c', n'') \<in> insert (g, no, c, n') L" for g' no' c' n''
    using that fits_owned [OF k, of g' no' c' n''] fits_owned [OF k, of g no c n] by auto
qed (use fits_mset [OF k] fits_distinct [OF k] in auto)

lemma kernel_run_wrote: "kernel_run (map (\<lambda>(p, v). Wrote p v) ws) k = Some k"
  by (induction ws) auto

text \<open>The registry's account of them.\<close>

definition slot_fds :: "vfio_group_slot \<Rightarrow> int multiset" where
  "slot_fds g = (if vs_refcount g > 0 then {#vs_group_fd g, vs_container_fd g#} else {#})"

definition slot_view :: "vfio_group_slot \<Rightarrow> live_group" where
  "slot_view g = (vs_group_fd g, vs_group_no g, vs_container_fd g, unat (vs_iova_next g))"

definition slot_live :: "vfio_group_slot \<Rightarrow> live_group set" where
  "slot_live g = (if vs_refcount g > 0 then {slot_view g} else {})"

definition owned_fds :: "registry \<Rightarrow> pw_vfio_handle list \<Rightarrow> int multiset" where
  "owned_fds reg hs = image_mset vh_device_fd (mset hs) + sum_list (map slot_fds reg)"

definition live :: "registry \<Rightarrow> live_group set" where
  "live reg = (\<Union>g \<in> set reg. slot_live g)"

definition vacant :: vfio_group_slot where
  "vacant = \<lparr>vs_group_no = - 1, vs_group_fd = - 1, vs_container_fd = - 1, vs_iova_next = 0, vs_refcount = 0\<rparr>"

definition users :: "pw_vfio_handle list \<Rightarrow> nat \<Rightarrow> int" where
  "users hs i = int (length (filter (\<lambda>h. slot_of h = Some i) hs))"

definition handle_fits :: "registry \<Rightarrow> pw_vfio_handle \<Rightarrow> bool" where
  "handle_fits reg h \<longleftrightarrow> vh_device_fd h \<ge> 0 \<and>
     (\<exists>i < PW_VFIO_MAX_GROUPS. slot_of h = Some i \<and> vh_container_fd h = vs_container_fd (reg ! i))"

definition registry_inv :: "registry \<Rightarrow> pw_vfio_handle list \<Rightarrow> bool" where
  "registry_inv reg hs \<longleftrightarrow> length reg = PW_VFIO_MAX_GROUPS \<and> (\<forall>h \<in> set hs. handle_fits reg h) \<and>
     (\<forall>i < PW_VFIO_MAX_GROUPS. vs_refcount (reg ! i) = users hs i) \<and>
     (\<forall>i < PW_VFIO_MAX_GROUPS. vs_refcount (reg ! i) > 0 \<longrightarrow> vs_group_fd (reg ! i) \<ge> 0 \<and> vs_container_fd (reg ! i) \<ge> 0)"

definition vfio_inv :: "registry \<Rightarrow> pw_vfio_handle list \<Rightarrow> kernel \<Rightarrow> bool" where
  "vfio_inv reg hs k \<longleftrightarrow> registry_inv reg hs \<and> kernel_fits (owned_fds reg hs) (live reg) k"

text \<open>While a BAR is opened, its group is held whether a card uses it or not.\<close>

definition pending_inv :: "registry \<Rightarrow> nat \<Rightarrow> pw_vfio_handle list \<Rightarrow> kernel \<Rightarrow> bool" where
  "pending_inv reg i hs k \<longleftrightarrow> i < PW_VFIO_MAX_GROUPS \<and> registry_inv reg hs \<and> vs_group_fd (reg ! i) \<ge> 0 \<and> vs_container_fd (reg ! i) \<ge> 0 \<and>
     kernel_fits (add_mset (vs_group_fd (reg ! i)) (add_mset (vs_container_fd (reg ! i)) (owned_fds (reg[i := vacant]) hs)))
       (insert (slot_view (reg ! i)) (live (reg[i := vacant]))) k"

lemma sum_list_update:
  fixes f :: "'a \<Rightarrow> 'b :: comm_monoid_add"
  shows "i < length xs \<Longrightarrow> sum_list (map f (xs[i := v])) + f (xs ! i) = sum_list (map f xs) + f v"
proof (induction xs arbitrary: i)
  case (Cons x xs)
  show ?case
  proof (cases i)
    case (Suc j)
    with Cons show ?thesis by (simp add: add.assoc)
  qed (simp add: ac_simps)
qed simp

lemma sum_list_empty: "\<forall>x \<in> set xs. f x = {#} \<Longrightarrow> sum_list (map f xs) = {#}"
  by (induction xs) auto

lemma set_mset_sum_list: "set_mset (sum_list (map f xs)) = (\<Union>x \<in> set xs. set_mset (f x))"
  by (induction xs) auto

lemma set_update_split: "i < length xs \<Longrightarrow> insert (xs ! i) (set (xs[i := v])) = insert v (set xs)"
  by (induction xs arbitrary: i) (auto split: nat.splits)

lemma owned_live: "(g, no, c, n) \<in> live reg \<Longrightarrow> g \<in># owned_fds reg hs \<and> c \<in># owned_fds reg hs"
  by (force simp: live_def slot_live_def slot_view_def owned_fds_def set_mset_sum_list slot_fds_def split: if_splits)

text \<open>A slot's share is split off from the others'.\<close>

lemma owned_slot:
  assumes "i < length reg"
  shows "owned_fds (reg[i := g]) hs = owned_fds (reg[i := vacant]) hs + slot_fds g"
  using sum_list_update [of i "reg[i := vacant]" slot_fds g] assms by (simp add: owned_fds_def slot_fds_def vacant_def add.assoc)

lemma live_slot:
  assumes "i < length reg"
  shows "live (reg[i := g]) = live (reg[i := vacant]) \<union> slot_live g"
proof -
  have "slot_live vacant = {}" by (simp add: slot_live_def vacant_def)
  moreover have "insert vacant (set (reg[i := g])) = insert g (set (reg[i := vacant]))"
    using set_update_split [of i "reg[i := vacant]" g] assms by simp
  then have "(\<Union>x \<in> insert vacant (set (reg[i := g])). slot_live x) = (\<Union>x \<in> insert g (set (reg[i := vacant])). slot_live x)"
    by (rule arg_cong)
  ultimately show ?thesis by (simp add: live_def Un_commute)
qed

lemma owned_this: "i < length reg \<Longrightarrow> owned_fds reg hs = owned_fds (reg[i := vacant]) hs + slot_fds (reg ! i)"
  using owned_slot [of i reg "reg ! i" hs] by simp

lemma live_this: "i < length reg \<Longrightarrow> live reg = live (reg[i := vacant]) \<union> slot_live (reg ! i)"
  using live_slot [of i reg "reg ! i"] by simp

lemma owned_cons: "owned_fds reg (h # hs) = add_mset (vh_device_fd h) (owned_fds reg hs)"
  by (simp add: owned_fds_def)

lemma owned_remove:
  assumes "h \<in> set hs"
  shows "owned_fds reg hs = add_mset (vh_device_fd h) (owned_fds reg (remove1 h hs))"
proof -
  have "mset hs = add_mset h (mset (remove1 h hs))" using assms by simp
  then show ?thesis unfolding owned_fds_def by (metis image_mset_add_mset union_mset_add_mset_left)
qed

lemma users_cons: "users (h # hs) i = users hs i + (if slot_of h = Some i then 1 else 0)"
  by (simp add: users_def)

lemma users_remove: "h \<in> set hs \<Longrightarrow> users (remove1 h hs) i = users hs i - (if slot_of h = Some i then 1 else 0)"
  by (induction hs) (auto simp: users_cons split: if_splits)

lemma users_pos: "h \<in> set hs \<Longrightarrow> slot_of h = Some i \<Longrightarrow> users hs i > 0"
  by (auto simp: users_def filter_empty_conv)

lemma users_nonneg: "users hs i \<ge> 0"
  by (simp add: users_def)

lemma registry_invD:
  assumes "registry_inv reg hs"
  shows registry_length: "length reg = PW_VFIO_MAX_GROUPS"
    and registry_fits: "h \<in> set hs \<Longrightarrow> handle_fits reg h"
    and registry_users: "i < PW_VFIO_MAX_GROUPS \<Longrightarrow> vs_refcount (reg ! i) = users hs i"
    and registry_valid: "i < PW_VFIO_MAX_GROUPS \<Longrightarrow> vs_refcount (reg ! i) > 0 \<Longrightarrow> vs_group_fd (reg ! i) \<ge> 0 \<and> vs_container_fd (reg ! i) \<ge> 0"
  using assms unfolding registry_inv_def by blast+

text \<open>A slot is rewritten: its container stays while a card is left that uses it.\<close>

lemma registry_update:
  assumes "registry_inv reg hs" "i < PW_VFIO_MAX_GROUPS" "\<forall>h \<in> set hs' - set hs. handle_fits (reg[i := g]) h"
    and "vs_refcount g = users hs' i" "\<forall>j. j \<noteq> i \<longrightarrow> users hs' j = users hs j"
    and "vs_refcount g > 0 \<Longrightarrow> vs_group_fd g \<ge> 0 \<and> vs_container_fd g \<ge> 0"
    and "users hs i > 0 \<Longrightarrow> users hs' i > 0 \<Longrightarrow> vs_container_fd g = vs_container_fd (reg ! i)"
  shows "registry_inv (reg[i := g]) hs'"
  unfolding registry_inv_def
proof (intro conjI ballI allI impI)
  fix h' assume h': "h' \<in> set hs'"
  show "handle_fits (reg[i := g]) h'"
  proof (cases "h' \<in> set hs")
    case True
    then obtain j where j: "j < PW_VFIO_MAX_GROUPS" "slot_of h' = Some j" "vh_container_fd h' = vs_container_fd (reg ! j)" "vh_device_fd h' \<ge> 0"
      using registry_fits [OF assms(1)] unfolding handle_fits_def by blast
    have "vh_container_fd h' = vs_container_fd (reg[i := g] ! j)"
    proof (cases "j = i")
      case True
      then show ?thesis
        using assms(7) users_pos [OF \<open>h' \<in> set hs\<close> j(2)] users_pos [OF h' j(2)] j assms(2) registry_length [OF assms(1)] by simp
    qed (use j in simp)
    then show ?thesis using j unfolding handle_fits_def by blast
  next
    case False
    then show ?thesis using assms(3) h' by blast
  qed
next
  fix j assume j: "j < PW_VFIO_MAX_GROUPS"
  show "vs_refcount (reg[i := g] ! j) = users hs' j"
    using assms(4,5) registry_users [OF assms(1) j] registry_length [OF assms(1)] j by (cases "j = i") auto
  assume "vs_refcount (reg[i := g] ! j) > 0"
  then show "vs_group_fd (reg[i := g] ! j) \<ge> 0" "vs_container_fd (reg[i := g] ! j) \<ge> 0"
    using assms(6) registry_valid [OF assms(1) j] registry_length [OF assms(1)] j by (cases "j = i"; simp)+
qed (use registry_length [OF assms(1)] in simp)

lemma close_if_fits: "fd \<ge> 0 \<Longrightarrow> close_if fd = [Closed fd]"
  by (simp add: close_if_def)

text \<open>\<open>pw_vfio_close\<close> gives back the device, and the group and container with the last card.\<close>

lemma close_keeps:
  assumes inv: "vfio_inv reg hs k" and h: "h \<in> set hs" and close: "pw_vfio_close reg h = (reg', h', ev)"
  shows "\<exists>k'. kernel_run ev k = Some k' \<and> vfio_inv reg' (remove1 h hs) k'"
proof -
  note reg = inv [unfolded vfio_inv_def, THEN conjunct1] and k = inv [unfolded vfio_inv_def, THEN conjunct2]
  obtain i where i: "i < PW_VFIO_MAX_GROUPS" "slot_of h = Some i" and d: "vh_device_fd h \<ge> 0"
    using registry_fits [OF reg h] unfolding handle_fits_def by blast
  define g hs' where "g = reg ! i" and "hs' = remove1 h hs"
  have len: "i < length reg" using i registry_length [OF reg] by simp
  have n: "vs_refcount g = users hs i" "vs_refcount g > 0"
    using registry_users [OF reg i(1)] users_pos [OF h i(2)] by (simp_all add: g_def)
  have fds: "vs_group_fd g \<ge> 0" "vs_container_fd g \<ge> 0" using registry_valid [OF reg i(1)] n by (simp_all add: g_def)
  have u: "users hs' j = users hs j - (if j = i then 1 else 0)" for j
    using users_remove [OF h, of j] i by (auto simp: hs'_def)
  let ?F = "owned_fds (reg[i := vacant]) hs'" and ?L = "live (reg[i := vacant])"
  have F: "owned_fds reg hs = add_mset (vh_device_fd h) (add_mset (vs_group_fd g) (add_mset (vs_container_fd g) ?F))"
    using owned_remove [OF h, of reg] owned_this [OF len, where hs = hs'] n by (simp add: slot_fds_def hs'_def g_def)
  have L: "live reg = insert (slot_view g) ?L" using live_this [OF len] n by (simp add: slot_live_def g_def)
  have "\<exists>k1. kernel_do (Closed (vh_device_fd h)) k = Some k1 \<and>
      kernel_fits (add_mset (vs_group_fd g) (add_mset (vs_container_fd g) ?F)) (insert (slot_view g) ?L) k1"
    using owned_live [of _ _ _ _ "reg[i := vacant]" hs'] by (intro fits_closed) (use k F L in \<open>auto simp: slot_view_def\<close>)
  then obtain k1 where k1: "kernel_do (Closed (vh_device_fd h)) k = Some k1"
    and fit1: "kernel_fits (add_mset (vs_group_fd g) (add_mset (vs_container_fd g) ?F)) (insert (slot_view g) ?L) k1" by blast
  have upd: "registry_inv (reg[i := g']) hs'"
    if "vs_refcount g' = vs_refcount g - 1" "vs_refcount g' > 0 \<Longrightarrow> g' = g\<lparr>vs_refcount := vs_refcount g - 1\<rparr>" for g'
    by (rule registry_update [OF reg i(1)]) (use that h u n fds set_remove1_subset [of h hs] in \<open>auto simp: hs'_def g_def\<close>)
  have ev: "(reg', ev) = (let (r, e) = release_slot reg i in (r, (if vh_base h \<noteq> 0 \<and> vh_base h \<noteq> - 1 then [Munmapped (vh_base h) (vh_size h)] else []) @ Closed (vh_device_fd h) # e))"
    using close d i by (auto simp: pw_vfio_close_def close_if_fits split: prod.splits)
  show ?thesis
  proof (cases "vs_refcount g = 1")
    case True
    have "reg' = reg[i := vacant]" "\<exists>es. ev = es @ Closed (vh_device_fd h) # [Closed (vs_group_fd g), Closed (vs_container_fd g)] \<and> kernel_run es k = Some k"
      using ev True fds n by (auto simp: release_slot_def vacant_def close_if_fits simp flip: g_def)
    moreover have "\<exists>k'. kernel_run [Closed (vs_group_fd g), Closed (vs_container_fd g)] k1 = Some k' \<and> kernel_fits ?F ?L k'"
      using fit1 owned_live [of _ _ _ _ "reg[i := vacant]" hs'] unfolding slot_view_def by (intro fits_group_closed) auto
    moreover have "registry_inv (reg[i := vacant]) hs'" by (rule upd) (use True in \<open>auto simp: vacant_def\<close>)
    ultimately show ?thesis using k1 by (auto simp: kernel_run_append vfio_inv_def hs'_def)
  next
    case False
    let ?g = "g\<lparr>vs_refcount := vs_refcount g - 1\<rparr>"
    have "reg' = reg[i := ?g]" "\<exists>es. ev = es @ [Closed (vh_device_fd h)] \<and> kernel_run es k = Some k"
      using ev False n by (auto simp: release_slot_def simp flip: g_def)
    moreover have "kernel_fits (owned_fds (reg[i := ?g]) hs') (live (reg[i := ?g])) k1"
      using fit1 owned_slot [OF len, of ?g hs'] live_slot [OF len, of ?g] False n by (simp add: slot_fds_def slot_live_def slot_view_def)
    moreover have "registry_inv (reg[i := ?g]) hs'" by (rule upd) auto
    ultimately show ?thesis using k1 by (auto simp: kernel_run_append vfio_inv_def hs'_def)
  qed
qed

text \<open>A group that is in use already is held.\<close>

lemma pending_found:
  assumes inv: "vfio_inv reg hs k" and i: "i < PW_VFIO_MAX_GROUPS" "vs_refcount (reg ! i) > 0"
  shows "pending_inv reg i hs k"
proof -
  note reg = inv [unfolded vfio_inv_def, THEN conjunct1] and k = inv [unfolded vfio_inv_def, THEN conjunct2]
  have len: "i < length reg" using i registry_length [OF reg] by simp
  then show ?thesis using k reg registry_valid [OF reg i] i owned_this [OF len, of hs] live_this [OF len]
    by (simp add: pending_inv_def slot_fds_def slot_live_def)
qed

text \<open>A group that no card uses is opened into a free slot.\<close>

lemma pending_opened:
  assumes k: "kernel_fits F L k" and c: "c \<notin># F" "g \<notin># F" "c \<noteq> g" and no: "\<forall>g' c' n'. (g', no, c', n') \<notin> L"
  shows "\<exists>k'. kernel_run [Opened c, Opened_group g no] k = Some k' \<and>
    kernel_fits (add_mset g (add_mset c F)) (insert (g, no, c, 0) L) k'"
proof -
  obtain k1 where k1: "kernel_do (Opened c) k = Some k1" "kernel_fits (add_mset c F) L k1" using fits_opened [OF k c(1)] by blast
  obtain k2 where k2: "kernel_do (Opened_group g no) k1 = Some k2" "kernel_fits (add_mset g (add_mset c F)) (insert (g, no, c, 0) L) k2"
    using fits_group [OF k1(2), of g c no 0] c no by auto
  show ?thesis using k1 k2 by (simp del: kernel_do.simps)
qed

lemma group_not_live:
  assumes "vfio_group_find reg no = None"
  shows "(g', no, c', n') \<notin> live reg"
  using assms by (auto simp: vfio_group_find_def find_idx_None live_def slot_live_def slot_view_def split: if_splits)

lemma pending_new:
  assumes inv: "vfio_inv reg hs k" and find: "vfio_group_find reg no = None" and free: "vfio_group_free_slot reg = Some i"
    and fds: "c \<ge> 0" "g \<ge> 0" "c \<noteq> g" "c \<notin> set (k_fds k)" "g \<notin> set (k_fds k)"
  shows "\<exists>k'. kernel_run [Opened c, Opened_group g no] k = Some k' \<and> set (k_fds k') = insert g (insert c (set (k_fds k))) \<and>
    pending_inv (reg[i := \<lparr>vs_group_no = no, vs_group_fd = g, vs_container_fd = c, vs_iova_next = 0, vs_refcount = 0\<rparr>]) i hs k'"
proof -
  let ?g = "\<lparr>vs_group_no = no, vs_group_fd = g, vs_container_fd = c, vs_iova_next = 0, vs_refcount = 0\<rparr>"
  note reg = inv [unfolded vfio_inv_def, THEN conjunct1] and k = inv [unfolded vfio_inv_def, THEN conjunct2]
  have i: "i < length reg" "vs_refcount (reg ! i) = 0" using find_idx_Some free unfolding vfio_group_free_slot_def by blast+
  then have i': "i < PW_VFIO_MAX_GROUPS" using registry_length [OF reg] by simp
  have F: "owned_fds reg hs = owned_fds (reg[i := vacant]) hs" "live reg = live (reg[i := vacant])"
    using owned_this [OF i(1), of hs] live_this [OF i(1)] i by (simp_all add: slot_fds_def slot_live_def)
  obtain k' where k': "kernel_run [Opened c, Opened_group g no] k = Some k'"
    "kernel_fits (add_mset g (add_mset c (owned_fds reg hs))) (insert (g, no, c, 0) (live reg)) k'"
    using pending_opened [OF k, of c g no] fds fits_fds [OF k] group_not_live [OF find] by auto
  have "registry_inv (reg[i := ?g]) hs"
    using registry_users [OF reg i'] i
    by (intro registry_update [OF reg i']) auto
  then have "pending_inv (reg[i := ?g]) i hs k'"
    using k'(2) i i' fds F by (simp add: pending_inv_def slot_view_def)
  moreover have "set (k_fds k') = insert g (insert c (set (k_fds k)))" using fits_fds [OF k] fits_fds [OF k'(2)] by auto
  ultimately show ?thesis using k'(1) by blast
qed

text \<open>The device is got from the group, or the group is given back where no card uses it.\<close>

lemma pending_device:
  assumes inv: "pending_inv reg i hs k" and d: "d \<ge> 0" "d \<notin> set (k_fds k)"
    and h: "slot_of h = Some i" "vh_device_fd h = d" "vh_container_fd h = vs_container_fd (reg ! i)"
  shows "\<exists>k'. kernel_do (Got_device d (vs_group_fd (reg ! i))) k = Some k' \<and>
    vfio_inv (reg[i := (reg ! i)\<lparr>vs_refcount := vs_refcount (reg ! i) + 1\<rparr>]) (h # hs) k'"
proof -
  let ?g = "reg ! i" and ?g' = "(reg ! i)\<lparr>vs_refcount := vs_refcount (reg ! i) + 1\<rparr>"
  have i: "i < PW_VFIO_MAX_GROUPS" and reg: "registry_inv reg hs" and fds: "vs_group_fd ?g \<ge> 0" "vs_container_fd ?g \<ge> 0"
    and k: "kernel_fits (add_mset (vs_group_fd ?g) (add_mset (vs_container_fd ?g) (owned_fds (reg[i := vacant]) hs)))
       (insert (slot_view ?g) (live (reg[i := vacant]))) k"
    using inv unfolding pending_inv_def by blast+
  have len: "i < length reg" using i registry_length [OF reg] by simp
  have n: "vs_refcount ?g = users hs i" "users hs i \<ge> 0" using registry_users [OF reg i] users_nonneg by auto
  obtain k' where k': "kernel_do (Got_device d (vs_group_fd ?g)) k = Some k'"
    "kernel_fits (add_mset d (add_mset (vs_group_fd ?g) (add_mset (vs_container_fd ?g) (owned_fds (reg[i := vacant]) hs))))
       (insert (slot_view ?g) (live (reg[i := vacant]))) k'"
    using fits_device [OF k, of d "vs_group_fd ?g"] d fits_fds [OF k] by auto
  have "kernel_fits (owned_fds (reg[i := ?g']) (h # hs)) (live (reg[i := ?g'])) k'"
    using k'(2) owned_slot [OF len, of ?g' hs] live_slot [OF len, of ?g'] n h
    by (simp add: owned_cons slot_fds_def slot_live_def slot_view_def)
  moreover have "registry_inv (reg[i := ?g']) (h # hs)"
    by (rule registry_update [OF reg i]) (use n h d i len fds in \<open>auto simp: users_cons handle_fits_def\<close>)
  ultimately show ?thesis using k'(1) unfolding vfio_inv_def by blast
qed

lemma pending_dropped:
  assumes inv: "pending_inv reg i hs k" and n: "vs_refcount (reg ! i) = 0"
  shows "\<exists>k'. kernel_run [Closed (vs_group_fd (reg ! i)), Closed (vs_container_fd (reg ! i))] k = Some k' \<and>
    vfio_inv (reg[i := (reg ! i)\<lparr>vs_group_no := - 1\<rparr>]) hs k'"
proof -
  let ?g = "reg ! i" and ?g' = "(reg ! i)\<lparr>vs_group_no := - 1\<rparr>"
  have i: "i < PW_VFIO_MAX_GROUPS" and reg: "registry_inv reg hs"
    and k: "kernel_fits (add_mset (vs_group_fd ?g) (add_mset (vs_container_fd ?g) (owned_fds (reg[i := vacant]) hs)))
       (insert (slot_view ?g) (live (reg[i := vacant]))) k"
    using inv unfolding pending_inv_def by blast+
  have len: "i < length reg" using i registry_length [OF reg] by simp
  have "\<exists>k'. kernel_run [Closed (vs_group_fd ?g), Closed (vs_container_fd ?g)] k = Some k' \<and>
      kernel_fits (owned_fds (reg[i := vacant]) hs) (live (reg[i := vacant])) k'"
    using k owned_live [of _ _ _ _ "reg[i := vacant]" hs] unfolding slot_view_def by (intro fits_group_closed) auto
  moreover have "registry_inv (reg[i := ?g']) hs"
    using registry_users [OF reg i] n
    by (intro registry_update [OF reg i]) auto
  ultimately show ?thesis
    using owned_slot [OF len, of ?g' hs] live_slot [OF len, of ?g'] n by (auto simp: vfio_inv_def slot_fds_def slot_live_def)
qed

lemma pending_kept:
  assumes inv: "pending_inv reg i hs k" and n: "vs_refcount (reg ! i) \<noteq> 0"
  shows "vfio_inv reg hs k"
proof -
  have i: "i < PW_VFIO_MAX_GROUPS" and reg: "registry_inv reg hs" using inv unfolding pending_inv_def by blast+
  have len: "i < length reg" using i registry_length [OF reg] by simp
  have "vs_refcount (reg ! i) > 0" using registry_users [OF reg i] users_nonneg [of hs i] n by simp
  then show ?thesis using inv owned_this [OF len, of hs] live_this [OF len]
    by (simp add: pending_inv_def vfio_inv_def slot_fds_def slot_live_def)
qed

text \<open>What is opened and closed again leaves the account as it was.\<close>

lemma opened_closed:
  assumes inv: "vfio_inv reg hs k" and c: "c \<notin> set (k_fds k)"
  shows "\<exists>k'. kernel_run [Opened c, Closed c] k = Some k' \<and> vfio_inv reg hs k'"
proof -
  note k = inv [unfolded vfio_inv_def, THEN conjunct2]
  obtain k1 where k1: "kernel_do (Opened c) k = Some k1" "kernel_fits (add_mset c (owned_fds reg hs)) (live reg) k1"
    using fits_opened [OF k] c fits_fds [OF k] by blast
  obtain k2 where k2: "kernel_do (Closed c) k1 = Some k2" "kernel_fits (owned_fds reg hs) (live reg) k2"
    using fits_closed [OF k1(2)] owned_live [of _ _ _ _ reg hs] by auto
  show ?thesis using k1 k2 inv by (simp add: vfio_inv_def del: kernel_do.simps)
qed

lemma group_opened_closed:
  assumes inv: "vfio_inv reg hs k" and c: "c \<notin> set (k_fds k)" "g \<notin> set (k_fds k)" "c \<noteq> g"
    and find: "vfio_group_find reg no = None"
  shows "\<exists>k'. kernel_run [Opened c, Opened_group g no, Closed g, Closed c] k = Some k' \<and> vfio_inv reg hs k'"
proof -
  note k = inv [unfolded vfio_inv_def, THEN conjunct2]
  obtain k1 where k1: "kernel_run [Opened c, Opened_group g no] k = Some k1"
    "kernel_fits (add_mset g (add_mset c (owned_fds reg hs))) (insert (g, no, c, 0) (live reg)) k1"
    using pending_opened [OF k, of c g no] c fits_fds [OF k] group_not_live [OF find] by auto
  obtain k2 where k2: "kernel_run [Closed g, Closed c] k1 = Some k2" "kernel_fits (owned_fds reg hs) (live reg) k2"
    using fits_group_closed [OF k1(2)] owned_live [of _ _ _ _ reg hs] by auto
  have "kernel_run ([Opened c, Opened_group g no] @ [Closed g, Closed c]) k = Some k2"
    unfolding kernel_run_append k1(1) by (simp only: option.case k2(1))
  then show ?thesis using k2(2) inv by (simp add: vfio_inv_def del: kernel_run.simps)
qed

lemma fresh_facts:
  assumes "fresh_fds oa k"
  shows fresh_container: "oa_container oa \<ge> 0 \<Longrightarrow> oa_container oa \<notin> set (k_fds k)"
    and fresh_group: "oa_group oa \<ge> 0 \<Longrightarrow> oa_group oa \<notin> set (k_fds k)"
    and fresh_device: "oa_device oa \<ge> 0 \<Longrightarrow> oa_device oa \<notin> set (k_fds k)"
    and fresh_apart: "oa_container oa \<ge> 0 \<Longrightarrow> oa_group oa \<ge> 0 \<Longrightarrow> oa_container oa \<noteq> oa_group oa"
    and fresh_device_apart: "oa_device oa \<ge> 0 \<Longrightarrow> oa_container oa \<ge> 0 \<Longrightarrow> oa_group oa \<ge> 0 \<Longrightarrow>
      oa_device oa \<noteq> oa_container oa \<and> oa_device oa \<noteq> oa_group oa"
  using assms by (auto simp: fresh_fds_def Let_def split: if_splits)

lemma open_group_refused:
  assumes inv: "vfio_inv reg hs k" and fresh: "fresh_fds oa k" and "open_group oa no reg = (Inl st, ev)"
  shows "\<exists>k'. kernel_run ev k = Some k' \<and> vfio_inv reg hs k'"
proof -
  let ?c = "oa_container oa" and ?g = "oa_group oa"
  have find: "vfio_group_find reg no = None" using assms(3) by (auto simp: open_group_def split: option.splits)
  then have "ev = [] \<or> ?c \<ge> 0 \<and> ev = [Opened ?c, Closed ?c] \<or>
      ?c \<ge> 0 \<and> ?g \<ge> 0 \<and> ev = [Opened ?c, Opened_group ?g no, Closed ?g, Closed ?c]"
    using assms(3) by (auto simp: open_group_def Let_def split: option.splits if_splits)
  then show ?thesis
    using inv opened_closed [OF inv fresh_container [OF fresh]]
      group_opened_closed [OF inv fresh_container [OF fresh] fresh_group [OF fresh] fresh_apart [OF fresh] find]
    by (elim disjE) (simp_all del: kernel_run.simps(2))
qed

lemma open_group_holds:
  assumes inv: "vfio_inv reg hs k" and fresh: "fresh_fds oa k" and ok: "open_group oa no reg = (Inr (reg', i), ev)"
  shows "\<exists>k'. kernel_run ev k = Some k' \<and> pending_inv reg' i hs k' \<and> (oa_device oa \<ge> 0 \<longrightarrow> oa_device oa \<notin> set (k_fds k'))"
proof (cases "vfio_group_find reg no")
  case (Some gi)
  have "gi < length reg \<and> vs_refcount (reg ! gi) > 0" using find_idx_Some Some unfolding vfio_group_find_def by blast
  then have "pending_inv reg gi hs k"
    using pending_found [OF inv] registry_length inv unfolding vfio_inv_def by metis
  then show ?thesis using ok Some fresh_device [OF fresh] by (simp add: open_group_def)
next
  case None
  then obtain free: "vfio_group_free_slot reg = Some i" and fds: "oa_container oa \<ge> 0" "oa_group oa \<ge> 0"
    and ev: "ev = [Opened (oa_container oa), Opened_group (oa_group oa) no]"
    and reg': "reg' = reg[i := \<lparr>vs_group_no = no, vs_group_fd = oa_group oa, vs_container_fd = oa_container oa, vs_iova_next = 0, vs_refcount = 0\<rparr>]"
    using ok by (auto simp: open_group_def Let_def split: option.splits if_splits)
  show ?thesis
    using pending_new [OF inv None free fds fresh_apart fresh_container fresh_group, OF fresh fds fresh fds(1) fresh fds(2)]
      fresh_device [OF fresh] fresh_device_apart [OF fresh _ fds] unfolding ev reg' by blast
qed

lemma inv_same_handle:
  "vfio_inv reg (h # hs) k \<Longrightarrow> slot_of h' = slot_of h \<Longrightarrow> vh_device_fd h' = vh_device_fd h \<Longrightarrow>
   vh_container_fd h' = vh_container_fd h \<Longrightarrow> vfio_inv reg (h' # hs) k"
  unfolding vfio_inv_def registry_inv_def by (simp add: owned_cons users_cons handle_fits_def)

lemma slot_of_opened:
  assumes "i < PW_VFIO_MAX_GROUPS" "vh_grp_slot h = of_nat (i + 1)"
  shows "slot_of h = Some i"
proof -
  have "unat (of_nat (i + 1) :: u64) = i + 1" using assms(1) by (simp add: unat_of_nat PW_VFIO_MAX_GROUPS_def del: of_nat_add of_nat_Suc)
  then show ?thesis using assms by (simp add: slot_of_def)
qed

text \<open>\<open>pw_vfio_open_bar\<close>, whatever the kernel answers.\<close>

lemma got_closed:
  assumes inv: "vfio_inv reg (h # hs) k" and close: "pw_vfio_close reg h = (reg', h', ev)"
  shows "\<exists>k'. kernel_run ev k = Some k' \<and> vfio_inv reg' hs k'"
  using close_keeps [OF inv _ close] by simp

lemma open_device_keeps:
  assumes inv: "pending_inv reg i hs k" and d: "oa_device oa \<ge> 0 \<longrightarrow> oa_device oa \<notin> set (k_fds k)"
    and open_: "open_device oa reg i = (st, reg', h, ev)"
  shows "\<exists>k'. kernel_run ev k = Some k' \<and> vfio_inv reg' (if st = PW_OK then h # hs else hs) k'"
proof (cases "oa_device oa < 0")
  case True
  then show ?thesis
    using open_ pending_dropped [OF inv] pending_kept [OF inv] by (auto simp: open_device_def Let_def split: if_splits)
next
  case False
  define g reg1 h1 where "g = reg ! i" and "reg1 = reg[i := g\<lparr>vs_refcount := vs_refcount g + 1\<rparr>]"
    and "h1 = \<lparr>vh_container_fd = vs_container_fd g, vh_group_fd = vs_group_fd g, vh_device_fd = oa_device oa, vh_base = 0,
       vh_size = 0, vh_grp_slot = of_nat (i + 1)\<rparr>"
  have i: "i < PW_VFIO_MAX_GROUPS" using inv by (simp add: pending_inv_def)
  have slot: "slot_of h1 = Some i" by (rule slot_of_opened [OF i]) (simp add: h1_def)
  obtain k1 where k1: "kernel_do (Got_device (oa_device oa) (vs_group_fd g)) k = Some k1" "vfio_inv reg1 (h1 # hs) k1"
    using pending_device [OF inv _ _ slot] d False by (auto simp: g_def reg1_def h1_def)
  obtain reg2 h2 ev2 where c: "pw_vfio_close reg1 h1 = (reg2, h2, ev2)" using prod_cases3 by blast
  have "st \<noteq> PW_OK \<and> (reg', ev) = (reg2, Got_device (oa_device oa) (vs_group_fd g) # ev2) \<or>
      st = PW_OK \<and> reg' = reg1 \<and> slot_of h = slot_of h1 \<and> vh_device_fd h = vh_device_fd h1 \<and>
        vh_container_fd h = vh_container_fd h1 \<and> ev = [Got_device (oa_device oa) (vs_group_fd g)]"
    using open_ False c unfolding open_device_def Let_def g_def [symmetric] reg1_def [symmetric] h1_def [symmetric]
    by (auto simp: slot_of_def split: option.splits if_splits)
  then show ?thesis
  proof (elim disjE conjE)
    assume "st \<noteq> PW_OK" "(reg', ev) = (reg2, Got_device (oa_device oa) (vs_group_fd g) # ev2)"
    then show ?thesis using k1(1) got_closed [OF k1(2) c] by simp
  next
    assume *: "st = PW_OK" "reg' = reg1" "slot_of h = slot_of h1" "vh_device_fd h = vh_device_fd h1"
      "vh_container_fd h = vh_container_fd h1" "ev = [Got_device (oa_device oa) (vs_group_fd g)]"
    have "vfio_inv reg1 (h # hs) k1" using inv_same_handle [OF k1(2) *(3-5)] .
    then show ?thesis using k1(1) * by simp
  qed
qed

lemma open_bar_cases:
  assumes "pw_vfio_open_bar oa bdf_in bar reg = (st, reg', h, ev)"
  obtains (refused) ws where "st \<noteq> PW_OK" "reg' = reg" "ev = map (\<lambda>(p, v). Wrote p v) ws"
  | (no_group) no ws ev1 where "st \<noteq> PW_OK" "open_group oa no reg = (Inl st, ev1)" "reg' = reg" "ev = map (\<lambda>(p, v). Wrote p v) ws @ ev1"
  | (group) no ws ev1 reg1 i ev2 where "open_group oa no reg = (Inr (reg1, i), ev1)" "open_device oa reg1 i = (st, reg', h, ev2)"
      "ev = map (\<lambda>(p, v). Wrote p v) ws @ ev1 @ ev2"
proof (cases "bdf_in = None \<or> bar < 0 \<or> bar > 5")
  case True
  with assms show ?thesis by (intro refused [of "[]"]) (auto simp: pw_vfio_open_bar_def)
next
  case ok: False
  show ?thesis
  proof (cases "pw_pci_normalize_bdf bdf_in")
    case (Inl e)
    with assms ok show ?thesis by (intro refused [of "[]"]) (auto simp: pw_vfio_open_bar_def)
  next
    case (Inr bdf)
    let ?ws = "pw_vfio_prep_device (oa_power oa) (oa_command oa) bdf" and ?no = "iommu_group_of (oa_links oa) bdf"
    note op = assms [unfolded pw_vfio_open_bar_def Inr sum.case Let_def if_not_P [OF ok]]
    obtain r ev1 where grp: "open_group oa ?no reg = (r, ev1)" by fastforce
    consider "?no < 0" | e where "\<not> ?no < 0" "r = Inl e" | reg1 i where "\<not> ?no < 0" "r = Inr (reg1, i)" by (metis sum.exhaust surj_pair)
    then show ?thesis
    proof cases
      case 1
      with op show ?thesis by (intro refused [of ?ws]) auto
    next
      case 2
      then have "st \<noteq> PW_OK" using op grp by (auto simp: open_group_def Let_def split: option.splits if_splits)
      with 2 op grp show ?thesis by (intro no_group [of ?no ev1 ?ws]) auto
    next
      case 3
      with op grp show ?thesis by (intro group [of ?no reg1 i ev1 "snd (snd (snd (open_device oa reg1 i)))" ?ws]) (auto split: prod.splits)
    qed
  qed
qed

lemma open_keeps:
  assumes inv: "vfio_inv reg hs k" and fresh: "fresh_fds oa k"
    and open_: "pw_vfio_open_bar oa bdf_in bar reg = (st, reg', h, ev)"
  shows "\<exists>k'. kernel_run ev k = Some k' \<and> vfio_inv reg' (if st = PW_OK then h # hs else hs) k'"
  using open_
proof (cases rule: open_bar_cases)
  case (refused ws)
  with inv show ?thesis by (simp add: kernel_run_wrote)
next
  case (no_group no ws ev1)
  with open_group_refused [OF inv fresh] show ?thesis by (simp add: kernel_run_append kernel_run_wrote)
next
  case (group no ws ev1 reg1 i ev2)
  obtain k1 where k1: "kernel_run ev1 k = Some k1" "pending_inv reg1 i hs k1" "oa_device oa \<ge> 0 \<longrightarrow> oa_device oa \<notin> set (k_fds k1)"
    using open_group_holds [OF inv fresh group(1)] by blast
  show ?thesis using open_device_keeps [OF k1(2,3) group(2)] by (simp add: group(3) kernel_run_append kernel_run_wrote k1(1))
qed

text \<open>\<open>pw_vfio_map_dma\<close> and \<open>pw_vfio_unmap_dma\<close>.\<close>

lemma iova_room:
  fixes iova len :: u64
  assumes "\<not> iova > - 1 - len"
  shows "unat (iova + len) = unat iova + unat len"
proof -
  have "unat (- 1 - len) = unat (- 1 :: u64) - unat len" by (rule unat_sub) (rule word_n1_ge)
  then have "unat iova \<le> unat (- 1 :: u64) - unat len" using assms by (metis not_less word_le_nat_alt)
  moreover have "unat len \<le> unat (- 1 :: u64)" using word_n1_ge [of len] by (simp only: word_le_nat_alt)
  moreover have "unat (- 1 :: u64) < 2 ^ 64" using unsigned_less [of "- 1 :: u64"] by simp
  ultimately have "unat iova + unat len < 2 ^ 64" by linarith
  then show ?thesis using unat_add_lem [of iova len] by simp
qed

lemma mapped_registry:
  assumes inv: "vfio_inv reg hs k" and i: "i < PW_VFIO_MAX_GROUPS" "vs_refcount (reg ! i) > 0"
    and k': "kernel_fits (owned_fds reg hs) (insert (vs_group_fd (reg ! i), vs_group_no (reg ! i), vs_container_fd (reg ! i), unat n)
      (live (reg[i := vacant]))) k'"
  shows "vfio_inv (reg[i := (reg ! i)\<lparr>vs_iova_next := n\<rparr>]) hs k'"
proof -
  note reg = inv [unfolded vfio_inv_def, THEN conjunct1]
  let ?g = "(reg ! i)\<lparr>vs_iova_next := n\<rparr>"
  have len: "i < length reg" using i registry_length [OF reg] by simp
  have "registry_inv (reg[i := ?g]) hs"
    using registry_users [OF reg i(1)] registry_valid [OF reg i] i by (intro registry_update [OF reg i(1)]) auto
  moreover have "owned_fds (reg[i := ?g]) hs = owned_fds reg hs"
    using owned_slot [OF len, of ?g hs] owned_this [OF len, of hs] by (simp add: slot_fds_def)
  ultimately show ?thesis
    using k' live_slot [OF len, of ?g] i by (simp add: vfio_inv_def slot_live_def slot_view_def)
qed

lemma map_keeps:
  assumes inv: "vfio_inv reg hs k" and h: "h \<in> set hs" and map_: "pw_vfio_map_dma ps ok reg h vaddr len = (r, reg', ev)"
  shows "\<exists>k'. kernel_run ev k = Some k' \<and> vfio_inv reg' hs k'"
proof -
  note reg = inv [unfolded vfio_inv_def, THEN conjunct1] and k = inv [unfolded vfio_inv_def, THEN conjunct2]
  obtain i where i: "i < PW_VFIO_MAX_GROUPS" "slot_of h = Some i" and c: "vh_container_fd h = vs_container_fd (reg ! i)"
    using registry_fits [OF reg h] unfolding handle_fits_def by blast
  define g iova where "g = reg ! i" and "iova = (if vs_iova_next g = 0 then PW_VFIO_IOVA_BASE else vs_iova_next g)"
  let ?L = "live (reg[i := vacant])"
  have l: "i < length reg" using i registry_length [OF reg] by simp
  have n: "vs_refcount (reg ! i) > 0" using registry_users [OF reg i(1)] users_pos [OF h i(2)] by simp
  have F: "owned_fds reg hs = add_mset (vs_container_fd g) (add_mset (vs_group_fd g) (owned_fds (reg[i := vacant]) hs))"
    using owned_this [OF l, of hs] n by (simp add: slot_fds_def g_def)
  have k0: "kernel_fits (owned_fds reg hs) (insert (vs_group_fd g, vs_group_no g, vs_container_fd g, unat (vs_iova_next g)) ?L) k"
    using k live_this [OF l] n by (simp add: slot_live_def slot_view_def g_def)
  have start: "unat (vs_iova_next g) \<le> unat iova" by (simp add: iova_def)
  have apart: "\<forall>g' no' c' n'. (g', no', c', n') \<in> ?L \<longrightarrow> c' \<noteq> vs_container_fd g"
    using fits_alone [OF k0 [unfolded F]] owned_live [of _ _ _ _ "reg[i := vacant]" hs] by fastforce
  have "(reg' = reg \<and> ev = []) \<or> (reg' = reg[i := g\<lparr>vs_iova_next := iova\<rparr>] \<and> ev = []) \<or>
    (\<not> iova > - 1 - len \<and> reg' = reg[i := g\<lparr>vs_iova_next := iova + len\<rparr>] \<and> ev = [Mapped (vs_container_fd g) iova len])"
    using map_ unfolding pw_vfio_map_dma_def Let_def i(2) c option.case g_def [symmetric] iova_def [symmetric]
    by (simp only: prod.inject split: if_splits) (simp_all add: l)
  then consider "reg' = reg" "ev = []" | "reg' = reg[i := g\<lparr>vs_iova_next := iova\<rparr>]" "ev = []"
    | "\<not> iova > - 1 - len" "reg' = reg[i := g\<lparr>vs_iova_next := iova + len\<rparr>]" "ev = [Mapped (vs_container_fd g) iova len]"
    by blast
  then show ?thesis
  proof cases
    case 1
    with inv show ?thesis by simp
  next
    case 2
    then show ?thesis using mapped_registry [OF inv i(1) n fits_raise] k0 start by (simp add: g_def)
  next
    case 3
    obtain k' where k': "kernel_do (Mapped (vs_container_fd g) iova len) k = Some k'"
      "kernel_fits (owned_fds reg hs) (insert (vs_group_fd g, vs_group_no g, vs_container_fd g, unat (iova + len)) ?L) k'"
      using fits_mapped [OF k0 apart start, of len "unat (iova + len)"] iova_room [OF 3(1)] by auto
    have "vfio_inv reg' hs k'" using mapped_registry [OF inv i(1) n, of "iova + len" k'] k'(2) 3(2) by (simp add: g_def)
    then show ?thesis using 3(3) k'(1) by (simp del: kernel_do.simps)
  qed
qed

lemma unmap_keeps:
  assumes inv: "vfio_inv reg hs k" and h: "h \<in> set hs" and unmap: "pw_vfio_unmap_dma ok h iova len = (st, ev)"
  shows "\<exists>k'. kernel_run ev k = Some k' \<and> vfio_inv reg hs k'"
proof -
  note reg = inv [unfolded vfio_inv_def, THEN conjunct1] and k = inv [unfolded vfio_inv_def, THEN conjunct2]
  obtain i where i: "i < PW_VFIO_MAX_GROUPS" "slot_of h = Some i" and c: "vh_container_fd h = vs_container_fd (reg ! i)"
    using registry_fits [OF reg h] unfolding handle_fits_def by blast
  have "vs_refcount (reg ! i) > 0" using registry_users [OF reg i(1)] users_pos [OF h i(2)] by simp
  then have "vh_container_fd h \<in># owned_fds reg hs"
    using owned_this [of i reg hs] i registry_length [OF reg] c by (simp add: slot_fds_def)
  then obtain k' where "kernel_do (Unmapped (vh_container_fd h) iova len) k = Some k'" "vfio_inv reg hs k'"
    using fits_unmapped [OF k] reg unfolding vfio_inv_def by blast
  moreover have "ev = [] \<or> ev = [Unmapped (vh_container_fd h) iova len]"
    using unmap by (auto simp: pw_vfio_unmap_dma_def split: if_splits)
  ultimately show ?thesis using inv by (auto simp del: kernel_do.simps)
qed

lemma run_keeps:
  "vfio_run st ev ko \<Longrightarrow> \<exists>k. ko = Some k \<and> vfio_inv (vx_reg st) (vx_handles st) k"
proof (induction rule: vfio_run.induct)
  case start
  have "sum_list (replicate n ({#} :: int multiset)) = {#}" for n by (induction n) auto
  then show ?case by (simp add: vfio_inv_def registry_inv_def kernel_fits_def owned_fds_def live_def empty_registry_def users_def
      slot_fds_def slot_live_def)
next
  case (opens reg hs ev k oa bdf bar st reg' h ev')
  then show ?case using open_keeps by simp
next
  case (closes reg hs ev k h reg' h' ev')
  then show ?case using close_keeps by simp
next
  case (maps reg hs ev k h ps ok vaddr len r reg' ev')
  then show ?case using map_keeps by simp
next
  case (unmaps reg hs ev k h ok iova len st ev')
  then show ?case using unmap_keeps by simp
qed

text \<open>With no handle left, nothing is left.\<close>

lemma all_released:
  assumes inv: "vfio_inv reg [] k"
  shows "k_fds k = [] \<and> k_groups k = [] \<and> k_maps k = []"
proof -
  note reg = inv [unfolded vfio_inv_def, THEN conjunct1] and k = inv [unfolded vfio_inv_def, THEN conjunct2]
  have "vs_refcount g = 0" if "g \<in> set reg" for g
    using that registry_users [OF reg] registry_length [OF reg] by (auto simp: in_set_conv_nth users_def)
  then have "owned_fds reg [] = {#}" "live reg = {}"
    by (simp_all add: owned_fds_def slot_fds_def live_def slot_live_def sum_list_empty)
  then have "k_fds k = []" "(g, no) \<notin> set (k_groups k)" "(c, a, l) \<notin> set (k_maps k)" for g no c a l
    using fits_mset [OF k] fits_groups [OF k] fits_maps [OF k] by auto
  then show ?thesis by (cases "k_groups k"; cases "k_maps k") fastforce+
qed

text \<open>
  C32. However cards are opened, closed and given DMA buffers, whether or not they share an IOMMU group and whatever the
  kernel answers, it never refuses a call of the library's own making: no group is opened twice, no descriptor is
  closed twice or used after it was closed, and no DMA mapping overlaps another one of its container. The
  descriptors that are open are exactly those of the open handles and of the groups they use, and with the last
  handle the last group, container and mapping are gone.
\<close>
theorem vfio_sharing_safe:
  assumes "vfio_run st ev ko"
  shows "\<exists>k. ko = Some k \<and> mset (k_fds k) = owned_fds (vx_reg st) (vx_handles st) \<and> distinct (k_fds k) \<and>
    (vx_handles st = [] \<longrightarrow> k_fds k = [] \<and> k_groups k = [] \<and> k_maps k = [])"
proof -
  obtain k where k: "ko = Some k" "vfio_inv (vx_reg st) (vx_handles st) k" using run_keeps [OF assms] by blast
  then have "mset (k_fds k) = owned_fds (vx_reg st) (vx_handles st) \<and> distinct (k_fds k)"
    using fits_mset fits_distinct unfolding vfio_inv_def by blast
  then show ?thesis using k all_released by fastforce
qed

section \<open>Two cards of one group\<close>

definition ex_vfio_answers :: "int \<Rightarrow> int \<Rightarrow> int \<Rightarrow> open_answers" where
  "ex_vfio_answers c g d =
     \<lparr>oa_links = (\<lambda>p. Some ''../../../../kernel/iommu_groups/17''), oa_power = True, oa_command = Some 0x400, oa_container = c,
      oa_version = True, oa_group = g, oa_viable = True, oa_set_container = True, oa_set_iommu = True, oa_device = d,
      oa_region = Some (0x10000, True), oa_mmap = Some 0x7F0000000000\<rparr>"

definition ex_opened :: "int \<Rightarrow> pw_vfio_handle" where
  "ex_opened d = \<lparr>vh_container_fd = 3, vh_group_fd = 4, vh_device_fd = d, vh_base = 0x7F0000000000, vh_size = 0x10000, vh_grp_slot = 1\<rparr>"

definition ex_shared_group :: "int \<Rightarrow> u64 \<Rightarrow> registry" where
  "ex_shared_group n iova = empty_registry[0 := \<lparr>vs_group_no = 17, vs_group_fd = 4, vs_container_fd = 3, vs_iova_next = iova, vs_refcount = n\<rparr>]"

definition ex_prep :: "string \<Rightarrow> vfio_event list" where
  "ex_prep bdf = map (\<lambda>(p, v). Wrote p v) (pw_vfio_prep_device True (Some 0x400) bdf)"

lemma ex_open1: "pw_vfio_open_bar (ex_vfio_answers 3 4 5) (Some ''07:00.0'') 0 empty_registry =
    (PW_OK, ex_shared_group 1 0, ex_opened 5, ex_prep ''0000:07:00.0'' @ [Opened 3, Opened_group 4 17, Got_device 5 4])"
  by code_simp

lemma ex_open2: "pw_vfio_open_bar (ex_vfio_answers 6 7 8) (Some ''08:00.0'') 0 (ex_shared_group 1 0) =
    (PW_OK, ex_shared_group 2 0, ex_opened 8, ex_prep ''0000:08:00.0'' @ [Got_device 8 4])"
  by code_simp

lemma ex_map: "pw_vfio_map_dma 4096 True (ex_shared_group 2 0) (ex_opened 8) 0x7F1000000000 8192 =
    (Inr 0x100000000, ex_shared_group 2 0x100002000, [Mapped 3 0x100000000 8192])"
  by code_simp

lemma ex_close1: "pw_vfio_close (ex_shared_group 2 0x100002000) (ex_opened 5) =
    (ex_shared_group 1 0x100002000, no_handle, [Munmapped 0x7F0000000000 0x10000, Closed 5])"
  by code_simp

lemma ex_close2: "pw_vfio_close (ex_shared_group 1 0x100002000) (ex_opened 8) =
    (empty_registry[0 := vacant], no_handle, [Munmapped 0x7F0000000000 0x10000, Closed 8, Closed 4, Closed 3])"
  by code_simp

lemma ex_shared: "\<exists>ev. vfio_run \<lparr>vx_reg = ex_shared_group 2 0x100002000, vx_handles = [ex_opened 8, ex_opened 5]\<rparr> ev
    (Some \<lparr>k_fds = [8, 5, 4, 3], k_groups = [(4, 17)], k_maps = [(3, 0x100000000, 8192)]\<rparr>)"
proof -
  have k1: "kernel_run (ex_prep ''0000:07:00.0'' @ [Opened 3, Opened_group 4 17, Got_device 5 4]) \<lparr>k_fds = [], k_groups = [], k_maps = []\<rparr>
      = Some \<lparr>k_fds = [5, 4, 3], k_groups = [(4, 17)], k_maps = []\<rparr>" by code_simp
  have k2: "kernel_run (ex_prep ''0000:08:00.0'' @ [Got_device 8 4]) \<lparr>k_fds = [5, 4, 3], k_groups = [(4, 17)], k_maps = []\<rparr>
      = Some \<lparr>k_fds = [8, 5, 4, 3], k_groups = [(4, 17)], k_maps = []\<rparr>" by code_simp
  have f: "fresh_fds (ex_vfio_answers 3 4 5) \<lparr>k_fds = [], k_groups = [], k_maps = []\<rparr>"
    "fresh_fds (ex_vfio_answers 6 7 8) \<lparr>k_fds = [5, 4, 3], k_groups = [(4, 17)], k_maps = []\<rparr>" by code_simp+
  note run1 = vfio_run.opens [OF vfio_run.start f(1) ex_open1, unfolded k1 if_P [OF refl]]
  note run2 = vfio_run.opens [OF run1 f(2) ex_open2, unfolded k2 if_P [OF refl]]
  show ?thesis using vfio_run.maps [OF run2 _ ex_map] by auto
qed

theorem vfio_sharing_safe_witness:
  "\<exists>ev k. vfio_run \<lparr>vx_reg = empty_registry[0 := vacant], vx_handles = []\<rparr> ev (Some k) \<and> k_fds k = [] \<and> k_groups k = [] \<and> k_maps k = []"
proof -
  obtain ev where run: "vfio_run \<lparr>vx_reg = ex_shared_group 2 0x100002000, vx_handles = [ex_opened 8, ex_opened 5]\<rparr> ev
    (Some \<lparr>k_fds = [8, 5, 4, 3], k_groups = [(4, 17)], k_maps = [(3, 0x100000000, 8192)]\<rparr>)" using ex_shared by blast
  have c: "ex_opened 8 \<noteq> ex_opened 5" by (simp add: ex_opened_def)
  have run1: "vfio_run \<lparr>vx_reg = ex_shared_group 1 0x100002000, vx_handles = [ex_opened 8]\<rparr> (ev @ [Munmapped 0x7F0000000000 0x10000, Closed 5])
    (Some \<lparr>k_fds = [8, 4, 3], k_groups = [(4, 17)], k_maps = [(3, 0x100000000, 8192)]\<rparr>)"
    using vfio_run.closes [OF run _ ex_close1] c by simp
  obtain ev2 ko where run2: "vfio_run \<lparr>vx_reg = empty_registry[0 := vacant], vx_handles = []\<rparr> ev2 ko"
    using vfio_run.closes [OF run1 _ ex_close2] by (simp del: kernel_run.simps)
  then show ?thesis using vfio_sharing_safe [OF run2] by auto
qed
end
