(* ===== verification/PW_Sfp.thy ===== *)
theory PW_Sfp
  imports PW_Spi_Flash Complex_Main
begin

text \<open>
  Management of the SFP modules, \<^verbatim>\<open>sfp.c\<close>: two-wire transfers that software toggles bit by bit through one
  register of the card, reads and writes of a module's memory built from them, the write password, and the decoded
  identification. The helpers cannot return a status each, so a failed register access is latched.
\<close>

section \<open>The two lines\<close>

definition PWFPGA_REG_SFP_I2C :: u32 where "PWFPGA_REG_SFP_I2C = 0x0150"

record 'c i2c_bus =
  bus_ctx :: 'c
  bus_scl :: nat
  bus_sda :: nat
  bus_drive :: u8
  bus_err :: bool

definition i2c_apply :: "'c wr32 \<Rightarrow> 'c i2c_bus \<Rightarrow> 'c i2c_bus" where
  "i2c_apply w b =
     (case w (bus_ctx b) PWFPGA_REG_SFP_I2C (ucast (bus_drive b)) of (c, s) \<Rightarrow>
        b\<lparr>bus_ctx := c, bus_err := bus_err b \<or> s \<noteq> PW_OK\<rparr>)"

definition set_line :: "'c wr32 \<Rightarrow> nat \<Rightarrow> bool \<Rightarrow> 'c i2c_bus \<Rightarrow> 'c i2c_bus" where
  "set_line w n level b =
     i2c_apply w (b\<lparr>bus_drive := (if level then bus_drive b AND NOT (push_bit n 1) else bus_drive b OR push_bit n 1)\<rparr>)"

definition get_line :: "'c rd32 \<Rightarrow> nat \<Rightarrow> 'c i2c_bus \<Rightarrow> bool \<times> 'c i2c_bus" where
  "get_line r n b =
     (case r (bus_ctx b) PWFPGA_REG_SFP_I2C of (c, s, v) \<Rightarrow>
        (bit v (16 + n), b\<lparr>bus_ctx := c, bus_err := bus_err b \<or> s \<noteq> PW_OK\<rparr>))"

fun scl_wait :: "'c rd32 \<Rightarrow> nat \<Rightarrow> 'c i2c_bus \<Rightarrow> 'c i2c_bus" where
  "scl_wait r 0 b = b"
| "scl_wait r (Suc k) b = (case get_line r (bus_scl b) b of (high, b') \<Rightarrow> if high then b' else scl_wait r k b')"

definition scl_release_wait :: "'c wr32 \<Rightarrow> 'c rd32 \<Rightarrow> 'c i2c_bus \<Rightarrow> 'c i2c_bus" where
  "scl_release_wait w r b = scl_wait r 100 (set_line w (bus_scl b) True b)"

definition i2c_start :: "'c wr32 \<Rightarrow> 'c rd32 \<Rightarrow> 'c i2c_bus \<Rightarrow> 'c i2c_bus" where
  "i2c_start w r b =
     (let b = set_line w (bus_sda b) True b; b = scl_release_wait w r b; b = set_line w (bus_sda b) False b
      in set_line w (bus_scl b) False b)"

definition i2c_stop :: "'c wr32 \<Rightarrow> 'c rd32 \<Rightarrow> 'c i2c_bus \<Rightarrow> 'c i2c_bus" where
  "i2c_stop w r b =
     (let b = set_line w (bus_sda b) False b; b = scl_release_wait w r b in set_line w (bus_sda b) True b)"

text \<open>The loops run from bit 7 down to bit 0. The first result is the negative acknowledgement.\<close>

definition msb_first :: "nat list" where
  "msb_first = [7, 6, 5, 4, 3, 2, 1, 0]"

definition put_bit :: "'c wr32 \<Rightarrow> 'c rd32 \<Rightarrow> bool \<Rightarrow> 'c i2c_bus \<Rightarrow> 'c i2c_bus" where
  "put_bit w r x b =
     (let b = set_line w (bus_sda b) x b; b = scl_release_wait w r b in set_line w (bus_scl b) False b)"

definition i2c_write_byte :: "'c wr32 \<Rightarrow> 'c rd32 \<Rightarrow> u8 \<Rightarrow> 'c i2c_bus \<Rightarrow> bool \<times> 'c i2c_bus" where
  "i2c_write_byte w r v b =
     (let b = fold (\<lambda>i. put_bit w r (bit v i)) msb_first b;
          b = set_line w (bus_sda b) True b;
          b = scl_release_wait w r b;
          (nak, b) = get_line r (bus_sda b) b
      in (nak, set_line w (bus_scl b) False b))"

fun get_bits :: "'c wr32 \<Rightarrow> 'c rd32 \<Rightarrow> nat \<Rightarrow> u8 \<Rightarrow> 'c i2c_bus \<Rightarrow> u8 \<times> 'c i2c_bus" where
  "get_bits w r 0 v b = (v, b)"
| "get_bits w r (Suc k) v b =
     (let b = scl_release_wait w r b;
          (x, b) = get_line r (bus_sda b) b;
          b = set_line w (bus_scl b) False b
      in get_bits w r k (push_bit 1 v OR (if x then 1 else 0)) b)"

definition i2c_read_byte :: "'c wr32 \<Rightarrow> 'c rd32 \<Rightarrow> bool \<Rightarrow> 'c i2c_bus \<Rightarrow> u8 \<times> 'c i2c_bus" where
  "i2c_read_byte w r ack b =
     (let b = set_line w (bus_sda b) True b;
          (v, b) = get_bits w r 8 0 b;
          b = set_line w (bus_sda b) (\<not> ack) b;
          b = scl_release_wait w r b;
          b = set_line w (bus_scl b) False b
      in (v, set_line w (bus_sda b) True b))"

section \<open>Reading and writing a module\<close>

text \<open>The bus of a port with both lines released, and the way out of a transfer that was not acknowledged.\<close>

definition open_bus :: "'c wr32 \<Rightarrow> nat \<Rightarrow> 'c \<Rightarrow> 'c i2c_bus" where
  "open_bus w port c =
     (let b = \<lparr>bus_ctx = c, bus_scl = port * 2, bus_sda = port * 2 + 1, bus_drive = 0, bus_err = False\<rparr>
      in set_line w (bus_sda b) True (set_line w (bus_scl b) True b))"

definition nak_status :: "'c i2c_bus \<Rightarrow> pw_status" where
  "nak_status b = (if bus_err b then PW_E_BACKEND else PW_E_IO)"

definition nak_out :: "'c wr32 \<Rightarrow> 'c rd32 \<Rightarrow> 'c i2c_bus \<Rightarrow> 'c \<times> (pw_status + 'a)" where
  "nak_out w r b = (let b = i2c_stop w r b in (bus_ctx b, Inl (nak_status b)))"

fun read_bytes :: "'c wr32 \<Rightarrow> 'c rd32 \<Rightarrow> nat \<Rightarrow> 'c i2c_bus \<Rightarrow> bytes \<times> 'c i2c_bus" where
  "read_bytes w r 0 b = ([], b)"
| "read_bytes w r (Suc n) b =
     (case i2c_read_byte w r (n > 0) b of (v, b') \<Rightarrow>
        case read_bytes w r n b' of (vs, b'') \<Rightarrow> (v # vs, b''))"

definition sfp_args :: "'c wr32 option \<Rightarrow> 'c rd32 option \<Rightarrow> int \<Rightarrow> u8 \<Rightarrow> nat \<Rightarrow> pw_status + ('c wr32 \<times> 'c rd32)" where
  "sfp_args wo ro port offset len =
     (case (wo, ro) of
        (Some w, Some r) \<Rightarrow>
          if port < 0 \<or> port > 1 then Inl PW_E_INVAL
          else if unat offset + len > 256 then Inl PW_E_INVAL else Inr (w, r)
      | _ \<Rightarrow> Inl PW_E_NOT_IMPLEMENTED)"

definition pw_sfp_read ::
  "'c wr32 option \<Rightarrow> 'c rd32 option \<Rightarrow> int \<Rightarrow> u8 \<Rightarrow> u8 \<Rightarrow> nat \<Rightarrow> 'c \<Rightarrow> 'c \<times> (pw_status + bytes)" where
  "pw_sfp_read wo ro port i2c_addr offset len c =
     (case sfp_args wo ro port offset len of Inl e \<Rightarrow> (c, Inl e)
      | Inr (w, r) \<Rightarrow>
          let b = i2c_start w r (open_bus w (nat port) c);
              (n1, b) = i2c_write_byte w r (push_bit 1 i2c_addr) b in
          if n1 then nak_out w r b
          else let (n2, b) = i2c_write_byte w r offset b in
          if n2 then nak_out w r b
          else let b = i2c_start w r b;
                   (n3, b) = i2c_write_byte w r (push_bit 1 i2c_addr OR 1) b in
          if n3 then nak_out w r b
          else let (buf, b) = read_bytes w r len b;
                   b = i2c_stop w r b
               in (bus_ctx b, if bus_err b then Inl PW_E_BACKEND else Inr buf))"

text \<open>The wait for the module's write cycle: at most 50 polls of its address; a failed access ends it.\<close>

fun ack_poll :: "'c wr32 \<Rightarrow> 'c rd32 \<Rightarrow> u8 \<Rightarrow> nat \<Rightarrow> 'c i2c_bus \<Rightarrow> bool \<times> 'c i2c_bus" where
  "ack_poll w r i2c_addr 0 b = (False, b)"
| "ack_poll w r i2c_addr (Suc t) b =
     (let (nak, b) = i2c_write_byte w r (push_bit 1 i2c_addr) (i2c_start w r b);
          b = i2c_stop w r b
      in if bus_err b then (False, b) else if \<not> nak then (True, b) else ack_poll w r i2c_addr t b)"

fun write_bytes :: "'c wr32 \<Rightarrow> 'c rd32 \<Rightarrow> u8 \<Rightarrow> u8 \<Rightarrow> bytes \<Rightarrow> 'c i2c_bus \<Rightarrow> 'c \<times> (pw_status + unit)" where
  "write_bytes w r i2c_addr offset [] b = (bus_ctx b, Inr ())"
| "write_bytes w r i2c_addr offset (v # vs) b =
     (let (n1, b) = i2c_write_byte w r (push_bit 1 i2c_addr) (i2c_start w r b) in
      if n1 then nak_out w r b
      else let (n2, b) = i2c_write_byte w r offset b in
      if n2 then nak_out w r b
      else let (n3, b) = i2c_write_byte w r v b in
      if n3 then nak_out w r b
      else let (done, b) = ack_poll w r i2c_addr 50 (i2c_stop w r b) in
      if bus_err b then (bus_ctx b, Inl PW_E_BACKEND)
      else if \<not> done then (bus_ctx b, Inl PW_E_IO)
      else write_bytes w r i2c_addr (offset + 1) vs b)"

definition pw_sfp_write ::
  "'c wr32 option \<Rightarrow> 'c rd32 option \<Rightarrow> int \<Rightarrow> u8 \<Rightarrow> u8 \<Rightarrow> bytes \<Rightarrow> 'c \<Rightarrow> 'c \<times> (pw_status + unit)" where
  "pw_sfp_write wo ro port i2c_addr offset buf c =
     (case sfp_args wo ro port offset (length buf) of Inl e \<Rightarrow> (c, Inl e)
      | Inr (w, r) \<Rightarrow> write_bytes w r i2c_addr offset buf (open_bus w (nat port) c))"

section \<open>Passwords and identification\<close>

definition SFP_PW_ADDR :: u8 where "SFP_PW_ADDR = 0x51"
definition SFP_PW_OFFSET :: u8 where "SFP_PW_OFFSET = 0x7B"
definition SFP_PW_TEST_ADDR :: u8 where "SFP_PW_TEST_ADDR = 0x50"
definition SFP_PW_TEST_OFF :: u8 where "SFP_PW_TEST_OFF = 0x3B"

definition pw_sfp_unlock :: "'c wr32 option \<Rightarrow> 'c rd32 option \<Rightarrow> int \<Rightarrow> u32 \<Rightarrow> 'c \<Rightarrow> 'c \<times> (pw_status + unit)" where
  "pw_sfp_unlock wo ro port password =
     pw_sfp_write wo ro port SFP_PW_ADDR SFP_PW_OFFSET
       [ucast (drop_bit 24 password), ucast (drop_bit 16 password), ucast (drop_bit 8 password), ucast password]"

definition pw_sfp_try_write_password ::
  "'c wr32 option \<Rightarrow> 'c rd32 option \<Rightarrow> int \<Rightarrow> u32 \<Rightarrow> 'c \<Rightarrow> 'c \<times> (pw_status + bool)" where
  "pw_sfp_try_write_password wo ro port password c =
     (case pw_sfp_unlock wo ro port password c of (c, Inl s) \<Rightarrow> (c, Inl s)
      | (c, Inr _) \<Rightarrow>
          (case pw_sfp_read wo ro port SFP_PW_TEST_ADDR SFP_PW_TEST_OFF 1 c of (c, Inl _) \<Rightarrow> (c, Inl PW_E_IO)
           | (c, Inr buf) \<Rightarrow>
               let orig = buf ! 0; test = orig XOR 0xFF in
               (case pw_sfp_write wo ro port SFP_PW_TEST_ADDR SFP_PW_TEST_OFF [test] c of (c, Inl _) \<Rightarrow> (c, Inr False)
                | (c, Inr _) \<Rightarrow>
                    (case pw_sfp_read wo ro port SFP_PW_TEST_ADDR SFP_PW_TEST_OFF 1 c of (c, Inl _) \<Rightarrow> (c, Inl PW_E_IO)
                     | (c, Inr rb) \<Rightarrow>
                         if rb ! 0 = test
                         then (fst (pw_sfp_write wo ro port SFP_PW_TEST_ADDR SFP_PW_TEST_OFF [orig] c), Inr True)
                         else (c, Inr False)))))"

text \<open>An ASCII field: what the C string in the destination is, trailing blanks and NULs removed.\<close>

definition copy_ascii :: "nat \<Rightarrow> bytes \<Rightarrow> bytes" where
  "copy_ascii dst_sz src =
     takeWhile (\<lambda>x. x \<noteq> 0) (rev (dropWhile (\<lambda>x. x = 0x20 \<or> x = 0) (rev (take (dst_sz - 1) src))))"

text \<open>
  The diagnostics are rational numbers; the source computes with doubles, whose rounding is not modelled.
\<close>

record pw_sfp_dom =
  dom_temp_c :: rat
  dom_vcc_v :: rat
  dom_tx_bias_ma :: rat
  dom_tx_power_mw :: rat
  dom_rx_power_mw :: rat

record pw_sfp_info =
  sfp_identifier :: u8
  sfp_connector :: u8
  sfp_br_nominal :: u8
  sfp_vendor :: bytes
  sfp_part :: bytes
  sfp_revision :: bytes
  sfp_serial :: bytes
  sfp_date_code :: bytes
  sfp_dom_supported :: bool
  sfp_dom_external_cal :: bool
  sfp_dom :: "pw_sfp_dom option"

definition be16_at :: "bytes \<Rightarrow> nat \<Rightarrow> u16" where
  "be16_at p i = be16 (p ! i) (p ! (i + 1))"

definition dom_values :: "bytes \<Rightarrow> pw_sfp_dom" where
  "dom_values a2 =
     \<lparr>dom_temp_c = of_int (sint (be16_at a2 0)) / 256, dom_vcc_v = of_nat (unat (be16_at a2 2)) / 10000,
      dom_tx_bias_ma = of_nat (unat (be16_at a2 4)) / 500, dom_tx_power_mw = of_nat (unat (be16_at a2 6)) / 10000,
      dom_rx_power_mw = of_nat (unat (be16_at a2 8)) / 10000\<rparr>"

definition sfp_identity :: "bytes \<Rightarrow> pw_sfp_info" where
  "sfp_identity a0 =
     \<lparr>sfp_identifier = a0 ! 0, sfp_connector = a0 ! 2, sfp_br_nominal = a0 ! 12,
      sfp_vendor = copy_ascii 17 (take 16 (drop 20 a0)), sfp_part = copy_ascii 17 (take 16 (drop 40 a0)),
      sfp_revision = copy_ascii 5 (take 4 (drop 56 a0)), sfp_serial = copy_ascii 17 (take 16 (drop 68 a0)),
      sfp_date_code = copy_ascii 9 (take 8 (drop 84 a0)),
      sfp_dom_supported = (a0 ! 92 AND 0x40 \<noteq> 0), sfp_dom_external_cal = (a0 ! 92 AND 0x10 \<noteq> 0), sfp_dom = None\<rparr>"

text \<open>The result: a status, or nothing for an empty cage, or the module.\<close>

definition pw_sfp_probe :: "'c wr32 option \<Rightarrow> 'c rd32 option \<Rightarrow> int \<Rightarrow> 'c \<Rightarrow> 'c \<times> (pw_status + pw_sfp_info option)" where
  "pw_sfp_probe wo ro port c =
     (case pw_sfp_read wo ro port 0x50 0 96 c of
        (c, Inl s) \<Rightarrow> (c, if s = PW_E_IO then Inr None else Inl s)
      | (c, Inr a0) \<Rightarrow>
          let info = sfp_identity a0 in
          if sfp_dom_supported info \<and> \<not> sfp_dom_external_cal info
          then (case pw_sfp_read wo ro port 0x51 96 10 c of
                  (c, Inl _) \<Rightarrow> (c, Inr (Some info))
                | (c, Inr a2) \<Rightarrow> (c, Inr (Some (info\<lparr>sfp_dom := Some (dom_values a2)\<rparr>))))
          else (c, Inr (Some info)))"

section \<open>Failed accesses are not acknowledgements\<close>

text \<open>
  A card that remembers whether an access has failed so far. The bus on such a card is determined by the bus on the
  card itself: all that the code keeps is the same, and the latch of the code is the memory of the card.
\<close>

definition watch_w :: "'c wr32 \<Rightarrow> ('c \<times> bool) wr32" where
  "watch_w w c a v = (case w (fst c) a v of (c', s) \<Rightarrow> ((c', snd c \<or> s \<noteq> PW_OK), s))"

definition watch_r :: "'c rd32 \<Rightarrow> ('c \<times> bool) rd32" where
  "watch_r r c a = (case r (fst c) a of (c', s, v) \<Rightarrow> ((c', snd c \<or> s \<noteq> PW_OK), s, v))"

definition watch :: "'c i2c_bus \<Rightarrow> ('c \<times> bool) i2c_bus" where
  "watch b =
     \<lparr>bus_ctx = (bus_ctx b, bus_err b), bus_scl = bus_scl b, bus_sda = bus_sda b, bus_drive = bus_drive b,
      bus_err = bus_err b\<rparr>"

named_theorems watched

lemma watch_sel [watched]: "bus_scl (watch b) = bus_scl b" "bus_sda (watch b) = bus_sda b" "bus_err (watch b) = bus_err b"
    "bus_ctx (watch b) = (bus_ctx b, bus_err b)"
  by (simp_all add: watch_def)

lemma watch_set [watched]: "set_line (watch_w w) n x (watch b) = watch (set_line w n x b)"
  by (simp add: set_line_def i2c_apply_def watch_w_def watch_def split: prod.split)

lemma watch_get [watched]: "get_line (watch_r r) n (watch b) = map_prod id watch (get_line r n b)"
  by (simp add: get_line_def watch_r_def watch_def split: prod.split)

lemma watch_wait: "scl_wait (watch_r r) k (watch b) = watch (scl_wait r k b)"
  by (induction k arbitrary: b) (simp_all add: watched split_beta map_prod_def)

lemma watch_release [watched]: "scl_release_wait (watch_w w) (watch_r r) (watch b) = watch (scl_release_wait w r b)"
  by (simp add: scl_release_wait_def watched watch_wait)

lemma watch_start [watched]: "i2c_start (watch_w w) (watch_r r) (watch b) = watch (i2c_start w r b)"
  by (simp add: i2c_start_def watched Let_def)

lemma watch_stop [watched]: "i2c_stop (watch_w w) (watch_r r) (watch b) = watch (i2c_stop w r b)"
  by (simp add: i2c_stop_def watched Let_def)

lemma watch_put [watched]: "put_bit (watch_w w) (watch_r r) x (watch b) = watch (put_bit w r x b)"
  by (simp add: put_bit_def watched Let_def)

lemma watch_puts [watched]:
  "fold (\<lambda>i. put_bit (watch_w w) (watch_r r) (p i)) is (watch b) = watch (fold (\<lambda>i. put_bit w r (p i)) is b)"
  by (induction "is" arbitrary: b) (simp_all add: watched)

lemma watch_write [watched]:
  "i2c_write_byte (watch_w w) (watch_r r) v (watch b) = map_prod id watch (i2c_write_byte w r v b)"
  by (simp add: i2c_write_byte_def watched Let_def split_beta map_prod_def)

lemma watch_bits [watched]: "get_bits (watch_w w) (watch_r r) k v (watch b) = map_prod id watch (get_bits w r k v b)"
  by (induction k arbitrary: v b) (simp_all add: watched Let_def split_beta map_prod_def)

lemma watch_read [watched]:
  "i2c_read_byte (watch_w w) (watch_r r) k (watch b) = map_prod id watch (i2c_read_byte w r k b)"
  by (simp add: i2c_read_byte_def watched Let_def split_beta map_prod_def)

lemma watch_reads [watched]:
  "read_bytes (watch_w w) (watch_r r) n (watch b) = map_prod id watch (read_bytes w r n b)"
  by (induction n arbitrary: b) (simp_all add: watched split_beta map_prod_def)

lemma watch_poll [watched]:
  "ack_poll (watch_w w) (watch_r r) addr n (watch b) = map_prod id watch (ack_poll w r addr n b)"
  by (induction n arbitrary: b) (simp_all add: watched Let_def split_beta map_prod_def)

lemma watch_open [watched]: "open_bus (watch_w w) port (c, False) = watch (open_bus w port c)"
proof -
  have "\<lparr>bus_ctx = (c, False), bus_scl = port * 2, bus_sda = port * 2 + 1, bus_drive = 0, bus_err = False\<rparr> =
      watch \<lparr>bus_ctx = c, bus_scl = port * 2, bus_sda = port * 2 + 1, bus_drive = 0, bus_err = False\<rparr>"
    by (simp add: watch_def)
  then show ?thesis by (simp add: open_bus_def Let_def watched)
qed

text \<open>
  The outcome of a transfer on a watched card: \<open>PW_E_BACKEND\<close> exactly when an access has failed,
  and otherwise only \<open>PW_E_IO\<close>.
\<close>

definition honest :: "('c \<times> bool) \<times> (pw_status + 'a) \<Rightarrow> 'c \<times> (pw_status + 'a) \<Rightarrow> bool" where
  "honest o1 o2 \<longleftrightarrow>
     (case o1 of ((c, fault), res) \<Rightarrow>
        o2 = (c, res) \<and> (fault \<longleftrightarrow> res = Inl PW_E_BACKEND) \<and> (\<forall>e. res = Inl e \<longrightarrow> e \<in> {PW_E_BACKEND, PW_E_IO}))"

lemma honest_nak: "honest (nak_out (watch_w w) (watch_r r) (watch b)) (nak_out w r b)"
  by (simp add: nak_out_def nak_status_def honest_def watched Let_def)

lemma read_honest:
  assumes "sfp_args (Some w) (Some r) port off len = Inr (w, r)"
  shows "honest (pw_sfp_read (Some (watch_w w)) (Some (watch_r r)) port addr off len (c, False))
           (pw_sfp_read (Some w) (Some r) port addr off len c)"
proof -
  from assms have "sfp_args (Some (watch_w w)) (Some (watch_r r)) port off len = Inr (watch_w w, watch_r r)"
    by (simp add: sfp_args_def split: if_splits)
  with assms show ?thesis
    by (simp add: pw_sfp_read_def watched Let_def split_beta map_prod_def honest_nak) (simp add: honest_def)
qed

lemma writes_honest:
  "vs \<noteq> [] \<or> \<not> bus_err b \<Longrightarrow>
    honest (write_bytes (watch_w w) (watch_r r) addr off vs (watch b)) (write_bytes w r addr off vs b)"
proof (induction vs arbitrary: off b)
  case Nil
  then show ?case by (simp add: honest_def watched)
next
  case (Cons v vs)
  show ?case
    by (simp add: watched Let_def split_beta map_prod_def honest_nak Cons.IH) (simp add: honest_def)
qed

lemma write_honest:
  assumes "sfp_args (Some w) (Some r) port off (length vs) = Inr (w, r)" "vs \<noteq> []"
  shows "honest (pw_sfp_write (Some (watch_w w)) (Some (watch_r r)) port addr off vs (c, False))
           (pw_sfp_write (Some w) (Some r) port addr off vs c)"
proof -
  from assms have "sfp_args (Some (watch_w w)) (Some (watch_r r)) port off (length vs) = Inr (watch_w w, watch_r r)"
    by (simp add: sfp_args_def split: if_splits)
  with assms show ?thesis by (simp add: pw_sfp_write_def watched writes_honest)
qed

lemma probe_honest:
  assumes "port = 0 \<or> port = 1"
    "pw_sfp_probe (Some (watch_w w)) (Some (watch_r r)) port (c, False) = ((c', fault), Inr None)"
  shows "\<not> fault"
proof -
  have "honest (pw_sfp_read (Some (watch_w w)) (Some (watch_r r)) port 0x50 0 96 (c, False))
      (pw_sfp_read (Some w) (Some r) port 0x50 0 96 c)"
    using assms(1) by (intro read_honest) (auto simp: sfp_args_def)
  with assms(2) show ?thesis
    by (auto simp: pw_sfp_probe_def honest_def Let_def split: prod.splits sum.splits if_splits)
qed


text \<open>A card whose third access and all later ones fail.\<close>

definition tired_w :: "nat wr32" where "tired_w n a v = (Suc n, if n < 2 then PW_OK else PW_E_IO)"
definition tired_r :: "nat rd32" where "tired_r n a = (Suc n, if n < 2 then PW_OK else PW_E_IO, 0)"


end
