(* ===== verification/PW_Sfp_Module.thy ===== *)
theory PW_Sfp_Module
  imports PW_Sfp
begin

text \<open>
  What the transfers of \<^verbatim>\<open>sfp.c\<close> do to a module: a model of the memory of an SFP module behind the two
  lines of its cage, the contract \<open>cage\<close> between the register of the card and such a module, and the reads,
  writes and password probes of the code as operations on the memory. The register side is the one of
  \<^verbatim>\<open>pw_csr_full.sv\<close>; the module follows the two-wire protocol and the password entry of SFF-8472 that
  the comments of \<^verbatim>\<open>sfp.c\<close> describe. Modules do not stretch the clock.
\<close>

section \<open>The memory of a module\<close>

text \<open>
  The phase of the protocol: nothing addressed, a byte being received with the bits so far, its acknowledgement with
  what is received next (or the start of a read), a byte being sent with the bits left, its acknowledgement by
  the host before and after the clock rose.
\<close>

datatype role = Addr | Offset | Data

datatype phase = Quiet | Rx role "bool list" | RxAck role | ReadAck | Tx "bool list" | TxAck | TxAcked

text \<open>
  A write is kept until the stop condition commits it, and then the module does not answer the next
  \<open>ee_cycle\<close> times it is addressed. A protected module keeps only the password entry unless that
  entry holds the password.
\<close>

record eeprom =
  ee_phase :: phase
  ee_dev :: u8
  ee_ptr :: u8
  ee_mem :: "u8 \<Rightarrow> u8 \<Rightarrow> u8"
  ee_late :: "(u8 \<times> u8 \<times> u8) list"
  ee_busy :: nat
  ee_cycle :: nat
  ee_secret :: "u32 option"

definition pw_entry :: "u8 \<Rightarrow> u8 \<Rightarrow> bool" where
  "pw_entry a i \<longleftrightarrow> a = 0x51 \<and> 0x7B \<le> i \<and> i \<le> 0x7E"

definition entered :: "eeprom \<Rightarrow> u32" where
  "entered m =
     be32 (ee_mem m 0x51 0x7B) (ee_mem m 0x51 0x7C) (ee_mem m 0x51 0x7D) (ee_mem m 0x51 0x7E)"

definition unlocked :: "eeprom \<Rightarrow> bool" where
  "unlocked m = (case ee_secret m of None \<Rightarrow> True | Some s \<Rightarrow> entered m = s)"

definition peek :: "eeprom \<Rightarrow> u8 \<Rightarrow> u8 \<Rightarrow> u8" where
  "peek m a i = (if pw_entry a i then 0xFF else ee_mem m a i)"

definition commit :: "u8 \<times> u8 \<times> u8 \<Rightarrow> eeprom \<Rightarrow> eeprom" where
  "commit = (\<lambda>(a, i, v) m.
     if pw_entry a i \<or> unlocked m then m\<lparr>ee_mem := (ee_mem m)(a := (ee_mem m a)(i := v))\<rparr> else m)"

definition byte_of :: "bool list \<Rightarrow> u8" where
  "byte_of bits = horner_sum of_bool 2 (rev bits)"

definition bits_of :: "u8 \<Rightarrow> bool list" where
  "bits_of v = map (bit v) msb_first"

definition received :: "role \<Rightarrow> u8 \<Rightarrow> eeprom \<Rightarrow> eeprom" where
  "received ro v m =
     (case ro of
        Addr \<Rightarrow>
          if ee_busy m > 0 then m\<lparr>ee_phase := Quiet, ee_busy := ee_busy m - 1\<rparr>
          else let a = drop_bit 1 v in
               if a = 0x50 \<or> a = 0x51
               then m\<lparr>ee_phase := (if bit v 0 then ReadAck else RxAck Offset), ee_dev := a\<rparr>
               else m\<lparr>ee_phase := Quiet\<rparr>
      | Offset \<Rightarrow> m\<lparr>ee_phase := RxAck Data, ee_ptr := v\<rparr>
      | Data \<Rightarrow> m\<lparr>ee_phase := RxAck Data, ee_late := ee_late m @ [(ee_dev m, ee_ptr m, v)], ee_ptr := ee_ptr m + 1\<rparr>)"

definition load :: "eeprom \<Rightarrow> eeprom" where
  "load m = m\<lparr>ee_phase := Tx (bits_of (peek m (ee_dev m) (ee_ptr m))), ee_ptr := ee_ptr m + 1\<rparr>"

text \<open>Whether the module lets the data line go up, and what it does on each event of the lines.\<close>

definition ee_out :: "eeprom \<Rightarrow> bool" where
  "ee_out m = (case ee_phase m of RxAck _ \<Rightarrow> False | ReadAck \<Rightarrow> False | Tx (x # _) \<Rightarrow> x | _ \<Rightarrow> True)"

definition ee_start :: "eeprom \<Rightarrow> eeprom" where
  "ee_start m = m\<lparr>ee_phase := Rx Addr [], ee_late := []\<rparr>"

definition ee_stop :: "eeprom \<Rightarrow> eeprom" where
  "ee_stop m =
     (if ee_late m = [] then m\<lparr>ee_phase := Quiet\<rparr>
      else (fold commit (ee_late m) m)\<lparr>ee_phase := Quiet, ee_late := [], ee_busy := ee_cycle m\<rparr>)"

definition ee_rise :: "bool \<Rightarrow> eeprom \<Rightarrow> eeprom" where
  "ee_rise sda m =
     (case ee_phase m of Rx ro xs \<Rightarrow> m\<lparr>ee_phase := Rx ro (xs @ [sda])\<rparr>
      | TxAck \<Rightarrow> m\<lparr>ee_phase := (if sda then Quiet else TxAcked)\<rparr> | _ \<Rightarrow> m)"

definition ee_fall :: "eeprom \<Rightarrow> eeprom" where
  "ee_fall m =
     (case ee_phase m of
        Rx ro xs \<Rightarrow> if length xs = 8 then received ro (byte_of xs) m else m
      | RxAck ro \<Rightarrow> m\<lparr>ee_phase := Rx ro []\<rparr>
      | ReadAck \<Rightarrow> load m
      | Tx xs \<Rightarrow> if length xs \<le> 1 then m\<lparr>ee_phase := TxAck\<rparr> else m\<lparr>ee_phase := Tx (drop 1 xs)\<rparr>
      | TxAcked \<Rightarrow> load m
      | _ \<Rightarrow> m)"

section \<open>The lines of a cage\<close>

text \<open>An empty cage drives nothing. The lines are open drain: up only when neither side pulls them down.\<close>

definition cage_out :: "eeprom option \<Rightarrow> bool" where
  "cage_out m = (case m of None \<Rightarrow> True | Some m \<Rightarrow> ee_out m)"

definition cage_step :: "bool \<Rightarrow> bool \<Rightarrow> bool \<Rightarrow> bool \<Rightarrow> eeprom option \<Rightarrow> eeprom option" where
  "cage_step scl sda scl' sda' mo = map_option (\<lambda>m.
     if scl \<and> scl' then
       (let old = sda \<and> ee_out m; new = sda' \<and> ee_out m in
        if old \<and> \<not> new then ee_start m else if \<not> old \<and> new then ee_stop m else m)
     else if \<not> scl \<and> scl' then ee_rise (sda' \<and> ee_out m) m
     else if scl \<and> \<not> scl' then ee_fall m else m) mo"

lemma set_line_scl [simp]: "bus_scl (set_line w n x b) = bus_scl b" "bus_sda (set_line w n x b) = bus_sda b"
  by (simp_all add: set_line_def i2c_apply_def split: prod.split)

lemma scl_wait_up: "get_line r (bus_scl b) b = (True, b) \<Longrightarrow> scl_wait r (Suc k) b = b"
  by simp

named_theorems lines

lemma step_rise [lines]: "cage_step False d True d mo = map_option (\<lambda>m. ee_rise (d \<and> ee_out m) m) mo"
  by (simp add: cage_step_def)

lemma step_fall [lines]: "cage_step True d False d mo = map_option ee_fall mo"
  by (simp add: cage_step_def)

lemma step_low [lines]: "cage_step False d False d' mo = mo"
  by (simp add: cage_step_def option.map_ident)

lemma step_same [lines]: "cage_step True d True d mo = mo"
  by (cases mo) (auto simp: cage_step_def Let_def)

definition listens :: "eeprom \<Rightarrow> bool" where
  "listens m \<longleftrightarrow> ee_phase m = Quiet \<or> (\<exists>ro xs. ee_phase m = Rx ro xs)"

lemma listens_out: "listens m \<Longrightarrow> ee_out m"
  by (auto simp: listens_def ee_out_def)

lemma listens_rise: "listens m \<Longrightarrow> listens (ee_rise y m)"
  by (auto simp: listens_def ee_rise_def)

lemma ee_start_rise [simp]: "listens m \<Longrightarrow> ee_start (ee_rise y m) = ee_start m"
  by (auto simp: listens_def ee_rise_def ee_start_def)

lemma unlocked_phase [simp]: "unlocked (m\<lparr>ee_phase := ph\<rparr>) = unlocked m"
  by (simp add: unlocked_def entered_def split: option.split)

lemma commit_phase: "commit x (m\<lparr>ee_phase := ph\<rparr>) = (commit x m)\<lparr>ee_phase := ph\<rparr>"
  by (simp add: commit_def split: prod.split)

lemma commits_phase: "fold commit xs (m\<lparr>ee_phase := ph\<rparr>) = (fold commit xs m)\<lparr>ee_phase := ph\<rparr>"
  by (induction xs arbitrary: m) (simp_all add: commit_phase)

lemma ee_stop_rise [simp]: "listens m \<Longrightarrow> ee_stop (ee_rise y m) = ee_stop m"
  by (auto simp: listens_def ee_rise_def ee_stop_def commits_phase)

lemma ee_fall_start [simp]: "ee_fall (ee_start m) = ee_start m"
  by (simp add: ee_fall_def ee_start_def)

text \<open>Bytes on the data line, most significant bit first.\<close>

lemma bits_length [simp]: "length (bits_of v) = 8"
  by (simp add: bits_of_def msb_first_def)

lemma byte_of_bits [simp]: "byte_of (bits_of v) = v"
proof -
  have "rev (bits_of v) = map (bit v) [0..<8]"
    by (simp add: bits_of_def msb_first_def upt_rec eval_nat_numeral)
  then show ?thesis by (simp add: byte_of_def horner_sum_bit_eq_take_bit word_size_gt_0 take_bit_word_eq_self)
qed

lemma shifted_bits: "foldl (\<lambda>v x. push_bit 1 v OR (if x then 1 else 0)) 0 (bits_of v) = v"
proof -
  have step: "push_bit 1 u OR (if x then 1 else 0) = of_bool x + 2 * u" for u :: u8 and x
    by (cases x) (simp_all add: or_one_eq)
  have "foldl (\<lambda>v x. push_bit 1 v OR (if x then 1 else 0)) 0 xs = byte_of xs" for xs
    by (simp only: byte_of_def horner_sum_foldr foldr_conv_foldl rev_rev_ident step)
  then show ?thesis by simp
qed

lemma received_phase [simp]: "received ro v (m\<lparr>ee_phase := q\<rparr>) = received ro v m"
  by (simp add: received_def Let_def split: role.split)

lemma received_rise [simp]: "ee_rise y (received ro v m) = received ro v m"
  by (simp add: received_def ee_rise_def Let_def split: role.split)

lemma rx_bit: "ee_phase m = Rx ro xs \<Longrightarrow>
  ee_fall (ee_rise (y \<and> ee_out m) m) =
    (if length xs = 7 then received ro (byte_of (xs @ [y])) m else m\<lparr>ee_phase := Rx ro (xs @ [y])\<rparr>)"
  by (simp add: ee_rise_def ee_fall_def ee_out_def)

lemma tx_out [simp]: "ee_phase m = Tx (y # ys) \<Longrightarrow> ee_out m = y"
  by (simp add: ee_out_def)

lemma tx_rise [simp]: "ee_phase m = Tx ys \<Longrightarrow> ee_rise z m = m"
  by (simp add: ee_rise_def)

definition idle_after :: "eeprom \<Rightarrow> nat \<Rightarrow> eeprom" where
  "idle_after m n = m\<lparr>ee_phase := Quiet, ee_ptr := ee_ptr m + of_nat n\<rparr>"

text \<open>A module at rest, and the addresses it answers.\<close>

definition at_rest :: "eeprom \<Rightarrow> bool" where
  "at_rest m \<longleftrightarrow> ee_phase m = Quiet \<and> ee_late m = [] \<and> ee_busy m = 0"

lemma addr_bytes:
  assumes "a = (0x50 :: u8) \<or> a = 0x51"
  shows "drop_bit 1 (push_bit 1 a) = a" "\<not> bit (push_bit 1 a) 0"
    "drop_bit 1 (push_bit 1 a OR 1) = a" "bit (push_bit 1 a OR 1) 0"
  using assms by (auto simp: bit_simps drop_bit_eq_div)

lemma received_addr:
  assumes "a = 0x50 \<or> a = 0x51" "ee_busy m = 0"
  shows "received Addr (push_bit 1 a) m = m\<lparr>ee_phase := RxAck Offset, ee_dev := a\<rparr>"
    "received Addr (push_bit 1 a OR 1) m = m\<lparr>ee_phase := ReadAck, ee_dev := a\<rparr>"
  using assms addr_bytes [OF assms(1)] by (simp_all add: received_def Let_def)

lemma received_offset: "received Offset v m = m\<lparr>ee_phase := RxAck Data, ee_ptr := v\<rparr>"
  by (simp add: received_def)

lemma received_data:
  "received Data v m = m\<lparr>ee_phase := RxAck Data, ee_late := ee_late m @ [(ee_dev m, ee_ptr m, v)], ee_ptr := ee_ptr m + 1\<rparr>"
  by (simp add: received_def)

lemmas received_ack = received_addr received_offset received_data

lemma ack_fall [simp]: "ee_phase m = RxAck ro \<Longrightarrow> ee_fall m = m\<lparr>ee_phase := Rx ro []\<rparr>"
    "ee_phase m = ReadAck \<Longrightarrow> ee_fall m = load m"
  by (simp_all add: ee_fall_def)

lemma ack_out [simp]: "ee_phase m = RxAck ro \<Longrightarrow> \<not> ee_out m" "ee_phase m = ReadAck \<Longrightarrow> \<not> ee_out m"
  by (simp_all add: ee_out_def)

fun stores :: "u8 \<Rightarrow> u8 \<Rightarrow> bytes \<Rightarrow> (u8 \<times> u8 \<times> u8) list" where
  "stores a i [] = []"
| "stores a i (v # vs) = (a, i, v) # stores a (i + 1) vs"

lemma commit_sel [simp]: "ee_phase (commit x m) = ee_phase m" "ee_late (commit x m) = ee_late m"
    "ee_busy (commit x m) = ee_busy m" "ee_cycle (commit x m) = ee_cycle m" "ee_secret (commit x m) = ee_secret m"
  by (simp_all add: commit_def split: prod.split)

lemma unlocked_at [simp]: "unlocked (m\<lparr>ee_dev := d\<rparr>) = unlocked m" "unlocked (m\<lparr>ee_ptr := q\<rparr>) = unlocked m"
    "unlocked (m\<lparr>ee_late := l\<rparr>) = unlocked m"
  by (simp_all add: unlocked_def entered_def split: option.split)

lemma commit_at: "commit x (m\<lparr>ee_dev := d, ee_ptr := q\<rparr>) = (commit x m)\<lparr>ee_dev := d, ee_ptr := q\<rparr>"
  by (simp add: commit_def split: prod.split)

lemma commits_at: "fold commit xs (m\<lparr>ee_dev := d, ee_ptr := q\<rparr>) = (fold commit xs m)\<lparr>ee_dev := d, ee_ptr := q\<rparr>"
  by (induction xs arbitrary: m) (simp_all add: commit_at)

text \<open>The bus of the code for cage \<open>p\<close>: the shadow of the register, the lines and the module agree.\<close>

definition on_bus ::
  "('c \<Rightarrow> bool \<times> bool \<times> eeprom option) \<Rightarrow> ('c \<Rightarrow> 'x) \<Rightarrow> nat \<Rightarrow> 'x \<Rightarrow> 'c i2c_bus \<Rightarrow> bool \<Rightarrow> bool \<Rightarrow> eeprom option \<Rightarrow> bool" where
  "on_bus view rest p x b scl sda m \<longleftrightarrow>
     bus_scl b = 2 * p \<and> bus_sda b = 2 * p + 1 \<and> \<not> bus_err b \<and>
     bus_drive b = (if scl then 0 else push_bit (2 * p) 1) OR (if sda then 0 else push_bit (2 * p + 1) 1) \<and>
     view (bus_ctx b) = (scl, sda, m) \<and> rest (bus_ctx b) = x"

text \<open>
  The contract of the register with the module in cage \<open>p\<close>: a write that drives at most the two lines
  of the cage moves the lines and the module, and nothing else of the card; a read shows the lines.
\<close>

locale cage =
  fixes w :: "'c wr32" and r :: "'c rd32" and p :: nat
    and view :: "'c \<Rightarrow> bool \<times> bool \<times> eeprom option" and rest :: "'c \<Rightarrow> 'x" and released :: "'x \<Rightarrow> bool"
  assumes port: "p \<le> 1"
    and wr: "released (rest c) \<Longrightarrow> view c = (scl, sda, m) \<Longrightarrow>
      d = (if scl' then 0 else push_bit (2 * p) 1) OR (if sda' then 0 else push_bit (2 * p + 1) 1) \<Longrightarrow>
      \<exists>c'. w c PWFPGA_REG_SFP_I2C (ucast (d :: u8)) = (c', PW_OK) \<and>
        view c' = (scl', sda', cage_step scl sda scl' sda' m) \<and> rest c' = rest c"
    and rd: "view c = (scl, sda, m) \<Longrightarrow>
      \<exists>v. r c PWFPGA_REG_SFP_I2C = (c, PW_OK, v) \<and> bit v (16 + 2 * p) = scl \<and>
        bit v (16 + (2 * p + 1)) = (sda \<and> cage_out m)"
begin

lemma set_scl:
  assumes "on_bus view rest p x b scl sda m" "released x"
  shows "on_bus view rest p x (set_line w (bus_scl b) k b) k sda (cage_step scl sda k sda m)"
proof -
  define d where "d = (if k then 0 else push_bit (2 * p) 1) OR (if sda then 0 else push_bit (2 * p + 1) (1 :: u8))"
  have d: "(if k then bus_drive b AND NOT (push_bit (2 * p) 1) else bus_drive b OR push_bit (2 * p) 1) = d"
    using port assms(1) by (auto simp: d_def on_bus_def le_Suc_eq)
  from assms obtain c' where "w (bus_ctx b) PWFPGA_REG_SFP_I2C (ucast d) = (c', PW_OK)"
      "view c' = (k, sda, cage_step scl sda k sda m)" "rest c' = x"
    using wr [of "bus_ctx b" scl sda m d k sda] by (auto simp: on_bus_def d_def)
  moreover have "bus_scl b = 2 * p" using assms(1) by (simp add: on_bus_def)
  then have "set_line w (bus_scl b) k b = i2c_apply w (b\<lparr>bus_drive := d\<rparr>)" by (simp only: set_line_def d)
  ultimately show ?thesis
    using assms(1) by (simp add: on_bus_def i2c_apply_def) (simp add: d_def)
qed

lemma set_sda:
  assumes "on_bus view rest p x b scl sda m" "released x"
  shows "on_bus view rest p x (set_line w (bus_sda b) k b) scl k (cage_step scl sda scl k m)"
proof -
  define d where "d = (if scl then 0 else push_bit (2 * p) 1) OR (if k then 0 else push_bit (2 * p + 1) (1 :: u8))"
  have d: "(if k then bus_drive b AND NOT (push_bit (2 * p + 1) 1) else bus_drive b OR push_bit (2 * p + 1) 1) = d"
    using port assms(1) by (auto simp: d_def on_bus_def le_Suc_eq)
  from assms obtain c' where "w (bus_ctx b) PWFPGA_REG_SFP_I2C (ucast d) = (c', PW_OK)"
      "view c' = (scl, k, cage_step scl sda scl k m)" "rest c' = x"
    using wr [of "bus_ctx b" scl sda m d scl k] by (auto simp: on_bus_def d_def)
  moreover have "bus_sda b = 2 * p + 1" using assms(1) by (simp add: on_bus_def)
  then have "set_line w (bus_sda b) k b = i2c_apply w (b\<lparr>bus_drive := d\<rparr>)" by (simp only: set_line_def d)
  ultimately show ?thesis
    using assms(1) by (simp add: on_bus_def i2c_apply_def) (simp add: d_def)
qed

lemma get_scl:
  assumes "on_bus view rest p x b scl sda m"
  shows "get_line r (bus_scl b) b = (scl, b)"
  using assms rd [of "bus_ctx b" scl sda m] by (auto simp: on_bus_def get_line_def)

lemma get_sda:
  assumes "on_bus view rest p x b scl sda m"
  shows "get_line r (bus_sda b) b = (sda \<and> cage_out m, b)"
  using assms rd [of "bus_ctx b" scl sda m] by (auto simp: on_bus_def get_line_def)

lemma release:
  assumes "on_bus view rest p x b scl sda m" "released x"
  shows "on_bus view rest p x (scl_release_wait w r b) True sda (cage_step scl sda True sda m)"
proof -
  have "scl_wait r (Suc 99) (set_line w (bus_scl b) True b) = set_line w (bus_scl b) True b"
    using get_scl [OF set_scl [OF assms, of True]] by (intro scl_wait_up) simp
  then have "scl_release_wait w r b = set_line w (bus_scl b) True b" by (simp add: scl_release_wait_def)
  with set_scl [OF assms, of True] show ?thesis by simp
qed

text \<open>Bits, bytes and conditions, from the low clock between two bits.\<close>

lemma put:
  assumes "on_bus view rest p x b False sda m" "released x"
  shows "on_bus view rest p x (put_bit w r y b) False y
           (map_option (\<lambda>m. ee_fall (ee_rise (y \<and> ee_out m) m)) m)"
proof -
  note a = set_sda [OF assms, of y, unfolded lines]
  note b = release [OF a assms(2), unfolded lines]
  note c = set_scl [OF b assms(2), of False, unfolded lines]
  from c show ?thesis by (simp add: put_bit_def Let_def option.map_comp comp_def)
qed

lemma start:
  assumes "on_bus view rest p x b scl sda mo" "released x" "scl \<Longrightarrow> sda" "\<And>m. mo = Some m \<Longrightarrow> listens m"
  shows "on_bus view rest p x (i2c_start w r b) False False (map_option ee_start mo)"
proof -
  note a = set_sda [OF assms(1,2), of True]
  note b = release [OF a assms(2)]
  note c = set_sda [OF b assms(2), of False]
  note d = set_scl [OF c assms(2), of False, unfolded lines]
  have "map_option ee_fall (cage_step True True True False (cage_step scl True True True (cage_step scl sda scl True mo)))
      = map_option ee_start mo"
    using assms(3,4)
    by (cases mo; cases scl) (auto simp: lines cage_step_def Let_def listens_out listens_rise)
  with d show ?thesis by (simp add: i2c_start_def Let_def)
qed

lemma stop:
  assumes "on_bus view rest p x b False sda mo" "released x" "\<And>m. mo = Some m \<Longrightarrow> listens m"
  shows "on_bus view rest p x (i2c_stop w r b) True True (map_option ee_stop mo)"
proof -
  note a = set_sda [OF assms(1,2), of False, unfolded lines]
  note b = release [OF a assms(2), unfolded lines]
  note c = set_sda [OF b assms(2), of True]
  have "cage_step True False True True (map_option (\<lambda>m. ee_rise (False \<and> ee_out m) m) mo) = map_option ee_stop mo"
    using assms(3) by (cases mo) (auto simp: cage_step_def Let_def listens_out listens_rise)
  with c show ?thesis by (simp add: i2c_stop_def Let_def)
qed

lemma puts:
  assumes "on_bus view rest p x b False d (Some m)" "released x" "ee_phase m = Rx ro xs" "length xs + length js < 8"
  shows "\<exists>d'. on_bus view rest p x (fold (\<lambda>i. put_bit w r (bit v i)) js b) False d'
           (Some (m\<lparr>ee_phase := Rx ro (xs @ map (bit v) js)\<rparr>))"
  using assms
proof (induction js arbitrary: b d m xs)
  case Nil
  from Nil(3) have "m\<lparr>ee_phase := Rx ro xs\<rparr> = m" by (cases m) simp
  with Nil(1) show ?case by auto
next
  case (Cons j js)
  let ?m = "m\<lparr>ee_phase := Rx ro (xs @ [bit v j])\<rparr>"
  from put [OF Cons.prems(1,2), of "bit v j"] Cons.prems(3,4)
  have "on_bus view rest p x (put_bit w r (bit v j) b) False (bit v j) (Some ?m)" by (simp add: rx_bit)
  from Cons.IH [OF this Cons.prems(2), of "xs @ [bit v j]"] Cons.prems(4) show ?case by simp
qed

lemma write_byte:
  assumes "on_bus view rest p x b False d (Some m)" "released x" "ee_phase m = Rx ro []"
  shows "\<exists>b'. i2c_write_byte w r v b = (ee_out (received ro v m), b') \<and>
           on_bus view rest p x b' False True (Some (ee_fall (received ro v m)))"
proof -
  let ?js = "[7, 6, 5, 4, 3, 2, 1]"
  have js: "msb_first = ?js @ [0]" by (simp add: msb_first_def)
  let ?m = "m\<lparr>ee_phase := Rx ro (map (bit v) ?js)\<rparr>"
  from puts [OF assms, of ?js v] obtain d' where
    a: "on_bus view rest p x (fold (\<lambda>i. put_bit w r (bit v i)) ?js b) False d' (Some ?m)" by auto
  have "ee_fall (ee_rise (bit v 0 \<and> ee_out ?m) ?m) = received ro v m"
    using byte_of_bits [of v, unfolded bits_of_def js] by (simp add: rx_bit del: One_nat_def)
  with put [OF a assms(2), of "bit v 0"]
  have c: "on_bus view rest p x (fold (\<lambda>i. put_bit w r (bit v i)) msb_first b) False (bit v 0) (Some (received ro v m))"
    unfolding js fold_append comp_apply by simp
  note e = release [OF set_sda [OF c assms(2), of True, unfolded lines] assms(2), unfolded lines, simplified]
  from get_sda [OF e] set_scl [OF e assms(2), of False, unfolded lines]
  show ?thesis by (simp add: i2c_write_byte_def Let_def cage_out_def)
qed

lemma write_nobody:
  assumes "on_bus view rest p x b False d None" "released x"
  shows "\<exists>b'. i2c_write_byte w r v b = (True, b') \<and> on_bus view rest p x b' False True None"
proof -
  have nb: "on_bus view rest p x (put_bit w r y b) False y None" if "on_bus view rest p x b False d None" for y b d
    using put [OF that assms(2), of y] by simp
  have "\<exists>d'. on_bus view rest p x (fold (\<lambda>i. put_bit w r (bit v i)) js b) False d' None" for js
    using assms(1) by (induction js arbitrary: b d) (auto 4 3 intro: nb)
  then obtain d' where c: "on_bus view rest p x (fold (\<lambda>i. put_bit w r (bit v i)) msb_first b) False d' None" ..
  note e = release [OF set_sda [OF c assms(2), of True, unfolded lines] assms(2), unfolded lines, simplified]
  from get_sda [OF e] set_scl [OF e assms(2), of False, unfolded lines]
  show ?thesis by (simp add: i2c_write_byte_def Let_def cage_out_def)
qed

lemma bits_sent:
  assumes "on_bus view rest p x b False True (Some m)" "released x" "ee_phase m = Tx ys" "ys \<noteq> []"
  shows "\<exists>b'. get_bits w r (length ys) acc b = (foldl (\<lambda>v y. push_bit 1 v OR (if y then 1 else 0)) acc ys, b') \<and>
           on_bus view rest p x b' False True (Some (m\<lparr>ee_phase := TxAck\<rparr>))"
  using assms
proof (induction ys arbitrary: acc b m)
  case (Cons y ys)
  note a = release [OF Cons.prems(1,2), unfolded lines, simplified]
  have m: "\<And>z. ee_rise z m = m" "ee_out m = y" using Cons.prems(3) by simp_all
  note g = get_sda [OF a [unfolded m]]
  note e = set_scl [OF a [unfolded m] Cons.prems(2), of False, unfolded lines, simplified]
  show ?case
  proof (cases "ys = []")
    case True
    with Cons.prems(3) have "ee_fall m = m\<lparr>ee_phase := TxAck\<rparr>" by (simp add: ee_fall_def)
    with e g m True show ?thesis by (simp add: Let_def cage_out_def)
  next
    case False
    with Cons.prems(3) have f: "ee_fall m = m\<lparr>ee_phase := Tx ys\<rparr>" by (cases ys) (simp_all add: ee_fall_def)
    from e f have "on_bus view rest p x (set_line w (bus_scl (scl_release_wait w r b)) False (scl_release_wait w r b)) False True
        (Some (m\<lparr>ee_phase := Tx ys\<rparr>))" by simp
    from Cons.IH [OF this Cons.prems(2) _ False, of "push_bit 1 acc OR (if y then 1 else 0)"] g m show ?thesis
      by (simp add: Let_def cage_out_def)
  qed
qed simp

lemma read_byte:
  assumes "on_bus view rest p x b False d (Some m)" "released x" "ee_phase m = Tx (bits_of v)"
  shows "\<exists>b'. i2c_read_byte w r ack b = (v, b') \<and>
           on_bus view rest p x b' False True (Some (if ack then load m else m\<lparr>ee_phase := Quiet\<rparr>))"
proof -
  have "bits_of v \<noteq> []" by (metis bits_length list.size(3) zero_neq_numeral)
  from bits_sent [OF set_sda [OF assms(1,2), of True, unfolded lines] assms(2,3) this, of 0] shifted_bits [of v]
  obtain b1 where b1: "get_bits w r 8 0 (set_line w (bus_sda b) True b) = (v, b1)"
      "on_bus view rest p x b1 False True (Some (m\<lparr>ee_phase := TxAck\<rparr>))"
    by auto
  note c = release [OF set_sda [OF b1(2) assms(2), of "\<not> ack", unfolded lines] assms(2), unfolded lines]
  note e = set_sda [OF set_scl [OF c assms(2), of False, unfolded lines] assms(2), of True, unfolded lines]
  have "ee_fall (ee_rise (\<not> ack \<and> ee_out (m\<lparr>ee_phase := TxAck\<rparr>)) (m\<lparr>ee_phase := TxAck\<rparr>)) =
      (if ack then load m else m\<lparr>ee_phase := Quiet\<rparr>)"
    by (simp add: ee_fall_def ee_rise_def ee_out_def load_def peek_def)
  with e b1(1) show ?thesis by (simp add: i2c_read_byte_def Let_def)
qed

lemma read_bytes:
  assumes "on_bus view rest p x b False d (Some (load m))" "released x"
  shows "\<exists>b'. read_bytes w r (Suc n) b = (map (\<lambda>i. peek m (ee_dev m) (ee_ptr m + of_nat i)) [0..<Suc n], b') \<and>
           on_bus view rest p x b' False True (Some (idle_after m (Suc n)))"
  using assms
proof (induction n arbitrary: b d m)
  case 0
  have "(load m)\<lparr>ee_phase := Quiet\<rparr> = idle_after m (Suc 0)" "ee_phase (load m) = Tx (bits_of (peek m (ee_dev m) (ee_ptr m)))"
    by (simp_all add: load_def idle_after_def)
  with read_byte [OF 0, of "peek m (ee_dev m) (ee_ptr m)" False] show ?case by auto
next
  case (Suc n)
  have p: "peek (load m) = peek m" by (simp add: fun_eq_iff peek_def load_def)
  have l: "ee_dev (load m) = ee_dev m" "ee_ptr (load m) = ee_ptr m + 1" by (simp_all add: load_def)
  have f: "idle_after (load m) (Suc n) = idle_after m (Suc (Suc n))" by (simp add: idle_after_def load_def)
  have u: "map (\<lambda>i. peek m (ee_dev m) (ee_ptr m + of_nat i)) [0..<Suc (Suc n)] =
      peek m (ee_dev m) (ee_ptr m) # map (\<lambda>i. peek m (ee_dev m) (ee_ptr m + 1 + of_nat i)) [0..<Suc n]"
    by (simp add: upt_conv_Cons map_Suc_upt [symmetric] add.assoc del: upt_Suc)
  have "ee_phase (load m) = Tx (bits_of (peek m (ee_dev m) (ee_ptr m)))" by (simp add: load_def)
  from read_byte [OF Suc.prems this, of True] obtain b1 where
    b1: "i2c_read_byte w r True b = (peek m (ee_dev m) (ee_ptr m), b1)"
      "on_bus view rest p x b1 False True (Some (load (load m)))" by auto
  from Suc.IH [OF b1(2) Suc.prems(2)] b1(1) show ?case
    unfolding u p l f by (auto simp del: upt_Suc)
qed

lemma opened:
  assumes "view c = (True, True, mo)" "released (rest c)"
  shows "on_bus view rest p (rest c) (open_bus w p c) True True mo"
proof -
  let ?b = "\<lparr>bus_ctx = c, bus_scl = p * 2, bus_sda = p * 2 + 1, bus_drive = 0, bus_err = False\<rparr>"
  have b: "on_bus view rest p (rest c) ?b True True mo" using assms by (simp add: on_bus_def)
  from set_sda [OF set_scl [OF b assms(2), of True] assms(2), of True]
  show ?thesis by (simp add: open_bus_def Let_def lines)
qed

lemma addressed:
  assumes "on_bus view rest p x b scl sda (Some m)" "released x" "scl \<Longrightarrow> sda" "listens m" "ee_busy m = 0"
    "a = 0x50 \<or> a = 0x51"
  shows "\<exists>b'. i2c_write_byte w r (push_bit 1 a) (i2c_start w r b) = (False, b') \<and>
           on_bus view rest p x b' False True (Some (m\<lparr>ee_phase := Rx Offset [], ee_late := [], ee_dev := a\<rparr>))"
proof -
  from start [OF assms(1-3)] assms(4) have "on_bus view rest p x (i2c_start w r b) False False (Some (ee_start m))" by simp
  note st = this
  have r: "received Addr (push_bit 1 a) (ee_start m) = (ee_start m)\<lparr>ee_phase := RxAck Offset, ee_dev := a\<rparr>"
    by (rule received_addr) (use assms(5,6) in \<open>simp_all add: ee_start_def\<close>)
  have f: "ee_fall (received Addr (push_bit 1 a) (ee_start m)) = m\<lparr>ee_phase := Rx Offset [], ee_late := [], ee_dev := a\<rparr>"
    unfolding r by (cases m) (simp add: ee_start_def)
  have "ee_phase (ee_start m) = Rx Addr []" by (simp add: ee_start_def)
  from write_byte [OF st assms(2) this, of "push_bit 1 a", unfolded f] show ?thesis
    unfolding r by simp
qed

lemma read_exact:
  assumes "view c = (True, True, Some m)" "released (rest c)" "at_rest m" "a = 0x50 \<or> a = 0x51"
    "unat off + len \<le> 256" "0 < len"
  shows "\<exists>c'. pw_sfp_read (Some w) (Some r) (int p) a off len c =
           (c', Inr (map (\<lambda>i. peek m a (off + of_nat i)) [0..<len])) \<and>
           view c' = (True, True, Some (m\<lparr>ee_dev := a, ee_ptr := off + of_nat len\<rparr>)) \<and> rest c' = rest c"
proof -
  let ?x = "rest c" and ?m1 = "m\<lparr>ee_phase := Rx Offset [], ee_late := [], ee_dev := a\<rparr>"
  have arg: "sfp_args (Some w) (Some r) (int p) off len = Inr (w, r)" using port assms(5) by (simp add: sfp_args_def)
  have rest: "listens m" "ee_busy m = 0" "ee_late m = []" "ee_phase m = Quiet" using assms(3) by (simp_all add: at_rest_def listens_def)
  from addressed [OF opened [OF assms(1,2)] assms(2) _ rest(1,2) assms(4)] obtain b1 where
    b1: "i2c_write_byte w r (push_bit 1 a) (i2c_start w r (open_bus w p c)) = (False, b1)"
      "on_bus view rest p ?x b1 False True (Some ?m1)" by auto
  let ?m2 = "?m1\<lparr>ee_phase := Rx Data [], ee_ptr := off\<rparr>" and ?m3 = "?m1\<lparr>ee_phase := ReadAck, ee_ptr := off\<rparr>"
  have f2: "ee_fall (received Offset off ?m1) = ?m2" by (cases m) (simp add: received_ack)
  have "\<not> ee_out (received Offset off ?m1)" by (simp add: received_ack)
  with write_byte [OF b1(2) assms(2), of Offset off, unfolded f2] obtain b2 where
    b2: "i2c_write_byte w r off b1 = (False, b2)" "on_bus view rest p ?x b2 False True (Some ?m2)"
    by auto
  from start [OF b2(2) assms(2)] have
    st: "on_bus view rest p ?x (i2c_start w r b2) False False (Some (ee_start ?m2))" by (simp add: listens_def)
  have "received Addr (push_bit 1 a OR 1) (ee_start ?m2) = (ee_start ?m2)\<lparr>ee_phase := ReadAck, ee_dev := a\<rparr>"
    by (rule received_addr) (use rest(2) assms(4) in \<open>simp_all add: ee_start_def\<close>)
  also have "\<dots> = ?m3" by (cases m) (simp add: ee_start_def)
  finally have r3: "received Addr (push_bit 1 a OR 1) (ee_start ?m2) = ?m3" .
  have "ee_phase (ee_start ?m2) = Rx Addr []" by (simp add: ee_start_def)
  from write_byte [OF st assms(2) this, of "push_bit 1 a OR 1", unfolded r3] obtain b3 where
    b3: "i2c_write_byte w r (push_bit 1 a OR 1) (i2c_start w r b2) = (False, b3)"
      "on_bus view rest p ?x b3 False True (Some (load ?m3))"
    by auto
  obtain n where n: "len = Suc n" using assms(6) by (cases len) auto
  let ?m4 = "idle_after ?m3 len"
  from read_bytes [OF b3(2) assms(2), of n] obtain b4 where
    b4: "read_bytes w r len b3 = (map (\<lambda>i. peek m a (off + of_nat i)) [0..<len], b4)"
      "on_bus view rest p ?x b4 False True (Some ?m4)"
    unfolding n by (auto simp: peek_def simp del: upt_Suc)
  from stop [OF b4(2) assms(2)] have "on_bus view rest p ?x (i2c_stop w r b4) True True (Some (ee_stop ?m4))"
    by (simp add: listens_def idle_after_def)
  moreover have "ee_stop ?m4 = m\<lparr>ee_dev := a, ee_ptr := off + of_nat len\<rparr>"
    using rest by (cases m) (simp add: ee_stop_def idle_after_def)
  moreover have "pw_sfp_read (Some w) (Some r) (int p) a off len c =
      (bus_ctx (i2c_stop w r b4),
       if bus_err (i2c_stop w r b4) then Inl PW_E_BACKEND else Inr (map (\<lambda>i. peek m a (off + of_nat i)) [0..<len]))"
    by (simp only: pw_sfp_read_def arg Let_def sum.case prod.case nat_int b1(1) b2(1) b3(1) b4(1) if_False)
  ultimately show ?thesis by (simp add: on_bus_def)
qed

text \<open>Polling the address until the write cycle ends, and writing.\<close>

lemma polled:
  assumes "on_bus view rest p x b True True (Some m)" "released x" "ee_phase m = Quiet" "ee_late m = []"
    "ee_busy m < n" "a = 0x50 \<or> a = 0x51"
  shows "\<exists>b'. ack_poll w r a n b = (True, b') \<and>
           on_bus view rest p x b' True True (Some (m\<lparr>ee_busy := 0, ee_dev := a\<rparr>))"
  using assms(1,3-5)
proof (induction n arbitrary: b m)
  case (Suc n)
  have l: "listens m" using Suc.prems(2) by (simp add: listens_def)
  show ?case
  proof (cases "ee_busy m")
    case 0
    let ?m = "m\<lparr>ee_phase := Rx Offset [], ee_late := [], ee_dev := a\<rparr>"
    from addressed [OF Suc.prems(1) assms(2) _ l 0 assms(6)] obtain b1 where
      b1: "i2c_write_byte w r (push_bit 1 a) (i2c_start w r b) = (False, b1)"
        "on_bus view rest p x b1 False True (Some ?m)" by auto
    have "ee_stop ?m = m\<lparr>ee_busy := 0, ee_dev := a\<rparr>"
      using Suc.prems(2,3) 0 by (cases m) (simp add: ee_stop_def)
    with stop [OF b1(2) assms(2)] have "on_bus view rest p x (i2c_stop w r b1) True True (Some (m\<lparr>ee_busy := 0, ee_dev := a\<rparr>))"
      by (simp add: listens_def)
    moreover from this have "\<not> bus_err (i2c_stop w r b1)" by (simp add: on_bus_def)
    ultimately show ?thesis by (simp only: ack_poll.simps Let_def b1(1) prod.case if_False not_False_eq_True if_True) blast
  next
    case (Suc k)
    let ?m = "m\<lparr>ee_busy := k\<rparr>"
    from start [OF Suc.prems(1) assms(2)] l have st: "on_bus view rest p x (i2c_start w r b) False False (Some (ee_start m))" by simp
    have r: "received Addr (push_bit 1 a) (ee_start m) = ?m"
      using Suc Suc.prems(2,3) by (cases m) (simp add: received_def ee_start_def)
    have m: "ee_fall ?m = ?m" "ee_out ?m" "ee_stop ?m = ?m"
      using Suc.prems(2,3) by (cases m; simp add: ee_fall_def ee_out_def ee_stop_def)+
    have "ee_phase (ee_start m) = Rx Addr []" by (simp add: ee_start_def)
    from write_byte [OF st assms(2) this, of "push_bit 1 a", unfolded r m(1)] m(2) obtain b1 where
      b1: "i2c_write_byte w r (push_bit 1 a) (i2c_start w r b) = (True, b1)" "on_bus view rest p x b1 False True (Some ?m)"
      by auto
    have sp: "on_bus view rest p x (i2c_stop w r b1) True True (Some ?m)"
      using stop [OF b1(2) assms(2)] Suc.prems(2) m(3) by (simp add: listens_def)
    then have e: "\<not> bus_err (i2c_stop w r b1)" by (simp add: on_bus_def)
    have "\<exists>b'. ack_poll w r a n (i2c_stop w r b1) = (True, b') \<and>
        on_bus view rest p x b' True True (Some (?m\<lparr>ee_busy := 0, ee_dev := a\<rparr>))"
      by (rule Suc.IH [OF sp]) (use Suc Suc.prems in simp_all)
    with b1(1) e show ?thesis by (simp only: ack_poll.simps Let_def b1(1) prod.case if_False not_True_eq_False eeprom.update_convs) simp
  qed
qed simp

lemma stored:
  assumes "on_bus view rest p x b True True (Some m)" "released x" "at_rest m" "a = 0x50 \<or> a = 0x51" "ee_cycle m < 50"
  shows "\<exists>b' d q. write_bytes w r a off (v # vs) b = write_bytes w r a (off + 1) vs b' \<and>
           on_bus view rest p x b' True True (Some ((commit (a, off, v) m)\<lparr>ee_dev := d, ee_ptr := q\<rparr>))"
proof -
  have m: "listens m" "ee_busy m = 0" "ee_late m = []" "ee_phase m = Quiet" using assms(3) by (simp_all add: at_rest_def listens_def)
  let ?m1 = "m\<lparr>ee_phase := Rx Offset [], ee_late := [], ee_dev := a\<rparr>"
  from addressed [OF assms(1,2) _ m(1,2) assms(4)] obtain b1 where
    b1: "i2c_write_byte w r (push_bit 1 a) (i2c_start w r b) = (False, b1)"
      "on_bus view rest p x b1 False True (Some ?m1)" by auto
  let ?m2 = "?m1\<lparr>ee_phase := Rx Data [], ee_ptr := off\<rparr>"
  have f2: "ee_fall (received Offset off ?m1) = ?m2" by (cases m) (simp add: received_ack)
  have "\<not> ee_out (received Offset off ?m1)" by (simp add: received_ack)
  with write_byte [OF b1(2) assms(2), of Offset off, unfolded f2] obtain b2 where
    b2: "i2c_write_byte w r off b1 = (False, b2)" "on_bus view rest p x b2 False True (Some ?m2)"
    by auto
  let ?m3 = "?m2\<lparr>ee_late := [(a, off, v)], ee_ptr := off + 1\<rparr>"
  have f3: "ee_fall (received Data v ?m2) = ?m3" by (cases m) (simp add: received_ack)
  have "\<not> ee_out (received Data v ?m2)" by (simp add: received_ack)
  with write_byte [OF b2(2) assms(2), of Data v, unfolded f3] obtain b3 where
    b3: "i2c_write_byte w r v b2 = (False, b3)" "on_bus view rest p x b3 False True (Some ?m3)"
    by auto
  let ?m4 = "(commit (a, off, v) m)\<lparr>ee_busy := ee_cycle m, ee_dev := a, ee_ptr := off + 1\<rparr>"
  have "ee_stop ?m3 = ?m4"
    using m(3,4) by (cases m) (simp add: ee_stop_def commit_def unlocked_def entered_def split: option.split)
  with stop [OF b3(2) assms(2)] have b4: "on_bus view rest p x (i2c_stop w r b3) True True (Some ?m4)"
    by (simp add: listens_def)
  have "\<exists>b'. ack_poll w r a 50 (i2c_stop w r b3) = (True, b') \<and>
      on_bus view rest p x b' True True (Some (?m4\<lparr>ee_busy := 0, ee_dev := a\<rparr>))"
    by (rule polled [OF b4 assms(2) _ _ _ assms(4)]) (use m assms(5) in simp_all)
  then obtain b5 where b5: "ack_poll w r a 50 (i2c_stop w r b3) = (True, b5)"
      "on_bus view rest p x b5 True True (Some (?m4\<lparr>ee_busy := 0, ee_dev := a\<rparr>))" by blast
  have "?m4\<lparr>ee_busy := 0, ee_dev := a\<rparr> = (commit (a, off, v) m)\<lparr>ee_dev := a, ee_ptr := off + 1\<rparr>"
    using m(2) by (cases m) (simp add: commit_def unlocked_def entered_def split: option.split)
  moreover from b5(2) have "\<not> bus_err b5" by (simp add: on_bus_def)
  then have "write_bytes w r a off (v # vs) b = write_bytes w r a (off + 1) vs b5"
    by (simp only: write_bytes.simps Let_def prod.case b1(1) b2(1) b3(1) b5(1) if_False not_True_eq_False)
  ultimately show ?thesis using b5(2) by metis
qed

lemma writes_exact:
  assumes "on_bus view rest p x b True True (Some m)" "released x" "at_rest m" "a = 0x50 \<or> a = 0x51" "ee_cycle m < 50"
  shows "\<exists>c' d q. write_bytes w r a off vs b = (c', Inr ()) \<and>
           view c' = (True, True, Some ((fold commit (stores a off vs) m)\<lparr>ee_dev := d, ee_ptr := q\<rparr>)) \<and> rest c' = x"
  using assms(1,3,5)
proof (induction vs arbitrary: b m off)
  case Nil
  then show ?case by (intro exI [of _ "bus_ctx b"] exI [of _ "ee_dev m"] exI [of _ "ee_ptr m"]) (simp add: on_bus_def)
next
  case (Cons v vs)
  from stored [OF Cons.prems(1) assms(2) Cons.prems(2) assms(4) Cons.prems(3), of off v vs] obtain b' d q where
    b': "write_bytes w r a off (v # vs) b = write_bytes w r a (off + 1) vs b'"
      "on_bus view rest p x b' True True (Some ((commit (a, off, v) m)\<lparr>ee_dev := d, ee_ptr := q\<rparr>))" by blast
  from Cons.IH [OF b'(2), of "off + 1"] Cons.prems(2,3) obtain c' d' q' where
    "write_bytes w r a (off + 1) vs b' = (c', Inr ())" "rest c' = x"
    "view c' = (True, True, Some ((fold commit (stores a (off + 1) vs) ((commit (a, off, v) m)\<lparr>ee_dev := d, ee_ptr := q\<rparr>))\<lparr>ee_dev := d', ee_ptr := q'\<rparr>))"
    by (auto simp: at_rest_def)
  with b'(1) show ?case by (auto simp: commits_at)
qed

lemma write_exact:
  assumes "view c = (True, True, Some m)" "released (rest c)" "at_rest m" "a = 0x50 \<or> a = 0x51" "ee_cycle m < 50"
    "unat off + length vs \<le> 256"
  shows "\<exists>c' d q. pw_sfp_write (Some w) (Some r) (int p) a off vs c = (c', Inr ()) \<and>
           view c' = (True, True, Some ((fold commit (stores a off vs) m)\<lparr>ee_dev := d, ee_ptr := q\<rparr>)) \<and> rest c' = rest c"
proof -
  have arg: "sfp_args (Some w) (Some r) (int p) off (length vs) = Inr (w, r)" using port assms(6) by (simp add: sfp_args_def)
  from writes_exact [OF opened [OF assms(1,2)] assms(2-5), of off vs] show ?thesis by (simp add: pw_sfp_write_def arg)
qed

lemma nobody:
  assumes "view c = (True, True, None)" "released (rest c)" "unat off + len \<le> 256"
  shows "\<exists>c'. pw_sfp_read (Some w) (Some r) (int p) a off len c = (c', Inl PW_E_IO) \<and>
           view c' = (True, True, None) \<and> rest c' = rest c"
proof -
  have arg: "sfp_args (Some w) (Some r) (int p) off len = Inr (w, r)" using port assms(3) by (simp add: sfp_args_def)
  from start [OF opened [OF assms(1,2)] assms(2)]
  have "on_bus view rest p (rest c) (i2c_start w r (open_bus w p c)) False False None" by simp
  from write_nobody [OF this assms(2)] obtain b where
    b: "i2c_write_byte w r (push_bit 1 a) (i2c_start w r (open_bus w p c)) = (True, b)"
      "on_bus view rest p (rest c) b False True None" by blast
  from stop [OF b(2) assms(2)] have "on_bus view rest p (rest c) (i2c_stop w r b) True True None" by simp
  moreover have "pw_sfp_read (Some w) (Some r) (int p) a off len c = nak_out w r b"
    by (simp only: pw_sfp_read_def arg Let_def sum.case prod.case nat_int b(1) if_True)
  ultimately show ?thesis by (simp add: nak_out_def nak_status_def Let_def on_bus_def)
qed

end

section \<open>A card with two cages\<close>

text \<open>
  The register holds the four drive-low enables; a read returns them and, sixteen bits up, the levels of the pads.
\<close>

record sfp_card =
  sc_drive :: u8
  sc_cages :: "nat \<Rightarrow> eeprom option"

definition card_view :: "nat \<Rightarrow> sfp_card \<Rightarrow> bool \<times> bool \<times> eeprom option" where
  "card_view p c = (\<not> bit (sc_drive c) (2 * p), \<not> bit (sc_drive c) (2 * p + 1), sc_cages c p)"

definition sfp_write32 :: "sfp_card wr32" where
  "sfp_write32 c a v =
     (if a = PWFPGA_REG_SFP_I2C
      then let old = sc_drive c; new = take_bit 4 (ucast v) in
        c\<lparr>sc_drive := new,
          sc_cages := (\<lambda>p. cage_step (\<not> bit old (2 * p)) (\<not> bit old (2 * p + 1)) (\<not> bit new (2 * p)) (\<not> bit new (2 * p + 1))
            (sc_cages c p))\<rparr>
      else c, PW_OK)"

definition sfp_read32 :: "sfp_card rd32" where
  "sfp_read32 c a =
     (c, PW_OK,
      if a = PWFPGA_REG_SFP_I2C
      then ucast (sc_drive c) OR push_bit 16 (horner_sum of_bool 2
        (concat (map (\<lambda>p. case card_view p c of (scl, sda, m) \<Rightarrow> [scl, sda \<and> cage_out m]) [0, 1])))
      else 0)"

definition lines_up :: "bool \<times> bool \<times> eeprom option \<Rightarrow> bool" where
  "lines_up x \<longleftrightarrow> fst x \<and> fst (snd x)"

lemma drive_bits:
  assumes "p \<le> 1" "v = (if s then 0 else push_bit (2 * p) 1) OR (if d then 0 else push_bit (2 * p + 1) (1 :: u8))"
  shows "take_bit 4 v = v" "bit v (2 * p) = (\<not> s)" "bit v (2 * p + 1) = (\<not> d)"
    "\<not> bit v (2 * (1 - p))" "\<not> bit v (2 * (1 - p) + 1)"
proof -
  have "p = 0 \<or> p = 1" using assms(1) by auto
  then show "take_bit 4 v = v" "bit v (2 * p) = (\<not> s)" "bit v (2 * p + 1) = (\<not> d)"
      "\<not> bit v (2 * (1 - p))" "\<not> bit v (2 * (1 - p) + 1)"
    unfolding assms(2) by (cases s; cases d; auto simp: bit_simps)+
qed

lemma card_wr:
  assumes "p \<le> 1" "lines_up (card_view (1 - p) c)" "card_view p c = (scl, sda, m)"
    "d = (if scl' then 0 else push_bit (2 * p) 1) OR (if sda' then 0 else push_bit (2 * p + 1) 1)"
  shows "\<exists>c'. sfp_write32 c PWFPGA_REG_SFP_I2C (ucast (d :: u8)) = (c', PW_OK) \<and>
     card_view p c' = (scl', sda', cage_step scl sda scl' sda' m) \<and> card_view (1 - p) c' = card_view (1 - p) c"
proof -
  note b = drive_bits [OF assms(1,4)]
  have u: "ucast (ucast d :: u32) = d" by (rule bit_word_eqI) (simp add: bit_simps)
  show ?thesis
    using assms(2,3) b by (auto simp: sfp_write32_def Let_def card_view_def lines_up_def u lines)
qed

lemma card_rd:
  assumes "p \<le> 1" "card_view p c = (scl, sda, m)"
  shows "\<exists>v. sfp_read32 c PWFPGA_REG_SFP_I2C = (c, PW_OK, v) \<and> bit v (16 + 2 * p) = scl \<and>
    bit v (16 + (2 * p + 1)) = (sda \<and> cage_out m)"
proof -
  have hi: "bit (sc_drive c) n \<longleftrightarrow> False" if "8 \<le> n" for n using that bit_imp_le_length [of "sc_drive c" n] by auto
  have "p = 0 \<or> p = 1" using assms(1) by auto
  then show ?thesis using assms(2)
    by (auto simp: hi sfp_read32_def bit_simps bit_horner_sum_bit_word_iff split: prod.splits)
qed

interpretation cage0: cage sfp_write32 sfp_read32 0 "card_view 0" "card_view 1" lines_up
  by unfold_locales (use card_wr [of 0] card_rd [of 0] in simp_all)

interpretation cage1: cage sfp_write32 sfp_read32 1 "card_view 1" "card_view 0" lines_up
  by unfold_locales (use card_wr [of 1] card_rd [of 1] in simp_all)

section \<open>Transfers as operations on the memory\<close>

definition card_quiet :: "sfp_card \<Rightarrow> bool" where
  "card_quiet c \<longleftrightarrow> lines_up (card_view 0 c) \<and> lines_up (card_view 1 c)"

definition only_cage :: "nat \<Rightarrow> sfp_card \<Rightarrow> eeprom option \<Rightarrow> sfp_card \<Rightarrow> bool" where
  "only_cage p c mo c' \<longleftrightarrow> card_quiet c' \<and> sc_cages c' p = mo \<and> sc_cages c' (1 - p) = sc_cages c (1 - p)"

lemma quiet_views:
  assumes "card_quiet c" "p \<le> 1"
  shows "card_view p c = (True, True, sc_cages c p)" "lines_up (card_view (1 - p) c)"
proof -
  have "p = 0 \<or> p = 1" using assms(2) by auto
  then show "card_view p c = (True, True, sc_cages c p)" "lines_up (card_view (1 - p) c)"
    using assms(1) by (auto simp: card_quiet_def lines_up_def card_view_def)
qed

lemma only_cageI:
  assumes "card_quiet c" "p \<le> 1" "card_view p c' = (True, True, mo)" "card_view (1 - p) c' = card_view (1 - p) c"
  shows "only_cage p c mo c'"
proof -
  have "p = 0 \<or> p = 1" using assms(2) by auto
  then show ?thesis
    using assms(1,3,4) by (auto simp: only_cage_def card_quiet_def lines_up_def card_view_def)
qed

lemma card_read:
  assumes "p \<le> 1" "card_quiet c" "sc_cages c p = Some m" "at_rest m" "a = 0x50 \<or> a = 0x51"
    "unat off + len \<le> 256" "0 < len"
  shows "\<exists>c'. pw_sfp_read (Some sfp_write32) (Some sfp_read32) (int p) a off len c =
           (c', Inr (map (\<lambda>i. peek m a (off + of_nat i)) [0..<len])) \<and>
           only_cage p c (Some (m\<lparr>ee_dev := a, ee_ptr := off + of_nat len\<rparr>)) c'"
proof -
  note v = quiet_views [OF assms(2,1), unfolded assms(3)]
  have "\<exists>c'. pw_sfp_read (Some sfp_write32) (Some sfp_read32) (int p) a off len c =
           (c', Inr (map (\<lambda>i. peek m a (off + of_nat i)) [0..<len])) \<and>
           card_view p c' = (True, True, Some (m\<lparr>ee_dev := a, ee_ptr := off + of_nat len\<rparr>)) \<and>
           card_view (1 - p) c' = card_view (1 - p) c"
    using assms(1) v cage0.read_exact [OF _ _ assms(4-7), of c] cage1.read_exact [OF _ _ assms(4-7), of c]
    by (auto simp: le_Suc_eq)
  then show ?thesis using only_cageI [OF assms(2,1)] by blast
qed

lemma card_write:
  assumes "p \<le> 1" "card_quiet c" "sc_cages c p = Some m" "at_rest m" "a = 0x50 \<or> a = 0x51" "ee_cycle m < 50"
    "unat off + length vs \<le> 256"
  shows "\<exists>c' d q. pw_sfp_write (Some sfp_write32) (Some sfp_read32) (int p) a off vs c = (c', Inr ()) \<and>
           only_cage p c (Some ((fold commit (stores a off vs) m)\<lparr>ee_dev := d, ee_ptr := q\<rparr>)) c'"
proof -
  note v = quiet_views [OF assms(2,1), unfolded assms(3)]
  have "\<exists>c' d q. pw_sfp_write (Some sfp_write32) (Some sfp_read32) (int p) a off vs c = (c', Inr ()) \<and>
           card_view p c' = (True, True, Some ((fold commit (stores a off vs) m)\<lparr>ee_dev := d, ee_ptr := q\<rparr>)) \<and>
           card_view (1 - p) c' = card_view (1 - p) c"
    using assms(1) v cage0.write_exact [OF _ _ assms(4-7), of c] cage1.write_exact [OF _ _ assms(4-7), of c]
    by (auto simp: le_Suc_eq)
  then show ?thesis using only_cageI [OF assms(2,1)] by blast
qed

lemma card_empty:
  assumes "p \<le> 1" "card_quiet c" "sc_cages c p = None" "unat off + len \<le> 256"
  shows "\<exists>c'. pw_sfp_read (Some sfp_write32) (Some sfp_read32) (int p) a off len c = (c', Inl PW_E_IO) \<and> only_cage p c None c'"
proof -
  note v = quiet_views [OF assms(2,1), unfolded assms(3)]
  have "\<exists>c'. pw_sfp_read (Some sfp_write32) (Some sfp_read32) (int p) a off len c = (c', Inl PW_E_IO) \<and>
      card_view p c' = (True, True, None) \<and> card_view (1 - p) c' = card_view (1 - p) c"
    using assms(1) v cage0.nobody [OF _ _ assms(4), of c] cage1.nobody [OF _ _ assms(4), of c]
    by (auto simp: le_Suc_eq)
  then show ?thesis using only_cageI [OF assms(2,1)] by blast
qed

lemma stores_plain:
  assumes "ee_secret m = None" "length vs \<le> 256"
  shows "ee_mem (fold commit (stores a off vs) m) b i =
    (if b = a \<and> unat (i - off) < length vs then vs ! unat (i - off) else ee_mem m b i)"
  using assms
proof (induction vs arbitrary: off m)
  case (Cons v vs)
  have c: "commit (a, off, v) m = m\<lparr>ee_mem := (ee_mem m)(a := (ee_mem m a)(off := v))\<rparr>"
    using Cons.prems(1) by (simp add: commit_def unlocked_def)
  have far: "\<not> unat (off - (off + 1)) < length vs" using Cons.prems(2) by (simp add: unsigned_minus_1_eq_mask mask_eq_exp_minus_1)
  have step: "unat (i - off) = Suc (unat (i - (off + 1)))" if "i \<noteq> off"
  proof -
    have "i - off \<noteq> 0" using that by simp
    from unat_minus_one [OF this] that show ?thesis by (cases "unat (i - off)") (auto simp: unat_eq_zero diff_diff_eq)
  qed
  show ?case
  proof (cases "i = off")
    case True
    with Cons.IH [of "commit (a, off, v) m" "off + 1"] Cons.prems far show ?thesis by (simp add: c)
  next
    case False
    with Cons.IH [of "commit (a, off, v) m" "off + 1"] Cons.prems show ?thesis by (auto simp: c step)
  qed
qed simp

lemma commits_sel [simp]: "ee_phase (fold commit xs m) = ee_phase m" "ee_late (fold commit xs m) = ee_late m"
    "ee_busy (fold commit xs m) = ee_busy m" "ee_cycle (fold commit xs m) = ee_cycle m" "ee_secret (fold commit xs m) = ee_secret m"
  by (induction xs arbitrary: m) simp_all

text \<open>
  C26. Transfers on a card with quiet lines act on the memory of the module in the addressed cage and on nothing
  else. A read returns the bytes of the module at the addressed offsets and changes no byte. A write
  returns only after the module has finished its write cycles, however long they take below the 50 polls, has
  committed exactly the given bytes in order, and an unprotected module then holds them and is unchanged elsewhere. A
  read of an empty cage reports \<open>PW_E_IO\<close>.
\<close>

theorem sfp_memory_exact:
  assumes "p \<le> 1" "card_quiet c" "sc_cages c p = Some m" "at_rest m" "a = 0x50 \<or> a = 0x51" "ee_cycle m < 50"
    "unat off + len \<le> 256" "0 < len" "unat off + length vs \<le> 256"
    "card_quiet e" "sc_cages e p = None"
  shows "(\<exists>c' m'. pw_sfp_read (Some sfp_write32) (Some sfp_read32) (int p) a off len c =
            (c', Inr (map (\<lambda>i. peek m a (off + of_nat i)) [0..<len])) \<and>
            only_cage p c (Some m') c' \<and> at_rest m' \<and> ee_mem m' = ee_mem m) \<and>
         (\<exists>c' m'. pw_sfp_write (Some sfp_write32) (Some sfp_read32) (int p) a off vs c = (c', Inr ()) \<and>
            only_cage p c (Some m') c' \<and> at_rest m' \<and> ee_mem m' = ee_mem (fold commit (stores a off vs) m) \<and>
            (ee_secret m = None \<longrightarrow> (\<forall>b i. ee_mem m' b i =
               (if b = a \<and> unat (i - off) < length vs then vs ! unat (i - off) else ee_mem m b i)))) \<and>
         (\<exists>e'. pw_sfp_read (Some sfp_write32) (Some sfp_read32) (int p) a off len e = (e', Inl PW_E_IO) \<and> only_cage p e None e')"
proof (intro conjI)
  from card_read [OF assms(1-5,7,8)] assms(4)
  show "\<exists>c' m'. pw_sfp_read (Some sfp_write32) (Some sfp_read32) (int p) a off len c =
            (c', Inr (map (\<lambda>i. peek m a (off + of_nat i)) [0..<len])) \<and>
            only_cage p c (Some m') c' \<and> at_rest m' \<and> ee_mem m' = ee_mem m"
    by (fastforce simp: at_rest_def)
  obtain c' d q where "pw_sfp_write (Some sfp_write32) (Some sfp_read32) (int p) a off vs c = (c', Inr ())"
      "only_cage p c (Some ((fold commit (stores a off vs) m)\<lparr>ee_dev := d, ee_ptr := q\<rparr>)) c'"
    using card_write [OF assms(1-6,9)] by blast
  moreover have "at_rest ((fold commit (stores a off vs) m)\<lparr>ee_dev := d, ee_ptr := q\<rparr>)" using assms(4) by (simp add: at_rest_def)
  moreover have "length vs \<le> 256" using assms(9) by simp
  ultimately show "\<exists>c' m'. pw_sfp_write (Some sfp_write32) (Some sfp_read32) (int p) a off vs c = (c', Inr ()) \<and>
            only_cage p c (Some m') c' \<and> at_rest m' \<and> ee_mem m' = ee_mem (fold commit (stores a off vs) m) \<and>
            (ee_secret m = None \<longrightarrow> (\<forall>b i. ee_mem m' b i =
               (if b = a \<and> unat (i - off) < length vs then vs ! unat (i - off) else ee_mem m b i)))"
    by (intro exI conjI) (assumption, assumption, assumption, simp, simp add: stores_plain)
  show "\<exists>e'. pw_sfp_read (Some sfp_write32) (Some sfp_read32) (int p) a off len e = (e', Inl PW_E_IO) \<and> only_cage p e None e'"
    by (rule card_empty [OF assms(1,10,11,7)])
qed

text \<open>A module that answers only after 49 polls, with another one beside it.\<close>

definition ex_module :: "u32 option \<Rightarrow> eeprom" where
  "ex_module s =
     \<lparr>ee_phase = Quiet, ee_dev = 0, ee_ptr = 9, ee_mem = (\<lambda>a i. if a = 0x50 then i else 0), ee_late = [], ee_busy = 0,
      ee_cycle = 49, ee_secret = s\<rparr>"

definition ex_sfp_card :: "nat \<Rightarrow> sfp_card" where
  "ex_sfp_card p = \<lparr>sc_drive = 0, sc_cages = (\<lambda>k. if k = p then Some (ex_module (Some 0xDEADBEEF)) else None)\<rparr>"

lemma ex_sfp: "card_quiet (ex_sfp_card p)" "sc_cages (ex_sfp_card p) p = Some (ex_module (Some 0xDEADBEEF))"
    "sc_cages (ex_sfp_card 0) 1 = None" "at_rest (ex_module s)" "ee_cycle (ex_module s) = 49" "ee_secret (ex_module s) = s"
  by (simp_all add: ex_sfp_card_def card_quiet_def lines_up_def card_view_def at_rest_def ex_module_def)

theorem sfp_memory_exact_witness:
  "\<exists>c'. pw_sfp_read (Some sfp_write32) (Some sfp_read32) 1 0x50 40 3 (ex_sfp_card 1) = (c', Inr [40, 41, 42])"
proof -
  have "\<exists>c' m'. pw_sfp_read (Some sfp_write32) (Some sfp_read32) (int 1) 0x50 40 3 (ex_sfp_card 1) =
      (c', Inr (map (\<lambda>i. peek (ex_module (Some 0xDEADBEEF)) 0x50 (40 + of_nat i)) [0..<3])) \<and>
      only_cage 1 (ex_sfp_card 1) (Some m') c' \<and> at_rest m' \<and> ee_mem m' = ee_mem (ex_module (Some 0xDEADBEEF))"
    using sfp_memory_exact [where p = 1 and c = "ex_sfp_card 1" and a = "0x50" and off = 40 and len = 3 and vs = "[]" and e = "ex_sfp_card 0",
        OF _ ex_sfp(1,2,4) _ _ _ _ _ ex_sfp(1,3)]
      ex_sfp(5) by simp
  then show ?thesis by (simp add: peek_def pw_entry_def ex_module_def upt_rec) blast
qed

section \<open>The password probe\<close>

lemma enter_password:
  fixes pw :: u32
  defines "bs \<equiv> [ucast (drop_bit 24 pw), ucast (drop_bit 16 pw), ucast (drop_bit 8 pw), ucast pw]"
  defines "m1 \<equiv> \<lambda>m. fold commit (stores SFP_PW_ADDR SFP_PW_OFFSET bs) m"
  shows "entered (m1 m) = pw" "\<not> pw_entry a i \<Longrightarrow> ee_mem (m1 m) a i = ee_mem m a i" "ee_secret (m1 m) = ee_secret m"
proof -
  have e: "pw_entry 0x51 0x7B" "pw_entry 0x51 0x7C" "pw_entry 0x51 0x7D" "pw_entry 0x51 0x7E" by (simp_all add: pw_entry_def)
  show "entered (m1 m) = pw"
    by (simp add: m1_def bs_def SFP_PW_ADDR_def SFP_PW_OFFSET_def commit_def e entered_def be32_be32_bytes)
  show "ee_mem (m1 m) a i = ee_mem m a i" if "\<not> pw_entry a i"
    using that e by (auto simp: m1_def bs_def SFP_PW_ADDR_def SFP_PW_OFFSET_def commit_def)
  show "ee_secret (m1 m) = ee_secret m" by (simp add: m1_def)
qed

lemma only_cage_trans: "only_cage p c mo c' \<Longrightarrow> only_cage p c' mo' c'' \<Longrightarrow> only_cage p c mo' c''"
  by (simp add: only_cage_def)

lemma only_cageD: "only_cage p c mo c' \<Longrightarrow> card_quiet c'" "only_cage p c mo c' \<Longrightarrow> sc_cages c' p = mo"
  by (simp_all add: only_cage_def)

lemma unlocked_iff: "unlocked m \<longleftrightarrow> ee_secret m = None \<or> ee_secret m = Some (entered m)"
  by (auto simp: unlocked_def split: option.split)

lemma test_byte: "\<not> pw_entry SFP_PW_TEST_ADDR i"
  by (simp add: pw_entry_def SFP_PW_TEST_ADDR_def)

lemma entered_test: "entered (commit (SFP_PW_TEST_ADDR, i, v) m) = entered m"
  by (simp add: commit_def entered_def SFP_PW_TEST_ADDR_def)

lemma flip_byte: "(v :: u8) XOR 0xFF \<noteq> v"
proof
  assume "v XOR 0xFF = v"
  then have "bit (v XOR 0xFF) 0 = bit v 0" by simp
  then show False by (simp add: bit_xor_iff)
qed

text \<open>The two halves of the probe: entering the password, and flipping the test byte.\<close>

lemma card_unlock:
  assumes "p \<le> 1" "card_quiet c" "sc_cages c p = Some m" "at_rest m" "ee_cycle m < 50"
  shows "\<exists>c' m'. pw_sfp_unlock (Some sfp_write32) (Some sfp_read32) (int p) pw c = (c', Inr ()) \<and> only_cage p c (Some m') c' \<and>
           at_rest m' \<and> ee_cycle m' = ee_cycle m \<and> ee_secret m' = ee_secret m \<and> entered m' = pw \<and>
           (\<forall>a i. \<not> pw_entry a i \<longrightarrow> ee_mem m' a i = ee_mem m a i)"
proof -
  let ?bs = "[ucast (drop_bit 24 pw), ucast (drop_bit 16 pw), ucast (drop_bit 8 pw), ucast pw] :: bytes"
  let ?m = "fold commit (stores SFP_PW_ADDR SFP_PW_OFFSET ?bs) m"
  obtain c' d q where "pw_sfp_write (Some sfp_write32) (Some sfp_read32) (int p) SFP_PW_ADDR SFP_PW_OFFSET ?bs c = (c', Inr ())"
      "only_cage p c (Some (?m\<lparr>ee_dev := d, ee_ptr := q\<rparr>)) c'"
    using card_write [OF assms(1-4), of SFP_PW_ADDR SFP_PW_OFFSET ?bs] assms(5)
    by (auto simp: SFP_PW_ADDR_def SFP_PW_OFFSET_def)
  moreover have "entered (?m\<lparr>ee_dev := d, ee_ptr := q\<rparr>) = pw" using enter_password(1) [of pw m] by (simp add: entered_def)
  moreover have "ee_mem (?m\<lparr>ee_dev := d, ee_ptr := q\<rparr>) a i = ee_mem m a i" if "\<not> pw_entry a i" for a i
    using enter_password(2) [OF that, of pw m] by simp
  moreover have "at_rest (?m\<lparr>ee_dev := d, ee_ptr := q\<rparr>)" using assms(4) by (simp add: at_rest_def)
  ultimately show ?thesis
    unfolding pw_sfp_unlock_def by (intro exI [of _ c'] exI [of _ "?m\<lparr>ee_dev := d, ee_ptr := q\<rparr>"]) simp
qed

lemma test_read:
  assumes "p \<le> 1" "card_quiet c" "sc_cages c p = Some m" "at_rest m"
  shows "\<exists>c' d q. pw_sfp_read (Some sfp_write32) (Some sfp_read32) (int p) SFP_PW_TEST_ADDR SFP_PW_TEST_OFF 1 c =
           (c', Inr [ee_mem m SFP_PW_TEST_ADDR SFP_PW_TEST_OFF]) \<and> only_cage p c (Some (m\<lparr>ee_dev := d, ee_ptr := q\<rparr>)) c'"
  using card_read [OF assms, of SFP_PW_TEST_ADDR SFP_PW_TEST_OFF 1] test_byte
  by (auto simp: SFP_PW_TEST_ADDR_def SFP_PW_TEST_OFF_def peek_def)

lemma test_write:
  assumes "p \<le> 1" "card_quiet c" "sc_cages c p = Some m" "at_rest m" "ee_cycle m < 50"
  shows "\<exists>c' d q. pw_sfp_write (Some sfp_write32) (Some sfp_read32) (int p) SFP_PW_TEST_ADDR SFP_PW_TEST_OFF [v] c = (c', Inr ()) \<and>
           only_cage p c (Some ((commit (SFP_PW_TEST_ADDR, SFP_PW_TEST_OFF, v) m)\<lparr>ee_dev := d, ee_ptr := q\<rparr>)) c'"
  using card_write [OF assms(1-4), of SFP_PW_TEST_ADDR SFP_PW_TEST_OFF "[v]"] assms(5)
  by (auto simp: SFP_PW_TEST_ADDR_def SFP_PW_TEST_OFF_def)

lemma test_flip:
  fixes t :: u8
  defines "upd \<equiv> commit (SFP_PW_TEST_ADDR, SFP_PW_TEST_OFF, t)"
  assumes "p \<le> 1" "card_quiet c" "sc_cages c p = Some m" "at_rest m" "ee_cycle m < 50"
  shows "\<exists>c1 c2 c3 d q.
      pw_sfp_read (Some sfp_write32) (Some sfp_read32) (int p) SFP_PW_TEST_ADDR SFP_PW_TEST_OFF 1 c =
        (c1, Inr [ee_mem m SFP_PW_TEST_ADDR SFP_PW_TEST_OFF]) \<and>
      pw_sfp_write (Some sfp_write32) (Some sfp_read32) (int p) SFP_PW_TEST_ADDR SFP_PW_TEST_OFF [t] c1 = (c2, Inr ()) \<and>
      pw_sfp_read (Some sfp_write32) (Some sfp_read32) (int p) SFP_PW_TEST_ADDR SFP_PW_TEST_OFF 1 c2 =
        (c3, Inr [ee_mem (upd m) SFP_PW_TEST_ADDR SFP_PW_TEST_OFF]) \<and>
      only_cage p c (Some ((upd m)\<lparr>ee_dev := d, ee_ptr := q\<rparr>)) c3"
proof -
  obtain c1 d1 q1 where s1: "pw_sfp_read (Some sfp_write32) (Some sfp_read32) (int p) SFP_PW_TEST_ADDR SFP_PW_TEST_OFF 1 c =
        (c1, Inr [ee_mem m SFP_PW_TEST_ADDR SFP_PW_TEST_OFF])" "only_cage p c (Some (m\<lparr>ee_dev := d1, ee_ptr := q1\<rparr>)) c1"
    using test_read [OF assms(2-5)] by blast
  let ?m1 = "m\<lparr>ee_dev := d1, ee_ptr := q1\<rparr>"
  have r1: "at_rest ?m1" "ee_cycle ?m1 < 50" using assms(5,6) by (simp_all add: at_rest_def)
  obtain c2 d2 q2 where s2: "pw_sfp_write (Some sfp_write32) (Some sfp_read32) (int p) SFP_PW_TEST_ADDR SFP_PW_TEST_OFF [t] c1 = (c2, Inr ())"
      "only_cage p c1 (Some ((upd ?m1)\<lparr>ee_dev := d2, ee_ptr := q2\<rparr>)) c2"
    using test_write [OF assms(2) only_cageD [OF s1(2)] r1, of t] unfolding upd_def by blast
  let ?m2 = "(upd m)\<lparr>ee_dev := d2, ee_ptr := q2\<rparr>"
  have o2: "only_cage p c1 (Some ?m2) c2" using s2(2) by (simp add: upd_def commit_at)
  have "at_rest ?m2" using assms(5) by (simp add: at_rest_def upd_def)
  from test_read [OF assms(2) only_cageD [OF o2] this] obtain c3 d3 q3 where
    s3: "pw_sfp_read (Some sfp_write32) (Some sfp_read32) (int p) SFP_PW_TEST_ADDR SFP_PW_TEST_OFF 1 c2 =
        (c3, Inr [ee_mem (upd m) SFP_PW_TEST_ADDR SFP_PW_TEST_OFF])" "only_cage p c2 (Some (?m2\<lparr>ee_dev := d3, ee_ptr := q3\<rparr>)) c3"
    by auto
  from s3(2) have "only_cage p c2 (Some ((upd m)\<lparr>ee_dev := d3, ee_ptr := q3\<rparr>)) c3" by simp
  with only_cage_trans [OF s1(2) only_cage_trans [OF o2]] s1(1) s2(1) s3(1) show ?thesis by blast
qed

text \<open>
  C27. The password probe tells exactly whether the password opens the module: for a module at rest that finishes its
  write cycles within the polls, it returns true iff the module is unprotected or the password is its
  password, the password stays entered, every byte outside the entry area is as before, the test byte
  included, and nothing else on the card changes.
\<close>

theorem sfp_password_exact:
  assumes "p \<le> 1" "card_quiet c" "sc_cages c p = Some m" "at_rest m" "ee_cycle m < 50"
  shows "\<exists>c' m'. pw_sfp_try_write_password (Some sfp_write32) (Some sfp_read32) (int p) pw c =
             (c', Inr (ee_secret m = None \<or> ee_secret m = Some pw)) \<and>
           only_cage p c (Some m') c' \<and> at_rest m' \<and> entered m' = pw \<and>
           (\<forall>a i. \<not> pw_entry a i \<longrightarrow> ee_mem m' a i = ee_mem m a i)"
proof -
  let ?A = SFP_PW_TEST_ADDR and ?O = SFP_PW_TEST_OFF
  let ?o = "ee_mem m ?A ?O" let ?t = "?o XOR 0xFF"
  obtain c1 m1 where s1: "pw_sfp_unlock (Some sfp_write32) (Some sfp_read32) (int p) pw c = (c1, Inr ())"
      "only_cage p c (Some m1) c1" "at_rest m1" "ee_cycle m1 < 50" "ee_secret m1 = ee_secret m" "entered m1 = pw"
      "\<And>a i. \<not> pw_entry a i \<Longrightarrow> ee_mem m1 a i = ee_mem m a i"
    using card_unlock [OF assms, of pw] assms(5) by auto
  have o1: "ee_mem m1 ?A ?O = ?o" by (rule s1(7) [OF test_byte])
  let ?m2 = "commit (?A, ?O, ?t) m1"
  from test_flip [OF assms(1) only_cageD [OF s1(2)] s1(3,4), of ?t, unfolded o1] obtain c2 c3 c4 d q where
    s2: "pw_sfp_read (Some sfp_write32) (Some sfp_read32) (int p) ?A ?O 1 c1 = (c2, Inr [?o])"
      "pw_sfp_write (Some sfp_write32) (Some sfp_read32) (int p) ?A ?O [?t] c2 = (c3, Inr ())"
      "pw_sfp_read (Some sfp_write32) (Some sfp_read32) (int p) ?A ?O 1 c3 = (c4, Inr [ee_mem ?m2 ?A ?O])"
      "only_cage p c1 (Some (?m2\<lparr>ee_dev := d, ee_ptr := q\<rparr>)) c4" by blast
  let ?m3 = "?m2\<lparr>ee_dev := d, ee_ptr := q\<rparr>"
  have r3: "at_rest ?m3" "ee_cycle ?m3 < 50" using s1(3,4) by (simp_all add: at_rest_def)
  obtain c5 d5 q5 where s3: "pw_sfp_write (Some sfp_write32) (Some sfp_read32) (int p) ?A ?O [?o] c4 = (c5, Inr ())"
      "only_cage p c4 (Some ((commit (?A, ?O, ?o) ?m3)\<lparr>ee_dev := d5, ee_ptr := q5\<rparr>)) c5"
    using test_write [OF assms(1) only_cageD [OF s2(4)] r3] by blast
  note o4 = only_cage_trans [OF s1(2) s2(4)]
  note run = pw_sfp_try_write_password_def s1(1) s2(1-3) s3(1) Let_def prod.case sum.case nth_Cons_0 fst_conv
  have u: "unlocked m1 \<longleftrightarrow> ee_secret m = None \<or> ee_secret m = Some pw" using s1(5,6) by (auto simp: unlocked_iff)
  show ?thesis
  proof (cases "unlocked m1")
    case True
    let ?m5 = "(commit (?A, ?O, ?o) ?m3)\<lparr>ee_dev := d5, ee_ptr := q5\<rparr>"
    have m2: "ee_mem ?m2 = (ee_mem m1)(?A := (ee_mem m1 ?A)(?O := ?t))" using True by (simp add: commit_def)
    have "unlocked ?m2" using True by (simp add: unlocked_iff entered_test)
    then have "ee_mem ?m5 = ee_mem m1" by (simp add: commit_def m2 o1 [symmetric])
    moreover have "pw_sfp_try_write_password (Some sfp_write32) (Some sfp_read32) (int p) pw c = (c5, Inr True)"
      by (simp only: run) (simp add: m2)
    moreover have "at_rest ?m5" using r3(1) by (simp add: at_rest_def)
    moreover note only_cage_trans [OF o4 s3(2)]
    ultimately show ?thesis using True s1(6,7) u by (intro exI [of _ c5] exI [of _ ?m5]) (simp add: entered_def)
  next
    case False
    then have m2: "?m2 = m1" by (simp add: commit_def test_byte)
    have "pw_sfp_try_write_password (Some sfp_write32) (Some sfp_read32) (int p) pw c = (c4, Inr False)"
      by (simp only: run m2 o1) (simp add: flip_byte [THEN not_sym] flip_byte)
    moreover have "entered ?m3 = pw" using s1(6) by (simp add: m2 entered_def)
    ultimately show ?thesis using False s1(7) u o4 r3(1) by (intro exI [of _ c4] exI [of _ ?m3]) (simp add: m2)
  qed
qed

theorem sfp_password_exact_witness:
  "(\<exists>c'. pw_sfp_try_write_password (Some sfp_write32) (Some sfp_read32) 1 0xDEADBEEF (ex_sfp_card 1) = (c', Inr True)) \<and>
   (\<exists>c'. pw_sfp_try_write_password (Some sfp_write32) (Some sfp_read32) 1 0 (ex_sfp_card 1) = (c', Inr False))"
proof -
  have c: "ee_cycle (ex_module s) < 50" for s by (simp add: ex_sfp)
  note P = sfp_password_exact [where p = 1, OF _ ex_sfp(1,2,4) c, simplified]
  show ?thesis using P [of "0xDEADBEEF"] P [of 0] by (auto simp: ex_sfp)
qed

text \<open>What a probe reports of a module: the decoded identification page, and the diagnostics of an internally calibrated one.\<close>

definition decoded :: "eeprom \<Rightarrow> pw_sfp_info" where
  "decoded m =
     (let info = sfp_identity (map (\<lambda>i. peek m 0x50 (of_nat i)) [0..<96]) in
      if sfp_dom_supported info \<and> \<not> sfp_dom_external_cal info
      then info\<lparr>sfp_dom := Some (dom_values (map (\<lambda>i. peek m 0x51 (96 + of_nat i)) [0..<10]))\<rparr> else info)"

lemma sfp_probe_exact:
  assumes "p \<le> 1" "card_quiet c" "sc_cages c p = Some m" "at_rest m"
  shows "\<exists>c' m'. pw_sfp_probe (Some sfp_write32) (Some sfp_read32) (int p) c = (c', Inr (Some (decoded m))) \<and>
           only_cage p c (Some m') c' \<and> at_rest m' \<and> ee_mem m' = ee_mem m"
proof -
  let ?a0 = "map (\<lambda>i. peek m 0x50 (of_nat i)) [0..<96]" and ?a2 = "map (\<lambda>i. peek m 0x51 (96 + of_nat i)) [0..<10]"
  obtain c1 m1 where s1: "pw_sfp_read (Some sfp_write32) (Some sfp_read32) (int p) 0x50 0 96 c = (c1, Inr ?a0)"
      "only_cage p c (Some m1) c1" "at_rest m1" "ee_mem m1 = ee_mem m"
    using card_read [OF assms, of "0x50" 0 96, unfolded add_0] assms(4) by (auto simp: at_rest_def simp del: upt_rec_numeral map_map list.map)
  have pk: "peek m1 = peek m" by (simp add: fun_eq_iff peek_def s1(4))
  obtain c2 m2 where s2: "pw_sfp_read (Some sfp_write32) (Some sfp_read32) (int p) 0x51 96 10 c1 = (c2, Inr ?a2)"
      "only_cage p c1 (Some m2) c2" "at_rest m2" "ee_mem m2 = ee_mem m1"
    using card_read [OF assms(1) only_cageD [OF s1(2)] s1(3), of "0x51" 96 10] s1(3) by (auto simp: at_rest_def pk simp del: upt_rec_numeral)
  let ?i = "sfp_identity ?a0"
  show ?thesis
  proof (cases "sfp_dom_supported ?i \<and> \<not> sfp_dom_external_cal ?i")
    case True
    then have "pw_sfp_probe (Some sfp_write32) (Some sfp_read32) (int p) c = (c2, Inr (Some (decoded m)))"
      by (simp add: pw_sfp_probe_def decoded_def s1(1) s2(1) Let_def del: upt_rec_numeral)
    with only_cage_trans [OF s1(2) s2(2)] s1(4) s2(3,4) show ?thesis by metis
  next
    case False
    then have "pw_sfp_probe (Some sfp_write32) (Some sfp_read32) (int p) c = (c1, Inr (Some (decoded m)))"
      by (simp only: pw_sfp_probe_def decoded_def s1(1) Let_def prod.case sum.case if_False)
    with s1(2-4) show ?thesis by blast
  qed
qed

end
