(* ===== verification/Spec2Isabelle.thy ===== *)
theory Spec2Isabelle
  imports PW_Daemon_Bar PW_Cli_Remote PW_Cli_Test PW_Cli_Firmware PW_Dma PW_Tap PW_Vfio PW_Sfp_Module
begin

text \<open>
  PacketWyrm is the host software of a family of FPGA packet generator and checker cards: a library
  (\<open>src/sw/libpacketwyrm\<close>), a daemon that owns the cards, a command-line tool and a proxy. The library
  reads a configuration of cards, ports, logical interfaces, flows and forward rules, validates it,
  compiles it into the tables of each card, writes the tables through a backend, moves slow-path
  packets between a card and TAP interfaces, and reads counters back. This development models the
  library, the daemon's control of the cards, the gateway and the calls of the tool, and proves that the parts do what the
  configuration says; this theory holds the properties that span components.

  \<^bold>\<open>Parts, and the theory that models each.\<close>
  \<^item> \<open>PW_Prelude\<close>: results (\<open>error + value\<close>, where \<open>Inl\<close> is an early return), the loop shapes of the
    source as functions on lists, byte order, decimal numerals.
  \<^item> \<open>PW_Types\<close>: \<open>types.h\<close>, \<open>types.c\<close>, \<open>ids.h\<close>, \<open>ids.c\<close> (status codes, port references, TAP names).
  \<^item> \<open>PW_Scalar\<close>: \<open>scalar.c\<close> and the CIDR reader of \<open>config.c\<close>, over the C library functions they call
    (\<open>strtoull\<close>, \<open>sscanf\<close> with \<open>%x\<close>, \<open>inet_pton\<close>), written out. The locale \<open>scalar_codec\<close> pairs a reader with a writer.
  \<^item> \<open>PW_Yaml\<close>: \<open>yaml.h\<close> and \<open>yaml.c\<close>, the document tree and its builder, over the events of libyaml.
  \<^item> \<open>PW_Config\<close>: the structs of \<open>config.h\<close> as records; construction, look-ups, port resolution and
    \<open>pw_config_clone_env\<close> of \<open>config.c\<close>.
  \<^item> \<open>PW_Config_Parse\<close>: the schema walker and the entry points of \<open>config.c\<close>. \<open>PW_Config_Range\<close> says what a
    configuration that was read looks like, \<open>PW_Config_Text\<close> writes such a configuration as a document, and
    \<open>PW_Config_Doc\<close> joins them with the tree builder.
  \<^item> \<open>PW_Validate\<close>: \<open>pw_config_validate\<close> (\<open>validate.c\<close>), and the abstract \<open>valid_config\<close> it decides.
  \<^item> \<open>PW_Csr\<close>: the register map of \<open>csr.h\<close> and the packed \<open>pwfpga_flow_config\<close> with its byte image.
  \<^item> \<open>PW_Flow_Compiler\<close>: \<open>flow_compiler.c\<close>, function by function. \<open>PW_Compile_Inv\<close> is its invariant
    (capacities, and where every flow is placed), \<open>PW_Compile_Hash\<close> the seed search and the relaxation of
    the hash mask, \<open>PW_Compile_Rules\<close> what the punt and forward rules mean, \<open>PW_Compile_Live\<close> when the
    compiler succeeds and why it fails.
  \<^item> \<open>PW_Programming\<close>: \<open>programming.c\<close> over a table of optional backend operations; the locale
    \<open>csr_registers\<close> is what a register file promises, and is interpreted by the BAR.
  \<^item> \<open>PW_Stats\<close>: \<open>stats.c\<close>.
  \<^item> \<open>PW_Bar_Backend\<close> and \<open>PW_Dma\<close>: \<open>backend_bar.c\<close>, the register window with its bounds checks, and the
    XDMA slow path (pool layout, descriptor ring, reaper, inject, attach).
  \<^item> \<open>PW_Fake_Backend\<close>: \<open>backend_fake.c\<close>, with its FIFOs as an instance of the locale of bounded queues.
  \<^item> \<open>PW_Host_Plane\<close>: \<open>host_plane.c\<close> over any backend and any answers of the kernel.
  \<^item> \<open>PW_Tap\<close>: \<open>tap.c\<close> and the daemon's \<open>setup_taps\<close>, which binds the TAPs to the host planes, against the
    descriptors and interfaces the kernel holds for the process.
  \<^item> \<open>PW_Gpio_Sync\<close>: \<open>gpio_sync.c\<close>.
  \<^item> \<open>PW_Frame_Preview\<close>: \<open>frame_preview.c\<close>.
  \<^item> \<open>PW_Pci\<close>: \<open>pci.c\<close>, bus addresses, discovery and the opening of BAR 0, over the files of sysfs.
  \<^item> \<open>PW_Vfio\<close>: \<open>vfio.c\<close>, the IOMMU groups that cards share, BARs and DMA mappings, against what the kernel holds
    for the process.
  \<^item> \<open>PW_Spi_Flash\<close>: \<open>spi_flash.c\<close> over the register operations of a backend; the locale \<open>nor_flash\<close> is what
    a transaction does to the flash. \<open>PW_Flash_Card\<close> interprets it with the SPI engine of the card
    (\<open>src/rtl/phase3/pw_spi_flash.sv\<close>) and a NOR flash behind it.
  \<^item> \<open>PW_Sfp\<close>: \<open>sfp.c\<close>, the two-wire transfers, module memory, passwords and identification. \<open>PW_Sfp_Module\<close>
    has a module behind the lines of a cage; the locale \<open>cage\<close> is the contract of the register with it, and is
    interpreted for both cages of a card.
  \<^item> \<open>PW_Ipc\<close>: \<open>ipc.c\<close>, the framing of the control protocol and the set-up of its socket.
  \<^item> \<open>PW_Lookup\<close>: the classifier's view of a programmed card (flow-id map and header hash, as instances of
    the locale \<open>bucket_table\<close>), which ties compiler, programming and backend together.
  \<^item> \<open>PW_Daemon\<close>: the control of the cards in the daemon's \<open>main.c\<close>: startup, programming all cards, time
    synchronisation and latency correction, the run state of flows, config.load with its roll-back, and the requests
    that start, stop, arm and clear, as a transition system. \<open>PW_Daemon_State\<close> is about the run state in the staged
    program. \<open>PW_Daemon_Sync\<close> states what the daemon relies on in its cards (the locale \<open>card_plane\<close>, and
    \<open>sized_plane\<close> for cards that only run out of room) and proves the daemon's invariant under it;
    \<open>PW_Daemon_Bar\<close> interprets both with BARs at different PCI addresses.
  \<^item> \<open>PW_Daemon_Rpc\<close>: the requests of the control socket in \<open>handle_client\<close>: authentication and dispatch, over
    json-c as a parameter, and the secret of the environment file in \<open>config.get_raw\<close> and \<open>config.save\<close>.
    \<open>PW_Daemon_Flash\<close>: \<open>flash.id\<close> and \<open>flash.write\<close>, which join the daemon with the flash. \<open>PW_Daemon_Report\<close>: the
    replies on ports and flows, their counters and histograms, as JSON values.
  \<^item> \<open>PW_Proxy\<close>: the HTTPS gateway \<open>packetwyrm-proxyd\<close>: options, startup, the reading of a request, the guards of
    the control endpoint, the probe of the daemon's secret, the relay, and the connections as a transition system.
    \<open>PW_Proxy_Http\<close> is about reading a request, \<open>PW_Proxy_Guard\<close> about what reaches the daemon, with the daemon's
    own dispatch behind the probe.
  \<^item> \<open>PW_Cli\<close>: the tool \<open>pktwyrm\<close>: its secret, the address of a gateway, and a call over the socket or over HTTPS.
    \<open>PW_Cli_Remote\<close> joins it with the gateway, \<open>PW_Cli_Test\<close> has \<open>test run\<close> and joins it with the daemon's reports and
    the compiler, \<open>PW_Cli_Firmware\<close> has \<open>load\<close> and \<open>firmware update\<close> and joins the latter with the flash.
  \<^item> \<open>PW_Example\<close>: a small set-up at which the properties are applied.

  \<^bold>\<open>State and effects.\<close> Structs are records, enums datatypes or constants of the width the source
  stores them at, \<open>uintN_t\<close> is \<open>N word\<close>, arrays are lists whose lengths are stated where they matter. A
  function that mutates its argument returns the new value; \<open>goto fail\<close> and early returns are \<open>Inl\<close>.
  Pointers that may be NULL are options. The BAR is a word-addressed memory; what hardware answers (the
  completed count, the channel status, register reads of another card) is an argument or an arbitrary
  reader, so the theorems hold for every answer. Kernel calls on file descriptors are a record of
  functions on an arbitrary state. libyaml is a parameter, a function from a text to its events; json-c is a record of
  functions on an arbitrary type of values.

  \<^bold>\<open>What is shown.\<close> Reader, compiler, programming and BAR together: a configuration file that is read, compiled
  and written to a card is what the card looks up, by flow id and by header. Reader: numbers, addresses and
  documents are read exactly, and the configurations that can be read are exactly the well-formed ones.
  Compiler: exclusive slots, meaning of the rules, capacities, success and causes of failure, optimal hash
  placement. Daemon: after any sequence of requests the cards hold the program the daemon believes they hold, a
  load is all or nothing and transmits nothing, and starting a flow starts that flow; only a request with the secret
  has an effect, and the secret neither leaves the daemon nor gets lost when the redacted file is saved. Gateway: a
  request is read the same however it arrives, and only guarded requests reach the daemon, on a public address only
  while its secret is confirmed. Tool: a call through a gateway has the result of the same call on the gateway's machine,
  the verdict of a test run is what the receivers of all flows counted, and an update leaves exactly the image in the
  flash. The remaining properties are about one component each: the validator decides \<open>valid_config\<close>, the
  DMA ring hands out exactly the frames the engine wrote, in order, and only intact ones, and so on; each is
  stated in the theory of its component.

  \<^bold>\<open>Bounds.\<close> The seed search makes 4096 attempts, the coherent offset 8, the inject window's wait
  100000 reads, the flash polls 2000000 and 4000000, a released clock line 100 reads, a module's write
  cycle 50 polls, the priming of a correction 200 attempts: these are the source's own bounds, kept as such. The tree builder's recursion is bounded by the
  number of events, which is shown to be enough for every stream. The completion poll of the DMA inject reads
  a list of observations, one per turn of the loop, and returns when the list shows completion, an error or the
  deadline; a list that shows none of them is a call that has not returned.

  \<^bold>\<open>Not modelled.\<close> Allocation failure. The texts of diagnostics. Of the daemon, the replies
  outside \<open>PW_Daemon_Report\<close>, the exporter and the threads; its requests and the servo's turns are taken as atomic steps. Of the
  tool, printing and the commands that only print; of the gateway, the TLS context; the rounding of the double arithmetic in the module diagnostics; mutual exclusion (the operations of a backend are taken as atomic, which the
  library ensures with a mutex or with disjoint registers).
\<close>

section \<open>From the file to the classifier\<close>

text \<open>Every packet of a header-classified flow finds the flow's slot.\<close>

lemma compiled_header_lookup:
  assumes "pw_flow_compile (Some cfg) = Inr p" and "cp \<in> set (prog_per_card p)" and "holds_tables (bar_get c) cp"
    and "j < length (cfg_flows cfg)" and "\<not> flow_background (cfg_flows cfg ! j)" and "flow_classify_header (cfg_flows cfg ! j)"
    and "cp_card_id cp = meta_rx_card_id (prog_flow_meta p ! j)" and "v6_mods_ok (cfg_flows cfg ! j)"
  shows "hash_lookup (bar_get c) (frame_hash_key (cfg_flows cfg ! j) q) = Some (meta_rx_local_flow_id (prog_flow_meta p ! j))"
  using compiled_hash_lookup [OF assms(1,2,4) refl refl assms(5-7,3)] frame_key_rotated [OF assms(8), of q] by metis

text \<open>What the reader guarantees to the compiler.\<close>

lemma low_mask_be: "ucast (low_mask mk) = be_word mk 3"
  by (rule bit_word_eqI) (auto simp: low_mask_def be_word_def be32_def bit_simps not_le)

lemma read_mods: "flow_ok f \<Longrightarrow> v6_mods_ok f"
  by (auto simp: flow_ok_def v6_mods_ok_def mods_ok_def fm6_ok_def low_mask_be endpoint_ok_def)

lemma read_flows: "config_ok cfg \<Longrightarrow> f \<in> set (cfg_flows cfg) \<Longrightarrow> flow_arrays f \<and> v6_mods_ok f"
  using read_mods flow_ok_arrays by (simp add: config_ok_def list_all_iff)



text \<open>
  C2. Writing a configuration and reading it gives it back: whenever libyaml reports for a text the events of
  the document that writes out a well-formed configuration whose texts contain no NUL, at whatever lines,
  \<open>pw_config_parse_string\<close> returns exactly that configuration, whatever the configuration object held before.
\<close>

theorem config_roundtrip:
  assumes "config_ok c" and "list_all nul_free (config_texts c)"
    and "libyaml doc = (Stream_start, a) # (Document_start, b) # body @ [(Document_end, d), (Stream_end, e)]"
    and "map fst body = kinds (yaml_of_config c)"
  shows "pw_config_parse_string libyaml (Some doc) (Some old) = Inr c"
  unfolding pw_config_parse_string_def
  by (rule config_read_back [of c libyaml doc, OF assms(1,2) assms(3) [folded document_def] assms(4)])

theorem config_roundtrip_witness:
  "pw_config_parse_string (\<lambda>_. ex_events) (Some ''x'') (Some pw_config_new) = Inr ex_config \<and> length (cfg_flows ex_config) = 3"
proof -
  have k: "map fst (map (\<lambda>k. (k, 1)) (kinds (yaml_of_config ex_config))) = kinds (yaml_of_config ex_config)"
    by (simp add: comp_def)
  show ?thesis using config_roundtrip [where libyaml = "\<lambda>_. ex_events", OF ex_config_ok ex_config_texts ex_events_def [unfolded document_def] k] by simp
qed

section \<open>From the configuration to the classifier\<close>

text \<open>
  C16. The header look-up of a programmed card is sound: any key, from whatever frame, that hits
  slot \<open>l\<close> agrees, under the card's mask, with the header key of a header-classified, measured flow that
  is received on this card in slot \<open>l\<close>.
\<close>

theorem programmed_header_sound:
  assumes "pw_flow_compile (Some cfg) = Inr p" and "\<forall>f\<in>set (cfg_flows cfg). flow_arrays f"
    and "cp \<in> set (prog_per_card p)" and "card_ready c cp"
    and "pw_program_card_tables (Some bar_ops) c (Some cp) = (c', s)"
    and "hash_lookup (bar_get c') key = Some l"
  shows "\<exists>j < length (cfg_flows cfg).
      \<not> flow_background (cfg_flows cfg ! j) \<and> flow_classify_header (cfg_flows cfg ! j) \<and>
      meta_rx_card_id (prog_flow_meta p ! j) = cp_card_id cp \<and>
      meta_rx_local_flow_id (prog_flow_meta p ! j) = l \<and>
      mask_key (cp_hash_mask cp) key = mask_key (cp_hash_mask cp) (pw_fc_hash_words (cfg_flows cfg ! j))"
  using compiled_hash_sound [OF assms(1,3) compiled_bar_program(2) [OF assms(1-5)] assms(6)] by (simp add: Let_def)

theorem programmed_header_sound_witness:
  "\<exists>p cp c' s l. pw_flow_compile (Some ex_config) = Inr p \<and> cp \<in> set (prog_per_card p) \<and>
     pw_program_card_tables (Some bar_ops) ex_bar (Some cp) = (c', s) \<and>
     hash_lookup (bar_get c') (pw_fc_hash_words (ex_flow 2 0 2 False True)) = Some l \<and>
     l = meta_rx_local_flow_id (prog_flow_meta p ! 1)"
proof -
  obtain p c0 c1 where p: "pw_flow_compile (Some ex_config) = Inr p" and c: "prog_per_card p = [c0, c1]"
    "cp_card_id c1 = 1" and m: "meta_rx_card_id (prog_flow_meta p ! 1) = 1" by (rule ex_program)
  obtain c' s where run: "pw_program_card_tables (Some bar_ops) ex_bar (Some c1) = (c', s)" by fastforce
  have c1: "c1 \<in> set (prog_per_card p)" by (simp add: c)
  let ?f = "ex_flow 2 0 2 False True"
  have k: "cp_card_id c1 = meta_rx_card_id (prog_flow_meta p ! 1)" by (simp only: c m)
  note H = compiled_bar_program(2) [OF p ex_flow_arrays c1 ex_bar_ready run]
  have "hash_lookup (bar_get c') (rotated_key ?f (pw_fc_hash_words ?f)) = Some (meta_rx_local_flow_id (prog_flow_meta p ! 1))"
    by (rule compiled_hash_lookup [OF p c1 ex_header_flow(1,2) refl ex_header_flow(3,4) k H])
  moreover have "rotated_key ?f (pw_fc_hash_words ?f) = pw_fc_hash_words ?f" by (rule rotated_key_self)
  ultimately obtain l where hit: "hash_lookup (bar_get c') (pw_fc_hash_words ?f) = Some l" by simp
  from programmed_header_sound [OF p ex_flow_arrays c1 ex_bar_ready run hit]
  have "l = meta_rx_local_flow_id (prog_flow_meta p ! 1)" by (auto simp: nth_Cons' le_Suc_eq split: if_splits)
  with p c1 run hit show ?thesis by blast
qed




section \<open>The compiler\<close>

text \<open>
  C18. Different flows never share a slot: in a compiled program, two flows of the configuration have
  different transmit slots, a transmit slot is never another measured flow's receive slot, and two measured
  flows have different receive slots.
\<close>

theorem flow_slots_exclusive:
  assumes "pw_flow_compile (Some cfg) = Inr p" and "j < length (cfg_flows cfg)" and "k < length (cfg_flows cfg)"
    and "j \<noteq> k" and "m = prog_flow_meta p ! j" and "n = prog_flow_meta p ! k"
  shows "(meta_tx_card_id m, meta_tx_local_flow_id m) \<noteq> (meta_tx_card_id n, meta_tx_local_flow_id n) \<and>
    (\<not> flow_background (cfg_flows cfg ! k) \<longrightarrow>
      (meta_tx_card_id m, meta_tx_local_flow_id m) \<noteq> (meta_rx_card_id n, meta_rx_local_flow_id n)) \<and>
    (\<not> flow_background (cfg_flows cfg ! j) \<and> \<not> flow_background (cfg_flows cfg ! k) \<longrightarrow>
      (meta_rx_card_id m, meta_rx_local_flow_id m) \<noteq> (meta_rx_card_id n, meta_rx_local_flow_id n))"
  using compiled_slots_exclusive [OF assms(1-4)] by (simp add: assms(5,6))

theorem flow_slots_exclusive_witness:
  "\<exists>p. pw_flow_compile (Some ex_config) = Inr p \<and>
     meta_tx_local_flow_id (prog_flow_meta p ! 0) \<noteq> meta_tx_local_flow_id (prog_flow_meta p ! 1)"
proof -
  obtain p where p: "pw_flow_compile (Some ex_config) = Inr p" "meta_tx_card_id (prog_flow_meta p ! 0) = 0"
    "meta_tx_card_id (prog_flow_meta p ! 1) = 0" by (rule ex_program)
  have j: "0 < length (cfg_flows ex_config)" by simp
  show ?thesis
    using flow_slots_exclusive [OF p(1) j ex_header_flow(1) _ refl refl] p by auto
qed



text \<open>
  C20. A compiled program fits the hardware: every card of a compiled program has at most as many flow rows,
  map entries, comparators, fields, rules and hash entries as the card has, every index into them (slots, care
  bits, hash buckets, flow ids) is in range, and no flow id and no hash bucket is used twice.
\<close>

theorem compiled_fits_hardware:
  assumes "pw_flow_compile (Some cfg) = Inr p" and "cp \<in> set (prog_per_card p)"
  shows "card_wf cp \<and> program_in_range cp \<and> distinct (map me_flow_id (cp_map_entries cp)) \<and>
    distinct (map he_index (cp_hash_entries cp))"
  using compiled_in_range [OF assms] pw_flow_compile_ok(4) [OF assms] by (simp add: map_ok_def hash_ok_def)

theorem compiled_fits_hardware_witness:
  "\<exists>p cp. pw_flow_compile (Some ex_config) = Inr p \<and> cp \<in> set (prog_per_card p) \<and> program_in_range cp"
proof -
  obtain p c0 c1 where p: "pw_flow_compile (Some ex_config) = Inr p" and c: "prog_per_card p = [c0, c1]" by (rule ex_program)
  have c0: "c0 \<in> set (prog_per_card p)" by (simp add: c)
  show ?thesis using compiled_fits_hardware [OF p c0] p c0 by blast
qed

text \<open>
  C21. The compiler succeeds on what it should take: a valid configuration of at most 64 flows whose ids fit the
  flow-id map, with no punt or forward rules and at most one header-classified flow, always compiles.
\<close>

theorem compile_succeeds:
  assumes "valid_config cfg" and "length (cfg_flows cfg) \<le> PWFPGA_FLOW_TABLE_ROWS"
    and "\<forall>f\<in>set (cfg_flows cfg). \<not> flow_background f \<and> \<not> flow_classify_header f \<longrightarrow> unat (flow_id f) < PWFPGA_FLOWID_MAP_DEPTH"
    and "\<forall>l\<in>set (cfg_logical_if cfg). punt_list (lif_punt l) = []" and "cfg_forwards cfg = []"
    and "length (filter flow_classify_header (cfg_flows cfg)) \<le> 1"
  shows "\<exists>p. pw_flow_compile (Some cfg) = Inr p"
  by (rule pw_flow_compile_success [OF assms(1,2) _ assms(4,5,6)]) (use assms(3) in \<open>auto simp: map_id_ok_def\<close>)

theorem compile_succeeds_witness: "\<exists>p. pw_flow_compile (Some ex_config) = Inr p"
  by (rule compile_succeeds [OF ex_valid]) (simp_all add: csr_capacities ex_config_def pw_config_new_def)





end
